(* ===== verification/RustStd.thy ===== *)
theory RustStd
  imports Main "HOL-Library.Word" "HOL-Library.Product_Lexorder"
begin

text \<open>
  The prelude: what the source uses of the Rust language and its standard library, and the
  generic lemmas the component theories share. Machine integers are words, an \<open>Instant\<close> is
  a number of nanoseconds, a Rust \<open>String\<close> is the list of its UTF-8 bytes (an Isabelle
  \<open>char\<close> is one byte). \<open>min_by_key\<close> keeps the first of several minimal elements and
  \<open>max_by_key\<close> the last of several maximal ones, as \<open>Iterator\<close> documents.
\<close>

section \<open>Machine integers and clocks\<close>

type_synonym u8 = "8 word"
type_synonym u16 = "16 word"
type_synonym u32 = "32 word"
type_synonym u64 = "64 word"

text \<open>\<open>std::time::Instant\<close> and \<open>Duration\<close>, in nanoseconds.\<close>

type_synonym instant = nat
type_synonym duration = nat

definition nanos_per_sec :: nat where
  "nanos_per_sec = 1000000000"

definition from_secs :: "u64 \<Rightarrow> duration" where
  "from_secs s = unat s * nanos_per_sec"

text \<open>Seconds of a duration rounded up: \<open>as_secs() + u64::from(subsec_nanos() > 0)\<close>.\<close>

definition secs_ceil :: "duration \<Rightarrow> nat" where
  "secs_ceil d = d div nanos_per_sec + (if 0 < d mod nanos_per_sec then 1 else 0)"

definition sat_add :: "'a::len word \<Rightarrow> 'a word \<Rightarrow> 'a word" where
  "sat_add a b = (if unat a + unat b < 2 ^ LENGTH('a) then a + b else - 1)"

definition sat_sub :: "'a::len word \<Rightarrow> 'a word \<Rightarrow> 'a word" where
  "sat_sub a b = (if b \<le> a then a - b else 0)"

lemma unat_sat_add:
  "unat (sat_add a b) = min (unat a + unat b) (2 ^ LENGTH('a) - 1)" for a b :: "'a::len word"
  by (auto simp: sat_add_def unat_word_ariths unsigned_minus_1_eq_mask mask_eq_exp_minus_1)

lemma unat_le_max: "unat a \<le> 2 ^ LENGTH('a) - 1" for a :: "'a::len word"
proof -
  have "unat a < 2 ^ LENGTH('a)" by (rule unsigned_less)
  then show ?thesis by linarith
qed

lemma sat_add_mono: "a \<le> sat_add a b"
  unfolding word_le_nat_alt unat_sat_add using unat_le_max [of a] by simp

lemma secs_ceil_pos: "0 < d \<Longrightarrow> 0 < secs_ceil d"
  by (auto simp: secs_ceil_def nanos_per_sec_def)

lemma ceil_div_covers: "0 < n \<Longrightarrow> d \<le> (d div n + (if 0 < d mod n then 1 else 0)) * n" for d n :: nat
proof -
  assume n: "0 < n"
  define q r where "q = d div n" and "r = d mod n"
  have "d = n * q + r" and "r \<le> n"
    using n by (simp_all add: q_def r_def less_imp_le)
  then show ?thesis
    unfolding q_def [symmetric] r_def [symmetric] by (auto simp: algebra_simps)
qed

lemma secs_ceil_covers: "d \<le> secs_ceil d * nanos_per_sec"
  unfolding secs_ceil_def by (rule ceil_div_covers) (simp add: nanos_per_sec_def)

section \<open>Iterators\<close>

fun min_by_key :: "('a \<Rightarrow> 'k::linorder) \<Rightarrow> 'a list \<Rightarrow> 'a option" where
  "min_by_key k [] = None"
| "min_by_key k (x # xs) =
     (case min_by_key k xs of
        None \<Rightarrow> Some x
      | Some y \<Rightarrow> if k x \<le> k y then Some x else Some y)"

fun max_by_key :: "('a \<Rightarrow> 'k::linorder) \<Rightarrow> 'a list \<Rightarrow> 'a option" where
  "max_by_key k [] = None"
| "max_by_key k (x # xs) =
     (case max_by_key k xs of
        None \<Rightarrow> Some x
      | Some y \<Rightarrow> if k y < k x then Some x else Some y)"

lemma min_by_key_None [simp]: "min_by_key k xs = None \<longleftrightarrow> xs = []"
  by (cases xs) (auto split: option.splits)

lemma max_by_key_None [simp]: "max_by_key k xs = None \<longleftrightarrow> xs = []"
  by (cases xs) (auto split: option.splits)

lemma min_by_key_Some:
  "min_by_key k xs = Some x \<Longrightarrow> x \<in> set xs \<and> (\<forall>y \<in> set xs. k x \<le> k y)"
proof (induction xs arbitrary: x)
  case (Cons a xs)
  then show ?case
    by (cases "min_by_key k xs") (fastforce split: if_splits)+
qed simp

lemma max_by_key_Some:
  "max_by_key k xs = Some x \<Longrightarrow> x \<in> set xs \<and> (\<forall>y \<in> set xs. k y \<le> k x)"
proof (induction xs arbitrary: x)
  case (Cons a xs)
  then show ?case
    by (cases "max_by_key k xs") (fastforce split: if_splits)+
qed simp

lemmas min_by_key_in = min_by_key_Some [THEN conjunct1]
lemmas max_by_key_in = max_by_key_Some [THEN conjunct1]

lemma min_by_key_ex: "(\<exists>x. min_by_key k xs = Some x) \<longleftrightarrow> xs \<noteq> []"
  by (metis min_by_key_None not_None_eq)

text \<open>\<open>std::cmp::Reverse\<close>: the same values in the opposite order.\<close>

datatype 'a reverse = Reverse (unreverse: 'a)

instantiation reverse :: (linorder) linorder
begin

definition less_eq_reverse :: "'a reverse \<Rightarrow> 'a reverse \<Rightarrow> bool" where
  "less_eq_reverse a b \<longleftrightarrow> unreverse b \<le> unreverse a"

definition less_reverse :: "'a reverse \<Rightarrow> 'a reverse \<Rightarrow> bool" where
  "less_reverse a b \<longleftrightarrow> unreverse b < unreverse a"

instance
  by standard (auto simp: less_eq_reverse_def less_reverse_def reverse.expand)

end

text \<open>\<open>iter_mut().find(p)\<close> followed by an update of the element found.\<close>

fun update_first :: "('a \<Rightarrow> bool) \<Rightarrow> ('a \<Rightarrow> 'a) \<Rightarrow> 'a list \<Rightarrow> 'a list" where
  "update_first p f [] = []"
| "update_first p f (x # xs) = (if p x then f x # xs else x # update_first p f xs)"

lemma length_update_first [simp]: "length (update_first p f xs) = length xs"
  by (induction xs) auto

lemma map_update_first:
  "(\<And>x. x \<in> set xs \<Longrightarrow> p x \<Longrightarrow> g (f x) = g x) \<Longrightarrow> map g (update_first p f xs) = map g xs"
  by (induction xs) auto

lemma set_update_first:
  "y \<in> set (update_first p f xs) \<Longrightarrow> y \<in> set xs \<or> (\<exists>x \<in> set xs. p x \<and> y = f x)"
  by (induction xs) (auto split: if_splits)

lemma find_Some_in: "List.find p xs = Some x \<Longrightarrow> x \<in> set xs \<and> p x"
  by (auto simp: find_Some_iff)

lemma find_None_notin: "List.find p xs = None \<longleftrightarrow> (\<forall>x \<in> set xs. \<not> p x)"
  by (auto simp: find_None_iff)

lemma update_first_none: "\<forall>x \<in> set xs. \<not> p x \<Longrightarrow> update_first p f xs = xs"
  by (induction xs) auto

lemma find_update_first:
  "(\<And>x. p x \<Longrightarrow> p (f x)) \<Longrightarrow> List.find p (update_first p f xs) = map_option f (List.find p xs)"
  by (induction xs) auto

lemma list_all_update_first:
  "(\<forall>x \<in> set xs. Q x) \<Longrightarrow> (\<And>x. x \<in> set xs \<Longrightarrow> p x \<Longrightarrow> Q (f x)) \<Longrightarrow>
   \<forall>y \<in> set (update_first p f xs). Q y"
  by (induction xs) auto

section \<open>Hash maps\<close>

text \<open>
  A \<open>HashMap\<close> is the list of its entries in iteration order, which the language leaves open: a
  new key goes to the front here, and no result about a map depends on the order of the list.
\<close>

definition map_remove :: "'k \<Rightarrow> ('k \<times> 'v) list \<Rightarrow> ('k \<times> 'v) list" where
  "map_remove k m = filter (\<lambda>e. fst e \<noteq> k) m"

definition map_insert :: "'k \<Rightarrow> 'v \<Rightarrow> ('k \<times> 'v) list \<Rightarrow> ('k \<times> 'v) list" where
  "map_insert k v m =
     (if map_of m k = None then (k, v) # m
      else map (\<lambda>e. if fst e = k then (k, v) else e) m)"

definition map_retain :: "('v \<Rightarrow> bool) \<Rightarrow> ('k \<times> 'v) list \<Rightarrow> ('k \<times> 'v) list" where
  "map_retain p m = filter (\<lambda>e. p (snd e)) m"

abbreviation distinct_keys :: "('k \<times> 'v) list \<Rightarrow> bool" where
  "distinct_keys m \<equiv> distinct (map fst m)"

lemma map_of_map_value:
  "map_of (map (\<lambda>e. if fst e = k then (k, v) else e) m) =
     (if map_of m k = None then map_of m else (map_of m)(k \<mapsto> v))"
  by (induction m) (auto simp: fun_eq_iff)

lemma map_of_insert [simp]: "map_of (map_insert k v m) = (map_of m)(k \<mapsto> v)"
  by (auto simp: map_insert_def map_of_map_value)

lemma map_of_remove [simp]: "map_of (map_remove k m) = (map_of m)(k := None)"
  by (induction m) (auto simp: map_remove_def fun_eq_iff)

lemma keys_map_value: "map fst (map (\<lambda>e. if fst e = k then (k, v) else e) m) = map fst m"
  by (induction m) auto

lemma keys_insert:
  "map fst (map_insert k v m) = (if map_of m k = None then k # map fst m else map fst m)"
  unfolding map_insert_def using keys_map_value [of k v m] by simp

lemma distinct_keys_insert [simp]: "distinct_keys m \<Longrightarrow> distinct_keys (map_insert k v m)"
  by (simp add: keys_insert map_of_eq_None_iff)

lemma distinct_keys_remove [simp]: "distinct_keys m \<Longrightarrow> distinct_keys (map_remove k m)"
  by (simp add: map_remove_def distinct_map_filter)

lemma distinct_keys_retain [simp]: "distinct_keys m \<Longrightarrow> distinct_keys (map_retain p m)"
  by (simp add: map_retain_def distinct_map_filter)

lemma map_of_retain:
  "distinct_keys m \<Longrightarrow> map_of (map_retain p m) k =
     (case map_of m k of None \<Rightarrow> None | Some v \<Rightarrow> if p v then Some v else None)"
  by (induction m) (auto simp: map_retain_def map_of_eq_None_iff image_iff split: option.splits)

lemma length_insert_present: "map_of m k \<noteq> None \<Longrightarrow> length (map_insert k v m) = length m"
  by (auto simp: map_insert_def)

lemma length_insert_le: "length (map_insert k v m) \<le> Suc (length m)"
  by (simp add: map_insert_def)

lemma length_remove_le: "length (map_remove k m) \<le> length m"
  by (simp add: map_remove_def)

lemma length_retain_le: "length (map_retain p m) \<le> length m"
  by (simp add: map_retain_def)

lemma length_remove_less: "(k, v) \<in> set m \<Longrightarrow> length (map_remove k m) < length m"
  by (induction m) (auto simp: map_remove_def less_Suc_eq_le)

lemma set_insert:
  "e \<in> set (map_insert k v m) \<Longrightarrow> e = (k, v) \<or> e \<in> set m"
  by (auto simp: map_insert_def split: if_splits)

section \<open>Strings\<close>

definition to_ascii_lower_char :: "char \<Rightarrow> char" where
  "to_ascii_lower_char c =
     (let n = (of_char c :: nat) in if 65 \<le> n \<and> n \<le> 90 then char_of (n + 32) else c)"

definition to_ascii_lowercase :: "string \<Rightarrow> string" where
  "to_ascii_lowercase s = map to_ascii_lower_char s"

definition eq_ignore_ascii_case :: "string \<Rightarrow> string \<Rightarrow> bool" where
  "eq_ignore_ascii_case s t \<longleftrightarrow> to_ascii_lowercase s = to_ascii_lowercase t"

text \<open>The UTF-8 encodings of the characters with the Unicode property White_Space.\<close>

definition whitespace_encodings :: "string list" where
  "whitespace_encodings =
     [[CHR 0x09], [CHR 0x0A], [CHR 0x0B], [CHR 0x0C], [CHR 0x0D], [CHR 0x20],
      [CHR 0xC2, CHR 0x85], [CHR 0xC2, CHR 0xA0], [CHR 0xE1, CHR 0x9A, CHR 0x80],
      [CHR 0xE2, CHR 0x80, CHR 0x80], [CHR 0xE2, CHR 0x80, CHR 0x81],
      [CHR 0xE2, CHR 0x80, CHR 0x82], [CHR 0xE2, CHR 0x80, CHR 0x83],
      [CHR 0xE2, CHR 0x80, CHR 0x84], [CHR 0xE2, CHR 0x80, CHR 0x85],
      [CHR 0xE2, CHR 0x80, CHR 0x86], [CHR 0xE2, CHR 0x80, CHR 0x87],
      [CHR 0xE2, CHR 0x80, CHR 0x88], [CHR 0xE2, CHR 0x80, CHR 0x89],
      [CHR 0xE2, CHR 0x80, CHR 0x8A], [CHR 0xE2, CHR 0x80, CHR 0xA8],
      [CHR 0xE2, CHR 0x80, CHR 0xA9], [CHR 0xE2, CHR 0x80, CHR 0xAF],
      [CHR 0xE2, CHR 0x81, CHR 0x9F], [CHR 0xE3, CHR 0x80, CHR 0x80]]"

fun starts_with :: "'a list \<Rightarrow> 'a list \<Rightarrow> bool" where
  "starts_with s [] = True"
| "starts_with [] (p # ps) = False"
| "starts_with (c # cs) (p # ps) = (c = p \<and> starts_with cs ps)"

definition ends_with :: "'a list \<Rightarrow> 'a list \<Rightarrow> bool" where
  "ends_with s p = starts_with (rev s) (rev p)"

fun contains :: "'a list \<Rightarrow> 'a list \<Rightarrow> bool" where
  "contains [] p = (p = [])"
| "contains (c # cs) p = (starts_with (c # cs) p \<or> contains cs p)"

text \<open>Strip any number of the given nonempty prefixes; \<open>n\<close> is the length of the string, one
  unit for each byte that can be removed.\<close>

fun strip_prefixes :: "nat \<Rightarrow> string list \<Rightarrow> string \<Rightarrow> string" where
  "strip_prefixes 0 ps s = s"
| "strip_prefixes (Suc n) ps s =
     (case List.find (\<lambda>p. p \<noteq> [] \<and> starts_with s p) ps of
        None \<Rightarrow> s
      | Some p \<Rightarrow> strip_prefixes n ps (drop (length p) s))"

definition trim_start :: "string \<Rightarrow> string" where
  "trim_start s = strip_prefixes (length s) whitespace_encodings s"

definition trim_end :: "string \<Rightarrow> string" where
  "trim_end s = rev (strip_prefixes (length s) (map rev whitespace_encodings) (rev s))"

text \<open>\<open>str::trim\<close>: leading and trailing white space removed.\<close>

definition trim :: "string \<Rightarrow> string" where
  "trim s = trim_end (trim_start s)"

lemma starts_with_iff: "starts_with s p \<longleftrightarrow> (\<exists>r. s = p @ r)"
  by (induction s p rule: starts_with.induct) auto

lemma length_strip_prefixes: "length (strip_prefixes n ps s) \<le> length s"
  by (induction n ps s rule: strip_prefixes.induct)
    (auto split: option.splits intro: order_trans)

lemma length_trim: "length (trim s) \<le> length s"
  unfolding trim_def trim_end_def trim_start_def
  by (metis length_rev length_strip_prefixes order_trans)

lemma eq_ignore_ascii_case_refl [simp]: "eq_ignore_ascii_case s s"
  by (simp add: eq_ignore_ascii_case_def)

lemma eq_ignore_ascii_case_sym: "eq_ignore_ascii_case s t = eq_ignore_ascii_case t s"
  by (auto simp: eq_ignore_ascii_case_def)

lemma to_ascii_lower_char_idem [simp]:
  "to_ascii_lower_char (to_ascii_lower_char c) = to_ascii_lower_char c"
proof -
  have "(of_char (char_of (of_char c + (32::nat)) :: char) :: nat) = of_char c + 32"
    if "of_char c \<le> (90::nat)"
    using that by (simp add: of_char_of)
  then show ?thesis
    by (auto simp: to_ascii_lower_char_def Let_def)
qed

lemma to_ascii_lowercase_idem [simp]:
  "to_ascii_lowercase (to_ascii_lowercase s) = to_ascii_lowercase s"
  by (simp add: to_ascii_lowercase_def)

lemma eq_ignore_ascii_case_lower: "eq_ignore_ascii_case (to_ascii_lowercase s) s"
  by (simp add: eq_ignore_ascii_case_def)

end
