(* ===== verification/Utf8.thy ===== *)
theory Utf8
  imports RustStd
begin

text \<open>
  \<open>String::from_utf8_lossy\<close> on bytes: well-formed UTF-8 sequences (Unicode table 3-7) are kept,
  every maximal ill-formed part becomes U+FFFD. Bytes are words of eight bits; a \<open>String\<close> is
  the \<open>string\<close> of its bytes.
\<close>

definition byte_char :: "u8 \<Rightarrow> char" where
  "byte_char b = char_of (unat b)"

definition char_byte :: "char \<Rightarrow> u8" where
  "char_byte c = of_nat (of_char c)"

definition string_of_bytes :: "u8 list \<Rightarrow> string" where
  "string_of_bytes bs = map byte_char bs"

definition bytes_of_string :: "string \<Rightarrow> u8 list" where
  "bytes_of_string s = map char_byte s"

definition is_cont :: "u8 \<Rightarrow> bool" where
  "is_cont b \<longleftrightarrow> 128 \<le> b \<and> b \<le> 191"

text \<open>Length of the sequence a first byte announces; 0 where no sequence starts with it.\<close>

definition utf8_width :: "u8 \<Rightarrow> nat" where
  "utf8_width b =
     (if b < 128 then 1 else if b < 194 then 0 else if b \<le> 223 then 2
      else if b \<le> 239 then 3 else if b \<le> 244 then 4 else 0)"

definition second_ok :: "u8 \<Rightarrow> u8 \<Rightarrow> bool" where
  "second_ok b c \<longleftrightarrow>
     (if b = 224 then 160 \<le> c \<and> c \<le> 191
      else if b = 237 then 128 \<le> c \<and> c \<le> 159
      else if b = 240 then 144 \<le> c \<and> c \<le> 191
      else if b = 244 then 128 \<le> c \<and> c \<le> 143
      else is_cont c)"

text \<open>The first chunk of a nonempty byte sequence: is it a character, and how many bytes it has.\<close>

fun utf8_head :: "u8 list \<Rightarrow> bool \<times> nat" where
  "utf8_head [] = (True, 0)"
| "utf8_head (b # bs) =
     (let w = utf8_width b in
      if w = 0 then (False, 1) else if w = 1 then (True, 1)
      else if \<not> (bs \<noteq> [] \<and> second_ok b (bs ! 0)) then (False, 1)
      else if w = 2 then (True, 2)
      else if \<not> (1 < length bs \<and> is_cont (bs ! 1)) then (False, 2)
      else if w = 3 then (True, 3)
      else if \<not> (2 < length bs \<and> is_cont (bs ! 2)) then (False, 3)
      else (True, 4))"

lemma utf8_head_pos: "bs \<noteq> [] \<Longrightarrow> 0 < snd (utf8_head bs)"
  by (cases bs) (auto simp: Let_def)

lemma utf8_head_le: "snd (utf8_head bs) \<le> length bs"
  by (cases bs) (auto simp: Let_def Suc_le_eq)

function from_utf8_lossy :: "u8 list \<Rightarrow> u8 list" where
  "from_utf8_lossy bs =
     (if bs = [] then []
      else (if fst (utf8_head bs) then take (snd (utf8_head bs)) bs else [239, 191, 189])
           @ from_utf8_lossy (drop (snd (utf8_head bs)) bs))"
  by pat_completeness auto
termination
  by (relation "measure length") (auto simp: utf8_head_pos)

function valid_utf8 :: "u8 list \<Rightarrow> bool" where
  "valid_utf8 bs =
     (if bs = [] then True
      else if fst (utf8_head bs) then valid_utf8 (drop (snd (utf8_head bs)) bs) else False)"
  by pat_completeness auto
termination
  by (relation "measure length") (auto simp: utf8_head_pos)

declare from_utf8_lossy.simps [simp del] valid_utf8.simps [simp del]

lemma valid_utf8_Nil [simp]: "valid_utf8 []"
  by (simp add: valid_utf8.simps [of "[]"])

lemma from_utf8_lossy_Nil [simp]: "from_utf8_lossy [] = []"
  by (simp add: from_utf8_lossy.simps [of "[]"])

lemma from_utf8_lossy_valid [simp]: "valid_utf8 bs \<Longrightarrow> from_utf8_lossy bs = bs"
proof (induction bs rule: from_utf8_lossy.induct)
  case (1 bs)
  then show ?case
    by (cases "bs = []") (auto simp: from_utf8_lossy.simps [of bs] valid_utf8.simps [of bs])
qed

lemma utf8_width_cases: "utf8_width b \<in> {0, 1, 2, 3, 4}"
  by (simp add: utf8_width_def)

lemma utf8_head_take:
  assumes "utf8_head bs = (True, n)" and "bs \<noteq> []"
  shows "utf8_head (take n bs @ zs) = (True, n)"
proof -
  obtain b r where bs: "bs = b # r" using assms(2) by (cases bs) auto
  consider "utf8_width b = 0" | "utf8_width b = 1" | "utf8_width b = 2" | "utf8_width b = 3"
    | "utf8_width b = 4"
    using utf8_width_cases [of b] by auto
  then show ?thesis
  proof cases
    case 1
    with assms(1) bs show ?thesis by simp
  next
    case 2
    with assms(1) bs have "n = 1" by simp
    with 2 bs show ?thesis by simp
  next
    case 3
    with assms(1) bs obtain c r' where "r = c # r'" "second_ok b c" "n = 2"
      by (cases r) (auto simp: Let_def split: if_splits)
    with 3 bs show ?thesis by (simp add: numeral_2_eq_2)
  next
    case 4
    with assms(1) bs obtain c d r' where "r = c # d # r'" "second_ok b c" "is_cont d" "n = 3"
      by (cases r; cases "tl r") (auto simp: Let_def split: if_splits)
    with 4 bs show ?thesis by (simp add: numeral_3_eq_3)
  next
    case 5
    with assms(1) bs obtain c d e r'
      where "r = c # d # e # r'" "second_ok b c" "is_cont d" "is_cont e" "n = 4"
      by (cases r; cases "tl r"; cases "tl (tl r)")
        (auto simp: Let_def numeral_2_eq_2 split: if_splits)
    with 5 bs show ?thesis by (simp add: numeral_eq_Suc)
  qed
qed

lemma valid_utf8_step:
  "utf8_head (xs @ ys) = (True, length xs) \<Longrightarrow> valid_utf8 (xs @ ys) = valid_utf8 ys"
  by (cases "xs = []"; cases "ys = []")
    (simp_all add: valid_utf8.simps [of "xs @ ys"] valid_utf8.simps [of xs])

lemma valid_from_utf8_lossy: "valid_utf8 (from_utf8_lossy bs)"
proof (induction bs rule: from_utf8_lossy.induct)
  case (1 bs)
  define n where "n = snd (utf8_head bs)"
  show ?case
  proof (cases "bs = []")
    case True
    then show ?thesis by simp
  next
    case False
    then have n: "0 < n" "n \<le> length bs"
      unfolding n_def using utf8_head_pos utf8_head_le by auto
    have IH: "valid_utf8 (from_utf8_lossy (drop n bs))"
      using "1" False by (simp add: n_def)
    show ?thesis
    proof (cases "fst (utf8_head bs)")
      case True
      have "utf8_head (take n bs @ zs) = (True, length (take n bs))" for zs
        using utf8_head_take [of bs n zs] True n False by (simp add: n_def prod_eq_iff)
      then show ?thesis
        using IH True False
        by (simp add: from_utf8_lossy.simps [of bs] n_def [symmetric] valid_utf8_step)
    next
      case bad: False
      have "valid_utf8 ([239, 191, 189] @ zs) = valid_utf8 zs" for zs
        by (rule valid_utf8_step) (simp add: utf8_width_def second_ok_def is_cont_def)
      then show ?thesis
        using IH bad False by (simp add: from_utf8_lossy.simps [of bs] n_def [symmetric])
    qed
  qed
qed

text \<open>ASCII text is well-formed.\<close>

lemma valid_utf8_ascii: "\<forall>b \<in> set bs. b < 128 \<Longrightarrow> valid_utf8 bs"
proof (induction bs)
  case (Cons b bs)
  then have "utf8_head ([b] @ bs) = (True, length [b])" by (simp add: utf8_width_def)
  from valid_utf8_step [OF this] Cons show ?case by simp
qed simp

lemma char_byte_char [simp]: "char_byte (byte_char b) = b"
  by (simp add: char_byte_def byte_char_def unsigned_less [where 'b = 8, simplified])

lemma byte_char_byte [simp]: "byte_char (char_byte c) = c"
  by (simp add: char_byte_def byte_char_def unat_of_nat)

lemma string_of_bytes_of_string [simp]: "string_of_bytes (bytes_of_string s) = s"
  by (simp add: string_of_bytes_def bytes_of_string_def comp_def)

lemma bytes_of_string_of_bytes [simp]: "bytes_of_string (string_of_bytes bs) = bs"
  by (simp add: string_of_bytes_def bytes_of_string_def comp_def)

lemma length_bytes_of_string [simp]: "length (bytes_of_string s) = length s"
  by (simp add: bytes_of_string_def)

end
