(* ===== verification/EventHeader.thy ===== *)
theory EventHeader
  imports Utf8
begin

text \<open>
  Headers of an AWS event stream message (\<open>src/kiro/parser/header.rs\<close>, with the error type of
  \<open>error.rs\<close>): the ten value types, the parser of one value, the loop over the header block, and
  the wire encoding the protocol defines, against which the parser is proved correct. A
  \<open>String\<close> built from fixed text in an error is a constructor, and the rendering of an error
  inside \<open>TooManyErrors\<close> is that error.
\<close>

section \<open>Errors\<close>

datatype header_msg = NameLengthZero | HeadersPastMessage

datatype parse_error =
    Incomplete nat nat
  | PreludeCrcMismatch u32 u32
  | MessageCrcMismatch u32 u32
  | InvalidHeaderType u8
  | HeaderParseFailed header_msg
  | MessageTooLarge u32 u32
  | MessageTooSmall u32 u32
  | InvalidMessageType string
  | PayloadDeserialize string
  | Io string
  | TooManyErrors nat last_error
  | BufferOverflow nat nat
and last_error = DecoderStopped | Rendered parse_error

section \<open>Big-endian integers\<close>

definition be_nat :: "u8 list \<Rightarrow> nat" where
  "be_nat bs = foldl (\<lambda>n b. n * 256 + unat b) 0 bs"

definition from_be_bytes :: "u8 list \<Rightarrow> 'a::len word" where
  "from_be_bytes bs = of_nat (be_nat bs)"

fun be_bytes :: "nat \<Rightarrow> nat \<Rightarrow> u8 list" where
  "be_bytes 0 n = []"
| "be_bytes (Suc k) n = be_bytes k (n div 256) @ [of_nat (n mod 256)]"

lemma length_be_bytes [simp]: "length (be_bytes k n) = k"
  by (induction k arbitrary: n) auto

lemma be_nat_snoc [simp]: "be_nat (bs @ [b]) = be_nat bs * 256 + unat b"
  by (simp add: be_nat_def)

lemma be_nat_be_bytes: "be_nat (be_bytes k n) = n mod 256 ^ k"
proof (induction k arbitrary: n)
  case (Suc k)
  have "unat (of_nat (n mod 256) :: u8) = n mod 256"
    by (simp add: unat_of_nat)
  with Suc show ?case
    by (simp add: mod_mult2_eq mult.commute)
qed (simp add: be_nat_def)

lemma from_be_bytes_word [simp]:
  "LENGTH('a::len) = 8 * k \<Longrightarrow> from_be_bytes (be_bytes k (unat w)) = (w :: 'a word)"
proof -
  assume k: "LENGTH('a) = 8 * k"
  have "unat w < 256 ^ k"
    using unsigned_less [of w] by (simp add: k power_mult)
  then show ?thesis
    by (simp add: from_be_bytes_def be_nat_be_bytes)
qed

section \<open>Header values\<close>

datatype header_value_type =
    TBoolTrue | TBoolFalse | TByte | TShort | TInteger | TLong | TByteArray | TString
  | TTimestamp | TUuid

text \<open>The signed integers are words read as two's complement.\<close>

datatype header_value =
    VBool bool
  | VByte u8
  | VShort u16
  | VInteger u32
  | VLong u64
  | VByteArray "u8 list"
  | VString string
  | VTimestamp u64
  | VUuid "u8 list"

definition header_value_type_of :: "u8 \<Rightarrow> parse_error + header_value_type" where
  "header_value_type_of v =
     (if v = 0 then Inr TBoolTrue else if v = 1 then Inr TBoolFalse
      else if v = 2 then Inr TByte else if v = 3 then Inr TShort
      else if v = 4 then Inr TInteger else if v = 5 then Inr TLong
      else if v = 6 then Inr TByteArray else if v = 7 then Inr TString
      else if v = 8 then Inr TTimestamp else if v = 9 then Inr TUuid
      else Inl (InvalidHeaderType v))"

fun as_str :: "header_value \<Rightarrow> string option" where
  "as_str (VString s) = Some s"
| "as_str _ = None"

type_synonym headers = "string \<rightharpoonup> header_value"

definition get_string :: "headers \<Rightarrow> string \<Rightarrow> string option" where
  "get_string h name = Option.bind (h name) as_str"

definition message_type :: "headers \<Rightarrow> string option" where
  "message_type h = get_string h '':message-type''"

definition event_type :: "headers \<Rightarrow> string option" where
  "event_type h = get_string h '':event-type''"

definition exception_type :: "headers \<Rightarrow> string option" where
  "exception_type h = get_string h '':exception-type''"

definition error_code :: "headers \<Rightarrow> string option" where
  "error_code h = get_string h '':error-code''"

section \<open>Parsing\<close>

definition ensure_bytes :: "u8 list \<Rightarrow> nat \<Rightarrow> parse_error option" where
  "ensure_bytes data needed =
     (if length data < needed then Some (Incomplete needed (length data)) else None)"

text \<open>A value of a fixed number of bytes, advancing the offset by that number.\<close>

definition fixed_value ::
  "u8 list \<Rightarrow> nat \<Rightarrow> (u8 list \<Rightarrow> header_value) \<Rightarrow> nat \<Rightarrow> parse_error + header_value \<times> nat" where
  "fixed_value data n mk offset =
     (case ensure_bytes data n of Some e \<Rightarrow> Inl e | None \<Rightarrow> Inr (mk (take n data), offset + n))"

text \<open>A value with a two-byte length before it.\<close>

definition sized_value ::
  "u8 list \<Rightarrow> (u8 list \<Rightarrow> header_value) \<Rightarrow> nat \<Rightarrow> parse_error + header_value \<times> nat" where
  "sized_value data mk offset =
     (case ensure_bytes data 2 of
        Some e \<Rightarrow> Inl e
      | None \<Rightarrow>
          (let len = unat (from_be_bytes (take 2 data) :: u16) in
           case ensure_bytes data (2 + len) of
             Some e \<Rightarrow> Inl e
           | None \<Rightarrow> Inr (mk (take len (drop 2 data)), offset + (2 + len))))"

fun parse_header_value ::
  "u8 list \<Rightarrow> header_value_type \<Rightarrow> nat \<Rightarrow> parse_error + header_value \<times> nat" where
  "parse_header_value data TBoolTrue offset = Inr (VBool True, offset)"
| "parse_header_value data TBoolFalse offset = Inr (VBool False, offset)"
| "parse_header_value data TByte offset = fixed_value data 1 (VByte \<circ> from_be_bytes) offset"
| "parse_header_value data TShort offset = fixed_value data 2 (VShort \<circ> from_be_bytes) offset"
| "parse_header_value data TInteger offset = fixed_value data 4 (VInteger \<circ> from_be_bytes) offset"
| "parse_header_value data TLong offset = fixed_value data 8 (VLong \<circ> from_be_bytes) offset"
| "parse_header_value data TTimestamp offset =
     fixed_value data 8 (VTimestamp \<circ> from_be_bytes) offset"
| "parse_header_value data TByteArray offset = sized_value data VByteArray offset"
| "parse_header_value data TString offset =
     sized_value data (\<lambda>bs. VString (string_of_bytes (from_utf8_lossy bs))) offset"
| "parse_header_value data TUuid offset = fixed_value data 16 VUuid offset"

lemma parse_header_value_offset:
  "parse_header_value data ty offset = Inr (v, offset') \<Longrightarrow>
   offset \<le> offset' \<and> offset' \<le> offset + length data"
  by (cases ty)
    (auto simp: fixed_value_def sized_value_def ensure_bytes_def Let_def Suc_le_eq split: if_splits)

function parse_headers_loop ::
  "u8 list \<Rightarrow> nat \<Rightarrow> nat \<Rightarrow> headers \<Rightarrow> parse_error + headers" where
  "parse_headers_loop data header_length offset headers =
     (if \<not> offset < header_length then Inr headers
      else if length data \<le> offset then Inr headers
      else
        let name_len = unat (data ! offset); offset1 = offset + 1 in
        if name_len = 0 then Inl (HeaderParseFailed NameLengthZero)
        else if length data < offset1 + name_len
        then Inl (Incomplete name_len (length data - offset1))
        else
          let name = string_of_bytes (from_utf8_lossy (take name_len (drop offset1 data)));
              offset2 = offset1 + name_len in
          if length data \<le> offset2 then Inl (Incomplete 1 0)
          else
            case header_value_type_of (data ! offset2) of
              Inl e \<Rightarrow> Inl e
            | Inr value_type \<Rightarrow>
                case parse_header_value (drop (offset2 + 1) data) value_type (offset2 + 1) of
                  Inl e \<Rightarrow> Inl e
                | Inr (v, offset') \<Rightarrow>
                    parse_headers_loop data header_length offset' (headers(name \<mapsto> v)))"
  by pat_completeness auto
termination
proof (relation "measure (\<lambda>(data, header_length, offset, headers). header_length - offset)",
    goal_cases)
  case (2 data header_length offset headers)
  then show ?case by (auto dest!: parse_header_value_offset)
qed simp

declare parse_headers_loop.simps [simp del]

definition parse_headers :: "u8 list \<Rightarrow> nat \<Rightarrow> parse_error + headers" where
  "parse_headers data header_length =
     (if length data < header_length then Inl (Incomplete header_length (length data))
      else parse_headers_loop data header_length 0 Map.empty)"

section \<open>The wire format and the round trip\<close>

text \<open>
  The encoding the AWS event stream protocol defines, for headers a sender may form: a name of
  1 to 255 bytes of well-formed text, variable values of at most 65535 bytes, UUIDs of 16 bytes.
\<close>

fun value_tag :: "header_value \<Rightarrow> u8" where
  "value_tag (VBool b) = (if b then 0 else 1)"
| "value_tag (VByte _) = 2"
| "value_tag (VShort _) = 3"
| "value_tag (VInteger _) = 4"
| "value_tag (VLong _) = 5"
| "value_tag (VByteArray _) = 6"
| "value_tag (VString _) = 7"
| "value_tag (VTimestamp _) = 8"
| "value_tag (VUuid _) = 9"

fun encode_value :: "header_value \<Rightarrow> u8 list" where
  "encode_value (VBool _) = []"
| "encode_value (VByte w) = be_bytes 1 (unat w)"
| "encode_value (VShort w) = be_bytes 2 (unat w)"
| "encode_value (VInteger w) = be_bytes 4 (unat w)"
| "encode_value (VLong w) = be_bytes 8 (unat w)"
| "encode_value (VByteArray bs) = be_bytes 2 (length bs) @ bs"
| "encode_value (VString s) = be_bytes 2 (length s) @ bytes_of_string s"
| "encode_value (VTimestamp w) = be_bytes 8 (unat w)"
| "encode_value (VUuid bs) = bs"

fun wf_value :: "header_value \<Rightarrow> bool" where
  "wf_value (VByteArray bs) = (length bs < 65536)"
| "wf_value (VString s) = (length s < 65536 \<and> valid_utf8 (bytes_of_string s))"
| "wf_value (VUuid bs) = (length bs = 16)"
| "wf_value _ = True"

fun encode_header :: "string \<times> header_value \<Rightarrow> u8 list" where
  "encode_header (name, v) =
     of_nat (length name) # bytes_of_string name @ value_tag v # encode_value v"

fun wf_header :: "string \<times> header_value \<Rightarrow> bool" where
  "wf_header (name, v) =
     (0 < length name \<and> length name < 256 \<and> valid_utf8 (bytes_of_string name) \<and> wf_value v)"

definition encode_headers :: "(string \<times> header_value) list \<Rightarrow> u8 list" where
  "encode_headers hs = concat (map encode_header hs)"

definition headers_of :: "headers \<Rightarrow> (string \<times> header_value) list \<Rightarrow> headers" where
  "headers_of m hs = foldl (\<lambda>m (name, v). m(name \<mapsto> v)) m hs"

lemma headers_of_simps [simp]:
  "headers_of m [] = m" "headers_of m ((name, v) # hs) = headers_of (m(name \<mapsto> v)) hs"
  by (simp_all add: headers_of_def)

lemma fixed_value_append [simp]:
  "length bs = n \<Longrightarrow> fixed_value (bs @ rest) n mk offset = Inr (mk bs, offset + n)"
  by (simp add: fixed_value_def ensure_bytes_def)

lemma sized_value_append [simp]:
  assumes "length bs < 65536"
  shows "sized_value (be_bytes 2 (length bs) @ bs @ rest) mk offset = Inr (mk bs, offset + (2 + length bs))"
proof -
  have "unat (from_be_bytes (be_bytes 2 (length bs)) :: u16) = length bs"
    using assms by (simp add: from_be_bytes_def be_nat_be_bytes unat_of_nat)
  then show ?thesis
    by (simp add: sized_value_def ensure_bytes_def)
qed

lemma parse_encoded_value:
  assumes "wf_value v"
  shows "\<exists>ty. header_value_type_of (value_tag v) = Inr ty \<and>
    parse_header_value (encode_value v @ rest) ty offset = Inr (v, offset + length (encode_value v))"
proof (cases v)
  case (VString s)
  have "sized_value (be_bytes 2 (length (bytes_of_string s)) @ bytes_of_string s @ rest)
          (\<lambda>bs. VString (string_of_bytes (from_utf8_lossy bs))) offset
        = Inr (v, offset + (2 + length (bytes_of_string s)))"
    using assms VString by (subst sized_value_append) simp_all
  with VString show ?thesis by (simp add: header_value_type_of_def)
next
  case (VByte w)
  have "from_be_bytes (be_bytes 1 (unat w)) = w" by (rule from_be_bytes_word) simp
  with VByte show ?thesis by (auto simp: header_value_type_of_def simp del: be_bytes.simps)
next
  case (VShort w)
  have "from_be_bytes (be_bytes 2 (unat w)) = w" by (rule from_be_bytes_word) simp
  with VShort show ?thesis by (auto simp: header_value_type_of_def)
next
  case (VInteger w)
  have "from_be_bytes (be_bytes 4 (unat w)) = w" by (rule from_be_bytes_word) simp
  with VInteger show ?thesis by (auto simp: header_value_type_of_def)
next
  case (VLong w)
  have "from_be_bytes (be_bytes 8 (unat w)) = w" by (rule from_be_bytes_word) simp
  with VLong show ?thesis by (auto simp: header_value_type_of_def)
next
  case (VTimestamp w)
  have "from_be_bytes (be_bytes 8 (unat w)) = w" by (rule from_be_bytes_word) simp
  with VTimestamp show ?thesis by (auto simp: header_value_type_of_def)
qed (use assms in \<open>simp_all add: header_value_type_of_def\<close>)

lemma parse_headers_loop_encoded:
  assumes "\<forall>h \<in> set hs. wf_header h"
  shows "parse_headers_loop (pre @ encode_headers hs) (length pre + length (encode_headers hs))
           (length pre) m = Inr (headers_of m hs)"
  using assms
proof (induction hs arbitrary: pre m)
  case Nil
  then show ?case by (simp add: encode_headers_def parse_headers_loop.simps)
next
  case (Cons h hs)
  obtain name v where h: "h = (name, v)" by (cases h)
  let ?nb = "bytes_of_string name" and ?rest = "encode_headers hs"
  let ?data = "pre @ encode_headers (h # hs)"
  let ?pre' = "pre @ encode_header h"
  from Cons.prems h have wf: "0 < length name" "length name < 256" "valid_utf8 ?nb" "wf_value v"
    by auto
  have len: "unat (of_nat (length name) :: u8) = length name"
    using wf(2) by (simp add: unat_of_nat)
  obtain ty where ty: "header_value_type_of (value_tag v) = Inr ty"
    and val: "parse_header_value (encode_value v @ ?rest) ty (length pre + (2 + length name))
      = Inr (v, length pre + (2 + length name) + length (encode_value v))"
    using parse_encoded_value [OF wf(4)] by blast
  have data: "?data = pre @ of_nat (length name) # ?nb @ value_tag v # encode_value v @ ?rest"
    by (simp add: h encode_headers_def)
  have IH: "parse_headers_loop (?pre' @ ?rest) (length ?pre' + length ?rest) (length ?pre')
      (m(name \<mapsto> v)) = Inr (headers_of (m(name \<mapsto> v)) hs)"
    by (rule Cons.IH) (use Cons.prems in simp)
  show ?case
    using IH wf len ty val
    by (subst parse_headers_loop.simps)
      (simp add: data Let_def nth_append h encode_headers_def algebra_simps)
qed

theorem parse_headers_encode:
  assumes "\<forall>h \<in> set hs. wf_header h"
  shows "parse_headers (encode_headers hs) (length (encode_headers hs)) = Inr (headers_of Map.empty hs)"
  using parse_headers_loop_encoded [OF assms, of "[]"] by (simp add: parse_headers_def)

end
