(* ===== verification/EventFrame.thy ===== *)
theory EventFrame
  imports EventHeader
begin

text \<open>
  One message of the event stream (\<open>src/kiro/parser/frame.rs\<close>). The checksum is the \<open>crc\<close> crate's
  CRC-32, which is not part of the repository: it is the argument \<open>crc\<close> of the definitions.
  \<open>encode_frame\<close> is the wire format of the module's header comment.
\<close>

definition PRELUDE_SIZE :: nat where "PRELUDE_SIZE = 12"
definition MIN_MESSAGE_SIZE :: nat where "MIN_MESSAGE_SIZE = PRELUDE_SIZE + 4"
definition MAX_MESSAGE_SIZE :: u32 where "MAX_MESSAGE_SIZE = 16 * 1024 * 1024"

record frame =
  frame_headers :: headers
  frame_payload :: "u8 list"

definition frame_message_type :: "frame \<Rightarrow> string option" where
  "frame_message_type f = message_type (frame_headers f)"

definition frame_event_type :: "frame \<Rightarrow> string option" where
  "frame_event_type f = event_type (frame_headers f)"

definition payload_as_str :: "frame \<Rightarrow> string" where
  "payload_as_str f = string_of_bytes (from_utf8_lossy (frame_payload f))"

text \<open>\<open>&buffer[a..b]\<close> for \<open>a \<le> b \<le> buffer.len()\<close>.\<close>

definition slice :: "'a list \<Rightarrow> nat \<Rightarrow> nat \<Rightarrow> 'a list" where
  "slice xs a b = take (b - a) (drop a xs)"

definition be_u32_at :: "u8 list \<Rightarrow> nat \<Rightarrow> u32" where
  "be_u32_at buffer i = from_be_bytes (slice buffer i (i + 4))"

definition parse_frame ::
  "(u8 list \<Rightarrow> u32) \<Rightarrow> u8 list \<Rightarrow> parse_error + (frame \<times> nat) option" where
  "parse_frame crc buffer =
     (if length buffer < PRELUDE_SIZE then Inr None
      else
        let total_length = be_u32_at buffer 0;
            header_length = be_u32_at buffer 4;
            prelude_crc = be_u32_at buffer 8 in
        if total_length < of_nat MIN_MESSAGE_SIZE
        then Inl (MessageTooSmall total_length (of_nat MIN_MESSAGE_SIZE))
        else if MAX_MESSAGE_SIZE < total_length
        then Inl (MessageTooLarge total_length MAX_MESSAGE_SIZE)
        else
          let total = unat total_length; hlen = unat header_length in
          if length buffer < total then Inr None
          else
            let actual_prelude_crc = crc (take 8 buffer) in
            if actual_prelude_crc \<noteq> prelude_crc
            then Inl (PreludeCrcMismatch prelude_crc actual_prelude_crc)
            else
              let message_crc = be_u32_at buffer (total - 4);
                  actual_message_crc = crc (take (total - 4) buffer) in
              if actual_message_crc \<noteq> message_crc
              then Inl (MessageCrcMismatch message_crc actual_message_crc)
              else
                let headers_start = PRELUDE_SIZE; headers_end = headers_start + hlen in
                if total - 4 < headers_end then Inl (HeaderParseFailed HeadersPastMessage)
                else
                  case parse_headers (slice buffer headers_start headers_end) hlen of
                    Inl e \<Rightarrow> Inl e
                  | Inr headers \<Rightarrow>
                      Inr (Some (\<lparr>frame_headers = headers,
                                  frame_payload = slice buffer headers_end (total - 4)\<rparr>, total)))"

section \<open>The wire format\<close>

type_synonym message = "(string \<times> header_value) list \<times> u8 list"

definition message_size :: "message \<Rightarrow> nat" where
  "message_size m = 16 + length (encode_headers (fst m)) + length (snd m)"

definition encode_prelude :: "message \<Rightarrow> u8 list" where
  "encode_prelude m = be_bytes 4 (message_size m) @ be_bytes 4 (length (encode_headers (fst m)))"

definition encode_body :: "(u8 list \<Rightarrow> u32) \<Rightarrow> message \<Rightarrow> u8 list" where
  "encode_body crc m =
     encode_prelude m @ be_bytes 4 (unat (crc (encode_prelude m))) @ encode_headers (fst m) @ snd m"

definition encode_frame :: "(u8 list \<Rightarrow> u32) \<Rightarrow> message \<Rightarrow> u8 list" where
  "encode_frame crc m = encode_body crc m @ be_bytes 4 (unat (crc (encode_body crc m)))"

definition wf_message :: "message \<Rightarrow> bool" where
  "wf_message m \<longleftrightarrow> (\<forall>h \<in> set (fst m). wf_header h) \<and> message_size m \<le> unat MAX_MESSAGE_SIZE"

definition frame_of :: "message \<Rightarrow> frame" where
  "frame_of m = \<lparr>frame_headers = headers_of Map.empty (fst m), frame_payload = snd m\<rparr>"

lemmas frame_sizes = PRELUDE_SIZE_def MIN_MESSAGE_SIZE_def MAX_MESSAGE_SIZE_def

lemma length_encode_body: "length (encode_body crc m) = message_size m - 4"
  by (simp add: encode_body_def encode_prelude_def message_size_def)

lemma length_encode_frame: "length (encode_frame crc m) = message_size m"
  by (simp add: encode_frame_def length_encode_body) (simp add: message_size_def)

lemma message_size_ge: "16 \<le> message_size m"
  by (simp add: message_size_def)

lemma encode_frame_split:
  "encode_frame crc m =
     be_bytes 4 (message_size m) @ be_bytes 4 (length (encode_headers (fst m))) @
     be_bytes 4 (unat (crc (encode_prelude m))) @ encode_headers (fst m) @ snd m @
     be_bytes 4 (unat (crc (encode_body crc m)))"
  by (simp add: encode_frame_def encode_body_def encode_prelude_def)

lemma slice_append_right: "length xs = a \<Longrightarrow> slice (xs @ ys) a (a + n) = take n ys"
  by (simp add: slice_def)

lemma slice_mid: "length xs = a \<Longrightarrow> slice (xs @ ys @ zs) a (a + length ys) = ys"
  by (simp add: slice_append_right)

lemma be_u32_at_append:
  assumes "length xs = i"
  shows "be_u32_at (xs @ be_bytes 4 n @ ys) i = of_nat n"
proof -
  have "(of_nat (n mod 256 ^ 4) :: u32) = of_nat n"
    by (simp add: word_of_nat_eq_iff take_bit_eq_mod)
  then show ?thesis
    by (simp add: be_u32_at_def slice_append_right [OF assms] from_be_bytes_def be_nat_be_bytes)
qed

lemma unat_message_size: "wf_message m \<Longrightarrow> unat (of_nat (message_size m) :: u32) = message_size m"
  by (simp add: wf_message_def MAX_MESSAGE_SIZE_def unat_of_nat)

lemma total_length_in_range:
  assumes "wf_message m"
  shows "\<not> (of_nat (message_size m) :: u32) < of_nat MIN_MESSAGE_SIZE"
    and "\<not> MAX_MESSAGE_SIZE < (of_nat (message_size m) :: u32)"
  using assms message_size_ge [of m]
  by (simp_all add: word_less_nat_alt unat_message_size)
    (simp_all add: frame_sizes wf_message_def unat_of_nat)

lemma prelude_fields:
  "be_u32_at (encode_frame crc m @ rest) 0 = of_nat (message_size m)"
  "be_u32_at (encode_frame crc m @ rest) 4 = of_nat (length (encode_headers (fst m)))"
  "be_u32_at (encode_frame crc m @ rest) 8 = crc (encode_prelude m)"
proof -
  let ?s = "be_bytes 4 (message_size m)" and ?h = "be_bytes 4 (length (encode_headers (fst m)))"
  let ?c = "be_bytes 4 (unat (crc (encode_prelude m)))"
  let ?t = "encode_headers (fst m) @ snd m @ be_bytes 4 (unat (crc (encode_body crc m))) @ rest"
  show "be_u32_at (encode_frame crc m @ rest) 0 = of_nat (message_size m)"
    using be_u32_at_append [of "[]" 0 "message_size m" "?h @ ?c @ ?t"]
    by (simp add: encode_frame_split)
  show "be_u32_at (encode_frame crc m @ rest) 4 = of_nat (length (encode_headers (fst m)))"
    using be_u32_at_append [of ?s 4 "length (encode_headers (fst m))" "?c @ ?t"]
    by (simp add: encode_frame_split)
  show "be_u32_at (encode_frame crc m @ rest) 8 = crc (encode_prelude m)"
    using be_u32_at_append [of "?s @ ?h" 8 "unat (crc (encode_prelude m))" ?t]
    by (simp add: encode_frame_split)
qed

lemma message_crc_field:
  "be_u32_at (encode_frame crc m @ rest) (message_size m - 4) = crc (encode_body crc m)"
  using be_u32_at_append [of "encode_body crc m" "message_size m - 4"
      "unat (crc (encode_body crc m))" rest]
  by (simp add: encode_frame_def length_encode_body)

lemma frame_slices:
  "take 8 (encode_frame crc m @ rest) = encode_prelude m"
  "take (message_size m - 4) (encode_frame crc m @ rest) = encode_body crc m"
  "slice (encode_frame crc m @ rest) 12 (12 + length (encode_headers (fst m)))
     = encode_headers (fst m)"
  "slice (encode_frame crc m @ rest) (12 + length (encode_headers (fst m))) (message_size m - 4)
     = snd m"
proof -
  let ?l = "length (encode_headers (fst m))"
  let ?c = "be_bytes 4 (unat (crc (encode_prelude m)))"
  let ?e = "be_bytes 4 (unat (crc (encode_body crc m))) @ rest"
  show "take 8 (encode_frame crc m @ rest) = encode_prelude m"
    by (simp add: encode_frame_def encode_body_def encode_prelude_def)
  show "take (message_size m - 4) (encode_frame crc m @ rest) = encode_body crc m"
    using length_encode_body [of crc m] by (simp add: encode_frame_def)
  show "slice (encode_frame crc m @ rest) 12 (12 + ?l) = encode_headers (fst m)"
    using slice_mid [of "encode_prelude m @ ?c" 12 "encode_headers (fst m)" "snd m @ ?e"]
    by (simp add: encode_frame_def encode_body_def encode_prelude_def)
  have "message_size m - 4 = 12 + ?l + length (snd m)" by (simp add: message_size_def)
  then show "slice (encode_frame crc m @ rest) (12 + ?l) (message_size m - 4) = snd m"
    using slice_mid [of "encode_prelude m @ ?c @ encode_headers (fst m)" "12 + ?l" "snd m" ?e]
    by (simp add: encode_frame_def encode_body_def encode_prelude_def)
qed

lemma unat_header_length:
  "wf_message m \<Longrightarrow>
   unat (of_nat (length (encode_headers (fst m))) :: u32) = length (encode_headers (fst m))"
  by (simp add: wf_message_def MAX_MESSAGE_SIZE_def message_size_def unat_of_nat)

theorem parse_frame_encode:
  assumes "wf_message m"
  shows "parse_frame crc (encode_frame crc m @ rest) = Inr (Some (frame_of m, message_size m))"
proof -
  have "\<not> length (encode_frame crc m @ rest) < PRELUDE_SIZE"
    using message_size_ge [of m] by (simp add: length_encode_frame PRELUDE_SIZE_def)
  moreover have "\<not> length (encode_frame crc m @ rest) < message_size m"
    by (simp add: length_encode_frame)
  moreover have "\<not> message_size m - 4 < PRELUDE_SIZE + length (encode_headers (fst m))"
    by (simp add: PRELUDE_SIZE_def message_size_def)
  moreover have "parse_headers (encode_headers (fst m)) (length (encode_headers (fst m)))
      = Inr (headers_of Map.empty (fst m))"
    using assms by (intro parse_headers_encode) (simp add: wf_message_def)
  ultimately show ?thesis
    using total_length_in_range [OF assms]
    unfolding parse_frame_def
    by (simp only: PRELUDE_SIZE_def prelude_fields unat_message_size [OF assms] unat_header_length [OF assms]
        message_crc_field frame_slices if_False Let_def frame_of_def sum.case simp_thms)
qed

theorem parse_frame_truncated:
  assumes "wf_message m" and "n < message_size m"
  shows "parse_frame crc (take n (encode_frame crc m)) = Inr None"
proof (cases "n < PRELUDE_SIZE")
  case True
  then show ?thesis by (simp add: parse_frame_def min_def)
next
  case False
  let ?b = "take n (encode_frame crc m)"
  have len: "length ?b = n" using assms(2) by (simp add: length_encode_frame)
  have "take 4 ?b = take 4 (encode_frame crc m)"
    using False by (simp add: PRELUDE_SIZE_def)
  then have "be_u32_at ?b 0 = of_nat (message_size m)"
    using prelude_fields(1) [of crc m "[]"] by (simp add: be_u32_at_def slice_def)
  then show ?thesis
    using False assms(2) len total_length_in_range [OF assms(1)]
    by (simp add: parse_frame_def Let_def unat_message_size [OF assms(1)])
qed

section \<open>What the decoder relies on\<close>

text \<open>
  The interface between the decoder and the frame parser: a result consumes part of the buffer,
  and a result or an error found in a buffer stays the same when more bytes arrive.
\<close>

locale frame_parser =
  fixes parse :: "u8 list \<Rightarrow> parse_error + ('f \<times> nat) option"
  assumes parse_Nil: "parse [] = Inr None"
    and parse_consumed: "parse buf = Inr (Some (f, n)) \<Longrightarrow> 0 < n \<and> n \<le> length buf"
    and parse_frame_stable: "parse buf = Inr (Some r) \<Longrightarrow> parse (buf @ rest) = Inr (Some r)"
    and parse_error_stable: "parse buf = Inl e \<Longrightarrow> parse (buf @ rest) = Inl e"

text \<open>A parser together with the wire format it decodes.\<close>

locale frame_codec = frame_parser +
  fixes encode :: "'m \<Rightarrow> u8 list"
    and decoded :: "'m \<Rightarrow> 'f"
    and wf :: "'m \<Rightarrow> bool"
  assumes parse_encode: "wf m \<Longrightarrow> parse (encode m @ rest) = Inr (Some (decoded m, length (encode m)))"
    and parse_truncated: "wf m \<Longrightarrow> n < length (encode m) \<Longrightarrow> parse (take n (encode m)) = Inr None"

lemma parse_frame_consumed:
  "parse_frame crc buf = Inr (Some (f, n)) \<Longrightarrow> 16 \<le> n \<and> n \<le> length buf"
proof -
  assume p: "parse_frame crc buf = Inr (Some (f, n))"
  let ?t = "be_u32_at buf 0"
  from p have "\<not> ?t < of_nat MIN_MESSAGE_SIZE" and "n = unat ?t" and "\<not> length buf < unat ?t"
    by (auto simp: parse_frame_def Let_def split: if_splits sum.splits)
  moreover have "unat (of_nat MIN_MESSAGE_SIZE :: u32) = 16"
    by (simp add: MIN_MESSAGE_SIZE_def PRELUDE_SIZE_def)
  ultimately show ?thesis by (simp add: word_less_nat_alt)
qed

lemma slice_append_left: "b \<le> length xs \<Longrightarrow> slice (xs @ ys) a b = slice xs a b"
  by (cases "a \<le> b") (simp_all add: slice_def)

lemma parse_frame_append:
  assumes "parse_frame crc buf \<noteq> Inr None"
  shows "parse_frame crc (buf @ rest) = parse_frame crc buf"
proof -
  let ?t = "be_u32_at buf 0" and ?h = "be_u32_at buf 4"
  have len: "12 \<le> length buf"
    using assms by (auto simp: parse_frame_def PRELUDE_SIZE_def split: if_splits)
  have fields: "be_u32_at (buf @ rest) i = be_u32_at buf i" if "i + 4 \<le> length buf" for i
    using that by (simp add: be_u32_at_def slice_append_left)
  have head: "be_u32_at (buf @ rest) 0 = ?t" "be_u32_at (buf @ rest) 4 = ?h"
      "be_u32_at (buf @ rest) 8 = be_u32_at buf 8" "take 8 (buf @ rest) = take 8 buf"
    using len fields by auto
  show ?thesis
  proof (cases "?t < of_nat MIN_MESSAGE_SIZE \<or> MAX_MESSAGE_SIZE < ?t")
    case True
    then show ?thesis
      using len head by (auto simp: parse_frame_def PRELUDE_SIZE_def Let_def)
  next
    case False
    have total: "unat ?t \<le> length buf"
      using assms False len by (auto simp: parse_frame_def PRELUDE_SIZE_def Let_def split: if_splits)
    have ge: "16 \<le> unat ?t"
      using False by (simp add: word_less_nat_alt MIN_MESSAGE_SIZE_def PRELUDE_SIZE_def)
    have tail: "be_u32_at (buf @ rest) (unat ?t - 4) = be_u32_at buf (unat ?t - 4)"
        "take (unat ?t - 4) (buf @ rest) = take (unat ?t - 4) buf"
      using total ge fields by auto
    have "slice (buf @ rest) 12 (12 + unat ?h) = slice buf 12 (12 + unat ?h)"
        "slice (buf @ rest) (12 + unat ?h) (unat ?t - 4) = slice buf (12 + unat ?h) (unat ?t - 4)"
      if "12 + unat ?h \<le> unat ?t - 4"
      using that total by (simp_all add: slice_append_left)
    with False len total head tail show ?thesis
      by (auto simp: parse_frame_def PRELUDE_SIZE_def Let_def not_less split: sum.splits)
  qed
qed

lemma frame_parser_parse_frame: "frame_parser (parse_frame crc)"
proof
  show "parse_frame crc [] = Inr None"
    by (simp add: parse_frame_def PRELUDE_SIZE_def)
qed (use parse_frame_consumed in fastforce, simp_all add: parse_frame_append)

interpretation event_frame: frame_codec "parse_frame crc" "encode_frame crc" frame_of wf_message
  for crc
proof (rule frame_codec.intro [OF frame_parser_parse_frame], unfold_locales)
  show "parse_frame crc (encode_frame crc m @ rest)
      = Inr (Some (frame_of m, length (encode_frame crc m)))" if "wf_message m" for m rest
    using that by (simp add: parse_frame_encode length_encode_frame)
  show "parse_frame crc (take n (encode_frame crc m)) = Inr None"
    if "wf_message m" "n < length (encode_frame crc m)" for m n
    using that by (simp add: parse_frame_truncated length_encode_frame)
qed

end
