(* ===== verification/EventDecoder.thy ===== *)
theory EventDecoder
  imports EventFrame
begin

text \<open>
  The streaming decoder (\<open>src/kiro/parser/decoder.rs\<close>): a buffer, the four states of the machine,
  the consecutive-error counter and the recovery that skips damaged bytes. The frame parser is
  the argument \<open>parse\<close>; the program's decoder is the one over \<open>parse_frame crc\<close>. Sizes (\<open>usize\<close>)
  are natural numbers: the buffer limit keeps them far below \<open>2 ^ 64\<close>.
\<close>

datatype decoder_state = Ready | Parsing | Recovering | Stopped

record decoder =
  buffer :: "u8 list"
  dec_state :: decoder_state
  frames_decoded :: nat
  error_count :: nat
  max_errors :: nat
  max_buffer_size :: nat
  bytes_skipped :: nat

definition DEFAULT_MAX_BUFFER_SIZE :: nat where "DEFAULT_MAX_BUFFER_SIZE = 16 * 1024 * 1024"
definition DEFAULT_MAX_ERRORS :: nat where "DEFAULT_MAX_ERRORS = 5"

definition new_decoder :: decoder where
  "new_decoder =
     \<lparr>buffer = [], dec_state = Ready, frames_decoded = 0, error_count = 0,
      max_errors = DEFAULT_MAX_ERRORS, max_buffer_size = DEFAULT_MAX_BUFFER_SIZE,
      bytes_skipped = 0\<rparr>"

definition has_pending_data :: "decoder \<Rightarrow> bool" where
  "has_pending_data d \<longleftrightarrow> buffer d \<noteq> []"

definition feed :: "decoder \<Rightarrow> u8 list \<Rightarrow> parse_error + decoder" where
  "feed d data =
     (let new_size = length (buffer d) + length data in
      if max_buffer_size d < new_size then Inl (BufferOverflow new_size (max_buffer_size d))
      else Inr (d\<lparr>buffer := buffer d @ data,
                  dec_state := if dec_state d = Recovering then Ready else dec_state d\<rparr>))"

definition skip_bytes :: "nat \<Rightarrow> decoder \<Rightarrow> decoder" where
  "skip_bytes n d = d\<lparr>buffer := drop n (buffer d), bytes_skipped := bytes_skipped d + n\<rparr>"

definition skip_frame :: "decoder \<Rightarrow> decoder" where
  "skip_frame d =
     (if PRELUDE_SIZE \<le> length (buffer d) then
        let total_length = unat (be_u32_at (buffer d) 0) in
        if 16 \<le> total_length \<and> total_length \<le> length (buffer d)
        then skip_bytes total_length d
        else skip_bytes 1 d
      else skip_bytes 1 d)"

definition try_recover :: "parse_error \<Rightarrow> decoder \<Rightarrow> decoder" where
  "try_recover e d =
     (if buffer d = [] then d
      else case e of
        PreludeCrcMismatch _ _ \<Rightarrow> skip_bytes 1 d
      | MessageTooSmall _ _ \<Rightarrow> skip_bytes 1 d
      | MessageTooLarge _ _ \<Rightarrow> skip_bytes 1 d
      | MessageCrcMismatch _ _ \<Rightarrow> skip_frame d
      | HeaderParseFailed _ \<Rightarrow> skip_frame d
      | _ \<Rightarrow> skip_bytes 1 d)"

definition decode ::
  "(u8 list \<Rightarrow> parse_error + ('f \<times> nat) option) \<Rightarrow> decoder \<Rightarrow> (parse_error + 'f option) \<times> decoder"
where
  "decode parse d =
     (if dec_state d = Stopped then (Inl (TooManyErrors (error_count d) DecoderStopped), d)
      else if buffer d = [] then (Inr None, d\<lparr>dec_state := Ready\<rparr>)
      else
        let d = d\<lparr>dec_state := Parsing\<rparr> in
        case parse (buffer d) of
          Inr (Some (frame, consumed)) \<Rightarrow>
            (Inr (Some frame),
             d\<lparr>buffer := drop consumed (buffer d), dec_state := Ready,
               frames_decoded := frames_decoded d + 1, error_count := 0\<rparr>)
        | Inr None \<Rightarrow> (Inr None, d\<lparr>dec_state := Ready\<rparr>)
        | Inl e \<Rightarrow>
            let d = d\<lparr>error_count := error_count d + 1\<rparr> in
            if max_errors d \<le> error_count d
            then (Inl (TooManyErrors (error_count d) (Rendered e)), d\<lparr>dec_state := Stopped\<rparr>)
            else (Inl e, (try_recover e d)\<lparr>dec_state := Recovering\<rparr>))"

text \<open>\<open>DecodeIter::next\<close>, and the iterator run to its end with at most \<open>fuel\<close> items.\<close>

definition decode_next ::
  "(u8 list \<Rightarrow> parse_error + ('f \<times> nat) option) \<Rightarrow> decoder \<Rightarrow> (parse_error + 'f) option \<times> decoder"
where
  "decode_next parse d =
     (case dec_state d of
        Stopped \<Rightarrow> (None, d)
      | Recovering \<Rightarrow> (None, d)
      | _ \<Rightarrow>
        (case decode parse d of
           (Inr (Some f), d') \<Rightarrow> (Some (Inr f), d')
         | (Inr None, d') \<Rightarrow> (None, d')
         | (Inl e, d') \<Rightarrow> (Some (Inl e), d')))"

fun drain ::
  "(u8 list \<Rightarrow> parse_error + ('f \<times> nat) option) \<Rightarrow> nat \<Rightarrow> decoder \<Rightarrow>
   ((parse_error + 'f) list \<times> decoder) option"
where
  "drain parse 0 d = None"
| "drain parse (Suc fuel) d =
     (case decode_next parse d of
        (None, d') \<Rightarrow> Some ([], d')
      | (Some item, d') \<Rightarrow>
          map_option (\<lambda>(items, d''). (item # items, d'')) (drain parse fuel d'))"

definition decode_iter ::
  "(u8 list \<Rightarrow> parse_error + ('f \<times> nat) option) \<Rightarrow> decoder \<Rightarrow>
   ((parse_error + 'f) list \<times> decoder) option"
where
  "decode_iter parse d = drain parse (length (buffer d) + 2) d"

text \<open>The reading loop that goes on after an error (\<open>call_stream_api\<close> of \<open>src/test.rs\<close>, a manual client
  outside the module tree): feed each chunk and drain the iterator, reporting frames and errors in the order
  they come.  It shows what the decoder itself can recover; \<open>read_frames\<close> below is the loop of the handlers.\<close>

fun decode_stream ::
  "(u8 list \<Rightarrow> parse_error + ('f \<times> nat) option) \<Rightarrow> decoder \<Rightarrow> u8 list list \<Rightarrow>
   ((parse_error + 'f) list \<times> decoder) option"
where
  "decode_stream parse d [] = Some ([], d)"
| "decode_stream parse d (chunk # chunks) =
     (case feed d chunk of
        Inl e \<Rightarrow>
          map_option (\<lambda>(items, d'). (Inl e # items, d')) (decode_stream parse d chunks)
      | Inr d1 \<Rightarrow>
          Option.bind (decode_iter parse d1) (\<lambda>(items, d2).
            map_option (\<lambda>(more_items, d3). (items @ more_items, d3))
              (decode_stream parse d2 chunks)))"

text \<open>The reading loop of the request handlers (\<open>handle_non_stream_request\<close>, \<open>create_sse_stream\<close>,
  \<open>decode_round\<close>): the first error of any kind ends it, and the frames before it are kept.\<close>

fun frames_until_error :: "(parse_error + 'f) list \<Rightarrow> 'f list \<times> parse_error option" where
  "frames_until_error [] = ([], None)"
| "frames_until_error (Inl e # items) = ([], Some e)"
| "frames_until_error (Inr f # items) = (let (fs, e) = frames_until_error items in (f # fs, e))"

fun read_frames ::
  "(u8 list \<Rightarrow> parse_error + ('f \<times> nat) option) \<Rightarrow> decoder \<Rightarrow> u8 list list \<Rightarrow>
   ('f list \<times> parse_error option) option"
where
  "read_frames parse d [] = Some ([], None)"
| "read_frames parse d (chunk # chunks) =
     (case feed d chunk of
        Inl e \<Rightarrow> Some ([], Some e)
      | Inr d1 \<Rightarrow>
          Option.bind (decode_iter parse d1) (\<lambda>(items, d2).
            case frames_until_error items of
              (fs, Some e) \<Rightarrow> Some (fs, Some e)
            | (fs, None) \<Rightarrow>
                map_option (\<lambda>(gs, e). (fs @ gs, e)) (read_frames parse d2 chunks)))"

lemma frames_until_error_append:
  "frames_until_error (xs @ ys) =
     (case frames_until_error xs of
        (fs, Some e) \<Rightarrow> (fs, Some e)
      | (fs, None) \<Rightarrow> (let (gs, e) = frames_until_error ys in (fs @ gs, e)))"
  by (induction xs rule: frames_until_error.induct) (auto split: prod.split option.split)

lemma frames_until_error_map_Inr [simp]: "frames_until_error (map (\<lambda>x. Inr (f x)) xs) = (map f xs, None)"
  by (induction xs) simp_all

text \<open>The handlers see the beginning of what the tolerant loop reports.\<close>

lemma read_frames_decode_stream:
  "decode_stream parse d chunks = Some (items, d') \<Longrightarrow>
   read_frames parse d chunks = Some (frames_until_error items)"
proof (induction chunks arbitrary: d items)
  case (Cons c cs)
  show ?case
  proof (cases "feed d c")
    case (Inl e)
    with Cons.prems show ?thesis by auto
  next
    case (Inr d1)
    with Cons.prems obtain xs d2 ys where it: "decode_iter parse d1 = Some (xs, d2)"
      "decode_stream parse d2 cs = Some (ys, d')" "items = xs @ ys"
      by (auto simp: bind_eq_Some_conv)
    from Cons.IH [OF it(2)] it Inr show ?thesis
      by (auto simp: frames_until_error_append split: prod.split option.split)
  qed
qed simp

section \<open>One step\<close>

lemma skip_bytes_simps [simp]:
  "buffer (skip_bytes n d) = drop n (buffer d)"
  "bytes_skipped (skip_bytes n d) = bytes_skipped d + n"
  "dec_state (skip_bytes n d) = dec_state d"
  "error_count (skip_bytes n d) = error_count d"
  "max_errors (skip_bytes n d) = max_errors d"
  "max_buffer_size (skip_bytes n d) = max_buffer_size d"
  "frames_decoded (skip_bytes n d) = frames_decoded d"
  by (simp_all add: skip_bytes_def)

text \<open>Recovery is always a skip of a positive number of buffered bytes.\<close>

lemma skip_frame_skips:
  "buffer d \<noteq> [] \<Longrightarrow> \<exists>n. skip_frame d = skip_bytes n d \<and> 0 < n \<and> n \<le> length (buffer d)"
  by (auto simp: skip_frame_def Let_def Suc_le_eq intro: exI [of _ 1])

lemma try_recover_skips:
  assumes "buffer d \<noteq> []"
  shows "\<exists>n. try_recover e d = skip_bytes n d \<and> 0 < n \<and> n \<le> length (buffer d)"
proof -
  have one: "\<exists>n. skip_bytes 1 d = skip_bytes n d \<and> 0 < n \<and> n \<le> length (buffer d)"
    using assms by (intro exI [of _ 1]) (simp add: Suc_le_eq)
  show ?thesis
    using assms one skip_frame_skips [OF assms]
    by (cases e) (simp_all add: try_recover_def)
qed

text \<open>The possible outcomes of one call of \<open>decode\<close>.\<close>

lemma decode_cases:
  obtains (stopped) "dec_state d = Stopped"
      "decode parse d = (Inl (TooManyErrors (error_count d) DecoderStopped), d)"
  | (empty) "dec_state d \<noteq> Stopped" "buffer d = []"
      "decode parse d = (Inr None, d\<lparr>dec_state := Ready\<rparr>)"
  | (wait) "dec_state d \<noteq> Stopped" "buffer d \<noteq> []" "parse (buffer d) = Inr None"
      "decode parse d = (Inr None, d\<lparr>dec_state := Ready\<rparr>)"
  | (frame) f n where "dec_state d \<noteq> Stopped" "buffer d \<noteq> []" "parse (buffer d) = Inr (Some (f, n))"
      "decode parse d = (Inr (Some f), d\<lparr>buffer := drop n (buffer d), dec_state := Ready,
         frames_decoded := frames_decoded d + 1, error_count := 0\<rparr>)"
  | (limit) e where "dec_state d \<noteq> Stopped" "buffer d \<noteq> []" "parse (buffer d) = Inl e"
      "max_errors d \<le> error_count d + 1"
      "decode parse d = (Inl (TooManyErrors (error_count d + 1) (Rendered e)),
         d\<lparr>error_count := error_count d + 1, dec_state := Stopped\<rparr>)"
  | (recover) e n where "dec_state d \<noteq> Stopped" "buffer d \<noteq> []" "parse (buffer d) = Inl e"
      "error_count d + 1 < max_errors d" "0 < n" "n \<le> length (buffer d)"
      "decode parse d = (Inl e, (skip_bytes n d)\<lparr>error_count := error_count d + 1,
         dec_state := Recovering\<rparr>)"
proof -
  consider "dec_state d = Stopped" | "dec_state d \<noteq> Stopped" "buffer d = []"
    | "dec_state d \<noteq> Stopped" "buffer d \<noteq> []" by blast
  then show ?thesis
  proof cases
    case 1
    then show ?thesis by (rule stopped) (simp add: decode_def 1)
  next
    case 2
    then show ?thesis by (rule empty) (simp add: decode_def 2)
  next
    case 3
    show ?thesis
    proof (cases "parse (buffer d)")
      case (Inl e)
      show ?thesis
      proof (cases "max_errors d \<le> error_count d + 1")
        case True
        with 3 Inl show ?thesis by (intro limit) (simp_all add: decode_def)
      next
        case False
        let ?d = "d\<lparr>dec_state := Parsing, error_count := error_count d + 1\<rparr>"
        obtain n where n: "try_recover e ?d = skip_bytes n ?d" "0 < n" "n \<le> length (buffer d)"
          using try_recover_skips [of ?d e] 3 by auto
        have "decode parse d = (Inl e, (skip_bytes n d)\<lparr>error_count := error_count d + 1,
            dec_state := Recovering\<rparr>)"
          using 3 Inl False n(1) by (simp add: decode_def Let_def skip_bytes_def)
        then show ?thesis using 3 Inl False n by (intro recover) simp_all
      qed
    next
      case (Inr r)
      with 3 show ?thesis
        by (cases r) (auto simp: decode_def Let_def intro: wait frame)
    qed
  qed
qed

section \<open>The iterator over any frame parser\<close>

text \<open>The steps left to an iterator: one per buffered byte and one for the final answer.\<close>

definition pending_work :: "decoder \<Rightarrow> nat" where
  "pending_work d =
     (case dec_state d of Stopped \<Rightarrow> 0 | Recovering \<Rightarrow> 0 | _ \<Rightarrow> length (buffer d) + 1)"

lemma decode_next_end [simp]:
  "dec_state d = Stopped \<or> dec_state d = Recovering \<Longrightarrow> decode_next parse d = (None, d)"
  by (auto simp: decode_next_def)

lemma decode_next_active:
  "dec_state d \<noteq> Stopped \<Longrightarrow> dec_state d \<noteq> Recovering \<Longrightarrow>
   decode_next parse d =
     (case decode parse d of
        (Inr (Some f), d') \<Rightarrow> (Some (Inr f), d')
      | (Inr None, d') \<Rightarrow> (None, d')
      | (Inl e, d') \<Rightarrow> (Some (Inl e), d'))"
  by (cases "dec_state d") (simp_all add: decode_next_def)

context frame_parser
begin

lemma decode_next_progress:
  assumes "decode_next parse d = (Some item, d')"
  shows "pending_work d' < pending_work d"
proof -
  from assms have active: "dec_state d \<noteq> Stopped" "dec_state d \<noteq> Recovering" by auto
  then have work: "pending_work d = Suc (length (buffer d))"
    by (cases "dec_state d") (simp_all add: pending_work_def)
  have less: "pending_work d' < Suc (length (buffer d))"
    using active assms
    by (cases rule: decode_cases [of d parse])
      (auto simp: decode_next_active pending_work_def dest: parse_consumed)
  then show ?thesis by (simp add: work)
qed

lemma drain_returns: "pending_work d < fuel \<Longrightarrow> \<exists>items d'. drain parse fuel d = Some (items, d')"
proof (induction fuel arbitrary: d)
  case (Suc fuel)
  obtain r d1 where r: "decode_next parse d = (r, d1)" by fastforce
  show ?case
  proof (cases r)
    case (Some item)
    then have "pending_work d1 < fuel"
      using Suc.prems decode_next_progress [of d item d1] r by simp
    from Suc.IH [OF this] show ?thesis using r Some by auto
  qed (simp add: r)
qed simp

lemma decode_iter_returns: "\<exists>items d'. decode_iter parse d = Some (items, d')"
proof -
  have "pending_work d < length (buffer d) + 2"
    by (cases "dec_state d") (simp_all add: pending_work_def)
  then show ?thesis using drain_returns unfolding decode_iter_def by blast
qed

lemma decode_stream_returns: "\<exists>items d'. decode_stream parse d chunks = Some (items, d')"
proof (induction chunks arbitrary: d)
  case (Cons c cs)
  show ?case
  proof (cases "feed d c")
    case (Inl e)
    then show ?thesis using Cons.IH [of d] by auto
  next
    case (Inr d1)
    obtain xs d2 where "decode_iter parse d1 = Some (xs, d2)" using decode_iter_returns by blast
    moreover obtain ys d3 where "decode_stream parse d2 cs = Some (ys, d3)" using Cons.IH by blast
    ultimately show ?thesis by (simp add: Inr)
  qed
qed simp

text \<open>What an iteration hands out: frames, then at most one error.\<close>

lemma decode_next_frame:
  assumes "decode_next parse d = (Some (Inr f), d')"
  shows "length (buffer d') < length (buffer d)"
proof -
  from assms have "dec_state d \<noteq> Stopped" "dec_state d \<noteq> Recovering" by auto
  with assms show ?thesis
    by (cases rule: decode_cases [of d parse]) (auto simp: decode_next_active dest: parse_consumed)
qed

lemma decode_next_error:
  assumes "decode_next parse d = (Some (Inl e), d')"
  shows "dec_state d' = Stopped \<or> dec_state d' = Recovering"
proof -
  from assms have "dec_state d \<noteq> Stopped" "dec_state d \<noteq> Recovering" by auto
  with assms show ?thesis
    by (cases rule: decode_cases [of d parse]) (auto simp: decode_next_active)
qed

lemma decode_next_None:
  assumes "decode_next parse d = (None, d')"
  shows "decode_next parse d' = (None, d')"
proof (cases "dec_state d = Stopped \<or> dec_state d = Recovering")
  case True
  with assms show ?thesis by auto
next
  case False
  with assms show ?thesis
    by (cases rule: decode_cases [of d parse]) (auto simp: decode_next_active decode_def)
qed

lemma drain_shape:
  assumes "drain parse fuel d = Some (items, d')"
  shows "\<exists>frames errors. items = map Inr frames @ map Inl errors \<and> length errors \<le> 1 \<and>
     length frames \<le> length (buffer d) \<and> decode_next parse d' = (None, d')"
  using assms
proof (induction fuel arbitrary: d items)
  case (Suc fuel)
  obtain r d1 where r: "decode_next parse d = (r, d1)" by fastforce
  show ?case
  proof (cases r)
    case None
    with Suc.prems r have "items = []" "d' = d1" by auto
    with decode_next_None [of d d1] r None show ?thesis by simp
  next
    case (Some item)
    with Suc.prems r obtain items1 where d1: "drain parse fuel d1 = Some (items1, d')"
      and items: "items = item # items1" by auto
    show ?thesis
    proof (cases item)
      case (Inl e)
      then have "decode_next parse d1 = (None, d1)"
        using decode_next_error [of d e d1] r Some by auto
      then have "items1 = []" "d' = d1" using d1 by (cases fuel; simp)+
      then show ?thesis
        using Inl items \<open>decode_next parse d1 = (None, d1)\<close>
        by (intro exI [of _ "[]"] exI [of _ "[e]"]) simp
    next
      case (Inr f)
      obtain frames errors where "items1 = map Inr frames @ map Inl errors" "length errors \<le> 1"
          "length frames \<le> length (buffer d1)" "decode_next parse d' = (None, d')"
        using Suc.IH [OF d1] by blast
      moreover have "length (buffer d1) < length (buffer d)"
        using decode_next_frame r Some Inr by blast
      ultimately show ?thesis
        using Inr items by (intro exI [of _ "f # frames"] exI [of _ errors]) simp
    qed
  qed
qed simp

text \<open>An error ends the iteration: the machine is \<open>Recovering\<close> or \<open>Stopped\<close> after it.\<close>

lemma drain_error:
  assumes "dec_state d \<noteq> Stopped" "dec_state d \<noteq> Recovering" "buffer d \<noteq> []"
    and "parse (buffer d) = Inl e" "error_count d + 1 < max_errors d" "2 \<le> fuel"
  shows "drain parse fuel d =
     Some ([Inl e], (try_recover e (d\<lparr>dec_state := Parsing, error_count := error_count d + 1\<rparr>))
                      \<lparr>dec_state := Recovering\<rparr>)"
proof -
  obtain k where "fuel = Suc (Suc k)" using assms(6) by (metis add_2_eq_Suc le_Suc_ex)
  then show ?thesis
    using assms(1-5) by (simp add: decode_next_active decode_def Let_def)
qed

end

text \<open>Over a codec, a buffer that starts a sequence of encoded messages yields exactly the messages
  it holds in full, and keeps the first bytes of the next one.\<close>

context frame_codec
begin

lemma encode_not_Nil: "wf m \<Longrightarrow> encode m \<noteq> []"
  using parse_encode [of m "[]"] parse_consumed [of "encode m"] by auto

definition cut_short :: "'m list \<Rightarrow> u8 list \<Rightarrow> bool" where
  "cut_short ms buf \<longleftrightarrow> buf = [] \<or> (\<exists>m ms'. ms = m # ms' \<and> length buf < length (encode m))"

lemma drain_encoded:
  assumes "\<forall>m \<in> set ms. wf m" "dec_state d \<noteq> Stopped" "dec_state d \<noteq> Recovering"
    and "buffer d @ rest = concat (map encode ms)" "length (buffer d) + 1 < fuel"
  shows "\<exists>ms1 ms2 tail. ms = ms1 @ ms2 \<and> tail @ rest = concat (map encode ms2) \<and> cut_short ms2 tail \<and>
     drain parse fuel d = Some (map (\<lambda>m. Inr (decoded m)) ms1,
       d\<lparr>buffer := tail, dec_state := Ready, frames_decoded := frames_decoded d + length ms1,
         error_count := if ms1 = [] then error_count d else 0\<rparr>)"
  using assms
proof (induction fuel arbitrary: d ms)
  case (Suc fuel)
  show ?case
  proof (cases "buffer d = []")
    case True
    with Suc.prems show ?thesis
      by (intro exI [of _ "[]"] exI [of _ ms])
        (simp add: decode_next_active decode_def cut_short_def)
  next
    case False
    with Suc.prems(4) obtain m ms' where ms: "ms = m # ms'" by (cases ms) auto
    with Suc.prems(1) have wf_m: "wf m" and wf_ms': "\<forall>m \<in> set ms'. wf m" by auto
    have eq: "buffer d @ rest = encode m @ concat (map encode ms')" using Suc.prems(4) ms by simp
    show ?thesis
    proof (cases "length (buffer d) < length (encode m)")
      case True
      then have "buffer d = take (length (buffer d)) (encode m)"
        using eq by (metis append_eq_append_conv_if take_append take_all_iff le_refl less_imp_le diff_self_eq_0 take0 append_Nil2 append_take_drop_id)
      then have "parse (buffer d) = Inr None"
        using parse_truncated [OF wf_m True] by simp
      then show ?thesis
        using Suc.prems(2-5) False True ms
        by (intro exI [of _ "[]"] exI [of _ ms] exI [of _ "buffer d"])
          (simp add: decode_next_active decode_def Let_def cut_short_def)
    next
      case whole: False
      define buf where "buf = drop (length (encode m)) (buffer d)"
      have "take (length (encode m)) (buffer d @ rest) = encode m"
        by (simp add: eq)
      then have d: "buffer d = encode m @ buf"
        using whole append_take_drop_id [of "length (encode m)" "buffer d"] by (simp add: buf_def)
      then have rest: "buf @ rest = concat (map encode ms')" using eq by simp
      let ?d = "d\<lparr>buffer := buf, dec_state := Ready, frames_decoded := frames_decoded d + 1,
          error_count := 0\<rparr>"
      have "decode_next parse d = (Some (Inr (decoded m)), ?d)"
        using Suc.prems(2-4) False parse_encode [OF wf_m, of buf]
        by (simp add: decode_next_active decode_def Let_def d)
      moreover have "length buf + 1 < fuel"
        using Suc.prems(5) d encode_not_Nil [OF wf_m] by (cases "encode m") auto
      then obtain ms1 ms2 tail where "ms' = ms1 @ ms2" "tail @ rest = concat (map encode ms2)"
          "cut_short ms2 tail" "drain parse fuel ?d = Some (map (\<lambda>m. Inr (decoded m)) ms1,
          ?d\<lparr>buffer := tail, dec_state := Ready, frames_decoded := frames_decoded ?d + length ms1,
            error_count := if ms1 = [] then error_count ?d else 0\<rparr>)"
        using Suc.IH [of ms' ?d] wf_ms' rest by auto
      ultimately show ?thesis
        using ms by (intro exI [of _ "m # ms1"] exI [of _ ms2] exI [of _ tail]) simp
    qed
  qed
qed simp

lemma cut_short_all:
  assumes "\<forall>m \<in> set ms. wf m" "buf = concat (map encode ms)" "cut_short ms buf"
  shows "ms = []"
  using assms encode_not_Nil by (cases ms) (auto simp: cut_short_def)

lemma cut_short_fits:
  assumes "\<forall>m \<in> set ms. wf m" "cut_short ms buf" "buf @ c @ rest = concat (map encode ms)"
    and "\<forall>m \<in> set ms. length c + length (encode m) \<le> limit + 1"
  shows "length buf + length c \<le> limit"
proof (cases ms)
  case Nil
  then show ?thesis using assms(3) by simp
next
  case (Cons m ms')
  with assms(1) have "encode m \<noteq> []" using encode_not_Nil by auto
  then have "length buf < length (encode m)"
    using assms(2) Cons by (auto simp: cut_short_def)
  with assms(4) Cons show ?thesis by fastforce
qed

text \<open>A stream that continues a run: the machine is ready, or it has just skipped damaged bytes
  and another chunk arrives.\<close>

lemma decode_stream_encoded:
  assumes "\<forall>m \<in> set ms. wf m" "dec_state d = Ready \<or> dec_state d = Recovering \<and> chunks \<noteq> []"
    and "buffer d @ concat chunks = concat (map encode ms)"
    and "case chunks of [] \<Rightarrow> cut_short ms (buffer d)
         | c # _ \<Rightarrow> length (buffer d) + length c \<le> max_buffer_size d"
    and "\<forall>c \<in> set chunks. \<forall>m \<in> set ms. length c + length (encode m) \<le> max_buffer_size d + 1"
  shows "decode_stream parse d chunks = Some (map (\<lambda>m. Inr (decoded m)) ms,
     d\<lparr>buffer := [], dec_state := Ready, frames_decoded := frames_decoded d + length ms,
       error_count := if ms = [] then error_count d else 0\<rparr>)"
  using assms
proof (induction chunks arbitrary: d ms)
  case Nil
  then have "ms = []" using cut_short_all by simp
  with Nil show ?case by simp
next
  case (Cons c cs)
  let ?d = "d\<lparr>buffer := buffer d @ c, dec_state := Ready\<rparr>"
  have feed: "feed d c = Inr ?d"
    using Cons.prems(2,4) by (auto simp: feed_def Let_def)
  obtain ms1 ms2 tail where it: "ms = ms1 @ ms2" "tail @ concat cs = concat (map encode ms2)"
      "cut_short ms2 tail" "decode_iter parse ?d = Some (map (\<lambda>m. Inr (decoded m)) ms1,
        ?d\<lparr>buffer := tail, dec_state := Ready, frames_decoded := frames_decoded ?d + length ms1,
          error_count := if ms1 = [] then error_count ?d else 0\<rparr>)"
    using drain_encoded [of ms ?d "concat cs" "length (buffer ?d) + 2"] Cons.prems(1,3)
    by (auto simp: decode_iter_def)
  let ?d2 = "?d\<lparr>buffer := tail, dec_state := Ready, frames_decoded := frames_decoded ?d + length ms1,
      error_count := if ms1 = [] then error_count ?d else 0\<rparr>"
  have fits: "length tail + length c' \<le> max_buffer_size d" if "cs = c' # cs'" for c' cs'
    using cut_short_fits [of ms2 tail c' "concat cs'"] it Cons.prems(1,5) that by auto
  have "decode_stream parse ?d2 cs = Some (map (\<lambda>m. Inr (decoded m)) ms2,
     ?d2\<lparr>buffer := [], dec_state := Ready, frames_decoded := frames_decoded ?d2 + length ms2,
       error_count := if ms2 = [] then error_count ?d2 else 0\<rparr>)"
    by (rule Cons.IH) (use Cons.prems it fits in \<open>auto split: list.split\<close>)
  then show ?case using it(1,4) feed by simp
qed

end

section \<open>Runs of the machine\<close>

text \<open>A decoder that was fed the bytes \<open>fed\<close> and has handed out the frames \<open>out\<close>, whatever order
  \<open>feed\<close> and \<open>decode\<close> were called in.\<close>

inductive decoder_run ::
  "(u8 list \<Rightarrow> parse_error + ('f \<times> nat) option) \<Rightarrow> u8 list \<Rightarrow> 'f list \<Rightarrow> decoder \<Rightarrow> bool"
  for parse where
  start: "decoder_run parse [] [] new_decoder"
| feed: "decoder_run parse fed out d \<Longrightarrow> feed d c = Inr d' \<Longrightarrow> decoder_run parse (fed @ c) out d'"
| frame: "decoder_run parse fed out d \<Longrightarrow> decode parse d = (Inr (Some f), d') \<Longrightarrow>
    decoder_run parse fed (out @ [f]) d'"
| wait: "decoder_run parse fed out d \<Longrightarrow> decode parse d = (Inr None, d') \<Longrightarrow>
    decoder_run parse fed out d'"
| error: "decoder_run parse fed out d \<Longrightarrow> decode parse d = (Inl e, d') \<Longrightarrow>
    decoder_run parse fed out d'"

definition decoder_inv :: "u8 list \<Rightarrow> 'f list \<Rightarrow> decoder \<Rightarrow> bool" where
  "decoder_inv fed out d \<longleftrightarrow>
     (\<exists>before. fed = before @ buffer d \<and> bytes_skipped d \<le> length before) \<and>
     frames_decoded d = length out \<and>
     length (buffer d) \<le> max_buffer_size d \<and> max_buffer_size d = DEFAULT_MAX_BUFFER_SIZE \<and>
     max_errors d = DEFAULT_MAX_ERRORS \<and> error_count d \<le> max_errors d \<and>
     (dec_state d = Stopped \<longleftrightarrow> error_count d = max_errors d)"

lemma feed_cases:
  assumes "feed d c = Inr d'"
  shows "length (buffer d) + length c \<le> max_buffer_size d"
    and "d' = d\<lparr>buffer := buffer d @ c,
                dec_state := if dec_state d = Recovering then Ready else dec_state d\<rparr>"
  using assms by (auto simp: feed_def Let_def split: if_splits)

lemma decoder_inv_feed:
  "decoder_inv fed out d \<Longrightarrow> feed d c = Inr d' \<Longrightarrow> decoder_inv (fed @ c) out d'"
  by (frule feed_cases(1), drule feed_cases(2)) (auto simp: decoder_inv_def split: if_splits)

context frame_parser
begin

lemma decoder_inv_decode:
  assumes "decoder_inv fed out d" "decode parse d = (r, d')"
  shows "decoder_inv fed (out @ (case r of Inr (Some f) \<Rightarrow> [f] | _ \<Rightarrow> [])) d'"
proof -
  obtain before where inv: "fed = before @ buffer d" "bytes_skipped d \<le> length before"
      "frames_decoded d = length out" "length (buffer d) \<le> max_buffer_size d"
      "max_buffer_size d = DEFAULT_MAX_BUFFER_SIZE" "max_errors d = DEFAULT_MAX_ERRORS"
      "error_count d \<le> max_errors d" "dec_state d = Stopped \<longleftrightarrow> error_count d = max_errors d"
    using assms(1) by (auto simp: decoder_inv_def)
  show ?thesis
  proof (cases rule: decode_cases [of d parse])
    case (frame f n)
    then show ?thesis
      using assms(2) inv parse_consumed [OF frame(3)]
      by (auto simp: decoder_inv_def DEFAULT_MAX_ERRORS_def intro!: exI [of _ "before @ take n (buffer d)"])
  next
    case (recover e n)
    then show ?thesis
      using assms(2) inv
      by (auto simp: decoder_inv_def intro!: exI [of _ "before @ take n (buffer d)"])
  qed (use assms inv in \<open>auto simp: decoder_inv_def\<close>)
qed

lemma decoder_run_inv: "decoder_run parse fed out d \<Longrightarrow> decoder_inv fed out d"
proof (induction rule: decoder_run.induct)
  case start
  show ?case by (simp add: decoder_inv_def new_decoder_def DEFAULT_MAX_ERRORS_def)
next
  case (feed fed out d c d')
  then show ?case using decoder_inv_feed by blast
next
  case (frame fed out d f d')
  then show ?case using decoder_inv_decode [of fed out d "Inr (Some f)" d'] by simp
next
  case (wait fed out d d')
  then show ?case using decoder_inv_decode [of fed out d "Inr None" d'] by simp
next
  case (error fed out d e d')
  then show ?case using decoder_inv_decode [of fed out d "Inl e" d'] by simp
qed

end

section \<open>The program's decoder\<close>

lemma decode_stream_messages:
  assumes "\<forall>m \<in> set ms. wf_message m"
    and "concat chunks = concat (map (encode_frame crc) ms)"
    and "\<forall>c \<in> set chunks. \<forall>m \<in> set ms. length c + message_size m \<le> DEFAULT_MAX_BUFFER_SIZE + 1"
  shows "decode_stream (parse_frame crc) new_decoder chunks =
     Some (map (\<lambda>m. Inr (frame_of m)) ms, new_decoder\<lparr>frames_decoded := length ms\<rparr>)"
proof -
  have "length c \<le> DEFAULT_MAX_BUFFER_SIZE" if "chunks = c # cs" for c cs
    using event_frame.cut_short_fits [of ms crc "[]" c "concat cs" DEFAULT_MAX_BUFFER_SIZE] assms that
    by (simp add: event_frame.cut_short_def length_encode_frame)
  then show ?thesis
    using event_frame.decode_stream_encoded [of ms new_decoder chunks crc] assms
    by (auto simp: new_decoder_def length_encode_frame event_frame.cut_short_def split: list.splits)
qed

text \<open>C22: Whatever chunks the network cuts a well-formed event stream into (no chunk so large that
  it overflows the buffer together with an unfinished message), feeding the chunks and draining
  the iterator after each one yields exactly the frames of the messages, in order and without an
  error, to the loop of the request handlers as to the tolerant one, and leaves the decoder ready
  with an empty buffer.\<close>

theorem decode_stream_frames:
  assumes "\<forall>m \<in> set ms. wf_message m"
    and "concat chunks = concat (map (encode_frame crc) ms)"
    and "\<forall>c \<in> set chunks. \<forall>m \<in> set ms. length c + message_size m \<le> DEFAULT_MAX_BUFFER_SIZE + 1"
  shows "read_frames (parse_frame crc) new_decoder chunks = Some (map frame_of ms, None) \<and>
     decode_stream (parse_frame crc) new_decoder chunks =
       Some (map (\<lambda>m. Inr (frame_of m)) ms, new_decoder\<lparr>frames_decoded := length ms\<rparr>)"
  using read_frames_decode_stream [OF decode_stream_messages [OF assms]]
    decode_stream_messages [OF assms]
  by simp

text \<open>A message and a checksum on which the properties are applied.\<close>

definition sample_crc :: "u8 list \<Rightarrow> u32" where
  "sample_crc bs = of_nat (length bs)"

definition sample_message :: message where
  "sample_message = ([(''a'', VBool True)], [104, 105])"

lemma sample_message_wf: "wf_message sample_message"
proof -
  have "wf_header (''a'', VBool True)" by code_simp
  moreover have "message_size sample_message = 21" by code_simp
  ultimately show ?thesis by (simp add: sample_message_def wf_message_def MAX_MESSAGE_SIZE_def)
qed

lemma sample_message_size: "message_size sample_message = 21"
  by code_simp

lemma encode_sample_message:
  "encode_frame sample_crc sample_message =
     [0, 0, 0, 21, 0, 0, 0, 3, 0, 0, 0, 8, 1, 97, 0, 104, 105, 0, 0, 0, 17]"
  by code_simp

theorem decode_stream_frames_witness:
  "read_frames (parse_frame sample_crc) new_decoder
     [[0, 0, 0, 21, 0, 0, 0, 3, 0], [], [0, 0, 8, 1, 97, 0, 104, 105, 0, 0, 0, 17, 0],
      [0, 0, 21, 0, 0, 0, 3, 0, 0, 0, 8, 1, 97, 0, 104, 105, 0, 0, 0, 17]] =
   Some ([frame_of sample_message, frame_of sample_message], None)"
  using decode_stream_frames [of "[sample_message, sample_message]"
      "[[0, 0, 0, 21, 0, 0, 0, 3, 0], [], [0, 0, 8, 1, 97, 0, 104, 105, 0, 0, 0, 17, 0],
        [0, 0, 21, 0, 0, 0, 3, 0, 0, 0, 8, 1, 97, 0, 104, 105, 0, 0, 0, 17]]" sample_crc]
  by (simp add: sample_message_wf sample_message_size encode_sample_message
      DEFAULT_MAX_BUFFER_SIZE_def)

text \<open>C40: The iterator always comes to an end, for any decoder and any bytes: it hands out a number
  of frames, at most one error after them, and is then exhausted.\<close>

theorem decode_iter_terminates:
  "\<exists>frames errors d'. decode_iter (parse_frame crc) d = Some (map Inr frames @ map Inl errors, d') \<and>
     length errors \<le> 1 \<and> length frames \<le> length (buffer d) \<and>
     decode_next (parse_frame crc) d' = (None, d')"
  using event_frame.decode_iter_returns [of crc d] event_frame.drain_shape [of crc _ d]
  unfolding decode_iter_def by blast

text \<open>In every run of the decoder the buffer is the unread end of the bytes that were fed and
  never exceeds its limit, bytes are only skipped or decoded once, the frame counter counts the
  frames handed out, and the machine has stopped exactly when five consecutive errors were seen.\<close>

lemma decoder_run_invariant:
  assumes "decoder_run (parse_frame crc) fed out d"
  shows "(\<exists>before. fed = before @ buffer d \<and> bytes_skipped d \<le> length before) \<and>
     frames_decoded d = length out \<and>
     length (buffer d) \<le> DEFAULT_MAX_BUFFER_SIZE \<and>
     error_count d \<le> DEFAULT_MAX_ERRORS \<and>
     (dec_state d = Stopped \<longleftrightarrow> error_count d = DEFAULT_MAX_ERRORS)"
  using event_frame.decoder_run_inv [OF assms] by (auto simp: decoder_inv_def)

theorem decoder_run_invariant_witness:
  "\<exists>d. decoder_run (parse_frame sample_crc) (replicate 12 0) ([] :: frame list) d \<and>
     (\<exists>before. replicate 12 0 = before @ buffer d \<and> bytes_skipped d \<le> length before) \<and>
     bytes_skipped d = 1 \<and> error_count d = 1"
proof -
  have fed: "feed new_decoder (replicate 12 0) = Inr (new_decoder\<lparr>buffer := replicate 12 0\<rparr>)"
    by (simp add: feed_def new_decoder_def DEFAULT_MAX_BUFFER_SIZE_def)
  have "be_u32_at (replicate 12 0) 0 = 0" by code_simp
  then have small: "parse_frame sample_crc (replicate 12 0) = Inl (MessageTooSmall 0 16)"
    by (simp add: parse_frame_def PRELUDE_SIZE_def MIN_MESSAGE_SIZE_def)
  define d where "d = new_decoder\<lparr>buffer := replicate 11 0, dec_state := Recovering,
      error_count := 1, bytes_skipped := 1\<rparr>"
  have dec: "decode (parse_frame sample_crc) (new_decoder\<lparr>buffer := replicate 12 0\<rparr>)
      = (Inl (MessageTooSmall 0 16), d)"
    unfolding decode_def by (simp add: small new_decoder_def DEFAULT_MAX_ERRORS_def
        try_recover_def skip_bytes_def d_def Let_def)
  have "decoder_run (parse_frame sample_crc) ([] @ replicate 12 0) [] d"
    by (rule decoder_run.error [OF decoder_run.feed [OF decoder_run.start fed] dec])
  then have run: "decoder_run (parse_frame sample_crc) (replicate 12 0) [] d" by simp
  moreover from decoder_run_invariant [OF run]
  have "\<exists>before. replicate 12 0 = before @ buffer d \<and> bytes_skipped d \<le> length before" by blast
  ultimately show ?thesis by (auto simp: d_def)
qed

section \<open>Damaged messages\<close>

text \<open>A message whose trailing checksum does not match its bytes.\<close>

definition damaged_frame :: "(u8 list \<Rightarrow> u32) \<Rightarrow> message \<Rightarrow> u32 \<Rightarrow> u8 list" where
  "damaged_frame crc m w = encode_body crc m @ be_bytes 4 (unat w)"

lemma length_damaged_frame [simp]: "length (damaged_frame crc m w) = message_size m"
  using message_size_ge [of m] by (simp add: damaged_frame_def length_encode_body)

lemma damaged_frame_head:
  "be_u32_at (damaged_frame crc m w @ rest) 0 = of_nat (message_size m)"
  "be_u32_at (damaged_frame crc m w @ rest) 8 = crc (encode_prelude m)"
proof -
  have at: "be_u32_at (damaged_frame crc m w @ rest) i = be_u32_at (encode_body crc m) i" if "i \<le> 8" for i
    using that message_size_ge [of m]
    by (simp add: damaged_frame_def be_u32_at_def slice_append_left length_encode_body)
  have en: "be_u32_at (encode_frame crc m @ []) i = be_u32_at (encode_body crc m) i" if "i \<le> 8" for i
    using that message_size_ge [of m]
    by (simp add: encode_frame_def be_u32_at_def slice_append_left length_encode_body)
  show "be_u32_at (damaged_frame crc m w @ rest) 0 = of_nat (message_size m)"
    "be_u32_at (damaged_frame crc m w @ rest) 8 = crc (encode_prelude m)"
    using at en prelude_fields [of crc m "[]"] by simp_all
qed

lemma parse_damaged_frame:
  assumes "wf_message m" "w \<noteq> crc (encode_body crc m)"
  shows "parse_frame crc (damaged_frame crc m w @ rest)
     = Inl (MessageCrcMismatch w (crc (encode_body crc m)))"
proof -
  let ?b = "damaged_frame crc m w @ rest"
  have ge: "16 \<le> message_size m" by (rule message_size_ge)
  have tail: "be_u32_at ?b (message_size m - 4) = w"
    using be_u32_at_append [of "encode_body crc m" "message_size m - 4" "unat w" rest]
    by (simp add: damaged_frame_def length_encode_body)
  have body: "take (message_size m - 4) ?b = encode_body crc m"
    by (simp add: damaged_frame_def length_encode_body)
  have "take 8 ?b = take 8 (encode_body crc m)"
    using ge by (simp add: damaged_frame_def length_encode_body)
  also have "\<dots> = encode_prelude m" by (simp add: encode_body_def encode_prelude_def)
  finally have prelude: "take 8 ?b = encode_prelude m" .
  have "\<not> length ?b < PRELUDE_SIZE" "\<not> length ?b < message_size m"
    using ge by (simp_all add: PRELUDE_SIZE_def)
  then show ?thesis
    using total_length_in_range [OF assms(1)] assms(2)
    unfolding parse_frame_def
    by (simp add: damaged_frame_head unat_message_size [OF assms(1)] tail body prelude Let_def
        del: length_append take_append)
qed

lemma try_recover_frame:
  assumes "buffer d = damaged_frame crc m w @ rest" "wf_message m"
  shows "try_recover (MessageCrcMismatch a b) d = skip_bytes (message_size m) d"
  using assms message_size_ge [of m]
  by (simp add: try_recover_def skip_frame_def PRELUDE_SIZE_def damaged_frame_head
      unat_message_size Let_def) (auto simp: damaged_frame_def encode_body_def encode_prelude_def
      dest!: arg_cong [where f = length])

lemma decode_iter_damaged:
  assumes "wf_message m" "w \<noteq> crc (encode_body crc m)"
    and "dec_state d = Ready" "buffer d = damaged_frame crc m w @ rest"
    and "error_count d + 1 < max_errors d"
  shows "decode_iter (parse_frame crc) d =
     Some ([Inl (MessageCrcMismatch w (crc (encode_body crc m)))],
       d\<lparr>buffer := rest, dec_state := Recovering, error_count := error_count d + 1,
         bytes_skipped := bytes_skipped d + message_size m\<rparr>)"
proof -
  let ?d = "d\<lparr>dec_state := Parsing, error_count := error_count d + 1\<rparr>"
  have ne: "buffer d \<noteq> []" using message_size_ge [of m] length_damaged_frame [of crc m w] assms(4)
    by (metis append_is_Nil_conv list.size(3) not_numeral_le_zero)
  have "try_recover (MessageCrcMismatch w (crc (encode_body crc m))) ?d
      = skip_bytes (message_size m) ?d"
    by (rule try_recover_frame) (use assms in simp_all)
  then show ?thesis
    using event_frame.drain_error [of d crc "MessageCrcMismatch w (crc (encode_body crc m))"
        "length (buffer d) + 2"] ne assms parse_damaged_frame [where crc = crc, OF assms(1,2), of rest]
    by (simp add: decode_iter_def skip_bytes_def)
qed

text \<open>C23: A message with a damaged checksum costs exactly itself: the decoder reports the mismatch,
  skips the whole message, ends this iteration, and after the next chunk goes on to decode every
  message that follows, complete ones already buffered behind the damage included.\<close>

theorem decode_stream_resync:
  assumes "wf_message bad" and "w \<noteq> crc (encode_body crc bad)"
    and "\<forall>m \<in> set ms. wf_message m"
    and "behind @ concat (c # chunks) = concat (map (encode_frame crc) ms)"
    and "message_size bad + length behind \<le> DEFAULT_MAX_BUFFER_SIZE"
    and "length behind + length c \<le> DEFAULT_MAX_BUFFER_SIZE"
    and "\<forall>c' \<in> set (c # chunks). \<forall>m \<in> set ms.
       length c' + message_size m \<le> DEFAULT_MAX_BUFFER_SIZE + 1"
  shows "decode_stream (parse_frame crc) new_decoder
       ((damaged_frame crc bad w @ behind) # c # chunks) =
     Some (Inl (MessageCrcMismatch w (crc (encode_body crc bad))) # map (\<lambda>m. Inr (frame_of m)) ms,
       new_decoder\<lparr>bytes_skipped := message_size bad, frames_decoded := length ms,
         error_count := if ms = [] then 1 else 0\<rparr>)"
proof -
  let ?d = "new_decoder\<lparr>buffer := damaged_frame crc bad w @ behind\<rparr>"
  let ?d1 = "new_decoder\<lparr>buffer := behind, dec_state := Recovering, error_count := 1,
      bytes_skipped := message_size bad\<rparr>"
  have "feed new_decoder (damaged_frame crc bad w @ behind) = Inr ?d"
    using assms(5) by (simp add: feed_def new_decoder_def)
  moreover have "decode_iter (parse_frame crc) ?d
      = Some ([Inl (MessageCrcMismatch w (crc (encode_body crc bad)))], ?d1)"
    using decode_iter_damaged [where crc = crc, OF assms(1,2), of ?d behind]
    by (simp add: new_decoder_def DEFAULT_MAX_ERRORS_def)
  moreover have "decode_stream (parse_frame crc) ?d1 (c # chunks) =
      Some (map (\<lambda>m. Inr (frame_of m)) ms,
       ?d1\<lparr>buffer := [], dec_state := Ready, frames_decoded := frames_decoded ?d1 + length ms,
         error_count := if ms = [] then error_count ?d1 else 0\<rparr>)"
    by (rule event_frame.decode_stream_encoded)
      (use assms in \<open>simp_all add: new_decoder_def length_encode_frame\<close>)
  ultimately show ?thesis
    by (simp only: decode_stream.simps sum.case bind.simps prod.case option.map) (simp add: new_decoder_def)
qed

theorem decode_stream_resync_witness:
  "decode_stream (parse_frame sample_crc) new_decoder
     [damaged_frame sample_crc sample_message 99 @ encode_frame sample_crc sample_message, []] =
   Some ([Inl (MessageCrcMismatch 99 17), Inr (frame_of sample_message)],
     new_decoder\<lparr>bytes_skipped := 21, frames_decoded := 1\<rparr>)"
proof -
  have "sample_crc (encode_body sample_crc sample_message) = 17" by code_simp
  with decode_stream_resync [of sample_message 99 sample_crc "[sample_message]"
      "encode_frame sample_crc sample_message" "[]" "[]"]
  show ?thesis
    by (simp add: sample_message_wf sample_message_size length_encode_frame new_decoder_def
      DEFAULT_MAX_BUFFER_SIZE_def)
qed

lemma parse_frame_late_error:
  assumes "parse_frame crc buf = Inl e" "\<And>a b. e \<noteq> MessageTooSmall a b" "\<And>a b. e \<noteq> MessageTooLarge a b"
  shows "12 \<le> length buf \<and> 16 \<le> unat (be_u32_at buf 0) \<and> unat (be_u32_at buf 0) \<le> length buf"
proof -
  let ?t = "be_u32_at buf 0"
  from assms have "\<not> ?t < of_nat MIN_MESSAGE_SIZE" "\<not> length buf < unat ?t" "\<not> length buf < 12"
    by (auto simp: parse_frame_def PRELUDE_SIZE_def Let_def split: if_splits)
  then show ?thesis by (simp add: word_less_nat_alt frame_sizes)
qed

text \<open>What an error costs: a message whose own checksum fails, or whose headers run past it or
  have an empty name, is skipped as a whole; every other error, the remaining errors of the header
  block included, skips a single byte. The comment of \<open>try_recover\<close> promises to skip the whole
  message for every failure to parse the headers.\<close>

lemma decode_error_skips:
  assumes "parse_frame crc (buffer d) = Inl e" and "dec_state d \<noteq> Stopped"
    and "error_count d + 1 < max_errors d"
  shows "\<exists>d'. decode (parse_frame crc) d = (Inl e, d') \<and> dec_state d' = Recovering \<and>
     buffer d' = drop (case e of
         MessageCrcMismatch _ _ \<Rightarrow> unat (be_u32_at (buffer d) 0)
       | HeaderParseFailed _ \<Rightarrow> unat (be_u32_at (buffer d) 0)
       | _ \<Rightarrow> 1) (buffer d)"
proof -
  have ne: "buffer d \<noteq> []" using assms(1) event_frame.parse_Nil by fastforce
  show ?thesis
    using assms ne parse_frame_late_error [OF assms(1)]
    by (cases e) (simp_all add: decode_def Let_def try_recover_def skip_frame_def PRELUDE_SIZE_def)
qed

text \<open>A message with correct checksums whose header has the unknown type 10.\<close>

definition odd_header_frame :: "u8 list" where
  "odd_header_frame = [0, 0, 0, 20, 0, 0, 0, 3, 0, 0, 0, 8, 1, 97, 10, 104, 0, 0, 0, 16]"

lemma parse_odd_header_frame:
  "parse_frame sample_crc odd_header_frame = Inl (InvalidHeaderType 10)"
proof -
  have "be_u32_at odd_header_frame 0 = 20" "be_u32_at odd_header_frame 4 = 3"
    "be_u32_at odd_header_frame 8 = 8" "be_u32_at odd_header_frame 16 = 16"
    "length odd_header_frame = 20"
    "slice odd_header_frame 12 15 = [1, 97, 10]" by code_simp+
  moreover have "parse_headers [1, 97, 10] 3 = Inl (InvalidHeaderType 10)"
    by (simp add: parse_headers_def parse_headers_loop.simps header_value_type_of_def)
  ultimately show ?thesis
    by (simp add: parse_frame_def frame_sizes sample_crc_def)
qed

theorem decode_error_skips_witness:
  "\<exists>d'. decode (parse_frame sample_crc) (new_decoder\<lparr>buffer := odd_header_frame\<rparr>)
       = (Inl (InvalidHeaderType 10), d') \<and>
     buffer d' = [0, 0, 20, 0, 0, 0, 3, 0, 0, 0, 8, 1, 97, 10, 104, 0, 0, 0, 16]"
  using decode_error_skips [of sample_crc "new_decoder\<lparr>buffer := odd_header_frame\<rparr>"
      "InvalidHeaderType 10"] parse_odd_header_frame
  by (auto simp: new_decoder_def DEFAULT_MAX_ERRORS_def odd_header_frame_def)

end
