(* ===== verification/SessionAffinity.thy ===== *)
theory SessionAffinity
  imports RustStd
begin

text \<open>
  Sticky sessions (\<open>src/kiro/session_affinity.rs\<close>): the table that binds a conversation to the
  credential that served it last, with its expiry, its capacity and its counters. Each operation
  is atomic under the table's lock; \<open>now\<close> is the reading of the monotonic clock it makes.
  Adding a duration to an instant does not overflow here (the source would panic).
\<close>

definition CAPACITY :: nat where "CAPACITY = 8192"
definition MIN_TTL_SECS :: u64 where "MIN_TTL_SECS = 60"

datatype sticky_outcome = Hit | MissFirst | MissUnavailable | Off

record route_decision =
  sticky_outcome :: sticky_outcome
  previous_credential_id :: "u64 option"

definition no_route :: route_decision where
  "no_route = \<lparr>sticky_outcome = Off, previous_credential_id = None\<rparr>"

record binding =
  bound_credential :: u64
  expires_at :: instant

record affinity =
  bindings :: "(string \<times> binding) list"
  enabled :: bool
  ttl_secs :: u64
  hits :: u64
  misses :: u64

record affinity_stats =
  st_enabled :: bool
  st_ttl_secs :: u64
  st_hits :: u64
  st_misses :: u64
  active_bindings :: nat

definition new_affinity :: "bool \<Rightarrow> u64 \<Rightarrow> affinity" where
  "new_affinity on ttl =
     \<lparr>bindings = [], enabled = on, ttl_secs = max ttl MIN_TTL_SECS, hits = 0, misses = 0\<rparr>"

definition set_enabled :: "bool \<Rightarrow> affinity \<Rightarrow> affinity" where
  "set_enabled on a = a\<lparr>enabled := on\<rparr>"

definition set_ttl_secs :: "u64 \<Rightarrow> affinity \<Rightarrow> affinity" where
  "set_ttl_secs ttl a = a\<lparr>ttl_secs := max ttl MIN_TTL_SECS\<rparr>"

definition ttl :: "affinity \<Rightarrow> duration" where
  "ttl a = from_secs (ttl_secs a)"

definition lookup :: "instant \<Rightarrow> string \<Rightarrow> affinity \<Rightarrow> u64 option \<times> affinity" where
  "lookup now session a =
     (case map_of (bindings a) session of
        Some b \<Rightarrow>
          if now < expires_at b then (Some (bound_credential b), a)
          else (None, a\<lparr>bindings := map_remove session (bindings a)\<rparr>)
      | None \<Rightarrow> (None, a))"

definition unexpired :: "instant \<Rightarrow> binding \<Rightarrow> bool" where
  "unexpired now b \<longleftrightarrow> now < expires_at b"

definition evict_earliest :: "(string \<times> binding) list \<Rightarrow> (string \<times> binding) list" where
  "evict_earliest m =
     (case min_by_key (\<lambda>e. expires_at (snd e)) m of
        Some (victim, _) \<Rightarrow> map_remove victim m
      | None \<Rightarrow> m)"

definition bind_session :: "instant \<Rightarrow> string \<Rightarrow> u64 \<Rightarrow> affinity \<Rightarrow> affinity" where
  "bind_session now session credential_id a =
     (if \<not> enabled a \<or> credential_id = 0 then a
      else
        let b = \<lparr>bound_credential = credential_id, expires_at = now + ttl a\<rparr>;
            m = bindings a in
        if map_of m session \<noteq> None then a\<lparr>bindings := map_insert session b m\<rparr>
        else
          let m = (if CAPACITY \<le> length m then map_retain (unexpired now) m else m);
              m = (if CAPACITY \<le> length m then evict_earliest m else m) in
          a\<lparr>bindings := map_insert session b m\<rparr>)"

fun record_outcome :: "sticky_outcome \<Rightarrow> affinity \<Rightarrow> affinity" where
  "record_outcome Hit a = a\<lparr>hits := hits a + 1\<rparr>"
| "record_outcome MissFirst a = a\<lparr>misses := misses a + 1\<rparr>"
| "record_outcome MissUnavailable a = a\<lparr>misses := misses a + 1\<rparr>"
| "record_outcome Off a = a"

definition stats :: "instant \<Rightarrow> affinity \<Rightarrow> affinity_stats" where
  "stats now a =
     \<lparr>st_enabled = enabled a, st_ttl_secs = ttl_secs a, st_hits = hits a, st_misses = misses a,
      active_bindings = length (filter (\<lambda>e. unexpired now (snd e)) (bindings a))\<rparr>"

definition evict_expired :: "instant \<Rightarrow> affinity \<Rightarrow> affinity" where
  "evict_expired now a = a\<lparr>bindings := map_retain (unexpired now) (bindings a)\<rparr>"

section \<open>The table's contract\<close>

text \<open>The credential a session is routed to at a time.\<close>

definition bound_at :: "instant \<Rightarrow> affinity \<Rightarrow> string \<Rightarrow> u64 option" where
  "bound_at now a session = fst (lookup now session a)"

definition affinity_inv :: "affinity \<Rightarrow> bool" where
  "affinity_inv a \<longleftrightarrow>
     distinct_keys (bindings a) \<and> length (bindings a) \<le> CAPACITY \<and> MIN_TTL_SECS \<le> ttl_secs a \<and>
     (\<forall>e \<in> set (bindings a). bound_credential (snd e) \<noteq> 0)"

lemma bound_at_alt:
  "bound_at now a s =
     (case map_of (bindings a) s of
        Some b \<Rightarrow> if now < expires_at b then Some (bound_credential b) else None
      | None \<Rightarrow> None)"
  by (simp add: bound_at_def lookup_def split: option.split)

lemma bound_at_Some:
  "bound_at now a s = Some c \<longleftrightarrow>
     (\<exists>b. map_of (bindings a) s = Some b \<and> now < expires_at b \<and> bound_credential b = c)"
  by (auto simp: bound_at_alt split: option.splits)

lemma snd_lookup:
  "snd (lookup now s a) = a \<or>
   snd (lookup now s a) = a\<lparr>bindings := map_remove s (bindings a)\<rparr> \<and> bound_at now a s = None"
  by (auto simp: lookup_def bound_at_def split: option.splits)

lemma map_remove_subset: "set (map_remove k m) \<subseteq> set m"
  by (auto simp: map_remove_def)

lemma evict_earliest_remove:
  "m \<noteq> [] \<Longrightarrow> \<exists>e \<in> set m. evict_earliest m = map_remove (fst e) m \<and>
     (\<forall>e' \<in> set m. expires_at (snd e) \<le> expires_at (snd e'))"
proof -
  assume "m \<noteq> []"
  then obtain v b where "min_by_key (\<lambda>e. expires_at (snd e)) m = Some (v, b)"
    using min_by_key_ex by (metis surj_pair)
  then show ?thesis
    using min_by_key_Some by (fastforce simp: evict_earliest_def intro!: bexI [of _ "(v, b)"])
qed

lemma length_evict_earliest: "m \<noteq> [] \<Longrightarrow> length (evict_earliest m) < length m"
  using evict_earliest_remove [of m] length_remove_less by fastforce

lemma evict_earliest_subset: "set (evict_earliest m) \<subseteq> set m"
  by (auto simp: evict_earliest_def map_remove_def split: option.splits)

lemma distinct_evict_earliest: "distinct_keys m \<Longrightarrow> distinct_keys (evict_earliest m)"
  by (simp add: evict_earliest_def split: option.split)

text \<open>Room for a new session: what \<open>bind_session\<close> keeps of a full table.\<close>

definition make_room :: "instant \<Rightarrow> (string \<times> binding) list \<Rightarrow> (string \<times> binding) list" where
  "make_room now m =
     (let m = (if CAPACITY \<le> length m then map_retain (unexpired now) m else m) in
      if CAPACITY \<le> length m then evict_earliest m else m)"

lemma bind_session_cases:
  "bind_session now s c a =
     (if \<not> enabled a \<or> c = 0 then a
      else let b = \<lparr>bound_credential = c, expires_at = now + ttl a\<rparr> in
        a\<lparr>bindings := map_insert s b
             (if map_of (bindings a) s \<noteq> None then bindings a else make_room now (bindings a))\<rparr>)"
  by (simp add: bind_session_def make_room_def Let_def)

lemma make_room:
  assumes "distinct_keys m" "length m \<le> CAPACITY"
  shows "distinct_keys (make_room now m)" "length (make_room now m) < CAPACITY"
    "set (make_room now m) \<subseteq> set m"
proof -
  have pos: "0 < CAPACITY" by (simp add: CAPACITY_def)
  let ?r = "map_retain (unexpired now) m"
  have r: "length ?r \<le> length m" "set ?r \<subseteq> set m"
    by (auto simp: map_retain_def intro: length_filter_le)
  have ev: "length (evict_earliest ?r) < length ?r" if "CAPACITY \<le> length ?r"
    using length_evict_earliest [of ?r] that pos by (cases "?r = []") simp_all
  show "distinct_keys (make_room now m)"
    using assms(1) by (simp add: make_room_def Let_def distinct_evict_earliest)
  show "length (make_room now m) < CAPACITY"
    using assms(2) r(1) ev by (auto simp: make_room_def Let_def not_le)
  show "set (make_room now m) \<subseteq> set m"
    using r(2) evict_earliest_subset [of ?r] by (auto simp: make_room_def Let_def)
qed

lemma affinity_inv_new: "affinity_inv (new_affinity on t)"
  by (simp add: affinity_inv_def new_affinity_def CAPACITY_def)

lemma affinity_inv_lookup: "affinity_inv a \<Longrightarrow> affinity_inv (snd (lookup now s a))"
  using snd_lookup [of now s a] length_remove_le [of s "bindings a"] map_remove_subset [of s "bindings a"]
  by (auto simp: affinity_inv_def intro: le_trans)

lemma affinity_inv_bind:
  assumes "affinity_inv a"
  shows "affinity_inv (bind_session now s c a)"
proof -
  let ?b = "\<lparr>bound_credential = c, expires_at = now + ttl a\<rparr>"
  have m: "distinct_keys (bindings a)" "length (bindings a) \<le> CAPACITY"
    using assms by (auto simp: affinity_inv_def)
  note room = make_room [OF m, of now]
  show ?thesis
  proof (cases "map_of (bindings a) s = None")
    case True
    have "length (map_insert s ?b (make_room now (bindings a))) \<le> CAPACITY"
      using room(2) length_insert_le [of s ?b "make_room now (bindings a)"] by linarith
    then show ?thesis
      using assms True room
      by (auto simp: bind_session_cases affinity_inv_def Let_def dest!: set_insert)
  next
    case False
    then show ?thesis
      using assms m length_insert_present [OF False, of ?b]
      by (auto simp: bind_session_cases affinity_inv_def Let_def dest!: set_insert)
  qed
qed

lemma affinity_inv_evict: "affinity_inv a \<Longrightarrow> affinity_inv (evict_expired now a)"
  using length_retain_le [of "unexpired now" "bindings a"]
  by (auto simp: affinity_inv_def evict_expired_def map_retain_def distinct_map_filter
      intro: le_trans [OF length_filter_le])

section \<open>A table of expiring bindings\<close>

text \<open>
  What the scheduler needs of the table. \<open>quiet\<close> steps may forget a binding but never change
  one; a \<open>put\<close> is quiet for every other key.
\<close>

locale sticky_table =
  fixes bound :: "instant \<Rightarrow> 's \<Rightarrow> 'k \<Rightarrow> 'c option"
    and put :: "instant \<Rightarrow> 'k \<Rightarrow> 'c \<Rightarrow> 's \<Rightarrow> 's"
    and accepts :: "'s \<Rightarrow> 'c \<Rightarrow> bool"
    and lifetime :: "'s \<Rightarrow> duration"
    and valid :: "'s \<Rightarrow> bool"
  assumes put_valid: "valid a \<Longrightarrow> valid (put now k c a)"
    and put_same: "accepts a c \<Longrightarrow>
      bound t (put now k c a) k = (if t < now + lifetime a then Some c else None)"
    and put_other: "valid a \<Longrightarrow> now \<le> t \<Longrightarrow> k' \<noteq> k \<Longrightarrow> bound t (put now k c a) k' = Some c' \<Longrightarrow>
      bound t a k' = Some c'"
    and put_rejected: "\<not> accepts a c \<Longrightarrow> put now k c a = a"
begin

definition quiet :: "instant \<Rightarrow> 's \<Rightarrow> 's \<Rightarrow> bool" where
  "quiet now a a' \<longleftrightarrow> (\<forall>t \<ge> now. \<forall>k c. bound t a' k = Some c \<longrightarrow> bound t a k = Some c)"

text \<open>What was last put for each key, and until when.\<close>

definition remembers :: "instant \<Rightarrow> ('k \<rightharpoonup> 'c \<times> instant) \<Rightarrow> 's \<Rightarrow> bool" where
  "remembers now g a \<longleftrightarrow>
     (\<forall>t \<ge> now. \<forall>k c. bound t a k = Some c \<longrightarrow> (\<exists>e. g k = Some (c, e) \<and> t < e))"

lemma remembers_quiet: "remembers t0 g a \<Longrightarrow> t0 \<le> now \<Longrightarrow> quiet now a a' \<Longrightarrow> remembers now g a'"
  unfolding remembers_def quiet_def by (meson order_trans)

lemma remembers_put:
  assumes "valid a" "remembers t0 g a" "t0 \<le> now"
  shows "remembers now (if accepts a c then g(k \<mapsto> (c, now + lifetime a)) else g) (put now k c a)"
proof (cases "accepts a c")
  case True
  have "\<exists>e. (g(k \<mapsto> (c, now + lifetime a))) k' = Some (c', e) \<and> t < e"
    if "now \<le> t" "bound t (put now k c a) k' = Some c'" for t k' c'
  proof (cases "k' = k")
    case True
    with that put_same [OF \<open>accepts a c\<close>, of t now k] show ?thesis by (auto split: if_splits)
  next
    case False
    from put_other [OF assms(1) that(1) False that(2)] assms(2,3) that(1) False show ?thesis
      by (auto simp: remembers_def)
  qed
  with True show ?thesis by (simp add: remembers_def)
next
  case False
  with assms put_rejected [OF False] show ?thesis by (auto simp: remembers_def)
qed

end

lemma map_of_subset:
  "distinct_keys m \<Longrightarrow> set m' \<subseteq> set m \<Longrightarrow> distinct_keys m' \<Longrightarrow> map_of m' k = Some v \<Longrightarrow> map_of m k = Some v"
  by (meson map_of_SomeD map_of_is_SomeI subset_iff)

lemma bind_session_other:
  assumes "affinity_inv a" "s' \<noteq> s" "bound_at t (bind_session now s c a) s' = Some c'"
  shows "bound_at t a s' = Some c'"
proof -
  have m: "distinct_keys (bindings a)" "length (bindings a) \<le> CAPACITY"
    using assms(1) by (auto simp: affinity_inv_def)
  note room = make_room [OF m, of now]
  show ?thesis
    using assms(2,3) map_of_subset [OF m(1) room(3,1)]
    by (auto simp: bound_at_Some bind_session_cases Let_def split: if_splits)
qed

lemma bind_session_same:
  "enabled a \<Longrightarrow> c \<noteq> 0 \<Longrightarrow>
   bound_at t (bind_session now s c a) s = (if t < now + ttl a then Some c else None)"
  by (simp add: bound_at_alt bind_session_cases Let_def)

interpretation affinity_table: sticky_table bound_at bind_session "\<lambda>a c. enabled a \<and> c \<noteq> 0" ttl
    affinity_inv
proof unfold_locales
  show "affinity_inv (bind_session now k c a)" if "affinity_inv a" for a now k c
    using that by (rule affinity_inv_bind)
  show "bound_at t (bind_session now k c a) k = (if t < now + ttl a then Some c else None)"
    if "enabled a \<and> c \<noteq> 0" for a c t now k
    using that by (simp add: bind_session_same)
  show "bound_at t a k' = Some c'"
    if "affinity_inv a" "now \<le> t" "k' \<noteq> k" "bound_at t (bind_session now k c a) k' = Some c'"
    for a now t k' k c c'
    using that bind_session_other by blast
  show "bind_session now k c a = a" if "\<not> (enabled a \<and> c \<noteq> 0)" for a c now k
    using that by (auto simp: bind_session_def)
qed

lemma quiet_lookup: "affinity_table.quiet now a (snd (lookup now s a))"
  using snd_lookup [of now s a] by (auto simp: affinity_table.quiet_def bound_at_Some split: if_splits)

lemma quiet_evict: "affinity_inv a \<Longrightarrow> affinity_table.quiet now a (evict_expired now a)"
  by (auto simp: affinity_table.quiet_def bound_at_Some evict_expired_def affinity_inv_def
      map_of_retain split: option.splits if_splits)

lemma quiet_same_bindings:
  "bindings a' = bindings a \<Longrightarrow> affinity_table.quiet now a a'"
  by (simp add: affinity_table.quiet_def bound_at_alt)

lemma record_outcome_bindings [simp]:
  "bindings (record_outcome r a) = bindings a" "ttl_secs (record_outcome r a) = ttl_secs a"
  "enabled (record_outcome r a) = enabled a"
  by (cases r; simp)+

section \<open>Histories\<close>

datatype affinity_op =
    OpLookup string | OpBind string u64 | OpRecord sticky_outcome | OpSetEnabled bool
  | OpSetTtl u64 | OpEvictExpired

fun affinity_step :: "instant \<Rightarrow> affinity_op \<Rightarrow> affinity \<Rightarrow> affinity" where
  "affinity_step now (OpLookup s) a = snd (lookup now s a)"
| "affinity_step now (OpBind s c) a = bind_session now s c a"
| "affinity_step now (OpRecord r) a = record_outcome r a"
| "affinity_step now (OpSetEnabled on) a = set_enabled on a"
| "affinity_step now (OpSetTtl t) a = set_ttl_secs t a"
| "affinity_step now OpEvictExpired a = evict_expired now a"

text \<open>The binding the history asks for: credential and expiry of the last accepted bind.\<close>

fun note_bind ::
  "instant \<Rightarrow> affinity_op \<Rightarrow> affinity \<Rightarrow> (string \<rightharpoonup> u64 \<times> instant) \<Rightarrow> (string \<rightharpoonup> u64 \<times> instant)"
where
  "note_bind now (OpBind s c) a g = (if enabled a \<and> c \<noteq> 0 then g(s \<mapsto> (c, now + ttl a)) else g)"
| "note_bind now op a g = g"

inductive affinity_run :: "instant \<Rightarrow> (string \<rightharpoonup> u64 \<times> instant) \<Rightarrow> affinity \<Rightarrow> bool" where
  start: "affinity_run now Map.empty (new_affinity on t)"
| step: "affinity_run t0 g a \<Longrightarrow> t0 \<le> now \<Longrightarrow>
    affinity_run now (note_bind now op a g) (affinity_step now op a)"

lemma affinity_inv_step: "affinity_inv a \<Longrightarrow> affinity_inv (affinity_step now op a)"
proof (cases op)
  case (OpSetTtl t)
  then show "affinity_inv a \<Longrightarrow> ?thesis" by (simp add: affinity_inv_def set_ttl_secs_def)
qed (simp_all add: affinity_inv_lookup affinity_inv_bind affinity_inv_evict,
     simp_all add: affinity_inv_def set_enabled_def)

lemma affinity_run_inv: "affinity_run t0 g a \<Longrightarrow> affinity_inv a"
  by (induction rule: affinity_run.induct) (auto intro: affinity_inv_new affinity_inv_step)

lemma affinity_run_remembers: "affinity_run t0 g a \<Longrightarrow> affinity_table.remembers t0 g a"
proof (induction rule: affinity_run.induct)
  case (start now on t)
  show ?case by (simp add: affinity_table.remembers_def bound_at_Some new_affinity_def)
next
  case (step t0 g a now op)
  note inv = affinity_run_inv [OF step.hyps(1)]
  note quiet = affinity_table.remembers_quiet [OF step.IH step.hyps(2)]
  show ?case
  proof (cases op)
    case (OpBind s c)
    then show ?thesis
      using affinity_table.remembers_put [OF inv step.IH step.hyps(2)] by simp
  qed (use quiet quiet_lookup quiet_evict [OF inv] quiet_same_bindings [of _ a]
       in \<open>simp_all add: set_enabled_def set_ttl_secs_def\<close>)
qed

text \<open>A table with room forgets nothing before its time.\<close>

lemma bound_at_lookup:
  "now \<le> t \<Longrightarrow> bound_at t (snd (lookup now s a)) s' = bound_at t a s'"
  by (auto simp: bound_at_alt lookup_def split: option.split)

lemma bound_at_evict:
  "affinity_inv a \<Longrightarrow> now \<le> t \<Longrightarrow> bound_at t (evict_expired now a) s = bound_at t a s"
  by (auto simp: bound_at_alt evict_expired_def affinity_inv_def map_of_retain unexpired_def
      split: option.split)

lemma bound_at_step:
  assumes "affinity_inv a" "now \<le> t" "\<And>k c. op \<noteq> OpBind k c"
  shows "bound_at t (affinity_step now op a) s = bound_at t a s"
  using assms
  by (cases op) (auto simp: bound_at_lookup bound_at_evict, auto simp: bound_at_alt set_enabled_def set_ttl_secs_def)

lemma bound_at_bind_with_room:
  assumes "map_of (bindings a) s \<noteq> None \<or> length (bindings a) < CAPACITY" "s' \<noteq> s"
  shows "bound_at t (bind_session now s c a) s' = bound_at t a s'"
  using assms by (auto simp: bound_at_alt bind_session_cases make_room_def Let_def)

lemma keys_insert_subset: "fst ` set (map_insert k v m) \<subseteq> insert k (fst ` set m)"
  by (auto dest!: set_insert)

lemma keys_step:
  assumes "affinity_inv a"
  shows "fst ` set (bindings (affinity_step now op a)) \<subseteq>
     (case op of OpBind s c \<Rightarrow> (if enabled a \<and> c \<noteq> 0 then insert s (fst ` set (bindings a)) else fst ` set (bindings a))
      | _ \<Rightarrow> fst ` set (bindings a))"
proof (cases op)
  case (OpBind s c)
  have m: "distinct_keys (bindings a)" "length (bindings a) \<le> CAPACITY"
    using assms by (auto simp: affinity_inv_def)
  show ?thesis
    using OpBind make_room(3) [OF m, of now]
    by (auto simp: bind_session_cases Let_def dest!: set_insert)
next
  case (OpLookup s)
  then show ?thesis
    using snd_lookup [of now s a] map_remove_subset [of s "bindings a"] by auto
qed (auto simp: set_enabled_def set_ttl_secs_def evict_expired_def map_retain_def)

definition promised :: "(string \<rightharpoonup> u64 \<times> instant) \<Rightarrow> instant \<Rightarrow> string \<Rightarrow> u64 option" where
  "promised g t s = (case g s of Some (c, e) \<Rightarrow> if t < e then Some c else None | None \<Rightarrow> None)"

lemma affinity_run_keys:
  "affinity_run t0 g a \<Longrightarrow> finite (dom g) \<and> fst ` set (bindings a) \<subseteq> dom g"
proof (induction rule: affinity_run.induct)
  case (step t0 g a now op)
  then show ?case
    using subset_trans [OF keys_step [OF affinity_run_inv [OF step.hyps(1)], of now op]]
    by (cases op) (simp_all add: subset_insertI2 insert_mono split: if_splits)
qed (simp add: new_affinity_def)

lemma note_bind_dom: "dom g \<subseteq> dom (note_bind now op a g)"
  by (cases op) auto

lemma affinity_run_exact:
  "affinity_run t0 g a \<Longrightarrow> card (dom g) \<le> CAPACITY \<Longrightarrow> t0 \<le> t \<Longrightarrow> bound_at t a s = promised g t s"
proof (induction arbitrary: t s rule: affinity_run.induct)
  case (start now on ttl0)
  show ?case by (simp add: bound_at_alt promised_def new_affinity_def)
next
  case (step t0 g a now op)
  note inv = affinity_run_inv [OF step.hyps(1)]
  note keys = affinity_run_keys [OF step.hyps(1)]
  have fin: "finite (dom (note_bind now op a g))"
    using affinity_run_keys [OF affinity_run.step [OF step.hyps]] by blast
  have "card (dom g) \<le> CAPACITY"
    using card_mono [OF fin note_bind_dom] step.prems(1) by linarith
  with step have IH: "bound_at t a s' = promised g t s'" for s' by (meson order_trans)
  show ?case
  proof (cases op)
    case (OpBind k c)
    show ?thesis
    proof (cases "enabled a \<and> c \<noteq> 0")
      case False
      with OpBind IH show ?thesis by (auto simp: bind_session_def)
    next
      case True
      have room: "map_of (bindings a) k \<noteq> None \<or> length (bindings a) < CAPACITY"
      proof (rule disjCI)
        assume nl: "\<not> length (bindings a) < CAPACITY"
        show "map_of (bindings a) k \<noteq> None"
        proof
          assume "map_of (bindings a) k = None"
          then have "k \<notin> fst ` set (bindings a)" by (simp add: map_of_eq_None_iff)
          moreover have "length (bindings a) = card (fst ` set (bindings a))"
            using inv distinct_card [of "map fst (bindings a)"] by (simp add: affinity_inv_def)
          ultimately have "Suc (length (bindings a)) = card (insert k (fst ` set (bindings a)))"
            by simp
          also have "\<dots> \<le> card (dom (note_bind now op a g))"
            using keys fin OpBind True by (intro card_mono) auto
          finally show False using step.prems(1) nl by simp
        qed
      qed
      show ?thesis
      proof (cases "s = k")
        case True
        then show ?thesis
          using OpBind \<open>enabled a \<and> c \<noteq> 0\<close> by (simp add: bind_session_same promised_def)
      next
        case False
        then show ?thesis
          using OpBind True IH bound_at_bind_with_room [OF room, of s] by (simp add: promised_def)
      qed
    qed
  qed (use IH bound_at_step [OF inv step.prems(2), of op s] in \<open>simp_all add: promised_def\<close>)
qed

text \<open>C33: Whatever lookups, binds, evictions and changes of the settings happened, a lookup only
  ever answers with the credential of the last accepted bind of that session, and only while the
  time to live in force at that bind has not run out; the table never exceeds its capacity, has no
  duplicate sessions and no credential 0, and the time to live stays at or above its floor.\<close>

theorem affinity_never_stale:
  assumes "affinity_run t0 g a" and "t0 \<le> now"
  shows "affinity_inv a \<and>
     (fst (lookup now s a) = Some c \<longrightarrow> (\<exists>e. g s = Some (c, e) \<and> now < e))"
  using affinity_run_inv [OF assms(1)] affinity_run_remembers [OF assms(1)] assms(2)
  by (auto simp: affinity_table.remembers_def bound_at_def)

text \<open>C34: As long as no more than \<open>CAPACITY\<close> sessions were ever bound, the table is exact: a session
  is found with its last accepted credential until that binding expires, and never after.\<close>

theorem affinity_exact_below_capacity:
  assumes "affinity_run t0 g a" and "t0 \<le> now" and "card (dom g) \<le> CAPACITY"
  shows "fst (lookup now s a) = Some c \<longleftrightarrow> (\<exists>e. g s = Some (c, e) \<and> now < e)"
  using affinity_run_exact [OF assms(1,3,2), of s]
  by (auto simp: bound_at_def promised_def split: option.splits if_splits)

text \<open>At capacity a bind forgets only what it must: if no binding has expired, exactly the
  sessions of one earliest-expiring binding are lost and all others keep their credential.\<close>

lemma bind_evicts_earliest:
  assumes "affinity_inv a" and "length (bindings a) = CAPACITY" and "enabled a" and "c \<noteq> 0"
    and "map_of (bindings a) s = None" and "\<forall>e \<in> set (bindings a). now < expires_at (snd e)"
  shows "\<exists>v b. map_of (bindings a) v = Some b \<and>
     (\<forall>e \<in> set (bindings a). expires_at b \<le> expires_at (snd e)) \<and>
     map_of (bindings (bind_session now s c a)) =
       ((map_of (bindings a))(v := None))(s \<mapsto> \<lparr>bound_credential = c, expires_at = now + ttl a\<rparr>)"
proof -
  let ?m = "bindings a"
  have all: "map_retain (unexpired now) ?m = ?m"
    using assms(6) by (simp add: map_retain_def unexpired_def)
  have "?m \<noteq> []" using assms(2) by (auto simp: CAPACITY_def)
  then obtain e where e: "e \<in> set ?m" "evict_earliest ?m = map_remove (fst e) ?m"
    "\<forall>e' \<in> set ?m. expires_at (snd e) \<le> expires_at (snd e')"
    using evict_earliest_remove by blast
  then have "map_of ?m (fst e) = Some (snd e)"
    using assms(1) by (simp add: affinity_inv_def)
  then show ?thesis
    using e assms(2-5) all
    by (intro exI [of _ "fst e"] exI [of _ "snd e"])
      (simp add: bind_session_cases make_room_def Let_def)
qed

text \<open>A short history and a full table on which the properties are applied.\<close>

definition sample_history :: affinity where
  "sample_history = affinity_step 9 (OpBind ''b'' 4)
     (affinity_step 5 (OpBind ''a'' 7) (new_affinity True 0))"

definition sample_promises :: "string \<rightharpoonup> u64 \<times> instant" where
  "sample_promises = [''a'' \<mapsto> (7, 60000000005), ''b'' \<mapsto> (4, 60000000009)]"

lemma sample_history_run: "affinity_run 9 sample_promises sample_history"
proof -
  have run: "affinity_run 0 Map.empty (new_affinity True 0)" by (rule affinity_run.start)
  note run1 = affinity_run.step [OF run, of 5 "OpBind ''a'' 7", OF le0]
  have "affinity_run 9 (note_bind 9 (OpBind ''b'' 4) (affinity_step 5 (OpBind ''a'' 7) (new_affinity True 0))
      (note_bind 5 (OpBind ''a'' 7) (new_affinity True 0) Map.empty)) sample_history"
    unfolding sample_history_def by (rule affinity_run.step [OF run1]) simp
  then show ?thesis
    by (simp add: new_affinity_def bind_session_def Let_def MIN_TTL_SECS_def CAPACITY_def ttl_def
        from_secs_def nanos_per_sec_def sample_promises_def fun_upd_twist)
qed

theorem affinity_never_stale_witness:
  "affinity_inv sample_history \<and> fst (lookup 60000000005 ''a'' sample_history) \<noteq> Some 7"
  using affinity_never_stale [OF sample_history_run, of 60000000005 "''a''" 7]
  by (auto simp: sample_promises_def)

theorem affinity_exact_below_capacity_witness:
  "fst (lookup 60000000004 ''a'' sample_history) = Some 7 \<and>
   fst (lookup 60000000005 ''a'' sample_history) \<noteq> Some 7"
proof -
  have "dom sample_promises = {''a'', ''b''}" by (auto simp: sample_promises_def)
  then have "card (dom sample_promises) \<le> CAPACITY" by (simp add: CAPACITY_def)
  then show ?thesis
    using affinity_exact_below_capacity [OF sample_history_run, of 60000000004 "''a''" 7]
      affinity_exact_below_capacity [OF sample_history_run, of 60000000005 "''a''" 7]
    by (auto simp: sample_promises_def)
qed

definition full_table :: affinity where
  "full_table = \<lparr>bindings = map (\<lambda>i. (replicate i CHR ''x'', \<lparr>bound_credential = 1, expires_at = 5 + i\<rparr>))
       [0..<CAPACITY], enabled = True, ttl_secs = 60, hits = 0, misses = 0\<rparr>"

lemma full_table:
  "affinity_inv full_table" "length (bindings full_table) = CAPACITY"
  "map_of (bindings full_table) ''new'' = None"
  by (auto simp: affinity_inv_def full_table_def distinct_map comp_def MIN_TTL_SECS_def inj_on_def
      map_of_eq_None_iff dest: arg_cong [where f = set] simp del: upt_Suc)
    (auto dest: arg_cong [where f = "\<lambda>s. CHR ''n'' \<in> set s"])

theorem bind_evicts_earliest_witness:
  "\<exists>v b. map_of (bindings full_table) v = Some b \<and>
     map_of (bindings (bind_session 1 ''new'' 3 full_table)) v = None"
proof -
  have "enabled full_table" "\<forall>e \<in> set (bindings full_table). 1 < expires_at (snd e)"
    by (auto simp: full_table_def)
  with bind_evicts_earliest [of full_table 3 "''new''" 1] full_table
  obtain v b where vb: "map_of (bindings full_table) v = Some b"
    "map_of (bindings (bind_session 1 ''new'' 3 full_table)) =
       ((map_of (bindings full_table))(v := None))(''new'' \<mapsto> \<lparr>bound_credential = 3, expires_at = 1 + ttl full_table\<rparr>)"
    by auto
  moreover have "v \<noteq> ''new''" using vb(1) full_table(3) by auto
  ultimately show ?thesis by auto
qed

end
