(* ===== verification/RustStr.thy ===== *)
theory RustStr
  imports RustStd
begin

text \<open>
  The string searches of the Rust standard library that the stream code uses, on the bytes of a
  string: \<open>str::find\<close> and \<open>str::rfind\<close> for a literal pattern, searches that restart at an offset
  (\<open>buffer[start..].find(pat)\<close>), \<open>split_inclusive\<close>, \<open>is_char_boundary\<close> and the ASCII classes.  A
  position is a byte offset; the patterns of the program are ASCII, so every offset they are
  found at is a character boundary.  The lemmas say what a found position means, how far a
  search reaches and that appending to the haystack does not move a match.
\<close>

section \<open>Searching\<close>

fun str_find :: "'a list \<Rightarrow> 'a list \<Rightarrow> nat option" where
  "str_find p [] = (if p = [] then Some 0 else None)"
| "str_find p (c # cs) = (if starts_with (c # cs) p then Some 0 else map_option Suc (str_find p cs))"

definition str_rfind :: "'a list \<Rightarrow> 'a list \<Rightarrow> nat option" where
  "str_rfind p s =
     map_option (\<lambda>k. length s - length p - k) (str_find (rev p) (rev s))"

text \<open>\<open>s[from..].find(p).map(|rel| from + rel)\<close>.\<close>

definition find_from :: "'a list \<Rightarrow> 'a list \<Rightarrow> nat \<Rightarrow> nat option" where
  "find_from p s from = map_option (\<lambda>rel. from + rel) (str_find p (drop from s))"

text \<open>\<open>&s[a..b]\<close>.\<close>

definition slice :: "nat \<Rightarrow> nat \<Rightarrow> 'a list \<Rightarrow> 'a list" where
  "slice a b s = take (b - a) (drop a s)"

definition byte_at :: "'a list \<Rightarrow> nat \<Rightarrow> 'a option" where
  "byte_at s i = (if i < length s then Some (s ! i) else None)"

definition match_at :: "'a list \<Rightarrow> 'a list \<Rightarrow> nat \<Rightarrow> bool" where
  "match_at p s i \<longleftrightarrow> starts_with (drop i s) p"

lemma starts_with_append [simp]: "starts_with (p @ r) p"
  by (auto simp: starts_with_iff)

lemma starts_with_extend: "starts_with s p \<Longrightarrow> starts_with (s @ t) p"
  by (auto simp: starts_with_iff)

lemma starts_with_extend_iff: "length p \<le> length s \<Longrightarrow> starts_with (s @ t) p \<longleftrightarrow> starts_with s p"
  by (induction s p rule: starts_with.induct) auto

lemma starts_with_length: "starts_with s p \<Longrightarrow> length p \<le> length s"
  by (auto simp: starts_with_iff)

lemma match_at_length: "match_at p s i \<Longrightarrow> p \<noteq> [] \<Longrightarrow> i + length p \<le> length s"
  by (cases "i \<le> length s") (auto simp: match_at_def starts_with_iff dest: arg_cong[where f = length])

lemma match_at_append: "i + length p \<le> length s \<Longrightarrow> match_at p (s @ t) i \<longleftrightarrow> match_at p s i"
  by (simp add: match_at_def starts_with_extend_iff)

lemma match_at_drop [simp]: "match_at p (drop k s) i \<longleftrightarrow> match_at p s (i + k)"
  by (simp add: match_at_def)

lemma le_Suc_eq_0_disj: "(i :: nat) \<le> Suc n \<longleftrightarrow> i = 0 \<or> (\<exists>k. i = Suc k \<and> k \<le> n)"
  by (cases i) auto

lemma match_at_decomp: "match_at p s i \<Longrightarrow> s = take i s @ p @ drop (i + length p) s"
  by (auto simp: match_at_def starts_with_iff)
    (metis append_eq_conv_conj append_take_drop_id drop_drop add.commute)

lemma str_find_eq_Some:
  "str_find p s = Some i \<longleftrightarrow> i \<le> length s \<and> match_at p s i \<and> (\<forall>j < i. \<not> match_at p s j)"
proof (induction p s arbitrary: i rule: str_find.induct)
  case (2 p c cs)
  show ?case
  proof (cases i)
    case 0
    then show ?thesis by (auto simp: match_at_def split: if_splits)
  next
    case (Suc k)
    show ?thesis
    proof (cases "starts_with (c # cs) p")
      case True
      with Suc show ?thesis by (auto simp: match_at_def)
    next
      case False
      with Suc 2 show ?thesis by (auto simp: match_at_def less_Suc_eq_0_disj)
    qed
  qed
qed (auto simp: match_at_def, (case_tac p; simp)+)

lemma str_find_eq_None: "str_find p s = None \<longleftrightarrow> (\<forall>j \<le> length s. \<not> match_at p s j)"
proof (induction p s rule: str_find.induct)
  case (2 p c cs)
  show ?case
  proof (cases "starts_with (c # cs) p")
    case True
    then show ?thesis by (auto simp: match_at_def intro: exI[of _ 0])
  next
    case False
    have "(\<forall>j \<le> length (c # cs). \<not> match_at p (c # cs) j) \<longleftrightarrow> (\<forall>j \<le> length cs. \<not> match_at p cs j)"
      using False by (auto simp: match_at_def le_Suc_eq_0_disj)
    with 2[OF False] False show ?thesis by simp
  qed
qed (auto simp: match_at_def, (case_tac p; simp)+)

lemma find_from_eq_Some:
  "find_from p s k = Some i \<longleftrightarrow>
     k \<le> i \<and> i \<le> max k (length s) \<and> match_at p s i \<and> (\<forall>j. k \<le> j \<and> j < i \<longrightarrow> \<not> match_at p s j)"
  (is "?l \<longleftrightarrow> ?r")
proof
  assume ?l
  then obtain r where "str_find p (drop k s) = Some r" "i = k + r"
    by (auto simp: find_from_def)
  then show ?r
    by (auto simp: str_find_eq_Some add.commute) (metis add.commute le_Suc_ex nat_add_left_cancel_less)
next
  assume r: ?r
  have "str_find p (drop k s) = Some (i - k)"
    using r by (auto simp: str_find_eq_Some)
  with r show ?l by (simp add: find_from_def)
qed

lemma find_from_Some:
  assumes "find_from p s k = Some i" "p \<noteq> []"
  shows "k \<le> i" "i + length p \<le> length s" "match_at p s i"
  using assms by (auto simp: find_from_eq_Some dest: match_at_length)

lemma find_from_less: "find_from p s k = Some i \<Longrightarrow> p \<noteq> [] \<Longrightarrow> k \<le> i \<and> i < length s"
  using find_from_Some[of p s k i] by (cases p) auto

lemma find_from_None:
  "p \<noteq> [] \<Longrightarrow> find_from p s k = None \<longleftrightarrow> (\<forall>j \<ge> k. \<not> match_at p s j)"
  by (auto simp: find_from_def str_find_eq_None)
    (metis add_leD1 diff_add le_add_diff_inverse2 length_drop diff_le_mono match_at_length)

lemma find_from_0: "find_from p s 0 = str_find p s"
  by (cases "str_find p s") (simp_all add: find_from_def)

text \<open>Appending to the haystack keeps a match, and every new match reaches into the new part.\<close>

lemma find_from_append_Some:
  assumes "find_from p s k = Some i" "p \<noteq> []"
  shows "find_from p (s @ t) k = Some i"
  using find_from_Some[OF assms] assms
  by (auto simp: find_from_eq_Some match_at_append)

lemma find_from_append_None:
  assumes "find_from p s k = None" "find_from p (s @ t) k = Some i" "p \<noteq> []"
  shows "length s < i + length p"
proof (rule ccontr)
  assume "\<not> length s < i + length p"
  with assms(2) have "match_at p s i" "k \<le> i"
    by (auto simp: find_from_eq_Some match_at_append)
  with assms(1,3) show False by (simp add: find_from_None)
qed

section \<open>Lines, boundaries and character classes\<close>

text \<open>\<open>str::split_inclusive\<close>: the pieces end with the separator, but for a last one without it.\<close>

fun split_inclusive :: "'a \<Rightarrow> 'a list \<Rightarrow> 'a list list" where
  "split_inclusive d [] = []"
| "split_inclusive d (c # cs) =
     (if c = d then [c] # split_inclusive d cs
      else case split_inclusive d cs of [] \<Rightarrow> [[c]] | l # ls \<Rightarrow> (c # l) # ls)"

lemma concat_split_inclusive [simp]: "concat (split_inclusive d s) = s"
  by (induction d s rule: split_inclusive.induct) (auto split: list.splits)

lemma split_inclusive_eq_Nil [simp]: "split_inclusive d s = [] \<longleftrightarrow> s = []"
  by (cases s) (auto split: list.splits)

lemma split_inclusive_append:
  "s = [] \<or> last s = d \<Longrightarrow> split_inclusive d (s @ t) = split_inclusive d s @ split_inclusive d t"
proof (induction s)
  case (Cons c cs)
  show ?case
  proof (cases "cs = []")
    case True
    with Cons show ?thesis by simp
  next
    case False
    with Cons have IH: "split_inclusive d (cs @ t) = split_inclusive d cs @ split_inclusive d t"
      by simp
    from False obtain l ls where "split_inclusive d cs = l # ls"
      by (cases "split_inclusive d cs") auto
    with IH show ?thesis by simp
  qed
qed simp

definition is_continuation :: "char \<Rightarrow> bool" where
  "is_continuation c \<longleftrightarrow> (let n = (of_char c :: nat) in 128 \<le> n \<and> n < 192)"

text \<open>\<open>str::is_char_boundary\<close>.\<close>

definition is_char_boundary :: "string \<Rightarrow> nat \<Rightarrow> bool" where
  "is_char_boundary s i \<longleftrightarrow>
     (if i = 0 then True else if i < length s then \<not> is_continuation (s ! i) else i = length s)"

text \<open>The largest boundary that is at most the given offset: the loops that step \<open>pos\<close> down until
  \<open>is_char_boundary(pos)\<close> holds, which it does at 0.\<close>

fun boundary_down :: "string \<Rightarrow> nat \<Rightarrow> nat" where
  "boundary_down s 0 = 0"
| "boundary_down s (Suc pos) = (if is_char_boundary s (Suc pos) then Suc pos else boundary_down s pos)"

lemma boundary_down_le: "boundary_down s n \<le> n"
  by (induction s n rule: boundary_down.induct) auto

lemma is_char_boundary_boundary_down: "is_char_boundary s (boundary_down s n)"
  by (induction s n rule: boundary_down.induct) (auto simp: is_char_boundary_def)

definition is_ascii_alphanumeric :: "char \<Rightarrow> bool" where
  "is_ascii_alphanumeric c \<longleftrightarrow>
     (let n = (of_char c :: nat) in
        48 \<le> n \<and> n \<le> 57 \<or> 65 \<le> n \<and> n \<le> 90 \<or> 97 \<le> n \<and> n \<le> 122)"

text \<open>\<open>u8::is_ascii_whitespace\<close>: space, tab, line feed, form feed, carriage return (no vertical tab).\<close>

definition is_ascii_whitespace :: "char \<Rightarrow> bool" where
  "is_ascii_whitespace c \<longleftrightarrow> (of_char c :: nat) \<in> {9, 10, 12, 13, 32}"

definition to_ascii_upper_char :: "char \<Rightarrow> char" where
  "to_ascii_upper_char c =
     (let n = (of_char c :: nat) in if 97 \<le> n \<and> n \<le> 122 then char_of (n - 32) else c)"

definition to_ascii_uppercase :: "string \<Rightarrow> string" where
  "to_ascii_uppercase s = map to_ascii_upper_char s"

definition newline :: char where
  "newline = CHR 0x0A"

definition is_blank :: "string \<Rightarrow> bool" where
  "is_blank s \<longleftrightarrow> trim s = []"

section \<open>White space\<close>

lemma newline_whitespace: "[newline] \<in> set whitespace_encodings"
  by (simp add: whitespace_encodings_def newline_def)

lemma trim_start_newline: "trim_start (newline # s) = trim_start s"
proof -
  have "List.find (\<lambda>p. p \<noteq> [] \<and> starts_with (newline # s) p) whitespace_encodings = Some [newline]"
    by (simp add: whitespace_encodings_def newline_def)
  then show ?thesis
    by (simp add: trim_start_def)
qed

lemma strip_prefixes_split:
  "\<exists>ws. set ws \<subseteq> set ps \<and> s = concat ws @ strip_prefixes n ps s"
proof (induction n ps s rule: strip_prefixes.induct)
  case (2 n ps s)
  show ?case
  proof (cases "List.find (\<lambda>p. p \<noteq> [] \<and> starts_with s p) ps")
    case None
    then show ?thesis by (auto intro: exI[of _ "[]"])
  next
    case (Some p)
    then have p: "p \<in> set ps" "s = p @ drop (length p) s"
      by (auto simp: find_Some_iff starts_with_iff)
    from 2[OF Some] obtain ws where "set ws \<subseteq> set ps"
      "drop (length p) s = concat ws @ strip_prefixes n ps (drop (length p) s)" by blast
    with p Some show ?thesis
      by (intro exI[of _ "p # ws"]) simp
  qed
qed (auto intro: exI[of _ "[]"])

lemma strip_prefixes_done:
  "length s \<le> n \<Longrightarrow> p \<in> set ps \<Longrightarrow> p \<noteq> [] \<Longrightarrow> \<not> starts_with (strip_prefixes n ps s) p"
proof (induction n ps s rule: strip_prefixes.induct)
  case (1 ps s)
  then show ?case by (cases p) auto
next
  case (2 n ps s)
  show ?case
  proof (cases "List.find (\<lambda>p. p \<noteq> [] \<and> starts_with s p) ps")
    case None
    then have "strip_prefixes (Suc n) ps s = s" by simp
    moreover have "\<not> starts_with s p"
      using None 2(3,4) unfolding find_None_iff by blast
    ultimately show ?thesis by simp
  next
    case (Some q)
    then have "q \<noteq> []" "starts_with s q" by (auto simp: find_Some_iff)
    then obtain k where "length q = Suc k" by (cases q) auto
    with 2 Some show ?thesis by auto
  qed
qed

lemma trim_start_split: "\<exists>ws. set ws \<subseteq> set whitespace_encodings \<and> s = concat ws @ trim_start s"
  unfolding trim_start_def by (rule strip_prefixes_split)

lemma trim_start_no_ws: "w \<in> set whitespace_encodings \<Longrightarrow> w \<noteq> [] \<Longrightarrow> \<not> starts_with (trim_start s) w"
  unfolding trim_start_def by (rule strip_prefixes_done) auto

lemma concat_starts_with: "concat ws \<noteq> [] \<Longrightarrow> \<exists>w \<in> set ws. w \<noteq> [] \<and> starts_with (concat ws @ r) w"
  by (induction ws) (auto simp: starts_with_iff)

lemma is_blank_trim_start: "is_blank s \<longleftrightarrow> trim_start s = []"
proof
  assume "is_blank s"
  then have "strip_prefixes (length (trim_start s)) (map rev whitespace_encodings) (rev (trim_start s)) = []"
    by (simp add: is_blank_def trim_def trim_end_def)
  with strip_prefixes_split[of "map rev whitespace_encodings" "rev (trim_start s)" "length (trim_start s)"]
  obtain ws where ws: "set ws \<subseteq> set (map rev whitespace_encodings)" "rev (trim_start s) = concat ws"
    by auto
  then have x: "trim_start s = concat (rev (map rev ws))"
    by (metis rev_concat rev_map rev_rev_ident)
  have sub: "set (rev (map rev ws)) \<subseteq> set whitespace_encodings"
    using ws(1) by auto
  show "trim_start s = []"
  proof (rule ccontr)
    assume "trim_start s \<noteq> []"
    with x concat_starts_with[of "rev (map rev ws)" "[]"] obtain w
      where "w \<in> set (rev (map rev ws))" "w \<noteq> []" "starts_with (trim_start s) w"
      by auto
    with sub trim_start_no_ws show False by blast
  qed
qed (simp add: is_blank_def trim_def trim_end_def)

lemma is_blank_Nil [simp]: "is_blank []"
  by (simp add: is_blank_trim_start trim_start_def)

lemma is_blank_newline [simp]: "is_blank (newline # s) = is_blank s"
  by (simp add: is_blank_trim_start trim_start_newline)

end
