(* ===== verification/Json.thy ===== *)
theory Json
  imports RustStr "HOL-Library.List_Lexorder" "HOL-Library.Char_ord"
begin

text \<open>
  JSON values as \<open>serde_json::Value\<close> holds them: an object is a \<open>BTreeMap\<close>, here the list of its
  entries in ascending key order; an integer number is in the range of \<open>i64\<close> or \<open>u64\<close>, a number with
  a fraction or exponent is kept as its text.  Parsing and printing are the crate's and stay
  parameters of the definitions that use them.
\<close>

datatype json =
    JNull
  | JBool bool
  | JInt int
  | JFloat string
  | JString string
  | JArray "json list"
  | JObject "(string \<times> json) list"

type_synonym json_object = "(string \<times> json) list"

section \<open>Objects\<close>

text \<open>\<open>Map::insert\<close>.\<close>

fun obj_insert :: "string \<Rightarrow> 'v \<Rightarrow> (string \<times> 'v) list \<Rightarrow> (string \<times> 'v) list" where
  "obj_insert k v [] = [(k, v)]"
| "obj_insert k v ((k', v') # m) =
     (if k = k' then (k, v) # m
      else if k < k' then (k, v) # (k', v') # m
      else (k', v') # obj_insert k v m)"

text \<open>\<open>map.entry(k).or_insert_with(..)\<close>.\<close>

definition obj_or_insert :: "string \<Rightarrow> 'v \<Rightarrow> (string \<times> 'v) list \<Rightarrow> (string \<times> 'v) list" where
  "obj_or_insert k v m = (if map_of m k = None then obj_insert k v m else m)"

abbreviation sorted_obj :: "(string \<times> 'v) list \<Rightarrow> bool" where
  "sorted_obj m \<equiv> sorted (map fst m) \<and> distinct (map fst m)"

definition obj_of :: "(string \<times> 'v) list \<Rightarrow> (string \<times> 'v) list" where
  "obj_of kvs = fold (\<lambda>(k, v). obj_insert k v) kvs []"

text \<open>\<open>Value::get(key)\<close>: the entry of an object, nothing for any other value.\<close>

definition json_get :: "json \<Rightarrow> string \<Rightarrow> json option" where
  "json_get j k = (case j of JObject m \<Rightarrow> map_of m k | _ \<Rightarrow> None)"

definition as_object :: "json \<Rightarrow> json_object option" where
  "as_object j = (case j of JObject m \<Rightarrow> Some m | _ \<Rightarrow> None)"

definition as_array :: "json \<Rightarrow> json list option" where
  "as_array j = (case j of JArray xs \<Rightarrow> Some xs | _ \<Rightarrow> None)"

definition as_str :: "json \<Rightarrow> string option" where
  "as_str j = (case j of JString s \<Rightarrow> Some s | _ \<Rightarrow> None)"

text \<open>\<open>as_i64\<close> and \<open>as_u64\<close> of a number in the range of \<open>i64\<close> and \<open>u64\<close>.\<close>

definition as_i64 :: "json \<Rightarrow> int option" where
  "as_i64 j = (case j of JInt i \<Rightarrow> if - (2 ^ 63) \<le> i \<and> i < 2 ^ 63 then Some i else None | _ \<Rightarrow> None)"

definition as_u64 :: "json \<Rightarrow> int option" where
  "as_u64 j = (case j of JInt i \<Rightarrow> if 0 \<le> i \<and> i < 2 ^ 64 then Some i else None | _ \<Rightarrow> None)"

lemma map_of_obj_insert [simp]: "map_of (obj_insert k v m) = (map_of m)(k \<mapsto> v)"
  by (induction k v m rule: obj_insert.induct) auto

lemma map_of_obj_or_insert [simp]:
  "map_of (obj_or_insert k v m) = (if map_of m k = None then (map_of m)(k \<mapsto> v) else map_of m)"
  by (simp add: obj_or_insert_def)

lemma set_obj_insert: "set (map fst (obj_insert k v m)) = insert k (set (map fst m))"
  by (induction k v m rule: obj_insert.induct) auto

lemma sorted_obj_insert [simp]:
  fixes m :: "(string \<times> 'v) list"
  shows "sorted_obj m \<Longrightarrow> sorted_obj (obj_insert k v m)"
proof (induction k v m rule: obj_insert.induct)
  case (2 k v k' v' m)
  then show ?case
    using set_obj_insert[of k v m] by (auto simp: order.strict_iff_order)
qed simp

lemma sorted_obj_or_insert [simp]: "sorted_obj m \<Longrightarrow> sorted_obj (obj_or_insert k v m)"
  by (simp add: obj_or_insert_def)

text \<open>An object is determined by its lookups.\<close>

lemma sorted_obj_unique:
  fixes m m' :: "(string \<times> 'v) list"
  assumes "sorted_obj m" "sorted_obj m'" "map_of m = map_of m'"
  shows "m = m'"
proof -
  have "set m = set m'"
    using assms by (metis map_of_inject_set)
  moreover from this have "inj_on fst (set m \<union> set m')"
    using assms(1) by (simp add: distinct_map)
  ultimately show ?thesis
    using assms(1,2) by (auto intro: map_sorted_distinct_set_unique)
qed

end
