(* ===== verification/Credentials.thy ===== *)
theory Credentials
  imports Json "HOL-Library.Multiset"
begin

text \<open>
  The credential data model (\<open>src/kiro/model/credentials.rs\<close>): the fields of a credential, the
  normalisation of the authentication method, the regions, proxies and profile ARNs in force, and
  the order in which a configuration file is read. Of \<open>Config\<close> only the regions are used here.
  Field names carry the prefix \<open>kc_\<close>. Deserialisation (serde) is not modelled.
\<close>

datatype credential_type = NormalAccount | BoomAccount

datatype credential_sale_status = NotForSale | ForSale | Sold

record credential_metadata =
  md_kind :: credential_type
  md_sale_status :: credential_sale_status
  md_extra :: "(string \<times> json) list"

record kiro_credentials =
  kc_id :: "u64 option"
  kc_access_token :: "string option"
  kc_refresh_token :: "string option"
  kc_profile_arn :: "string option"
  kc_expires_at :: "string option"
  kc_auth_method :: "string option"
  kc_provider :: "string option"
  kc_client_id :: "string option"
  kc_client_secret :: "string option"
  kc_start_url :: "string option"
  kc_token_endpoint :: "string option"
  kc_issuer_url :: "string option"
  kc_scopes :: "string option"
  kc_priority :: u32
  kc_load_factor :: u32
  kc_region :: "string option"
  kc_auth_region :: "string option"
  kc_api_region :: "string option"
  kc_machine_id :: "string option"
  kc_email :: "string option"
  kc_subscription_title :: "string option"
  kc_proxy_url :: "string option"
  kc_proxy_username :: "string option"
  kc_proxy_password :: "string option"
  kc_proxy_id :: "u64 option"
  kc_proxy_auto_assigned :: bool
  kc_proxy_temporary_direct :: bool
  kc_disabled :: bool
  kc_disabled_reason :: "string option"
  kc_self_heal_consecutive_rounds :: u32
  kc_self_heal_total_count :: u64
  kc_last_self_heal_at :: "string option"
  kc_self_heal_model :: "string option"
  kc_kiro_api_key :: "string option"
  kc_endpoint :: "string option"
  kc_groups :: "string list"
  kc_source_channel :: "string option"
  kc_metadata :: credential_metadata
  kc_created_at :: "string option"

text \<open>\<open>CredentialMetadata::default\<close> and \<open>KiroCredentials::default\<close>.\<close>

definition default_metadata :: credential_metadata where
  "default_metadata = \<lparr>md_kind = NormalAccount, md_sale_status = NotForSale, md_extra = []\<rparr>"

definition default_credentials :: kiro_credentials where
  "default_credentials =
     \<lparr>kc_id = None, kc_access_token = None, kc_refresh_token = None, kc_profile_arn = None,
      kc_expires_at = None, kc_auth_method = None, kc_provider = None, kc_client_id = None,
      kc_client_secret = None, kc_start_url = None, kc_token_endpoint = None,
      kc_issuer_url = None, kc_scopes = None, kc_priority = 0, kc_load_factor = 0,
      kc_region = None, kc_auth_region = None, kc_api_region = None, kc_machine_id = None,
      kc_email = None, kc_subscription_title = None, kc_proxy_url = None,
      kc_proxy_username = None, kc_proxy_password = None, kc_proxy_id = None,
      kc_proxy_auto_assigned = False, kc_proxy_temporary_direct = False, kc_disabled = False,
      kc_disabled_reason = None, kc_self_heal_consecutive_rounds = 0,
      kc_self_heal_total_count = 0, kc_last_self_heal_at = None, kc_self_heal_model = None,
      kc_kiro_api_key = None, kc_endpoint = None, kc_groups = [], kc_source_channel = None,
      kc_metadata = default_metadata, kc_created_at = None\<rparr>"

definition BUILDER_ID_PROFILE_ARN :: string where
  "BUILDER_ID_PROFILE_ARN = ''arn:aws:codewhisperer:us-east-1:638616132270:profile/AAAACCCCXXXX''"

definition SOCIAL_PROFILE_ARN :: string where
  "SOCIAL_PROFILE_ARN = ''arn:aws:codewhisperer:us-east-1:699475941385:profile/EHGA3GRVQMUK''"

definition PROXY_DIRECT :: string where
  "PROXY_DIRECT = ''direct''"

section \<open>Authentication method\<close>

definition EXTERNAL_IDP_ALIASES :: "string list" where
  "EXTERNAL_IDP_ALIASES =
     [''external_idp'', ''azuread'', ''azure'', ''entra'', ''entra-id'', ''microsoft'', ''m365'',
      ''office365'', ''external'']"

definition canonicalize_auth_method_value :: "string \<Rightarrow> string" where
  "canonicalize_auth_method_value v =
     (if eq_ignore_ascii_case v ''builder-id'' \<or> eq_ignore_ascii_case v ''iam'' then ''idc''
      else if eq_ignore_ascii_case v ''api_key'' \<or> eq_ignore_ascii_case v ''apikey''
      then ''api_key''
      else if \<exists>a \<in> set EXTERNAL_IDP_ALIASES. eq_ignore_ascii_case v a then ''external_idp''
      else v)"

definition normalize_import_auth_method :: "string \<Rightarrow> string option \<Rightarrow> string" where
  "normalize_import_auth_method raw token_endpoint =
     (let canonical = canonicalize_auth_method_value (trim raw) in
      if eq_ignore_ascii_case canonical ''external_idp'' then ''external_idp''
      else if (case token_endpoint of Some e \<Rightarrow> trim e \<noteq> [] | None \<Rightarrow> False) then ''external_idp''
      else canonical)"

definition canonicalize_auth_method :: "kiro_credentials \<Rightarrow> kiro_credentials" where
  "canonicalize_auth_method c =
     (case kc_auth_method c of
        None \<Rightarrow> c
      | Some m \<Rightarrow>
          let canonical = canonicalize_auth_method_value m in
          if canonical \<noteq> m then c\<lparr>kc_auth_method := Some canonical\<rparr> else c)"

definition method_is :: "string \<Rightarrow> kiro_credentials \<Rightarrow> bool" where
  "method_is name c \<longleftrightarrow>
     (case kc_auth_method c of Some m \<Rightarrow> eq_ignore_ascii_case m name | None \<Rightarrow> False)"

definition is_api_key_credential :: "kiro_credentials \<Rightarrow> bool" where
  "is_api_key_credential c \<longleftrightarrow>
     kc_kiro_api_key c \<noteq> None \<or> method_is ''api_key'' c \<or> method_is ''apikey'' c"

definition is_external_idp_credential :: "kiro_credentials \<Rightarrow> bool" where
  "is_external_idp_credential c \<longleftrightarrow>
     (case kc_auth_method c of
        Some m \<Rightarrow> eq_ignore_ascii_case (canonicalize_auth_method_value m) ''external_idp''
      | None \<Rightarrow> False)"

definition token_type_header :: "kiro_credentials \<Rightarrow> string option" where
  "token_type_header c =
     (if is_api_key_credential c then Some ''API_KEY''
      else if is_external_idp_credential c then Some ''EXTERNAL_IDP''
      else None)"

section \<open>Profile ARNs\<close>

definition is_social_login :: "kiro_credentials \<Rightarrow> bool" where
  "is_social_login c \<longleftrightarrow>
     method_is ''social'' c \<or>
     (case kc_provider c of
        Some p \<Rightarrow> eq_ignore_ascii_case p ''github'' \<or> eq_ignore_ascii_case p ''google''
      | None \<Rightarrow> False)"

definition default_profile_arn :: "kiro_credentials \<Rightarrow> string" where
  "default_profile_arn c =
     (if is_social_login c then SOCIAL_PROFILE_ARN else BUILDER_ID_PROFILE_ARN)"

definition fill_default_profile_arn :: "kiro_credentials \<Rightarrow> bool \<times> kiro_credentials" where
  "fill_default_profile_arn c =
     (if kc_profile_arn c \<noteq> None \<or> is_api_key_credential c then (False, c)
      else (True, c\<lparr>kc_profile_arn := Some (default_profile_arn c)\<rparr>))"

definition is_placeholder_profile_arn :: "string \<Rightarrow> bool" where
  "is_placeholder_profile_arn arn \<longleftrightarrow> arn = BUILDER_ID_PROFILE_ARN"

definition effective_profile_arn :: "kiro_credentials \<Rightarrow> string option" where
  "effective_profile_arn c =
     (case kc_profile_arn c of
        Some arn \<Rightarrow> if is_placeholder_profile_arn arn then None else Some arn
      | None \<Rightarrow> None)"

definition streaming_profile_arn :: "kiro_credentials \<Rightarrow> string option" where
  "streaming_profile_arn c =
     (if is_api_key_credential c then None
      else Some (case kc_profile_arn c of Some arn \<Rightarrow> arn | None \<Rightarrow> default_profile_arn c))"

section \<open>Regions\<close>

record region_config =
  cfg_region :: string
  cfg_auth_region :: "string option"
  cfg_api_region :: "string option"

definition config_auth_region :: "region_config \<Rightarrow> string" where
  "config_auth_region g = (case cfg_auth_region g of Some r \<Rightarrow> r | None \<Rightarrow> cfg_region g)"

definition config_api_region :: "region_config \<Rightarrow> string" where
  "config_api_region g = (case cfg_api_region g of Some r \<Rightarrow> r | None \<Rightarrow> cfg_region g)"

text \<open>\<open>str::split\<close> by one character: always at least one part.\<close>

fun split_char :: "char \<Rightarrow> string \<Rightarrow> string list" where
  "split_char sep [] = [[]]"
| "split_char sep (c # cs) =
     (if c = sep then [] # split_char sep cs
      else case split_char sep cs of
        part # parts \<Rightarrow> (c # part) # parts
      | [] \<Rightarrow> [[c]])"

definition profile_arn_region :: "kiro_credentials \<Rightarrow> string option" where
  "profile_arn_region c =
     Option.bind (effective_profile_arn c) (\<lambda>arn.
       case split_char CHR '':'' arn of
         [arn_word, aws_partition, service, region, account, resource] \<Rightarrow>
           if arn_word \<noteq> ''arn'' \<or> aws_partition = [] \<or> service \<noteq> ''codewhisperer'' \<or> region = [] \<or>
              account = [] \<or> \<not> starts_with resource ''profile/'' \<or>
              length resource = length ''profile/''
           then None
           else Some region
       | _ \<Rightarrow> None)"

definition effective_auth_region :: "region_config \<Rightarrow> kiro_credentials \<Rightarrow> string" where
  "effective_auth_region g c =
     (case kc_auth_region c of
        Some r \<Rightarrow> r
      | None \<Rightarrow> (case kc_region c of Some r \<Rightarrow> r | None \<Rightarrow> config_auth_region g))"

definition effective_api_region :: "region_config \<Rightarrow> kiro_credentials \<Rightarrow> string" where
  "effective_api_region g c =
     (case kc_api_region c of
        Some r \<Rightarrow> r
      | None \<Rightarrow>
          (case profile_arn_region c of
             Some r \<Rightarrow> r
           | None \<Rightarrow> (case kc_region c of Some r \<Rightarrow> r | None \<Rightarrow> config_api_region g)))"

section \<open>Proxies\<close>

record proxy_config =
  px_url :: string
  px_username :: "string option"
  px_password :: "string option"

definition configured_proxy :: "proxy_config option \<Rightarrow> kiro_credentials \<Rightarrow> proxy_config option" where
  "configured_proxy global_proxy c =
     (case kc_proxy_url c of
        Some url \<Rightarrow>
          if eq_ignore_ascii_case url PROXY_DIRECT then None
          else if trim url = [] then global_proxy
          else (case (kc_proxy_username c, kc_proxy_password c) of
                  (Some u, Some p) \<Rightarrow>
                    Some \<lparr>px_url = url, px_username = Some u, px_password = Some p\<rparr>
                | _ \<Rightarrow> Some \<lparr>px_url = url, px_username = None, px_password = None\<rparr>)
      | None \<Rightarrow> global_proxy)"

definition effective_proxy :: "proxy_config option \<Rightarrow> kiro_credentials \<Rightarrow> proxy_config option" where
  "effective_proxy global_proxy c =
     (if kc_proxy_temporary_direct c then None else configured_proxy global_proxy c)"

definition is_explicit_direct :: "kiro_credentials \<Rightarrow> bool" where
  "is_explicit_direct c \<longleftrightarrow>
     (case kc_proxy_url c of Some url \<Rightarrow> eq_ignore_ascii_case url PROXY_DIRECT | None \<Rightarrow> False)"

section \<open>Weights and the order of a configuration\<close>

definition effective_load_factor :: "kiro_credentials \<Rightarrow> u32" where
  "effective_load_factor c = (if kc_load_factor c = 0 then 10 else kc_load_factor c)"

datatype credentials_config = Single kiro_credentials | Multiple "kiro_credentials list"

definition config_key :: "kiro_credentials \<Rightarrow> u32 \<times> u64" where
  "config_key c = (kc_priority c, case kc_id c of Some i \<Rightarrow> i | None \<Rightarrow> - 1)"

fun into_sorted_credentials :: "credentials_config \<Rightarrow> kiro_credentials list" where
  "into_sorted_credentials (Single c) = [canonicalize_auth_method c]"
| "into_sorted_credentials (Multiple cs) = map canonicalize_auth_method (sort_key config_key cs)"

fun is_multiple :: "credentials_config \<Rightarrow> bool" where
  "is_multiple (Multiple cs) \<longleftrightarrow> True"
| "is_multiple (Single c) \<longleftrightarrow> False"

section \<open>Lemmas\<close>

lemma canonicalize_cases:
  obtains "canonicalize_auth_method_value v = ''idc''"
      "eq_ignore_ascii_case v ''builder-id'' \<or> eq_ignore_ascii_case v ''iam''"
  | "canonicalize_auth_method_value v = ''api_key''"
      "eq_ignore_ascii_case v ''api_key'' \<or> eq_ignore_ascii_case v ''apikey''"
  | a where "canonicalize_auth_method_value v = ''external_idp''"
      "a \<in> set EXTERNAL_IDP_ALIASES" "eq_ignore_ascii_case v a"
  | "canonicalize_auth_method_value v = v" "\<not> eq_ignore_ascii_case v ''api_key''"
      "\<not> eq_ignore_ascii_case v ''apikey''"
proof -
  consider "eq_ignore_ascii_case v ''builder-id'' \<or> eq_ignore_ascii_case v ''iam''"
    | "\<not> (eq_ignore_ascii_case v ''builder-id'' \<or> eq_ignore_ascii_case v ''iam'')"
      "eq_ignore_ascii_case v ''api_key'' \<or> eq_ignore_ascii_case v ''apikey''"
    | a where "\<not> (eq_ignore_ascii_case v ''builder-id'' \<or> eq_ignore_ascii_case v ''iam'')"
      "\<not> (eq_ignore_ascii_case v ''api_key'' \<or> eq_ignore_ascii_case v ''apikey'')"
      "a \<in> set EXTERNAL_IDP_ALIASES" "eq_ignore_ascii_case v a"
    | "\<not> (eq_ignore_ascii_case v ''builder-id'' \<or> eq_ignore_ascii_case v ''iam'')"
      "\<not> (eq_ignore_ascii_case v ''api_key'' \<or> eq_ignore_ascii_case v ''apikey'')"
      "\<not> (\<exists>a \<in> set EXTERNAL_IDP_ALIASES. eq_ignore_ascii_case v a)"
    by blast
  then show ?thesis
  proof cases
    case 1 then show ?thesis using that(1) by (simp add: canonicalize_auth_method_value_def)
  next
    case 2 then show ?thesis using that(2) by (simp add: canonicalize_auth_method_value_def)
  next
    case (3 a) 
    then have "canonicalize_auth_method_value v = ''external_idp''"
      unfolding canonicalize_auth_method_value_def by auto
    then show ?thesis using that(3) 3 by blast
  next
    case 4 then show ?thesis using that(4) by (auto simp: canonicalize_auth_method_value_def)
  qed
qed

lemma canonical_names:
  "canonicalize_auth_method_value ''idc'' = ''idc''"
  "canonicalize_auth_method_value ''api_key'' = ''api_key''"
  "canonicalize_auth_method_value ''external_idp'' = ''external_idp''"
  by code_simp+

lemma canonicalize_idem:
  "canonicalize_auth_method_value (canonicalize_auth_method_value v) = canonicalize_auth_method_value v"
  by (cases v rule: canonicalize_cases) (simp_all add: canonical_names)

text \<open>All names the code compares with are in lower case.\<close>

lemma lower_names:
  "to_ascii_lowercase ''builder-id'' = ''builder-id''" "to_ascii_lowercase ''iam'' = ''iam''"
  "to_ascii_lowercase ''api_key'' = ''api_key''" "to_ascii_lowercase ''apikey'' = ''apikey''"
  "to_ascii_lowercase ''external_idp'' = ''external_idp''" "to_ascii_lowercase ''idc'' = ''idc''"
  "to_ascii_lowercase ''social'' = ''social''"
  by code_simp+

lemma alias_names:
  "a \<in> set EXTERNAL_IDP_ALIASES \<Longrightarrow> to_ascii_lowercase a = a \<and> a \<noteq> ''api_key'' \<and> a \<noteq> ''apikey'' \<and> a \<noteq> ''social''"
proof -
  have "\<forall>a \<in> set EXTERNAL_IDP_ALIASES. to_ascii_lowercase a = a \<and> a \<noteq> ''api_key'' \<and> a \<noteq> ''apikey'' \<and> a \<noteq> ''social''"
    by code_simp
  then show "a \<in> set EXTERNAL_IDP_ALIASES \<Longrightarrow> ?thesis" by blast
qed

lemma canonicalize_api_key:
  "eq_ignore_ascii_case (canonicalize_auth_method_value v) ''api_key'' \<or>
     eq_ignore_ascii_case (canonicalize_auth_method_value v) ''apikey'' \<longleftrightarrow>
   eq_ignore_ascii_case v ''api_key'' \<or> eq_ignore_ascii_case v ''apikey''"
  by (cases v rule: canonicalize_cases)
    (auto simp: eq_ignore_ascii_case_def lower_names dest: alias_names)

lemma canonicalize_social:
  "eq_ignore_ascii_case (canonicalize_auth_method_value v) ''social'' = eq_ignore_ascii_case v ''social''"
  by (cases v rule: canonicalize_cases)
    (auto simp: eq_ignore_ascii_case_def lower_names dest: alias_names)

lemma canonicalize_auth_method_alt:
  "canonicalize_auth_method c =
     c\<lparr>kc_auth_method := map_option canonicalize_auth_method_value (kc_auth_method c)\<rparr>"
  by (cases c) (auto simp: canonicalize_auth_method_def Let_def split: option.split)

text \<open>Normalising the authentication method is idempotent and never changes how a credential is
  treated: the token type header, the profile ARN sent to the streaming endpoint and the region of
  the API are those of the credential as it was read.\<close>

lemma canonicalize_preserves_class:
  "canonicalize_auth_method (canonicalize_auth_method c) = canonicalize_auth_method c \<and>
   token_type_header (canonicalize_auth_method c) = token_type_header c \<and>
   streaming_profile_arn (canonicalize_auth_method c) = streaming_profile_arn c \<and>
   effective_api_region g (canonicalize_auth_method c) = effective_api_region g c"
proof (intro conjI)
  have api: "is_api_key_credential (canonicalize_auth_method c) = is_api_key_credential c"
    using canonicalize_api_key
    by (auto simp: is_api_key_credential_def method_is_def canonicalize_auth_method_alt split: option.split)
  have idp: "is_external_idp_credential (canonicalize_auth_method c) = is_external_idp_credential c"
    by (auto simp: is_external_idp_credential_def canonicalize_auth_method_alt canonicalize_idem
        split: option.split)
  have social: "is_social_login (canonicalize_auth_method c) = is_social_login c"
    by (auto simp: is_social_login_def method_is_def canonicalize_auth_method_alt canonicalize_social
        split: option.split)
  have arn: "kc_profile_arn (canonicalize_auth_method c) = kc_profile_arn c"
    by (simp add: canonicalize_auth_method_alt)
  show "canonicalize_auth_method (canonicalize_auth_method c) = canonicalize_auth_method c"
    by (simp add: canonicalize_auth_method_alt option.map_comp comp_def canonicalize_idem)
  show "token_type_header (canonicalize_auth_method c) = token_type_header c"
    by (simp add: token_type_header_def api idp)
  show "streaming_profile_arn (canonicalize_auth_method c) = streaming_profile_arn c"
    by (simp add: streaming_profile_arn_def api arn default_profile_arn_def social split: option.split)
  have "profile_arn_region (canonicalize_auth_method c) = profile_arn_region c"
    by (simp add: profile_arn_region_def effective_profile_arn_def arn)
  moreover have "kc_api_region (canonicalize_auth_method c) = kc_api_region c"
      "kc_region (canonicalize_auth_method c) = kc_region c"
    by (simp_all add: canonicalize_auth_method_alt)
  ultimately show "effective_api_region g (canonicalize_auth_method c) = effective_api_region g c"
    by (simp add: effective_api_region_def split: option.split)
qed

lemma split_char_append:
  "sep \<notin> set a \<Longrightarrow> split_char sep (a @ sep # s) = a # split_char sep s"
  by (induction a) auto

lemma split_char_none: "sep \<notin> set s \<Longrightarrow> split_char sep s = [s]"
  by (induction s) auto

text \<open>A credential with a real profile ARN talks to the region named in it, unless an API
  region is set explicitly: the region is read back from any well-formed ARN.\<close>

lemma effective_api_region_of_arn:
  assumes "kc_profile_arn c = Some (''arn:'' @ part @ '':codewhisperer:'' @ region @ '':'' @ account @ '':profile/'' @ name)"
    and "kc_api_region c = None"
    and "CHR '':'' \<notin> set part \<union> set region \<union> set account \<union> set name"
    and "part \<noteq> []" "region \<noteq> []" "account \<noteq> []" "name \<noteq> []"
    and "kc_profile_arn c \<noteq> Some BUILDER_ID_PROFILE_ARN"
  shows "effective_api_region g c = region"
proof -
  let ?arn = "''arn:'' @ part @ '':codewhisperer:'' @ region @ '':'' @ account @ '':profile/'' @ name"
  have "split_char CHR '':'' ?arn = [''arn'', part, ''codewhisperer'', region, account, ''profile/'' @ name]"
    using assms(3) split_char_append [of "CHR '':''" part] split_char_append [of "CHR '':''" region]
      split_char_append [of "CHR '':''" account] split_char_none [of "CHR '':''" name]
    by simp
  moreover have "effective_profile_arn c = Some ?arn"
    using assms(1,8) by (simp add: effective_profile_arn_def is_placeholder_profile_arn_def)
  ultimately have "profile_arn_region c = Some region"
    using assms(4-7) by (simp add: profile_arn_region_def)
  then show ?thesis using assms(2) by (simp add: effective_api_region_def)
qed

theorem effective_api_region_of_arn_witness:
  "effective_api_region \<lparr>cfg_region = ''us-east-1'', cfg_auth_region = None, cfg_api_region = None\<rparr>
     (default_credentials\<lparr>kc_profile_arn := Some ''arn:aws:codewhisperer:eu-west-1:42:profile/AB''\<rparr>)
   = ''eu-west-1''"
  using effective_api_region_of_arn
    [of "default_credentials\<lparr>kc_profile_arn := Some ''arn:aws:codewhisperer:eu-west-1:42:profile/AB''\<rparr>"
      "''aws''" "''eu-west-1''" "''42''" "''AB''"]
  by (simp add: default_credentials_def BUILDER_ID_PROFILE_ARN_def)

text \<open>Reading a configuration keeps every credential, only normalised, in ascending order of
  priority and then of id, credentials without an id last among their priority.\<close>

lemma into_sorted_credentials_sorted:
  "mset (into_sorted_credentials (Multiple cs)) = image_mset canonicalize_auth_method (mset cs) \<and>
   sorted (map config_key (into_sorted_credentials (Multiple cs)))"
proof -
  have "config_key \<circ> canonicalize_auth_method = config_key"
    by (simp add: fun_eq_iff config_key_def canonicalize_auth_method_alt)
  then show ?thesis by simp
qed

end
