(* ===== verification/CredentialPool.thy ===== *)
theory CredentialPool
  imports Credentials SessionAffinity
begin

text \<open>
  The credential pool of \<open>MultiTokenManager\<close> (\<open>src/kiro/token_manager.rs\<close>): the entries with
  their health, the manager's state, its construction, the files it writes, and what makes an
  entry eligible for a request. What a call reads from outside is an \<open>env\<close>: the two clocks,
  whether a file can be written, and the text form of an instant (the \<open>chrono\<close> crate). A lock
  section is one step. \<open>DateTime<Utc>\<close> is a number of nanoseconds. The credit totals (\<open>f64\<close>,
  shown to the operator only) are left out of the entries.
\<close>

type_synonym datetime = int

record env =
  env_now :: instant
  env_utc :: datetime
  env_write_ok :: bool
  env_stats_ok :: bool
  to_rfc3339 :: "datetime \<Rightarrow> string"
  parse_rfc3339 :: "string \<Rightarrow> datetime option"

section \<open>Reasons for disabling\<close>

datatype disabled_reason =
    Manual | TooManyFailures | Suspended | TooManyRefreshFailures | QuotaExceeded
  | InvalidRefreshToken | InvalidConfig

fun reason_as_str :: "disabled_reason \<Rightarrow> string" where
  "reason_as_str Manual = ''Manual''"
| "reason_as_str TooManyFailures = ''TooManyFailures''"
| "reason_as_str Suspended = ''Suspended''"
| "reason_as_str TooManyRefreshFailures = ''TooManyRefreshFailures''"
| "reason_as_str QuotaExceeded = ''QuotaExceeded''"
| "reason_as_str InvalidRefreshToken = ''InvalidRefreshToken''"
| "reason_as_str InvalidConfig = ''InvalidConfig''"

definition reason_from_str :: "string \<Rightarrow> disabled_reason option" where
  "reason_from_str s =
     (if s = ''Manual'' then Some Manual
      else if s = ''TooManyFailures'' then Some TooManyFailures
      else if s = ''Suspended'' then Some Suspended
      else if s = ''TooManyRefreshFailures'' then Some TooManyRefreshFailures
      else if s = ''QuotaExceeded'' then Some QuotaExceeded
      else if s = ''InvalidRefreshToken'' then Some InvalidRefreshToken
      else if s = ''InvalidConfig'' then Some InvalidConfig
      else None)"

section \<open>Entries\<close>

record entry =
  ce_id :: u64
  ce_credentials :: kiro_credentials
  ce_failure_count :: u32
  ce_total_failure_count :: u64
  ce_refresh_failure_count :: u32
  ce_disabled :: bool
  ce_disabled_reason :: "disabled_reason option"
  ce_success_count :: u64
  ce_last_used_at :: "string option"
  ce_throttled_until :: "instant option"
  ce_rpm_window :: "instant list"
  ce_self_heal_consecutive_rounds :: u32
  ce_self_heal_total_count :: u64
  ce_last_self_heal_at :: "datetime option"
  ce_self_heal_model :: "string option"
  ce_in_flight :: u32
  ce_current_weight :: int
  ce_proxy_generation :: u64

definition clear_self_heal_streak :: "entry \<Rightarrow> entry" where
  "clear_self_heal_streak e =
     e\<lparr>ce_self_heal_consecutive_rounds := 0, ce_last_self_heal_at := None, ce_self_heal_model := None\<rparr>"

definition reset_health :: "entry \<Rightarrow> entry" where
  "reset_health e =
     (clear_self_heal_streak (e\<lparr>ce_failure_count := 0, ce_total_failure_count := 0,
        ce_refresh_failure_count := 0, ce_disabled := False, ce_disabled_reason := None,
        ce_throttled_until := None, ce_rpm_window := []\<rparr>))\<lparr>ce_current_weight := 0\<rparr>"

definition credentials_snapshot :: "env \<Rightarrow> entry \<Rightarrow> kiro_credentials" where
  "credentials_snapshot env e =
     (canonicalize_auth_method (ce_credentials e))
       \<lparr>kc_id := Some (ce_id e), kc_disabled := ce_disabled e,
        kc_disabled_reason := map_option reason_as_str (ce_disabled_reason e),
        kc_self_heal_consecutive_rounds := ce_self_heal_consecutive_rounds e,
        kc_self_heal_total_count := ce_self_heal_total_count e,
        kc_last_self_heal_at := map_option (to_rfc3339 env) (ce_last_self_heal_at e),
        kc_self_heal_model := ce_self_heal_model e\<rparr>"

text \<open>\<open>refresh_token_duplicate_exists\<close>: another entry, \<open>skip\<close> apart, has the same refresh token.\<close>

definition refresh_token_duplicate_exists :: "entry list \<Rightarrow> string \<Rightarrow> nat option \<Rightarrow> bool" where
  "refresh_token_duplicate_exists es token skip \<longleftrightarrow>
     (\<exists>(idx, e) \<in> set (enumerate 0 es). Some idx \<noteq> skip \<and>
        kc_refresh_token (ce_credentials e) = Some token)"

definition group_matches :: "string list \<Rightarrow> string option \<Rightarrow> bool" where
  "group_matches cred_groups grp \<longleftrightarrow>
     (case grp of None \<Rightarrow> True | Some g \<Rightarrow> \<exists>cg \<in> set cred_groups. cg = g)"

definition priority_key :: "u32 \<Rightarrow> bool \<Rightarrow> u32" where
  "priority_key priority invert = (if invert then - 1 - priority else priority)"

definition normalize_self_heal_model :: "string option \<Rightarrow> string option" where
  "normalize_self_heal_model model =
     (case model of
        None \<Rightarrow> None
      | Some s \<Rightarrow> if trim s = [] then None else Some (to_ascii_lowercase (trim s)))"

fun normalize_ban_keywords_loop :: "string list \<Rightarrow> string list \<Rightarrow> string list" where
  "normalize_ban_keywords_loop out [] = out"
| "normalize_ban_keywords_loop out (kw # kws) =
     (let kw = trim kw in
      if kw \<noteq> [] \<and> \<not> (\<exists>k \<in> set out. eq_ignore_ascii_case k kw)
      then normalize_ban_keywords_loop (out @ [kw]) kws
      else normalize_ban_keywords_loop out kws)"

definition normalize_ban_keywords :: "string list \<Rightarrow> string list" where
  "normalize_ban_keywords kws = normalize_ban_keywords_loop [] kws"

section \<open>The manager\<close>

datatype cached_model_support = Confirmed | Unknown | Unsupported

text \<open>A cached model list: the model ids and when they were loaded.\<close>

type_synonym model_cache_entry = "string list \<times> instant"

text \<open>One line of the statistics file.\<close>

record stats_entry =
  se_success_count :: u64
  se_total_failure_count :: u64
  se_last_used_at :: "string option"

record manager =
  m_entries :: "entry list"
  m_current_id :: u64
  m_next_id :: u64
  m_has_credentials_path :: bool
  m_is_multiple_format :: bool
  m_load_balancing_mode :: string
  m_invert_priority :: bool
  m_group_overrides :: "(string \<Rightarrow> string option \<times> bool option) option"
  m_session_affinity :: affinity
  m_account_throttle_failover :: bool
  m_account_throttle_cooldown_secs :: u64
  m_model_api_429_retry_enabled :: bool
  m_account_rpm_limit_enabled :: bool
  m_account_rpm_limit :: u32
  m_suspended_detection_enabled :: bool
  m_suspended_ban_keywords :: "string list"
  m_self_heal_enabled :: bool
  m_self_heal_min_interval_secs :: u64
  m_self_heal_max_consecutive_rounds :: u32
  m_quota_reset_recovery_enabled :: bool
  m_proxy :: "proxy_config option"
  m_proxy_generation :: u64
  m_proxy_auto_rotate_enabled :: bool
  m_proxy_direct_fallback_enabled :: bool
  m_model_cache_ttl_secs :: u64
  m_model_cache :: "u64 \<rightharpoonup> model_cache_entry"
  m_model_cache_generations :: "u64 \<rightharpoonup> u64"
  m_model_cache_epoch :: u64
  m_last_stats_save_at :: "instant option"
  m_stats_dirty :: bool
  m_credentials_file :: "credentials_config option"
  m_stats_file :: "(u64 \<times> stats_entry) list option"

definition MAX_FAILURES_PER_CREDENTIAL :: u32 where "MAX_FAILURES_PER_CREDENTIAL = 3"
definition RPM_WINDOW_SECS :: u64 where "RPM_WINDOW_SECS = 60"
definition STATS_SAVE_DEBOUNCE :: duration where "STATS_SAVE_DEBOUNCE = 30 * nanos_per_sec"

definition rpm_window_length :: duration where
  "rpm_window_length = from_secs RPM_WINDOW_SECS"

text \<open>\<open>entries.iter_mut().find(|e| e.id == id)\<close> followed by an update of that entry.\<close>

definition update_entry :: "u64 \<Rightarrow> (entry \<Rightarrow> entry) \<Rightarrow> manager \<Rightarrow> manager" where
  "update_entry i f m = m\<lparr>m_entries := update_first (\<lambda>e. ce_id e = i) f (m_entries m)\<rparr>"

definition find_entry :: "u64 \<Rightarrow> manager \<Rightarrow> entry option" where
  "find_entry i m = List.find (\<lambda>e. ce_id e = i) (m_entries m)"

definition resolve_load_balancing_for_group :: "manager \<Rightarrow> string option \<Rightarrow> string \<times> bool" where
  "resolve_load_balancing_for_group m grp =
     (case grp of
        None \<Rightarrow> (m_load_balancing_mode m, m_invert_priority m)
      | Some g \<Rightarrow>
          (case m_group_overrides m of
             None \<Rightarrow> (m_load_balancing_mode m, m_invert_priority m)
           | Some resolve \<Rightarrow>
               (case resolve g of (group_mode, group_invert) \<Rightarrow>
                  (case group_mode of Some x \<Rightarrow> x | None \<Rightarrow> m_load_balancing_mode m,
                   case group_invert of Some b \<Rightarrow> b | None \<Rightarrow> m_invert_priority m))))"

section \<open>Files\<close>

datatype pool_error =
    DuplicateIds "u64 list" | IdsExhausted | ReservedIdFailed | PersistFailed | CredentialNotFound u64

definition persist_credentials :: "env \<Rightarrow> manager \<Rightarrow> (pool_error + bool) \<times> manager" where
  "persist_credentials env m =
     (if \<not> m_is_multiple_format m then (Inr False, m)
      else if \<not> m_has_credentials_path m then (Inr False, m)
      else if \<not> env_write_ok env then (Inl PersistFailed, m)
      else (Inr True, m\<lparr>m_credentials_file := Some (Multiple (map (credentials_snapshot env) (m_entries m)))\<rparr>))"

definition stats_of :: "entry \<Rightarrow> stats_entry" where
  "stats_of e = \<lparr>se_success_count = ce_success_count e,
     se_total_failure_count = ce_total_failure_count e, se_last_used_at = ce_last_used_at e\<rparr>"

definition save_stats :: "env \<Rightarrow> manager \<Rightarrow> manager" where
  "save_stats env m =
     (if \<not> m_has_credentials_path m then m
      else if env_stats_ok env
      then m\<lparr>m_stats_file := Some (map (\<lambda>e. (ce_id e, stats_of e)) (m_entries m)),
             m_last_stats_save_at := Some (env_now env), m_stats_dirty := False\<rparr>
      else m)"

definition save_stats_debounced :: "env \<Rightarrow> manager \<Rightarrow> manager" where
  "save_stats_debounced env m =
     (let m = m\<lparr>m_stats_dirty := True\<rparr>;
          should_flush = (case m_last_stats_save_at m of
            Some t \<Rightarrow> STATS_SAVE_DEBOUNCE \<le> env_now env - t
          | None \<Rightarrow> True) in
      if should_flush then save_stats env m else m)"

definition restore_stats :: "(u64 \<times> stats_entry) list \<Rightarrow> entry \<Rightarrow> entry" where
  "restore_stats saved e =
     (case map_of saved (ce_id e) of
        Some s \<Rightarrow> e\<lparr>ce_success_count := se_success_count s,
          ce_total_failure_count := se_total_failure_count s,
          ce_last_used_at := se_last_used_at s\<rparr>
      | None \<Rightarrow> e)"

definition load_stats :: "env \<Rightarrow> manager \<Rightarrow> manager" where
  "load_stats env m =
     (if \<not> m_has_credentials_path m then m
      else case m_stats_file m of
        None \<Rightarrow> m
      | Some saved \<Rightarrow>
          m\<lparr>m_entries := map (restore_stats saved) (m_entries m),
             m_last_stats_save_at := Some (env_now env), m_stats_dirty := False\<rparr>)"

section \<open>Construction\<close>

record config =
  cf_load_balancing_mode :: string
  cf_invert_priority :: bool
  cf_session_affinity_enabled :: bool
  cf_session_affinity_ttl_secs :: u64
  cf_account_throttle_failover :: bool
  cf_account_throttle_cooldown_secs :: u64
  cf_model_api_429_retry_enabled :: bool
  cf_account_rpm_limit_enabled :: bool
  cf_account_rpm_limit :: u32
  cf_suspended_detection_enabled :: bool
  cf_suspended_ban_keywords :: "string list"
  cf_self_heal_enabled :: bool
  cf_self_heal_min_interval_secs :: u64
  cf_self_heal_max_consecutive_rounds :: u32
  cf_quota_reset_recovery_enabled :: bool
  cf_proxy_auto_rotate_enabled :: bool
  cf_proxy_direct_fallback_enabled :: bool
  cf_model_cache_ttl_secs :: u64

definition fresh_entry :: "env \<Rightarrow> u64 \<Rightarrow> kiro_credentials \<Rightarrow> entry" where
  "fresh_entry env i c =
     \<lparr>ce_id = i, ce_credentials = c, ce_failure_count = 0, ce_total_failure_count = 0,
      ce_refresh_failure_count = 0, ce_disabled = kc_disabled c,
      ce_disabled_reason =
        (if kc_disabled c
         then (case Option.bind (kc_disabled_reason c) reason_from_str of
                 Some r \<Rightarrow> Some r | None \<Rightarrow> Some Manual)
         else None),
      ce_success_count = 0, ce_last_used_at = None, ce_throttled_until = None,
      ce_rpm_window = [],
      ce_self_heal_consecutive_rounds = kc_self_heal_consecutive_rounds c,
      ce_self_heal_total_count = kc_self_heal_total_count c,
      ce_last_self_heal_at = Option.bind (kc_last_self_heal_at c) (parse_rfc3339 env),
      ce_self_heal_model = kc_self_heal_model c, ce_in_flight = 0, ce_current_weight = 0,
      ce_proxy_generation = 0\<rparr>"

text \<open>The closure of \<open>new\<close> over the credentials: the next id and whether anything was filled in
  are its captured state. \<open>gen_machine_id\<close> is \<open>machine_id::generate_from_credentials\<close>.\<close>

fun load_entries ::
  "env \<Rightarrow> (kiro_credentials \<Rightarrow> string) \<Rightarrow> u64 \<Rightarrow> bool \<Rightarrow> kiro_credentials list \<Rightarrow>
   entry list \<times> u64 \<times> bool"
where
  "load_entries env gen_machine_id next_id changed [] = ([], next_id, changed)"
| "load_entries env gen_machine_id next_id changed (c # cs) =
     (let c = canonicalize_auth_method c;
          (i, next_id, changed, c) =
            (case kc_id c of
               Some i \<Rightarrow> (i, next_id, changed, c)
             | None \<Rightarrow> (next_id, next_id + 1, True, c\<lparr>kc_id := Some next_id\<rparr>));
          (filled, c) = fill_default_profile_arn c;
          changed = (changed \<or> filled);
          (changed, c) =
            (if kc_machine_id c = None
             then (True, c\<lparr>kc_machine_id := Some (gen_machine_id c)\<rparr>)
             else (changed, c));
          (es, next_id, changed) = load_entries env gen_machine_id next_id changed cs in
      (fresh_entry env i c # es, next_id, changed))"

text \<open>Credentials that claim to be API keys but carry none.\<close>

definition check_api_key_config :: "entry \<Rightarrow> entry" where
  "check_api_key_config e =
     (if kc_kiro_api_key (ce_credentials e) = None \<and>
         (method_is ''api_key'' (ce_credentials e) \<or> method_is ''apikey'' (ce_credentials e))
      then e\<lparr>ce_disabled := True, ce_disabled_reason := Some InvalidConfig\<rparr>
      else e)"

fun duplicate_ids :: "u64 list \<Rightarrow> u64 list \<Rightarrow> u64 list" where
  "duplicate_ids seen [] = []"
| "duplicate_ids seen (i # is) =
     (if i \<in> set seen then i # duplicate_ids seen is else duplicate_ids (i # seen) is)"

definition entry_key :: "bool \<Rightarrow> entry \<Rightarrow> u32 \<times> u64" where
  "entry_key invert e = (priority_key (kc_priority (ce_credentials e)) invert, ce_id e)"

definition best_entry :: "bool \<Rightarrow> (entry \<Rightarrow> bool) \<Rightarrow> entry list \<Rightarrow> entry option" where
  "best_entry invert p es = min_by_key (entry_key invert) (filter p es)"

definition initial_id :: "bool \<Rightarrow> entry list \<Rightarrow> u64" where
  "initial_id invert es =
     (case best_entry invert (\<lambda>e. \<not> ce_disabled e) es of Some e \<Rightarrow> ce_id e | None \<Rightarrow> 0)"

definition initial_manager ::
  "config \<Rightarrow> entry list \<Rightarrow> u64 \<Rightarrow> proxy_config option \<Rightarrow> bool \<Rightarrow> bool \<Rightarrow>
   credentials_config option \<Rightarrow> (u64 \<times> stats_entry) list option \<Rightarrow> manager"
where
  "initial_manager cfg es next_id proxy has_path multi file stats_file =
     \<lparr>m_entries = es,
      m_current_id = initial_id (cf_invert_priority cfg) es,
      m_next_id = next_id, m_has_credentials_path = has_path,
      m_is_multiple_format = multi,
      m_load_balancing_mode = cf_load_balancing_mode cfg,
      m_invert_priority = cf_invert_priority cfg, m_group_overrides = None,
      m_session_affinity = new_affinity (cf_session_affinity_enabled cfg)
        (cf_session_affinity_ttl_secs cfg),
      m_account_throttle_failover = cf_account_throttle_failover cfg,
      m_account_throttle_cooldown_secs = cf_account_throttle_cooldown_secs cfg,
      m_model_api_429_retry_enabled = cf_model_api_429_retry_enabled cfg,
      m_account_rpm_limit_enabled = cf_account_rpm_limit_enabled cfg,
      m_account_rpm_limit = cf_account_rpm_limit cfg,
      m_suspended_detection_enabled = cf_suspended_detection_enabled cfg,
      m_suspended_ban_keywords = normalize_ban_keywords (cf_suspended_ban_keywords cfg),
      m_self_heal_enabled = cf_self_heal_enabled cfg,
      m_self_heal_min_interval_secs = cf_self_heal_min_interval_secs cfg,
      m_self_heal_max_consecutive_rounds = cf_self_heal_max_consecutive_rounds cfg,
      m_quota_reset_recovery_enabled = cf_quota_reset_recovery_enabled cfg,
      m_proxy = proxy, m_proxy_generation = 0,
      m_proxy_auto_rotate_enabled = cf_proxy_auto_rotate_enabled cfg,
      m_proxy_direct_fallback_enabled = cf_proxy_direct_fallback_enabled cfg,
      m_model_cache_ttl_secs = cf_model_cache_ttl_secs cfg,
      m_model_cache = Map.empty, m_model_cache_generations = Map.empty,
      m_model_cache_epoch = 0, m_last_stats_save_at = None, m_stats_dirty = False,
      m_credentials_file = file, m_stats_file = stats_file\<rparr>"

text \<open>\<open>reserved\<close> is \<open>credential_dedup::reserved_id\<close> of the credentials path, \<open>None\<close> if it fails.\<close>

definition new_manager ::
  "env \<Rightarrow> (kiro_credentials \<Rightarrow> string) \<Rightarrow> u64 option \<Rightarrow> config \<Rightarrow> kiro_credentials list \<Rightarrow>
   proxy_config option \<Rightarrow> bool \<Rightarrow> bool \<Rightarrow> credentials_config option \<Rightarrow>
   (u64 \<times> stats_entry) list option \<Rightarrow> pool_error + manager"
where
  "new_manager env gen_machine_id reserved cfg creds proxy has_path multi file stats_file =
     (let max_existing = (case max_by_key id (List.map_filter kc_id creds) of Some i \<Rightarrow> i | None \<Rightarrow> 0) in
      case (if has_path then reserved else Some 0) of
        None \<Rightarrow> Inl ReservedIdFailed
      | Some reserved_id \<Rightarrow>
        let highest = max max_existing reserved_id in
        if highest = - 1 then Inl IdsExhausted
        else
          let (es, next_id, changed) = load_entries env gen_machine_id (highest + 1) False creds;
              es = map check_api_key_config es;
              dups = duplicate_ids [] (map ce_id es) in
          if dups \<noteq> [] then Inl (DuplicateIds dups)
          else
            let m = initial_manager cfg es next_id proxy has_path multi file stats_file;
                m = (if \<not> multi \<and> es \<noteq> [] \<and> has_path
                     then snd (persist_credentials env (m\<lparr>m_is_multiple_format := True\<rparr>)) else m);
                m = (if changed then snd (persist_credentials env m) else m) in
            Inr (load_stats env m))"

section \<open>Model cache\<close>

definition cached_model_response :: "env \<Rightarrow> u64 \<Rightarrow> bool \<Rightarrow> manager \<Rightarrow> string list option" where
  "cached_model_response env i require_fresh m =
     (case m_model_cache m i of
        None \<Rightarrow> None
      | Some (models, refreshed_at) \<Rightarrow>
          if require_fresh \<and> from_secs (m_model_cache_ttl_secs m) \<le> env_now env - refreshed_at
          then None else Some models)"

definition model_cache_generation :: "u64 \<Rightarrow> manager \<Rightarrow> u64" where
  "model_cache_generation i m = (case m_model_cache_generations m i of Some g \<Rightarrow> g | None \<Rightarrow> 0)"

definition invalidate_model_cache :: "u64 \<Rightarrow> manager \<Rightarrow> manager" where
  "invalidate_model_cache i m =
     m\<lparr>m_model_cache_generations :=
         (m_model_cache_generations m)(i \<mapsto> model_cache_generation i m + 1),
       m_model_cache := (m_model_cache m)(i := None)\<rparr>"

definition invalidate_all_model_caches :: "manager \<Rightarrow> manager" where
  "invalidate_all_model_caches m =
     m\<lparr>m_model_cache_epoch := m_model_cache_epoch m + 1, m_model_cache := Map.empty\<rparr>"

definition set_global_proxy :: "proxy_config option \<Rightarrow> manager \<Rightarrow> manager" where
  "set_global_proxy proxy m =
     invalidate_all_model_caches (m\<lparr>m_proxy := proxy, m_proxy_generation := m_proxy_generation m + 1\<rparr>)"

definition cached_model_support :: "manager \<Rightarrow> u64 \<Rightarrow> string option \<Rightarrow> cached_model_support" where
  "cached_model_support m i model =
     (case model of
        None \<Rightarrow> Unknown
      | Some name \<Rightarrow>
          (case m_model_cache m i of
             None \<Rightarrow> Unknown
           | Some (models, _) \<Rightarrow>
               if \<exists>available \<in> set models. eq_ignore_ascii_case available name
               then Confirmed else Unsupported))"

text \<open>
  \<open>refresh_model_cache_for\<close> in two atomic parts, between which the upstream request runs: what is
  remembered before it, and what is stored after it.
\<close>

definition begin_model_refresh :: "u64 \<Rightarrow> manager \<Rightarrow> u64 \<times> u64" where
  "begin_model_refresh i m = (model_cache_generation i m, m_model_cache_epoch m)"

definition finish_model_refresh ::
  "env \<Rightarrow> u64 \<Rightarrow> u64 \<times> u64 \<Rightarrow> string list \<Rightarrow> manager \<Rightarrow> manager" where
  "finish_model_refresh env i started models m =
     (if fst started = model_cache_generation i m \<and> snd started = m_model_cache_epoch m
      then m\<lparr>m_model_cache := (m_model_cache m)(i \<mapsto> (models, env_now env))\<rparr>
      else m)"

section \<open>Eligibility for a request\<close>

definition throttled :: "instant \<Rightarrow> entry \<Rightarrow> bool" where
  "throttled now e \<longleftrightarrow> (case ce_throttled_until e of Some t \<Rightarrow> now < t | None \<Rightarrow> False)"

definition fresh_requests :: "instant \<Rightarrow> entry \<Rightarrow> instant list" where
  "fresh_requests now e = filter (\<lambda>ts. now - ts < rpm_window_length) (ce_rpm_window e)"

definition rpm_exceeded :: "manager \<Rightarrow> entry \<Rightarrow> instant \<Rightarrow> bool" where
  "rpm_exceeded m e now \<longleftrightarrow>
     m_account_rpm_limit_enabled m \<and> m_account_rpm_limit m \<noteq> 0 \<and>
     m_account_rpm_limit m \<le> of_nat (length (fresh_requests now e))"

definition entry_available_for_request ::
  "manager \<Rightarrow> string option \<Rightarrow> string option \<Rightarrow> instant \<Rightarrow> entry \<Rightarrow> bool" where
  "entry_available_for_request m model grp now e \<longleftrightarrow>
     \<not> ce_disabled e \<and> \<not> throttled now e \<and> \<not> rpm_exceeded m e now \<and>
     group_matches (kc_groups (ce_credentials e)) grp \<and>
     cached_model_support m (ce_id e) model \<noteq> Unsupported"

definition total_count_in_group :: "string option \<Rightarrow> manager \<Rightarrow> nat" where
  "total_count_in_group grp m =
     length (filter (\<lambda>e. group_matches (kc_groups (ce_credentials e)) grp) (m_entries m))"

definition available_count :: "instant \<Rightarrow> manager \<Rightarrow> nat" where
  "available_count now m = length (filter (\<lambda>e. \<not> ce_disabled e \<and> \<not> throttled now e) (m_entries m))"

definition available_model_credential_ids :: "instant \<Rightarrow> string option \<Rightarrow> manager \<Rightarrow> u64 list" where
  "available_model_credential_ids now grp m =
     map ce_id (filter (\<lambda>e. \<not> ce_disabled e \<and> \<not> throttled now e \<and>
       group_matches (kc_groups (ce_credentials e)) grp) (m_entries m))"

definition has_available_for_request ::
  "manager \<Rightarrow> string option \<Rightarrow> string option \<Rightarrow> instant \<Rightarrow> bool" where
  "has_available_for_request m model grp now \<longleftrightarrow>
     (\<exists>e \<in> set (m_entries m). entry_available_for_request m model grp now e)"

text \<open>Requests admitted by the client's group and the known models, whatever the limits say.\<close>

definition matches_request :: "manager \<Rightarrow> string option \<Rightarrow> string option \<Rightarrow> entry \<Rightarrow> bool" where
  "matches_request m model grp e \<longleftrightarrow>
     \<not> ce_disabled e \<and> group_matches (kc_groups (ce_credentials e)) grp \<and>
     cached_model_support m (ce_id e) model \<noteq> Unsupported"

text \<open>The time until one matching entry clears its cooldown and its request window.\<close>

definition entry_remaining :: "nat \<Rightarrow> instant \<Rightarrow> entry \<Rightarrow> duration" where
  "entry_remaining limit now e =
     (let fresh = fresh_requests now e;
          remaining = (case ce_throttled_until e of Some t \<Rightarrow> t - now | None \<Rightarrow> 0) in
      if 0 < limit \<and> limit \<le> length fresh
      then max remaining (fresh ! (length fresh - limit) + rpm_window_length - now)
      else remaining)"

fun capacity_retry_after_loop ::
  "nat \<Rightarrow> instant \<Rightarrow> nat option \<Rightarrow> entry list \<Rightarrow> nat option" where
  "capacity_retry_after_loop limit now earliest [] = earliest"
| "capacity_retry_after_loop limit now earliest (e # es) =
     (let remaining = entry_remaining limit now e in
      if remaining = 0 then None
      else
        let retry_after = max (secs_ceil remaining) 1 in
        capacity_retry_after_loop limit now
          (Some (case earliest of Some c \<Rightarrow> min c retry_after | None \<Rightarrow> retry_after)) es)"

definition capacity_retry_after_secs ::
  "manager \<Rightarrow> string option \<Rightarrow> string option \<Rightarrow> instant \<Rightarrow> nat option" where
  "capacity_retry_after_secs m model grp now =
     capacity_retry_after_loop
       (if m_account_rpm_limit_enabled m then unat (m_account_rpm_limit m) else 0) now None
       (filter (matches_request m model grp) (m_entries m))"

section \<open>Counting a request\<close>

definition drop_stale :: "instant \<Rightarrow> instant list \<Rightarrow> instant list" where
  "drop_stale now ts = dropWhile (\<lambda>t. rpm_window_length \<le> now - t) ts"

definition record_request :: "env \<Rightarrow> u64 \<Rightarrow> manager \<Rightarrow> bool \<times> manager" where
  "record_request env i m =
     (case find_entry i m of
        None \<Rightarrow> (False, m)
      | Some e \<Rightarrow>
          if \<not> m_account_rpm_limit_enabled m \<or> m_account_rpm_limit m = 0
          then (True, update_entry i (\<lambda>e. e\<lparr>ce_rpm_window := []\<rparr>) m)
          else
            let window = drop_stale (env_now env) (ce_rpm_window e) in
            if unat (m_account_rpm_limit m) \<le> length window
            then (False, update_entry i (\<lambda>e. e\<lparr>ce_rpm_window := window\<rparr>) m)
            else (True, update_entry i (\<lambda>e. e\<lparr>ce_rpm_window := window @ [env_now env]\<rparr>) m))"

section \<open>Entries by id\<close>

definition distinct_ids :: "manager \<Rightarrow> bool" where
  "distinct_ids m \<longleftrightarrow> distinct (map ce_id (m_entries m))"

lemma update_entry_select [simp]:
  "m_entries (update_entry i f m) = update_first (\<lambda>e. ce_id e = i) f (m_entries m)"
  "m_account_rpm_limit_enabled (update_entry i f m) = m_account_rpm_limit_enabled m"
  "m_account_rpm_limit (update_entry i f m) = m_account_rpm_limit m"
  "m_current_id (update_entry i f m) = m_current_id m"
  "m_model_cache (update_entry i f m) = m_model_cache m"
  "m_next_id (update_entry i f m) = m_next_id m"
  "m_has_credentials_path (update_entry i f m) = m_has_credentials_path m"
  "m_is_multiple_format (update_entry i f m) = m_is_multiple_format m"
  "m_load_balancing_mode (update_entry i f m) = m_load_balancing_mode m"
  "m_invert_priority (update_entry i f m) = m_invert_priority m"
  "m_group_overrides (update_entry i f m) = m_group_overrides m"
  "m_session_affinity (update_entry i f m) = m_session_affinity m"
  "m_self_heal_enabled (update_entry i f m) = m_self_heal_enabled m"
  "m_self_heal_min_interval_secs (update_entry i f m) = m_self_heal_min_interval_secs m"
  "m_self_heal_max_consecutive_rounds (update_entry i f m) = m_self_heal_max_consecutive_rounds m"
  "m_credentials_file (update_entry i f m) = m_credentials_file m"
  "m_proxy (update_entry i f m) = m_proxy m"
  by (simp_all add: update_entry_def)

lemma find_entry_update:
  "(\<And>e. ce_id (f e) = ce_id e) \<Longrightarrow>
   find_entry i (update_entry i f m) = map_option f (find_entry i m)"
  by (simp add: find_entry_def find_update_first)

lemma find_entry_Some: "find_entry i m = Some e \<Longrightarrow> e \<in> set (m_entries m) \<and> ce_id e = i"
  by (auto simp: find_entry_def dest: find_Some_in)

lemma find_entry_distinct:
  "distinct_ids m \<Longrightarrow> e \<in> set (m_entries m) \<Longrightarrow> find_entry (ce_id e) m = Some e"
proof -
  have "distinct (map ce_id es) \<Longrightarrow> e \<in> set es \<Longrightarrow> List.find (\<lambda>x. ce_id x = ce_id e) es = Some e" for es
    by (induction es) (auto simp: image_iff)
  then show "distinct_ids m \<Longrightarrow> e \<in> set (m_entries m) \<Longrightarrow> ?thesis"
    by (simp add: distinct_ids_def find_entry_def)
qed

section \<open>The sliding window\<close>

text \<open>Which of a sequence of requests are admitted, given the window so far.\<close>

fun admitted :: "nat \<Rightarrow> instant list \<Rightarrow> instant list \<Rightarrow> instant list" where
  "admitted limit window [] = []"
| "admitted limit window (t # ts) =
     (let w = drop_stale t window in
      if limit \<le> length w then admitted limit w ts else t # admitted limit (w @ [t]) ts)"

definition within :: "instant \<Rightarrow> instant list \<Rightarrow> instant list" where
  "within t ts = filter (\<lambda>s. s \<le> t \<and> t - s < rpm_window_length) ts"

lemma drop_stale_sorted:
  "sorted ts \<Longrightarrow> drop_stale now ts = filter (\<lambda>t. now - t < rpm_window_length) ts"
proof (induction ts)
  case (Cons t ts)
  show ?case
  proof (cases "rpm_window_length \<le> now - t")
    case False
    with Cons.prems have "filter (\<lambda>t. now - t < rpm_window_length) ts = ts"
      by (intro filter_True ballI) (fastforce dest: bspec)
    with False show ?thesis by (simp add: drop_stale_def)
  qed (use Cons in \<open>simp add: drop_stale_def\<close>)
qed (simp add: drop_stale_def)

lemma admitted_in: "set (admitted limit window ts) \<subseteq> set ts"
  by (induction limit window ts rule: admitted.induct) (auto simp: Let_def)

lemma within_later:
  "\<forall>s \<in> set ts. s \<le> u \<Longrightarrow> u \<le> t \<Longrightarrow> length (within t ts) \<le> length (within u ts)"
proof -
  assume a: "\<forall>s \<in> set ts. s \<le> u" "u \<le> t"
  have "within t ts = filter (\<lambda>s. t - s < rpm_window_length) (within u ts)"
    unfolding within_def filter_filter by (rule filter_cong) (use a in auto)
  then show ?thesis by simp
qed

text \<open>The window after a request at \<open>u\<close> holds the admitted requests of the last minute; so no
  window of any later minute has more than the limit.\<close>

lemma admitted_bound:
  assumes "sorted (past @ ts)" "\<forall>s \<in> set past. s \<le> u" "\<forall>s \<in> set ts. u \<le> s"
    and "window = filter (\<lambda>s. u - s < rpm_window_length) past"
    and "\<forall>t. length (within t past) \<le> limit"
  shows "length (within t (past @ admitted limit window ts)) \<le> limit"
  using assms
proof (induction ts arbitrary: past window u)
  case Nil
  then show ?case by simp
next
  case (Cons x ts)
  let ?w = "filter (\<lambda>s. x - s < rpm_window_length) past"
  have le: "\<forall>s \<in> set past. s \<le> x" using Cons.prems(1) by (auto simp: sorted_append)
  have "sorted window" using Cons.prems(1,4) by (simp add: sorted_append sorted_wrt_filter)
  then have "drop_stale x window = filter (\<lambda>s. x - s < rpm_window_length) window"
    by (rule drop_stale_sorted)
  also have "\<dots> = ?w"
    using Cons.prems(3) unfolding Cons.prems(4) filter_filter
    by (intro filter_cong) auto
  finally have w: "drop_stale x window = ?w" .
  have wx: "?w = within x past" using le by (auto simp: within_def intro: filter_cong)
  show ?case
  proof (cases "limit \<le> length ?w")
    case True
    have "length (within t (past @ admitted limit ?w ts)) \<le> limit"
      by (rule Cons.IH [of past x]) (use Cons.prems le in \<open>auto simp: sorted_append\<close>)
    with True w show ?thesis by (simp add: Let_def)
  next
    case False
    have pos: "0 < rpm_window_length"
      by (simp add: rpm_window_length_def RPM_WINDOW_SECS_def from_secs_def nanos_per_sec_def)
    have "length (within t' (past @ [x])) \<le> limit" for t'
    proof (cases "x \<le> t'")
      case True
      have "length (within t' (past @ [x])) \<le> length (within x (past @ [x]))"
        by (rule within_later) (use le True in auto)
      also have "\<dots> = Suc (length ?w)" using wx pos by (simp add: within_def)
      finally show ?thesis using False by linarith
    next
      case False
      then have "within t' (past @ [x]) = within t' past" by (simp add: within_def)
      with Cons.prems(5) show ?thesis by simp
    qed
    then have "length (within t ((past @ [x]) @ admitted limit (?w @ [x]) ts)) \<le> limit"
      by (intro Cons.IH [of "past @ [x]" x]) (use Cons.prems le pos in \<open>auto simp: sorted_append\<close>)
    with False w show ?thesis by (simp add: Let_def)
  qed
qed

text \<open>The times at which \<open>record_request\<close> admits a request.\<close>

fun admitted_requests :: "env \<Rightarrow> u64 \<Rightarrow> instant list \<Rightarrow> manager \<Rightarrow> instant list" where
  "admitted_requests env i [] m = []"
| "admitted_requests env i (t # ts) m =
     (let (ok, m') = record_request (env\<lparr>env_now := t\<rparr>) i m in
      (if ok then [t] else []) @ admitted_requests env i ts m')"

lemma admitted_requests_alt:
  "find_entry i m = Some e \<Longrightarrow> m_account_rpm_limit_enabled m \<Longrightarrow> m_account_rpm_limit m \<noteq> 0 \<Longrightarrow>
   admitted_requests env i ts m = admitted (unat (m_account_rpm_limit m)) (ce_rpm_window e) ts"
  by (induction ts arbitrary: m e) (auto simp: record_request_def Let_def find_entry_update)

text \<open>C32: However many requests are made for a credential, at whatever times, no window of sixty
  seconds contains more admitted requests than the configured limit.\<close>

theorem rpm_limit_respected:
  assumes "find_entry i m = Some e" and "ce_rpm_window e = []"
    and "m_account_rpm_limit_enabled m" and "m_account_rpm_limit m \<noteq> 0"
    and "sorted reqs"
  shows "length (within t (admitted_requests env i reqs m)) \<le> unat (m_account_rpm_limit m)"
proof -
  have "length (within t ([] @ admitted (unat (m_account_rpm_limit m)) [] reqs))
      \<le> unat (m_account_rpm_limit m)"
    by (rule admitted_bound [of "[]" reqs 0]) (use assms(5) in \<open>auto simp: within_def\<close>)
  then show ?thesis
    using admitted_requests_alt [OF assms(1,3,4)] assms(2) by simp
qed

section \<open>When to retry\<close>

lemma remaining_zero:
  assumes "\<not> ce_disabled e" "group_matches (kc_groups (ce_credentials e)) grp"
    "cached_model_support m (ce_id e) model \<noteq> Unsupported"
    and "length (ce_rpm_window e) < 2 ^ 32"
    and "limit = (if m_account_rpm_limit_enabled m then unat (m_account_rpm_limit m) else 0)"
  shows "entry_remaining limit now e = 0 \<longleftrightarrow> entry_available_for_request m model grp now e"
proof -
  let ?fresh = "fresh_requests now e"
  have len: "length ?fresh < 2 ^ 32"
    using assms(4) length_filter_le [of _ "ce_rpm_window e"]
    unfolding fresh_requests_def by (rule le_less_trans [rotated])
  then have cmp: "m_account_rpm_limit m \<le> of_nat (length ?fresh) \<longleftrightarrow>
      unat (m_account_rpm_limit m) \<le> length ?fresh"
    by (simp add: word_le_nat_alt unat_of_nat)
  have rpm: "rpm_exceeded m e now \<longleftrightarrow> 0 < limit \<and> limit \<le> length ?fresh"
    by (auto simp: rpm_exceeded_def cmp assms(5) unat_gt_0)
  have pos: "0 < ?fresh ! (length ?fresh - limit) + rpm_window_length - now"
    if "0 < limit" "limit \<le> length ?fresh"
  proof -
    have "?fresh ! (length ?fresh - limit) \<in> set ?fresh" using that by (intro nth_mem) auto
    then show ?thesis by (auto simp: fresh_requests_def)
  qed
  have thr: "(case ce_throttled_until e of Some t \<Rightarrow> t - now | None \<Rightarrow> 0) = 0 \<longleftrightarrow> \<not> throttled now e"
    by (auto simp: throttled_def split: option.split)
  show ?thesis
    using assms(1-3) rpm pos thr
    by (auto simp: entry_remaining_def entry_available_for_request_def Let_def max_def split: if_splits)
qed

text \<open>The free capacity of one entry once its wait is over, should nothing else be recorded.\<close>

lemma filter_nth_drop:
  assumes "sorted (xs :: nat list)" "n < length xs" "\<forall>x \<in> set xs. x \<ge> lo"
  shows "length (filter (\<lambda>x. xs ! n < x) xs) \<le> length xs - n - 1"
proof -
  have "filter (\<lambda>x. xs ! n < x) xs = filter (\<lambda>x. xs ! n < x) (drop (Suc n) xs)"
  proof -
    have "filter (\<lambda>x. xs ! n < x) (take (Suc n) xs) = []"
      using assms(1,2) by (auto simp: filter_empty_conv in_set_conv_nth not_less sorted_nth_mono)
    then show ?thesis
      by (metis append_Nil append_take_drop_id filter_append)
  qed
  then show ?thesis using length_filter_le [of "\<lambda>x. xs ! n < x" "drop (Suc n) xs"] by simp
qed

lemma remaining_enough:
  assumes "sorted (ce_rpm_window e)" "now + entry_remaining limit now e \<le> later" "0 < limit"
  shows "\<not> throttled later e \<and> length (fresh_requests later e) < limit"
proof -
  let ?fresh = "fresh_requests now e"
  have thr: "\<not> throttled later e"
    using assms(2) by (auto simp: throttled_def entry_remaining_def Let_def max_def split: option.splits if_splits)
  have sub: "fresh_requests later e = filter (\<lambda>ts. later - ts < rpm_window_length) ?fresh"
    using assms(2) unfolding fresh_requests_def filter_filter by (intro filter_cong) auto
  show ?thesis
  proof (cases "limit \<le> length ?fresh")
    case False
    then have "length (fresh_requests later e) < limit"
      unfolding sub using length_filter_le [of "\<lambda>ts. later - ts < rpm_window_length" ?fresh]
      by linarith
    with thr show ?thesis by simp
  next
    case True
    let ?n = "length ?fresh - limit"
    have n: "?n < length ?fresh" using True assms(3) by simp
    have sorted: "sorted ?fresh"
      using assms(1) by (simp add: fresh_requests_def sorted_wrt_filter)
    have "?fresh ! ?n + rpm_window_length \<le> later"
      using assms(2,3) True by (auto simp: entry_remaining_def Let_def)
    then have "filter (\<lambda>ts. later - ts < rpm_window_length) ?fresh
        = filter (\<lambda>ts. ?fresh ! ?n < ts \<and> later - ts < rpm_window_length) ?fresh"
      by (intro filter_cong) auto
    then have "length (fresh_requests later e) \<le> length (filter (\<lambda>ts. ?fresh ! ?n < ts) ?fresh)"
      unfolding sub by (simp add: length_filter_conv_card) (rule card_mono, auto)
    also have "\<dots> \<le> length ?fresh - ?n - 1"
      by (rule filter_nth_drop [where lo = 0]) (use sorted n in auto)
    also have "\<dots> < limit" using True assms(3) by simp
    finally show ?thesis using thr by simp
  qed
qed

lemma remaining_enough_unlimited:
  "now + entry_remaining 0 now e \<le> later \<Longrightarrow> \<not> throttled later e"
  by (auto simp: throttled_def entry_remaining_def split: option.splits)

lemma capacity_loop_Some:
  "capacity_retry_after_loop limit now earliest es = Some s \<Longrightarrow>
   (\<forall>e \<in> set es. entry_remaining limit now e \<noteq> 0) \<and>
   (earliest = Some s \<or> (\<exists>e \<in> set es. s = max (secs_ceil (entry_remaining limit now e)) 1))"
proof (induction es arbitrary: earliest)
  case (Cons e es)
  then have ne: "entry_remaining limit now e \<noteq> 0" by (auto simp: Let_def split: if_splits)
  let ?r = "max (secs_ceil (entry_remaining limit now e)) 1"
  have "capacity_retry_after_loop limit now
      (Some (case earliest of Some c \<Rightarrow> min c ?r | None \<Rightarrow> ?r)) es = Some s"
    using Cons.prems ne by (simp only: capacity_retry_after_loop.simps Let_def if_False)
  from Cons.IH [OF this] ne show ?case
    by (auto simp: min_def split: option.splits if_splits)
qed simp

lemma capacity_loop_None:
  "capacity_retry_after_loop limit now (Some c) es = None \<longleftrightarrow>
   (\<exists>e \<in> set es. entry_remaining limit now e = 0)"
  by (induction es arbitrary: c) (auto simp: Let_def)

text \<open>The answer to a request that finds no credential is exact: no waiting time is announced
  precisely when no enabled credential matches the request or one of them is free now, and an
  announced time is positive and long enough for some matching credential to be free again.\<close>

lemma capacity_retry_after_exact:
  assumes "\<forall>e \<in> set (m_entries m). sorted (ce_rpm_window e) \<and> length (ce_rpm_window e) < 2 ^ 32"
  shows "(capacity_retry_after_secs m model grp now = None \<longleftrightarrow>
      filter (matches_request m model grp) (m_entries m) = [] \<or>
      has_available_for_request m model grp now) \<and>
    (\<forall>s. capacity_retry_after_secs m model grp now = Some s \<longrightarrow> 0 < s \<and>
      has_available_for_request m model grp (now + s * nanos_per_sec))"
proof -
  let ?limit = "if m_account_rpm_limit_enabled m then unat (m_account_rpm_limit m) else 0"
  let ?es = "filter (matches_request m model grp) (m_entries m)"
  have zero: "entry_remaining ?limit t e = 0 \<longleftrightarrow> entry_available_for_request m model grp t e"
    if "e \<in> set ?es" for t e
    using that assms by (intro remaining_zero) (auto simp: matches_request_def)
  have avail: "has_available_for_request m model grp t \<longleftrightarrow>
      (\<exists>e \<in> set ?es. entry_remaining ?limit t e = 0)" for t
    using zero by (fastforce simp: has_available_for_request_def entry_available_for_request_def matches_request_def)
  have none: "capacity_retry_after_secs m model grp now = None \<longleftrightarrow>
      ?es = [] \<or> has_available_for_request m model grp now"
  proof (cases ?es)
    case Nil
    then show ?thesis by (simp add: capacity_retry_after_secs_def)
  next
    case (Cons e es)
    then show ?thesis
      unfolding avail capacity_retry_after_secs_def by (auto simp: Let_def capacity_loop_None)
  qed
  have some: "0 < s \<and> has_available_for_request m model grp (now + s * nanos_per_sec)"
    if "capacity_retry_after_secs m model grp now = Some s" for s
  proof -
    from capacity_loop_Some that obtain e where e: "e \<in> set ?es"
      "s = max (secs_ceil (entry_remaining ?limit now e)) 1"
      unfolding capacity_retry_after_secs_def by blast
    have "entry_remaining ?limit now e \<le> s * nanos_per_sec"
      using secs_ceil_covers [of "entry_remaining ?limit now e"] e(2)
      by (metis max.cobounded1 mult_le_mono1 order_trans)
    then have later: "now + entry_remaining ?limit now e \<le> now + s * nanos_per_sec" by simp
    have "entry_remaining ?limit (now + s * nanos_per_sec) e = 0"
    proof (cases "?limit = 0")
      case True
      with remaining_enough_unlimited [of now e] later
      have "\<not> throttled (now + s * nanos_per_sec) e" by simp
      with True show ?thesis
        by (auto simp: entry_remaining_def throttled_def split: option.splits)
    next
      case False
      with remaining_enough [OF _ later] assms e(1)
      have "\<not> throttled (now + s * nanos_per_sec) e"
        "length (fresh_requests (now + s * nanos_per_sec) e) < ?limit" by auto
      then show ?thesis
        by (auto simp: entry_remaining_def throttled_def Let_def split: option.splits)
    qed
    with e avail show ?thesis by auto
  qed
  from none some show ?thesis by blast
qed

section \<open>Construction and restart\<close>

definition entry_ok :: "entry \<Rightarrow> bool" where
  "entry_ok e \<longleftrightarrow> kc_id (ce_credentials e) = Some (ce_id e) \<and>
     (ce_disabled e \<longleftrightarrow> ce_disabled_reason e \<noteq> None)"

lemma canonicalize_id [simp]:
  "kc_id (canonicalize_auth_method c) = kc_id c"
  "kc_disabled (canonicalize_auth_method c) = kc_disabled c"
  "kc_disabled_reason (canonicalize_auth_method c) = kc_disabled_reason c"
  "kc_self_heal_consecutive_rounds (canonicalize_auth_method c) = kc_self_heal_consecutive_rounds c"
  "kc_self_heal_total_count (canonicalize_auth_method c) = kc_self_heal_total_count c"
  "kc_last_self_heal_at (canonicalize_auth_method c) = kc_last_self_heal_at c"
  "kc_self_heal_model (canonicalize_auth_method c) = kc_self_heal_model c"
  by (simp_all add: canonicalize_auth_method_alt)

text \<open>The fields of a credential that loading leaves alone.\<close>

definition persisted_health where
  "persisted_health c = (kc_disabled c, kc_disabled_reason c, kc_self_heal_consecutive_rounds c,
     kc_self_heal_total_count c, kc_last_self_heal_at c, kc_self_heal_model c)"

definition entry_health where
  "entry_health e = (ce_id e, ce_disabled e, ce_disabled_reason e,
     ce_self_heal_consecutive_rounds e, ce_self_heal_total_count e, ce_last_self_heal_at e,
     ce_self_heal_model e)"

lemma load_entries_Cons:
  "\<exists>i c' next' changed' es next'' changed''.
     load_entries env gen n ch (c # cs) = (fresh_entry env i c' # es, next'', changed'') \<and>
     load_entries env gen next' changed' cs = (es, next'', changed'') \<and>
     kc_id c' = Some i \<and> persisted_health c' = persisted_health c \<and>
     (case kc_id c of Some j \<Rightarrow> i = j \<and> next' = n | None \<Rightarrow> i = n \<and> next' = n + 1)"
proof -
  define c1 where "c1 = canonicalize_auth_method c"
  obtain i n1 ch1 c2 where t1: "(case kc_id c1 of Some i \<Rightarrow> (i, n, ch, c1)
      | None \<Rightarrow> (n, n + 1, True, c1\<lparr>kc_id := Some n\<rparr>)) = (i, n1, ch1, c2)"
    by (metis prod_cases4)
  obtain f c3 where t2: "fill_default_profile_arn c2 = (f, c3)" by fastforce
  obtain ch3 c4 where t3: "(if kc_machine_id c3 = None
      then (True, c3\<lparr>kc_machine_id := Some (gen c3)\<rparr>) else (ch1 \<or> f, c3)) = (ch3, c4)" by fastforce
  obtain es n5 ch5 where t4: "load_entries env gen n1 ch3 cs = (es, n5, ch5)" by (metis prod_cases3)
  have "kc_id c2 = Some i" "persisted_health c2 = persisted_health c"
    "case kc_id c of Some j \<Rightarrow> i = j \<and> n1 = n | None \<Rightarrow> i = n \<and> n1 = n + 1"
    using t1 by (auto simp: c1_def persisted_health_def split: option.splits)
  moreover have "kc_id c4 = kc_id c2" "persisted_health c4 = persisted_health c2"
    using t2 t3 by (auto simp: fill_default_profile_arn_def persisted_health_def split: if_splits)
  moreover have "load_entries env gen n ch (c # cs) = (fresh_entry env i c4 # es, n5, ch5)"
    by (simp only: load_entries.simps Let_def c1_def [symmetric] t1 t2 t3 t4 prod.case)
  ultimately show ?thesis
    using t4 by (intro exI [of _ i] exI [of _ c4] exI [of _ n1] exI [of _ ch3] exI [of _ es]
        exI [of _ n5] exI [of _ ch5]) simp
qed

declare load_entries.simps(2) [simp del]

lemma fresh_entry_health:
  "persisted_health c = persisted_health c' \<Longrightarrow> entry_health (fresh_entry env i c) = entry_health (fresh_entry env i c')"
  by (simp add: entry_health_def fresh_entry_def persisted_health_def)

lemma reason_roundtrip: "reason_from_str (reason_as_str r) = Some r"
  by (cases r) (simp_all add: reason_from_str_def)

lemma snapshot_health:
  assumes "entry_ok e" "\<And>t. ce_last_self_heal_at e = Some t \<Longrightarrow> parse_rfc3339 env (to_rfc3339 env t) = Some t"
  shows "entry_health (fresh_entry env (ce_id e) (credentials_snapshot env e)) = entry_health e"
  using assms
  by (cases "ce_disabled_reason e"; cases "ce_last_self_heal_at e")
    (auto simp: entry_health_def fresh_entry_def credentials_snapshot_def entry_ok_def reason_roundtrip)

lemma load_entries_snapshot:
  assumes "\<forall>e \<in> set es. entry_ok e \<and>
      (\<forall>t. ce_last_self_heal_at e = Some t \<longrightarrow> parse_rfc3339 env (to_rfc3339 env t) = Some t)"
  shows "map entry_health (fst (load_entries env gen n ch (map (credentials_snapshot env) es)))
     = map entry_health es"
  using assms
proof (induction es arbitrary: n ch)
  case (Cons e es)
  obtain i c' n' ch' es' n'' ch'' where l:
    "load_entries env gen n ch (credentials_snapshot env e # map (credentials_snapshot env) es)
       = (fresh_entry env i c' # es', n'', ch'')"
    "load_entries env gen n' ch' (map (credentials_snapshot env) es) = (es', n'', ch'')"
    "persisted_health c' = persisted_health (credentials_snapshot env e)"
    "case kc_id (credentials_snapshot env e) of Some j \<Rightarrow> i = j \<and> n' = n | None \<Rightarrow> i = n \<and> n' = n + 1"
    using load_entries_Cons [of env gen n ch "credentials_snapshot env e"
        "map (credentials_snapshot env) es"] by blast
  then have "i = ce_id e" by (simp add: credentials_snapshot_def)
  then have "entry_health (fresh_entry env i c') = entry_health e"
    using fresh_entry_health [OF l(3), of env i] snapshot_health [of e env] Cons.prems by simp
  with Cons l show ?case by (metis (no_types, lifting) fst_conv list.set_intros(2) list.simps(9))
qed simp

text \<open>A restart forgets nothing that keeps a credential out of service: what \<open>persist_credentials\<close>
  wrote is read back with the same ids, the same disabled flags and reasons, and the same
  self-healing rounds, counts, times and models.\<close>

lemma restart_keeps_health:
  assumes "persist_credentials env m = (Inr True, m')"
    and "\<forall>e \<in> set (m_entries m). entry_ok e \<and>
      (\<forall>t. ce_last_self_heal_at e = Some t \<longrightarrow> parse_rfc3339 env (to_rfc3339 env t) = Some t)"
  shows "\<exists>creds. m_credentials_file m' = Some (Multiple creds) \<and>
     map entry_health (fst (load_entries env gen n False creds)) = map entry_health (m_entries m)"
  using assms load_entries_snapshot [of "m_entries m" env gen n False]
  by (auto simp: persist_credentials_def split: if_splits)

lemma duplicate_ids_distinct:
  "duplicate_ids seen is = [] \<longleftrightarrow> distinct is \<and> set is \<inter> set seen = {}"
  by (induction seen "is" rule: duplicate_ids.induct) auto

lemma load_entries_ok:
  "load_entries env gen n ch cs = (es, n', ch') \<Longrightarrow> e \<in> set es \<Longrightarrow> entry_ok e"
proof (induction cs arbitrary: n ch es n' ch')
  case (Cons c cs)
  obtain i c' n1 ch1 es1 n2 ch2 where l:
    "load_entries env gen n ch (c # cs) = (fresh_entry env i c' # es1, n2, ch2)"
    "load_entries env gen n1 ch1 cs = (es1, n2, ch2)" "kc_id c' = Some i"
    using load_entries_Cons [of env gen n ch c cs] by blast
  have "entry_ok (fresh_entry env i c')"
    using l(3) by (auto simp: entry_ok_def fresh_entry_def split: option.split)
  with Cons l show ?case by auto
qed simp

lemma load_entries_below:
  assumes "load_entries env gen n ch cs = (es, n', ch')"
    and "\<And>i. i \<in> set (List.map_filter kc_id cs) \<Longrightarrow> unat i < unat n"
    and "unat n + length cs < 2 ^ 64"
  shows "unat n \<le> unat n' \<and> (\<forall>e \<in> set es. unat (ce_id e) < unat n')"
  using assms
proof (induction cs arbitrary: n ch es n' ch')
  case (Cons c cs)
  obtain i c' n1 ch1 es1 n2 ch2 where l:
    "load_entries env gen n ch (c # cs) = (fresh_entry env i c' # es1, n2, ch2)"
    "load_entries env gen n1 ch1 cs = (es1, n2, ch2)"
    "case kc_id c of Some j \<Rightarrow> i = j \<and> n1 = n | None \<Rightarrow> i = n \<and> n1 = n + 1"
    using load_entries_Cons [of env gen n ch c cs] by blast
  have below: "unat i < unat n" if "i \<in> set (List.map_filter kc_id cs)" for i
    using Cons.prems(2) [of i] that by (auto simp: map_filter_simps split: option.splits)
  have one: "unat (n + 1) = unat n + 1"
    using Cons.prems(3) by (simp add: unat_word_ariths)
  have n1: "unat n \<le> unat n1" "unat i < unat n1" "unat n1 + length cs < 2 ^ 64"
    using l(3) Cons.prems(2) [of i] Cons.prems(3) one
    by (auto simp: map_filter_simps split: option.splits)
  have "unat n1 \<le> unat n2 \<and> (\<forall>e \<in> set es1. unat (ce_id e) < unat n2)"
    by (rule Cons.IH [OF l(2)]) (use below n1 in \<open>auto intro: less_le_trans\<close>)
  then show ?case
    using Cons.prems(1) l(1) n1 by (auto simp: fresh_entry_def)
qed simp

definition pool_ok :: "manager \<Rightarrow> bool" where
  "pool_ok m \<longleftrightarrow> distinct_ids m \<and>
     (\<forall>e \<in> set (m_entries m). entry_ok e \<and> unat (ce_id e) < unat (m_next_id m))"

lemma persist_entries [simp]:
  "m_entries (snd (persist_credentials env m)) = m_entries m"
  "m_next_id (snd (persist_credentials env m)) = m_next_id m"
  by (simp_all add: persist_credentials_def)

lemma restore_stats [simp]:
  "ce_id (restore_stats st e) = ce_id e"
  "entry_ok (restore_stats st e) = entry_ok e"
  by (simp_all add: restore_stats_def entry_ok_def split: option.split)

lemma load_stats_entries:
  "m_next_id (load_stats env m) = m_next_id m"
  "map ce_id (m_entries (load_stats env m)) = map ce_id (m_entries m)"
  "(\<forall>e \<in> set (m_entries (load_stats env m)). entry_ok e) = (\<forall>e \<in> set (m_entries m). entry_ok e)"
  by (simp_all add: load_stats_def comp_def split: option.splits)

lemma check_api_key_config [simp]:
  "ce_id (check_api_key_config e) = ce_id e"
  "entry_ok e \<Longrightarrow> entry_ok (check_api_key_config e)"
  by (auto simp: check_api_key_config_def entry_ok_def)

lemma max_by_key_id_ge: "i \<in> set is \<Longrightarrow> \<exists>x. max_by_key id is = Some x \<and> i \<le> x"
  using max_by_key_Some [of id "is"] by (cases "max_by_key id is") auto

text \<open>A manager that is built has no two credentials with the same id, knows the reason of every
  disabled credential, and will hand out ids above all existing ones (while ids last).\<close>

lemma new_manager_ok:
  assumes "new_manager env gen_machine_id reserved cfg creds proxy has_path multi file stats_file = Inr m"
    and "\<forall>i \<in> set (List.map_filter kc_id creds). unat i + length creds + 1 < 2 ^ 64"
    and "\<forall>i. reserved = Some i \<longrightarrow> unat i + length creds + 1 < 2 ^ 64"
    and "length creds + 1 < 2 ^ 64"
  shows "pool_ok m"
proof -
  define top where "top = (case max_by_key id (List.map_filter kc_id creds) of Some i \<Rightarrow> i | None \<Rightarrow> 0)"
  from assms(1) obtain r where r: "(if has_path then reserved else Some 0) = Some r"
    by (auto simp: new_manager_def Let_def split: option.splits)
  define highest where "highest = max top r"
  obtain es n ch where l: "load_entries env gen_machine_id (highest + 1) False creds = (es, n, ch)"
    by (metis prod_cases3)
  define es' where "es' = map check_api_key_config es"
  define m1 where "m1 = initial_manager cfg es' n proxy has_path multi file stats_file"
  define m2 where "m2 = (if \<not> multi \<and> es' \<noteq> [] \<and> has_path
      then snd (persist_credentials env (m1\<lparr>m_is_multiple_format := True\<rparr>)) else m1)"
  define m3 where "m3 = (if ch then snd (persist_credentials env m2) else m2)"
  have "new_manager env gen_machine_id reserved cfg creds proxy has_path multi file stats_file =
      (if highest = - 1 then Inl IdsExhausted
       else if duplicate_ids [] (map ce_id es') \<noteq> [] then Inl (DuplicateIds (duplicate_ids [] (map ce_id es')))
       else Inr (load_stats env m3))"
    by (simp only: new_manager_def Let_def r option.case prod.case l top_def [symmetric]
        highest_def [symmetric] es'_def [symmetric] m1_def [symmetric] m2_def [symmetric] m3_def [symmetric])
  with assms(1) have dups: "duplicate_ids [] (map ce_id es') = []" and "m = load_stats env m3"
    by (simp_all split: if_splits)
  moreover have "m_entries m3 = es'" "m_next_id m3 = n"
    by (simp_all add: m3_def m2_def m1_def initial_manager_def)
  ultimately have m: "m_next_id m = n" "map ce_id (m_entries m) = map ce_id es'"
    "(\<forall>e \<in> set (m_entries m). entry_ok e) = (\<forall>e \<in> set es'. entry_ok e)"
    by (simp_all add: load_stats_entries)
  have top: "unat top + length creds + 1 < 2 ^ 64"
    using assms(2,4) max_by_key_Some [of id "List.map_filter kc_id creds"]
    by (auto simp: top_def split: option.splits)
  have "unat r + length creds + 1 < 2 ^ 64"
    using r assms(3,4) by (auto split: if_splits)
  with top have high: "unat highest + length creds + 1 < 2 ^ 64"
    by (auto simp: highest_def max_def)
  then have one: "unat (highest + 1) = unat highest + 1"
    by (simp add: unat_word_ariths)
  have "unat i < unat (highest + 1)" if "i \<in> set (List.map_filter kc_id creds)" for i
  proof -
    from max_by_key_id_ge [OF that]
    obtain x where "max_by_key id (List.map_filter kc_id creds) = Some x" "i \<le> x" by blast
    then have "i \<le> top" by (simp add: top_def)
    then have "i \<le> highest" by (simp add: highest_def le_max_iff_disj)
    then show ?thesis by (simp add: one word_le_nat_alt)
  qed
  then have "\<forall>e \<in> set es. unat (ce_id e) < unat n"
    using load_entries_below [OF l] high one by simp
  then have "\<forall>i \<in> set (map ce_id es'). unat i < unat n" by (simp add: es'_def)
  moreover have "\<forall>e \<in> set es'. entry_ok e"
    using load_entries_ok [OF l] by (auto simp: es'_def)
  moreover have "\<forall>e \<in> set (m_entries m). ce_id e \<in> set (map ce_id es')"
    unfolding m(2) [symmetric] by simp
  ultimately show ?thesis
    using m dups by (auto simp: pool_ok_def distinct_ids_def duplicate_ids_distinct)
qed

section \<open>A small pool\<close>

text \<open>Two credentials, one of them disabled; the properties are applied to it. The clock's text form
  is a string of that many letters.\<close>

definition sample_env :: env where
  "sample_env = \<lparr>env_now = 0, env_utc = 0, env_write_ok = True, env_stats_ok = True,
     to_rfc3339 = (\<lambda>t. replicate (nat t) CHR ''t''), parse_rfc3339 = (\<lambda>s. Some (int (length s)))\<rparr>"

definition sample_config :: config where
  "sample_config = \<lparr>cf_load_balancing_mode = ''balanced'', cf_invert_priority = False,
     cf_session_affinity_enabled = True, cf_session_affinity_ttl_secs = 3600,
     cf_account_throttle_failover = True, cf_account_throttle_cooldown_secs = 60,
     cf_model_api_429_retry_enabled = False, cf_account_rpm_limit_enabled = True,
     cf_account_rpm_limit = 2, cf_suspended_detection_enabled = True,
     cf_suspended_ban_keywords = [], cf_self_heal_enabled = True,
     cf_self_heal_min_interval_secs = 30, cf_self_heal_max_consecutive_rounds = 3,
     cf_quota_reset_recovery_enabled = True, cf_proxy_auto_rotate_enabled = False,
     cf_proxy_direct_fallback_enabled = False, cf_model_cache_ttl_secs = 300\<rparr>"

definition sample_entries :: "entry list" where
  "sample_entries =
     [(fresh_entry sample_env 1 (default_credentials\<lparr>kc_id := Some 1, kc_load_factor := 2\<rparr>)),
      (fresh_entry sample_env 2 (default_credentials\<lparr>kc_id := Some 2, kc_load_factor := 1,
         kc_priority := 5, kc_disabled := True, kc_disabled_reason := Some ''TooManyFailures''\<rparr>))]"

definition sample_manager :: manager where
  "sample_manager = initial_manager sample_config sample_entries 3 None True True None None"

lemmas sample_defs = sample_manager_def sample_entries_def sample_config_def initial_manager_def
  fresh_entry_def default_credentials_def

theorem rpm_limit_respected_witness:
  "length (within 3 (admitted_requests sample_env 1 [0, 5, 7, 60000000000] sample_manager)) \<le> 2"
proof -
  obtain e where "find_entry 1 sample_manager = Some e" "ce_rpm_window e = []"
    by (auto simp: find_entry_def sample_defs)
  moreover have "m_account_rpm_limit_enabled sample_manager" "m_account_rpm_limit sample_manager = 2"
    by (simp_all add: sample_defs)
  ultimately show ?thesis
    using rpm_limit_respected [of 1 sample_manager e "[0, 5, 7, 60000000000]" 3 sample_env] by simp
qed

definition busy_manager :: manager where
  "busy_manager = update_entry 1 (\<lambda>e. e\<lparr>ce_rpm_window := [5, 7]\<rparr>) sample_manager"

theorem capacity_retry_after_exact_witness:
  "capacity_retry_after_secs busy_manager None None 10 = Some 60 \<and>
   has_available_for_request busy_manager None None (10 + 60 * nanos_per_sec)"
proof -
  have w: "\<forall>e \<in> set (m_entries busy_manager). sorted (ce_rpm_window e) \<and> length (ce_rpm_window e) < 2 ^ 32"
    by (simp add: busy_manager_def sample_defs)
  have c: "capacity_retry_after_secs busy_manager None None 10 = Some 60"
    by (simp add: busy_manager_def sample_defs capacity_retry_after_secs_def matches_request_def
        update_entry_def entry_remaining_def fresh_requests_def rpm_window_length_def group_matches_def
        from_secs_def RPM_WINDOW_SECS_def nanos_per_sec_def secs_ceil_def cached_model_support_def Let_def)
  with capacity_retry_after_exact [OF w, of None None 10] show ?thesis by blast
qed

theorem restart_keeps_health_witness:
  "\<exists>creds. m_credentials_file (snd (persist_credentials sample_env sample_manager)) = Some (Multiple creds) \<and>
     map entry_health (fst (load_entries sample_env (\<lambda>c. ''m'') 3 False creds))
       = map entry_health (m_entries sample_manager)"
proof -
  have "persist_credentials sample_env sample_manager
      = (Inr True, snd (persist_credentials sample_env sample_manager))"
    by (simp add: persist_credentials_def sample_defs sample_env_def)
  moreover have "\<forall>e \<in> set (m_entries sample_manager). entry_ok e \<and> ce_last_self_heal_at e = None"
    by (simp add: sample_defs entry_ok_def reason_from_str_def)
  ultimately show ?thesis
    by (intro restart_keeps_health) auto
qed

definition sample_creds :: "kiro_credentials list" where
  "sample_creds = [default_credentials, default_credentials\<lparr>kc_id := Some 4\<rparr>]"

definition sample_loaded :: "pool_error + manager" where
  "sample_loaded = new_manager sample_env (\<lambda>c. ''m'') (Some 6) sample_config sample_creds
     None True True None None"

theorem new_manager_ok_witness:
  "\<exists>m. sample_loaded = Inr m \<and> pool_ok m"
proof -
  have kc: "List.map_filter kc_id sample_creds = [4]"
    by (simp add: sample_creds_def map_filter_simps default_credentials_def)
  then have ids: "max_by_key id (List.map_filter kc_id sample_creds) = Some 4" by simp
  obtain es n ch where l: "load_entries sample_env (\<lambda>c. ''m'') 7 False sample_creds = (es, n, ch)"
    by (metis prod_cases3)
  then have es: "map ce_id es = [7, 4]"
    by (auto simp: load_entries.simps(2) sample_creds_def default_credentials_def
        canonicalize_auth_method_def fill_default_profile_arn_def is_api_key_credential_def
        method_is_def fresh_entry_def Let_def)
  have "map ce_id (map check_api_key_config es) = [7, 4]" using es by (simp add: comp_def)
  then have "duplicate_ids [] (map ce_id (map check_api_key_config es)) = []" by (simp only:) simp
  then obtain m where m: "sample_loaded = Inr m"
    using l unfolding sample_loaded_def new_manager_def ids Let_def
    by (simp add: max_def del: map_map)
  moreover from new_manager_ok [OF m [unfolded sample_loaded_def]] have "pool_ok m"
    by (simp add: kc) (simp add: sample_creds_def)
  ultimately show ?thesis by blast
qed

end
