(* ===== verification/SmoothWrr.thy ===== *)
theory SmoothWrr
  imports Main
begin

text \<open>
  Smooth weighted round robin, as a contract: in every step each candidate's current weight grows
  by its weight, a candidate with the largest result is picked, and the total weight is taken off
  the picked one. The locale states what a scheduler must do for this; its lemmas show what the
  clients of the scheduler get.
\<close>

locale smooth_wrr =
  fixes ids :: "'i set"
    and weight :: "'i \<Rightarrow> int"
    and times :: "'t set"
    and valid :: "'s \<Rightarrow> bool"
    and current :: "'s \<Rightarrow> 'i \<Rightarrow> int"
    and pick :: "'t \<Rightarrow> 's \<Rightarrow> 'i"
    and step :: "'t \<Rightarrow> 's \<Rightarrow> 's"
  assumes finite_ids: "finite ids"
    and weight_pos: "i \<in> ids \<Longrightarrow> 0 < weight i"
    and valid_step: "valid s \<Longrightarrow> t \<in> times \<Longrightarrow> valid (step t s)"
    and pick_in: "valid s \<Longrightarrow> t \<in> times \<Longrightarrow> pick t s \<in> ids"
    and pick_max: "valid s \<Longrightarrow> t \<in> times \<Longrightarrow> i \<in> ids \<Longrightarrow>
      current s i + weight i \<le> current s (pick t s) + weight (pick t s)"
    and current_step: "valid s \<Longrightarrow> t \<in> times \<Longrightarrow> i \<in> ids \<Longrightarrow>
      current (step t s) i = current s i + weight i - (if i = pick t s then \<Sum>j\<in>ids. weight j else 0)"
begin

definition total :: int where
  "total = (\<Sum>i\<in>ids. weight i)"

fun run :: "'t list \<Rightarrow> 's \<Rightarrow> 'i list \<times> 's" where
  "run [] s = ([], s)"
| "run (t # ts) s = (let (is, s') = run ts (step t s) in (pick t s # is, s'))"

lemma run_Cons [simp]:
  "fst (run (t # ts) s) = pick t s # fst (run ts (step t s))"
  "snd (run (t # ts) s) = snd (run ts (step t s))"
  by (simp_all add: Let_def split: prod.split)

declare run.simps(2) [simp del]

lemma sum_current_step:
  assumes "valid s" "t \<in> times"
  shows "(\<Sum>i\<in>ids. current (step t s) i) = (\<Sum>i\<in>ids. current s i)"
proof -
  have "(\<Sum>i\<in>ids. current (step t s) i)
      = (\<Sum>i\<in>ids. current s i + weight i - (if i = pick t s then total else 0))"
    by (rule sum.cong) (simp_all add: current_step [OF assms] total_def)
  also have "\<dots> = (\<Sum>i\<in>ids. current s i) + total - (\<Sum>i\<in>ids. if i = pick t s then total else 0)"
    by (simp add: sum.distrib sum_subtractf total_def)
  also have "(\<Sum>i\<in>ids. if i = pick t s then total else 0) = total"
    using pick_in [OF assms] finite_ids by simp
  finally show ?thesis by simp
qed

text \<open>Balance: the current weights sum to nothing and none is a full round behind.\<close>

definition balanced :: "'s \<Rightarrow> bool" where
  "balanced s \<longleftrightarrow> valid s \<and> (\<Sum>i\<in>ids. current s i) = 0 \<and> (\<forall>i \<in> ids. - total < current s i)"

lemma pick_positive:
  assumes "valid s" "t \<in> times" "(\<Sum>i\<in>ids. current s i) = 0"
  shows "0 < current s (pick t s) + weight (pick t s)"
proof (rule ccontr)
  assume n: "\<not> ?thesis"
  have "current s i + weight i \<le> 0" if "i \<in> ids" for i
    using pick_max [OF assms(1,2) that] n by linarith
  then have "(\<Sum>i\<in>ids. current s i + weight i) \<le> 0" by (rule sum_nonpos)
  then have "total \<le> 0" using assms(3) by (simp add: sum.distrib total_def)
  moreover have "0 < total"
    unfolding total_def using pick_in [OF assms(1,2)] finite_ids weight_pos by (intro sum_pos) auto
  ultimately show False by simp
qed

lemma balanced_step:
  assumes "balanced s" "t \<in> times"
  shows "balanced (step t s)"
proof -
  have v: "valid s" and z: "(\<Sum>i\<in>ids. current s i) = 0" and low: "\<forall>i \<in> ids. - total < current s i"
    using assms(1) by (auto simp: balanced_def)
  have "- total < current (step t s) i" if "i \<in> ids" for i
    using current_step [OF v assms(2) that] pick_positive [OF v assms(2) z] low that weight_pos [OF that]
    by (auto simp: total_def)
  then show ?thesis
    using v z assms(2) sum_current_step [OF v assms(2)] valid_step by (simp add: balanced_def)
qed

lemma run_balanced: "balanced s \<Longrightarrow> set ts \<subseteq> times \<Longrightarrow> balanced (snd (run ts s))"
  by (induction ts arbitrary: s) (auto simp: balanced_step)

lemma run_length [simp]: "length (fst (run ts s)) = length ts"
  by (induction ts arbitrary: s) auto

lemma run_current:
  "valid s \<Longrightarrow> set ts \<subseteq> times \<Longrightarrow> i \<in> ids \<Longrightarrow>
   current (snd (run ts s)) i
     = current s i + int (length ts) * weight i - total * int (count_list (fst (run ts s)) i)"
proof (induction ts arbitrary: s)
  case (Cons t ts)
  have t: "t \<in> times" "set ts \<subseteq> times" using Cons.prems(2) by auto
  have "current (snd (run ts (step t s))) i = current (step t s) i + int (length ts) * weight i
      - total * int (count_list (fst (run ts (step t s))) i)"
    by (rule Cons.IH [OF valid_step [OF Cons.prems(1) t(1)] t(2) Cons.prems(3)])
  moreover have "current (step t s) i = current s i + weight i - (if i = pick t s then total else 0)"
    using current_step [OF Cons.prems(1) t(1) Cons.prems(3)] by (simp add: total_def)
  ultimately show ?case by (auto simp: algebra_simps)
qed simp

lemma run_picks: "valid s \<Longrightarrow> set ts \<subseteq> times \<Longrightarrow> set (fst (run ts s)) \<subseteq> ids"
proof (induction ts arbitrary: s)
  case (Cons t ts)
  then show ?case using pick_in [of s t] valid_step [of s t] by auto
qed simp

text \<open>At any moment a candidate has been picked at most its fair share, rounded up.\<close>

lemma share_bound:
  assumes "valid s" "\<forall>i \<in> ids. current s i = 0" "set ts \<subseteq> times" "i \<in> ids"
  shows "total * int (count_list (fst (run ts s)) i) < int (length ts) * weight i + total"
proof -
  have pos: "0 < total"
    unfolding total_def using assms(4) finite_ids weight_pos by (intro sum_pos) auto
  have "balanced s" using assms(1,2) pos by (simp add: balanced_def)
  from run_balanced [OF this assms(3)] assms(4) have "- total < current (snd (run ts s)) i"
    by (simp add: balanced_def)
  then show ?thesis using run_current [OF assms(1,3,4)] assms(2,4) by simp
qed

lemma sum_count_list: "finite A \<Longrightarrow> set xs \<subseteq> A \<Longrightarrow> (\<Sum>a\<in>A. count_list xs a) = length xs"
proof (induction xs)
  case (Cons x xs)
  then have "(\<Sum>a\<in>A. count_list (x # xs) a) = (\<Sum>a\<in>A. (if a = x then 1 else 0) + count_list xs a)"
    by (intro sum.cong) auto
  with Cons show ?case by (simp add: sum.distrib)
qed simp

text \<open>Over one full round every candidate is picked exactly as often as its weight says, and the
  current weights are back where they started.\<close>

lemma full_round:
  assumes "valid s" "\<forall>i \<in> ids. current s i = 0" "set ts \<subseteq> times" "int (length ts) = total" "i \<in> ids"
  shows "int (count_list (fst (run ts s)) i) = weight i" and "current (snd (run ts s)) i = 0"
proof -
  let ?n = "\<lambda>j. int (count_list (fst (run ts s)) j)"
  have pos: "0 < total"
    unfolding total_def using assms(5) finite_ids weight_pos by (intro sum_pos) auto
  have le: "?n j \<le> weight j" if "j \<in> ids" for j
  proof -
    have "total * ?n j < total * (weight j + 1)"
      using share_bound [OF assms(1-3) that] assms(4) by (simp add: algebra_simps)
    then show ?thesis using pos by (simp add: mult_less_cancel_left)
  qed
  have "(\<Sum>j\<in>ids. ?n j) = int (length ts)"
    using sum_count_list [OF finite_ids run_picks [OF assms(1,3)]] by (simp flip: of_nat_sum)
  then have "(\<Sum>j\<in>ids. weight j - ?n j) = 0"
    using assms(4) by (simp add: sum_subtractf total_def)
  then have "weight i - ?n i = 0"
    using sum_nonneg_eq_0_iff [OF finite_ids, of "\<lambda>j. weight j - ?n j"] le assms(5) by simp
  then show eq: "?n i = weight i" by simp
  then show "current (snd (run ts s)) i = 0"
    using run_current [OF assms(1,3,5)] assms(2,4,5) by simp
qed

end

end
