(* ===== verification/Scheduler.thy ===== *)
theory Scheduler
  imports CredentialPool SmoothWrr
begin

text \<open>
  Choosing the credential of a request (\<open>select_next_credential_impl\<close>, \<open>sticky_candidate\<close> and the
  in-flight guards of \<open>src/kiro/token_manager.rs\<close>): the balanced mode is smooth weighted round
  robin among the least loaded candidates, every other mode is strict priority. The
  \<open>i64\<close> weights are integers here; \<open>swrr_fair\<close> and the bound of \<open>SmoothWrr\<close> keep them
  within one total weight of zero.
\<close>

section \<open>In-flight guards\<close>

text \<open>\<open>InFlightGuard::new\<close> and its \<open>Drop\<close>, for the counter of one entry.\<close>

definition claim_in_flight :: "entry \<Rightarrow> entry" where
  "claim_in_flight e = e\<lparr>ce_in_flight := ce_in_flight e + 1\<rparr>"

definition release_in_flight :: "entry \<Rightarrow> entry" where
  "release_in_flight e = e\<lparr>ce_in_flight := ce_in_flight e - 1\<rparr>"

definition get_in_flight :: "u64 \<Rightarrow> manager \<Rightarrow> u32" where
  "get_in_flight i m = (case find_entry i m of Some e \<Rightarrow> ce_in_flight e | None \<Rightarrow> 0)"

definition acquire_in_flight_guard :: "u64 \<Rightarrow> manager \<Rightarrow> bool \<times> manager" where
  "acquire_in_flight_guard i m =
     (case find_entry i m of
        None \<Rightarrow> (False, m)
      | Some _ \<Rightarrow> (True, update_entry i claim_in_flight m))"

section \<open>Selection\<close>

definition load_weight :: "entry \<Rightarrow> int" where
  "load_weight e = uint (effective_load_factor (ce_credentials e))"

text \<open>The indices of the eligible entries, and of those with the fewest requests in flight.\<close>

definition eligible_indices ::
  "manager \<Rightarrow> string option \<Rightarrow> string option \<Rightarrow> instant \<Rightarrow> nat list" where
  "eligible_indices m model grp now =
     filter (\<lambda>i. entry_available_for_request m model grp now (m_entries m ! i))
       [0..<length (m_entries m)]"

definition least_loaded :: "entry list \<Rightarrow> nat list \<Rightarrow> nat list" where
  "least_loaded es is =
     (case min_by_key id (map (\<lambda>i. ce_in_flight (es ! i)) is) of
        None \<Rightarrow> []
      | Some least \<Rightarrow> filter (\<lambda>i. ce_in_flight (es ! i) = least) is)"

definition add_weight :: "entry \<Rightarrow> entry" where
  "add_weight e = e\<lparr>ce_current_weight := ce_current_weight e + load_weight e\<rparr>"

definition step_weights :: "nat list \<Rightarrow> entry list \<Rightarrow> entry list" where
  "step_weights is es = foldl (\<lambda>es i. es[i := add_weight (es ! i)]) es is"

definition swrr_key ::
  "manager \<Rightarrow> string option \<Rightarrow> bool \<Rightarrow> bool \<Rightarrow> entry \<Rightarrow> int \<times> nat reverse \<times> u32 reverse \<times> u64 reverse" where
  "swrr_key m model invert update e =
     (if update then ce_current_weight e else ce_current_weight e + load_weight e,
      Reverse (if cached_model_support m (ce_id e) model \<noteq> Confirmed then 1 else 0),
      Reverse (priority_key (kc_priority (ce_credentials e)) invert),
      Reverse (ce_id e))"

type_synonym selection = "u64 \<times> kiro_credentials \<times> bool"

definition select_balanced ::
  "env \<Rightarrow> string option \<Rightarrow> string option \<Rightarrow> bool \<Rightarrow> bool \<Rightarrow> bool \<Rightarrow> manager \<Rightarrow>
   selection option \<times> manager"
where
  "select_balanced env model grp invert update claim m =
     (let es = m_entries m;
          cands = least_loaded es (eligible_indices m model grp (env_now env));
          total_weight = sum_list (map (\<lambda>i. load_weight (es ! i)) cands);
          es1 = (if update then step_weights cands es else es) in
      case max_by_key (\<lambda>i. swrr_key m model invert update (es1 ! i)) cands of
        None \<Rightarrow> (None, m)
      | Some best \<Rightarrow>
          let es2 = (if update
                then es1[best := (es1 ! best)\<lparr>ce_current_weight :=
                       ce_current_weight (es1 ! best) - total_weight\<rparr>]
                else es1);
              es3 = (if claim then es2[best := claim_in_flight (es2 ! best)] else es2) in
          (Some (ce_id (es2 ! best), ce_credentials (es2 ! best), claim), m\<lparr>m_entries := es3\<rparr>))"

definition select_priority ::
  "env \<Rightarrow> string option \<Rightarrow> string option \<Rightarrow> bool \<Rightarrow> bool \<Rightarrow> manager \<Rightarrow> selection option \<times> manager"
where
  "select_priority env model grp invert claim m =
     (case best_entry invert (entry_available_for_request m model grp (env_now env)) (m_entries m) of
        None \<Rightarrow> (None, m)
      | Some e \<Rightarrow>
          (Some (ce_id e, ce_credentials e, claim),
           if claim then update_entry (ce_id e) claim_in_flight m else m))"

definition select_next_credential_impl ::
  "env \<Rightarrow> string option \<Rightarrow> string option \<Rightarrow> bool \<Rightarrow> bool \<Rightarrow> manager \<Rightarrow> selection option \<times> manager"
where
  "select_next_credential_impl env model grp update claim m =
     (let (mode, invert) = resolve_load_balancing_for_group m grp in
      if mode = ''balanced'' then select_balanced env model grp invert update claim m
      else select_priority env model grp invert claim m)"

section \<open>Sticky sessions\<close>

definition sticky_candidate ::
  "env \<Rightarrow> string option \<Rightarrow> string option \<Rightarrow> string option \<Rightarrow> manager \<Rightarrow>
   ((u64 \<times> kiro_credentials) option \<times> route_decision) \<times> manager"
where
  "sticky_candidate env session model grp m =
     (case session of
        None \<Rightarrow> ((None, no_route), m)
      | Some s \<Rightarrow>
          if \<not> enabled (m_session_affinity m) then ((None, no_route), m)
          else
            let (bound, table) = lookup (env_now env) s (m_session_affinity m);
                m = m\<lparr>m_session_affinity := table\<rparr> in
            case bound of
              None \<Rightarrow>
                ((None, \<lparr>sticky_outcome = MissFirst, previous_credential_id = None\<rparr>), m)
            | Some bound_id \<Rightarrow>
                let pick = (case find_entry bound_id m of
                      Some e \<Rightarrow>
                        if entry_available_for_request m model grp (env_now env) e
                        then Some (ce_id e, ce_credentials e) else None
                    | None \<Rightarrow> None) in
                ((pick, \<lparr>sticky_outcome = if pick \<noteq> None then Hit else MissUnavailable,
                         previous_credential_id = Some bound_id\<rparr>), m))"

definition manager_bind_session :: "env \<Rightarrow> string \<Rightarrow> u64 \<Rightarrow> manager \<Rightarrow> manager" where
  "manager_bind_session env session i m =
     m\<lparr>m_session_affinity := bind_session (env_now env) session i (m_session_affinity m)\<rparr>"

definition record_route :: "route_decision \<Rightarrow> manager \<Rightarrow> manager" where
  "record_route route m =
     m\<lparr>m_session_affinity := record_outcome (sticky_outcome route) (m_session_affinity m)\<rparr>"

section \<open>What selection does\<close>

lemma length_step_weights [simp]: "length (step_weights is es) = length es"
  unfolding step_weights_def by (induction "is" arbitrary: es) auto

lemma step_weights_nth:
  "distinct is \<Longrightarrow> j < length es \<Longrightarrow>
   step_weights is es ! j = (if j \<in> set is then add_weight (es ! j) else es ! j)"
  unfolding step_weights_def
proof (induction "is" arbitrary: es)
  case (Cons i "is")
  then show ?case by (cases "j = i") auto
qed simp

lemma eligible_indices_set:
  "i \<in> set (eligible_indices m model grp now) \<longleftrightarrow>
   i < length (m_entries m) \<and> entry_available_for_request m model grp now (m_entries m ! i)"
  by (auto simp: eligible_indices_def)

lemma eligible_distinct: "distinct (eligible_indices m model grp now)"
  by (simp add: eligible_indices_def)

lemma least_loaded_subset: "set (least_loaded es is) \<subseteq> set is"
  by (auto simp: least_loaded_def split: option.split)

lemma least_loaded_distinct: "distinct is \<Longrightarrow> distinct (least_loaded es is)"
  by (simp add: least_loaded_def split: option.split)

lemma least_loaded_Nil: "least_loaded es is = [] \<longleftrightarrow> is = []"
proof (cases "min_by_key id (map (\<lambda>i. ce_in_flight (es ! i)) is)")
  case None
  then show ?thesis by (simp add: least_loaded_def)
next
  case (Some x)
  then have "x \<in> set (map (\<lambda>i. ce_in_flight (es ! i)) is)" by (rule min_by_key_in)
  with Some show ?thesis by (auto simp: least_loaded_def filter_empty_conv)
qed

lemma least_loaded_least:
  "i \<in> set (least_loaded es is) \<Longrightarrow> j \<in> set is \<Longrightarrow> ce_in_flight (es ! i) \<le> ce_in_flight (es ! j)"
  using min_by_key_Some [of id "map (\<lambda>i. ce_in_flight (es ! i)) is"]
  by (auto simp: least_loaded_def split: option.splits)

lemma max_by_key_ex: "xs \<noteq> [] \<Longrightarrow> \<exists>x. max_by_key k xs = Some x"
  by (metis max_by_key_None not_None_eq)

abbreviation balanced_candidates where
  "balanced_candidates env model grp m \<equiv>
     least_loaded (m_entries m) (eligible_indices m model grp (env_now env))"

lemma candidates_in:
  "i \<in> set (balanced_candidates env model grp m) \<Longrightarrow>
   i < length (m_entries m) \<and>
   entry_available_for_request m model grp (env_now env) (m_entries m ! i)"
  using least_loaded_subset eligible_indices_set by blast

lemma candidates_distinct [simp]: "distinct (balanced_candidates env model grp m)"
  by (simp add: least_loaded_distinct eligible_distinct)

lemma add_weight_simps [simp]:
  "ce_id (add_weight e) = ce_id e" "ce_credentials (add_weight e) = ce_credentials e"
  "ce_in_flight (add_weight e) = ce_in_flight e"
  "ce_current_weight (add_weight e) = ce_current_weight e + load_weight e"
  by (simp_all add: add_weight_def)

text \<open>The chosen entry of the balanced mode, with everything the step changed.\<close>

lemma select_balanced_Some:
  assumes "select_balanced env model grp invert True claim m = (Some (i, creds, g), m')"
  defines "cands \<equiv> balanced_candidates env model grp m"
  obtains b where "b \<in> set cands" "i = ce_id (m_entries m ! b)"
    "creds = ce_credentials (m_entries m ! b)" "g = claim"
    "\<forall>j \<in> set cands. swrr_key m model invert True (add_weight (m_entries m ! j))
       \<le> swrr_key m model invert True (add_weight (m_entries m ! b))"
    "m' = m\<lparr>m_entries := (step_weights cands (m_entries m))
       [b := (if claim then claim_in_flight else id)
         ((add_weight (m_entries m ! b))\<lparr>ce_current_weight := ce_current_weight (add_weight (m_entries m ! b))
            - sum_list (map (\<lambda>i. load_weight (m_entries m ! i)) cands)\<rparr>)]\<rparr>"
proof -
  let ?es = "m_entries m" and ?es1 = "step_weights cands (m_entries m)"
  have d: "distinct cands" by (simp add: cands_def)
  have len: "j < length ?es" if "j \<in> set cands" for j
    using that candidates_in unfolding cands_def by blast
  have es1: "?es1 ! j = add_weight (?es ! j)" if "j \<in> set cands" for j
    using step_weights_nth [OF d len [OF that]] that by simp
  obtain b where b: "max_by_key (\<lambda>i. swrr_key m model invert True (?es1 ! i)) cands = Some b"
    using assms(1) by (auto simp: select_balanced_def cands_def [symmetric] Let_def split: option.splits)
  then have bin: "b \<in> set cands" by (rule max_by_key_in)
  moreover have "\<forall>j \<in> set cands. swrr_key m model invert True (add_weight (?es ! j))
      \<le> swrr_key m model invert True (add_weight (?es ! b))"
    using max_by_key_Some [OF b] es1 bin by simp
  ultimately show ?thesis
    using assms(1) b len [OF bin] es1 [OF bin]
    by (intro that) (auto simp: select_balanced_def cands_def [symmetric] Let_def split: if_splits)
qed

lemma select_balanced_empty:
  "fst (select_balanced env model grp invert update claim m) = None \<longleftrightarrow>
   balanced_candidates env model grp m = []"
  by (auto simp: select_balanced_def Let_def split: option.split)

lemma select_balanced_None:
  "fst (select_balanced env model grp invert update claim m) = None \<longleftrightarrow>
   \<not> has_available_for_request m model grp (env_now env)"
proof -
  have "eligible_indices m model grp (env_now env) = [] \<longleftrightarrow>
      \<not> has_available_for_request m model grp (env_now env)"
    by (auto simp: eligible_indices_def filter_empty_conv has_available_for_request_def set_conv_nth)
  then show ?thesis by (simp add: select_balanced_empty least_loaded_Nil)
qed

lemma select_priority_None:
  "fst (select_priority env model grp invert claim m) = None \<longleftrightarrow>
   \<not> has_available_for_request m model grp (env_now env)"
proof -
  have "fst (select_priority env model grp invert claim m) = None \<longleftrightarrow>
      filter (entry_available_for_request m model grp (env_now env)) (m_entries m) = []"
    by (auto simp: select_priority_def best_entry_def split: option.split)
  then show ?thesis by (auto simp: has_available_for_request_def filter_empty_conv)
qed

text \<open>C30: A credential is selected exactly when one is eligible, and the one selected is eligible:
  enabled, neither throttled nor over its request limit, in the group of the client key, and not
  known to lack the model. In the balanced mode no eligible credential has fewer requests in
  flight; in the other modes none comes earlier in the order of priority and id.\<close>

theorem select_next_spec:
  "(fst (select_next_credential_impl env model grp update claim m) = None \<longleftrightarrow>
     \<not> has_available_for_request m model grp (env_now env)) \<and>
   (\<forall>i creds g. fst (select_next_credential_impl env model grp True claim m) = Some (i, creds, g) \<longrightarrow>
     (\<exists>e \<in> set (m_entries m). ce_id e = i \<and> ce_credentials e = creds \<and>
       entry_available_for_request m model grp (env_now env) e \<and>
       (\<forall>e' \<in> set (m_entries m). entry_available_for_request m model grp (env_now env) e' \<longrightarrow>
         (if fst (resolve_load_balancing_for_group m grp) = ''balanced''
          then ce_in_flight e \<le> ce_in_flight e'
          else entry_key (snd (resolve_load_balancing_for_group m grp)) e
            \<le> entry_key (snd (resolve_load_balancing_for_group m grp)) e'))))"
  (is "?none \<and> ?some")
proof
  obtain mode invert where mode: "resolve_load_balancing_for_group m grp = (mode, invert)" by fastforce
  show ?none
    by (simp add: select_next_credential_impl_def mode select_balanced_None select_priority_None)
  show ?some
  proof (intro allI impI)
    fix i creds g
    assume sel: "fst (select_next_credential_impl env model grp True claim m) = Some (i, creds, g)"
    show "\<exists>e \<in> set (m_entries m). ce_id e = i \<and> ce_credentials e = creds \<and>
       entry_available_for_request m model grp (env_now env) e \<and>
       (\<forall>e' \<in> set (m_entries m). entry_available_for_request m model grp (env_now env) e' \<longrightarrow>
         (if fst (resolve_load_balancing_for_group m grp) = ''balanced''
          then ce_in_flight e \<le> ce_in_flight e'
          else entry_key (snd (resolve_load_balancing_for_group m grp)) e
            \<le> entry_key (snd (resolve_load_balancing_for_group m grp)) e'))"
    proof (cases "mode = ''balanced''")
      case True
      then obtain m' where "select_balanced env model grp invert True claim m = (Some (i, creds, g), m')"
        using sel by (auto simp: select_next_credential_impl_def mode prod_eq_iff)
      then obtain b where b: "b \<in> set (balanced_candidates env model grp m)"
        "i = ce_id (m_entries m ! b)" "creds = ce_credentials (m_entries m ! b)"
        by (rule select_balanced_Some) blast
      have "ce_in_flight (m_entries m ! b) \<le> ce_in_flight e'"
        if e': "e' \<in> set (m_entries m)" "entry_available_for_request m model grp (env_now env) e'" for e'
      proof -
        from e'(1) obtain j where "j < length (m_entries m)" "e' = m_entries m ! j"
          by (auto simp: in_set_conv_nth)
        with e'(2) b(1) least_loaded_least show ?thesis
          by (simp add: eligible_indices_set)
      qed
      with candidates_in [OF b(1)] b(2,3) True mode show ?thesis
        by (intro bexI [of _ "m_entries m ! b"]) auto
    next
      case False
      then obtain e where e: "best_entry invert (entry_available_for_request m model grp (env_now env))
          (m_entries m) = Some e" "i = ce_id e" "creds = ce_credentials e"
        using sel by (auto simp: select_next_credential_impl_def mode select_priority_def split: option.splits)
      from min_by_key_Some [OF e(1) [unfolded best_entry_def]] e(2,3) False mode show ?thesis
        by auto
    qed
  qed
qed

section \<open>Fairness of the balanced mode\<close>

text \<open>A request that is served before the next one comes: selected at time \<open>t\<close>, its guard dropped.\<close>

definition serve ::
  "env \<Rightarrow> string option \<Rightarrow> string option \<Rightarrow> instant \<Rightarrow> manager \<Rightarrow> u64 option \<times> manager" where
  "serve env model grp t m =
     (case select_next_credential_impl (env\<lparr>env_now := t\<rparr>) model grp True True m of
        (Some (i, _, _), m') \<Rightarrow> (Some i, update_entry i release_in_flight m')
      | (None, m') \<Rightarrow> (None, m'))"

fun serve_all ::
  "env \<Rightarrow> string option \<Rightarrow> string option \<Rightarrow> instant list \<Rightarrow> manager \<Rightarrow> u64 option list \<times> manager" where
  "serve_all env model grp [] m = ([], m)"
| "serve_all env model grp (t # ts) m =
     (let (i, m') = serve env model grp t m; (is, m'') = serve_all env model grp ts m' in (i # is, m''))"

text \<open>All of an entry but its current weight, and all of a manager but the current weights.\<close>

definition unweighted :: "entry \<Rightarrow> entry" where
  "unweighted e = e\<lparr>ce_current_weight := 0\<rparr>"

definition unweighted_manager :: "manager \<Rightarrow> manager" where
  "unweighted_manager m = m\<lparr>m_entries := map unweighted (m_entries m)\<rparr>"

definition current_weight_of :: "manager \<Rightarrow> u64 \<Rightarrow> int" where
  "current_weight_of m i = (case find_entry i m of Some e \<Rightarrow> ce_current_weight e | None \<Rightarrow> 0)"

definition load_weight_of :: "manager \<Rightarrow> u64 \<Rightarrow> int" where
  "load_weight_of m i = (case find_entry i m of Some e \<Rightarrow> load_weight e | None \<Rightarrow> 1)"

text \<open>The candidates do not change over the given times.\<close>

definition steady ::
  "env \<Rightarrow> string option \<Rightarrow> string option \<Rightarrow> instant \<Rightarrow> instant set \<Rightarrow> manager \<Rightarrow> bool" where
  "steady env model grp t0 T m \<longleftrightarrow>
     distinct_ids m \<and> fst (resolve_load_balancing_for_group m grp) = ''balanced'' \<and>
     eligible_indices m model grp t0 \<noteq> [] \<and>
     (\<forall>t \<in> T. eligible_indices m model grp t = eligible_indices m model grp t0)"

definition candidate_ids where
  "candidate_ids model grp t0 m =
     (\<lambda>j. ce_id (m_entries m ! j)) ` set (least_loaded (m_entries m) (eligible_indices m model grp t0))"

lemma unweighted_simps [simp]:
  "ce_id (unweighted e) = ce_id e" "ce_credentials (unweighted e) = ce_credentials e"
  "ce_in_flight (unweighted e) = ce_in_flight e" "ce_disabled (unweighted e) = ce_disabled e"
  "ce_throttled_until (unweighted e) = ce_throttled_until e"
  "ce_rpm_window (unweighted e) = ce_rpm_window e" "load_weight (unweighted e) = load_weight e"
  "unweighted (e\<lparr>ce_current_weight := w\<rparr>) = unweighted e"
  "unweighted (unweighted e) = unweighted e"
  by (simp_all add: unweighted_def load_weight_def)

lemma unweighted_manager_simps [simp]:
  "m_entries (unweighted_manager m) = map unweighted (m_entries m)"
  by (simp add: unweighted_manager_def)

lemma cached_model_support_unweighted [simp]:
  "cached_model_support (unweighted_manager m) = cached_model_support m"
  by (auto simp: fun_eq_iff cached_model_support_def unweighted_manager_def split: option.split)

lemma resolve_unweighted [simp]:
  "resolve_load_balancing_for_group (unweighted_manager m) grp = resolve_load_balancing_for_group m grp"
  by (auto simp: resolve_load_balancing_for_group_def unweighted_manager_def split: option.split prod.split)

lemma available_unweighted:
  "entry_available_for_request (unweighted_manager m) model grp t (unweighted e)
     = entry_available_for_request m model grp t e"
  by (simp add: entry_available_for_request_def throttled_def rpm_exceeded_def fresh_requests_def)
    (simp add: unweighted_manager_def)

lemma eligible_unweighted:
  "eligible_indices (unweighted_manager m) model grp t = eligible_indices m model grp t"
  by (auto simp: eligible_indices_def available_unweighted intro!: filter_cong)

lemma least_loaded_unweighted:
  "(\<forall>i \<in> set is. i < length es) \<Longrightarrow> least_loaded (map unweighted es) is = least_loaded es is"
proof -
  assume "\<forall>i \<in> set is. i < length es"
  then have "map (\<lambda>i. ce_in_flight (map unweighted es ! i)) is = map (\<lambda>i. ce_in_flight (es ! i)) is"
    and "\<And>x. filter (\<lambda>i. ce_in_flight (map unweighted es ! i) = x) is = filter (\<lambda>i. ce_in_flight (es ! i) = x) is"
    by (auto intro: filter_cong)
  then show ?thesis by (simp only: least_loaded_def)
qed

lemma steady_unweighted: "steady env model grp t0 T (unweighted_manager m) = steady env model grp t0 T m"
  by (simp add: steady_def eligible_unweighted distinct_ids_def comp_def)

lemma candidate_ids_unweighted: "candidate_ids model grp t0 (unweighted_manager m) = candidate_ids model grp t0 m"
proof -
  have lt: "j < length (m_entries m)" if "j \<in> set (least_loaded (m_entries m) (eligible_indices m model grp t0))" for j
    using that least_loaded_subset eligible_indices_set by blast
  have "least_loaded (map unweighted (m_entries m)) (eligible_indices m model grp t0)
      = least_loaded (m_entries m) (eligible_indices m model grp t0)"
    by (rule least_loaded_unweighted) (simp add: eligible_indices_set)
  then show ?thesis
    by (auto simp: candidate_ids_def eligible_unweighted lt intro!: image_cong)
qed

lemma load_weight_of_unweighted: "load_weight_of (unweighted_manager m) i = load_weight_of m i"
proof -
  have "List.find (\<lambda>e. ce_id e = i) (map unweighted es) = map_option unweighted (List.find (\<lambda>e. ce_id e = i) es)" for es
    by (induction es) auto
  then show ?thesis by (simp add: load_weight_of_def find_entry_def split: option.split)
qed

text \<open>With unique ids an entry is the one at its index.\<close>

lemma find_entry_nth:
  "distinct_ids m \<Longrightarrow> j < length (m_entries m) \<Longrightarrow> find_entry (ce_id (m_entries m ! j)) m = Some (m_entries m ! j)"
  by (rule find_entry_distinct) simp_all

lemma update_first_nth:
  "distinct (map ce_id es) \<Longrightarrow> j < length es \<Longrightarrow>
   update_first (\<lambda>e. ce_id e = ce_id (es ! j)) f es = es[j := f (es ! j)]"
proof (induction es arbitrary: j)
  case (Cons e es)
  show ?case
  proof (cases j)
    case (Suc k)
    with Cons.prems have "ce_id e \<noteq> ce_id (es ! k)" by (auto simp: image_iff)
    with Suc Cons show ?thesis by simp
  qed simp
qed simp

text \<open>One served request in a steady pool.\<close>

lemma serve_step:
  assumes "steady env model grp t0 T m" "t \<in> T"
  defines "cands \<equiv> least_loaded (m_entries m) (eligible_indices m model grp t0)"
  obtains b m' where "serve env model grp t m = (Some (ce_id (m_entries m ! b)), m')"
    "b \<in> set cands"
    "\<forall>j \<in> set cands. ce_current_weight (m_entries m ! j) + load_weight (m_entries m ! j)
       \<le> ce_current_weight (m_entries m ! b) + load_weight (m_entries m ! b)"
    "m' = m\<lparr>m_entries := m_entries m'\<rparr>" "length (m_entries m') = length (m_entries m)"
    "\<forall>j < length (m_entries m). m_entries m' ! j = (m_entries m ! j)\<lparr>ce_current_weight :=
       ce_current_weight (m_entries m ! j) + (if j \<in> set cands then load_weight (m_entries m ! j) else 0)
       - (if j = b then sum_list (map (\<lambda>i. load_weight (m_entries m ! i)) cands) else 0)\<rparr>"
proof -
  let ?es = "m_entries m" and ?env = "env\<lparr>env_now := t\<rparr>"
  obtain invert where mode: "resolve_load_balancing_for_group m grp = (''balanced'', invert)"
    using assms(1) by (metis steady_def prod.collapse)
  have cands: "balanced_candidates ?env model grp m = cands"
    using assms(1,2) by (simp add: cands_def steady_def)
  have dist: "distinct (map ce_id ?es)" using assms(1) by (simp add: steady_def distinct_ids_def)
  have "cands \<noteq> []" using assms(1) by (simp add: cands_def least_loaded_Nil steady_def)
  then obtain i creds g m1 where sel: "select_balanced ?env model grp invert True True m = (Some (i, creds, g), m1)"
    using select_balanced_empty [of ?env model grp invert True True m, unfolded cands]
    by (metis not_None_eq prod.collapse)
  from select_balanced_Some [OF this, unfolded cands]
  obtain b where b: "b \<in> set cands" "i = ce_id (?es ! b)"
    "\<forall>j \<in> set cands. swrr_key m model invert True (add_weight (?es ! j))
       \<le> swrr_key m model invert True (add_weight (?es ! b))"
    "m1 = m\<lparr>m_entries := (step_weights cands ?es)[b := claim_in_flight
         ((add_weight (?es ! b))\<lparr>ce_current_weight := ce_current_weight (add_weight (?es ! b))
            - sum_list (map (\<lambda>i. load_weight (?es ! i)) cands)\<rparr>)]\<rparr>"
    by auto
  have len: "j < length ?es" if "j \<in> set cands" for j
    using that least_loaded_subset eligible_indices_set unfolding cands_def by blast
  have d: "distinct cands" by (simp add: cands_def least_loaded_distinct eligible_distinct)
  define m' where "m' = update_entry i release_in_flight m1"
  let ?es1 = "m_entries m1"
  have es1: "length ?es1 = length ?es"
    "\<forall>j < length ?es. ?es1 ! j = (if j = b then claim_in_flight
         ((add_weight (?es ! b))\<lparr>ce_current_weight := ce_current_weight (add_weight (?es ! b))
            - sum_list (map (\<lambda>i. load_weight (?es ! i)) cands)\<rparr>)
       else if j \<in> set cands then add_weight (?es ! j) else ?es ! j)"
    using b(1,4) len step_weights_nth [OF d] by (auto simp: nth_list_update)
  have ids: "map ce_id ?es1 = map ce_id ?es"
    by (rule nth_equalityI) (use es1 in \<open>auto simp: claim_in_flight_def\<close>)
  have blt: "b < length ?es1" using len [OF b(1)] es1(1) by simp
  have "ce_id (?es1 ! b) = i"
    using arg_cong [OF ids, of "\<lambda>is. is ! b"] blt es1(1) b(2) by simp
  moreover have "distinct (map ce_id ?es1)" using dist ids by (simp only:)
  ultimately have "m_entries m' = ?es1[b := release_in_flight (?es1 ! b)]"
    using update_first_nth [of ?es1 b release_in_flight] blt unfolding m'_def by simp
  then have es': "length (m_entries m') = length ?es"
    "\<forall>j < length ?es. m_entries m' ! j = (?es ! j)\<lparr>ce_current_weight :=
       ce_current_weight (?es ! j) + (if j \<in> set cands then load_weight (?es ! j) else 0)
       - (if j = b then sum_list (map (\<lambda>i. load_weight (?es ! i)) cands) else 0)\<rparr>"
    using es1 b(1) len by (auto simp: nth_list_update claim_in_flight_def release_in_flight_def add_weight_def)
  show ?thesis
  proof (rule that [of b m'])
    show "serve env model grp t m = (Some (ce_id (?es ! b)), m')"
      using sel b(2) by (simp add: serve_def select_next_credential_impl_def mode m'_def)
    show "\<forall>j \<in> set cands. ce_current_weight (?es ! j) + load_weight (?es ! j)
       \<le> ce_current_weight (?es ! b) + load_weight (?es ! b)"
      using b(3) by (auto simp: swrr_key_def less_eq_prod_def)
    show "m' = m\<lparr>m_entries := m_entries m'\<rparr>"
      using b(4) by (simp add: m'_def update_entry_def)
  qed (use es' b(1) in auto)
qed

text \<open>The balanced mode keeps the contract of smooth weighted round robin.\<close>

definition same_pool ::
  "env \<Rightarrow> string option \<Rightarrow> string option \<Rightarrow> instant \<Rightarrow> instant set \<Rightarrow> manager \<Rightarrow> manager \<Rightarrow> bool" where
  "same_pool env model grp t0 T m0 m \<longleftrightarrow>
     steady env model grp t0 T m \<and> unweighted_manager m = unweighted_manager m0"

definition served_id :: "u64 option \<Rightarrow> u64" where
  "served_id r = (case r of Some i \<Rightarrow> i | None \<Rightarrow> 0)"

lemma served_id_Some [simp]: "served_id (Some i) = i"
  by (simp add: served_id_def)

lemma load_weight_pos: "0 < load_weight e"
proof -
  have "effective_load_factor (ce_credentials e) \<noteq> 0" by (simp add: effective_load_factor_def)
  then show ?thesis
    using uint_ge_0 [of "effective_load_factor (ce_credentials e)"]
    by (simp add: load_weight_def le_less uint_0_iff)
qed

lemma candidate_entry:
  assumes "steady env model grp t0 T m" "i \<in> candidate_ids model grp t0 m"
  obtains j where "j \<in> set (least_loaded (m_entries m) (eligible_indices m model grp t0))"
    "j < length (m_entries m)" "i = ce_id (m_entries m ! j)"
    "current_weight_of m i = ce_current_weight (m_entries m ! j)"
    "load_weight_of m i = load_weight (m_entries m ! j)"
proof -
  from assms(2) obtain j where j: "j \<in> set (least_loaded (m_entries m) (eligible_indices m model grp t0))"
    "i = ce_id (m_entries m ! j)" by (auto simp: candidate_ids_def)
  then have lt: "j < length (m_entries m)"
    using least_loaded_subset eligible_indices_set by blast
  with j assms(1) find_entry_nth [of m j] show ?thesis
    by (intro that [of j]) (simp_all add: steady_def current_weight_of_def load_weight_of_def)
qed

lemma sum_candidates:
  assumes "steady env model grp t0 T m"
  shows "(\<Sum>i \<in> candidate_ids model grp t0 m. load_weight_of m i)
     = sum_list (map (\<lambda>j. load_weight (m_entries m ! j))
         (least_loaded (m_entries m) (eligible_indices m model grp t0)))"
proof -
  let ?c = "least_loaded (m_entries m) (eligible_indices m model grp t0)"
  have lt: "j < length (m_entries m)" if "j \<in> set ?c" for j
    using that least_loaded_subset eligible_indices_set by blast
  have d: "distinct (map ce_id (m_entries m))" using assms by (simp add: steady_def distinct_ids_def)
  have "inj_on (\<lambda>j. ce_id (m_entries m ! j)) (set ?c)"
    using d lt by (auto simp: inj_on_def distinct_conv_nth)
  then have "(\<Sum>i \<in> candidate_ids model grp t0 m. load_weight_of m i)
      = (\<Sum>j \<in> set ?c. load_weight_of m (ce_id (m_entries m ! j)))"
    by (simp add: candidate_ids_def sum.reindex)
  also have "\<dots> = (\<Sum>j \<in> set ?c. load_weight (m_entries m ! j))"
    using find_entry_nth [of m] lt assms by (intro sum.cong) (simp_all add: load_weight_of_def steady_def)
  also have "\<dots> = sum_list (map (\<lambda>j. load_weight (m_entries m ! j)) ?c)"
    by (simp add: sum_list_distinct_conv_sum_set least_loaded_distinct eligible_distinct)
  finally show ?thesis .
qed

lemma same_poolD:
  assumes "same_pool env model grp t0 T m0 m"
  shows "steady env model grp t0 T m" "candidate_ids model grp t0 m0 = candidate_ids model grp t0 m"
    "load_weight_of m0 = load_weight_of m"
  using assms candidate_ids_unweighted [of model grp t0 m] candidate_ids_unweighted [of model grp t0 m0]
    load_weight_of_unweighted [of m] load_weight_of_unweighted [of m0]
  by (auto simp: same_pool_def fun_eq_iff)

lemma same_pool_step:
  assumes "same_pool env model grp t0 T m0 m" "t \<in> T"
  shows "same_pool env model grp t0 T m0 (snd (serve env model grp t m))"
proof -
  note st = same_poolD(1) [OF assms(1)]
  from serve_step [OF st assms(2)] obtain b m' where
    "serve env model grp t m = (Some (ce_id (m_entries m ! b)), m')"
    "m' = m\<lparr>m_entries := m_entries m'\<rparr>" "length (m_entries m') = length (m_entries m)"
    "\<forall>j < length (m_entries m). unweighted (m_entries m' ! j) = unweighted (m_entries m ! j)"
    by (metis unweighted_simps(8))
  moreover from this have "map unweighted (m_entries m') = map unweighted (m_entries m)"
    by (intro nth_equalityI) auto
  ultimately have "unweighted_manager m' = unweighted_manager m"
    by (simp add: unweighted_manager_def) (metis manager.update_convs(1) manager.surjective)
  then have "unweighted_manager m' = unweighted_manager m" .
  moreover then have "steady env model grp t0 T m'"
    using st steady_unweighted by metis
  ultimately show ?thesis
    using assms(1) \<open>serve env model grp t m = (Some (ce_id (m_entries m ! b)), m')\<close>
    by (simp add: same_pool_def)
qed

interpretation balanced_mode: smooth_wrr "candidate_ids model grp t0 m0" "load_weight_of m0" T
    "same_pool env model grp t0 T m0" current_weight_of
    "\<lambda>t m. served_id (fst (serve env model grp t m))" "\<lambda>t m. snd (serve env model grp t m)"
  for env model grp t0 T m0
proof unfold_locales
  show "finite (candidate_ids model grp t0 m0)" by (simp add: candidate_ids_def)
  show "0 < load_weight_of m0 i" for i
    by (simp add: load_weight_of_def load_weight_pos split: option.split)
  fix m t
  assume m: "same_pool env model grp t0 T m0 m" and t: "t \<in> T"
  then show "same_pool env model grp t0 T m0 (snd (serve env model grp t m))"
    by (rule same_pool_step)
  note eqs = same_poolD [OF m]
  let ?c = "least_loaded (m_entries m) (eligible_indices m model grp t0)"
  from serve_step [OF eqs(1) t] obtain b m' where s:
    "serve env model grp t m = (Some (ce_id (m_entries m ! b)), m')"
    "b \<in> set ?c"
    "\<forall>j \<in> set ?c. ce_current_weight (m_entries m ! j) + load_weight (m_entries m ! j)
       \<le> ce_current_weight (m_entries m ! b) + load_weight (m_entries m ! b)"
    "length (m_entries m') = length (m_entries m)"
    "\<forall>j < length (m_entries m). m_entries m' ! j = (m_entries m ! j)\<lparr>ce_current_weight :=
       ce_current_weight (m_entries m ! j) + (if j \<in> set ?c then load_weight (m_entries m ! j) else 0)
       - (if j = b then sum_list (map (\<lambda>i. load_weight (m_entries m ! i)) ?c) else 0)\<rparr>"
    by metis
  have pick: "served_id (fst (serve env model grp t m)) = ce_id (m_entries m ! b)"
    using s(1) by (simp add: served_id_def)
  show inids: "served_id (fst (serve env model grp t m)) \<in> candidate_ids model grp t0 m0"
    unfolding eqs(2) unfolding candidate_ids_def pick using s(2) by (rule imageI)
  have blt: "b < length (m_entries m)"
    using s(2) least_loaded_subset eligible_indices_set by blast
  have dist: "distinct (map ce_id (m_entries m))" using eqs(1) by (simp add: steady_def distinct_ids_def)
  have bw: "current_weight_of m (ce_id (m_entries m ! b)) = ce_current_weight (m_entries m ! b)"
    "load_weight_of m (ce_id (m_entries m ! b)) = load_weight (m_entries m ! b)"
    using find_entry_nth [OF _ blt] eqs(1) by (simp_all add: current_weight_of_def load_weight_of_def steady_def)
  fix i
  assume "i \<in> candidate_ids model grp t0 m0"
  then obtain j where j: "j \<in> set ?c" "j < length (m_entries m)" "i = ce_id (m_entries m ! j)"
    "current_weight_of m i = ce_current_weight (m_entries m ! j)"
    "load_weight_of m i = load_weight (m_entries m ! j)"
    using candidate_entry [OF eqs(1)] eqs(2) by metis
  show "current_weight_of m i + load_weight_of m0 i
      \<le> current_weight_of m (served_id (fst (serve env model grp t m)))
        + load_weight_of m0 (served_id (fst (serve env model grp t m)))"
    using s(3) j bw pick eqs(3) by simp
  have "map ce_id (m_entries m') = map ce_id (m_entries m)"
    by (rule nth_equalityI) (use s(4,5) in auto)
  then have "distinct_ids m'" using dist by (simp add: distinct_ids_def)
  moreover have "ce_id (m_entries m' ! j) = i" using s(5) j by simp
  ultimately have "current_weight_of m' i = ce_current_weight (m_entries m' ! j)"
    using find_entry_nth [of m' j] s(4) j(2) by (simp add: current_weight_of_def)
  moreover have "i = ce_id (m_entries m ! b) \<longleftrightarrow> j = b"
    using dist j(2,3) blt by (auto simp: distinct_conv_nth)
  ultimately show "current_weight_of (snd (serve env model grp t m)) i
      = current_weight_of m i + load_weight_of m0 i
        - (if i = served_id (fst (serve env model grp t m))
           then \<Sum>j \<in> candidate_ids model grp t0 m0. load_weight_of m0 j else 0)"
    using s j pick eqs(2,3) sum_candidates [OF eqs(1)] by simp
qed

lemma serve_all_run:
  "same_pool env model grp t0 T m0 m \<Longrightarrow> set ts \<subseteq> T \<Longrightarrow>
   serve_all env model grp ts m =
     (map Some (fst (balanced_mode.run env model grp ts m)), snd (balanced_mode.run env model grp ts m))"
proof (induction ts arbitrary: m)
  case (Cons t ts)
  then have t: "t \<in> T" by simp
  from serve_step [OF same_poolD(1) [OF Cons.prems(1)] t] obtain i m' where s: "serve env model grp t m = (Some i, m')"
    by metis
  have "same_pool env model grp t0 T m0 m'"
    using same_pool_step [OF Cons.prems(1) t] s by simp
  with Cons.IH [of m'] Cons.prems(2) s show ?case
    by (simp add: balanced_mode.run_Cons)
qed simp

text \<open>C31: In the balanced mode requests are spread by weight, exactly: as long as the same credentials
  stay eligible and least loaded, no prefix of the requests gives a credential more than its share
  of the load factors rounded up, and every round of as many requests as the load factors sum to
  gives each credential exactly its load factor and leaves the weights as they were.\<close>

theorem swrr_fair:
  assumes "steady env model grp t0 (set reqs) m"
    and "\<forall>i \<in> candidate_ids model grp t0 m. current_weight_of m i = 0"
    and "i \<in> candidate_ids model grp t0 m"
  defines "all_weights \<equiv> \<Sum>j \<in> candidate_ids model grp t0 m. load_weight_of m j"
  shows "all_weights * int (count_list (fst (serve_all env model grp reqs m)) (Some i))
      < int (length reqs) * load_weight_of m i + all_weights \<and>
    (int (length reqs) = all_weights \<longrightarrow>
      int (count_list (fst (serve_all env model grp reqs m)) (Some i)) = load_weight_of m i \<and>
      current_weight_of (snd (serve_all env model grp reqs m)) i = 0)"
proof -
  have v: "same_pool env model grp t0 (set reqs) m m" using assms(1) by (simp add: same_pool_def)
  note run = serve_all_run [OF v order_refl]
  have count: "count_list (map Some xs) (Some x) = count_list xs x" for xs :: "u64 list" and x
    by (induction xs) auto
  note share = balanced_mode.share_bound [OF v assms(2) order_refl assms(3)]
  note full = balanced_mode.full_round [OF v assms(2) order_refl _ assms(3)]
  show ?thesis
    using share full by (simp add: run count all_weights_def balanced_mode.total_def)
qed

text \<open>The small pool with both credentials enabled: load factors 2 and 1.\<close>

definition pair_manager :: manager where
  "pair_manager = update_entry 2 reset_health sample_manager"

lemma pair_manager:
  "eligible_indices pair_manager None None t = [0, 1]"
  "least_loaded (m_entries pair_manager) [0, 1] = [0, 1]"
  "resolve_load_balancing_for_group pair_manager None = (''balanced'', False)"
  "distinct_ids pair_manager"
  "map ce_id (m_entries pair_manager) = [1, 2]"
  "map load_weight (m_entries pair_manager) = [2, 1]"
  "map ce_current_weight (m_entries pair_manager) = [0, 0]"
  by (simp_all add: pair_manager_def sample_defs reset_health_def clear_self_heal_streak_def
      eligible_indices_def entry_available_for_request_def throttled_def rpm_exceeded_def
      fresh_requests_def group_matches_def cached_model_support_def least_loaded_def load_weight_def
      effective_load_factor_def resolve_load_balancing_for_group_def distinct_ids_def upt_rec)

lemma pair_find:
  "load_weight_of pair_manager 1 = 2" "load_weight_of pair_manager 2 = 1"
  "current_weight_of pair_manager 1 = 0" "current_weight_of pair_manager 2 = 0"
  by (simp_all add: pair_manager_def sample_defs reset_health_def clear_self_heal_streak_def
      load_weight_of_def current_weight_of_def find_entry_def load_weight_def effective_load_factor_def)

lemma pair_candidates: "candidate_ids None None t pair_manager = {1, 2}"
proof -
  have "ce_id (m_entries pair_manager ! 0) = 1" "ce_id (m_entries pair_manager ! 1) = 2"
    using arg_cong [OF pair_manager(5), of "\<lambda>is. is ! 0"] arg_cong [OF pair_manager(5), of "\<lambda>is. is ! 1"]
    by (simp_all add: pair_manager_def sample_defs)
  then show ?thesis by (simp only: candidate_ids_def pair_manager(1,2)) simp
qed

theorem swrr_fair_witness:
  "count_list (fst (serve_all sample_env None None [5, 6, 9] pair_manager)) (Some 1) = 2 \<and>
   count_list (fst (serve_all sample_env None None [5, 6, 9] pair_manager)) (Some 2) = 1"
proof -
  have "steady sample_env None None 0 (set [5, 6, 9]) pair_manager"
    by (simp add: steady_def pair_manager)
  then show ?thesis
    using swrr_fair [of sample_env None None 0 "[5, 6, 9]" pair_manager 1]
      swrr_fair [of sample_env None None 0 "[5, 6, 9]" pair_manager 2]
    by (simp add: pair_candidates pair_find)
qed

theorem select_next_spec_witness:
  "fst (select_next_credential_impl sample_env None (Some ''vip'') True True pair_manager) = None"
  using select_next_spec [of sample_env None "Some ''vip''" True True pair_manager]
  by (auto simp: has_available_for_request_def entry_available_for_request_def group_matches_def
      pair_manager_def sample_defs reset_health_def clear_self_heal_streak_def)

end
