(* ===== verification/FailureReports.thy ===== *)
theory FailureReports
  imports Scheduler
begin

text \<open>
  What the outcome of a call does to a credential (\<open>src/kiro/token_manager.rs\<close>): successes,
  failures and the threshold that disables, bans, exhausted quotas, failed token refreshes, the
  choice of the next current credential, and the controlled self-healing of credentials that were
  disabled for too many failures.
\<close>

section \<open>The current credential\<close>

text \<open>The entry that comes first in the order of priority among those that satisfy \<open>p\<close> becomes the
  current one; the result says whether there is any.\<close>

definition switch_current :: "(entry \<Rightarrow> bool) \<Rightarrow> manager \<Rightarrow> bool \<times> manager" where
  "switch_current p m =
     (case best_entry (m_invert_priority m) p (m_entries m) of
        Some next_entry \<Rightarrow> (True, m\<lparr>m_current_id := ce_id next_entry\<rparr>)
      | None \<Rightarrow> (False, m))"

definition select_highest_priority :: "manager \<Rightarrow> manager" where
  "select_highest_priority m =
     (case best_entry (m_invert_priority m) (\<lambda>e. \<not> ce_disabled e) (m_entries m) of
        Some best \<Rightarrow> if ce_id best \<noteq> m_current_id m then m\<lparr>m_current_id := ce_id best\<rparr> else m
      | None \<Rightarrow> m)"

definition switch_to_next :: "manager \<Rightarrow> bool \<times> manager" where
  "switch_to_next m =
     (case best_entry (m_invert_priority m) (\<lambda>e. \<not> ce_disabled e \<and> ce_id e \<noteq> m_current_id m)
          (m_entries m) of
        Some next_entry \<Rightarrow> (True, m\<lparr>m_current_id := ce_id next_entry\<rparr>)
      | None \<Rightarrow> (\<exists>e \<in> set (m_entries m). ce_id e = m_current_id m \<and> \<not> ce_disabled e, m))"

definition any_enabled :: "manager \<Rightarrow> bool" where
  "any_enabled m \<longleftrightarrow> (\<exists>e \<in> set (m_entries m). \<not> ce_disabled e)"

section \<open>Reports\<close>

definition mark_used :: "env \<Rightarrow> entry \<Rightarrow> entry" where
  "mark_used env e = e\<lparr>ce_last_used_at := Some (to_rfc3339 env (env_utc env))\<rparr>"

definition disable :: "disabled_reason \<Rightarrow> entry \<Rightarrow> entry" where
  "disable r e = e\<lparr>ce_disabled := True, ce_disabled_reason := Some r\<rparr>"

definition count_success :: "env \<Rightarrow> entry \<Rightarrow> entry" where
  "count_success env e =
     mark_used env (e\<lparr>ce_failure_count := 0, ce_refresh_failure_count := 0,
       ce_success_count := ce_success_count e + 1, ce_throttled_until := None\<rparr>)"

definition report_success_for_request :: "env \<Rightarrow> u64 \<Rightarrow> string option \<Rightarrow> manager \<Rightarrow> manager" where
  "report_success_for_request env i model m =
     (let requested = normalize_self_heal_model model;
          (reset, m) =
            (case find_entry i m of
               None \<Rightarrow> (False, m)
             | Some e \<Rightarrow>
                 if 0 < ce_self_heal_consecutive_rounds e \<and> ce_self_heal_model e = requested
                 then (True, update_entry i (\<lambda>e. clear_self_heal_streak (count_success env e)) m)
                 else (False, update_entry i (count_success env) m));
          m = (if reset then snd (persist_credentials env m) else m) in
      save_stats_debounced env m)"

definition count_failure :: "env \<Rightarrow> entry \<Rightarrow> entry" where
  "count_failure env e =
     mark_used env (e\<lparr>ce_failure_count := ce_failure_count e + 1,
       ce_total_failure_count := ce_total_failure_count e + 1\<rparr>)"

definition report_failure_for_request ::
  "env \<Rightarrow> u64 \<Rightarrow> string option \<Rightarrow> string option \<Rightarrow> manager \<Rightarrow> bool \<times> manager" where
  "report_failure_for_request env i model grp m =
     (case find_entry i m of
        None \<Rightarrow> (has_available_for_request m model grp (env_now env), m)
      | Some e \<Rightarrow>
          if ce_disabled e then (has_available_for_request m model grp (env_now env), m)
          else
            let m = update_entry i (count_failure env) m;
                disabled_now = MAX_FAILURES_PER_CREDENTIAL \<le> ce_failure_count e + 1;
                m = (if disabled_now
                     then let m = update_entry i (disable TooManyFailures) m in
                       snd (switch_current (entry_available_for_request m model grp (env_now env)) m)
                     else m);
                result = has_available_for_request m model grp (env_now env);
                m = (if disabled_now then snd (persist_credentials env m) else m) in
            (result, save_stats_debounced env m))"

text \<open>Bans and exhausted quotas take a credential out at once.\<close>

definition shut_down :: "env \<Rightarrow> disabled_reason \<Rightarrow> entry \<Rightarrow> entry" where
  "shut_down env r e =
     (clear_self_heal_streak (mark_used env (disable r e)))
       \<lparr>ce_failure_count := MAX_FAILURES_PER_CREDENTIAL,
        ce_total_failure_count := ce_total_failure_count e + 1\<rparr>"

definition report_shut_down ::
  "env \<Rightarrow> disabled_reason \<Rightarrow> u64 \<Rightarrow> string option \<Rightarrow> string option \<Rightarrow> manager \<Rightarrow> bool \<times> manager" where
  "report_shut_down env r i model grp m =
     (case find_entry i m of
        None \<Rightarrow> (has_available_for_request m model grp (env_now env), m)
      | Some e \<Rightarrow>
          if ce_disabled e then (has_available_for_request m model grp (env_now env), m)
          else
            let m = update_entry i (shut_down env r) m;
                (result, m) =
                  switch_current (entry_available_for_request m model grp (env_now env)) m;
                m = snd (persist_credentials env m) in
            (result, save_stats_debounced env m))"

definition report_suspended_for_request where
  "report_suspended_for_request env = report_shut_down env Suspended"

definition report_quota_exhausted_for_request where
  "report_quota_exhausted_for_request env = report_shut_down env QuotaExceeded"

definition report_refresh_failure :: "env \<Rightarrow> u64 \<Rightarrow> manager \<Rightarrow> bool \<times> manager" where
  "report_refresh_failure env i m =
     (case find_entry i m of
        None \<Rightarrow> (any_enabled m, m)
      | Some e \<Rightarrow>
          if ce_disabled e then (any_enabled m, m)
          else
            let refresh_failures = ce_refresh_failure_count e + 1;
                m = update_entry i
                      (\<lambda>e. (mark_used env e)\<lparr>ce_refresh_failure_count := ce_refresh_failure_count e + 1\<rparr>) m in
            if refresh_failures < MAX_FAILURES_PER_CREDENTIAL
            then (any_enabled m, save_stats_debounced env m)
            else
              let m = update_entry i
                        (\<lambda>e. clear_self_heal_streak (disable TooManyRefreshFailures e)) m;
                  (result, m) = switch_current (\<lambda>e. \<not> ce_disabled e) m;
                  m = snd (persist_credentials env m) in
              (result, save_stats_debounced env m))"

definition report_refresh_token_invalid :: "env \<Rightarrow> u64 \<Rightarrow> manager \<Rightarrow> bool \<times> manager" where
  "report_refresh_token_invalid env i m =
     (case find_entry i m of
        None \<Rightarrow> (any_enabled m, m)
      | Some e \<Rightarrow>
          if ce_disabled e then (any_enabled m, m)
          else
            let m = update_entry i
                      (\<lambda>e. clear_self_heal_streak (disable InvalidRefreshToken (mark_used env e))) m;
                (result, m) = switch_current (\<lambda>e. \<not> ce_disabled e) m;
                m = snd (persist_credentials env m) in
            (result, save_stats_debounced env m))"

section \<open>Marking bans in bulk\<close>

definition mark_suspended :: "env \<Rightarrow> entry \<Rightarrow> entry" where
  "mark_suspended env e =
     mark_used env ((clear_self_heal_streak (disable Suspended e))
       \<lparr>ce_failure_count := MAX_FAILURES_PER_CREDENTIAL\<rparr>)"

text \<open>The loop over the ids: the entries, the ids changed, and whether the current one is among them.\<close>

fun mark_suspended_loop ::
  "env \<Rightarrow> u64 list \<Rightarrow> manager \<Rightarrow> u64 list \<Rightarrow> bool \<Rightarrow> manager \<times> u64 list \<times> bool" where
  "mark_suspended_loop env [] m updated switch_needed = (m, updated, switch_needed)"
| "mark_suspended_loop env (i # is) m updated switch_needed =
     (case find_entry i m of
        None \<Rightarrow> mark_suspended_loop env is m updated switch_needed
      | Some e \<Rightarrow>
          if ce_disabled e \<and> ce_disabled_reason e = Some Suspended
          then mark_suspended_loop env is m updated switch_needed
          else mark_suspended_loop env is (update_entry i (mark_suspended env) m) (updated @ [i])
                 (switch_needed \<or> m_current_id m = i))"

definition raw_priority_key :: "entry \<Rightarrow> u32 \<times> u64" where
  "raw_priority_key e = (kc_priority (ce_credentials e), ce_id e)"

definition batch_mark_suspended ::
  "env \<Rightarrow> u64 list \<Rightarrow> manager \<Rightarrow> (pool_error + u64 list) \<times> manager" where
  "batch_mark_suspended env is m =
     (if is = [] then (Inr [], m)
      else
        let (m, updated, switch_needed) = mark_suspended_loop env is m [] False;
            m = (if switch_needed
                 then (case min_by_key raw_priority_key
                         (filter (entry_available_for_request m None None (env_now env)) (m_entries m)) of
                         Some next_entry \<Rightarrow> m\<lparr>m_current_id := ce_id next_entry\<rparr>
                       | None \<Rightarrow> m)
                 else m) in
        if updated \<noteq> []
        then (case persist_credentials env m of
                (Inl err, m) \<Rightarrow> (Inl err, m)
              | (Inr _, m) \<Rightarrow> (Inr updated, save_stats_debounced env m))
        else (Inr updated, m))"

definition matches_suspended_ban_keywords :: "manager \<Rightarrow> string \<Rightarrow> bool" where
  "matches_suspended_ban_keywords m body \<longleftrightarrow>
     (\<exists>kw \<in> set (m_suspended_ban_keywords m). kw \<noteq> [] \<and>
        contains (to_ascii_lowercase body) (to_ascii_lowercase kw))"

section \<open>Self-healing\<close>

text \<open>\<open>TimeDelta::num_seconds\<close>: whole seconds, towards zero.\<close>

definition num_seconds :: "int \<Rightarrow> int" where
  "num_seconds d = (if d < 0 then - (- d div int nanos_per_sec) else d div int nanos_per_sec)"

definition healable ::
  "env \<Rightarrow> manager \<Rightarrow> string option \<Rightarrow> string option \<Rightarrow> entry \<Rightarrow> bool" where
  "healable env m model grp e \<longleftrightarrow>
     ce_disabled e \<and> ce_disabled_reason e = Some TooManyFailures \<and>
     group_matches (kc_groups (ce_credentials e)) grp \<and>
     cached_model_support m (ce_id e) model \<noteq> Unsupported \<and>
     \<not> (0 < ce_self_heal_consecutive_rounds e \<and>
        ce_self_heal_model e \<noteq> normalize_self_heal_model model) \<and>
     \<not> (0 < m_self_heal_max_consecutive_rounds m \<and>
        m_self_heal_max_consecutive_rounds m \<le> ce_self_heal_consecutive_rounds e) \<and>
     (case ce_last_self_heal_at e of
        None \<Rightarrow> True
      | Some previous \<Rightarrow>
          \<not> num_seconds (env_utc env - previous) < sint (m_self_heal_min_interval_secs m))"

definition heal :: "env \<Rightarrow> string option \<Rightarrow> entry \<Rightarrow> entry" where
  "heal env model e =
     e\<lparr>ce_self_heal_consecutive_rounds := sat_add (ce_self_heal_consecutive_rounds e) 1,
       ce_self_heal_total_count := sat_add (ce_self_heal_total_count e) 1,
       ce_last_self_heal_at := Some (env_utc env),
       ce_self_heal_model := normalize_self_heal_model model,
       ce_disabled := False, ce_disabled_reason := None, ce_failure_count := 0\<rparr>"

definition try_self_heal ::
  "env \<Rightarrow> string option \<Rightarrow> string option \<Rightarrow> manager \<Rightarrow> bool \<times> manager" where
  "try_self_heal env model grp m =
     (if \<not> m_self_heal_enabled m then (False, m)
      else
        let recovered = filter (healable env m model grp) (m_entries m);
            m' = m\<lparr>m_entries := map (\<lambda>e. if healable env m model grp e then heal env model e else e)
                      (m_entries m)\<rparr> in
        if recovered = [] then (False, m')
        else (True, snd (persist_credentials env m')))"

definition matching_candidate :: "manager \<Rightarrow> string option \<Rightarrow> string option \<Rightarrow> bool" where
  "matching_candidate m model grp \<longleftrightarrow> (\<exists>e \<in> set (m_entries m). matches_request m model grp e)"

definition has_available_credentials ::
  "env \<Rightarrow> string option \<Rightarrow> string option \<Rightarrow> manager \<Rightarrow> bool \<times> manager" where
  "has_available_credentials env model grp m =
     (if matching_candidate m model grp then (True, m)
      else case try_self_heal env model grp m of
        (True, m') \<Rightarrow> (matching_candidate m' model grp, m')
      | (False, m') \<Rightarrow> (False, m'))"

section \<open>What reports leave alone\<close>

lemma save_stats_select [simp]:
  "m_entries (save_stats_debounced env m) = m_entries m"
  "m_current_id (save_stats_debounced env m) = m_current_id m"
  "m_account_rpm_limit_enabled (save_stats_debounced env m) = m_account_rpm_limit_enabled m"
  "m_account_rpm_limit (save_stats_debounced env m) = m_account_rpm_limit m"
  "m_model_cache (save_stats_debounced env m) = m_model_cache m"
  "m_invert_priority (save_stats_debounced env m) = m_invert_priority m"
  "m_self_heal_enabled (save_stats_debounced env m) = m_self_heal_enabled m"
  "m_self_heal_max_consecutive_rounds (save_stats_debounced env m) = m_self_heal_max_consecutive_rounds m"
  "m_self_heal_min_interval_secs (save_stats_debounced env m) = m_self_heal_min_interval_secs m"
  by (simp_all add: save_stats_debounced_def save_stats_def Let_def)

lemma persist_select [simp]:
  "m_current_id (snd (persist_credentials env m)) = m_current_id m"
  "m_account_rpm_limit_enabled (snd (persist_credentials env m)) = m_account_rpm_limit_enabled m"
  "m_account_rpm_limit (snd (persist_credentials env m)) = m_account_rpm_limit m"
  "m_model_cache (snd (persist_credentials env m)) = m_model_cache m"
  "m_invert_priority (snd (persist_credentials env m)) = m_invert_priority m"
  "m_self_heal_enabled (snd (persist_credentials env m)) = m_self_heal_enabled m"
  "m_self_heal_max_consecutive_rounds (snd (persist_credentials env m)) = m_self_heal_max_consecutive_rounds m"
  "m_self_heal_min_interval_secs (snd (persist_credentials env m)) = m_self_heal_min_interval_secs m"
  by (simp_all add: persist_credentials_def)

lemma switch_current_select [simp]:
  "m_entries (snd (switch_current p m)) = m_entries m"
  "m_account_rpm_limit_enabled (snd (switch_current p m)) = m_account_rpm_limit_enabled m"
  "m_account_rpm_limit (snd (switch_current p m)) = m_account_rpm_limit m"
  "m_model_cache (snd (switch_current p m)) = m_model_cache m"
  "m_invert_priority (snd (switch_current p m)) = m_invert_priority m"
  "m_self_heal_enabled (snd (switch_current p m)) = m_self_heal_enabled m"
  "m_self_heal_max_consecutive_rounds (snd (switch_current p m)) = m_self_heal_max_consecutive_rounds m"
  "m_self_heal_min_interval_secs (snd (switch_current p m)) = m_self_heal_min_interval_secs m"
  by (simp_all add: switch_current_def split: option.split)

text \<open>Eligibility reads only the limits and the model cache of the manager.\<close>

lemma available_cong:
  "m_account_rpm_limit_enabled m' = m_account_rpm_limit_enabled m \<Longrightarrow>
   m_account_rpm_limit m' = m_account_rpm_limit m \<Longrightarrow> m_model_cache m' = m_model_cache m \<Longrightarrow>
   entry_available_for_request m' = entry_available_for_request m"
  by (intro ext) (simp only: entry_available_for_request_def rpm_exceeded_def cached_model_support_def)

lemma has_available_cong:
  "m_account_rpm_limit_enabled m' = m_account_rpm_limit_enabled m \<Longrightarrow>
   m_account_rpm_limit m' = m_account_rpm_limit m \<Longrightarrow> m_model_cache m' = m_model_cache m \<Longrightarrow>
   m_entries m' = m_entries m \<Longrightarrow> has_available_for_request m' = has_available_for_request m"
  using available_cong [of m' m] by (simp add: fun_eq_iff has_available_for_request_def)

lemma has_available_select [simp]:
  "has_available_for_request (save_stats_debounced env m) = has_available_for_request m"
  "has_available_for_request (snd (persist_credentials env m)) = has_available_for_request m"
  "has_available_for_request (snd (switch_current p m)) = has_available_for_request m"
  by (rule has_available_cong; simp)+

lemma available_select [simp]:
  "entry_available_for_request (save_stats_debounced env m) = entry_available_for_request m"
  "entry_available_for_request (snd (persist_credentials env m)) = entry_available_for_request m"
  "entry_available_for_request (snd (switch_current p m)) = entry_available_for_request m"
  "entry_available_for_request (update_entry i f m) = entry_available_for_request m"
  by (rule available_cong; simp)+

lemma find_entry_select [simp]:
  "find_entry i (save_stats_debounced env m) = find_entry i m"
  "find_entry i (snd (persist_credentials env m)) = find_entry i m"
  "find_entry i (snd (switch_current p m)) = find_entry i m"
  by (simp_all add: find_entry_def)

lemma switch_current_spec:
  "fst (switch_current p m) \<longleftrightarrow> (\<exists>e \<in> set (m_entries m). p e)"
  "fst (switch_current p m) \<Longrightarrow> \<exists>e \<in> set (m_entries m). p e \<and>
     m_current_id (snd (switch_current p m)) = ce_id e \<and>
     (\<forall>e' \<in> set (m_entries m). p e' \<longrightarrow> entry_key (m_invert_priority m) e \<le> entry_key (m_invert_priority m) e')"
proof -
  have none: "best_entry (m_invert_priority m) p (m_entries m) = None \<longleftrightarrow> \<not> (\<exists>e \<in> set (m_entries m). p e)"
    by (auto simp: best_entry_def filter_empty_conv)
  then show "fst (switch_current p m) \<longleftrightarrow> (\<exists>e \<in> set (m_entries m). p e)"
    by (cases "best_entry (m_invert_priority m) p (m_entries m)") (auto simp: switch_current_def)
  assume "fst (switch_current p m)"
  then obtain e where e: "best_entry (m_invert_priority m) p (m_entries m) = Some e"
    by (auto simp: switch_current_def split: option.splits)
  from min_by_key_Some [OF e [unfolded best_entry_def]] e
  show "\<exists>e \<in> set (m_entries m). p e \<and> m_current_id (snd (switch_current p m)) = ce_id e \<and>
     (\<forall>e' \<in> set (m_entries m). p e' \<longrightarrow> entry_key (m_invert_priority m) e \<le> entry_key (m_invert_priority m) e')"
    by (auto simp: switch_current_def)
qed

lemma entry_updates_id [simp]:
  "ce_id (mark_used env e) = ce_id e" "ce_id (disable r e) = ce_id e"
  "ce_id (count_failure env e) = ce_id e" "ce_id (shut_down env r e) = ce_id e"
  "ce_id (count_success env e) = ce_id e" "ce_id (clear_self_heal_streak e) = ce_id e"
  "ce_id (heal env model e) = ce_id e" "ce_id (mark_suspended env e) = ce_id e"
  by (simp_all add: mark_used_def disable_def count_failure_def shut_down_def count_success_def
      clear_self_heal_streak_def heal_def mark_suspended_def)

lemma find_update_other:
  "j \<noteq> i \<Longrightarrow> (\<And>e. ce_id (f e) = ce_id e) \<Longrightarrow> find_entry j (update_entry i f m) = find_entry j m"
proof -
  assume "j \<noteq> i" "\<And>e. ce_id (f e) = ce_id e"
  then have "List.find (\<lambda>e. ce_id e = j) (update_first (\<lambda>e. ce_id e = i) f es) = List.find (\<lambda>e. ce_id e = j) es" for es
    by (induction es) auto
  then show ?thesis by (simp add: find_entry_def)
qed

section \<open>Answers of the reports\<close>

text \<open>A report answers truthfully: it says yes exactly when, in the state it leaves, some
  credential is eligible for the same request; and when it takes the reported credential out and
  says yes, the current credential is an eligible one, first in the order of priority.\<close>

lemma report_answers:
  "(case report_failure_for_request env i model grp m of (answer, m') \<Rightarrow>
     answer = has_available_for_request m' model grp (env_now env)) \<and>
   (case report_suspended_for_request env i model grp m of (answer, m') \<Rightarrow>
     answer = has_available_for_request m' model grp (env_now env)) \<and>
   (case report_quota_exhausted_for_request env i model grp m of (answer, m') \<Rightarrow>
     answer = has_available_for_request m' model grp (env_now env) \<and>
     (answer \<and> (\<exists>e. find_entry i m = Some e \<and> \<not> ce_disabled e) \<longrightarrow>
       (\<exists>e \<in> set (m_entries m'). ce_id e = m_current_id m' \<and>
          entry_available_for_request m' model grp (env_now env) e \<and>
          (\<forall>e' \<in> set (m_entries m'). entry_available_for_request m' model grp (env_now env) e' \<longrightarrow>
            entry_key (m_invert_priority m') e \<le> entry_key (m_invert_priority m') e'))))"
proof -
  have shut: "case report_shut_down env r i model grp m of (answer, m') \<Rightarrow>
     answer = has_available_for_request m' model grp (env_now env) \<and>
     (answer \<and> (\<exists>e. find_entry i m = Some e \<and> \<not> ce_disabled e) \<longrightarrow>
       (\<exists>e \<in> set (m_entries m'). ce_id e = m_current_id m' \<and>
          entry_available_for_request m' model grp (env_now env) e \<and>
          (\<forall>e' \<in> set (m_entries m'). entry_available_for_request m' model grp (env_now env) e' \<longrightarrow>
            entry_key (m_invert_priority m') e \<le> entry_key (m_invert_priority m') e')))" for r
  proof (cases "\<exists>e. find_entry i m = Some e \<and> \<not> ce_disabled e")
    case False
    then show ?thesis by (auto simp: report_shut_down_def split: option.split)
  next
    case True
    define m1 where "m1 = update_entry i (shut_down env r) m"
    let ?p = "entry_available_for_request m1 model grp (env_now env)"
    from True have eq: "report_shut_down env r i model grp m =
        (fst (switch_current ?p m1),
         save_stats_debounced env (snd (persist_credentials env (snd (switch_current ?p m1)))))"
      by (auto simp: report_shut_down_def m1_def [symmetric] Let_def split: prod.split)
    from switch_current_spec [of ?p m1] show ?thesis
      unfolding eq by (auto simp: has_available_for_request_def) metis
  qed
  have "case report_failure_for_request env i model grp m of (answer, m') \<Rightarrow>
     answer = has_available_for_request m' model grp (env_now env)"
    by (auto simp: report_failure_for_request_def Let_def split: option.split)
  then show ?thesis
    using shut [of Suspended] shut [of QuotaExceeded]
    unfolding report_suspended_for_request_def report_quota_exhausted_for_request_def
    by (auto split: prod.splits)
qed

text \<open>A number of failures in a row of one credential, for any models and groups.\<close>

fun report_failures ::
  "(env \<times> string option \<times> string option) list \<Rightarrow> u64 \<Rightarrow> manager \<Rightarrow> manager" where
  "report_failures [] i m = m"
| "report_failures ((env, model, grp) # rs) i m =
     report_failures rs i (snd (report_failure_for_request env i model grp m))"

lemma report_failure_entry:
  assumes "find_entry i m = Some e"
  shows "find_entry i (snd (report_failure_for_request env i model grp m)) =
     Some (if ce_disabled e then e
           else if MAX_FAILURES_PER_CREDENTIAL \<le> ce_failure_count e + 1
           then disable TooManyFailures (count_failure env e) else count_failure env e)"
    and "j \<noteq> i \<Longrightarrow> find_entry j (snd (report_failure_for_request env i model grp m)) = find_entry j m"
  using assms by (auto simp: report_failure_for_request_def Let_def find_entry_update find_update_other)

text \<open>C39: A credential survives two failures in a row and is taken out by the third, with the
  reason \<open>TooManyFailures\<close>; further failures change nothing, and no failure ever touches another
  credential.\<close>

theorem three_strikes:
  assumes "find_entry i m = Some e" and "\<not> ce_disabled e" and "ce_failure_count e = 0"
  shows "(\<exists>e'. find_entry i (report_failures reports i m) = Some e' \<and>
      unat (ce_failure_count e') = min (length reports) 3 \<and>
      (ce_disabled e' \<longleftrightarrow> 3 \<le> length reports) \<and>
      (3 \<le> length reports \<longrightarrow> ce_disabled_reason e' = Some TooManyFailures)) \<and>
    (\<forall>j. j \<noteq> i \<longrightarrow> find_entry j (report_failures reports i m) = find_entry j m)"
proof -
  have "(\<exists>e'. find_entry i (report_failures reports i m) = Some e' \<and>
      unat (ce_failure_count e') = min (k + length reports) 3 \<and>
      (ce_disabled e' \<longleftrightarrow> 3 \<le> k + length reports) \<and>
      (3 \<le> k + length reports \<longrightarrow> ce_disabled_reason e' = Some TooManyFailures)) \<and>
    (\<forall>j. j \<noteq> i \<longrightarrow> find_entry j (report_failures reports i m) = find_entry j m)"
    if "find_entry i m = Some e" "unat (ce_failure_count e) = min k 3" "ce_disabled e \<longleftrightarrow> 3 \<le> k"
      "3 \<le> k \<Longrightarrow> ce_disabled_reason e = Some TooManyFailures" for k m e
    using that
  proof (induction reports arbitrary: m e k)
    case Nil
    then show ?case by auto
  next
    case (Cons r reports)
    obtain env model grp where r: "r = (env, model, grp)" by (metis prod_cases3)
    let ?m' = "snd (report_failure_for_request env i model grp m)"
    define e' where "e' = (if ce_disabled e then e
        else if MAX_FAILURES_PER_CREDENTIAL \<le> ce_failure_count e + 1
        then disable TooManyFailures (count_failure env e) else count_failure env e)"
    have next_entry: "find_entry i ?m' = Some e'" "\<And>j. j \<noteq> i \<Longrightarrow> find_entry j ?m' = find_entry j m"
      using report_failure_entry [OF Cons.prems(1)] by (auto simp: e'_def)
    have word: "unat (ce_failure_count e + 1) = k + 1" if "k < 3"
      using that Cons.prems(2) by (simp add: unat_word_ariths)
    have "unat (ce_failure_count e') = min (Suc k) 3 \<and> (ce_disabled e' \<longleftrightarrow> 3 \<le> Suc k) \<and>
        (3 \<le> Suc k \<longrightarrow> ce_disabled_reason e' = Some TooManyFailures)"
    proof (cases "k < 3")
      case True
      then have "MAX_FAILURES_PER_CREDENTIAL \<le> ce_failure_count e + 1 \<longleftrightarrow> 3 \<le> Suc k"
        using word by (simp add: word_le_nat_alt MAX_FAILURES_PER_CREDENTIAL_def)
      with True word Cons.prems(3) show ?thesis
        by (auto simp: e'_def disable_def count_failure_def mark_used_def)
    next
      case False
      with Cons.prems show ?thesis by (auto simp: e'_def)
    qed
    with Cons.IH [OF next_entry(1), of "Suc k"] next_entry(2) r show ?case by auto
  qed
  from this [of m e 0] assms show ?thesis by auto
qed

section \<open>Self-healing is controlled\<close>

lemma try_self_heal_entries:
  "m_entries (snd (try_self_heal env model grp m)) =
     (if m_self_heal_enabled m
      then map (\<lambda>e. if healable env m model grp e then heal env model e else e) (m_entries m)
      else m_entries m)"
  by (simp add: try_self_heal_def Let_def)

lemma try_self_heal_answer:
  "fst (try_self_heal env model grp m) \<longleftrightarrow>
   m_self_heal_enabled m \<and> (\<exists>e \<in> set (m_entries m). healable env m model grp e)"
  by (auto simp: try_self_heal_def Let_def filter_empty_conv)

text \<open>Self-healing touches nothing but credentials that were disabled for too many failures, that
  the request could use, and whose rounds and waiting time allow it; those are enabled again with
  one round more on their account, and the answer says whether there was any.\<close>

lemma self_heal_scope:
  "list_all2 (\<lambda>e e'. e' = e \<or>
      ce_disabled e \<and> ce_disabled_reason e = Some TooManyFailures \<and>
      group_matches (kc_groups (ce_credentials e)) grp \<and>
      cached_model_support m (ce_id e) model \<noteq> Unsupported \<and>
      (0 < m_self_heal_max_consecutive_rounds m \<longrightarrow>
        ce_self_heal_consecutive_rounds e < m_self_heal_max_consecutive_rounds m \<and>
        ce_self_heal_consecutive_rounds e' = ce_self_heal_consecutive_rounds e + 1) \<and>
      (0 < ce_self_heal_consecutive_rounds e \<longrightarrow>
        ce_self_heal_model e = normalize_self_heal_model model) \<and>
      (\<forall>previous. ce_last_self_heal_at e = Some previous \<longrightarrow>
        sint (m_self_heal_min_interval_secs m) \<le> num_seconds (env_utc env - previous)) \<and>
      \<not> ce_disabled e' \<and> ce_failure_count e' = 0 \<and> ce_credentials e' = ce_credentials e)
    (m_entries m) (m_entries (snd (try_self_heal env model grp m))) \<and>
   (fst (try_self_heal env model grp m) \<longleftrightarrow>
      m_self_heal_enabled m \<and> (\<exists>e \<in> set (m_entries m). healable env m model grp e))"
proof -
  have "ce_self_heal_consecutive_rounds (heal env model e) = ce_self_heal_consecutive_rounds e + 1"
    if "ce_self_heal_consecutive_rounds e < w" for e w
  proof -
    have "unat (ce_self_heal_consecutive_rounds e) + 1 < 2 ^ 32"
      using that unsigned_less [of w, where ?'a = nat] by (simp add: word_less_nat_alt)
    then show ?thesis by (simp add: heal_def sat_add_def)
  qed
  then have "list_all2 (\<lambda>e e'. e' = e \<or>
      ce_disabled e \<and> ce_disabled_reason e = Some TooManyFailures \<and>
      group_matches (kc_groups (ce_credentials e)) grp \<and>
      cached_model_support m (ce_id e) model \<noteq> Unsupported \<and>
      (0 < m_self_heal_max_consecutive_rounds m \<longrightarrow>
        ce_self_heal_consecutive_rounds e < m_self_heal_max_consecutive_rounds m \<and>
        ce_self_heal_consecutive_rounds e' = ce_self_heal_consecutive_rounds e + 1) \<and>
      (0 < ce_self_heal_consecutive_rounds e \<longrightarrow>
        ce_self_heal_model e = normalize_self_heal_model model) \<and>
      (\<forall>previous. ce_last_self_heal_at e = Some previous \<longrightarrow>
        sint (m_self_heal_min_interval_secs m) \<le> num_seconds (env_utc env - previous)) \<and>
      \<not> ce_disabled e' \<and> ce_failure_count e' = 0 \<and> ce_credentials e' = ce_credentials e)
    (m_entries m) (m_entries (snd (try_self_heal env model grp m)))"
    unfolding try_self_heal_entries
    by (auto simp: list.rel_map healable_def not_less not_le heal_def intro!: list.rel_refl_strong
        split: option.splits)
  then show ?thesis by (simp add: try_self_heal_answer)
qed

text \<open>Any history of failing calls and self-healing, with no success in between.\<close>

datatype failing_event =
    CallFailed env u64 "string option" "string option"
  | SelfHealTried env "string option" "string option"

fun failing_step :: "failing_event \<Rightarrow> manager \<Rightarrow> manager" where
  "failing_step (CallFailed env j model grp) m = snd (report_failure_for_request env j model grp m)"
| "failing_step (SelfHealTried env model grp) m = snd (try_self_heal env model grp m)"

definition failing_history :: "failing_event list \<Rightarrow> manager \<Rightarrow> manager" where
  "failing_history evs m = fold failing_step evs m"

lemma report_failure_max_rounds:
  "m_self_heal_max_consecutive_rounds (snd (report_failure_for_request env j model grp m))
     = m_self_heal_max_consecutive_rounds m"
  by (auto simp: report_failure_for_request_def Let_def split: option.split)

lemma failing_step_max_rounds:
  "m_self_heal_max_consecutive_rounds (failing_step ev m) = m_self_heal_max_consecutive_rounds m"
  by (cases ev) (auto simp: report_failure_max_rounds try_self_heal_def Let_def)

text \<open>The accounts of an entry after some revivals.\<close>

definition revived :: "u32 \<Rightarrow> entry \<Rightarrow> entry \<Rightarrow> bool" where
  "revived limit e e' \<longleftrightarrow>
     unat (ce_self_heal_total_count e') =
       unat (ce_self_heal_total_count e) + unat (ce_self_heal_consecutive_rounds e') \<and>
     ce_self_heal_consecutive_rounds e' \<le> limit"

lemma revived_heal:
  assumes "revived limit e0 e" "healable env m model grp e" "m_self_heal_max_consecutive_rounds m = limit"
    and "0 < limit" "unat (ce_self_heal_total_count e0) + unat limit < 2 ^ 64"
  shows "revived limit e0 (heal env model e)"
proof -
  have less: "unat (ce_self_heal_consecutive_rounds e) < unat limit"
    using assms(2-4) by (auto simp: healable_def not_le word_less_nat_alt)
  moreover have "unat limit < 2 ^ 32" using unsigned_less [of limit, where ?'a = nat] by simp
  ultimately have "unat (ce_self_heal_consecutive_rounds (heal env model e)) = unat (ce_self_heal_consecutive_rounds e) + 1"
    by (simp add: heal_def unat_sat_add)
  moreover have "unat (ce_self_heal_total_count (heal env model e)) = unat (ce_self_heal_total_count e) + 1"
    using assms(1,5) less by (simp add: heal_def unat_sat_add revived_def)
  ultimately show ?thesis using assms(1) less by (simp add: revived_def word_le_nat_alt)
qed

lemma failing_step_revived:
  assumes "find_entry i m = Some e" "revived limit e0 e" "m_self_heal_max_consecutive_rounds m = limit"
    and "0 < limit" "unat (ce_self_heal_total_count e0) + unat limit < 2 ^ 64"
  shows "\<exists>e'. find_entry i (failing_step ev m) = Some e' \<and> revived limit e0 e'"
proof (cases ev)
  case (CallFailed env j model grp)
  show ?thesis
  proof (cases "j = i")
    case True
    with CallFailed assms(2) report_failure_entry(1) [OF assms(1), of env model grp] show ?thesis
      by (auto simp: revived_def disable_def count_failure_def mark_used_def)
  next
    case False
    then have "find_entry i (snd (report_failure_for_request env j model grp m)) = find_entry i m"
      by (cases "find_entry j m") (auto simp: report_failure_entry(2), simp add: report_failure_for_request_def)
    with CallFailed assms(1,2) show ?thesis by simp
  qed
next
  case (SelfHealTried env model grp)
  let ?h = "\<lambda>e. if healable env m model grp e then heal env model e else e"
  have "List.find (\<lambda>e. ce_id e = i) (map ?h es) = map_option ?h (List.find (\<lambda>e. ce_id e = i) es)" for es
    by (induction es) auto
  then have "find_entry i (failing_step ev m) = Some (if m_self_heal_enabled m then ?h e else e)"
    using assms(1) SelfHealTried by (simp add: find_entry_def try_self_heal_entries)
  then show ?thesis using revived_heal assms by auto
qed


definition banned :: "entry \<Rightarrow> bool" where
  "banned e \<longleftrightarrow> ce_disabled e \<and> ce_disabled_reason e = Some Suspended"

lemma mark_suspended_loop_spec:
  assumes "mark_suspended_loop env is m updated sw = (m', updated', sw')" "distinct is"
  shows "find_entry j m' = (if j \<in> set is
      then map_option (\<lambda>e. if banned e then e else mark_suspended env e) (find_entry j m)
      else find_entry j m)"
    and "updated' = updated @ filter (\<lambda>i. \<exists>e. find_entry i m = Some e \<and> \<not> banned e) is"
proof -
  have "find_entry j m' = (if j \<in> set is
      then map_option (\<lambda>e. if banned e then e else mark_suspended env e) (find_entry j m)
      else find_entry j m) \<and>
    updated' = updated @ filter (\<lambda>i. \<exists>e. find_entry i m = Some e \<and> \<not> banned e) is"
    using assms
  proof (induction "is" arbitrary: m updated sw)
    case (Cons i "is")
    show ?case
    proof (cases "\<exists>e. find_entry i m = Some e \<and> \<not> banned e")
      case False
      then have "mark_suspended_loop env (i # is) m updated sw = mark_suspended_loop env is m updated sw"
        by (auto simp: banned_def split: option.split)
      with Cons False show ?thesis by (cases "find_entry i m") auto
    next
      case True
      then obtain e where e: "find_entry i m = Some e" "\<not> banned e" by blast
      let ?m = "update_entry i (mark_suspended env) m"
      from e have "mark_suspended_loop env (i # is) m updated sw
          = mark_suspended_loop env is ?m (updated @ [i]) (sw \<or> m_current_id m = i)"
        by (auto simp: banned_def)
      moreover have "filter (\<lambda>k. \<exists>e. find_entry k ?m = Some e \<and> \<not> banned e) is
          = filter (\<lambda>k. \<exists>e. find_entry k m = Some e \<and> \<not> banned e) is"
      proof (rule filter_cong [OF refl])
        fix k
        assume "k \<in> set is"
        with Cons.prems(2) have "k \<noteq> i" by auto
        then show "(\<exists>e. find_entry k ?m = Some e \<and> \<not> banned e) = (\<exists>e. find_entry k m = Some e \<and> \<not> banned e)"
          by (simp add: find_update_other)
      qed
      moreover have "find_entry i ?m = Some (mark_suspended env e)"
        using e by (simp add: find_entry_update)
      moreover have "find_entry j ?m = find_entry j m" if "j \<noteq> i"
        using that by (simp add: find_update_other)
      ultimately show ?thesis
        using Cons.IH [of ?m "updated @ [i]" "sw \<or> m_current_id m = i"] Cons.prems e
        by (cases "j = i") auto
    qed
  qed simp
  then show "find_entry j m' = (if j \<in> set is
      then map_option (\<lambda>e. if banned e then e else mark_suspended env e) (find_entry j m)
      else find_entry j m)"
    and "updated' = updated @ filter (\<lambda>i. \<exists>e. find_entry i m = Some e \<and> \<not> banned e) is" by blast+
qed

lemma batch_mark_suspended_state:
  assumes "is \<noteq> []" "mark_suspended_loop env is m [] False = (m', updated, sw)"
  shows "m_entries (snd (batch_mark_suspended env is m)) = m_entries m'"
    and "fst (batch_mark_suspended env is m) \<noteq> Inl err \<Longrightarrow>
      fst (batch_mark_suspended env is m) = Inr updated \<or> fst (batch_mark_suspended env is m) = Inl PersistFailed"
  using assms
  by (auto simp: batch_mark_suspended_def Let_def persist_credentials_def split: option.split)

text \<open>Marking bans in bulk takes exactly the named credentials out, as banned, leaves every other
  credential as it is, and reports the named ones that were not banned before.\<close>

lemma batch_mark_suspended_marks:
  assumes "batch_mark_suspended env is m = (Inr updated, m')" and "distinct is"
  shows "(\<forall>i e. find_entry i m = Some e \<longrightarrow>
      (\<exists>e'. find_entry i m' = Some e' \<and> (if i \<in> set is then banned e' else e' = e))) \<and>
    updated = filter (\<lambda>i. \<exists>e. find_entry i m = Some e \<and> \<not> banned e) is"
proof (cases "is = []")
  case True
  with assms(1) show ?thesis by (auto simp: batch_mark_suspended_def)
next
  case False
  obtain m1 updated1 sw where l: "mark_suspended_loop env is m [] False = (m1, updated1, sw)"
    by (metis prod_cases3)
  have "updated = updated1"
    using batch_mark_suspended_state(2) [OF False l, of IdsExhausted] assms(1) by simp
  moreover have "find_entry i m' = find_entry i m1" for i
    using batch_mark_suspended_state(1) [OF False l] assms(1) by (simp add: find_entry_def)
  moreover have "banned (mark_suspended env e)" for e
    by (simp add: banned_def mark_suspended_def mark_used_def clear_self_heal_streak_def disable_def)
  ultimately show ?thesis
    using mark_suspended_loop_spec [OF l assms(2)] by auto
qed

section \<open>The properties on a small pool\<close>

text \<open>Three credentials of one pool, their priorities inverted: 3 comes first, then 2, then 1.\<close>

definition inverted_manager :: manager where
  "inverted_manager = sample_manager\<lparr>m_invert_priority := True, m_current_id := 1, m_entries :=
     map (\<lambda>(i, p). fresh_entry sample_env i (default_credentials\<lparr>kc_id := Some i, kc_priority := p\<rparr>))
       [(1, 0), (2, 1), (3, 9)]\<rparr>"

lemma inverted_order: "\<not> (- 1 :: u32) \<le> - 2" "(- 10 :: u32) \<le> - 2" "(- 10 :: u32) \<le> - 1" "(- 2 :: u32) \<le> - 1"
    "(- 10 :: u32) < - 2" "(- 10 :: u32) < - 1" "(- 2 :: u32) < - 1"
  by code_simp+

text \<open>The bulk operation does not follow the inverted order of priority: when it bans the current
  credential it moves on to the one with the lowest number, where every other report moves on to
  the one with the highest.\<close>

lemma batch_mark_suspended_ignores_inversion:
  "m_current_id (snd (report_suspended_for_request sample_env 1 None None inverted_manager)) = 3 \<and>
   m_current_id (snd (batch_mark_suspended sample_env [1] inverted_manager)) = 2"
  by (simp add: inverted_manager_def sample_defs report_suspended_for_request_def report_shut_down_def
      batch_mark_suspended_def find_entry_def update_entry_def shut_down_def mark_suspended_def
      disable_def mark_used_def clear_self_heal_streak_def switch_current_def best_entry_def
      entry_key_def raw_priority_key_def priority_key_def entry_available_for_request_def
      throttled_def rpm_exceeded_def fresh_requests_def group_matches_def cached_model_support_def
      persist_credentials_def less_eq_prod_def Let_def sample_env_def inverted_order)

theorem report_answers_witness:
  "\<exists>e \<in> set (m_entries (snd (report_quota_exhausted_for_request sample_env 3 None None inverted_manager))).
     ce_id e = 2"
proof -
  let ?r = "report_quota_exhausted_for_request sample_env 3 None None inverted_manager"
  have r: "fst ?r" "m_current_id (snd ?r) = 2" "\<exists>e. find_entry 3 inverted_manager = Some e \<and> \<not> ce_disabled e"
    by (simp_all add: inverted_manager_def sample_defs report_quota_exhausted_for_request_def report_shut_down_def
      find_entry_def update_entry_def shut_down_def
      disable_def mark_used_def clear_self_heal_streak_def switch_current_def best_entry_def
      entry_key_def priority_key_def entry_available_for_request_def
      throttled_def rpm_exceeded_def fresh_requests_def group_matches_def cached_model_support_def
      persist_credentials_def less_eq_prod_def Let_def sample_env_def inverted_order)
  obtain m' where m': "?r = (True, m')" using r(1) by (metis prod.collapse)
  from report_answers [where env = sample_env and i = 3 and model = None and grp = None and m = inverted_manager] r(3)
  have "\<exists>e \<in> set (m_entries m'). ce_id e = m_current_id m'"
    unfolding m' by (simp split: prod.splits) blast
  with r(2) show ?thesis by (simp add: m')
qed

theorem three_strikes_witness:
  "\<exists>e'. find_entry 1 (report_failures (replicate 3 (sample_env, None, None)) 1 sample_manager) = Some e' \<and>
     ce_disabled_reason e' = Some TooManyFailures"
proof -
  obtain e where "find_entry 1 sample_manager = Some e" "\<not> ce_disabled e" "ce_failure_count e = 0"
    by (auto simp: find_entry_def sample_defs)
  from three_strikes [OF this, of "replicate 3 (sample_env, None, None)"] show ?thesis by auto
qed

lemma sample_healable: "\<exists>e \<in> set (m_entries sample_manager). healable sample_env sample_manager None None e"
  by (simp add: sample_defs healable_def reason_from_str_def group_matches_def cached_model_support_def)

theorem self_heal_scope_witness:
  "fst (try_self_heal sample_env None None sample_manager) \<and>
   length (m_entries (snd (try_self_heal sample_env None None sample_manager))) = 2"
  using self_heal_scope [where env = sample_env and m = sample_manager and model = None and grp = None]
    sample_healable
  by (auto simp: sample_defs dest: list_all2_lengthD)


theorem batch_mark_suspended_marks_witness:
  "\<exists>e'. find_entry 2 (snd (batch_mark_suspended sample_env [2] sample_manager)) = Some e' \<and> banned e'"
proof -
  have "fst (batch_mark_suspended sample_env [2] sample_manager) = Inr [2]"
    by (simp add: batch_mark_suspended_def find_entry_def sample_defs reason_from_str_def
        persist_credentials_def sample_env_def Let_def)
  then have b: "batch_mark_suspended sample_env [2] sample_manager
      = (Inr [2], snd (batch_mark_suspended sample_env [2] sample_manager))"
    by (simp add: prod_eq_iff)
  obtain e where e: "find_entry 2 sample_manager = Some e" by (auto simp: find_entry_def sample_defs)
  have "distinct [2 :: u64]" by simp
  from batch_mark_suspended_marks [OF b this, THEN conjunct1, rule_format, OF e]
  show ?thesis by simp
qed

end
