(* ===== verification/UpstreamErrors.thy ===== *)
theory UpstreamErrors
  imports RustStd
begin

text \<open>
  The rate limit error the gateway answers with (\<open>UpstreamRateLimitError\<close> of
  \<open>src/kiro/error.rs\<close>) and the numbers written into it. \<open>is_http_date\<close> stands for
  \<open>httpdate::parse_http_date(..).is_ok()\<close>, a parser of a crate.
\<close>

section \<open>Decimal numbers\<close>

definition digit_char :: "nat \<Rightarrow> char" where
  "digit_char d = char_of (48 + d)"

text \<open>\<open>u64::to_string\<close>.\<close>

fun decimal :: "nat \<Rightarrow> string" where
  "decimal n = (if n < 10 then [digit_char n] else decimal (n div 10) @ [digit_char (n mod 10)])"

declare decimal.simps [simp del]

definition digit_value :: "char \<Rightarrow> nat option" where
  "digit_value c =
     (let n = (of_char c :: nat) in if 48 \<le> n \<and> n \<le> 57 then Some (n - 48) else None)"

text \<open>\<open>str::parse::<u64>\<close>: an optional plus sign, then at least one digit, with overflow checked.\<close>

fun parse_digits :: "nat \<Rightarrow> string \<Rightarrow> nat option" where
  "parse_digits n [] = Some n"
| "parse_digits n (c # cs) =
     (case digit_value c of
        None \<Rightarrow> None
      | Some d \<Rightarrow> if 10 * n + d < 2 ^ 64 then parse_digits (10 * n + d) cs else None)"

definition parse_u64 :: "string \<Rightarrow> nat option" where
  "parse_u64 s =
     (let digits = (case s of c # cs \<Rightarrow> if c = CHR ''+'' then cs else s | [] \<Rightarrow> []) in
      if digits = [] then None else parse_digits 0 digits)"

lemma digit_value_char [simp]: "d < 10 \<Longrightarrow> digit_value (digit_char d) = Some d"
  by (simp add: digit_value_def digit_char_def of_char_of)

lemma parse_digits_append:
  "parse_digits n (s @ [c]) =
     (case parse_digits n s of None \<Rightarrow> None | Some m \<Rightarrow> parse_digits m [c])"
  by (induction n s rule: parse_digits.induct) (auto split: option.split)

lemma parse_digits_decimal: "n < 2 ^ 64 \<Longrightarrow> parse_digits 0 (decimal n) = Some n"
proof (induction n rule: decimal.induct)
  case (1 n)
  show ?case
  proof (cases "n < 10")
    case True
    then show ?thesis using 1 by (simp add: decimal.simps)
  next
    case False
    then have "parse_digits 0 (decimal (n div 10)) = Some (n div 10)" using 1 by simp
    moreover have "digit_value (digit_char (n mod 10)) = Some (n mod 10)" by simp
    ultimately show ?thesis
      using 1 False by (subst decimal.simps) (simp add: parse_digits_append)
  qed
qed

text \<open>No digit, and no string of digits, looks like the beginning of white space or a sign.\<close>

definition decimal_digit :: "char \<Rightarrow> bool" where
  "decimal_digit c \<longleftrightarrow> digit_value c \<noteq> None"

lemma decimal_digits: "\<forall>c \<in> set (decimal n). decimal_digit c"
proof (induction n rule: decimal.induct)
  case (1 n)
  then show ?case by (subst decimal.simps) (simp add: decimal_digit_def)
qed

lemma decimal_Nil [simp]: "decimal n \<noteq> []"
  by (subst decimal.simps) simp

lemma no_white_digit:
  "p \<in> set whitespace_encodings \<Longrightarrow> p \<noteq> [] \<and> \<not> decimal_digit (hd p) \<and> \<not> decimal_digit (last p)"
  by (auto simp: whitespace_encodings_def decimal_digit_def digit_value_def of_char_of)

lemma starts_with_hd: "starts_with s p \<Longrightarrow> p \<noteq> [] \<Longrightarrow> s \<noteq> [] \<and> hd s = hd p"
  by (cases s; cases p) auto

lemma strip_digits:
  "\<forall>c \<in> set s. decimal_digit c \<Longrightarrow> \<forall>p \<in> set ps. p \<noteq> [] \<and> \<not> decimal_digit (hd p) \<Longrightarrow>
   strip_prefixes n ps s = s"
proof (cases n)
  case (Suc k)
  assume a: "\<forall>c \<in> set s. decimal_digit c" "\<forall>p \<in> set ps. p \<noteq> [] \<and> \<not> decimal_digit (hd p)"
  have "\<not> starts_with s p" if "p \<in> set ps" for p
    using a that starts_with_hd [of s p] hd_in_set [of s] by metis
  then have "List.find (\<lambda>p. p \<noteq> [] \<and> starts_with s p) ps = None" by (auto simp: find_None_iff)
  with Suc show ?thesis by simp
qed simp

lemma trim_digits: "\<forall>c \<in> set s. decimal_digit c \<Longrightarrow> trim s = s"
proof -
  assume a: "\<forall>c \<in> set s. decimal_digit c"
  have "\<forall>p \<in> set whitespace_encodings. p \<noteq> [] \<and> \<not> decimal_digit (hd p)"
    using no_white_digit by blast
  then have "trim_start s = s" unfolding trim_start_def by (rule strip_digits [OF a])
  moreover have "\<forall>p \<in> set (map rev whitespace_encodings). p \<noteq> [] \<and> \<not> decimal_digit (hd p)"
    using no_white_digit by (auto simp: hd_rev)
  then have "strip_prefixes (length s) (map rev whitespace_encodings) (rev s) = rev s"
    using a by (intro strip_digits) simp_all
  ultimately show ?thesis by (simp add: trim_def trim_end_def)
qed

lemma trim_decimal [simp]: "trim (decimal n) = decimal n"
  using decimal_digits [of n] by (rule trim_digits)

lemma parse_decimal [simp]: "n < 2 ^ 64 \<Longrightarrow> parse_u64 (decimal n) = Some n"
proof -
  assume n: "n < 2 ^ 64"
  have "hd (decimal n) \<in> set (decimal n)" by simp
  then have "decimal_digit (hd (decimal n))" using decimal_digits by blast
  then have "hd (decimal n) \<noteq> CHR ''+''" by (auto simp: decimal_digit_def digit_value_def)
  then show ?thesis
    using parse_digits_decimal [OF n] by (cases "decimal n") (auto simp: parse_u64_def)
qed

section \<open>The error\<close>

record upstream_rate_limit_error =
  re_retry_after :: "string option"
  re_local :: bool

definition normalize_retry_after :: "(string \<Rightarrow> bool) \<Rightarrow> string \<Rightarrow> string option" where
  "normalize_retry_after is_http_date v =
     (let v = trim v in
      if v = [] then None
      else if parse_u64 v \<noteq> None \<or> is_http_date v then Some v
      else None)"

definition rate_limit_error :: "(string \<Rightarrow> bool) \<Rightarrow> string option \<Rightarrow> upstream_rate_limit_error" where
  "rate_limit_error is_http_date retry_after =
     \<lparr>re_retry_after = Option.bind retry_after (normalize_retry_after is_http_date), re_local = False\<rparr>"

definition local_rpm_limit :: "nat \<Rightarrow> upstream_rate_limit_error" where
  "local_rpm_limit retry_after_secs =
     \<lparr>re_retry_after = Some (decimal retry_after_secs), re_local = True\<rparr>"

definition should_retry_locally :: "upstream_rate_limit_error \<Rightarrow> bool" where
  "should_retry_locally e \<longleftrightarrow> re_retry_after e = None"

text \<open>A delay the gateway writes itself is kept as it is.\<close>

lemma rate_limit_error_decimal [simp]:
  "n < 2 ^ 64 \<Longrightarrow>
   rate_limit_error is_http_date (Some (decimal n)) = \<lparr>re_retry_after = Some (decimal n), re_local = False\<rparr>"
  by (simp add: rate_limit_error_def normalize_retry_after_def)

lemma rate_limit_error_remote [simp]: "\<not> re_local (rate_limit_error is_http_date r)"
  by (simp add: rate_limit_error_def)

end
