(* ===== verification/TokenRefresh.thy ===== *)
theory TokenRefresh
  imports CredentialPool UpstreamErrors
begin

text \<open>
  When a token has to be refreshed, how the three kinds of account do it, and how the answer is
  merged into a credential that others may have changed meanwhile (the first part of
  \<open>src/kiro/token_manager.rs\<close>). The HTTP exchange is a parameter: \<open>up_send\<close> takes the request
  and the proxy to the answer, \<open>None\<close> for a failed exchange, and the JSON decoders of the
  three response types are parameters too. Of a request the model keeps the URL and the body; the
  descriptive headers (user agent, host) are left out.
\<close>

section \<open>Expiry\<close>

definition minutes :: "int \<Rightarrow> datetime" where
  "minutes n = n * 60 * int nanos_per_sec"

definition is_token_expiring_within :: "env \<Rightarrow> kiro_credentials \<Rightarrow> int \<Rightarrow> bool option" where
  "is_token_expiring_within env c n =
     map_option (\<lambda>expires. expires \<le> env_utc env + minutes n)
       (Option.bind (kc_expires_at c) (parse_rfc3339 env))"

definition is_token_expired :: "env \<Rightarrow> kiro_credentials \<Rightarrow> bool" where
  "is_token_expired env c = (case is_token_expiring_within env c 5 of Some b \<Rightarrow> b | None \<Rightarrow> True)"

definition is_token_expiring_soon :: "env \<Rightarrow> kiro_credentials \<Rightarrow> bool" where
  "is_token_expiring_soon env c = (case is_token_expiring_within env c 10 of Some b \<Rightarrow> b | None \<Rightarrow> False)"

text \<open>What the two tests come to: a refresh is due within ten minutes of expiry, or when the time
  cannot be read.\<close>

definition refresh_due :: "env \<Rightarrow> kiro_credentials \<Rightarrow> bool" where
  "refresh_due env c \<longleftrightarrow> is_token_expired env c \<or> is_token_expiring_soon env c"

lemma refresh_due_alt:
  "refresh_due env c \<longleftrightarrow>
     (case Option.bind (kc_expires_at c) (parse_rfc3339 env) of
        None \<Rightarrow> True
      | Some t \<Rightarrow> t \<le> env_utc env + minutes 10)"
  by (auto simp: refresh_due_def is_token_expired_def is_token_expiring_soon_def
      is_token_expiring_within_def minutes_def nanos_per_sec_def split: option.split)

lemma refresh_due_expired: "\<not> refresh_due env c \<Longrightarrow> \<not> is_token_expired env c"
  by (simp add: refresh_due_def)

section \<open>Errors\<close>

datatype refresh_error =
    ApiKeyNotRefreshable | MissingRefreshToken | EmptyRefreshToken | TruncatedRefreshToken nat
  | MissingClientId | MissingClientSecret | MissingTokenEndpoint | EndpointRejected
  | ExchangeFailed | BadResponseBody | MissingAccessToken
  | RefreshRateLimited upstream_rate_limit_error | RefreshTokenInvalid | RefreshRejected nat

definition validate_refresh_token_str :: "string \<Rightarrow> refresh_error + unit" where
  "validate_refresh_token_str token =
     (if token = [] then Inl EmptyRefreshToken
      else if length token < 100 \<or> ends_with token ''...'' \<or> contains token ''...''
      then Inl (TruncatedRefreshToken (length token))
      else Inr ())"

definition validate_refresh_token :: "kiro_credentials \<Rightarrow> refresh_error + unit" where
  "validate_refresh_token c =
     (case kc_refresh_token c of
        None \<Rightarrow> Inl MissingRefreshToken
      | Some token \<Rightarrow> validate_refresh_token_str token)"

section \<open>The exchange with the identity providers\<close>

datatype request_body = JsonBody "(string \<times> string) list" | FormBody "(string \<times> string) list"

record token_request =
  rq_url :: string
  rq_body :: request_body

record http_response =
  rs_status :: nat
  rs_retry_after :: "string option"
  rs_body :: string

text \<open>\<open>RefreshResponse\<close>, \<open>IdcRefreshResponse\<close> and \<open>ExternalIdpTokenResponse\<close>; the last has no
  \<open>profile_arn\<close>. \<open>expires_in\<close> is a number of seconds.\<close>

record token_response =
  tr_access_token :: string
  tr_refresh_token :: "string option"
  tr_profile_arn :: "string option"
  tr_expires_in :: "int option"

record upstream =
  up_send :: "token_request \<Rightarrow> proxy_config option \<Rightarrow> http_response option"
  up_parse_social :: "string \<Rightarrow> token_response option"
  up_parse_idc :: "string \<Rightarrow> token_response option"
  up_parse_external :: "string \<Rightarrow> token_response option"
  up_endpoint_allowed :: "string \<Rightarrow> bool"
  up_is_http_date :: "string \<Rightarrow> bool"

definition is_success :: "http_response \<Rightarrow> bool" where
  "is_success r \<longleftrightarrow> 200 \<le> rs_status r \<and> rs_status r < 300"

text \<open>The error of an answer that is not a success; \<open>invalid\<close> is the test for a refresh token that
  is gone for good.\<close>

definition rejected :: "upstream \<Rightarrow> (string \<Rightarrow> bool) \<Rightarrow> http_response \<Rightarrow> refresh_error" where
  "rejected up invalid r =
     (if rs_status r = 429 then RefreshRateLimited (rate_limit_error (up_is_http_date up) (rs_retry_after r))
      else if rs_status r = 400 \<and> invalid (rs_body r) then RefreshTokenInvalid
      else RefreshRejected (rs_status r))"

text \<open>\<open>"invalid_grant"\<close> is looked for with its quotes by the first two kinds and without them by the
  third.\<close>

definition invalid_grant_with_message :: "string \<Rightarrow> bool" where
  "invalid_grant_with_message body \<longleftrightarrow>
     contains body ''\"invalid_grant\"'' \<and> contains body ''Invalid refresh token provided''"

definition invalid_grant :: "string \<Rightarrow> bool" where
  "invalid_grant body \<longleftrightarrow> contains body ''invalid_grant''"

definition expires_after :: "env \<Rightarrow> int \<Rightarrow> string" where
  "expires_after env secs = to_rfc3339 env (env_utc env + secs * int nanos_per_sec)"

text \<open>The new credential of a successful answer.\<close>

definition updated_credentials ::
  "env \<Rightarrow> token_response \<Rightarrow> kiro_credentials \<Rightarrow> kiro_credentials" where
  "updated_credentials env d c =
     (let c = c\<lparr>kc_access_token := Some (tr_access_token d)\<rparr>;
          c = (case tr_refresh_token d of Some t \<Rightarrow> c\<lparr>kc_refresh_token := Some t\<rparr> | None \<Rightarrow> c);
          c = (case tr_profile_arn d of Some a \<Rightarrow> c\<lparr>kc_profile_arn := Some a\<rparr> | None \<Rightarrow> c) in
      case tr_expires_in d of
        Some secs \<Rightarrow> c\<lparr>kc_expires_at := Some (expires_after env secs)\<rparr>
      | None \<Rightarrow> c)"

definition refresh_social_token ::
  "env \<Rightarrow> upstream \<Rightarrow> region_config \<Rightarrow> kiro_credentials \<Rightarrow> proxy_config option \<Rightarrow>
   refresh_error + kiro_credentials"
where
  "refresh_social_token env up g c proxy =
     (let token = the (kc_refresh_token c);
          region = effective_auth_region g c;
          url = ''https://prod.'' @ region @ ''.auth.desktop.kiro.dev/refreshToken'' in
      case up_send up \<lparr>rq_url = url, rq_body = JsonBody [(''refreshToken'', token)]\<rparr> proxy of
        None \<Rightarrow> Inl ExchangeFailed
      | Some r \<Rightarrow>
          if \<not> is_success r then Inl (rejected up invalid_grant_with_message r)
          else (case up_parse_social up (rs_body r) of
                  None \<Rightarrow> Inl BadResponseBody
                | Some d \<Rightarrow> Inr (updated_credentials env d c)))"

definition refresh_idc_token ::
  "env \<Rightarrow> upstream \<Rightarrow> region_config \<Rightarrow> kiro_credentials \<Rightarrow> proxy_config option \<Rightarrow>
   refresh_error + kiro_credentials"
where
  "refresh_idc_token env up g c proxy =
     (case kc_client_id c of
        None \<Rightarrow> Inl MissingClientId
      | Some client_id \<Rightarrow>
       (case kc_client_secret c of
          None \<Rightarrow> Inl MissingClientSecret
        | Some client_secret \<Rightarrow>
         (let token = the (kc_refresh_token c);
              url = ''https://oidc.'' @ effective_auth_region g c @ ''.amazonaws.com/token'';
              body = JsonBody [(''clientId'', client_id), (''clientSecret'', client_secret),
                (''refreshToken'', token), (''grantType'', ''refresh_token'')] in
          case up_send up \<lparr>rq_url = url, rq_body = body\<rparr> proxy of
            None \<Rightarrow> Inl ExchangeFailed
          | Some r \<Rightarrow>
              if \<not> is_success r then Inl (rejected up invalid_grant_with_message r)
              else (case up_parse_idc up (rs_body r) of
                      None \<Rightarrow> Inl BadResponseBody
                    | Some d \<Rightarrow> Inr (updated_credentials env d c)))))"

definition nonempty :: "string option \<Rightarrow> string option" where
  "nonempty x = (case x of Some s \<Rightarrow> if s = [] then None else Some s | None \<Rightarrow> None)"

definition refresh_external_idp_token ::
  "env \<Rightarrow> upstream \<Rightarrow> kiro_credentials \<Rightarrow> proxy_config option \<Rightarrow> refresh_error + kiro_credentials"
where
  "refresh_external_idp_token env up c proxy =
     (case nonempty (kc_client_id c) of
        None \<Rightarrow> Inl MissingClientId
      | Some client_id \<Rightarrow>
       (case nonempty (kc_token_endpoint c) of
          None \<Rightarrow> Inl MissingTokenEndpoint
        | Some token_endpoint \<Rightarrow>
          if \<not> up_endpoint_allowed up token_endpoint then Inl EndpointRejected
          else
            (let token = the (kc_refresh_token c);
                form = [(''client_id'', client_id), (''grant_type'', ''refresh_token''),
                  (''refresh_token'', token)] @
                  (case nonempty (kc_scopes c) of Some s \<Rightarrow> [(''scope'', s)] | None \<Rightarrow> []) in
            case up_send up \<lparr>rq_url = token_endpoint, rq_body = FormBody form\<rparr> proxy of
              None \<Rightarrow> Inl ExchangeFailed
            | Some r \<Rightarrow>
                if \<not> is_success r then Inl (rejected up invalid_grant r)
                else (case up_parse_external up (rs_body r) of
                        None \<Rightarrow> Inl BadResponseBody
                      | Some d \<Rightarrow>
                          if tr_access_token d = [] then Inl MissingAccessToken
                          else Inr (updated_credentials env
                            (d\<lparr>tr_refresh_token := nonempty (tr_refresh_token d), tr_profile_arn := None\<rparr>) c)))))"

section \<open>Refreshing\<close>

definition refresh_token ::
  "env \<Rightarrow> upstream \<Rightarrow> region_config \<Rightarrow> kiro_credentials \<Rightarrow> proxy_config option \<Rightarrow>
   refresh_error + kiro_credentials"
where
  "refresh_token env up g c proxy =
     (if is_api_key_credential c then Inl ApiKeyNotRefreshable
      else case validate_refresh_token c of
        Inl e \<Rightarrow> Inl e
      | Inr _ \<Rightarrow>
          if is_external_idp_credential c then refresh_external_idp_token env up c proxy
          else
            let auth_method = (case kc_auth_method c of
                  Some s \<Rightarrow> s
                | None \<Rightarrow> if kc_client_id c \<noteq> None \<and> kc_client_secret c \<noteq> None
                          then ''idc'' else ''social'') in
            if eq_ignore_ascii_case auth_method ''idc'' \<or> eq_ignore_ascii_case auth_method ''builder-id''
              \<or> eq_ignore_ascii_case auth_method ''iam''
            then refresh_idc_token env up g c proxy
            else refresh_social_token env up g c proxy)"

text \<open>\<open>merge_refreshed_credentials\<close>: \<open>None\<close> is \<open>RefreshSupersededError\<close>.\<close>

definition same_auth :: "kiro_credentials \<Rightarrow> kiro_credentials \<Rightarrow> bool" where
  "same_auth c d \<longleftrightarrow>
     kc_access_token c = kc_access_token d \<and> kc_refresh_token c = kc_refresh_token d \<and>
     kc_client_id c = kc_client_id d \<and> kc_client_secret c = kc_client_secret d \<and>
     kc_auth_method c = kc_auth_method d \<and> kc_token_endpoint c = kc_token_endpoint d"

definition merge_refreshed_credentials ::
  "kiro_credentials \<Rightarrow> kiro_credentials \<Rightarrow> kiro_credentials \<Rightarrow> kiro_credentials option" where
  "merge_refreshed_credentials current original refreshed =
     (if \<not> same_auth current original then None
      else
        let c = current\<lparr>kc_access_token := kc_access_token refreshed,
                  kc_refresh_token := kc_refresh_token refreshed\<rparr>;
            c = (if kc_expires_at c = kc_expires_at original \<and>
                    kc_expires_at refreshed \<noteq> kc_expires_at original
                 then c\<lparr>kc_expires_at := kc_expires_at refreshed\<rparr> else c);
            c = (if kc_profile_arn c = kc_profile_arn original \<and>
                    kc_profile_arn refreshed \<noteq> kc_profile_arn original
                 then c\<lparr>kc_profile_arn := kc_profile_arn refreshed\<rparr> else c) in
        Some c)"

section \<open>What a refresh may do\<close>

lemma contains_iff: "contains s p \<longleftrightarrow> (\<exists>a b. s = a @ p @ b)"
proof (induction s)
  case (Cons c s)
  have "(\<exists>a b. c # s = a @ p @ b) \<longleftrightarrow> (\<exists>b. c # s = p @ b) \<or> (\<exists>a b. s = a @ p @ b)"
  proof
    assume "\<exists>a b. c # s = a @ p @ b"
    then obtain a b where "c # s = a @ p @ b" by blast
    then show "(\<exists>b. c # s = p @ b) \<or> (\<exists>a b. s = a @ p @ b)" by (cases a) auto
  next
    assume "(\<exists>b. c # s = p @ b) \<or> (\<exists>a b. s = a @ p @ b)"
    then show "\<exists>a b. c # s = a @ p @ b" by (metis append_Cons append_Nil)
  qed
  with Cons show ?case by (simp add: starts_with_iff)
qed simp

lemma updated_credentials_only:
  "\<exists>t r a e. updated_credentials env d c =
     c\<lparr>kc_access_token := Some t, kc_refresh_token := r, kc_profile_arn := a, kc_expires_at := e\<rparr> \<and>
     (kc_refresh_token c \<noteq> None \<longrightarrow> r \<noteq> None)"
proof -
  let ?u = "updated_credentials env d c"
  have "?u = c\<lparr>kc_access_token := Some (tr_access_token d), kc_refresh_token := kc_refresh_token ?u,
      kc_profile_arn := kc_profile_arn ?u, kc_expires_at := kc_expires_at ?u\<rparr>"
    by (simp add: updated_credentials_def Let_def split: option.split)
  moreover have "kc_refresh_token c \<noteq> None \<longrightarrow> kc_refresh_token ?u \<noteq> None"
    by (simp add: updated_credentials_def Let_def split: option.split)
  ultimately show ?thesis by blast
qed

text \<open>What an exchange with a provider may have led to.\<close>

definition exchange_result :: "upstream \<Rightarrow> proxy_config option \<Rightarrow> kiro_credentials \<Rightarrow>
    refresh_error + kiro_credentials \<Rightarrow> bool" where
  "exchange_result up proxy c res \<longleftrightarrow>
     (case res of
        Inr c' \<Rightarrow> \<exists>t r a e. c' = c\<lparr>kc_access_token := Some t, kc_refresh_token := Some r,
          kc_profile_arn := a, kc_expires_at := e\<rparr>
      | Inl RefreshTokenInvalid \<Rightarrow>
          (\<exists>rq r. up_send up rq proxy = Some r \<and> rs_status r = 400 \<and> contains (rs_body r) ''invalid_grant'')
      | Inl (RefreshRateLimited e) \<Rightarrow>
          (\<exists>rq r. up_send up rq proxy = Some r \<and> rs_status r = 429) \<and> \<not> re_local e
      | Inl _ \<Rightarrow> True)"

lemma exchange_result_rejected:
  assumes "up_send up rq proxy = Some r"
    and "\<And>b. invalid b \<Longrightarrow> contains b ''invalid_grant''"
  shows "exchange_result up proxy c (Inl (rejected up invalid r))"
  using assms by (auto simp: exchange_result_def rejected_def)

lemma exchange_result_updated:
  assumes "kc_refresh_token c \<noteq> None"
  shows "exchange_result up proxy c (Inr (updated_credentials env d c))"
  using updated_credentials_only [of env d c] assms by (auto simp: exchange_result_def)

lemma invalid_grant_quoted: "invalid_grant_with_message b \<Longrightarrow> contains b ''invalid_grant''"
proof -
  assume "invalid_grant_with_message b"
  then obtain x y where "b = x @ ''\"invalid_grant\"'' @ y"
    unfolding invalid_grant_with_message_def contains_iff by blast
  then have "b = (x @ ''\"'') @ ''invalid_grant'' @ (''\"'' @ y)" by simp
  then show ?thesis unfolding contains_iff by blast
qed

lemma exchange_result_other:
  assumes "e \<noteq> RefreshTokenInvalid" "\<And>x. e \<noteq> RefreshRateLimited x"
  shows "exchange_result up proxy c (Inl e)"
  using assms by (simp add: exchange_result_def split: refresh_error.split)

lemma exchange_result_answer:
  assumes "kc_refresh_token c \<noteq> None"
    and "\<And>b. invalid b \<Longrightarrow> contains b ''invalid_grant''"
    and "\<And>d. exchange_result up proxy c (continue d)"
  shows "exchange_result up proxy c
    (case up_send up rq proxy of
       None \<Rightarrow> Inl ExchangeFailed
     | Some r \<Rightarrow>
         if \<not> is_success r then Inl (rejected up invalid r)
         else (case parse r of None \<Rightarrow> Inl BadResponseBody | Some d \<Rightarrow> continue d))"
proof (cases "up_send up rq proxy")
  case (Some r)
  then have "exchange_result up proxy c (Inl (rejected up invalid r))"
    using assms(2) by (rule exchange_result_rejected)
  with Some assms(3) show ?thesis by (auto intro: exchange_result_other split: option.split)
qed (auto intro: exchange_result_other)

lemma exchange_result_option:
  "exchange_result up proxy c (Inl e) \<Longrightarrow> (\<And>y. exchange_result up proxy c (f y)) \<Longrightarrow>
   exchange_result up proxy c (case x of None \<Rightarrow> Inl e | Some y \<Rightarrow> f y)"
  by (cases x) auto

lemma exchange_result_if:
  "exchange_result up proxy c r1 \<Longrightarrow> exchange_result up proxy c r2 \<Longrightarrow>
   exchange_result up proxy c (if b then r1 else r2)"
  by simp

lemma exchange_results:
  assumes "kc_refresh_token c \<noteq> None"
  shows "exchange_result up proxy c (refresh_social_token env up g c proxy)"
    and "exchange_result up proxy c (refresh_idc_token env up g c proxy)"
    and "exchange_result up proxy c (refresh_external_idp_token env up c proxy)"
proof -
  note answer = exchange_result_answer [OF assms]
  note updated = exchange_result_updated [OF assms]
  have other: "exchange_result up proxy c (Inl e)"
    if "e \<in> {MissingClientId, MissingClientSecret, MissingTokenEndpoint, EndpointRejected, MissingAccessToken}" for e
    using that by (auto intro: exchange_result_other)
  show "exchange_result up proxy c (refresh_social_token env up g c proxy)"
    unfolding refresh_social_token_def Let_def
    by (rule answer [OF invalid_grant_quoted]) (simp_all add: updated)
  show "exchange_result up proxy c (refresh_idc_token env up g c proxy)"
    unfolding refresh_idc_token_def Let_def
    by (rule exchange_result_option [OF other] exchange_result_option answer [OF invalid_grant_quoted]
        updated | simp)+
  show "exchange_result up proxy c (refresh_external_idp_token env up c proxy)"
    unfolding refresh_external_idp_token_def Let_def
    by (rule exchange_result_option [OF other] exchange_result_if answer [where invalid = invalid_grant]
        updated other | simp add: invalid_grant_def)+
qed

text \<open>A refresh token fit to be sent: long enough, and not shortened with dots.\<close>

definition sendable :: "kiro_credentials \<Rightarrow> bool" where
  "sendable c \<longleftrightarrow>
     (case kc_refresh_token c of
        None \<Rightarrow> False
      | Some token \<Rightarrow> 100 \<le> length token \<and> \<not> contains token ''...'')"

lemma validate_refresh_token_ok: "validate_refresh_token c = Inr u \<longleftrightarrow> sendable c"
proof -
  have "contains token p" if "ends_with token p" for token p :: string
  proof -
    from that obtain r where "rev token = rev p @ r" unfolding ends_with_def starts_with_iff by blast
    then have "token = rev r @ p @ []" by (metis append_Nil2 rev_append rev_rev_ident)
    then show ?thesis unfolding contains_iff by blast
  qed
  then show ?thesis
    by (auto simp: sendable_def validate_refresh_token_def validate_refresh_token_str_def
        split: option.splits)
qed

definition endpoint_ok :: "upstream \<Rightarrow> kiro_credentials \<Rightarrow> bool" where
  "endpoint_ok up c \<longleftrightarrow>
     \<not> is_external_idp_credential c \<or>
     (\<exists>url. kc_token_endpoint c = Some url \<and> up_endpoint_allowed up url)"

text \<open>C35: What a refresh may do. A success gives the old credential with a new access token, a refresh
  token, profile and expiry and nothing else changed. A refresh token is declared lost only on an
  answer with status 400 that names \<open>invalid_grant\<close>, and a rate limit reported only on status 429.
  And whatever the network would answer is irrelevant, since nothing is sent, for an API key, for a
  token that is missing or was shortened, and for an endpoint that is not on the allow list.\<close>

theorem refresh_token_spec:
  "exchange_result up proxy c (refresh_token env up g c proxy) \<and>
   (is_api_key_credential c \<or> \<not> sendable c \<or> \<not> endpoint_ok up c \<longrightarrow>
    (\<exists>e. \<forall>send. refresh_token env (up\<lparr>up_send := send\<rparr>) g c proxy = Inl e))"
proof (cases "is_api_key_credential c")
  case True
  then show ?thesis by (simp add: refresh_token_def exchange_result_def)
next
  case key: False
  show ?thesis
  proof (cases "validate_refresh_token c")
    case (Inl e)
    then have "e \<noteq> RefreshTokenInvalid \<and> (\<forall>x. e \<noteq> RefreshRateLimited x)"
      by (auto simp: validate_refresh_token_def validate_refresh_token_str_def
          split: option.splits if_splits)
    with Inl key show ?thesis
      by (auto simp: refresh_token_def intro: exchange_result_other)
  next
    case (Inr u)
    then have s: "sendable c" by (simp add: validate_refresh_token_ok)
    then have "kc_refresh_token c \<noteq> None" by (cases "kc_refresh_token c") (auto simp: sendable_def)
    from exchange_results [OF this] key Inr
    have "exchange_result up proxy c (refresh_token env up g c proxy)"
      by (simp add: refresh_token_def Let_def)
    moreover have "\<exists>e. \<forall>send. refresh_token env (up\<lparr>up_send := send\<rparr>) g c proxy = Inl e"
      if "\<not> endpoint_ok up c"
    proof -
      have "\<exists>e. \<forall>send. refresh_external_idp_token env (up\<lparr>up_send := send\<rparr>) c proxy = Inl e"
        using that by (auto simp: refresh_external_idp_token_def nonempty_def endpoint_ok_def
            split: option.split)
      with that key Inr show ?thesis by (simp add: refresh_token_def endpoint_ok_def)
    qed
    ultimately show ?thesis using key s by blast
  qed
qed

section \<open>A small upstream\<close>

definition sample_upstream :: upstream where
  "sample_upstream =
     \<lparr>up_send = (\<lambda>rq proxy. Some \<lparr>rs_status = 200, rs_retry_after = None, rs_body = []\<rparr>),
      up_parse_social = (\<lambda>s. Some \<lparr>tr_access_token = ''new'', tr_refresh_token = None,
        tr_profile_arn = None, tr_expires_in = Some 3600\<rparr>),
      up_parse_idc = (\<lambda>s. None), up_parse_external = (\<lambda>s. None),
      up_endpoint_allowed = (\<lambda>s. False), up_is_http_date = (\<lambda>s. False)\<rparr>"

theorem refresh_token_spec_witness:
  "\<exists>e. refresh_token sample_env sample_upstream
     \<lparr>cfg_region = ''us-east-1'', cfg_auth_region = None, cfg_api_region = None\<rparr>
     (default_credentials\<lparr>kc_refresh_token := Some ''shortened...''\<rparr>) None = Inl e"
proof -
  let ?c = "default_credentials\<lparr>kc_refresh_token := Some ''shortened...''\<rparr>"
  have "\<not> sendable ?c" by (simp add: sendable_def)
  then obtain e where "\<forall>send. refresh_token sample_env (sample_upstream\<lparr>up_send := send\<rparr>)
      \<lparr>cfg_region = ''us-east-1'', cfg_auth_region = None, cfg_api_region = None\<rparr> ?c None = Inl e"
    using refresh_token_spec [of sample_upstream None ?c sample_env
        "\<lparr>cfg_region = ''us-east-1'', cfg_auth_region = None, cfg_api_region = None\<rparr>"] by blast
  from spec [OF this, of "up_send sample_upstream"] show ?thesis by simp
qed

end
