(* ===== verification/AcquireContext.thy ===== *)
theory AcquireContext
  imports FailureReports TokenRefresh
begin

text \<open>
  Getting hold of a credential and a valid token for one request (\<open>acquire_context_impl\<close>,
  \<open>try_ensure_token\<close>, \<open>handle_token_refresh_error\<close> and \<open>try_reload_credential_from_file\<close> of
  \<open>src/kiro/token_manager.rs\<close>). The code gives up its locks while it waits for the refresh lock
  and for the identity provider; what other requests do meanwhile is part of the \<open>world\<close> of an
  attempt, as two functions on the manager: \<open>w_wait\<close> from the choice of the credential to the
  moment the refresh lock is held, \<open>w_exchange\<close> during the exchange. They may also change the
  credentials file, as another program may. A world also has the clocks of the three moments and the
  upstream service. The loop may go round without counting an attempt, so it gets fuel: \<open>None\<close>
  is a loop that has not ended yet.
\<close>

record world =
  w_select :: env
  w_locked :: env
  w_done :: env
  w_wait :: "manager \<Rightarrow> manager"
  w_exchange :: "manager \<Rightarrow> manager"
  w_upstream :: upstream

text \<open>A world in which nobody else acts and no time passes.\<close>

definition quiet :: "world \<Rightarrow> bool" where
  "quiet w \<longleftrightarrow> w_wait w = id \<and> w_exchange w = id \<and> w_locked w = w_select w \<and> w_done w = w_select w"

section \<open>A valid token\<close>

datatype ensure_error =
    MissingApiKey | CredentialGone | RefreshFailed refresh_error | StillExpired | Superseded | NoAccessToken

record call_context =
  cx_id :: u64
  cx_credentials :: kiro_credentials
  cx_token :: string
  cx_guard :: bool

text \<open>The part of \<open>try_ensure_token\<close> that runs under the refresh lock.\<close>

definition refresh_locked ::
  "region_config \<Rightarrow> world \<Rightarrow> u64 \<Rightarrow> manager \<Rightarrow> (ensure_error + kiro_credentials) \<times> manager"
where
  "refresh_locked g w i m =
     (case find_entry i m of
        None \<Rightarrow> (Inl CredentialGone, m)
      | Some e \<Rightarrow>
         (let current = ce_credentials e in
          if \<not> refresh_due (w_locked w) current then (Inr current, m)
          else
           (case refresh_token (w_done w) (w_upstream w) g current (effective_proxy (m_proxy m) current) of
              Inl err \<Rightarrow> (Inl (RefreshFailed err), w_exchange w m)
            | Inr refreshed \<Rightarrow>
                if is_token_expired (w_done w) refreshed then (Inl StillExpired, w_exchange w m)
                else
                 (let m = w_exchange w m in
                  case find_entry i m of
                    None \<Rightarrow> (Inl CredentialGone, m)
                  | Some e' \<Rightarrow>
                     (case merge_refreshed_credentials (ce_credentials e') current refreshed of
                        None \<Rightarrow> (Inl Superseded, m)
                      | Some merged \<Rightarrow>
                          (Inr merged,
                           snd (persist_credentials (w_done w)
                             (update_entry i (\<lambda>e. e\<lparr>ce_credentials := merged\<rparr>) m))))))))"

definition try_ensure_token ::
  "region_config \<Rightarrow> world \<Rightarrow> u64 \<Rightarrow> kiro_credentials \<Rightarrow> manager \<Rightarrow>
   (ensure_error + call_context) \<times> manager"
where
  "try_ensure_token g w i c m =
     (if is_api_key_credential c
      then (case kc_kiro_api_key c of
              None \<Rightarrow> (Inl MissingApiKey, m)
            | Some key \<Rightarrow>
                (Inr \<lparr>cx_id = i, cx_credentials = c, cx_token = key, cx_guard = False\<rparr>, m))
      else
        case (if refresh_due (w_select w) c then refresh_locked g w i (w_wait w m) else (Inr c, m)) of
          (Inl e, m) \<Rightarrow> (Inl e, m)
        | (Inr creds, m) \<Rightarrow>
           (case kc_access_token creds of
              None \<Rightarrow> (Inl NoAccessToken, m)
            | Some token \<Rightarrow>
                (Inr \<lparr>cx_id = i, cx_credentials = creds, cx_token = token, cx_guard = False\<rparr>,
                 update_entry i (\<lambda>e. e\<lparr>ce_refresh_failure_count := 0\<rparr>) m)))"

text \<open>The two other callers of the same sequence: \<open>prepare_request_token\<close> (administration queries)
  and \<open>force_refresh_token_for\<close>.\<close>

definition prepare_request_token ::
  "region_config \<Rightarrow> world \<Rightarrow> u64 \<Rightarrow> manager \<Rightarrow> (ensure_error + string \<times> kiro_credentials) \<times> manager"
where
  "prepare_request_token g w i m =
     (case find_entry i m of
        None \<Rightarrow> (Inl CredentialGone, m)
      | Some e \<Rightarrow>
         (let c = ce_credentials e;
              (token, m) =
               (if is_api_key_credential c
                then (case kc_kiro_api_key c of None \<Rightarrow> (Inl MissingApiKey, m) | Some key \<Rightarrow> (Inr key, m))
                else if \<not> refresh_due (w_select w) c
                then (case kc_access_token c of None \<Rightarrow> (Inl NoAccessToken, m) | Some t \<Rightarrow> (Inr t, m))
                else
                 (let m = w_wait w m in
                  case find_entry i m of
                    None \<Rightarrow> (Inl CredentialGone, m)
                  | Some e \<Rightarrow>
                     (let current = ce_credentials e in
                      if \<not> refresh_due (w_locked w) current
                      then (case kc_access_token current of
                              None \<Rightarrow> (Inl NoAccessToken, m) | Some t \<Rightarrow> (Inr t, m))
                      else
                       (case refresh_token (w_done w) (w_upstream w) g current
                               (effective_proxy (m_proxy m) current) of
                          Inl err \<Rightarrow> (Inl (RefreshFailed err), w_exchange w m)
                        | Inr refreshed \<Rightarrow>
                           (let m = w_exchange w m in
                            case find_entry i m of
                              None \<Rightarrow> (Inl CredentialGone, m)
                            | Some e' \<Rightarrow>
                               (case merge_refreshed_credentials (ce_credentials e') current refreshed of
                                  None \<Rightarrow> (Inl Superseded, m)
                                | Some merged \<Rightarrow>
                                   (let m = snd (persist_credentials (w_done w)
                                          (update_entry i (\<lambda>e. e\<lparr>ce_credentials := merged\<rparr>) m)) in
                                    case kc_access_token refreshed of
                                      None \<Rightarrow> (Inl NoAccessToken, m)
                                    | Some t \<Rightarrow> (Inr t, m))))))))
          in
          case token of
            Inl err \<Rightarrow> (Inl err, m)
          | Inr t \<Rightarrow>
             (case find_entry i m of
                None \<Rightarrow> (Inl CredentialGone, m)
              | Some e \<Rightarrow> (Inr (t, ce_credentials e), m))))"

definition force_refresh_token_for ::
  "region_config \<Rightarrow> world \<Rightarrow> u64 \<Rightarrow> manager \<Rightarrow> (ensure_error + unit) \<times> manager"
where
  "force_refresh_token_for g w i m =
     (let m = w_wait w m in
      case find_entry i m of
        None \<Rightarrow> (Inl CredentialGone, m)
      | Some e \<Rightarrow>
         (let current = ce_credentials e in
          case refresh_token (w_done w) (w_upstream w) g current (effective_proxy (m_proxy m) current) of
            Inl err \<Rightarrow> (Inl (RefreshFailed err), w_exchange w m)
          | Inr refreshed \<Rightarrow>
             (let m = w_exchange w m in
              case find_entry i m of
                None \<Rightarrow> (Inl CredentialGone, m)
              | Some e' \<Rightarrow>
                 (case merge_refreshed_credentials (ce_credentials e') current refreshed of
                    None \<Rightarrow> (Inl Superseded, m)
                  | Some merged \<Rightarrow>
                     (let m = update_entry i
                            (\<lambda>e. e\<lparr>ce_credentials := merged, ce_refresh_failure_count := 0\<rparr>) m;
                          m = invalidate_model_cache i m in
                      (Inr (), snd (persist_credentials (w_done w) m)))))))"

section \<open>Reloading a rotated token\<close>

text \<open>\<open>m_credentials_file\<close> is \<open>None\<close> for a file that is missing or cannot be parsed.\<close>

definition file_match :: "u64 option \<Rightarrow> string option \<Rightarrow> kiro_credentials \<Rightarrow> bool" where
  "file_match cred_id email fc \<longleftrightarrow>
     (kc_id fc \<noteq> None \<and> kc_id fc = cred_id) \<or> (kc_email fc \<noteq> None \<and> kc_email fc = email)"

definition matched_file_credential ::
  "kiro_credentials list \<Rightarrow> nat \<Rightarrow> kiro_credentials \<Rightarrow> kiro_credentials option" where
  "matched_file_credential file_creds entries_len c =
     (case List.find (file_match (kc_id c) (kc_email c)) file_creds of
        Some fc \<Rightarrow> Some fc
      | None \<Rightarrow> if length file_creds = 1 \<and> entries_len = 1 then Some (hd file_creds) else None)"

definition reloaded :: "kiro_credentials \<Rightarrow> entry \<Rightarrow> entry" where
  "reloaded fc e =
     e\<lparr>ce_credentials := (ce_credentials e)\<lparr>kc_refresh_token := kc_refresh_token fc,
          kc_access_token := kc_access_token fc, kc_expires_at := kc_expires_at fc\<rparr>,
       ce_disabled := False, ce_disabled_reason := None,
       ce_refresh_failure_count := 0, ce_failure_count := 0\<rparr>"

definition try_reload_credential_from_file :: "u64 \<Rightarrow> manager \<Rightarrow> bool \<times> manager" where
  "try_reload_credential_from_file i m =
     (if \<not> m_has_credentials_path m then (False, m)
      else
        case m_credentials_file m of
          None \<Rightarrow> (False, m)
        | Some file \<Rightarrow>
           (let file_creds = into_sorted_credentials file in
            if file_creds = [] then (False, m)
            else
              case find_entry i m of
                None \<Rightarrow> (False, m)
              | Some e \<Rightarrow>
                 (case matched_file_credential file_creds (length (m_entries m)) (ce_credentials e) of
                    None \<Rightarrow> (False, m)
                  | Some fc \<Rightarrow>
                      if kc_refresh_token fc = None \<or>
                         kc_refresh_token fc = kc_refresh_token (ce_credentials e)
                      then (False, m)
                      else (True, invalidate_model_cache i (update_entry i (reloaded fc) m)))))"

section \<open>The request loop\<close>

datatype acquire_error = RateLimited upstream_rate_limit_error | NoAvailableCredentials

definition handle_token_refresh_error ::
  "env \<Rightarrow> u64 \<Rightarrow> ensure_error \<Rightarrow> manager \<Rightarrow> (acquire_error + bool option) \<times> manager"
where
  "handle_token_refresh_error env i err m =
     (case err of
        RefreshFailed (RefreshRateLimited e) \<Rightarrow> (Inl (RateLimited e), m)
      | RefreshFailed RefreshTokenInvalid \<Rightarrow>
          (case try_reload_credential_from_file i m of
             (True, m) \<Rightarrow> (Inr None, m)
           | (False, m) \<Rightarrow>
               (case report_refresh_token_invalid env i m of (b, m) \<Rightarrow> (Inr (Some b), m)))
      | _ \<Rightarrow> (case report_refresh_failure env i m of (b, m) \<Rightarrow> (Inr (Some b), m)))"

text \<open>The answer when no credential is eligible.\<close>

definition capacity_error ::
  "env \<Rightarrow> (string \<Rightarrow> bool) \<Rightarrow> string option \<Rightarrow> string option \<Rightarrow> manager \<Rightarrow> acquire_error"
where
  "capacity_error env is_http_date model grp m =
     (case capacity_retry_after_secs m model grp (env_now env) of
        Some retry_after \<Rightarrow>
          if \<exists>e \<in> set (m_entries m). matches_request m model grp e \<and> rpm_exceeded m e (env_now env)
          then RateLimited (local_rpm_limit retry_after)
          else RateLimited (rate_limit_error is_http_date (Some (decimal retry_after)))
      | None \<Rightarrow>
         (case min_by_key id (List.map_filter (\<lambda>e.
                 case ce_throttled_until e of
                   Some t \<Rightarrow> if env_now env \<le> t then Some (secs_ceil (t - env_now env)) else None
                 | None \<Rightarrow> None)
               (filter (matches_request m model grp) (m_entries m))) of
            Some retry_after \<Rightarrow> RateLimited (rate_limit_error is_http_date (Some (decimal retry_after)))
          | None \<Rightarrow> NoAvailableCredentials))"

text \<open>The choice of a credential: the sticky one, else by the balancing mode, else once more after
  self-healing.\<close>

definition select_or_heal ::
  "env \<Rightarrow> string option \<Rightarrow> string option \<Rightarrow> bool \<Rightarrow> manager \<Rightarrow> selection option \<times> manager"
where
  "select_or_heal env model grp upd m =
     (case select_next_credential_impl env model grp upd upd m of
        (Some s, m) \<Rightarrow> (Some s, m)
      | (None, m) \<Rightarrow>
         (case try_self_heal env model grp m of
            (True, m) \<Rightarrow> select_next_credential_impl env model grp upd upd m
          | (False, m) \<Rightarrow> (None, m)))"

definition choose_credential ::
  "env \<Rightarrow> string option \<Rightarrow> string option \<Rightarrow> string option \<Rightarrow> bool \<Rightarrow> manager \<Rightarrow>
   (selection option \<times> route_decision) \<times> manager"
where
  "choose_credential env model grp session upd m =
     (case sticky_candidate env session model grp m of
        ((Some (i, c), route), m) \<Rightarrow>
          if upd then (case acquire_in_flight_guard i m of (guard, m) \<Rightarrow> ((Some (i, c, guard), route), m))
          else ((Some (i, c, False), route), m)
      | ((None, route), m) \<Rightarrow>
          (case select_or_heal env model grp upd m of (best, m) \<Rightarrow> ((best, route), m)))"

text \<open>The guard of an attempt that is given up is dropped.\<close>

definition drop_guard :: "bool \<Rightarrow> u64 \<Rightarrow> manager \<Rightarrow> manager" where
  "drop_guard guard i m = (if guard then update_entry i release_in_flight m else m)"

type_synonym acquired = "call_context \<times> bool \<times> route_decision"

datatype attempt_outcome = Done "acquire_error + acquired" | Retry bool

text \<open>One round of the loop; \<open>Retry b\<close> goes round again and counts an attempt if \<open>b\<close>.\<close>

definition attempt ::
  "region_config \<Rightarrow> world \<Rightarrow> string option \<Rightarrow> string option \<Rightarrow> string option \<Rightarrow> bool \<Rightarrow> manager \<Rightarrow>
   attempt_outcome \<times> manager"
where
  "attempt g w model grp session upd m =
     (let is_balanced = (fst (resolve_load_balancing_for_group m grp) = ''balanced'') in
      case choose_credential (w_select w) model grp session upd m of
        ((None, route), m) \<Rightarrow>
          (Done (Inl (capacity_error (w_select w) (up_is_http_date (w_upstream w)) model grp m)), m)
      | ((Some (i, c, guard), route), m) \<Rightarrow>
         (let m = (if upd then m\<lparr>m_current_id := i\<rparr> else m) in
          case try_ensure_token g w i c m of
            (Inr ctx, m) \<Rightarrow>
             (case (if upd then record_request (w_done w) i m else (True, m)) of
                (True, m) \<Rightarrow> (Done (Inr (ctx\<lparr>cx_guard := guard\<rparr>, is_balanced, route)), m)
              | (False, m) \<Rightarrow> (Retry False, drop_guard guard i m))
          | (Inl Superseded, m) \<Rightarrow> (Retry True, drop_guard guard i m)
          | (Inl err, m) \<Rightarrow>
             (case handle_token_refresh_error (w_done w) i err m of
                (Inl e, m) \<Rightarrow> (Done (Inl e), drop_guard guard i m)
              | (Inr None, m) \<Rightarrow> (Retry False, drop_guard guard i m)
              | (Inr (Some has_available), m) \<Rightarrow>
                  (if has_available then Retry True else Done (Inl NoAvailableCredentials),
                   drop_guard guard i m))))"

fun acquire_loop ::
  "nat \<Rightarrow> region_config \<Rightarrow> (nat \<Rightarrow> world) \<Rightarrow> string option \<Rightarrow> string option \<Rightarrow> string option \<Rightarrow>
   bool \<Rightarrow> nat \<Rightarrow> nat \<Rightarrow> manager \<Rightarrow> (acquire_error + acquired) option \<times> manager"
where
  "acquire_loop 0 g worlds model grp session upd max_attempts attempts m = (None, m)"
| "acquire_loop (Suc fuel) g worlds model grp session upd max_attempts attempts m =
     (if max_attempts \<le> attempts then (Some (Inl NoAvailableCredentials), m)
      else
        case attempt g (worlds 0) model grp session upd m of
          (Done r, m) \<Rightarrow> (Some r, m)
        | (Retry counted, m) \<Rightarrow>
            acquire_loop fuel g (\<lambda>k. worlds (Suc k)) model grp session upd max_attempts
              (if counted then Suc attempts else attempts) m)"

definition max_attempts_of :: "string option \<Rightarrow> manager \<Rightarrow> nat" where
  "max_attempts_of grp m = max (total_count_in_group grp m * unat MAX_FAILURES_PER_CREDENTIAL) 1"

definition acquire_context_impl ::
  "nat \<Rightarrow> region_config \<Rightarrow> (nat \<Rightarrow> world) \<Rightarrow> string option \<Rightarrow> string option \<Rightarrow> string option \<Rightarrow>
   bool \<Rightarrow> manager \<Rightarrow> (acquire_error + acquired) option \<times> manager"
where
  "acquire_context_impl fuel g worlds model grp session upd m =
     acquire_loop fuel g worlds model grp session upd (max_attempts_of grp m) 0 m"

section \<open>Refreshing beside other requests\<close>

lemma merge_refreshed_Some:
  "merge_refreshed_credentials cur orig new = Some c \<Longrightarrow>
   same_auth cur orig \<and>
   c = cur\<lparr>kc_access_token := kc_access_token new, kc_refresh_token := kc_refresh_token new,
     kc_expires_at := kc_expires_at c, kc_profile_arn := kc_profile_arn c\<rparr> \<and>
   (kc_expires_at cur \<noteq> kc_expires_at orig \<longrightarrow> kc_expires_at c = kc_expires_at cur) \<and>
   (kc_profile_arn cur \<noteq> kc_profile_arn orig \<longrightarrow> kc_profile_arn c = kc_profile_arn cur)"
  by (auto simp: merge_refreshed_credentials_def Let_def split: if_splits)

lemma merge_refreshed_same:
  "merge_refreshed_credentials cur cur new = Some c \<Longrightarrow> kc_expires_at c = kc_expires_at new"
  by (auto simp: merge_refreshed_credentials_def Let_def split: if_splits)

lemma merge_refreshed_None: "merge_refreshed_credentials cur orig new = None \<longleftrightarrow> \<not> same_auth cur orig"
  by (simp add: merge_refreshed_credentials_def Let_def)

text \<open>C21: A token refresh never overwrites what others changed while it was waiting for the answer. An
  error leaves the manager exactly as the others left it; a success needs the sign-in data of the
  credential to be still those that were sent, changes no entry but its own, and in that entry only
  the two tokens and, unless they were changed meanwhile, the expiry and the profile ARN.\<close>

theorem refresh_keeps_concurrent_changes:
  assumes "find_entry i m = Some e" and "refresh_due (w_locked w) (ce_credentials e)"
  shows "case refresh_locked g w i m of
      (Inl err, m') \<Rightarrow> m' = w_exchange w m
    | (Inr c', m') \<Rightarrow>
        (\<exists>e'. find_entry i (w_exchange w m) = Some e' \<and>
          (let c = ce_credentials e'; sent = ce_credentials e in
             kc_access_token c = kc_access_token sent \<and> kc_refresh_token c = kc_refresh_token sent \<and>
             kc_client_id c = kc_client_id sent \<and> kc_client_secret c = kc_client_secret sent \<and>
             kc_auth_method c = kc_auth_method sent \<and> kc_token_endpoint c = kc_token_endpoint sent) \<and>
          (\<exists>t r. c' = (ce_credentials e')\<lparr>kc_access_token := t, kc_refresh_token := r,
             kc_expires_at := kc_expires_at c', kc_profile_arn := kc_profile_arn c'\<rparr>) \<and>
          (kc_expires_at (ce_credentials e') \<noteq> kc_expires_at (ce_credentials e) \<longrightarrow>
             kc_expires_at c' = kc_expires_at (ce_credentials e')) \<and>
          (kc_profile_arn (ce_credentials e') \<noteq> kc_profile_arn (ce_credentials e) \<longrightarrow>
             kc_profile_arn c' = kc_profile_arn (ce_credentials e'))) \<and>
        m_entries m' = update_first (\<lambda>x. ce_id x = i) (\<lambda>x. x\<lparr>ce_credentials := c'\<rparr>)
          (m_entries (w_exchange w m))"
proof (cases "refresh_token (w_done w) (w_upstream w) g (ce_credentials e)
    (effective_proxy (m_proxy m) (ce_credentials e))")
  case (Inl err)
  with assms show ?thesis by (simp add: refresh_locked_def Let_def)
next
  case (Inr new)
  show ?thesis
  proof (cases "is_token_expired (w_done w) new")
    case True
    with Inr assms show ?thesis by (simp add: refresh_locked_def Let_def)
  next
    case fresh: False
    show ?thesis
    proof (cases "find_entry i (w_exchange w m)")
      case None
      with fresh Inr assms show ?thesis by (simp add: refresh_locked_def Let_def)
    next
      case (Some e')
      show ?thesis
      proof (cases "merge_refreshed_credentials (ce_credentials e') (ce_credentials e) new")
        case None
        with Some fresh Inr assms show ?thesis by (simp add: refresh_locked_def Let_def)
      next
        case merged: (Some c')
        from merged Some fresh Inr assms
        have r: "refresh_locked g w i m = (Inr c', snd (persist_credentials (w_done w)
            (update_entry i (\<lambda>e. e\<lparr>ce_credentials := c'\<rparr>) (w_exchange w m))))"
          by (simp add: refresh_locked_def Let_def)
        from merge_refreshed_Some [OF merged] show ?thesis
          unfolding r prod.case sum.case by (intro conjI exI [of _ e']) (use Some in \<open>auto simp: same_auth_def\<close>)
      qed
    qed
  qed
qed

section \<open>What an attempt returns\<close>

lemma attempt_acquired:
  assumes "attempt g w model grp session upd m = (Done (Inr (ctx, bal, route)), m')"
  obtains m1 i c guard ctx0 m2 where
    "choose_credential (w_select w) model grp session upd m = ((Some (i, c, guard), route), m1)"
    "try_ensure_token g w i c (if upd then m1\<lparr>m_current_id := i\<rparr> else m1) = (Inr ctx0, m2)"
    "ctx = ctx0\<lparr>cx_guard := guard\<rparr>"
    "(if upd then record_request (w_done w) i m2 else (True, m2)) = (True, m')"
proof -
  obtain sel r1 m1 where ch: "choose_credential (w_select w) model grp session upd m = ((sel, r1), m1)"
    by (metis prod.exhaust)
  with assms obtain i c guard where sel: "sel = Some (i, c, guard)"
    by (cases sel) (auto simp: attempt_def)
  obtain res m2 where te: "try_ensure_token g w i c (if upd then m1\<lparr>m_current_id := i\<rparr> else m1) = (res, m2)"
    by fastforce
  show ?thesis
  proof (cases res)
    case (Inl err)
    with assms ch sel te show ?thesis
      by (cases err) (auto simp: attempt_def Let_def split: prod.splits sum.splits option.splits if_splits)
  next
    case (Inr ctx0)
    with assms ch sel te show ?thesis
      by (intro that [of i c guard m1 ctx0 m2])
        (auto simp: attempt_def Let_def split: prod.splits bool.splits)
  qed
qed

lemma try_ensure_context:
  assumes "try_ensure_token g w i c m = (Inr ctx, m')"
  shows "cx_id ctx = i \<and> (kc_kiro_api_key (cx_credentials ctx) = Some (cx_token ctx) \<or>
    kc_access_token (cx_credentials ctx) = Some (cx_token ctx))"
  using assms by (auto simp: try_ensure_token_def split: if_splits option.splits prod.splits sum.splits)

lemma record_request_True:
  assumes "record_request env i m = (True, m')"
  shows "\<exists>e. find_entry i m' = Some e \<and>
    (m_account_rpm_limit_enabled m' \<and> m_account_rpm_limit m' \<noteq> 0 \<longrightarrow>
      ce_rpm_window e \<noteq> [] \<and> last (ce_rpm_window e) = env_now env \<and>
      length (ce_rpm_window e) \<le> unat (m_account_rpm_limit m'))"
  using assms
  by (auto simp: record_request_def Let_def find_entry_update split: option.splits if_splits)

text \<open>In a quiet world the token is fresh.\<close>

definition usable :: "env \<Rightarrow> call_context \<Rightarrow> bool" where
  "usable env ctx \<longleftrightarrow>
     (is_api_key_credential (cx_credentials ctx) \<and> kc_kiro_api_key (cx_credentials ctx) = Some (cx_token ctx)) \<or>
     (kc_access_token (cx_credentials ctx) = Some (cx_token ctx) \<and> \<not> is_token_expired env (cx_credentials ctx))"

lemma refresh_locked_fresh:
  assumes "refresh_locked g w i m = (Inr c, m')" "quiet w"
  shows "\<not> is_token_expired (w_done w) c"
proof -
  have q: "w_exchange w = id" "w_locked w = w_done w" using assms(2) by (simp_all add: quiet_def)
  from assms(1) obtain e where e: "find_entry i m = Some e"
    by (auto simp: refresh_locked_def split: option.splits)
  show ?thesis
  proof (cases "refresh_due (w_locked w) (ce_credentials e)")
    case False
    with e assms(1) q show ?thesis by (auto simp: refresh_locked_def dest: refresh_due_expired)
  next
    case True
    with e assms(1) q obtain new where new: "\<not> is_token_expired (w_done w) new"
        "merge_refreshed_credentials (ce_credentials e) (ce_credentials e) new = Some c"
      by (auto simp: refresh_locked_def Let_def split: sum.splits if_splits option.splits)
    from merge_refreshed_same [OF new(2)] new(1) show ?thesis
      by (simp add: is_token_expired_def is_token_expiring_within_def)
  qed
qed

lemma try_ensure_usable:
  assumes "try_ensure_token g w i c m = (Inr ctx, m')" "quiet w"
  shows "usable (w_done w) ctx"
proof -
  have "w_select w = w_done w" using assms(2) by (simp add: quiet_def)
  then show ?thesis
    using assms(1) refresh_locked_fresh [OF _ assms(2), of g i "w_wait w m"]
    by (auto simp: try_ensure_token_def usable_def dest: refresh_due_expired
        split: if_splits option.splits prod.splits sum.splits)
qed

section \<open>Guards\<close>

text \<open>The ids and the requests in flight of the entries.\<close>

definition flights :: "manager \<Rightarrow> (u64 \<times> u32) list" where
  "flights m = map (\<lambda>e. (ce_id e, ce_in_flight e)) (m_entries m)"

lemma flights_update:
  "(\<And>e. ce_id (f e) = ce_id e \<and> ce_in_flight (f e) = ce_in_flight e) \<Longrightarrow>
   flights (update_entry i f m) = flights m"
  by (simp add: flights_def map_update_first)

lemma flights_entries: "m_entries m' = m_entries m \<Longrightarrow> flights m' = flights m"
  by (simp add: flights_def)

lemma get_in_flight_flights:
  "get_in_flight i m = (case map_of (flights m) i of Some n \<Rightarrow> n | None \<Rightarrow> 0)"
proof -
  have "(case List.find (\<lambda>e. ce_id e = i) es of Some e \<Rightarrow> ce_in_flight e | None \<Rightarrow> 0)
      = (case map_of (map (\<lambda>e. (ce_id e, ce_in_flight e)) es) i of Some n \<Rightarrow> n | None \<Rightarrow> 0)" for es
    by (induction es) auto
  then show ?thesis by (simp add: get_in_flight_def find_entry_def flights_def)
qed

lemma find_entry_flights: "find_entry i m \<noteq> None \<longleftrightarrow> i \<in> set (map fst (flights m))"
  by (auto simp: find_entry_def find_None_iff flights_def)

lemma distinct_ids_flights: "distinct_ids m \<longleftrightarrow> distinct (map fst (flights m))"
  by (simp add: distinct_ids_def flights_def comp_def)

text \<open>\<open>m'\<close> has one request more in flight than \<open>m\<close>, for the credential \<open>i\<close>; or none.\<close>

definition one_more :: "bool \<Rightarrow> u64 \<Rightarrow> manager \<Rightarrow> manager \<Rightarrow> bool" where
  "one_more guard i m m' \<longleftrightarrow>
     map fst (flights m') = map fst (flights m) \<and>
     (\<forall>j. get_in_flight j m' = get_in_flight j m + (if guard \<and> j = i then 1 else 0))"

lemma one_more_refl: "flights m' = flights m \<Longrightarrow> one_more False i m m'"
  by (simp add: one_more_def get_in_flight_flights)

lemma one_more_then: "one_more guard i m m1 \<Longrightarrow> flights m2 = flights m1 \<Longrightarrow> one_more guard i m m2"
  by (simp add: one_more_def get_in_flight_flights)

lemma one_more_before: "one_more guard i m1 m2 \<Longrightarrow> flights m1 = flights m \<Longrightarrow> one_more guard i m m2"
  by (simp add: one_more_def get_in_flight_flights)

lemma get_in_flight_update:
  assumes "\<And>e. ce_id (f e) = ce_id e"
  shows "get_in_flight j (update_entry i f m) =
    (if j = i then (case find_entry i m of Some e \<Rightarrow> ce_in_flight (f e) | None \<Rightarrow> 0) else get_in_flight j m)"
proof (cases "j = i")
  case True
  then show ?thesis by (simp add: get_in_flight_def find_entry_update [OF assms] split: option.split)
next
  case False
  then have "find_entry j (update_entry i f m) = find_entry j m"
  proof -
    have "List.find (\<lambda>e. ce_id e = j) (update_first (\<lambda>e. ce_id e = i) f es)
        = List.find (\<lambda>e. ce_id e = j) es" for es
      using False assms by (induction es) auto
    then show ?thesis by (simp add: find_entry_def)
  qed
  with False show ?thesis by (simp add: get_in_flight_def)
qed

lemma ids_update: "(\<And>e. ce_id (f e) = ce_id e) \<Longrightarrow> map fst (flights (update_entry i f m)) = map fst (flights m)"
  by (simp add: flights_def comp_def map_update_first)

lemma one_more_claim: "find_entry i m \<noteq> None \<Longrightarrow> one_more True i m (update_entry i claim_in_flight m)"
proof -
  have c: "ce_id (claim_in_flight e) = ce_id e" for e by (simp add: claim_in_flight_def)
  assume "find_entry i m \<noteq> None"
  then show ?thesis
    unfolding one_more_def ids_update [OF c] get_in_flight_update [OF c]
    by (auto simp: get_in_flight_def claim_in_flight_def)
qed

lemma one_more_release: "one_more guard i m m1 \<Longrightarrow> one_more False i m (drop_guard guard i m1)"
proof (cases guard)
  case True
  have c: "ce_id (release_in_flight e) = ce_id e" for e by (simp add: release_in_flight_def)
  assume a: "one_more guard i m m1"
  have g: "get_in_flight i m1 = get_in_flight i m + 1" using a True by (simp add: one_more_def)
  have "(case find_entry i m1 of Some e \<Rightarrow> ce_in_flight (release_in_flight e) | None \<Rightarrow> 0) = get_in_flight i m"
  proof (cases "find_entry i m1")
    case None
    then have "i \<notin> set (map fst (flights m1))"
      by (auto simp: find_entry_def flights_def find_None_iff)
    then have "i \<notin> set (map fst (flights m))" using a unfolding one_more_def by metis
    then have "get_in_flight i m = 0"
      by (simp add: get_in_flight_flights map_of_eq_None_iff [THEN iffD2])
    then show ?thesis using None by simp
  next
    case (Some e)
    then have "ce_in_flight e = get_in_flight i m + 1" using g by (simp add: get_in_flight_def)
    with Some show ?thesis by (simp add: release_in_flight_def)
  qed
  then show ?thesis
    using a True unfolding one_more_def drop_guard_def
    by (simp add: ids_update [OF c] get_in_flight_update [OF c])
qed (simp add: drop_guard_def)

text \<open>The operations that leave the counters alone.\<close>

lemma map_update_nth:
  assumes "\<And>e. g (f e) = g e"
  shows "map g (es[k := f (es ! k)]) = map g es"
proof (cases "k < length es")
  case True
  then show ?thesis by (intro nth_equalityI) (auto simp: nth_list_update assms)
qed (simp add: list_update_beyond not_less)

lemma map_step_weights:
  assumes "\<And>e. g (add_weight e) = g e"
  shows "map g (step_weights is es) = map g es"
  unfolding step_weights_def
  by (induction "is" arbitrary: es) (simp_all add: map_update_nth [of g add_weight, OF assms])

lemma flights_persist [simp]: "flights (snd (persist_credentials env m)) = flights m"
  by (rule flights_entries) simp

lemma flights_save_stats [simp]: "flights (save_stats_debounced env m) = flights m"
  by (rule flights_entries) simp

lemma flights_switch [simp]: "flights (snd (switch_current p m)) = flights m"
  by (rule flights_entries) simp

lemma flights_self_heal [simp]: "flights (snd (try_self_heal env model grp m)) = flights m"
proof -
  have "map (\<lambda>e. (ce_id e, ce_in_flight e))
      (map (\<lambda>e. if p e then heal env model e else e) es) = map (\<lambda>e. (ce_id e, ce_in_flight e)) es" for p es
    by (simp add: heal_def)
  then show ?thesis by (simp add: try_self_heal_def Let_def flights_def persist_credentials_def)
qed

lemma flights_refresh_failure [simp]: "flights (snd (report_refresh_failure env i m)) = flights m"
  by (simp add: report_refresh_failure_def Let_def split_beta flights_update mark_used_def disable_def
      clear_self_heal_streak_def split: option.split)

lemma flights_token_invalid [simp]: "flights (snd (report_refresh_token_invalid env i m)) = flights m"
  by (simp add: report_refresh_token_invalid_def Let_def split_beta flights_update mark_used_def disable_def
      clear_self_heal_streak_def split: option.split)

lemma flights_reload [simp]: "flights (snd (try_reload_credential_from_file i m)) = flights m"
proof -
  have "flights (invalidate_model_cache i m) = flights m" for m
    by (simp add: flights_def invalidate_model_cache_def)
  then show ?thesis
    by (simp add: try_reload_credential_from_file_def Let_def flights_update reloaded_def split: option.split)
qed

lemma flights_record [simp]: "flights (snd (record_request env i m)) = flights m"
  by (simp add: record_request_def Let_def flights_update split: option.split)

lemma flights_recordD: "record_request env i m = (ok, m') \<Longrightarrow> flights m' = flights m"
  using flights_record [of env i m] by simp

lemma flights_sticky [simp]: "flights (snd (sticky_candidate env session model grp m)) = flights m"
  by (simp add: sticky_candidate_def Let_def split_beta flights_def split: option.split)

lemma flights_handle [simp]: "flights (snd (handle_token_refresh_error env i err m)) = flights m"
proof -
  have r: "try_reload_credential_from_file i m = (b, m') \<Longrightarrow> flights m' = flights m" for b m'
    using flights_reload [of i m] by simp
  then show ?thesis
    by (auto simp: handle_token_refresh_error_def split_beta split: ensure_error.split
        refresh_error.split bool.split)
qed

lemma update_nth_first:
  assumes "distinct (map ce_id es)" "k < length es"
  shows "es[k := f (es ! k)] = update_first (\<lambda>e. ce_id e = ce_id (es ! k)) f es"
  using assms
proof (induction es arbitrary: k)
  case (Cons e es)
  then show ?case by (cases k) (auto simp: image_iff)
qed simp

text \<open>A selection claims a guard for the credential it answers, and only then.\<close>

lemma one_more_select_priority:
  assumes "select_priority env model grp invert claim m = (Some (i, c, guard), m')"
  shows "guard = claim \<and> one_more guard i m m'"
proof -
  from assms obtain e where e: "best_entry invert (entry_available_for_request m model grp (env_now env))
      (m_entries m) = Some e" and r: "i = ce_id e" "guard = claim"
      "m' = (if claim then update_entry (ce_id e) claim_in_flight m else m)"
    by (auto simp: select_priority_def split: option.splits)
  from e have "e \<in> set (m_entries m)" by (auto simp: best_entry_def dest: min_by_key_in)
  then have "find_entry i m \<noteq> None" using r by (auto simp: find_entry_def find_None_iff)
  with r show ?thesis by (auto intro: one_more_claim one_more_refl)
qed

lemma one_more_select_balanced:
  assumes "select_balanced env model grp invert upd claim m = (Some (i, c, guard), m')"
    and "distinct_ids m"
  shows "guard = claim \<and> one_more guard i m m'"
proof -
  let ?cands = "least_loaded (m_entries m) (eligible_indices m model grp (env_now env))"
  define es1 where "es1 = (if upd then step_weights ?cands (m_entries m) else m_entries m)"
  from assms(1) obtain best where best:
      "max_by_key (\<lambda>i. swrr_key m model invert upd (es1 ! i)) ?cands = Some best"
    and r: "select_balanced env model grp invert upd claim m = (Some (i, c, guard), m')"
    by (auto simp: select_balanced_def Let_def es1_def split: option.splits)
  define es2 where "es2 = (if upd then es1[best := (es1 ! best)\<lparr>ce_current_weight :=
      ce_current_weight (es1 ! best) - sum_list (map (\<lambda>i. load_weight (m_entries m ! i)) ?cands)\<rparr>] else es1)"
  from r best have i: "i = ce_id (es2 ! best)" and g: "guard = claim"
    and m': "m' = m\<lparr>m_entries := if claim then es2[best := claim_in_flight (es2 ! best)] else es2\<rparr>"
    unfolding select_balanced_def Let_def es1_def [symmetric] best option.case es2_def [symmetric] by auto
  have "best \<in> set ?cands" using best by (rule max_by_key_in)
  then have "best < length (m_entries m)"
    using least_loaded_subset [of "m_entries m" "eligible_indices m model grp (env_now env)"]
    by (auto simp: eligible_indices_set)
  then have len: "best < length es2" by (simp add: es2_def es1_def)
  let ?f = "\<lambda>e. (ce_id e, ce_in_flight e)"
  have "map ?f es1 = map ?f (m_entries m)"
    by (simp add: es1_def map_step_weights add_weight_def)
  moreover have "map ?f es2 = map ?f es1"
    by (simp add: es2_def map_update_nth [where f = "\<lambda>e. e\<lparr>ce_current_weight := ce_current_weight e - n\<rparr>" for n])
  ultimately have es2: "map ?f es2 = map ?f (m_entries m)" by simp
  let ?m2 = "m\<lparr>m_entries := es2\<rparr>"
  have f2: "flights ?m2 = flights m" using es2 by (simp add: flights_def)
  then have "distinct (map ce_id es2)" using assms(2) unfolding distinct_ids_flights f2 [symmetric]
    by (simp add: flights_def comp_def)
  from update_nth_first [OF this len, of claim_in_flight]
  have m'2: "m' = (if claim then update_entry i claim_in_flight ?m2 else ?m2)"
    unfolding m' i by (simp add: update_entry_def)
  have "find_entry i ?m2 \<noteq> None" using nth_mem [OF len] i by (auto simp: find_entry_def find_None_iff)
  then have "one_more claim i ?m2 m'"
    unfolding m'2 by (cases claim) (auto intro: one_more_claim one_more_refl)
  with g f2 show ?thesis by (auto intro: one_more_before)
qed

lemma one_more_select:
  assumes "select_next_credential_impl env model grp upd claim m = (Some (i, c, guard), m')"
    and "distinct_ids m"
  shows "guard = claim \<and> one_more guard i m m'"
  using assms one_more_select_priority one_more_select_balanced
  by (auto simp: select_next_credential_impl_def split: prod.splits if_splits)

lemma select_none: "select_next_credential_impl env model grp upd claim m = (None, m') \<Longrightarrow> m' = m"
  by (auto simp: select_next_credential_impl_def select_balanced_def select_priority_def Let_def
      split: prod.splits if_splits option.splits)

lemma one_more_choose:
  assumes "choose_credential env model grp session upd m = ((Some (i, c, guard), route), m')"
    and "distinct_ids m"
  shows "guard = upd \<and> one_more guard i m m'"
proof -
  obtain pick r m1 where st: "sticky_candidate env session model grp m = ((pick, r), m1)"
    by (metis prod.exhaust)
  have f1: "flights m1 = flights m" using flights_sticky [of env session model grp m] st by simp
  show ?thesis
  proof (cases pick)
    case (Some p)
    then obtain j d where p: "p = (j, d)" by fastforce
    from st Some p have found: "find_entry j m \<noteq> None"
      by (auto simp: sticky_candidate_def Let_def find_entry_def dest: find_Some_in
          split: option.splits if_splits prod.splits)
    then have found1: "find_entry j m1 \<noteq> None" unfolding find_entry_flights f1 .
    show ?thesis
      using assms(1) st Some p found1 f1
      by (auto simp: choose_credential_def acquire_in_flight_guard_def
          intro: one_more_before one_more_claim one_more_refl split: if_splits option.splits)
  next
    case None
    with st assms(1) have sh: "select_or_heal env model grp upd m1 = (Some (i, c, guard), m')"
      by (auto simp: choose_credential_def split: prod.splits)
    have d1: "distinct_ids m1" using assms(2) f1 by (simp add: distinct_ids_flights)
    show ?thesis
    proof (cases "select_next_credential_impl env model grp upd upd m1")
      case (Pair sel m2)
      show ?thesis
      proof (cases sel)
        case (Some s)
        with Pair sh have "select_next_credential_impl env model grp upd upd m1 = (Some (i, c, guard), m')"
          by (simp add: select_or_heal_def)
        from one_more_select [OF this d1] f1 show ?thesis by (auto intro: one_more_before)
      next
        case None
        with Pair have m2: "m2 = m1" by (auto dest: select_none)
        obtain b m3 where th: "try_self_heal env model grp m1 = (b, m3)" by fastforce
        have f3: "flights m3 = flights m" using flights_self_heal [of env model grp m1] th f1 by simp
        from None Pair sh th m2 have "select_next_credential_impl env model grp upd upd m3 = (Some (i, c, guard), m')"
          by (cases b) (auto simp: select_or_heal_def)
        from one_more_select [OF this] f3 assms(2) show ?thesis
          by (auto simp: distinct_ids_flights intro: one_more_before)
      qed
    qed
  qed
qed

lemma flights_choose_none:
  assumes "choose_credential env model grp session upd m = ((None, route), m')"
  shows "flights m' = flights m"
proof -
  obtain pick r m1 where st: "sticky_candidate env session model grp m = ((pick, r), m1)"
    by (metis prod.exhaust)
  have f1: "flights m1 = flights m" using flights_sticky [of env session model grp m] st by simp
  from assms st have "pick = None" and sh: "select_or_heal env model grp upd m1 = (None, m')"
    by (auto simp: choose_credential_def split: option.splits prod.splits if_splits)
  obtain s m2 where sel: "select_next_credential_impl env model grp upd upd m1 = (s, m2)" by fastforce
  obtain b m3 where th: "try_self_heal env model grp m1 = (b, m3)" by fastforce
  have f3: "flights m3 = flights m" using flights_self_heal [of env model grp m1] th f1 by simp
  from sh sel have s: "s = None" by (auto simp: select_or_heal_def split: option.splits prod.splits)
  with sel have "m2 = m1" by (auto dest: select_none)
  with sh sel s th have "m' = m3 \<or> select_next_credential_impl env model grp upd upd m3 = (None, m')"
    by (cases b) (auto simp: select_or_heal_def)
  with f3 show ?thesis by (auto dest: select_none)
qed

text \<open>Other requests start and end in the meantime too; for the account of one request they are
  supposed to leave the counters alone.\<close>

definition keeps_flights :: "world \<Rightarrow> bool" where
  "keeps_flights w \<longleftrightarrow> (\<forall>m. flights (w_wait w m) = flights m \<and> flights (w_exchange w m) = flights m)"

lemma flights_refresh_locked:
  assumes "keeps_flights w"
  shows "flights (snd (refresh_locked g w i m)) = flights m"
  using assms by (simp add: refresh_locked_def keeps_flights_def Let_def flights_update
      split: option.split sum.split)

lemma flights_ensure:
  assumes "keeps_flights w"
  shows "flights (snd (try_ensure_token g w i c m)) = flights m"
proof -
  have r: "refresh_locked g w i m0 = (res, m1) \<Longrightarrow> flights m1 = flights m0" for m0 res m1
    using flights_refresh_locked [OF assms, of g i m0] by simp
  have w: "flights (w_wait w m) = flights m" using assms by (simp add: keeps_flights_def)
  show ?thesis
    by (auto simp: try_ensure_token_def flights_update w dest!: r
        split: option.split sum.split prod.split)
qed

lemma attempt_guards:
  assumes "attempt g w model grp session upd m = (out, m')" "keeps_flights w" "distinct_ids m"
  shows "case out of
      Done (Inr (ctx, _, _)) \<Rightarrow> cx_guard ctx = upd \<and> one_more upd (cx_id ctx) m m'
    | _ \<Rightarrow> flights m' = flights m \<or> one_more False 0 m m'"
proof -
  obtain sel route m1 where ch: "choose_credential (w_select w) model grp session upd m = ((sel, route), m1)"
    by (metis prod.exhaust)
  show ?thesis
  proof (cases sel)
    case None
    with assms(1) ch flights_choose_none [of "w_select w" model grp session upd m route m1] show ?thesis
      by (auto simp: attempt_def)
  next
    case (Some s)
    then obtain i c guard where s: "sel = Some (i, c, guard)" by (cases s) auto
    with ch one_more_choose [OF _ assms(3)] have g: "guard = upd" "one_more guard i m m1" by blast+
    define m2 where "m2 = (if upd then m1\<lparr>m_current_id := i\<rparr> else m1)"
    obtain res m3 where te: "try_ensure_token g w i c m2 = (res, m3)" by fastforce
    have "flights m3 = flights m2" using flights_ensure [OF assms(2), of g i c m2] te by simp
    also have "flights m2 = flights m1" by (simp add: m2_def flights_def)
    finally have g3: "one_more guard i m m3" using g(2) by (auto intro: one_more_then)
    have dropped: "one_more False 0 m (drop_guard guard i m4)" if "flights m4 = flights m3" for m4
      using one_more_release [OF one_more_then [OF g3 that]] by (simp add: one_more_def)
    show ?thesis
    proof (cases res)
      case (Inr ctx)
      then have cx: "cx_id ctx = i" using te try_ensure_context by blast
      obtain ok m4 where rr: "(if upd then record_request (w_done w) i m3 else (True, m3)) = (ok, m4)"
        by fastforce
      then have f4: "flights m4 = flights m3" by (cases upd) (auto dest: flights_recordD)
      from assms(1) ch s te Inr rr
      have "(out, m') = (if ok then (Done (Inr (ctx\<lparr>cx_guard := guard\<rparr>,
          fst (resolve_load_balancing_for_group m grp) = ''balanced'', route)), m4)
        else (Retry False, drop_guard guard i m4))"
        unfolding attempt_def Let_def ch s prod.case option.case m2_def [symmetric] te
        by (cases ok) (simp_all add: Inr rr)
      with cx g(1) one_more_then [OF g3 f4] dropped [OF f4] show ?thesis by (auto split: if_splits)
    next
      case (Inl err)
      obtain h m4 where hd: "handle_token_refresh_error (w_done w) i err m3 = (h, m4)" by fastforce
      then have f4: "flights m4 = flights m3"
        using flights_handle [of "w_done w" i err m3] by simp
      have "(\<forall>x. out \<noteq> Done (Inr x)) \<and> (m' = drop_guard guard i m3 \<or> m' = drop_guard guard i m4)"
        using assms(1) hd unfolding attempt_def Let_def ch s prod.case option.case m2_def [symmetric] te
        by (cases err; cases h) (auto simp: Inl split: option.splits if_splits)
      with dropped [OF f4] dropped [OF refl] show ?thesis
        by (auto split: attempt_outcome.split sum.split)
    qed
  qed
qed

lemma acquire_context_flights:
  assumes "distinct_ids m" and "\<forall>k. keeps_flights (worlds k)"
  shows "case acquire_context_impl fuel g worlds model grp session upd m of
      (Some (Inr (ctx, _, _)), m') \<Rightarrow> cx_guard ctx = upd \<and> one_more upd (cx_id ctx) m m'
    | (_, m') \<Rightarrow> one_more False 0 m m'"
proof -
  have "case acquire_loop fuel g worlds model grp session upd mx n m0 of
      (Some (Inr (ctx, _, _)), m') \<Rightarrow> cx_guard ctx = upd \<and> one_more upd (cx_id ctx) m m'
    | (_, m') \<Rightarrow> one_more False 0 m m'"
    if "one_more False 0 m m0" "\<forall>k. keeps_flights (worlds k)" for mx n m0 worlds
    using that
  proof (induction fuel arbitrary: worlds n m0)
    case (Suc fuel)
    obtain out m1 where a: "attempt g (worlds 0) model grp session upd m0 = (out, m1)" by fastforce
    have d0: "distinct_ids m0"
      using assms(1) Suc.prems(1) by (simp add: distinct_ids_flights one_more_def)
    have trans: "one_more b i m0 m1 \<Longrightarrow> one_more b i m m1" for b i
      using Suc.prems(1) by (simp add: one_more_def)
    note ag = attempt_guards [OF a _ d0]
    show ?case
    proof (cases out)
      case (Done r)
      with ag Suc.prems trans a show ?thesis
        by (auto split: sum.splits intro: one_more_refl dest: one_more_then [of False 0 m m0 m1])
    next
      case (Retry b)
      with ag Suc.prems trans have "one_more False 0 m m1"
        by (auto dest: one_more_then [of False 0 m m0 m1])
      from Suc.IH [OF this, of "\<lambda>k. worlds (Suc k)" "if b then Suc n else n"] Suc.prems a Retry
      show ?thesis by auto
    qed
  qed simp
  from this [OF one_more_refl [OF refl] assms(2), of "max_attempts_of grp m" 0]
  show ?thesis unfolding acquire_context_impl_def .
qed

text \<open>No in-flight count leaks. When the pool lets a request through, exactly the credential it
  answers with counts one more request in flight; and when it turns the request away, after however
  many attempts, selections and refreshes, every count is what it was.\<close>

lemma acquire_context_guards:
  assumes "distinct_ids m" and "\<forall>k. keeps_flights (worlds k)"
  shows "case acquire_context_impl fuel g worlds model grp session upd m of
      (Some (Inr (ctx, _, _)), m') \<Rightarrow> cx_guard ctx = upd \<and>
        (\<forall>j. get_in_flight j m' = get_in_flight j m + (if upd \<and> j = cx_id ctx then 1 else 0))
    | (_, m') \<Rightarrow> (\<forall>j. get_in_flight j m' = get_in_flight j m)"
  using acquire_context_flights [OF assms, of upd fuel g model grp session]
  by (auto simp: one_more_def split: prod.splits option.splits sum.splits)

section \<open>The credentials of the answer\<close>

definition credentials_of :: "manager \<Rightarrow> (u64 \<times> kiro_credentials) list" where
  "credentials_of m = map (\<lambda>e. (ce_id e, ce_credentials e)) (m_entries m)"

definition own_credentials :: "u64 \<Rightarrow> manager \<Rightarrow> kiro_credentials option" where
  "own_credentials i m = map_option ce_credentials (find_entry i m)"

lemma own_credentials_alt: "own_credentials i m = map_of (credentials_of m) i"
proof -
  have "map_option ce_credentials (List.find (\<lambda>e. ce_id e = i) es) = map_of (map (\<lambda>e. (ce_id e, ce_credentials e)) es) i" for es
    by (induction es) auto
  then show ?thesis by (simp add: own_credentials_def find_entry_def credentials_of_def)
qed

lemma own_credentials_update [simp]:
  "(\<And>e. ce_id (f e) = ce_id e \<and> ce_credentials (f e) = ce_credentials e) \<Longrightarrow>
   own_credentials i (update_entry j f m) = own_credentials i m"
  by (simp add: own_credentials_alt credentials_of_def map_update_first)

lemma own_credentials_put:
  "own_credentials i (update_entry i (\<lambda>e. e\<lparr>ce_credentials := c\<rparr>) m) = map_option (\<lambda>_. c) (find_entry i m)"
  by (simp add: own_credentials_def find_entry_update option.map_comp comp_def)

lemma own_credentials_entries: "m_entries m' = m_entries m \<Longrightarrow> own_credentials i m' = own_credentials i m"
  by (simp add: own_credentials_alt credentials_of_def)

lemma own_credentials_persist: "own_credentials i (snd (persist_credentials env m)) = own_credentials i m"
  by (rule own_credentials_entries) simp

lemma own_credentials_in: "distinct_ids m \<Longrightarrow> (i, c) \<in> set (credentials_of m) \<Longrightarrow> own_credentials i m = Some c"
  by (simp add: own_credentials_alt distinct_ids_def credentials_of_def comp_def map_of_is_SomeI)

text \<open>The choice of a credential changes no credentials and answers those of an entry.\<close>

lemma credentials_select:
  assumes "select_next_credential_impl env model grp upd claim m = (Some (i, c, guard), m')"
  shows "credentials_of m' = credentials_of m \<and> (i, c) \<in> set (credentials_of m)"
proof -
  let ?f = "\<lambda>e. (ce_id e, ce_credentials e)"
  have prio: "select_priority env model grp invert claim m = (Some (i, c, guard), m') \<Longrightarrow> ?thesis" for invert
    by (auto simp: select_priority_def credentials_of_def map_update_first claim_in_flight_def best_entry_def
        dest!: min_by_key_in split: option.splits)
  have bal: ?thesis if r: "select_balanced env model grp invert upd claim m = (Some (i, c, guard), m')" for invert
  proof -
    let ?cands = "least_loaded (m_entries m) (eligible_indices m model grp (env_now env))"
    define es1 where "es1 = (if upd then step_weights ?cands (m_entries m) else m_entries m)"
    from r obtain best where best: "max_by_key (\<lambda>i. swrr_key m model invert upd (es1 ! i)) ?cands = Some best"
      by (auto simp: select_balanced_def Let_def es1_def split: option.splits)
    define es2 where "es2 = (if upd then es1[best := (es1 ! best)\<lparr>ce_current_weight :=
        ce_current_weight (es1 ! best) - sum_list (map (\<lambda>i. load_weight (m_entries m ! i)) ?cands)\<rparr>] else es1)"
    from r best have i: "i = ce_id (es2 ! best)" "c = ce_credentials (es2 ! best)"
      and m': "m' = m\<lparr>m_entries := if claim then es2[best := claim_in_flight (es2 ! best)] else es2\<rparr>"
      unfolding select_balanced_def Let_def es1_def [symmetric] best option.case es2_def [symmetric] by auto
    have "best < length (m_entries m)"
      using max_by_key_in [OF best] least_loaded_subset [of "m_entries m" "eligible_indices m model grp (env_now env)"]
      by (auto simp: eligible_indices_set)
    then have len: "best < length es2" by (simp add: es2_def es1_def)
    have "map ?f es1 = map ?f (m_entries m)" by (simp add: es1_def map_step_weights)
    moreover have "map ?f es2 = map ?f es1"
      by (simp add: es2_def map_update_nth [where f = "\<lambda>e. e\<lparr>ce_current_weight := ce_current_weight e - n\<rparr>" for n])
    ultimately have es2: "map ?f es2 = map ?f (m_entries m)" by simp
    moreover have "map ?f (es2[best := claim_in_flight (es2 ! best)]) = map ?f es2"
      by (rule map_update_nth) (simp add: claim_in_flight_def)
    moreover have "(i, c) \<in> set (map ?f es2)" using i len by auto
    ultimately show ?thesis by (simp add: m' credentials_of_def)
  qed
  from assms obtain invert where "select_balanced env model grp invert upd claim m = (Some (i, c, guard), m') \<or>
      select_priority env model grp invert claim m = (Some (i, c, guard), m')"
    by (auto simp: select_next_credential_impl_def split: prod.splits if_splits)
  with prio bal show ?thesis by blast
qed

lemma credentials_self_heal: "try_self_heal env model grp m = (b, m') \<Longrightarrow> credentials_of m' = credentials_of m"
  by (auto simp: try_self_heal_def Let_def credentials_of_def persist_credentials_def heal_def split: if_splits)

lemma credentials_sticky:
  "sticky_candidate env session model grp m = ((pick, route), m') \<Longrightarrow>
   credentials_of m' = credentials_of m \<and> (\<forall>i c. pick = Some (i, c) \<longrightarrow> (i, c) \<in> set (credentials_of m))"
  by (auto simp: sticky_candidate_def Let_def credentials_of_def find_entry_def dest!: find_Some_in
      split: option.splits if_splits prod.splits)

lemma credentials_choose:
  assumes "choose_credential env model grp session upd m = ((Some (i, c, guard), route), m')"
  shows "credentials_of m' = credentials_of m \<and> (i, c) \<in> set (credentials_of m)"
proof -
  obtain pick r m1 where st: "sticky_candidate env session model grp m = ((pick, r), m1)"
    by (metis prod.exhaust)
  note k = credentials_sticky [OF st]
  show ?thesis
  proof (cases pick)
    case (Some p)
    have "credentials_of (snd (acquire_in_flight_guard j m1)) = credentials_of m1" for j
      by (simp add: acquire_in_flight_guard_def credentials_of_def map_update_first claim_in_flight_def split: option.split)
    then show ?thesis
      using assms st k Some by (cases p) (auto simp: choose_credential_def split: if_splits prod.splits; metis snd_conv)
  next
    case None
    with st assms have sh: "select_or_heal env model grp upd m1 = (Some (i, c, guard), m')"
      by (auto simp: choose_credential_def split: prod.splits)
    obtain sel m2 where sel: "select_next_credential_impl env model grp upd upd m1 = (sel, m2)" by fastforce
    obtain b m3 where th: "try_self_heal env model grp m1 = (b, m3)" by fastforce
    consider "select_next_credential_impl env model grp upd upd m1 = (Some (i, c, guard), m')"
      | "select_next_credential_impl env model grp upd upd m3 = (Some (i, c, guard), m')"
      using sh sel th by (cases sel; cases b) (auto simp: select_or_heal_def dest!: select_none)
    then show ?thesis
      by cases (use k credentials_select credentials_self_heal [OF th] in metis)+
  qed
qed

text \<open>A token is got for the credentials the entry then has.\<close>

lemma refresh_locked_own:
  "refresh_locked g w i m = (Inr c, m') \<Longrightarrow> own_credentials i m' = Some c"
  by (auto simp: refresh_locked_def Let_def own_credentials_persist own_credentials_put
      split: option.splits if_splits sum.splits) (simp add: own_credentials_def)

lemma try_ensure_own:
  assumes "try_ensure_token g w i c m = (Inr ctx, m')" "own_credentials i m = Some c"
  shows "own_credentials i m' = Some (cx_credentials ctx)"
  using assms by (auto simp: try_ensure_token_def dest: refresh_locked_own split: if_splits option.splits prod.splits sum.splits)

lemma record_request_own: "record_request env i m = (ok, m') \<Longrightarrow> own_credentials j m' = own_credentials j m"
  by (auto simp: record_request_def Let_def split: option.splits if_splits)

lemma attempt_own:
  assumes "attempt g w model grp session upd m = (Done (Inr (ctx, bal, route)), m')" "distinct_ids m"
  shows "own_credentials (cx_id ctx) m' = Some (cx_credentials ctx)"
proof -
  from assms(1) obtain m1 i c guard ctx0 m2 where
    ch: "choose_credential (w_select w) model grp session upd m = ((Some (i, c, guard), route), m1)"
    and te: "try_ensure_token g w i c (if upd then m1\<lparr>m_current_id := i\<rparr> else m1) = (Inr ctx0, m2)"
    and ctx: "ctx = ctx0\<lparr>cx_guard := guard\<rparr>"
    and rr: "(if upd then record_request (w_done w) i m2 else (True, m2)) = (True, m')"
    by (rule attempt_acquired)
  have "own_credentials i m1 = Some c"
    using credentials_choose [OF ch] own_credentials_in [OF assms(2)] by (simp add: own_credentials_alt)
  then have "own_credentials i (if upd then m1\<lparr>m_current_id := i\<rparr> else m1) = Some c"
    by (simp add: own_credentials_entries [of "m1\<lparr>m_current_id := i\<rparr>" m1])
  from try_ensure_own [OF te this] try_ensure_context [OF te] show ?thesis
    using rr ctx by (auto simp: record_request_own split: if_splits)
qed

text \<open>Ids stay distinct as long as the other requests keep them so.\<close>

definition keeps_ids :: "world \<Rightarrow> bool" where
  "keeps_ids w \<longleftrightarrow> (\<forall>m. distinct_ids m \<longrightarrow> distinct_ids (w_wait w m) \<and> distinct_ids (w_exchange w m))"

lemma keeps_flights_ids: "keeps_flights w \<Longrightarrow> keeps_ids w"
  by (simp add: keeps_flights_def keeps_ids_def distinct_ids_flights)

lemma distinct_ids_update: "(\<And>e. ce_id (f e) = ce_id e) \<Longrightarrow> distinct_ids (update_entry i f m) = distinct_ids m"
  by (simp add: distinct_ids_def map_update_first)

lemma distinct_flights: "flights m' = flights m \<Longrightarrow> distinct_ids m' = distinct_ids m"
  by (simp add: distinct_ids_flights)

lemma distinct_ensure:
  assumes "try_ensure_token g w i c m = (res, m')" "keeps_ids w" "distinct_ids m"
  shows "distinct_ids m'"
proof -
  have w: "distinct_ids (w_wait w m)" using assms(2,3) by (simp add: keeps_ids_def)
  moreover have "distinct_ids (w_exchange w (w_wait w m))" using assms(2) w by (simp add: keeps_ids_def)
  ultimately have "distinct_ids (snd (refresh_locked g w i (w_wait w m)))"
    by (simp add: refresh_locked_def Let_def distinct_ids_update distinct_flights [OF flights_persist]
        split: option.split sum.split)
  then show ?thesis
    using assms(1,3) by (auto simp: try_ensure_token_def distinct_ids_update split: if_splits option.splits prod.splits sum.splits)
qed

lemma attempt_distinct:
  assumes "attempt g w model grp session upd m = (out, m')" "keeps_ids w" "distinct_ids m"
  shows "distinct_ids m'"
proof -
  obtain sel route m1 where ch: "choose_credential (w_select w) model grp session upd m = ((sel, route), m1)"
    by (metis prod.exhaust)
  show ?thesis
  proof (cases sel)
    case None
    with assms ch flights_choose_none [of "w_select w" model grp session upd m route m1] show ?thesis
      by (auto simp: attempt_def dest: distinct_flights)
  next
    case (Some s)
    then obtain i c guard where s: "sel = Some (i, c, guard)" by (cases s) auto
    have "distinct_ids m1"
      using one_more_choose [OF ch [unfolded s] assms(3)] assms(3) by (simp add: distinct_ids_flights one_more_def)
    moreover define m2 where "m2 = (if upd then m1\<lparr>m_current_id := i\<rparr> else m1)"
    ultimately have "distinct_ids m2" by (simp add: distinct_ids_def)
    moreover obtain res m3 where te: "try_ensure_token g w i c m2 = (res, m3)" by fastforce
    ultimately have d3: "distinct_ids m3" using distinct_ensure assms(2) by blast
    have rec: "record_request env i m3 = (ok, m4) \<Longrightarrow> distinct_ids m4" for env ok m4
      using d3 distinct_flights [OF flights_recordD] by blast
    have hd: "handle_token_refresh_error env i err m3 = (h, m4) \<Longrightarrow> distinct_ids m4" for env err h m4
      using d3 distinct_flights [OF flights_handle [of env i err m3]] by simp
    have dg: "distinct_ids (drop_guard guard i m4) = distinct_ids m4" for m4
      by (simp add: drop_guard_def distinct_ids_update release_in_flight_def)
    show ?thesis
    proof (cases res)
      case (Inl err)
      obtain h m4 where h: "handle_token_refresh_error (w_done w) i err m3 = (h, m4)" by fastforce
      have "m' = drop_guard guard i m3 \<or> m' = drop_guard guard i m4"
        using assms(1) h unfolding attempt_def Let_def ch s prod.case option.case m2_def [symmetric] te
        by (cases err; cases h) (auto simp: Inl split: option.splits if_splits)
      then show ?thesis using dg d3 hd [OF h] by auto
    next
      case (Inr ctx)
      obtain ok m4 where r: "(if upd then record_request (w_done w) i m3 else (True, m3)) = (ok, m4)" by fastforce
      have "m' = m4 \<or> m' = drop_guard guard i m4"
        using assms(1) r unfolding attempt_def Let_def ch s prod.case option.case m2_def [symmetric] te
        by (cases ok) (simp_all add: Inr)
      moreover have "distinct_ids m4" using r d3 by (auto split: if_splits dest: rec)
      ultimately show ?thesis using dg by auto
    qed
  qed
qed

lemma acquire_loop_reached:
  "acquire_loop fuel g worlds model grp session upd mx n m = (Some r, m') \<Longrightarrow>
   r = Inl NoAvailableCredentials \<or>
   (\<exists>k < fuel. \<exists>m0. attempt g (worlds k) model grp session upd m0 = (Done r, m') \<and>
      ((\<forall>j < k. keeps_ids (worlds j)) \<longrightarrow> distinct_ids m \<longrightarrow> distinct_ids m0))"
proof (induction fuel arbitrary: worlds n m)
  case (Suc fuel)
  show ?case
  proof (cases "mx \<le> n")
    case False
    obtain out m1 where a: "attempt g (worlds 0) model grp session upd m = (out, m1)" by fastforce
    show ?thesis
    proof (cases out)
      case (Done s)
      with a False Suc.prems show ?thesis by auto
    next
      case (Retry b)
      with a False Suc.prems
      have "acquire_loop fuel g (\<lambda>k. worlds (Suc k)) model grp session upd mx
          (if b then Suc n else n) m1 = (Some r, m')" by simp
      from Suc.IH [OF this] show ?thesis
      proof
        assume "\<exists>k < fuel. \<exists>m0. attempt g (worlds (Suc k)) model grp session upd m0 = (Done r, m') \<and>
          ((\<forall>j < k. keeps_ids (worlds (Suc j))) \<longrightarrow> distinct_ids m1 \<longrightarrow> distinct_ids m0)"
        then obtain k m0 where k: "k < fuel" "attempt g (worlds (Suc k)) model grp session upd m0 = (Done r, m')"
          and d: "(\<forall>j < k. keeps_ids (worlds (Suc j))) \<longrightarrow> distinct_ids m1 \<longrightarrow> distinct_ids m0" by blast
        have "(\<forall>j < Suc k. keeps_ids (worlds j)) \<longrightarrow> distinct_ids m \<longrightarrow> distinct_ids m0"
          using attempt_distinct [OF a] d by (simp add: All_less_Suc2)
        then show ?thesis using k by (intro disjI2 exI [of _ "Suc k"]) auto
      qed simp
    qed
  qed (use Suc.prems in simp)
qed simp

lemma acquire_context_own:
  assumes "acquire_context_impl fuel g worlds model grp session upd m = (Some (Inr (ctx, bal, route)), m')"
    and "distinct_ids m" "\<forall>k. keeps_ids (worlds k)"
  shows "own_credentials (cx_id ctx) m' = Some (cx_credentials ctx)"
  using acquire_loop_reached [OF assms(1) [unfolded acquire_context_impl_def]] assms(2,3) by (auto dest: attempt_own)


section \<open>The account a token is reloaded from\<close>

text \<open>Two accounts of one person, both in the file; the second one's refresh token is still the one in
  the file.\<close>

definition twin :: "u64 \<Rightarrow> string \<Rightarrow> kiro_credentials" where
  "twin i token = default_credentials\<lparr>kc_id := Some i, kc_email := Some ''me@example.org'',
     kc_refresh_token := Some token\<rparr>"

lemma twin_select:
  "kc_id (twin i token) = Some i" "kc_email (twin i token) = Some ''me@example.org''"
  "kc_refresh_token (twin i token) = Some token" "kc_expires_at (twin i token) = None"
  by (simp_all add: twin_def default_credentials_def)

definition twin_manager :: manager where
  "twin_manager = (initial_manager sample_config
     [fresh_entry sample_env 1 (twin 1 ''first''), fresh_entry sample_env 2 (twin 2 ''second'')]
     3 None True True (Some (Multiple [twin 1 ''first'', twin 2 ''second''])) None)"

text \<open>The file entry a token is reloaded from is the first one with the same id or the same email,
  not, as documented, the one with the same id if there is any: with two accounts under one email
  the second account takes the refresh token of the first, although its own entry is in the file
  and unchanged, and the two accounts are one from then on.\<close>

lemma reload_takes_token_of_namesake:
  "kc_id (twin 2 ''second'') = kc_id (ce_credentials (fresh_entry sample_env 2 (twin 2 ''second''))) \<and>
   twin 2 ''second'' \<in> set (into_sorted_credentials (the (m_credentials_file twin_manager))) \<and>
   (case try_reload_credential_from_file 2 twin_manager of (answer, m') \<Rightarrow>
      answer \<and> map (\<lambda>e. kc_refresh_token (ce_credentials e)) (m_entries m') = [Some ''first'', Some ''first''])"
proof -
  have f: "into_sorted_credentials (Multiple [twin 1 ''first'', twin 2 ''second''])
      = [twin 1 ''first'', twin 2 ''second'']"
    by (simp add: twin_def config_key_def default_credentials_def canonicalize_auth_method_def)
  show ?thesis
    by (simp add: twin_manager_def initial_manager_def f try_reload_credential_from_file_def
        find_entry_def fresh_entry_def matched_file_credential_def file_match_def twin_select
        reloaded_def update_entry_def invalidate_model_cache_def Let_def
        del: into_sorted_credentials.simps)
qed

section \<open>A quiet world\<close>

definition sample_world :: world where
  "sample_world = \<lparr>w_select = sample_env, w_locked = sample_env, w_done = sample_env, w_wait = id,
     w_exchange = id, w_upstream = sample_upstream\<rparr>"

definition sample_regions :: region_config where
  "sample_regions = \<lparr>cfg_region = ''us-east-1'', cfg_auth_region = None, cfg_api_region = None\<rparr>"

definition key_manager :: manager where
  "key_manager = (initial_manager sample_config
     [fresh_entry sample_env 1 (default_credentials\<lparr>kc_id := Some 1, kc_kiro_api_key := Some ''key''\<rparr>)]
     2 None True True None None)"

lemmas key_manager_defs = key_manager_def initial_manager_def sample_config_def fresh_entry_def
  default_credentials_def

lemma key_manager_available:
  "m_entries key_manager = [e] \<Longrightarrow> entry_available_for_request key_manager None None 0 e"
  by (auto simp: key_manager_defs entry_available_for_request_def throttled_def rpm_exceeded_def
      fresh_requests_def group_matches_def cached_model_support_def)

lemma key_manager_acquires:
  "\<exists>ctx bal route m'. acquire_context_impl 1 sample_regions (\<lambda>_. sample_world) None None None True key_manager
     = (Some (Inr (ctx, bal, route)), m') \<and> cx_token ctx = ''key'' \<and> cx_id ctx = 1 \<and>
     cx_credentials ctx = default_credentials\<lparr>kc_id := Some 1, kc_kiro_api_key := Some ''key''\<rparr>"
proof -
  obtain e where e: "m_entries key_manager = [e]" "ce_id e = 1" "ce_rpm_window e = []"
      "ce_credentials e = default_credentials\<lparr>kc_id := Some 1, kc_kiro_api_key := Some ''key''\<rparr>"
    by (simp add: key_manager_defs)
  note av = key_manager_available [OF e(1)]
  have el: "eligible_indices key_manager None None 0 = [0]"
    using e av by (simp add: eligible_indices_def)
  have mode: "resolve_load_balancing_for_group key_manager None = (''balanced'', False)"
    by (simp add: resolve_load_balancing_for_group_def key_manager_defs)
  have t: "env_now sample_env = 0" by (simp add: sample_env_def)
  define e' where "e' = claim_in_flight ((add_weight e)\<lparr>ce_current_weight := ce_current_weight (add_weight e)
      - load_weight e\<rparr>)"
  have sel: "select_next_credential_impl sample_env None None True True key_manager
      = (Some (1, ce_credentials e, True), key_manager\<lparr>m_entries := [e']\<rparr>)"
    using e by (simp add: select_next_credential_impl_def mode select_balanced_def t el least_loaded_def
        step_weights_def add_weight_def Let_def e'_def)
  have ch: "choose_credential sample_env None None None True key_manager
      = ((Some (1, ce_credentials e, True), no_route), key_manager\<lparr>m_entries := [e']\<rparr>)"
    by (simp add: choose_credential_def sticky_candidate_def select_or_heal_def sel)
  have e': "ce_id e' = 1" "ce_rpm_window e' = []"
    using e by (simp_all add: e'_def claim_in_flight_def add_weight_def)
  have "fst (record_request sample_env 1 (key_manager\<lparr>m_entries := [e'], m_current_id := 1\<rparr>))"
    using e' by (simp add: record_request_def find_entry_def drop_stale_def key_manager_defs Let_def)
  then obtain m' where "record_request sample_env 1 (key_manager\<lparr>m_entries := [e'], m_current_id := 1\<rparr>) = (True, m')"
    by (cases "record_request sample_env 1 (key_manager\<lparr>m_entries := [e'], m_current_id := 1\<rparr>)") auto
  then show ?thesis
    using e(4) by (simp add: acquire_context_impl_def attempt_def mode ch sample_world_def max_attempts_of_def
        try_ensure_token_def is_api_key_credential_def default_credentials_def) blast
qed


theorem acquire_context_guards_witness:
  "\<exists>ctx m'. acquire_context_impl 1 sample_regions (\<lambda>_. sample_world) None None None True key_manager
     = (Some (Inr ctx), m') \<and> get_in_flight 1 m' = 1"
proof -
  obtain ctx bal route m' where a: "acquire_context_impl 1 sample_regions (\<lambda>_. sample_world) None None None
      True key_manager = (Some (Inr (ctx, bal, route)), m')" "cx_id ctx = 1"
    using key_manager_acquires by blast
  have k: "\<forall>k. keeps_flights ((\<lambda>_. sample_world) k)" by (simp add: keeps_flights_def sample_world_def)
  have d: "distinct_ids key_manager" "get_in_flight 1 key_manager = 0"
    by (simp_all add: distinct_ids_def get_in_flight_def find_entry_def key_manager_defs)
  from acquire_context_guards [OF d(1) k, where fuel = 1 and g = sample_regions and model = None and
      grp = None and session = None and upd = True] a d(2)
  show ?thesis by simp
qed

text \<open>A refresh during which the expiry is changed by hand.\<close>

theorem refresh_keeps_concurrent_changes_witness:
  "\<exists>err. refresh_locked sample_regions (sample_world\<lparr>w_exchange := (\<lambda>m. m\<lparr>m_entries := []\<rparr>)\<rparr>) 1 twin_manager
     = (Inl err, twin_manager\<lparr>m_entries := []\<rparr>)"
proof -
  let ?w = "sample_world\<lparr>w_exchange := (\<lambda>m. m\<lparr>m_entries := []\<rparr>)\<rparr>"
  obtain e where e: "find_entry 1 twin_manager = Some e" "ce_credentials e = twin 1 ''first''"
    by (simp add: twin_manager_def initial_manager_def find_entry_def fresh_entry_def)
  have due: "refresh_due (w_locked ?w) (ce_credentials e)"
    by (simp add: refresh_due_alt e(2) twin_select)
  obtain r m' where r: "refresh_locked sample_regions ?w 1 twin_manager = (r, m')" by fastforce
  have none: "find_entry 1 (w_exchange ?w twin_manager) = None" by (simp add: find_entry_def)
  from refresh_keeps_concurrent_changes [OF e(1) due, of sample_regions] r none
  show ?thesis by (cases r) auto
qed

end
