(* ===== verification/AcquireTermination.thy ===== *)
theory AcquireTermination
  imports AcquireContext
begin

text \<open>
  The request loop of \<open>acquire_context_impl\<close> ends. Some rounds of the loop count no attempt: a round
  after which the token was reloaded from the file, and a round whose request was not admitted to
  the window of its credential. When nobody interferes the second kind does not occur, and the
  first kind is bounded by the credentials whose token differs from the file and by those that
  self-healing can still revive (self-healing writes the file anew).
\<close>

section \<open>What selection leaves alone\<close>

text \<open>An entry without the scheduler's own bookkeeping.\<close>

definition core :: "entry \<Rightarrow> entry" where
  "core e = e\<lparr>ce_in_flight := 0, ce_current_weight := 0\<rparr>"

definition same_pool_state :: "manager \<Rightarrow> manager \<Rightarrow> bool" where
  "same_pool_state m m' \<longleftrightarrow>
     map core (m_entries m') = map core (m_entries m) \<and>
     m_credentials_file m' = m_credentials_file m \<and>
     m_has_credentials_path m' = m_has_credentials_path m \<and>
     m_account_rpm_limit_enabled m' = m_account_rpm_limit_enabled m \<and>
     m_account_rpm_limit m' = m_account_rpm_limit m"

lemma same_pool_state_refl [simp]: "same_pool_state m m"
  by (simp add: same_pool_state_def)

lemma same_pool_state_trans: "same_pool_state m1 m2 \<Longrightarrow> same_pool_state m2 m3 \<Longrightarrow> same_pool_state m1 m3"
  by (simp add: same_pool_state_def)

lemma core_simps [simp]:
  "core (add_weight e) = core e" "core (claim_in_flight e) = core e" "core (release_in_flight e) = core e"
  "core (e\<lparr>ce_current_weight := w\<rparr>) = core e"
  by (simp_all add: core_def add_weight_def claim_in_flight_def release_in_flight_def)

lemma core_select [simp]:
  "ce_id (core e) = ce_id e" "ce_credentials (core e) = ce_credentials e"
  "ce_disabled (core e) = ce_disabled e" "ce_disabled_reason (core e) = ce_disabled_reason e"
  "ce_rpm_window (core e) = ce_rpm_window e"
  by (simp_all add: core_def)

lemma same_pool_state_update:
  "(\<And>e. core (f e) = core e) \<Longrightarrow> same_pool_state m (update_entry i f m)"
  by (simp add: same_pool_state_def map_update_first)

lemma same_pool_state_select:
  assumes "select_next_credential_impl env model grp upd claim m = (s, m')"
  shows "same_pool_state m m'"
proof -
  have b: "same_pool_state m m'" if "select_balanced env model grp invert upd claim m = (s, m')" for invert
  proof -
    let ?cands = "least_loaded (m_entries m) (eligible_indices m model grp (env_now env))"
    define es1 where "es1 = (if upd then step_weights ?cands (m_entries m) else m_entries m)"
    have 1: "map core es1 = map core (m_entries m)" by (simp add: es1_def map_step_weights)
    show ?thesis
    proof (cases "max_by_key (\<lambda>i. swrr_key m model invert upd (es1 ! i)) ?cands")
      case None
      with that show ?thesis by (auto simp: select_balanced_def Let_def es1_def)
    next
      case (Some best)
      define es2 where "es2 = (if upd then es1[best := (es1 ! best)\<lparr>ce_current_weight :=
        ce_current_weight (es1 ! best) - sum_list (map (\<lambda>i. load_weight (m_entries m ! i)) ?cands)\<rparr>] else es1)"
      have 2: "map core es2 = map core es1"
        by (simp add: es2_def map_update_nth
            [where g = core and f = "\<lambda>e. e\<lparr>ce_current_weight := ce_current_weight e - n\<rparr>" for n])
      have m': "m' = m\<lparr>m_entries := if claim then es2[best := claim_in_flight (es2 ! best)] else es2\<rparr>"
        using that
        unfolding select_balanced_def Let_def es1_def [symmetric] Some option.case es2_def [symmetric] by auto
      show ?thesis
        unfolding m' same_pool_state_def by (simp add: map_update_nth 1 2)
    qed
  qed
  have p: "same_pool_state m m'" if "select_priority env model grp invert claim m = (s, m')" for invert
    using that by (auto simp: select_priority_def intro!: same_pool_state_update split: option.splits if_splits)
  from assms b p show ?thesis
    by (auto simp: select_next_credential_impl_def split: prod.splits if_splits)
qed

lemma same_pool_state_sticky:
  "sticky_candidate env session model grp m = (r, m') \<Longrightarrow> same_pool_state m m'"
  by (auto simp: sticky_candidate_def same_pool_state_def Let_def split: option.splits if_splits prod.splits)

section \<open>The measure\<close>

definition revivable :: "entry \<Rightarrow> bool" where
  "revivable e \<longleftrightarrow> ce_disabled e \<and> ce_disabled_reason e = Some TooManyFailures"

definition reloadable_in :: "bool \<Rightarrow> credentials_config option \<Rightarrow> nat \<Rightarrow> entry \<Rightarrow> bool" where
  "reloadable_in has_path file n e \<longleftrightarrow> has_path \<and>
     (\<exists>f fc. file = Some f \<and> into_sorted_credentials f \<noteq> [] \<and>
       matched_file_credential (into_sorted_credentials f) n (ce_credentials e) = Some fc \<and>
       kc_refresh_token fc \<noteq> None \<and> kc_refresh_token fc \<noteq> kc_refresh_token (ce_credentials e))"

definition reloadable :: "manager \<Rightarrow> entry \<Rightarrow> bool" where
  "reloadable m = reloadable_in (m_has_credentials_path m) (m_credentials_file m) (length (m_entries m))"

definition to_revive :: "manager \<Rightarrow> nat" where
  "to_revive m = length (filter revivable (m_entries m))"

definition to_reload :: "manager \<Rightarrow> nat" where
  "to_reload m = length (filter (reloadable m) (m_entries m))"

lemma length_filter_core:
  "(\<And>e. p (core e) = p e) \<Longrightarrow> length (filter p es) = length (filter p (map core es))"
  by (simp add: filter_map comp_def)

lemma same_pool_state_measure:
  assumes "same_pool_state m m'"
  shows "to_revive m' = to_revive m" "to_reload m' = to_reload m"
proof -
  from assms have c: "map core (m_entries m') = map core (m_entries m)" by (simp add: same_pool_state_def)
  have "to_revive m = length (filter revivable (map core (m_entries m)))" for m
    unfolding to_revive_def by (rule length_filter_core) (simp add: revivable_def)
  then show "to_revive m' = to_revive m" by (simp only: c)
  have "reloadable m' = reloadable m"
    using assms map_eq_imp_length_eq [OF c] by (simp add: reloadable_def same_pool_state_def)
  moreover have "length (filter (reloadable m) es) = length (filter (reloadable m) (map core es))" for es
    by (rule length_filter_core) (simp add: reloadable_def reloadable_in_def)
  ultimately show "to_reload m' = to_reload m"
    unfolding to_reload_def by (metis c)
qed

lemma length_filter_update_less:
  "List.find p xs = Some x \<Longrightarrow> q x \<Longrightarrow> \<not> q (f x) \<Longrightarrow>
   length (filter q (update_first p f xs)) < length (filter q xs)"
  by (induction xs) (auto split: if_splits)

lemma length_filter_update_le:
  "(\<And>x. \<not> q (f x)) \<Longrightarrow> length (filter q (update_first p f xs)) \<le> length (filter q xs)"
  by (induction xs) auto

lemma length_filter_map_less:
  "(\<And>x. q (f x) \<Longrightarrow> q x) \<Longrightarrow> x \<in> set xs \<Longrightarrow> q x \<Longrightarrow> \<not> q (f x) \<Longrightarrow>
   length (filter q (map f xs)) < length (filter q xs)"
proof (induction xs)
  case (Cons y xs)
  have le: "length (filter (q \<circ> f) xs) \<le> length (filter q xs)"
    using Cons.prems(1) by (induction xs) auto
  from Cons show ?case by (cases "x = y") (auto simp: le less_Suc_eq_le dest: Cons.prems(1))
qed simp

lemma heal_measure:
  assumes "try_self_heal env model grp m = (True, m')"
  shows "to_revive m' < to_revive m"
proof -
  let ?h = "\<lambda>e. if healable env m model grp e then heal env model e else e"
  from assms have e: "m_entries m' = map ?h (m_entries m)"
    and "filter (healable env m model grp) (m_entries m) \<noteq> []"
    by (auto simp: try_self_heal_def Let_def persist_credentials_def split: if_splits)
  then obtain e where "e \<in> set (m_entries m)" "healable env m model grp e" by (auto simp: filter_empty_conv)
  then show ?thesis
    unfolding to_revive_def e
    by (intro length_filter_map_less [where x = e])
      (auto simp: revivable_def heal_def healable_def split: if_splits)
qed

lemma reload_measure:
  assumes "try_reload_credential_from_file i m = (True, m')"
  shows "to_revive m' \<le> to_revive m \<and> to_reload m' < to_reload m"
proof -
  from assms obtain f e fc where path: "m_has_credentials_path m" "m_credentials_file m = Some f"
      "into_sorted_credentials f \<noteq> []"
    and e: "find_entry i m = Some e"
    and fc: "matched_file_credential (into_sorted_credentials f) (length (m_entries m)) (ce_credentials e) = Some fc"
      "kc_refresh_token fc \<noteq> None" "kc_refresh_token fc \<noteq> kc_refresh_token (ce_credentials e)"
    and m': "m' = invalidate_model_cache i (update_entry i (reloaded fc) m)"
    by (auto simp: try_reload_credential_from_file_def Let_def split: if_splits option.splits)
  have es: "m_entries m' = update_first (\<lambda>e. ce_id e = i) (reloaded fc) (m_entries m)"
    by (simp add: m' invalidate_model_cache_def)
  have rl: "reloadable m' = reloadable m"
    by (simp add: m' invalidate_model_cache_def reloadable_def)
  have "reloadable m e" using path fc by (simp add: reloadable_def reloadable_in_def)
  moreover have "\<not> reloadable m (reloaded fc e)"
  proof -
    have "matched_file_credential (into_sorted_credentials f) (length (m_entries m))
        (ce_credentials (reloaded fc e)) = Some fc"
      using fc(1) by (simp add: matched_file_credential_def reloaded_def)
    then show ?thesis using path by (auto simp: reloadable_def reloadable_in_def reloaded_def)
  qed
  ultimately have "to_reload m' < to_reload m"
    unfolding to_reload_def rl es using e unfolding find_entry_def by (intro length_filter_update_less)
  moreover have "to_revive m' \<le> to_revive m"
    unfolding to_revive_def es by (rule length_filter_update_le) (simp add: revivable_def reloaded_def)
  ultimately show ?thesis by blast
qed

section \<open>Request windows\<close>

definition windows :: "manager \<Rightarrow> (bool \<times> u32) \<times> (u64 \<times> instant list) list" where
  "windows m = ((m_account_rpm_limit_enabled m, m_account_rpm_limit m),
     map (\<lambda>e. (ce_id e, ce_rpm_window e)) (m_entries m))"

definition windows_ok :: "manager \<Rightarrow> bool" where
  "windows_ok m \<longleftrightarrow> (\<forall>(i, ts) \<in> set (snd (windows m)). sorted ts \<and> length ts < 2 ^ 32)"

lemma windows_ok_cong: "windows m' = windows m \<Longrightarrow> windows_ok m' = windows_ok m"
  by (simp add: windows_ok_def)

lemma windows_entry: "map_option ce_rpm_window (find_entry i m) = map_of (snd (windows m)) i"
proof -
  have "map_option ce_rpm_window (List.find (\<lambda>e. ce_id e = i) es)
      = map_of (map (\<lambda>e. (ce_id e, ce_rpm_window e)) es) i" for es
    by (induction es) auto
  then show ?thesis by (simp add: find_entry_def windows_def)
qed

lemma windows_update [simp]:
  "(\<And>e. ce_id (f e) = ce_id e \<and> ce_rpm_window (f e) = ce_rpm_window e) \<Longrightarrow>
   windows (update_entry i f m) = windows m"
  by (simp add: windows_def map_update_first)

lemma windows_entries:
  "m_entries m' = m_entries m \<Longrightarrow> m_account_rpm_limit_enabled m' = m_account_rpm_limit_enabled m \<Longrightarrow>
   m_account_rpm_limit m' = m_account_rpm_limit m \<Longrightarrow> windows m' = windows m"
  by (simp add: windows_def)

lemma windows_persist [simp]: "windows (snd (persist_credentials env m)) = windows m"
  by (rule windows_entries) simp_all

lemma windows_save_stats [simp]: "windows (save_stats_debounced env m) = windows m"
  by (rule windows_entries) simp_all

lemma windows_switch [simp]: "windows (snd (switch_current p m)) = windows m"
  by (rule windows_entries) simp_all

lemma windows_self_heal: "windows (snd (try_self_heal env model grp m)) = windows m"
proof -
  have "map (\<lambda>e. (ce_id e, ce_rpm_window e))
      (map (\<lambda>e. if p e then heal env model e else e) es) = map (\<lambda>e. (ce_id e, ce_rpm_window e)) es" for p es
    by (simp add: heal_def)
  then show ?thesis by (simp add: try_self_heal_def Let_def windows_def persist_credentials_def)
qed

lemma windows_same: "same_pool_state m m' \<Longrightarrow> windows m' = windows m"
proof -
  let ?f = "\<lambda>e. (ce_id e, ce_rpm_window e)"
  assume a: "same_pool_state m m'"
  have w: "map ?f es = map ?f (map core es)" for es by (simp add: comp_def)
  have "map ?f (m_entries m') = map ?f (map core (m_entries m'))" by (rule w)
  also have "\<dots> = map ?f (map core (m_entries m))" using a by (simp only: same_pool_state_def)
  also have "\<dots> = map ?f (m_entries m)" by (rule w [symmetric])
  finally have "map ?f (m_entries m') = map ?f (m_entries m)" .
  with a show ?thesis by (simp add: windows_def same_pool_state_def)
qed

lemma rpm_exceeded_affinity [simp]: "rpm_exceeded (m\<lparr>m_session_affinity := a\<rparr>) = rpm_exceeded m"
  by (simp add: fun_eq_iff rpm_exceeded_def)

lemma windows_refresh_failure: "windows (snd (report_refresh_failure env i m)) = windows m"
  by (simp add: report_refresh_failure_def Let_def split_beta mark_used_def disable_def
      clear_self_heal_streak_def split: option.split)

lemma windows_token_invalid: "windows (snd (report_refresh_token_invalid env i m)) = windows m"
  by (simp add: report_refresh_token_invalid_def Let_def split_beta mark_used_def disable_def
      clear_self_heal_streak_def split: option.split)

lemma windows_reload: "windows (snd (try_reload_credential_from_file i m)) = windows m"
proof -
  have "windows (invalidate_model_cache i m) = windows m" for m
    by (simp add: windows_def invalidate_model_cache_def)
  then show ?thesis
    by (simp add: try_reload_credential_from_file_def Let_def reloaded_def split: option.split)
qed

lemma windows_handle: "windows (snd (handle_token_refresh_error env i err m)) = windows m"
  using windows_reload [of i m]
  by (auto simp: handle_token_refresh_error_def split_beta windows_refresh_failure windows_token_invalid
      split: ensure_error.split refresh_error.split bool.split)

lemma windows_ensure:
  assumes "quiet w"
  shows "windows (snd (try_ensure_token g w i c m)) = windows m"
proof -
  have q: "w_wait w = id" "w_exchange w = id" using assms by (simp_all add: quiet_def)
  have r: "refresh_locked g w i m = (res, m1) \<Longrightarrow> windows m1 = windows m" for res m1
    by (auto simp: refresh_locked_def q Let_def split: option.splits sum.splits if_splits)
  show ?thesis
    by (auto simp: try_ensure_token_def q dest!: r split: option.split sum.split prod.split)
qed

text \<open>A credential that is not over its limit when it is chosen is admitted.\<close>

lemma record_admits:
  assumes "windows m' = windows m" "windows_ok m" "distinct_ids m"
    and "e \<in> set (m_entries m)" "\<not> rpm_exceeded m e (env_now env)"
  shows "fst (record_request env (ce_id e) m')"
proof -
  have "find_entry (ce_id e) m = Some e" by (rule find_entry_distinct) (use assms in auto)
  then have "map_option ce_rpm_window (find_entry (ce_id e) m') = Some (ce_rpm_window e)"
    using windows_entry [of "ce_id e" m] windows_entry [of "ce_id e" m'] assms(1) by simp
  then obtain e' where e': "find_entry (ce_id e) m' = Some e'" "ce_rpm_window e' = ce_rpm_window e" by auto
  have ok: "sorted (ce_rpm_window e)" "length (ce_rpm_window e) < 2 ^ 32"
    using assms(2,4) by (auto simp: windows_ok_def windows_def)
  have lim: "m_account_rpm_limit_enabled m' = m_account_rpm_limit_enabled m"
      "m_account_rpm_limit m' = m_account_rpm_limit m"
    using assms(1) by (simp_all add: windows_def)
  have "length (drop_stale (env_now env) (ce_rpm_window e)) < unat (m_account_rpm_limit m)"
    if "m_account_rpm_limit_enabled m" "m_account_rpm_limit m \<noteq> 0"
  proof -
    let ?n = "length (fresh_requests (env_now env) e)"
    have n: "?n = length (drop_stale (env_now env) (ce_rpm_window e))"
      using drop_stale_sorted [OF ok(1)] by (simp add: fresh_requests_def)
    have "?n \<le> length (ce_rpm_window e)" by (simp add: fresh_requests_def)
    then have "?n < 2 ^ 32" using ok(2) by linarith
    then have "unat (of_nat ?n :: u32) = ?n" by (simp add: unat_of_nat take_bit_nat_eq_self)
    moreover have "(of_nat ?n :: u32) < m_account_rpm_limit m"
      using assms(5) that by (simp add: rpm_exceeded_def)
    ultimately show ?thesis by (simp add: n word_less_nat_alt)
  qed
  then show ?thesis
    using e' lim
    by (cases "m_account_rpm_limit_enabled m"; cases "m_account_rpm_limit m = 0")
      (simp_all add: record_request_def Let_def not_le [symmetric])
qed

section \<open>One round\<close>

text \<open>The chosen credential, and what the choice did to the measure.\<close>

lemma select_or_heal_cases:
  assumes "select_or_heal env model grp upd m = (Some s, m')"
  obtains m0 where "select_next_credential_impl env model grp upd upd m0 = (Some s, m')"
    "m0 = m \<or> to_revive m0 < to_revive m \<and> windows m0 = windows m"
proof -
  obtain s1 m1 where a: "select_next_credential_impl env model grp upd upd m = (s1, m1)" by fastforce
  show ?thesis
  proof (cases s1)
    case (Some x)
    with a assms that [of m] show ?thesis by (simp add: select_or_heal_def)
  next
    case None
    with a have "m1 = m" by (auto dest: select_none)
    with a None assms obtain m2 where h: "try_self_heal env model grp m = (True, m2)"
        and "select_next_credential_impl env model grp upd upd m2 = (Some s, m')"
      by (auto simp: select_or_heal_def split: prod.splits bool.splits)
    with that [of m2] heal_measure [OF h] windows_self_heal [of env model grp m] show ?thesis by simp
  qed
qed

lemma select_eligible:
  assumes "select_next_credential_impl env model grp True claim m = (Some (i, c, g), m')"
  shows "\<exists>e \<in> set (m_entries m). ce_id e = i \<and> \<not> rpm_exceeded m e (env_now env)"
  using select_next_spec [of env model grp True claim m] assms
  by (auto simp: entry_available_for_request_def)

lemma same_pool_eligible:
  assumes "same_pool_state m m'" "\<exists>e \<in> set (m_entries m). ce_id e = i \<and> \<not> rpm_exceeded m e now"
  shows "\<exists>e \<in> set (m_entries m'). ce_id e = i \<and> \<not> rpm_exceeded m' e now"
proof -
  from assms(2) obtain e where e: "e \<in> set (m_entries m)" "ce_id e = i" "\<not> rpm_exceeded m e now" by blast
  from assms(1) have c: "core ` set (m_entries m') = core ` set (m_entries m)"
    unfolding same_pool_state_def by (metis set_map)
  then obtain e' where e': "e' \<in> set (m_entries m')" "core e' = core e"
    using e(1) by (metis (no_types, lifting) imageE imageI)
  then have "ce_id e' = ce_id e" "ce_rpm_window e' = ce_rpm_window e"
    by (metis core_select(1)) (metis e'(2) core_select(5))
  with e e' assms(1) show ?thesis
    by (intro bexI [of _ e']) (simp_all add: rpm_exceeded_def fresh_requests_def same_pool_state_def)
qed

lemma choose_progress:
  assumes "choose_credential env model grp session upd m = ((Some (i, c, guard), route), m')"
  shows "windows m' = windows m \<and>
    (to_revive m' < to_revive m \<or> to_revive m' = to_revive m \<and> to_reload m' = to_reload m) \<and>
    (upd \<longrightarrow> (\<exists>e \<in> set (m_entries m'). ce_id e = i \<and> \<not> rpm_exceeded m' e (env_now env)))"
proof -
  obtain pick r m1 where st: "sticky_candidate env session model grp m = ((pick, r), m1)"
    by (metis prod.exhaust)
  note s1 = same_pool_state_sticky [OF st]
  show ?thesis
  proof (cases pick)
    case (Some p)
    then obtain j d where p: "p = (j, d)" by fastforce
    from st Some p obtain e where e: "find_entry j m = Some e" "\<not> rpm_exceeded m e (env_now env)"
      by (auto simp: sticky_candidate_def Let_def entry_available_for_request_def find_entry_def
          dest: find_Some_in split: option.splits if_splits prod.splits)
    from assms st Some p have i: "i = j"
      and m': "m' = m1 \<or> m' = update_entry j claim_in_flight m1"
      by (auto simp: choose_credential_def acquire_in_flight_guard_def split: if_splits option.splits)
    have "same_pool_state m1 (update_entry j claim_in_flight m1)" by (simp add: same_pool_state_update)
    with m' s1 have s: "same_pool_state m m'" by (auto intro: same_pool_state_trans)
    have "\<exists>e \<in> set (m_entries m). ce_id e = i \<and> \<not> rpm_exceeded m e (env_now env)"
      using find_entry_Some [OF e(1)] e(2) i by blast
    from same_pool_eligible [OF s this] same_pool_state_measure [OF s] windows_same [OF s]
    show ?thesis by simp
  next
    case None
    with st assms have "select_or_heal env model grp upd m1 = (Some (i, c, guard), m')"
      by (auto simp: choose_credential_def split: prod.splits)
    then obtain m0 where sel: "select_next_credential_impl env model grp upd upd m0 = (Some (i, c, guard), m')"
      and m0: "m0 = m1 \<or> to_revive m0 < to_revive m1 \<and> windows m0 = windows m1"
      by (rule select_or_heal_cases)
    note s2 = same_pool_state_select [OF sel]
    have "upd \<longrightarrow> (\<exists>e \<in> set (m_entries m'). ce_id e = i \<and> \<not> rpm_exceeded m' e (env_now env))"
    proof
      assume upd
      then have "select_next_credential_impl env model grp True upd m0 = (Some (i, c, guard), m')"
        using sel by simp
      from select_eligible [OF this] show "\<exists>e \<in> set (m_entries m'). ce_id e = i \<and> \<not> rpm_exceeded m' e (env_now env)"
        by (rule same_pool_eligible [OF s2])
    qed
    with m0 same_pool_state_measure [OF s1] windows_same [OF s1] same_pool_state_measure [OF s2]
      windows_same [OF s2]
    show ?thesis by auto
  qed
qed

lemma quiet_keeps_flights: "quiet w \<Longrightarrow> keeps_flights w"
  by (simp add: quiet_def keeps_flights_def)

lemma refresh_failed_quiet:
  assumes "try_ensure_token g w i c m = (Inl (RefreshFailed err), m')" "quiet w"
  shows "m' = m"
  using assms
  by (auto simp: try_ensure_token_def refresh_locked_def quiet_def Let_def
      split: if_splits option.splits sum.splits prod.splits)

text \<open>A round that goes on keeps the windows; if it counts no attempt the measure falls.\<close>

lemma attempt_progress:
  assumes "attempt g w model grp session upd m = (Retry counted, m')"
    and "quiet w" "distinct_ids m" "windows_ok m"
  shows "windows m' = windows m \<and>
    (\<not> counted \<longrightarrow> to_revive m' < to_revive m \<or> to_revive m' = to_revive m \<and> to_reload m' < to_reload m)"
proof -
  obtain sel route m1 where ch: "choose_credential (w_select w) model grp session upd m = ((sel, route), m1)"
    by (metis prod.exhaust)
  from assms(1) ch obtain i c guard where s: "sel = Some (i, c, guard)"
    by (cases sel) (auto simp: attempt_def)
  note ch = ch [unfolded s]
  note prog = choose_progress [OF ch]
  define m2 where "m2 = (if upd then m1\<lparr>m_current_id := i\<rparr> else m1)"
  have s2: "same_pool_state m1 m2" by (simp add: m2_def same_pool_state_def)
  obtain res m3 where te: "try_ensure_token g w i c m2 = (res, m3)" by fastforce
  have w3: "windows m3 = windows m1"
    using windows_ensure [OF assms(2), of g i c m2] te windows_same [OF s2] by simp
  have drop: "same_pool_state m4 (drop_guard guard i m4)" for m4
    by (simp add: drop_guard_def same_pool_state_update)
  have d1: "distinct_ids m1"
    using one_more_choose [OF ch assms(3)] assms(3) by (simp add: distinct_ids_flights one_more_def)
  have a: "(Retry counted, m') =
      (case (res, m3) of
        (Inr ctx, m3) \<Rightarrow>
         (case (if upd then record_request (w_done w) i m3 else (True, m3)) of
            (True, m3) \<Rightarrow> (Done (Inr (ctx\<lparr>cx_guard := guard\<rparr>,
              fst (resolve_load_balancing_for_group m grp) = ''balanced'', route)), m3)
          | (False, m) \<Rightarrow> (Retry False, drop_guard guard i m))
      | (Inl Superseded, m) \<Rightarrow> (Retry True, drop_guard guard i m)
      | (Inl err, m) \<Rightarrow>
         (case handle_token_refresh_error (w_done w) i err m of
            (Inl e, m) \<Rightarrow> (Done (Inl e), drop_guard guard i m)
          | (Inr None, m) \<Rightarrow> (Retry False, drop_guard guard i m)
          | (Inr (Some has_available), m) \<Rightarrow>
              (if has_available then Retry True else Done (Inl NoAvailableCredentials),
               drop_guard guard i m)))"
    using assms(1) unfolding attempt_def Let_def ch prod.case option.case m2_def [symmetric] te
    by (simp only:)
  show ?thesis
  proof (cases res)
    case (Inr ctx)
    obtain ok m4 where rr: "(if upd then record_request (w_done w) i m3 else (True, m3)) = (ok, m4)"
      by fastforce
    have "fst (if upd then record_request (w_done w) i m3 else (True, m3))"
    proof (cases upd)
      case True
      with prog obtain e where "e \<in> set (m_entries m1)" "ce_id e = i" "\<not> rpm_exceeded m1 e (env_now (w_done w))"
        using assms(2) by (auto simp: quiet_def)
      with record_admits [OF w3 _ d1, of e "w_done w"] prog assms(4) windows_ok_cong [of m1 m] True
      show ?thesis by auto
    qed simp
    then have ok by (simp only: rr fst_conv)
    with a Inr show ?thesis by (simp add: rr)
  next
    case (Inl err)
    obtain h m4 where hd: "handle_token_refresh_error (w_done w) i err m3 = (h, m4)" by fastforce
    have w4: "windows m4 = windows m3" using windows_handle [of "w_done w" i err m3] hd by simp
    have cases: "counted \<and> (m' = drop_guard guard i m3 \<or> m' = drop_guard guard i m4) \<or>
        \<not> counted \<and> h = Inr None \<and> m' = drop_guard guard i m4"
      using a hd by (cases err; cases h) (auto simp: Inl split: option.splits if_splits)
    have win: "windows m' = windows m"
      using cases windows_same [OF drop] w4 w3 prog by auto
    have "to_revive m' < to_revive m \<or> to_revive m' = to_revive m \<and> to_reload m' < to_reload m"
      if "\<not> counted"
    proof -
      from cases that have h: "h = Inr None" and m': "m' = drop_guard guard i m4" by auto
      from hd h obtain e where e: "err = RefreshFailed e" and
          rl: "try_reload_credential_from_file i m3 = (True, m4)"
        by (auto simp: handle_token_refresh_error_def split: ensure_error.splits refresh_error.splits
            prod.splits bool.splits)
      from te Inl e have "m3 = m2" by (auto dest: refresh_failed_quiet [OF _ assms(2)])
      with reload_measure [OF rl] same_pool_state_measure [OF s2] same_pool_state_measure [OF drop [of m4]]
        prog m'
      show ?thesis by auto
    qed
    with win show ?thesis by blast
  qed
qed

section \<open>The loop ends\<close>

lemma attempt_ids:
  assumes "attempt g w model grp session upd m = (Retry b, m')" "quiet w" "distinct_ids m"
  shows "distinct_ids m' \<and> length (m_entries m') = length (m_entries m)"
proof -
  from attempt_guards [OF assms(1) quiet_keeps_flights [OF assms(2)] assms(3)]
  have "map fst (flights m') = map fst (flights m)" by (auto simp: one_more_def)
  then have "map ce_id (m_entries m') = map ce_id (m_entries m)" by (simp add: flights_def comp_def)
  with assms(3) show ?thesis unfolding distinct_ids_def by (metis length_map)
qed

lemma loop_ends:
  assumes "\<forall>k. quiet (worlds k)" "distinct_ids m" "windows_ok m" "length (m_entries m) = n"
    and "(mx - attempts) * ((n + 1) * (n + 1)) + to_revive m * (n + 1) + to_reload m < fuel"
  shows "fst (acquire_loop fuel g worlds model grp session upd mx attempts m) \<noteq> None"
  using assms
proof (induction fuel arbitrary: worlds attempts m)
  case (Suc fuel)
  show ?case
  proof (cases "mx \<le> attempts")
    case False
    obtain out m1 where a: "attempt g (worlds 0) model grp session upd m = (out, m1)" by fastforce
    show ?thesis
    proof (cases out)
      case (Done r)
      with a False show ?thesis by simp
    next
      case (Retry counted)
      note a = a [unfolded Retry]
      from attempt_ids [OF a _ Suc.prems(2)] Suc.prems(1,4)
      have d: "distinct_ids m1" "length (m_entries m1) = n" by auto
      from attempt_progress [OF a _ Suc.prems(2,3)] Suc.prems(1)
      have w: "windows m1 = windows m" and less: "\<not> counted \<Longrightarrow> to_revive m1 < to_revive m \<or>
          to_revive m1 = to_revive m \<and> to_reload m1 < to_reload m" by auto
      have b: "to_revive m1 \<le> n" "to_reload m1 \<le> n"
        using d(2) by (auto simp: to_revive_def to_reload_def intro: order_trans [OF length_filter_le])
      then have b2: "to_revive m1 * (n + 1) + to_reload m1 < (n + 1) * (n + 1)"
        using mult_le_mono1 [OF b(1), of "n + 1"] by simp
      have "(mx - (if counted then Suc attempts else attempts)) * ((n + 1) * (n + 1))
          + to_revive m1 * (n + 1) + to_reload m1 < fuel"
      proof (cases counted)
        case True
        from False obtain k where k: "mx - attempts = Suc k" by (cases "mx - attempts") auto
        then have "mx - Suc attempts = k" by linarith
        with True k b2 Suc.prems(5) show ?thesis by simp
      next
        case counted: False
        from less [OF counted] have "to_revive m1 * (n + 1) + to_reload m1 < to_revive m * (n + 1) + to_reload m"
        proof
          assume "to_revive m1 < to_revive m"
          then have "Suc (to_revive m1) * (n + 1) \<le> to_revive m * (n + 1)" by (intro mult_le_mono1) simp
          with b(2) show ?thesis by simp
        qed simp
        with counted Suc.prems(5) show ?thesis by simp
      qed
      from Suc.IH [OF _ d(1) _ d(2) this] Suc.prems(1,3) windows_ok_cong [OF w] a False
      show ?thesis by simp
    qed
  qed simp
qed simp

lemma acquire_answers:
  assumes "\<forall>k. quiet (worlds k)" "distinct_ids m" "windows_ok m"
    and "(max_attempts_of grp m + 1) * (length (m_entries m) + 1)\<^sup>2 \<le> fuel"
  shows "fst (acquire_context_impl fuel g worlds model grp session upd m) \<noteq> None"
proof -
  let ?n = "length (m_entries m)"
  have "to_revive m * (?n + 1) + to_reload m < (?n + 1) * (?n + 1)"
  proof -
    have b: "to_revive m \<le> ?n" "to_reload m \<le> ?n" by (simp_all add: to_revive_def to_reload_def)
    then show ?thesis using mult_le_mono1 [OF b(1), of "?n + 1"] by simp
  qed
  then have "(max_attempts_of grp m - 0) * ((?n + 1) * (?n + 1)) + to_revive m * (?n + 1) + to_reload m < fuel"
    using assms(4) by (simp add: power2_eq_square algebra_simps)
  from loop_ends [OF assms(1,2,3) refl this] show ?thesis by (simp add: acquire_context_impl_def)
qed

text \<open>C13: The request loop always comes to an answer: with \<open>n\<close> credentials and as long as nobody
  interferes, whatever the identity providers answer and however the clock moves, it ends within
  \<open>(attempts allowed + 1) * (n + 1)^2\<close> rounds, although rounds that reload a rotated token from the
  file are not counted as attempts.\<close>

theorem acquire_context_terminates:
  assumes "\<forall>k. quiet (worlds k)" and "distinct_ids m"
    and "\<forall>e \<in> set (m_entries m). sorted (ce_rpm_window e) \<and> length (ce_rpm_window e) < 2 ^ 32"
    and "(max_attempts_of grp m + 1) * (length (m_entries m) + 1) ^ 2 \<le> fuel"
  shows "\<exists>r m'. acquire_context_impl fuel g worlds model grp session upd m = (Some r, m')"
  using acquire_answers [OF assms(1,2) _ assms(4), of g model session upd] assms(3)
  by (cases "acquire_context_impl fuel g worlds model grp session upd m")
    (auto simp: windows_ok_def windows_def)

theorem acquire_context_terminates_witness:
  "\<exists>r m'. acquire_context_impl 16 sample_regions (\<lambda>_. sample_world) None None None True key_manager = (Some r, m')"
proof -
  have "max_attempts_of None key_manager = 3" "length (m_entries key_manager) = 1"
    by (simp_all add: max_attempts_of_def total_count_in_group_def group_matches_def
        MAX_FAILURES_PER_CREDENTIAL_def key_manager_defs)
  moreover have "\<forall>e \<in> set (m_entries key_manager). sorted (ce_rpm_window e) \<and> length (ce_rpm_window e) < 2 ^ 32"
    by (simp add: key_manager_defs)
  moreover have "distinct_ids key_manager" by (simp add: distinct_ids_def key_manager_defs)
  moreover have "\<forall>k. quiet ((\<lambda>_. sample_world) k)" by (simp add: quiet_def sample_world_def)
  ultimately show ?thesis by (intro acquire_context_terminates) (simp_all add: power2_eq_square)
qed

end
