(* ===== verification/ToolMapping.thy ===== *)
theory ToolMapping
  imports Json "HOL-Library.Word"
begin

text \<open>
  Names and arguments of tool calls on their way to the upstream service and back
  (\<open>src/anthropic/converter.rs\<close>): in \<open>ClaudeCode\<close> mode the built-in tools of the client are renamed
  to the built-in tools of the upstream and their arguments rewritten; a name that is too long is
  shortened; the reverse map \<open>tool_name_map\<close> (upstream name to client name) restores both in the
  reply.  The lemmas show that what the client sends is what it gets back.
\<close>

section \<open>Names\<close>

datatype tool_compatibility_mode = Raw | ClaudeCode

type_synonym name_map = "(string \<times> string) list"

definition tool_name_max_len :: nat where
  "tool_name_max_len = 63"

text \<open>\<open>sha256_hex\<close> is the hexadecimal SHA-256 digest of the \<open>sha2\<close> crate.\<close>

definition shorten_tool_name :: "(string \<Rightarrow> string) \<Rightarrow> string \<Rightarrow> string" where
  "shorten_tool_name sha256_hex name =
     (let hash_suffix = take 8 (sha256_hex name);
          prefix_max = tool_name_max_len - 1 - 8;
          cut_at = boundary_down name (min prefix_max (length name))
      in take cut_at name @ ''_'' @ hash_suffix)"

definition map_tool_name :: "(string \<Rightarrow> string) \<Rightarrow> string \<Rightarrow> name_map \<Rightarrow> string \<times> name_map" where
  "map_tool_name sha256_hex name tool_name_map =
     (if length name \<le> tool_name_max_len then (name, tool_name_map)
      else let short = shorten_tool_name sha256_hex name
           in (short, map_insert short name tool_name_map))"

definition claude_code_tool_name_to_kiro :: "string \<Rightarrow> string option" where
  "claude_code_tool_name_to_kiro name =
     (if name = ''Write'' then Some ''fs_write''
      else if name = ''Edit'' then Some ''str_replace''
      else if name = ''Bash'' then Some ''execute_bash''
      else if name = ''Read'' then Some ''read_file''
      else if name = ''Glob'' then Some ''file_search''
      else if name = ''Grep'' then Some ''grep_search''
      else if name = ''LS'' then Some ''list_directory''
      else if name = ''WebSearch'' then Some ''web_search''
      else None)"

definition is_claude_code_mode :: "tool_compatibility_mode \<Rightarrow> bool" where
  "is_claude_code_mode mode = (mode = ClaudeCode)"

definition map_client_tool_name_to_kiro ::
  "(string \<Rightarrow> string) \<Rightarrow> string \<Rightarrow> name_map \<Rightarrow> tool_compatibility_mode \<Rightarrow> string \<times> name_map" where
  "map_client_tool_name_to_kiro sha256_hex name tool_name_map mode =
     (case (if is_claude_code_mode mode then claude_code_tool_name_to_kiro name else None) of
        Some kiro_name \<Rightarrow>
          (kiro_name,
           if map_of tool_name_map kiro_name = None then map_insert kiro_name name tool_name_map
           else tool_name_map)
      | None \<Rightarrow> map_tool_name sha256_hex name tool_name_map)"

section \<open>Arguments\<close>

text \<open>\<open>as_u64().map(|v| v as i64)\<close> wraps a value above \<open>i64::MAX\<close>.\<close>

definition optional_number :: "json \<Rightarrow> 64 word option" where
  "optional_number value =
     (case as_i64 value of
        Some i \<Rightarrow> Some (word_of_int i)
      | None \<Rightarrow> map_option word_of_int (as_u64 value))"

fun take_first :: "json_object \<Rightarrow> string list \<Rightarrow> json option" where
  "take_first obj [] = None"
| "take_first obj (key # keys) =
     (case map_of obj key of Some v \<Rightarrow> Some v | None \<Rightarrow> take_first obj keys)"

definition maybe_insert :: "string \<Rightarrow> json option \<Rightarrow> json_object \<Rightarrow> json_object" where
  "maybe_insert key value out =
     (case value of
        Some v \<Rightarrow> if v \<noteq> JNull then obj_insert key v out else out
      | None \<Rightarrow> out)"

definition default_explanation :: "string \<Rightarrow> json" where
  "default_explanation tool_name =
     JString (''Mapped from Claude Code '' @ tool_name @ '' tool.'')"

text \<open>\<open>json!(n)\<close> of an \<open>i64\<close>.\<close>

definition json_of_i64 :: "64 word \<Rightarrow> json" where
  "json_of_i64 n = JInt (sint n)"

definition write_to_kiro :: "json_object \<Rightarrow> json_object" where
  "write_to_kiro obj =
     maybe_insert ''text'' (take_first obj [''content'', ''text''])
      (maybe_insert ''path'' (take_first obj [''file_path'', ''path'']) [])"

definition edit_to_kiro :: "json_object \<Rightarrow> json_object" where
  "edit_to_kiro obj =
     maybe_insert ''newStr'' (take_first obj [''new_string'', ''newStr''])
      (maybe_insert ''oldStr'' (take_first obj [''old_string'', ''oldStr''])
        (maybe_insert ''path'' (take_first obj [''file_path'', ''path'']) []))"

definition bash_to_kiro :: "json_object \<Rightarrow> json_object" where
  "bash_to_kiro obj =
     maybe_insert ''timeout'' (take_first obj [''timeout''])
      (maybe_insert ''command'' (take_first obj [''command'']) [])"

text \<open>The arithmetic is on \<open>i64\<close>, which wraps in a release build.\<close>

definition read_to_kiro :: "json_object \<Rightarrow> json_object" where
  "read_to_kiro obj =
     (let out = maybe_insert ''path'' (take_first obj [''file_path'', ''path'']) [];
          offset = Option.bind (map_of obj ''offset'') optional_number;
          limit = Option.bind (map_of obj ''limit'') optional_number;
          out = (case offset of Some start \<Rightarrow> obj_insert ''start_line'' (json_of_i64 start) out | None \<Rightarrow> out);
          out = (case limit of
                   Some limit \<Rightarrow>
                     let end_line = (case offset of Some start \<Rightarrow> start + limit - 1 | None \<Rightarrow> limit)
                     in obj_insert ''end_line'' (json_of_i64 end_line) out
                 | None \<Rightarrow> out);
          out = maybe_insert ''explanation'' (take_first obj [''explanation'']) out
      in obj_or_insert ''explanation'' (default_explanation ''Read'') out)"

definition glob_to_kiro :: "json_object \<Rightarrow> json_object" where
  "glob_to_kiro obj =
     (let out = maybe_insert ''query'' (take_first obj [''pattern'', ''query'']) [];
          out = maybe_insert ''excludePattern'' (take_first obj [''excludePattern'', ''exclude'']) out;
          out = (case take_first obj [''includeIgnoredFiles'', ''include_ignored''] of
                   Some v \<Rightarrow>
                     let mapped = (case v of JBool b \<Rightarrow> JString (if b then ''yes'' else ''no'') | other \<Rightarrow> other)
                     in obj_insert ''includeIgnoredFiles'' mapped out
                 | None \<Rightarrow> out);
          out = maybe_insert ''explanation'' (take_first obj [''explanation'']) out
      in obj_or_insert ''explanation'' (default_explanation ''Glob'') out)"

definition grep_to_kiro :: "json_object \<Rightarrow> json_object" where
  "grep_to_kiro obj =
     maybe_insert ''explanation'' (take_first obj [''explanation''])
      (maybe_insert ''caseSensitive'' (take_first obj [''caseSensitive'', ''case_sensitive''])
        (maybe_insert ''excludePattern'' (take_first obj [''excludePattern'', ''exclude''])
          (maybe_insert ''includePattern'' (take_first obj [''glob'', ''includePattern''])
            (maybe_insert ''query'' (take_first obj [''pattern'', ''query'']) []))))"

definition ls_to_kiro :: "json_object \<Rightarrow> json_object" where
  "ls_to_kiro obj =
     obj_or_insert ''explanation'' (default_explanation ''LS'')
      (maybe_insert ''explanation'' (take_first obj [''explanation''])
        (maybe_insert ''depth'' (take_first obj [''depth''])
          (maybe_insert ''path'' (take_first obj [''path'']) [])))"

definition web_search_to_kiro :: "json_object \<Rightarrow> json_object" where
  "web_search_to_kiro obj = maybe_insert ''query'' (take_first obj [''query'']) []"

text \<open>No branch fails, so the \<open>Result\<close> of the code is dropped.\<close>

definition map_tool_input_to_kiro :: "string \<Rightarrow> json \<Rightarrow> tool_compatibility_mode \<Rightarrow> json" where
  "map_tool_input_to_kiro client_name input mode =
     (if \<not> is_claude_code_mode mode then input
      else case claude_code_tool_name_to_kiro client_name of
        None \<Rightarrow> input
      | Some kiro_name \<Rightarrow>
          (case input of
             JObject obj \<Rightarrow>
               JObject
                (if (client_name, kiro_name) = (''Write'', ''fs_write'') then write_to_kiro obj
                 else if (client_name, kiro_name) = (''Edit'', ''str_replace'') then edit_to_kiro obj
                 else if (client_name, kiro_name) = (''Bash'', ''execute_bash'') then bash_to_kiro obj
                 else if (client_name, kiro_name) = (''Read'', ''read_file'') then read_to_kiro obj
                 else if (client_name, kiro_name) = (''Glob'', ''file_search'') then glob_to_kiro obj
                 else if (client_name, kiro_name) = (''Grep'', ''grep_search'') then grep_to_kiro obj
                 else if (client_name, kiro_name) = (''LS'', ''list_directory'') then ls_to_kiro obj
                 else if (client_name, kiro_name) = (''WebSearch'', ''web_search'') then web_search_to_kiro obj
                 else obj)
           | other \<Rightarrow> other))"

definition write_from_kiro :: "json_object \<Rightarrow> json_object" where
  "write_from_kiro obj =
     maybe_insert ''content'' (take_first obj [''text'', ''content''])
      (maybe_insert ''file_path'' (take_first obj [''path'', ''file_path'']) [])"

definition edit_from_kiro :: "json_object \<Rightarrow> json_object" where
  "edit_from_kiro obj =
     maybe_insert ''new_string'' (take_first obj [''newStr'', ''new_string''])
      (maybe_insert ''old_string'' (take_first obj [''oldStr'', ''old_string''])
        (maybe_insert ''file_path'' (take_first obj [''path'', ''file_path'']) []))"

definition read_from_kiro :: "json_object \<Rightarrow> json_object" where
  "read_from_kiro obj =
     (let out = maybe_insert ''file_path'' (take_first obj [''path'', ''file_path'']) [];
          start = Option.bind (map_of obj ''start_line'') optional_number;
          last_line = Option.bind (map_of obj ''end_line'') optional_number;
          out = (case start of Some s \<Rightarrow> obj_insert ''offset'' (json_of_i64 s) out | None \<Rightarrow> out)
      in case last_line of
           Some e \<Rightarrow>
             let limit = (case start of Some s \<Rightarrow> e - s + 1 | None \<Rightarrow> e)
             in if 0 < sint limit then obj_insert ''limit'' (json_of_i64 limit) out else out
         | None \<Rightarrow> out)"

definition grep_from_kiro :: "json_object \<Rightarrow> json_object" where
  "grep_from_kiro obj =
     maybe_insert ''case_sensitive'' (take_first obj [''caseSensitive'', ''case_sensitive''])
      (maybe_insert ''glob'' (take_first obj [''includePattern'', ''glob''])
        (maybe_insert ''pattern'' (take_first obj [''query'', ''pattern'']) []))"

definition map_tool_input_from_kiro :: "string \<Rightarrow> json \<Rightarrow> json" where
  "map_tool_input_from_kiro kiro_name input =
     (case input of
        JObject obj \<Rightarrow>
          JObject
           (if kiro_name = ''fs_write'' then write_from_kiro obj
            else if kiro_name = ''str_replace'' then edit_from_kiro obj
            else if kiro_name = ''execute_bash'' then
              maybe_insert ''timeout'' (take_first obj [''timeout''])
               (maybe_insert ''command'' (take_first obj [''command'']) [])
            else if kiro_name = ''read_file'' then read_from_kiro obj
            else if kiro_name = ''file_search'' then
              maybe_insert ''pattern'' (take_first obj [''query'', ''pattern'']) []
            else if kiro_name = ''grep_search'' then grep_from_kiro obj
            else if kiro_name = ''list_directory'' then maybe_insert ''path'' (take_first obj [''path'']) []
            else if kiro_name = ''web_search'' then maybe_insert ''query'' (take_first obj [''query'']) []
            else obj)
      | other \<Rightarrow> other)"

definition tool_input_needs_rewrite :: "string \<Rightarrow> name_map \<Rightarrow> bool" where
  "tool_input_needs_rewrite kiro_name tool_name_map =
     (case map_of tool_name_map kiro_name of
        Some client_name \<Rightarrow> claude_code_tool_name_to_kiro client_name = Some kiro_name
      | None \<Rightarrow> False)"

definition restore_tool_use_for_client :: "string \<Rightarrow> json \<Rightarrow> name_map \<Rightarrow> string \<times> json" where
  "restore_tool_use_for_client kiro_name input tool_name_map =
     (case map_of tool_name_map kiro_name of
        None \<Rightarrow> (kiro_name, input)
      | Some client_name \<Rightarrow>
          (client_name,
           if tool_input_needs_rewrite kiro_name tool_name_map
           then map_tool_input_from_kiro kiro_name input else input))"

section \<open>Shortened names\<close>

lemma length_shorten_tool_name:
  assumes "\<And>s. 8 \<le> length (sha256_hex s)"
  shows "length (shorten_tool_name sha256_hex name) \<le> tool_name_max_len"
  using boundary_down_le[of name "min 54 (length name)"] assms[of name]
  by (simp add: shorten_tool_name_def Let_def tool_name_max_len_def)

text \<open>A tool name sent upstream is never longer than the upstream accepts, and the reverse map
  gives the client's name back: for a name that is short enough because it is not in the map
  (unless another tool owns that entry), for a shortened one because it was recorded.\<close>

lemma tool_name_round_trip:
  assumes "\<And>s. 8 \<le> length (sha256_hex s)"
    and "map_tool_name sha256_hex name m = (kiro, m')"
    and "map_of m name = None"
  shows "length kiro \<le> tool_name_max_len
     \<and> fst (restore_tool_use_for_client kiro input m') = name"
  using assms length_shorten_tool_name[of sha256_hex name, OF assms(1)]
  by (auto simp: map_tool_name_def restore_tool_use_for_client_def Let_def split: if_splits)

section \<open>Arguments survive the round trip\<close>

lemma map_of_maybe_insert [simp]:
  "map_of (maybe_insert k v m) =
     (case v of Some x \<Rightarrow> if x \<noteq> JNull then (map_of m)(k \<mapsto> x) else map_of m | None \<Rightarrow> map_of m)"
  by (simp add: maybe_insert_def split: option.splits)

lemma sorted_obj_maybe_insert [simp]: "sorted_obj m \<Longrightarrow> sorted_obj (maybe_insert k v m)"
  by (simp add: maybe_insert_def split: option.splits)

text \<open>The arguments the built-in tools of the client take, and the numbers of \<open>Read\<close>: in the range of
  \<open>i64\<close> and not so large that the last line leaves it.\<close>

definition client_arguments :: "string \<Rightarrow> string list" where
  "client_arguments name =
     (if name = ''Write'' then [''file_path'', ''content'']
      else if name = ''Edit'' then [''file_path'', ''old_string'', ''new_string'']
      else if name = ''Bash'' then [''command'', ''timeout'']
      else if name = ''Read'' then [''file_path'', ''offset'', ''limit'']
      else if name = ''Glob'' then [''pattern'']
      else if name = ''Grep'' then [''pattern'', ''glob'', ''case_sensitive'']
      else if name = ''LS'' then [''path'']
      else if name = ''WebSearch'' then [''query''] else [])"

definition read_numbers_ok :: "json_object \<Rightarrow> bool" where
  "read_numbers_ok obj =
     ((case map_of obj ''offset'' of
         None \<Rightarrow> True | Some (JInt i) \<Rightarrow> - (2 ^ 63) \<le> i \<and> i < 2 ^ 63 | Some _ \<Rightarrow> False)
      \<and> (case map_of obj ''limit'' of
         None \<Rightarrow> True | Some (JInt i) \<Rightarrow> 0 < i \<and> i < 2 ^ 63 | Some _ \<Rightarrow> False))"

definition plain_arguments :: "string \<Rightarrow> json_object \<Rightarrow> bool" where
  "plain_arguments name obj \<longleftrightarrow>
     sorted_obj obj \<and> set (map fst obj) \<subseteq> set (client_arguments name)
     \<and> JNull \<notin> set (map snd obj) \<and> (name = ''Read'' \<longrightarrow> read_numbers_ok obj)"

lemma plain_argumentsD:
  assumes "plain_arguments name obj"
  shows "k \<notin> set (client_arguments name) \<Longrightarrow> map_of obj k = None" "map_of obj k \<noteq> Some JNull"
  using assms
  by (auto simp: plain_arguments_def map_of_eq_None_iff image_iff dest!: map_of_SomeD)

lemma obj_eqI:
  fixes m m' :: json_object
  assumes "sorted_obj m" "sorted_obj m'" "\<And>k. map_of m k = map_of m' k"
  shows "m = m'"
  using assms by (intro sorted_obj_unique) auto

named_theorems tool_arguments \<open>the rewriting of the arguments, both ways\<close>

lemmas [tool_arguments] =
  write_to_kiro_def write_from_kiro_def edit_to_kiro_def edit_from_kiro_def bash_to_kiro_def
  glob_to_kiro_def grep_to_kiro_def grep_from_kiro_def ls_to_kiro_def web_search_to_kiro_def

lemma sint_word_of_int_i64:
  "- (2 ^ 63) \<le> i \<Longrightarrow> i < 2 ^ 63 \<Longrightarrow> sint (word_of_int i :: 64 word) = i"
  by (simp add: sint_sbintrunc' signed_take_bit_int_eq_self)

lemma optional_number_json_of_i64 [simp]: "optional_number (json_of_i64 w) = Some w"
proof -
  have "- (2 ^ 63) \<le> sint w" "sint w < 2 ^ 63"
    using sint_range_size[of w] by (auto simp: word_size)
  then show ?thesis
    by (simp add: optional_number_def json_of_i64_def as_i64_def)
qed

lemma optional_number_in_range:
  "- (2 ^ 63) \<le> i \<Longrightarrow> i < 2 ^ 63 \<Longrightarrow> optional_number (JInt i) = Some (word_of_int i)"
  by (simp add: optional_number_def as_i64_def)

text \<open>The entry put into an object that does not have the key yet.\<close>

lemma map_of_maybe_insert_fresh:
  "map_of m k = None \<Longrightarrow> v \<noteq> Some JNull \<Longrightarrow> map_of (maybe_insert k v m) = (map_of m)(k := v)"
  by (auto split: option.splits)

lemma take_first_other: "map_of m k' = None \<Longrightarrow> take_first m [k, k'] = map_of m k"
  by (simp split: option.splits)

lemma take_first_missing: "map_of m k = None \<Longrightarrow> take_first m [k, k'] = map_of m k'"
  by (simp split: option.splits)

lemma take_first_one: "take_first m [k] = map_of m k"
  by (simp split: option.splits)

lemmas lookup_simps = map_of_maybe_insert_fresh take_first_other take_first_missing take_first_one

lemma plain_arguments_outside:
  "plain_arguments name obj \<Longrightarrow> k \<notin> set (client_arguments name) \<Longrightarrow> map_of obj k = None"
  by (rule plain_argumentsD)


lemma write_round_trip:
  assumes "plain_arguments ''Write'' obj" shows "write_from_kiro (write_to_kiro obj) = obj"
proof (rule obj_eqI)
  note out = plain_arguments_outside[OF assms, unfolded client_arguments_def, simplified]
  note nn = plain_argumentsD(2)[OF assms]
  show "map_of (write_from_kiro (write_to_kiro obj)) k = map_of obj k" for k
    using out[of k]
    by (simp add: tool_arguments lookup_simps out nn del: map_of_maybe_insert take_first.simps)
qed (use assms in \<open>auto simp: plain_arguments_def tool_arguments\<close>)

lemma edit_round_trip:
  assumes "plain_arguments ''Edit'' obj" shows "edit_from_kiro (edit_to_kiro obj) = obj"
proof (rule obj_eqI)
  note out = plain_arguments_outside[OF assms, unfolded client_arguments_def, simplified]
  note nn = plain_argumentsD(2)[OF assms]
  show "map_of (edit_from_kiro (edit_to_kiro obj)) k = map_of obj k" for k
    using out[of k]
    by (simp add: tool_arguments lookup_simps out nn del: map_of_maybe_insert take_first.simps)
qed (use assms in \<open>auto simp: plain_arguments_def tool_arguments\<close>)

lemma grep_round_trip:
  assumes "plain_arguments ''Grep'' obj" shows "grep_from_kiro (grep_to_kiro obj) = obj"
proof (rule obj_eqI)
  note out = plain_arguments_outside[OF assms, unfolded client_arguments_def, simplified]
  note nn = plain_argumentsD(2)[OF assms]
  show "map_of (grep_from_kiro (grep_to_kiro obj)) k = map_of obj k" for k
    using out[of k]
    by (simp add: tool_arguments lookup_simps out nn del: map_of_maybe_insert take_first.simps)
qed (use assms in \<open>auto simp: plain_arguments_def tool_arguments\<close>)

lemma bash_round_trip:
  assumes "plain_arguments ''Bash'' obj" shows "bash_to_kiro (bash_to_kiro obj) = obj"
proof (rule obj_eqI)
  note out = plain_arguments_outside[OF assms, unfolded client_arguments_def, simplified]
  note nn = plain_argumentsD(2)[OF assms]
  show "map_of (bash_to_kiro (bash_to_kiro obj)) k = map_of obj k" for k
    using out[of k]
    by (simp add: tool_arguments lookup_simps out nn del: map_of_maybe_insert take_first.simps)
qed (use assms in \<open>auto simp: plain_arguments_def tool_arguments\<close>)

lemma glob_round_trip:
  assumes "plain_arguments ''Glob'' obj" shows "maybe_insert ''pattern'' (take_first (glob_to_kiro obj) [''query'', ''pattern'']) [] = obj"
proof (rule obj_eqI)
  note out = plain_arguments_outside[OF assms, unfolded client_arguments_def, simplified]
  note nn = plain_argumentsD(2)[OF assms]
  show "map_of (maybe_insert ''pattern'' (take_first (glob_to_kiro obj) [''query'', ''pattern'']) []) k = map_of obj k" for k
    using out[of k]
    by (simp add: tool_arguments lookup_simps out nn Let_def del: map_of_maybe_insert take_first.simps)
qed (use assms in \<open>auto simp: plain_arguments_def tool_arguments\<close>)

lemma ls_round_trip:
  assumes "plain_arguments ''LS'' obj" shows "maybe_insert ''path'' (take_first (ls_to_kiro obj) [''path'']) [] = obj"
proof (rule obj_eqI)
  note out = plain_arguments_outside[OF assms, unfolded client_arguments_def, simplified]
  note nn = plain_argumentsD(2)[OF assms]
  show "map_of (maybe_insert ''path'' (take_first (ls_to_kiro obj) [''path'']) []) k = map_of obj k" for k
    using out[of k]
    by (simp add: tool_arguments lookup_simps out nn del: map_of_maybe_insert take_first.simps)
qed (use assms in \<open>auto simp: plain_arguments_def tool_arguments\<close>)

lemma web_search_round_trip:
  assumes "plain_arguments ''WebSearch'' obj" shows "web_search_to_kiro (web_search_to_kiro obj) = obj"
proof (rule obj_eqI)
  note out = plain_arguments_outside[OF assms, unfolded client_arguments_def, simplified]
  note nn = plain_argumentsD(2)[OF assms]
  show "map_of (web_search_to_kiro (web_search_to_kiro obj)) k = map_of obj k" for k
    using out[of k]
    by (simp add: tool_arguments lookup_simps out nn del: map_of_maybe_insert take_first.simps)
qed (use assms in \<open>auto simp: plain_arguments_def tool_arguments\<close>)


lemma sorted_read_from_kiro: "sorted_obj (read_from_kiro obj)"
  by (simp add: read_from_kiro_def Let_def split: option.splits)

text \<open>What \<open>Read\<close> sends upstream, entry by entry.\<close>

lemma read_to_kiro_lookups:
  assumes "plain_arguments ''Read'' obj"
  defines "offset \<equiv> Option.bind (map_of obj ''offset'') optional_number"
    and "limit \<equiv> Option.bind (map_of obj ''limit'') optional_number"
  shows "map_of (read_to_kiro obj) ''path'' = map_of obj ''file_path''"
    "map_of (read_to_kiro obj) ''file_path'' = None"
    "map_of (read_to_kiro obj) ''start_line'' = map_option json_of_i64 offset"
    "map_of (read_to_kiro obj) ''end_line'' =
       (case limit of None \<Rightarrow> None
        | Some l \<Rightarrow> Some (json_of_i64 (case offset of Some s \<Rightarrow> s + l - 1 | None \<Rightarrow> l)))"
proof -
  note out = plain_arguments_outside[OF assms(1), unfolded client_arguments_def, simplified]
  note nn = plain_argumentsD(2)[OF assms(1)]
  note s = read_to_kiro_def Let_def lookup_simps out nn offset_def[symmetric] limit_def[symmetric]
  show "map_of (read_to_kiro obj) ''path'' = map_of obj ''file_path''"
    "map_of (read_to_kiro obj) ''file_path'' = None"
    "map_of (read_to_kiro obj) ''start_line'' = map_option json_of_i64 offset"
    "map_of (read_to_kiro obj) ''end_line'' =
       (case limit of None \<Rightarrow> None
        | Some l \<Rightarrow> Some (json_of_i64 (case offset of Some s \<Rightarrow> s + l - 1 | None \<Rightarrow> l)))"
    by (cases offset; cases limit; simp add: s del: map_of_maybe_insert take_first.simps)+
qed

text \<open>The numbers of \<open>Read\<close> are read as the words they encode.\<close>

lemma read_number_word:
  assumes "read_numbers_ok obj"
  shows "map_of obj ''offset'' = map_option json_of_i64 (Option.bind (map_of obj ''offset'') optional_number)"
    "map_of obj ''limit'' = map_option json_of_i64 (Option.bind (map_of obj ''limit'') optional_number)"
    "Option.bind (map_of obj ''limit'') optional_number = Some l \<Longrightarrow> 0 < sint l"
  using assms
  by (auto simp: read_numbers_ok_def optional_number_in_range json_of_i64_def sint_word_of_int_i64
      split: option.splits json.splits)

lemma read_round_trip:
  assumes "plain_arguments ''Read'' obj" shows "read_from_kiro (read_to_kiro obj) = obj"
proof (rule obj_eqI)
  note out = plain_arguments_outside[OF assms, unfolded client_arguments_def, simplified]
  note nn = plain_argumentsD(2)[OF assms]
  have ok: "read_numbers_ok obj" using assms by (simp add: plain_arguments_def)
  have "map_of (read_from_kiro (read_to_kiro obj)) = Map.empty(''file_path'' := map_of obj ''file_path'',
      ''offset'' := map_of obj ''offset'', ''limit'' := map_of obj ''limit'')"
    using read_number_word(1,2)[OF ok] read_number_word(3)[OF ok]
    by (cases "Option.bind (map_of obj ''offset'') optional_number";
        cases "Option.bind (map_of obj ''limit'') optional_number";
        simp add: read_from_kiro_def Let_def lookup_simps read_to_kiro_lookups[OF assms] nn fun_upd_idem
          del: map_of_maybe_insert take_first.simps)
  then show "map_of (read_from_kiro (read_to_kiro obj)) k = map_of obj k" for k
    using out[of k] by simp
qed (use assms in \<open>simp_all add: plain_arguments_def sorted_read_from_kiro\<close>)

lemma claude_code_tool_name_cases:
  assumes "claude_code_tool_name_to_kiro name = Some kiro"
  shows "(name, kiro) \<in> {(''Write'', ''fs_write''), (''Edit'', ''str_replace''), (''Bash'', ''execute_bash''),
     (''Read'', ''read_file''), (''Glob'', ''file_search''), (''Grep'', ''grep_search''),
     (''LS'', ''list_directory''), (''WebSearch'', ''web_search'')}"
  using assms unfolding claude_code_tool_name_to_kiro_def by (auto split: if_splits)

lemma map_tool_input_to_kiro_built_in:
  "map_tool_input_to_kiro ''Write'' (JObject obj) ClaudeCode = JObject (write_to_kiro obj)"
  "map_tool_input_to_kiro ''Edit'' (JObject obj) ClaudeCode = JObject (edit_to_kiro obj)"
  "map_tool_input_to_kiro ''Bash'' (JObject obj) ClaudeCode = JObject (bash_to_kiro obj)"
  "map_tool_input_to_kiro ''Read'' (JObject obj) ClaudeCode = JObject (read_to_kiro obj)"
  "map_tool_input_to_kiro ''Glob'' (JObject obj) ClaudeCode = JObject (glob_to_kiro obj)"
  "map_tool_input_to_kiro ''Grep'' (JObject obj) ClaudeCode = JObject (grep_to_kiro obj)"
  "map_tool_input_to_kiro ''LS'' (JObject obj) ClaudeCode = JObject (ls_to_kiro obj)"
  "map_tool_input_to_kiro ''WebSearch'' (JObject obj) ClaudeCode = JObject (web_search_to_kiro obj)"
  by (simp_all add: map_tool_input_to_kiro_def is_claude_code_mode_def claude_code_tool_name_to_kiro_def)

lemma map_tool_input_from_kiro_built_in:
  "map_tool_input_from_kiro ''fs_write'' (JObject obj) = JObject (write_from_kiro obj)"
  "map_tool_input_from_kiro ''str_replace'' (JObject obj) = JObject (edit_from_kiro obj)"
  "map_tool_input_from_kiro ''execute_bash'' (JObject obj) = JObject (bash_to_kiro obj)"
  "map_tool_input_from_kiro ''read_file'' (JObject obj) = JObject (read_from_kiro obj)"
  "map_tool_input_from_kiro ''file_search'' (JObject obj) = JObject (maybe_insert ''pattern'' (take_first obj [''query'', ''pattern'']) [])"
  "map_tool_input_from_kiro ''grep_search'' (JObject obj) = JObject (grep_from_kiro obj)"
  "map_tool_input_from_kiro ''list_directory'' (JObject obj) = JObject (maybe_insert ''path'' (take_first obj [''path'']) [])"
  "map_tool_input_from_kiro ''web_search'' (JObject obj) = JObject (web_search_to_kiro obj)"
  by (simp_all add: map_tool_input_from_kiro_def bash_to_kiro_def web_search_to_kiro_def)

lemma tool_arguments_round_trip:
  assumes "claude_code_tool_name_to_kiro name = Some kiro" "plain_arguments name obj"
  shows "map_tool_input_from_kiro kiro (map_tool_input_to_kiro name (JObject obj) ClaudeCode) = JObject obj"
  using claude_code_tool_name_cases[OF assms(1)] assms(2)
  by (auto simp: map_tool_input_to_kiro_built_in map_tool_input_from_kiro_built_in
      write_round_trip edit_round_trip read_round_trip glob_round_trip grep_round_trip ls_round_trip
      bash_round_trip web_search_round_trip simp del: take_first.simps)

text \<open>In \<open>ClaudeCode\<close> mode a call of a built-in client tool survives the way to the upstream and
  back: when the reverse map does not give the upstream name to another tool, the name and the
  arguments restored for the client are those the client's tool has, for every object of
  non-null values under the tool's own argument names.\<close>

lemma tool_call_round_trip:
  assumes "claude_code_tool_name_to_kiro name = Some kiro"
    and "map_of m kiro = None \<or> map_of m kiro = Some name"
    and "plain_arguments name obj"
  shows "let (sent_name, m') = map_client_tool_name_to_kiro sha256_hex name m ClaudeCode;
             sent = map_tool_input_to_kiro name (JObject obj) ClaudeCode
         in sent_name = kiro \<and> restore_tool_use_for_client sent_name sent m' = (name, JObject obj)"
  using assms(1,2) tool_arguments_round_trip[OF assms(1,3)]
  by (auto simp: map_client_tool_name_to_kiro_def is_claude_code_mode_def restore_tool_use_for_client_def
      tool_input_needs_rewrite_def)

text \<open>A \<open>Read\<close> of lines 10 to 29: the upstream is asked for \<open>start_line\<close> 10 and \<open>end_line\<close> 29.\<close>

definition read_call :: json_object where
  "read_call = [(''file_path'', JString ''a.rs''), (''limit'', JInt 20), (''offset'', JInt 10)]"

lemma tool_call_round_trip_witness:
  "restore_tool_use_for_client ''read_file'' (map_tool_input_to_kiro ''Read'' (JObject read_call) ClaudeCode)
       [(''read_file'', ''Read'')] = (''Read'', JObject read_call)
   \<and> map_of (read_to_kiro read_call) ''end_line'' = Some (JInt 29)"
proof
  have "plain_arguments ''Read'' read_call" by code_simp
  from tool_call_round_trip[of "''Read''" "''read_file''" "[]" read_call "\<lambda>s. s", OF _ _ this]
  show "restore_tool_use_for_client ''read_file'' (map_tool_input_to_kiro ''Read'' (JObject read_call) ClaudeCode)
       [(''read_file'', ''Read'')] = (''Read'', JObject read_call)"
    by (simp add: claude_code_tool_name_to_kiro_def map_client_tool_name_to_kiro_def
        is_claude_code_mode_def map_insert_def)
  show "map_of (read_to_kiro read_call) ''end_line'' = Some (JInt 29)" by code_simp
qed

text \<open>The other hypothesis is needed: a client that declares its own tool \<open>read_file\<close> keeps that name
  on the way out, and gets its calls back under the name \<open>Read\<close>.\<close>

lemma own_tool_renamed:
  "let m = snd (map_client_tool_name_to_kiro sha256_hex ''Read'' [] ClaudeCode);
       (sent_name, m') = map_client_tool_name_to_kiro sha256_hex ''read_file'' m ClaudeCode
   in fst (restore_tool_use_for_client sent_name input m') = ''Read''"
  by code_simp

end
