(* ===== verification/ToolJson.thy ===== *)
theory ToolJson
  imports ToolMapping UpstreamErrors "HOL-Library.Multiset"
begin

text \<open>
  Completed tool calls and \<open>ToolJsonAccumulator\<close> (\<open>src/anthropic/stream.rs\<close>): the argument text of
  a tool call arrives in fragments and is parsed when the last one comes.  The \<open>HashMap\<close> of buffers
  is an association list; where the code walks over it, the order is the parameter \<open>hash_order\<close>,
  any rearrangement of the entries.  \<open>parse_json\<close> is the parser of \<open>serde_json\<close> with its error
  text.  The lemmas state what a fragmented call yields, whatever calls it is interleaved with,
  and that a truncated call is never reported as a call.
\<close>

section \<open>Tool calls\<close>

text \<open>\<open>ToolUseEvent\<close> of \<open>src/kiro/model/events/tool_use.rs\<close>.\<close>

record tool_use_event =
  tu_name :: string
  tool_use_id :: string
  tu_input :: string
  tu_stop :: bool

record completed_tool_use =
  ct_id :: string
  ct_name :: string
  ct_input :: json

definition from_kiro :: "string \<Rightarrow> string \<Rightarrow> json \<Rightarrow> name_map \<Rightarrow> completed_tool_use" where
  "from_kiro tid kiro_name input tool_name_map =
     (let (name, input) = restore_tool_use_for_client kiro_name input tool_name_map
      in \<lparr>ct_id = tid, ct_name = name, ct_input = input\<rparr>)"

definition to_anthropic_block :: "completed_tool_use \<Rightarrow> json" where
  "to_anthropic_block c =
     JObject (obj_of [(''type'', JString ''tool_use''), (''id'', JString (ct_id c)),
       (''name'', JString (ct_name c)), (''input'', ct_input c)])"

section \<open>Errors\<close>

datatype tool_json_error =
    InvalidJson string string string
  | IncompleteJson string string nat

definition tool_json_error_type :: "tool_json_error \<Rightarrow> string" where
  "tool_json_error_type e = ''upstream_tool_json_error''"

fun tool_json_error_message :: "tool_json_error \<Rightarrow> string" where
  "tool_json_error_message (InvalidJson tid name message) =
     ''Upstream returned invalid JSON for tool_use '' @ tid @ '' ('' @ name @ ''): '' @ message"
| "tool_json_error_message (IncompleteJson tid name bytes) =
     ''Upstream ended before completing tool_use '' @ tid @ '' ('' @ name
     @ '') JSON input; received '' @ decimal bytes
     @ '' bytes. Discard any streamed arguments; the tool call must not be executed.''"

section \<open>The accumulator\<close>

type_synonym tool_buffers = "(string \<times> string \<times> string) list"

text \<open>The buffer of a call after one more fragment: an entry is created with the fragment's name, and
  a name that is empty is filled in.\<close>

definition buffer_entry :: "tool_buffers \<Rightarrow> tool_use_event \<Rightarrow> string \<times> string" where
  "buffer_entry buffers ev =
     (let (name, input) = (case map_of buffers (tool_use_id ev) of
                             Some entry \<Rightarrow> entry | None \<Rightarrow> (tu_name ev, []));
          name = (if name = [] then tu_name ev else name)
      in (name, input @ tu_input ev))"

definition accumulator_push ::
  "(string \<Rightarrow> string + json) \<Rightarrow> name_map \<Rightarrow> tool_use_event \<Rightarrow> tool_buffers
     \<Rightarrow> (tool_json_error + completed_tool_use option) \<times> tool_buffers" where
  "accumulator_push parse_json tool_name_map ev buffers =
     (let (kiro_name, input_json) = buffer_entry buffers ev in
      if \<not> tu_stop ev then (Inr None, map_insert (tool_use_id ev) (kiro_name, input_json) buffers)
      else
        let buffers = map_remove (tool_use_id ev) buffers in
        case (if is_blank input_json then Inr (JObject []) else parse_json input_json) of
          Inl message \<Rightarrow> (Inl (InvalidJson (tool_use_id ev) kiro_name message), buffers)
        | Inr input \<Rightarrow>
            (Inr (Some (from_kiro (tool_use_id ev) kiro_name input tool_name_map)), buffers))"

text \<open>\<open>partition\<close>, then the longest of the truncated calls (the last one among equals), or the calls
  without arguments in the order of their ids.\<close>

definition accumulator_finish ::
  "(tool_buffers \<Rightarrow> tool_buffers) \<Rightarrow> name_map \<Rightarrow> tool_buffers
     \<Rightarrow> tool_json_error + completed_tool_use list" where
  "accumulator_finish hash_order tool_name_map buffers =
     (let entries = hash_order buffers;
          empty = filter (\<lambda>(_, _, input). is_blank input) entries;
          truncated = filter (\<lambda>(_, _, input). \<not> is_blank input) entries
      in case max_by_key (\<lambda>(_, _, input). length input) truncated of
           Some (tid, name, input) \<Rightarrow> Inl (IncompleteJson tid name (length input))
         | None \<Rightarrow>
             Inr (map (\<lambda>(tid, kiro_name, _). from_kiro tid kiro_name (JObject []) tool_name_map)
                   (sort_key fst empty)))"

section \<open>Fragments of one call among others\<close>

text \<open>A run of events through the accumulator, with the results in order.\<close>

fun accumulator_run ::
  "(string \<Rightarrow> string + json) \<Rightarrow> name_map \<Rightarrow> tool_use_event list \<Rightarrow> tool_buffers
     \<Rightarrow> (tool_json_error + completed_tool_use option) list \<times> tool_buffers" where
  "accumulator_run parse_json tool_name_map [] buffers = ([], buffers)"
| "accumulator_run parse_json tool_name_map (ev # evs) buffers =
     (let (r, buffers) = accumulator_push parse_json tool_name_map ev buffers;
          (rs, buffers) = accumulator_run parse_json tool_name_map evs buffers
      in (r # rs, buffers))"

lemma accumulator_push_other:
  "tool_use_id ev \<noteq> tid \<Longrightarrow>
     map_of (snd (accumulator_push parse_json names ev buffers)) tid = map_of buffers tid"
  by (auto simp: accumulator_push_def Let_def split: prod.splits sum.splits)

lemma accumulator_push_fragment:
  "\<not> tu_stop ev \<Longrightarrow>
     accumulator_push parse_json names ev buffers =
       (Inr None, map_insert (tool_use_id ev) (buffer_entry buffers ev) buffers)"
  by (auto simp: accumulator_push_def Let_def split: prod.splits)

lemma accumulator_push_distinct:
  "distinct_keys buffers \<Longrightarrow> distinct_keys (snd (accumulator_push parse_json names ev buffers))"
  by (auto simp: accumulator_push_def Let_def split: prod.splits sum.splits)

text \<open>Fragments of a call that all carry its name, among events of other calls.\<close>

lemma accumulator_run_fragments:
  assumes "\<forall>ev \<in> set evs. tool_use_id ev = tid \<longrightarrow> \<not> tu_stop ev \<and> tu_name ev = name"
    and "map_of buffers tid = None \<or> (\<exists>text. map_of buffers tid = Some (name, text))"
  shows "map_of (snd (accumulator_run parse_json names evs buffers)) tid =
     (if map_of buffers tid = None \<and> (\<forall>ev \<in> set evs. tool_use_id ev \<noteq> tid) then None
      else Some (name, (case map_of buffers tid of Some (_, text) \<Rightarrow> text | None \<Rightarrow> [])
             @ concat (map tu_input (filter (\<lambda>ev. tool_use_id ev = tid) evs))))"
  using assms
proof (induction evs arbitrary: buffers)
  case Nil
  then show ?case by auto
next
  case (Cons ev evs)
  let ?b = "snd (accumulator_push parse_json names ev buffers)"
  have run: "snd (accumulator_run parse_json names (ev # evs) buffers)
      = snd (accumulator_run parse_json names evs ?b)"
    by (simp split: prod.splits)
  show ?case
  proof (cases "tool_use_id ev = tid")
    case True
    with Cons.prems have "map_of ?b tid = Some (name, (case map_of buffers tid of Some (_, text) \<Rightarrow> text | None \<Rightarrow> []) @ tu_input ev)"
      by (auto simp: accumulator_push_fragment buffer_entry_def Let_def)
    with Cons.IH[of ?b] Cons.prems True run show ?thesis by auto
  next
    case False
    with Cons.IH[of ?b] Cons.prems run accumulator_push_other[OF False] show ?thesis
      by (simp cong: if_cong)
  qed
qed

text \<open>C36: A tool call that arrives in fragments, interleaved in any way with the fragments of other
  calls, is the concatenation of its own fragments: the last one yields the call whose arguments
  are the parsed whole text (an object without entries when the text is blank), or the error
  that this text does not parse, and the call's buffer is gone.\<close>

theorem tool_call_reassembled:
  assumes "\<forall>ev \<in> set evs. tool_use_id ev = tid \<longrightarrow> \<not> tu_stop ev \<and> tu_name ev = name"
    and "map_of buffers tid = None"
    and "tool_use_id fin = tid" "tu_stop fin" "tu_name fin = name"
  shows "let (result, after) = accumulator_push parse_json names fin
               (snd (accumulator_run parse_json names evs buffers));
             whole = concat (map tu_input (filter (\<lambda>ev. tool_use_id ev = tid) evs)) @ tu_input fin
         in result = (case (if is_blank whole then Inr (JObject []) else parse_json whole) of
                        Inl message \<Rightarrow> Inl (InvalidJson tid name message)
                      | Inr input \<Rightarrow> Inr (Some (from_kiro tid name input names)))
            \<and> map_of after tid = None"
proof -
  let ?b = "snd (accumulator_run parse_json names evs buffers)"
  have "map_of ?b tid = None \<and> filter (\<lambda>ev. tool_use_id ev = tid) evs = []
    \<or> map_of ?b tid = Some (name, concat (map tu_input (filter (\<lambda>ev. tool_use_id ev = tid) evs)))"
    using accumulator_run_fragments[OF assms(1), of buffers parse_json names] assms(2)
    by (auto simp: filter_empty_conv)
  then have "buffer_entry ?b fin =
      (name, concat (map tu_input (filter (\<lambda>ev. tool_use_id ev = tid) evs)) @ tu_input fin)"
    using assms(3,5) by (auto simp: buffer_entry_def Let_def)
  with assms(3,4) show ?thesis
    by (auto simp: accumulator_push_def Let_def split: sum.splits)
qed

definition fragment :: "string \<Rightarrow> string \<Rightarrow> string \<Rightarrow> bool \<Rightarrow> tool_use_event" where
  "fragment tid name input stop = \<lparr>tu_name = name, tool_use_id = tid, tu_input = input, tu_stop = stop\<rparr>"

lemma tool_call_reassembled_witness:
  "fst (accumulator_push (\<lambda>s. Inr (JString s)) [] (fragment ''a'' ''f'' ''34'' True)
     (snd (accumulator_run (\<lambda>s. Inr (JString s)) []
        [fragment ''a'' ''f'' ''1'' False, fragment ''b'' ''g'' ''x'' False,
         fragment ''a'' ''f'' ''2'' False] [])))
   = Inr (Some \<lparr>ct_id = ''a'', ct_name = ''f'', ct_input = JString ''1234''\<rparr>)"
proof -
  have "\<not> is_blank ''1234''" by code_simp
  then show ?thesis
    using tool_call_reassembled[where tid = "''a''" and name = "''f''" and buffers = "[]"
        and evs = "[fragment ''a'' ''f'' ''1'' False, fragment ''b'' ''g'' ''x'' False,
          fragment ''a'' ''f'' ''2'' False]" and fin = "fragment ''a'' ''f'' ''34'' True"
        and parse_json = "\<lambda>s. Inr (JString s)" and names = "[]"]
    by (simp add: fragment_def from_kiro_def restore_tool_use_for_client_def Let_def split: prod.splits)
qed

lemma sort_key_fst_perm:
  assumes "mset xs = mset ys" "distinct_keys ys"
  shows "sort_key fst xs = sort_key (fst :: string \<times> 'b \<Rightarrow> string) ys"
proof -
  have set: "set xs = set ys" and dist: "distinct (map fst xs)"
    using assms by (auto dest: mset_eq_setD) (metis mset_map mset_eq_imp_distinct_iff)
  have sorted: "distinct (map fst (sort_key fst zs))" if "distinct (map fst zs)" for zs :: "(string \<times> 'b) list"
    using that by (metis mset_map mset_sort mset_eq_imp_distinct_iff)
  show ?thesis
  proof (rule map_sorted_distinct_set_unique[of fst])
    show "inj_on fst (set (sort_key fst xs) \<union> set (sort_key fst ys))"
      using dist set by (simp add: distinct_map)
  qed (use assms set dist sorted in auto)
qed

text \<open>At the end of the stream a call is recovered only if it has no arguments text: whatever order
  the hash map is walked in, the result is the calls without arguments in the order of their
  ids, if there is no other pending call; otherwise it is the error that names a truncated call
  with the most bytes, and no call is reported.\<close>

lemma accumulator_finish_spec:
  assumes "mset (hash_order buffers) = mset buffers" "distinct_keys buffers"
  shows "case accumulator_finish hash_order names buffers of
      Inr calls \<Rightarrow> (\<forall>(_, _, input) \<in> set buffers. is_blank input)
        \<and> calls = map (\<lambda>(tid, name, _). from_kiro tid name (JObject []) names) (sort_key fst buffers)
    | Inl e \<Rightarrow> (\<exists>(tid, name, input) \<in> set buffers. \<not> is_blank input
        \<and> e = IncompleteJson tid name (length input)
        \<and> (\<forall>(_, _, other) \<in> set buffers. \<not> is_blank other \<longrightarrow> length other \<le> length input))"
proof -
  let ?t = "filter (\<lambda>(_, _, input). \<not> is_blank input) (hash_order buffers)"
  let ?len = "\<lambda>(_ :: string, _ :: string, input :: string). length input"
  have set: "set (hash_order buffers) = set buffers"
    using assms(1) by (rule mset_eq_setD)
  show ?thesis
  proof (cases "max_by_key ?len ?t")
    case None
    then have none: "\<forall>(_, _, input) \<in> set buffers. is_blank input"
      using set by (auto simp: filter_empty_conv)
    then have "filter (\<lambda>(_, _, input). is_blank input) (hash_order buffers) = hash_order buffers"
      using set by (auto simp: filter_id_conv)
    with None none show ?thesis
      using sort_key_fst_perm[OF assms] by (simp add: accumulator_finish_def Let_def)
  next
    case (Some e)
    obtain tid name input where e: "e = (tid, name, input)" by (cases e)
    from max_by_key_Some[OF Some] set e
    have "(tid, name, input) \<in> set buffers" "\<not> is_blank input"
      "\<forall>(_, _, other) \<in> set buffers. \<not> is_blank other \<longrightarrow> length other \<le> length input"
      by auto
    with Some e show ?thesis
      by (auto simp: accumulator_finish_def Let_def)
  qed
qed

lemma accumulator_finish_spec_witness:
  "accumulator_finish rev [] [(''b'', ''g'', []), (''a'', ''f'', [])]
     = Inr [\<lparr>ct_id = ''a'', ct_name = ''f'', ct_input = JObject []\<rparr>,
            \<lparr>ct_id = ''b'', ct_name = ''g'', ct_input = JObject []\<rparr>]"
proof -
  have "sort_key fst [(''b'', ''g'', [] :: string), (''a'', ''f'', [])] = [(''a'', ''f'', []), (''b'', ''g'', [])]"
    by code_simp
  moreover have "case accumulator_finish rev [] [(''b'', ''g'', []), (''a'', ''f'', [])] of
      Inl e \<Rightarrow> False | Inr _ \<Rightarrow> True"
    by (simp add: accumulator_finish_def)
  ultimately show ?thesis
    using accumulator_finish_spec[where hash_order = rev and names = "[]"
        and buffers = "[(''b'', ''g'', []), (''a'', ''f'', [])]"]
    by (auto simp: from_kiro_def restore_tool_use_for_client_def split: sum.splits)
qed

end
