(* ===== verification/F64.thy ===== *)
theory F64
  imports Complex_Main "HOL-Library.Log_Nat"
begin

text \<open>
  IEEE 754 double precision as the program uses it: a finite value is the rational number it
  denotes, the operations round the exact result to nearest, ties to even, with 53 bits of
  precision and the subnormal exponent, and overflow to infinity.  The sign of a zero is not kept
  (no comparison or conversion of the program sees it).
\<close>

datatype f64 = Fin rat | Infinite bool | NaN

text \<open>\<open>2 ^ e\<close> for an integer exponent.\<close>

definition two_pow :: "int \<Rightarrow> rat" where
  "two_pow e = (if 0 \<le> e then 2 ^ nat e else 1 / 2 ^ nat (- e))"

text \<open>The exponent of a positive number: \<open>two_pow e \<le> x < two_pow (e + 1)\<close>.\<close>

definition exponent :: "rat \<Rightarrow> int" where
  "exponent x =
     (let (n, d) = quotient_of x;
          e = int (floorlog 2 (nat n)) - int (floorlog 2 (nat d))
      in if two_pow e \<le> x then e else e - 1)"

definition round_half_even :: "rat \<Rightarrow> int" where
  "round_half_even x =
     (let f = \<lfloor>x\<rfloor>; r = x - of_int f in
      if r < 1 / 2 then f else if 1 / 2 < r then f + 1 else if even f then f else f + 1)"

definition round_positive :: "rat \<Rightarrow> f64" where
  "round_positive x =
     (let q = max (exponent x - 52) (- 1074);
          y = of_int (round_half_even (x / two_pow q)) * two_pow q
      in if two_pow 1024 \<le> y then Infinite True else Fin y)"

definition f64_negate :: "f64 \<Rightarrow> f64" where
  "f64_negate x = (case x of Fin r \<Rightarrow> Fin (- r) | Infinite s \<Rightarrow> Infinite (\<not> s) | NaN \<Rightarrow> NaN)"

definition f64_of_rat :: "rat \<Rightarrow> f64" where
  "f64_of_rat x =
     (if x = 0 then Fin 0 else if 0 < x then round_positive x else f64_negate (round_positive (- x)))"

text \<open>\<open>i32 as f64\<close> is exact.\<close>

definition f64_of_int :: "int \<Rightarrow> f64" where
  "f64_of_int i = Fin (of_int i)"

definition f64_add :: "f64 \<Rightarrow> f64 \<Rightarrow> f64" where
  "f64_add a b =
     (case (a, b) of
        (Fin x, Fin y) \<Rightarrow> f64_of_rat (x + y)
      | (Fin _, Infinite s) \<Rightarrow> Infinite s
      | (Infinite s, Fin _) \<Rightarrow> Infinite s
      | (Infinite s, Infinite t) \<Rightarrow> if s = t then Infinite s else NaN
      | _ \<Rightarrow> NaN)"

definition f64_mul :: "f64 \<Rightarrow> f64 \<Rightarrow> f64" where
  "f64_mul a b =
     (case (a, b) of
        (Fin x, Fin y) \<Rightarrow> f64_of_rat (x * y)
      | (Fin x, Infinite s) \<Rightarrow> if x = 0 then NaN else Infinite (0 < x = s)
      | (Infinite s, Fin x) \<Rightarrow> if x = 0 then NaN else Infinite (0 < x = s)
      | (Infinite s, Infinite t) \<Rightarrow> Infinite (s = t)
      | _ \<Rightarrow> NaN)"

text \<open>Division by a positive number; the program divides by nothing else.\<close>

definition f64_div :: "f64 \<Rightarrow> rat \<Rightarrow> f64" where
  "f64_div a y = (case a of Fin x \<Rightarrow> f64_of_rat (x / y) | Infinite s \<Rightarrow> Infinite s | NaN \<Rightarrow> NaN)"

definition f64_is_finite :: "f64 \<Rightarrow> bool" where
  "f64_is_finite a = (case a of Fin _ \<Rightarrow> True | _ \<Rightarrow> False)"

text \<open>\<open>a >= y\<close> for a finite \<open>y\<close>; a NaN compares false.\<close>

definition f64_ge :: "f64 \<Rightarrow> rat \<Rightarrow> bool" where
  "f64_ge a y = (case a of Fin x \<Rightarrow> y \<le> x | Infinite s \<Rightarrow> s | NaN \<Rightarrow> False)"

text \<open>\<open>f64::round\<close>: to the nearest integer, halves away from zero.\<close>

definition f64_round :: "f64 \<Rightarrow> f64" where
  "f64_round a =
     (case a of
        Fin x \<Rightarrow> Fin (if 0 \<le> x then of_int \<lfloor>x + 1 / 2\<rfloor> else - of_int \<lfloor>- x + 1 / 2\<rfloor>)
      | _ \<Rightarrow> a)"

text \<open>\<open>f64 as i32\<close> truncates and saturates; a NaN becomes zero.\<close>

definition i32_max :: int where "i32_max = 2 ^ 31 - 1"
definition i32_min :: int where "i32_min = - (2 ^ 31)"

definition f64_as_i32 :: "f64 \<Rightarrow> int" where
  "f64_as_i32 a =
     (case a of
        Fin x \<Rightarrow> max i32_min (min i32_max (if 0 \<le> x then \<lfloor>x\<rfloor> else - \<lfloor>- x\<rfloor>))
      | Infinite s \<Rightarrow> if s then i32_max else i32_min
      | NaN \<Rightarrow> 0)"

text \<open>\<open>clamp(0.0, 1.0)\<close>.\<close>

definition f64_clamp_unit :: "f64 \<Rightarrow> f64" where
  "f64_clamp_unit a =
     (case a of Fin x \<Rightarrow> Fin (max 0 (min 1 x)) | Infinite s \<Rightarrow> Fin (if s then 1 else 0) | NaN \<Rightarrow> NaN)"

section \<open>What the program relies on\<close>

text \<open>Not below zero; a NaN counts, since it converts to zero.\<close>

definition f64_nonneg :: "f64 \<Rightarrow> bool" where
  "f64_nonneg a = (case a of Fin x \<Rightarrow> 0 \<le> x | Infinite s \<Rightarrow> s | NaN \<Rightarrow> True)"

lemma two_pow_pos [simp]: "0 < two_pow e"
  by (simp add: two_pow_def)

lemma round_half_even_nonneg: "0 \<le> x \<Longrightarrow> 0 \<le> round_half_even x"
proof -
  assume "0 \<le> x"
  then have "0 \<le> \<lfloor>x\<rfloor>" by simp
  then show ?thesis by (simp add: round_half_even_def Let_def)
qed

lemma f64_nonneg_of_rat: "0 \<le> x \<Longrightarrow> f64_nonneg (f64_of_rat x)"
  using round_half_even_nonneg[of "x / two_pow q" for q]
  by (auto simp: f64_of_rat_def round_positive_def f64_nonneg_def Let_def less_imp_le)

lemma f64_nonneg_mul:
  assumes "f64_nonneg a" "f64_nonneg b" shows "f64_nonneg (f64_mul a b)"
proof (cases "(\<exists>x. a = Fin x) \<and> (\<exists>y. b = Fin y)")
  case True
  then obtain x y where "a = Fin x" "b = Fin y" by blast
  with assms f64_nonneg_of_rat[of "x * y"] show ?thesis
    by (simp add: f64_mul_def f64_nonneg_def)
next
  case False
  with assms show ?thesis
    by (cases a; cases b) (auto simp: f64_mul_def f64_nonneg_def)
qed

lemma f64_nonneg_round: "f64_nonneg a \<Longrightarrow> f64_nonneg (f64_round a)"
  by (auto simp: f64_nonneg_def f64_round_def split: f64.splits)

lemma f64_as_i32_nonneg: "f64_nonneg a \<Longrightarrow> 0 \<le> f64_as_i32 a"
  by (auto simp: f64_nonneg_def f64_as_i32_def i32_max_def i32_min_def split: f64.splits)

lemma f64_as_i32_range: "i32_min \<le> f64_as_i32 a" "f64_as_i32 a \<le> i32_max"
  by (auto simp: f64_as_i32_def i32_max_def i32_min_def split: f64.splits)

lemma f64_nonneg_clamp_unit: "f64_nonneg (f64_clamp_unit a)"
  by (auto simp: f64_nonneg_def f64_clamp_unit_def split: f64.splits)

lemma f64_nonneg_of_int: "0 \<le> i \<Longrightarrow> f64_nonneg (f64_of_int i)"
  by (simp add: f64_nonneg_def f64_of_int_def)

end
