(* ===== verification/CacheUsage.thy ===== *)
theory CacheUsage
  imports F64 RustStd
begin

text \<open>
  Token usage of a reply: \<open>CacheUsage\<close> and \<open>CacheCreationUsage\<close> of
  \<open>src/anthropic/cache_metering.rs\<close>, \<open>TokenUsage\<close> of \<open>src/kiro/model/events/metadata.rs\<close>, and
  \<open>input_tokens_excluding_output\<close> of \<open>src/token.rs\<close>.  Token counts are \<open>i32\<close>, here integers in
  that range.  The lemmas show that the parts reported to the client add up to the whole.
\<close>

section \<open>Exact usage of the provider\<close>

record token_usage =
  uncached_input_tokens :: int
  tu_output_tokens :: int
  tu_cache_read :: int
  tu_cache_write :: int

definition sanitized :: "token_usage \<Rightarrow> token_usage" where
  "sanitized u =
     \<lparr>uncached_input_tokens = max 0 (uncached_input_tokens u), tu_output_tokens = max 0 (tu_output_tokens u),
      tu_cache_read = max 0 (tu_cache_read u), tu_cache_write = max 0 (tu_cache_write u)\<rparr>"

definition default_token_usage :: token_usage where
  "default_token_usage =
     \<lparr>uncached_input_tokens = 0, tu_output_tokens = 0, tu_cache_read = 0, tu_cache_write = 0\<rparr>"

definition i32_saturating_add :: "int \<Rightarrow> int \<Rightarrow> int" where
  "i32_saturating_add a b = max i32_min (min i32_max (a + b))"

definition i32_saturating_sub :: "int \<Rightarrow> int \<Rightarrow> int" where
  "i32_saturating_sub a b = max i32_min (min i32_max (a - b))"

definition token_usage_add :: "token_usage \<Rightarrow> token_usage \<Rightarrow> token_usage" where
  "token_usage_add a b =
     (let l = sanitized a; r = sanitized b in
      \<lparr>uncached_input_tokens = i32_saturating_add (uncached_input_tokens l) (uncached_input_tokens r),
       tu_output_tokens = i32_saturating_add (tu_output_tokens l) (tu_output_tokens r),
       tu_cache_read = i32_saturating_add (tu_cache_read l) (tu_cache_read r),
       tu_cache_write = i32_saturating_add (tu_cache_write l) (tu_cache_write r)\<rparr>)"

section \<open>Estimated usage\<close>

definition input_tokens_excluding_output :: "int option \<Rightarrow> int \<Rightarrow> int \<Rightarrow> int" where
  "input_tokens_excluding_output context_total fallback_input output_tokens =
     (case context_total of
        Some tot \<Rightarrow> max 0 (i32_saturating_sub (max 0 tot) (max 0 output_tokens))
      | None \<Rightarrow> max 0 fallback_input)"

record cache_usage =
  cu_cache_read :: int
  cache_covered_est :: int
  prompt_total_est :: int
  read_limit_percent :: "nat option"
  cache_creation_1h_est :: int

record cache_creation_usage =
  ephemeral_5m :: nat
  ephemeral_1h :: nat

definition u64_saturating_add :: "nat \<Rightarrow> nat \<Rightarrow> nat" where
  "u64_saturating_add a b = min (2 ^ 64 - 1) (a + b)"

definition creation_total :: "cache_creation_usage \<Rightarrow> nat" where
  "creation_total u = u64_saturating_add (ephemeral_5m u) (ephemeral_1h u)"

definition creation_add :: "cache_creation_usage \<Rightarrow> cache_creation_usage \<Rightarrow> cache_creation_usage" where
  "creation_add a b =
     \<lparr>ephemeral_5m = u64_saturating_add (ephemeral_5m a) (ephemeral_5m b),
      ephemeral_1h = u64_saturating_add (ephemeral_1h a) (ephemeral_1h b)\<rparr>"

text \<open>The arithmetic is on \<open>i64\<close>; with \<open>i32\<close> inputs nothing saturates or overflows.\<close>

definition creation_breakdown :: "cache_usage \<Rightarrow> int \<Rightarrow> bool \<Rightarrow> cache_creation_usage option" where
  "creation_breakdown u creation_tokens provider_supplied =
     (let tot = max 0 creation_tokens in
      if tot = 0 then Some \<lparr>ephemeral_5m = 0, ephemeral_1h = 0\<rparr>
      else
        let estimated = max 0 (cache_covered_est u - cu_cache_read u) in
        if provider_supplied \<or> estimated = 0 then None
        else
          let one_hour_est = max 0 (min estimated (cache_creation_1h_est u));
              one_hour = (tot * one_hour_est + estimated div 2) div estimated
          in Some \<lparr>ephemeral_5m = nat (tot - one_hour), ephemeral_1h = nat one_hour\<rparr>)"

definition with_read_limit_percent :: "nat option \<Rightarrow> cache_usage \<Rightarrow> cache_usage" where
  "with_read_limit_percent limit u = u\<lparr>read_limit_percent := limit\<rparr>"

text \<open>\<open>(input_tokens, cache_creation, cache_read)\<close>.  The cast of the maximum to \<open>i32\<close> is exact,
  since it is at most the total.\<close>

definition split_against_total :: "cache_usage \<Rightarrow> int \<Rightarrow> int \<times> int \<times> int" where
  "split_against_total u total_real =
     (let tot = max 0 total_real in
      if cache_covered_est u \<le> 0 \<or> prompt_total_est u \<le> 0 then (tot, 0, 0)
      else
        let ratio = f64_clamp_unit (f64_div (f64_of_int (cache_covered_est u)) (of_int (prompt_total_est u)));
            cache_total = min (f64_as_i32 (f64_round (f64_mul (f64_of_int tot) ratio))) tot;
            uncached_tail = tot - cache_total;
            cache_read = f64_as_i32 (f64_round (f64_mul (f64_of_int cache_total)
                           (f64_div (f64_of_int (cu_cache_read u)) (of_int (cache_covered_est u)))));
            cache_read = max 0 (min cache_total cache_read);
            cache_creation = cache_total - cache_read;
            (uncached_tail, cache_creation, cache_read) =
              (if 0 < tot \<and> uncached_tail = 0 then
                 (if 0 < cache_creation then (1, cache_creation - 1, cache_read)
                  else (1, cache_creation, cache_read - 1))
               else (uncached_tail, cache_creation, cache_read));
            limited_read = (case read_limit_percent u of
                              Some percent \<Rightarrow> min cache_read (tot * int (min percent 100) div 100)
                            | None \<Rightarrow> cache_read)
        in (uncached_tail + cache_read - limited_read, cache_creation, limited_read))"

section \<open>The parts add up\<close>

text \<open>However the cache estimates look, the three token counts reported for the prompt are not
  negative and add up to the total, the uncached part is at least one token when there is any,
  and the cached read stays within the configured percentage of the total.\<close>

lemma split_against_total_exact:
  "let (input, creation, cache_read) = split_against_total u total_real in
     0 \<le> input \<and> 0 \<le> creation \<and> 0 \<le> cache_read
     \<and> input + creation + cache_read = max 0 total_real
     \<and> (0 < total_real \<longrightarrow> 0 < input)
     \<and> (\<forall>percent. read_limit_percent u = Some percent \<longrightarrow> 100 * cache_read \<le> max 0 total_real * int (min percent 100))"
proof (cases "cache_covered_est u \<le> 0 \<or> prompt_total_est u \<le> 0")
  case True
  then show ?thesis by (simp add: split_against_total_def Let_def)
next
  case False
  define tot where "tot = max 0 total_real"
  define cache_total where "cache_total = min (f64_as_i32 (f64_round (f64_mul (f64_of_int tot)
    (f64_clamp_unit (f64_div (f64_of_int (cache_covered_est u)) (of_int (prompt_total_est u))))))) tot"
  define r0 where "r0 = max 0 (min cache_total (f64_as_i32 (f64_round (f64_mul (f64_of_int cache_total)
    (f64_div (f64_of_int (cu_cache_read u)) (of_int (cache_covered_est u)))))))"
  have tot_nonneg: "0 \<le> tot" by (simp add: tot_def)
  have ct: "0 \<le> cache_total" "cache_total \<le> tot"
    using tot_nonneg by (auto simp: cache_total_def intro!: f64_as_i32_nonneg f64_nonneg_round f64_nonneg_mul
        f64_nonneg_of_int f64_nonneg_clamp_unit)
  have r0: "0 \<le> r0" "r0 \<le> cache_total" using ct by (auto simp: r0_def)
  define parts where "parts = (if 0 < tot \<and> tot - cache_total = 0 then
      (if 0 < cache_total - r0 then (1, cache_total - r0 - 1, r0) else (1, cache_total - r0, r0 - 1))
    else (tot - cache_total, cache_total - r0, r0))"
  obtain tail creation r1 where parts: "parts = (tail, creation, r1)" by (metis prod_cases3)
  then have p: "0 \<le> tail" "0 \<le> creation" "0 \<le> r1" "tail + creation + r1 = tot" "0 < tot \<longrightarrow> 0 < tail"
    using tot_nonneg ct r0 unfolding parts_def by (auto split: if_splits)
  define lim where "lim = (case read_limit_percent u of
      Some percent \<Rightarrow> min r1 (tot * int (min percent 100) div 100) | None \<Rightarrow> r1)"
  have "split_against_total u total_real = (tail + r1 - lim, creation, lim)"
    using False unfolding split_against_total_def Let_def tot_def[symmetric] cache_total_def[symmetric]
      r0_def[symmetric] parts_def[symmetric] parts lim_def by simp
  moreover have "0 \<le> tot * int k div 100" for k
    using tot_nonneg by (simp add: pos_imp_zdiv_nonneg_iff)
  then have "0 \<le> lim" "lim \<le> r1"
    using p(3) by (auto simp: lim_def split: option.splits)
  moreover have "100 * lim \<le> tot * int (min percent 100)" if "read_limit_percent u = Some percent" for percent
  proof -
    have "100 * (tot * int (min percent 100) div 100) \<le> tot * int (min percent 100)" by simp
    with that show ?thesis by (auto simp: lim_def min_def)
  qed
  ultimately show ?thesis using p by (auto simp: tot_def)
qed

lemma proportional_share:
  fixes t h e :: int
  assumes "0 \<le> t" "0 \<le> h" "h \<le> e" "0 < e"
  shows "0 \<le> (t * h + e div 2) div e" "(t * h + e div 2) div e \<le> t"
proof -
  have "0 \<le> t * h" using assms by simp
  then show "0 \<le> (t * h + e div 2) div e" using assms by (simp add: pos_imp_zdiv_nonneg_iff)
  have "t * h \<le> t * e" using assms by (simp add: mult_left_mono)
  then have "t * h + e div 2 < (t + 1) * e"
    using assms by (simp add: algebra_simps)
  show "(t * h + e div 2) div e \<le> t"
  proof (rule ccontr)
    assume "\<not> (t * h + e div 2) div e \<le> t"
    then have "(t + 1) * e \<le> (t * h + e div 2) div e * e"
      using assms by (intro mult_right_mono) auto
    also have "\<dots> \<le> t * h + e div 2"
      using assms by (simp add: minus_mod_eq_div_mult[symmetric])
    finally show False
      using \<open>t * h + e div 2 < (t + 1) * e\<close> by simp
  qed
qed

text \<open>The split of the cache writes by lifetime adds up to the cache writes reported, and is left out
  only when the provider supplied them or nothing is known about them.\<close>

lemma creation_breakdown_exact:
  assumes "creation_tokens \<le> i32_max"
  shows "case creation_breakdown u creation_tokens provider_supplied of
      Some b \<Rightarrow> int (creation_total b) = max 0 creation_tokens
    | None \<Rightarrow> 0 < creation_tokens \<and> (provider_supplied \<or> cache_covered_est u \<le> cu_cache_read u)"
proof -
  define t e h where defs: "t = max 0 creation_tokens" "e = max 0 (cache_covered_est u - cu_cache_read u)"
    "h = max 0 (min e (cache_creation_1h_est u))"
  show ?thesis
  proof (cases "t = 0 \<or> provider_supplied \<or> e = 0")
    case True
    have "0 < creation_tokens" if "t \<noteq> 0" using that by (auto simp: defs)
    moreover have "cache_covered_est u \<le> cu_cache_read u" if "e = 0" using that by (simp add: defs)
    ultimately show ?thesis
      using True unfolding creation_breakdown_def Let_def defs(1,2)[symmetric]
      by (auto simp: creation_total_def u64_saturating_add_def)
  next
    case False
    have "0 \<le> t" "0 \<le> h" "h \<le> e" "0 < e"
      using False by (auto simp: defs)
    note one = proportional_share[OF this]
    have "t < 2 ^ 64" using assms by (simp add: defs i32_max_def)
    with False one show ?thesis
      unfolding creation_breakdown_def Let_def defs[symmetric]
      by (simp add: creation_total_def u64_saturating_add_def)
  qed
qed

definition cache_example :: cache_usage where
  "cache_example = \<lparr>cu_cache_read = 600, cache_covered_est = 800, prompt_total_est = 1000,
     read_limit_percent = Some 50, cache_creation_1h_est = 0\<rparr>"

lemma split_against_total_exact_witness:
  "snd (snd (split_against_total cache_example 1000)) \<le> 500
     \<and> 0 < fst (split_against_total cache_example 1000)"
  using split_against_total_exact[of cache_example 1000]
  by (simp add: case_prod_beta Let_def cache_example_def)

end
