(* ===== verification/SseState.thy ===== *)
theory SseState
  imports ToolJson CacheUsage
begin

text \<open>
  The server-sent events of the Messages API and \<open>SseStateManager\<close> (\<open>src/anthropic/stream.rs\<close>).
  An event is a value of \<open>sse_event\<close>; \<open>event_data\<close> is the JSON the code puts into it.  Block
  indices and token counts are \<open>i32\<close> in the code and unbounded here: an index counts the blocks
  of one reply.  Walks over the \<open>HashMap\<close> of blocks take the order of its keys from \<open>hash_order\<close>,
  any rearrangement.  The protocol the client expects is an automaton over events.
\<close>

section \<open>Events\<close>

datatype content_block =
    TextBlock
  | ThinkingBlock
  | RedactedThinkingBlock string
  | ToolUseBlock string string

datatype block_delta =
    TextDelta string
  | ThinkingDelta string
  | SignatureDelta string
  | InputJsonDelta string

text \<open>\<open>MeteringEvent\<close> of \<open>src/kiro/model/events/metering.rs\<close>.\<close>

record metering_event =
  me_unit :: string
  me_unit_plural :: string
  me_usage :: f64

definition metering_credits :: "metering_event \<Rightarrow> f64 option" where
  "metering_credits m =
     (if eq_ignore_ascii_case (me_unit m) ''credit'' \<and> f64_is_finite (me_usage m) \<and> f64_ge (me_usage m) 0
      then Some (me_usage m) else None)"

record usage_report =
  ur_input :: int
  ur_output :: int
  ur_cache_creation :: int
  ur_cache_read :: int
  ur_breakdown :: "cache_creation_usage option"
  ur_metering :: "metering_event option"

datatype sse_event =
    MessageStart string string usage_report
  | ContentBlockStart int content_block
  | ContentBlockDelta int block_delta
  | ContentBlockStop int
  | MessageDelta string usage_report
  | MessageStop
  | ErrorEvent string string

fun block_type_of :: "content_block \<Rightarrow> string" where
  "block_type_of TextBlock = ''text''"
| "block_type_of ThinkingBlock = ''thinking''"
| "block_type_of (RedactedThinkingBlock d) = ''redacted_thinking''"
| "block_type_of (ToolUseBlock i n) = ''tool_use''"

text \<open>The type of the block a delta belongs to.\<close>

fun delta_block_type :: "block_delta \<Rightarrow> string" where
  "delta_block_type (TextDelta t) = ''text''"
| "delta_block_type (ThinkingDelta t) = ''thinking''"
| "delta_block_type (SignatureDelta s) = ''thinking''"
| "delta_block_type (InputJsonDelta j) = ''tool_use''"

section \<open>Rendering\<close>

fun event_name :: "sse_event \<Rightarrow> string" where
  "event_name (MessageStart m i u) = ''message_start''"
| "event_name (ContentBlockStart i b) = ''content_block_start''"
| "event_name (ContentBlockDelta i d) = ''content_block_delta''"
| "event_name (ContentBlockStop i) = ''content_block_stop''"
| "event_name (MessageDelta r u) = ''message_delta''"
| "event_name MessageStop = ''message_stop''"
| "event_name (ErrorEvent t m) = ''error''"

fun content_block_json :: "content_block \<Rightarrow> json" where
  "content_block_json TextBlock = JObject (obj_of [(''type'', JString ''text''), (''text'', JString [])])"
| "content_block_json ThinkingBlock =
     JObject (obj_of [(''type'', JString ''thinking''), (''thinking'', JString [])])"
| "content_block_json (RedactedThinkingBlock d) =
     JObject (obj_of [(''type'', JString ''redacted_thinking''), (''data'', JString d)])"
| "content_block_json (ToolUseBlock i n) =
     JObject (obj_of [(''type'', JString ''tool_use''), (''id'', JString i), (''name'', JString n),
       (''input'', JObject [])])"

fun delta_json :: "block_delta \<Rightarrow> json" where
  "delta_json (TextDelta t) = JObject (obj_of [(''type'', JString ''text_delta''), (''text'', JString t)])"
| "delta_json (ThinkingDelta t) =
     JObject (obj_of [(''type'', JString ''thinking_delta''), (''thinking'', JString t)])"
| "delta_json (SignatureDelta s) =
     JObject (obj_of [(''type'', JString ''signature_delta''), (''signature'', JString s)])"
| "delta_json (InputJsonDelta j) =
     JObject (obj_of [(''type'', JString ''input_json_delta''), (''partial_json'', JString j)])"

text \<open>\<open>json!(Option<CacheCreationUsage>)\<close>.\<close>

definition breakdown_json :: "cache_creation_usage option \<Rightarrow> json" where
  "breakdown_json b =
     (case b of
        None \<Rightarrow> JNull
      | Some u \<Rightarrow> JObject (obj_of [(''ephemeral_5m_input_tokens'', JInt (int (ephemeral_5m u))),
                   (''ephemeral_1h_input_tokens'', JInt (int (ephemeral_1h u)))]))"

text \<open>\<open>json_of_f64\<close> is the printing of a number by \<open>serde_json\<close>.\<close>

definition usage_json :: "(f64 \<Rightarrow> json) \<Rightarrow> usage_report \<Rightarrow> json" where
  "usage_json json_of_f64 u =
     JObject (obj_of
       ([(''input_tokens'', JInt (ur_input u)), (''output_tokens'', JInt (ur_output u)),
         (''cache_creation_input_tokens'', JInt (ur_cache_creation u)),
         (''cache_read_input_tokens'', JInt (ur_cache_read u)),
         (''cache_creation'', breakdown_json (ur_breakdown u))]
        @ (case ur_metering u of
             None \<Rightarrow> []
           | Some m \<Rightarrow> [(''credit_usage'', json_of_f64 (me_usage m)), (''credit_unit'', JString (me_unit m)),
                        (''credit_unit_plural'', JString (me_unit_plural m))])))"

fun event_data :: "(f64 \<Rightarrow> json) \<Rightarrow> sse_event \<Rightarrow> json" where
  "event_data json_of_f64 (MessageStart mid model u) =
     JObject (obj_of [(''type'', JString ''message_start''),
       (''message'', JObject (obj_of [(''id'', JString mid), (''type'', JString ''message''),
          (''role'', JString ''assistant''), (''content'', JArray []), (''model'', JString model),
          (''stop_reason'', JNull), (''stop_sequence'', JNull), (''usage'', usage_json json_of_f64 u)]))])"
| "event_data json_of_f64 (ContentBlockStart i b) =
     JObject (obj_of [(''type'', JString ''content_block_start''), (''index'', JInt i),
       (''content_block'', content_block_json b)])"
| "event_data json_of_f64 (ContentBlockDelta i d) =
     JObject (obj_of [(''type'', JString ''content_block_delta''), (''index'', JInt i),
       (''delta'', delta_json d)])"
| "event_data json_of_f64 (ContentBlockStop i) =
     JObject (obj_of [(''type'', JString ''content_block_stop''), (''index'', JInt i)])"
| "event_data json_of_f64 (MessageDelta reason u) =
     JObject (obj_of [(''type'', JString ''message_delta''),
       (''delta'', JObject (obj_of [(''stop_reason'', JString reason), (''stop_sequence'', JNull)])),
       (''usage'', usage_json json_of_f64 u)])"
| "event_data json_of_f64 MessageStop = JObject (obj_of [(''type'', JString ''message_stop'')])"
| "event_data json_of_f64 (ErrorEvent t m) =
     JObject (obj_of [(''type'', JString ''error''),
       (''error'', JObject (obj_of [(''type'', JString t), (''message'', JString m)]))])"

definition to_sse_string :: "(json \<Rightarrow> string) \<Rightarrow> (f64 \<Rightarrow> json) \<Rightarrow> sse_event \<Rightarrow> string" where
  "to_sse_string json_to_string json_of_f64 e =
     ''event: '' @ event_name e @ [newline] @ ''data: '' @ json_to_string (event_data json_of_f64 e)
     @ [newline, newline]"

section \<open>The state manager\<close>

record block_state =
  block_type :: string
  blk_started :: bool
  blk_stopped :: bool

definition new_block :: "string \<Rightarrow> block_state" where
  "new_block t = \<lparr>block_type = t, blk_started = False, blk_stopped = False\<rparr>"

record state_manager =
  message_started :: bool
  message_delta_sent :: bool
  active_blocks :: "(int \<times> block_state) list"
  message_ended :: bool
  next_index :: int
  sm_stop_reason :: "string option"
  has_tool_use :: bool

definition new_state_manager :: state_manager where
  "new_state_manager =
     \<lparr>message_started = False, message_delta_sent = False, active_blocks = [], message_ended = False,
      next_index = 0, sm_stop_reason = None, has_tool_use = False\<rparr>"

definition block_open :: "block_state \<Rightarrow> bool" where
  "block_open b \<longleftrightarrow> blk_started b \<and> \<not> blk_stopped b"

definition is_block_open_of_type :: "state_manager \<Rightarrow> int \<Rightarrow> string \<Rightarrow> bool" where
  "is_block_open_of_type m index expected_type =
     (case map_of (active_blocks m) index of
        Some b \<Rightarrow> blk_started b \<and> \<not> blk_stopped b \<and> block_type b = expected_type
      | None \<Rightarrow> False)"

definition next_block_index :: "state_manager \<Rightarrow> int \<times> state_manager" where
  "next_block_index m = (next_index m, m\<lparr>next_index := next_index m + 1\<rparr>)"

definition refusal_stop_reason :: string where
  "refusal_stop_reason = ''refusal''"

definition set_stop_reason :: "string \<Rightarrow> state_manager \<Rightarrow> state_manager" where
  "set_stop_reason reason m =
     (if sm_stop_reason m = Some refusal_stop_reason then m else m\<lparr>sm_stop_reason := Some reason\<rparr>)"

definition get_stop_reason :: "state_manager \<Rightarrow> string" where
  "get_stop_reason m =
     (case sm_stop_reason m of
        Some reason \<Rightarrow> reason
      | None \<Rightarrow> if has_tool_use m then ''tool_use'' else ''end_turn'')"

definition handle_message_start :: "sse_event \<Rightarrow> state_manager \<Rightarrow> state_manager \<times> sse_event list" where
  "handle_message_start event m =
     (if message_started m then (m, []) else (m\<lparr>message_started := True\<rparr>, [event]))"

text \<open>The walks \<open>for (index, block) in self.active_blocks.iter_mut()\<close> that stop the open blocks of
  which \<open>pred\<close> holds.\<close>

fun stop_blocks ::
  "(block_state \<Rightarrow> bool) \<Rightarrow> int list \<Rightarrow> (int \<times> block_state) list \<Rightarrow> (int \<times> block_state) list \<times> sse_event list" where
  "stop_blocks pred [] blocks = (blocks, [])"
| "stop_blocks pred (i # keys) blocks =
     (case map_of blocks i of
        Some b \<Rightarrow>
          if pred b \<and> blk_started b \<and> \<not> blk_stopped b then
            let (blocks, events) = stop_blocks pred keys (map_insert i (b\<lparr>blk_stopped := True\<rparr>) blocks)
            in (blocks, ContentBlockStop i # events)
          else stop_blocks pred keys blocks
      | None \<Rightarrow> stop_blocks pred keys blocks)"

definition close_blocks ::
  "(int list \<Rightarrow> int list) \<Rightarrow> (block_state \<Rightarrow> bool) \<Rightarrow> state_manager \<Rightarrow> state_manager \<times> sse_event list" where
  "close_blocks hash_order pred m =
     (let (blocks, events) = stop_blocks pred (hash_order (map fst (active_blocks m))) (active_blocks m)
      in (m\<lparr>active_blocks := blocks\<rparr>, events))"

definition handle_content_block_start ::
  "(int list \<Rightarrow> int list) \<Rightarrow> int \<Rightarrow> string \<Rightarrow> sse_event \<Rightarrow> state_manager \<Rightarrow> state_manager \<times> sse_event list" where
  "handle_content_block_start hash_order index btype data m =
     (let (m, events) =
            (if btype = ''tool_use''
             then close_blocks hash_order (\<lambda>b. block_type b = ''text'') (m\<lparr>has_tool_use := True\<rparr>)
             else (m, []))
      in case map_of (active_blocks m) index of
           Some b \<Rightarrow>
             if blk_started b then (m, events)
             else (m\<lparr>active_blocks := map_insert index (b\<lparr>blk_started := True\<rparr>) (active_blocks m)\<rparr>,
                   events @ [data])
         | None \<Rightarrow>
             (m\<lparr>active_blocks := map_insert index ((new_block btype)\<lparr>blk_started := True\<rparr>) (active_blocks m)\<rparr>,
              events @ [data]))"

definition handle_content_block_delta ::
  "int \<Rightarrow> sse_event \<Rightarrow> state_manager \<Rightarrow> sse_event list" where
  "handle_content_block_delta index data m =
     (case map_of (active_blocks m) index of
        Some b \<Rightarrow> if \<not> blk_started b \<or> blk_stopped b then [] else [data]
      | None \<Rightarrow> [])"

definition handle_content_block_stop :: "int \<Rightarrow> state_manager \<Rightarrow> state_manager \<times> sse_event list" where
  "handle_content_block_stop index m =
     (case map_of (active_blocks m) index of
        Some b \<Rightarrow>
          if blk_stopped b then (m, [])
          else (m\<lparr>active_blocks := map_insert index (b\<lparr>blk_stopped := True\<rparr>) (active_blocks m)\<rparr>,
                [ContentBlockStop index])
      | None \<Rightarrow> (m, []))"

definition generate_final_events ::
  "(int list \<Rightarrow> int list) \<Rightarrow> usage_report \<Rightarrow> state_manager \<Rightarrow> state_manager \<times> sse_event list" where
  "generate_final_events hash_order usage m =
     (let (m, closes) = close_blocks hash_order (\<lambda>_. True) m;
          (m, delta) = (if \<not> message_delta_sent m
                        then (m\<lparr>message_delta_sent := True\<rparr>, [MessageDelta (get_stop_reason m) usage])
                        else (m, []));
          (m, stop) = (if \<not> message_ended m then (m\<lparr>message_ended := True\<rparr>, [MessageStop]) else (m, []))
      in (m, closes @ delta @ stop))"

definition generate_error_events ::
  "(int list \<Rightarrow> int list) \<Rightarrow> string \<Rightarrow> string \<Rightarrow> state_manager \<Rightarrow> state_manager \<times> sse_event list" where
  "generate_error_events hash_order error_type message m =
     (let (m, closes) = close_blocks hash_order (\<lambda>b. block_type b \<noteq> ''tool_use'') m
      in (m\<lparr>message_ended := True\<rparr>, closes @ [ErrorEvent error_type message]))"

end
