(* ===== verification/EventProtocol.thy ===== *)
theory EventProtocol
  imports SseState
begin

text \<open>
  The protocol of the streaming Messages API as an automaton over events, and the simulation of
  the automaton by the state manager: each of its operations emits events the automaton accepts
  and moves it to the state that the manager's own state stands for.  This is the contract the
  comment of \<open>SseStateManager\<close> gives (\<open>src/anthropic/stream.rs\<close>), with consecutive block indices,
  deltas of the block's own type and the signature that must close a thinking block.
\<close>

section \<open>The automaton\<close>

record protocol =
  pr_started :: bool
  pr_blocks :: "(int \<times> string \<times> bool) list"
  pr_next :: int
  pr_signed :: "int option"
  pr_delta_sent :: bool
  pr_ended :: bool

definition protocol_init :: protocol where
  "protocol_init =
     \<lparr>pr_started = False, pr_blocks = [], pr_next = 0, pr_signed = None, pr_delta_sent = False,
      pr_ended = False\<rparr>"

definition in_message :: "protocol \<Rightarrow> bool" where
  "in_message p \<longleftrightarrow> pr_started p \<and> \<not> pr_delta_sent p \<and> \<not> pr_ended p"

text \<open>A block starts under the next index; a delta goes to an open block of its type; a thinking block
  stops only right after its signature; the message delta comes once, when no block is open,
  then the message stop; an error ends the stream.\<close>

fun proto_step :: "sse_event \<Rightarrow> protocol \<Rightarrow> protocol option" where
  "proto_step (MessageStart m i u) p =
     (if pr_started p \<or> pr_ended p then None else Some (p\<lparr>pr_started := True\<rparr>))"
| "proto_step (ContentBlockStart i b) p =
     (if in_message p \<and> i = pr_next p
      then Some (p\<lparr>pr_blocks := map_insert i (block_type_of b, True) (pr_blocks p),
                   pr_next := pr_next p + 1, pr_signed := None\<rparr>)
      else None)"
| "proto_step (ContentBlockDelta i d) p =
     (if in_message p \<and> map_of (pr_blocks p) i = Some (delta_block_type d, True)
      then Some (p\<lparr>pr_signed := (case d of SignatureDelta _ \<Rightarrow> Some i | _ \<Rightarrow> None)\<rparr>)
      else None)"
| "proto_step (ContentBlockStop i) p =
     (case map_of (pr_blocks p) i of
        Some (t, opened) \<Rightarrow>
          if in_message p \<and> opened \<and> (t = ''thinking'' \<longrightarrow> pr_signed p = Some i)
          then Some (p\<lparr>pr_blocks := map_insert i (t, False) (pr_blocks p), pr_signed := None\<rparr>)
          else None
      | None \<Rightarrow> None)"
| "proto_step (MessageDelta r u) p =
     (if in_message p \<and> list_all (\<lambda>(_, _, opened). \<not> opened) (pr_blocks p)
      then Some (p\<lparr>pr_delta_sent := True\<rparr>) else None)"
| "proto_step MessageStop p =
     (if pr_delta_sent p \<and> \<not> pr_ended p then Some (p\<lparr>pr_ended := True\<rparr>) else None)"
| "proto_step (ErrorEvent t m) p =
     (if in_message p then Some (p\<lparr>pr_ended := True\<rparr>) else None)"

fun proto_run :: "sse_event list \<Rightarrow> protocol \<Rightarrow> protocol option" where
  "proto_run [] p = Some p"
| "proto_run (e # es) p = Option.bind (proto_step e p) (proto_run es)"

lemma proto_run_append: "proto_run (a @ b) p = Option.bind (proto_run a p) (proto_run b)"
proof (induction a arbitrary: p)
  case (Cons e es)
  then show ?case by (cases "proto_step e p") auto
qed simp

section \<open>The state manager stands for a state of the automaton\<close>

definition abs_block :: "block_state \<Rightarrow> string \<times> bool" where
  "abs_block b = (block_type b, block_open b)"

definition abs_blocks :: "(int \<times> block_state) list \<Rightarrow> (int \<times> string \<times> bool) list" where
  "abs_blocks bs = map (\<lambda>(i, b). (i, abs_block b)) bs"

definition abs_manager :: "int option \<Rightarrow> state_manager \<Rightarrow> protocol" where
  "abs_manager sig m =
     \<lparr>pr_started = message_started m, pr_blocks = abs_blocks (active_blocks m), pr_next = next_index m,
      pr_signed = sig, pr_delta_sent = message_delta_sent m, pr_ended = message_ended m\<rparr>"

text \<open>Block indices are allotted in order, every block in the map was started, and the message delta
  is sent together with the message stop.\<close>

definition manager_ok :: "state_manager \<Rightarrow> bool" where
  "manager_ok m \<longleftrightarrow>
     distinct_keys (active_blocks m)
     \<and> (\<forall>(i, b) \<in> set (active_blocks m). i < next_index m \<and> blk_started b)
     \<and> (message_delta_sent m \<longrightarrow> message_ended m)"

definition manager_open :: "state_manager \<Rightarrow> bool" where
  "manager_open m \<longleftrightarrow> message_started m \<and> \<not> message_delta_sent m \<and> \<not> message_ended m"

definition no_open_thinking :: "state_manager \<Rightarrow> bool" where
  "no_open_thinking m \<longleftrightarrow>
     (\<forall>i. \<not> is_block_open_of_type m i ''thinking'')"

text \<open>The events take the automaton from the state of \<open>m\<close> to that of \<open>m'\<close>, whatever was last signed.\<close>

definition accepted :: "state_manager \<Rightarrow> sse_event list \<Rightarrow> state_manager \<Rightarrow> bool" where
  "accepted m es m' \<longleftrightarrow> (\<forall>s. \<exists>s'. proto_run es (abs_manager s m) = Some (abs_manager s' m'))"

lemma accepted_Nil [simp]: "accepted m [] m"
  by (auto simp: accepted_def)

lemma accepted_append: "accepted m a m1 \<Longrightarrow> accepted m1 b m2 \<Longrightarrow> accepted m (a @ b) m2"
  unfolding accepted_def by (metis bind.bind_lunit proto_run_append)

lemma map_of_abs_blocks: "map_of (abs_blocks bs) i = map_option abs_block (map_of bs i)"
  by (induction bs) (auto simp: abs_blocks_def)

lemma abs_blocks_insert: "abs_blocks (map_insert i b bs) = map_insert i (abs_block b) (abs_blocks bs)"
  by (auto simp: abs_blocks_def map_insert_def map_of_abs_blocks[unfolded abs_blocks_def] split: if_splits prod.splits)

lemma in_message_abs [simp]: "in_message (abs_manager s m) = manager_open m"
  by (simp add: in_message_def abs_manager_def manager_open_def)

lemma no_open_abs:
  "list_all (\<lambda>(_, _, opened). \<not> opened) (abs_blocks bs) \<longleftrightarrow> (\<forall>(i, b) \<in> set bs. \<not> block_open b)"
  by (auto simp: abs_blocks_def abs_block_def list_all_iff)

section \<open>Each operation\<close>

lemma open_type_map_of:
  "is_block_open_of_type m i t \<longleftrightarrow> (\<exists>b. map_of (active_blocks m) i = Some b \<and> block_open b \<and> block_type b = t)"
  by (auto simp: is_block_open_of_type_def block_open_def split: option.splits)

lemma abs_manager_insert:
  "abs_manager s (m\<lparr>active_blocks := map_insert i b (active_blocks m)\<rparr>) =
     (abs_manager s m)\<lparr>pr_blocks := map_insert i (abs_block b) (pr_blocks (abs_manager s m))\<rparr>"
  by (simp add: abs_manager_def abs_blocks_insert)

lemma manager_ok_insert_stop:
  assumes "manager_ok m" "map_of (active_blocks m) i = Some b"
  shows "manager_ok (m\<lparr>active_blocks := map_insert i (b\<lparr>blk_stopped := True\<rparr>) (active_blocks m)\<rparr>)"
proof -
  from map_of_SomeD[OF assms(2)] assms(1) have "i < next_index m" "blk_started b"
    by (auto simp: manager_ok_def)
  with assms(1) show ?thesis
    by (auto simp: manager_ok_def dest!: RustStd.set_insert)
qed

lemma accepted_message_start:
  assumes "handle_message_start (MessageStart mid model u) m = (m', es)" "manager_ok m"
    "\<not> message_started m" "\<not> message_ended m"
  shows "accepted m es m'" "manager_ok m'" "message_started m'"
    "active_blocks m' = active_blocks m" "message_ended m' = message_ended m"
    "message_delta_sent m' = message_delta_sent m"
  using assms by (auto simp: handle_message_start_def accepted_def abs_manager_def manager_ok_def)

text \<open>A delta written to the wire for an open block.\<close>

lemma accepted_delta:
  assumes "is_block_open_of_type m i (delta_block_type d)" "manager_open m"
  shows "accepted m [ContentBlockDelta i d] m"
  using assms by (auto simp: accepted_def open_type_map_of abs_manager_def map_of_abs_blocks abs_block_def
      in_message_def manager_open_def)

text \<open>The events that close a thinking block.\<close>

lemma accepted_close_thinking:
  assumes "is_block_open_of_type m i ''thinking''" "manager_open m" "manager_ok m"
    and "handle_content_block_stop i m = (m', es)"
  shows "accepted m ([ContentBlockDelta i (SignatureDelta sig)] @ es) m'"
    "manager_ok m'" "manager_open m'" "map_of (active_blocks m') = (map_of (active_blocks m))(i \<mapsto> (the (map_of (active_blocks m) i))\<lparr>blk_stopped := True\<rparr>)"
    "next_index m' = next_index m"
proof -
  obtain b where b: "map_of (active_blocks m) i = Some b" "block_open b" "block_type b = ''thinking''"
    using assms(1) by (auto simp: open_type_map_of)
  then have m': "m' = m\<lparr>active_blocks := map_insert i (b\<lparr>blk_stopped := True\<rparr>) (active_blocks m)\<rparr>"
    "es = [ContentBlockStop i]"
    using assms(4) by (auto simp: handle_content_block_stop_def block_open_def)
  show "manager_ok m'" using manager_ok_insert_stop[OF assms(3) b(1)] m' by simp
  show "manager_open m'" using assms(2) m' by (simp add: manager_open_def)
  show "map_of (active_blocks m') = (map_of (active_blocks m))(i \<mapsto> (the (map_of (active_blocks m) i))\<lparr>blk_stopped := True\<rparr>)"
    "next_index m' = next_index m" using m' b by simp_all
  show "accepted m ([ContentBlockDelta i (SignatureDelta sig)] @ es) m'"
    using b assms(2) unfolding m' accepted_def
    by (auto simp: abs_manager_def abs_blocks_insert map_of_abs_blocks abs_block_def in_message_def
        manager_open_def block_open_def)
qed

lemma accepted_stop:
  assumes "handle_content_block_stop i m = (m', es)" "manager_open m" "manager_ok m"
    and "\<not> is_block_open_of_type m i ''thinking''"
  shows "accepted m es m'" "manager_ok m'" "manager_open m'" "next_index m' = next_index m"
    "\<forall>j. j \<noteq> i \<longrightarrow> map_of (active_blocks m') j = map_of (active_blocks m) j"
    "\<forall>t. \<not> is_block_open_of_type m' i t"
    "map_option block_type (map_of (active_blocks m') i) = map_option block_type (map_of (active_blocks m) i)"
proof -
  have "accepted m es m' \<and> manager_ok m' \<and> manager_open m' \<and> next_index m' = next_index m
    \<and> (\<forall>j. j \<noteq> i \<longrightarrow> map_of (active_blocks m') j = map_of (active_blocks m) j)
    \<and> (\<forall>t. \<not> is_block_open_of_type m' i t)
    \<and> map_option block_type (map_of (active_blocks m') i) = map_option block_type (map_of (active_blocks m) i)"
  proof (cases "map_of (active_blocks m) i")
    case None
    with assms show ?thesis
      by (auto simp: handle_content_block_stop_def is_block_open_of_type_def)
  next
    case (Some b)
    show ?thesis
    proof (cases "blk_stopped b")
      case True
      with Some assms show ?thesis
        by (auto simp: handle_content_block_stop_def is_block_open_of_type_def)
    next
      case False
      have started: "blk_started b"
        using map_of_SomeD[OF Some] assms(3) by (auto simp: manager_ok_def)
      have m': "m' = m\<lparr>active_blocks := map_insert i (b\<lparr>blk_stopped := True\<rparr>) (active_blocks m)\<rparr>"
        "es = [ContentBlockStop i]"
        using assms(1) Some False by (auto simp: handle_content_block_stop_def)
      have "block_type b \<noteq> ''thinking''"
        using assms(4) Some False started by (auto simp: open_type_map_of block_open_def)
      then have "accepted m es m'"
        using Some False started assms(2) unfolding m' accepted_def
        by (auto simp: abs_manager_def abs_blocks_insert map_of_abs_blocks abs_block_def in_message_def
            manager_open_def block_open_def)
      with manager_ok_insert_stop[OF assms(3) Some] m' Some assms(2) show ?thesis
        by (auto simp: manager_open_def is_block_open_of_type_def)
    qed
  qed
  then show "accepted m es m'" "manager_ok m'" "manager_open m'" "next_index m' = next_index m"
    "\<forall>j. j \<noteq> i \<longrightarrow> map_of (active_blocks m') j = map_of (active_blocks m) j"
    "\<forall>t. \<not> is_block_open_of_type m' i t"
    "map_option block_type (map_of (active_blocks m') i) = map_option block_type (map_of (active_blocks m) i)"
    by blast+
qed

text \<open>What closing some blocks leaves: a block is as before or it was open, selected and is stopped.\<close>

definition closed_by :: "(block_state \<Rightarrow> bool) \<Rightarrow> state_manager \<Rightarrow> state_manager \<Rightarrow> bool" where
  "closed_by pred m m' \<longleftrightarrow>
     next_index m' = next_index m
     \<and> (\<forall>i. case map_of (active_blocks m) i of
           None \<Rightarrow> map_of (active_blocks m') i = None
         | Some b \<Rightarrow> map_of (active_blocks m') i = Some b
             \<or> pred b \<and> map_of (active_blocks m') i = Some (b\<lparr>blk_stopped := True\<rparr>))"

lemma closed_by_refl [simp]: "closed_by pred m m"
  by (auto simp: closed_by_def split: option.split)

lemma closed_byD:
  assumes "closed_by pred m m'"
  shows "next_index m' = next_index m" "map_of (active_blocks m) i = None \<Longrightarrow> map_of (active_blocks m') i = None"
    "map_of (active_blocks m) i = Some b \<Longrightarrow> map_of (active_blocks m') i = Some b
       \<or> pred b \<and> map_of (active_blocks m') i = Some (b\<lparr>blk_stopped := True\<rparr>)"
  using assms by (auto simp: closed_by_def split: option.splits dest: spec[of _ i])

lemma closed_by_trans:
  assumes "closed_by pred a b" "closed_by pred b c"
  shows "closed_by pred a c"
  unfolding closed_by_def
proof (intro conjI allI)
  show "next_index c = next_index a" using assms by (simp add: closed_by_def)
  fix i
  show "case map_of (active_blocks a) i of
      None \<Rightarrow> map_of (active_blocks c) i = None
    | Some x \<Rightarrow> map_of (active_blocks c) i = Some x
        \<or> pred x \<and> map_of (active_blocks c) i = Some (x\<lparr>blk_stopped := True\<rparr>)"
  proof (cases "map_of (active_blocks a) i")
    case None
    with closed_byD(2)[OF assms(1), of i] closed_byD(2)[OF assms(2), of i] show ?thesis by simp
  next
    case (Some x)
    from closed_byD(3)[OF assms(1) Some] show ?thesis
    proof
      assume "map_of (active_blocks b) i = Some x"
      from closed_byD(3)[OF assms(2) this] Some show ?thesis by simp
    next
      assume x: "pred x \<and> map_of (active_blocks b) i = Some (x\<lparr>blk_stopped := True\<rparr>)"
      from closed_byD(3)[OF assms(2) x[THEN conjunct2]] x Some show ?thesis by auto
    qed
  qed
qed

lemma stop_one:
  assumes "manager_ok m" "manager_open m" "map_of (active_blocks m) i = Some b" "block_open b" "pred b"
    and "block_type b \<noteq> ''thinking''"
  defines "m1 \<equiv> m\<lparr>active_blocks := map_insert i (b\<lparr>blk_stopped := True\<rparr>) (active_blocks m)\<rparr>"
  shows "accepted m [ContentBlockStop i] m1" "manager_ok m1" "manager_open m1" "closed_by pred m m1"
proof -
  show "manager_ok m1" unfolding m1_def by (rule manager_ok_insert_stop[OF assms(1,3)])
  show "manager_open m1" using assms(2) by (simp add: m1_def manager_open_def)
  show "closed_by pred m m1" using assms(3,5) by (auto simp: m1_def closed_by_def split: option.split)
  show "accepted m [ContentBlockStop i] m1"
    using assms(2-4,6) unfolding accepted_def
    by (auto simp: m1_def abs_manager_def abs_blocks_insert map_of_abs_blocks abs_block_def in_message_def
        manager_open_def block_open_def)
qed

lemma stop_blocks_accepted:
  assumes "stop_blocks pred keys (active_blocks m) = (bs, es)" "manager_ok m" "manager_open m"
    and "\<And>i b. map_of (active_blocks m) i = Some b \<Longrightarrow> pred b \<Longrightarrow> block_open b \<Longrightarrow> block_type b \<noteq> ''thinking''"
    and "\<And>b. pred (b\<lparr>blk_stopped := True\<rparr>) = pred b"
  shows "let m' = m\<lparr>active_blocks := bs\<rparr> in accepted m es m' \<and> manager_ok m' \<and> manager_open m'
    \<and> closed_by pred m m' \<and> (\<forall>i \<in> set keys. \<forall>b. map_of bs i = Some b \<longrightarrow> pred b \<longrightarrow> \<not> block_open b)"
  using assms(1-4)
proof (induction keys arbitrary: m es)
  case Nil
  then have "bs = active_blocks m" "es = []" by simp_all
  with Nil(2,3) show ?case by simp
next
  case (Cons i keys)
  show ?case
  proof (cases "\<exists>b. map_of (active_blocks m) i = Some b \<and> pred b \<and> block_open b")
    case False
    then have "stop_blocks pred keys (active_blocks m) = (bs, es)"
      using Cons.prems(1) by (auto simp: block_open_def split: option.splits)
    from Cons.IH[OF this Cons.prems(2-4)] have IH: "let m' = m\<lparr>active_blocks := bs\<rparr> in accepted m es m' \<and> manager_ok m' \<and> manager_open m'
      \<and> closed_by pred m m' \<and> (\<forall>i \<in> set keys. \<forall>b. map_of bs i = Some b \<longrightarrow> pred b \<longrightarrow> \<not> block_open b)" .
    have "\<forall>b. map_of bs i = Some b \<longrightarrow> pred b \<longrightarrow> \<not> block_open b"
    proof (intro allI impI)
      fix b assume b: "map_of bs i = Some b" "pred b"
      from IH have cl: "closed_by pred m (m\<lparr>active_blocks := bs\<rparr>)" by (simp add: Let_def)
      show "\<not> block_open b"
      proof (cases "map_of (active_blocks m) i")
        case None
        with closed_byD(2)[OF cl this] b show ?thesis by simp
      next
        case (Some x)
        with closed_byD(3)[OF cl this] b False assms(5) show ?thesis by (auto simp: block_open_def)
      qed
    qed
    with IH show ?thesis by (simp add: Let_def)
  next
    case True
    then obtain b where b: "map_of (active_blocks m) i = Some b" "pred b" "block_open b" by blast
    let ?m1 = "m\<lparr>active_blocks := map_insert i (b\<lparr>blk_stopped := True\<rparr>) (active_blocks m)\<rparr>"
    obtain es1 where es1: "stop_blocks pred keys (active_blocks ?m1) = (bs, es1)" "es = ContentBlockStop i # es1"
      using Cons.prems(1) b by (auto simp: block_open_def split: prod.splits)
    note one = stop_one[where pred = pred, OF Cons.prems(2,3) b(1,3,2) Cons.prems(4)[OF b]]
    have "block_type c \<noteq> ''thinking''"
      if "map_of (active_blocks ?m1) j = Some c" "pred c" "block_open c" for j c
      using that Cons.prems(4)[of j c] by (auto simp: block_open_def split: if_splits)
    note IH = Cons.IH[OF es1(1) one(2,3) this]
    have m1: "?m1\<lparr>active_blocks := bs\<rparr> = m\<lparr>active_blocks := bs\<rparr>" by simp
    from IH have IH': "accepted ?m1 es1 (m\<lparr>active_blocks := bs\<rparr>)" "closed_by pred ?m1 (m\<lparr>active_blocks := bs\<rparr>)"
      by (simp_all add: Let_def)
    have "map_of (active_blocks ?m1) i = Some (b\<lparr>blk_stopped := True\<rparr>)" by simp
    from closed_byD(3)[OF IH'(2) this] have "\<forall>c. map_of bs i = Some c \<longrightarrow> \<not> block_open c"
      by (auto simp: block_open_def)
    moreover have "accepted m es (m\<lparr>active_blocks := bs\<rparr>)"
      using accepted_append[OF one(1) IH'(1)] es1(2) by simp
    moreover have "closed_by pred m (m\<lparr>active_blocks := bs\<rparr>)"
      using closed_by_trans[OF one(4) IH'(2)] .
    ultimately show ?thesis using IH by (simp add: Let_def)
  qed
qed

text \<open>The order the hash map is walked in is a rearrangement of its keys.\<close>

definition rearranges :: "('a list \<Rightarrow> 'a list) \<Rightarrow> bool" where
  "rearranges f \<longleftrightarrow> (\<forall>xs. set (f xs) = set xs)"

lemma close_blocks_accepted:
  assumes "close_blocks hash_order pred m = (m', es)" "manager_ok m" "manager_open m" "rearranges hash_order"
    and "\<And>i b. map_of (active_blocks m) i = Some b \<Longrightarrow> pred b \<Longrightarrow> block_open b \<Longrightarrow> block_type b \<noteq> ''thinking''"
    and "\<And>b. pred (b\<lparr>blk_stopped := True\<rparr>) = pred b"
  shows "accepted m es m'" "manager_ok m'" "manager_open m'" "closed_by pred m m'"
    "map_of (active_blocks m') i = Some b \<Longrightarrow> pred b \<Longrightarrow> \<not> block_open b"
proof -
  obtain bs where bs: "stop_blocks pred (hash_order (map fst (active_blocks m))) (active_blocks m) = (bs, es)"
    "m' = m\<lparr>active_blocks := bs\<rparr>"
    using assms(1) by (auto simp: close_blocks_def split: prod.splits)
  have "let m' = m\<lparr>active_blocks := bs\<rparr> in accepted m es m' \<and> manager_ok m' \<and> manager_open m'
    \<and> closed_by pred m m' \<and> (\<forall>i \<in> set (hash_order (map fst (active_blocks m))).
         \<forall>b. map_of bs i = Some b \<longrightarrow> pred b \<longrightarrow> \<not> block_open b)"
    by (rule stop_blocks_accepted[OF bs(1) assms(2,3)]) (use assms(5,6) in blast)+
  note st = this[unfolded Let_def, folded bs(2)]
  from st show "accepted m es m'" "manager_ok m'" "manager_open m'" and cl: "closed_by pred m m'" by blast+
  show "\<not> block_open b" if b: "map_of (active_blocks m') i = Some b" "pred b"
  proof -
    have "map_of (active_blocks m) i \<noteq> None"
      using closed_byD(2)[OF cl] b(1) by (metis option.distinct(1))
    then have "i \<in> set (hash_order (map fst (active_blocks m)))"
      using assms(4) by (auto simp: rearranges_def map_of_eq_None_iff)
    with st b bs(2) show ?thesis by auto
  qed
qed

lemma map_of_fresh: "manager_ok m \<Longrightarrow> map_of (active_blocks m) (next_index m) = None"
proof (rule ccontr)
  assume "manager_ok m" "map_of (active_blocks m) (next_index m) \<noteq> None"
  then obtain b where "(next_index m, b) \<in> set (active_blocks m)"
    by (auto dest: map_of_SomeD)
  with \<open>manager_ok m\<close> show False by (auto simp: manager_ok_def)
qed

text \<open>A block that starts under the next index.\<close>

lemma accepted_start:
  assumes "handle_content_block_start hash_order i (block_type_of c) (ContentBlockStart i c) m1 = (m', es)"
    and "next_block_index m = (i, m1)" "manager_ok m" "manager_open m" "rearranges hash_order"
  shows "accepted m es m'" "manager_ok m'" "manager_open m'" "next_index m' = next_index m + 1"
    "map_of (active_blocks m') i = Some \<lparr>block_type = block_type_of c, blk_started = True, blk_stopped = False\<rparr>"
    "\<And>j b. j \<noteq> i \<Longrightarrow> map_of (active_blocks m) j = Some b \<Longrightarrow> map_of (active_blocks m') j = Some b
       \<or> block_type b = ''text'' \<and> block_type_of c = ''tool_use'' \<and> map_of (active_blocks m') j = Some (b\<lparr>blk_stopped := True\<rparr>)"
    "\<And>j. j \<noteq> i \<Longrightarrow> map_of (active_blocks m) j = None \<Longrightarrow> map_of (active_blocks m') j = None"
proof -
  define ma where "ma = (if block_type_of c = ''tool_use'' then m\<lparr>has_tool_use := True\<rparr> else m)"
  have ma: "manager_ok ma" "manager_open ma" "active_blocks ma = active_blocks m" "next_index ma = next_index m"
    "accepted m [] ma"
    using assms(3,4) by (auto simp: ma_def manager_ok_def manager_open_def accepted_def abs_manager_def)
  define closing where "closing = (if block_type_of c = ''tool_use''
    then close_blocks hash_order (\<lambda>b. block_type b = ''text'') ma else (ma, []))"
  obtain mc ec where mc: "closing = (mc, ec)" by force
  have c: "accepted m ec mc \<and> manager_ok mc \<and> manager_open mc
    \<and> closed_by (\<lambda>b. block_type b = ''text'' \<and> block_type_of c = ''tool_use'') ma mc"
  proof (cases "block_type_of c = ''tool_use''")
    case True
    with mc have "close_blocks hash_order (\<lambda>b. block_type b = ''text'') ma = (mc, ec)"
      by (simp add: closing_def)
    from close_blocks_accepted[OF this ma(1,2) assms(5)] True show ?thesis
      using accepted_append[OF ma(5)] by simp
  next
    case False
    with mc ma assms(3,4) show ?thesis by (auto simp: closing_def ma_def)
  qed
  have i: "i = next_index mc" "i = next_index m"
    using assms(2) c closed_byD(1) ma(4) by (fastforce simp: next_block_index_def)+
  have "m1 = m\<lparr>next_index := next_index m + 1\<rparr>" using assms(2) by (auto simp: next_block_index_def)
  have fresh: "map_of (active_blocks mc) i = None" using map_of_fresh[of mc] c i(1) by simp
  have res: "m' = mc\<lparr>next_index := next_index m + 1, active_blocks := map_insert i
      \<lparr>block_type = block_type_of c, blk_started = True, blk_stopped = False\<rparr> (active_blocks mc)\<rparr>"
    "es = ec @ [ContentBlockStart i c]"
  proof -
    have "(if block_type_of c = ''tool_use''
        then close_blocks hash_order (\<lambda>b. block_type b = ''text'') (m1\<lparr>has_tool_use := True\<rparr>)
        else (m1, [])) = (mc\<lparr>next_index := next_index m + 1\<rparr>, ec)"
      using mc \<open>m1 = _\<close> by (auto simp: closing_def ma_def close_blocks_def split: prod.splits if_splits)
    with assms(1) fresh show
      "m' = mc\<lparr>next_index := next_index m + 1, active_blocks := map_insert i
        \<lparr>block_type = block_type_of c, blk_started = True, blk_stopped = False\<rparr> (active_blocks mc)\<rparr>"
      "es = ec @ [ContentBlockStart i c]"
      by (auto simp: handle_content_block_start_def new_block_def)
  qed
  have "accepted mc [ContentBlockStart i c] m'"
    using c i fresh unfolding accepted_def res
    by (auto simp: abs_manager_def abs_blocks_insert abs_block_def block_open_def in_message_def manager_open_def)
  with accepted_append c res(2) show "accepted m es m'" by blast
  have nx: "next_index mc = next_index m" using i by simp
  show "manager_ok m'"
    using c nx i unfolding res manager_ok_def
    by (fastforce dest!: RustStd.set_insert)
  show "manager_open m'" using c by (simp add: res manager_open_def)
  show "next_index m' = next_index m + 1" by (simp add: res)
  show "map_of (active_blocks m') i = Some \<lparr>block_type = block_type_of c, blk_started = True, blk_stopped = False\<rparr>"
    by (simp add: res)
  show "map_of (active_blocks m') j = Some b
       \<or> block_type b = ''text'' \<and> block_type_of c = ''tool_use'' \<and> map_of (active_blocks m') j = Some (b\<lparr>blk_stopped := True\<rparr>)"
    if "j \<noteq> i" "map_of (active_blocks m) j = Some b" for j b
    using closed_byD(3)[OF c[THEN conjunct2, THEN conjunct2, THEN conjunct2], of j b] that ma(3) by (auto simp: res)
  show "map_of (active_blocks m') j = None" if "j \<noteq> i" "map_of (active_blocks m) j = None" for j
    using closed_byD(2)[OF c[THEN conjunct2, THEN conjunct2, THEN conjunct2], of j] that ma(3) by (simp add: res)
qed

lemma no_open_thinkingD:
  "no_open_thinking m \<Longrightarrow> map_of (active_blocks m) i = Some b \<Longrightarrow> block_open b \<Longrightarrow> block_type b \<noteq> ''thinking''"
  by (auto simp: no_open_thinking_def open_type_map_of)

text \<open>The normal end.\<close>

lemma accepted_final:
  assumes "generate_final_events hash_order usage m = (m', es)" "manager_ok m" "manager_open m"
    "rearranges hash_order" "no_open_thinking m"
  shows "accepted m es m'" "message_ended m'" "message_delta_sent m'"
    "\<exists>reason. es = butlast (butlast es) @ [MessageDelta reason usage, MessageStop]"
proof -
  obtain mc ec where mc: "close_blocks hash_order (\<lambda>_. True) m = (mc, ec)" by force
  note cb = close_blocks_accepted[OF mc assms(2-4)]
  have cl: "accepted m ec mc" "manager_ok mc" "manager_open mc"
    using cb(1-3) no_open_thinkingD[OF assms(5)] by blast+
  have closed: "\<not> block_open b" if "map_of (active_blocks mc) i = Some b" for i b
    using cb(5)[of i b] no_open_thinkingD[OF assms(5)] that by blast
  have flags: "\<not> message_delta_sent mc" "\<not> message_ended mc"
    using cl(3) by (auto simp: manager_open_def)
  have res: "m' = mc\<lparr>message_delta_sent := True, message_ended := True\<rparr>"
    "es = ec @ [MessageDelta (get_stop_reason mc) usage, MessageStop]"
    using assms(1) mc flags by (auto simp: generate_final_events_def)
  have "\<forall>(i, b) \<in> set (active_blocks mc). \<not> block_open b"
    using closed cl(2) by (auto simp: manager_ok_def)
  then have "accepted mc [MessageDelta (get_stop_reason mc) usage, MessageStop] m'"
    using cl(3) unfolding accepted_def res(1)
    by (auto simp: abs_manager_def in_message_def manager_open_def no_open_abs)
  with accepted_append cl(1) res(2) show "accepted m es m'" by blast
  show "message_ended m'" "message_delta_sent m'" by (simp_all add: res)
  show "\<exists>reason. es = butlast (butlast es) @ [MessageDelta reason usage, MessageStop]"
    by (auto simp: res(2) butlast_append)
qed

text \<open>The end by an error.\<close>

lemma accepted_error:
  assumes "generate_error_events hash_order error_type message m = (m', es)" "manager_ok m" "manager_open m"
    "rearranges hash_order" "no_open_thinking m"
  shows "accepted m es m'" "message_ended m'" "last es = ErrorEvent error_type message"
proof -
  obtain mc ec where mc: "close_blocks hash_order (\<lambda>b. block_type b \<noteq> ''tool_use'') m = (mc, ec)" by force
  note cb = close_blocks_accepted[OF mc assms(2-4)]
  have cl: "accepted m ec mc" "manager_open mc"
    using cb(1,3) no_open_thinkingD[OF assms(5)] by auto
  have res: "m' = mc\<lparr>message_ended := True\<rparr>" "es = ec @ [ErrorEvent error_type message]"
    using assms(1) mc by (auto simp: generate_error_events_def)
  have "accepted mc [ErrorEvent error_type message] m'"
    using cl(2) unfolding accepted_def res(1)
    by (auto simp: abs_manager_def in_message_def manager_open_def)
  with accepted_append cl(1) res(2) show "accepted m es m'" by blast
  show "message_ended m'" "last es = ErrorEvent error_type message" by (simp_all add: res)
qed

end
