(* ===== verification/ThinkingTags.thy ===== *)
theory ThinkingTags
  imports RustStr
begin

text \<open>
  The \<open>thinking\<close> tags in the text of a reply (\<open>src/anthropic/stream.rs\<close>): the searches for a real
  start tag and a real end tag (not wrapped in quoting characters), the bytes stripped after an
  end tag, and \<open>extract_thinking_from_complete_text\<close>, the batch version used for complete
  replies.  A loop \<open>while let Some(pos) = buffer[search_start..].find(TAG)\<close> is a recursion on
  \<open>search_start\<close>.  The lemmas show that a decision taken on a prefix of the stream stays taken
  when more text arrives and that the bytes held back are enough.
\<close>

section \<open>Character boundaries and quoting characters\<close>

definition find_char_boundary :: "string \<Rightarrow> nat \<Rightarrow> nat" where
  "find_char_boundary s target =
     (if length s \<le> target then length s
      else if target = 0 then 0
      else boundary_down s target)"

definition quote_chars :: string where
  "quote_chars =
     [CHR 0x60, CHR 0x22, CHR 0x27, CHR 0x5C, CHR ''#'', CHR ''!'', CHR ''@'', CHR ''$'', CHR ''%'',
      CHR 0x5E, CHR ''&'', CHR ''*'', CHR ''('', CHR '')'', CHR ''-'', CHR ''_'', CHR ''='', CHR ''+'',
      CHR ''['', CHR '']'', CHR ''{'', CHR ''}'', CHR '';'', CHR '':'', CHR ''<'', CHR ''>'', CHR '','',
      CHR ''.'', CHR ''?'', CHR ''/'']"

definition is_quote_char :: "string \<Rightarrow> nat \<Rightarrow> bool" where
  "is_quote_char buffer pos =
     (case byte_at buffer pos of Some c \<Rightarrow> c \<in> set quote_chars | None \<Rightarrow> False)"

lemma find_char_boundary_le: "find_char_boundary s target \<le> target \<or> find_char_boundary s target = length s"
  by (auto simp: find_char_boundary_def boundary_down_le)

lemma find_char_boundary_min: "find_char_boundary s target \<le> min target (length s)"
  by (auto simp: find_char_boundary_def boundary_down_le order_trans[OF boundary_down_le])

lemma is_char_boundary_find: "is_char_boundary s (find_char_boundary s target)"
  by (auto simp: find_char_boundary_def is_char_boundary_boundary_down)
    (auto simp: is_char_boundary_def)

lemma is_quote_char_append: "i < length s \<Longrightarrow> is_quote_char (s @ t) i = is_quote_char s i"
  by (simp add: is_quote_char_def byte_at_def nth_append)

lemma is_quote_char_length: "is_quote_char s i \<Longrightarrow> i < length s"
  by (auto simp: is_quote_char_def byte_at_def split: if_splits option.splits)

section \<open>The searches\<close>

definition start_tag :: string where "start_tag = ''<thinking>''"
definition end_tag :: string where "end_tag = ''</thinking>''"

lemma tag_lengths [simp]: "length start_tag = 10" "length end_tag = 11"
  "start_tag \<noteq> []" "end_tag \<noteq> []"
  by (auto simp: start_tag_def end_tag_def)

text \<open>The two tests \<open>has_quote_before\<close> and \<open>has_quote_after\<close> of a tag found at \<open>pos\<close>.\<close>

definition quoted_tag :: "string \<Rightarrow> nat \<Rightarrow> nat \<Rightarrow> bool" where
  "quoted_tag buffer pos after_pos \<longleftrightarrow>
     0 < pos \<and> is_quote_char buffer (pos - 1) \<or> is_quote_char buffer after_pos"

function end_tag_from :: "string \<Rightarrow> nat \<Rightarrow> nat option" where
  "end_tag_from buffer search_start =
     (case find_from end_tag buffer search_start of
        None \<Rightarrow> None
      | Some pos \<Rightarrow>
          let after_pos = pos + length end_tag in
          if quoted_tag buffer pos after_pos then end_tag_from buffer (pos + 1)
          else
            let after_content = drop after_pos buffer in
            if length after_content < 2 then None
            else if starts_with after_content [newline, newline]
                  \<or> starts_with after_content [newline] \<and> \<not> starts_with (drop 1 after_content) [newline]
            then Some pos
            else end_tag_from buffer (pos + 1))"
  by pat_completeness auto
termination
  by (relation "measure (\<lambda>(buffer, search_start). length buffer - search_start)")
    (auto dest!: find_from_less)

definition find_real_thinking_end_tag :: "string \<Rightarrow> nat option" where
  "find_real_thinking_end_tag buffer = end_tag_from buffer 0"

definition thinking_end_tag_strip_len :: "string \<Rightarrow> nat \<Rightarrow> nat" where
  "thinking_end_tag_strip_len buffer pos =
     (let after = pos + length end_tag;
          newlines = length (takeWhile (\<lambda>b. b = newline) (take 2 (drop after buffer)))
      in length end_tag + newlines)"

function end_tag_at_end_from :: "string \<Rightarrow> nat \<Rightarrow> nat option" where
  "end_tag_at_end_from buffer search_start =
     (case find_from end_tag buffer search_start of
        None \<Rightarrow> None
      | Some pos \<Rightarrow>
          let after_pos = pos + length end_tag in
          if quoted_tag buffer pos after_pos then end_tag_at_end_from buffer (pos + 1)
          else if is_blank (drop after_pos buffer) then Some pos
          else end_tag_at_end_from buffer (pos + 1))"
  by pat_completeness auto
termination
  by (relation "measure (\<lambda>(buffer, search_start). length buffer - search_start)")
    (auto dest!: find_from_less)

definition find_real_thinking_end_tag_at_buffer_end :: "string \<Rightarrow> nat option" where
  "find_real_thinking_end_tag_at_buffer_end buffer = end_tag_at_end_from buffer 0"

function start_tag_from :: "string \<Rightarrow> nat \<Rightarrow> nat option" where
  "start_tag_from buffer search_start =
     (case find_from start_tag buffer search_start of
        None \<Rightarrow> None
      | Some pos \<Rightarrow>
          if \<not> quoted_tag buffer pos (pos + length start_tag) then Some pos
          else start_tag_from buffer (pos + 1))"
  by pat_completeness auto
termination
  by (relation "measure (\<lambda>(buffer, search_start). length buffer - search_start)")
    (auto dest!: find_from_less)

definition find_real_thinking_start_tag :: "string \<Rightarrow> nat option" where
  "find_real_thinking_start_tag buffer = start_tag_from buffer 0"

declare end_tag_from.simps [simp del] end_tag_at_end_from.simps [simp del]
  start_tag_from.simps [simp del]

section \<open>What a found tag means\<close>

definition end_tag_here :: "string \<Rightarrow> nat \<Rightarrow> bool" where
  "end_tag_here buffer pos \<longleftrightarrow>
     match_at end_tag buffer pos \<and> \<not> quoted_tag buffer pos (pos + length end_tag)"

lemma starts_with_newline:
  "starts_with s [newline, newline] \<or> starts_with s [newline] \<and> \<not> starts_with (drop 1 s) [newline]
   \<longleftrightarrow> starts_with s [newline]"
  by (cases s; cases "drop 1 s") auto

lemma end_tag_from_Some:
  "end_tag_from buffer k = Some pos \<Longrightarrow>
     k \<le> pos \<and> end_tag_here buffer pos \<and> pos + 13 \<le> length buffer
     \<and> buffer ! (pos + 11) = newline"
proof (induction buffer k rule: end_tag_from.induct)
  case (1 buffer k)
  show ?case
  proof (cases "find_from end_tag buffer k")
    case None
    with 1(3) show ?thesis by (simp add: end_tag_from.simps)
  next
    case (Some q)
    note q = find_from_Some[OF Some]
    show ?thesis
    proof (cases "quoted_tag buffer q (q + length end_tag)")
      case True
      with 1(3) Some have "end_tag_from buffer (q + 1) = Some pos"
        by (simp add: end_tag_from.simps[of buffer k])
      from 1(1)[OF Some refl True this] q show ?thesis by simp
    next
      case False
      let ?after = "drop (q + length end_tag) buffer"
      show ?thesis
      proof (cases "length ?after < 2 \<or> starts_with ?after [newline]")
        case True
        with 1(3) Some False have after: "\<not> length ?after < 2" "starts_with ?after [newline]" "pos = q"
          unfolding end_tag_from.simps[of buffer k] Let_def starts_with_newline
          by (auto split: if_splits)
        then have "buffer ! (q + 11) = newline"
          by (cases ?after) (auto simp: nth_via_drop)
        with after False q show ?thesis by (simp add: end_tag_here_def)
      next
        case no: False
        with 1(3) Some False have "end_tag_from buffer (q + 1) = Some pos"
          unfolding end_tag_from.simps[of buffer k] Let_def starts_with_newline
          by (auto split: if_splits)
        from 1(2)[OF Some refl False refl _ _ this] no q show ?thesis
          unfolding starts_with_newline by simp
      qed
    qed
  qed
qed

lemma end_tag_from_step:
  assumes "find_from end_tag buffer k = Some q"
  shows "end_tag_from buffer k =
     (if quoted_tag buffer q (q + 11) then end_tag_from buffer (q + 1)
      else if length buffer < q + 13 then None
      else if starts_with (drop (q + 11) buffer) [newline] then Some q
      else end_tag_from buffer (q + 1))"
  using assms unfolding end_tag_from.simps[of buffer k] Let_def starts_with_newline
  by auto

lemma is_quote_char_extend: "is_quote_char s i \<Longrightarrow> is_quote_char (s @ t) i"
  using is_quote_char_length[of s i] by (simp add: is_quote_char_append)

lemma quoted_tag_extend: "quoted_tag s pos after \<Longrightarrow> quoted_tag (s @ t) pos after"
  by (auto simp: quoted_tag_def is_quote_char_extend)

lemma quoted_tag_append:
  assumes "pos + 11 \<le> length s" "after = pos + 11"
  shows "quoted_tag (s @ t) pos after \<longleftrightarrow>
     (if pos + 11 < length s then quoted_tag s pos after
      else 0 < pos \<and> is_quote_char s (pos - 1) \<or> is_quote_char (s @ t) after)"
  using assms by (auto simp: quoted_tag_def is_quote_char_append dest: is_quote_char_length)

lemma starts_with_newline_append:
  "a < length s \<Longrightarrow> starts_with (drop a (s @ t)) [newline] = starts_with (drop a s) [newline]"
  by (cases "drop a s") auto

text \<open>A decision, once the buffer allows one, is the same on every extension of the buffer.\<close>

lemma end_tag_from_append:
  "end_tag_from buffer k = Some pos \<Longrightarrow> end_tag_from (buffer @ more) k = Some pos"
proof (induction buffer k rule: end_tag_from.induct)
  case (1 buffer k)
  obtain q where q: "find_from end_tag buffer k = Some q"
    using 1(3) by (cases "find_from end_tag buffer k") (simp_all add: end_tag_from.simps)
  note b = find_from_Some[OF q]
  have q': "find_from end_tag (buffer @ more) k = Some q"
    using q by (simp add: find_from_append_Some)
  note steps = end_tag_from_step[OF q] end_tag_from_step[OF q']
  show ?case
  proof (cases "quoted_tag buffer q (q + 11)")
    case True
    then have "quoted_tag (buffer @ more) q (q + 11)"
      by (rule quoted_tag_extend)
    with True 1(1)[OF q refl _] 1(3) steps show ?thesis by simp
  next
    case False
    with 1(3) steps have len: "q + 13 \<le> length buffer" by (auto split: if_splits)
    with False b have nq: "\<not> quoted_tag (buffer @ more) q (q + 11)"
      by (simp add: quoted_tag_append)
    have nl: "starts_with (drop (q + 11) (buffer @ more)) [newline]
        = starts_with (drop (q + 11) buffer) [newline]"
      using len by (subst starts_with_newline_append) auto
    show ?thesis
    proof (cases "starts_with (drop (q + 11) buffer) [newline]")
      case True
      with 1(3) steps nl nq False len show ?thesis by (simp del: drop_append)
    next
      case no: False
      then have "end_tag_from (buffer @ more) (q + 1) = Some pos"
        using 1(2)[OF q refl _ refl] 1(3) steps(1) False len
        unfolding starts_with_newline by simp
      with no steps nl nq False len show ?thesis by (simp del: drop_append)
    qed
  qed
qed

text \<open>A buffer without a decided end tag can only be completed by one whose thirteenth byte is new.\<close>

lemma end_tag_from_append_None:
  "end_tag_from buffer k = None \<Longrightarrow> end_tag_from (buffer @ more) k = Some pos
    \<Longrightarrow> length buffer < pos + 13"
proof (induction buffer k rule: end_tag_from.induct)
  case (1 buffer k)
  show ?case
  proof (cases "find_from end_tag buffer k")
    case None
    obtain q where q: "find_from end_tag (buffer @ more) k = Some q"
      using 1(4) by (cases "find_from end_tag (buffer @ more) k") (simp_all add: end_tag_from.simps)
    have "length buffer < q + 11"
      using find_from_append_None[OF None q] by simp
    moreover have "q \<le> pos"
      using 1(4) end_tag_from_step[OF q] end_tag_from_Some[of "buffer @ more" "q + 1" pos]
      by (auto split: if_splits)
    ultimately show ?thesis by simp
  next
    case q: (Some q)
    note b = find_from_Some[OF q]
    have q': "find_from end_tag (buffer @ more) k = Some q"
      using q by (simp add: find_from_append_Some)
    note steps = end_tag_from_step[OF q] end_tag_from_step[OF q']
    have ge: "q \<le> pos"
      using end_tag_from_Some[OF 1(4)] steps(2) 1(4) end_tag_from_Some[of "buffer @ more" "q + 1" pos]
      by (auto split: if_splits)
    show ?thesis
    proof (cases "length buffer < q + 13")
      case True
      with ge show ?thesis by simp
    next
      case False
      with b have same: "quoted_tag (buffer @ more) q (q + 11) = quoted_tag buffer q (q + 11)"
        by (simp add: quoted_tag_append)
      show ?thesis
      proof (cases "quoted_tag buffer q (q + 11)")
        case True
        with 1(1)[OF q refl] 1(3,4) steps same show ?thesis by simp
      next
        case nq: False
        with False 1(3) steps(1) have "\<not> starts_with (drop (q + 11) buffer) [newline]"
          by (auto split: if_splits)
        then have nl: "\<not> starts_with (drop (q + 11) (buffer @ more)) [newline]"
          using False by (subst starts_with_newline_append) auto
        have "end_tag_from buffer (q + 1) = None"
          using 1(3) steps(1) nq False \<open>\<not> starts_with (drop (q + 11) buffer) [newline]\<close> by simp
        moreover have "end_tag_from (buffer @ more) (q + 1) = Some pos"
          using 1(4) nq False nl unfolding steps(2) same by (simp del: drop_append)
        ultimately show ?thesis
          using 1(2)[OF q refl _ refl] nq False \<open>\<not> starts_with (drop (q + 11) buffer) [newline]\<close>
          unfolding starts_with_newline by simp
      qed
    qed
  qed
qed

lemma end_tag_at_end_from_Some:
  "end_tag_at_end_from buffer k = Some pos \<Longrightarrow>
     match_at end_tag buffer pos \<and> is_blank (drop (pos + 11) buffer)"
proof (induction buffer k rule: end_tag_at_end_from.induct)
  case (1 buffer k)
  obtain q where q: "find_from end_tag buffer k = Some q"
    using 1(3) by (cases "find_from end_tag buffer k") (simp_all add: end_tag_at_end_from.simps)
  have step: "end_tag_at_end_from buffer k =
     (if quoted_tag buffer q (q + 11) then end_tag_at_end_from buffer (q + 1)
      else if is_blank (drop (q + 11) buffer) then Some q
      else end_tag_at_end_from buffer (q + 1))"
    using q by (subst end_tag_at_end_from.simps) simp
  consider "end_tag_at_end_from buffer (q + 1) = Some pos" "quoted_tag buffer q (q + length end_tag)"
    | "end_tag_at_end_from buffer (q + 1) = Some pos" "\<not> quoted_tag buffer q (q + length end_tag)"
      "\<not> is_blank (drop (q + length end_tag) buffer)"
    | "pos = q" "is_blank (drop (q + 11) buffer)"
    using 1(3) unfolding step by (auto split: if_splits)
  then show ?case
  proof cases
    case 1
    then show ?thesis using "1.IH"(1)[OF q refl] by blast
  next
    case 2
    then show ?thesis using "1.IH"(2)[OF q refl] by blast
  next
    case 3
    then show ?thesis using find_from_Some[OF q] by simp
  qed
qed

lemma start_tag_from_Some:
  "start_tag_from buffer k = Some pos \<Longrightarrow>
     match_at start_tag buffer pos \<and> \<not> quoted_tag buffer pos (pos + 10)"
proof (induction buffer k rule: start_tag_from.induct)
  case (1 buffer k)
  obtain q where q: "find_from start_tag buffer k = Some q"
    using 1(2) by (cases "find_from start_tag buffer k") (simp_all add: start_tag_from.simps)
  have step: "start_tag_from buffer k =
     (if \<not> quoted_tag buffer q (q + 10) then Some q else start_tag_from buffer (q + 1))"
    using q by (subst start_tag_from.simps) simp
  show ?case
  proof (cases "quoted_tag buffer q (q + 10)")
    case True
    with 1(1)[OF q] 1(2) step show ?thesis by simp
  next
    case False
    with 1(2) step find_from_Some[OF q] show ?thesis by simp
  qed
qed

lemmas find_real_end_tag_Some =
  end_tag_from_Some[of buffer 0 pos, folded find_real_thinking_end_tag_def] for buffer pos
lemmas find_real_end_tag_at_end_Some =
  end_tag_at_end_from_Some[of buffer 0 pos, folded find_real_thinking_end_tag_at_buffer_end_def]
  for buffer pos
lemmas find_real_start_tag_Some =
  start_tag_from_Some[of buffer 0 pos, folded find_real_thinking_start_tag_def] for buffer pos

section \<open>Extraction from a complete reply\<close>

definition strip_prefix_newline :: "string \<Rightarrow> string" where
  "strip_prefix_newline s = (if starts_with s [newline] then drop 1 s else s)"

definition extract_thinking_from_complete_text :: "string \<Rightarrow> string option \<times> string" where
  "extract_thinking_from_complete_text txt =
     (case (case find_real_thinking_start_tag txt of
              Some pos \<Rightarrow> (if is_blank (take pos txt) then Some pos else None)
            | None \<Rightarrow> None) of
        None \<Rightarrow> (None, txt)
      | Some start_pos \<Rightarrow>
          let before = take start_pos txt;
              after_open = drop (start_pos + length start_tag) txt
          in (case (case find_real_thinking_end_tag after_open of
                     Some end_pos \<Rightarrow>
                       Some (take end_pos after_open,
                             drop (end_pos + thinking_end_tag_strip_len after_open end_pos) after_open)
                   | None \<Rightarrow>
                       (case find_real_thinking_end_tag_at_buffer_end after_open of
                          Some end_pos \<Rightarrow>
                            Some (take end_pos after_open,
                                  trim_start (drop (end_pos + length end_tag) after_open))
                        | None \<Rightarrow> None)) of
               None \<Rightarrow> (None, txt)
             | Some (thinking_raw, text_after) \<Rightarrow>
                 let thinking_content = strip_prefix_newline thinking_raw;
                     remaining = (if \<not> is_blank before then before else []) @ text_after
                 in (if thinking_content = [] then (None, remaining)
                     else (Some thinking_content, remaining))))"

lemma newlines_blank: "is_blank (takeWhile (\<lambda>b. b = newline) (take 2 s))"
proof -
  have "takeWhile (\<lambda>b. b = newline) (take 2 s) \<in> {[], [newline], [newline, newline]}"
    by (cases s; cases "tl s") (auto simp: take_Cons')
  then show ?thesis by auto
qed

lemma strip_len_split:
  assumes "match_at end_tag s pos"
  shows "\<exists>gap. is_blank gap \<and>
    s = take pos s @ end_tag @ gap @ drop (pos + thinking_end_tag_strip_len s pos) s"
proof -
  let ?r = "drop (pos + 11) s"
  let ?gap = "takeWhile (\<lambda>b. b = newline) (take 2 ?r)"
  obtain u where "take 2 ?r = ?gap @ u"
    by (metis takeWhile_dropWhile_id)
  then have "?r = ?gap @ u @ drop 2 ?r"
    by (metis append.assoc append_take_drop_id)
  then have "drop (length ?gap) ?r = u @ drop 2 ?r"
    by (metis append_eq_conv_conj)
  with \<open>?r = ?gap @ u @ drop 2 ?r\<close>
  have "?r = ?gap @ drop (pos + thinking_end_tag_strip_len s pos) s"
    by (simp add: thinking_end_tag_strip_len_def add_ac)
  with match_at_decomp[OF assms] newlines_blank[of ?r] show ?thesis
    by (intro exI[of _ ?gap]) simp
qed

lemma trim_start_gap:
  assumes "is_blank s" shows "s = s @ trim_start s"
  using assms by (simp add: is_blank_trim_start)

lemma strip_prefix_newline_split: "\<exists>nl \<in> {[], [newline]}. s = nl @ strip_prefix_newline s"
  by (cases s) (auto simp: strip_prefix_newline_def)

text \<open>Extraction of a thinking block from a complete reply loses nothing: either the text is
  returned unchanged and no thinking is reported, or the text is white space, the start tag, an
  optional newline, the thinking, the end tag, white space and the remaining text, in this order,
  and the thinking that is reported is never empty (an empty one is reported as none).\<close>

lemma extract_thinking_lossless:
  "let (thinking, remaining) = extract_thinking_from_complete_text txt
   in thinking = None \<and> remaining = txt
      \<or> (\<exists>before nl gap. is_blank before \<and> nl \<in> {[], [newline]} \<and> is_blank gap \<and> thinking \<noteq> Some []
           \<and> txt = before @ start_tag @ nl @ (case thinking of None \<Rightarrow> [] | Some t \<Rightarrow> t)
                   @ end_tag @ gap @ remaining)"
proof -
  have rebuild: "\<exists>nl gap. nl \<in> {[], [newline]} \<and> is_blank gap
        \<and> s = nl @ strip_prefix_newline raw @ end_tag @ gap @ rest"
    if "s = raw @ end_tag @ gap @ rest" "is_blank gap" for s raw gap rest
    using that strip_prefix_newline_split[of raw] by (metis append.assoc)
  show ?thesis
  proof (cases "\<exists>p. find_real_thinking_start_tag txt = Some p \<and> is_blank (take p txt)")
    case False
    then show ?thesis
      by (auto simp: extract_thinking_from_complete_text_def split: option.splits)
  next
    case True
    then obtain p where p: "find_real_thinking_start_tag txt = Some p" "is_blank (take p txt)" by blast
    let ?after = "drop (p + 10) txt"
    have whole: "txt = take p txt @ start_tag @ ?after"
      using match_at_decomp find_real_start_tag_Some[OF p(1)] by (metis tag_lengths(1))
    consider (e1) e where "find_real_thinking_end_tag ?after = Some e"
      | (e2) e where "find_real_thinking_end_tag ?after = None"
          "find_real_thinking_end_tag_at_buffer_end ?after = Some e"
      | (e3) "find_real_thinking_end_tag ?after = None"
          "find_real_thinking_end_tag_at_buffer_end ?after = None"
      by (cases "find_real_thinking_end_tag ?after";
          cases "find_real_thinking_end_tag_at_buffer_end ?after") auto
    then show ?thesis
    proof cases
      case e1
      then have "match_at end_tag ?after e"
        by (auto dest: find_real_end_tag_Some simp: end_tag_here_def)
      from strip_len_split[OF this] rebuild
      obtain nl gap where "nl \<in> {[], [newline]}" "is_blank gap"
        "?after = nl @ strip_prefix_newline (take e ?after) @ end_tag @ gap
            @ drop (e + thinking_end_tag_strip_len ?after e) ?after" by metis
      with whole p e1 show ?thesis
        unfolding extract_thinking_from_complete_text_def
        by (simp add: Let_def) (metis append_Nil)
    next
      case e2
      let ?gap = "drop (e + 11) ?after"
      from find_real_end_tag_at_end_Some[OF e2(2)]
      have "?after = take e ?after @ end_tag @ ?gap @ trim_start ?gap" "is_blank ?gap"
        using match_at_decomp by (metis tag_lengths(2) trim_start_gap, simp)
      with rebuild obtain nl gap where "nl \<in> {[], [newline]}" "is_blank gap"
        "?after = nl @ strip_prefix_newline (take e ?after) @ end_tag @ gap @ trim_start ?gap"
        by metis
      with whole p e2 show ?thesis
        unfolding extract_thinking_from_complete_text_def
        by (simp add: Let_def) (metis append_Nil)
    next
      case e3
      with p show ?thesis by (simp add: extract_thinking_from_complete_text_def)
    qed
  qed
qed

text \<open>While a reply streams, the search for the end of the thinking never revises a decision: an
  end tag found in the buffered text is found at the same place whatever arrives later, and when
  the buffer decides nothing, an end tag that later text completes starts after the
  \<open></thinking>\<close>-plus-two-bytes prefix length that the streaming loop sends out, so no byte of the
  tag has been emitted as thinking.\<close>

lemma thinking_end_tag_decision_stable:
  "case find_real_thinking_end_tag buffer of
     Some pos \<Rightarrow> find_real_thinking_end_tag (buffer @ more) = Some pos
   | None \<Rightarrow> (case find_real_thinking_end_tag (buffer @ more) of
               Some pos \<Rightarrow> find_char_boundary buffer (length buffer - length (end_tag @ [newline, newline])) \<le> pos
             | None \<Rightarrow> True)"
proof (cases "find_real_thinking_end_tag buffer")
  case (Some pos)
  then show ?thesis
    by (simp add: find_real_thinking_end_tag_def end_tag_from_append)
next
  case None
  show ?thesis
  proof (cases "find_real_thinking_end_tag (buffer @ more)")
    case (Some pos)
    with None have "length buffer < pos + 13"
      unfolding find_real_thinking_end_tag_def by (rule end_tag_from_append_None)
    moreover have "find_char_boundary buffer (length buffer - 13) \<le> length buffer - 13"
      using find_char_boundary_min[of buffer "length buffer - 13"] by simp
    ultimately show ?thesis
      using None Some by simp
  qed (simp add: None)
qed

end
