(* ===== verification/RepeatGuard.thy ===== *)
theory RepeatGuard
  imports RustStr
begin

text \<open>
  The guard against replies that degenerate into one stray token repeated line after line
  (\<open>src/anthropic/stream.rs\<close>): \<open>collapse_stray_token_floods\<close> on a complete text, and
  \<open>repeat_guard_filter\<close>, which does the same on the chunks of a stream with its counters kept
  between chunks (the three \<open>repeat_guard_*\<close> fields of \<open>StreamContext\<close>).  The streaming filter is
  proved equal to the batch function when the chunks end at line ends, and shown to differ
  when a token is split between two chunks.
\<close>

definition stray_invoke_tokens :: "string list" where
  "stray_invoke_tokens = [''call'', ''count'', ''card'']"

definition repeat_guard_trip_threshold :: nat where
  "repeat_guard_trip_threshold = 32"

section \<open>A complete text\<close>

text \<open>The loop over the lines; the result is the offset \<open>cut_at\<close>.\<close>

fun collapse_loop :: "string list \<Rightarrow> string \<Rightarrow> nat \<Rightarrow> nat \<Rightarrow> nat option" where
  "collapse_loop [] last_line run offset = None"
| "collapse_loop (segment # segments) last_line run offset =
     (let line = trim segment in
      if line \<in> set stray_invoke_tokens then
        let run = (if line = last_line then run + 1 else 1) in
        if repeat_guard_trip_threshold \<le> run then Some offset
        else collapse_loop segments line run (offset + length segment)
      else if line \<noteq> [] then collapse_loop segments line 0 (offset + length segment)
      else collapse_loop segments last_line run (offset + length segment))"

definition stray_token_cut :: "string \<Rightarrow> nat option" where
  "stray_token_cut s = collapse_loop (split_inclusive newline s) [] 0 0"

definition collapse_stray_token_floods :: "string \<Rightarrow> string" where
  "collapse_stray_token_floods s =
     (case stray_token_cut s of Some pos \<Rightarrow> take pos s | None \<Rightarrow> s)"

text \<open>The result is owned exactly when a cut was made.\<close>

definition stray_token_flood_detected :: "string \<Rightarrow> bool" where
  "stray_token_flood_detected s = (stray_token_cut s \<noteq> None)"

section \<open>The chunks of a stream\<close>

record repeat_guard =
  guard_last_line :: string
  guard_run :: nat
  guard_tripped :: bool

definition new_repeat_guard :: repeat_guard where
  "new_repeat_guard = \<lparr>guard_last_line = [], guard_run = 0, guard_tripped = False\<rparr>"

fun guard_loop :: "repeat_guard \<Rightarrow> string list \<Rightarrow> string \<Rightarrow> repeat_guard \<times> string" where
  "guard_loop g [] kept = (g, kept)"
| "guard_loop g (segment # segments) kept =
     (let line = trim segment in
      if line \<in> set stray_invoke_tokens then
        let g = (if line = guard_last_line g then g\<lparr>guard_run := guard_run g + 1\<rparr>
                 else g\<lparr>guard_last_line := line, guard_run := 1\<rparr>) in
        if repeat_guard_trip_threshold \<le> guard_run g then (g\<lparr>guard_tripped := True\<rparr>, kept)
        else guard_loop g segments (kept @ segment)
      else
        let g = (if line \<noteq> [] then g\<lparr>guard_last_line := line, guard_run := 0\<rparr> else g) in
        guard_loop g segments (kept @ segment))"

definition repeat_guard_filter :: "repeat_guard \<Rightarrow> string \<Rightarrow> repeat_guard \<times> string" where
  "repeat_guard_filter g s =
     (if guard_tripped g then (g, []) else guard_loop g (split_inclusive newline s) [])"

text \<open>A whole stream of chunks: the state afterwards and the text that was let through.\<close>

fun guard_chunks :: "repeat_guard \<Rightarrow> string list \<Rightarrow> repeat_guard \<times> string" where
  "guard_chunks g [] = (g, [])"
| "guard_chunks g (c # cs) =
     (let (g, kept) = repeat_guard_filter g c; (g, rest) = guard_chunks g cs in (g, kept @ rest))"

section \<open>The two agree\<close>

lemma guard_loop_kept: "guard_loop g segs kept = (fst (guard_loop g segs []), kept @ snd (guard_loop g segs []))"
proof (induction segs arbitrary: g kept)
  case (Cons s segs)
  show ?case
    by (simp add: Let_def) (metis Cons.IH append.assoc fst_conv snd_conv)
qed simp

lemma guard_loop_append:
  assumes "\<not> guard_tripped g"
  shows "guard_loop g (xs @ ys) kept =
     (let (g', k) = guard_loop g xs kept in if guard_tripped g' then (g', k) else guard_loop g' ys k)"
  using assms
  by (induction g xs kept rule: guard_loop.induct) (auto simp: Let_def split: prod.splits if_splits)

lemma repeat_guard_filter_append:
  assumes "a = [] \<or> last a = newline"
  shows "repeat_guard_filter g (a @ b) =
     (let (g1, k1) = repeat_guard_filter g a; (g2, k2) = repeat_guard_filter g1 b in (g2, k1 @ k2))"
proof (cases "guard_tripped g")
  case False
  obtain g1 k1 where a: "guard_loop g (split_inclusive newline a) [] = (g1, k1)" by force
  show ?thesis
    using assms False a guard_loop_kept[of g1 "split_inclusive newline b" k1]
    by (auto simp: repeat_guard_filter_def split_inclusive_append guard_loop_append split: prod.splits)
qed (simp add: repeat_guard_filter_def)

lemma guard_chunks_concat:
  "\<forall>c \<in> set chunks. c = [] \<or> last c = newline \<Longrightarrow>
     guard_chunks g (chunks @ [rest]) = repeat_guard_filter g (concat chunks @ rest)"
proof (induction chunks arbitrary: g)
  case Nil
  then show ?case by (auto split: prod.splits)
next
  case (Cons c chunks)
  then show ?case
    by (auto simp: repeat_guard_filter_append split: prod.splits)
qed

text \<open>\<open>seen\<close> is the text in front of the segments; \<open>offset\<close> is its length.\<close>

lemma guard_loop_collapse:
  "\<not> guard_tripped g \<Longrightarrow>
   (case collapse_loop segs (guard_last_line g) (guard_run g) (length seen) of
      Some pos \<Rightarrow> guard_tripped (fst (guard_loop g segs seen))
        \<and> snd (guard_loop g segs seen) = take pos (seen @ concat segs)
    | None \<Rightarrow> \<not> guard_tripped (fst (guard_loop g segs seen))
        \<and> snd (guard_loop g segs seen) = seen @ concat segs)"
proof (induction segs arbitrary: g seen)
  case (Cons s segs)
  let ?line = "trim s"
  show ?case
  proof (cases "?line \<in> set stray_invoke_tokens")
    case True
    define h where "h = (if ?line = guard_last_line g then g\<lparr>guard_run := guard_run g + 1\<rparr>
              else g\<lparr>guard_last_line := ?line, guard_run := 1\<rparr>)"
    have h: "guard_last_line h = ?line" "\<not> guard_tripped h"
      "(if ?line = guard_last_line g then guard_run g + 1 else 1) = guard_run h"
      using Cons.prems by (auto simp: h_def)
    have "guard_loop g (s # segs) seen =
        (if repeat_guard_trip_threshold \<le> guard_run h then (h\<lparr>guard_tripped := True\<rparr>, seen)
         else guard_loop h segs (seen @ s))"
      using True by (simp add: Let_def h_def)
    moreover have "collapse_loop (s # segs) (guard_last_line g) (guard_run g) (length seen) =
        (if repeat_guard_trip_threshold \<le> guard_run h then Some (length seen)
         else collapse_loop segs (guard_last_line h) (guard_run h) (length (seen @ s)))"
      using True h by (simp add: Let_def)
    ultimately show ?thesis
      using Cons.IH[OF h(2), of "seen @ s"]
      by (simp del: guard_loop.simps collapse_loop.simps split: option.splits)
  next
    case False
    define h where "h = (if ?line \<noteq> [] then g\<lparr>guard_last_line := ?line, guard_run := 0\<rparr> else g)"
    have h: "\<not> guard_tripped h" using Cons.prems by (auto simp: h_def)
    have "guard_loop g (s # segs) seen = guard_loop h segs (seen @ s)"
      using False by (simp add: Let_def h_def)
    moreover have "collapse_loop (s # segs) (guard_last_line g) (guard_run g) (length seen) =
        collapse_loop segs (guard_last_line h) (guard_run h) (length (seen @ s))"
      using False by (simp add: Let_def h_def)
    ultimately show ?thesis
      using Cons.IH[OF h, of "seen @ s"]
      by (simp del: guard_loop.simps collapse_loop.simps split: option.splits)
  qed
qed simp

lemma repeat_guard_filter_new:
  "repeat_guard_filter new_repeat_guard s
     = (fst (repeat_guard_filter new_repeat_guard s), collapse_stray_token_floods s)
   \<and> (guard_tripped (fst (repeat_guard_filter new_repeat_guard s)) \<longleftrightarrow> stray_token_flood_detected s)"
  using guard_loop_collapse[of new_repeat_guard "split_inclusive newline s" "[]"]
  by (auto simp: repeat_guard_filter_def new_repeat_guard_def collapse_stray_token_floods_def
      stray_token_flood_detected_def stray_token_cut_def prod_eq_iff split: option.splits)

text \<open>The streaming guard is the batch guard: on any chunks that end at line ends, followed by one
  more chunk of any form, it lets through exactly the text that the batch function keeps of the
  whole, and trips exactly when the batch function detects a flood.\<close>

lemma repeat_guard_streaming_eq_batch:
  assumes "\<forall>c \<in> set chunks. c = [] \<or> last c = newline"
  shows "snd (guard_chunks new_repeat_guard (chunks @ [rest]))
         = collapse_stray_token_floods (concat chunks @ rest)
     \<and> (guard_tripped (fst (guard_chunks new_repeat_guard (chunks @ [rest])))
         \<longleftrightarrow> stray_token_flood_detected (concat chunks @ rest))"
  using assms repeat_guard_filter_new[of "concat chunks @ rest"]
  by (simp add: guard_chunks_concat prod_eq_iff)

lemma repeat_guard_streaming_eq_batch_witness:
  "snd (guard_chunks new_repeat_guard (replicate 40 (''call'' @ [newline]) @ [''end'']))
     = concat (replicate 31 (''call'' @ [newline]))
   \<and> guard_tripped (fst (guard_chunks new_repeat_guard (replicate 40 (''call'' @ [newline]) @ [''end''])))"
proof -
  have "\<forall>c \<in> set (replicate 40 (''call'' @ [newline])). c = [] \<or> last c = newline"
    by simp
  moreover have "collapse_stray_token_floods (concat (replicate 40 (''call'' @ [newline])) @ ''end'')
      = concat (replicate 31 (''call'' @ [newline]))"
    "stray_token_flood_detected (concat (replicate 40 (''call'' @ [newline])) @ ''end'')"
    by code_simp+
  ultimately show ?thesis
    using repeat_guard_streaming_eq_batch[of "replicate 40 (''call'' @ [newline])" "''end''"] by simp
qed

text \<open>The hypothesis matters: when every line \<open>call\<close> arrives as \<open>ca\<close> and \<open>ll\<close>, the guard never
  counts it, while the batch function cuts the same text.\<close>

lemma split_token_evades_guard:
  "\<not> guard_tripped (fst (guard_chunks new_repeat_guard
       (concat (replicate 40 [''ca'', ''ll'' @ [newline]]))))
   \<and> stray_token_flood_detected (concat (concat (replicate 40 [''ca'', ''ll'' @ [newline]])))"
  by code_simp

end
