(* ===== verification/XmlLeakFilter.thy ===== *)
theory XmlLeakFilter
  imports RustStr
begin

text \<open>
  The Markdown code tracker and the filter that removes literal \<open><tool_use ...>...</tool_use>\<close>
  blocks from the text of a reply (\<open>src/kiro/model/events/assistant.rs\<close>).  The tracker follows
  fences, indented code and inline code of the text already emitted; the filter keeps back the end
  of a chunk that may be the start of such a block.  The main result is that the filter is
  independent of how the text is cut into chunks.  The code walks over characters; the models
  walk over bytes, which comes to the same because every character it looks at is ASCII and no
  byte of a longer character is.
\<close>

section \<open>The code tracker\<close>

record code_tracker =
  ct_fence :: "(char \<times> nat) option"
  ct_line :: string
  inline_ticks :: nat

definition new_tracker :: code_tracker where
  "new_tracker = \<lparr>ct_fence = None, ct_line = [], inline_ticks = 0\<rparr>"

definition backtick :: char where "backtick = CHR 0x60"
definition backslash :: char where "backslash = CHR 0x5C"

definition fence_marker :: "string \<Rightarrow> (char \<times> nat \<times> string) option" where
  "fence_marker line =
     (case trim_start line of
        [] \<Rightarrow> None
      | c # cs \<Rightarrow>
          if c \<noteq> backtick \<and> c \<noteq> CHR ''~'' then None
          else
            let trimmed = c # cs; n = length (takeWhile (\<lambda>x. x = c) trimmed) in
            if n < 3 then None
            else
              let rest = drop n trimmed in
              if c = backtick \<and> backtick \<in> set rest then None else Some (c, n, rest))"

function scan_inline_ticks :: "nat \<Rightarrow> string \<Rightarrow> nat" where
  "scan_inline_ticks opened [] = opened"
| "scan_inline_ticks opened (c # cs) =
     (if c = backslash \<and> opened = 0 then scan_inline_ticks opened (drop 1 cs)
      else if c \<noteq> backtick then scan_inline_ticks opened cs
      else
        let more_ticks = takeWhile (\<lambda>x. x = backtick) cs;
            n = 1 + length more_ticks;
            opened = (if opened = 0 then n else if n = opened then 0 else opened)
        in scan_inline_ticks opened (drop (length more_ticks) cs))"
  by pat_completeness auto
termination by (relation "measure (\<lambda>(_, s). length s)") auto

definition strip_cr :: "string \<Rightarrow> string" where
  "strip_cr line = (if line \<noteq> [] \<and> last line = CHR 0x0D then butlast line else line)"

definition finish_line :: "code_tracker \<Rightarrow> string \<Rightarrow> code_tracker" where
  "finish_line t line =
     (let line = strip_cr line in
      case ct_fence t of
        Some (fc, flen) \<Rightarrow>
          (case fence_marker line of
             Some (c, n, rest) \<Rightarrow>
               if c = fc \<and> flen \<le> n \<and> is_blank rest then t\<lparr>ct_fence := None\<rparr> else t
           | None \<Rightarrow> t)
      | None \<Rightarrow>
          (case fence_marker line of
             Some (c, n, _) \<Rightarrow> t\<lparr>ct_fence := Some (c, n), inline_ticks := 0\<rparr>
           | None \<Rightarrow>
               if is_blank line then t\<lparr>inline_ticks := 0\<rparr>
               else t\<lparr>inline_ticks := scan_inline_ticks (inline_ticks t) line\<rparr>))"

fun advance :: "code_tracker \<Rightarrow> string \<Rightarrow> code_tracker" where
  "advance t [] = t"
| "advance t (ch # cs) =
     (if ch = newline then advance (finish_line (t\<lparr>ct_line := []\<rparr>) (ct_line t)) cs
      else advance (t\<lparr>ct_line := ct_line t @ [ch]\<rparr>) cs)"

definition in_code :: "code_tracker \<Rightarrow> bool" where
  "in_code t \<longleftrightarrow>
     ct_fence t \<noteq> None
     \<or> starts_with (ct_line t) ''    '' \<or> starts_with (ct_line t) [CHR 0x09]
     \<or> 0 < scan_inline_ticks (inline_ticks t) (ct_line t)"

definition at_line_start :: "code_tracker \<Rightarrow> bool" where
  "at_line_start t \<longleftrightarrow> ct_line t = []"

lemma advance_append [simp]: "advance t (a @ b) = advance (advance t a) b"
  by (induction t a rule: advance.induct) auto

section \<open>The filter\<close>

definition tool_use_xml_prefix :: string where "tool_use_xml_prefix = ''<tool_use''"
definition tool_use_xml_close :: string where "tool_use_xml_close = ''</tool_use>''"
definition max_tool_use_hold_bytes :: nat where "max_tool_use_hold_bytes = 65536"

lemma tool_use_xml_lengths [simp]:
  "length tool_use_xml_prefix = 9" "length tool_use_xml_close = 11"
  "tool_use_xml_prefix \<noteq> []" "tool_use_xml_close \<noteq> []"
  by (auto simp: tool_use_xml_prefix_def tool_use_xml_close_def)

datatype tool_use_tag = Keep | Strip nat | Wait

text \<open>The first character is white space.\<close>

definition starts_with_whitespace :: "string \<Rightarrow> bool" where
  "starts_with_whitespace s \<longleftrightarrow> list_ex (starts_with s) whitespace_encodings"

definition classify :: "code_tracker \<Rightarrow> string \<Rightarrow> bool \<Rightarrow> tool_use_tag" where
  "classify code tail at_end =
     (if in_code code then Keep
      else
        let after = drop (length tool_use_xml_prefix) tail in
        if after = [] then (if at_end then Keep else Wait)
        else if \<not> starts_with_whitespace after then Keep
        else (case str_find ''>'' after of
          None \<Rightarrow>
            if at_end \<or> max_tool_use_hold_bytes < length tail then Keep else Wait
        | Some gt \<Rightarrow>
            if is_blank (take gt after) then Keep
            else
              let body_start = length tool_use_xml_prefix + gt + 1 in
              (case str_find tool_use_xml_close (drop body_start tail) of
                 Some close \<Rightarrow> Strip (body_start + close + length tool_use_xml_close)
               | None \<Rightarrow>
                   if at_end \<or> max_tool_use_hold_bytes < length tail then Keep else Wait)))"

text \<open>The loop \<open>for len in (1..=max).rev()\<close>.\<close>

fun longest_from :: "nat \<Rightarrow> string \<Rightarrow> string \<Rightarrow> nat" where
  "longest_from 0 s needle = 0"
| "longest_from (Suc n) s needle =
     (if is_char_boundary s (length s - Suc n) \<and> starts_with needle (drop (length s - Suc n) s)
      then Suc n else longest_from n s needle)"

definition longest_prefix_suffix :: "string \<Rightarrow> string \<Rightarrow> nat" where
  "longest_prefix_suffix s needle = longest_from (min (length s) (length needle - 1)) s needle"

lemma classify_Strip_pos: "classify code tail at_end = Strip e \<Longrightarrow> 0 < e"
  by (auto simp: classify_def Let_def split: if_splits option.splits)

text \<open>The state of the loop: the text not yet looked at and what was put out; the result is the
  tracker, the output and the new buffer.\<close>

function drain_loop :: "code_tracker \<Rightarrow> string \<Rightarrow> bool \<Rightarrow> string \<Rightarrow> code_tracker \<times> string \<times> string" where
  "drain_loop code rest at_end out =
     (case str_find tool_use_xml_prefix rest of
        None \<Rightarrow>
          let keep = (if at_end then 0 else longest_prefix_suffix rest tool_use_xml_prefix);
              emit = take (length rest - keep) rest
          in (advance code emit, out @ emit, drop (length rest - keep) rest)
      | Some start \<Rightarrow>
          let before = take start rest;
              code = advance code before;
              out = out @ before;
              tail = drop start rest
          in (case classify code tail at_end of
               Strip e \<Rightarrow> drain_loop code (drop e tail) at_end out
             | Keep \<Rightarrow>
                 let lit = take (length tool_use_xml_prefix) tail
                 in drain_loop (advance code lit) (drop (length tool_use_xml_prefix) tail) at_end (out @ lit)
             | Wait \<Rightarrow> (code, out, tail)))"
  by pat_completeness auto
termination
proof (relation "measure (\<lambda>(_, rest, _, _). length rest)", goal_cases)
  case (2 code rest at_end out start)
  then have "start < length rest"
    using find_from_less[of tool_use_xml_prefix rest 0 start] by (simp add: find_from_0)
  with 2 show ?case by simp
next
  case (3 code rest at_end out start before code' out' tail e)
  then have "start < length rest" "0 < e"
    using find_from_less[of tool_use_xml_prefix rest 0 start] classify_Strip_pos
    by (auto simp: find_from_0)
  with 3 show ?case by simp
qed simp

declare drain_loop.simps [simp del]

record leak_filter =
  lf_buffer :: string
  lf_code :: code_tracker

definition new_leak_filter :: leak_filter where
  "new_leak_filter = \<lparr>lf_buffer = [], lf_code = new_tracker\<rparr>"

definition leak_drain :: "leak_filter \<Rightarrow> bool \<Rightarrow> leak_filter \<times> string" where
  "leak_drain f at_end =
     (let (code, out, buf) = drain_loop (lf_code f) (lf_buffer f) at_end []
      in (\<lparr>lf_buffer = buf, lf_code = code\<rparr>, out))"

definition leak_filter :: "leak_filter \<Rightarrow> string \<Rightarrow> leak_filter \<times> string" where
  "leak_filter f content = leak_drain (f\<lparr>lf_buffer := lf_buffer f @ content\<rparr>) False"

definition leak_finish :: "leak_filter \<Rightarrow> leak_filter \<times> string" where
  "leak_finish f = leak_drain f True"

definition strip_tool_use_xml_leaks :: "string \<Rightarrow> string" where
  "strip_tool_use_xml_leaks content =
     (let (f, out) = leak_filter new_leak_filter content in out @ snd (leak_finish f))"

section \<open>Independence of the chunking\<close>

text \<open>A byte sequence that can follow complete characters: it does not start inside one.  Every Rust
  string has this property.\<close>

definition char_aligned :: "string \<Rightarrow> bool" where
  "char_aligned s \<longleftrightarrow> s = [] \<or> \<not> is_continuation (hd s)"

lemma whitespace_encodings_tl: "w \<in> set whitespace_encodings \<Longrightarrow> w \<noteq> [] \<and> (\<forall>c \<in> set (tl w). is_continuation c)"
proof -
  have "list_all (\<lambda>w. w \<noteq> [] \<and> list_all is_continuation (tl w)) whitespace_encodings"
    by code_simp
  then show "w \<in> set whitespace_encodings \<Longrightarrow> ?thesis"
    by (auto simp: list_all_iff)
qed

lemma starts_with_whitespace_append:
  assumes "s \<noteq> []" "char_aligned nxt"
  shows "starts_with_whitespace (s @ nxt) = starts_with_whitespace s"
proof
  assume "starts_with_whitespace (s @ nxt)"
  then obtain w where w: "w \<in> set whitespace_encodings" "starts_with (s @ nxt) w"
    by (auto simp: starts_with_whitespace_def list_ex_iff)
  have "length w \<le> length s"
  proof (rule ccontr)
    assume "\<not> length w \<le> length s"
    with w(2) obtain u where u: "w = s @ u" "u \<noteq> []" "starts_with nxt u"
      by (auto simp: starts_with_iff append_eq_append_conv2)
    then have "hd nxt = hd u" "hd u \<in> set (tl w)"
      using assms(1) by (auto simp: starts_with_iff)
    with whitespace_encodings_tl[OF w(1)] u assms(2) show False
      by (auto simp: char_aligned_def starts_with_iff)
  qed
  with w starts_with_extend_iff[of w s nxt] show "starts_with_whitespace s"
    by (auto simp: starts_with_whitespace_def list_ex_iff)
qed (auto simp: starts_with_whitespace_def list_ex_iff intro: starts_with_extend)

lemma str_find_append_Some: "str_find p s = Some i \<Longrightarrow> p \<noteq> [] \<Longrightarrow> str_find p (s @ t) = Some i"
  using find_from_append_Some[of p s 0 i t] by (simp add: find_from_0)

lemma str_find_length: "str_find p s = Some i \<Longrightarrow> p \<noteq> [] \<Longrightarrow> i + length p \<le> length s"
  using find_from_Some[of p s 0 i] by (simp add: find_from_0)

lemma classify_append:
  assumes "9 \<le> length tail" "length tail \<le> max_tool_use_hold_bytes" "char_aligned nxt"
    and "classify code tail False \<noteq> Wait"
  shows "classify code (tail @ nxt) e = classify code tail False"
    "classify code tail False = Strip n \<Longrightarrow> n \<le> length tail"
proof -
  let ?after = "drop 9 tail"
  have "classify code (tail @ nxt) e = classify code tail False
    \<and> (classify code tail False = Strip n \<longrightarrow> n \<le> length tail)"
  proof (cases "in_code code \<or> \<not> starts_with_whitespace ?after")
    case True
    with assms show ?thesis
      by (auto simp: classify_def Let_def starts_with_whitespace_append split: if_splits)
  next
    case False
    with assms(2,4) obtain gt where gt: "?after \<noteq> []" "str_find ''>'' ?after = Some gt"
      by (cases "?after = []"; cases "str_find ''>'' ?after") (auto simp: classify_def)
    have gt': "str_find ''>'' (?after @ nxt) = Some gt" "gt < length ?after"
      using gt str_find_length[of "''>''" ?after gt] by (simp_all add: str_find_append_Some)
    have drop9: "drop 9 (tail @ nxt) = ?after @ nxt" using assms(1) by simp
    show ?thesis
    proof (cases "is_blank (take gt ?after)")
      case True
      with False gt gt' drop9 assms show ?thesis
        by (simp add: classify_def starts_with_whitespace_append del: drop_append)
    next
      case nb: False
      with False gt assms(2,4) obtain cl where cl: "str_find tool_use_xml_close (drop (9 + gt + 1) tail) = Some cl"
        by (cases "str_find tool_use_xml_close (drop (9 + gt + 1) tail)") (auto simp: classify_def Let_def)
      have dropb: "drop (9 + gt + 1) (tail @ nxt) = drop (9 + gt + 1) tail @ nxt"
        using gt'(2) by simp
      have "cl + 11 \<le> length (drop (9 + gt + 1) tail)"
        using str_find_length[OF cl] by simp
      then show ?thesis
        using False gt gt' nb drop9 dropb cl assms str_find_append_Some[OF cl]
        by (auto simp: classify_def Let_def starts_with_whitespace_append simp del: drop_append)
    qed
  qed
  then show "classify code (tail @ nxt) e = classify code tail False"
    "classify code tail False = Strip n \<Longrightarrow> n \<le> length tail" by auto
qed

text \<open>A position of the text from which an occurrence of the prefix may still start: the rest of the
  text is a beginning of the prefix or begins with it.\<close>

definition alive :: "string \<Rightarrow> nat \<Rightarrow> bool" where
  "alive s j \<longleftrightarrow> starts_with tool_use_xml_prefix (drop j s) \<or> match_at tool_use_xml_prefix s j"

lemma alive_append: "j < length s \<Longrightarrow> alive (s @ t) j \<Longrightarrow> alive s j"
  by (auto simp: alive_def match_at_def starts_with_iff append_eq_append_conv2) metis

lemma alive_drop [simp]: "alive (drop k s) j \<longleftrightarrow> alive s (j + k)"
  by (simp add: alive_def)

lemma boundary_redundant:
  assumes "0 < n" "n \<le> length s" "starts_with tool_use_xml_prefix (drop (length s - n) s)"
  shows "is_char_boundary s (length s - n)"
proof -
  let ?i = "length s - n"
  have "?i < length s" using assms by simp
  then have "drop ?i s = s ! ?i # drop (Suc ?i) s" by (rule Cons_nth_drop_Suc[symmetric])
  with assms(3) have "s ! ?i = CHR ''<''"
    by (auto simp: tool_use_xml_prefix_def)
  then show ?thesis
    using \<open>?i < length s\<close> by (simp add: is_char_boundary_def is_continuation_def)
qed

text \<open>Only suffixes from live positions are found.\<close>

lemma longest_from_skip:
  assumes "m \<le> length s" "\<forall>j. length s - n \<le> j \<and> j < length s - m \<longrightarrow> \<not> alive s j" "m \<le> n" "n \<le> length s"
  shows "longest_from n s tool_use_xml_prefix = longest_from m s tool_use_xml_prefix"
  using assms(3,2,4)
proof (induction n)
  case (Suc n)
  show ?case
  proof (cases "m = Suc n")
    case False
    with Suc.prems have "\<not> starts_with tool_use_xml_prefix (drop (length s - Suc n) s)"
      by (auto simp: alive_def)
    moreover have "longest_from n s tool_use_xml_prefix = longest_from m s tool_use_xml_prefix"
      using Suc.prems False by (intro Suc.IH) auto
    ultimately show ?thesis by simp
  qed simp
qed simp

lemma longest_from_drop:
  "n \<le> length s - k \<Longrightarrow>
     longest_from n (drop k s) tool_use_xml_prefix = longest_from n s tool_use_xml_prefix"
proof (induction n)
  case (Suc n)
  then have "k + (length s - k - Suc n) = length s - Suc n" by simp
  then have eq: "drop (length s - Suc n - k) (drop k s) = drop (length s - Suc n) s"
    using Suc.prems by (simp add: add.commute)
  have "is_char_boundary (drop k s) (length s - Suc n - k) = is_char_boundary s (length s - Suc n)"
    if "starts_with tool_use_xml_prefix (drop (length s - Suc n) s)"
    using boundary_redundant[of "Suc n" s] boundary_redundant[of "Suc n" "drop k s"] Suc.prems that eq
    by (simp add: diff_commute add.commute[of k n])
  with Suc eq show ?case by (auto simp: diff_commute add.commute)
qed simp

lemma longest_from_Some:
  "n \<le> length s \<Longrightarrow> longest_from n s tool_use_xml_prefix \<le> n
    \<and> starts_with tool_use_xml_prefix (drop (length s - longest_from n s tool_use_xml_prefix) s)
    \<and> (\<forall>j. length s - n \<le> j \<and> j < length s - longest_from n s tool_use_xml_prefix
          \<longrightarrow> \<not> starts_with tool_use_xml_prefix (drop j s))"
proof (induction n)
  case (Suc n)
  show ?case
  proof (cases "starts_with tool_use_xml_prefix (drop (length s - Suc n) s)")
    case True
    then show ?thesis using boundary_redundant[of "Suc n" s] Suc.prems by auto
  next
    case False
    then have l: "longest_from (Suc n) s tool_use_xml_prefix = longest_from n s tool_use_xml_prefix"
      by simp
    show ?thesis
      unfolding l using Suc False
      by (auto simp: le_Suc_eq) (metis Suc_diff_Suc Suc_leI le_neq_implies_less le_less_trans not_less
          Suc_le_lessD)
  qed
qed simp

lemma longest_prefix_suffix_le: "longest_prefix_suffix s tool_use_xml_prefix \<le> length s"
  using longest_from_Some[of "min (length s) 8" s] by (simp add: longest_prefix_suffix_def)

lemma longest_prefix_suffix_dead:
  assumes "str_find tool_use_xml_prefix s = None" "j < length s - longest_prefix_suffix s tool_use_xml_prefix"
  shows "\<not> alive s j"
proof
  assume "alive s j"
  with assms(1) have pre: "starts_with tool_use_xml_prefix (drop j s)"
    using assms(2) by (auto simp: alive_def str_find_eq_None)
  have "length (drop j s) \<noteq> 9"
  proof
    assume "length (drop j s) = 9"
    moreover obtain r where r: "tool_use_xml_prefix = drop j s @ r"
      using pre by (auto simp: starts_with_iff)
    moreover have "9 = length (drop j s) + length r"
      using arg_cong[OF r, of length] by (simp only: length_append tool_use_xml_lengths)
    ultimately have "r = []" by simp
    with r have "drop j s = tool_use_xml_prefix" by simp
    then have "match_at tool_use_xml_prefix s j" by (simp add: match_at_def starts_with_iff)
    with assms show False by (auto simp: str_find_eq_None)
  qed
  with starts_with_length[OF pre] have "length s - 8 \<le> j" by simp
  with longest_from_Some[of "min (length s) 8" s] assms(2) pre show False
    by (auto simp: longest_prefix_suffix_def min_def split: if_splits)
qed


section \<open>Resuming after a chunk\<close>

lemma drain_loop_out:
  "drain_loop code rest e out =
     (let (c, o', b) = drain_loop code rest e [] in (c, out @ o', b))"
proof (induction "length rest" arbitrary: code rest out rule: less_induct)
  case less
  show ?case
  proof (cases "str_find tool_use_xml_prefix rest")
    case None
    then show ?thesis by (simp add: drain_loop.simps[of code rest] Let_def)
  next
    case (Some start)
    let ?tail = "drop start rest"
    have len: "start + 9 \<le> length rest" using str_find_length[OF Some] by simp
    let ?c = "advance code (take start rest)"
    note unf = drain_loop.simps[of code rest]
    show ?thesis
    proof (cases "classify ?c ?tail e")
      case Keep
      have "length (drop 9 ?tail) < length rest" using len by simp
      note IH = less[OF this]
      show ?thesis
        using Some Keep
          IH[of "advance ?c (take 9 ?tail)" "out @ take start rest @ take 9 ?tail"]
          IH[of "advance ?c (take 9 ?tail)" "take start rest @ take 9 ?tail"]
        by (simp add: unf Let_def split: prod.splits)
    next
      case (Strip n)
      have "length (drop n ?tail) < length rest" using len classify_Strip_pos[OF Strip] by simp
      note IH = less[OF this]
      show ?thesis
        using Some Strip IH[of ?c "out @ take start rest"] IH[of ?c "take start rest"]
        by (simp add: unf Let_def split: prod.splits)
    next
      case Wait
      with Some show ?thesis by (simp add: unf Let_def)
    qed
  qed
qed

text \<open>Text in which nothing can start is put out first, whatever follows it.\<close>

lemma drain_loop_split:
  assumes "k \<le> length s" "\<forall>j < k. \<not> alive s j"
  shows "drain_loop code s e [] = drain_loop (advance code (take k s)) (drop k s) e (take k s)"
proof (cases "str_find tool_use_xml_prefix s")
  case None
  have None': "str_find tool_use_xml_prefix (drop k s) = None"
    unfolding str_find_eq_None
  proof (intro allI impI)
    fix j assume "j \<le> length (drop k s)"
    with assms(1) have "j + k \<le> length s" by simp
    with None show "\<not> match_at tool_use_xml_prefix (drop k s) j"
      by (simp add: str_find_eq_None)
  qed
  have lps: "longest_prefix_suffix (drop k s) tool_use_xml_prefix = longest_prefix_suffix s tool_use_xml_prefix"
  proof -
    let ?m = "min (length s - k) 8"
    have "longest_from (min (length s) 8) s tool_use_xml_prefix = longest_from ?m s tool_use_xml_prefix"
      using assms by (intro longest_from_skip) auto
    also have "\<dots> = longest_from ?m (drop k s) tool_use_xml_prefix"
      by (rule longest_from_drop[symmetric]) simp
    finally show ?thesis by (simp add: longest_prefix_suffix_def)
  qed
  let ?keep = "if e then 0 else longest_prefix_suffix s tool_use_xml_prefix"
  have keep: "?keep \<le> length s - k"
    using longest_prefix_suffix_le[of "drop k s"] lps by simp
  have "L - kp = k + (L - k - kp)" if "kp \<le> L - k" "k \<le> L" for kp L :: nat
    using that by simp
  from this[OF keep assms(1)] obtain q where q: "length s - ?keep = k + q" "length (drop k s) - ?keep = q"
    by simp
  show ?thesis
  proof (cases e)
    case True
    with q None None' show ?thesis
      by (simp add: drain_loop.simps[of code s] drain_loop.simps[of "advance code (take k s)"] Let_def
          flip: advance_append)
  next
    case False
    with q None None' lps show ?thesis
      by (simp add: drain_loop.simps[of code s] drain_loop.simps[of "advance code (take k s)"] Let_def
          take_add add.commute[of q k])
  qed
next
  case (Some i)
  have "alive s i" using Some by (auto simp: alive_def str_find_eq_Some)
  with assms(2) have "k \<le> i" by (meson not_le)
  then have i: "i = k + (i - k)" by simp
  have Some': "str_find tool_use_xml_prefix (drop k s) = Some (i - k)"
    using Some \<open>k \<le> i\<close> by (auto simp: str_find_eq_Some)
  have "take i s = take k s @ take (i - k) (drop k s)"
    by (subst i) (rule take_add)
  then show ?thesis
    using Some Some' \<open>k \<le> i\<close>
    by (simp add: drain_loop.simps[of code s] drain_loop.simps[of "advance code (take k s)"] Let_def
        split: tool_use_tag.split)
qed

text \<open>Looking at a chunk and then at the rest is looking at both together.\<close>

lemma drain_loop_resume:
  assumes "drain_loop code rest False [] = (c', o1, b)"
    and "length rest \<le> max_tool_use_hold_bytes" "char_aligned nxt"
  shows "drain_loop code (rest @ nxt) e [] =
     (let (c2, o2, b2) = drain_loop c' (b @ nxt) e [] in (c2, o1 @ o2, b2))"
  using assms(1,2)
proof (induction "length rest" arbitrary: code rest c' o1 b rule: less_induct)
  case less
  show ?case
  proof (cases "str_find tool_use_xml_prefix rest")
    case None
    let ?k = "length rest - longest_prefix_suffix rest tool_use_xml_prefix"
    have res: "c' = advance code (take ?k rest)" "o1 = take ?k rest" "b = drop ?k rest"
      using less.prems(1) None by (auto simp: drain_loop.simps[of code rest] Let_def)
    have "\<forall>j < ?k. \<not> alive (rest @ nxt) j"
      using longest_prefix_suffix_dead[OF None] alive_append[of _ rest nxt] by fastforce
    from drain_loop_split[OF _ this, of code e] show ?thesis
      by (simp add: res drain_loop_out[of _ _ _ "take ?k rest"])
  next
    case (Some start)
    let ?tail = "drop start rest" and ?c = "advance code (take start rest)"
    have len: "start + 9 \<le> length rest" using str_find_length[OF Some] by simp
    have Some': "str_find tool_use_xml_prefix (rest @ nxt) = Some start"
      using Some by (simp add: str_find_append_Some)
    have tail': "drop start (rest @ nxt) = ?tail @ nxt" "take start (rest @ nxt) = take start rest"
      using len by simp_all
    note unf = drain_loop.simps[of code rest] drain_loop.simps[of code "rest @ nxt"]
    note cl = classify_append(1)[where tail = ?tail and nxt = nxt and code = ?c and e = e, OF _ _ assms(3)]
      classify_append(2)[where tail = ?tail and code = ?c, OF _ _ assms(3)]
    show ?thesis
    proof (cases "classify ?c ?tail False")
      case Wait
      have "\<forall>j < start. \<not> alive (rest @ nxt) j"
      proof (intro allI impI notI)
        fix j assume "j < start" "alive (rest @ nxt) j"
        moreover from this have "alive rest j" using len by (auto intro: alive_append)
        ultimately show False
          using Some len by (auto simp: alive_def str_find_eq_Some dest!: starts_with_length)
      qed
      from drain_loop_split[OF _ this, of code e] less.prems(1) Some Wait len show ?thesis
        by (auto simp: drain_loop.simps[of code rest] Let_def drain_loop_out[of _ _ _ "take start rest"])
    next
      case Keep
      have "length (drop 9 ?tail) < length rest" "length (drop 9 ?tail) \<le> max_tool_use_hold_bytes"
        using len less.prems(2) by simp_all
      moreover obtain c1 p1 b1 where d:
        "drain_loop (advance ?c (take 9 ?tail)) (drop 9 ?tail) False [] = (c1, p1, b1)"
        by (metis prod_cases3)
      ultimately have IH: "drain_loop (advance ?c (take 9 ?tail)) (drop 9 ?tail @ nxt) e [] =
          (let (c2, o2, b2) = drain_loop c1 (b1 @ nxt) e [] in (c2, p1 @ o2, b2))"
        by (intro less.hyps)
      have keep': "classify ?c (?tail @ nxt) e = Keep"
        using cl Keep len less.prems(2) by simp
      have nine: "take 9 (?tail @ nxt) = take 9 ?tail" "drop 9 (?tail @ nxt) = drop 9 ?tail @ nxt"
        using len by simp_all
      have "c' = c1" "b = b1" "o1 = take start rest @ take 9 ?tail @ p1"
        using less.prems(1) Some Keep d
        by (simp_all add: unf Let_def drain_loop_out[of _ _ _ "take start rest @ take 9 ?tail"])
      then show ?thesis
        using Some' tail' keep' nine IH
        by (simp add: unf(2) Let_def drain_loop_out[of _ _ _ "take start rest @ take 9 ?tail"]
            split: prod.splits del: drop_append take_append)
    next
      case (Strip n)
      have n: "0 < n" "n \<le> length ?tail" "classify ?c (?tail @ nxt) e = Strip n"
        using cl Strip len less.prems(2) classify_Strip_pos[OF Strip] by simp_all
      have "length (drop n ?tail) < length rest" "length (drop n ?tail) \<le> max_tool_use_hold_bytes"
        using n len less.prems(2) by simp_all
      moreover obtain c1 p1 b1 where d: "drain_loop ?c (drop n ?tail) False [] = (c1, p1, b1)"
        by (metis prod_cases3)
      ultimately have IH: "drain_loop ?c (drop n ?tail @ nxt) e [] =
          (let (c2, o2, b2) = drain_loop c1 (b1 @ nxt) e [] in (c2, p1 @ o2, b2))"
        by (intro less.hyps)
      have drop_n: "drop n (?tail @ nxt) = drop n ?tail @ nxt" using n by simp
      have "c' = c1" "b = b1" "o1 = take start rest @ p1"
        using less.prems(1) Some Strip d
        by (simp_all add: unf Let_def drain_loop_out[of _ _ _ "take start rest"])
      then show ?thesis
        using Some' tail' n(3) drop_n IH
        by (simp add: unf(2) Let_def drain_loop_out[of _ _ _ "take start rest"]
            split: prod.splits del: drop_append take_append)
    qed
  qed
qed

text \<open>A stream of chunks, from a state of the filter: the final state and everything put out.\<close>

fun leak_chunks :: "leak_filter \<Rightarrow> string list \<Rightarrow> leak_filter \<times> string" where
  "leak_chunks f [] = (f, [])"
| "leak_chunks f (c # cs) =
     (let (f, out) = leak_filter f c; (f, rest) = leak_chunks f cs in (f, out @ rest))"

definition leak_stream :: "string list \<Rightarrow> string" where
  "leak_stream chunks =
     (let (f, out) = leak_chunks new_leak_filter chunks in out @ snd (leak_finish f))"

lemma leak_chunks_snoc:
  "leak_chunks f (cs @ [c]) =
     (let (f', out) = leak_chunks f cs; (f', o') = leak_filter f' c in (f', out @ o'))"
  by (induction cs arbitrary: f) (auto split: prod.splits)

lemma leak_chunks_drain:
  assumes "\<forall>c \<in> set chunks. char_aligned c" "length (concat chunks) \<le> max_tool_use_hold_bytes"
  shows "leak_chunks new_leak_filter chunks =
     (let (code, out, buf) = drain_loop new_tracker (concat chunks) False []
      in (\<lparr>lf_buffer = buf, lf_code = code\<rparr>, out))"
  using assms
proof (induction chunks rule: rev_induct)
  case Nil
  have "drain_loop new_tracker [] False [] = (new_tracker, [], [])"
    by (simp add: drain_loop.simps[of new_tracker "[]"] longest_prefix_suffix_def)
  then show ?case by (simp add: new_leak_filter_def)
next
  case (snoc c chunks)
  obtain code out buf where d: "drain_loop new_tracker (concat chunks) False [] = (code, out, buf)"
    by (metis prod_cases3)
  with snoc have IH: "leak_chunks new_leak_filter chunks = (\<lparr>lf_buffer = buf, lf_code = code\<rparr>, out)"
    by simp
  from drain_loop_resume[OF d, of c False] snoc.prems show ?case
    by (simp add: leak_chunks_snoc IH leak_filter_def leak_drain_def split: prod.splits)
qed

lemma leak_stream_drain:
  assumes "\<forall>c \<in> set chunks. char_aligned c" "length (concat chunks) \<le> max_tool_use_hold_bytes"
  shows "leak_stream chunks = fst (snd (drain_loop new_tracker (concat chunks) True []))"
proof -
  obtain code out buf where d: "drain_loop new_tracker (concat chunks) False [] = (code, out, buf)"
    by (metis prod_cases3)
  from drain_loop_resume[OF d, of "[]" True] assms(2) leak_chunks_drain[OF assms] show ?thesis
    by (simp add: d char_aligned_def leak_stream_def leak_finish_def leak_drain_def split: prod.splits)
qed

text \<open>C25: Filtering leaked \<open><tool_use>\<close> blocks out of a stream does not depend on how the upstream cuts
  the reply into chunks: for any chunks (none starts inside a character) whose total length is
  within the hold limit, the output is that of the one-shot filter on the whole text.\<close>

theorem leak_filter_chunk_independent:
  assumes "\<forall>c \<in> set chunks. char_aligned c"
    and "length (concat chunks) \<le> max_tool_use_hold_bytes"
  shows "leak_stream chunks = strip_tool_use_xml_leaks (concat chunks)"
proof -
  have "char_aligned (concat chunks)"
    using assms(1) by (induction chunks) (auto simp: char_aligned_def hd_append)
  with leak_stream_drain[of "[concat chunks]"] assms(2)
  have "leak_stream [concat chunks] = fst (snd (drain_loop new_tracker (concat chunks) True []))"
    by simp
  moreover have "leak_stream [concat chunks] = strip_tool_use_xml_leaks (concat chunks)"
    by (simp add: leak_stream_def strip_tool_use_xml_leaks_def split: prod.splits)
  ultimately show ?thesis using leak_stream_drain[OF assms] by simp
qed

text \<open>A block cut in the middle of its tags, and the explanation of the same tag in inline code.\<close>

definition leak_example :: "string list" where
  "leak_example = [''a<tool'', ''_use id=1>{}</too'', ''l_use>b `<tool_use id=2>'', ''</tool_use>`'']"

lemma leak_filter_chunk_independent_witness:
  "leak_stream leak_example = ''ab `<tool_use id=2></tool_use>`''"
proof -
  have "\<forall>c \<in> set leak_example. char_aligned c" "length (concat leak_example) \<le> max_tool_use_hold_bytes"
    by (simp_all add: leak_example_def char_aligned_def is_continuation_def max_tool_use_hold_bytes_def)
  from leak_filter_chunk_independent[OF this] show ?thesis
    by (rule trans) code_simp
qed

end
