(* ===== verification/InvokeBlock.thy ===== *)
theory InvokeBlock
  imports ThinkingTags RepeatGuard XmlLeakFilter ToolJson
begin

text \<open>
  Tool calls that the model writes as text, \<open><invoke name="...">...</invoke>\<close>
  (\<open>src/anthropic/stream.rs\<close>): the searches for the opening and closing tags, bare or with a
  namespace prefix, the strict parser of one block and the conversion of its textual arguments by
  the tool's input schema.  The loops are recursions on the search position.
\<close>

section \<open>Tags\<close>

definition is_ident_byte :: "char \<Rightarrow> bool" where
  "is_ident_byte c \<longleftrightarrow> is_ascii_alphanumeric c \<or> c = CHR ''_''"

text \<open>The loop \<open>while j > 0 && bytes[j - 1] is an identifier byte { j -= 1; }\<close>.\<close>

fun ident_left :: "string \<Rightarrow> nat \<Rightarrow> nat" where
  "ident_left bytes 0 = 0"
| "ident_left bytes (Suc j) = (if is_ident_byte (bytes ! j) then ident_left bytes j else Suc j)"

definition open_tag_lt_pos :: "string \<Rightarrow> nat \<Rightarrow> nat option" where
  "open_tag_lt_pos buffer name_pos =
     (if name_pos = 0 then None
      else
        let prev = buffer ! (name_pos - 1) in
        if prev = CHR ''<'' then Some (name_pos - 1)
        else if prev = CHR '':'' then
          let i = name_pos - 1; j = ident_left buffer i in
          if j < i \<and> 0 < j \<and> buffer ! (j - 1) = CHR ''<'' then Some (j - 1) else None
        else None)"

text \<open>The byte after the tag's name ends it.\<close>

definition name_ends :: "string \<Rightarrow> nat \<Rightarrow> bool" where
  "name_ends buffer after =
     (case byte_at buffer after of
        None \<Rightarrow> True
      | Some c \<Rightarrow> is_ascii_whitespace c \<or> c = CHR ''>'' \<or> c = CHR ''/'')"

definition invoke_name :: string where "invoke_name = ''invoke''"
definition invoke_close_name :: string where "invoke_close_name = ''invoke>''"
definition parameter_name :: string where "parameter_name = ''parameter''"
definition parameter_close_name :: string where "parameter_close_name = ''parameter>''"
definition parameter_open_name :: string where "parameter_open_name = ''parameter name='' @ [CHR 0x22]"

lemma invoke_name_lengths [simp]:
  "length invoke_name = 6" "length invoke_close_name = 7" "length parameter_name = 9"
  "length parameter_close_name = 10" "length parameter_open_name = 16"
  "invoke_name \<noteq> []" "invoke_close_name \<noteq> []" "parameter_name \<noteq> []"
  "parameter_close_name \<noteq> []" "parameter_open_name \<noteq> []"
  by (auto simp: invoke_name_def invoke_close_name_def parameter_name_def parameter_close_name_def
      parameter_open_name_def)

function invoke_start_from :: "string \<Rightarrow> nat \<Rightarrow> nat option" where
  "invoke_start_from buffer search =
     (case find_from invoke_name buffer search of
        None \<Rightarrow> None
      | Some name_pos \<Rightarrow>
          (case open_tag_lt_pos buffer name_pos of
             Some lt \<Rightarrow>
               let after = name_pos + length invoke_name;
                   has_quote_before = 0 < lt \<and> is_quote_char buffer (lt - 1)
               in if name_ends buffer after \<and> \<not> has_quote_before then Some lt
                  else invoke_start_from buffer (name_pos + length invoke_name)
           | None \<Rightarrow> invoke_start_from buffer (name_pos + length invoke_name)))"
  by pat_completeness auto
termination
  by (relation "measure (\<lambda>(buffer, search). length buffer - search)") (auto dest!: find_from_less)

definition find_invoke_start :: "string \<Rightarrow> nat option" where
  "find_invoke_start buffer = invoke_start_from buffer 0"

function next_open_from :: "string \<Rightarrow> nat \<Rightarrow> nat option" where
  "next_open_from region search =
     (case find_from invoke_name region search of
        None \<Rightarrow> None
      | Some name_pos \<Rightarrow>
          (case open_tag_lt_pos region name_pos of
             Some lt \<Rightarrow>
               if name_ends region (name_pos + length invoke_name) then Some lt
               else next_open_from region (name_pos + length invoke_name)
           | None \<Rightarrow> next_open_from region (name_pos + length invoke_name)))"
  by pat_completeness auto
termination
  by (relation "measure (\<lambda>(region, search). length region - search)") (auto dest!: find_from_less)

definition find_next_invoke_open :: "string \<Rightarrow> nat \<Rightarrow> nat option" where
  "find_next_invoke_open buffer start =
     (case str_find ''>'' (drop start buffer) of
        None \<Rightarrow> None
      | Some rel \<Rightarrow>
          let after_open = start + rel + 1
          in map_option (\<lambda>lt. after_open + lt) (next_open_from (drop after_open buffer) 0))"

text \<open>A closing tag whose name (with its closing bracket) is at \<open>name_pos\<close> of the region: the position of its
  \<open><\<close>, for \<open></name>\<close> and for \<open></prefix:name>\<close>.\<close>

definition close_tag_lt_pos :: "string \<Rightarrow> nat \<Rightarrow> nat option" where
  "close_tag_lt_pos region name_pos =
     (if 2 \<le> name_pos \<and> slice (name_pos - 2) name_pos region = ''</'' then Some (name_pos - 2)
      else if 1 \<le> name_pos \<and> region ! (name_pos - 1) = CHR '':'' then
        let j = ident_left region (name_pos - 1) in
        if 2 \<le> j \<and> slice (j - 2) j region = ''</'' then Some (j - 2) else None
      else None)"

function last_close_from :: "string \<Rightarrow> nat \<Rightarrow> nat \<Rightarrow> nat option \<Rightarrow> nat option" where
  "last_close_from region from_pos search last_found =
     (case find_from invoke_close_name region search of
        None \<Rightarrow> last_found
      | Some name_pos \<Rightarrow>
          let last_found = (if close_tag_lt_pos region name_pos \<noteq> None
                            then Some (from_pos + name_pos + length invoke_close_name) else last_found)
          in last_close_from region from_pos (name_pos + length invoke_close_name) last_found)"
  by pat_completeness auto
termination
  by (relation "measure (\<lambda>(region, _, search, _). length region - search)")
    (auto dest!: find_from_less)

definition find_last_invoke_close :: "string \<Rightarrow> nat \<Rightarrow> nat \<Rightarrow> nat option" where
  "find_last_invoke_close buffer from_pos boundary =
     (let region_end = min boundary (length buffer) in
      if region_end \<le> from_pos then None
      else last_close_from (slice from_pos region_end buffer) from_pos 0 None)"

definition find_invoke_block_end :: "string \<Rightarrow> nat \<Rightarrow> nat option" where
  "find_invoke_block_end buffer start =
     (let boundary = (case find_next_invoke_open buffer start of Some p \<Rightarrow> p | None \<Rightarrow> length buffer)
      in find_last_invoke_close buffer start boundary)"

declare invoke_start_from.simps [simp del] next_open_from.simps [simp del]
  last_close_from.simps [simp del]

section \<open>One block\<close>

definition extract_name_attr :: "string \<Rightarrow> string option" where
  "extract_name_attr tag =
     (let needle = ''name='' @ [CHR 0x22] in
      case str_find needle tag of
        None \<Rightarrow> None
      | Some rel \<Rightarrow>
          let start = rel + length needle
          in map_option (\<lambda>end_rel. slice start (start + end_rel) tag)
               (str_find [CHR 0x22] (drop start tag)))"

function next_param_open_from :: "string \<Rightarrow> nat \<Rightarrow> nat option" where
  "next_param_open_from body search =
     (case find_from parameter_open_name body search of
        None \<Rightarrow> None
      | Some kw_pos \<Rightarrow>
          (case open_tag_lt_pos body kw_pos of
             Some lt \<Rightarrow> Some lt
           | None \<Rightarrow> next_param_open_from body (kw_pos + length parameter_name)))"
  by pat_completeness auto
termination
  by (relation "measure (\<lambda>(body, search). length body - search)") (auto dest!: find_from_less)

definition find_next_param_open :: "string \<Rightarrow> nat \<Rightarrow> nat option" where
  "find_next_param_open body from_pos = next_param_open_from body from_pos"

function last_param_close_from ::
  "string \<Rightarrow> nat \<Rightarrow> nat \<Rightarrow> (nat \<times> nat) option \<Rightarrow> (nat \<times> nat) option" where
  "last_param_close_from region from_pos search last_found =
     (case find_from parameter_close_name region search of
        None \<Rightarrow> last_found
      | Some name_pos \<Rightarrow>
          let last_found = (case close_tag_lt_pos region name_pos of
                              Some lt \<Rightarrow> Some (from_pos + lt, from_pos + name_pos + length parameter_close_name)
                            | None \<Rightarrow> last_found)
          in last_param_close_from region from_pos (name_pos + length parameter_close_name) last_found)"
  by pat_completeness auto
termination
  by (relation "measure (\<lambda>(region, _, search, _). length region - search)")
    (auto dest!: find_from_less)

definition find_param_close :: "string \<Rightarrow> nat \<Rightarrow> (nat \<times> nat) option" where
  "find_param_close body from_pos =
     (let boundary = (case find_next_param_open body from_pos of Some p \<Rightarrow> p | None \<Rightarrow> length body)
      in last_param_close_from (slice from_pos boundary body) from_pos 0 None)"

declare next_param_open_from.simps [simp del] last_param_close_from.simps [simp del]

lemma last_param_close_from_end:
  "last_param_close_from region from_pos search last_found = Some (a, b) \<Longrightarrow>
     last_found = Some (a, b) \<or> from_pos < b"
proof (induction region from_pos search last_found rule: last_param_close_from.induct)
  case (1 region from_pos search last_found)
  show ?case
  proof (cases "find_from parameter_close_name region search")
    case None
    with 1(2) show ?thesis by (simp add: last_param_close_from.simps)
  next
    case (Some p)
    with 1(2) 1(1)[OF Some refl] show ?thesis
      by (subst (asm) last_param_close_from.simps) (auto split: option.splits)
  qed
qed

lemma find_param_close_end: "find_param_close body from_pos = Some (a, b) \<Longrightarrow> from_pos < b"
  by (auto simp: find_param_close_def Let_def dest: last_param_close_from_end)

text \<open>The loop over the parameters of a block.\<close>

function parse_params :: "string \<Rightarrow> nat \<Rightarrow> (string \<times> string) list \<Rightarrow> (string \<times> string) list option" where
  "parse_params inner cursor params =
     (let rest = drop cursor inner in
      case str_find ''<'' rest of
        None \<Rightarrow> if \<not> is_blank rest then None else Some params
      | Some lt_rel \<Rightarrow>
          if \<not> is_blank (take lt_rel rest) then None
          else
            let lt = cursor + lt_rel in
            (case find_from parameter_name inner lt of
               None \<Rightarrow> None
             | Some name_kw \<Rightarrow>
                 if open_tag_lt_pos inner name_kw \<noteq> Some lt then None
                 else
                   (case find_from ''>'' inner name_kw of
                      None \<Rightarrow> None
                    | Some tag_gt \<Rightarrow>
                        (case extract_name_attr (slice name_kw (tag_gt + 1) inner) of
                           None \<Rightarrow> None
                         | Some key \<Rightarrow>
                             if key = [] \<or> key \<in> set (map fst params) then None
                             else
                               let val_start = tag_gt + 1 in
                               (case find_param_close inner val_start of
                                  None \<Rightarrow> None
                                | Some (close_start, close_end) \<Rightarrow>
                                    parse_params inner close_end
                                      (params @ [(key, slice val_start close_start inner)]))))))"
  by pat_completeness auto
termination
proof (relation "measure (\<lambda>(inner, cursor, _). length inner - cursor)", goal_cases)
  case (2 inner cursor params rest lt_rel lt name_kw tag_gt key val_start pair close_start close_end)
  then have "lt_rel < length rest" "lt \<le> name_kw" "name_kw \<le> tag_gt" "val_start < close_end"
    using find_from_less[of "''<''" rest 0 lt_rel] find_from_less[of parameter_name inner lt name_kw]
      find_from_less[of "''>''" inner name_kw tag_gt] find_param_close_end
    by (auto simp: find_from_0)
  with 2 show ?case by auto
qed simp

declare parse_params.simps [simp del]

definition parse_invoke_block_strict :: "string \<Rightarrow> (string \<times> (string \<times> string) list) option" where
  "parse_invoke_block_strict block =
     (case str_find ''>'' block of
        None \<Rightarrow> None
      | Some open_end \<Rightarrow>
          (case extract_name_attr (take (open_end + 1) block) of
             None \<Rightarrow> None
           | Some tool_name \<Rightarrow>
               if tool_name = [] then None
               else
                 let body = drop (open_end + 1) block in
                 (case str_rfind ''</'' body of
                    None \<Rightarrow> None
                  | Some p \<Rightarrow> map_option (\<lambda>params. (tool_name, params)) (parse_params (take p body) 0 []))))"

section \<open>Arguments by schema\<close>

text \<open>\<open>str::parse::<i64>\<close>: an optional sign and at least one digit, in range.\<close>

fun digits_value :: "nat \<Rightarrow> string \<Rightarrow> nat option" where
  "digits_value n [] = Some n"
| "digits_value n (c # cs) =
     (case digit_value c of None \<Rightarrow> None | Some d \<Rightarrow> digits_value (10 * n + d) cs)"

definition parse_i64 :: "string \<Rightarrow> int option" where
  "parse_i64 s =
     (let negative = (s \<noteq> [] \<and> hd s = CHR ''-'');
          digits = (if s \<noteq> [] \<and> (hd s = CHR ''-'' \<or> hd s = CHR ''+'') then tl s else s)
      in if digits = [] then None
         else (case digits_value 0 digits of
                 None \<Rightarrow> None
               | Some n \<Rightarrow>
                   let i = (if negative then - int n else int n)
                   in if - (2 ^ 63) \<le> i \<and> i < 2 ^ 63 then Some i else None))"

definition ok_value :: "(string \<Rightarrow> string + json) \<Rightarrow> string \<Rightarrow> (json \<Rightarrow> bool) \<Rightarrow> json option" where
  "ok_value parse_json t pred =
     (case parse_json t of Inr v \<Rightarrow> if pred v then Some v else None | Inl _ \<Rightarrow> None)"

definition is_number :: "json \<Rightarrow> bool" where
  "is_number v = (case v of JInt _ \<Rightarrow> True | JFloat _ \<Rightarrow> True | _ \<Rightarrow> False)"

definition coerce_invoke_scalar :: "(string \<Rightarrow> string + json) \<Rightarrow> string \<Rightarrow> string \<Rightarrow> json option" where
  "coerce_invoke_scalar parse_json raw ty =
     (let t = trim raw in
      if ty = ''integer'' then map_option JInt (parse_i64 t)
      else if ty = ''number'' then ok_value parse_json t is_number
      else if ty = ''boolean'' then
        (if t = ''true'' then Some (JBool True) else if t = ''false'' then Some (JBool False) else None)
      else if ty = ''null'' then (if t = ''null'' then Some JNull else None)
      else if ty = ''array'' then ok_value parse_json t (\<lambda>v. as_array v \<noteq> None)
      else if ty = ''object'' then ok_value parse_json t (\<lambda>v. as_object v \<noteq> None)
      else None)"

text \<open>The inner function \<open>collect\<close>: whether the schema has a type, and the types it names.\<close>

definition collect_types :: "json \<Rightarrow> bool \<times> string list" where
  "collect_types schema =
     (case json_get schema ''type'' of
        Some (JString t) \<Rightarrow> (True, [t])
      | Some (JArray ts) \<Rightarrow> (True, List.map_filter as_str ts)
      | _ \<Rightarrow> (False, []))"

definition schema_branches :: "json \<Rightarrow> json list" where
  "schema_branches schema =
     concat (map (\<lambda>key. case Option.bind (json_get schema key) as_array of Some bs \<Rightarrow> bs | None \<Rightarrow> [])
               [''anyOf'', ''oneOf''])"

definition coerce_invoke_value :: "(string \<Rightarrow> string + json) \<Rightarrow> string \<Rightarrow> json \<Rightarrow> json option" where
  "coerce_invoke_value parse_json raw schema =
     (let (top_typed, types) = collect_types schema;
          branches = schema_branches schema;
          types = types @ concat (map (\<lambda>b. snd (collect_types b)) branches);
          untyped_branch = list_ex (\<lambda>b. \<not> fst (collect_types b)) branches;
          has_branches = (branches \<noteq> []);
          types = (if untyped_branch \<or> (\<not> top_typed \<and> \<not> has_branches) then types @ [''string''] else types);
          found = List.map_filter (coerce_invoke_scalar parse_json raw)
                    (filter (\<lambda>t. t \<noteq> ''string'') types);
          value = (case found of
                     v # _ \<Rightarrow> Some v
                   | [] \<Rightarrow> if ''string'' \<in> set types then Some (JString raw) else None)
      in case value of
           None \<Rightarrow> None
         | Some v \<Rightarrow>
             (case Option.bind (json_get schema ''enum'') as_array of
                Some allowed \<Rightarrow> if v \<in> set allowed then Some v else None
              | None \<Rightarrow> Some v))"

fun coerce_params_loop ::
  "(string \<Rightarrow> string + json) \<Rightarrow> json_object option \<Rightarrow> bool \<Rightarrow> (string \<times> string) list \<Rightarrow> json_object
     \<Rightarrow> json_object option" where
  "coerce_params_loop parse_json properties extra_allowed [] out = Some out"
| "coerce_params_loop parse_json properties extra_allowed ((key, raw) # params) out =
     (case (case Option.bind properties (\<lambda>p. map_of p key) of
              Some prop \<Rightarrow> coerce_invoke_value parse_json raw prop
            | None \<Rightarrow> if extra_allowed then Some (JString raw) else None) of
        None \<Rightarrow> None
      | Some value \<Rightarrow>
          coerce_params_loop parse_json properties extra_allowed params (obj_insert key value out))"

definition coerce_invoke_params ::
  "(string \<Rightarrow> string + json) \<Rightarrow> (string \<times> string) list \<Rightarrow> json \<Rightarrow> json option" where
  "coerce_invoke_params parse_json params schema =
     (let properties = (case Option.bind (json_get schema ''properties'') as_object of
                          Some p \<Rightarrow> if p \<noteq> [] then Some p else None
                        | None \<Rightarrow> None);
          extra_allowed = (case json_get schema ''additionalProperties'' of
                             Some (JBool b) \<Rightarrow> b
                           | Some (JObject _) \<Rightarrow> True
                           | _ \<Rightarrow> properties = None)
      in case coerce_params_loop parse_json properties extra_allowed params [] of
           None \<Rightarrow> None
         | Some out \<Rightarrow>
             (case Option.bind (json_get schema ''required'') as_array of
                Some required \<Rightarrow>
                  if list_ex (\<lambda>name. map_of out name = None) (List.map_filter as_str required)
                  then None else Some (JObject out)
              | None \<Rightarrow> Some (JObject out)))"

type_synonym tool_schemas = "(string \<times> json) list"

definition validate_invoke_block ::
  "(string \<Rightarrow> string + json) \<Rightarrow> tool_schemas \<Rightarrow> string \<Rightarrow> (string \<times> json) option" where
  "validate_invoke_block parse_json schemas block =
     (case parse_invoke_block_strict block of
        None \<Rightarrow> None
      | Some (name, params) \<Rightarrow>
          (case map_of schemas name of
             None \<Rightarrow> None
           | Some schema \<Rightarrow>
               map_option (\<lambda>input. (name, input)) (coerce_invoke_params parse_json params schema)))"

definition open_invoke_tag_rejected :: "tool_schemas \<Rightarrow> string \<Rightarrow> bool" where
  "open_invoke_tag_rejected schemas tail =
     (case str_find ''>'' tail of
        Some gt \<Rightarrow>
          (case extract_name_attr (take (gt + 1) tail) of
             None \<Rightarrow> True
           | Some name \<Rightarrow> map_of schemas name = None)
      | None \<Rightarrow> False)"

section \<open>What a validated block guarantees\<close>

definition json_has_type :: "string \<Rightarrow> json \<Rightarrow> bool" where
  "json_has_type t v \<longleftrightarrow>
     (t = ''string'' \<longrightarrow> as_str v \<noteq> None) \<and> (t = ''integer'' \<longrightarrow> as_i64 v \<noteq> None)
     \<and> (t = ''number'' \<longrightarrow> is_number v) \<and> (t = ''boolean'' \<longrightarrow> v \<in> {JBool True, JBool False})
     \<and> (t = ''null'' \<longrightarrow> v = JNull) \<and> (t = ''array'' \<longrightarrow> as_array v \<noteq> None)
     \<and> (t = ''object'' \<longrightarrow> as_object v \<noteq> None)"

lemma coerce_invoke_scalar_type:
  "coerce_invoke_scalar parse_json raw t = Some v \<Longrightarrow> json_has_type t v \<and> t \<noteq> ''string''"
  by (auto simp: coerce_invoke_scalar_def Let_def json_has_type_def ok_value_def parse_i64_def as_i64_def
      is_number_def split: if_splits option.splits sum.splits)

lemma coerce_invoke_value_enum:
  assumes "coerce_invoke_value parse_json raw schema = Some v"
    and "json_get schema ''enum'' = Some (JArray allowed)"
  shows "v \<in> set allowed"
  using assms by (auto simp: coerce_invoke_value_def Let_def as_array_def
      split: prod.splits option.splits if_splits)

lemma coerce_invoke_value_type:
  assumes "coerce_invoke_value parse_json raw schema = Some v"
    and "json_get schema ''type'' = Some (JString t)" "schema_branches schema = []"
  shows "json_has_type t v"
proof -
  have ty: "collect_types schema = (True, [t])"
    using assms(2) by (simp add: collect_types_def)
  show ?thesis
  proof (cases "t = ''string''")
    case True
    with assms(1,3) ty have "v = JString raw"
      by (auto simp: coerce_invoke_value_def List.map_filter_def split: option.splits if_splits)
    with True show ?thesis by (simp add: json_has_type_def as_str_def)
  next
    case False
    with assms(1,3) ty have "coerce_invoke_scalar parse_json raw t = Some v"
      by (auto simp: coerce_invoke_value_def List.map_filter_def split: option.splits if_splits)
    then show ?thesis using coerce_invoke_scalar_type by blast
  qed
qed

lemma coerce_params_loop_values:
  "coerce_params_loop parse_json properties extra params out = Some out' \<Longrightarrow>
   map_of out' k = Some v \<Longrightarrow>
     map_of out k = Some v
     \<or> (\<exists>raw. case Option.bind properties (\<lambda>p. map_of p k) of
           Some prop \<Rightarrow> coerce_invoke_value parse_json raw prop = Some v
         | None \<Rightarrow> extra \<and> v = JString raw)"
proof (induction parse_json properties extra params out arbitrary: out'
    rule: coerce_params_loop.induct)
  case (2 parse_json properties extra key raw params out)
  then obtain val where v: "(case Option.bind properties (\<lambda>p. map_of p key) of
        Some prop \<Rightarrow> coerce_invoke_value parse_json raw prop
      | None \<Rightarrow> if extra then Some (JString raw) else None) = Some val"
    by (auto split: option.splits)
  with 2(2) have "coerce_params_loop parse_json properties extra params (obj_insert key val out) = Some out'"
    by simp
  from 2(1)[OF v this 2(3)] v show ?case
    by (auto split: if_splits option.splits)
qed simp

text \<open>The schema of an argument: its entry under \<open>properties\<close>.\<close>

definition property_schema :: "json \<Rightarrow> string \<Rightarrow> json option" where
  "property_schema schema key =
     Option.bind (Option.bind (json_get schema ''properties'') as_object) (\<lambda>p. map_of p key)"

text \<open>C37: A tool call recovered from text is one the request declares, with arguments its schema
  allows: the tool has a schema, the arguments form an object with every required entry, an
  argument the schema describes has the declared type (when the type is a single name) and is
  one of the enumerated values (when there is an enumeration), and an argument it does not
  describe is a string and appears only when extra properties are allowed.\<close>

theorem validate_invoke_block_sound:
  assumes "validate_invoke_block parse_json schemas block = Some (name, input)"
  shows "\<exists>schema out. map_of schemas name = Some schema \<and> input = JObject out
    \<and> (\<forall>required. json_get schema ''required'' = Some (JArray required) \<longrightarrow>
          (\<forall>key. JString key \<in> set required \<longrightarrow> map_of out key \<noteq> None))
    \<and> (\<forall>key v. map_of out key = Some v \<longrightarrow>
         (case property_schema schema key of
            Some prop \<Rightarrow>
              (\<forall>t. json_get prop ''type'' = Some (JString t) \<and> schema_branches prop = [] \<longrightarrow> json_has_type t v)
              \<and> (\<forall>allowed. json_get prop ''enum'' = Some (JArray allowed) \<longrightarrow> v \<in> set allowed)
          | None \<Rightarrow> as_str v \<noteq> None \<and> json_get schema ''additionalProperties'' \<noteq> Some (JBool False)))"
proof -
  obtain params schema where p: "parse_invoke_block_strict block = Some (name, params)"
    "map_of schemas name = Some schema" "coerce_invoke_params parse_json params schema = Some input"
    using assms by (auto simp: validate_invoke_block_def split: option.splits)
  define properties where "properties = (case Option.bind (json_get schema ''properties'') as_object of
      Some p \<Rightarrow> if p \<noteq> [] then Some p else None | None \<Rightarrow> None)"
  define extra where "extra = (case json_get schema ''additionalProperties'' of
      Some (JBool b) \<Rightarrow> b | Some (JObject _) \<Rightarrow> True | _ \<Rightarrow> properties = None)"
  obtain out where out: "coerce_params_loop parse_json properties extra params [] = Some out"
    "input = JObject out"
    "case Option.bind (json_get schema ''required'') as_array of
       Some required \<Rightarrow> \<not> list_ex (\<lambda>name. map_of out name = None) (List.map_filter as_str required)
     | None \<Rightarrow> True"
    using p(3) unfolding coerce_invoke_params_def Let_def properties_def[symmetric] extra_def[symmetric]
    by (auto split: option.splits if_splits)
  have req: "map_of out key \<noteq> None"
    if "json_get schema ''required'' = Some (JArray required)" "JString key \<in> set required" for required key
  proof -
    have "key \<in> set (List.map_filter as_str required)"
      using that(2) by (force simp: List.map_filter_def as_str_def)
    with out(3) that(1) show ?thesis by (auto simp: list_ex_iff as_array_def)
  qed
  have described: "Option.bind properties (\<lambda>p. map_of p key) = property_schema schema key" for key
    by (cases "Option.bind (json_get schema ''properties'') as_object")
      (simp_all add: properties_def property_schema_def)
  have vals: "case property_schema schema key of
            Some prop \<Rightarrow>
              (\<forall>t. json_get prop ''type'' = Some (JString t) \<and> schema_branches prop = [] \<longrightarrow> json_has_type t v)
              \<and> (\<forall>allowed. json_get prop ''enum'' = Some (JArray allowed) \<longrightarrow> v \<in> set allowed)
          | None \<Rightarrow> as_str v \<noteq> None \<and> json_get schema ''additionalProperties'' \<noteq> Some (JBool False)"
    if "map_of out key = Some v" for key v
  proof -
    from coerce_params_loop_values[OF out(1) that] obtain raw where
      "case property_schema schema key of
         Some prop \<Rightarrow> coerce_invoke_value parse_json raw prop = Some v
       | None \<Rightarrow> extra \<and> v = JString raw" by (auto simp: described)
    then show ?thesis
      by (auto simp: coerce_invoke_value_type coerce_invoke_value_enum as_str_def extra_def
          split: option.splits)
  qed
  show ?thesis
    using p(2) out(2) req vals by (intro exI[of _ schema] exI[of _ out]) blast
qed

text \<open>An \<open>add\<close> tool with two integers, one of them required.\<close>

definition add_schema :: json where
  "add_schema = JObject
     [(''properties'', JObject [(''a'', JObject [(''type'', JString ''integer'')]),
        (''b'', JObject [(''type'', JString ''integer'')])]),
      (''required'', JArray [JString ''a''])]"

definition quoted :: "string \<Rightarrow> string" where
  "quoted s = [CHR 0x22] @ s @ [CHR 0x22]"

definition add_block :: string where
  "add_block = ''<invoke name='' @ quoted ''add'' @ ''>'' @ [newline]
     @ ''<parameter name='' @ quoted ''a'' @ ''> 17</parameter>'' @ [newline] @ ''</invoke>''"

lemma add_block_validated:
  "validate_invoke_block (\<lambda>_. Inl []) [(''add'', add_schema)] add_block
     = Some (''add'', JObject [(''a'', JInt 17)])"
  by code_simp

lemma validate_invoke_block_sound_witness:
  "\<exists>schema out. map_of [(''add'', add_schema)] ''add'' = Some schema
     \<and> JObject [(''a'', JInt 17)] = JObject out \<and> map_of out ''a'' \<noteq> None"
proof -
  from validate_invoke_block_sound[OF add_block_validated] obtain schema out where
    "map_of [(''add'', add_schema)] ''add'' = Some schema" "JObject [(''a'', JInt 17)] = JObject out"
    "\<forall>required. json_get schema ''required'' = Some (JArray required) \<longrightarrow>
          (\<forall>key. JString key \<in> set required \<longrightarrow> map_of out key \<noteq> None)"
    by blast
  then show ?thesis by (auto simp: add_schema_def json_get_def)
qed

end
