(* ===== verification/InvokeSniffer.thy ===== *)
theory InvokeSniffer
  imports InvokeBlock
begin

text \<open>
  \<open>InvokeSniffer\<close> of \<open>src/anthropic/stream.rs\<close>: text of the reply is passed on at once, except the
  tail that is, or may become, a group of tool calls written as text; such a group at the very end
  of the reply becomes tool calls, otherwise it is passed on unchanged.  The loop \<open>drain\<close> is a
  recursion whose measure is the buffered text and, after it, the group held back.  The lemmas
  show that no byte of the reply is lost or reordered, what precisely is left out for synthesized calls, and
  where these come from.
\<close>

section \<open>State\<close>

record invoke_candidate =
  cand_raw :: string
  cand_calls :: "(string \<times> json) list"

datatype sniff_output = SniffText string | SniffToolCall string json

record invoke_sniffer =
  sn_buffer :: string
  sn_code :: code_tracker
  sn_candidate :: "invoke_candidate option"
  sn_disabled :: bool

definition new_sniffer :: invoke_sniffer where
  "new_sniffer = \<lparr>sn_buffer = [], sn_code = new_tracker, sn_candidate = None, sn_disabled = False\<rparr>"

definition max_invoke_hold_bytes :: nat where
  "max_invoke_hold_bytes = 262144"

section \<open>Line starts and stray tokens\<close>

text \<open>\<open>before[..e].rfind('\n').map(|p| p + 1).unwrap_or(0)\<close>.\<close>

definition line_start_of :: "string \<Rightarrow> nat \<Rightarrow> nat" where
  "line_start_of before e = e - length (takeWhile (\<lambda>c. c \<noteq> newline) (rev (take e before)))"

text \<open>The loop that moves \<open>e\<close> back over line ends.\<close>

fun skip_line_ends :: "string \<Rightarrow> nat \<Rightarrow> nat" where
  "skip_line_ends before 0 = 0"
| "skip_line_ends before (Suc e) =
     (if before ! e = newline \<or> before ! e = CHR 0x0D then skip_line_ends before e else Suc e)"

lemma skip_line_ends_le: "skip_line_ends before e \<le> e"
  by (induction before e rule: skip_line_ends.induct) auto

lemma trim_Nil [simp]: "trim [] = []"
  using is_blank_Nil by (simp add: is_blank_def)

function strip_stray_end :: "string \<Rightarrow> nat \<Rightarrow> nat" where
  "strip_stray_end before end_pos =
     (let e = skip_line_ends before end_pos;
          line_start = line_start_of before e;
          last_line = trim (slice line_start e before)
      in if last_line \<in> set stray_invoke_tokens then
           (if line_start = 0 then 0 else strip_stray_end before line_start)
         else end_pos)"
  by pat_completeness auto
termination
proof (relation "measure (\<lambda>(_, end_pos). end_pos)", goal_cases)
  case (2 before end_pos e line_start last_line)
  have "line_start < e"
  proof (rule ccontr)
    assume "\<not> line_start < e"
    with 2 have "last_line = []" by (simp add: slice_def)
    with 2 show False by (simp add: stray_invoke_tokens_def)
  qed
  with 2 skip_line_ends_le[of before end_pos] show ?case by simp
qed simp

declare strip_stray_end.simps [simp del]

definition strip_trailing_stray_tokens :: "string \<Rightarrow> string" where
  "strip_trailing_stray_tokens before = take (strip_stray_end before (length before)) before"

definition invoke_looks_like_real_leak :: "string \<Rightarrow> bool" where
  "invoke_looks_like_real_leak before \<longleftrightarrow> before = [] \<or> last before = newline"

definition at_line_start_after :: "code_tracker \<Rightarrow> string \<Rightarrow> bool" where
  "at_line_start_after code before \<longleftrightarrow>
     (if before = [] then at_line_start code else invoke_looks_like_real_leak before)"

definition could_become_invoke_open :: "string \<Rightarrow> bool" where
  "could_become_invoke_open tail \<longleftrightarrow>
     (case tail of
        [] \<Rightarrow> False
      | c # rest \<Rightarrow>
          c = CHR ''<'' \<and> length rest \<le> 64
          \<and> (case str_find '':'' rest of
               Some colon \<Rightarrow>
                 take colon rest \<noteq> [] \<and> list_all is_ident_byte (take colon rest)
                 \<and> starts_with invoke_name (drop (colon + 1) rest)
             | None \<Rightarrow> list_all is_ident_byte rest))"

definition partial_invoke_hold_len :: "invoke_sniffer \<Rightarrow> nat" where
  "partial_invoke_hold_len s =
     (let buf = sn_buffer s in
      case str_rfind ''<'' buf of
        None \<Rightarrow> 0
      | Some lt \<Rightarrow>
          if \<not> could_become_invoke_open (drop lt buf) \<or> \<not> at_line_start_after (sn_code s) (take lt buf)
          then 0 else length buf - lt)"

section \<open>Putting text out\<close>

fun push_text :: "string \<Rightarrow> sniff_output list \<Rightarrow> sniff_output list" where
  "push_text t [] = [SniffText t]"
| "push_text t [SniffText l] = [SniffText (l @ t)]"
| "push_text t [SniffToolCall n i] = [SniffToolCall n i, SniffText t]"
| "push_text t (x # y # out) = x # push_text t (y # out)"

definition emit_text :: "string \<Rightarrow> invoke_sniffer \<Rightarrow> sniff_output list \<Rightarrow> invoke_sniffer \<times> sniff_output list" where
  "emit_text t s out =
     (if t = [] then (s, out)
      else (s\<lparr>sn_code := advance (sn_code s) t\<rparr>, push_text t out))"

definition emit_prefix :: "nat \<Rightarrow> invoke_sniffer \<Rightarrow> sniff_output list \<Rightarrow> invoke_sniffer \<times> sniff_output list" where
  "emit_prefix len s out =
     emit_text (take len (sn_buffer s)) (s\<lparr>sn_buffer := drop len (sn_buffer s)\<rparr>) out"

definition release_candidate :: "invoke_sniffer \<Rightarrow> sniff_output list \<Rightarrow> invoke_sniffer \<times> sniff_output list" where
  "release_candidate s out =
     (case sn_candidate s of
        Some candidate \<Rightarrow> emit_text (cand_raw candidate) (s\<lparr>sn_candidate := None\<rparr>) out
      | None \<Rightarrow> (s, out))"

text \<open>\<open>mem::take(&mut self.buffer)\<close> and its emission.\<close>

definition emit_rest :: "invoke_sniffer \<Rightarrow> sniff_output list \<Rightarrow> invoke_sniffer \<times> sniff_output list" where
  "emit_rest s out = emit_text (sn_buffer s) (s\<lparr>sn_buffer := []\<rparr>) out"

section \<open>The loop\<close>

text \<open>What one turn of the loop decides: to return, or to go round again.\<close>

datatype 'a turn = Return 'a | Again 'a

text \<open>The turn with a group held back.  The step to the released group is taken when the text after
  the group can not belong to it.\<close>

definition candidate_turn ::
  "(string \<Rightarrow> string + json) \<Rightarrow> tool_schemas \<Rightarrow> bool \<Rightarrow> invoke_candidate \<Rightarrow> invoke_sniffer
     \<Rightarrow> sniff_output list \<Rightarrow> (invoke_sniffer \<times> sniff_output list) turn" where
  "candidate_turn parse_json schemas at_end candidate s out =
     (let rest = sn_buffer s;
          gap_len = length rest - length (trim_start rest)
      in if gap_len = length rest then Return (s, out)
         else
           let gap_ok = (gap_len = 0 \<or> last (take gap_len rest) = newline);
               tail = drop gap_len rest;
               release = Again (release_candidate s out)
           in if \<not> gap_ok then release
              else if find_invoke_start tail = Some 0 then
                (case find_invoke_block_end tail 0 of
                   Some end_pos \<Rightarrow>
                     (case validate_invoke_block parse_json schemas (take end_pos tail) of
                        Some call \<Rightarrow>
                          Again (s\<lparr>sn_buffer := drop (gap_len + end_pos) rest,
                                   sn_candidate := Some (candidate\<lparr>
                                     cand_raw := cand_raw candidate @ take (gap_len + end_pos) rest,
                                     cand_calls := cand_calls candidate @ [call]\<rparr>)\<rparr>, out)
                      | None \<Rightarrow> release)
                 | None \<Rightarrow>
                     if \<not> at_end \<and> length tail \<le> max_invoke_hold_bytes
                        \<and> \<not> open_invoke_tag_rejected schemas tail
                     then Return (s, out) else release)
              else if \<not> at_end \<and> could_become_invoke_open tail then Return (s, out)
              else release)"

text \<open>The turn without one.\<close>

definition plain_turn ::
  "(string \<Rightarrow> string + json) \<Rightarrow> tool_schemas \<Rightarrow> bool \<Rightarrow> invoke_sniffer
     \<Rightarrow> sniff_output list \<Rightarrow> (invoke_sniffer \<times> sniff_output list) turn" where
  "plain_turn parse_json schemas at_end s out =
     (case find_invoke_start (sn_buffer s) of
        None \<Rightarrow>
          let hold = (if at_end then 0 else partial_invoke_hold_len s)
          in Return (emit_prefix (length (sn_buffer s) - hold) s out)
      | Some start \<Rightarrow>
          let before = take start (sn_buffer s);
              stripped_len = length (strip_trailing_stray_tokens before);
              stripped = take stripped_len before;
              eligible = (at_line_start_after (sn_code s) before
                          \<and> at_line_start_after (sn_code s) stripped
                          \<and> \<not> in_code (advance (sn_code s) stripped))
          in if \<not> eligible then Again (emit_prefix (start + 1) s out)
             else
               (case find_invoke_block_end (sn_buffer s) start of
                  Some end_pos \<Rightarrow>
                    (case validate_invoke_block parse_json schemas (slice start end_pos (sn_buffer s)) of
                       Some call \<Rightarrow>
                         let (s, out) = emit_prefix stripped_len s out;
                             raw = take (end_pos - stripped_len) (sn_buffer s)
                         in Again (s\<lparr>sn_buffer := drop (end_pos - stripped_len) (sn_buffer s),
                                     sn_candidate := Some \<lparr>cand_raw = raw, cand_calls = [call]\<rparr>\<rparr>, out)
                     | None \<Rightarrow> Again (emit_prefix end_pos s out))
                | None \<Rightarrow>
                    let tail = drop start (sn_buffer s) in
                    if at_end \<or> max_invoke_hold_bytes < length tail
                       \<or> open_invoke_tag_rejected schemas tail
                    then Again (emit_prefix (start + 1) s out)
                    else Return (emit_prefix stripped_len s out)))"

definition drain_turn ::
  "(string \<Rightarrow> string + json) \<Rightarrow> tool_schemas \<Rightarrow> bool \<Rightarrow> invoke_sniffer \<times> sniff_output list
     \<Rightarrow> (invoke_sniffer \<times> sniff_output list) turn" where
  "drain_turn parse_json schemas at_end so =
     (case sn_candidate (fst so) of
        Some candidate \<Rightarrow> candidate_turn parse_json schemas at_end candidate (fst so) (snd so)
      | None \<Rightarrow> plain_turn parse_json schemas at_end (fst so) (snd so))"

definition sniffer_measure :: "invoke_sniffer \<Rightarrow> nat" where
  "sniffer_measure s = 2 * length (sn_buffer s) + (if sn_candidate s = None then 0 else 1)"

section \<open>Every turn makes progress\<close>

lemma ident_left_le: "ident_left bytes j \<le> j"
  by (induction bytes j rule: ident_left.induct) auto

lemma open_tag_lt_pos_less: "open_tag_lt_pos buffer name_pos = Some lt \<Longrightarrow> lt < name_pos"
  using ident_left_le[of buffer "name_pos - 1"]
  by (auto simp: open_tag_lt_pos_def Let_def split: if_splits)

lemma invoke_start_from_less: "invoke_start_from buffer k = Some lt \<Longrightarrow> lt < length buffer"
proof (induction buffer k rule: invoke_start_from.induct)
  case (1 buffer k)
  show ?case
  proof (cases "find_from invoke_name buffer k")
    case None
    with 1(3) show ?thesis by (simp add: invoke_start_from.simps)
  next
    case (Some p)
    show ?thesis
    proof (cases "open_tag_lt_pos buffer p")
      case None
      with 1(1)[OF Some None] 1(3) Some show ?thesis
        by (simp add: invoke_start_from.simps[of buffer k])
    next
      case lt: (Some l)
      have "l < length buffer"
        using open_tag_lt_pos_less[OF lt] find_from_less[OF Some] by simp
      with 1(2)[OF Some lt refl refl] 1(3) Some lt show ?thesis
        by (auto simp: invoke_start_from.simps[of buffer k] Let_def split: if_splits)
    qed
  qed
qed

lemma find_invoke_start_less: "find_invoke_start buffer = Some start \<Longrightarrow> start < length buffer"
  unfolding find_invoke_start_def by (rule invoke_start_from_less)

lemma last_close_from_bounds:
  "last_close_from region from_pos k last_found = Some e \<Longrightarrow>
     last_found = Some e \<or> from_pos < e \<and> e \<le> from_pos + length region"
proof (induction region from_pos k last_found rule: last_close_from.induct)
  case (1 region from_pos k last_found)
  show ?case
  proof (cases "find_from invoke_close_name region k")
    case None
    with 1(2) show ?thesis by (simp add: last_close_from.simps)
  next
    case (Some p)
    have "p + 7 \<le> length region" using find_from_Some[OF Some] by simp
    with 1(1)[OF Some refl] 1(2) Some show ?thesis
      by (auto simp: last_close_from.simps[of region from_pos k] Let_def split: if_splits)
  qed
qed

lemma find_invoke_block_end_bounds:
  "find_invoke_block_end buffer start = Some e \<Longrightarrow> start < e \<and> e \<le> length buffer"
  unfolding find_invoke_block_end_def find_last_invoke_close_def Let_def
  by (auto simp: slice_def split: if_splits dest!: last_close_from_bounds)

lemma length_strip_trailing_le: "length (strip_trailing_stray_tokens before) \<le> length before"
  by (simp add: strip_trailing_stray_tokens_def)

lemma emit_text_fields [simp]:
  "sn_buffer (fst (emit_text t s out)) = sn_buffer s"
  "sn_candidate (fst (emit_text t s out)) = sn_candidate s"
  "sn_disabled (fst (emit_text t s out)) = sn_disabled s"
  by (simp_all add: emit_text_def)

lemma emit_prefix_fields [simp]:
  "sn_buffer (fst (emit_prefix n s out)) = drop n (sn_buffer s)"
  "sn_candidate (fst (emit_prefix n s out)) = sn_candidate s"
  "sn_disabled (fst (emit_prefix n s out)) = sn_disabled s"
  by (simp_all add: emit_prefix_def)

lemma release_candidate_fields [simp]:
  "sn_buffer (fst (release_candidate s out)) = sn_buffer s"
  "sn_candidate (fst (release_candidate s out)) = None"
  "sn_disabled (fst (release_candidate s out)) = sn_disabled s"
  by (simp_all add: release_candidate_def split: option.splits)

lemma candidate_turn_progress:
  assumes "candidate_turn parse_json schemas at_end candidate s out = Again so" "sn_candidate s = Some candidate"
  shows "sniffer_measure (fst so) < sniffer_measure s"
proof -
  let ?gap = "length (sn_buffer s) - length (trim_start (sn_buffer s))"
  have release: "sniffer_measure (fst (release_candidate s out)) < sniffer_measure s"
    using assms(2) by (simp add: sniffer_measure_def)
  have take_call: "sniffer_measure (s\<lparr>sn_buffer := drop (?gap + e) (sn_buffer s), sn_candidate := c\<rparr>) < sniffer_measure s"
    if "find_invoke_block_end (drop ?gap (sn_buffer s)) 0 = Some e" for e c
    using find_invoke_block_end_bounds[OF that] assms(2) by (auto simp: sniffer_measure_def)
  show ?thesis
    using assms(1) release take_call
    unfolding candidate_turn_def Let_def
    by (auto split: if_splits option.splits)
qed

lemma plain_turn_progress:
  assumes "plain_turn parse_json schemas at_end s out = Again so" "sn_candidate s = None"
  shows "sniffer_measure (fst so) < sniffer_measure s"
proof -
  obtain start where start: "find_invoke_start (sn_buffer s) = Some start"
    using assms(1) by (cases "find_invoke_start (sn_buffer s)") (simp_all add: plain_turn_def Let_def)
  note less = find_invoke_start_less[OF start]
  let ?n = "length (strip_trailing_stray_tokens (take start (sn_buffer s)))"
  have n: "?n \<le> start"
    using length_strip_trailing_le[of "take start (sn_buffer s)"] by simp
  have prefix: "sniffer_measure (fst (emit_prefix k s out)) < sniffer_measure s" if "0 < k" for k
    using that less assms(2) by (auto simp: sniffer_measure_def)
  show ?thesis
  proof (cases "find_invoke_block_end (sn_buffer s) start")
    case None
    with assms(1) start prefix[of "start + 1"] show ?thesis
      unfolding plain_turn_def Let_def by (auto split: if_splits)
  next
    case (Some e)
    note e = find_invoke_block_end_bounds[OF Some]
    obtain s1 out1 where p: "emit_prefix ?n s out = (s1, out1)" by force
    then have s1: "sn_buffer s1 = drop ?n (sn_buffer s)"
      using emit_prefix_fields(1)[of ?n s out] by simp
    have call: "sniffer_measure (s1\<lparr>sn_buffer := drop (e - ?n) (sn_buffer s1), sn_candidate := c\<rparr>) < sniffer_measure s" for c
      using s1 e n less assms(2) by (auto simp: sniffer_measure_def)
    show ?thesis
      using assms(1) start Some p call prefix[of e] prefix[of "start + 1"] e
      unfolding plain_turn_def Let_def by (auto split: if_splits option.splits)
  qed
qed

lemma drain_turn_progress:
  "drain_turn parse_json schemas at_end so = Again so' \<Longrightarrow>
     sniffer_measure (fst so') < sniffer_measure (fst so)"
  unfolding drain_turn_def
  by (auto split: option.splits dest: candidate_turn_progress plain_turn_progress)

function sniffer_loop ::
  "(string \<Rightarrow> string + json) \<Rightarrow> tool_schemas \<Rightarrow> bool \<Rightarrow> invoke_sniffer \<times> sniff_output list
     \<Rightarrow> invoke_sniffer \<times> sniff_output list" where
  "sniffer_loop parse_json schemas at_end so =
     (case drain_turn parse_json schemas at_end so of
        Return so' \<Rightarrow> so'
      | Again so' \<Rightarrow> sniffer_loop parse_json schemas at_end so')"
  by pat_completeness auto
termination
  by (relation "measure (\<lambda>(_, _, _, so). sniffer_measure (fst so))") (auto dest: drain_turn_progress)

declare sniffer_loop.simps [simp del]

section \<open>Operations\<close>

definition sniffer_drain ::
  "(string \<Rightarrow> string + json) \<Rightarrow> tool_schemas \<Rightarrow> bool \<Rightarrow> invoke_sniffer \<Rightarrow> sniff_output list
     \<Rightarrow> invoke_sniffer \<times> sniff_output list" where
  "sniffer_drain parse_json schemas at_end s out =
     (if sn_disabled s \<or> schemas = [] then
        let (s, out) = release_candidate s out in emit_rest s out
      else sniffer_loop parse_json schemas at_end (s, out))"

definition sniffer_push ::
  "(string \<Rightarrow> string + json) \<Rightarrow> tool_schemas \<Rightarrow> string \<Rightarrow> invoke_sniffer \<Rightarrow> invoke_sniffer \<times> sniff_output list" where
  "sniffer_push parse_json schemas t s =
     sniffer_drain parse_json schemas False (s\<lparr>sn_buffer := sn_buffer s @ t\<rparr>) []"

definition sniffer_finish ::
  "(string \<Rightarrow> string + json) \<Rightarrow> tool_schemas \<Rightarrow> invoke_sniffer \<Rightarrow> invoke_sniffer \<times> sniff_output list" where
  "sniffer_finish parse_json schemas s =
     (let (s, out) = sniffer_drain parse_json schemas True s [];
          (s, out) = (case sn_candidate s of
                        Some candidate \<Rightarrow>
                          (s\<lparr>sn_candidate := None, sn_buffer := []\<rparr>,
                           out @ map (\<lambda>(name, input). SniffToolCall name input) (cand_calls candidate))
                      | None \<Rightarrow> (s, out))
      in emit_rest s out)"

definition sniffer_abandon :: "invoke_sniffer \<Rightarrow> invoke_sniffer \<times> sniff_output list" where
  "sniffer_abandon s =
     (let (s, out) = release_candidate (s\<lparr>sn_disabled := True\<rparr>) [] in emit_rest s out)"

section \<open>No text is lost\<close>

fun sniffed_text :: "sniff_output \<Rightarrow> string" where
  "sniffed_text (SniffText t) = t"
| "sniffed_text (SniffToolCall name input) = []"

fun is_tool_call :: "sniff_output \<Rightarrow> bool" where
  "is_tool_call (SniffText t) = False"
| "is_tool_call (SniffToolCall name input) = True"

definition emitted :: "sniff_output list \<Rightarrow> string" where
  "emitted out = concat (map sniffed_text out)"

definition pending :: "invoke_sniffer \<Rightarrow> string" where
  "pending s = (case sn_candidate s of Some c \<Rightarrow> cand_raw c | None \<Rightarrow> []) @ sn_buffer s"

lemma emitted_simps [simp]:
  "emitted [] = []" "emitted (SniffText t # out) = t @ emitted out"
  "emitted (SniffToolCall n i # out) = emitted out" "emitted (a @ b) = emitted a @ emitted b"
  by (simp_all add: emitted_def)

lemma emitted_push_text [simp]: "emitted (push_text t out) = emitted out @ t"
proof (induction t out rule: push_text.induct)
  case (4 t x y out)
  then show ?case by (cases x) auto
qed auto

lemma tool_calls_push_text [simp]: "filter is_tool_call (push_text t out) = filter is_tool_call out"
  by (induction t out rule: push_text.induct) auto

text \<open>A step moves a prefix of the pending text to the output, adds no tool call, keeps the tracker in
  step with the output and leaves the mode alone.\<close>

definition passes ::
  "invoke_sniffer \<times> sniff_output list \<Rightarrow> invoke_sniffer \<times> sniff_output list \<Rightarrow> bool" where
  "passes so so' \<longleftrightarrow>
     (\<exists>t. emitted (snd so') = emitted (snd so) @ t
        \<and> filter is_tool_call (snd so') = filter is_tool_call (snd so)
        \<and> sn_code (fst so') = advance (sn_code (fst so)) t
        \<and> t @ pending (fst so') = pending (fst so)
        \<and> sn_disabled (fst so') = sn_disabled (fst so))"

lemma passes_refl [simp]: "passes so so"
  by (auto simp: passes_def intro: exI[of _ "[]"])

lemma passes_trans: "passes a b \<Longrightarrow> passes b c \<Longrightarrow> passes a c"
  unfolding passes_def by (metis advance_append append.assoc)

lemma passes_emit_text:
  assumes "t @ pending s' = pending s" "sn_code s' = sn_code s" "sn_disabled s' = sn_disabled s"
  shows "passes (s, out) (emit_text t s' out)"
  using assms by (auto simp: passes_def emit_text_def pending_def intro!: exI[of _ t])

lemma passes_emit_prefix: "sn_candidate s = None \<Longrightarrow> passes (s, out) (emit_prefix n s out)"
  unfolding emit_prefix_def by (rule passes_emit_text) (simp_all add: pending_def)

lemma passes_release: "passes (s, out) (release_candidate s out)"
  by (cases "sn_candidate s") (auto simp: release_candidate_def pending_def intro!: passes_emit_text)

lemma passes_emit_rest: "sn_candidate s = None \<Longrightarrow> passes (s, out) (emit_rest s out)"
  unfolding emit_rest_def by (rule passes_emit_text) (simp_all add: pending_def)

lemma passes_same_pending:
  "pending s' = pending s \<Longrightarrow> sn_code s' = sn_code s \<Longrightarrow> sn_disabled s' = sn_disabled s \<Longrightarrow>
     passes (s, out) (s', out)"
  by (auto simp: passes_def intro: exI[of _ "[]"])

fun turn_value :: "'a turn \<Rightarrow> 'a" where
  "turn_value (Return x) = x"
| "turn_value (Again x) = x"

lemma candidate_turn_passes:
  assumes "sn_candidate s = Some candidate"
  shows "passes (s, out) (turn_value (candidate_turn parse_json schemas at_end candidate s out))"
proof -
  have call: "passes (s, out) (s\<lparr>sn_buffer := drop k (sn_buffer s),
      sn_candidate := Some (candidate\<lparr>cand_raw := cand_raw candidate @ take k (sn_buffer s), cand_calls := cs\<rparr>)\<rparr>, out)"
    for k cs
    using assms by (intro passes_same_pending) (simp_all add: pending_def)
  show ?thesis
    unfolding candidate_turn_def Let_def
    by (simp add: passes_release call split: option.split)
qed

lemma plain_turn_passes:
  assumes "sn_candidate s = None"
  shows "passes (s, out) (turn_value (plain_turn parse_json schemas at_end s out))"
proof -
  have call: "passes (s, out) (s1\<lparr>sn_buffer := drop k (sn_buffer s1),
      sn_candidate := Some \<lparr>cand_raw = take k (sn_buffer s1), cand_calls = cs\<rparr>\<rparr>, out1)"
    if "emit_prefix n s out = (s1, out1)" for n s1 out1 k cs
  proof (rule passes_trans)
    show "passes (s, out) (s1, out1)"
      using passes_emit_prefix[OF assms, of out n] that by simp
    have "sn_candidate s1 = None"
      using emit_prefix_fields(2)[of n s out] that assms by simp
    then show "passes (s1, out1) (s1\<lparr>sn_buffer := drop k (sn_buffer s1),
        sn_candidate := Some \<lparr>cand_raw = take k (sn_buffer s1), cand_calls = cs\<rparr>\<rparr>, out1)"
      by (intro passes_same_pending) (simp_all add: pending_def)
  qed
  show ?thesis
    unfolding plain_turn_def Let_def
    by (simp add: passes_emit_prefix[OF assms] call split: option.split prod.split)
qed

lemma drain_turn_passes: "passes so (turn_value (drain_turn parse_json schemas at_end so))"
  using candidate_turn_passes[of "fst so" _ "snd so"] plain_turn_passes[of "fst so" "snd so"]
  unfolding drain_turn_def by (auto split: option.splits)

lemma sniffer_loop_passes: "passes so (sniffer_loop parse_json schemas at_end so)"
proof (induction parse_json schemas at_end so rule: sniffer_loop.induct)
  case (1 parse_json schemas at_end so)
  note step = drain_turn_passes[of so parse_json schemas at_end]
  show ?case
  proof (cases "drain_turn parse_json schemas at_end so")
    case (Return so')
    with step show ?thesis by (simp add: sniffer_loop.simps[of _ _ _ so])
  next
    case (Again so')
    with step 1[OF Again] show ?thesis
      by (auto simp: sniffer_loop.simps[of _ _ _ so] intro: passes_trans)
  qed
qed

lemma sniffer_drain_passes: "passes (s, out) (sniffer_drain parse_json schemas at_end s out)"
proof -
  obtain s1 out1 where r: "release_candidate s out = (s1, out1)" by force
  then have "passes (s, out) (s1, out1)" "sn_candidate s1 = None"
    using passes_release[of s out] release_candidate_fields(2)[of s out] by simp_all
  then have "passes (s, out) (emit_rest s1 out1)"
    using passes_emit_rest passes_trans by blast
  then show ?thesis
    using sniffer_loop_passes by (simp add: sniffer_drain_def r)
qed

section \<open>Where tool calls come from\<close>

text \<open>Lines that hold nothing but a stray token, each with its line ends; the last may have none.\<close>

inductive stray_lines :: "string \<Rightarrow> bool" where
  no_stray_line: "stray_lines []"
| stray_line:
    "stray_lines upper \<Longrightarrow> upper = [] \<or> last upper = newline \<Longrightarrow>
     trim line \<in> {''call'', ''count'', ''card''} \<Longrightarrow> newline \<notin> set line \<Longrightarrow>
     set ends \<subseteq> {newline, CHR 0x0D} \<Longrightarrow> stray_lines (upper @ line @ ends)"

text \<open>The prefix of a tag's name, with its colon.\<close>

definition tag_prefix :: "string \<Rightarrow> bool" where
  "tag_prefix ns \<longleftrightarrow> ns = [] \<or> last ns = CHR '':'' \<and> list_all is_ident_byte (butlast ns)"

text \<open>A block begins with a tag and ends with the closing tag.\<close>

definition tagged_block :: "string \<Rightarrow> bool" where
  "tagged_block block \<longleftrightarrow>
     (\<exists>r. block = CHR ''<'' # r) \<and> (\<exists>inner ns. block = inner @ ''</'' @ ns @ ''invoke>'' \<and> tag_prefix ns)"

definition white_space :: "string \<Rightarrow> bool" where
  "white_space gap \<longleftrightarrow> (\<exists>ws. set ws \<subseteq> set whitespace_encodings \<and> gap = concat ws)"

text \<open>A group: validated blocks, one after the other, with nothing between two of them or white space that
  ends with a line end.\<close>

inductive call_group ::
  "(string \<Rightarrow> string + json) \<Rightarrow> tool_schemas \<Rightarrow> string \<Rightarrow> (string \<times> json) list \<Rightarrow> bool"
  for parse_json :: "string \<Rightarrow> string + json" and schemas :: tool_schemas
where
  first_block: "validate_invoke_block parse_json schemas block = Some call \<Longrightarrow> tagged_block block \<Longrightarrow>
    call_group parse_json schemas block [call]"
| next_block: "call_group parse_json schemas grp calls \<Longrightarrow> white_space gap \<Longrightarrow> gap = [] \<or> last gap = newline \<Longrightarrow>
    validate_invoke_block parse_json schemas block = Some call \<Longrightarrow> tagged_block block \<Longrightarrow>
    call_group parse_json schemas (grp @ gap @ block) (calls @ [call])"

lemma call_group_calls: "call_group parse_json schemas grp calls \<Longrightarrow> calls \<noteq> []"
  by (induction rule: call_group.induct) simp_all

lemma slice_split: "a \<le> b \<Longrightarrow> b \<le> c \<Longrightarrow> slice a c s = slice a b s @ slice b c s"
  using take_add [of "b - a" "c - b" "drop a s"] by (simp add: slice_def)

lemma stray_end_le: "strip_stray_end before end_pos \<le> end_pos"
proof (induction before end_pos rule: strip_stray_end.induct)
  case (1 before end_pos)
  have "line_start_of before (skip_line_ends before end_pos) \<le> end_pos"
    using skip_line_ends_le [of before end_pos] by (simp add: line_start_of_def)
  then show ?case using 1 by (subst strip_stray_end.simps) (auto simp: Let_def intro: order_trans)
qed

lemma skipped_line_ends: "set (slice (skip_line_ends before e) e before) \<subseteq> {newline, CHR 0x0D}"
proof (induction before e rule: skip_line_ends.induct)
  case (2 before e)
  have "slice k (Suc e) before = slice k e before @ slice e (Suc e) before" if "k \<le> e" for k
    using that by (intro slice_split) simp_all
  moreover have "set (slice e (Suc e) before) \<subseteq> {before ! e}"
    by (cases "e < length before") (simp_all add: slice_def take_Suc_conv_app_nth Cons_nth_drop_Suc [symmetric])
  ultimately show ?case using 2 skip_line_ends_le [of before e] by (auto simp: slice_def)
qed (simp add: slice_def)

lemma line_start:
  assumes "e \<le> length before"
  defines "k \<equiv> line_start_of before e"
  shows "newline \<notin> set (slice k e before)" "k = 0 \<or> last (take k before) = newline"
proof -
  define r where "r = rev (take e before)"
  define t where "t = takeWhile (\<lambda>c. c \<noteq> newline) r"
  define d where "d = dropWhile (\<lambda>c. c \<noteq> newline) r"
  have r: "t @ d = r" by (simp only: t_def d_def takeWhile_dropWhile_id)
  then have split: "take e before = rev d @ rev t" by (metis r_def rev_append rev_rev_ident)
  have len: "length t + length d = e"
    using assms(1) arg_cong [OF split, of length] by (simp add: min_absorb2)
  have k: "k = length d"
    unfolding k_def line_start_of_def r_def [symmetric] t_def [symmetric] using len by linarith
  have "take k (take e before) = rev d" "drop k (take e before) = rev t" unfolding split by (simp_all add: k)
  then have 1: "take k before = rev d" "slice k e before = rev t"
    using k len by (simp_all add: slice_def drop_take min_absorb1)
  show "newline \<notin> set (slice k e before)" unfolding 1 t_def by (auto dest: set_takeWhileD)
  show "k = 0 \<or> last (take k before) = newline"
    using hd_dropWhile [of "\<lambda>c. c \<noteq> newline" r] 1(1) k by (cases d) (simp_all add: d_def [symmetric])
qed

lemma stripped_stray_lines: "end_pos \<le> length before \<Longrightarrow> stray_lines (slice (strip_stray_end before end_pos) end_pos before)"
proof (induction before end_pos rule: strip_stray_end.induct)
  case (1 before end_pos)
  define e where "e = skip_line_ends before end_pos"
  define k where "k = line_start_of before e"
  have e: "e \<le> end_pos" "e \<le> length before" using skip_line_ends_le [of before end_pos] "1.prems" by (simp_all add: e_def)
  have k: "k \<le> e" by (simp add: k_def line_start_of_def)
  show ?case
  proof (cases "trim (slice k e before) \<in> set stray_invoke_tokens")
    case False
    then have "strip_stray_end before end_pos = end_pos"
      by (subst strip_stray_end.simps) (simp add: Let_def e_def k_def)
    then show ?thesis by (simp add: slice_def no_stray_line)
  next
    case True
    define j where "j = strip_stray_end before end_pos"
    have j: "j = (if k = 0 then 0 else strip_stray_end before k)"
      unfolding j_def using True by (subst strip_stray_end.simps) (simp add: Let_def e_def k_def)
    then have jk: "j \<le> k" using stray_end_le [of before k] by simp
    have upper: "stray_lines (slice j k before)"
    proof (cases "k = 0")
      case False
      then show ?thesis using "1.IH" [OF e_def k_def refl] True j e k by (simp add: e_def [symmetric] k_def [symmetric])
    qed (simp add: slice_def no_stray_line)
    have last: "slice j k before = [] \<or> last (slice j k before) = newline"
    proof (cases "j = k")
      case False
      then have "last (take k before) = newline" using line_start(2) [OF e(2)] jk by (auto simp: k_def)
      moreover have "take k before = take j before @ slice j k before"
        using jk by (simp add: slice_def take_add [symmetric])
      moreover have "slice j k before \<noteq> []" using False jk k e by (simp add: slice_def)
      ultimately show ?thesis by simp
    qed (simp add: slice_def)
    have "slice j end_pos before = slice j k before @ slice k e before @ slice e end_pos before"
      using jk k e by (simp add: slice_split [of j k end_pos] slice_split [of k e end_pos])
    also have "stray_lines \<dots>"
      using upper last True line_start(1) [OF e(2)] skipped_line_ends [of before end_pos]
      by (intro stray_line) (simp_all add: stray_invoke_tokens_def k_def e_def)
    finally show ?thesis by (simp only: j_def)
  qed
qed

lemma ident_left_ident: "ident_left bytes j \<le> k \<Longrightarrow> k < j \<Longrightarrow> is_ident_byte (bytes ! k)"
proof (induction bytes j rule: ident_left.induct)
  case (2 bytes j)
  then show ?case by (cases "k = j") (auto split: if_splits)
qed simp

lemma slice_Suc: "n < length s \<Longrightarrow> a \<le> n \<Longrightarrow> slice a (Suc n) s = slice a n s @ [s ! n]"
  by (simp add: slice_def Suc_diff_le take_Suc_conv_app_nth)

lemma tag_prefix_ident:
  assumes "p < length buffer" "buffer ! p = CHR '':''"
  shows "tag_prefix (slice (ident_left buffer p) (Suc p) buffer)"
proof -
  have l: "ident_left buffer p \<le> p" by (rule ident_left_le)
  have "is_ident_byte c" if c: "c \<in> set (slice (ident_left buffer p) p buffer)" for c
  proof -
    from c obtain i where "i < p - ident_left buffer p" "c = buffer ! (ident_left buffer p + i)"
      using assms(1) by (auto simp: slice_def in_set_conv_nth)
    then show ?thesis using ident_left_ident [of buffer p "ident_left buffer p + i"] by simp
  qed
  then show ?thesis
    using slice_Suc [OF assms(1) l] assms(2) by (simp add: tag_prefix_def list_all_iff)
qed

lemma close_tag_text:
  assumes "close_tag_lt_pos region p \<noteq> None" "p \<le> length region"
  shows "\<exists>inner ns. take p region = inner @ ''</'' @ ns \<and> tag_prefix ns"
proof -
  have cut: "take p region = take a region @ slice a b region @ slice b p region" if "a \<le> b" "b \<le> p" for a b
    using take_add [of a "p - a" region] that slice_split [of a b p region] by (simp add: slice_def)
  show ?thesis
  proof (cases "2 \<le> p \<and> slice (p - 2) p region = ''</''")
    case True
    moreover have "slice p p region = []" by (simp add: slice_def)
    ultimately have "take p region = take (p - 2) region @ ''</'' @ []" using cut [of "p - 2" p] by simp
    moreover have "tag_prefix []" by (simp add: tag_prefix_def)
    ultimately show ?thesis by blast
  next
    case False
    define j where "j = ident_left region (p - 1)"
    from False assms(1) have c: "1 \<le> p" "region ! (p - 1) = CHR '':''" "2 \<le> j" "slice (j - 2) j region = ''</''"
      by (auto simp: close_tag_lt_pos_def Let_def j_def split: if_splits)
    have j: "j \<le> p - 1" by (simp add: j_def ident_left_le)
    have "tag_prefix (slice j p region)"
      using tag_prefix_ident [of "p - 1" region] c assms(2) by (simp add: j_def)
    moreover have "take p region = take (j - 2) region @ ''</'' @ slice j p region"
      using cut [of "j - 2" j] c j by simp
    ultimately show ?thesis by blast
  qed
qed

lemma last_close_text:
  "last_close_from region from_pos k last_found = Some e \<Longrightarrow>
     last_found = Some e \<or>
     (\<exists>p inner ns. e = from_pos + (p + 7) \<and> take (p + 7) region = inner @ ''</'' @ ns @ ''invoke>'' \<and> tag_prefix ns)"
proof (induction region from_pos k last_found rule: last_close_from.induct)
  case (1 region from_pos k last_found)
  show ?case
  proof (cases "find_from invoke_close_name region k")
    case None
    with 1(2) show ?thesis by (simp add: last_close_from.simps)
  next
    case (Some p)
    have p: "p + 7 \<le> length region" "match_at invoke_close_name region p"
      using find_from_Some [OF Some] by simp_all
    have closed: "\<exists>inner ns. take (p + 7) region = inner @ ''</'' @ ns @ ''invoke>'' \<and> tag_prefix ns"
      if tag: "close_tag_lt_pos region p \<noteq> None"
    proof -
      obtain inner ns where t: "take p region = inner @ ''</'' @ ns" "tag_prefix ns"
        using close_tag_text [OF tag] p(1) by auto
      have "take (p + 7) region = take p region @ ''invoke>''"
        using p by (auto simp: take_add match_at_def starts_with_iff invoke_close_name_def)
      with t show ?thesis by (intro exI [of _ inner] exI [of _ ns]) simp
    qed
    from 1(2) Some have "last_close_from region from_pos (p + 7)
        (if close_tag_lt_pos region p \<noteq> None then Some (from_pos + p + 7) else last_found) = Some e"
      by (cases "close_tag_lt_pos region p") (simp_all add: last_close_from.simps [of region from_pos k] Let_def)
    with 1(1) [OF Some refl] closed show ?thesis by (auto simp: add.assoc split: if_splits)
  qed
qed

lemma block_end_text:
  assumes "find_invoke_block_end buffer start = Some e"
  shows "\<exists>inner ns. slice start e buffer = inner @ ''</'' @ ns @ ''invoke>'' \<and> tag_prefix ns"
proof -
  obtain b where b: "find_last_invoke_close buffer start b = Some e"
    using assms by (auto simp: find_invoke_block_end_def Let_def)
  define r where "r = min b (length buffer)"
  from b have "start < r" and l: "last_close_from (slice start r buffer) start 0 None = Some e"
    by (auto simp: find_last_invoke_close_def Let_def r_def split: if_splits)
  from last_close_text [OF l] obtain p inner ns where p: "e = start + (p + 7)"
    "take (p + 7) (slice start r buffer) = inner @ ''</'' @ ns @ ''invoke>''" "tag_prefix ns" by auto
  have "e \<le> r" using last_close_from_bounds [OF l] \<open>start < r\<close> by (simp add: slice_def r_def)
  then have "slice start e buffer = take (p + 7) (slice start r buffer)"
    using p(1) by (simp add: slice_def min_absorb1)
  with p show ?thesis by auto
qed

lemma open_tag_lt_char: "open_tag_lt_pos buffer p = Some lt \<Longrightarrow> buffer ! lt = CHR ''<''"
  by (auto simp: open_tag_lt_pos_def Let_def split: if_splits)

lemma invoke_start_char: "invoke_start_from buffer k = Some lt \<Longrightarrow> buffer ! lt = CHR ''<''"
proof (induction buffer k rule: invoke_start_from.induct)
  case (1 buffer k)
  show ?case
  proof (cases "find_from invoke_name buffer k")
    case None
    with 1(3) show ?thesis by (simp add: invoke_start_from.simps)
  next
    case (Some p)
    with 1(1)[OF Some] 1(2)[OF Some _ refl refl] 1(3) show ?thesis
      by (cases "open_tag_lt_pos buffer p")
        (auto simp: invoke_start_from.simps[of buffer k] Let_def open_tag_lt_char split: if_splits)
  qed
qed

lemma block_tagged:
  assumes "find_invoke_block_end buffer start = Some e" "buffer ! start = CHR ''<''"
  shows "tagged_block (slice start e buffer)"
proof -
  have "start < e" "e \<le> length buffer" using find_invoke_block_end_bounds [OF assms(1)] by auto
  then have "slice start e buffer = CHR ''<'' # slice (Suc start) e buffer"
    using assms(2) by (simp add: slice_def Cons_nth_drop_Suc [symmetric] take_Cons')
  then show ?thesis using block_end_text [OF assms(1)] by (auto simp: tagged_block_def)
qed

lemma trimmed_gap: "white_space (take (length s - length (trim_start s)) s)"
proof -
  obtain ws where ws: "set ws \<subseteq> set whitespace_encodings" "s = concat ws @ trim_start s" using trim_start_split by blast
  then have "length s = length (concat ws) + length (trim_start s)" by (metis length_append)
  then have "take (length s - length (trim_start s)) s = concat ws" using ws(2) by (metis add_diff_cancel_right' append_eq_conv_conj)
  with ws(1) show ?thesis by (auto simp: white_space_def)
qed

text \<open>What is held back: stray lines and a group, both at the beginning of a line outside code.\<close>

definition held_group ::
  "(string \<Rightarrow> string + json) \<Rightarrow> tool_schemas \<Rightarrow> string \<Rightarrow> (string \<times> json) list \<Rightarrow> bool" where
  "held_group parse_json schemas raw calls \<longleftrightarrow>
     (\<exists>lead grp. raw = lead @ grp \<and> stray_lines lead \<and> (lead = [] \<or> last lead = newline) \<and>
        call_group parse_json schemas grp calls)"

definition candidate_ok :: "(string \<Rightarrow> string + json) \<Rightarrow> tool_schemas \<Rightarrow> invoke_sniffer \<Rightarrow> bool" where
  "candidate_ok parse_json schemas s \<longleftrightarrow>
     (\<forall>c. sn_candidate s = Some c \<longrightarrow>
        \<not> sn_disabled s \<and> at_line_start (sn_code s) \<and> \<not> in_code (sn_code s) \<and>
        held_group parse_json schemas (cand_raw c) (cand_calls c))"

lemma held_group_next:
  assumes "held_group parse_json schemas raw calls" "white_space gap" "gap = [] \<or> last gap = newline"
    and "validate_invoke_block parse_json schemas block = Some call" "tagged_block block"
  shows "held_group parse_json schemas (raw @ gap @ block) (calls @ [call])"
  using assms next_block [OF _ assms(2-5)] unfolding held_group_def by (metis append.assoc)

lemma candidate_ok_None: "sn_candidate s = None \<Longrightarrow> candidate_ok parse_json schemas s"
  by (simp add: candidate_ok_def)

lemma candidate_turn_ok:
  assumes "candidate_ok parse_json schemas s" "sn_candidate s = Some candidate"
  shows "candidate_ok parse_json schemas
     (fst (turn_value (candidate_turn parse_json schemas at_end candidate s out)))"
proof -
  let ?g = "length (sn_buffer s) - length (trim_start (sn_buffer s))"
  have call: "candidate_ok parse_json schemas (s\<lparr>sn_buffer := drop (?g + e) (sn_buffer s),
      sn_candidate := Some (candidate\<lparr>cand_raw := cand_raw candidate @ take (?g + e) (sn_buffer s),
        cand_calls := cand_calls candidate @ [call]\<rparr>)\<rparr>)"
    if "?g = 0 \<or> last (take ?g (sn_buffer s)) = newline" "find_invoke_start (drop ?g (sn_buffer s)) = Some 0"
      "find_invoke_block_end (drop ?g (sn_buffer s)) 0 = Some e"
      "validate_invoke_block parse_json schemas (take e (drop ?g (sn_buffer s))) = Some call" for e call
  proof -
    have "drop ?g (sn_buffer s) ! 0 = CHR ''<''"
      using that(2) unfolding find_invoke_start_def by (rule invoke_start_char)
    from block_tagged [OF that(3) this] have "tagged_block (take e (drop ?g (sn_buffer s)))" by (simp add: slice_def)
    moreover have "take ?g (sn_buffer s) = [] \<or> last (take ?g (sn_buffer s)) = newline" using that(1) by auto
    ultimately have "held_group parse_json schemas
        (cand_raw candidate @ take ?g (sn_buffer s) @ take e (drop ?g (sn_buffer s))) (cand_calls candidate @ [call])"
      using assms that(4) trimmed_gap by (intro held_group_next) (auto simp: candidate_ok_def)
    with assms show ?thesis by (simp add: candidate_ok_def take_add)
  qed
  obtain so where "turn_value (candidate_turn parse_json schemas at_end candidate s out) = so" by blast
  then consider "so = (s, out)" | "so = release_candidate s out"
    | e call where "?g = 0 \<or> last (take ?g (sn_buffer s)) = newline" "find_invoke_start (drop ?g (sn_buffer s)) = Some 0"
      "find_invoke_block_end (drop ?g (sn_buffer s)) 0 = Some e"
      "validate_invoke_block parse_json schemas (take e (drop ?g (sn_buffer s))) = Some call"
      "so = (s\<lparr>sn_buffer := drop (?g + e) (sn_buffer s),
          sn_candidate := Some (candidate\<lparr>cand_raw := cand_raw candidate @ take (?g + e) (sn_buffer s),
            cand_calls := cand_calls candidate @ [call]\<rparr>)\<rparr>, out)"
    unfolding candidate_turn_def Let_def
    by (auto split: if_splits option.splits)
  then show ?thesis
    unfolding \<open>turn_value _ = so\<close>
    by cases (simp_all add: assms(1) candidate_ok_None call)
qed

lemma line_start_advance: "at_line_start (advance t s) \<longleftrightarrow> (if s = [] then at_line_start t else last s = newline)"
proof (induction s rule: rev_induct)
  case (snoc c s)
  have "ct_line (finish_line u l) = ct_line u" for u l
    by (auto simp: finish_line_def Let_def split: option.splits prod.splits)
  then show ?case by (simp add: at_line_start_def)
qed simp

lemma at_line_start_after_advance: "at_line_start_after t s = at_line_start (advance t s)"
  by (simp add: at_line_start_after_def invoke_looks_like_real_leak_def line_start_advance)

lemma emit_prefix_code: "sn_code (fst (emit_prefix n s out)) = advance (sn_code s) (take n (sn_buffer s))"
  by (simp add: emit_prefix_def emit_text_def)

lemma plain_turn_ok:
  assumes "sn_candidate s = None" "\<not> sn_disabled s"
  shows "candidate_ok parse_json schemas
     (fst (turn_value (plain_turn parse_json schemas at_end s out)))"
proof -
  let ?n = "\<lambda>start. length (strip_trailing_stray_tokens (take start (sn_buffer s)))"
  have call: "candidate_ok parse_json schemas (s1\<lparr>sn_buffer := drop (e - ?n start) (sn_buffer s1),
      sn_candidate := Some \<lparr>cand_raw = take (e - ?n start) (sn_buffer s1), cand_calls = [call]\<rparr>\<rparr>)"
    if st: "find_invoke_start (sn_buffer s) = Some start"
      and before: "at_line_start_after (sn_code s) (take start (sn_buffer s))"
      and stripped: "at_line_start_after (sn_code s) (take (?n start) (take start (sn_buffer s)))"
        "\<not> in_code (advance (sn_code s) (take (?n start) (take start (sn_buffer s))))"
      and e: "find_invoke_block_end (sn_buffer s) start = Some e"
      and valid: "validate_invoke_block parse_json schemas (slice start e (sn_buffer s)) = Some call"
      and emit: "emit_prefix (?n start) s out = (s1, out1)" for start e call s1 out1
  proof -
    let ?before = "take start (sn_buffer s)"
    have lt: "start < length (sn_buffer s)" "start < e"
      using find_invoke_start_less [OF st] find_invoke_block_end_bounds [OF e] by simp_all
    have n: "?n start = strip_stray_end ?before (length ?before)" "?n start \<le> start"
      using stray_end_le [of ?before "length ?before"] lt
      by (simp_all add: strip_trailing_stray_tokens_def min_absorb1 min_absorb2)
    define lead where "lead = slice (?n start) start (sn_buffer s)"
    have "lead = slice (strip_stray_end ?before (length ?before)) (length ?before) ?before"
      using lt n by (simp add: lead_def slice_def drop_take)
    then have stray: "stray_lines lead" using stripped_stray_lines [of "length ?before" ?before] by simp
    have split: "?before = take (?n start) (sn_buffer s) @ lead"
      using take_add [of "?n start" "start - ?n start" "sn_buffer s"] n(2) by (simp add: lead_def slice_def)
    have ends: "b = a @ l \<Longrightarrow> at_line_start_after c b \<Longrightarrow> l = [] \<or> last l = newline" for a b l c
      by (cases "l = []") (simp_all add: at_line_start_after_def invoke_looks_like_real_leak_def)
    have nl: "lead = [] \<or> last lead = newline" by (rule ends [OF split before])
    have "tagged_block (slice start e (sn_buffer s))"
      using block_tagged [OF e] st unfolding find_invoke_start_def by (blast dest: invoke_start_char)
    with valid have grp: "call_group parse_json schemas (slice start e (sn_buffer s)) [call]" by (rule first_block)
    have "slice (?n start) e (sn_buffer s) = lead @ slice start e (sn_buffer s)"
      using n(2) lt unfolding lead_def by (intro slice_split) simp_all
    with stray nl grp have held: "held_group parse_json schemas (slice (?n start) e (sn_buffer s)) [call]"
      unfolding held_group_def by blast
    have s1: "sn_buffer s1 = drop (?n start) (sn_buffer s)" "sn_disabled s1 = sn_disabled s"
      "sn_code s1 = advance (sn_code s) (take (?n start) (sn_buffer s))"
      using emit_prefix_fields [of "?n start" s out] emit_prefix_code [of "?n start" s out] emit by simp_all
    have "take (?n start) ?before = take (?n start) (sn_buffer s)" using n(2) by (simp add: min_absorb1)
    then have "at_line_start (sn_code s1)" "\<not> in_code (sn_code s1)"
      using stripped by (simp_all only: s1 at_line_start_after_advance not_False_eq_True)
    with held s1 assms(2) show ?thesis by (simp add: candidate_ok_def slice_def)
  qed
  show ?thesis
    unfolding plain_turn_def Let_def
    by (auto simp: assms(1) candidate_ok_None intro!: call split: option.split prod.split)
qed

lemma drain_turn_disabled:
  "sn_disabled (fst (turn_value (drain_turn parse_json schemas at_end so))) = sn_disabled (fst so)"
  using drain_turn_passes[of so parse_json schemas at_end] by (auto simp: passes_def)

lemma sniffer_loop_ok:
  "candidate_ok parse_json schemas (fst so) \<Longrightarrow> \<not> sn_disabled (fst so) \<Longrightarrow>
     candidate_ok parse_json schemas (fst (sniffer_loop parse_json schemas at_end so))"
proof (induction parse_json schemas at_end so rule: sniffer_loop.induct)
  case (1 parse_json schemas at_end so)
  have step: "candidate_ok parse_json schemas (fst (turn_value (drain_turn parse_json schemas at_end so)))"
    using candidate_turn_ok[OF 1(2)] plain_turn_ok[OF _ 1(3)] unfolding drain_turn_def
    by (auto split: option.split)
  note dis = drain_turn_disabled[of parse_json schemas at_end so]
  show ?case
  proof (cases "drain_turn parse_json schemas at_end so")
    case (Return so')
    with step show ?thesis by (simp add: sniffer_loop.simps[of _ _ _ so])
  next
    case (Again so')
    with step dis 1 show ?thesis by (simp add: sniffer_loop.simps[of _ _ _ so])
  qed
qed

lemma sniffer_drain_ok:
  assumes "candidate_ok parse_json schemas s"
  shows "candidate_ok parse_json schemas (fst (sniffer_drain parse_json schemas at_end s out))"
proof -
  obtain s1 out1 where r: "release_candidate s out = (s1, out1)" by force
  then have "sn_candidate s1 = None"
    using release_candidate_fields(2)[of s out] by simp
  then have "candidate_ok parse_json schemas (fst (emit_rest s1 out1))"
    by (simp add: candidate_ok_None emit_rest_def)
  with sniffer_loop_ok[of parse_json schemas "(s, out)"] assms show ?thesis
    by (simp add: sniffer_drain_def r)
qed

text \<open>At the end of the stream only white space can follow the group, and nothing else is left.\<close>

lemma drain_turn_at_end:
  assumes "drain_turn parse_json schemas True so = Return so'"
  shows "is_blank (sn_buffer (fst so')) \<and> (sn_candidate (fst so') = None \<longrightarrow> sn_buffer (fst so') = [])"
proof (cases "sn_candidate (fst so)")
  case None
  have "so' = emit_prefix (length (sn_buffer (fst so))) (fst so) (snd so)"
    using assms None unfolding drain_turn_def plain_turn_def Let_def
    by (simp split: option.splits prod.splits if_splits)
  then show ?thesis by simp
next
  case (Some c)
  with assms have eq: "so' = so" and
    gap: "length (sn_buffer (fst so)) - length (trim_start (sn_buffer (fst so))) = length (sn_buffer (fst so))"
    unfolding drain_turn_def candidate_turn_def Let_def
    by (auto split: option.splits if_splits)
  have "length (trim_start (sn_buffer (fst so))) \<le> length (sn_buffer (fst so))"
    unfolding trim_start_def by (rule length_strip_prefixes)
  with gap have "length (trim_start (sn_buffer (fst so))) = 0" by arith
  then have "trim_start (sn_buffer (fst so)) = []" by simp
  with eq Some show ?thesis by (simp add: is_blank_trim_start)
qed

lemma sniffer_loop_at_end:
  "let s' = fst (sniffer_loop parse_json schemas True so)
   in is_blank (sn_buffer s') \<and> (sn_candidate s' = None \<longrightarrow> sn_buffer s' = [])"
proof (induction parse_json schemas True so rule: sniffer_loop.induct)
  case (1 parse_json schemas so)
  show ?case
  proof (cases "drain_turn parse_json schemas True so")
    case (Return so')
    with drain_turn_at_end[OF Return] show ?thesis by (simp add: sniffer_loop.simps[of _ _ _ so])
  next
    case (Again so')
    with 1[OF Again] show ?thesis by (simp add: sniffer_loop.simps[of _ _ _ so])
  qed
qed

section \<open>A whole reply\<close>

datatype sniffer_op = Push string | Abandon

fun sniffer_step ::
  "(string \<Rightarrow> string + json) \<Rightarrow> tool_schemas \<Rightarrow> sniffer_op \<Rightarrow> invoke_sniffer \<Rightarrow> invoke_sniffer \<times> sniff_output list" where
  "sniffer_step parse_json schemas (Push t) s = sniffer_push parse_json schemas t s"
| "sniffer_step parse_json schemas Abandon s = sniffer_abandon s"

fun pushed :: "sniffer_op \<Rightarrow> string" where
  "pushed (Push t) = t"
| "pushed Abandon = []"

fun sniffer_run ::
  "(string \<Rightarrow> string + json) \<Rightarrow> tool_schemas \<Rightarrow> sniffer_op list \<Rightarrow> invoke_sniffer \<Rightarrow> invoke_sniffer \<times> sniff_output list" where
  "sniffer_run parse_json schemas [] s = (s, [])"
| "sniffer_run parse_json schemas (p # ops) s =
     (let (s, out) = sniffer_step parse_json schemas p s;
          (s, rest) = sniffer_run parse_json schemas ops s
      in (s, out @ rest))"

lemma sniffer_abandon_spec:
  assumes "sniffer_abandon s = (s', out)"
  shows "emitted out = pending s" "filter is_tool_call out = []" "pending s' = []"
    "sn_disabled s'" "sn_candidate s' = None" "sn_code s' = advance (sn_code s) (emitted out)"
proof -
  let ?s = "s\<lparr>sn_disabled := True\<rparr>"
  obtain s1 out1 where r: "release_candidate ?s [] = (s1, out1)" by force
  have s1: "sn_candidate s1 = None" "sn_disabled s1" "passes (?s, []) (s1, out1)"
    using passes_release[of ?s "[]"] release_candidate_fields[of ?s "[]"] r by simp_all
  have s': "emit_rest s1 out1 = (s', out)"
    using assms r by (simp add: sniffer_abandon_def)
  have "passes (?s, []) (s', out)"
    using passes_trans[OF s1(3) passes_emit_rest[OF s1(1), of out1]] s' by simp
  moreover show fields: "sn_candidate s' = None" "sn_disabled s'" "pending s' = []"
    using s1 s' by (auto simp: emit_rest_def emit_text_def pending_def split: if_splits)
  ultimately show "emitted out = pending s" "filter is_tool_call out = []"
    "sn_code s' = advance (sn_code s) (emitted out)"
    by (auto simp: passes_def pending_def[of s'] pending_def[of s] pending_def[of ?s])
qed

lemma sniffer_step_spec:
  assumes "sniffer_step parse_json schemas p s = (s', out)" "candidate_ok parse_json schemas s"
  shows "emitted out @ pending s' = pending s @ pushed p" "filter is_tool_call out = []"
    "candidate_ok parse_json schemas s'" "sn_disabled s' \<longleftrightarrow> sn_disabled s \<or> p = Abandon"
    "sn_code s' = advance (sn_code s) (emitted out)"
proof -
  have "emitted out @ pending s' = pending s @ pushed p \<and> filter is_tool_call out = []
    \<and> candidate_ok parse_json schemas s' \<and> (sn_disabled s' \<longleftrightarrow> sn_disabled s \<or> p = Abandon)
    \<and> sn_code s' = advance (sn_code s) (emitted out)"
  proof (cases p)
    case (Push t)
    let ?s = "s\<lparr>sn_buffer := sn_buffer s @ t\<rparr>"
    have d: "sniffer_drain parse_json schemas False ?s [] = (s', out)"
      using assms(1) Push by (simp add: sniffer_push_def)
    have "candidate_ok parse_json schemas ?s" using assms(2) by (simp add: candidate_ok_def)
    from sniffer_drain_ok[OF this, of False "[]"] sniffer_drain_passes[of ?s "[]" parse_json schemas False]
    show ?thesis
      using Push by (auto simp: d passes_def pending_def[of ?s] pending_def[of s])
  next
    case Abandon
    with assms(1) sniffer_abandon_spec[of s s' out] candidate_ok_None show ?thesis by simp
  qed
  then show "emitted out @ pending s' = pending s @ pushed p" "filter is_tool_call out = []"
    "candidate_ok parse_json schemas s'" "sn_disabled s' \<longleftrightarrow> sn_disabled s \<or> p = Abandon"
    "sn_code s' = advance (sn_code s) (emitted out)" by auto
qed

lemma sniffer_run_spec:
  assumes "sniffer_run parse_json schemas ops s = (s', out)" "candidate_ok parse_json schemas s"
  shows "emitted out @ pending s' = pending s @ concat (map pushed ops) \<and> filter is_tool_call out = []
    \<and> candidate_ok parse_json schemas s' \<and> (sn_disabled s' \<longleftrightarrow> sn_disabled s \<or> Abandon \<in> set ops)
    \<and> sn_code s' = advance (sn_code s) (emitted out)"
  using assms
proof (induction ops arbitrary: s out)
  case (Cons p ops)
  obtain s1 o1 where s1: "sniffer_step parse_json schemas p s = (s1, o1)" by force
  obtain o2 where o2: "sniffer_run parse_json schemas ops s1 = (s', o2)" "out = o1 @ o2"
    using Cons.prems(1) s1 by (auto split: prod.splits)
  note step = sniffer_step_spec[OF s1 Cons.prems(2)]
  note rest = Cons.IH[OF o2(1) step(3)]
  have "emitted out @ pending s' = emitted o1 @ pending s1 @ concat (map pushed ops)"
    using rest o2(2) by simp
  also have "\<dots> = pending s @ concat (map pushed (p # ops))"
    using step(1) by (metis append.assoc concat.simps(2) list.simps(9))
  finally show ?case using rest step o2(2) by auto
qed simp

lemma emitted_tool_calls [simp]: "emitted (map (\<lambda>(name, input). SniffToolCall name input) calls) = []"
  by (induction calls) auto

lemma filter_tool_calls [simp]:
  "filter is_tool_call (map (\<lambda>(name, input). SniffToolCall name input) calls)
     = map (\<lambda>(name, input). SniffToolCall name input) calls"
  by (induction calls) auto

lemma candidate_ok_drain_at_end:
  assumes "sniffer_drain parse_json schemas True s out = (s', out')"
  shows "is_blank (sn_buffer s') \<and> (sn_candidate s' = None \<longrightarrow> sn_buffer s' = [])"
proof (cases "sn_disabled s \<or> schemas = []")
  case True
  obtain s1 out1 where "release_candidate s out = (s1, out1)" by force
  with assms True have "sn_buffer s' = []"
    by (auto simp: sniffer_drain_def emit_rest_def emit_text_def split: if_splits)
  then show ?thesis by simp
next
  case False
  with assms sniffer_loop_at_end[of parse_json schemas "(s, out)"] show ?thesis
    by (simp add: sniffer_drain_def)
qed

lemma sniffer_finish_spec:
  assumes "sniffer_finish parse_json schemas s = (s', out)" "candidate_ok parse_json schemas s"
  shows "(emitted out = pending s \<and> filter is_tool_call out = [])
    \<or> (\<exists>raw gap calls. emitted out @ raw @ gap = pending s \<and> is_blank gap
         \<and> filter is_tool_call out = map (\<lambda>(name, input). SniffToolCall name input) calls
         \<and> held_group parse_json schemas raw calls \<and> at_line_start (advance (sn_code s) (emitted out))
         \<and> \<not> in_code (advance (sn_code s) (emitted out)) \<and> \<not> sn_disabled s)"
proof -
  obtain s1 o1 where d: "sniffer_drain parse_json schemas True s [] = (s1, o1)" by force
  note at_end = candidate_ok_drain_at_end[OF d]
  have pass: "emitted o1 @ pending s1 = pending s" "filter is_tool_call o1 = []" "sn_disabled s1 = sn_disabled s"
    "sn_code s1 = advance (sn_code s) (emitted o1)"
    using sniffer_drain_passes[of s "[]" parse_json schemas True] by (auto simp: d passes_def)
  have ok: "candidate_ok parse_json schemas s1"
    using sniffer_drain_ok[OF assms(2), of True "[]"] by (simp add: d)
  show ?thesis
  proof (cases "sn_candidate s1")
    case None
    with assms(1) d at_end pass show ?thesis
      by (auto simp: sniffer_finish_def emit_rest_def emit_text_def pending_def[of s1])
  next
    case (Some c)
    then have out: "out = o1 @ map (\<lambda>(name, input). SniffToolCall name input) (cand_calls c)"
      using assms(1) d by (simp add: sniffer_finish_def emit_rest_def emit_text_def)
    have "emitted out @ cand_raw c @ sn_buffer s1 = pending s"
      using pass(1) Some by (simp add: out pending_def)
    moreover have "held_group parse_json schemas (cand_raw c) (cand_calls c)" "\<not> sn_disabled s"
      "at_line_start (advance (sn_code s) (emitted out))" "\<not> in_code (advance (sn_code s) (emitted out))"
      using ok Some pass(3,4) by (auto simp: candidate_ok_def out)
    ultimately show ?thesis
      using at_end pass(2) by (intro disjI2 exI[of _ "cand_raw c"] exI[of _ "sn_buffer s1"] exI[of _ "cand_calls c"])
        (simp add: out)
  qed
qed

text \<open>C24: Whatever the reply is cut into, and wherever the first native tool call abandons the sniffer,
  every byte of it reaches the client once and in order: the text put out during the stream and at
  its end is the text of the reply, or it is the reply without a tail that consists of nothing but lines with
  a stray token, a group of blocks with at most white space between them, and white space; it begins a line
  outside code, every block of the group is a validated call, and exactly these calls, in this order and at
  least one, are put out instead.  During the stream no call is put out, and none at all once the sniffer was
  abandoned.\<close>

theorem sniffer_conserves_text:
  "let (s, out) = sniffer_run parse_json schemas ops new_sniffer;
       (s', final) = sniffer_finish parse_json schemas s;
       reply = concat (map pushed ops)
   in filter is_tool_call out = []
      \<and> (emitted (out @ final) = reply \<and> filter is_tool_call final = []
         \<or> (\<exists>lead grp gap calls. emitted (out @ final) @ lead @ grp @ gap = reply
              \<and> stray_lines lead \<and> (lead = [] \<or> last lead = newline) \<and> is_blank gap
              \<and> call_group parse_json schemas grp calls \<and> calls \<noteq> []
              \<and> filter is_tool_call final = map (\<lambda>(name, input). SniffToolCall name input) calls
              \<and> (emitted (out @ final) = [] \<or> last (emitted (out @ final)) = newline)
              \<and> \<not> in_code (advance new_tracker (emitted (out @ final)))
              \<and> Abandon \<notin> set ops))"
proof -
  obtain s out where run: "sniffer_run parse_json schemas ops new_sniffer = (s, out)" by force
  obtain s' final where fin: "sniffer_finish parse_json schemas s = (s', final)" by force
  have "candidate_ok parse_json schemas new_sniffer" "pending new_sniffer = []" "\<not> sn_disabled new_sniffer"
    "sn_code new_sniffer = new_tracker"
    by (simp_all add: candidate_ok_def pending_def new_sniffer_def)
  with sniffer_run_spec[OF run] have
    r: "emitted out @ pending s = concat (map pushed ops)" "filter is_tool_call out = []"
      "candidate_ok parse_json schemas s" "sn_disabled s \<longleftrightarrow> Abandon \<in> set ops"
      "sn_code s = advance new_tracker (emitted out)" by auto
  note whole = r(1)[symmetric]
  from sniffer_finish_spec[OF fin r(3)] show ?thesis
  proof (elim disjE exE conjE)
    assume "emitted final = pending s" "filter is_tool_call final = []"
    with r(2) whole show ?thesis
      unfolding run fin Let_def prod.case by simp
  next
    fix raw gap calls
    assume f: "emitted final @ raw @ gap = pending s" "is_blank gap"
      "filter is_tool_call final = map (\<lambda>(name, input). SniffToolCall name input) calls"
      "held_group parse_json schemas raw calls" "at_line_start (advance (sn_code s) (emitted final))"
      "\<not> in_code (advance (sn_code s) (emitted final))" "\<not> sn_disabled s"
    from f(4) obtain lead grp where g: "raw = lead @ grp" "stray_lines lead" "lead = [] \<or> last lead = newline"
      "call_group parse_json schemas grp calls" by (auto simp: held_group_def)
    have "emitted (out @ final) @ lead @ grp @ gap = concat (map pushed ops)"
      using f(1) g(1) whole by simp
    moreover have "emitted (out @ final) = [] \<or> last (emitted (out @ final)) = newline"
      "\<not> in_code (advance new_tracker (emitted (out @ final)))"
      using f(5,6) line_start_advance [of new_tracker "emitted (out @ final)"] by (auto simp: r(5) split: if_splits)
    ultimately show ?thesis
      using f(2,3,7) g call_group_calls [OF g(4)] r(2,4)
      unfolding run fin Let_def prod.case by blast
  qed
qed

text \<open>A call at the end of a reply that comes in two chunks, after a stray token: the text in front of them is
  put out, the call is recognised, and what is left out is the token and the block.\<close>

definition sniffer_example :: "sniffer_op list" where
  "sniffer_example =
     [Push (''Done.'' @ [newline]),
      Push (''call'' @ [newline] @ ''<invoke name='' @ [CHR 0x22] @ ''t'' @ [CHR 0x22] @ ''></invoke>'')]"

definition sniffer_example_schemas :: tool_schemas where
  "sniffer_example_schemas = [(''t'', JObject [])]"

lemma sniffer_example_run:
  "case sniffer_run (\<lambda>_. Inl []) sniffer_example_schemas sniffer_example new_sniffer of
     (s, out) \<Rightarrow> out = [SniffText (''Done.'' @ [newline])]
       \<and> snd (sniffer_finish (\<lambda>_. Inl []) sniffer_example_schemas s) = [SniffToolCall ''t'' (JObject [])]"
  by code_simp

lemma sniffer_conserves_text_witness:
  "\<exists>lead grp gap. ''Done.'' @ [newline] @ lead @ grp @ gap = concat (map pushed sniffer_example) \<and> stray_lines lead
     \<and> is_blank gap \<and> call_group (\<lambda>_. Inl []) sniffer_example_schemas grp [(''t'', JObject [])]"
proof -
  let ?f = "\<lambda>(name, input). SniffToolCall name input"
  obtain s s' where run: "sniffer_run (\<lambda>_. Inl []) sniffer_example_schemas sniffer_example new_sniffer
      = (s, [SniffText (''Done.'' @ [newline])])"
    and fin: "sniffer_finish (\<lambda>_. Inl []) sniffer_example_schemas s = (s', [SniffToolCall ''t'' (JObject [])])"
    using sniffer_example_run by (auto split: prod.splits) (metis prod.collapse)
  have "calls = [(''t'', JObject [])]" if "[SniffToolCall ''t'' (JObject [])] = map ?f calls" for calls
    using that by (cases calls) auto
  with sniffer_conserves_text[of "\<lambda>_. Inl []" sniffer_example_schemas sniffer_example]
  show ?thesis
    unfolding run fin Let_def prod.case by (auto simp: emitted_def)
qed

end
