(* ===== verification/StreamContext.thy ===== *)
theory StreamContext
  imports EventProtocol InvokeSniffer
begin

text \<open>
  \<open>StreamContext\<close> of \<open>src/anthropic/stream.rs\<close>, its state and the functions that emit events: text,
  thinking blocks, tool calls.  Every function takes the context and returns it updated with the
  events it emits; \<open>and_then\<close> appends the events of one function to those of the functions before
  it.  What is not of this repository, and the two functions of other modules used here
  (\<open>get_context_window_size\<close>, \<open>signature_compat::present\<close>), are the fields of \<open>stream_env\<close>.  Token
  counters are \<open>i32\<close>, here unbounded.
\<close>

section \<open>Environment and state\<close>

record stream_env =
  env_hash_order :: "int list \<Rightarrow> int list"
  env_buffer_order :: "tool_buffers \<Rightarrow> tool_buffers"
  env_parse_json :: "string \<Rightarrow> string + json"
  env_json_to_string :: "json \<Rightarrow> string"
  env_uuid :: "nat \<Rightarrow> string"
  env_context_window :: "string \<Rightarrow> int"
  env_present_signature :: "string \<Rightarrow> bool \<Rightarrow> string"

record stream_context =
  manager :: state_manager
  model :: string
  message_id :: string
  input_tokens :: int
  context_input_tokens :: "int option"
  provider_token_usage :: "token_usage option"
  output_tokens :: int
  tool_block_indices :: "(string \<times> int) list"
  tool_input_counts :: "(int \<times> int \<times> int) list"
  tool_names :: name_map
  known_tool_names :: "string list"
  invoke_tool_schemas :: tool_schemas
  thinking_enabled :: bool
  signature_metadata_compat :: bool
  thinking_buffer :: string
  sniffer :: invoke_sniffer
  in_thinking_block :: bool
  thinking_extracted :: bool
  thinking_block_index :: "int option"
  pending_thinking_signature :: "string option"
  thinking_text_emitted :: bool
  visible_output_emitted :: bool
  no_visible_output :: bool
  text_block_index :: "int option"
  strip_thinking_leading_newline :: bool
  ctx_cache_usage :: cache_usage
  credits :: f64
  metering :: "metering_event option"
  repeat_guard :: repeat_guard
  tool_buffers :: tool_buffers
  tool_json_error :: "tool_json_error option"
  tool_stream_refused :: bool
  xml_filter :: leak_filter
  native_stop_reason :: "string option"
  context_window_full :: bool
  visible_text_emitted :: bool
  uuid_counter :: nat

definition thinking_signature_placeholder :: string where
  "thinking_signature_placeholder = ''kiro-rs-thinking-signature''"

definition default_cache_usage :: cache_usage where
  "default_cache_usage =
     \<lparr>cu_cache_read = 0, cache_covered_est = 0, prompt_total_est = 0, read_limit_percent = None,
      cache_creation_1h_est = 0\<rparr>"

definition new_with_thinking ::
  "stream_env \<Rightarrow> string \<Rightarrow> int \<Rightarrow> bool \<Rightarrow> name_map \<Rightarrow> string list \<Rightarrow> stream_context" where
  "new_with_thinking env mdl input thinking names known =
     \<lparr>manager = new_state_manager, model = mdl, message_id = ''msg_'' @ env_uuid env 0,
      input_tokens = input, context_input_tokens = None, provider_token_usage = None, output_tokens = 0,
      tool_block_indices = [], tool_input_counts = [], tool_names = names, known_tool_names = known,
      invoke_tool_schemas = [], thinking_enabled = thinking, signature_metadata_compat = False,
      thinking_buffer = [], sniffer = new_sniffer, in_thinking_block = False, thinking_extracted = False,
      thinking_block_index = None, pending_thinking_signature = None, thinking_text_emitted = False,
      visible_output_emitted = False, no_visible_output = False, text_block_index = None,
      strip_thinking_leading_newline = False, ctx_cache_usage = default_cache_usage, credits = Fin 0,
      metering = None, repeat_guard = new_repeat_guard, tool_buffers = [], tool_json_error = None,
      tool_stream_refused = False, xml_filter = new_leak_filter, native_stop_reason = None,
      context_window_full = False, visible_text_emitted = False, uuid_counter = 1\<rparr>"

definition set_invoke_tool_schemas :: "tool_schemas \<Rightarrow> stream_context \<Rightarrow> stream_context" where
  "set_invoke_tool_schemas schemas c =
     c\<lparr>invoke_tool_schemas := filter (\<lambda>(name, _). name \<in> set (known_tool_names c)) schemas\<rparr>"

type_synonym emission = "stream_context \<times> sse_event list"

definition and_then :: "emission \<Rightarrow> (stream_context \<Rightarrow> emission) \<Rightarrow> emission" where
  "and_then ce f = (let (c', es') = f (fst ce) in (c', snd ce @ es'))"

definition with_manager ::
  "(state_manager \<Rightarrow> state_manager \<times> sse_event list) \<Rightarrow> stream_context \<Rightarrow> emission" where
  "with_manager f c = (let (m, es) = f (manager c) in (c\<lparr>manager := m\<rparr>, es))"

section \<open>Token estimates\<close>

text \<open>A character of the block U+4E00 to U+9FFF, by its encoding.\<close>

definition is_cjk :: "char \<Rightarrow> string \<Rightarrow> bool" where
  "is_cjk c rest \<longleftrightarrow>
     (let n = (of_char c :: nat) in
        229 \<le> n \<and> n \<le> 233 \<or> n = 228 \<and> rest \<noteq> [] \<and> 184 \<le> (of_char (hd rest) :: nat))"

fun count_token_characters :: "string \<Rightarrow> int \<times> int" where
  "count_token_characters [] = (0, 0)"
| "count_token_characters (c # cs) =
     (let (chinese, other) = count_token_characters cs in
      if is_continuation c then (chinese, other)
      else if is_cjk c cs then (chinese + 1, other)
      else (chinese, other + 1))"

definition estimate_character_tokens :: "int \<Rightarrow> int \<Rightarrow> int" where
  "estimate_character_tokens chinese other =
     max 1 ((chinese * 2 + 2) div 3 + (other + 3) div 4)"

definition estimate_tokens :: "string \<Rightarrow> int" where
  "estimate_tokens s = (let (chinese, other) = count_token_characters s in estimate_character_tokens chinese other)"

section \<open>Thinking blocks\<close>

definition is_thinking_block_open :: "stream_context \<Rightarrow> bool" where
  "is_thinking_block_open c =
     (case thinking_block_index c of
        Some idx \<Rightarrow> is_block_open_of_type (manager c) idx ''thinking''
      | None \<Rightarrow> False)"

definition create_thinking_delta_event :: "int \<Rightarrow> string \<Rightarrow> stream_context \<Rightarrow> emission" where
  "create_thinking_delta_event index thinking c =
     (c\<lparr>thinking_text_emitted := thinking_text_emitted c \<or> \<not> is_blank thinking\<rparr>,
      [ContentBlockDelta index (ThinkingDelta thinking)])"

definition create_signature_delta_event_with :: "stream_env \<Rightarrow> int \<Rightarrow> string \<Rightarrow> stream_context \<Rightarrow> emission" where
  "create_signature_delta_event_with env index signature c =
     (c, [ContentBlockDelta index
            (SignatureDelta (env_present_signature env signature (signature_metadata_compat c)))])"

definition create_signature_delta_event :: "stream_env \<Rightarrow> int \<Rightarrow> stream_context \<Rightarrow> emission" where
  "create_signature_delta_event env index c =
     create_signature_delta_event_with env index thinking_signature_placeholder c"

definition close_open_thinking_block :: "stream_env \<Rightarrow> stream_context \<Rightarrow> emission" where
  "close_open_thinking_block env c =
     (case thinking_block_index c of
        None \<Rightarrow> (c, [])
      | Some idx \<Rightarrow>
          if \<not> is_block_open_of_type (manager c) idx ''thinking'' then (c, [])
          else
            let signature = (case pending_thinking_signature c of
                               Some s \<Rightarrow> s | None \<Rightarrow> thinking_signature_placeholder);
                c = c\<lparr>pending_thinking_signature := None\<rparr>
            in and_then (and_then (create_thinking_delta_event idx [] c)
                 (create_signature_delta_event_with env idx signature))
                 (with_manager (handle_content_block_stop idx)))"

text \<open>The three events that end a thinking block found by its text tag: an empty delta, the
  placeholder signature and the stop.\<close>

definition end_tagged_thinking :: "stream_env \<Rightarrow> stream_context \<Rightarrow> emission" where
  "end_tagged_thinking env c =
     (case thinking_block_index c of
        None \<Rightarrow> (c, [])
      | Some idx \<Rightarrow>
          and_then (and_then (create_thinking_delta_event idx [] c)
            (create_signature_delta_event env idx))
            (with_manager (handle_content_block_stop idx)))"

text \<open>The thinking text in front of such an end, if any.\<close>

definition thinking_delta_unless_empty :: "string \<Rightarrow> stream_context \<Rightarrow> emission" where
  "thinking_delta_unless_empty thinking c =
     (if thinking = [] then (c, [])
      else case thinking_block_index c of
        Some idx \<Rightarrow> create_thinking_delta_event idx thinking c
      | None \<Rightarrow> (c, []))"

section \<open>Tool calls\<close>

definition start_tool_use :: "stream_env \<Rightarrow> string \<Rightarrow> string \<Rightarrow> stream_context \<Rightarrow> int \<times> emission" where
  "start_tool_use env tid name c =
     (case map_of (tool_block_indices c) tid of
        Some index \<Rightarrow> (index, (c, []))
      | None \<Rightarrow>
          let (block_index, m) = next_block_index (manager c);
              c = c\<lparr>manager := m, tool_block_indices := map_insert tid block_index (tool_block_indices c)\<rparr>
          in (block_index,
              with_manager (handle_content_block_start (env_hash_order env) block_index ''tool_use''
                (ContentBlockStart block_index (ToolUseBlock tid name))) c))"

definition emit_tool_input_fragment :: "int \<Rightarrow> string \<Rightarrow> stream_context \<Rightarrow> emission" where
  "emit_tool_input_fragment block_index input c =
     (if input = [] then (c, [])
      else
        let (ch0, ot0) = (case map_of (tool_input_counts c) block_index of Some n \<Rightarrow> n | None \<Rightarrow> (0, 0));
            previous = (if (ch0, ot0) = (0, 0) then 0 else estimate_character_tokens ch0 ot0);
            (chinese, other) = count_token_characters input;
            counts = (ch0 + chinese, ot0 + other);
            c = c\<lparr>tool_input_counts := map_insert block_index counts (tool_input_counts c),
                   output_tokens := output_tokens c
                     + (estimate_character_tokens (fst counts) (snd counts) - previous)\<rparr>
        in (c, handle_content_block_delta block_index
                 (ContentBlockDelta block_index (InputJsonDelta input)) (manager c)))"

definition emit_completed_tool_use :: "stream_env \<Rightarrow> completed_tool_use \<Rightarrow> stream_context \<Rightarrow> emission" where
  "emit_completed_tool_use env completed c =
     (let (block_index, started) = start_tool_use env (ct_id completed) (ct_name completed) c
      in and_then (and_then started
           (emit_tool_input_fragment block_index (env_json_to_string env (ct_input completed))))
           (with_manager (handle_content_block_stop block_index)))"

section \<open>Text\<close>

definition emit_text_delta_raw :: "stream_env \<Rightarrow> string \<Rightarrow> stream_context \<Rightarrow> emission" where
  "emit_text_delta_raw env txt c =
     (let (g, kept) = repeat_guard_filter (repeat_guard c) txt;
          c = c\<lparr>repeat_guard := g, visible_output_emitted := visible_output_emitted c \<or> \<not> is_blank kept\<rparr>
      in if kept = [] then (c, [])
         else
           let c = (if \<not> is_blank kept then c\<lparr>visible_text_emitted := True\<rparr> else c);
               c = (case text_block_index c of
                      Some idx \<Rightarrow> if \<not> is_block_open_of_type (manager c) idx ''text''
                                  then c\<lparr>text_block_index := None\<rparr> else c
                    | None \<Rightarrow> c);
               (text_index, started) =
                 (case text_block_index c of
                    Some idx \<Rightarrow> (idx, (c, []))
                  | None \<Rightarrow>
                      let (idx, m) = next_block_index (manager c)
                      in (idx, with_manager (handle_content_block_start (env_hash_order env) idx ''text''
                                 (ContentBlockStart idx TextBlock))
                                 (c\<lparr>manager := m, text_block_index := Some idx\<rparr>)))
           in and_then started
                (\<lambda>c. (c, handle_content_block_delta text_index
                           (ContentBlockDelta text_index (TextDelta kept)) (manager c))))"

fun emit_sniffed :: "stream_env \<Rightarrow> sniff_output list \<Rightarrow> stream_context \<Rightarrow> emission" where
  "emit_sniffed env [] c = (c, [])"
| "emit_sniffed env (SniffText txt # outputs) c =
     and_then (emit_text_delta_raw env txt c) (emit_sniffed env outputs)"
| "emit_sniffed env (SniffToolCall name input # outputs) c =
     (let tid = ''toolu_'' @ env_uuid env (uuid_counter c);
          completed = from_kiro tid name input (tool_names c)
      in and_then (emit_completed_tool_use env completed (c\<lparr>uuid_counter := uuid_counter c + 1\<rparr>))
           (emit_sniffed env outputs))"

definition create_text_delta_events :: "stream_env \<Rightarrow> string \<Rightarrow> stream_context \<Rightarrow> emission" where
  "create_text_delta_events env txt c =
     (if txt = [] then (c, [])
      else
        let (s, outputs) = sniffer_push (env_parse_json env) (invoke_tool_schemas c) txt (sniffer c)
        in emit_sniffed env outputs (c\<lparr>sniffer := s\<rparr>))"

definition close_open_text_block :: "stream_context \<Rightarrow> emission" where
  "close_open_text_block c =
     (case text_block_index c of
        None \<Rightarrow> (c, [])
      | Some idx \<Rightarrow>
          if \<not> is_block_open_of_type (manager c) idx ''text'' then (c\<lparr>text_block_index := None\<rparr>, [])
          else with_manager (handle_content_block_stop idx) (c\<lparr>text_block_index := None\<rparr>))"

text \<open>\<open>next_block_index\<close> and \<open>handle_content_block_start\<close> of a thinking block.\<close>

definition open_thinking_block :: "stream_env \<Rightarrow> stream_context \<Rightarrow> emission" where
  "open_thinking_block env c =
     (let (idx, m) = next_block_index (manager c)
      in with_manager (handle_content_block_start (env_hash_order env) idx ''thinking''
           (ContentBlockStart idx ThinkingBlock))
           (c\<lparr>manager := m, thinking_block_index := Some idx\<rparr>))"

definition ensure_thinking_block :: "stream_env \<Rightarrow> stream_context \<Rightarrow> emission" where
  "ensure_thinking_block env c =
     (if is_thinking_block_open c then (c, [])
      else
        let buffered = thinking_buffer c;
            c = c\<lparr>thinking_buffer := []\<rparr>
        in and_then (and_then
             (if \<not> is_blank buffered then create_text_delta_events env buffered c else (c, []))
             close_open_text_block)
             (\<lambda>c. open_thinking_block env (c\<lparr>thinking_extracted := True\<rparr>)))"

definition create_redacted_thinking_events :: "stream_env \<Rightarrow> string \<Rightarrow> stream_context \<Rightarrow> emission" where
  "create_redacted_thinking_events env data c =
     and_then (and_then (close_open_thinking_block env c) close_open_text_block)
       (\<lambda>c. let (idx, m) = next_block_index (manager c)
            in and_then
                 (with_manager (handle_content_block_start (env_hash_order env) idx ''redacted_thinking''
                    (ContentBlockStart idx (RedactedThinkingBlock data))) (c\<lparr>manager := m\<rparr>))
                 (with_manager (handle_content_block_stop idx)))"

section \<open>The thinking tags in the text\<close>

text \<open>One turn of the loop of \<open>process_content_with_thinking\<close> outside a thinking block that has not been
  looked for to the end.\<close>

definition seek_thinking_turn :: "stream_env \<Rightarrow> stream_context \<Rightarrow> emission turn" where
  "seek_thinking_turn env c =
     (let buf = thinking_buffer c; head = trim_start buf in
      if head \<noteq> [] \<and> \<not> starts_with head start_tag \<and> \<not> starts_with start_tag head
      then Again (c\<lparr>thinking_extracted := True\<rparr>, [])
      else
        case (case find_real_thinking_start_tag buf of
                Some pos \<Rightarrow> if is_blank (take pos buf) then Some pos else None
              | None \<Rightarrow> None) of
          Some start_pos \<Rightarrow>
            let before = take start_pos buf in
            Again (and_then
              (if before \<noteq> [] \<and> \<not> is_blank before then create_text_delta_events env before c else (c, []))
              (\<lambda>c. open_thinking_block env
                 (c\<lparr>in_thinking_block := True, strip_thinking_leading_newline := True,
                    thinking_buffer := drop (start_pos + length start_tag) (thinking_buffer c)\<rparr>)))
        | None \<Rightarrow>
            let safe_len = find_char_boundary buf (length buf - length start_tag);
                safe_content = take safe_len buf
            in if 0 < safe_len \<and> safe_content \<noteq> [] \<and> \<not> is_blank safe_content
               then Return (and_then (create_text_delta_events env safe_content c)
                      (\<lambda>c. (c\<lparr>thinking_buffer := drop safe_len (thinking_buffer c)\<rparr>, [])))
               else Return (c, []))"

text \<open>One turn inside a thinking block.\<close>

definition strip_leading_newline :: "stream_context \<Rightarrow> stream_context" where
  "strip_leading_newline c =
     (if \<not> strip_thinking_leading_newline c then c
      else if starts_with (thinking_buffer c) [newline]
      then c\<lparr>thinking_buffer := drop 1 (thinking_buffer c), strip_thinking_leading_newline := False\<rparr>
      else if thinking_buffer c \<noteq> [] then c\<lparr>strip_thinking_leading_newline := False\<rparr>
      else c)"

definition inside_thinking_turn :: "stream_env \<Rightarrow> stream_context \<Rightarrow> emission turn" where
  "inside_thinking_turn env c =
     (let c = strip_leading_newline c; buf = thinking_buffer c in
      case find_real_thinking_end_tag buf of
        Some end_pos \<Rightarrow>
          Again (and_then (and_then (thinking_delta_unless_empty (take end_pos buf) c)
            (\<lambda>c. end_tagged_thinking env (c\<lparr>in_thinking_block := False, thinking_extracted := True\<rparr>)))
            (\<lambda>c. (c\<lparr>thinking_buffer := drop (end_pos + thinking_end_tag_strip_len buf end_pos) buf\<rparr>, [])))
      | None \<Rightarrow>
          let safe_len = find_char_boundary buf (length buf - length (end_tag @ [newline, newline])) in
          if 0 < safe_len then
            Return (and_then (thinking_delta_unless_empty (take safe_len buf) c)
              (\<lambda>c. (c\<lparr>thinking_buffer := drop safe_len buf\<rparr>, [])))
          else Return (c, []))"

definition after_thinking_turn :: "stream_env \<Rightarrow> stream_context \<Rightarrow> emission turn" where
  "after_thinking_turn env c =
     (if thinking_buffer c \<noteq> []
      then Return (create_text_delta_events env (thinking_buffer c) (c\<lparr>thinking_buffer := []\<rparr>))
      else Return (c, []))"

definition thinking_turn :: "stream_env \<Rightarrow> stream_context \<Rightarrow> emission turn" where
  "thinking_turn env c =
     (if \<not> in_thinking_block c \<and> \<not> thinking_extracted c then seek_thinking_turn env c
      else if in_thinking_block c then inside_thinking_turn env c
      else after_thinking_turn env c)"

end
