(* ===== verification/KiroEvents.thy ===== *)
theory KiroEvents
  imports SseState
begin

text \<open>
  The events of the upstream: the payload types of \<open>src/kiro/model/events/\<close> and the enumeration
  \<open>Event\<close> of \<open>base.rs\<close>, with what \<open>MetadataEvent\<close> derives from the upstream's stop reason.  Fields
  the payloads only carry along for serialisation (\<open>extra\<close>) are left out.
\<close>

section \<open>Payloads\<close>

record refusal =
  rf_category :: "string option"
  rf_explanation :: "string option"

record metadata_event =
  md_token_usage :: "token_usage option"
  md_stop_reason :: "string option"
  md_refusal :: "refusal option option"

record reasoning_event =
  rc_text :: "string option"
  rc_signature :: "string option"
  rc_redacted :: "string option"

datatype kiro_event =
    AssistantResponse string
  | ToolUse tool_use_event
  | Metering metering_event
  | Metadata metadata_event
  | ContextUsage f64
  | ReasoningContent reasoning_event
  | Unknown
  | ServiceError string string
  | ServiceException string string

section \<open>The stop reason of the upstream\<close>

definition content_filtered_stop_reason :: string where
  "content_filtered_stop_reason = ''CONTENT_FILTERED''"

text \<open>\<open>md_refusal\<close> is \<open>stop_details\<close> with its only field.\<close>

definition content_filter_refusal :: "metadata_event \<Rightarrow> string option" where
  "content_filter_refusal m =
     (if md_stop_reason m \<noteq> Some content_filtered_stop_reason then None
      else
        let refusal = Option.bind (md_refusal m) (\<lambda>r. r);
            category = Option.bind refusal rf_category;
            explanation = Option.bind refusal rf_explanation
        in Some (case category of
             Some c \<Rightarrow> (case explanation of Some e \<Rightarrow> c @ '': '' @ e | None \<Rightarrow> c)
           | None \<Rightarrow> (case explanation of Some e \<Rightarrow> e | None \<Rightarrow> content_filtered_stop_reason)))"

definition truncation_stop_reason :: "metadata_event \<Rightarrow> string option" where
  "truncation_stop_reason m =
     (case md_stop_reason m of
        None \<Rightarrow> None
      | Some reason \<Rightarrow>
          let r = to_ascii_lowercase reason in
          if r \<in> {''max_tokens'', ''stop_sequence'', ''model_context_window_exceeded''}
          then Some r else None)"

end
