(* ===== verification/StreamEvents.thy ===== *)
theory StreamEvents
  imports StreamContext KiroEvents
begin

text \<open>
  The three entry points of \<open>StreamContext\<close> (\<open>src/anthropic/stream.rs\<close>): the initial events, the
  processing of one upstream event, and the final events, with the loop that takes the thinking tags
  apart.  An early \<open>return\<close> of the final events is a branch of \<open>stream_final_events\<close>.
\<close>

section \<open>The loop over the thinking tags\<close>

lemma with_manager_frame [simp]:
  "in_thinking_block (fst (with_manager f c)) = in_thinking_block c"
  "thinking_extracted (fst (with_manager f c)) = thinking_extracted c"
  by (simp_all add: with_manager_def split: prod.splits)

lemma and_then_fst: "fst (and_then ce f) = fst (f (fst ce))"
  by (simp add: and_then_def split: prod.splits)

lemma open_thinking_frame:
  "in_thinking_block (fst (open_thinking_block env c)) = in_thinking_block c"
  by (simp add: open_thinking_block_def split: prod.splits)

lemma end_tagged_frame:
  "in_thinking_block (fst (end_tagged_thinking env c)) = in_thinking_block c"
  "thinking_extracted (fst (end_tagged_thinking env c)) = thinking_extracted c"
  by (simp_all add: end_tagged_thinking_def and_then_fst create_thinking_delta_event_def
      create_signature_delta_event_def create_signature_delta_event_with_def split: option.splits)

definition thinking_rank :: "stream_context \<Rightarrow> nat" where
  "thinking_rank c = (if in_thinking_block c then 1 else if thinking_extracted c then 0 else 2)"

lemma thinking_turn_rank: "thinking_turn env c = Again (c', es) \<Longrightarrow> thinking_rank c' < thinking_rank c"
proof -
  assume again: "thinking_turn env c = Again (c', es)"
  consider "\<not> in_thinking_block c \<and> \<not> thinking_extracted c" | "in_thinking_block c"
    | "\<not> in_thinking_block c \<and> thinking_extracted c" by blast
  then show ?thesis
  proof cases
    case 1
    with again have "c' = c\<lparr>thinking_extracted := True\<rparr> \<or> in_thinking_block c'"
      by (auto simp: thinking_turn_def seek_thinking_turn_def Let_def and_then_fst open_thinking_frame
          dest!: arg_cong[where f = fst] split: if_splits option.splits)
    with 1 show ?thesis by (auto simp: thinking_rank_def)
  next
    case 2
    with again have "\<not> in_thinking_block c' \<and> thinking_extracted c'"
      by (auto simp: thinking_turn_def inside_thinking_turn_def Let_def and_then_fst end_tagged_frame
          dest!: arg_cong[where f = fst] split: if_splits option.splits)
    with 2 show ?thesis by (simp add: thinking_rank_def)
  next
    case 3
    with again show ?thesis by (auto simp: thinking_turn_def after_thinking_turn_def split: if_splits)
  qed
qed

function thinking_loop :: "stream_env \<Rightarrow> stream_context \<Rightarrow> emission" where
  "thinking_loop env c =
     (case thinking_turn env c of
        Return ce \<Rightarrow> ce
      | Again (c', es) \<Rightarrow> let (c'', es') = thinking_loop env c' in (c'', es @ es'))"
  by pat_completeness auto
termination
  by (relation "measure (\<lambda>(_, c). thinking_rank c)") (auto dest: thinking_turn_rank)

declare thinking_loop.simps [simp del]

definition process_content_with_thinking :: "stream_env \<Rightarrow> string \<Rightarrow> stream_context \<Rightarrow> emission" where
  "process_content_with_thinking env content c =
     thinking_loop env (c\<lparr>thinking_buffer := thinking_buffer c @ content\<rparr>)"

section \<open>Initial events\<close>

definition provider_usage :: "stream_context \<Rightarrow> token_usage option" where
  "provider_usage c = map_option sanitized (provider_token_usage c)"

definition create_message_start_event :: "stream_context \<Rightarrow> sse_event" where
  "create_message_start_event c =
     (let usage = (case provider_usage c of Some u \<Rightarrow> u | None \<Rightarrow> default_token_usage) in
      MessageStart (message_id c) (model c)
        \<lparr>ur_input = uncached_input_tokens usage, ur_output = 0, ur_cache_creation = tu_cache_write usage,
         ur_cache_read = tu_cache_read usage,
         ur_breakdown = creation_breakdown (ctx_cache_usage c) (tu_cache_write usage) (provider_token_usage c \<noteq> None),
         ur_metering = None\<rparr>)"

definition generate_initial_events :: "stream_env \<Rightarrow> stream_context \<Rightarrow> emission" where
  "generate_initial_events env c =
     and_then (with_manager (handle_message_start (create_message_start_event c)) c)
       (\<lambda>c. if thinking_enabled c then (c, [])
            else
              let (idx, m) = next_block_index (manager c)
              in with_manager (handle_content_block_start (env_hash_order env) idx ''text''
                   (ContentBlockStart idx TextBlock)) (c\<lparr>manager := m, text_block_index := Some idx\<rparr>))"

section \<open>One upstream event\<close>

definition process_assistant_response :: "stream_env \<Rightarrow> string \<Rightarrow> stream_context \<Rightarrow> emission" where
  "process_assistant_response env content c =
     (let (f, content) = XmlLeakFilter.leak_filter (xml_filter c) content;
          c = c\<lparr>xml_filter := f\<rparr>
      in if content = [] then (c, [])
         else and_then
           (if is_thinking_block_open c \<and> \<not> in_thinking_block c then close_open_thinking_block env c else (c, []))
           (\<lambda>c. let c = c\<lparr>output_tokens := output_tokens c + estimate_tokens content\<rparr>
                in if thinking_enabled c then process_content_with_thinking env content c
                   else create_text_delta_events env content c))"

text \<open>\<open>None\<close> and the empty string are treated alike by the handler.\<close>

definition or_empty :: "string option \<Rightarrow> string" where
  "or_empty s = (case s of Some t \<Rightarrow> t | None \<Rightarrow> [])"

definition process_reasoning_content :: "stream_env \<Rightarrow> reasoning_event \<Rightarrow> stream_context \<Rightarrow> emission" where
  "process_reasoning_content env reasoning c =
     (let txt = or_empty (rc_text reasoning);
          signature = or_empty (rc_signature reasoning);
          redacted = or_empty (rc_redacted reasoning);
          c = c\<lparr>thinking_text_emitted := thinking_text_emitted c \<or> \<not> is_blank txt\<rparr>
      in if \<not> thinking_enabled c
         then (c\<lparr>output_tokens := output_tokens c + (if txt \<noteq> [] then estimate_tokens txt else 0)
                   + (if redacted \<noteq> [] then 8 else 0)\<rparr>, [])
         else and_then (and_then
           (if signature \<noteq> [] then ensure_thinking_block env (c\<lparr>pending_thinking_signature := Some signature\<rparr>)
            else (c, []))
           (\<lambda>c. if txt = [] then (c, [])
                else and_then (ensure_thinking_block env (c\<lparr>output_tokens := output_tokens c + estimate_tokens txt\<rparr>))
                  (\<lambda>c. case thinking_block_index c of
                         Some idx \<Rightarrow> create_thinking_delta_event idx txt c
                       | None \<Rightarrow> (c, []))))
           (\<lambda>c. if redacted = [] then (c, [])
                else create_redacted_thinking_events env redacted
                       (c\<lparr>output_tokens := output_tokens c + 8\<rparr>)))"

text \<open>The end of a thinking block whose end tag is at the end of the buffer.\<close>

definition finish_tagged_thinking :: "stream_env \<Rightarrow> nat \<Rightarrow> stream_context \<Rightarrow> emission" where
  "finish_tagged_thinking env end_pos c =
     (let buf = thinking_buffer c; remaining = trim_start (drop (end_pos + length end_tag) buf) in
      and_then (and_then (thinking_delta_unless_empty (take end_pos buf) c)
        (\<lambda>c. end_tagged_thinking env (c\<lparr>in_thinking_block := False, thinking_extracted := True\<rparr>)))
        (\<lambda>c. let c = c\<lparr>thinking_buffer := []\<rparr>
             in if remaining \<noteq> [] then create_text_delta_events env remaining c else (c, [])))"

text \<open>The part of \<open>process_tool_use\<close> in front of the call: the text and the thinking that were held
  back are put out.\<close>

definition settle_before_tool :: "stream_env \<Rightarrow> stream_context \<Rightarrow> emission" where
  "settle_before_tool env c =
     (let c = c\<lparr>manager := (manager c)\<lparr>has_tool_use := True\<rparr>\<rparr> in
      and_then (and_then (and_then
        (if is_thinking_block_open c \<and> \<not> in_thinking_block c then close_open_thinking_block env c else (c, []))
        (\<lambda>c. let (s, held) = sniffer_abandon (sniffer c) in emit_sniffed env held (c\<lparr>sniffer := s\<rparr>)))
        (\<lambda>c. if thinking_enabled c \<and> in_thinking_block c
             then (case find_real_thinking_end_tag_at_buffer_end (thinking_buffer c) of
                     Some end_pos \<Rightarrow> finish_tagged_thinking env end_pos c
                   | None \<Rightarrow> (c, []))
             else (c, [])))
        (\<lambda>c. if thinking_enabled c \<and> \<not> in_thinking_block c \<and> \<not> thinking_extracted c \<and> thinking_buffer c \<noteq> []
             then create_text_delta_events env (thinking_buffer c) (c\<lparr>thinking_buffer := []\<rparr>)
             else (c, [])))"

text \<open>The rest of it.  A call whose arguments need no rewriting is streamed as it arrives, with what was
  buffered in front of it; any other call is put out whole when it is complete.\<close>

definition emit_tool_use :: "stream_env \<Rightarrow> tool_use_event \<Rightarrow> stream_context \<Rightarrow> emission" where
  "emit_tool_use env ev c =
     (let pending = map_of (tool_buffers c) (tool_use_id ev);
          kiro_name = (case pending of Some (n, _) \<Rightarrow> if n \<noteq> [] then n else tu_name ev | None \<Rightarrow> tu_name ev);
          stream_input = (kiro_name \<noteq> [] \<and> \<not> tool_input_needs_rewrite kiro_name (tool_names c));
          empty_input = ((case pending of Some (_, input) \<Rightarrow> is_blank input | None \<Rightarrow> True) \<and> is_blank (tu_input ev));
          buffered_prefix = (if stream_input \<and> map_of (tool_block_indices c) (tool_use_id ev) = None
                             then (case pending of Some (_, input) \<Rightarrow> input | None \<Rightarrow> []) else []);
          (result, buffers) = accumulator_push (env_parse_json env) (tool_names c) ev (tool_buffers c);
          c = c\<lparr>tool_buffers := buffers\<rparr>
      in case result of
           Inl e \<Rightarrow> (c\<lparr>tool_json_error := Some e, manager := set_stop_reason ''error'' (manager c)\<rparr>, [])
         | Inr completed \<Rightarrow>
             if stream_input \<and> (\<not> empty_input \<or> completed \<noteq> None) then
               let client_name = (case map_of (tool_names c) kiro_name of Some n \<Rightarrow> n | None \<Rightarrow> kiro_name);
                   (index, started) = start_tool_use env (tool_use_id ev) client_name c
               in and_then (and_then (and_then started
                    (emit_tool_input_fragment index buffered_prefix))
                    (emit_tool_input_fragment index (tu_input ev)))
                    (\<lambda>c. if completed = None then (c, [])
                         else and_then
                           (if empty_input then emit_tool_input_fragment index ''{}'' c else (c, []))
                           (with_manager (handle_content_block_stop index)))
             else (case completed of
                     Some call \<Rightarrow> emit_completed_tool_use env call c
                   | None \<Rightarrow> (c, [])))"

definition process_tool_use :: "stream_env \<Rightarrow> tool_use_event \<Rightarrow> stream_context \<Rightarrow> emission" where
  "process_tool_use env ev c = and_then (settle_before_tool env c) (emit_tool_use env ev)"

definition process_metadata :: "metadata_event \<Rightarrow> stream_context \<Rightarrow> stream_context" where
  "process_metadata md c =
     (let m = manager c;
          m = (case truncation_stop_reason md of
                 Some reason \<Rightarrow> if sm_stop_reason m = None then set_stop_reason reason m else m
               | None \<Rightarrow> m);
          c = (case md_token_usage md of
                 Some usage \<Rightarrow> c\<lparr>provider_token_usage := Some (sanitized usage)\<rparr> | None \<Rightarrow> c);
          c = (case md_stop_reason md of
                 Some reason \<Rightarrow> c\<lparr>native_stop_reason := Some reason\<rparr> | None \<Rightarrow> c);
          m = (if content_filter_refusal md \<noteq> None then set_stop_reason refusal_stop_reason m else m)
      in c\<lparr>manager := m\<rparr>)"

definition process_context_usage :: "stream_env \<Rightarrow> f64 \<Rightarrow> stream_context \<Rightarrow> stream_context" where
  "process_context_usage env percentage c =
     (let window_size = env_context_window env (model c);
          actual = f64_as_i32 (f64_div (f64_mul percentage (f64_of_int window_size)) 100);
          c = c\<lparr>context_input_tokens := Some actual\<rparr>
      in if f64_ge percentage 100 then c\<lparr>context_window_full := True\<rparr> else c)"

definition process_metering :: "metering_event \<Rightarrow> stream_context \<Rightarrow> stream_context" where
  "process_metering me c =
     (case metering_credits me of
        None \<Rightarrow> c
      | Some amount \<Rightarrow> c\<lparr>credits := f64_add (credits c) amount, metering := Some me\<rparr>)"

fun process_kiro_event :: "stream_env \<Rightarrow> kiro_event \<Rightarrow> stream_context \<Rightarrow> emission" where
  "process_kiro_event env (AssistantResponse content) c = process_assistant_response env content c"
| "process_kiro_event env (ToolUse ev) c = process_tool_use env ev c"
| "process_kiro_event env (ReasoningContent reasoning) c = process_reasoning_content env reasoning c"
| "process_kiro_event env (Metadata md) c = (process_metadata md c, [])"
| "process_kiro_event env (ContextUsage percentage) c = (process_context_usage env percentage c, [])"
| "process_kiro_event env (Metering me) c = (process_metering me c, [])"
| "process_kiro_event env (ServiceError code message) c = (c, [])"
| "process_kiro_event env (ServiceException etype message) c =
     ((if etype = ''ContentLengthExceededException''
       then c\<lparr>manager := set_stop_reason ''max_tokens'' (manager c)\<rparr> else c), [])"
| "process_kiro_event env Unknown c = (c, [])"

section \<open>The end of the stream\<close>

definition repeat_guard_error_message :: string where
  "repeat_guard_error_message =
     ''Upstream response stream was interrupted: the model output degenerated into a repeated-token loop. ''
     @ ''Retry the request.''"

definition tool_stream_refusal_message :: string where
  "tool_stream_refusal_message =
     ''Upstream refusal interrupted an incomplete tool call; discard its streamed arguments.''"

definition no_visible_output_type :: string where
  "no_visible_output_type = ''upstream_no_visible_output''"

definition no_visible_output_message :: string where
  "no_visible_output_message =
     ''The model finished reasoning without producing an answer or tool call. ''
     @ ''Reduce reasoning effort or shorten the conversation before retrying.''"

definition apply_native_stop_reason :: "stream_context \<Rightarrow> stream_context" where
  "apply_native_stop_reason c =
     (case map_option to_ascii_uppercase (native_stop_reason c) of
        Some reason \<Rightarrow>
          if reason = ''MAX_TOKENS'' then c\<lparr>manager := set_stop_reason ''max_tokens'' (manager c)\<rparr>
          else if reason = ''MODEL_CONTEXT_WINDOW_EXCEEDED''
          then c\<lparr>manager := set_stop_reason ''model_context_window_exceeded'' (manager c)\<rparr>
          else c
      | None \<Rightarrow>
          if context_window_full c
          then c\<lparr>manager := set_stop_reason ''model_context_window_exceeded'' (manager c)\<rparr> else c)"

definition resolved_usage :: "stream_context \<Rightarrow> int \<times> int \<times> int" where
  "resolved_usage c =
     (case provider_usage c of
        Some u \<Rightarrow> (uncached_input_tokens u, tu_cache_write u, tu_cache_read u)
      | None \<Rightarrow> split_against_total (ctx_cache_usage c)
                  (input_tokens_excluding_output (context_input_tokens c) (input_tokens c) (output_tokens c)))"

definition resolved_output_tokens :: "stream_context \<Rightarrow> int" where
  "resolved_output_tokens c =
     max 0 (case provider_usage c of Some u \<Rightarrow> tu_output_tokens u | None \<Rightarrow> output_tokens c)"

definition final_usage :: "stream_context \<Rightarrow> usage_report" where
  "final_usage c =
     (let (input, creation, cache_read) = resolved_usage c in
      \<lparr>ur_input = input, ur_output = resolved_output_tokens c, ur_cache_creation = creation,
       ur_cache_read = cache_read,
       ur_breakdown = creation_breakdown (ctx_cache_usage c) creation (provider_token_usage c \<noteq> None),
       ur_metering = metering c\<rparr>)"

definition stream_error_events :: "stream_env \<Rightarrow> string \<Rightarrow> string \<Rightarrow> stream_context \<Rightarrow> emission" where
  "stream_error_events env error_type message c =
     and_then (close_open_thinking_block env c)
       (with_manager (generate_error_events (env_hash_order env) error_type message))"

text \<open>What the filter, the thinking buffer and the sniffer still hold.\<close>

definition flush_xml_filter :: "stream_env \<Rightarrow> stream_context \<Rightarrow> emission" where
  "flush_xml_filter env c =
     (let (f, leftover) = leak_finish (xml_filter c); c = c\<lparr>xml_filter := f\<rparr> in
      if leftover = [] then (c, [])
      else if thinking_enabled c then process_content_with_thinking env leftover c
      else create_text_delta_events env leftover c)"

definition flush_thinking_buffer :: "stream_env \<Rightarrow> stream_context \<Rightarrow> emission" where
  "flush_thinking_buffer env c =
     (if \<not> thinking_enabled c \<or> thinking_buffer c = [] then (c, [])
      else and_then
        (if in_thinking_block c then
           (case find_real_thinking_end_tag_at_buffer_end (thinking_buffer c) of
              Some end_pos \<Rightarrow> finish_tagged_thinking env end_pos c
            | None \<Rightarrow> and_then (thinking_delta_unless_empty (thinking_buffer c) c) (end_tagged_thinking env))
         else create_text_delta_events env (thinking_buffer c) c)
        (\<lambda>c. (c\<lparr>thinking_buffer := []\<rparr>, [])))"

definition flush_sniffer :: "stream_env \<Rightarrow> stream_context \<Rightarrow> emission" where
  "flush_sniffer env c =
     (let (s, outputs) = sniffer_finish (env_parse_json env) (invoke_tool_schemas c) (sniffer c)
      in emit_sniffed env outputs (c\<lparr>sniffer := s\<rparr>))"

definition flush_held :: "stream_env \<Rightarrow> stream_context \<Rightarrow> emission" where
  "flush_held env c =
     and_then (and_then (and_then (flush_xml_filter env c)
       (\<lambda>c. if is_thinking_block_open c \<and> \<not> in_thinking_block c then close_open_thinking_block env c else (c, [])))
       (flush_thinking_buffer env))
       (flush_sniffer env)"

text \<open>The calls without arguments that were never closed, in order.\<close>

fun emit_recovered :: "stream_env \<Rightarrow> completed_tool_use list \<Rightarrow> stream_context \<Rightarrow> emission" where
  "emit_recovered env [] c = (c, [])"
| "emit_recovered env (call # calls) c =
     and_then (emit_completed_tool_use env call c) (emit_recovered env calls)"

definition refused :: "stream_context \<Rightarrow> bool" where
  "refused c \<longleftrightarrow> get_stop_reason (manager c) = refusal_stop_reason"

definition refused_in_tool_call :: "stream_context \<Rightarrow> bool" where
  "refused_in_tool_call c \<longleftrightarrow>
     refused c \<and> list_ex (\<lambda>(_, index). is_block_open_of_type (manager c) index ''tool_use'') (tool_block_indices c)"

definition settle_tool_calls :: "stream_env \<Rightarrow> stream_context \<Rightarrow> emission" where
  "settle_tool_calls env c =
     (if refused c then (c\<lparr>tool_json_error := None\<rparr>, [])
      else if tool_json_error c \<noteq> None then (c, [])
      else
        let result = accumulator_finish (env_buffer_order env) (tool_names c) (tool_buffers c);
            c = c\<lparr>tool_buffers := []\<rparr>
        in case result of
             Inr recovered \<Rightarrow> emit_recovered env recovered c
           | Inl e \<Rightarrow> (c\<lparr>tool_json_error := Some e, manager := set_stop_reason ''error'' (manager c)\<rparr>, []))"

definition close_reply :: "stream_env \<Rightarrow> stream_context \<Rightarrow> emission" where
  "close_reply env c =
     (case tool_json_error c of
        Some e \<Rightarrow> stream_error_events env (tool_json_error_type e) (tool_json_error_message e) c
      | None \<Rightarrow>
          if guard_tripped (repeat_guard c) then stream_error_events env ''api_error'' repeat_guard_error_message c
          else
            let c = apply_native_stop_reason c in
            if thinking_text_emitted c \<and> \<not> visible_output_emitted c \<and> \<not> has_tool_use (manager c)
               \<and> get_stop_reason (manager c) = ''end_turn''
            then stream_error_events env no_visible_output_type no_visible_output_message
                   (c\<lparr>no_visible_output := True\<rparr>)
            else with_manager (SseState.generate_final_events (env_hash_order env) (final_usage c)) c)"

definition stream_final_events :: "stream_env \<Rightarrow> stream_context \<Rightarrow> emission" where
  "stream_final_events env c =
     and_then (flush_held env c)
       (\<lambda>c. if refused_in_tool_call c
            then stream_error_events env ''permission_error'' tool_stream_refusal_message
                   (c\<lparr>tool_json_error := None, tool_stream_refused := True\<rparr>)
            else and_then (settle_tool_calls env c) (close_reply env))"

text \<open>What the response handlers do with a reply: the initial events, those of each upstream event,
  and the final ones.\<close>

fun process_events :: "stream_env \<Rightarrow> kiro_event list \<Rightarrow> stream_context \<Rightarrow> emission" where
  "process_events env [] c = (c, [])"
| "process_events env (ev # evs) c = and_then (process_kiro_event env ev c) (process_events env evs)"

definition stream_reply :: "stream_env \<Rightarrow> kiro_event list \<Rightarrow> stream_context \<Rightarrow> emission" where
  "stream_reply env evs c =
     and_then (and_then (generate_initial_events env c) (process_events env evs)) (stream_final_events env)"

end
