(* ===== verification/StreamProtocol.thy ===== *)
theory StreamProtocol
  imports StreamEvents
begin

text \<open>
  Every reply that \<open>StreamContext\<close> streams is accepted by the automaton of \<open>EventProtocol\<close>.  The
  judgement \<open>yields c ce Q\<close> says that the events of \<open>ce\<close> take the automaton from the state that \<open>c\<close>
  stands for to that of the resulting context, which has the property \<open>Q\<close>; it composes along
  \<open>and_then\<close>.  The invariant \<open>context_ok\<close> ties the blocks to the context: an open thinking block is the
  one at \<open>thinking_block_index\<close>, and the blocks of tool calls have the type of tool calls.
\<close>

section \<open>The blocks of the manager\<close>

definition open_thinking :: "state_manager \<Rightarrow> int set" where
  "open_thinking m = {i. is_block_open_of_type m i ''thinking''}"

definition has_type :: "state_manager \<Rightarrow> int \<Rightarrow> string \<Rightarrow> bool" where
  "has_type m i t \<longleftrightarrow> (\<exists>b. map_of (active_blocks m) i = Some b \<and> block_type b = t)"

text \<open>The manager is in order and no block has changed its type.\<close>

definition evolves :: "state_manager \<Rightarrow> state_manager \<Rightarrow> bool" where
  "evolves m m' \<longleftrightarrow> manager_ok m' \<and> manager_open m' \<and> (\<forall>i t. has_type m i t \<longrightarrow> has_type m' i t)"

lemma evolves_trans: "evolves a b \<Longrightarrow> evolves b c \<Longrightarrow> evolves a c"
  by (auto simp: evolves_def)

lemma evolves_type: "evolves m m' \<Longrightarrow> has_type m i t \<Longrightarrow> has_type m' i t"
  by (simp add: evolves_def)

lemma no_open_thinking_iff: "no_open_thinking m \<longleftrightarrow> open_thinking m = {}"
  by (auto simp: no_open_thinking_def open_thinking_def)

lemma open_has_type: "is_block_open_of_type m i t \<Longrightarrow> has_type m i t"
  by (auto simp: open_type_map_of has_type_def)

lemma has_type_unique: "has_type m i t \<Longrightarrow> is_block_open_of_type m i t' \<Longrightarrow> t' = t"
  by (auto simp: has_type_def open_type_map_of)

lemma started_block:
  assumes "next_block_index m = (i, m1)" "manager_ok m" "manager_open m" "rearranges ho"
    and "handle_content_block_start ho i (block_type_of blk) (ContentBlockStart i blk) m1 = (m', es)"
  shows "accepted m es m'" "evolves m m'" "is_block_open_of_type m' i (block_type_of blk)"
    "open_thinking m' = (if block_type_of blk = ''thinking'' then insert i (open_thinking m) else open_thinking m)"
proof -
  note st = accepted_start[OF assms(5,1,2,3,4)]
  have fresh: "map_of (active_blocks m) i = None"
    using map_of_fresh[OF assms(2)] assms(1) by (auto simp: next_block_index_def)
  show "accepted m es m'" by (rule st(1))
  show opened: "is_block_open_of_type m' i (block_type_of blk)"
    using st(5) by (simp add: is_block_open_of_type_def)
  have "has_type m' j t" if "has_type m j t" for j t
  proof -
    from that obtain b where b: "map_of (active_blocks m) j = Some b" "block_type b = t"
      by (auto simp: has_type_def)
    with fresh have "j \<noteq> i" by auto
    from st(6)[OF this b(1)] b(2) show ?thesis by (auto simp: has_type_def)
  qed
  with st(2,3) show "evolves m m'" by (simp add: evolves_def)
  have other: "is_block_open_of_type m' j ''thinking'' \<longleftrightarrow> is_block_open_of_type m j ''thinking''" if "j \<noteq> i" for j
  proof (cases "map_of (active_blocks m) j")
    case None
    with st(7)[OF that] show ?thesis by (simp add: is_block_open_of_type_def)
  next
    case (Some b)
    from st(6)[OF that Some] Some show ?thesis by (auto simp: is_block_open_of_type_def)
  qed
  have "is_block_open_of_type m' i ''thinking'' \<longleftrightarrow> block_type_of blk = ''thinking''"
    using st(5) by (simp add: is_block_open_of_type_def)
  moreover have "\<not> is_block_open_of_type m i ''thinking''"
    using fresh by (simp add: is_block_open_of_type_def)
  ultimately have "is_block_open_of_type m' j ''thinking''
      \<longleftrightarrow> j = i \<and> block_type_of blk = ''thinking'' \<or> is_block_open_of_type m j ''thinking''" for j
    using other[of j] by (cases "j = i") auto
  then show "open_thinking m' = (if block_type_of blk = ''thinking'' then insert i (open_thinking m) else open_thinking m)"
    by (auto simp: open_thinking_def)
qed

lemma stopped_block:
  assumes "handle_content_block_stop i m = (m', es)" "manager_open m" "manager_ok m"
    and "\<not> is_block_open_of_type m i ''thinking''"
  shows "accepted m es m'" "evolves m m'" "open_thinking m' = open_thinking m"
proof -
  note st = accepted_stop[OF assms]
  show "accepted m es m'" by (rule st(1))
  have "has_type m' j t" if "has_type m j t" for j t
    using that st(5,7) by (cases "j = i") (auto simp: has_type_def)
  with st(2,3) show "evolves m m'" by (simp add: evolves_def)
  have "is_block_open_of_type m' j ''thinking'' \<longleftrightarrow> is_block_open_of_type m j ''thinking''" for j
    using st(5,6) assms(4) by (cases "j = i") (auto simp: is_block_open_of_type_def)
  then show "open_thinking m' = open_thinking m" by (simp add: open_thinking_def)
qed

lemma stopped_thinking:
  assumes "is_block_open_of_type m i ''thinking''" "manager_open m" "manager_ok m"
    and "handle_content_block_stop i m = (m', es)"
  shows "accepted m (ContentBlockDelta i (SignatureDelta sig) # es) m'" "evolves m m'"
    "open_thinking m' = open_thinking m - {i}"
proof -
  note cl = accepted_close_thinking[OF assms(1-4)]
  from cl(1) show "accepted m (ContentBlockDelta i (SignatureDelta sig) # es) m'" by simp
  from assms(1) obtain b where b: "map_of (active_blocks m) i = Some b" "block_type b = ''thinking''"
    by (auto simp: open_type_map_of)
  have "has_type m' j t" if "has_type m j t" for j t
    using that cl(4) b by (auto simp: has_type_def)
  with cl(2,3) show "evolves m m'" by (simp add: evolves_def)
  show "open_thinking m' = open_thinking m - {i}"
    using cl(4) by (auto simp: open_thinking_def is_block_open_of_type_def)
qed

section \<open>The judgement\<close>

definition yields :: "stream_context \<Rightarrow> emission \<Rightarrow> (stream_context \<Rightarrow> bool) \<Rightarrow> bool" where
  "yields c ce Q \<longleftrightarrow> accepted (manager c) (snd ce) (manager (fst ce)) \<and> Q (fst ce)"

lemma and_then_snd: "snd (and_then ce f) = snd ce @ snd (f (fst ce))"
  by (simp add: and_then_def split: prod.splits)

lemma yields_and_then:
  "yields c ce Q \<Longrightarrow> (\<And>c'. Q c' \<Longrightarrow> yields c' (f c') R) \<Longrightarrow> yields c (and_then ce f) R"
  by (auto simp: yields_def and_then_fst and_then_snd intro: accepted_append)

lemma yields_mono: "yields c ce Q \<Longrightarrow> (\<And>c'. Q c' \<Longrightarrow> R c') \<Longrightarrow> yields c ce R"
  by (simp add: yields_def)

lemma accepted_cong: "(\<And>s. abs_manager s m1 = abs_manager s m) \<Longrightarrow> accepted m1 es m' \<Longrightarrow> accepted m es m'"
  by (simp add: accepted_def)

lemma yields_from: "(\<And>s. abs_manager s (manager c1) = abs_manager s (manager c)) \<Longrightarrow> yields c1 ce Q \<Longrightarrow> yields c ce Q"
  by (auto simp: yields_def intro: accepted_cong)

lemma yields_pure: "(\<And>s. abs_manager s (manager c') = abs_manager s (manager c)) \<Longrightarrow> Q c' \<Longrightarrow> yields c (c', []) Q"
  by (auto simp: yields_def accepted_def)

lemma yields_manager:
  assumes "f (manager c) = (m', es)" "accepted (manager c) es m'" "Q (c\<lparr>manager := m'\<rparr>)"
  shows "yields c (with_manager f c) Q"
  using assms by (simp add: yields_def with_manager_def)

section \<open>The invariant\<close>

definition context_ok :: "stream_context \<Rightarrow> bool" where
  "context_ok c \<longleftrightarrow>
     manager_ok (manager c) \<and> manager_open (manager c)
     \<and> open_thinking (manager c) \<subseteq> set_option (thinking_block_index c)
     \<and> (\<forall>(_, i) \<in> set (tool_block_indices c). has_type (manager c) i ''tool_use'')"

text \<open>What the functions that put out text and tool calls leave alone.\<close>

definition keeps :: "stream_context \<Rightarrow> stream_context \<Rightarrow> bool" where
  "keeps c c' \<longleftrightarrow>
     in_thinking_block c' = in_thinking_block c \<and> thinking_extracted c' = thinking_extracted c
     \<and> thinking_enabled c' = thinking_enabled c \<and> thinking_block_index c' = thinking_block_index c
     \<and> open_thinking (manager c') = open_thinking (manager c)"

lemma keeps_refl [simp]: "keeps c c"
  by (simp add: keeps_def)

lemma keeps_trans: "keeps a b \<Longrightarrow> keeps b c \<Longrightarrow> keeps a c"
  by (simp add: keeps_def)

text \<open>The fields these depend on.\<close>

definition core ::
  "stream_context \<Rightarrow> state_manager \<times> int option \<times> (string \<times> int) list \<times> bool \<times> bool \<times> bool" where
  "core c = (manager c, thinking_block_index c, tool_block_indices c, in_thinking_block c,
     thinking_extracted c, thinking_enabled c)"

lemma context_ok_core: "core c = core c' \<Longrightarrow> context_ok c \<longleftrightarrow> context_ok c'"
  by (simp add: core_def context_ok_def)

lemma keeps_core: "core c = core c1 \<Longrightarrow> keeps c c' \<longleftrightarrow> keeps c1 c'" "core c = core c1 \<Longrightarrow> keeps c' c \<longleftrightarrow> keeps c' c1"
  by (simp_all add: core_def keeps_def)

lemma core_manager: "core c = core c' \<Longrightarrow> manager c = manager c'"
  by (simp add: core_def)

text \<open>A step that puts out text or tool calls.\<close>

definition text_step :: "stream_context \<Rightarrow> emission \<Rightarrow> bool" where
  "text_step c ce \<longleftrightarrow> (context_ok c \<longrightarrow> yields c ce (\<lambda>c'. context_ok c' \<and> keeps c c'))"

lemma text_step_and_then:
  assumes "text_step c ce" "\<And>c'. text_step c' (f c')"
  shows "text_step c (and_then ce f)"
  unfolding text_step_def
proof
  assume ok: "context_ok c"
  show "yields c (and_then ce f) (\<lambda>c'. context_ok c' \<and> keeps c c')"
  proof (rule yields_and_then)
    show "yields c ce (\<lambda>c'. context_ok c' \<and> keeps c c')" using assms(1) ok by (simp add: text_step_def)
    fix c' assume "context_ok c' \<and> keeps c c'"
    with assms(2)[of c'] show "yields c' (f c') (\<lambda>c'. context_ok c' \<and> keeps c c')"
      by (auto simp: text_step_def intro: keeps_trans elim!: yields_mono)
  qed
qed

lemma text_step_pure:
  assumes "core c' = core c"
  shows "text_step c (c', [])"
  unfolding text_step_def
proof (intro impI yields_pure)
  show "abs_manager s (manager c') = abs_manager s (manager c)" for s
    using core_manager[OF assms] by simp
  assume "context_ok c"
  with assms context_ok_core[OF assms] show "context_ok c' \<and> keeps c c'"
    by (simp add: core_def keeps_def)
qed

lemma text_step_from:
  assumes "core c1 = core c" "text_step c1 ce"
  shows "text_step c ce"
  unfolding text_step_def
proof (intro impI yields_from[of c1 c])
  show "abs_manager s (manager c1) = abs_manager s (manager c)" for s
    using core_manager[OF assms(1)] by simp
  assume "context_ok c"
  with assms context_ok_core[OF assms(1)] show "yields c1 ce (\<lambda>c'. context_ok c' \<and> keeps c c')"
    by (simp add: text_step_def keeps_core(1)[OF assms(1)])
qed

lemma context_ok_evolves:
  assumes "context_ok c" "evolves (manager c) m'" "open_thinking m' \<subseteq> set_option (thinking_block_index c)"
  shows "context_ok (c\<lparr>manager := m'\<rparr>)"
  using assms by (auto simp: context_ok_def evolves_def)

lemma text_step_manager:
  assumes "\<And>m' es. context_ok c \<Longrightarrow> f (manager c) = (m', es) \<Longrightarrow>
    accepted (manager c) es m' \<and> evolves (manager c) m' \<and> open_thinking m' = open_thinking (manager c)"
  shows "text_step c (with_manager f c)"
proof (cases "context_ok c")
  case True
  obtain m' es where f: "f (manager c) = (m', es)" by force
  have "open_thinking (manager c) \<subseteq> set_option (thinking_block_index c)"
    using True by (simp add: context_ok_def)
  with assms[OF True f] context_ok_evolves[OF True, of m'] show ?thesis
    by (simp add: text_step_def yields_def with_manager_def f keeps_def)
qed (simp add: text_step_def)

text \<open>A step that starts a block.  The context \<open>c1\<close> is \<open>c\<close> with the next index taken.\<close>

lemma yields_start:
  assumes "context_ok c" "next_block_index (manager c) = (i, m1)" "manager c1 = m1" "rearranges ho"
    and "\<And>m'. evolves (manager c) m' \<Longrightarrow> is_block_open_of_type m' i (block_type_of blk) \<Longrightarrow>
      open_thinking m' = (if block_type_of blk = ''thinking'' then insert i (open_thinking (manager c))
        else open_thinking (manager c)) \<Longrightarrow> Q (c1\<lparr>manager := m'\<rparr>)"
  shows "yields c (with_manager (handle_content_block_start ho i (block_type_of blk) (ContentBlockStart i blk)) c1) Q"
proof -
  obtain m' es where st: "handle_content_block_start ho i (block_type_of blk) (ContentBlockStart i blk) m1 = (m', es)"
    by force
  have "manager_ok (manager c)" "manager_open (manager c)" using assms(1) by (simp_all add: context_ok_def)
  note sb = started_block[OF assms(2) this assms(4) st]
  from sb(1) assms(3) assms(5)[OF sb(2-4)] show ?thesis
    by (simp add: yields_def with_manager_def st)
qed

lemma yields_start_other:
  assumes "context_ok c" "next_block_index (manager c) = (i, m1)" "manager c1 = m1" "rearranges ho"
    and "btype = block_type_of blk" "btype \<noteq> ''thinking''"
    and "\<And>m'. evolves (manager c) m' \<Longrightarrow> is_block_open_of_type m' i btype \<Longrightarrow>
      open_thinking m' = open_thinking (manager c) \<Longrightarrow> Q (c1\<lparr>manager := m'\<rparr>)"
  shows "yields c (with_manager (handle_content_block_start ho i btype (ContentBlockStart i blk)) c1) Q"
  using yields_start[OF assms(1-4), of blk Q] assms(5-7) by simp

lemma yields_start_thinking:
  assumes "context_ok c" "next_block_index (manager c) = (i, m1)" "manager c1 = m1" "rearranges ho"
    and "\<And>m'. evolves (manager c) m' \<Longrightarrow> is_block_open_of_type m' i ''thinking'' \<Longrightarrow>
      open_thinking m' = insert i (open_thinking (manager c)) \<Longrightarrow> Q (c1\<lparr>manager := m'\<rparr>)"
  shows "yields c (with_manager (handle_content_block_start ho i ''thinking'' (ContentBlockStart i ThinkingBlock)) c1) Q"
  using yields_start[OF assms(1-4), of ThinkingBlock Q] assms(5) by simp

section \<open>Text and tool calls\<close>

lemma yields_delta:
  assumes "context_ok c" "has_type (manager c) i (delta_block_type d)"
  shows "yields c (c, handle_content_block_delta i (ContentBlockDelta i d) (manager c)) (\<lambda>c'. c' = c)"
proof (cases "is_block_open_of_type (manager c) i (delta_block_type d)")
  case True
  then have "handle_content_block_delta i (ContentBlockDelta i d) (manager c) = [ContentBlockDelta i d]"
    by (auto simp: open_type_map_of handle_content_block_delta_def block_open_def)
  with accepted_delta[OF True] assms(1) show ?thesis by (simp add: yields_def context_ok_def)
next
  case False
  with assms(2) have "handle_content_block_delta i (ContentBlockDelta i d) (manager c) = []"
    by (auto simp: open_type_map_of has_type_def handle_content_block_delta_def block_open_def)
  then show ?thesis by (simp add: yields_def)
qed

text \<open>A step on the block of a tool call.\<close>

definition tool_step :: "int \<Rightarrow> stream_context \<Rightarrow> emission \<Rightarrow> bool" where
  "tool_step i c ce \<longleftrightarrow> (context_ok c \<longrightarrow> has_type (manager c) i ''tool_use'' \<longrightarrow>
     yields c ce (\<lambda>c'. context_ok c' \<and> keeps c c' \<and> has_type (manager c') i ''tool_use''))"

lemma tool_step_and_then:
  assumes "tool_step i c ce" "\<And>c'. tool_step i c' (f c')"
  shows "tool_step i c (and_then ce f)"
  unfolding tool_step_def
proof (intro impI)
  assume ok: "context_ok c" "has_type (manager c) i ''tool_use''"
  show "yields c (and_then ce f) (\<lambda>c'. context_ok c' \<and> keeps c c' \<and> has_type (manager c') i ''tool_use'')"
  proof (rule yields_and_then)
    show "yields c ce (\<lambda>c'. context_ok c' \<and> keeps c c' \<and> has_type (manager c') i ''tool_use'')"
      using assms(1) ok by (simp add: tool_step_def)
    fix c' assume "context_ok c' \<and> keeps c c' \<and> has_type (manager c') i ''tool_use''"
    with assms(2)[of c']
    show "yields c' (f c') (\<lambda>c'. context_ok c' \<and> keeps c c' \<and> has_type (manager c') i ''tool_use'')"
      by (auto simp: tool_step_def intro: keeps_trans elim!: yields_mono)
  qed
qed

lemma tool_step_nil [simp]: "tool_step i c (c, [])"
  by (simp add: tool_step_def yields_def)

lemma tool_step_stop: "tool_step i c (with_manager (handle_content_block_stop i) c)"
  unfolding tool_step_def
proof (intro impI)
  assume ok: "context_ok c" and tool: "has_type (manager c) i ''tool_use''"
  obtain m' es where st: "handle_content_block_stop i (manager c) = (m', es)" by force
  have "\<not> is_block_open_of_type (manager c) i ''thinking''" using has_type_unique[OF tool] by fastforce
  with ok stopped_block[OF st] have sb: "accepted (manager c) es m'" "evolves (manager c) m'"
    "open_thinking m' = open_thinking (manager c)" by (simp_all add: context_ok_def)
  have "open_thinking m' \<subseteq> set_option (thinking_block_index c)" using ok sb(3) by (simp add: context_ok_def)
  with context_ok_evolves[OF ok sb(2)] sb evolves_type[OF sb(2) tool]
  show "yields c (with_manager (handle_content_block_stop i) c)
      (\<lambda>c'. context_ok c' \<and> keeps c c' \<and> has_type (manager c') i ''tool_use'')"
    by (simp add: yields_def with_manager_def st keeps_def)
qed

lemma tool_step_fragment: "tool_step i c (emit_tool_input_fragment i input c)"
proof (cases "input = []")
  case False
  show ?thesis
    unfolding tool_step_def
  proof (intro impI)
    assume ok: "context_ok c" and tool: "has_type (manager c) i ''tool_use''"
    define c1 where "c1 = fst (emit_tool_input_fragment i input c)"
    have "core c1 = core c \<and> snd (emit_tool_input_fragment i input c)
        = handle_content_block_delta i (ContentBlockDelta i (InputJsonDelta input)) (manager c1)"
      using False by (simp add: c1_def emit_tool_input_fragment_def Let_def core_def split: prod.split)
    then have c1: "emit_tool_input_fragment i input c
        = (c1, handle_content_block_delta i (ContentBlockDelta i (InputJsonDelta input)) (manager c1))"
      "core c1 = core c"
      by (simp_all add: c1_def prod_eq_iff)
    have "context_ok c1" "has_type (manager c1) i (delta_block_type (InputJsonDelta input))" "keeps c c1"
      using ok tool context_ok_core[OF c1(2)] core_manager[OF c1(2)] c1(2) by (simp_all add: core_def keeps_def)
    with yields_delta[OF this(1,2)] core_manager[OF c1(2)] tool
    show "yields c (emit_tool_input_fragment i input c)
        (\<lambda>c'. context_ok c' \<and> keeps c c' \<and> has_type (manager c') i ''tool_use'')"
      by (auto simp: c1(1) yields_def)
  qed
qed (simp add: emit_tool_input_fragment_def)

lemma start_tool_use_yields:
  assumes "rearranges (env_hash_order env)" "context_ok c" "start_tool_use env tid name c = (i, ce)"
  shows "yields c ce (\<lambda>c'. context_ok c' \<and> keeps c c' \<and> has_type (manager c') i ''tool_use'')"
proof (cases "map_of (tool_block_indices c) tid")
  case (Some j)
  with assms(3) have "i = j" "ce = (c, [])" by (simp_all add: start_tool_use_def)
  with map_of_SomeD[OF Some] assms(2) show ?thesis
    by (auto simp: yields_def context_ok_def)
next
  case None
  obtain j m where n: "next_block_index (manager c) = (j, m)" by force
  with None assms(3) have i: "i = j" "ce = with_manager (handle_content_block_start (env_hash_order env) j ''tool_use''
      (ContentBlockStart j (ToolUseBlock tid name)))
      (c\<lparr>manager := m, tool_block_indices := map_insert tid j (tool_block_indices c)\<rparr>)"
    by (auto simp: start_tool_use_def Let_def)
  let ?c1 = "c\<lparr>manager := m, tool_block_indices := map_insert tid j (tool_block_indices c)\<rparr>"
  show ?thesis
    unfolding i
  proof (rule yields_start_other[OF assms(2) n _ assms(1)])
    fix m' assume m': "evolves (manager c) m'" "is_block_open_of_type m' j ''tool_use''"
      "open_thinking m' = open_thinking (manager c)"
    have "has_type m' k ''tool_use''" if "(t, k) \<in> set (map_insert tid j (tool_block_indices c))" for t k
      using RustStd.set_insert[OF that] assms(2) m' open_has_type[OF m'(2)]
      by (fastforce simp: context_ok_def evolves_def)
    with assms(2) m' open_has_type[OF m'(2)]
    show "context_ok (?c1\<lparr>manager := m'\<rparr>) \<and> keeps c (?c1\<lparr>manager := m'\<rparr>)
      \<and> has_type (manager (?c1\<lparr>manager := m'\<rparr>)) j ''tool_use''"
      by (auto simp: context_ok_def keeps_def evolves_def)
  qed simp_all
qed

lemma text_step_with_tool:
  assumes "rearranges (env_hash_order env)" "start_tool_use env tid name c = (i, ce)" "\<And>c'. tool_step i c' (f c')"
  shows "text_step c (and_then ce f)"
  unfolding text_step_def
proof
  assume ok: "context_ok c"
  show "yields c (and_then ce f) (\<lambda>c'. context_ok c' \<and> keeps c c')"
  proof (rule yields_and_then[OF start_tool_use_yields[OF assms(1) ok assms(2)]])
    fix c' assume "context_ok c' \<and> keeps c c' \<and> has_type (manager c') i ''tool_use''"
    with assms(3)[of c'] show "yields c' (f c') (\<lambda>c'. context_ok c' \<and> keeps c c')"
      by (auto simp: tool_step_def intro: keeps_trans elim!: yields_mono)
  qed
qed

lemma and_then_assoc: "and_then (and_then ce f) g = and_then ce (\<lambda>c. and_then (f c) g)"
  by (simp add: and_then_def split: prod.splits)

lemma text_step_completed:
  assumes "rearranges (env_hash_order env)"
  shows "text_step c (emit_completed_tool_use env call c)"
proof -
  obtain i ce where st: "start_tool_use env (ct_id call) (ct_name call) c = (i, ce)"
    by (rule prod.exhaust)
  show ?thesis
    unfolding emit_completed_tool_use_def st Let_def prod.case and_then_assoc
    by (rule text_step_with_tool[OF assms st]) (intro tool_step_and_then tool_step_fragment tool_step_stop)
qed

text \<open>A text delta for the open text block, or for a new one.\<close>

lemma yields_text_delta:
  assumes "context_ok c" "is_block_open_of_type (manager c) i ''text''"
  shows "yields c (c, handle_content_block_delta i (ContentBlockDelta i (TextDelta txt)) (manager c)) (\<lambda>c'. c' = c)"
  using yields_delta[OF assms(1), of i "TextDelta txt"] open_has_type[OF assms(2)] by simp

lemma text_step_delta:
  assumes ho: "rearranges (env_hash_order env)"
    and opened: "\<And>i. text_block_index c = Some i \<Longrightarrow> is_block_open_of_type (manager c) i ''text''"
  shows "text_step c
    (let (text_index, started) =
       (case text_block_index c of
          Some idx \<Rightarrow> (idx, (c, []))
        | None \<Rightarrow>
            let (idx, m) = next_block_index (manager c)
            in (idx, with_manager (handle_content_block_start (env_hash_order env) idx ''text''
                       (ContentBlockStart idx TextBlock)) (c\<lparr>manager := m, text_block_index := Some idx\<rparr>)))
     in and_then started (\<lambda>c. (c, handle_content_block_delta text_index
          (ContentBlockDelta text_index (TextDelta kept)) (manager c))))"
proof (cases "text_block_index c")
  case (Some i)
  have "yields c (c, handle_content_block_delta i (ContentBlockDelta i (TextDelta kept)) (manager c))
      (\<lambda>c'. context_ok c' \<and> keeps c c')" if "context_ok c"
    using yields_text_delta[OF that opened[OF Some], of kept] that by (auto elim!: yields_mono)
  with Some show ?thesis by (simp add: text_step_def and_then_def)
next
  case None
  obtain i m where n: "next_block_index (manager c) = (i, m)" by force
  let ?c1 = "c\<lparr>manager := m, text_block_index := Some i\<rparr>"
  let ?start = "with_manager (handle_content_block_start (env_hash_order env) i ''text'' (ContentBlockStart i TextBlock)) ?c1"
  let ?Q = "\<lambda>c'. context_ok c' \<and> keeps c c' \<and> is_block_open_of_type (manager c') i ''text''"
  have "yields c (and_then ?start (\<lambda>c. (c, handle_content_block_delta i (ContentBlockDelta i (TextDelta kept)) (manager c))))
      (\<lambda>c'. context_ok c' \<and> keeps c c')" if ok: "context_ok c"
  proof (rule yields_and_then[where Q = ?Q])
    show "yields c ?start ?Q"
    proof (rule yields_start_other[OF ok n _ ho])
      fix m' assume m': "evolves (manager c) m'" "is_block_open_of_type m' i ''text''"
        "open_thinking m' = open_thinking (manager c)"
      with ok show "?Q (?c1\<lparr>manager := m'\<rparr>)"
        by (auto simp: context_ok_def keeps_def evolves_def)
    qed simp_all
    fix c' assume c': "?Q c'"
    then show "yields c' (c', handle_content_block_delta i (ContentBlockDelta i (TextDelta kept)) (manager c'))
        (\<lambda>c'. context_ok c' \<and> keeps c c')"
      using yields_text_delta[of c' i kept] by (auto elim!: yields_mono)
  qed
  with None n show ?thesis by (simp add: text_step_def)
qed

lemma text_step_text:
  assumes "rearranges (env_hash_order env)"
  shows "text_step c (emit_text_delta_raw env txt c)"
proof -
  obtain g kept where f: "repeat_guard_filter (repeat_guard c) txt = (g, kept)" by force
  define c1 where "c1 = c\<lparr>repeat_guard := g, visible_output_emitted := visible_output_emitted c \<or> \<not> is_blank kept\<rparr>"
  define c2 where "c2 = (if \<not> is_blank kept then c1\<lparr>visible_text_emitted := True\<rparr> else c1)"
  define c3 where "c3 = (case text_block_index c2 of
      Some idx \<Rightarrow> if \<not> is_block_open_of_type (manager c2) idx ''text'' then c2\<lparr>text_block_index := None\<rparr> else c2
    | None \<Rightarrow> c2)"
  have core: "core c1 = core c" "core c3 = core c"
    by (simp_all add: c3_def c2_def c1_def core_def split: option.split)
  have opened: "is_block_open_of_type (manager c3) i ''text''" if "text_block_index c3 = Some i" for i
    using that by (auto simp: c3_def split: option.splits if_splits)
  show ?thesis
  proof (cases "kept = []")
    case True
    then show ?thesis
      using text_step_pure[OF core(1)] by (simp add: emit_text_delta_raw_def f c1_def)
  next
    case False
    then show ?thesis
      unfolding emit_text_delta_raw_def f Let_def prod.case
      unfolding c1_def[symmetric] c2_def[symmetric] c3_def[symmetric]
      using text_step_from[OF core(2) text_step_delta[OF assms opened, unfolded Let_def]] by simp
  qed
qed

lemma text_step_sniffed:
  assumes "rearranges (env_hash_order env)"
  shows "text_step c (emit_sniffed env outputs c)"
proof (induction outputs arbitrary: c)
  case (Cons out outputs)
  show ?case
  proof (cases out)
    case (SniffText s)
    show ?thesis
      unfolding SniffText emit_sniffed.simps
      by (intro text_step_and_then text_step_text[OF assms] Cons.IH)
  next
    case (SniffToolCall name input)
    have "core (c\<lparr>uuid_counter := uuid_counter c + 1\<rparr>) = core c" by (simp add: core_def)
    then show ?thesis
      unfolding SniffToolCall emit_sniffed.simps Let_def
      by (intro text_step_and_then Cons.IH) (rule text_step_from[OF _ text_step_completed[OF assms]])
  qed
qed (simp add: text_step_pure)

lemma text_step_create:
  assumes "rearranges (env_hash_order env)"
  shows "text_step c (create_text_delta_events env txt c)"
proof (cases "txt = []")
  case False
  obtain s outputs where p: "sniffer_push (env_parse_json env) (invoke_tool_schemas c) txt (sniffer c) = (s, outputs)"
    by force
  have "core (c\<lparr>sniffer := s\<rparr>) = core c" by (simp add: core_def)
  from text_step_from[OF this text_step_sniffed[OF assms]] False p show ?thesis
    by (simp add: create_text_delta_events_def)
qed (simp add: create_text_delta_events_def text_step_pure)

lemma text_step_close_text: "text_step c (close_open_text_block c)"
proof (cases "text_block_index c")
  case (Some i)
  have core: "core (c\<lparr>text_block_index := None\<rparr>) = core c" by (simp add: core_def)
  show ?thesis
  proof (cases "is_block_open_of_type (manager c) i ''text''")
    case True
    have "\<not> is_block_open_of_type (manager c) i ''thinking''"
      using has_type_unique[OF open_has_type[OF True]] by fastforce
    then have "text_step (c\<lparr>text_block_index := None\<rparr>)
        (with_manager (handle_content_block_stop i) (c\<lparr>text_block_index := None\<rparr>))"
      by (intro text_step_manager) (auto simp: context_ok_def dest: stopped_block)
    with True Some text_step_from[OF core] show ?thesis by (simp add: close_open_text_block_def)
  qed (use Some core in \<open>simp add: close_open_text_block_def text_step_pure\<close>)
qed (simp add: close_open_text_block_def text_step_pure)

section \<open>Thinking\<close>

text \<open>Inside a tagged thinking its block is open; a thinking block that is open while the tags have not
  been looked for to the end is that one.\<close>

definition thinking_ok :: "stream_context \<Rightarrow> bool" where
  "thinking_ok c \<longleftrightarrow>
     (in_thinking_block c \<longrightarrow> is_thinking_block_open c \<and> thinking_enabled c)
     \<and> (\<not> in_thinking_block c \<and> \<not> thinking_extracted c \<longrightarrow> open_thinking (manager c) = {})"

definition stream_ok :: "stream_context \<Rightarrow> bool" where
  "stream_ok c \<longleftrightarrow> context_ok c \<and> thinking_ok c"

lemma thinking_open_iff:
  "is_thinking_block_open c \<longleftrightarrow> (\<exists>i. thinking_block_index c = Some i \<and> i \<in> open_thinking (manager c))"
  by (auto simp: is_thinking_block_open_def open_thinking_def split: option.split)

lemma not_thinking_open:
  "context_ok c \<Longrightarrow> \<not> is_thinking_block_open c \<Longrightarrow> open_thinking (manager c) = {}"
  by (cases "thinking_block_index c") (auto simp: context_ok_def thinking_open_iff)

lemma thinking_ok_keeps: "keeps c c' \<Longrightarrow> thinking_ok c' \<longleftrightarrow> thinking_ok c"
  by (simp add: keeps_def thinking_ok_def thinking_open_iff)

lemma stream_ok_core: "core c = core c' \<Longrightarrow> stream_ok c \<longleftrightarrow> stream_ok c'"
  using context_ok_core[of c c'] by (auto simp: stream_ok_def thinking_ok_def thinking_open_iff core_def)

lemma text_step_stream_ok:
  "text_step c ce \<Longrightarrow> stream_ok c \<Longrightarrow> yields c ce (\<lambda>c'. stream_ok c' \<and> keeps c c')"
  by (auto simp: text_step_def stream_ok_def thinking_ok_keeps elim!: yields_mono)

text \<open>The closing of the open thinking block.\<close>

definition thinking_closed :: "stream_context \<Rightarrow> stream_context \<Rightarrow> bool" where
  "thinking_closed c c' \<longleftrightarrow>
     context_ok c' \<and> open_thinking (manager c') = {} \<and> in_thinking_block c' = in_thinking_block c
     \<and> thinking_extracted c' = thinking_extracted c \<and> thinking_enabled c' = thinking_enabled c"

lemma yields_thinking_delta:
  assumes "context_ok c" "thinking_block_index c = Some i" "i \<in> open_thinking (manager c)"
  shows "yields c (create_thinking_delta_event i txt c) (\<lambda>c'. core c' = core c)"
proof -
  have "is_block_open_of_type (manager c) i (delta_block_type (ThinkingDelta txt))"
    using assms(3) by (simp add: open_thinking_def)
  with accepted_delta[OF this] assms(1) show ?thesis
    by (simp add: create_thinking_delta_event_def yields_def core_def context_ok_def)
qed

lemma yields_delta_unless_empty:
  assumes "context_ok c" "is_thinking_block_open c"
  shows "yields c (thinking_delta_unless_empty txt c) (\<lambda>c'. core c' = core c)"
proof -
  from assms(2) obtain i where "thinking_block_index c = Some i" "i \<in> open_thinking (manager c)"
    by (auto simp: thinking_open_iff)
  from yields_thinking_delta[OF assms(1) this] this(1) show ?thesis
    by (simp add: thinking_delta_unless_empty_def yields_pure)
qed

text \<open>The three closing events, with any signature.\<close>

lemma yields_closing:
  assumes "context_ok c" "thinking_block_index c = Some i" "i \<in> open_thinking (manager c)"
  shows "yields c (and_then (and_then (create_thinking_delta_event i [] c)
      (create_signature_delta_event_with env i signature)) (with_manager (handle_content_block_stop i)))
      (thinking_closed c)"
  unfolding and_then_assoc
proof (rule yields_and_then[OF yields_thinking_delta[OF assms]])
  fix c1 assume core: "core c1 = core c"
  then have m: "manager c1 = manager c" by (rule core_manager)
  obtain m' es where st: "handle_content_block_stop i (manager c) = (m', es)" by force
  have "is_block_open_of_type (manager c) i ''thinking''" using assms(3) by (simp add: open_thinking_def)
  then have sb: "accepted (manager c) (ContentBlockDelta i (SignatureDelta sig) # es) m'" "evolves (manager c) m'"
    "open_thinking m' = open_thinking (manager c) - {i}" for sig
    using stopped_thinking[OF _ _ _ st] assms(1) by (simp_all add: context_ok_def)
  have gone: "open_thinking m' = {}"
    using sb(3) assms(1,2) by (auto simp: context_ok_def)
  have "context_ok c1" using assms(1) context_ok_core[OF core] by simp
  with sb(2) gone m have "context_ok (c1\<lparr>manager := m'\<rparr>)" by (simp add: context_ok_evolves)
  with sb(1) gone core m st
  show "yields c1 (and_then (create_signature_delta_event_with env i signature c1)
      (with_manager (handle_content_block_stop i))) (thinking_closed c)"
    by (simp add: yields_def and_then_def create_signature_delta_event_with_def with_manager_def
        thinking_closed_def core_def)
qed

lemma yields_close_thinking:
  assumes "context_ok c"
  shows "yields c (close_open_thinking_block env c) (thinking_closed c)"
proof (cases "is_thinking_block_open c")
  case True
  then obtain i where i: "thinking_block_index c = Some i" "i \<in> open_thinking (manager c)"
    by (auto simp: thinking_open_iff)
  let ?c = "c\<lparr>pending_thinking_signature := None\<rparr>"
  have c: "context_ok ?c" "thinking_block_index ?c = Some i" "i \<in> open_thinking (manager ?c)"
    using assms i by (simp_all add: context_ok_def)
  have "thinking_closed ?c = thinking_closed c" by (rule ext) (simp add: thinking_closed_def)
  with yields_closing[OF c] have "yields c (and_then (and_then (create_thinking_delta_event i [] ?c)
      (create_signature_delta_event_with env i sig)) (with_manager (handle_content_block_stop i)))
      (thinking_closed c)" for sig
    by (intro yields_from[of ?c c]) simp_all
  with i show ?thesis
    by (simp add: close_open_thinking_block_def open_thinking_def Let_def)
next
  case False
  from not_thinking_open[OF assms False] assms False show ?thesis
    by (auto simp: close_open_thinking_block_def is_thinking_block_open_def thinking_closed_def
        intro!: yields_pure split: option.split)
qed

lemma yields_end_tagged:
  assumes "context_ok c" "is_thinking_block_open c"
  shows "yields c (end_tagged_thinking env c) (thinking_closed c)"
proof -
  from assms(2) obtain i where i: "thinking_block_index c = Some i" "i \<in> open_thinking (manager c)"
    by (auto simp: thinking_open_iff)
  have "create_signature_delta_event env i = create_signature_delta_event_with env i thinking_signature_placeholder"
    by (rule ext) (simp add: create_signature_delta_event_def)
  with yields_closing[OF assms(1) i] i(1) show ?thesis
    by (simp add: end_tagged_thinking_def)
qed

lemma thinking_closed_ok:
  "thinking_closed c c' \<Longrightarrow> \<not> in_thinking_block c \<Longrightarrow> stream_ok c'"
  by (auto simp: thinking_closed_def stream_ok_def thinking_ok_def)

lemma yields_close_outside:
  assumes "stream_ok c"
  shows "yields c (if is_thinking_block_open c \<and> \<not> in_thinking_block c then close_open_thinking_block env c
      else (c, [])) (\<lambda>c'. stream_ok c' \<and> in_thinking_block c' = in_thinking_block c
        \<and> thinking_enabled c' = thinking_enabled c \<and> (\<not> in_thinking_block c \<longrightarrow> open_thinking (manager c') = {}))"
proof (cases "is_thinking_block_open c \<and> \<not> in_thinking_block c")
  case True
  have "context_ok c" using assms by (simp add: stream_ok_def)
  from yields_close_thinking[OF this, of env] True thinking_closed_ok[of c] show ?thesis
    by (auto simp: thinking_closed_def elim!: yields_mono)
next
  case False
  with assms not_thinking_open[of c] show ?thesis by (auto simp: stream_ok_def intro!: yields_pure)
qed

definition flags :: "stream_context \<Rightarrow> bool \<times> bool \<times> bool" where
  "flags c = (in_thinking_block c, thinking_extracted c, thinking_enabled c)"

lemma yields_open_thinking:
  assumes "rearranges (env_hash_order env)" "context_ok c" "open_thinking (manager c) = {}"
  shows "yields c (open_thinking_block env c)
    (\<lambda>c'. context_ok c' \<and> is_thinking_block_open c' \<and> flags c' = flags c)"
proof -
  obtain i m where n: "next_block_index (manager c) = (i, m)" by force
  let ?c1 = "c\<lparr>manager := m, thinking_block_index := Some i\<rparr>"
  have "yields c (with_manager (handle_content_block_start (env_hash_order env) i ''thinking''
      (ContentBlockStart i ThinkingBlock)) ?c1)
    (\<lambda>c'. context_ok c' \<and> is_thinking_block_open c' \<and> flags c' = flags c)"
  proof (rule yields_start_thinking[OF assms(2) n _ assms(1)])
    fix m' assume m': "evolves (manager c) m'" "is_block_open_of_type m' i ''thinking''"
      "open_thinking m' = insert i (open_thinking (manager c))"
    with assms(2,3) show "context_ok (?c1\<lparr>manager := m'\<rparr>) \<and> is_thinking_block_open (?c1\<lparr>manager := m'\<rparr>)
        \<and> flags (?c1\<lparr>manager := m'\<rparr>) = flags c"
      by (auto simp: context_ok_def evolves_def thinking_open_iff flags_def)
  qed simp
  then show ?thesis by (simp add: open_thinking_block_def n)
qed

lemma yields_ensure_thinking:
  assumes ho: "rearranges (env_hash_order env)" and ok: "stream_ok c"
  shows "yields c (ensure_thinking_block env c) (\<lambda>c'. stream_ok c' \<and> is_thinking_block_open c'
    \<and> in_thinking_block c' = in_thinking_block c \<and> thinking_enabled c' = thinking_enabled c)"
proof (cases "is_thinking_block_open c")
  case True
  with ok show ?thesis by (simp add: ensure_thinking_block_def yields_pure)
next
  case False
  with ok have outside: "\<not> in_thinking_block c" "context_ok c"
    by (auto simp: stream_ok_def thinking_ok_def)
  note none = not_thinking_open[OF outside(2) False]
  let ?c0 = "c\<lparr>thinking_buffer := []\<rparr>"
  let ?put = "if \<not> is_blank (thinking_buffer c) then create_text_delta_events env (thinking_buffer c) ?c0 else (?c0, [])"
  have core: "core ?c0 = core c" by (simp add: core_def)
  have "text_step c ?put"
    using text_step_from[OF core text_step_create[OF ho]] text_step_pure[OF core] by simp
  then have "text_step c (and_then ?put close_open_text_block)"
    by (rule text_step_and_then) (rule text_step_close_text)
  with outside(2) have put: "yields c (and_then ?put close_open_text_block) (\<lambda>c'. context_ok c' \<and> keeps c c')"
    by (simp add: text_step_def)
  have "yields c (and_then (and_then ?put close_open_text_block)
      (\<lambda>c. open_thinking_block env (c\<lparr>thinking_extracted := True\<rparr>)))
    (\<lambda>c'. stream_ok c' \<and> is_thinking_block_open c' \<and> in_thinking_block c' = in_thinking_block c
      \<and> thinking_enabled c' = thinking_enabled c)"
  proof (rule yields_and_then[OF put])
    fix c1 assume c1: "context_ok c1 \<and> keeps c c1"
    let ?c2 = "c1\<lparr>thinking_extracted := True\<rparr>"
    have "context_ok ?c2" "open_thinking (manager ?c2) = {}"
      using c1 none by (auto simp: context_ok_def keeps_def)
    from yields_open_thinking[OF ho this] have "yields c1 (open_thinking_block env ?c2)
        (\<lambda>c'. context_ok c' \<and> is_thinking_block_open c' \<and> flags c' = flags ?c2)"
      by (rule yields_from[rotated]) simp
    then show "yields c1 (open_thinking_block env ?c2) (\<lambda>c'. stream_ok c' \<and> is_thinking_block_open c'
        \<and> in_thinking_block c' = in_thinking_block c \<and> thinking_enabled c' = thinking_enabled c)"
      using c1 outside by (auto simp: flags_def keeps_def stream_ok_def thinking_ok_def elim!: yields_mono)
  qed
  with False show ?thesis by (simp add: ensure_thinking_block_def Let_def)
qed

lemma yields_redacted:
  assumes ho: "rearranges (env_hash_order env)" and ok: "stream_ok c" and outside: "\<not> in_thinking_block c"
  shows "yields c (create_redacted_thinking_events env data c) stream_ok"
proof -
  have "context_ok c" using ok by (simp add: stream_ok_def)
  note close = yields_close_thinking[OF this, of env]
  let ?P = "\<lambda>c1. stream_ok c1 \<and> \<not> in_thinking_block c1"
  have "yields c (and_then (close_open_thinking_block env c) close_open_text_block) ?P"
  proof (rule yields_and_then[OF close])
    fix c1 assume c1: "thinking_closed c c1"
    from text_step_stream_ok[OF text_step_close_text thinking_closed_ok[OF this outside]] c1 outside
    show "yields c1 (close_open_text_block c1) ?P"
      by (auto simp: keeps_def thinking_closed_def elim!: yields_mono)
  qed
  then show ?thesis
    unfolding create_redacted_thinking_events_def
  proof (rule yields_and_then)
    fix c1 assume c1: "?P c1"
    then have ok1: "context_ok c1" by (simp add: stream_ok_def)
    obtain i m where n: "next_block_index (manager c1) = (i, m)" by force
    let ?start = "with_manager (handle_content_block_start (env_hash_order env) i ''redacted_thinking''
      (ContentBlockStart i (RedactedThinkingBlock data))) (c1\<lparr>manager := m\<rparr>)"
    have "yields c1 ?start (\<lambda>c'. context_ok c' \<and> keeps c1 c' \<and> has_type (manager c') i ''redacted_thinking'')"
    proof (rule yields_start_other[OF ok1 n _ ho])
      fix m' assume "evolves (manager c1) m'" "is_block_open_of_type m' i ''redacted_thinking''"
        "open_thinking m' = open_thinking (manager c1)"
      with ok1 show "context_ok (c1\<lparr>manager := m, manager := m'\<rparr>) \<and> keeps c1 (c1\<lparr>manager := m, manager := m'\<rparr>)
          \<and> has_type (manager (c1\<lparr>manager := m, manager := m'\<rparr>)) i ''redacted_thinking''"
        by (auto simp: context_ok_def keeps_def evolves_def intro: open_has_type)
    qed simp_all
    then have "yields c1 (and_then ?start (with_manager (handle_content_block_stop i))) stream_ok"
    proof (rule yields_and_then)
      fix c2 assume c2: "context_ok c2 \<and> keeps c1 c2 \<and> has_type (manager c2) i ''redacted_thinking''"
      then have "\<not> is_block_open_of_type (manager c2) i ''thinking''"
        using has_type_unique[of "manager c2" i "''redacted_thinking''"] by fastforce
      then have "text_step c2 (with_manager (handle_content_block_stop i) c2)"
        by (intro text_step_manager) (auto simp: context_ok_def dest: stopped_block)
      moreover have "stream_ok c2" using c1 c2 thinking_ok_keeps[of c1 c2] by (simp add: stream_ok_def)
      ultimately show "yields c2 (with_manager (handle_content_block_stop i) c2) stream_ok"
        by (auto dest: text_step_stream_ok elim!: yields_mono)
    qed
    then show "yields c1 (let (idx, m) = next_block_index (manager c1)
        in and_then (with_manager (handle_content_block_start (env_hash_order env) idx ''redacted_thinking''
             (ContentBlockStart idx (RedactedThinkingBlock data))) (c1\<lparr>manager := m\<rparr>))
           (with_manager (handle_content_block_stop idx))) stream_ok"
      by (simp add: n)
  qed
qed

section \<open>The loop over the thinking tags\<close>

definition turn_ok :: "stream_context \<Rightarrow> emission turn \<Rightarrow> bool" where
  "turn_ok c t \<longleftrightarrow>
     (case t of Return ce \<Rightarrow> yields c ce (\<lambda>c'. stream_ok c' \<and> thinking_enabled c')
      | Again ce \<Rightarrow> yields c ce (\<lambda>c'. stream_ok c' \<and> thinking_enabled c'))"

lemma yields_text_enabled:
  assumes "text_step c ce" "stream_ok c" "thinking_enabled c"
  shows "yields c ce (\<lambda>c'. stream_ok c' \<and> thinking_enabled c' \<and> keeps c c')"
  using text_step_stream_ok[OF assms(1,2)] assms(3) by (auto simp: keeps_def elim!: yields_mono)

lemma yields_buffer:
  "stream_ok c \<Longrightarrow> thinking_enabled c \<Longrightarrow>
     yields c (c\<lparr>thinking_buffer := buf\<rparr>, []) (\<lambda>c'. stream_ok c' \<and> thinking_enabled c')"
  using stream_ok_core[of "c\<lparr>thinking_buffer := buf\<rparr>" c] by (auto simp: core_def intro!: yields_pure)

lemma yields_enter_thinking:
  assumes ho: "rearranges (env_hash_order env)" and c: "stream_ok c" "thinking_enabled c" "open_thinking (manager c) = {}"
    and c1: "manager c1 = manager c" "thinking_block_index c1 = thinking_block_index c"
      "tool_block_indices c1 = tool_block_indices c" "in_thinking_block c1" "thinking_enabled c1"
  shows "yields c (open_thinking_block env c1) (\<lambda>c'. stream_ok c' \<and> thinking_enabled c')"
proof -
  have "context_ok c1" "open_thinking (manager c1) = {}"
    using c c1 by (simp_all add: stream_ok_def context_ok_def)
  from yields_open_thinking[OF ho this] have "yields c (open_thinking_block env c1)
      (\<lambda>c'. context_ok c' \<and> is_thinking_block_open c' \<and> flags c' = flags c1)"
    by (rule yields_from[rotated]) (simp add: c1(1))
  then show ?thesis
    using c1 by (auto simp: flags_def stream_ok_def thinking_ok_def elim!: yields_mono)
qed

lemma seek_turn_ok:
  assumes ho: "rearranges (env_hash_order env)"
    and c: "stream_ok c" "thinking_enabled c" "\<not> in_thinking_block c" "\<not> thinking_extracted c"
  shows "turn_ok c (seek_thinking_turn env c)"
proof -
  have none: "open_thinking (manager c) = {}" using c by (simp add: stream_ok_def thinking_ok_def)
  have skip: "yields c (c\<lparr>thinking_extracted := True\<rparr>, []) (\<lambda>c'. stream_ok c' \<and> thinking_enabled c')"
    using c none by (intro yields_pure) (auto simp: stream_ok_def thinking_ok_def context_ok_def)
  have enter: "yields c (and_then (if b then create_text_delta_events env before c else (c, []))
      (\<lambda>c. open_thinking_block env (c\<lparr>in_thinking_block := True, strip_thinking_leading_newline := True,
        thinking_buffer := drop n (thinking_buffer c)\<rparr>))) (\<lambda>c'. stream_ok c' \<and> thinking_enabled c')" for b before n
  proof (rule yields_and_then)
    have "text_step c (if b then create_text_delta_events env before c else (c, []))"
      by (simp add: text_step_create[OF ho] text_step_pure)
    from yields_text_enabled[OF this c(1,2)]
    show "yields c (if b then create_text_delta_events env before c else (c, []))
        (\<lambda>c'. stream_ok c' \<and> thinking_enabled c' \<and> keeps c c')" .
  qed (rule yields_enter_thinking[OF ho], use none in \<open>auto simp: keeps_def\<close>)
  have leave: "yields c (and_then (create_text_delta_events env t c)
      (\<lambda>c. (c\<lparr>thinking_buffer := drop n (thinking_buffer c)\<rparr>, []))) (\<lambda>c'. stream_ok c' \<and> thinking_enabled c')" for t n
    by (rule yields_and_then[OF yields_text_enabled[OF text_step_create[OF ho] c(1,2)]]) (simp add: yields_buffer)
  have stay: "yields c (c, []) (\<lambda>c'. stream_ok c' \<and> thinking_enabled c')" using c by (simp add: yields_pure)
  let ?buf = "thinking_buffer c"
  let ?skip = "trim_start ?buf \<noteq> [] \<and> \<not> starts_with (trim_start ?buf) start_tag \<and> \<not> starts_with start_tag (trim_start ?buf)"
  let ?pos = "case find_real_thinking_start_tag ?buf of
      Some pos \<Rightarrow> if is_blank (take pos ?buf) then Some pos else None | None \<Rightarrow> None"
  consider ?skip | pos where "\<not> ?skip" "?pos = Some pos" | "\<not> ?skip" "?pos = None"
    by (cases ?pos) blast+
  then show ?thesis
  proof cases
    case 1
    with skip show ?thesis by (simp add: seek_thinking_turn_def Let_def turn_ok_def)
  next
    case 2
    show ?thesis
      unfolding seek_thinking_turn_def Let_def turn_ok_def 2(2)
      using enter 2(1) by (simp only: if_False turn.case option.case)
  next
    case 3
    show ?thesis
      unfolding seek_thinking_turn_def Let_def turn_ok_def 3(2)
      using leave stay 3(1) by (simp only: if_False option.case split: if_split) simp
  qed
qed

lemma inside_turn_ok:
  assumes ho: "rearranges (env_hash_order env)" and c: "stream_ok c" "thinking_enabled c" "in_thinking_block c"
  shows "turn_ok c (inside_thinking_turn env c)"
proof -
  define c1 where "c1 = strip_leading_newline c"
  have core: "core c1 = core c" by (simp add: c1_def strip_leading_newline_def core_def)
  have ok: "stream_ok c1" "thinking_enabled c1" "is_thinking_block_open c1"
    using c stream_ok_core[OF core] core by (auto simp: stream_ok_def thinking_ok_def core_def)
  then have ok1: "context_ok c1" by (simp add: stream_ok_def)
  let ?R = "\<lambda>c'. stream_ok c' \<and> thinking_enabled c'"
  have go: "yields c ce ?R" if "yields c1 ce ?R" for ce
    using that core_manager[OF core] by (intro yields_from[of c1 c]) simp_all
  have still: "stream_ok c2 \<and> thinking_enabled c2 \<and> context_ok c2 \<and> is_thinking_block_open c2"
    if "core c2 = core c1" for c2
    using that ok stream_ok_core[OF that] by (auto simp: core_def stream_ok_def thinking_ok_def thinking_open_iff)
  have finished: "yields c1 (and_then (and_then (thinking_delta_unless_empty t c1)
      (\<lambda>c. end_tagged_thinking env (c\<lparr>in_thinking_block := False, thinking_extracted := True\<rparr>)))
      (\<lambda>c. (c\<lparr>thinking_buffer := buf\<rparr>, []))) ?R" for t buf
  proof (intro yields_and_then[OF yields_and_then[OF yields_delta_unless_empty[OF ok1 ok(3)]]])
    fix c2 assume "core c2 = core c1"
    note c2 = still[OF this]
    let ?c3 = "c2\<lparr>in_thinking_block := False, thinking_extracted := True\<rparr>"
    have "context_ok ?c3" "is_thinking_block_open ?c3"
      using c2 by (simp_all add: context_ok_def is_thinking_block_open_def split: option.splits)
    from yields_end_tagged[OF this, of env] have "yields c2 (end_tagged_thinking env ?c3) (thinking_closed ?c3)"
      by (rule yields_from[rotated]) simp
    with c2 show "yields c2 (end_tagged_thinking env ?c3) ?R"
      by (auto simp: thinking_closed_def stream_ok_def thinking_ok_def elim!: yields_mono)
  qed (simp add: yields_buffer)
  have waits: "yields c1 (and_then (thinking_delta_unless_empty t c1) (\<lambda>c. (c\<lparr>thinking_buffer := buf\<rparr>, []))) ?R" for t buf
    by (rule yields_and_then[OF yields_delta_unless_empty[OF ok1 ok(3)]]) (simp add: still yields_buffer)
  have stay: "yields c1 (c1, []) ?R" using ok by (simp add: yields_pure)
  show ?thesis
    unfolding inside_thinking_turn_def Let_def turn_ok_def c1_def[symmetric]
    using go[OF finished] go[OF waits] go[OF stay] by (simp split: option.split)
qed

lemma thinking_turn_ok:
  assumes ho: "rearranges (env_hash_order env)" and c: "stream_ok c" "thinking_enabled c"
  shows "turn_ok c (thinking_turn env c)"
proof -
  have "turn_ok c (after_thinking_turn env c)"
  proof (cases "thinking_buffer c = []")
    case False
    have core: "core (c\<lparr>thinking_buffer := []\<rparr>) = core c" by (simp add: core_def)
    have "yields c (create_text_delta_events env (thinking_buffer c) (c\<lparr>thinking_buffer := []\<rparr>))
        (\<lambda>c'. stream_ok c' \<and> thinking_enabled c')"
      by (rule yields_mono[OF yields_text_enabled[OF text_step_from[OF core text_step_create[OF ho]] c]]) simp
    with False show ?thesis by (simp add: after_thinking_turn_def turn_ok_def)
  qed (use c in \<open>simp add: after_thinking_turn_def turn_ok_def yields_pure\<close>)
  with seek_turn_ok[OF ho c] inside_turn_ok[OF ho c] show ?thesis
    by (simp add: thinking_turn_def)
qed

lemma thinking_loop_yields:
  assumes ho: "rearranges (env_hash_order env)"
  shows "stream_ok c \<Longrightarrow> thinking_enabled c \<Longrightarrow> yields c (thinking_loop env c) stream_ok"
  using ho
proof (induction env c rule: thinking_loop.induct)
  case (1 env c)
  note turn = thinking_turn_ok[OF 1(4,2,3)]
  show ?case
  proof (cases "thinking_turn env c")
    case (Return ce)
    with turn show ?thesis
      by (subst thinking_loop.simps) (auto simp: turn_ok_def elim!: yields_mono)
  next
    case (Again ce)
    obtain c1 es where ce: "ce = (c1, es)" by force
    have "yields c ce (\<lambda>c'. c' = c1 \<and> stream_ok c1 \<and> thinking_enabled c1)"
      using turn Again by (simp add: turn_ok_def ce yields_def)
    from yields_and_then[OF this, of "thinking_loop env" stream_ok] 1(1)[OF Again ce[symmetric]] 1(4)
    have "yields c (and_then ce (thinking_loop env)) stream_ok" by blast
    then show ?thesis
      by (subst thinking_loop.simps) (simp add: Again ce and_then_def)
  qed
qed

lemma yields_process_content:
  assumes "rearranges (env_hash_order env)" "stream_ok c" "thinking_enabled c"
  shows "yields c (process_content_with_thinking env content c) stream_ok"
proof -
  let ?c1 = "c\<lparr>thinking_buffer := thinking_buffer c @ content\<rparr>"
  have "core ?c1 = core c" by (simp add: core_def)
  from stream_ok_core[OF this] assms thinking_loop_yields[of env ?c1]
  have "yields ?c1 (thinking_loop env ?c1) stream_ok" by simp
  then show ?thesis
    unfolding process_content_with_thinking_def by (rule yields_from[rotated]) simp
qed

lemma yields_stream_from:
  assumes "core c1 = core c" "stream_ok c1 \<Longrightarrow> yields c1 ce Q" "stream_ok c"
  shows "yields c ce Q"
  using assms stream_ok_core[OF assms(1)] core_manager[OF assms(1)] by (intro yields_from[of c1 c]) simp_all

lemma yields_text: "text_step c ce \<Longrightarrow> stream_ok c \<Longrightarrow> yields c ce stream_ok"
  by (auto dest: text_step_stream_ok elim!: yields_mono)

text \<open>Text of the reply, with the thinking tags taken apart when thinking is enabled.\<close>

lemma yields_content:
  assumes "rearranges (env_hash_order env)" "stream_ok c"
  shows "yields c (if thinking_enabled c then process_content_with_thinking env content c
      else create_text_delta_events env content c) stream_ok"
  using yields_process_content[OF assms] yields_text[OF text_step_create[OF assms(1)] assms(2)] by simp

section \<open>Each upstream event\<close>

lemma yields_assistant:
  assumes ho: "rearranges (env_hash_order env)" and ok: "stream_ok c"
  shows "yields c (process_assistant_response env content c) stream_ok"
proof -
  obtain f rest where f: "XmlLeakFilter.leak_filter (xml_filter c) content = (f, rest)" by force
  let ?c1 = "c\<lparr>xml_filter := f\<rparr>"
  have core: "core ?c1 = core c" by (simp add: core_def)
  show ?thesis
    unfolding process_assistant_response_def f Let_def prod.case
  proof (rule yields_stream_from[OF core _ ok])
    assume ok1: "stream_ok ?c1"
    have put: "yields c2 (if thinking_enabled (c2\<lparr>output_tokens := n\<rparr>)
        then process_content_with_thinking env rest (c2\<lparr>output_tokens := n\<rparr>)
        else create_text_delta_events env rest (c2\<lparr>output_tokens := n\<rparr>)) stream_ok" if "stream_ok c2" for c2 n
      by (rule yields_stream_from[OF _ yields_content[OF ho] that]) (simp add: core_def)
    show "yields ?c1 (if rest = [] then (?c1, []) else and_then
        (if is_thinking_block_open ?c1 \<and> \<not> in_thinking_block ?c1 then close_open_thinking_block env ?c1 else (?c1, []))
        (\<lambda>c. if thinking_enabled (c\<lparr>output_tokens := output_tokens c + estimate_tokens rest\<rparr>)
           then process_content_with_thinking env rest (c\<lparr>output_tokens := output_tokens c + estimate_tokens rest\<rparr>)
           else create_text_delta_events env rest (c\<lparr>output_tokens := output_tokens c + estimate_tokens rest\<rparr>))) stream_ok"
    proof (cases "rest = []")
      case True
      with ok1 show ?thesis by (simp add: yields_pure)
    next
      case False
      then show ?thesis
        using yields_and_then[OF yields_close_outside[OF ok1] put] by (simp only: if_False)
    qed
  qed
qed

lemma yields_reasoning:
  assumes ho: "rearranges (env_hash_order env)" and ok: "stream_ok c"
    and redacted: "or_empty (rc_redacted reasoning) \<noteq> [] \<Longrightarrow> \<not> in_thinking_block c"
  shows "yields c (process_reasoning_content env reasoning c) stream_ok"
proof -
  define sig where "sig = or_empty (rc_signature reasoning)"
  define red where "red = or_empty (rc_redacted reasoning)"
  define t where "t = or_empty (rc_text reasoning)"
  define c1 where "c1 = c\<lparr>thinking_text_emitted := thinking_text_emitted c \<or> \<not> is_blank t\<rparr>"
  let ?Q = "\<lambda>c'. stream_ok c' \<and> in_thinking_block c' = in_thinking_block c"
  have core: "core c1 = core c" by (simp add: c1_def core_def)
  then have ok1: "stream_ok c1" and flag1: "in_thinking_block c1 = in_thinking_block c"
    using ok stream_ok_core[OF core] by (simp_all add: core_def)
  have ensured: "yields c2 (ensure_thinking_block env c3) (\<lambda>c'. ?Q c' \<and> is_thinking_block_open c')"
    if "core c3 = core c2" "?Q c2" for c2 c3
  proof (rule yields_stream_from[OF that(1)])
    assume "stream_ok c3"
    from yields_ensure_thinking[OF ho this] that
    show "yields c3 (ensure_thinking_block env c3) (\<lambda>c'. ?Q c' \<and> is_thinking_block_open c')"
      by (auto simp: core_def elim!: yields_mono)
  qed (use that in simp)
  have delta: "yields c2 (case thinking_block_index c2 of Some idx \<Rightarrow> create_thinking_delta_event idx t c2
      | None \<Rightarrow> (c2, [])) ?Q" if c2: "?Q c2" "is_thinking_block_open c2" for c2
  proof -
    have "context_ok c2" using c2 by (simp add: stream_ok_def)
    from c2(2) obtain i where i: "thinking_block_index c2 = Some i" "i \<in> open_thinking (manager c2)"
      by (auto simp: thinking_open_iff)
    have "?Q c'" if "core c' = core c2" for c'
      using stream_ok_core[OF that] c2 that by (simp add: core_def)
    with yields_thinking_delta[OF \<open>context_ok c2\<close> i, of t] i(1) show ?thesis
      by (auto elim!: yields_mono)
  qed
  have signed: "yields c1 (if sig \<noteq> [] then ensure_thinking_block env (c1\<lparr>pending_thinking_signature := Some sig\<rparr>)
      else (c1, [])) ?Q"
    using ok1 flag1 yields_mono[OF ensured[of "c1\<lparr>pending_thinking_signature := Some sig\<rparr>" c1]]
    by (simp add: core_def yields_pure)
  have texted: "yields c2 (if t = [] then (c2, []) else and_then
      (ensure_thinking_block env (c2\<lparr>output_tokens := output_tokens c2 + estimate_tokens t\<rparr>))
      (\<lambda>c. case thinking_block_index c of Some idx \<Rightarrow> create_thinking_delta_event idx t c | None \<Rightarrow> (c, []))) ?Q"
    if "?Q c2" for c2
  proof (cases "t = []")
    case True
    with that show ?thesis by (simp add: yields_pure)
  next
    case False
    have "core (c2\<lparr>output_tokens := output_tokens c2 + estimate_tokens t\<rparr>) = core c2" by (simp add: core_def)
    from yields_and_then[OF ensured[OF this that]] delta False show ?thesis by simp
  qed
  have redacts: "yields c2 (if red = [] then (c2, []) else
      create_redacted_thinking_events env red (c2\<lparr>output_tokens := output_tokens c2 + 8\<rparr>)) stream_ok" if "?Q c2" for c2
  proof (cases "red = []")
    case False
    have "core (c2\<lparr>output_tokens := output_tokens c2 + 8\<rparr>) = core c2" by (simp add: core_def)
    from yields_stream_from[OF this yields_redacted[OF ho]] that redacted False show ?thesis
      by (auto simp: red_def)
  qed (use that in \<open>simp add: yields_pure\<close>)
  show ?thesis
  proof (cases "thinking_enabled c")
    case True
    then have "thinking_enabled c1" by (simp add: c1_def)
    have "yields c1 (process_reasoning_content env reasoning c) stream_ok"
      unfolding process_reasoning_content_def Let_def sig_def[symmetric] red_def[symmetric] t_def[symmetric] c1_def[symmetric]
      using yields_and_then[OF yields_and_then[OF signed texted] redacts] \<open>thinking_enabled c1\<close> by simp
    then show ?thesis using core_manager[OF core] by (intro yields_from[of c1 c]) simp_all
  next
    case False
    define c2 where "c2 = c1\<lparr>output_tokens := output_tokens c1 + (if t \<noteq> [] then estimate_tokens t else 0)
      + (if red \<noteq> [] then 8 else 0)\<rparr>"
    have "core c2 = core c" using core by (simp add: c2_def core_def)
    with stream_ok_core[OF this] core_manager[OF this] ok have "yields c (c2, []) stream_ok"
      by (intro yields_pure) simp_all
    moreover have "\<not> thinking_enabled c1" using False by (simp add: c1_def)
    ultimately show ?thesis
      unfolding process_reasoning_content_def Let_def sig_def[symmetric] red_def[symmetric] t_def[symmetric] c1_def[symmetric]
      by (simp only: if_True not_False_eq_True c2_def)
  qed
qed

text \<open>The stop reason and the flag of tool calls are not part of the protocol.\<close>

definition same_blocks :: "state_manager \<Rightarrow> state_manager \<Rightarrow> bool" where
  "same_blocks m m' \<longleftrightarrow>
     active_blocks m' = active_blocks m \<and> next_index m' = next_index m \<and> message_started m' = message_started m
     \<and> message_delta_sent m' = message_delta_sent m \<and> message_ended m' = message_ended m"

lemma same_blocks_intros [simp, intro]:
  "same_blocks m m" "same_blocks m (m\<lparr>has_tool_use := b\<rparr>)" "same_blocks m (set_stop_reason r m)"
  by (simp_all add: same_blocks_def set_stop_reason_def)

lemma yields_same_blocks:
  assumes "same_blocks (manager c) (manager c1)" "thinking_block_index c1 = thinking_block_index c"
    "tool_block_indices c1 = tool_block_indices c" "flags c1 = flags c" "stream_ok c"
  shows "stream_ok c1" "yields c1 ce Q \<Longrightarrow> yields c ce Q"
proof -
  have ot: "open_thinking (manager c1) = open_thinking (manager c)"
    using assms(1) by (simp add: open_thinking_def is_block_open_of_type_def same_blocks_def)
  have ty: "has_type (manager c1) i t = has_type (manager c) i t" for i t
    using assms(1) by (simp add: has_type_def same_blocks_def)
  show "stream_ok c1"
    using assms ot ty by (simp add: stream_ok_def context_ok_def thinking_ok_def thinking_open_iff manager_ok_def
        manager_open_def same_blocks_def flags_def)
  show "yields c ce Q" if "yields c1 ce Q"
    using assms(1) that by (intro yields_from[of c1 c]) (simp_all add: abs_manager_def same_blocks_def)
qed

lemma yields_finish_tagged:
  assumes ho: "rearranges (env_hash_order env)" and ok: "stream_ok c" and inside: "in_thinking_block c"
  shows "yields c (finish_tagged_thinking env end_pos c)
    (\<lambda>c'. stream_ok c' \<and> \<not> in_thinking_block c' \<and> open_thinking (manager c') = {})"
proof -
  let ?Q = "\<lambda>c'. stream_ok c' \<and> \<not> in_thinking_block c' \<and> open_thinking (manager c') = {}"
  have ok1: "context_ok c" "is_thinking_block_open c" using ok inside by (auto simp: stream_ok_def thinking_ok_def)
  have closed: "yields c (and_then (thinking_delta_unless_empty t c)
      (\<lambda>c. end_tagged_thinking env (c\<lparr>in_thinking_block := False, thinking_extracted := True\<rparr>))) ?Q" for t
  proof (rule yields_and_then[OF yields_delta_unless_empty[OF ok1]])
    fix c2 assume core: "core c2 = core c"
    let ?c3 = "c2\<lparr>in_thinking_block := False, thinking_extracted := True\<rparr>"
    have "context_ok ?c3" "is_thinking_block_open ?c3"
      using ok1 core by (simp_all add: context_ok_def is_thinking_block_open_def core_def split: option.splits)
    from yields_end_tagged[OF this, of env] have "yields c2 (end_tagged_thinking env ?c3) (thinking_closed ?c3)"
      by (rule yields_from[rotated]) simp
    then show "yields c2 (end_tagged_thinking env ?c3) ?Q"
      by (auto simp: thinking_closed_def stream_ok_def thinking_ok_def elim!: yields_mono)
  qed
  have rest: "yields c2 (if t \<noteq> [] then create_text_delta_events env t (c2\<lparr>thinking_buffer := []\<rparr>)
      else (c2\<lparr>thinking_buffer := []\<rparr>, [])) ?Q" if "?Q c2" for c2 t
  proof -
    have core: "core (c2\<lparr>thinking_buffer := []\<rparr>) = core c2" by (simp add: core_def)
    have "text_step c2 (if t \<noteq> [] then create_text_delta_events env t (c2\<lparr>thinking_buffer := []\<rparr>)
        else (c2\<lparr>thinking_buffer := []\<rparr>, []))"
      using text_step_from[OF core text_step_create[OF ho]] text_step_pure[OF core] by simp
    from text_step_stream_ok[OF this] that show ?thesis by (auto simp: keeps_def elim!: yields_mono)
  qed
  show ?thesis
    unfolding finish_tagged_thinking_def Let_def
    by (rule yields_and_then[OF closed rest])
qed

lemma yields_settle:
  assumes ho: "rearranges (env_hash_order env)" and ok: "stream_ok c"
  shows "yields c (settle_before_tool env c) stream_ok"
proof -
  let ?c1 = "c\<lparr>manager := (manager c)\<lparr>has_tool_use := True\<rparr>\<rparr>"
  have same: "same_blocks (manager c) (manager ?c1)" "thinking_block_index ?c1 = thinking_block_index c"
    "tool_block_indices ?c1 = tool_block_indices c" "flags ?c1 = flags c" by (simp_all add: flags_def)
  note ok1 = yields_same_blocks(1)[OF same ok]
  have first: "yields ?c1 (if is_thinking_block_open ?c1 \<and> \<not> in_thinking_block ?c1 then close_open_thinking_block env ?c1
      else (?c1, [])) stream_ok"
    using yields_close_outside[OF ok1] by (rule yields_mono) simp
  have held: "yields c2 (let (s, held) = sniffer_abandon (sniffer c2) in emit_sniffed env held (c2\<lparr>sniffer := s\<rparr>)) stream_ok"
    if "stream_ok c2" for c2
  proof -
    obtain s held where s: "sniffer_abandon (sniffer c2) = (s, held)" by force
    have "core (c2\<lparr>sniffer := s\<rparr>) = core c2" by (simp add: core_def)
    from yields_text[OF text_step_from[OF this text_step_sniffed[OF ho]] that] s show ?thesis by simp
  qed
  have tagged: "yields c2 (if thinking_enabled c2 \<and> in_thinking_block c2
      then (case find_real_thinking_end_tag_at_buffer_end (thinking_buffer c2) of
              Some end_pos \<Rightarrow> finish_tagged_thinking env end_pos c2 | None \<Rightarrow> (c2, []))
      else (c2, [])) stream_ok" if "stream_ok c2" for c2
  proof -
    have "yields c2 (finish_tagged_thinking env end_pos c2) stream_ok" if "in_thinking_block c2" for end_pos
      by (rule yields_mono[OF yields_finish_tagged[OF ho \<open>stream_ok c2\<close> that]]) simp
    with that show ?thesis by (simp add: yields_pure split: option.split)
  qed
  have buffered: "yields c2 (if thinking_enabled c2 \<and> \<not> in_thinking_block c2 \<and> \<not> thinking_extracted c2 \<and> thinking_buffer c2 \<noteq> []
      then create_text_delta_events env (thinking_buffer c2) (c2\<lparr>thinking_buffer := []\<rparr>) else (c2, [])) stream_ok"
    if "stream_ok c2" for c2
  proof -
    have "core (c2\<lparr>thinking_buffer := []\<rparr>) = core c2" by (simp add: core_def)
    from yields_text[OF text_step_from[OF this text_step_create[OF ho]] that] that show ?thesis
      by (simp add: yields_pure)
  qed
  have "yields ?c1 (settle_before_tool env c) stream_ok"
    unfolding settle_before_tool_def Let_def[of ?c1]
    by (rule yields_and_then[OF yields_and_then[OF yields_and_then[OF first held] tagged] buffered])
  then show ?thesis by (rule yields_same_blocks(2)[OF same ok])
qed

lemma text_step_streamed_call:
  assumes ho: "rearranges (env_hash_order env)" and st: "start_tool_use env tid name c = (i, ce)"
  shows "text_step c (and_then (and_then (and_then ce (emit_tool_input_fragment i before))
       (emit_tool_input_fragment i input))
       (\<lambda>c. if \<not> finished then (c, [])
            else and_then (if blank then emit_tool_input_fragment i braces c else (c, []))
                   (with_manager (handle_content_block_stop i))))"
proof -
  have last: "tool_step i c' (if \<not> finished then (c', [])
      else and_then (if blank then emit_tool_input_fragment i braces c' else (c', []))
             (with_manager (handle_content_block_stop i)))" for c'
    by (simp add: tool_step_and_then tool_step_fragment tool_step_stop)
  show ?thesis
    unfolding and_then_assoc
    by (rule text_step_with_tool[OF ho st]) (intro tool_step_and_then tool_step_fragment last)
qed

lemma text_step_if: "text_step c a \<Longrightarrow> text_step c b \<Longrightarrow> text_step c (if t then a else b)"
  by simp

lemma yields_emit_tool:
  assumes ho: "rearranges (env_hash_order env)" and ok: "stream_ok c"
  shows "yields c (emit_tool_use env ev c) stream_ok"
proof -
  obtain result buffers where push:
    "accumulator_push (env_parse_json env) (tool_names c) ev (tool_buffers c) = (result, buffers)" by force
  define c1 where "c1 = c\<lparr>tool_buffers := buffers\<rparr>"
  have core: "core c1 = core c" by (simp add: c1_def core_def)
  have "stream_ok c1" using stream_ok_core[OF core] ok by simp
  show ?thesis
  proof (cases result)
    case (Inl e)
    let ?c2 = "c1\<lparr>tool_json_error := Some e, manager := set_stop_reason ''error'' (manager c1)\<rparr>"
    have same: "same_blocks (manager c) (manager ?c2)" "thinking_block_index ?c2 = thinking_block_index c"
      "tool_block_indices ?c2 = tool_block_indices c" "flags ?c2 = flags c"
      by (simp_all add: c1_def flags_def)
    from yields_same_blocks(2)[OF same ok, of "(?c2, [])"] yields_same_blocks(1)[OF same ok]
    have "yields c (?c2, []) stream_ok" by (simp add: yields_pure)
    then show ?thesis
      using Inl push by (simp add: emit_tool_use_def Let_def c1_def)
  next
    case (Inr completed)
    have whole: "text_step c1 (case completed of Some call \<Rightarrow> emit_completed_tool_use env call c1 | None \<Rightarrow> (c1, []))"
      by (simp add: text_step_completed[OF ho] text_step_pure split: option.split)
    have streamed: "text_step c1 (let (index, started) = start_tool_use env tid name c1
        in and_then (and_then (and_then started (emit_tool_input_fragment index before))
             (emit_tool_input_fragment index input))
             (\<lambda>c. if completed = None then (c, [])
                  else and_then (if blank then emit_tool_input_fragment index ''{}'' c else (c, []))
                         (with_manager (handle_content_block_stop index))))" for tid name before input blank
    proof -
      obtain i ce where st: "start_tool_use env tid name c1 = (i, ce)" by (rule prod.exhaust)
      from text_step_streamed_call[OF ho st, of before input "completed \<noteq> None" blank "''{}''"] st
      show ?thesis by simp
    qed
    have "text_step c1 (emit_tool_use env ev c)"
      unfolding emit_tool_use_def Let_def push prod.case Inr sum.case c1_def[symmetric]
      by (rule text_step_if[OF streamed[unfolded Let_def] whole])
    from yields_text[OF text_step_from[OF core this] ok] show ?thesis .
  qed
qed

lemma yields_tool_use:
  assumes "rearranges (env_hash_order env)" "stream_ok c"
  shows "yields c (process_tool_use env ev c) stream_ok"
  unfolding process_tool_use_def
  by (rule yields_and_then[OF yields_settle[OF assms] yields_emit_tool[OF assms(1)]])

text \<open>A redacted block that arrives inside a tagged thinking.\<close>

fun redacts_inside :: "kiro_event \<Rightarrow> stream_context \<Rightarrow> bool" where
  "redacts_inside (ReasoningContent reasoning) c =
     (or_empty (rc_redacted reasoning) \<noteq> [] \<and> thinking_enabled c \<and> in_thinking_block c)"
| "redacts_inside _ c = False"

lemma yields_event:
  assumes ho: "rearranges (env_hash_order env)" and ok: "stream_ok c" and red: "\<not> redacts_inside ev c"
  shows "yields c (process_kiro_event env ev c) stream_ok"
proof (cases ev)
  case (AssistantResponse content)
  with yields_assistant[OF ho ok] show ?thesis by simp
next
  case (ToolUse t)
  with yields_tool_use[OF ho ok] show ?thesis by simp
next
  case (ReasoningContent r)
  have "\<not> in_thinking_block c" if "or_empty (rc_redacted r) \<noteq> []"
    using red ok that ReasoningContent by (auto simp: stream_ok_def thinking_ok_def)
  with ReasoningContent yields_reasoning[OF ho ok] show ?thesis by simp
next
  case (Metadata md)
  have "same_blocks (manager c) (manager (process_metadata md c))"
    by (auto simp: process_metadata_def Let_def same_blocks_def set_stop_reason_def split: option.split)
  moreover have "thinking_block_index (process_metadata md c) = thinking_block_index c"
    "tool_block_indices (process_metadata md c) = tool_block_indices c" "flags (process_metadata md c) = flags c"
    by (simp_all add: process_metadata_def Let_def flags_def split: option.split)
  ultimately show ?thesis
    using Metadata yields_same_blocks(1)[of c "process_metadata md c"] ok
    by (auto intro!: yields_pure simp: abs_manager_def same_blocks_def)
next
  case (ServiceException etype message)
  let ?c1 = "c\<lparr>manager := set_stop_reason ''max_tokens'' (manager c)\<rparr>"
  have "stream_ok ?c1" by (rule yields_same_blocks(1)[OF _ _ _ _ ok]) (simp_all add: flags_def)
  then have "yields c (?c1, []) stream_ok"
    by (intro yields_pure) (simp_all add: abs_manager_def set_stop_reason_def)
  with ServiceException ok show ?thesis by (simp add: yields_pure)
next
  case (ContextUsage p)
  have "core (process_context_usage env p c) = core c"
    by (simp add: process_context_usage_def core_def Let_def)
  with stream_ok_core[OF this] core_manager[OF this] ok ContextUsage show ?thesis
    by (auto intro!: yields_pure)
next
  case (Metering me)
  have "core (process_metering me c) = core c"
    by (simp add: process_metering_def core_def split: option.split)
  with stream_ok_core[OF this] core_manager[OF this] ok Metering show ?thesis
    by (auto intro!: yields_pure)
qed (use ok in \<open>simp_all add: yields_pure\<close>)

section \<open>The end\<close>

definition quiet :: "stream_context \<Rightarrow> bool" where
  "quiet c \<longleftrightarrow> context_ok c \<and> open_thinking (manager c) = {}"

lemma yields_quiet: "text_step c ce \<Longrightarrow> quiet c \<Longrightarrow> yields c ce quiet"
  by (auto simp: text_step_def quiet_def keeps_def elim!: yields_mono)

lemma quiet_core: "core c1 = core c \<Longrightarrow> quiet c1 \<longleftrightarrow> quiet c"
  using context_ok_core[of c1 c] core_manager[of c1 c] by (simp add: quiet_def)

lemma quiet_same_blocks:
  assumes "same_blocks (manager c) (manager c1)" "thinking_block_index c1 = thinking_block_index c"
    "tool_block_indices c1 = tool_block_indices c" "quiet c"
  shows "quiet c1"
proof -
  have "open_thinking (manager c1) = open_thinking (manager c)"
    using assms(1) by (simp add: open_thinking_def is_block_open_of_type_def same_blocks_def)
  moreover have "has_type (manager c1) i t = has_type (manager c) i t" for i t
    using assms(1) by (simp add: has_type_def same_blocks_def)
  ultimately show ?thesis
    using assms by (simp add: quiet_def context_ok_def manager_ok_def manager_open_def same_blocks_def)
qed

lemma yields_same:
  "same_blocks (manager c) (manager c1) \<Longrightarrow> yields c1 ce Q \<Longrightarrow> yields c ce Q"
  by (intro yields_from[of c1 c]) (simp_all add: abs_manager_def same_blocks_def)

lemma yields_result: "yields c ce Q \<Longrightarrow> yields c ce (\<lambda>c'. c' = fst ce \<and> Q c')"
  by (simp add: yields_def)

lemma yields_flush_xml:
  assumes "rearranges (env_hash_order env)" "stream_ok c"
  shows "yields c (flush_xml_filter env c) stream_ok"
proof -
  obtain f leftover where f: "leak_finish (xml_filter c) = (f, leftover)" by force
  have core: "core (c\<lparr>xml_filter := f\<rparr>) = core c" by (simp add: core_def)
  show ?thesis
    unfolding flush_xml_filter_def f Let_def prod.case
  proof (rule yields_stream_from[OF core _ assms(2)])
    assume "stream_ok (c\<lparr>xml_filter := f\<rparr>)"
    with yields_content[OF assms(1) this, of leftover]
    show "yields (c\<lparr>xml_filter := f\<rparr>) (if leftover = [] then (c\<lparr>xml_filter := f\<rparr>, [])
        else if thinking_enabled (c\<lparr>xml_filter := f\<rparr>) then process_content_with_thinking env leftover (c\<lparr>xml_filter := f\<rparr>)
        else create_text_delta_events env leftover (c\<lparr>xml_filter := f\<rparr>)) stream_ok"
      by (simp add: yields_pure)
  qed
qed

text \<open>A tagged thinking of which nothing is left in the buffer.\<close>

definition thinking_cut_off :: "stream_context \<Rightarrow> bool" where
  "thinking_cut_off c \<longleftrightarrow> in_thinking_block c \<and> thinking_buffer c = []"

lemma yields_flush_thinking:
  assumes ho: "rearranges (env_hash_order env)" and ok: "stream_ok c" and rest: "\<not> thinking_cut_off c"
    and outside: "\<not> in_thinking_block c \<Longrightarrow> open_thinking (manager c) = {}"
  shows "yields c (flush_thinking_buffer env c) quiet"
proof -
  have ctx: "context_ok c" using ok by (simp add: stream_ok_def)
  have clear: "yields c2 (c2\<lparr>thinking_buffer := []\<rparr>, []) quiet" if "quiet c2" for c2
    using quiet_core[of "c2\<lparr>thinking_buffer := []\<rparr>" c2] that by (auto simp: core_def intro!: yields_pure)
  consider "\<not> thinking_enabled c \<or> thinking_buffer c = []"
    | "thinking_enabled c" "thinking_buffer c \<noteq> []" "in_thinking_block c"
    | "thinking_enabled c" "thinking_buffer c \<noteq> []" "\<not> in_thinking_block c" by blast
  then show ?thesis
  proof cases
    case 1
    with ok rest have "\<not> in_thinking_block c"
      by (auto simp: stream_ok_def thinking_ok_def thinking_cut_off_def)
    with outside ctx have "quiet c" by (simp add: quiet_def)
    with 1 show ?thesis by (auto simp: flush_thinking_buffer_def intro: yields_pure)
  next
    case 2
    with ok have opened: "is_thinking_block_open c" by (simp add: stream_ok_def thinking_ok_def)
    have finished: "yields c (finish_tagged_thinking env n c) quiet" for n
      using yields_finish_tagged[OF ho ok 2(3)] by (rule yields_mono) (simp add: quiet_def stream_ok_def)
    have "yields c (and_then (thinking_delta_unless_empty (thinking_buffer c) c) (end_tagged_thinking env)) quiet"
    proof (rule yields_and_then[OF yields_delta_unless_empty[OF ctx opened]])
      fix c2 assume core: "core c2 = core c"
      have "context_ok c2" "is_thinking_block_open c2"
        using ctx opened context_ok_core[OF core] core by (simp_all add: core_def thinking_open_iff)
      from yields_end_tagged[OF this] show "yields c2 (end_tagged_thinking env c2) quiet"
        by (rule yields_mono) (simp add: thinking_closed_def quiet_def)
    qed
    with finished have "yields c (case find_real_thinking_end_tag_at_buffer_end (thinking_buffer c) of
        Some end_pos \<Rightarrow> finish_tagged_thinking env end_pos c
      | None \<Rightarrow> and_then (thinking_delta_unless_empty (thinking_buffer c) c) (end_tagged_thinking env)) quiet"
      by (simp split: option.split)
    from yields_and_then[OF this clear] 2 show ?thesis by (simp add: flush_thinking_buffer_def)
  next
    case 3
    with outside ctx have "quiet c" by (simp add: quiet_def)
    from yields_and_then[OF yields_quiet[OF text_step_create[OF ho] this] clear] 3
    show ?thesis by (simp add: flush_thinking_buffer_def)
  qed
qed

lemma yields_flush_held:
  assumes ho: "rearranges (env_hash_order env)" and ok: "stream_ok c"
    and rest: "\<not> thinking_cut_off (fst (flush_xml_filter env c))"
  shows "yields c (flush_held env c) quiet"
proof -
  have sniff: "yields c2 (flush_sniffer env c2) quiet" if "quiet c2" for c2
  proof -
    obtain s outs where s: "sniffer_finish (env_parse_json env) (invoke_tool_schemas c2) (sniffer c2) = (s, outs)" by force
    have "core (c2\<lparr>sniffer := s\<rparr>) = core c2" by (simp add: core_def)
    from yields_quiet[OF text_step_from[OF this text_step_sniffed[OF ho]] that] s show ?thesis
      by (simp add: flush_sniffer_def)
  qed
  let ?Q = "\<lambda>c'. stream_ok c' \<and> \<not> thinking_cut_off c' \<and> (\<not> in_thinking_block c' \<longrightarrow> open_thinking (manager c') = {})"
  have closes: "yields c2 (if is_thinking_block_open c2 \<and> \<not> in_thinking_block c2 then close_open_thinking_block env c2
      else (c2, [])) ?Q" if c2: "stream_ok c2" "\<not> thinking_cut_off c2" for c2
  proof (cases "in_thinking_block c2")
    case True
    with c2 show ?thesis by (simp add: yields_pure)
  next
    case False
    from yields_close_outside[OF c2(1)] show ?thesis
      by (rule yields_mono) (use False in \<open>simp add: thinking_cut_off_def\<close>)
  qed
  have "yields c (flush_xml_filter env c) (\<lambda>c'. stream_ok c' \<and> \<not> thinking_cut_off c')"
    using yields_result[OF yields_flush_xml[OF ho ok]] by (rule yields_mono) (use rest in simp)
  then have "yields c (and_then (flush_xml_filter env c)
      (\<lambda>c. if is_thinking_block_open c \<and> \<not> in_thinking_block c then close_open_thinking_block env c else (c, []))) ?Q"
    by (rule yields_and_then) (elim conjE, rule closes)
  then have "yields c (and_then (and_then (flush_xml_filter env c)
      (\<lambda>c. if is_thinking_block_open c \<and> \<not> in_thinking_block c then close_open_thinking_block env c else (c, [])))
      (flush_thinking_buffer env)) quiet"
    by (rule yields_and_then) (simp add: yields_flush_thinking[OF ho])
  then show ?thesis
    unfolding flush_held_def by (rule yields_and_then) (rule sniff)
qed


text \<open>An error ends the stream from any state of the invariant.\<close>

definition ended :: "stream_context \<Rightarrow> bool" where
  "ended c \<longleftrightarrow> message_started (manager c) \<and> message_ended (manager c)"

lemma accepted_started: "accepted m es m' \<Longrightarrow> message_started m \<Longrightarrow> message_started m'"
proof -
  have step: "proto_step e p = Some p' \<Longrightarrow> pr_started p \<Longrightarrow> pr_started p'" for e p p'
    by (cases e) (auto split: if_splits option.splits)
  have "proto_run es p = Some p' \<Longrightarrow> pr_started p \<Longrightarrow> pr_started p'" for p p'
    by (induction es arbitrary: p) (auto simp: bind_eq_Some_conv dest: step)
  moreover assume "accepted m es m'" "message_started m"
  ultimately show "message_started m'" by (auto simp: accepted_def abs_manager_def) (metis protocol.select_convs(1))
qed

lemma yields_error:
  assumes ho: "rearranges (env_hash_order env)" and ok: "context_ok c"
  shows "yields c (stream_error_events env error_type message c) ended"
  unfolding stream_error_events_def
proof (rule yields_and_then[OF yields_close_thinking[OF ok]])
  fix c1 assume c1: "thinking_closed c c1"
  then have m: "manager_ok (manager c1)" "manager_open (manager c1)" "no_open_thinking (manager c1)"
    by (simp_all add: thinking_closed_def context_ok_def no_open_thinking_iff)
  obtain m' es where g: "SseState.generate_error_events (env_hash_order env) error_type message (manager c1) = (m', es)"
    by force
  note ae = accepted_error[OF g m(1,2) ho m(3)]
  have "message_started m'" using accepted_started[OF ae(1)] m(2) by (simp add: manager_open_def)
  with ae show "yields c1 (with_manager (SseState.generate_error_events (env_hash_order env) error_type message) c1) ended"
    by (simp add: yields_def with_manager_def g ended_def)
qed

lemma yields_recovered:
  assumes "rearranges (env_hash_order env)"
  shows "text_step c (emit_recovered env calls c)"
proof (induction calls arbitrary: c)
  case (Cons call calls)
  show ?case
    unfolding emit_recovered.simps by (rule text_step_and_then[OF text_step_completed[OF assms] Cons.IH])
qed (simp add: text_step_pure)

lemma yields_settle_calls:
  assumes ho: "rearranges (env_hash_order env)" and q: "quiet c"
  shows "yields c (settle_tool_calls env c) quiet"
proof -
  have upd: "yields c (c\<lparr>tool_json_error := e\<rparr>, []) quiet" for e
    using quiet_core[of "c\<lparr>tool_json_error := e\<rparr>" c] q by (auto simp: core_def intro!: yields_pure)
  let ?c1 = "c\<lparr>tool_buffers := []\<rparr>"
  have core: "core ?c1 = core c" by (simp add: core_def)
  have recovered: "yields c (emit_recovered env calls ?c1) quiet" for calls
    by (rule yields_quiet[OF text_step_from[OF core yields_recovered[OF ho]] q])
  have truncated: "yields c (?c1\<lparr>tool_json_error := Some e, manager := set_stop_reason ''error'' (manager ?c1)\<rparr>, []) quiet" for e
  proof (rule yields_pure)
    show "quiet (?c1\<lparr>tool_json_error := Some e, manager := set_stop_reason ''error'' (manager ?c1)\<rparr>)"
      by (rule quiet_same_blocks[OF _ _ _ q]) simp_all
  qed (simp add: abs_manager_def set_stop_reason_def)
  show ?thesis
    using upd recovered truncated q
    by (auto simp: settle_tool_calls_def Let_def yields_pure split: sum.split)
qed

lemma yields_close_reply:
  assumes ho: "rearranges (env_hash_order env)" and q: "quiet c"
  shows "yields c (close_reply env c) ended"
proof -
  have err: "yields c (stream_error_events env t m c) ended" for t m
    using yields_error[OF ho] q by (simp add: quiet_def)
  define c1 where "c1 = apply_native_stop_reason c"
  have c1: "same_blocks (manager c) (manager c1)" "quiet c1"
  proof -
    have "same_blocks (manager c) (manager c1) \<and> thinking_block_index c1 = thinking_block_index c
      \<and> tool_block_indices c1 = tool_block_indices c"
      by (simp add: c1_def apply_native_stop_reason_def Let_def split: option.split)
    with quiet_same_blocks[of c c1] q show "same_blocks (manager c) (manager c1)" "quiet c1" by blast+
  qed
  have silent: "yields c1 (stream_error_events env t m (c1\<lparr>no_visible_output := True\<rparr>)) ended" for t m
  proof -
    have "context_ok (c1\<lparr>no_visible_output := True\<rparr>)" using c1(2) by (simp add: quiet_def context_ok_def)
    from yields_error[OF ho this] show ?thesis by (rule yields_from[rotated]) simp
  qed
  have final: "yields c1 (with_manager (SseState.generate_final_events (env_hash_order env) u) c1) ended" for u
  proof -
    obtain m' es where g: "SseState.generate_final_events (env_hash_order env) u (manager c1) = (m', es)" by force
    have m: "manager_ok (manager c1)" "manager_open (manager c1)" "no_open_thinking (manager c1)"
      using c1(2) by (simp_all add: quiet_def context_ok_def no_open_thinking_iff)
    note af = accepted_final[OF g m(1,2) ho m(3)]
    have "message_started m'" using accepted_started[OF af(1)] m(2) by (simp add: manager_open_def)
    with af show ?thesis by (simp add: yields_def with_manager_def g ended_def)
  qed
  show ?thesis
    unfolding close_reply_def Let_def c1_def[symmetric]
    using err yields_same[OF c1(1) silent] yields_same[OF c1(1) final] by (simp split: option.split)
qed

lemma yields_final:
  assumes ho: "rearranges (env_hash_order env)" and ok: "stream_ok c"
    and rest: "\<not> thinking_cut_off (fst (flush_xml_filter env c))"
  shows "yields c (stream_final_events env c) ended"
  unfolding stream_final_events_def
proof (rule yields_and_then[OF yields_flush_held[OF assms]])
  fix c1 assume q: "quiet c1"
  let ?c2 = "c1\<lparr>tool_json_error := None, tool_stream_refused := True\<rparr>"
  have "context_ok ?c2" using q by (simp add: quiet_def context_ok_def)
  from yields_error[OF ho this] have "yields c1 (stream_error_events env t m ?c2) ended" for t m
    by (rule yields_from[rotated]) simp
  with yields_and_then[OF yields_settle_calls[OF ho q] yields_close_reply[OF ho]]
  show "yields c1 (if refused_in_tool_call c1
      then stream_error_events env ''permission_error'' tool_stream_refusal_message ?c2
      else and_then (settle_tool_calls env c1) (close_reply env)) ended"
    by simp
qed

section \<open>Whole replies\<close>

definition fresh_context :: "stream_context \<Rightarrow> bool" where
  "fresh_context c \<longleftrightarrow>
     manager c = new_state_manager \<and> thinking_block_index c = None \<and> tool_block_indices c = []
     \<and> \<not> in_thinking_block c"

lemma fresh_new_context:
  "fresh_context ((set_invoke_tool_schemas schemas (new_with_thinking env mdl input thinking names known))
     \<lparr>ctx_cache_usage := usage, signature_metadata_compat := metadata_compat\<rparr>)"
  by (simp add: fresh_context_def set_invoke_tool_schemas_def new_with_thinking_def)

lemma yields_initial:
  assumes ho: "rearranges (env_hash_order env)" and fresh: "fresh_context c"
  shows "yields c (generate_initial_events env c) stream_ok"
  unfolding generate_initial_events_def
proof (rule yields_and_then)
  let ?m = "new_state_manager\<lparr>message_started := True\<rparr>"
  have st: "handle_message_start (create_message_start_event c) (manager c) = (?m, [create_message_start_event c])"
    using fresh by (simp add: handle_message_start_def fresh_context_def new_state_manager_def)
  have "accepted (manager c) [create_message_start_event c] ?m"
    using fresh by (simp add: accepted_def create_message_start_event_def Let_def abs_manager_def fresh_context_def
        new_state_manager_def)
  moreover have "stream_ok (c\<lparr>manager := ?m\<rparr>)"
    using fresh by (simp add: stream_ok_def context_ok_def thinking_ok_def fresh_context_def new_state_manager_def
        manager_ok_def manager_open_def open_thinking_def is_block_open_of_type_def)
  ultimately show "yields c (with_manager (handle_message_start (create_message_start_event c)) c) stream_ok"
    by (simp add: yields_def with_manager_def st)
  fix c1 assume ok: "stream_ok c1"
  then have ok1: "context_ok c1" by (simp add: stream_ok_def)
  obtain i m where n: "next_block_index (manager c1) = (i, m)" by force
  let ?c2 = "c1\<lparr>manager := m, text_block_index := Some i\<rparr>"
  have "yields c1 (with_manager (handle_content_block_start (env_hash_order env) i ''text''
      (ContentBlockStart i TextBlock)) ?c2) stream_ok"
  proof (rule yields_start_other[OF ok1 n _ ho])
    fix m' assume "evolves (manager c1) m'" "open_thinking m' = open_thinking (manager c1)"
    with ok show "stream_ok (?c2\<lparr>manager := m'\<rparr>)"
      by (auto simp: stream_ok_def context_ok_def thinking_ok_def thinking_open_iff evolves_def)
  qed simp_all
  with ok n show "yields c1 (if thinking_enabled c1 then (c1, []) else
      let (idx, m) = next_block_index (manager c1)
      in with_manager (handle_content_block_start (env_hash_order env) idx ''text'' (ContentBlockStart idx TextBlock))
           (c1\<lparr>manager := m, text_block_index := Some idx\<rparr>)) stream_ok"
    by (simp add: yields_pure)
qed

text \<open>No redacted block arrives inside a tagged thinking.\<close>

fun tags_respected :: "stream_env \<Rightarrow> kiro_event list \<Rightarrow> stream_context \<Rightarrow> bool" where
  "tags_respected env [] c \<longleftrightarrow> True"
| "tags_respected env (ev # evs) c \<longleftrightarrow>
     \<not> redacts_inside ev c \<and> tags_respected env evs (fst (process_kiro_event env ev c))"

lemma yields_events:
  assumes ho: "rearranges (env_hash_order env)"
  shows "stream_ok c \<Longrightarrow> tags_respected env evs c \<Longrightarrow> yields c (process_events env evs c) stream_ok"
proof (induction evs arbitrary: c)
  case (Cons ev evs)
  then have "yields c (process_kiro_event env ev c)
      (\<lambda>c'. stream_ok c' \<and> tags_respected env evs c')"
    using yields_result[OF yields_event[OF ho Cons.prems(1), of ev]] by (auto elim!: yields_mono)
  from yields_and_then[OF this, of "process_events env evs" stream_ok] Cons.IH show ?case by auto
qed (simp add: yields_pure)

lemma accepted_run:
  assumes "yields c ce Q" "manager c = new_state_manager"
  shows "\<exists>p. proto_run (snd ce) protocol_init = Some p \<and> pr_started p = message_started (manager (fst ce))
    \<and> pr_ended p = message_ended (manager (fst ce))"
proof -
  have "abs_manager None (manager c) = protocol_init"
    by (simp add: assms(2) new_state_manager_def abs_manager_def protocol_init_def abs_blocks_def)
  with assms(1) obtain s where "proto_run (snd ce) protocol_init = Some (abs_manager s (manager (fst ce)))"
    unfolding yields_def accepted_def by metis
  then show ?thesis by (simp add: abs_manager_def)
qed

text \<open>The initial events and those of any upstream events, when no redacted block arrives inside a tagged
  thinking.\<close>

lemma yields_live:
  assumes "rearranges (env_hash_order env)" "fresh_context c"
    and "tags_respected env evs (fst (generate_initial_events env c))"
  shows "yields c (and_then (generate_initial_events env c) (process_events env evs))
    (\<lambda>c'. c' = fst (and_then (generate_initial_events env c) (process_events env evs)) \<and> stream_ok c')"
proof (rule yields_result)
  have "yields c (generate_initial_events env c) (\<lambda>c'. stream_ok c' \<and> tags_respected env evs c')"
    using yields_result[OF yields_initial[OF assms(1,2)]] assms(3) by (auto elim!: yields_mono)
  then show "yields c (and_then (generate_initial_events env c) (process_events env evs)) stream_ok"
    by (rule yields_and_then) (auto intro: yields_events[OF assms(1)])
qed

end
