(* ===== verification/MessageStream.thy ===== *)
theory MessageStream
  imports EventDecoder StreamProtocol
begin

text \<open>
  The live body of a Messages reply: \<open>create_sse_stream\<close> of \<open>src/anthropic/handlers.rs\<close> without
  structured output.  Chunks of the upstream's body go through the event stream decoder, each frame
  becomes an event (\<open>Event::from_frame\<close> of \<open>src/kiro/model/events/base.rs\<close>), and \<open>StreamContext\<close>
  turns it into events of the client's protocol; any failure ends the stream with an error event.
  The JSON decoding of the payloads is the parameter \<open>payload_parsers\<close>.  The pings sent while the
  upstream is silent, the trace and the settlement of usage are left out.
\<close>

section \<open>Upstream events from frames\<close>

datatype event_kind =
    KAssistantResponse | KToolUse | KMetering | KMetadata | KContextUsage | KReasoningContent | KUnknown

definition event_type_names :: "(string \<times> event_kind) list" where
  "event_type_names =
     [(''assistantResponseEvent'', KAssistantResponse), (''toolUseEvent'', KToolUse),
      (''meteringEvent'', KMetering), (''metadataEvent'', KMetadata),
      (''contextUsageEvent'', KContextUsage), (''reasoningContentEvent'', KReasoningContent)]"

definition event_kind_of :: "string \<Rightarrow> event_kind" where
  "event_kind_of s = (case map_of event_type_names s of Some k \<Rightarrow> k | None \<Rightarrow> KUnknown)"

fun event_kind_str :: "event_kind \<Rightarrow> string" where
  "event_kind_str KAssistantResponse = ''assistantResponseEvent''"
| "event_kind_str KToolUse = ''toolUseEvent''"
| "event_kind_str KMetering = ''meteringEvent''"
| "event_kind_str KMetadata = ''metadataEvent''"
| "event_kind_str KContextUsage = ''contextUsageEvent''"
| "event_kind_str KReasoningContent = ''reasoningContentEvent''"
| "event_kind_str KUnknown = ''unknown''"

lemma event_kind_of_str [simp]: "event_kind_of (event_kind_str k) = k"
  by (cases k) (simp_all add: event_kind_of_def event_type_names_def)

record payload_parsers =
  parse_assistant :: "u8 list \<Rightarrow> string + string"
  parse_tool_use :: "u8 list \<Rightarrow> string + tool_use_event"
  parse_metering :: "u8 list \<Rightarrow> string + metering_event"
  parse_metadata :: "u8 list \<Rightarrow> string + metadata_event"
  parse_context_usage :: "u8 list \<Rightarrow> string + f64"
  parse_reasoning :: "u8 list \<Rightarrow> string + reasoning_event"

definition payload_as_json :: "(u8 list \<Rightarrow> string + 'a) \<Rightarrow> ('a \<Rightarrow> kiro_event) \<Rightarrow> frame \<Rightarrow> parse_error + kiro_event" where
  "payload_as_json parse mk f =
     (case parse (frame_payload f) of Inl e \<Rightarrow> Inl (PayloadDeserialize e) | Inr v \<Rightarrow> Inr (mk v))"

definition parse_event :: "payload_parsers \<Rightarrow> frame \<Rightarrow> parse_error + kiro_event" where
  "parse_event pp f =
     (case event_kind_of (case frame_event_type f of Some t \<Rightarrow> t | None \<Rightarrow> ''unknown'') of
        KAssistantResponse \<Rightarrow> payload_as_json (parse_assistant pp) AssistantResponse f
      | KToolUse \<Rightarrow> payload_as_json (parse_tool_use pp) ToolUse f
      | KMetering \<Rightarrow> payload_as_json (parse_metering pp) Metering f
      | KMetadata \<Rightarrow> payload_as_json (parse_metadata pp) Metadata f
      | KContextUsage \<Rightarrow> payload_as_json (parse_context_usage pp) ContextUsage f
      | KReasoningContent \<Rightarrow> payload_as_json (parse_reasoning pp) ReasoningContent f
      | KUnknown \<Rightarrow> Inr Unknown)"

definition parse_error_event :: "frame \<Rightarrow> kiro_event" where
  "parse_error_event f =
     ServiceError (case error_code (frame_headers f) of Some c \<Rightarrow> c | None \<Rightarrow> ''UnknownError'') (payload_as_str f)"

definition parse_exception_event :: "frame \<Rightarrow> kiro_event" where
  "parse_exception_event f =
     ServiceException (case exception_type (frame_headers f) of Some t \<Rightarrow> t | None \<Rightarrow> ''UnknownException'')
       (payload_as_str f)"

definition event_from_frame :: "payload_parsers \<Rightarrow> frame \<Rightarrow> parse_error + kiro_event" where
  "event_from_frame pp f =
     (let mtype = (case frame_message_type f of Some t \<Rightarrow> t | None \<Rightarrow> ''event'') in
      if mtype = ''event'' then parse_event pp f
      else if mtype = ''error'' then Inr (parse_error_event f)
      else if mtype = ''exception'' then Inr (parse_exception_event f)
      else Inl (InvalidMessageType mtype))"

section \<open>Failures\<close>

record stream_failure =
  sf_type :: string
  sf_message :: string

definition interrupted :: "string \<Rightarrow> stream_failure" where
  "interrupted reason =
     \<lparr>sf_type = ''api_error'',
      sf_message = ''Upstream response stream was interrupted: '' @ reason @ ''. Retry the request.''\<rparr>"

definition failure_status :: "stream_failure \<Rightarrow> nat" where
  "failure_status f =
     (if sf_type f = ''rate_limit_error'' then 429
      else if sf_type f = ''overloaded_error'' then 503
      else if sf_type f = ''invalid_request_error'' then 400
      else if sf_type f = ''permission_error'' then 403
      else 502)"

text \<open>\<open>rsplit\<close> on the three separators, the first part.\<close>

definition sanitize_upstream_code :: "string \<Rightarrow> string" where
  "sanitize_upstream_code code =
     (let short = rev (takeWhile (\<lambda>c. c \<noteq> CHR ''#'' \<and> c \<noteq> CHR ''.'' \<and> c \<noteq> CHR '':'') (rev code))
      in take 64 (filter (\<lambda>c. is_ascii_alphanumeric c \<or> c = CHR ''_'') short))"

definition classify_upstream_failure :: "string \<Rightarrow> string \<Rightarrow> stream_failure" where
  "classify_upstream_failure code message =
     (let name = sanitize_upstream_code code;
          label = (if name = [] then ''unknown upstream error'' else name);
          code_lower = to_ascii_lowercase code;
          lower = code_lower @ '' '' @ to_ascii_lowercase message;
          has = (\<lambda>needles. list_ex (contains lower) needles)
      in if has [''throttl'', ''rate exceeded'', ''rate limit'', ''too many requests'', ''toomanyrequests'']
         then \<lparr>sf_type = ''rate_limit_error'',
               sf_message = ''Upstream rate limit reached ('' @ label @ ''). Retry after a short wait.''\<rparr>
         else if has [''serviceunavailable'', ''service unavailable'', ''overloaded'', ''high load'',
                      ''insufficient capacity'', ''temporarily unavailable'', ''temporarily_unavailable'']
         then \<lparr>sf_type = ''overloaded_error'',
               sf_message = ''Upstream model is overloaded ('' @ label @ ''). Retry later.''\<rparr>
         else if has [''input is too long'', ''prompt is too long'', ''too many tokens'', ''context window'',
                      ''context length'', ''exceeds the maximum'']
         then \<lparr>sf_type = ''invalid_request_error'',
               sf_message = ''prompt is too long: the upstream rejected the input as exceeding the model context ('' @ label @ '').''\<rparr>
         else if has [''accessdenied'', ''access denied'', ''unauthorized'', ''forbidden'']
         then \<lparr>sf_type = ''permission_error'', sf_message = ''Upstream denied access ('' @ label @ '').''\<rparr>
         else if contains code_lower ''validation''
         then \<lparr>sf_type = ''invalid_request_error'', sf_message = ''Upstream rejected the request ('' @ label @ '').''\<rparr>
         else interrupted (''upstream reported '' @ label))"

fun upstream_event_error :: "kiro_event \<Rightarrow> stream_failure option" where
  "upstream_event_error (ServiceError code message) = Some (classify_upstream_failure code message)"
| "upstream_event_error (ServiceException etype message) =
     (if etype \<noteq> ''ContentLengthExceededException'' then Some (classify_upstream_failure etype message) else None)"
| "upstream_event_error _ = None"

section \<open>The stream\<close>

text \<open>What the body yields: a chunk, or a read error (a timeout or not).\<close>

datatype body_item = Chunk "u8 list" | ReadError bool

definition body_read_failure :: "bool \<Rightarrow> stream_failure" where
  "body_read_failure timeout =
     (if timeout then interrupted ''no data arrived from upstream before the read deadline''
      else interrupted ''the connection to upstream was lost'')"

definition malformed_frame :: stream_failure where
  "malformed_frame = interrupted ''malformed event frame from upstream''"

definition interrupt :: "stream_env \<Rightarrow> stream_failure \<Rightarrow> stream_context \<Rightarrow> emission" where
  "interrupt env failure c = stream_error_events env (sf_type failure) (sf_message failure) c"

text \<open>The results of the decoder for one chunk; \<open>Return\<close> is the end of the stream.\<close>

fun handle_results ::
  "stream_env \<Rightarrow> payload_parsers \<Rightarrow> (parse_error + frame) list \<Rightarrow> stream_context \<Rightarrow> emission turn" where
  "handle_results env pp [] c = Again (c, [])"
| "handle_results env pp (Inl e # results) c = Return (interrupt env malformed_frame c)"
| "handle_results env pp (Inr f # results) c =
     (case event_from_frame pp f of
        Inl e \<Rightarrow> Return (interrupt env malformed_frame c)
      | Inr ev \<Rightarrow>
          (case upstream_event_error ev of
             Some failure \<Rightarrow> Return (interrupt env failure c)
           | None \<Rightarrow>
               let (c', es) = process_kiro_event env ev c in
               (case handle_results env pp results c' of
                  Return (c'', es') \<Rightarrow> Return (c'', es @ es')
                | Again (c'', es') \<Rightarrow> Again (c'', es @ es'))))"

fun live_body ::
  "stream_env \<Rightarrow> payload_parsers \<Rightarrow> (u8 list \<Rightarrow> u32) \<Rightarrow> body_item list \<Rightarrow> decoder \<Rightarrow> nat \<Rightarrow> stream_context \<Rightarrow> emission" where
  "live_body env pp crc [] d sent_bytes c =
     (if sent_bytes = 0 then interrupt env (interrupted ''upstream returned an empty event stream'') c
      else if has_pending_data d
      then interrupt env (interrupted ''upstream ended with an incomplete event frame'') c
      else stream_final_events env c)"
| "live_body env pp crc (ReadError timeout # items) d sent_bytes c = interrupt env (body_read_failure timeout) c"
| "live_body env pp crc (Chunk chunk # items) d sent_bytes c =
     (case feed d chunk of
        Inl e \<Rightarrow> interrupt env malformed_frame c
      | Inr d \<Rightarrow>
          (case decode_iter (parse_frame crc) d of
             None \<Rightarrow> (c, [])
           | Some (results, d) \<Rightarrow>
               (case handle_results env pp results c of
                  Return ce \<Rightarrow> ce
                | Again ce \<Rightarrow> and_then ce (live_body env pp crc items d (sent_bytes + length chunk)))))"

definition create_sse_stream ::
  "stream_env \<Rightarrow> payload_parsers \<Rightarrow> (u8 list \<Rightarrow> u32) \<Rightarrow> body_item list \<Rightarrow> stream_context \<Rightarrow> emission" where
  "create_sse_stream env pp crc items c =
     and_then (generate_initial_events env c) (live_body env pp crc items new_decoder 0)"

section \<open>The stream in two stages\<close>

text \<open>The decoding does not depend on the context: the events that reach it, in order, and the failure
  that ended the stream, if any.\<close>

fun source_results :: "payload_parsers \<Rightarrow> (parse_error + frame) list \<Rightarrow> kiro_event list \<times> stream_failure option" where
  "source_results pp [] = ([], None)"
| "source_results pp (Inl e # results) = ([], Some malformed_frame)"
| "source_results pp (Inr f # results) =
     (case event_from_frame pp f of
        Inl e \<Rightarrow> ([], Some malformed_frame)
      | Inr ev \<Rightarrow>
          (case upstream_event_error ev of
             Some failure \<Rightarrow> ([], Some failure)
           | None \<Rightarrow> let (evs, outcome) = source_results pp results in (ev # evs, outcome)))"

fun live_source ::
  "payload_parsers \<Rightarrow> (u8 list \<Rightarrow> u32) \<Rightarrow> body_item list \<Rightarrow> decoder \<Rightarrow> nat
     \<Rightarrow> kiro_event list \<times> stream_failure option" where
  "live_source pp crc [] d sent_bytes =
     ([], if sent_bytes = 0 then Some (interrupted ''upstream returned an empty event stream'')
          else if has_pending_data d then Some (interrupted ''upstream ended with an incomplete event frame'')
          else None)"
| "live_source pp crc (ReadError timeout # items) d sent_bytes = ([], Some (body_read_failure timeout))"
| "live_source pp crc (Chunk chunk # items) d sent_bytes =
     (case feed d chunk of
        Inl e \<Rightarrow> ([], Some malformed_frame)
      | Inr d \<Rightarrow>
          (case decode_iter (parse_frame crc) d of
             None \<Rightarrow> ([], Some malformed_frame)
           | Some (results, d) \<Rightarrow>
               (case source_results pp results of
                  (evs, Some failure) \<Rightarrow> (evs, Some failure)
                | (evs, None) \<Rightarrow>
                    let (evs', outcome) = live_source pp crc items d (sent_bytes + length chunk)
                    in (evs @ evs', outcome))))"

definition conclude :: "stream_env \<Rightarrow> stream_failure option \<Rightarrow> stream_context \<Rightarrow> emission" where
  "conclude env outcome c =
     (case outcome of None \<Rightarrow> stream_final_events env c | Some failure \<Rightarrow> interrupt env failure c)"

lemma and_then_nil [simp]: "and_then (c, []) f = f c"
  by (simp add: and_then_def)

lemma process_events_append: "process_events env (a @ b) c = and_then (process_events env a c) (process_events env b)"
proof (induction a arbitrary: c)
  case (Cons ev a)
  then have "process_events env (a @ b) = (\<lambda>c. and_then (process_events env a c) (process_events env b))"
    by (intro ext)
  then show ?case by (simp add: and_then_assoc)
qed simp

lemma handle_results_source:
  "handle_results env pp results c =
     (case source_results pp results of
        (evs, None) \<Rightarrow> Again (process_events env evs c)
      | (evs, Some failure) \<Rightarrow> Return (and_then (process_events env evs c) (interrupt env failure)))"
proof (induction env pp results c rule: handle_results.induct)
  case (3 env pp f results c)
  show ?case
  proof (cases "event_from_frame pp f")
    case (Inr ev)
    show ?thesis
    proof (cases "upstream_event_error ev")
      case None
      obtain c' es where p: "process_kiro_event env ev c = (c', es)" by force
      show ?thesis
        using 3(1)[OF Inr None p[symmetric] refl] Inr None p
        by (auto simp: and_then_def split: prod.splits option.splits)
    qed (simp add: Inr)
  qed simp
qed simp_all

lemma live_body_source:
  "live_body env pp crc items d sent_bytes c =
     (let (evs, outcome) = live_source pp crc items d sent_bytes
      in and_then (process_events env evs c) (conclude env outcome))"
proof (induction env pp crc items d sent_bytes c rule: live_body.induct)
  case (3 env pp crc chunk items d sent_bytes c)
  show ?case
  proof (cases "feed d chunk")
    case (Inr d1)
    obtain results d2 where dec: "decode_iter (parse_frame crc) d1 = Some (results, d2)"
      using event_frame.decode_iter_returns by blast
    obtain evs outcome where src: "source_results pp results = (evs, outcome)" by force
    show ?thesis
    proof (cases outcome)
      case None
      have IH: "live_body env pp crc items d2 (sent_bytes + length chunk) c' =
          (let (evs, outcome) = live_source pp crc items d2 (sent_bytes + length chunk)
           in and_then (process_events env evs c') (conclude env outcome))" for c'
        using 3(1)[OF Inr dec refl] src None by (simp add: handle_results_source)
      then have IH: "live_body env pp crc items d2 (sent_bytes + length chunk) = (\<lambda>c'.
          (let (evs, outcome) = live_source pp crc items d2 (sent_bytes + length chunk)
           in and_then (process_events env evs c') (conclude env outcome)))" by (rule ext)
      show ?thesis
        by (simp add: Inr dec src None handle_results_source IH process_events_append and_then_assoc split: prod.split)
    next
      case (Some failure)
      then show ?thesis
        by (simp add: Inr dec src handle_results_source conclude_def)
    qed
  qed (simp add: conclude_def)
qed (simp_all add: conclude_def)


section \<open>The stream is well-formed\<close>

definition context_of_request ::
  "stream_env \<Rightarrow> string \<Rightarrow> int \<Rightarrow> bool \<Rightarrow> name_map \<Rightarrow> string list \<Rightarrow> tool_schemas \<Rightarrow> cache_usage \<Rightarrow> bool \<Rightarrow> stream_context" where
  "context_of_request env mdl input thinking names known schemas usage metadata_compat =
     (set_invoke_tool_schemas schemas (new_with_thinking env mdl input thinking names known))
       \<lparr>ctx_cache_usage := usage, signature_metadata_compat := metadata_compat\<rparr>"

lemma sse_stream_accepted:
  assumes "rearranges (env_hash_order env)" "fresh_context c"
    and "live_source pp crc items new_decoder 0 = (evs, outcome)"
    and "tags_respected env evs (fst (generate_initial_events env c))"
    and "outcome = None \<longrightarrow> \<not> thinking_cut_off (fst (flush_xml_filter env
           (fst (and_then (generate_initial_events env c) (process_events env evs)))))"
  shows "\<exists>p. proto_run (snd (create_sse_stream env pp crc items c)) protocol_init = Some p
     \<and> pr_started p \<and> pr_ended p"
proof -
  have reply: "create_sse_stream env pp crc items c
      = and_then (and_then (generate_initial_events env c) (process_events env evs)) (conclude env outcome)"
  proof -
    have "live_body env pp crc items new_decoder 0
        = (\<lambda>c. and_then (process_events env evs c) (conclude env outcome))"
      by (rule ext) (simp add: live_body_source assms(3))
    then show ?thesis by (simp add: create_sse_stream_def and_then_assoc)
  qed
  have "yields c (create_sse_stream env pp crc items c) ended"
    unfolding reply
  proof (rule yields_and_then[OF yields_live[OF assms(1,2,4)]])
    fix c1 assume c1: "c1 = fst (and_then (generate_initial_events env c) (process_events env evs)) \<and> stream_ok c1"
    show "yields c1 (conclude env outcome c1) ended"
    proof (cases outcome)
      case None
      with yields_final[OF assms(1) c1[THEN conjunct2]] assms(5) c1[THEN conjunct1] show ?thesis
        by (simp add: conclude_def)
    next
      case (Some failure)
      have "context_ok c1" using c1[THEN conjunct2] by (simp add: stream_ok_def)
      from yields_error[OF assms(1) this] Some show ?thesis by (simp add: conclude_def interrupt_def)
    qed
  qed
  from accepted_run[OF this] assms(2) this show ?thesis
    by (auto simp: fresh_context_def yields_def ended_def)
qed


text \<open>C1: Whatever bytes the upstream sends, in whatever chunks, and however its connection ends, the
  client gets one well-formed message stream: all events together are accepted by the automaton of
  the Messages protocol (one message start, blocks under consecutive indices, deltas only to open
  blocks of their type, a signature right before the end of each thinking, no open block at the
  message delta) and reach its end, provided no redacted block arrives inside a thinking found by
  its text tag and a reply that ends normally does not stop right after the opening of such a tag.\<close>

theorem sse_stream_well_formed:
  assumes "rearranges (env_hash_order env)"
    and "c = context_of_request env mdl input thinking names known schemas usage metadata_compat"
    and "live_source pp crc items new_decoder 0 = (evs, outcome)"
    and "tags_respected env evs (fst (generate_initial_events env c))"
    and "outcome = None \<longrightarrow> \<not> thinking_cut_off (fst (flush_xml_filter env
           (fst (and_then (generate_initial_events env c) (process_events env evs)))))"
  shows "\<exists>p. proto_run (snd (create_sse_stream env pp crc items c)) protocol_init = Some p
     \<and> pr_started p \<and> pr_ended p"
proof -
  have "fresh_context c" unfolding assms(2) context_of_request_def by (rule fresh_new_context)
  from sse_stream_accepted[OF assms(1) this assms(3-5)] show ?thesis .
qed

section \<open>A reply without thinking\<close>

text \<open>No function changes \<open>thinking_enabled\<close>, and without it no tag is looked for.\<close>

lemma thinking_enabled_frame [simp]:
  "thinking_enabled (fst (with_manager f c)) = thinking_enabled c"
  "thinking_enabled (fst (create_thinking_delta_event i t c)) = thinking_enabled c"
  "thinking_enabled (fst (create_signature_delta_event_with env i s c)) = thinking_enabled c"
  "thinking_enabled (fst (emit_tool_input_fragment i t c)) = thinking_enabled c"
  "thinking_enabled (fst (snd (start_tool_use env tid name c))) = thinking_enabled c"
  by (simp_all add: with_manager_def create_thinking_delta_event_def create_signature_delta_event_with_def
      emit_tool_input_fragment_def start_tool_use_def Let_def split: prod.split option.split)

lemma thinking_enabled_completed [simp]:
  "thinking_enabled (fst (emit_completed_tool_use env call c)) = thinking_enabled c"
proof -
  obtain i ce where st: "start_tool_use env (ct_id call) (ct_name call) c = (i, ce)" by (rule prod.exhaust)
  with thinking_enabled_frame(5)[of env "ct_id call" "ct_name call" c] show ?thesis
    by (simp add: emit_completed_tool_use_def and_then_fst)
qed

lemma thinking_enabled_text [simp]: "thinking_enabled (fst (emit_text_delta_raw env t c)) = thinking_enabled c"
  by (simp add: emit_text_delta_raw_def Let_def and_then_fst with_manager_def split: prod.split option.split)

lemma thinking_enabled_sniffed [simp]: "thinking_enabled (fst (emit_sniffed env outs c)) = thinking_enabled c"
  by (induction env outs c rule: emit_sniffed.induct) (simp_all add: and_then_fst Let_def)

lemma thinking_enabled_create [simp]: "thinking_enabled (fst (create_text_delta_events env t c)) = thinking_enabled c"
  by (simp add: create_text_delta_events_def split: prod.split)

lemma thinking_enabled_close [simp]: "thinking_enabled (fst (close_open_thinking_block env c)) = thinking_enabled c"
  by (simp add: close_open_thinking_block_def and_then_fst Let_def split: option.split)


lemma thinking_enabled_emit_tool: "thinking_enabled (fst (emit_tool_use env ev c)) = thinking_enabled c"
proof -
  obtain result buffers where push:
    "accumulator_push (env_parse_json env) (tool_names c) ev (tool_buffers c) = (result, buffers)" by force
  let ?c = "c\<lparr>tool_buffers := buffers\<rparr>"
  have started: "thinking_enabled (fst (let (index, started) = start_tool_use env tid name ?c
      in and_then (and_then (and_then started (emit_tool_input_fragment index before))
           (emit_tool_input_fragment index input))
           (\<lambda>c. if t then (c, []) else and_then (if b then emit_tool_input_fragment index braces c else (c, []))
                 (with_manager (handle_content_block_stop index))))) = thinking_enabled c"
    for tid name before input t b braces
  proof -
    obtain i ce where st: "start_tool_use env tid name ?c = (i, ce)" by (rule prod.exhaust)
    with thinking_enabled_frame(5)[of env tid name ?c] show ?thesis by (simp add: and_then_fst)
  qed
  show ?thesis
    using started unfolding emit_tool_use_def Let_def push prod.case
    by (simp split: sum.split option.split)
qed

lemma no_thinking_event:
  assumes "rearranges (env_hash_order env)" "stream_ok c" "\<not> thinking_enabled c"
  shows "\<not> redacts_inside ev c" "\<not> thinking_enabled (fst (process_kiro_event env ev c))"
proof -
  show "\<not> redacts_inside ev c" using assms(3) by (cases ev) simp_all
  have "\<not> in_thinking_block c" using assms by (auto simp: stream_ok_def thinking_ok_def)
  show "\<not> thinking_enabled (fst (process_kiro_event env ev c))"
    using assms(3)
    by (cases ev) (simp_all add: process_assistant_response_def process_tool_use_def settle_before_tool_def
        process_reasoning_content_def process_metadata_def process_context_usage_def process_metering_def
        and_then_fst Let_def thinking_enabled_emit_tool split: prod.split option.split)
qed


lemma no_thinking_events:
  assumes ho: "rearranges (env_hash_order env)"
  shows "stream_ok c \<Longrightarrow> \<not> thinking_enabled c \<Longrightarrow>
    tags_respected env evs c \<and> \<not> thinking_enabled (fst (process_events env evs c))"
proof (induction evs arbitrary: c)
  case (Cons ev evs)
  note ev = no_thinking_event[OF ho Cons.prems, of ev]
  have "stream_ok (fst (process_kiro_event env ev c))"
    using yields_event[OF ho Cons.prems(1) ev(1)] by (simp add: yields_def)
  from Cons.IH[OF this ev(2)] ev(1) show ?case by (simp add: and_then_fst)
qed simp

text \<open>C10: For a client that did not enable thinking the stream is well-formed with no condition on the
  upstream at all: any bytes in any chunks, any end of the connection.\<close>

theorem plain_stream_well_formed:
  assumes "rearranges (env_hash_order env)"
  shows "\<exists>p. proto_run (snd (create_sse_stream env pp crc items
       (context_of_request env mdl input False names known schemas usage metadata_compat))) protocol_init = Some p
     \<and> pr_started p \<and> pr_ended p"
proof -
  let ?c = "context_of_request env mdl input False names known schemas usage metadata_compat"
  obtain evs outcome where src: "live_source pp crc items new_decoder 0 = (evs, outcome)" by force
  have fresh: "fresh_context ?c" unfolding context_of_request_def by (rule fresh_new_context)
  define c1 where "c1 = fst (generate_initial_events env ?c)"
  have c1: "stream_ok c1" "\<not> thinking_enabled c1"
    using yields_initial[OF assms fresh]
    by (simp_all add: yields_def c1_def generate_initial_events_def and_then_fst context_of_request_def
        new_with_thinking_def set_invoke_tool_schemas_def split: prod.split)
  from no_thinking_events[OF assms c1, of evs]
  have ev: "tags_respected env evs c1" "\<not> thinking_enabled (fst (process_events env evs c1))" by simp_all
  let ?c2 = "fst (process_events env evs c1)"
  have "stream_ok ?c2" using yields_events[OF assms c1(1) ev(1)] by (simp add: yields_def)
  then have "stream_ok (fst (flush_xml_filter env ?c2))"
    using yields_flush_xml[OF assms] by (simp add: yields_def)
  moreover have "\<not> thinking_enabled (fst (flush_xml_filter env ?c2))"
    using ev(2) by (simp add: flush_xml_filter_def Let_def split: prod.split)
  ultimately have "\<not> thinking_cut_off (fst (flush_xml_filter env ?c2))"
    by (auto simp: thinking_cut_off_def stream_ok_def thinking_ok_def)
  with sse_stream_accepted[OF assms fresh src] ev(1) show ?thesis
    by (simp add: c1_def and_then_fst)
qed

section \<open>An example\<close>

definition demo_env :: stream_env where
  "demo_env = \<lparr>env_hash_order = id, env_buffer_order = id, env_parse_json = (\<lambda>_. Inl []),
     env_json_to_string = (\<lambda>_. ''{}''), env_uuid = (\<lambda>_. ''u''), env_context_window = (\<lambda>_. 200000),
     env_present_signature = (\<lambda>s _. s)\<rparr>"

definition demo_parsers :: payload_parsers where
  "demo_parsers = \<lparr>parse_assistant = (\<lambda>bs. Inr (string_of_bytes bs)), parse_tool_use = (\<lambda>_. Inl []),
     parse_metering = (\<lambda>_. Inl []), parse_metadata = (\<lambda>_. Inl []), parse_context_usage = (\<lambda>_. Inl []),
     parse_reasoning = (\<lambda>_. Inl [])\<rparr>"

text \<open>One frame with a reply that thinks: the bytes are \<open>encode_frame\<close> of an assistant event.\<close>

definition demo_message :: message where
  "demo_message = ([('':event-type'', VString ''assistantResponseEvent'')],
     bytes_of_string (start_tag @ ''hm'' @ end_tag @ [newline, newline] @ ''Hi''))"

definition demo_context :: stream_context where
  "demo_context = context_of_request demo_env ''m'' 10 True [] [] [] default_cache_usage False"

definition demo_events :: "kiro_event list" where
  "demo_events = [AssistantResponse (start_tag @ ''hm'' @ end_tag @ [newline, newline] @ ''Hi'')]"

lemma demo_size: "message_size demo_message = 80" "length (encode_frame sample_crc demo_message) = 80"
  by code_simp+

lemma demo_wf: "wf_message demo_message"
proof -
  have "valid_utf8 (bytes_of_string '':event-type'')" "valid_utf8 (bytes_of_string ''assistantResponseEvent'')"
    by code_simp+
  then have "\<forall>h \<in> set (fst demo_message). wf_header h" by (simp add: demo_message_def)
  then show ?thesis by (simp add: wf_message_def MAX_MESSAGE_SIZE_def demo_size)
qed

lemma demo_event: "event_from_frame demo_parsers (frame_of demo_message) = Inr (hd demo_events)"
  by code_simp

lemma demo_decoded:
  assumes "buffer d = encode_frame sample_crc demo_message" "dec_state d = Ready"
  shows "decode_iter (parse_frame sample_crc) d = Some ([Inr (frame_of demo_message)],
    d\<lparr>buffer := [], dec_state := Ready, frames_decoded := frames_decoded d + 1, error_count := 0\<rparr>)"
proof -
  have nonempty: "encode_frame sample_crc demo_message \<noteq> []" using demo_size(2) by fastforce
  obtain ms1 ms2 tail where d: "[demo_message] = ms1 @ ms2" "tail = concat (map (encode_frame sample_crc) ms2)"
    "event_frame.cut_short sample_crc ms2 tail"
    "decode_iter (parse_frame sample_crc) d = Some (map (\<lambda>m. Inr (frame_of m)) ms1,
       d\<lparr>buffer := tail, dec_state := Ready, frames_decoded := frames_decoded d + length ms1,
         error_count := if ms1 = [] then error_count d else 0\<rparr>)"
    using event_frame.drain_encoded[of "[demo_message]" d "[]" sample_crc "length (buffer d) + 2"] demo_wf assms
    by (auto simp: decode_iter_def)
  have "ms1 = [demo_message] \<and> ms2 = []"
  proof (cases ms2)
    case (Cons m ms)
    with d(1) have "ms2 = [demo_message]" by (cases ms1) auto
    with d(2,3) nonempty show ?thesis by (simp add: event_frame.cut_short_def)
  qed (use d(1) in simp)
  with d(2,4) show ?thesis by simp
qed

lemma demo_source:
  "live_source demo_parsers sample_crc [Chunk (encode_frame sample_crc demo_message)] new_decoder 0
     = (demo_events, None)"
proof -
  have fed: "feed new_decoder (encode_frame sample_crc demo_message)
      = Inr (new_decoder\<lparr>buffer := encode_frame sample_crc demo_message\<rparr>)"
    by (simp add: feed_def Let_def new_decoder_def demo_size DEFAULT_MAX_BUFFER_SIZE_def)
  have "dec_state (new_decoder\<lparr>buffer := encode_frame sample_crc demo_message\<rparr>) = Ready"
    by (simp add: new_decoder_def)
  note dec = demo_decoded[OF _ this]
  show ?thesis
    by (simp add: demo_size fed dec demo_event has_pending_data_def) (simp add: demo_events_def)
qed

lemma demo_tags:
  "tags_respected demo_env demo_events (fst (generate_initial_events demo_env demo_context))"
  by code_simp

lemma demo_whole:
  "\<not> thinking_cut_off (fst (flush_xml_filter demo_env
     (fst (and_then (generate_initial_events demo_env demo_context) (process_events demo_env demo_events)))))"
  by code_simp


lemma rearranges_id: "rearranges id"
  by (simp add: rearranges_def)

lemma sse_stream_well_formed_witness:
  "\<exists>p. proto_run (snd (create_sse_stream demo_env demo_parsers sample_crc
       [Chunk (encode_frame sample_crc demo_message)] demo_context)) protocol_init = Some p
     \<and> pr_started p \<and> pr_ended p"
proof -
  have "rearranges (env_hash_order demo_env)" by (simp add: demo_env_def rearranges_id)
  from sse_stream_well_formed[OF this demo_context_def demo_source demo_tags] demo_whole show ?thesis by blast
qed

text \<open>A connection that is lost before anything arrived.\<close>

lemma plain_stream_well_formed_witness:
  "\<exists>p. proto_run (snd (create_sse_stream demo_env demo_parsers sample_crc [ReadError True]
       (context_of_request demo_env ''m'' 10 False [] [] [] default_cache_usage False))) protocol_init = Some p
     \<and> pr_started p \<and> pr_ended p"
proof -
  have "rearranges (env_hash_order demo_env)" by (simp add: demo_env_def rearranges_id)
  then show ?thesis by (rule plain_stream_well_formed)
qed

section \<open>Where the conditions are needed\<close>

definition demo_redacted :: "kiro_event list" where
  "demo_redacted =
     [AssistantResponse (start_tag @ ''a''),
      ReasoningContent \<lparr>rc_text = None, rc_signature = None, rc_redacted = Some ''r''\<rparr>,
      AssistantResponse ''a thought that goes on'']"

text \<open>A redacted block inside a tagged thinking closes the thinking's block, but the parser stays inside:
  the next text is sent as a delta of the closed block.\<close>

lemma redacted_breaks_protocol:
  "proto_run (snd (stream_reply demo_env demo_redacted demo_context)) protocol_init = None"
  by code_simp

text \<open>A reply that ends right after the opening tag: the thinking's block is closed without a signature.\<close>

lemma cut_off_breaks_protocol:
  "proto_run (snd (stream_reply demo_env [AssistantResponse start_tag] demo_context)) protocol_init = None"
  by code_simp

text \<open>An end tag quoted in the thinking is skipped when it arrives in one piece with its quote, but the
  quote is sent out and forgotten at the end of a chunk, and the next chunk finds the tag unquoted.\<close>

definition quoted_part :: string where
  "quoted_part = start_tag @ ''x'' @ [CHR 0x60] @ end_tag @ [newline, newline]"

lemma quoted_tag_depends_on_chunks:
  "let c = fst (generate_initial_events demo_env demo_context) in
     ContentBlockStop 0 \<in> set (snd (process_events demo_env [AssistantResponse quoted_part, AssistantResponse ''more''] c))
     \<and> ContentBlockStop 0 \<notin> set (snd (process_events demo_env [AssistantResponse (quoted_part @ ''more'')] c))"
  by code_simp

end
