(* ===== verification/RequestTypes.thy ===== *)
theory RequestTypes
  imports Json
begin

text \<open>
  The Messages request as the client sends it (\<open>src/anthropic/types.rs\<close>), after its JSON has been
  decoded: the structs, the values \<open>serde\<close> writes for a tool and a system message, and the reading of a
  \<open>cache_control\<close> from a JSON value.  Fields the server never reads are left out of no struct; a
  \<open>BTreeMap\<close> of JSON values is an object of the theory Json.
\<close>

section \<open>The structs\<close>

record cache_control =
  cache_type :: string
  cache_ttl :: "string option"

record thinking_config =
  thinking_type :: string
  budget_tokens :: int

record output_config =
  effort :: string
  output_format :: "json option"

record request_metadata =
  user_id :: "string option"

record system_message =
  sys_text :: string
  sys_cache_control :: "cache_control option"

record request_message =
  role :: string
  content :: json

record request_tool =
  tool_type :: "string option"
  tool_name :: string
  tool_description :: string
  input_schema :: json_object
  max_uses :: "int option"
  tool_cache_control :: "cache_control option"

record messages_request =
  req_model :: string
  max_tokens :: int
  messages :: "request_message list"
  req_stream :: bool
  system :: "system_message list option"
  tools :: "request_tool list option"
  tool_choice :: "json option"
  thinking :: "thinking_config option"
  output_config :: "output_config option"
  metadata :: "request_metadata option"
  cache_control :: "cache_control option"

definition MAX_BUDGET_TOKENS :: int where "MAX_BUDGET_TOKENS = 24576"

text \<open>What the deserializer makes of a given budget.\<close>

definition deserialize_budget_tokens :: "int \<Rightarrow> int" where
  "deserialize_budget_tokens v = min v MAX_BUDGET_TOKENS"

definition thinking_is_enabled :: "thinking_config \<Rightarrow> bool" where
  "thinking_is_enabled t \<longleftrightarrow> thinking_type t = ''enabled'' \<or> thinking_type t = ''adaptive''"

definition json_schema :: "output_config \<Rightarrow> json option" where
  "json_schema c =
     (case output_format c of
        None \<Rightarrow> None
      | Some f \<Rightarrow>
          (case json_get f ''type'' of
             Some (JString t) \<Rightarrow>
               if t = ''json_schema'' then
                 (case json_get f ''schema'' of Some (JObject s) \<Rightarrow> Some (JObject s) | _ \<Rightarrow> None)
               else None
           | _ \<Rightarrow> None))"

section \<open>Values written and read by serde\<close>

definition optional_field :: "string \<Rightarrow> ('a \<Rightarrow> json) \<Rightarrow> 'a option \<Rightarrow> json_object" where
  "optional_field k f v = (case v of Some x \<Rightarrow> [(k, f x)] | None \<Rightarrow> [])"

definition cache_control_value :: "cache_control \<Rightarrow> json" where
  "cache_control_value c =
     JObject (obj_of ([(''type'', JString (cache_type c))] @ optional_field ''ttl'' JString (cache_ttl c)))"

definition tool_value :: "request_tool \<Rightarrow> json" where
  "tool_value t =
     JObject (obj_of
       (optional_field ''type'' JString (tool_type t) @
        [(''name'', JString (tool_name t)), (''description'', JString (tool_description t)),
         (''input_schema'', JObject (input_schema t))] @
        optional_field ''max_uses'' JInt (max_uses t) @
        optional_field ''cache_control'' cache_control_value (tool_cache_control t)))"

definition system_value :: "system_message \<Rightarrow> json" where
  "system_value s =
     JObject (obj_of
       ([(''text'', JString (sys_text s))] @
        optional_field ''cache_control'' cache_control_value (sys_cache_control s)))"

text \<open>\<open>from_value::<CacheControl>\<close>: an object, or the fields in order in an array of two.\<close>

definition optional_string :: "json option \<Rightarrow> string option option" where
  "optional_string v =
     (case v of None \<Rightarrow> Some None | Some JNull \<Rightarrow> Some None | Some (JString s) \<Rightarrow> Some (Some s) | _ \<Rightarrow> None)"

definition make_cache_control :: "json option \<Rightarrow> json option \<Rightarrow> cache_control option" where
  "make_cache_control t l =
     (case (t, optional_string l) of
        (Some (JString s), Some ttl) \<Rightarrow> Some \<lparr>cache_type = s, cache_ttl = ttl\<rparr>
      | _ \<Rightarrow> None)"

definition cache_control_of_value :: "json \<Rightarrow> cache_control option" where
  "cache_control_of_value v =
     (case v of
        JObject m \<Rightarrow> make_cache_control (map_of m ''type'') (map_of m ''ttl'')
      | JArray [t, l] \<Rightarrow> make_cache_control (Some t) (Some l)
      | _ \<Rightarrow> None)"

lemma cache_control_round_trip: "cache_control_of_value (cache_control_value c) = Some c"
  by (cases "cache_ttl c")
    (simp_all add: cache_control_of_value_def cache_control_value_def obj_of_def optional_field_def
      make_cache_control_def optional_string_def)

end
