(* ===== verification/CacheMeter.thy ===== *)
theory CacheMeter
  imports RustStd "HOL-Library.Multiset"
begin

text \<open>
  The table of prompt prefixes (\<open>CacheMeter\<close> of \<open>src/anthropic/cache_metering.rs\<close>): a prefix hash
  with its token count and its own time to live, the counters of hits and misses, and the
  tombstones that tell why a prefix is gone.  Each operation holds the table's lock; \<open>now\<close> is its
  reading of the clock, in Unix seconds, as an unbounded integer.  Which of several equally old
  entries \<open>select_nth_unstable_by_key\<close> moves to the front is open, so the selection is an argument
  with the contract of the standard library.  The file the table is saved to is the value read from
  it and the value handed to the writer.
\<close>

section \<open>Constants and data\<close>

definition DEFAULT_CAPACITY :: nat where "DEFAULT_CAPACITY = 262144"
definition MIN_CAPACITY :: nat where "MIN_CAPACITY = 1024"
definition MAX_CAPACITY :: nat where "MAX_CAPACITY = 8388608"
definition DEFAULT_FLUSH_INTERVAL_SECS :: nat where "DEFAULT_FLUSH_INTERVAL_SECS = 300"
definition MIN_FLUSH_INTERVAL_SECS :: nat where "MIN_FLUSH_INTERVAL_SECS = 10"
definition MAX_FLUSH_INTERVAL_SECS :: nat where "MAX_FLUSH_INTERVAL_SECS = 3600"
definition TOMBSTONE_CAPACITY :: nat where "TOMBSTONE_CAPACITY = 65536"
definition MAX_TTL_SECS :: int where "MAX_TTL_SECS = 3600"
definition DEFAULT_TTL_SECS :: int where "DEFAULT_TTL_SECS = 300"

record cache_entry =
  ce_tokens :: u32
  ce_ttl_secs :: int
  ce_expires_at :: int
  ce_last_hit_at :: int

datatype lookup_outcome_kind = Hit u32 | Expired | Evicted | Absent

datatype tombstone_kind = EvictedEntry | ExpiredEntry

record stats_snapshot =
  sn_hits :: u64
  sn_misses :: u64
  miss_no_entry :: u64
  miss_expired :: u64
  miss_evicted :: u64
  miss_no_breakpoint :: u64
  miss_no_seed :: u64
  evicted_total :: u64
  expired_total :: u64
  tombstone_clears :: u64

definition zero_snapshot :: stats_snapshot where
  "zero_snapshot =
     \<lparr>sn_hits = 0, sn_misses = 0, miss_no_entry = 0, miss_expired = 0, miss_evicted = 0,
      miss_no_breakpoint = 0, miss_no_seed = 0, evicted_total = 0, expired_total = 0,
      tombstone_clears = 0\<rparr>"

definition is_all_zero :: "stats_snapshot \<Rightarrow> bool" where
  "is_all_zero s \<longleftrightarrow> s = zero_snapshot"

record meter_stats =
  st_total :: stats_snapshot
  st_delta :: stats_snapshot

text \<open>\<open>Stats::add\<close>: the counter is picked by its update function.\<close>

type_synonym pick = "(u64 \<Rightarrow> u64) \<Rightarrow> stats_snapshot \<Rightarrow> stats_snapshot"

definition stats_add :: "pick \<Rightarrow> u64 \<Rightarrow> meter_stats \<Rightarrow> meter_stats" where
  "stats_add pick n s =
     s\<lparr>st_total := pick (\<lambda>c. sat_add c n) (st_total s), st_delta := pick (\<lambda>c. sat_add c n) (st_delta s)\<rparr>"

definition stats_take_delta :: "meter_stats \<Rightarrow> stats_snapshot \<times> meter_stats" where
  "stats_take_delta s = (st_delta s, s\<lparr>st_delta := zero_snapshot\<rparr>)"

type_synonym entry_table = "(u64 \<times> cache_entry) list"

record meter_inner =
  entries :: entry_table
  dirty :: bool
  meter_stats :: meter_stats
  tombstones :: "(u64 \<times> tombstone_kind) list"

definition default_inner :: meter_inner where
  "default_inner =
     \<lparr>entries = [], dirty = False,
      meter_stats = \<lparr>st_total = zero_snapshot, st_delta = zero_snapshot\<rparr>, tombstones = []\<rparr>"

record cache_meter =
  inner :: meter_inner
  persist_path :: "string option"
  meter_enabled :: bool
  meter_capacity :: nat
  miss_diagnostics :: bool
  flush_interval_secs :: nat

section \<open>Construction and settings\<close>

text \<open>\<open>loaded\<close> is the map the file at \<open>path\<close> holds, nothing when it cannot be read or parsed.\<close>

definition with_remote :: "string option \<Rightarrow> entry_table option \<Rightarrow> int \<Rightarrow> cache_meter" where
  "with_remote path loaded now =
     \<lparr>inner =
        (case (path, loaded) of
           (Some _, Some m) \<Rightarrow>
             default_inner\<lparr>entries :=
               fold (\<lambda>(k, v) es. if now < ce_expires_at v then map_insert k v es else es) m []\<rparr>
         | _ \<Rightarrow> default_inner),
      persist_path = path, meter_enabled = True, meter_capacity = DEFAULT_CAPACITY,
      miss_diagnostics = True, flush_interval_secs = DEFAULT_FLUSH_INTERVAL_SECS\<rparr>"

definition clamp :: "nat \<Rightarrow> nat \<Rightarrow> nat \<Rightarrow> nat" where
  "clamp lo hi v = max lo (min hi v)"

definition meter_set_enabled :: "bool \<Rightarrow> cache_meter \<Rightarrow> cache_meter" where
  "meter_set_enabled on c = c\<lparr>meter_enabled := on\<rparr>"

definition with_capacity :: "nat \<Rightarrow> cache_meter \<Rightarrow> cache_meter" where
  "with_capacity n c = c\<lparr>meter_capacity := clamp MIN_CAPACITY MAX_CAPACITY n\<rparr>"

definition with_miss_diagnostics :: "bool \<Rightarrow> cache_meter \<Rightarrow> cache_meter" where
  "with_miss_diagnostics on c =
     (let c = c\<lparr>miss_diagnostics := on\<rparr> in
      if on then c else c\<lparr>inner := (inner c)\<lparr>tombstones := []\<rparr>\<rparr>)"

definition with_flush_interval_secs :: "nat \<Rightarrow> cache_meter \<Rightarrow> cache_meter" where
  "with_flush_interval_secs secs c =
     c\<lparr>flush_interval_secs := clamp MIN_FLUSH_INTERVAL_SECS MAX_FLUSH_INTERVAL_SECS secs\<rparr>"

definition persist_enabled :: "cache_meter \<Rightarrow> bool" where
  "persist_enabled c \<longleftrightarrow> persist_path c \<noteq> None"

text \<open>An intent that is zero counts as not given.\<close>

definition positive_intent :: "nat option \<Rightarrow> nat option" where
  "positive_intent v = (case v of Some n \<Rightarrow> if 0 < n then Some n else None | None \<Rightarrow> None)"

definition intent_or :: "nat option \<Rightarrow> nat option \<Rightarrow> nat \<Rightarrow> nat" where
  "intent_or from_config from_env fallback =
     (case positive_intent from_config of
        Some n \<Rightarrow> n
      | None \<Rightarrow> (case positive_intent from_env of Some n \<Rightarrow> n | None \<Rightarrow> fallback))"

definition resolve_capacity :: "nat option \<Rightarrow> nat option \<Rightarrow> nat" where
  "resolve_capacity from_config from_env =
     clamp MIN_CAPACITY MAX_CAPACITY (intent_or from_config from_env DEFAULT_CAPACITY)"

definition resolve_flush_interval_secs :: "nat option \<Rightarrow> nat option \<Rightarrow> nat" where
  "resolve_flush_interval_secs from_config from_env =
     clamp MIN_FLUSH_INTERVAL_SECS MAX_FLUSH_INTERVAL_SECS
       (intent_or from_config from_env DEFAULT_FLUSH_INTERVAL_SECS)"

text \<open>The environment variables, by the value the process environment holds.\<close>

definition bool_from_env :: "string option \<Rightarrow> bool option" where
  "bool_from_env v =
     (case v of
        None \<Rightarrow> None
      | Some raw \<Rightarrow>
          let raw = to_ascii_lowercase (trim raw) in
          if raw = [] then None
          else Some (raw \<notin> {''0'', ''off'', ''false'', ''no'', ''disabled''}))"

section \<open>Eviction\<close>

definition hard_limit :: "nat \<Rightarrow> nat" where
  "hard_limit capacity = min (2 ^ 64 - 1) (capacity * 6) div 5"

definition watermark :: "nat \<Rightarrow> nat" where
  "watermark capacity = capacity div 10 * 9"

definition note_tombstone :: "bool \<Rightarrow> u64 \<Rightarrow> tombstone_kind \<Rightarrow> meter_inner \<Rightarrow> meter_inner" where
  "note_tombstone on hash kind i =
     (if \<not> on then i
      else
        let i = (if TOMBSTONE_CAPACITY \<le> length (tombstones i)
                 then i\<lparr>tombstones := [], meter_stats := stats_add tombstone_clears_update 1 (meter_stats i)\<rparr>
                 else i)
        in i\<lparr>tombstones := map_insert hash kind (tombstones i)\<rparr>)"

text \<open>Remove an entry and leave its tombstone.\<close>

definition bury :: "bool \<Rightarrow> tombstone_kind \<Rightarrow> u64 \<Rightarrow> meter_inner \<Rightarrow> meter_inner" where
  "bury on kind k i = note_tombstone on k kind (i\<lparr>entries := map_remove k (entries i)\<rparr>)"

type_synonym selector = "nat \<Rightarrow> (u64 \<times> int) list \<Rightarrow> (u64 \<times> int) list"

definition shrink_to_watermark :: "selector \<Rightarrow> bool \<Rightarrow> nat \<Rightarrow> meter_inner \<Rightarrow> meter_inner" where
  "shrink_to_watermark sel on capacity i =
     (let target = watermark capacity; len = length (entries i) in
      if len \<le> target then i
      else
        let drop_n = len - target;
            victims = take drop_n (sel (drop_n - 1) (map (\<lambda>(k, v). (k, ce_last_hit_at v)) (entries i)));
            i = fold (\<lambda>(k, _). bury on EvictedEntry k) victims i
        in i\<lparr>meter_stats := stats_add evicted_total_update (of_nat drop_n) (meter_stats i), dirty := True\<rparr>)"

definition evict_expired_locked :: "bool \<Rightarrow> int \<Rightarrow> meter_inner \<Rightarrow> meter_inner" where
  "evict_expired_locked on now i =
     (let dead = map fst (filter (\<lambda>(_, v). ce_expires_at v \<le> now) (entries i)) in
      if dead = [] then i
      else
        let i = fold (bury on ExpiredEntry) dead i
        in i\<lparr>meter_stats := stats_add expired_total_update (of_nat (length dead)) (meter_stats i), dirty := True\<rparr>)"

section \<open>Operations\<close>

definition clamp_ttl :: "int \<Rightarrow> int" where
  "clamp_ttl t = max 60 (min MAX_TTL_SECS t)"

definition renew :: "int \<Rightarrow> cache_entry \<Rightarrow> cache_entry" where
  "renew now e =
     (let ttl = clamp_ttl (ce_ttl_secs e) in
      e\<lparr>ce_ttl_secs := ttl, ce_last_hit_at := now, ce_expires_at := now + ttl\<rparr>)"

definition probe_outcome :: "int \<Rightarrow> u64 \<Rightarrow> cache_meter \<Rightarrow> lookup_outcome_kind \<times> cache_meter" where
  "probe_outcome now hash c =
     (let i = inner c in
      case map_of (entries i) hash of
        Some e \<Rightarrow>
          if now < ce_expires_at e
          then (Hit (ce_tokens e),
                c\<lparr>inner := i\<lparr>entries := map_insert hash (renew now e) (entries i), dirty := True\<rparr>\<rparr>)
          else (Expired, c)
      | None \<Rightarrow>
          (case map_of (tombstones i) hash of
             Some ExpiredEntry \<Rightarrow> Expired
           | Some EvictedEntry \<Rightarrow> Evicted
           | None \<Rightarrow> Absent, c))"

definition count :: "pick \<Rightarrow> cache_meter \<Rightarrow> cache_meter" where
  "count pick c = c\<lparr>inner := (inner c)\<lparr>meter_stats := stats_add pick 1 (meter_stats (inner c))\<rparr>\<rparr>"

fun note_lookup :: "lookup_outcome_kind \<Rightarrow> cache_meter \<Rightarrow> cache_meter" where
  "note_lookup (Hit _) c = count sn_hits_update c"
| "note_lookup Expired c = count miss_expired_update (count sn_misses_update c)"
| "note_lookup Evicted c = count miss_evicted_update (count sn_misses_update c)"
| "note_lookup Absent c = count miss_no_entry_update (count sn_misses_update c)"

definition note_miss_no_breakpoint :: "cache_meter \<Rightarrow> cache_meter" where
  "note_miss_no_breakpoint c = count miss_no_breakpoint_update (count sn_misses_update c)"

definition note_miss_no_seed :: "cache_meter \<Rightarrow> cache_meter" where
  "note_miss_no_seed c = count miss_no_seed_update (count sn_misses_update c)"

definition lookup_outcome :: "int \<Rightarrow> u64 \<Rightarrow> cache_meter \<Rightarrow> lookup_outcome_kind \<times> cache_meter" where
  "lookup_outcome now hash c = (let (r, c) = probe_outcome now hash c in (r, note_lookup r c))"

definition lookup_and_renew :: "int \<Rightarrow> u64 \<Rightarrow> cache_meter \<Rightarrow> u32 option \<times> cache_meter" where
  "lookup_and_renew now hash c =
     (let (r, c) = lookup_outcome now hash c in (case r of Hit tokens \<Rightarrow> Some tokens | _ \<Rightarrow> None, c))"

definition new_entry :: "int \<Rightarrow> u32 \<Rightarrow> int \<Rightarrow> cache_entry" where
  "new_entry now tokens ttl =
     \<lparr>ce_tokens = tokens, ce_ttl_secs = ttl, ce_expires_at = now + ttl, ce_last_hit_at = now\<rparr>"

definition record_entry :: "selector \<Rightarrow> int \<Rightarrow> u64 \<Rightarrow> u32 \<Rightarrow> int \<Rightarrow> cache_meter \<Rightarrow> cache_meter" where
  "record_entry sel now hash tokens ttl_secs c =
     (let ttl = clamp_ttl ttl_secs; i = inner c;
          i = i\<lparr>entries := map_insert hash (new_entry now tokens ttl) (entries i)\<rparr>;
          i = i\<lparr>tombstones := map_remove hash (tombstones i), dirty := True\<rparr>;
          limit = hard_limit (meter_capacity c); on = miss_diagnostics c;
          i = (if limit < length (entries i)
               then let i = evict_expired_locked on now i in
                    if limit < length (entries i) then shrink_to_watermark sel on (meter_capacity c) i else i
               else i)
      in c\<lparr>inner := i\<rparr>)"

definition sweep :: "selector \<Rightarrow> int \<Rightarrow> cache_meter \<Rightarrow> cache_meter" where
  "sweep sel now c =
     (let on = miss_diagnostics c; i = evict_expired_locked on now (inner c);
          i = (if meter_capacity c < length (entries i) then shrink_to_watermark sel on (meter_capacity c) i else i)
      in c\<lparr>inner := i\<rparr>)"

text \<open>The snapshot handed to the writer, when there is one; a failed write is only logged.\<close>

definition flush_to_disk :: "cache_meter \<Rightarrow> entry_table option \<times> cache_meter" where
  "flush_to_disk c =
     (if persist_path c = None \<or> \<not> dirty (inner c) then (None, c)
      else (Some (entries (inner c)), c\<lparr>inner := (inner c)\<lparr>dirty := False\<rparr>\<rparr>))"

definition take_stats_delta :: "cache_meter \<Rightarrow> stats_snapshot \<times> cache_meter" where
  "take_stats_delta c =
     (let (d, s) = stats_take_delta (meter_stats (inner c)) in (d, c\<lparr>inner := (inner c)\<lparr>meter_stats := s\<rparr>\<rparr>))"

text \<open>\<open>log_stats_delta\<close>: the number of entries and the counters it logs, if anything happened.\<close>

definition log_stats_delta :: "cache_meter \<Rightarrow> (nat \<times> stats_snapshot) option \<times> cache_meter" where
  "log_stats_delta c =
     (let (d, c') = take_stats_delta c in
      (if is_all_zero d then None else Some (length (entries (inner c)), d), c'))"

text \<open>One turn of the background loop: the sweep timer or, when there is a file, the flush timer.\<close>

datatype background_tick = SweepTick | FlushTick

fun background_turn ::
  "selector \<Rightarrow> int \<Rightarrow> background_tick \<Rightarrow> cache_meter \<Rightarrow> entry_table option \<times> cache_meter" where
  "background_turn sel now SweepTick c = (None, snd (log_stats_delta (sweep sel now c)))"
| "background_turn sel now FlushTick c = (if persist_enabled c then flush_to_disk c else (None, c))"

section \<open>The selection\<close>

text \<open>What \<open>select_nth_unstable_by_key(n, key)\<close> leaves: a permutation in which no element before
  position \<open>n\<close> has a greater key, and none after it a smaller one, than the element there.\<close>

definition selects :: "selector \<Rightarrow> bool" where
  "selects sel \<longleftrightarrow>
     (\<forall>n xs. n < length xs \<longrightarrow>
        mset (sel n xs) = mset xs \<and>
        (\<forall>x \<in> set (take n (sel n xs)). snd x \<le> snd (sel n xs ! n)) \<and>
        (\<forall>y \<in> set (drop n (sel n xs)). snd (sel n xs ! n) \<le> snd y))"

locale selection =
  fixes sel :: "nat \<Rightarrow> (u64 \<times> int) list \<Rightarrow> (u64 \<times> int) list"
  assumes sel_mset: "n < length xs \<Longrightarrow> mset (sel n xs) = mset xs"
    and sel_before: "n < length xs \<Longrightarrow> x \<in> set (take n (sel n xs)) \<Longrightarrow> snd x \<le> snd (sel n xs ! n)"
    and sel_after: "n < length xs \<Longrightarrow> y \<in> set (drop n (sel n xs)) \<Longrightarrow> snd (sel n xs ! n) \<le> snd y"
begin

lemma sel_length: "n < length xs \<Longrightarrow> length (sel n xs) = length xs"
  using sel_mset [of n xs] by (metis size_mset)

lemma sel_set: "n < length xs \<Longrightarrow> set (sel n xs) = set xs"
  using sel_mset [of n xs] by (metis set_mset_mset)

lemma smallest_first:
  assumes n: "0 < k" "k \<le> length xs"
  defines "ys \<equiv> sel (k - 1) xs"
  shows "length (take k ys) = k" "mset (take k ys) + mset (drop k ys) = mset xs"
    "\<forall>x \<in> set (take k ys). \<forall>y \<in> set (drop k ys). snd x \<le> snd y"
proof -
  have lt: "k - 1 < length xs" using n by simp
  have len: "length ys = length xs" using sel_length [OF lt] by (simp add: ys_def)
  show "length (take k ys) = k" using n len by simp
  have "mset (take k ys) + mset (drop k ys) = mset ys"
    by (metis append_take_drop_id mset_append)
  then show "mset (take k ys) + mset (drop k ys) = mset xs"
    using sel_mset [OF lt] by (simp add: ys_def)
  have split: "take k ys = take (k - 1) ys @ [ys ! (k - 1)]"
    using n len take_Suc_conv_app_nth [of "k - 1" ys] by simp
  show "\<forall>x \<in> set (take k ys). \<forall>y \<in> set (drop k ys). snd x \<le> snd y"
  proof (intro ballI)
    fix x y assume x: "x \<in> set (take k ys)" and y: "y \<in> set (drop k ys)"
    have "x \<in> set (take (k - 1) ys) \<or> x = ys ! (k - 1)" using x split by auto
    then have "snd x \<le> snd (ys ! (k - 1))"
      using sel_before [OF lt, of x] by (auto simp: ys_def)
    also have "y \<in> set (drop (k - 1) ys)"
      using y set_drop_subset_set_drop [of "k - 1" k ys] by auto
    then have "snd (ys ! (k - 1)) \<le> snd y"
      using sel_after [OF lt, of y] by (simp add: ys_def)
    finally show "snd x \<le> snd y" .
  qed
qed

end

lemma selects_selection: "selects sel \<longleftrightarrow> selection sel"
  unfolding selects_def selection_def by blast

text \<open>Sorting is a selection, so the contract can be met.\<close>

lemma selects_sort: "selects (\<lambda>_. sort_key snd)"
proof -
  have "snd x \<le> snd (sort_key snd xs ! n)"
    if "n < length xs" "x \<in> set (take n (sort_key snd xs))" for x and xs :: "(u64 \<times> int) list" and n
    using that sorted_sort_key [of snd xs] by (auto simp: set_conv_nth sorted_iff_nth_mono)
  moreover have "snd (sort_key snd xs ! n) \<le> snd y"
    if "n < length xs" "y \<in> set (drop n (sort_key snd xs))" for y and xs :: "(u64 \<times> int) list" and n
    using that sorted_sort_key [of snd xs] by (auto simp: set_conv_nth sorted_iff_nth_mono)
  ultimately show ?thesis by (simp add: selects_def)
qed

interpretation sorting: selection "\<lambda>_. sort_key snd"
  using selects_sort by (simp add: selects_selection)

section \<open>Eviction in one step\<close>

lemma note_tombstone_other [simp]:
  "entries (note_tombstone on k kind i) = entries i" "dirty (note_tombstone on k kind i) = dirty i"
  by (simp_all add: note_tombstone_def Let_def)

lemma bury_entries [simp]: "entries (bury on kind k i) = map_remove k (entries i)"
  by (simp add: bury_def)

definition without_keys :: "'k set \<Rightarrow> ('k \<times> 'v) list \<Rightarrow> ('k \<times> 'v) list" where
  "without_keys ks m = filter (\<lambda>e. fst e \<notin> ks) m"

lemma fold_bury_entries: "entries (fold (bury on kind) ks i) = without_keys (set ks) (entries i)"
proof (induction ks arbitrary: i)
  case (Cons k ks)
  have "without_keys (set ks) (map_remove k m) = without_keys (set (k # ks)) m" for m :: entry_table
    by (auto simp: without_keys_def map_remove_def intro: filter_cong)
  with Cons show ?case by simp
qed (simp add: without_keys_def)

lemma map_of_without_keys: "map_of (without_keys ks m) k = (if k \<in> ks then None else map_of m k)"
  by (induction m) (auto simp: without_keys_def)

lemma distinct_keys_without: "distinct_keys m \<Longrightarrow> distinct_keys (without_keys ks m)"
  by (simp add: without_keys_def distinct_map_filter)

lemma fold_case_fst: "fold (\<lambda>(k, _). f k) xs i = fold f (map fst xs) i"
  by (induction xs arbitrary: i) auto

text \<open>A tombstone is one left before, or that of a key buried now.\<close>

lemma tombstone_of_bury:
  "map_of (tombstones (bury on kind k i)) h = Some w \<Longrightarrow>
   (h = k \<and> w = kind \<and> on) \<or> map_of (tombstones i) h = Some w"
  by (auto simp: bury_def note_tombstone_def Let_def split: if_splits)

lemma tombstone_of_fold_bury:
  "map_of (tombstones (fold (bury on kind) ks i)) h = Some w \<Longrightarrow>
   (h \<in> set ks \<and> w = kind \<and> on) \<or> map_of (tombstones i) h = Some w"
  by (induction ks arbitrary: i) (auto dest: tombstone_of_bury)


section \<open>What eviction keeps\<close>

definition live :: "int \<Rightarrow> u64 \<times> cache_entry \<Rightarrow> bool" where
  "live now e \<longleftrightarrow> now < ce_expires_at (snd e)"

lemma distinct_keys_same: "distinct_keys m \<Longrightarrow> e \<in> set m \<Longrightarrow> e' \<in> set m \<Longrightarrow> fst e = fst e' \<Longrightarrow> e = e'"
  by (metis eq_key_imp_eq_value prod.collapse)

lemma without_expired_keys:
  assumes "distinct_keys m"
  shows "without_keys (set (map fst (filter (\<lambda>(_, v). ce_expires_at v \<le> now) m))) m = filter (live now) m"
proof -
  have "(fst e \<notin> set (map fst (filter (\<lambda>(_, v). ce_expires_at v \<le> now) m))) = live now e" if "e \<in> set m" for e
  proof
    assume "fst e \<notin> set (map fst (filter (\<lambda>(_, v). ce_expires_at v \<le> now) m))"
    then show "live now e" using that by (cases e) (force simp: live_def)
  next
    assume "live now e"
    moreover have "e' = e" if "e' \<in> set m" "fst e' = fst e" for e'
      using distinct_keys_same [OF assms that(1) \<open>e \<in> set m\<close> that(2)] .
    ultimately show "fst e \<notin> set (map fst (filter (\<lambda>(_, v). ce_expires_at v \<le> now) m))"
      by (force simp: live_def)
  qed
  then show ?thesis unfolding without_keys_def by (intro filter_cong refl) simp
qed

lemma evict_expired_entries:
  assumes "distinct_keys (entries i)"
  shows "entries (evict_expired_locked on now i) = filter (live now) (entries i)"
proof (cases "filter (\<lambda>(_, v). ce_expires_at v \<le> now) (entries i) = []")
  case True
  then have "filter (live now) (entries i) = entries i"
    by (intro filter_True) (auto simp: filter_empty_conv live_def)
  with True show ?thesis by (simp add: evict_expired_locked_def)
next
  case False
  then show ?thesis
    using without_expired_keys [OF assms] by (simp add: evict_expired_locked_def Let_def fold_bury_entries)
qed

definition oldest_first :: "nat \<Rightarrow> entry_table \<Rightarrow> entry_table \<Rightarrow> bool" where
  "oldest_first n m m' \<longleftrightarrow>
     length m' = n \<and> set m' \<subseteq> set m \<and> distinct_keys m' \<and>
     (\<forall>gone \<in> set m - set m'. \<forall>kept \<in> set m'. ce_last_hit_at (snd gone) \<le> ce_last_hit_at (snd kept))"

lemma length_without_keys:
  assumes "distinct_keys m" "ks \<subseteq> fst ` set m"
  shows "length (without_keys ks m) + card ks = length m"
proof -
  have "length (without_keys ks m) = card (fst ` set (without_keys ks m))"
    using distinct_card [OF distinct_keys_without [OF assms(1), of ks]] by simp
  also have "fst ` set (without_keys ks m) = fst ` set m - ks"
    by (auto simp: without_keys_def)
  finally have *: "length (without_keys ks m) = card (fst ` set m - ks)" .
  have "card ks \<le> card (fst ` set m)" using assms(2) by (intro card_mono) auto
  moreover have "card (fst ` set m) = length m" using distinct_card [OF assms(1)] by simp
  moreover have "card (fst ` set m - ks) = card (fst ` set m) - card ks"
    using assms(2) by (intro card_Diff_subset finite_subset [OF assms(2)]) auto
  ultimately show ?thesis using * by simp
qed

lemma shrink_oldest_first:
  assumes sel: "selects sel" and d: "distinct_keys (entries i)" and over: "watermark cap < length (entries i)"
  shows "oldest_first (watermark cap) (entries i) (entries (shrink_to_watermark sel on cap i))"
proof -
  let ?m = "entries i" and ?hit = "\<lambda>(k, v). (k, ce_last_hit_at v)"
  define n where "n = length ?m - watermark cap"
  define ys where "ys = sel (n - 1) (map ?hit ?m)"
  define ks where "ks = fst ` set (take n ys)"
  have n: "0 < n" "n \<le> length (map ?hit ?m)" using over by (auto simp: n_def)
  note first = selection.smallest_first [OF sel [unfolded selects_selection] n, folded ys_def]
  have fst_hit: "map fst (map ?hit ?m) = map fst ?m" by (induction ?m) auto
  have "mset (map fst (take n ys)) + mset (map fst (drop n ys)) = mset (map fst (map ?hit ?m))"
    using arg_cong [OF first(2), of "image_mset fst"] by (simp only: mset_map image_mset_union)
  then have "mset (map fst (take n ys)) + mset (map fst (drop n ys)) = mset (map fst ?m)"
    by (simp only: fst_hit)
  then have keys: "mset (map fst (take n ys) @ map fst (drop n ys)) = mset (map fst ?m)" by simp
  then have "distinct (map fst (take n ys) @ map fst (drop n ys))"
    using d mset_eq_imp_distinct_iff [OF keys] by blast
  then have dist: "distinct (map fst (take n ys))" "ks \<inter> fst ` set (drop n ys) = {}"
    by (auto simp: ks_def)
  have sub: "ks \<subseteq> fst ` set ?m" "set (take n ys) \<union> set (drop n ys) = set (map ?hit ?m)"
    using arg_cong [OF keys, of set_mset] arg_cong [OF first(2), of set_mset] by (auto simp: ks_def)
  have res: "entries (shrink_to_watermark sel on cap i) = without_keys ks ?m"
    using over by (simp add: shrink_to_watermark_def Let_def fold_case_fst fold_bury_entries
        n_def [symmetric] ys_def ks_def)
  have "card ks = n" using distinct_card [OF dist(1)] first(1) by (simp add: ks_def)
  then have "length (without_keys ks ?m) = watermark cap"
    using length_without_keys [OF d sub(1)] over by (simp add: n_def)
  moreover have "ce_last_hit_at (snd gone) \<le> ce_last_hit_at (snd kept)"
    if "gone \<in> set ?m - set (without_keys ks ?m)" "kept \<in> set (without_keys ks ?m)" for gone kept
  proof -
    have g: "gone \<in> set ?m" "fst gone \<in> ks" and k: "kept \<in> set ?m" "fst kept \<notin> ks"
      using that by (auto simp: without_keys_def)
    have hit: "?hit e \<in> set (take n ys) \<union> set (drop n ys)" "fst (?hit e) = fst e" if "e \<in> set ?m" for e
      using that sub(2) by (auto split: prod.split)
    have "?hit gone \<in> set (take n ys)"
      using hit [OF g(1)] g(2) dist(2) by (metis IntI UnE empty_iff imageI)
    moreover have "?hit kept \<in> set (drop n ys)"
      using hit [OF k(1)] k(2) by (metis UnE imageI ks_def)
    ultimately show ?thesis
      using first(3) by (cases gone; cases kept) fastforce
  qed
  ultimately show ?thesis
    using res distinct_keys_without [OF d, of ks] by (auto simp: oldest_first_def without_keys_def)
qed

section \<open>The invariant\<close>

text \<open>The misses are the sum of their reasons, up to saturation.\<close>

definition counted :: "stats_snapshot \<Rightarrow> bool" where
  "counted s \<longleftrightarrow>
     unat (sn_misses s) =
       min (2 ^ 64 - 1) (unat (miss_no_entry s) + unat (miss_expired s) + unat (miss_evicted s)
         + unat (miss_no_breakpoint s) + unat (miss_no_seed s))"

definition inner_inv :: "bool \<Rightarrow> meter_inner \<Rightarrow> bool" where
  "inner_inv on i \<longleftrightarrow>
     distinct_keys (entries i) \<and> distinct_keys (tombstones i) \<and>
     fst ` set (entries i) \<inter> fst ` set (tombstones i) = {} \<and>
     length (tombstones i) \<le> TOMBSTONE_CAPACITY \<and> (\<not> on \<longrightarrow> tombstones i = []) \<and>
     counted (st_total (meter_stats i)) \<and> counted (st_delta (meter_stats i))"

definition meter_inv :: "cache_meter \<Rightarrow> bool" where
  "meter_inv c \<longleftrightarrow>
     inner_inv (miss_diagnostics c) (inner c) \<and>
     MIN_CAPACITY \<le> meter_capacity c \<and> meter_capacity c \<le> MAX_CAPACITY"

lemma counted_zero [simp]: "counted zero_snapshot"
  by (simp add: counted_def zero_snapshot_def)

lemma counted_other [simp]:
  "counted (sn_hits_update f s) = counted s" "counted (tombstone_clears_update f s) = counted s"
  "counted (evicted_total_update f s) = counted s" "counted (expired_total_update f s) = counted s"
  by (simp_all add: counted_def)

lemma counted_miss:
  assumes "counted s"
    "pick \<in> {miss_no_entry_update, miss_expired_update, miss_evicted_update, miss_no_breakpoint_update,
       miss_no_seed_update}"
  shows "counted (pick (\<lambda>c. sat_add c 1) (sn_misses_update (\<lambda>c. sat_add c 1) s))"
proof -
  have sat: "unat (sat_add c (1 :: u64)) = min (unat c + 1) (2 ^ 64 - 1)" for c
    using unat_sat_add [of c 1] by simp
  have carry: "min m (min m (a + b + c + d + e) + 1) = min m (min (a + 1) m + b + c + d + e)"
    for a b c d e m :: nat by (auto simp: min_def)
  from assms show ?thesis
    unfolding counted_def by (elim insertE emptyE) (auto simp: sat min_def)
qed

lemma inner_inv_stats:
  "inner_inv on i \<Longrightarrow> (\<And>s. counted s \<Longrightarrow> counted (pick (\<lambda>c. sat_add c n) s)) \<Longrightarrow>
   inner_inv on (i\<lparr>meter_stats := stats_add pick n (meter_stats i)\<rparr>)"
  by (simp add: inner_inv_def stats_add_def)

lemma inner_inv_dirty [simp]: "inner_inv on (i\<lparr>dirty := b\<rparr>) = inner_inv on i"
  by (simp add: inner_inv_def)

lemma map_remove_keys: "fst ` set (map_remove k m) = fst ` set m - {k}"
  by (auto simp: map_remove_def)

lemma map_insert_keys: "fst ` set (map_insert k v m) = insert k (fst ` set m)"
  using arg_cong [OF keys_insert [of k v m], of set]
  by (auto simp: map_of_eq_None_iff split: if_splits)

lemma inner_inv_bury:
  assumes "inner_inv on i"
  shows "inner_inv on (bury on kind k i)"
proof -
  have pos: "Suc 0 \<le> TOMBSTONE_CAPACITY" by (simp add: TOMBSTONE_CAPACITY_def)
  have len: "length (map_insert k kind m) \<le> TOMBSTONE_CAPACITY"
    if "length m < TOMBSTONE_CAPACITY" for m :: "(u64 \<times> tombstone_kind) list"
    using length_insert_le [of k kind m] that by simp
  show ?thesis
    using assms len [of "tombstones i"] len [of "[]"] pos
    by (auto simp: inner_inv_def bury_def note_tombstone_def Let_def map_remove_keys map_insert_keys
        stats_add_def)
qed

lemma inner_inv_fold_bury: "inner_inv on i \<Longrightarrow> inner_inv on (fold (bury on kind) ks i)"
  by (induction ks arbitrary: i) (auto intro: inner_inv_bury)

lemma inner_inv_evict: "inner_inv on i \<Longrightarrow> inner_inv on (evict_expired_locked on now i)"
  by (auto simp: evict_expired_locked_def Let_def intro!: inner_inv_fold_bury inner_inv_stats)

lemma inner_inv_shrink: "inner_inv on i \<Longrightarrow> inner_inv on (shrink_to_watermark sel on cap i)"
  by (auto simp: shrink_to_watermark_def Let_def fold_case_fst intro!: inner_inv_fold_bury inner_inv_stats)

definition put_entry :: "int \<Rightarrow> u64 \<Rightarrow> u32 \<Rightarrow> int \<Rightarrow> meter_inner \<Rightarrow> meter_inner" where
  "put_entry now hash tokens ttl i =
     i\<lparr>entries := map_insert hash (new_entry now tokens (clamp_ttl ttl)) (entries i),
       tombstones := map_remove hash (tombstones i), dirty := True\<rparr>"

lemma inner_inv_put:
  "inner_inv on i \<Longrightarrow>
   inner_inv on (i\<lparr>entries := map_insert h e (entries i), tombstones := map_remove h (tombstones i)\<rparr>)"
  using length_remove_le [of h "tombstones i"]
  by (auto simp: inner_inv_def map_remove_keys map_insert_keys)

lemma inner_inv_put_entry: "inner_inv on i \<Longrightarrow> inner_inv on (put_entry now h tokens ttl i)"
  using inner_inv_put [of on i h] by (simp add: put_entry_def)

lemma inner_inv_renew:
  assumes "inner_inv on i" "map_of (entries i) h = Some e"
  shows "inner_inv on (i\<lparr>entries := map_insert h e' (entries i)\<rparr>)"
proof -
  have "h \<in> fst ` set (entries i)" using assms(2) by (metis domI dom_map_of_conv_image_fst)
  with assms(1) show ?thesis by (auto simp: inner_inv_def map_insert_keys)
qed

text \<open>The two reclaiming operations, with the tombstones they leave.\<close>

definition reclaim :: "selector \<Rightarrow> bool \<Rightarrow> nat \<Rightarrow> nat \<Rightarrow> int \<Rightarrow> meter_inner \<Rightarrow> meter_inner" where
  "reclaim sel on cap limit now i =
     (let i = evict_expired_locked on now i in
      if limit < length (entries i) then shrink_to_watermark sel on cap i else i)"

lemma inner_inv_reclaim: "inner_inv on i \<Longrightarrow> inner_inv on (reclaim sel on cap limit now i)"
  by (auto simp: reclaim_def Let_def intro: inner_inv_evict inner_inv_shrink)

lemma sweep_reclaim:
  "sweep sel now c = c\<lparr>inner := reclaim sel (miss_diagnostics c) (meter_capacity c) (meter_capacity c) now (inner c)\<rparr>"
  by (simp add: sweep_def reclaim_def Let_def)

lemma record_entry_alt:
  "record_entry sel now hash tokens ttl c =
     (let i = put_entry now hash tokens ttl (inner c); limit = hard_limit (meter_capacity c) in
      c\<lparr>inner := if limit < length (entries i)
                 then reclaim sel (miss_diagnostics c) (meter_capacity c) limit now i else i\<rparr>)"
  by (simp add: record_entry_def reclaim_def put_entry_def Let_def)

lemma watermark_le: "watermark n \<le> n"
  by (simp add: watermark_def)

lemma watermark_hard_limit: "n \<le> MAX_CAPACITY \<Longrightarrow> watermark n \<le> hard_limit n"
  by (simp add: watermark_def hard_limit_def MAX_CAPACITY_def)

lemma reclaim_length:
  assumes "selects sel" "inner_inv on i" "watermark cap \<le> limit"
  shows "length (entries (reclaim sel on cap limit now i)) \<le> limit"
proof -
  let ?i = "evict_expired_locked on now i"
  have "distinct_keys (entries ?i)" using inner_inv_evict [OF assms(2)] by (simp add: inner_inv_def)
  with shrink_oldest_first [OF assms(1), of ?i cap on] assms(3) show ?thesis
    by (auto simp: reclaim_def Let_def oldest_first_def not_less)
qed

section \<open>Histories\<close>

datatype meter_op =
    OpProbe u64 | OpNote lookup_outcome_kind | OpNoBreakpoint | OpNoSeed | OpRecord u64 u32 int
  | OpSweep | OpFlush | OpTakeDelta | OpSetEnabled bool

fun meter_step :: "selector \<Rightarrow> int \<times> meter_op \<Rightarrow> cache_meter \<Rightarrow> cache_meter" where
  "meter_step sel (now, OpProbe h) c = snd (probe_outcome now h c)"
| "meter_step sel (now, OpNote r) c = note_lookup r c"
| "meter_step sel (now, OpNoBreakpoint) c = note_miss_no_breakpoint c"
| "meter_step sel (now, OpNoSeed) c = note_miss_no_seed c"
| "meter_step sel (now, OpRecord h tokens ttl) c = record_entry sel now h tokens ttl c"
| "meter_step sel (now, OpSweep) c = sweep sel now c"
| "meter_step sel (now, OpFlush) c = snd (flush_to_disk c)"
| "meter_step sel (now, OpTakeDelta) c = snd (take_stats_delta c)"
| "meter_step sel (now, OpSetEnabled on) c = meter_set_enabled on c"

abbreviation meter_run :: "selector \<Rightarrow> (int \<times> meter_op) list \<Rightarrow> cache_meter \<Rightarrow> cache_meter" where
  "meter_run sel ops c \<equiv> fold (meter_step sel) ops c"

text \<open>A meter as the start-up builds it: the file at \<open>path\<close> holds \<open>m\<close>.\<close>

definition start_meter :: "string option \<Rightarrow> entry_table option \<Rightarrow> int \<Rightarrow> nat \<Rightarrow> bool \<Rightarrow> cache_meter" where
  "start_meter path m now capacity diagnostics =
     with_miss_diagnostics diagnostics (with_capacity capacity (with_remote path m now))"

lemma load_distinct:
  "distinct_keys es \<Longrightarrow>
   distinct_keys (fold (\<lambda>(k, v) es. if now < ce_expires_at v then map_insert k v es else es) m es)"
  by (induction m arbitrary: es) auto

lemma load_length:
  "length (fold (\<lambda>(k, v) es. if now < ce_expires_at v then map_insert k v es else es) m es)
     \<le> length m + length es"
proof (induction m arbitrary: es)
  case (Cons e m)
  have "length (if now < ce_expires_at (snd e) then map_insert (fst e) (snd e) es else es) \<le> Suc (length es)"
    using length_insert_le [of "fst e" "snd e" es] by simp
  with Cons [of "if now < ce_expires_at (snd e) then map_insert (fst e) (snd e) es else es"] show ?case
    by (simp add: case_prod_beta)
qed simp

lemma start_meter_inv: "meter_inv (start_meter path m now n on)"
  by (auto simp: meter_inv_def start_meter_def with_miss_diagnostics_def with_capacity_def with_remote_def
      inner_inv_def default_inner_def Let_def clamp_def MIN_CAPACITY_def MAX_CAPACITY_def load_distinct
      split: option.split)

lemma count_fields [simp]:
  "entries (inner (count pick c)) = entries (inner c)" "tombstones (inner (count pick c)) = tombstones (inner c)"
  "meter_capacity (count pick c) = meter_capacity c" "miss_diagnostics (count pick c) = miss_diagnostics c"
  by (simp_all add: count_def)

lemma note_lookup_fields [simp]:
  "entries (inner (note_lookup r c)) = entries (inner c)" "tombstones (inner (note_lookup r c)) = tombstones (inner c)"
  "meter_capacity (note_lookup r c) = meter_capacity c" "miss_diagnostics (note_lookup r c) = miss_diagnostics c"
  by (cases r; simp)+

lemma meter_inv_count_miss:
  assumes "meter_inv c"
    "pick \<in> {miss_no_entry_update, miss_expired_update, miss_evicted_update, miss_no_breakpoint_update,
       miss_no_seed_update}"
  shows "meter_inv (count pick (count sn_misses_update c))"
  using assms counted_miss [OF _ assms(2)]
  by (simp add: meter_inv_def inner_inv_def count_def stats_add_def)

lemma meter_inv_note_lookup: "meter_inv c \<Longrightarrow> meter_inv (note_lookup r c)"
proof (cases r)
  case (Hit tokens)
  then show "meter_inv c \<Longrightarrow> ?thesis"
    by (simp add: meter_inv_def inner_inv_def count_def stats_add_def)
qed (auto intro: meter_inv_count_miss)

lemma meter_inv_probe: "meter_inv c \<Longrightarrow> meter_inv (snd (probe_outcome now h c))"
  by (auto simp: probe_outcome_def meter_inv_def Let_def inner_inv_renew split: option.split)

lemma meter_inv_record: "meter_inv c \<Longrightarrow> meter_inv (record_entry sel now h tokens ttl c)"
  by (auto simp: record_entry_alt meter_inv_def Let_def intro!: inner_inv_reclaim inner_inv_put_entry)

lemma meter_inv_sweep: "meter_inv c \<Longrightarrow> meter_inv (sweep sel now c)"
  by (auto simp: sweep_reclaim meter_inv_def intro: inner_inv_reclaim)

lemma meter_inv_step: "meter_inv c \<Longrightarrow> meter_inv (meter_step sel (now, op) c)"
proof (cases op)
  case OpFlush
  then show "meter_inv c \<Longrightarrow> ?thesis" by (simp add: flush_to_disk_def meter_inv_def)
next
  case OpTakeDelta
  then show "meter_inv c \<Longrightarrow> ?thesis"
    by (simp add: take_stats_delta_def stats_take_delta_def meter_inv_def inner_inv_def)
qed (simp_all add: meter_inv_probe meter_inv_record meter_inv_sweep meter_inv_note_lookup
     note_miss_no_breakpoint_def note_miss_no_seed_def meter_inv_count_miss,
     simp add: meter_set_enabled_def meter_inv_def)

lemma meter_inv_run: "meter_inv c \<Longrightarrow> meter_inv (meter_run sel ops c)"
  by (induction ops arbitrary: c) (auto intro: meter_inv_step)

lemma probe_fields [simp]:
  "meter_capacity (snd (probe_outcome now h c)) = meter_capacity c"
  "miss_diagnostics (snd (probe_outcome now h c)) = miss_diagnostics c"
  "meter_stats (inner (snd (probe_outcome now h c))) = meter_stats (inner c)"
  by (simp_all add: probe_outcome_def Let_def split: option.split)

lemma probe_length [simp]:
  "length (entries (inner (snd (probe_outcome now h c)))) = length (entries (inner c))"
  by (simp add: probe_outcome_def Let_def length_insert_present split: option.split)

lemma record_length:
  assumes "selects sel" "meter_inv c"
  shows "length (entries (inner (record_entry sel now h tokens ttl c))) \<le> hard_limit (meter_capacity c)"
  using assms reclaim_length [OF assms(1) inner_inv_put_entry watermark_hard_limit, of "miss_diagnostics c" "inner c"]
  by (auto simp: record_entry_alt meter_inv_def Let_def)

lemma sweep_length:
  assumes "selects sel" "meter_inv c"
  shows "length (entries (inner (sweep sel now c))) \<le> meter_capacity c"
  using assms by (auto simp: sweep_reclaim meter_inv_def watermark_le intro: reclaim_length)

lemma record_capacity [simp]: "meter_capacity (record_entry sel now h tokens ttl c) = meter_capacity c"
  by (simp add: record_entry_alt Let_def)

lemma step_capacity [simp]: "meter_capacity (meter_step sel (now, op) c) = meter_capacity c"
  by (cases op) (simp_all add: note_miss_no_breakpoint_def note_miss_no_seed_def sweep_def flush_to_disk_def
      take_stats_delta_def stats_take_delta_def meter_set_enabled_def Let_def)

lemma capacity_hard_limit: "meter_inv c \<Longrightarrow> meter_capacity c \<le> hard_limit (meter_capacity c)"
  by (simp add: meter_inv_def hard_limit_def MAX_CAPACITY_def)

lemma step_length:
  assumes "selects sel" "meter_inv c"
  shows "length (entries (inner (meter_step sel (now, op) c))) \<le> max (length (entries (inner c))) (hard_limit (meter_capacity c))"
proof (cases op)
  case (OpRecord h tokens ttl)
  then show ?thesis using record_length [OF assms, of now h tokens ttl] by (simp add: le_max_iff_disj)
next
  case OpSweep
  then show ?thesis
    using sweep_length [OF assms, of now] capacity_hard_limit [OF assms(2)] by (simp add: le_max_iff_disj)
qed (simp_all add: note_miss_no_breakpoint_def note_miss_no_seed_def flush_to_disk_def
      take_stats_delta_def stats_take_delta_def meter_set_enabled_def Let_def)

text \<open>C27: Over every history of operations, whatever the selection of equally old entries, the table
  keeps its invariant: no prefix is both present and buried, the tombstones stay within their
  limit and empty without diagnostics, and the misses are the sum of their reasons.  The table
  grows no larger than the forced limit (or than the file it was loaded from), a recording leaves it
  within that limit and a sweep within the configured capacity.\<close>

theorem cache_meter_run_invariant:
  assumes "selects sel" "c0 = start_meter path m now0 n on" "c = meter_run sel ops c0"
  shows "meter_inv c \<and>
    length (entries (inner c)) \<le> max (length (entries (inner c0))) (hard_limit (meter_capacity c0)) \<and>
    length (entries (inner (record_entry sel now h tokens ttl c))) \<le> hard_limit (meter_capacity c0) \<and>
    length (entries (inner (sweep sel now c))) \<le> meter_capacity c0"
proof -
  have inv: "meter_inv c"
    using assms(2,3) by (auto intro: meter_inv_run start_meter_inv)
  have run: "length (entries (inner (meter_run sel ops c'))) \<le> max (length (entries (inner c'))) (hard_limit (meter_capacity c'))
      \<and> meter_capacity (meter_run sel ops c') = meter_capacity c'" if "meter_inv c'" for c'
    using that
  proof (induction ops arbitrary: c')
    case (Cons op ops)
    obtain t o' where op: "op = (t, o')" by (cases op)
    show ?case
      using Cons.IH [OF meter_inv_step [OF Cons.prems, of sel t o']] step_length [OF assms(1) Cons.prems, of t o']
      by (auto simp: op)
  qed simp
  then have "length (entries (inner c)) \<le> max (length (entries (inner c0))) (hard_limit (meter_capacity c0))"
    "meter_capacity c = meter_capacity c0"
    using assms(2,3) start_meter_inv by blast+
  then show ?thesis
    using inv record_length [OF assms(1) inv] sweep_length [OF assms(1) inv] by simp
qed

section \<open>Refinement of an unbounded table\<close>

text \<open>What the table promises: the last recording of every prefix, renewed by every hit, with no limit
  on its size.\<close>

type_synonym ideal_table = "u64 \<rightharpoonup> cache_entry"

definition ideal_read :: "int \<Rightarrow> u64 \<Rightarrow> ideal_table \<Rightarrow> u32 option" where
  "ideal_read now h I =
     (case I h of Some e \<Rightarrow> if now < ce_expires_at e then Some (ce_tokens e) else None | None \<Rightarrow> None)"

definition ideal_probe :: "int \<Rightarrow> u64 \<Rightarrow> ideal_table \<Rightarrow> ideal_table" where
  "ideal_probe now h I =
     (case I h of Some e \<Rightarrow> if now < ce_expires_at e then I(h \<mapsto> renew now e) else I | None \<Rightarrow> I)"

fun ideal_step :: "int \<times> meter_op \<Rightarrow> ideal_table \<Rightarrow> ideal_table" where
  "ideal_step (now, OpProbe h) I = ideal_probe now h I"
| "ideal_step (now, OpRecord h tokens ttl) I = I(h \<mapsto> new_entry now tokens (clamp_ttl ttl))"
| "ideal_step (now, _) I = I"

definition table_of :: "cache_meter \<Rightarrow> ideal_table" where
  "table_of c = map_of (entries (inner c))"

definition tokens_of :: "lookup_outcome_kind \<Rightarrow> u32 option" where
  "tokens_of r = (case r of Hit tokens \<Rightarrow> Some tokens | _ \<Rightarrow> None)"

lemma probe_table:
  "tokens_of (fst (probe_outcome now h c)) = ideal_read now h (table_of c)"
  "table_of (snd (probe_outcome now h c)) = ideal_probe now h (table_of c)"
  by (auto simp: probe_outcome_def Let_def tokens_of_def ideal_read_def ideal_probe_def table_of_def
      split: option.split tombstone_kind.split)

lemma map_of_filter_le: "distinct_keys m \<Longrightarrow> map_of (filter P m) \<subseteq>\<^sub>m map_of m"
  by (auto simp: map_le_def distinct_map_filter dest!: map_of_SomeD dest: map_of_is_SomeI [rotated])

lemma shrink_entries_le:
  assumes "distinct_keys (entries i)"
  shows "map_of (entries (shrink_to_watermark sel on cap i)) \<subseteq>\<^sub>m map_of (entries i)"
  using assms
  by (auto simp: shrink_to_watermark_def Let_def fold_case_fst fold_bury_entries without_keys_def map_of_filter_le)

lemma reclaim_entries_le:
  assumes "inner_inv on i"
  shows "map_of (entries (reclaim sel on cap limit now i)) \<subseteq>\<^sub>m map_of (entries i)"
proof -
  have d: "distinct_keys (entries i)" "distinct_keys (entries (evict_expired_locked on now i))"
    using assms inner_inv_evict [OF assms] by (simp_all add: inner_inv_def)
  have "map_of (entries (evict_expired_locked on now i)) \<subseteq>\<^sub>m map_of (entries i)"
    using d by (simp add: evict_expired_entries map_of_filter_le)
  with shrink_entries_le [OF d(2), of sel on cap] show ?thesis
    by (auto simp: reclaim_def Let_def intro: map_le_trans)
qed

lemma table_of_record_le:
  assumes "meter_inv c"
  shows "table_of (record_entry sel now h tokens ttl c) \<subseteq>\<^sub>m (table_of c)(h \<mapsto> new_entry now tokens (clamp_ttl ttl))"
proof -
  have "inner_inv (miss_diagnostics c) (put_entry now h tokens ttl (inner c))"
    using assms by (simp add: meter_inv_def inner_inv_put_entry)
  from reclaim_entries_le [OF this] show ?thesis
    by (auto simp: record_entry_alt table_of_def Let_def put_entry_def)
qed

lemma table_of_sweep_le: "meter_inv c \<Longrightarrow> table_of (sweep sel now c) \<subseteq>\<^sub>m table_of c"
  by (simp add: sweep_reclaim table_of_def meter_inv_def reclaim_entries_le)

lemma table_of_quiet [simp]:
  "table_of (note_lookup r c) = table_of c" "table_of (note_miss_no_breakpoint c) = table_of c"
  "table_of (note_miss_no_seed c) = table_of c" "table_of (snd (flush_to_disk c)) = table_of c"
  "table_of (snd (take_stats_delta c)) = table_of c" "table_of (meter_set_enabled b c) = table_of c"
  by (simp_all add: table_of_def note_miss_no_breakpoint_def note_miss_no_seed_def flush_to_disk_def
      take_stats_delta_def stats_take_delta_def meter_set_enabled_def)

lemma ideal_probe_mono:
  assumes "T \<subseteq>\<^sub>m I"
  shows "ideal_probe now h T \<subseteq>\<^sub>m ideal_probe now h I"
proof (cases "T h")
  case None
  then have "T k = None \<or> k \<noteq> h" for k by auto
  with None assms show ?thesis
    by (auto simp: ideal_probe_def map_le_def dom_def split: option.split)
next
  case (Some e)
  then have "I h = Some e" using assms by (metis domI map_le_def)
  with Some assms show ?thesis by (simp add: ideal_probe_def map_le_upd)
qed

lemma step_refines:
  assumes "meter_inv c" "table_of c \<subseteq>\<^sub>m I"
  shows "table_of (meter_step sel (now, op) c) \<subseteq>\<^sub>m ideal_step (now, op) I"
proof (cases op)
  case (OpProbe h)
  then show ?thesis using assms(2) by (simp add: probe_table ideal_probe_mono)
next
  case (OpRecord h tokens ttl)
  have "(table_of c)(h \<mapsto> new_entry now tokens (clamp_ttl ttl)) \<subseteq>\<^sub>m I(h \<mapsto> new_entry now tokens (clamp_ttl ttl))"
    using assms(2) by (rule map_le_upd)
  with OpRecord show ?thesis using map_le_trans [OF table_of_record_le [OF assms(1)]] by simp
next
  case OpSweep
  then show ?thesis using map_le_trans [OF table_of_sweep_le [OF assms(1)] assms(2)] by simp
qed (use assms(2) in simp_all)

lemma run_refines:
  "meter_inv c \<Longrightarrow> table_of c \<subseteq>\<^sub>m I \<Longrightarrow> table_of (meter_run sel ops c) \<subseteq>\<^sub>m fold ideal_step ops I"
proof (induction ops arbitrary: c I)
  case (Cons op ops)
  obtain t o' where "op = (t, o')" by (cases op)
  with Cons.IH [OF meter_inv_step [OF Cons.prems(1)] step_refines [OF Cons.prems]] show ?case by simp
qed simp


text \<open>A table with room forgets nothing before its time.\<close>

definition live_table :: "int \<Rightarrow> ideal_table \<Rightarrow> ideal_table" where
  "live_table t I h = (case I h of Some e \<Rightarrow> if t < ce_expires_at e then Some e else None | None \<Rightarrow> None)"

lemma live_table_later: "t \<le> t' \<Longrightarrow> live_table t I = live_table t J \<Longrightarrow> live_table t' I = live_table t' J"
proof
  fix h assume le: "t \<le> t'" and "live_table t I = live_table t J"
  then have "live_table t I h = live_table t J h" by simp
  with le show "live_table t' I h = live_table t' J h"
    by (auto simp: live_table_def split: option.splits if_splits)
qed

lemma ideal_read_live: "ideal_read t h I = map_option ce_tokens (live_table t I h)"
  by (simp add: ideal_read_def live_table_def split: option.split)

lemma clamp_ttl_range: "60 \<le> clamp_ttl t" "clamp_ttl t \<le> MAX_TTL_SECS"
  by (simp_all add: clamp_ttl_def MAX_TTL_SECS_def)

lemma live_table_probe:
  "live_table t (ideal_probe t h I) =
     (case live_table t I h of Some e \<Rightarrow> (live_table t I)(h \<mapsto> renew t e) | None \<Rightarrow> live_table t I)"
  using clamp_ttl_range(1)
  by (auto simp: live_table_def ideal_probe_def renew_def Let_def fun_eq_iff split: option.split)
    (smt (verit))+

lemma live_table_upd:
  "live_table t (I(h \<mapsto> e)) = (live_table t I)(h := if t < ce_expires_at e then Some e else None)"
  by (auto simp: live_table_def)

lemma map_of_filter_live:
  "distinct_keys m \<Longrightarrow> map_of (filter (live t) m) = live_table t (map_of m)"
proof
  fix h assume "distinct_keys m"
  then show "map_of (filter (live t) m) h = live_table t (map_of m) h"
    by (induction m) (auto simp: live_table_def live_def map_of_eq_None_iff image_iff split: option.splits)
qed

lemma live_table_idem [simp]: "live_table t (live_table t I) = live_table t I"
  by (auto simp: live_table_def split: option.split)

lemma sweep_entries_with_room:
  assumes "meter_inv c" "length (entries (inner c)) \<le> meter_capacity c"
  shows "entries (inner (sweep sel now c)) = filter (live now) (entries (inner c))"
proof -
  have d: "distinct_keys (entries (inner c))" using assms(1) by (simp add: meter_inv_def inner_inv_def)
  have "length (filter (live now) (entries (inner c))) \<le> meter_capacity c"
    using assms(2) length_filter_le order_trans by blast
  then show ?thesis by (simp add: sweep_reclaim reclaim_def Let_def evict_expired_entries [OF d])
qed

lemma sweep_with_room:
  assumes "meter_inv c" "length (entries (inner c)) \<le> meter_capacity c"
  shows "table_of (sweep sel now c) = live_table now (table_of c)"
  using assms(1) map_of_filter_live [of "entries (inner c)" now]
  by (simp add: table_of_def sweep_entries_with_room [OF assms] meter_inv_def inner_inv_def)

lemma record_with_room:
  assumes "meter_inv c" "length (entries (inner c)) < meter_capacity c"
  shows "entries (inner (record_entry sel now h tokens ttl c)) =
    map_insert h (new_entry now tokens (clamp_ttl ttl)) (entries (inner c))"
proof -
  have "length (map_insert h e (entries (inner c))) \<le> hard_limit (meter_capacity c)" for e
    using length_insert_le [of h e "entries (inner c)"] assms capacity_hard_limit [OF assms(1)] by simp
  then have "\<not> hard_limit (meter_capacity c) < length (map_insert h e (entries (inner c)))" for e
    by (simp add: not_less)
  then show ?thesis by (simp add: record_entry_alt put_entry_def Let_def)
qed

fun recordings :: "(int \<times> meter_op) list \<Rightarrow> nat" where
  "recordings [] = 0"
| "recordings ((now, op) # ops) = (case op of OpRecord h tokens ttl \<Rightarrow> Suc (recordings ops) | _ \<Rightarrow> recordings ops)"

lemma step_with_room:
  assumes inv: "meter_inv c" and room: "length (entries (inner c)) + recordings [(now, op)] \<le> meter_capacity c"
    and agree: "live_table now (table_of c) = live_table now I"
  shows "live_table now (table_of (meter_step sel (now, op) c)) = live_table now (ideal_step (now, op) I)"
    and "length (entries (inner (meter_step sel (now, op) c))) \<le> length (entries (inner c)) + recordings [(now, op)]"
proof -
  have sweep: "length (entries (inner (sweep sel now c))) \<le> length (entries (inner c))" if "op = OpSweep"
    using that room sweep_entries_with_room [OF inv, of sel now] by simp
  show "live_table now (table_of (meter_step sel (now, op) c)) = live_table now (ideal_step (now, op) I)"
  proof (cases op)
    case (OpProbe h)
    then show ?thesis using agree by (simp add: probe_table live_table_probe split: option.split)
  next
    case (OpRecord h tokens ttl)
    then show ?thesis
      using agree room record_with_room [OF inv, of sel now h tokens ttl] by (simp add: table_of_def live_table_upd)
  next
    case OpSweep
    then show ?thesis using agree room sweep_with_room [OF inv] by simp
  qed (use agree in simp_all)
  show "length (entries (inner (meter_step sel (now, op) c))) \<le> length (entries (inner c)) + recordings [(now, op)]"
  proof (cases op)
    case (OpRecord h tokens ttl)
    then show ?thesis
      using room record_with_room [OF inv, of sel now h tokens ttl] by (simp add: length_insert_le)
  qed (use sweep in \<open>simp_all add: note_miss_no_breakpoint_def note_miss_no_seed_def flush_to_disk_def
      take_stats_delta_def stats_take_delta_def meter_set_enabled_def\<close>)
qed

lemma run_with_room:
  assumes "meter_inv c" "length (entries (inner c)) + recordings ops \<le> meter_capacity c"
    "sorted (now # map fst ops)" "live_table now (table_of c) = live_table now I"
    "last (now # map fst ops) \<le> t"
  shows "live_table t (table_of (meter_run sel ops c)) = live_table t (fold ideal_step ops I)"
  using assms
proof (induction ops arbitrary: c I now)
  case Nil
  then show ?case using live_table_later [OF Nil(5)[simplified] Nil(4)] by simp
next
  case (Cons op ops)
  obtain s o' where op: "op = (s, o')" by (cases op)
  have split: "recordings (op # ops) = recordings [(s, o')] + recordings ops"
    by (cases o') (simp_all add: op)
  have agree: "live_table s (table_of c) = live_table s I"
    using live_table_later [OF _ Cons.prems(4), of s] Cons.prems(3) by (simp add: op)
  have room: "length (entries (inner c)) + recordings [(s, o')] \<le> meter_capacity c"
    using Cons.prems(2) split by simp
  note step = step_with_room [OF Cons.prems(1) room agree, of sel]
  have "live_table t (table_of (meter_run sel ops (meter_step sel (s, o') c))) =
      live_table t (fold ideal_step ops (ideal_step (s, o') I))"
  proof (rule Cons.IH [OF meter_inv_step [OF Cons.prems(1)] _ _ step(1)])
    show "length (entries (inner (meter_step sel (s, o') c))) + recordings ops \<le> meter_capacity (meter_step sel (s, o') c)"
      using step(2) Cons.prems(2) split by simp
  qed (use Cons.prems(3,5) in \<open>simp_all add: op\<close>)
  then show ?case by (simp add: op)
qed

text \<open>C12: The table refines an unbounded one: whatever it still holds is what the unbounded table holds,
  so a hit returns the tokens of the last recording of that prefix and only while that recording, or its
  last hit, is within its time to live.  As long as there is room for everything recorded and the clock
  does not go back, the answers are exactly those of the unbounded table.\<close>

theorem cache_table_refines_ideal:
  assumes "c0 = start_meter path m now0 n on" "c = meter_run sel ops c0"
    "I = fold ideal_step ops (table_of c0)"
  shows "tokens_of (fst (probe_outcome t h c)) \<in> {None, ideal_read t h I} \<and>
    (sorted (now0 # map fst ops) \<and> last (now0 # map fst ops) \<le> t \<and>
       length (entries (inner c0)) + recordings ops \<le> meter_capacity c0 \<longrightarrow>
     tokens_of (fst (probe_outcome t h c)) = ideal_read t h I)"
proof -
  have inv: "meter_inv c0" using assms(1) by (simp add: start_meter_inv)
  have "table_of c \<subseteq>\<^sub>m I" using run_refines [OF inv map_le_refl] assms(2,3) by simp
  then have "table_of c h = None \<or> table_of c h = I h" by (metis domIff map_le_def)
  then have "tokens_of (fst (probe_outcome t h c)) \<in> {None, ideal_read t h I}"
    by (auto simp: probe_table ideal_read_def)
  moreover have "tokens_of (fst (probe_outcome t h c)) = ideal_read t h I"
    if "sorted (now0 # map fst ops)" "last (now0 # map fst ops) \<le> t"
      "length (entries (inner c0)) + recordings ops \<le> meter_capacity c0"
    using run_with_room [OF inv that(3,1) refl that(2)] assms(2,3) by (simp add: probe_table ideal_read_live)
  ultimately show ?thesis by blast
qed

section \<open>Which entries go\<close>

lemma evict_tombstones:
  "map_of (tombstones (evict_expired_locked on now i)) h = Some w \<Longrightarrow>
   (w = ExpiredEntry \<and> (\<exists>e. (h, e) \<in> set (entries i) \<and> ce_expires_at e \<le> now)) \<or> map_of (tombstones i) h = Some w"
  by (auto simp: evict_expired_locked_def Let_def split: if_splits dest!: tombstone_of_fold_bury; blast)

lemma shrink_tombstones:
  assumes "selects sel" "map_of (tombstones (shrink_to_watermark sel on cap i)) h = Some w"
  shows "(w = EvictedEntry \<and> h \<in> fst ` set (entries i)) \<or> map_of (tombstones i) h = Some w"
proof (cases "length (entries i) \<le> watermark cap")
  case False
  let ?xs = "map (\<lambda>(k, v). (k, ce_last_hit_at v)) (entries i)"
  define n where "n = length (entries i) - watermark cap"
  have n: "n - 1 < length ?xs" using False by (simp add: n_def)
  have "set (take n (sel (n - 1) ?xs)) \<subseteq> set ?xs"
    using set_take_subset [of n "sel (n - 1) ?xs"]
    by (simp only: selection.sel_set [OF assms(1) [unfolded selects_selection] n])
  from image_mono [OF this, of fst] have "fst ` set (take n (sel (n - 1) ?xs)) \<subseteq> fst ` set (entries i)"
    by (simp add: image_image case_prod_beta)
  with False assms(2) show ?thesis
    by (auto simp: shrink_to_watermark_def Let_def fold_case_fst n_def [symmetric] dest!: tombstone_of_fold_bury)
qed (use assms(2) in \<open>simp add: shrink_to_watermark_def\<close>)

definition reclaimed :: "nat \<Rightarrow> nat \<Rightarrow> int \<Rightarrow> entry_table \<Rightarrow> meter_inner \<Rightarrow> bool" where
  "reclaimed cap limit now before i' \<longleftrightarrow>
     (let alive = filter (live now) before in
      (if length alive \<le> limit then entries i' = alive
       else oldest_first (watermark cap) alive (entries i')) \<and>
      (\<forall>(h, e) \<in> set before - set (entries i').
         map_of (tombstones i') h \<in>
           {None, Some (if ce_expires_at e \<le> now then ExpiredEntry else EvictedEntry)}))"

lemma reclaim_reclaimed:
  assumes sel: "selects sel" and inv: "inner_inv on i" and limit: "watermark cap \<le> limit"
  shows "reclaimed cap limit now (entries i) (reclaim sel on cap limit now i)"
proof -
  let ?e = "evict_expired_locked on now i" and ?r = "reclaim sel on cap limit now i"
  have d: "distinct_keys (entries i)" using inv by (simp add: inner_inv_def)
  note alive = evict_expired_entries [OF d, of on now]
  have d': "distinct_keys (entries ?e)" using inner_inv_evict [OF inv] by (simp add: inner_inv_def)
  have "if length (filter (live now) (entries i)) \<le> limit then entries ?r = filter (live now) (entries i)
      else oldest_first (watermark cap) (filter (live now) (entries i)) (entries ?r)"
    using shrink_oldest_first [OF sel d', of cap on] limit by (simp add: reclaim_def alive Let_def)
  moreover have "w = (if ce_expires_at e \<le> now then ExpiredEntry else EvictedEntry)"
    if h: "(h, e) \<in> set (entries i)" and w: "map_of (tombstones ?r) h = Some w" for h e w
  proof -
    have same: "e' = e" if "(h, e') \<in> set (entries i)" for e'
      using distinct_keys_same [OF d that h] by simp
    have fresh: "map_of (tombstones i) h \<noteq> Some w"
      using inv h by (force simp: inner_inv_def dest: map_of_SomeD)
    have "w = EvictedEntry \<and> h \<in> fst ` set (entries ?e) \<or> map_of (tombstones ?e) h = Some w"
      using w shrink_tombstones [OF sel, of on cap ?e h w] by (auto simp: reclaim_def Let_def split: if_splits)
    then show ?thesis
      using evict_tombstones [of on now i h w] fresh same by (auto simp: alive live_def)
  qed
  then have "map_of (tombstones ?r) h \<in> {None, Some (if ce_expires_at e \<le> now then ExpiredEntry else EvictedEntry)}"
    if "(h, e) \<in> set (entries i)" for h e
    using that by (cases "map_of (tombstones ?r) h") simp_all
  ultimately show ?thesis by (simp only: reclaimed_def Let_def) blast
qed

text \<open>C26: A sweep, and a recording that overfills the table, drop the expired entries first and stop there
  when the rest fits.  Otherwise exactly the watermark's number of entries stays, none of those dropped
  was used more recently than one that stays, and a tombstone, where there is one, names the right cause:
  expiry for the entries past their time and eviction for the others.\<close>

theorem eviction_keeps_most_recent:
  assumes "selects sel" "meter_inv c"
  shows "reclaimed (meter_capacity c) (meter_capacity c) now (entries (inner c)) (inner (sweep sel now c)) \<and>
    (let after = inner (record_entry sel now h tokens ttl c); limit = hard_limit (meter_capacity c);
           before = map_insert h (new_entry now tokens (clamp_ttl ttl)) (entries (inner c)) in
         if length before \<le> limit then entries after = before
         else reclaimed (meter_capacity c) limit now before after)"
proof -
  have inv: "inner_inv (miss_diagnostics c) (inner c)" "meter_capacity c \<le> MAX_CAPACITY"
    using assms(2) by (simp_all add: meter_inv_def)
  show ?thesis
    using reclaim_reclaimed [OF assms(1) inv(1) watermark_le]
      reclaim_reclaimed [OF assms(1) inner_inv_put_entry [OF inv(1), of now h tokens ttl]
        watermark_hard_limit [OF inv(2)], of now]
    by (simp add: sweep_reclaim record_entry_alt Let_def put_entry_def)
qed

section \<open>Examples\<close>

definition sample_meter :: cache_meter where
  "sample_meter = start_meter None None 0 2000 True"

definition sample_ops :: "(int \<times> meter_op) list" where
  "sample_ops = [(10, OpRecord 7 120 300), (200, OpProbe 7), (600, OpSweep)]"

lemma cache_meter_run_invariant_witness:
  "counted (st_total (meter_stats (inner (meter_run (\<lambda>_. sort_key snd) sample_ops sample_meter)))) \<and>
   length (entries (inner (sweep (\<lambda>_. sort_key snd) 700 (meter_run (\<lambda>_. sort_key snd) sample_ops sample_meter)))) \<le> 2000"
proof -
  have cap: "meter_capacity sample_meter = 2000"
    by (simp add: sample_meter_def start_meter_def with_capacity_def with_miss_diagnostics_def clamp_def
        MIN_CAPACITY_def MAX_CAPACITY_def)
  note inv = cache_meter_run_invariant [OF selects_sort, of sample_meter None None 0 2000 True _ sample_ops,
      OF sample_meter_def refl]
  show ?thesis
    using inv [of _ 700] by (simp add: cap meter_inv_def inner_inv_def)
qed

text \<open>A hit at 200 s renews the entry of 10 s, so it is still read at 400 s, and no longer at 500 s.\<close>

lemma cache_table_refines_ideal_witness:
  "tokens_of (fst (probe_outcome 400 7 (meter_run (\<lambda>_. sort_key snd) (butlast sample_ops) sample_meter))) = Some 120 \<and>
   tokens_of (fst (probe_outcome 500 7 (meter_run (\<lambda>_. sort_key snd) (butlast sample_ops) sample_meter))) = None"
proof -
  have start: "entries (inner sample_meter) = []" "meter_capacity sample_meter = 2000"
    by (simp_all add: sample_meter_def start_meter_def with_capacity_def with_miss_diagnostics_def clamp_def
        with_remote_def default_inner_def MIN_CAPACITY_def MAX_CAPACITY_def)
  have ideal: "ideal_read t 7 (fold ideal_step (butlast sample_ops) (table_of sample_meter)) =
      (if t < 500 then Some 120 else None)" for t
    by (simp add: sample_ops_def table_of_def start ideal_probe_def ideal_read_def new_entry_def renew_def
        clamp_ttl_def MAX_TTL_SECS_def Let_def)
  note exact = cache_table_refines_ideal [of sample_meter None None 0 2000 True, OF sample_meter_def refl refl,
      where ops = "butlast sample_ops" and sel = "\<lambda>_. sort_key snd" and h = 7]
  show ?thesis
    using exact [of 400] exact [of 500] ideal by (simp add: sample_ops_def start)
qed

lemma eviction_keeps_most_recent_witness:
  "reclaimed 2000 2000 700 (entries (inner sample_meter)) (inner (sweep (\<lambda>_. sort_key snd) 700 sample_meter))"
proof -
  have "meter_capacity sample_meter = 2000"
    by (simp add: sample_meter_def start_meter_def with_capacity_def with_miss_diagnostics_def clamp_def
        MIN_CAPACITY_def MAX_CAPACITY_def)
  moreover have "meter_inv sample_meter" by (simp add: sample_meter_def start_meter_inv)
  ultimately show ?thesis
    using eviction_keeps_most_recent [OF selects_sort, of sample_meter 700] by simp
qed

end
