(* ===== verification/PromptBlocks.thy ===== *)
theory PromptBlocks
  imports RequestTypes StreamContext CacheMeter
begin

text \<open>
  The prompt as the cache sees it (\<open>src/anthropic/cache_metering.rs\<close>, from \<open>extract_blocks\<close> to
  \<open>resolve_breakpoints\<close>, and the image estimate of \<open>src/image_resize.rs\<close>): the blocks of tools,
  system messages and messages with their signatures and token estimates, the breakpoints among them,
  and how far each breakpoint looks back.  Printing JSON, decoding base64 and reading the header of an
  image belong to crates and are the fields of \<open>prompt_env\<close>.
\<close>

section \<open>Token estimates\<close>

datatype image_format = Png | Jpeg | WebP | Gif

record prompt_env =
  to_json_string :: "json \<Rightarrow> string"
  base64_decode :: "string \<Rightarrow> string option"
  header_dimensions :: "image_format option \<Rightarrow> string \<Rightarrow> (u32 \<times> u32) option"

definition guess_format :: "string \<Rightarrow> image_format option" where
  "guess_format s =
     (if s = ''png'' then Some Png else if s = ''jpeg'' \<or> s = ''jpg'' then Some Jpeg
      else if s = ''webp'' then Some WebP else if s = ''gif'' then Some Gif else None)"

definition peek_dimensions :: "prompt_env \<Rightarrow> string \<Rightarrow> string \<Rightarrow> (u32 \<times> u32) option" where
  "peek_dimensions env format data_base64 =
     (case base64_decode env data_base64 of
        None \<Rightarrow> None
      | Some bytes \<Rightarrow> header_dimensions env (guess_format format) bytes)"

definition IMAGE_TOKEN_MAX_LONG_SIDE :: int where "IMAGE_TOKEN_MAX_LONG_SIDE = 1568"
definition IMAGE_TOKEN_PIXELS_PER_TOKEN :: rat where "IMAGE_TOKEN_PIXELS_PER_TOKEN = 750"
definition IMAGE_TOKEN_FALLBACK :: u32 where "IMAGE_TOKEN_FALLBACK = 1600"

text \<open>\<open>f64 as u32\<close>: truncating and saturating, zero for a NaN.\<close>

definition f64_as_u32 :: "f64 \<Rightarrow> u32" where
  "f64_as_u32 a =
     (case a of
        Fin x \<Rightarrow> word_of_int (max 0 (min (2 ^ 32 - 1) \<lfloor>x\<rfloor>))
      | Infinite s \<Rightarrow> if s then - 1 else 0
      | NaN \<Rightarrow> 0)"

text \<open>\<open>rsplit('/').next()\<close>.\<close>

definition after_last_slash :: "string \<Rightarrow> string" where
  "after_last_slash s = rev (takeWhile (\<lambda>c. c \<noteq> CHR ''/'') (rev s))"

definition estimate_image_tokens :: "prompt_env \<Rightarrow> string \<Rightarrow> string \<Rightarrow> u32" where
  "estimate_image_tokens env media_type data_base64 =
     (case peek_dimensions env (to_ascii_lowercase (after_last_slash media_type)) data_base64 of
        None \<Rightarrow> IMAGE_TOKEN_FALLBACK
      | Some (w, h) \<Rightarrow>
          if w = 0 \<or> h = 0 then IMAGE_TOKEN_FALLBACK
          else
            let long = max (uint w) (uint h);
                (fw, fh) =
                  (if IMAGE_TOKEN_MAX_LONG_SIDE < long then
                     let scale = f64_div (f64_of_int IMAGE_TOKEN_MAX_LONG_SIDE) (of_int long) in
                     (f64_mul (f64_of_int (uint w)) scale, f64_mul (f64_of_int (uint h)) scale)
                   else (f64_of_int (uint w), f64_of_int (uint h)))
            in max 1 (f64_as_u32 (f64_round (f64_div (f64_mul fw fh) IMAGE_TOKEN_PIXELS_PER_TOKEN))))"

text \<open>\<open>estimate_tokens(s).max(0) as u32\<close>.\<close>

definition text_tokens :: "string \<Rightarrow> u32" where
  "text_tokens s = word_of_int (max 0 (estimate_tokens s))"

definition get_str :: "json \<Rightarrow> string \<Rightarrow> string option" where
  "get_str v k = (case json_get v k of Some x \<Rightarrow> as_str x | None \<Rightarrow> None)"

definition image_source_parts :: "json \<Rightarrow> string \<times> string" where
  "image_source_parts v =
     (case json_get v ''source'' of
        None \<Rightarrow> ('''', '''')
      | Some src \<Rightarrow>
          (case get_str src ''media_type'' of Some s \<Rightarrow> s | None \<Rightarrow> '''',
           case get_str src ''data'' of Some s \<Rightarrow> s | None \<Rightarrow> ''''))"

definition block_tokens :: "prompt_env \<Rightarrow> json \<Rightarrow> u32" where
  "block_tokens env v =
     (let block_type = get_str v ''type'' in
      if block_type = Some ''image'' then
        let (media_type, data) = image_source_parts v in estimate_image_tokens env media_type data
      else
        case (if block_type = Some ''text'' then get_str v ''text''
              else if block_type = Some ''thinking'' then get_str v ''thinking'' else None) of
          Some t \<Rightarrow> text_tokens t
        | None \<Rightarrow> text_tokens (to_json_string env v))"

section \<open>Blocks\<close>

definition without_cache_control :: "json \<Rightarrow> json" where
  "without_cache_control v =
     (case v of JObject m \<Rightarrow> JObject (map_remove ''cache_control'' m) | _ \<Rightarrow> v)"

definition prompt_block_signature :: "prompt_env \<Rightarrow> string \<Rightarrow> string option \<Rightarrow> json \<Rightarrow> string" where
  "prompt_block_signature env sect speaker v =
     to_json_string env (JObject
       [(''content'', v), (''role'', case speaker of Some r \<Rightarrow> JString r | None \<Rightarrow> JNull),
        (''section'', JString sect)])"

definition block_is_cacheable :: "json \<Rightarrow> bool" where
  "block_is_cacheable v =
     (case v of
        JObject m \<Rightarrow>
          (case get_str v ''type'' of
             Some t \<Rightarrow>
               if t = ''thinking'' \<or> t = ''redacted_thinking'' then False
               else if t = ''text'' then
                 (case get_str v ''text'' of Some s \<Rightarrow> trim s \<noteq> [] | None \<Rightarrow> False)
               else True
           | None \<Rightarrow> False)
      | _ \<Rightarrow> False)"

definition validated_ttl :: "cache_control \<Rightarrow> int option" where
  "validated_ttl c =
     (if \<not> eq_ignore_ascii_case (cache_type c) ''ephemeral'' then None
      else case cache_ttl c of
        None \<Rightarrow> Some DEFAULT_TTL_SECS
      | Some t \<Rightarrow>
          if eq_ignore_ascii_case t ''5m'' then Some DEFAULT_TTL_SECS
          else if eq_ignore_ascii_case t ''1h'' then Some MAX_TTL_SECS
          else None)"

datatype lookback_group = ToolUseGroup | ToolResultGroup

record prompt_block =
  signature :: string
  pb_tokens :: u32
  pb_cache_control :: "cache_control option"
  invalid_cache_control :: bool
  cacheable :: bool
  lookback_group :: "lookback_group option"
  is_current_turn_input :: bool

definition tool_block :: "prompt_env \<Rightarrow> request_tool \<Rightarrow> prompt_block" where
  "tool_block env t =
     (let c = without_cache_control (tool_value t) in
      \<lparr>signature = prompt_block_signature env ''tool'' None c, pb_tokens = text_tokens (to_json_string env c),
       pb_cache_control = tool_cache_control t, invalid_cache_control = False, cacheable = True,
       lookback_group = None, is_current_turn_input = False\<rparr>)"

definition system_block :: "prompt_env \<Rightarrow> system_message \<Rightarrow> prompt_block" where
  "system_block env s =
     (let c = without_cache_control (system_value s) in
      \<lparr>signature = prompt_block_signature env ''system'' None c, pb_tokens = text_tokens (sys_text s),
       pb_cache_control = sys_cache_control s, invalid_cache_control = False,
       cacheable = trim (sys_text s) \<noteq> [], lookback_group = None, is_current_turn_input = False\<rparr>)"

definition value_block :: "prompt_env \<Rightarrow> string \<Rightarrow> bool \<Rightarrow> json \<Rightarrow> prompt_block" where
  "value_block env speaker current v =
     (let (cc, invalid) =
            (case json_get v ''cache_control'' of
               Some raw \<Rightarrow>
                 (case cache_control_of_value raw of Some cc \<Rightarrow> (Some cc, False) | None \<Rightarrow> (None, True))
             | None \<Rightarrow> (None, False));
          c = without_cache_control v;
          block_type = get_str c ''type''
      in \<lparr>signature = prompt_block_signature env ''message'' (Some speaker) c, pb_tokens = block_tokens env c,
          pb_cache_control = cc, invalid_cache_control = invalid, cacheable = block_is_cacheable c,
          lookback_group =
            (if block_type = Some ''tool_use'' then Some ToolUseGroup
             else if block_type = Some ''tool_result'' then Some ToolResultGroup else None),
          is_current_turn_input = current\<rparr>)"

definition message_blocks :: "prompt_env \<Rightarrow> bool \<Rightarrow> request_message \<Rightarrow> prompt_block list" where
  "message_blocks env is_last m =
     (let is_tool_result =
            (case content m of
               JArray arr \<Rightarrow> list_ex (\<lambda>v. get_str v ''type'' = Some ''tool_result'') arr
             | _ \<Rightarrow> False);
          current = (is_last \<and> role m = ''user'' \<and> \<not> is_tool_result)
      in case content m of
           JString s \<Rightarrow>
             let c = JObject [(''text'', JString s), (''type'', JString ''text'')] in
             [\<lparr>signature = prompt_block_signature env ''message'' (Some (role m)) c, pb_tokens = text_tokens s,
               pb_cache_control = None, invalid_cache_control = False, cacheable = trim s \<noteq> [],
               lookback_group = None, is_current_turn_input = current\<rparr>]
         | JArray arr \<Rightarrow> map (value_block env (role m) current) arr
         | _ \<Rightarrow> [])"

text \<open>The messages before the trailing run of assistant messages, which the converter drops.\<close>

definition kept_messages :: "request_message list \<Rightarrow> request_message list" where
  "kept_messages ms = rev (dropWhile (\<lambda>m. role m = ''assistant'') (rev ms))"

definition kept_blocks :: "prompt_env \<Rightarrow> request_message list \<Rightarrow> prompt_block list" where
  "kept_blocks env ms =
     (case ms of
        [] \<Rightarrow> []
      | _ \<Rightarrow> concat (map (message_blocks env False) (butlast ms)) @ message_blocks env True (last ms))"

text \<open>The breakpoints of the dropped messages move to the last block kept: the state is the number of
  breakpoints, whether a five-minute one was seen, and that block.\<close>

definition prefill_breakpoint :: "json \<Rightarrow> nat \<times> bool \<times> prompt_block \<Rightarrow> nat \<times> bool \<times> prompt_block" where
  "prefill_breakpoint v st =
     (let (n, seen_5m, b) = st in
      case json_get v ''cache_control'' of
        None \<Rightarrow> st
      | Some raw \<Rightarrow>
          (case cache_control_of_value raw of
             None \<Rightarrow> (n + 1, seen_5m, b\<lparr>invalid_cache_control := True\<rparr>)
           | Some cc \<Rightarrow>
               let (invalid, seen_5m) =
                     (case validated_ttl cc of
                        Some t \<Rightarrow>
                          (invalid_cache_control b \<or> seen_5m \<and> DEFAULT_TTL_SECS < t, seen_5m \<or> t = DEFAULT_TTL_SECS)
                      | None \<Rightarrow> (True, seen_5m));
                   invalid = (invalid \<or> \<not> block_is_cacheable v)
               in (n + 1, seen_5m,
                   b\<lparr>invalid_cache_control := invalid,
                     pb_cache_control := (case pb_cache_control b of None \<Rightarrow> Some cc | Some old \<Rightarrow> Some old)\<rparr>)))"

definition MAX_BREAKPOINTS :: nat where "MAX_BREAKPOINTS = 4"

definition prefill_values :: "request_message list \<Rightarrow> json list" where
  "prefill_values ms = concat (map (\<lambda>m. case as_array (content m) of Some arr \<Rightarrow> arr | None \<Rightarrow> []) ms)"

definition move_prefill_breakpoints :: "request_message list \<Rightarrow> prompt_block list \<Rightarrow> prompt_block list" where
  "move_prefill_breakpoints dropped blocks =
     (if blocks = [] then blocks
      else
        let n = length (filter (\<lambda>b. pb_cache_control b \<noteq> None) blocks);
            seen_5m = list_ex (\<lambda>b. case pb_cache_control b of
                         Some cc \<Rightarrow> (validated_ttl cc = Some DEFAULT_TTL_SECS) | None \<Rightarrow> False) blocks;
            (n, _, b) = fold prefill_breakpoint (prefill_values dropped) (n, seen_5m, last blocks)
        in butlast blocks @ [b\<lparr>invalid_cache_control := invalid_cache_control b \<or> MAX_BREAKPOINTS < n\<rparr>])"

definition extract_blocks :: "prompt_env \<Rightarrow> messages_request \<Rightarrow> prompt_block list" where
  "extract_blocks env req =
     (let kept = kept_messages (messages req);
          blocks =
            (case tools req of Some ts \<Rightarrow> map (tool_block env) ts | None \<Rightarrow> []) @
            (case system req of Some ss \<Rightarrow> map (system_block env) ss | None \<Rightarrow> []) @
            kept_blocks env kept
      in if length kept = length (messages req) then blocks
         else move_prefill_breakpoints (drop (length kept) (messages req)) blocks)"

section \<open>Breakpoints\<close>

record breakpoint =
  block_idx :: nat
  bp_ttl_secs :: int

text \<open>The breakpoints marked on blocks; nothing when one is on a block that cannot be cached or has an
  unknown lifetime.\<close>

fun explicit_breakpoints :: "nat \<Rightarrow> prompt_block list \<Rightarrow> breakpoint list option" where
  "explicit_breakpoints i [] = Some []"
| "explicit_breakpoints i (b # bs) =
     (case pb_cache_control b of
        None \<Rightarrow> explicit_breakpoints (Suc i) bs
      | Some cc \<Rightarrow>
          if \<not> cacheable b then None
          else (case validated_ttl cc of
                  None \<Rightarrow> None
                | Some t \<Rightarrow>
                    map_option (\<lambda>rest. \<lparr>block_idx = i, bp_ttl_secs = t\<rparr> # rest) (explicit_breakpoints (Suc i) bs)))"

text \<open>\<open>rposition\<close>.\<close>

fun rposition :: "('a \<Rightarrow> bool) \<Rightarrow> 'a list \<Rightarrow> nat option" where
  "rposition p [] = None"
| "rposition p (x # xs) =
     (case rposition p xs of Some i \<Rightarrow> Some (Suc i) | None \<Rightarrow> if p x then Some 0 else None)"

definition auto_target :: "prompt_block list \<Rightarrow> nat option" where
  "auto_target blocks =
     (if list_ex (\<lambda>b. \<not> is_current_turn_input b \<and> cacheable b) blocks
      then rposition (\<lambda>b. cacheable b \<and> \<not> is_current_turn_input b) blocks
      else rposition cacheable blocks)"

text \<open>The breakpoints with the automatic one; nothing when the two lifetimes of a block differ.\<close>

definition add_auto :: "prompt_block list \<Rightarrow> int \<Rightarrow> breakpoint list \<Rightarrow> breakpoint list option" where
  "add_auto blocks auto_ttl bps =
     (case auto_target blocks of
        None \<Rightarrow> Some bps
      | Some i \<Rightarrow>
          (case List.find (\<lambda>bp. block_idx bp = i) bps of
             Some old \<Rightarrow> if bp_ttl_secs old \<noteq> auto_ttl then None else Some bps
           | None \<Rightarrow> Some (bps @ [\<lparr>block_idx = i, bp_ttl_secs = auto_ttl\<rparr>])))"

text \<open>No long lifetime after a short one.\<close>

fun ttl_order_ok :: "bool \<Rightarrow> breakpoint list \<Rightarrow> bool" where
  "ttl_order_ok seen_5m [] = True"
| "ttl_order_ok seen_5m (bp # bps) =
     (if bp_ttl_secs bp \<le> DEFAULT_TTL_SECS then ttl_order_ok True bps
      else if seen_5m then False else ttl_order_ok seen_5m bps)"

definition resolve_breakpoints :: "prompt_block list \<Rightarrow> cache_control option \<Rightarrow> breakpoint list" where
  "resolve_breakpoints blocks top_cc =
     (if blocks = [] \<or> list_ex invalid_cache_control blocks then []
      else
        case explicit_breakpoints 0 blocks of
          None \<Rightarrow> []
        | Some bps \<Rightarrow>
            (case (case top_cc of
                     None \<Rightarrow> Some bps
                   | Some cc \<Rightarrow>
                       (case validated_ttl cc of None \<Rightarrow> None | Some t \<Rightarrow> add_auto blocks t bps)) of
               None \<Rightarrow> []
             | Some bps \<Rightarrow>
                 let bps = sort_key block_idx bps in
                 if MAX_BREAKPOINTS < length bps then []
                 else if ttl_order_ok False bps then bps else []))"

section \<open>Lookback\<close>

definition LOOKBACK_BLOCKS :: nat where "LOOKBACK_BLOCKS = 20"

definition same_group :: "prompt_block list \<Rightarrow> nat \<Rightarrow> bool" where
  "same_group blocks i \<longleftrightarrow>
     lookback_group (blocks ! i) \<noteq> None \<and> lookback_group (blocks ! i) = lookback_group (blocks ! (i - 1))"

fun lookback_from :: "prompt_block list \<Rightarrow> nat \<Rightarrow> nat \<Rightarrow> nat" where
  "lookback_from blocks positions 0 = 0"
| "lookback_from blocks positions (Suc i) =
     (if same_group blocks (Suc i) then lookback_from blocks positions i
      else if positions = LOOKBACK_BLOCKS then Suc i
      else lookback_from blocks (positions + 1) i)"

definition lookback_start_index :: "prompt_block list \<Rightarrow> nat \<Rightarrow> nat" where
  "lookback_start_index blocks breakpoint_idx = lookback_from blocks 1 breakpoint_idx"

section \<open>Which breakpoints a request has\<close>

definition well_marked :: "prompt_block \<Rightarrow> bool" where
  "well_marked b \<longleftrightarrow>
     (case pb_cache_control b of None \<Rightarrow> True | Some cc \<Rightarrow> cacheable b \<and> validated_ttl cc \<noteq> None)"

text \<open>The blocks marked for caching, from position \<open>k\<close> on, and the automatic one.\<close>

definition marked_blocks :: "nat \<Rightarrow> prompt_block list \<Rightarrow> breakpoint set" where
  "marked_blocks k bs =
     {\<lparr>block_idx = k + i, bp_ttl_secs = t\<rparr> | i t cc.
        i < length bs \<and> pb_cache_control (bs ! i) = Some cc \<and> validated_ttl cc = Some t}"

definition auto_block :: "prompt_block list \<Rightarrow> cache_control option \<Rightarrow> breakpoint set" where
  "auto_block bs top_cc =
     {\<lparr>block_idx = i, bp_ttl_secs = t\<rparr> | i t cc.
        top_cc = Some cc \<and> validated_ttl cc = Some t \<and> auto_target bs = Some i}"

definition wanted :: "prompt_block list \<Rightarrow> cache_control option \<Rightarrow> breakpoint set" where
  "wanted bs top_cc = marked_blocks 0 bs \<union> auto_block bs top_cc"

text \<open>What the provider accepts: every mark valid and on a block that can be cached, one lifetime for each
  block, at most four breakpoints, and every one-hour breakpoint before every five-minute one.\<close>

definition legal :: "prompt_block list \<Rightarrow> cache_control option \<Rightarrow> bool" where
  "legal bs top_cc \<longleftrightarrow>
     (\<forall>b \<in> set bs. \<not> invalid_cache_control b \<and> well_marked b) \<and>
     (case top_cc of None \<Rightarrow> True | Some cc \<Rightarrow> validated_ttl cc \<noteq> None) \<and>
     (\<forall>p \<in> wanted bs top_cc. \<forall>q \<in> wanted bs top_cc.
        (block_idx p = block_idx q \<longrightarrow> bp_ttl_secs p = bp_ttl_secs q) \<and>
        (block_idx p < block_idx q \<and> bp_ttl_secs q = MAX_TTL_SECS \<longrightarrow> bp_ttl_secs p = MAX_TTL_SECS)) \<and>
     card (wanted bs top_cc) \<le> MAX_BREAKPOINTS"

lemma marked_blocks_Nil [simp]: "marked_blocks k [] = {}"
  by (simp add: marked_blocks_def)

lemma marked_blocks_Cons:
  "marked_blocks k (b # bs) =
     (case pb_cache_control b of
        Some cc \<Rightarrow> (case validated_ttl cc of Some t \<Rightarrow> {\<lparr>block_idx = k, bp_ttl_secs = t\<rparr>} | None \<Rightarrow> {})
      | None \<Rightarrow> {}) \<union> marked_blocks (Suc k) bs"
  (is "?l = ?r")
proof (rule set_eqI)
  fix p
  have "p \<in> ?l \<longleftrightarrow>
      (\<exists>t cc. p = \<lparr>block_idx = k, bp_ttl_secs = t\<rparr> \<and> pb_cache_control b = Some cc \<and> validated_ttl cc = Some t) \<or>
      (\<exists>i t cc. p = \<lparr>block_idx = Suc k + i, bp_ttl_secs = t\<rparr> \<and> i < length bs \<and>
         pb_cache_control (bs ! i) = Some cc \<and> validated_ttl cc = Some t)"
  proof -
    have "(\<exists>i. i < length (b # bs) \<and> P i ((b # bs) ! i)) \<longleftrightarrow> P 0 b \<or> (\<exists>i. i < length bs \<and> P (Suc i) (bs ! i))" for P
      using less_Suc_eq_0_disj by auto
    from this [of "\<lambda>i c. \<exists>t cc. p = \<lparr>block_idx = k + i, bp_ttl_secs = t\<rparr> \<and> pb_cache_control c = Some cc \<and> validated_ttl cc = Some t"]
    show ?thesis by (simp add: marked_blocks_def) blast
  qed
  also have "\<dots> \<longleftrightarrow> p \<in> ?r"
    by (auto simp: marked_blocks_def split: option.splits)
  finally show "p \<in> ?l \<longleftrightarrow> p \<in> ?r" .
qed

lemma marked_blocks_idx: "p \<in> marked_blocks k bs \<Longrightarrow> k \<le> block_idx p \<and> block_idx p < k + length bs"
  by (auto simp: marked_blocks_def)

lemma explicit_breakpoints_spec:
  "case explicit_breakpoints k bs of
     None \<Rightarrow> \<not> list_all well_marked bs
   | Some l \<Rightarrow> list_all well_marked bs \<and> set l = marked_blocks k bs \<and> sorted_wrt (<) (map block_idx l)"
proof (induction k bs rule: explicit_breakpoints.induct)
  case (2 k b bs)
  show ?case
  proof (cases "pb_cache_control b")
    case None
    then show ?thesis
      using 2(1) [OF None] by (auto simp: marked_blocks_Cons well_marked_def [of b] split: option.splits)
  next
    case (Some cc)
    show ?thesis
    proof (cases "cacheable b \<and> validated_ttl cc \<noteq> None")
      case True
      then obtain t where t: "cacheable b" "validated_ttl cc = Some t" by auto
      have later: "\<forall>p \<in> marked_blocks (Suc k) bs. k < block_idx p"
        using marked_blocks_idx by fastforce
      show ?thesis
        using 2(2) [OF Some _ t(2)] t Some later
        by (auto simp: marked_blocks_Cons well_marked_def [of b] split: option.splits)
    next
      case False
      then show ?thesis by (auto simp: Some well_marked_def [of b] split: option.split)
    qed
  qed
qed simp

lemma ttl_order_ok_iff:
  "ttl_order_ok seen l \<longleftrightarrow>
     sorted_wrt (\<lambda>p q. bp_ttl_secs p \<le> DEFAULT_TTL_SECS \<longrightarrow> bp_ttl_secs q \<le> DEFAULT_TTL_SECS) l \<and>
     (seen \<longrightarrow> (\<forall>q \<in> set l. bp_ttl_secs q \<le> DEFAULT_TTL_SECS))"
  by (induction seen l rule: ttl_order_ok.induct) auto

lemma validated_ttl_values: "validated_ttl cc = Some t \<Longrightarrow> t = DEFAULT_TTL_SECS \<or> t = MAX_TTL_SECS"
  by (auto simp: validated_ttl_def split: if_splits option.splits)

lemma wanted_ttl: "p \<in> wanted bs top_cc \<Longrightarrow> bp_ttl_secs p = DEFAULT_TTL_SECS \<or> bp_ttl_secs p = MAX_TTL_SECS"
  by (auto simp: wanted_def marked_blocks_def auto_block_def dest: validated_ttl_values)

text \<open>The breakpoints before they are put in order: all that are wanted, when no two of a block disagree.\<close>

definition collected :: "prompt_block list \<Rightarrow> cache_control option \<Rightarrow> breakpoint list option" where
  "collected bs top_cc =
     (case explicit_breakpoints 0 bs of
        None \<Rightarrow> None
      | Some bps \<Rightarrow>
          (case top_cc of
             None \<Rightarrow> Some bps
           | Some cc \<Rightarrow> (case validated_ttl cc of None \<Rightarrow> None | Some t \<Rightarrow> add_auto bs t bps)))"

definition agreeing :: "breakpoint set \<Rightarrow> bool" where
  "agreeing S \<longleftrightarrow> (\<forall>p \<in> S. \<forall>q \<in> S. block_idx p = block_idx q \<longrightarrow> bp_ttl_secs p = bp_ttl_secs q)"

lemma distinct_idx_agreeing: "distinct (map block_idx l) \<Longrightarrow> agreeing (set l)"
  by (auto simp: agreeing_def distinct_map inj_on_def)

lemma collected_spec:
  "case collected bs top_cc of
     None \<Rightarrow> \<not> (list_all well_marked bs \<and> (case top_cc of None \<Rightarrow> True | Some cc \<Rightarrow> validated_ttl cc \<noteq> None)
                \<and> agreeing (wanted bs top_cc))
   | Some l \<Rightarrow> list_all well_marked bs \<and> (case top_cc of None \<Rightarrow> True | Some cc \<Rightarrow> validated_ttl cc \<noteq> None)
                \<and> set l = wanted bs top_cc \<and> distinct (map block_idx l)"
proof (cases "explicit_breakpoints 0 bs")
  case None
  then show ?thesis using explicit_breakpoints_spec [where k = 0 and bs = bs] by (simp add: collected_def)
next
  case (Some l)
  have l: "list_all well_marked bs" "set l = marked_blocks 0 bs" "distinct (map block_idx l)"
    using explicit_breakpoints_spec [where k = 0 and bs = bs] Some by (auto simp: strict_sorted_iff)
  show ?thesis
  proof (cases "top_cc = None \<or> (\<exists>cc. top_cc = Some cc \<and> validated_ttl cc = None) \<or> auto_target bs = None")
    case True
    then consider "top_cc = None" | cc where "top_cc = Some cc" "validated_ttl cc = None"
      | cc t where "top_cc = Some cc" "validated_ttl cc = Some t" "auto_target bs = None" by fastforce
    then show ?thesis
    proof cases
      case 1
      then have "wanted bs top_cc = marked_blocks 0 bs" by (simp add: wanted_def auto_block_def)
      with 1 show ?thesis by (simp add: collected_def Some l)
    next
      case 2
      then show ?thesis by (simp add: collected_def Some)
    next
      case 3
      then have "wanted bs top_cc = marked_blocks 0 bs" by (simp add: wanted_def auto_block_def)
      with 3 show ?thesis by (simp add: collected_def Some l add_auto_def)
    qed
  next
    case False
    then obtain cc t i where top: "top_cc = Some cc" "validated_ttl cc = Some t" "auto_target bs = Some i" by auto
    have w: "wanted bs top_cc = insert \<lparr>block_idx = i, bp_ttl_secs = t\<rparr> (set l)"
      using top l(2) by (auto simp: wanted_def auto_block_def)
    show ?thesis
    proof (cases "List.find (\<lambda>bp. block_idx bp = i) l")
      case None
      then have "\<forall>p \<in> set l. block_idx p \<noteq> i" by (auto simp: find_None_iff)
      with None top l Some w show ?thesis by (auto simp: collected_def add_auto_def)
    next
      case found: (Some old)
      then have old: "old \<in> set l" "block_idx old = i" using find_Some_in [OF found] by auto
      show ?thesis
      proof (cases "bp_ttl_secs old = t")
        case True
        then have "\<lparr>block_idx = i, bp_ttl_secs = t\<rparr> = old" by (intro breakpoint.equality) (simp_all add: old)
        then have "set l = wanted bs top_cc" using old(1) w by (simp add: insert_absorb)
        with True found top l Some show ?thesis by (simp add: collected_def add_auto_def)
      next
        case False
        have "old \<in> wanted bs top_cc" "\<lparr>block_idx = i, bp_ttl_secs = t\<rparr> \<in> wanted bs top_cc"
          using old(1) w by simp_all
        with False old(2) have "\<not> agreeing (wanted bs top_cc)"
          unfolding agreeing_def by (metis breakpoint.select_convs)
        with False found top Some show ?thesis by (simp add: collected_def add_auto_def)
      qed
    qed
  qed
qed


lemma resolve_collected:
  "resolve_breakpoints bs top_cc =
     (if list_ex invalid_cache_control bs then []
      else case collected bs top_cc of
        None \<Rightarrow> []
      | Some l \<Rightarrow>
          if MAX_BREAKPOINTS < length l then []
          else if ttl_order_ok False (sort_key block_idx l) then sort_key block_idx l else [])"
proof (cases "bs = []")
  case True
  then have "collected bs top_cc = None \<or> collected bs top_cc = Some []"
    by (auto simp: collected_def add_auto_def auto_target_def split: option.split)
  with True show ?thesis by (auto simp: resolve_breakpoints_def)
next
  case False
  then show ?thesis
    by (simp add: resolve_breakpoints_def collected_def Let_def split: option.split)
qed

lemma sorted_wrt_by_index:
  "sorted_wrt (<) (map f l) \<Longrightarrow>
   sorted_wrt R l \<longleftrightarrow> (\<forall>p \<in> set l. \<forall>q \<in> set l. f p < f q \<longrightarrow> R p q)" for f :: "'a \<Rightarrow> nat"
  by (induction l) (auto dest: order_less_asym)

lemma ttl_order_sorted:
  assumes "sorted_wrt (<) (map block_idx l)"
    and ttl: "\<forall>p \<in> set l. bp_ttl_secs p = DEFAULT_TTL_SECS \<or> bp_ttl_secs p = MAX_TTL_SECS"
  shows "ttl_order_ok False l \<longleftrightarrow>
    (\<forall>p \<in> set l. \<forall>q \<in> set l. block_idx p < block_idx q \<and> bp_ttl_secs q = MAX_TTL_SECS \<longrightarrow> bp_ttl_secs p = MAX_TTL_SECS)"
proof -
  have small: "bp_ttl_secs p \<le> DEFAULT_TTL_SECS \<longleftrightarrow> bp_ttl_secs p \<noteq> MAX_TTL_SECS" if "p \<in> set l" for p
    using ttl that by (auto simp: DEFAULT_TTL_SECS_def MAX_TTL_SECS_def)
  have "ttl_order_ok False l \<longleftrightarrow> (\<forall>p \<in> set l. \<forall>q \<in> set l. block_idx p < block_idx q \<longrightarrow>
      bp_ttl_secs p \<le> DEFAULT_TTL_SECS \<longrightarrow> bp_ttl_secs q \<le> DEFAULT_TTL_SECS)"
    using sorted_wrt_by_index [OF assms(1)] by (simp add: ttl_order_ok_iff)
  also have "\<dots> \<longleftrightarrow> (\<forall>p \<in> set l. \<forall>q \<in> set l.
      block_idx p < block_idx q \<and> bp_ttl_secs q = MAX_TTL_SECS \<longrightarrow> bp_ttl_secs p = MAX_TTL_SECS)"
    by (intro ball_cong refl) (auto simp: small)
  finally show ?thesis .
qed

text \<open>C29: The breakpoints of a request are exactly those it asks for, the marked blocks and the automatic
  one, each once and in the order of the prompt, when the provider would accept them; when any rule is
  broken there is none at all.\<close>

theorem resolve_breakpoints_spec:
  "set (resolve_breakpoints bs top_cc) = (if legal bs top_cc then wanted bs top_cc else {}) \<and>
   sorted_wrt (<) (map block_idx (resolve_breakpoints bs top_cc))"
proof (cases "collected bs top_cc")
  case None
  have "\<not> legal bs top_cc"
    using collected_spec [of bs top_cc] None by (auto simp: legal_def list_all_iff agreeing_def)
  with None show ?thesis by (simp add: resolve_collected)
next
  case (Some l)
  let ?s = "sort_key block_idx l"
  have l: "list_all well_marked bs" "set l = wanted bs top_cc" "distinct (map block_idx l)"
    "case top_cc of None \<Rightarrow> True | Some cc \<Rightarrow> validated_ttl cc \<noteq> None"
    using collected_spec [of bs top_cc] Some by simp_all
  have "distinct (map block_idx ?s)"
    using l(3) by (metis mset_eq_imp_distinct_iff mset_map mset_sort)
  then have sorted: "sorted_wrt (<) (map block_idx ?s)"
    by (simp add: strict_sorted_iff)
  have card: "card (set l) = length l"
    using l(3) by (metis distinct_card distinct_map)
  have "\<forall>p \<in> set ?s. bp_ttl_secs p = DEFAULT_TTL_SECS \<or> bp_ttl_secs p = MAX_TTL_SECS"
    using wanted_ttl l(2) by auto
  note order = ttl_order_sorted [OF sorted this]
  have "legal bs top_cc \<longleftrightarrow>
      \<not> list_ex invalid_cache_control bs \<and> length l \<le> MAX_BREAKPOINTS \<and> agreeing (set l) \<and> ttl_order_ok False ?s"
    using l(1,4) unfolding order legal_def card agreeing_def set_sort l(2) [symmetric] ball_conj_distrib list_all_iff
    by (simp add: list_ex_iff conj_ac)
  then have "legal bs top_cc \<longleftrightarrow>
      \<not> list_ex invalid_cache_control bs \<and> length l \<le> MAX_BREAKPOINTS \<and> ttl_order_ok False ?s"
    using distinct_idx_agreeing [OF l(3)] by simp
  then show ?thesis
    using sorted l(2) by (auto simp: resolve_collected Some not_less)
qed

section \<open>How far a breakpoint looks back\<close>

text \<open>The positions from block \<open>i\<close> to a breakpoint: a run of tool calls, or of tool results, is one.\<close>

definition lookback_positions :: "prompt_block list \<Rightarrow> nat \<Rightarrow> nat \<Rightarrow> nat" where
  "lookback_positions blocks i bp = Suc (card {j. i < j \<and> j \<le> bp \<and> \<not> same_group blocks j})"

lemma lookback_positions_step:
  "Suc i \<le> bp \<Longrightarrow>
   lookback_positions blocks i bp =
     (if same_group blocks (Suc i) then lookback_positions blocks (Suc i) bp
      else Suc (lookback_positions blocks (Suc i) bp))"
proof -
  assume le: "Suc i \<le> bp"
  have "{j. i < j \<and> j \<le> bp \<and> \<not> same_group blocks j} =
      (if same_group blocks (Suc i) then {} else {Suc i}) \<union> {j. Suc i < j \<and> j \<le> bp \<and> \<not> same_group blocks j}"
    using le by (auto intro: Suc_lessI)
  then show ?thesis by (simp add: lookback_positions_def)
qed

lemma lookback_positions_mono: "i \<le> i' \<Longrightarrow> lookback_positions blocks i' bp \<le> lookback_positions blocks i bp"
  by (auto simp: lookback_positions_def intro!: card_mono)

lemma lookback_from_spec:
  "i \<le> bp \<Longrightarrow> p = lookback_positions blocks i bp \<Longrightarrow> p \<le> LOOKBACK_BLOCKS \<Longrightarrow>
   lookback_from blocks p i \<le> i \<and> lookback_positions blocks (lookback_from blocks p i) bp \<le> LOOKBACK_BLOCKS \<and>
   (\<forall>j < lookback_from blocks p i. LOOKBACK_BLOCKS < lookback_positions blocks j bp)"
proof (induction i arbitrary: p)
  case (Suc i)
  note step = lookback_positions_step [OF Suc.prems(1), of blocks]
  show ?case
  proof (cases "\<not> same_group blocks (Suc i) \<and> p = LOOKBACK_BLOCKS")
    case True
    then have "LOOKBACK_BLOCKS < lookback_positions blocks i bp" using step Suc.prems(2) by simp
    then have "LOOKBACK_BLOCKS < lookback_positions blocks j bp" if "j < Suc i" for j
      using that lookback_positions_mono [of j i blocks bp] by simp
    with True Suc.prems show ?thesis by simp
  next
    case False
    then show ?thesis
      using Suc.IH [of "lookback_positions blocks i bp"] Suc.prems step by (auto simp: le_Suc_eq)
  qed
qed simp

text \<open>A breakpoint looks back exactly as far as twenty positions reach: the start of its lookback is the
  least block from which no more than twenty lie between, the breakpoint's own counted.\<close>

lemma lookback_start_index_spec:
  "lookback_start_index blocks bp = (LEAST i. i \<le> bp \<and> lookback_positions blocks i bp \<le> LOOKBACK_BLOCKS)"
proof -
  have "lookback_positions blocks bp bp = 1" by (simp add: lookback_positions_def)
  from lookback_from_spec [OF order_refl refl, of blocks bp] this
  have *: "lookback_start_index blocks bp \<le> bp \<and>
      lookback_positions blocks (lookback_start_index blocks bp) bp \<le> LOOKBACK_BLOCKS \<and>
      (\<forall>j < lookback_start_index blocks bp. LOOKBACK_BLOCKS < lookback_positions blocks j bp)"
    by (simp add: lookback_start_index_def LOOKBACK_BLOCKS_def)
  then show ?thesis
    by (intro Least_equality [symmetric]) (auto simp: not_less [symmetric])
qed

section \<open>The automatic breakpoint of a first turn\<close>

text \<open>With a system message before it, the first question is not marked: the breakpoint goes to the block
  before it, although the header of the source file puts it on that last block.\<close>

lemma auto_breakpoint_before_question:
  assumes "cacheable s" "\<not> is_current_turn_input s" "is_current_turn_input u"
  shows "auto_target [s, u] = Some 0"
  using assms by (simp add: auto_target_def)

end
