(* ===== verification/PromptCache.thy ===== *)
theory PromptCache
  imports PromptBlocks EventHeader UpstreamErrors
begin

text \<open>
  The cache usage of a request (\<open>compute_cache_usage\<close> and \<open>compute_cache_usage_sync\<close> of
  \<open>src/anthropic/cache_metering.rs\<close>): the hash of every prefix of the prompt, the lookup from every
  breakpoint, the recording of every breakpoint, and the usage that comes of it.  The functions thread
  the table and the number of clock readings made so far; the readings themselves are the function
  \<open>clock\<close>.  The asynchronous version also threads the state of an optional shared store.  SHA-256, the
  JSON parser and UUIDs are of crates and are fields of \<open>cache_env\<close>.
\<close>

section \<open>Session seed\<close>

record cache_env =
  prompt :: prompt_env
  sha256 :: "u8 list \<Rightarrow> u8 list"
  parse_json :: "string \<Rightarrow> json option"
  uuid_v5_oid :: "string \<Rightarrow> string"
  clock :: "nat \<Rightarrow> int"
  select_nth :: selector

definition hex_digit :: "nat \<Rightarrow> char" where
  "hex_digit n = (if n < 10 then char_of (48 + n) else char_of (87 + n))"

definition lower_hex :: "u8 list \<Rightarrow> string" where
  "lower_hex bs = concat (map (\<lambda>b. [hex_digit (unat b div 16), hex_digit (unat b mod 16)]) bs)"

text \<open>What of a block goes into the derived conversation id.\<close>

definition derived_part :: "json \<Rightarrow> string" where
  "derived_part block =
     (case get_str block ''text'' of
        Some t \<Rightarrow> t
      | None \<Rightarrow>
          (case (case json_get block ''source'' of Some src \<Rightarrow> get_str src ''data'' | None \<Rightarrow> None) of
             Some d \<Rightarrow> d
           | None \<Rightarrow> (case get_str block ''type'' of Some t \<Rightarrow> t | None \<Rightarrow> [])))"

definition derive_conversation_id :: "cache_env \<Rightarrow> messages_request \<Rightarrow> string" where
  "derive_conversation_id env req =
     (let nul = [CHR 0x00];
          head = ''kiro-rs.derived-conversation.v1'' @ nul;
          sys = concat (map (\<lambda>s. sys_text s @ nul) (case system req of Some ss \<Rightarrow> ss | None \<Rightarrow> []));
          first =
            (case List.find (\<lambda>m. role m = ''user'') (messages req) of
               None \<Rightarrow> []
             | Some m \<Rightarrow>
                 (case content m of
                    JString s \<Rightarrow> s @ nul
                  | JArray blocks \<Rightarrow> concat (map (\<lambda>b. derived_part b @ nul) blocks)
                  | _ \<Rightarrow> []));
          digest = lower_hex (sha256 env (bytes_of_string (head @ sys @ [CHR 0x01] @ first)))
      in uuid_v5_oid env digest)"

text \<open>\<open>split_once(pattern)\<close>, the part behind the first occurrence.\<close>

definition after_first :: "string \<Rightarrow> string \<Rightarrow> string option" where
  "after_first p s = map_option (\<lambda>i. drop (i + length p) s) (str_find p s)"

definition nonempty :: "string option \<Rightarrow> string option" where
  "nonempty v = (case v of Some s \<Rightarrow> if s = [] then None else Some s | None \<Rightarrow> None)"

definition cache_session_id :: "cache_env \<Rightarrow> string \<Rightarrow> string option" where
  "cache_session_id env uid =
     (case parse_json env uid of
        Some j \<Rightarrow> nonempty (map_option trim (get_str j ''session_id''))
      | None \<Rightarrow> nonempty (map_option trim (after_first ''session_'' uid)))"

definition request_session :: "cache_env \<Rightarrow> messages_request \<Rightarrow> string option" where
  "request_session env req =
     (case metadata req of
        None \<Rightarrow> None
      | Some m \<Rightarrow> (case user_id m of None \<Rightarrow> None | Some uid \<Rightarrow> cache_session_id env uid))"

definition isolation_seed :: "cache_env \<Rightarrow> messages_request \<Rightarrow> u64 \<Rightarrow> string option" where
  "isolation_seed env req key_id =
     (case request_session env req of
        Some s \<Rightarrow>
          if key_id = 0 then Some (''sess:'' @ s)
          else Some (''key:'' @ decimal (unat key_id) @ '':sess:'' @ s)
      | None \<Rightarrow>
          if key_id = 0 then Some (''derived:'' @ derive_conversation_id env req)
          else Some (''key:'' @ decimal (unat key_id)))"

section \<open>Prefix hashes\<close>

definition option_value :: "('a \<Rightarrow> json) \<Rightarrow> 'a option \<Rightarrow> json" where
  "option_value f v = (case v of Some x \<Rightarrow> f x | None \<Rightarrow> JNull)"

definition request_global_cache_context :: "cache_env \<Rightarrow> messages_request \<Rightarrow> string" where
  "request_global_cache_context env req =
     to_json_string (prompt env) (JObject
       [(''model'', JString (req_model req)),
        (''output_config'', option_value (\<lambda>c. JObject [(''effort'', JString (effort c))]) (output_config req)),
        (''thinking'', option_value
           (\<lambda>t. JObject [(''budget_tokens'', JInt (budget_tokens t)), (''type'', JString (thinking_type t))])
           (thinking req)),
        (''tool_choice'', option_value id (tool_choice req))])"

definition hash_frame :: "string \<Rightarrow> u8 list \<Rightarrow> u8 list" where
  "hash_frame bytes hasher = hasher @ be_bytes 8 (length bytes) @ bytes_of_string bytes"

definition digest_u64 :: "cache_env \<Rightarrow> u8 list \<Rightarrow> u64" where
  "digest_u64 env hasher = from_be_bytes (take 8 (sha256 env hasher))"

fun cum_hashes :: "cache_env \<Rightarrow> u8 list \<Rightarrow> prompt_block list \<Rightarrow> u64 list" where
  "cum_hashes env hasher [] = []"
| "cum_hashes env hasher (b # bs) =
     (let hasher = hash_frame (signature b) hasher in digest_u64 env hasher # cum_hashes env hasher bs)"

fun cum_tokens :: "u32 \<Rightarrow> prompt_block list \<Rightarrow> u32 list" where
  "cum_tokens acc [] = []"
| "cum_tokens acc (b # bs) = (let acc = sat_add acc (pb_tokens b) in acc # cum_tokens acc bs)"

definition hash_start :: "cache_env \<Rightarrow> string \<Rightarrow> messages_request \<Rightarrow> u8 list" where
  "hash_start env seed req = hash_frame (request_global_cache_context env req) (hash_frame seed [])"

section \<open>Usage, local table only\<close>

definition one_hour_creation_estimate :: "breakpoint list \<Rightarrow> u32 list \<Rightarrow> u32 \<Rightarrow> int" where
  "one_hour_creation_estimate bps toks cache_read =
     (let longest = fold max (map (\<lambda>p. toks ! block_idx p) (filter (\<lambda>p. bp_ttl_secs p = MAX_TTL_SECS) bps)) 0
      in min i32_max (uint (sat_sub longest cache_read)))"

text \<open>A total with nothing read or covered.\<close>

definition uncached_usage :: "u32 \<Rightarrow> cache_usage" where
  "uncached_usage total_est = default_cache_usage\<lparr>prompt_total_est := sint total_est\<rparr>"

definition cached_usage :: "breakpoint list \<Rightarrow> u32 list \<Rightarrow> u32 \<Rightarrow> u32 \<Rightarrow> cache_usage" where
  "cached_usage bps toks total_est max_read =
     (let covered = (if bps = [] then 0 else toks ! block_idx (last bps)) in
      \<lparr>cu_cache_read = sint max_read, cache_covered_est = sint covered, prompt_total_est = sint total_est,
       read_limit_percent = None, cache_creation_1h_est = one_hour_creation_estimate bps toks max_read\<rparr>)"

type_synonym meter_world = "cache_meter \<times> nat"

definition probe_now :: "cache_env \<Rightarrow> u64 \<Rightarrow> meter_world \<Rightarrow> lookup_outcome_kind \<times> meter_world" where
  "probe_now env hash w = (let (c, n) = w; (r, c) = probe_outcome (clock env n) hash c in (r, c, Suc n))"

definition record_now :: "cache_env \<Rightarrow> u64 \<Rightarrow> u32 \<Rightarrow> int \<Rightarrow> meter_world \<Rightarrow> meter_world" where
  "record_now env hash tokens ttl w =
     (let (c, n) = w in (record_entry (select_nth env) (clock env n) hash tokens ttl c, Suc n))"

definition note_now :: "lookup_outcome_kind \<Rightarrow> meter_world \<Rightarrow> meter_world" where
  "note_now r w = (let (c, n) = w in (note_lookup r c, n))"

text \<open>The lookup of a breakpoint, from the positions still to check: the tokens of the first hit, and what
  the probe of the breakpoint itself answered.\<close>

fun look_back ::
  "cache_env \<Rightarrow> u64 list \<Rightarrow> nat \<Rightarrow> nat list \<Rightarrow> lookup_outcome_kind \<Rightarrow> meter_world \<Rightarrow>
   u32 option \<times> lookup_outcome_kind \<times> meter_world" where
  "look_back env hashes bp [] deepest w = (None, deepest, w)"
| "look_back env hashes bp (i # is) deepest w =
     (let (r, w) = probe_now env (hashes ! i) w; deepest = (if i = bp then r else deepest) in
      case r of
        Hit tokens \<Rightarrow> (Some tokens, deepest, w)
      | _ \<Rightarrow> look_back env hashes bp is deepest w)"

text \<open>The positions a breakpoint checks, the deepest first.\<close>

definition lookback_range :: "prompt_block list \<Rightarrow> nat \<Rightarrow> nat list" where
  "lookback_range blocks bp = rev [lookback_start_index blocks bp ..< Suc bp]"

fun lookup_breakpoints ::
  "cache_env \<Rightarrow> prompt_block list \<Rightarrow> u64 list \<Rightarrow> breakpoint list \<Rightarrow> u32 \<Rightarrow> meter_world \<Rightarrow> u32 \<times> meter_world" where
  "lookup_breakpoints env blocks hashes [] max_read w = (max_read, w)"
| "lookup_breakpoints env blocks hashes (p # ps) max_read w =
     (let (hit, deepest, w) =
            look_back env hashes (block_idx p) (lookback_range blocks (block_idx p)) Absent w;
          (max_read, w) =
            (case hit of
               Some tokens \<Rightarrow> (max max_read tokens, note_now (Hit tokens) w)
             | None \<Rightarrow> (max_read, note_now deepest w))
      in lookup_breakpoints env blocks hashes ps max_read w)"

definition record_breakpoints ::
  "cache_env \<Rightarrow> u64 list \<Rightarrow> u32 list \<Rightarrow> breakpoint list \<Rightarrow> meter_world \<Rightarrow> meter_world" where
  "record_breakpoints env hashes toks bps w =
     fold (\<lambda>p. record_now env (hashes ! block_idx p) (toks ! block_idx p) (bp_ttl_secs p)) bps w"

definition compute_cache_usage_sync ::
  "cache_env \<Rightarrow> messages_request \<Rightarrow> u64 \<Rightarrow> meter_world \<Rightarrow> cache_usage \<times> meter_world" where
  "compute_cache_usage_sync env req key_id w =
     (let (c, n) = w in
      if \<not> meter_enabled c then (default_cache_usage, w)
      else
        let blocks = extract_blocks (prompt env) req in
        if blocks = [] then (default_cache_usage, w)
        else
          let total_est = sum_list (map pb_tokens blocks);
              bps = resolve_breakpoints blocks (cache_control req) in
          if bps = [] then (uncached_usage total_est, note_miss_no_breakpoint c, n)
          else
            case isolation_seed env req key_id of
              None \<Rightarrow> (uncached_usage total_est, note_miss_no_seed c, n)
            | Some seed \<Rightarrow>
                let hashes = cum_hashes env (hash_start env seed req) blocks;
                    toks = cum_tokens 0 blocks;
                    (max_read, w) = lookup_breakpoints env blocks hashes bps 0 w;
                    w = record_breakpoints env hashes toks bps w
                in (cached_usage bps toks total_est max_read, w))"

section \<open>Usage, with a shared store\<close>

text \<open>\<open>RemoteCacheStore\<close>; each operation may change the store's state and may fail to answer.\<close>

record 'r remote_store =
  remote_lookup :: "u64 \<Rightarrow> 'r \<Rightarrow> u32 option \<times> 'r"
  remote_record :: "u64 \<Rightarrow> u32 \<Rightarrow> int \<Rightarrow> 'r \<Rightarrow> 'r"
  remote_lock :: "u64 \<Rightarrow> nat \<Rightarrow> 'r \<Rightarrow> bool \<times> 'r"

type_synonym 'r shared_world = "meter_world \<times> 'r"

definition check_position ::
  "cache_env \<Rightarrow> 'r remote_store option \<Rightarrow> int \<Rightarrow> u64 \<Rightarrow> 'r shared_world \<Rightarrow>
   u32 option \<times> lookup_outcome_kind option \<times> 'r shared_world" where
  "check_position env remote ttl hash w =
     (let (m, s) = w;
          (hit, m, s) =
            (case remote of
               None \<Rightarrow> (None, m, s)
             | Some r \<Rightarrow>
                 (case remote_lookup r hash s of
                    (Some tokens, s) \<Rightarrow> (Some tokens, record_now env hash tokens ttl m, s)
                  | (None, s) \<Rightarrow> (None, m, s)))
      in case hit of
           Some tokens \<Rightarrow> (Some tokens, None, m, s)
         | None \<Rightarrow>
             let (r, m) = probe_now env hash m in
             (case r of Hit tokens \<Rightarrow> Some tokens | _ \<Rightarrow> None, Some r, m, s))"

fun look_back_shared ::
  "cache_env \<Rightarrow> 'r remote_store option \<Rightarrow> int \<Rightarrow> u64 list \<Rightarrow> nat \<Rightarrow> nat list \<Rightarrow> lookup_outcome_kind \<Rightarrow>
   'r shared_world \<Rightarrow> u32 option \<times> lookup_outcome_kind \<times> 'r shared_world" where
  "look_back_shared env remote ttl hashes bp [] deepest w = (None, deepest, w)"
| "look_back_shared env remote ttl hashes bp (i # is) deepest w =
     (let (hit, probed, w) = check_position env remote ttl (hashes ! i) w;
          deepest = (case probed of Some r \<Rightarrow> if i = bp then r else deepest | None \<Rightarrow> deepest) in
      case hit of
        Some tokens \<Rightarrow> (Some tokens, deepest, w)
      | None \<Rightarrow> look_back_shared env remote ttl hashes bp is deepest w)"

fun lookup_breakpoints_shared ::
  "cache_env \<Rightarrow> 'r remote_store option \<Rightarrow> prompt_block list \<Rightarrow> u64 list \<Rightarrow> breakpoint list \<Rightarrow> u32 \<Rightarrow>
   'r shared_world \<Rightarrow> u32 \<times> 'r shared_world" where
  "lookup_breakpoints_shared env remote blocks hashes [] max_read w = (max_read, w)"
| "lookup_breakpoints_shared env remote blocks hashes (p # ps) max_read w =
     (let (hit, deepest, m, s) =
            look_back_shared env remote (bp_ttl_secs p) hashes (block_idx p)
              (lookback_range blocks (block_idx p)) Absent w;
          (max_read, m) =
            (case hit of
               Some tokens \<Rightarrow> (max max_read tokens, note_now (Hit tokens) m)
             | None \<Rightarrow> (max_read, note_now deepest m))
      in lookup_breakpoints_shared env remote blocks hashes ps max_read (m, s))"

definition record_shared ::
  "cache_env \<Rightarrow> 'r remote_store option \<Rightarrow> u64 \<Rightarrow> u32 \<Rightarrow> int \<Rightarrow> 'r shared_world \<Rightarrow> 'r shared_world" where
  "record_shared env remote hash tokens ttl w =
     (let (m, s) = w; m = record_now env hash tokens ttl m in
      case remote of
        None \<Rightarrow> (m, s)
      | Some r \<Rightarrow> let (_, s) = remote_lock r hash 1500 s in (m, remote_record r hash tokens ttl s))"

definition record_breakpoints_shared ::
  "cache_env \<Rightarrow> 'r remote_store option \<Rightarrow> u64 list \<Rightarrow> u32 list \<Rightarrow> breakpoint list \<Rightarrow> 'r shared_world \<Rightarrow> 'r shared_world" where
  "record_breakpoints_shared env remote hashes toks bps w =
     fold (\<lambda>p. record_shared env remote (hashes ! block_idx p) (toks ! block_idx p) (bp_ttl_secs p)) bps w"

definition compute_cache_usage ::
  "cache_env \<Rightarrow> 'r remote_store option \<Rightarrow> messages_request \<Rightarrow> u64 \<Rightarrow> 'r shared_world \<Rightarrow>
   cache_usage \<times> 'r shared_world" where
  "compute_cache_usage env remote req key_id w =
     (let ((c, n), s) = w in
      if \<not> meter_enabled c then (default_cache_usage, w)
      else
        let blocks = extract_blocks (prompt env) req in
        if blocks = [] then (default_cache_usage, w)
        else
          let total_est = sum_list (map pb_tokens blocks);
              bps = resolve_breakpoints blocks (cache_control req) in
          if bps = [] then (uncached_usage total_est, (note_miss_no_breakpoint c, n), s)
          else
            case isolation_seed env req key_id of
              None \<Rightarrow> (uncached_usage total_est, (note_miss_no_seed c, n), s)
            | Some seed \<Rightarrow>
                let hashes = cum_hashes env (hash_start env seed req) blocks;
                    toks = cum_tokens 0 blocks;
                    (max_read, w) = lookup_breakpoints_shared env remote blocks hashes bps 0 w;
                    w = record_breakpoints_shared env remote hashes toks bps w
                in (cached_usage bps toks total_est max_read, w))"

section \<open>A shared store that does not answer\<close>

definition silent :: "'r remote_store option \<Rightarrow> bool" where
  "silent remote \<longleftrightarrow> (\<forall>r h s. remote = Some r \<longrightarrow> fst (remote_lookup r h s) = None)"

lemma check_position_silent:
  assumes "silent remote"
  shows "\<exists>s'. check_position env remote ttl hash (m, s) =
    (let (r, m') = probe_now env hash m in (case r of Hit tokens \<Rightarrow> Some tokens | _ \<Rightarrow> None, Some r, m', s'))"
proof (cases remote)
  case None
  then show ?thesis by (intro exI [of _ s]) (simp add: check_position_def Let_def split: prod.split)
next
  case (Some r)
  obtain x s' where lookup: "remote_lookup r hash s = (x, s')" by (cases "remote_lookup r hash s")
  with assms Some have "x = None" unfolding silent_def by (metis fst_conv)
  with Some lookup show ?thesis
    by (intro exI [of _ s']) (simp add: check_position_def Let_def split: prod.split)
qed

lemma look_back_silent:
  assumes "silent remote"
  shows "\<exists>s'. look_back_shared env remote ttl hashes bp is d (m, s) =
    (let (hit, d', m') = look_back env hashes bp is d m in (hit, d', m', s'))"
proof (induction "is" arbitrary: d m s)
  case (Cons i "is")
  obtain s' where check: "check_position env remote ttl (hashes ! i) (m, s) =
      (let (r, m') = probe_now env (hashes ! i) m in (case r of Hit tokens \<Rightarrow> Some tokens | _ \<Rightarrow> None, Some r, m', s'))"
    using check_position_silent [OF assms] by blast
  obtain r m' where probe: "probe_now env (hashes ! i) m = (r, m')" by (cases "probe_now env (hashes ! i) m")
  from Cons.IH show ?case by (cases r) (simp_all add: check probe Let_def)
qed simp

lemma lookup_breakpoints_silent:
  assumes "silent remote"
  shows "\<exists>s'. lookup_breakpoints_shared env remote blocks hashes ps mx (m, s) =
    (let (mx', m') = lookup_breakpoints env blocks hashes ps mx m in (mx', m', s'))"
proof (induction ps arbitrary: mx m s)
  case (Cons p ps)
  let ?r = "lookback_range blocks (block_idx p)"
  obtain hit d m' where local: "look_back env hashes (block_idx p) ?r Absent m = (hit, d, m')"
    by (cases "look_back env hashes (block_idx p) ?r Absent m") auto
  obtain s' where "look_back_shared env remote (bp_ttl_secs p) hashes (block_idx p) ?r Absent (m, s) = (hit, d, m', s')"
    using look_back_silent [OF assms, of env "bp_ttl_secs p" hashes "block_idx p" ?r Absent m s] local by auto
  with Cons.IH show ?case
    by (cases hit) (simp_all add: local Let_def)
qed simp

lemma record_breakpoints_silent:
  "\<exists>s'. record_breakpoints_shared env remote hashes toks ps (m, s) = (record_breakpoints env hashes toks ps m, s')"
proof (induction ps arbitrary: m s)
  case (Cons p ps)
  obtain s' where "record_shared env remote (hashes ! block_idx p) (toks ! block_idx p) (bp_ttl_secs p) (m, s) =
      (record_now env (hashes ! block_idx p) (toks ! block_idx p) (bp_ttl_secs p) m, s')"
    by (cases remote) (auto simp: record_shared_def Let_def case_prod_beta)
  with Cons.IH show ?case by (simp add: record_breakpoints_shared_def record_breakpoints_def)
qed (simp add: record_breakpoints_shared_def record_breakpoints_def)

text \<open>A shared store that answers no lookup, because there is none, it fails or it times out, leaves the
  usage and the local table exactly as they are without it.\<close>

lemma silent_store_degrades:
  assumes "silent remote"
  shows "\<exists>s'. compute_cache_usage env remote req key_id (m, s) =
    (let (u, m') = compute_cache_usage_sync env req key_id m in (u, m', s'))"
proof -
  obtain c n where m: "m = (c, n)" by (cases m)
  let ?blocks = "extract_blocks (prompt env) req"
  let ?bps = "resolve_breakpoints ?blocks (cache_control req)"
  show ?thesis
  proof (cases "meter_enabled c \<and> ?blocks \<noteq> [] \<and> ?bps \<noteq> [] \<and> isolation_seed env req key_id \<noteq> None")
    case False
    then show ?thesis
      by (auto simp: compute_cache_usage_def compute_cache_usage_sync_def m Let_def split: option.split)
  next
    case True
    then obtain seed where seed: "isolation_seed env req key_id = Some seed" by auto
    let ?hashes = "cum_hashes env (hash_start env seed req) ?blocks"
    obtain mx m' where local: "lookup_breakpoints env ?blocks ?hashes ?bps 0 (c, n) = (mx, m')"
      by (cases "lookup_breakpoints env ?blocks ?hashes ?bps 0 (c, n)")
    obtain s' where "lookup_breakpoints_shared env remote ?blocks ?hashes ?bps 0 ((c, n), s) = (mx, m', s')"
      using lookup_breakpoints_silent [OF assms, of env ?blocks ?hashes ?bps 0 "(c, n)" s] local by auto
    moreover obtain s'' where "record_breakpoints_shared env remote ?hashes (cum_tokens 0 ?blocks) ?bps (m', s') =
        (record_breakpoints env ?hashes (cum_tokens 0 ?blocks) ?bps m', s'')"
      using record_breakpoints_silent [of env remote ?hashes "cum_tokens 0 ?blocks" ?bps m' s'] by auto
    ultimately show ?thesis
      using True local by (simp add: compute_cache_usage_def compute_cache_usage_sync_def m seed Let_def)
  qed
qed

text \<open>Without a shared store the two computations of the source agree, so that what is shown of
  \<open>compute_cache_usage_sync\<close> (which only its tests call) holds of \<open>compute_cache_usage\<close>, which the handlers call.\<close>

lemma usage_without_store:
  "compute_cache_usage env (None :: unit remote_store option) req key_id (m, ()) =
    (let (u, m') = compute_cache_usage_sync env req key_id m in (u, m', ()))"
  using silent_store_degrades [of "None :: unit remote_store option" env req key_id m "()"] by (simp add: silent_def)


section \<open>What a prefix hash is a hash of\<close>

definition frames :: "string list \<Rightarrow> u8 list" where
  "frames xs = concat (map (\<lambda>x. hash_frame x []) xs)"

text \<open>The bytes hashed for the prefix that ends at position \<open>i\<close>.\<close>

definition prefix_bytes :: "cache_env \<Rightarrow> string \<Rightarrow> messages_request \<Rightarrow> nat \<Rightarrow> u8 list" where
  "prefix_bytes env seed req i =
     frames (seed # request_global_cache_context env req #
       map signature (take (Suc i) (extract_blocks (prompt env) req)))"

lemma frames_Nil [simp]: "frames [] = []"
  by (simp add: frames_def)

lemma frames_Cons [simp]: "frames (x # xs) = hash_frame x [] @ frames xs"
  by (simp add: frames_def)

lemma hash_frame_append: "hash_frame x h = h @ hash_frame x []"
  by (simp add: hash_frame_def)

lemma length_cum_hashes [simp]: "length (cum_hashes env h bs) = length bs"
  by (induction bs arbitrary: h) (simp_all add: Let_def)

lemma nth_cum_hashes:
  "i < length bs \<Longrightarrow> cum_hashes env h bs ! i = digest_u64 env (h @ frames (map signature (take (Suc i) bs)))"
proof (induction bs arbitrary: h i)
  case (Cons b bs)
  then show ?case
    by (cases i) (simp_all add: Let_def hash_frame_append [of "signature b" h])
qed simp

lemma prefix_hash:
  "i < length (extract_blocks (prompt env) req) \<Longrightarrow>
   cum_hashes env (hash_start env seed req) (extract_blocks (prompt env) req) ! i =
     digest_u64 env (prefix_bytes env seed req i)"
  by (simp add: nth_cum_hashes prefix_bytes_def hash_start_def
      hash_frame_append [of "request_global_cache_context env req" "hash_frame seed []"])

lemma be_bytes_inj: "be_bytes k m = be_bytes k n \<Longrightarrow> m < 256 ^ k \<Longrightarrow> n < 256 ^ k \<Longrightarrow> m = n"
  by (metis be_nat_be_bytes mod_less)

lemma bytes_of_string_inj: "bytes_of_string s = bytes_of_string t \<longleftrightarrow> s = t"
  by (metis string_of_bytes_of_string)

definition short :: "string \<Rightarrow> bool" where
  "short s \<longleftrightarrow> length s < 2 ^ 64"

text \<open>Length-prefixed frames can be read back.\<close>

lemma frames_inj:
  "list_all short xs \<Longrightarrow> list_all short ys \<Longrightarrow> frames xs = frames ys \<Longrightarrow> xs = ys"
proof (induction xs arbitrary: ys)
  case Nil
  then show ?case by (cases ys) (auto simp: hash_frame_def dest: arg_cong [of _ _ length])
next
  case (Cons x xs)
  show ?case
  proof (cases ys)
    case Nil
    with Cons.prems show ?thesis by (auto simp: hash_frame_def dest: arg_cong [of _ _ length])
  next
    case (Cons y ys')
    have eq: "be_bytes 8 (length x) @ bytes_of_string x @ frames xs = be_bytes 8 (length y) @ bytes_of_string y @ frames ys'"
      using Cons.prems(3) Cons by (simp add: hash_frame_def)
    then have "be_bytes 8 (length x) = be_bytes 8 (length y)"
      and rest: "bytes_of_string x @ frames xs = bytes_of_string y @ frames ys'"
      by (simp_all add: append_eq_append_conv)
    then have "length x = length y"
      using Cons.prems(1,2) Cons be_bytes_inj [of 8] by (simp add: short_def)
    with rest have "x = y" "frames xs = frames ys'"
      by (simp_all add: append_eq_append_conv bytes_of_string_inj)
    then show ?thesis using Cons.IH [of ys'] Cons.prems(1,2) Cons by simp
  qed
qed


lemma colon_notin_decimal: "CHR '':'' \<notin> set (decimal n)"
proof (induction n rule: decimal.induct)
  case (1 n)
  have digit: "digit_char d \<noteq> CHR '':''" if "d < 10" for d
  proof
    assume "digit_char d = CHR '':''"
    moreover have "digit_value CHR '':'' = None" by (simp add: digit_value_def)
    ultimately show False using digit_value_char [OF that] by simp
  qed
  show ?case
  proof (cases "n < 10")
    case True
    then show ?thesis using digit [of n] by (simp add: decimal.simps)
  next
    case False
    then show ?thesis using digit [of "n mod 10"] 1 by (simp add: decimal.simps [of n])
  qed
qed

definition ends_number :: "string \<Rightarrow> bool" where
  "ends_number X \<longleftrightarrow> (X = [] \<or> hd X = CHR '':'')"

lemma decimal_prefix_inj:
  fixes a b :: u64
  assumes "decimal (unat a) @ X = decimal (unat b) @ Y" "ends_number X" "ends_number Y"
  shows "a = b \<and> X = Y"
proof -
  have number: "takeWhile (\<lambda>c. c \<noteq> CHR '':'') (decimal n @ Z) = decimal n" if "ends_number Z" for n Z
  proof -
    have "takeWhile (\<lambda>c. c \<noteq> CHR '':'') Z = []" using that by (cases Z) (auto simp: ends_number_def)
    then show ?thesis using colon_notin_decimal [of n] by (auto simp: takeWhile_append)
  qed
  have "decimal (unat a) = decimal (unat b)"
    using number [OF assms(2), of "unat a"] number [OF assms(3), of "unat b"] assms(1) by simp
  moreover have "parse_digits 0 (decimal (unat x)) = Some (unat x)" for x :: u64
    using unsigned_less [of x] by (intro parse_digits_decimal) simp
  ultimately have "unat a = unat b" by (metis option.inject)
  then have "of_nat (unat a) = (of_nat (unat b) :: u64)" by (rule arg_cong)
  then have "a = b" by simp
  with assms(1) show ?thesis by simp
qed

lemma isolation_seed_inj:
  assumes "isolation_seed env r1 k1 = Some s" "isolation_seed env r2 k2 = Some s"
  shows "k1 = k2 \<and> request_session env r1 = request_session env r2"
proof -
  define tail where "tail r = (case request_session env r of Some s \<Rightarrow> '':sess:'' @ s | None \<Rightarrow> [])" for r
  have ends: "ends_number (tail r)" for r
    by (simp add: tail_def ends_number_def split: option.split)
  have seed: "isolation_seed env r k = Some ((if k = 0 then (case request_session env r of
      Some s \<Rightarrow> ''sess:'' @ s | None \<Rightarrow> ''derived:'' @ derive_conversation_id env r)
    else ''key:'' @ decimal (unat k) @ tail r))" for r k
    by (simp add: isolation_seed_def tail_def split: option.split)
  show ?thesis
  proof (cases "k1 = 0 \<or> k2 = 0")
    case True
    with assms show ?thesis by (auto simp: seed split: option.splits if_splits)
  next
    case False
    with assms have "''key:'' @ decimal (unat k1) @ tail r1 = ''key:'' @ decimal (unat k2) @ tail r2" by (simp add: seed)
    then have "decimal (unat k1) @ tail r1 = decimal (unat k2) @ tail r2" by simp
    then have "k1 = k2" "tail r1 = tail r2" using decimal_prefix_inj ends by blast+
    then show ?thesis by (auto simp: tail_def split: option.splits)
  qed
qed

lemma prefix_bytes_determine:
  assumes seeds: "isolation_seed env r1 k1 = Some s1" "isolation_seed env r2 k2 = Some s2"
    and short: "list_all short (s1 # request_global_cache_context env r1 # map signature (extract_blocks (prompt env) r1))"
      "list_all short (s2 # request_global_cache_context env r2 # map signature (extract_blocks (prompt env) r2))"
    and bytes: "prefix_bytes env s1 r1 i = prefix_bytes env s2 r2 j"
  shows "k1 = k2 \<and> request_session env r1 = request_session env r2 \<and>
      request_global_cache_context env r1 = request_global_cache_context env r2 \<and>
      map signature (take (Suc i) (extract_blocks (prompt env) r1)) =
        map signature (take (Suc j) (extract_blocks (prompt env) r2))"
proof -
  have "list_all short (map signature (take n bs))" if "list_all short (map signature bs)"
    for n and bs :: "prompt_block list"
    using that by (auto simp: list_all_iff dest: in_set_takeD)
  with bytes have "s1 # request_global_cache_context env r1 # map signature (take (Suc i) (extract_blocks (prompt env) r1)) =
      s2 # request_global_cache_context env r2 # map signature (take (Suc j) (extract_blocks (prompt env) r2))"
    using short unfolding prefix_bytes_def by (intro frames_inj) simp_all
  then show ?thesis using isolation_seed_inj [OF seeds(1)] seeds(2) by simp
qed

section \<open>What the hashed bytes say about the prompt\<close>

text \<open>A piece of the prompt as the client sent it, without its cache marker.\<close>

datatype prompt_piece = ToolPiece request_tool | SystemPiece string | MessagePiece string json

definition unmarked :: "json \<Rightarrow> json" where
  "unmarked v = (case v of JObject m \<Rightarrow> JObject (filter (\<lambda>(k, x). k \<noteq> ''cache_control'') m) | _ \<Rightarrow> v)"

text \<open>A text is the same piece whether it is sent as a string or as a text block.\<close>

definition message_pieces :: "request_message \<Rightarrow> prompt_piece list" where
  "message_pieces m =
     (case content m of
        JString s \<Rightarrow> [MessagePiece (role m) (JObject [(''text'', JString s), (''type'', JString ''text'')])]
      | JArray vs \<Rightarrow> map (\<lambda>v. MessagePiece (role m) (unmarked v)) vs
      | _ \<Rightarrow> [])"

definition prompt_pieces :: "messages_request \<Rightarrow> prompt_piece list" where
  "prompt_pieces req =
     (case tools req of Some ts \<Rightarrow> map (\<lambda>t. ToolPiece (t\<lparr>tool_cache_control := None\<rparr>)) ts | None \<Rightarrow> []) @
     (case system req of Some ss \<Rightarrow> map (\<lambda>s. SystemPiece (sys_text s)) ss | None \<Rightarrow> []) @
     concat (map message_pieces (kept_messages (messages req)))"

fun piece_signature :: "prompt_env \<Rightarrow> prompt_piece \<Rightarrow> string" where
  "piece_signature env (ToolPiece t) = prompt_block_signature env ''tool'' None (without_cache_control (tool_value t))"
| "piece_signature env (SystemPiece s) = prompt_block_signature env ''system'' None (JObject [(''text'', JString s)])"
| "piece_signature env (MessagePiece r v) = prompt_block_signature env ''message'' (Some r) v"

lemma without_cache_control_unmarked: "without_cache_control v = unmarked v"
  by (cases v) (simp_all add: without_cache_control_def unmarked_def map_remove_def case_prod_unfold)

lemma map_remove_insert: "map_remove k (obj_insert k v m) = map_remove k m"
  by (induction k v m rule: obj_insert.induct) (auto simp: map_remove_def)

lemma tool_value_marker:
  "without_cache_control (tool_value (t\<lparr>tool_cache_control := None\<rparr>)) = without_cache_control (tool_value t)"
proof -
  define fields where "fields = optional_field ''type'' JString (tool_type t) @
    [(''name'', JString (tool_name t)), (''description'', JString (tool_description t)),
     (''input_schema'', JObject (input_schema t))] @ optional_field ''max_uses'' JInt (max_uses t)"
  have "tool_value t = JObject (obj_of (fields @ optional_field ''cache_control'' cache_control_value (tool_cache_control t)))"
    "tool_value (t\<lparr>tool_cache_control := None\<rparr>) = JObject (obj_of fields)"
    by (simp_all add: tool_value_def fields_def optional_field_def)
  moreover have "map_remove ''cache_control'' (obj_of (fields @ optional_field ''cache_control'' f v)) =
      map_remove ''cache_control'' (obj_of fields)" for v and f :: "cache_control \<Rightarrow> json"
    by (cases v) (simp_all add: obj_of_def optional_field_def map_remove_insert)
  ultimately show ?thesis by (simp add: without_cache_control_def)
qed

lemma system_value_marker: "without_cache_control (system_value s) = JObject [(''text'', JString (sys_text s))]"
  by (cases "sys_cache_control s")
    (simp_all add: system_value_def optional_field_def obj_of_def without_cache_control_def map_remove_def)

lemma signature_value_block: "signature (value_block env r current v) = prompt_block_signature env ''message'' (Some r) (unmarked v)"
  by (simp add: value_block_def Let_def without_cache_control_unmarked split: prod.split)

lemma signature_message_blocks: "map signature (message_blocks env b m) = map (piece_signature env) (message_pieces m)"
  by (simp add: message_blocks_def message_pieces_def Let_def signature_value_block split: json.split)

lemma signature_kept_blocks:
  "map signature (kept_blocks env ms) = map (piece_signature env) (concat (map message_pieces ms))"
proof (cases ms rule: rev_cases)
  case (snoc ms' m)
  have "map signature (concat (map (message_blocks env False) ms')) =
      map (piece_signature env) (concat (map message_pieces ms'))" for ms'
    by (induction ms') (simp_all add: signature_message_blocks)
  moreover have "kept_blocks env xs = concat (map (message_blocks env False) (butlast xs)) @ message_blocks env True (last xs)"
    if "xs \<noteq> []" for xs
    using that by (cases xs) (simp_all add: kept_blocks_def)
  from this [of "ms' @ [m]"] have "kept_blocks env (ms' @ [m]) =
      concat (map (message_blocks env False) ms') @ message_blocks env True m" by simp
  ultimately show ?thesis using snoc by (simp add: signature_message_blocks)
qed (simp add: kept_blocks_def)

lemma signature_fold: "signature (snd (snd (fold prefill_breakpoint vs (n, b, x)))) = signature x"
proof (induction vs arbitrary: n b x)
  case (Cons v vs)
  obtain n' b' x' where p: "prefill_breakpoint v (n, b, x) = (n', b', x')" by (cases "prefill_breakpoint v (n, b, x)")
  then have "signature x' = signature x"
    by (auto simp: prefill_breakpoint_def Let_def split: option.splits prod.splits)
  with Cons p show ?case by simp
qed simp

lemma signature_move: "map signature (move_prefill_breakpoints dropped bs) = map signature bs"
proof (cases bs rule: rev_cases)
  case (snoc bs' b)
  then show ?thesis
    using signature_fold [of "prefill_values dropped" _ _ b]
    by (simp add: move_prefill_breakpoints_def Let_def split_beta)
qed (simp add: move_prefill_breakpoints_def)

lemma signatures: "map signature (extract_blocks env req) = map (piece_signature env) (prompt_pieces req)"
proof -
  have "map signature (map (tool_block env) ts) = map (piece_signature env) (map (\<lambda>t. ToolPiece (t\<lparr>tool_cache_control := None\<rparr>)) ts)"
    "map signature (map (system_block env) ss) = map (piece_signature env) (map (\<lambda>s. SystemPiece (sys_text s)) ss)" for ts ss
    by (simp_all add: tool_block_def system_block_def Let_def tool_value_marker system_value_marker)
  then show ?thesis
    by (simp add: extract_blocks_def prompt_pieces_def Let_def signature_move signature_kept_blocks
        split: option.split)
qed

text \<open>A printer that keeps values apart keeps pieces apart.\<close>

lemma map_of_obj_of: "map_of (obj_of kvs) = map_of (rev kvs)"
proof (induction kvs rule: rev_induct)
  case (snoc kv kvs)
  then show ?case by (cases kv) (simp add: obj_of_def)
qed (simp add: obj_of_def)

lemma map_of_optional_field: "map_of (rev (optional_field k f v)) = (case v of Some x \<Rightarrow> [k \<mapsto> f x] | None \<Rightarrow> Map.empty)"
  by (simp add: optional_field_def split: option.split)

lemma tool_value_get:
  "json_get (tool_value t) ''type'' = map_option JString (tool_type t)"
  "json_get (tool_value t) ''name'' = Some (JString (tool_name t))"
  "json_get (tool_value t) ''description'' = Some (JString (tool_description t))"
  "json_get (tool_value t) ''input_schema'' = Some (JObject (input_schema t))"
  "json_get (tool_value t) ''max_uses'' = map_option JInt (max_uses t)"
  by (simp_all add: tool_value_def json_get_def map_of_obj_of map_of_optional_field map_add_def split: option.split)

lemma without_cache_control_get: "k \<noteq> ''cache_control'' \<Longrightarrow> json_get (without_cache_control v) k = json_get v k"
  by (cases v) (simp_all add: without_cache_control_def json_get_def)

lemma tool_value_inj:
  assumes "without_cache_control (tool_value t) = without_cache_control (tool_value u)"
    and "tool_cache_control t = tool_cache_control u"
  shows "t = u"
proof -
  have g: "json_get (tool_value t) k = json_get (tool_value u) k" if "k \<noteq> ''cache_control''" for k
    using without_cache_control_get [OF that] assms(1) by metis
  have j: "map_option JString a = map_option JString b \<Longrightarrow> a = b" "map_option JInt c = map_option JInt d \<Longrightarrow> c = d" for a b c d
    by (cases a; cases b; simp) (cases c; cases d; simp)
  show ?thesis
    using g [of "''type''"] g [of "''name''"] g [of "''description''"] g [of "''input_schema''"] g [of "''max_uses''"] assms(2) j
    by (intro request_tool.equality) (simp_all add: tool_value_get)
qed

definition unmarked_piece :: "prompt_piece \<Rightarrow> bool" where
  "unmarked_piece p \<longleftrightarrow> (\<forall>t. p = ToolPiece t \<longrightarrow> tool_cache_control t = None)"

lemma prompt_pieces_unmarked: "p \<in> set (prompt_pieces req) \<Longrightarrow> unmarked_piece p"
proof -
  have "unmarked_piece q" if "q \<in> set (message_pieces m)" for q m
    using that by (cases "content m") (auto simp: message_pieces_def unmarked_piece_def)
  then show "p \<in> set (prompt_pieces req) \<Longrightarrow> ?thesis"
    by (auto simp: prompt_pieces_def unmarked_piece_def split: option.splits)
qed

lemma piece_signature_inj:
  assumes "inj (to_json_string env)" "unmarked_piece p" "unmarked_piece q" "piece_signature env p = piece_signature env q"
  shows "p = q"
  using assms
  by (cases p; cases q)
    (auto simp: prompt_block_signature_def unmarked_piece_def dest!: injD intro: tool_value_inj)

lemma map_piece_signature_inj:
  assumes "inj (to_json_string env)" "map (piece_signature env) ps = map (piece_signature env) qs"
    "\<forall>p \<in> set ps. unmarked_piece p" "\<forall>q \<in> set qs. unmarked_piece q"
  shows "ps = qs"
  using assms
  by (intro list.inj_map_strong [OF _ assms(2)]) (use piece_signature_inj in auto)

lemma global_context_inj:
  assumes "inj (to_json_string (prompt env))" "request_global_cache_context env r1 = request_global_cache_context env r2"
  shows "req_model r1 = req_model r2 \<and> thinking r1 = thinking r2 \<and>
    map_option effort (output_config r1) = map_option effort (output_config r2) \<and>
    (tool_choice r1 = tool_choice r2 \<or> {tool_choice r1, tool_choice r2} = {None, Some JNull})"
proof -
  have j: "option_value (\<lambda>c. JObject [(''effort'', JString (effort c))]) c1 = option_value (\<lambda>c. JObject [(''effort'', JString (effort c))]) c2 \<Longrightarrow>
      map_option effort c1 = map_option effort c2" for c1 c2
    by (cases c1; cases c2) (simp_all add: option_value_def)
  have t: "option_value (\<lambda>t. JObject [(''budget_tokens'', JInt (budget_tokens t)), (''type'', JString (thinking_type t))]) c1 =
      option_value (\<lambda>t. JObject [(''budget_tokens'', JInt (budget_tokens t)), (''type'', JString (thinking_type t))]) c2 \<Longrightarrow>
      c1 = c2" for c1 c2 :: "thinking_config option"
    by (cases c1; cases c2) (auto simp: option_value_def intro!: thinking_config.equality)
  have v: "option_value id c1 = option_value id c2 \<Longrightarrow> c1 = c2 \<or> {c1, c2} = {None, Some JNull}" for c1 c2
    by (cases c1; cases c2) (auto simp: option_value_def)
  define ctx where "ctx r = JObject
       [(''model'', JString (req_model r)),
        (''output_config'', option_value (\<lambda>c. JObject [(''effort'', JString (effort c))]) (output_config r)),
        (''thinking'', option_value
           (\<lambda>t. JObject [(''budget_tokens'', JInt (budget_tokens t)), (''type'', JString (thinking_type t))])
           (thinking r)),
        (''tool_choice'', option_value id (tool_choice r))]" for r :: messages_request
  have "request_global_cache_context env r = to_json_string (prompt env) (ctx r)" for r
    by (simp only: request_global_cache_context_def ctx_def)
  with assms have "ctx r1 = ctx r2" by (simp only: inj_eq)
  then
  have e: "req_model r1 = req_model r2"
    "option_value (\<lambda>c. JObject [(''effort'', JString (effort c))]) (output_config r1) =
      option_value (\<lambda>c. JObject [(''effort'', JString (effort c))]) (output_config r2)"
    "option_value (\<lambda>t. JObject [(''budget_tokens'', JInt (budget_tokens t)), (''type'', JString (thinking_type t))]) (thinking r1) =
      option_value (\<lambda>t. JObject [(''budget_tokens'', JInt (budget_tokens t)), (''type'', JString (thinking_type t))]) (thinking r2)"
    "option_value id (tool_choice r1) = option_value id (tool_choice r2)"
    by (simp_all only: ctx_def json.inject list.inject prod.inject)
  show ?thesis by (intro conjI e(1) t [OF e(3)] j [OF e(2)] v [OF e(4)])
qed

text \<open>C28: The hash of a prefix is the digest of bytes from which the client key, the session, the request's
  global settings and every piece of the prompt up to it can be read back, when the printer of JSON keeps
  different values apart. So prefixes of different keys or sessions, for different models, thinking, effort or
  tool choice, or with different tools, system texts, roles or contents are never hashed from the same bytes;
  only cache markers, which are no part of the prompt, are not seen.\<close>

theorem prefix_hashes_isolated:
  assumes seeds: "isolation_seed env r1 k1 = Some s1" "isolation_seed env r2 k2 = Some s2"
    and i: "i < length (extract_blocks (prompt env) r1)" and j: "j < length (extract_blocks (prompt env) r2)"
    and short: "list_all short (s1 # request_global_cache_context env r1 # map signature (extract_blocks (prompt env) r1))"
      "list_all short (s2 # request_global_cache_context env r2 # map signature (extract_blocks (prompt env) r2))"
    and printer: "inj (to_json_string (prompt env))"
  shows "cum_hashes env (hash_start env s1 r1) (extract_blocks (prompt env) r1) ! i = digest_u64 env (prefix_bytes env s1 r1 i) \<and>
    length (prompt_pieces r1) = length (extract_blocks (prompt env) r1) \<and>
    (prefix_bytes env s1 r1 i = prefix_bytes env s2 r2 j \<longrightarrow>
      k1 = k2 \<and> request_session env r1 = request_session env r2 \<and>
      req_model r1 = req_model r2 \<and> thinking r1 = thinking r2 \<and>
      map_option effort (output_config r1) = map_option effort (output_config r2) \<and>
      (tool_choice r1 = tool_choice r2 \<or> {tool_choice r1, tool_choice r2} = {None, Some JNull}) \<and>
      i = j \<and> take (Suc i) (prompt_pieces r1) = take (Suc j) (prompt_pieces r2))"
proof -
  have len: "length (prompt_pieces r) = length (extract_blocks (prompt env) r)" for r
    using arg_cong [OF signatures [of "prompt env" r], of length] by simp
  show ?thesis
  proof (intro conjI impI prefix_hash [OF i] len)
    assume "prefix_bytes env s1 r1 i = prefix_bytes env s2 r2 j"
    note d = prefix_bytes_determine [OF seeds short this]
    from d show "k1 = k2" "request_session env r1 = request_session env r2" by simp_all
    from d have "map (piece_signature (prompt env)) (take (Suc i) (prompt_pieces r1)) =
        map (piece_signature (prompt env)) (take (Suc j) (prompt_pieces r2))"
      by (simp only: take_map [symmetric] signatures)
    then show t: "take (Suc i) (prompt_pieces r1) = take (Suc j) (prompt_pieces r2)"
      by (rule map_piece_signature_inj [OF printer]) (auto dest!: in_set_takeD intro: prompt_pieces_unmarked)
    show "i = j" using arg_cong [OF t, of length] i j len by simp
    from d have "request_global_cache_context env r1 = request_global_cache_context env r2" by simp
    note g = global_context_inj [OF printer this]
    from g show "req_model r1 = req_model r2" "thinking r1 = thinking r2"
      "map_option effort (output_config r1) = map_option effort (output_config r2)"
      "tool_choice r1 = tool_choice r2 \<or> {tool_choice r1, tool_choice r2} = {None, Some JNull}" by simp_all
  qed
qed

end
