(* ===== verification/PromptReuse.thy ===== *)
theory PromptReuse
  imports PromptCache
begin

text \<open>
  One turn of a conversation reads what an earlier turn recorded.  The lemmas follow the two loops of
  \<open>compute_cache_usage_sync\<close> (\<open>src/anthropic/cache_metering.rs\<close>): a lookup keeps the tokens of every
  entry and renews those it hits, a recording into a table with room keeps all others.
\<close>

section \<open>Tokens are a function of the signature\<close>

lemma block_tokens_text:
  "block_tokens env (JObject [(''text'', JString s), (''type'', JString ''text'')]) = text_tokens s"
  by (simp add: block_tokens_def get_str_def json_get_def as_str_def Let_def)

text \<open>The part of a block that the signature is made of, and its tokens.\<close>

definition token_source :: "prompt_env \<Rightarrow> prompt_block \<Rightarrow> bool" where
  "token_source env b \<longleftrightarrow>
     (\<exists>sect speaker c. signature b = prompt_block_signature env sect speaker c \<and>
        pb_tokens b =
          (if sect = ''tool'' then text_tokens (to_json_string env c)
           else if sect = ''system'' then text_tokens (case get_str c ''text'' of Some s \<Rightarrow> s | None \<Rightarrow> [])
           else block_tokens env c))"

lemma system_text: "get_str (without_cache_control (system_value s)) ''text'' = Some (sys_text s)"
  by (cases "sys_cache_control s")
    (simp_all add: system_value_def optional_field_def obj_of_def without_cache_control_def map_remove_def
      get_str_def json_get_def as_str_def)

lemma token_source_tool: "token_source env (tool_block env t)"
  unfolding token_source_def
  by (rule exI [of _ "''tool''"], rule exI [of _ None], rule exI [of _ "without_cache_control (tool_value t)"])
    (simp add: tool_block_def Let_def)

lemma token_source_system: "token_source env (system_block env s)"
  unfolding token_source_def
  by (rule exI [of _ "''system''"], rule exI [of _ None], rule exI [of _ "without_cache_control (system_value s)"])
    (simp add: system_block_def Let_def system_text)

lemma token_source_value: "token_source env (value_block env speaker current v)"
  unfolding token_source_def
  by (rule exI [of _ "''message''"], rule exI [of _ "Some speaker"], rule exI [of _ "without_cache_control v"])
    (simp add: value_block_def Let_def split: prod.split)

lemma token_source_message: "b \<in> set (message_blocks env is_last m) \<Longrightarrow> token_source env b"
proof (cases "content m")
  case (JString s)
  then show "b \<in> set (message_blocks env is_last m) \<Longrightarrow> ?thesis"
    unfolding token_source_def
    by (intro exI [of _ "''message''"] exI [of _ "Some (role m)"]
        exI [of _ "JObject [(''text'', JString s), (''type'', JString ''text'')]"])
      (simp add: message_blocks_def Let_def block_tokens_text)
next
  case (JArray arr)
  then show "b \<in> set (message_blocks env is_last m) \<Longrightarrow> ?thesis"
    using token_source_value by (auto simp: message_blocks_def Let_def)
qed (simp_all add: message_blocks_def Let_def)

lemma token_source_cong:
  "signature b' = signature b \<Longrightarrow> pb_tokens b' = pb_tokens b \<Longrightarrow> token_source env b' = token_source env b"
  by (simp add: token_source_def)

lemma prefill_same:
  "(case fold prefill_breakpoint vs (n, s, b) of (n', s', b') \<Rightarrow> signature b' = signature b \<and> pb_tokens b' = pb_tokens b)"
proof (induction vs arbitrary: n s b)
  case (Cons v vs)
  obtain n' s' b' where step: "prefill_breakpoint v (n, s, b) = (n', s', b')" by (cases "prefill_breakpoint v (n, s, b)")
  then have "signature b' = signature b \<and> pb_tokens b' = pb_tokens b"
    by (auto simp: prefill_breakpoint_def Let_def split: option.splits prod.splits)
  with Cons.IH [where n = n' and s = s' and b = b'] step show ?case by (auto split: prod.splits)
qed simp

lemma token_source_moved:
  assumes base: "\<And>b. b \<in> set bs \<Longrightarrow> token_source env b" and "b \<in> set (move_prefill_breakpoints dropped bs)"
  shows "token_source env b"
proof (cases "bs = []")
  case False
  define n where "n = length (filter (\<lambda>b. pb_cache_control b \<noteq> None) bs)"
  define s where "s = list_ex (\<lambda>b. case pb_cache_control b of
                       Some cc \<Rightarrow> (validated_ttl cc = Some DEFAULT_TTL_SECS) | None \<Rightarrow> False) bs"
  obtain n' s' b' where fold: "fold prefill_breakpoint (prefill_values dropped) (n, s, last bs) = (n', s', b')"
    by (cases "fold prefill_breakpoint (prefill_values dropped) (n, s, last bs)")
  then have same: "signature b' = signature (last bs)" "pb_tokens b' = pb_tokens (last bs)"
    using prefill_same [where vs = "prefill_values dropped" and n = n and s = s and b = "last bs"] by auto
  have "b \<in> set (butlast bs) \<or> b = b'\<lparr>invalid_cache_control := invalid_cache_control b' \<or> MAX_BREAKPOINTS < n'\<rparr>"
    using assms(2) False unfolding move_prefill_breakpoints_def Let_def n_def [symmetric] s_def [symmetric]
    by (simp add: fold) blast
  then show ?thesis
  proof
    assume "b \<in> set (butlast bs)"
    then show ?thesis using base in_set_butlastD by metis
  next
    assume b: "b = b'\<lparr>invalid_cache_control := invalid_cache_control b' \<or> MAX_BREAKPOINTS < n'\<rparr>"
    have "token_source env (last bs)" using False by (intro base last_in_set)
    then show ?thesis using token_source_cong [of b "last bs"] same b by simp
  qed
qed (use assms in \<open>simp add: move_prefill_breakpoints_def\<close>)

lemma token_source_extract: "b \<in> set (extract_blocks env req) \<Longrightarrow> token_source env b"
proof -
  let ?bs = "(case tools req of Some ts \<Rightarrow> map (tool_block env) ts | None \<Rightarrow> []) @
    (case system req of Some ss \<Rightarrow> map (system_block env) ss | None \<Rightarrow> []) @ kept_blocks env (kept_messages (messages req))"
  have base: "token_source env b" if "b \<in> set ?bs" for b
    using that token_source_message
    by (auto simp: kept_blocks_def token_source_tool token_source_system split: option.splits list.splits if_splits)
  assume b: "b \<in> set (extract_blocks env req)"
  show ?thesis
  proof (cases "length (kept_messages (messages req)) = length (messages req)")
    case True
    then have "extract_blocks env req = ?bs" by (simp add: extract_blocks_def Let_def)
    with b have "b \<in> set ?bs" by (simp only:)
    then show ?thesis by (rule base)
  next
    case False
    then have "extract_blocks env req =
        move_prefill_breakpoints (drop (length (kept_messages (messages req))) (messages req)) ?bs"
      by (simp add: extract_blocks_def Let_def)
    with b have "b \<in> set (move_prefill_breakpoints (drop (length (kept_messages (messages req))) (messages req)) ?bs)"
      by (simp only:)
    then show ?thesis by (rule token_source_moved [rotated]) (rule base)
  qed
qed

lemma signature_inj:
  assumes "inj (to_json_string env)"
    "prompt_block_signature env sect speaker c = prompt_block_signature env sect' speaker' c'"
  shows "sect = sect' \<and> c = c'"
  using assms(2) by (simp add: prompt_block_signature_def inj_eq [OF assms(1)])

lemma tokens_of_signature:
  assumes inj: "inj (to_json_string env)" and "b \<in> set (extract_blocks env r)" "b' \<in> set (extract_blocks env r')"
    and "signature b = signature b'"
  shows "pb_tokens b = pb_tokens b'"
proof -
  obtain sect speaker c where b: "signature b = prompt_block_signature env sect speaker c"
    "pb_tokens b = (if sect = ''tool'' then text_tokens (to_json_string env c)
       else if sect = ''system'' then text_tokens (case get_str c ''text'' of Some s \<Rightarrow> s | None \<Rightarrow> [])
       else block_tokens env c)"
    using token_source_extract [OF assms(2)] unfolding token_source_def by blast
  obtain sect' speaker' c' where b': "signature b' = prompt_block_signature env sect' speaker' c'"
    "pb_tokens b' = (if sect' = ''tool'' then text_tokens (to_json_string env c')
       else if sect' = ''system'' then text_tokens (case get_str c' ''text'' of Some s \<Rightarrow> s | None \<Rightarrow> [])
       else block_tokens env c')"
    using token_source_extract [OF assms(3)] unfolding token_source_def by blast
  have "sect = sect' \<and> c = c'" using signature_inj [OF inj, of sect speaker c sect' speaker' c'] assms(4) b(1) b'(1) by simp
  with b(2) b'(2) show ?thesis by simp
qed

section \<open>Following the loops\<close>

text \<open>The entry of a prefix carries \<open>t\<close> tokens and outlives a reading made since \<open>n0\<close> by the default
  time to live.\<close>

definition fresh :: "cache_env \<Rightarrow> nat \<Rightarrow> u64 \<Rightarrow> u32 \<Rightarrow> cache_meter \<Rightarrow> bool" where
  "fresh env n0 h t c \<longleftrightarrow>
     (\<exists>e i. table_of c h = Some e \<and> ce_tokens e = t \<and> DEFAULT_TTL_SECS \<le> ce_ttl_secs e \<and> n0 \<le> i \<and>
        clock env i + DEFAULT_TTL_SECS \<le> ce_expires_at e)"

definition coherent :: "u64 list \<Rightarrow> u32 list \<Rightarrow> cache_meter \<Rightarrow> bool" where
  "coherent hashes toks c \<longleftrightarrow>
     (\<forall>j < length hashes. \<forall>e. table_of c (hashes ! j) = Some e \<longrightarrow> ce_tokens e = toks ! j)"

definition window :: "cache_env \<Rightarrow> nat \<Rightarrow> bool" where
  "window env n0 \<longleftrightarrow> (\<forall>i \<ge> n0. \<forall>j \<ge> n0. clock env j < clock env i + DEFAULT_TTL_SECS)"

text \<open>What a lookup leaves as it was.\<close>

definition lookup_keeps :: "cache_env \<Rightarrow> nat \<Rightarrow> meter_world \<Rightarrow> meter_world \<Rightarrow> bool" where
  "lookup_keeps env n0 w w' \<longleftrightarrow>
     (let (c, n) = w; (c', n') = w' in
      n0 \<le> n \<and> meter_inv c \<longrightarrow>
        n \<le> n' \<and> meter_inv c' \<and> meter_capacity c' = meter_capacity c \<and> meter_enabled c' = meter_enabled c \<and>
        length (entries (inner c')) = length (entries (inner c)) \<and>
        (\<forall>h t. fresh env n0 h t c \<longrightarrow> fresh env n0 h t c') \<and>
        (\<forall>hashes toks. coherent hashes toks c \<longrightarrow> coherent hashes toks c'))"

lemma lookup_keeps_refl [simp]: "lookup_keeps env n0 w w"
  by (simp add: lookup_keeps_def Let_def split: prod.split)

lemma lookup_keeps_trans:
  "lookup_keeps env n0 w w' \<Longrightarrow> lookup_keeps env n0 w' w'' \<Longrightarrow> lookup_keeps env n0 w w''"
  by (cases w; cases w'; cases w'') (auto simp: lookup_keeps_def Let_def)

lemma fresh_probe:
  assumes "fresh env n0 h t c" "n0 \<le> n"
  shows "fresh env n0 h t (snd (probe_outcome (clock env n) h' c))"
proof -
  obtain e i where e: "table_of c h = Some e" "ce_tokens e = t" "DEFAULT_TTL_SECS \<le> ce_ttl_secs e" "n0 \<le> i"
    "clock env i + DEFAULT_TTL_SECS \<le> ce_expires_at e"
    using assms(1) by (auto simp: fresh_def)
  have "DEFAULT_TTL_SECS \<le> clamp_ttl (ce_ttl_secs e)"
    using e(3) by (simp add: clamp_ttl_def DEFAULT_TTL_SECS_def MAX_TTL_SECS_def)
  with e assms(2) show ?thesis
    by (cases "h' = h \<and> clock env n < ce_expires_at e")
      (auto simp: fresh_def probe_table ideal_probe_def renew_def Let_def split: option.split)
qed

lemma coherent_probe:
  "coherent hashes toks c \<Longrightarrow> coherent hashes toks (snd (probe_outcome now h c))"
  by (auto simp: coherent_def probe_table ideal_probe_def renew_def Let_def split: option.splits if_splits)

lemma probe_enabled [simp]: "meter_enabled (snd (probe_outcome now h c)) = meter_enabled c"
  by (simp add: probe_outcome_def Let_def split: option.split)

lemma note_enabled [simp]: "meter_enabled (note_lookup r c) = meter_enabled c"
  by (cases r) (simp_all add: count_def)

lemma keeps_probe: "lookup_keeps env n0 w (snd (probe_now env h w))"
proof (cases w)
  case (Pair c n)
  have "snd (probe_now env h w) = (snd (probe_outcome (clock env n) h c), Suc n)"
    by (simp add: Pair probe_now_def split: prod.split)
  then show ?thesis
    using fresh_probe [of env n0 _ _ c n h]
    by (auto simp: lookup_keeps_def Pair meter_inv_probe coherent_probe)
qed

lemma keeps_note: "lookup_keeps env n0 w (note_now r w)"
  by (cases w) (auto simp: lookup_keeps_def note_now_def meter_inv_note_lookup fresh_def coherent_def)

lemma keeps_look_back: "lookup_keeps env n0 w (snd (snd (look_back env hashes bp is d w)))"
proof (induction "is" arbitrary: d w)
  case (Cons i "is")
  obtain r w' where probe: "probe_now env (hashes ! i) w = (r, w')" by (cases "probe_now env (hashes ! i) w")
  have first: "lookup_keeps env n0 w w'" using keeps_probe [of env n0 w "hashes ! i"] by (simp add: probe)
  show ?case
  proof (cases r)
    case (Hit tokens)
    with first show ?thesis by (simp add: probe Let_def)
  qed (use lookup_keeps_trans [OF first Cons.IH] in \<open>simp_all add: probe Let_def\<close>)
qed simp

lemma probe_hit:
  assumes "probe_now env h (c, n) = (r, w')"
  shows "tokens_of r = ideal_read (clock env n) h (table_of c)"
  using assms probe_table(1) [of "clock env n" h c] by (auto simp: probe_now_def split: prod.splits)

lemma look_back_coherent:
  assumes "look_back env hashes bp is d w = (Some t, d', w')" "n0 \<le> snd w" "meter_inv (fst w)"
    "coherent hashes toks (fst w)" "\<forall>i \<in> set is. i < length hashes"
  shows "\<exists>i \<in> set is. t = toks ! i"
  using assms
proof (induction "is" arbitrary: d w)
  case (Cons i "is")
  obtain c n where w: "w = (c, n)" by (cases w)
  obtain r c1 n1 where probe: "probe_now env (hashes ! i) w = (r, c1, n1)" by (cases "probe_now env (hashes ! i) w")
  have keeps: "lookup_keeps env n0 w (c1, n1)" using keeps_probe [of env n0 w "hashes ! i"] by (simp add: probe)
  show ?case
  proof (cases "\<exists>tokens. r = Hit tokens")
    case True
    then obtain tokens where r: "r = Hit tokens" by blast
    then have "t = tokens" using Cons.prems(1) by (simp add: probe Let_def)
    moreover have "\<exists>e. table_of c (hashes ! i) = Some e \<and> ce_tokens e = tokens"
      using probe_hit [of env "hashes ! i" c n r] probe r w
      by (auto simp: tokens_of_def ideal_read_def split: option.splits if_splits)
    ultimately show ?thesis using Cons.prems(4,5) w by (auto simp: coherent_def)
  next
    case False
    then have "look_back env hashes bp is (if i = bp then r else d) (c1, n1) = (Some t, d', w')"
      using Cons.prems(1) by (cases r) (simp_all add: probe Let_def split: if_splits)
    from Cons.IH [OF this] keeps Cons.prems(2-5) show ?thesis
      by (auto simp: lookup_keeps_def w)
  qed
qed simp

text \<open>Looking back over a fresh prefix ends in a hit on it or on a longer one.\<close>

lemma look_back_finds:
  assumes "sorted_wrt (>) is" "k \<in> set is" "\<forall>i \<in> set is. i < length hashes" "n0 \<le> snd w" "meter_inv (fst w)"
    "coherent hashes toks (fst w)" "fresh env n0 (hashes ! k) (toks ! k) (fst w)" "window env n0"
    "\<forall>i \<in> set is. k \<le> i \<longrightarrow> toks ! k \<le> toks ! i"
  shows "\<exists>t. fst (look_back env hashes bp is d w) = Some t \<and> toks ! k \<le> t"
  using assms
proof (induction "is" arbitrary: d w)
  case (Cons i "is")
  obtain c n where w: "w = (c, n)" by (cases w)
  obtain r c1 n1 where probe: "probe_now env (hashes ! i) w = (r, c1, n1)" by (cases "probe_now env (hashes ! i) w")
  have keeps: "lookup_keeps env n0 w (c1, n1)" using keeps_probe [of env n0 w "hashes ! i"] by (simp add: probe)
  have read: "tokens_of r = ideal_read (clock env n) (hashes ! i) (table_of c)"
    using probe_hit probe w by simp
  have deeper: "k \<le> i" using Cons.prems(1,2) by auto
  show ?case
  proof (cases "\<exists>tokens. r = Hit tokens")
    case True
    then obtain tokens where r: "r = Hit tokens" by blast
    then obtain e where "table_of c (hashes ! i) = Some e" "ce_tokens e = tokens"
      using read by (auto simp: tokens_of_def ideal_read_def split: option.splits if_splits)
    then have "tokens = toks ! i" using Cons.prems(3,6) w by (auto simp: coherent_def)
    with r deeper Cons.prems(9) show ?thesis by (simp add: probe Let_def)
  next
    case False
    then have miss: "tokens_of r = None" by (cases r) (simp_all add: tokens_of_def)
    have "i \<noteq> k"
    proof
      assume "i = k"
      then obtain e j where "table_of c (hashes ! i) = Some e" "n0 \<le> j" "clock env j + DEFAULT_TTL_SECS \<le> ce_expires_at e"
        using Cons.prems(7) w by (auto simp: fresh_def)
      moreover have "clock env n < clock env j + DEFAULT_TTL_SECS"
        using Cons.prems(4,8) \<open>n0 \<le> j\<close> w by (simp add: window_def)
      ultimately show False using miss read by (simp add: ideal_read_def)
    qed
    then have "k \<in> set is" using Cons.prems(2) by simp
    from Cons.IH [of "(c1, n1)" "if i = bp then r else d"] this keeps Cons.prems
    have "\<exists>t. fst (look_back env hashes bp is (if i = bp then r else d) (c1, n1)) = Some t \<and> toks ! k \<le> t"
      by (auto simp: lookup_keeps_def w)
    with False show ?thesis by (cases r) (simp_all add: probe Let_def split: if_splits)
  qed
qed simp


lemma lookback_range:
  "set (lookback_range blocks bp) = {lookback_start_index blocks bp .. bp}"
  "sorted_wrt (>) (lookback_range blocks bp)"
  by (auto simp: lookback_range_def sorted_wrt_rev atLeastLessThanSuc_atLeastAtMost simp del: upt_Suc)

lemma keeps_breakpoint:
  assumes "look_back env hashes bp is d w = (hit, d', w')"
  shows "lookup_keeps env n0 w (note_now r w')"
  using keeps_look_back [of env n0 w hashes bp "is" d] lookup_keeps_trans [OF _ keeps_note] by (simp add: assms)

lemma keeps_lookup: "lookup_keeps env n0 w (snd (lookup_breakpoints env blocks hashes ps mx w))"
proof (induction ps arbitrary: mx w)
  case (Cons p ps)
  obtain hit d w' where l: "look_back env hashes (block_idx p) (lookback_range blocks (block_idx p)) Absent w = (hit, d, w')"
    by (cases "look_back env hashes (block_idx p) (lookback_range blocks (block_idx p)) Absent w")
  show ?case
    using lookup_keeps_trans [OF keeps_breakpoint [OF l] Cons.IH] by (cases hit) (simp_all add: l Let_def)
qed simp

text \<open>What was read is at least what was read before, and the tokens of a prefix no longer than the last
  breakpoint; a breakpoint that reaches a fresh prefix reads it or more.\<close>

lemma lookup_reads:
  assumes "lookup_breakpoints env blocks hashes ps mx w = (mx', w')" "n0 \<le> snd w" "meter_inv (fst w)"
    "coherent hashes toks (fst w)" "\<forall>p \<in> set ps. block_idx p < length hashes"
  shows "mx \<le> mx' \<and> (mx' = mx \<or> (\<exists>p \<in> set ps. \<exists>i \<le> block_idx p. mx' = toks ! i)) \<and>
    (\<forall>q \<in> set ps. \<forall>k. k \<in> set (lookback_range blocks (block_idx q)) \<and> fresh env n0 (hashes ! k) (toks ! k) (fst w) \<and>
       window env n0 \<and> (\<forall>i < length hashes. k \<le> i \<longrightarrow> toks ! k \<le> toks ! i) \<longrightarrow> toks ! k \<le> mx')"
  using assms
proof (induction ps arbitrary: mx w)
  case Nil
  then show ?case by simp
next
  case (Cons p ps)
  let ?is = "lookback_range blocks (block_idx p)"
  obtain hit d w1 where l: "look_back env hashes (block_idx p) ?is Absent w = (hit, d, w1)"
    by (cases "look_back env hashes (block_idx p) ?is Absent w")
  define mx1 w2 where "mx1 = (case hit of Some t \<Rightarrow> max mx t | None \<Rightarrow> mx)"
    and "w2 = note_now (case hit of Some t \<Rightarrow> Hit t | None \<Rightarrow> d) w1"
  have rest: "lookup_breakpoints env blocks hashes ps mx1 w2 = (mx', w')"
    using Cons.prems(1) by (cases hit) (simp_all add: l mx1_def w2_def Let_def)
  have keeps: "lookup_keeps env n0 w w2" unfolding w2_def by (rule keeps_breakpoint [OF l])
  have bound: "\<forall>i \<in> set ?is. i < length hashes" using Cons.prems(5) by (auto simp: lookback_range)
  have inv: "n0 \<le> snd w2" "meter_inv (fst w2)" "coherent hashes toks (fst w2)"
    using keeps Cons.prems(2,3,4) by (auto simp: lookup_keeps_def Let_def split: prod.splits)
  have fresh2: "fresh env n0 h t (fst w2)" if "fresh env n0 h t (fst w)" for h t
    using keeps Cons.prems(2,3) that by (auto simp: lookup_keeps_def Let_def split: prod.splits)
  note ih = Cons.IH [OF rest inv]
  have hit: "hit = Some t \<Longrightarrow> \<exists>i \<le> block_idx p. t = toks ! i" for t
    using look_back_coherent [of env hashes "block_idx p" ?is Absent w t d w1 n0 toks] l Cons.prems(2,3,4) bound
    by (auto simp: lookback_range)
  have mx1: "mx \<le> mx1" "mx1 = mx \<or> (\<exists>i \<le> block_idx p. mx1 = toks ! i)"
    using hit by (auto simp: mx1_def max_def split: option.splits)
  have reach: "toks ! k \<le> mx1" if k: "k \<in> set ?is" "fresh env n0 (hashes ! k) (toks ! k) (fst w)" "window env n0"
    "\<forall>i < length hashes. k \<le> i \<longrightarrow> toks ! k \<le> toks ! i" for k
  proof -
    have "\<exists>t. fst (look_back env hashes (block_idx p) ?is Absent w) = Some t \<and> toks ! k \<le> t"
      by (rule look_back_finds [OF lookback_range(2) k(1) bound Cons.prems(2,3,4) k(2,3)]) (use k(4) bound in auto)
    then show ?thesis by (auto simp: l mx1_def le_max_iff_disj)
  qed
  show ?case
  proof (intro conjI ballI allI impI)
    show "mx \<le> mx'" using ih Cons.prems(5) mx1(1) by auto
    show "mx' = mx \<or> (\<exists>q \<in> set (p # ps). \<exists>i \<le> block_idx q. mx' = toks ! i)"
      using ih Cons.prems(5) mx1(2) by auto
  next
    fix q k assume q: "q \<in> set (p # ps)" and k: "k \<in> set (lookback_range blocks (block_idx q)) \<and>
      fresh env n0 (hashes ! k) (toks ! k) (fst w) \<and> window env n0 \<and> (\<forall>i < length hashes. k \<le> i \<longrightarrow> toks ! k \<le> toks ! i)"
    show "toks ! k \<le> mx'"
    proof (cases "q = p")
      case True
      then have "toks ! k \<le> mx1" using reach k by blast
      also have "mx1 \<le> mx'" using ih Cons.prems(5) by simp
      finally show ?thesis .
    next
      case False
      then show ?thesis using ih Cons.prems(5) q k fresh2 by auto
    qed
  qed
qed

section \<open>Recording\<close>

lemma record_now_room:
  assumes "meter_inv c" "length (entries (inner c)) < meter_capacity c"
    "record_now env h t ttl (c, n) = (c', n')"
  shows "n' = Suc n" "meter_inv c'" "meter_capacity c' = meter_capacity c" "meter_enabled c' = meter_enabled c"
    "length (entries (inner c')) \<le> Suc (length (entries (inner c)))"
    "table_of c' = (table_of c)(h \<mapsto> new_entry (clock env n) t (clamp_ttl ttl))"
proof -
  have c': "c' = record_entry (select_nth env) (clock env n) h t ttl c" and "n' = Suc n"
    using assms(3) by (simp_all add: record_now_def)
  then show "n' = Suc n" "meter_inv c'" "meter_capacity c' = meter_capacity c" "meter_enabled c' = meter_enabled c"
    using assms(1) by (simp_all add: meter_inv_record) (simp add: record_entry_def Let_def)
  show "length (entries (inner c')) \<le> Suc (length (entries (inner c)))"
    "table_of c' = (table_of c)(h \<mapsto> new_entry (clock env n) t (clamp_ttl ttl))"
    using record_with_room [OF assms(1,2), of "select_nth env" "clock env n" h t ttl]
    by (simp_all add: c' table_of_def length_insert_le)
qed

lemma fresh_record:
  assumes "table_of c' = (table_of c)(h \<mapsto> new_entry (clock env n) t (clamp_ttl ttl))" "n0 \<le> n"
    "ttl = DEFAULT_TTL_SECS \<or> ttl = MAX_TTL_SECS"
  shows "fresh env n0 h t c'" and "fresh env n0 h' t' c \<Longrightarrow> (h' = h \<Longrightarrow> t' = t) \<Longrightarrow> fresh env n0 h' t' c'"
proof -
  have ttl: "DEFAULT_TTL_SECS \<le> clamp_ttl ttl"
    using assms(3) by (auto simp: clamp_ttl_def DEFAULT_TTL_SECS_def MAX_TTL_SECS_def)
  then show new: "fresh env n0 h t c'"
    using assms(1,2) by (auto simp: fresh_def new_entry_def)
  show "fresh env n0 h' t' c'" if "fresh env n0 h' t' c" "h' = h \<Longrightarrow> t' = t"
    using that new assms(1) by (cases "h' = h") (auto simp: fresh_def)
qed

text \<open>After all breakpoints are recorded, each of them is fresh.\<close>

lemma record_breakpoints_fresh:
  assumes "meter_inv c" "length (entries (inner c)) + length ps \<le> meter_capacity c" "n0 \<le> n"
    "\<forall>p \<in> set ps. bp_ttl_secs p = DEFAULT_TTL_SECS \<or> bp_ttl_secs p = MAX_TTL_SECS"
    "\<forall>p \<in> set ps. \<forall>j < length hashes'. hashes ! block_idx p = hashes' ! j \<longrightarrow> toks ! block_idx p = toks' ! j"
    "coherent hashes' toks' c" "record_breakpoints env hashes toks ps (c, n) = (c', n')"
  shows "meter_inv c' \<and> n \<le> n' \<and> meter_enabled c' = meter_enabled c \<and> coherent hashes' toks' c' \<and>
    (\<forall>j < length hashes'. fresh env n0 (hashes' ! j) (toks' ! j) c \<or> (\<exists>p \<in> set ps. hashes ! block_idx p = hashes' ! j) \<longrightarrow>
       fresh env n0 (hashes' ! j) (toks' ! j) c')"
  using assms
proof (induction ps arbitrary: c n)
  case Nil
  then show ?case by (simp add: record_breakpoints_def)
next
  case (Cons p ps)
  let ?h = "hashes ! block_idx p" and ?t = "toks ! block_idx p"
  obtain c1 n1 where r: "record_now env ?h ?t (bp_ttl_secs p) (c, n) = (c1, n1)"
    by (cases "record_now env ?h ?t (bp_ttl_secs p) (c, n)")
  have room: "length (entries (inner c)) < meter_capacity c" using Cons.prems(2) by simp
  note step = record_now_room [OF Cons.prems(1) room r]
  have agree: "\<forall>j < length hashes'. ?h = hashes' ! j \<longrightarrow> ?t = toks' ! j" using Cons.prems(5) by simp
  have coh: "coherent hashes' toks' c1"
    using Cons.prems(6) agree step(6) by (auto simp: coherent_def new_entry_def)
  have fresh1: "fresh env n0 (hashes' ! j) (toks' ! j) c1"
    if "j < length hashes'" "fresh env n0 (hashes' ! j) (toks' ! j) c \<or> ?h = hashes' ! j" for j
    using that fresh_record [OF step(6) Cons.prems(3)] Cons.prems(4) agree by auto
  have rest: "record_breakpoints env hashes toks ps (c1, n1) = (c', n')"
    using Cons.prems(7) r by (simp add: record_breakpoints_def)
  have room': "length (entries (inner c1)) + length ps \<le> meter_capacity c1"
    using step(3,5) Cons.prems(2) by simp
  have late: "n0 \<le> n1" using step(1) Cons.prems(3) by simp
  have side: "\<forall>p \<in> set ps. bp_ttl_secs p = DEFAULT_TTL_SECS \<or> bp_ttl_secs p = MAX_TTL_SECS"
    "\<forall>p \<in> set ps. \<forall>j < length hashes'. hashes ! block_idx p = hashes' ! j \<longrightarrow> toks ! block_idx p = toks' ! j"
    using Cons.prems(4,5) by simp_all
  have ih: "meter_inv c' \<and> n1 \<le> n' \<and> meter_enabled c' = meter_enabled c1 \<and> coherent hashes' toks' c' \<and>
    (\<forall>j < length hashes'. fresh env n0 (hashes' ! j) (toks' ! j) c1 \<or> (\<exists>p \<in> set ps. hashes ! block_idx p = hashes' ! j) \<longrightarrow>
       fresh env n0 (hashes' ! j) (toks' ! j) c')"
    by (rule Cons.IH [OF step(2) room' late side coh rest])
  then show ?case using step(1,4) fresh1 by auto
qed

section \<open>Cumulative tokens\<close>

definition token_sum :: "prompt_block list \<Rightarrow> nat" where
  "token_sum bs = sum_list (map (\<lambda>b. unat (pb_tokens b)) bs)"

lemma length_cum_tokens [simp]: "length (cum_tokens acc bs) = length bs"
  by (induction bs arbitrary: acc) (simp_all add: Let_def)

lemma nth_cum_tokens:
  "i < length bs \<Longrightarrow> unat (cum_tokens acc bs ! i) = min (2 ^ 32 - 1) (unat acc + token_sum (take (Suc i) bs))"
proof (induction bs arbitrary: acc i)
  case (Cons b bs)
  have sat: "unat (sat_add acc (pb_tokens b)) = min (unat acc + unat (pb_tokens b)) (2 ^ 32 - 1)"
    using unat_sat_add [of acc "pb_tokens b"] by simp
  show ?case
  proof (cases i)
    case 0
    then show ?thesis by (simp add: Let_def token_sum_def sat min.commute)
  next
    case (Suc j)
    then have "unat (cum_tokens (sat_add acc (pb_tokens b)) bs ! j) =
        min (2 ^ 32 - 1) (unat (sat_add acc (pb_tokens b)) + token_sum (take (Suc j) bs))"
      using Cons.IH Cons.prems by simp
    then show ?thesis by (simp add: Suc Let_def token_sum_def sat min_def)
  qed
qed simp

lemma token_sum_take_mono: "i \<le> j \<Longrightarrow> token_sum (take i bs) \<le> token_sum (take j bs)"
proof -
  assume "i \<le> j"
  then have "take j bs = take i bs @ take (j - i) (drop i bs)"
    by (metis le_add_diff_inverse take_add)
  then show ?thesis by (simp add: token_sum_def)
qed

lemma token_sum_take_le: "token_sum (take i bs) \<le> token_sum bs"
  using token_sum_take_mono [of i "max i (length bs)" bs] by simp

lemma cum_tokens_mono: "i \<le> j \<Longrightarrow> j < length bs \<Longrightarrow> cum_tokens 0 bs ! i \<le> cum_tokens 0 bs ! j"
  using token_sum_take_mono [of "Suc i" "Suc j" bs]
  by (simp add: word_le_nat_alt nth_cum_tokens min.coboundedI2 min_le_iff_disj)

lemma cum_tokens_cong:
  assumes "i < length bs" "i < length bs'" "map pb_tokens (take (Suc i) bs) = map pb_tokens (take (Suc i) bs')"
  shows "cum_tokens 0 bs ! i = cum_tokens 0 bs' ! i"
proof -
  have "token_sum (take (Suc i) bs) = token_sum (take (Suc i) bs')"
    using arg_cong [OF assms(3), of "\<lambda>ts. sum_list (map unat ts)"] by (simp add: token_sum_def comp_def)
  then have "unat (cum_tokens 0 bs ! i) = unat (cum_tokens 0 bs' ! i)"
    using assms(1,2) by (simp add: nth_cum_tokens)
  then have "of_nat (unat (cum_tokens 0 bs ! i)) = (of_nat (unat (cum_tokens 0 bs' ! i)) :: u32)" by (rule arg_cong)
  then show ?thesis by simp
qed

lemma unat_total: "token_sum bs < 2 ^ 32 \<Longrightarrow> unat (sum_list (map pb_tokens bs)) = token_sum bs"
proof (induction bs)
  case (Cons b bs)
  then have "unat (pb_tokens b) + unat (sum_list (map pb_tokens bs)) < 2 ^ 32" by (simp add: token_sum_def)
  then show ?case using Cons by (simp add: token_sum_def unat_word_ariths)
qed (simp add: token_sum_def)

lemma sint_small: "unat w < 2 ^ 31 \<Longrightarrow> sint w = int (unat w)" for w :: u32
proof -
  assume "unat w < 2 ^ 31"
  then have "int (unat w) < int (2 ^ 31)" by (simp only: of_nat_less_iff)
  then have "uint w < 2 ^ 31" by simp
  then have "sint w = uint w"
    unfolding sint_uint using order_trans [OF _ uint_ge_0 [of w]] by (intro signed_take_bit_int_eq_self) simp_all
  then show ?thesis by simp
qed

section \<open>Breakpoints lie inside the prompt\<close>

lemma rposition_bound: "rposition P xs = Some i \<Longrightarrow> i < length xs"
  by (induction P xs arbitrary: i rule: rposition.induct) (auto split: option.splits if_splits)

lemma resolve_facts:
  assumes "p \<in> set (resolve_breakpoints bs top_cc)"
  shows "block_idx p < length bs" "bp_ttl_secs p = DEFAULT_TTL_SECS \<or> bp_ttl_secs p = MAX_TTL_SECS"
    "block_idx p \<le> block_idx (last (resolve_breakpoints bs top_cc))"
proof -
  have p: "p \<in> wanted bs top_cc"
    using assms resolve_breakpoints_spec [of bs top_cc] by (auto split: if_splits)
  then show "bp_ttl_secs p = DEFAULT_TTL_SECS \<or> bp_ttl_secs p = MAX_TTL_SECS" by (rule wanted_ttl)
  show "block_idx p < length bs"
    using p by (auto simp: wanted_def marked_blocks_def auto_block_def auto_target_def dest: rposition_bound split: if_splits)
  have "sorted (map block_idx (resolve_breakpoints bs top_cc))"
    using resolve_breakpoints_spec [of bs top_cc] by (simp add: strict_sorted_iff)
  moreover obtain i where i: "i < length (resolve_breakpoints bs top_cc)" "p = resolve_breakpoints bs top_cc ! i"
    using assms by (auto simp: in_set_conv_nth)
  moreover from i(1) have "resolve_breakpoints bs top_cc \<noteq> []" by auto
  ultimately show "block_idx p \<le> block_idx (last (resolve_breakpoints bs top_cc))"
    by (simp add: last_conv_nth sorted_iff_nth_mono)
qed

lemma resolve_length: "length (resolve_breakpoints bs top_cc) \<le> MAX_BREAKPOINTS"
  by (auto simp: resolve_collected not_less split: option.split)

lemma compute_cached:
  assumes "meter_enabled c" "bs = extract_blocks (prompt env) req" "bps = resolve_breakpoints bs (cache_control req)"
    "bps \<noteq> []" "isolation_seed env req key_id = Some seed" "hashes = cum_hashes env (hash_start env seed req) bs"
    "compute_cache_usage_sync env req key_id (c, n) = (u, w')"
  shows "\<exists>mx w. lookup_breakpoints env bs hashes bps 0 (c, n) = (mx, w) \<and>
    w' = record_breakpoints env hashes (cum_tokens 0 bs) bps w \<and>
    u = cached_usage bps (cum_tokens 0 bs) (sum_list (map pb_tokens bs)) mx"
proof -
  have "bs \<noteq> []" using assms(3,4) by (auto simp: resolve_breakpoints_def)
  then show ?thesis
    using assms by (auto simp: compute_cache_usage_sync_def Let_def split: prod.splits)
qed


section \<open>From one turn to the next\<close>

text \<open>The two requests as the cache sees them: the same key, session and settings, neither too long for a
  64-bit length, and no two different prefixes of theirs with the same 64-bit hash.\<close>

definition same_session :: "cache_env \<Rightarrow> u64 \<Rightarrow> string \<Rightarrow> messages_request \<Rightarrow> messages_request \<Rightarrow> bool" where
  "same_session env key_id seed r1 r2 \<longleftrightarrow>
     isolation_seed env r1 key_id = Some seed \<and> isolation_seed env r2 key_id = Some seed \<and>
     request_global_cache_context env r1 = request_global_cache_context env r2 \<and>
     (\<forall>r \<in> {r1, r2}. list_all short
        (seed # request_global_cache_context env r # map signature (extract_blocks (prompt env) r))) \<and>
     inj_on (digest_u64 env)
       {prefix_bytes env seed r i | r i. r \<in> {r1, r2} \<and> i < length (extract_blocks (prompt env) r)}"

abbreviation blocks_of :: "cache_env \<Rightarrow> messages_request \<Rightarrow> prompt_block list" where
  "blocks_of env r \<equiv> extract_blocks (prompt env) r"

abbreviation hashes_of :: "cache_env \<Rightarrow> string \<Rightarrow> messages_request \<Rightarrow> u64 list" where
  "hashes_of env seed r \<equiv> cum_hashes env (hash_start env seed r) (blocks_of env r)"

abbreviation tokens_to :: "cache_env \<Rightarrow> messages_request \<Rightarrow> u32 list" where
  "tokens_to env r \<equiv> cum_tokens 0 (blocks_of env r)"

lemma prefix_bytes_cong:
  assumes "request_global_cache_context env r1 = request_global_cache_context env r2"
    "map signature (take (Suc k) (blocks_of env r1)) = map signature (take (Suc k) (blocks_of env r2))"
  shows "prefix_bytes env seed r1 k = prefix_bytes env seed r2 k"
  using assms by (simp add: prefix_bytes_def)

lemma equal_hashes_equal_tokens:
  assumes s: "same_session env key_id seed r1 r2" and inj: "inj (to_json_string (prompt env))"
    and i: "i < length (blocks_of env r1)" and j: "j < length (blocks_of env r2)"
    and hash: "hashes_of env seed r1 ! i = hashes_of env seed r2 ! j"
  shows "tokens_to env r1 ! i = tokens_to env r2 ! j"
proof -
  have "digest_u64 env (prefix_bytes env seed r1 i) = digest_u64 env (prefix_bytes env seed r2 j)"
    using hash prefix_hash i j by simp
  then have bytes: "prefix_bytes env seed r1 i = prefix_bytes env seed r2 j"
    using s i j unfolding same_session_def by (blast dest: inj_onD)
  have seeds: "isolation_seed env r1 key_id = Some seed" "isolation_seed env r2 key_id = Some seed"
    and short: "list_all short (seed # request_global_cache_context env r1 # map signature (blocks_of env r1))"
      "list_all short (seed # request_global_cache_context env r2 # map signature (blocks_of env r2))"
    using s unfolding same_session_def by simp_all
  have sigs: "map signature (take (Suc i) (blocks_of env r1)) = map signature (take (Suc j) (blocks_of env r2))"
    using prefix_bytes_determine [OF seeds short bytes] by simp
  from arg_cong [OF this, of length] have ij: "i = j" using i j by simp
  have "map pb_tokens (take (Suc i) (blocks_of env r1)) = map pb_tokens (take (Suc i) (blocks_of env r2))"
  proof (rule nth_equalityI)
    fix n assume n: "n < length (map pb_tokens (take (Suc i) (blocks_of env r1)))"
    then have n': "n < Suc i" "n < length (blocks_of env r1)" "n < length (blocks_of env r2)"
      using i j ij by simp_all
    then have "signature (blocks_of env r1 ! n) = signature (blocks_of env r2 ! n)"
      using arg_cong [OF sigs, of "\<lambda>l. l ! n"] ij by simp
    then have "pb_tokens (blocks_of env r1 ! n) = pb_tokens (blocks_of env r2 ! n)"
      by (intro tokens_of_signature [OF inj, where r = r1 and r' = r2]) (use n' in auto)
    with n' show "map pb_tokens (take (Suc i) (blocks_of env r1)) ! n = map pb_tokens (take (Suc i) (blocks_of env r2)) ! n"
      by simp
  qed (use i j ij in simp)
  with i j ij show ?thesis by (auto intro: cum_tokens_cong)
qed

text \<open>What the first turn leaves for the second.\<close>

lemma first_turn_leaves:
  assumes s: "same_session env key_id seed r1 r2" and inj: "inj (to_json_string (prompt env))"
    and c: "meter_inv c" "meter_enabled c" "length (entries (inner c)) + MAX_BREAKPOINTS \<le> meter_capacity c"
    and coh: "coherent (hashes_of env seed r2) (tokens_to env r2) c"
    and p: "p \<in> set (resolve_breakpoints (blocks_of env r1) (cache_control r1))"
    and shared: "block_idx p < length (blocks_of env r2)"
      "map signature (take (Suc (block_idx p)) (blocks_of env r1)) = map signature (take (Suc (block_idx p)) (blocks_of env r2))"
    and run: "compute_cache_usage_sync env r1 key_id (c, n) = (u1, c1, n1)"
  shows "meter_inv c1 \<and> meter_enabled c1 \<and> n \<le> n1 \<and> coherent (hashes_of env seed r2) (tokens_to env r2) c1 \<and>
    fresh env n (hashes_of env seed r2 ! block_idx p) (tokens_to env r2 ! block_idx p) c1"
proof -
  let ?b1 = "blocks_of env r1" and ?h1 = "hashes_of env seed r1" and ?h2 = "hashes_of env seed r2"
  let ?t1 = "tokens_to env r1" and ?t2 = "tokens_to env r2"
  let ?bps = "resolve_breakpoints ?b1 (cache_control r1)"
  have seed: "isolation_seed env r1 key_id = Some seed" using s by (simp add: same_session_def)
  have "?bps \<noteq> []" using p by auto
  from compute_cached [OF c(2) refl refl this seed refl run]
  obtain mx w where l: "lookup_breakpoints env ?b1 ?h1 ?bps 0 (c, n) = (mx, w)"
    and r: "(c1, n1) = record_breakpoints env ?h1 ?t1 ?bps w" by blast
  obtain c0 n0 where w: "w = (c0, n0)" by (cases w)
  have k: "lookup_keeps env n (c, n) (c0, n0)"
    using keeps_lookup [of env n "(c, n)" ?b1 ?h1 ?bps 0] by (simp add: l w)
  then have kept: "n \<le> n0" "meter_inv c0" "meter_enabled c0" "coherent ?h2 ?t2 c0"
    "length (entries (inner c0)) + length ?bps \<le> meter_capacity c0"
    using c coh resolve_length [of ?b1 "cache_control r1"] by (auto simp: lookup_keeps_def)
  have agree: "\<forall>q \<in> set ?bps. \<forall>j < length ?h2. ?h1 ! block_idx q = ?h2 ! j \<longrightarrow> ?t1 ! block_idx q = ?t2 ! j"
    using equal_hashes_equal_tokens [OF s inj] resolve_facts(1) by simp
  have ttls: "\<forall>q \<in> set ?bps. bp_ttl_secs q = DEFAULT_TTL_SECS \<or> bp_ttl_secs q = MAX_TTL_SECS"
    using resolve_facts(2) by blast
  have recorded: "record_breakpoints env ?h1 ?t1 ?bps (c0, n0) = (c1, n1)" using r w by simp
  note rec = record_breakpoints_fresh [OF kept(2,5,1) ttls agree kept(4) recorded]
  have "?h1 ! block_idx p = ?h2 ! block_idx p"
    unfolding prefix_hash [OF resolve_facts(1) [OF p]] prefix_hash [OF shared(1)]
    using s prefix_bytes_cong [OF _ shared(2)] by (simp add: same_session_def)
  then have "fresh env n (?h2 ! block_idx p) (?t2 ! block_idx p) c1"
    using rec shared(1) p by auto
  with rec kept show ?thesis by auto
qed


lemma cum_tokens_small:
  assumes "token_sum bs < 2 ^ 31" "i < length bs"
  shows "unat (cum_tokens 0 bs ! i) = token_sum (take (Suc i) bs)"
    and "sint (cum_tokens 0 bs ! i) = int (token_sum (take (Suc i) bs))"
proof -
  show "unat (cum_tokens 0 bs ! i) = token_sum (take (Suc i) bs)"
    using nth_cum_tokens [OF assms(2), of 0] token_sum_take_le [of "Suc i" bs] assms(1) by simp
  then show "sint (cum_tokens 0 bs ! i) = int (token_sum (take (Suc i) bs))"
    using token_sum_take_le [of "Suc i" bs] assms(1) by (simp add: sint_small)
qed

text \<open>C11: A later turn of a conversation reads at least the longest prefix an earlier turn recorded, when its
  own breakpoint lies no more than twenty positions behind and the entries have not expired, and never
  more than it covers itself: the parts of the usage are in order.\<close>

theorem later_turn_reads_earlier_prefix:
  assumes "same_session env key_id seed r1 r2" "inj (to_json_string (prompt env))"
    "meter_inv c" "meter_enabled c" "length (entries (inner c)) + MAX_BREAKPOINTS \<le> meter_capacity c"
    "coherent (hashes_of env seed r2) (tokens_to env r2) c" "window env n"
    "p \<in> set (resolve_breakpoints (blocks_of env r1) (cache_control r1))"
    "q \<in> set (resolve_breakpoints (blocks_of env r2) (cache_control r2))"
    "block_idx p < length (blocks_of env r2)"
    "map signature (take (Suc (block_idx p)) (blocks_of env r1)) = map signature (take (Suc (block_idx p)) (blocks_of env r2))"
    "lookback_start_index (blocks_of env r2) (block_idx q) \<le> block_idx p" "block_idx p \<le> block_idx q"
    "token_sum (blocks_of env r2) < 2 ^ 31"
    "compute_cache_usage_sync env r1 key_id (c, n) = (u1, w1)" "compute_cache_usage_sync env r2 key_id w1 = (u2, w2)"
  shows "int (token_sum (take (Suc (block_idx p)) (blocks_of env r2))) \<le> cu_cache_read u2 \<and>
    cu_cache_read u2 \<le> cache_covered_est u2 \<and> cache_covered_est u2 \<le> prompt_total_est u2"
proof -
  let ?b = "blocks_of env r2" and ?h = "hashes_of env seed r2" and ?t = "tokens_to env r2"
  let ?bps = "resolve_breakpoints ?b (cache_control r2)"
  obtain c1 n1 where w1: "w1 = (c1, n1)" by (cases w1)
  have first: "meter_inv c1" "meter_enabled c1" "n \<le> n1" "coherent ?h ?t c1" "fresh env n (?h ! block_idx p) (?t ! block_idx p) c1"
    using first_turn_leaves [OF assms(1-6,8,10,11) assms(15) [unfolded w1]] by auto
  have seed: "isolation_seed env r2 key_id = Some seed" using assms(1) by (simp add: same_session_def)
  have ne: "?bps \<noteq> []" using assms(9) by auto
  from compute_cached [OF first(2) refl refl ne seed refl assms(16) [unfolded w1]]
  obtain mx w where l: "lookup_breakpoints env ?b ?h ?bps 0 (c1, n1) = (mx, w)"
    and u2: "u2 = cached_usage ?bps ?t (sum_list (map pb_tokens ?b)) mx" by blast
  have mono: "\<forall>i < length ?h. block_idx p \<le> i \<longrightarrow> ?t ! block_idx p \<le> ?t ! i"
    using cum_tokens_mono by simp
  have reads: "mx = 0 \<or> (\<exists>q \<in> set ?bps. \<exists>i \<le> block_idx q. mx = ?t ! i)" "?t ! block_idx p \<le> mx"
    using lookup_reads [OF l, of n ?t] first assms(7,9,12,13) resolve_facts(1) mono by (auto simp: lookback_range)
  define last_idx where "last_idx = block_idx (last ?bps)"
  have last_idx: "last_idx < length ?b" using resolve_facts(1) [OF last_in_set [OF ne]] by (simp add: last_idx_def)
  note small = cum_tokens_small [OF assms(14)]
  have read_le: "mx \<le> ?t ! last_idx"
  proof (cases "mx = 0")
    case False
    with reads(1) obtain q' i where q': "q' \<in> set ?bps" "i \<le> block_idx q'" "mx = ?t ! i" by blast
    then have "i \<le> last_idx" using order_trans [OF q'(2) resolve_facts(3) [OF q'(1)]] by (simp add: last_idx_def)
    with q'(3) show ?thesis using cum_tokens_mono [OF _ last_idx] by simp
  qed simp
  then have "unat mx \<le> token_sum (take (Suc last_idx) ?b)" using small(1) [OF last_idx] by (simp add: word_le_nat_alt)
  then have mx: "sint mx = int (unat mx)" "unat mx \<le> token_sum (take (Suc last_idx) ?b)"
    using token_sum_take_le [of "Suc last_idx" ?b] assms(14) by (simp_all add: sint_small)
  have "int (token_sum (take (Suc (block_idx p)) ?b)) \<le> cu_cache_read u2"
  proof -
    have "token_sum (take (Suc (block_idx p)) ?b) \<le> unat mx"
      using reads(2) small(1) [OF assms(10)] by (simp add: word_le_nat_alt)
    then have "int (token_sum (take (Suc (block_idx p)) ?b)) \<le> int (unat mx)" by (simp only: of_nat_le_iff)
    then show ?thesis using mx(1) by (simp add: u2 cached_usage_def)
  qed
  moreover have "cu_cache_read u2 \<le> cache_covered_est u2"
  proof -
    have "int (unat mx) \<le> int (token_sum (take (Suc last_idx) ?b))" using mx(2) by (simp only: of_nat_le_iff)
    then show ?thesis using mx(1) small(2) [OF last_idx] ne by (simp add: u2 cached_usage_def last_idx_def)
  qed
  moreover have "cache_covered_est u2 \<le> prompt_total_est u2"
  proof -
    have "unat (sum_list (map pb_tokens ?b)) = token_sum ?b" using assms(14) by (intro unat_total) simp
    then have "sint (sum_list (map pb_tokens ?b)) = int (token_sum ?b)" using assms(14) by (simp add: sint_small)
    then show ?thesis
      using small(2) [OF last_idx] ne token_sum_take_le [of "Suc last_idx" ?b]
      by (simp add: u2 cached_usage_def last_idx_def)
  qed
  ultimately show ?thesis by blast
qed

section \<open>An example\<close>

text \<open>An injective printing of JSON, in place of the crate's: every string and list is closed by a mark.\<close>

definition marked_string :: "string \<Rightarrow> string" where
  "marked_string s = concat (map (\<lambda>c. [CHR ''+'', c]) s) @ ''.''"

fun marked_json :: "json \<Rightarrow> string" where
  "marked_json JNull = ''n''"
| "marked_json (JBool b) = (if b then ''t'' else ''f'')"
| "marked_json (JInt i) = (if 0 \<le> i then ''p'' else ''m'') @ marked_string (replicate (nat \<bar>i\<bar>) CHR ''1'')"
| "marked_json (JFloat s) = ''d'' @ marked_string s"
| "marked_json (JString s) = ''s'' @ marked_string s"
| "marked_json (JArray xs) = ''a'' @ concat (map (\<lambda>x. ''+'' @ marked_json x) xs) @ ''.''"
| "marked_json (JObject m) = ''o'' @ concat (map (\<lambda>(k, v). ''+'' @ marked_string k @ marked_json v) m) @ ''.''"

lemma marked_string_inj: "marked_string s @ r = marked_string s' @ r' \<Longrightarrow> s = s' \<and> r = r'"
proof (induction s arbitrary: s')
  case Nil
  then show ?case by (cases s') (simp_all add: marked_string_def)
next
  case (Cons c s)
  show ?case
  proof (cases s')
    case Nil
    with Cons.prems show ?thesis by (simp add: marked_string_def)
  next
    case (Cons c' t)
    with Cons.prems have "c = c'" "marked_string s @ r = marked_string t @ r'"
      by (simp_all add: marked_string_def)
    with Cons.IH [of t] Cons show ?thesis by simp
  qed
qed

lemma marked_list_inj:
  assumes "\<And>x y r r'. x \<in> set xs \<Longrightarrow> f x @ r = f y @ r' \<Longrightarrow> x = y \<and> r = r'"
    "concat (map (\<lambda>x. ''+'' @ f x) xs) @ ''.'' @ r = concat (map (\<lambda>x. ''+'' @ f x) ys) @ ''.'' @ r'"
  shows "xs = ys \<and> r = r'"
  using assms
proof (induction xs arbitrary: ys)
  case Nil
  then show ?case by (cases ys) simp_all
next
  case (Cons x xs)
  show ?case
  proof (cases ys)
    case Nil
    with Cons.prems(2) show ?thesis by simp
  next
    case ys: (Cons y ys')
    with Cons.prems(2) have "f x @ concat (map (\<lambda>x. ''+'' @ f x) xs) @ ''.'' @ r =
        f y @ concat (map (\<lambda>x. ''+'' @ f x) ys') @ ''.'' @ r'" by simp
    with Cons.prems(1) have "x = y" and rest: "concat (map (\<lambda>x. ''+'' @ f x) xs) @ ''.'' @ r =
        concat (map (\<lambda>x. ''+'' @ f x) ys') @ ''.'' @ r'" by (metis list.set_intros(1))+
    with Cons.IH [OF Cons.prems(1) rest] ys show ?thesis by simp
  qed
qed

definition marked_entry :: "string \<times> json \<Rightarrow> string" where
  "marked_entry e = marked_string (fst e) @ marked_json (snd e)"

lemma marked_object: "marked_json (JObject m) = ''o'' @ concat (map (\<lambda>e. ''+'' @ marked_entry e) m) @ ''.''"
  by (auto simp: marked_entry_def intro!: arg_cong [of _ _ concat] map_cong)

declare marked_json.simps(7) [simp del]

lemma marked_json_inj: "marked_json x @ r = marked_json y @ r' \<Longrightarrow> x = y \<and> r = r'"
proof (induction x arbitrary: y r r')
  case (JInt i)
  then show ?case
    by (cases y) (auto simp: marked_object split: if_splits dest!: marked_string_inj dest: arg_cong [of _ _ length])
next
  case (JFloat s)
  then show ?case by (cases y) (auto simp: marked_object split: if_splits dest!: marked_string_inj)
next
  case (JString s)
  then show ?case by (cases y) (auto simp: marked_object split: if_splits dest!: marked_string_inj)
next
  case (JArray xs)
  then show ?case
  proof (cases y)
    case y: (JArray ys)
    have "xs = ys \<and> r = r'"
      by (rule marked_list_inj [of xs marked_json]) (use JArray y in auto)
    with y show ?thesis by simp
  qed (auto simp: marked_object split: if_splits)
next
  case (JObject m)
  then show ?case
  proof (cases y)
    case y: (JObject m')
    have entry: "e = e' \<and> t = t'" if "e \<in> set m" "marked_entry e @ t = marked_entry e' @ t'" for e e' t t'
    proof -
      obtain k v where e: "e = (k, v)" by (cases e)
      from that(2) have "fst e = fst e'" "marked_json v @ t = marked_json (snd e') @ t'"
        using marked_string_inj [of "fst e" "marked_json v @ t" "fst e'" "marked_json (snd e') @ t'"]
        by (simp_all add: marked_entry_def e)
      moreover have "v \<in> Basic_BNFs.snds (k, v)" by simp
      ultimately have "v = snd e' \<and> t = t'" by (intro JObject.IH [OF that(1)]) (simp_all add: e)
      with \<open>fst e = fst e'\<close> e show ?thesis by (simp add: prod_eq_iff)
    qed
    have "m = m' \<and> r = r'"
      by (rule marked_list_inj [of m marked_entry]) (use JObject.prems y entry in \<open>auto simp: marked_object\<close>)
    with y show ?thesis by simp
  qed (auto simp: marked_object split: if_splits)
next
  case JNull
  then show ?case by (cases y) (auto simp: marked_object split: if_splits)
next
  case (JBool b)
  then show ?case by (cases b; cases y) (auto simp: marked_object split: if_splits)
qed

lemma inj_marked_json: "inj marked_json"
  using marked_json_inj [of _ "[]" _ "[]"] by (auto intro: injI)

text \<open>A first turn that marks its only block, and the turn that follows it, which repeats the block as a
  plain string.  The digest tells texts of different lengths apart.\<close>

definition demo_cache_env :: cache_env where
  "demo_cache_env =
     \<lparr>prompt = \<lparr>to_json_string = marked_json, base64_decode = \<lambda>_. None, header_dimensions = \<lambda>_ _. None\<rparr>,
      sha256 = \<lambda>bs. be_bytes 8 (length bs) @ replicate 24 0, parse_json = \<lambda>_. None, uuid_v5_oid = id,
      clock = \<lambda>_. 0, select_nth = \<lambda>_. sort_key snd\<rparr>"

definition marked_text :: "string \<Rightarrow> json" where
  "marked_text s =
     JArray [JObject [(''cache_control'', JObject [(''type'', JString ''ephemeral'')]), (''text'', JString s),
                      (''type'', JString ''text'')]]"

definition demo_request :: "request_message list \<Rightarrow> messages_request" where
  "demo_request ms =
     \<lparr>req_model = ''m'', max_tokens = 100, messages = ms, req_stream = False, system = None, tools = None,
      tool_choice = None, thinking = None, output_config = None, metadata = None, cache_control = None\<rparr>"

definition turn1 :: messages_request where
  "turn1 = demo_request [\<lparr>role = ''user'', content = marked_text ''hi''\<rparr>]"

definition turn2 :: messages_request where
  "turn2 = demo_request
     [\<lparr>role = ''user'', content = JString ''hi''\<rparr>, \<lparr>role = ''assistant'', content = JString ''ok''\<rparr>,
      \<lparr>role = ''user'', content = marked_text ''go on''\<rparr>]"

lemma turn_lengths:
  "length (blocks_of demo_cache_env turn1) = 1"
  "length (blocks_of demo_cache_env turn2) = 3"
  by code_simp+

lemma turn_signatures:
  "map signature (take (Suc 0) (blocks_of demo_cache_env turn1)) = map signature (take (Suc 0) (blocks_of demo_cache_env turn2))"
  by code_simp

lemma turn_breakpoints:
  "resolve_breakpoints (blocks_of demo_cache_env turn1) (cache_control turn1) = [\<lparr>block_idx = 0, bp_ttl_secs = 300\<rparr>]"
  "resolve_breakpoints (blocks_of demo_cache_env turn2) (cache_control turn2) = [\<lparr>block_idx = 2, bp_ttl_secs = 300\<rparr>]"
  by code_simp+

lemma turn_tokens:
  "lookback_start_index (blocks_of demo_cache_env turn2) 2 = 0"
  "token_sum (blocks_of demo_cache_env turn2) = 4"
  "token_sum (take (Suc 0) (blocks_of demo_cache_env turn2)) = 1"
  by code_simp+

lemma turn_seeds:
  "isolation_seed demo_cache_env turn1 5 = Some ''key:5''"
  "isolation_seed demo_cache_env turn2 5 = Some ''key:5''"
  by code_simp+

lemmas turn_blocks = turn_lengths turn_signatures turn_breakpoints turn_tokens turn_seeds

lemma turn_texts:
  "list_all (\<lambda>s. length s < 1000) (''key:5'' # request_global_cache_context demo_cache_env turn1 #
     map signature (blocks_of demo_cache_env turn1))"
  "list_all (\<lambda>s. length s < 1000) (''key:5'' # request_global_cache_context demo_cache_env turn2 #
     map signature (blocks_of demo_cache_env turn2))"
  "request_global_cache_context demo_cache_env turn1 = request_global_cache_context demo_cache_env turn2"
  by code_simp+

text \<open>Every further block makes the hashed bytes longer.\<close>

lemma length_frames: "list_all (\<lambda>s. length s < 1000) xs \<Longrightarrow> length (frames xs) \<le> 1008 * length xs"
  by (induction xs) (auto simp: hash_frame_def)

lemma prefix_bytes_longer:
  assumes "i < j" "j < length (blocks_of env r)"
  shows "length (prefix_bytes env seed r i) < length (prefix_bytes env seed r j)"
proof -
  let ?sigs = "map signature (blocks_of env r)"
  have "take (Suc j) ?sigs = take (Suc i) ?sigs @ take (j - i) (drop (Suc i) ?sigs)"
    using assms(1) take_add [of "Suc i" "j - i" ?sigs] by simp
  moreover have "0 < length (frames xs)" if "xs \<noteq> []" for xs
    using that by (cases xs) (simp_all add: hash_frame_def)
  moreover have "take (j - i) (drop (Suc i) ?sigs) \<noteq> []" using assms by simp
  ultimately show ?thesis
    by (simp add: prefix_bytes_def take_map frames_def)
qed

lemma prefix_bytes_short:
  assumes "list_all (\<lambda>s. length s < 1000) (seed # request_global_cache_context env r # map signature (blocks_of env r))"
    "length (blocks_of env r) \<le> 3"
  shows "length (prefix_bytes env seed r i) < 2 ^ 64"
proof -
  let ?xs = "seed # request_global_cache_context env r # map signature (take (Suc i) (blocks_of env r))"
  have "list_all (\<lambda>s. length s < 1000) ?xs"
    using assms(1) by (auto simp: list_all_iff dest: in_set_takeD)
  from length_frames [OF this] have "length (prefix_bytes env seed r i) \<le> 1008 * length ?xs"
    by (simp only: prefix_bytes_def)
  also have "\<dots> \<le> 1008 * 5" using assms(2) by simp
  finally show ?thesis by simp
qed

lemma demo_digest: "length h < 2 ^ 64 \<Longrightarrow> digest_u64 demo_cache_env h = of_nat (length h)"
  by (simp add: digest_u64_def demo_cache_env_def from_be_bytes_def be_nat_be_bytes)

lemma demo_session: "same_session demo_cache_env 5 ''key:5'' turn1 turn2"
proof -
  let ?e = demo_cache_env and ?P = "prefix_bytes demo_cache_env ''key:5'' turn2"
  have same: "prefix_bytes ?e ''key:5'' turn1 0 = ?P 0"
    using turn_blocks(3) turn_texts(3) by (intro prefix_bytes_cong) simp_all
  have short: "list_all short (''key:5'' # request_global_cache_context ?e r # map signature (blocks_of ?e r))"
    if "r \<in> {turn1, turn2}" for r
    using that turn_texts(1,2) by (auto simp: short_def list_all_iff)
  have "{prefix_bytes ?e ''key:5'' r i | r i. r \<in> {turn1, turn2} \<and> i < length (blocks_of ?e r)} \<subseteq> ?P ` {0..<3}"
    using same turn_blocks(1,2) by auto
  moreover have "inj_on (digest_u64 ?e) (?P ` {0..<3})"
  proof (rule inj_onI)
    fix x y assume "x \<in> ?P ` {0..<3}" "y \<in> ?P ` {0..<3}" and eq: "digest_u64 ?e x = digest_u64 ?e y"
    then obtain i j where xy: "x = ?P i" "y = ?P j" "i < 3" "j < 3" by auto
    have small: "length (?P n) < 2 ^ 64" for n
      using prefix_bytes_short [OF turn_texts(2)] turn_blocks(2) by simp
    have "unat (of_nat (length x) :: u64) = unat (of_nat (length y) :: u64)"
      using eq demo_digest small xy by simp
    then have "length x = length y" using small [of i] small [of j] xy(1,2) by (simp add: unat_of_nat)
    then have "i = j"
      using prefix_bytes_longer [of i j ?e turn2 "''key:5''"] prefix_bytes_longer [of j i ?e turn2 "''key:5''"] turn_blocks(2) xy
      by (metis less_irrefl nat_neq_iff)
    then show "x = y" using xy by simp
  qed
  ultimately have "inj_on (digest_u64 ?e)
      {prefix_bytes ?e ''key:5'' r i | r i. r \<in> {turn1, turn2} \<and> i < length (blocks_of ?e r)}"
    by (rule inj_on_subset [rotated])
  with short turn_blocks(9,10) turn_texts(3) show ?thesis unfolding same_session_def by blast
qed

definition empty_meter :: cache_meter where
  "empty_meter = start_meter None None 0 2000 True"

lemma empty_meter:
  "meter_inv empty_meter" "meter_enabled empty_meter" "entries (inner empty_meter) = []" "meter_capacity empty_meter = 2000"
proof -
  show "meter_inv empty_meter" unfolding empty_meter_def by (rule start_meter_inv)
qed (simp_all add: empty_meter_def start_meter_def with_miss_diagnostics_def with_capacity_def with_remote_def
      default_inner_def clamp_def MIN_CAPACITY_def MAX_CAPACITY_def)

text \<open>The second turn reads the one token of the first turn's prompt.\<close>

lemma later_turn_reads_earlier_prefix_witness:
  "1 \<le> cu_cache_read (fst (compute_cache_usage_sync demo_cache_env turn2 5
          (snd (compute_cache_usage_sync demo_cache_env turn1 5 (empty_meter, 0)))))"
proof -
  obtain u1 w1 where 1: "compute_cache_usage_sync demo_cache_env turn1 5 (empty_meter, 0) = (u1, w1)"
    by (cases "compute_cache_usage_sync demo_cache_env turn1 5 (empty_meter, 0)")
  obtain u2 w2 where 2: "compute_cache_usage_sync demo_cache_env turn2 5 w1 = (u2, w2)"
    by (cases "compute_cache_usage_sync demo_cache_env turn2 5 w1")
  have side: "inj (to_json_string (prompt demo_cache_env))" "window demo_cache_env 0"
    "coherent hashes toks empty_meter" for hashes toks
    using inj_marked_json empty_meter(3)
    by (simp_all add: demo_cache_env_def window_def DEFAULT_TTL_SECS_def coherent_def table_of_def)
  have room: "length (entries (inner empty_meter)) + MAX_BREAKPOINTS \<le> meter_capacity empty_meter"
    by (simp add: empty_meter MAX_BREAKPOINTS_def)
  have "int (token_sum (take (Suc 0) (blocks_of demo_cache_env turn2))) \<le> cu_cache_read u2"
    using later_turn_reads_earlier_prefix [OF demo_session side(1) empty_meter(1,2) room side(3,2) _ _ _ _ _ _ _ 1 2,
        where p = "\<lparr>block_idx = 0, bp_ttl_secs = 300\<rparr>" and q = "\<lparr>block_idx = 2, bp_ttl_secs = 300\<rparr>"]
      turn_blocks(2-7) by simp
  then show ?thesis using turn_blocks(8) 1 2 by simp
qed

text \<open>A store whose lookups fail and only count.\<close>

definition failing_store :: "nat remote_store" where
  "failing_store = \<lparr>remote_lookup = \<lambda>_ s. (None, Suc s), remote_record = \<lambda>_ _ _ s. s, remote_lock = \<lambda>_ _ s. (False, s)\<rparr>"

lemma silent_store_degrades_witness:
  "fst (compute_cache_usage demo_cache_env (Some failing_store) turn2 5 ((empty_meter, 0), 0)) =
     fst (compute_cache_usage_sync demo_cache_env turn2 5 (empty_meter, 0))"
proof -
  have "silent (Some failing_store)" by (simp add: silent_def failing_store_def)
  from silent_store_degrades [OF this, of demo_cache_env turn2 5 "(empty_meter, 0)" 0] show ?thesis
    by (cases "compute_cache_usage_sync demo_cache_env turn2 5 (empty_meter, 0)") auto
qed

text \<open>Another client key sends the same request: the hashed bytes differ.\<close>

lemma prefix_hashes_isolated_witness:
  "prefix_bytes demo_cache_env ''key:5'' turn2 1 \<noteq> prefix_bytes demo_cache_env ''key:6'' turn2 1"
proof -
  have seed: "isolation_seed demo_cache_env turn2 6 = Some ''key:6''" by code_simp
  have short: "list_all short (k # request_global_cache_context demo_cache_env turn2 # map signature (blocks_of demo_cache_env turn2))"
    if "k \<in> {''key:5'', ''key:6''}" for k
    using that turn_texts(2) by (auto simp: short_def list_all_iff)
  have "1 < length (blocks_of demo_cache_env turn2)" using turn_blocks(2) by simp
  moreover have "inj (to_json_string (prompt demo_cache_env))" using inj_marked_json by (simp add: demo_cache_env_def)
  ultimately show ?thesis using prefix_hashes_isolated [OF turn_blocks(10) seed _ _ short short, of 1 1] by auto
qed

end
