(* ===== verification/ModelIds.thy ===== *)
theory ModelIds
  imports RequestTypes Credentials UpstreamErrors
begin

text \<open>
  Model identifiers and reasoning effort (\<open>src/anthropic/converter.rs\<close>, from \<open>invalid_model_reason\<close> to
  \<open>build_additional_model_request_fields\<close>, and \<open>src/model/custom_models.rs\<close>): what the name a client
  asks for becomes upstream, how large its context is, and which effort field a request carries.  The
  registry of custom models is a global of the program and an argument here.  A reason given in prose is
  a constructor.
\<close>

section \<open>Strings\<close>

definition strip_prefix :: "string \<Rightarrow> string \<Rightarrow> string option" where
  "strip_prefix p s = (if starts_with s p then Some (drop (length p) s) else None)"

definition strip_suffix :: "string \<Rightarrow> string \<Rightarrow> string option" where
  "strip_suffix p s = (if ends_with s p then Some (take (length s - length p) s) else None)"

definition is_ascii_digit :: "char \<Rightarrow> bool" where
  "is_ascii_digit c \<longleftrightarrow> digit_value c \<noteq> None"

text \<open>\<open>rsplit_once(c)\<close>.\<close>

definition rsplit_once :: "char \<Rightarrow> string \<Rightarrow> (string \<times> string) option" where
  "rsplit_once c s =
     (if c \<in> set s
      then let suffix = rev (takeWhile (\<lambda>x. x \<noteq> c) (rev s)) in Some (take (length s - length suffix - 1) s, suffix)
      else None)"

text \<open>\<open>chars().any(char::is_control)\<close>: the characters of the class Cc, the upper half of which has two bytes
  in UTF-8.\<close>

fun has_control :: "string \<Rightarrow> bool" where
  "has_control [] = False"
| "has_control (c # cs) =
     (let n = of_char c :: nat in
      n < 32 \<or> n = 127 \<or>
      (n = 0xC2 \<and> (case cs of d # _ \<Rightarrow> of_char d < (160 :: nat) | [] \<Rightarrow> False)) \<or> has_control cs)"

section \<open>Custom models\<close>

record custom_model =
  cm_id :: string
  backend_id :: string
  cm_display_name :: "string option"
  context_window :: "int option"
  cm_max_tokens :: "int option"
  supports_reasoning :: "bool option"
  owned_by :: "string option"

record custom_model_registry =
  ordered :: "custom_model list"
  by_id :: "(string \<times> nat) list"

text \<open>A later model takes the entry of an earlier one with the same name.\<close>

definition init_custom_models :: "custom_model list \<Rightarrow> custom_model_registry" where
  "init_custom_models models =
     \<lparr>ordered = models,
      by_id = fold (\<lambda>(idx, m). map_insert (to_ascii_lowercase (cm_id m)) idx) (enumerate 0 models) []\<rparr>"

definition custom_lookup :: "custom_model_registry option \<Rightarrow> string \<Rightarrow> custom_model option" where
  "custom_lookup registry model =
     (case registry of
        None \<Rightarrow> None
      | Some reg \<Rightarrow>
          let key = to_ascii_lowercase model in
          (case (case map_of (by_id reg) key of
                  Some idx \<Rightarrow> Some idx
                | None \<Rightarrow>
                    (case strip_suffix ''-thinking'' key of
                       Some stripped \<Rightarrow> map_of (by_id reg) stripped
                     | None \<Rightarrow> None)) of
            None \<Rightarrow> None
          | Some idx \<Rightarrow> if idx < length (ordered reg) then Some (ordered reg ! idx) else None))"

definition all_custom_models :: "custom_model_registry option \<Rightarrow> custom_model list" where
  "all_custom_models registry = (case registry of Some reg \<Rightarrow> ordered reg | None \<Rightarrow> [])"

definition backend_supports_reasoning :: "custom_model_registry option \<Rightarrow> string \<Rightarrow> bool" where
  "backend_supports_reasoning registry backend =
     (case registry of
        None \<Rightarrow> False
      | Some reg \<Rightarrow> list_ex (\<lambda>m. backend_id m = backend \<and> supports_reasoning m = Some True) (ordered reg))"

section \<open>Model names\<close>

definition MAX_MODEL_ID_LEN :: nat where "MAX_MODEL_ID_LEN = 256"

datatype invalid_model = ModelIdEmpty | ModelIdTooLong | ModelIdControl

definition invalid_model_reason :: "string \<Rightarrow> invalid_model option" where
  "invalid_model_reason model =
     (if is_blank model then Some ModelIdEmpty
      else if MAX_MODEL_ID_LEN < length model then Some ModelIdTooLong
      else if has_control model then Some ModelIdControl
      else None)"

definition canonical_version :: "string list \<Rightarrow> string option" where
  "canonical_version parts =
     (case parts of
        [] \<Rightarrow> None
      | first # rest \<Rightarrow>
          if rest = [] \<and> CHR ''.'' \<in> set first \<and>
             list_all (\<lambda>part. part \<noteq> [] \<and> list_all is_ascii_digit part) (split_char CHR ''.'' first)
          then Some first
          else if \<not> list_all is_ascii_digit first then None
          else
            (case rest of
               [second] \<Rightarrow>
                 if list_all is_ascii_digit second then Some (first @ ''.'' @ second) else None
             | [] \<Rightarrow> Some first
             | _ \<Rightarrow> None))"

definition FAMILIES :: "string list" where
  "FAMILIES = [''sonnet'', ''opus'', ''haiku'', ''fable'', ''mythos'']"

definition strip_or_keep :: "string \<Rightarrow> string \<Rightarrow> string" where
  "strip_or_keep p s = (case strip_suffix p s of Some t \<Rightarrow> t | None \<Rightarrow> s)"

lemma length_strip_or_keep:
  assumes "p \<noteq> []"
  shows "length (strip_or_keep p s) \<le> length s" "strip_or_keep p s \<noteq> s \<Longrightarrow> length (strip_or_keep p s) < length s"
proof -
  have "length p \<le> length s" if "ends_with s p"
    using that starts_with_iff [of "rev s" "rev p"] by (auto simp: ends_with_def dest: arg_cong [where f = length])
  then show "length (strip_or_keep p s) \<le> length s" "strip_or_keep p s \<noteq> s \<Longrightarrow> length (strip_or_keep p s) < length s"
    using assms by (auto simp: strip_or_keep_def strip_suffix_def length_greater_0_conv [symmetric] split: if_splits
        simp del: length_greater_0_conv)
qed

function strip_model_suffixes :: "string \<Rightarrow> string" where
  "strip_model_suffixes s =
     (let t = strip_or_keep ''-latest'' (strip_or_keep ''-thinking'' s) in
      if t = s then s else strip_model_suffixes t)"
  by pat_completeness auto

termination
proof (relation "measure length")
  fix s t :: string assume t: "t = strip_or_keep ''-latest'' (strip_or_keep ''-thinking'' s)" "t \<noteq> s"
  show "(t, s) \<in> measure length"
  proof (cases "strip_or_keep ''-thinking'' s = s")
    case True
    with t show ?thesis using length_strip_or_keep(2) [of "''-latest''" s] by simp
  next
    case False
    then show ?thesis
      using t length_strip_or_keep(2) [of "''-thinking''" s]
        length_strip_or_keep(1) [of "''-latest''" "strip_or_keep ''-thinking'' s"] by simp
  qed
qed simp

declare strip_model_suffixes.simps [simp del]

definition strip_date :: "string \<Rightarrow> string" where
  "strip_date s =
     (case rsplit_once CHR ''-'' s of
        Some (base, suffix) \<Rightarrow> if length suffix = 8 \<and> list_all is_ascii_digit suffix then base else s
      | None \<Rightarrow> s)"

definition claude_name :: "string \<Rightarrow> string \<Rightarrow> string" where
  "claude_name family version = ''claude-'' @ family @ ''-'' @ version"

text \<open>The index of the first part that is a family, \<open>parts.iter().position(..)\<close>.\<close>

definition family_index :: "string list \<Rightarrow> nat option" where
  "family_index parts =
     (let i = length (takeWhile (\<lambda>p. p \<notin> set FAMILIES) parts) in if i < length parts then Some i else None)"

definition normalize_claude_model :: "string \<Rightarrow> string option" where
  "normalize_claude_model model =
     (case strip_prefix ''claude-'' (strip_date (strip_model_suffixes (to_ascii_lowercase model))) of
        None \<Rightarrow> None
      | Some body \<Rightarrow>
          (case List.find (\<lambda>family. strip_prefix family body \<noteq> None) FAMILIES of
             Some family \<Rightarrow>
               let rest = drop (length family) body;
                   rest = (case strip_prefix ''-'' rest of
                             Some r \<Rightarrow> r
                           | None \<Rightarrow> (case strip_prefix ''.'' rest of Some r \<Rightarrow> r | None \<Rightarrow> rest))
               in map_option (claude_name family) (canonical_version (split_char CHR ''-'' rest))
           | None \<Rightarrow>
               let parts = split_char CHR ''-'' body in
               (case family_index parts of
                  None \<Rightarrow> None
                | Some i \<Rightarrow>
                    if i = 0 \<or> i + 1 \<noteq> length parts then None
                    else map_option (claude_name (parts ! i)) (canonical_version (take i parts)))))"

definition model_uses_gpt_reasoning_effort :: "string \<Rightarrow> bool" where
  "model_uses_gpt_reasoning_effort m \<longleftrightarrow>
     to_ascii_lowercase m \<in> {''gpt-5.6-sol'', ''gpt-5.6-terra'', ''gpt-5.6-luna''}"

definition map_model :: "custom_model_registry option \<Rightarrow> string \<Rightarrow> string option" where
  "map_model registry model =
     (if invalid_model_reason model \<noteq> None then None
      else case custom_lookup registry model of
        Some custom \<Rightarrow> Some (backend_id custom)
      | None \<Rightarrow>
          (case (case strip_suffix ''-thinking'' (to_ascii_lowercase model) of
                   Some base \<Rightarrow> if model_uses_gpt_reasoning_effort base then Some base else None
                 | None \<Rightarrow> None) of
             Some base \<Rightarrow> Some base
           | None \<Rightarrow> (case normalize_claude_model model of Some m \<Rightarrow> Some m | None \<Rightarrow> Some model)))"

definition million_token_models :: "string list" where
  "million_token_models =
     [''claude-sonnet-4.6'', ''claude-sonnet-4.8'', ''claude-sonnet-5'', ''claude-sonnet-5.5'',
      ''claude-opus-4.6'', ''claude-opus-4.7'', ''claude-opus-4.8'', ''claude-opus-5'', ''claude-opus-5.5'',
      ''claude-haiku-5.5'', ''claude-fable-5'']"

definition get_context_window_size :: "custom_model_registry option \<Rightarrow> string \<Rightarrow> int" where
  "get_context_window_size registry model =
     (case (case custom_lookup registry model of Some custom \<Rightarrow> context_window custom | None \<Rightarrow> None) of
        Some window \<Rightarrow> window
      | None \<Rightarrow>
          (case map_model registry model of
             Some mapped \<Rightarrow>
               if mapped \<in> {''gpt-5.6-sol'', ''gpt-5.6-terra'', ''gpt-5.6-luna''} then 1000000
               else if starts_with mapped ''gpt'' then 272000
               else if mapped \<in> set million_token_models then 1000000
               else 200000
           | None \<Rightarrow> 200000))"

section \<open>Reasoning effort\<close>

definition model_supports_native_reasoning :: "custom_model_registry option \<Rightarrow> string \<Rightarrow> bool" where
  "model_supports_native_reasoning registry m \<longleftrightarrow>
     model_uses_gpt_reasoning_effort m \<or> backend_supports_reasoning registry m \<or>
     (let l = to_ascii_lowercase m in
      l \<in> {''claude-opus-4.6'', ''claude-opus-4.7'', ''claude-opus-4.8'', ''claude-sonnet-4.6''} \<or>
      contains l ''fable-5'' \<or> contains l ''mythos-5'' \<or> contains l ''sonnet-5'' \<or> contains l ''opus-5'' \<or>
      contains l ''haiku-5'' \<or> contains l ''claude-5'')"

definition native_reasoning_requested :: "messages_request \<Rightarrow> string \<Rightarrow> bool" where
  "native_reasoning_requested req m =
     (if m = ''claude-opus-4.6''
      then (case thinking req of Some t \<Rightarrow> thinking_type t = ''adaptive'' | None \<Rightarrow> False)
      else
        (case thinking req of Some t \<Rightarrow> thinking_is_enabled t | None \<Rightarrow> False) \<or>
        (case output_config req of Some oc \<Rightarrow> \<not> is_blank (effort oc) | None \<Rightarrow> False))"

definition effort_from_budget_tokens :: "int \<Rightarrow> string" where
  "effort_from_budget_tokens n =
     (if n \<le> 4000 then ''low'' else if n \<le> 16000 then ''medium'' else if n \<le> 64000 then ''high'' else ''xhigh'')"

datatype effort_tier = EffortNone | EffortLow | EffortMedium | EffortHigh | EffortXHigh | EffortMax

definition parse_effort :: "string \<Rightarrow> effort_tier option" where
  "parse_effort raw =
     (let s = to_ascii_lowercase (trim raw) in
      if s = ''none'' then Some EffortNone
      else if s = ''low'' then Some EffortLow
      else if s = ''medium'' then Some EffortMedium
      else if s = ''high'' then Some EffortHigh
      else if s = ''xhigh'' \<or> s = ''x-high'' \<or> s = ''x_high'' then Some EffortXHigh
      else if s = ''max'' then Some EffortMax
      else None)"

fun effort_str :: "effort_tier \<Rightarrow> string" where
  "effort_str EffortNone = ''none''"
| "effort_str EffortLow = ''low''"
| "effort_str EffortMedium = ''medium''"
| "effort_str EffortHigh = ''high''"
| "effort_str EffortXHigh = ''xhigh''"
| "effort_str EffortMax = ''max''"

definition model_supports_xhigh_effort :: "string \<Rightarrow> bool" where
  "model_supports_xhigh_effort m \<longleftrightarrow>
     (let l = to_ascii_lowercase m in
      contains l ''opus-4.7'' \<or> contains l ''opus-4.8'' \<or> contains l ''fable-5'' \<or> contains l ''mythos-5'' \<or>
      contains l ''claude-5'' \<or>
      l \<notin> {''claude-opus-4.6'', ''claude-sonnet-4.6'', ''claude-opus-4.5'', ''claude-sonnet-4.5'',
            ''claude-haiku-4.5''})"

definition normalize_effort_for_model :: "string \<Rightarrow> string \<Rightarrow> string option" where
  "normalize_effort_for_model m raw_effort =
     (if is_blank raw_effort then None
      else case parse_effort (trim raw_effort) of
        None \<Rightarrow> Some (effort_str EffortHigh)
      | Some requested \<Rightarrow>
          Some (effort_str
            (if requested = EffortNone \<and> \<not> model_uses_gpt_reasoning_effort m then EffortHigh
             else if requested = EffortXHigh \<and> \<not> model_supports_xhigh_effort m then EffortHigh
             else requested)))"

definition select_native_reasoning_effort :: "messages_request \<Rightarrow> string \<Rightarrow> string" where
  "select_native_reasoning_effort req m =
     (let raw =
        (case (case output_config req of
                 Some oc \<Rightarrow> if is_blank (effort oc) then None else Some (trim (effort oc))
               | None \<Rightarrow> None) of
           Some e \<Rightarrow> e
         | None \<Rightarrow>
             (case thinking req of
                Some t \<Rightarrow>
                  if thinking_is_enabled t then effort_from_budget_tokens (budget_tokens t) else ''high''
              | None \<Rightarrow> ''high''))
      in case normalize_effort_for_model m raw of Some e \<Rightarrow> e | None \<Rightarrow> ''high'')"

text \<open>\<open>AdditionalModelRequestFields\<close> of \<open>src/kiro/model/requests/kiro.rs\<close>; each of its two configurations
  holds an effort and nothing else.\<close>

record additional_fields =
  af_output_config :: "string option"
  af_reasoning :: "string option"

definition build_additional_model_request_fields ::
  "custom_model_registry option \<Rightarrow> messages_request \<Rightarrow> string \<Rightarrow> additional_fields option" where
  "build_additional_model_request_fields registry req m =
     (if (case thinking req of Some t \<Rightarrow> thinking_type t = ''disabled'' | None \<Rightarrow> False) then None
      else if \<not> model_supports_native_reasoning registry m then None
      else if \<not> native_reasoning_requested req m then None
      else
        let e = select_native_reasoning_effort req m in
        if model_uses_gpt_reasoning_effort m
        then Some \<lparr>af_output_config = None, af_reasoning = Some e\<rparr>
        else Some \<lparr>af_output_config = Some e, af_reasoning = None\<rparr>)"


section \<open>Spellings of a Claude model\<close>

lemma digit_not_other:
  "is_ascii_digit c \<Longrightarrow> c \<notin> set ''-.sohfmcgt''"
  by (auto simp: is_ascii_digit_def digit_value_def of_char_of)

lemma digit_lower: "is_ascii_digit c \<Longrightarrow> to_ascii_lower_char c = c"
  by (auto simp: is_ascii_digit_def digit_value_def to_ascii_lower_char_def Let_def of_char_of split: if_splits)

lemma digits_plain:
  assumes "list_all is_ascii_digit d"
  shows "CHR ''-'' \<notin> set d" "CHR ''.'' \<notin> set d"
  using assms digit_not_other by (fastforce simp: list_all_iff)+

lemma ends_with_append [simp]: "ends_with (s @ p) p"
  by (simp add: ends_with_def)

lemma ends_with_other: "length p \<le> length q \<Longrightarrow> ends_with (s @ q) p \<longleftrightarrow> ends_with q p"
  using starts_with_extend_iff [of "rev p" "rev q" "rev s"] by (simp add: ends_with_def)

lemma strip_or_keep_append [simp]: "strip_or_keep p (s @ p) = s"
  by (simp add: strip_or_keep_def strip_suffix_def)

lemma strip_or_keep_other: "\<not> ends_with s p \<Longrightarrow> strip_or_keep p s = s"
  by (simp add: strip_or_keep_def strip_suffix_def)

lemma strip_suffix_Some: "strip_suffix p s = Some t \<Longrightarrow> s = t @ p"
  by (auto simp: strip_suffix_def ends_with_def starts_with_iff split: if_splits)
    (metis append_eq_conv_conj length_rev rev_append rev_swap diff_add_inverse2 length_append)

lemma strip_or_keep_cases: "strip_or_keep p s = s \<or> s = strip_or_keep p s @ p"
  by (auto simp: strip_or_keep_def dest: strip_suffix_Some split: option.split)

lemma strip_model_suffixes_latest: "strip_model_suffixes (s @ ''-latest'') = strip_model_suffixes s"
proof -
  have "\<not> ends_with (s @ ''-latest'') ''-thinking''"
    by (cases s rule: rev_cases) (auto simp: ends_with_def)
  then show ?thesis
    by (subst strip_model_suffixes.simps) (simp add: strip_or_keep_other Let_def)
qed

lemma strip_model_suffixes_thinking: "strip_model_suffixes (s @ ''-thinking'') = strip_model_suffixes s"
proof -
  have "length (strip_or_keep ''-latest'' s) \<le> length s" by (simp add: length_strip_or_keep)
  then have "strip_or_keep ''-latest'' s \<noteq> s @ ''-thinking''" by auto
  then have "strip_model_suffixes (s @ ''-thinking'') = strip_model_suffixes (strip_or_keep ''-latest'' s)"
    by (subst strip_model_suffixes.simps) (simp add: Let_def)
  also have "\<dots> = strip_model_suffixes s"
    using strip_or_keep_cases [of "''-latest''" s] strip_model_suffixes_latest [of "strip_or_keep ''-latest'' s"] by auto
  finally show ?thesis .
qed

lemma strip_model_suffixes_bare:
  assumes "\<not> ends_with s ''-thinking''" "\<not> ends_with s ''-latest''"
  shows "strip_model_suffixes s = s"
  by (subst strip_model_suffixes.simps) (simp add: strip_or_keep_other assms Let_def)

lemma strip_model_suffixes_all:
  assumes "set marks \<subseteq> {''-thinking'', ''-latest''}"
  shows "strip_model_suffixes (s @ concat marks) = strip_model_suffixes s"
  using assms
proof (induction marks rule: rev_induct)
  case (snoc m ms)
  then show ?case
    using strip_model_suffixes_latest [of "s @ concat ms"] strip_model_suffixes_thinking [of "s @ concat ms"]
    by auto
qed simp

lemma rsplit_once_append: "c \<notin> set b \<Longrightarrow> rsplit_once c (a @ c # b) = Some (a, b)"
proof -
  assume "c \<notin> set b"
  then have "takeWhile (\<lambda>x. x \<noteq> c) (rev (a @ c # b)) = rev b"
    by (auto simp: takeWhile_append takeWhile_eq_all_conv)
  then show ?thesis by (simp add: rsplit_once_def Let_def)
qed

lemma strip_date_date:
  "list_all is_ascii_digit d \<Longrightarrow> length d = 8 \<Longrightarrow> strip_date (s @ ''-'' @ d) = s"
  using rsplit_once_append [of "CHR ''-''" d s] digits_plain(1) [of d] by (simp add: strip_date_def)

lemma strip_date_other:
  "CHR ''-'' \<notin> set d \<Longrightarrow> \<not> (length d = 8 \<and> list_all is_ascii_digit d) \<Longrightarrow> strip_date (s @ ''-'' @ d) = s @ ''-'' @ d"
  using rsplit_once_append [of "CHR ''-''" d s] by (auto simp: strip_date_def)

lemma ends_in_digit:
  assumes "s \<noteq> []" "is_ascii_digit (last s)"
  shows "\<not> ends_with s ''-thinking''" "\<not> ends_with s ''-latest''"
proof -
  obtain t c where "s = t @ [c]" using assms(1) by (cases s rule: rev_cases) auto
  with assms digit_not_other [of c] show "\<not> ends_with s ''-thinking''" "\<not> ends_with s ''-latest''"
    by (auto simp: ends_with_def)
qed

text \<open>The ways to write version \<open>a.b\<close> of a family.\<close>

definition spellings :: "string \<Rightarrow> string \<Rightarrow> string \<Rightarrow> string set" where
  "spellings f a b =
     {''claude-'' @ f @ sep @ v | sep v. sep \<in> {''-'', ''.'', ''''} \<and> v \<in> {a @ ''-'' @ b, a @ ''.'' @ b}} \<union>
     {''claude-'' @ v @ ''-'' @ f | v. v \<in> {a @ ''-'' @ b, a @ ''.'' @ b}}"

lemma find_family: "f \<in> set FAMILIES \<Longrightarrow> List.find (\<lambda>g. strip_prefix g (f @ r) \<noteq> None) FAMILIES = Some f"
proof -
  assume "f \<in> set FAMILIES"
  then have "f = ''sonnet'' \<or> f = ''opus'' \<or> f = ''haiku'' \<or> f = ''fable'' \<or> f = ''mythos''" by (simp add: FAMILIES_def)
  then show ?thesis by (elim disjE) (simp_all add: FAMILIES_def strip_prefix_def)
qed

lemma no_family:
  assumes "list_all is_ascii_digit a" "a \<noteq> []"
  shows "List.find (\<lambda>g. strip_prefix g (a @ r) \<noteq> None) FAMILIES = None" "a \<notin> set FAMILIES" "a @ ''.'' @ b \<notin> set FAMILIES"
proof -
  obtain c t where a: "a = c # t" using assms(2) by (cases a) auto
  with assms(1) digit_not_other [of c]
  show "List.find (\<lambda>g. strip_prefix g (a @ r) \<noteq> None) FAMILIES = None" "a \<notin> set FAMILIES" "a @ ''.'' @ b \<notin> set FAMILIES"
    by (auto simp: FAMILIES_def strip_prefix_def)
qed

lemma canonical_version_pair:
  assumes "list_all is_ascii_digit a" "list_all is_ascii_digit b" "a \<noteq> []" "b \<noteq> []"
  shows "canonical_version [a, b] = Some (a @ ''.'' @ b)" "canonical_version [a @ ''.'' @ b] = Some (a @ ''.'' @ b)"
  using assms digits_plain [OF assms(1)] digits_plain [OF assms(2)]
    split_char_append [of "CHR ''.''" a b] split_char_none [of "CHR ''.''" b]
  by (simp_all add: canonical_version_def)

lemma canonical_spelling:
  assumes "list_all is_ascii_digit a" "list_all is_ascii_digit b" "a \<noteq> []" "b \<noteq> []" "v \<in> {a @ ''-'' @ b, a @ ''.'' @ b}"
  shows "canonical_version (split_char CHR ''-'' v) = Some (a @ ''.'' @ b)"
proof -
  note plain = digits_plain [OF assms(1)] digits_plain [OF assms(2)]
  have "split_char CHR ''-'' (a @ ''-'' @ b) = [a, b]" "split_char CHR ''-'' (a @ ''.'' @ b) = [a @ ''.'' @ b]"
    using split_char_append [OF plain(1), of b] split_char_none [OF plain(3)] plain
      split_char_none [of "CHR ''-''" "a @ ''.'' @ b"] by simp_all
  then show ?thesis using assms(5) canonical_version_pair [OF assms(1-4)] by auto
qed

lemma normalize_stripped:
  assumes "f \<in> set FAMILIES" "list_all is_ascii_digit a" "list_all is_ascii_digit b" "a \<noteq> []" "b \<noteq> []"
    "stem \<in> spellings f a b" "strip_date (strip_model_suffixes (to_ascii_lowercase m)) = stem"
  shows "normalize_claude_model m = Some (claude_name f (a @ ''.'' @ b))"
proof -
  obtain c t where a: "a = c # t" using assms(4) by (cases a) auto
  have c: "c \<noteq> CHR ''-''" "c \<noteq> CHR ''.''" using digit_not_other [of c] assms(2) a by auto
  consider sep v where "stem = ''claude-'' @ f @ sep @ v" "sep \<in> {''-'', ''.'', ''''}" "v \<in> {a @ ''-'' @ b, a @ ''.'' @ b}"
    | v where "stem = ''claude-'' @ v @ ''-'' @ f" "v \<in> {a @ ''-'' @ b, a @ ''.'' @ b}"
    using assms(6) unfolding spellings_def by blast
  then show ?thesis
  proof cases
    case 1
    have "v = c # tl v" using 1(3) a by auto
    then have rest: "(case strip_prefix ''-'' (sep @ v) of Some r \<Rightarrow> r
        | None \<Rightarrow> (case strip_prefix ''.'' (sep @ v) of Some r \<Rightarrow> r | None \<Rightarrow> sep @ v)) = v"
      using 1(2) c by (cases v) (auto simp: strip_prefix_def)
    show ?thesis
      unfolding normalize_claude_model_def assms(7) 1(1)
      using canonical_spelling [OF assms(2-5) 1(3)] find_family [OF assms(1), of "sep @ v"] rest
      by (simp add: strip_prefix_def [of "''claude-''"] Let_def)
  next
    case 2
    have no: "List.find (\<lambda>g. strip_prefix g (v @ ''-'' @ f) \<noteq> None) FAMILIES = None"
      using 2(2) no_family(1) [OF assms(2,4), of "''-'' @ b @ ''-'' @ f"] no_family(1) [OF assms(2,4), of "''.'' @ b @ ''-'' @ f"]
      by auto
    have dash: "CHR ''-'' \<notin> set f" using assms(1) by (auto simp: FAMILIES_def)
    note plain = digits_plain [OF assms(2)] digits_plain [OF assms(3)]
    have parts: "split_char CHR ''-'' (v @ ''-'' @ f) = split_char CHR ''-'' v @ [f]"
        "set (split_char CHR ''-'' v) \<inter> set FAMILIES = {}" "split_char CHR ''-'' v \<noteq> []"
      using 2(2) plain split_char_append [OF plain(1), of "b @ ''-'' @ f"] split_char_append [OF plain(3), of f]
        split_char_none [OF dash] split_char_append [of "CHR ''-''" "a @ ''.'' @ b" f] split_char_append [OF plain(1), of b]
        split_char_none [OF plain(3)] split_char_none [of "CHR ''-''" "a @ ''.'' @ b"]
        no_family(2,3) [OF assms(2,4)] no_family(2) [OF assms(3,5)] by auto
    have "takeWhile (\<lambda>p. p \<notin> set FAMILIES) (split_char CHR ''-'' v @ [f]) = split_char CHR ''-'' v"
      using parts(2) assms(1) by (subst takeWhile_append2) auto
    then have "family_index (split_char CHR ''-'' v @ [f]) = Some (length (split_char CHR ''-'' v))"
      by (simp add: family_index_def Let_def)
    then show ?thesis
      unfolding normalize_claude_model_def assms(7) 2(1)
      using canonical_spelling [OF assms(2-5) 2(2)] no parts(1,3)
      by (simp add: strip_prefix_def [of "''claude-''"] Let_def nth_append)
  qed
qed

lemma spelling_dash:
  assumes "f \<in> set FAMILIES" "list_all is_ascii_digit a" "list_all is_ascii_digit b" "a \<noteq> []" "b \<noteq> []" "length b \<noteq> 8"
    "stem \<in> spellings f a b"
  shows "\<exists>x d. stem = x @ ''-'' @ d \<and> CHR ''-'' \<notin> set d \<and> \<not> (length d = 8 \<and> list_all is_ascii_digit d)"
    and "\<not> ends_with stem ''-thinking''" and "\<not> ends_with stem ''-latest''"
proof -
  obtain b' c where b: "b = b' @ [c]" "is_ascii_digit c" using assms(3,5) by (cases b rule: rev_cases) auto
  have f: "f = ''sonnet'' \<or> f = ''opus'' \<or> f = ''haiku'' \<or> f = ''fable'' \<or> f = ''mythos''"
    using assms(1) by (simp add: FAMILIES_def)
  then have dash: "CHR ''-'' \<notin> set f" "\<not> list_all is_ascii_digit f"
    by (auto simp: is_ascii_digit_def digit_value_def)
  have dot: "\<not> list_all is_ascii_digit (y @ ''.'' @ b)" for y
    using digit_not_other [of "CHR ''.''"] by auto
  note plain = digits_plain [OF assms(2)] digits_plain [OF assms(3)]
  consider (first) sep v where "stem = ''claude-'' @ f @ sep @ v" "sep \<in> {''-'', ''.'', ''''}" "v \<in> {a @ ''-'' @ b, a @ ''.'' @ b}"
    | (after) v where "stem = ''claude-'' @ v @ ''-'' @ f" "v \<in> {a @ ''-'' @ b, a @ ''.'' @ b}"
    using assms(7) unfolding spellings_def by blast
  then have "(\<exists>x d. stem = x @ ''-'' @ d \<and> CHR ''-'' \<notin> set d \<and> \<not> (length d = 8 \<and> list_all is_ascii_digit d)) \<and>
      \<not> ends_with stem ''-thinking'' \<and> \<not> ends_with stem ''-latest''"
  proof cases
    case first
    have "stem \<noteq> []" "last stem = c" using first b by auto
    then have ends: "\<not> ends_with stem ''-thinking'' \<and> \<not> ends_with stem ''-latest''" using ends_in_digit b(2) by simp
    from first(2,3) consider "v = a @ ''-'' @ b" | "sep = ''-''" "v = a @ ''.'' @ b" | "sep \<in> {''.'', ''''}" "v = a @ ''.'' @ b"
      by blast
    then show ?thesis
    proof cases
      case 1
      have "stem = (''claude-'' @ f @ sep @ a) @ ''-'' @ b" using first(1) 1 by simp
      then show ?thesis using ends plain(3) assms(6) by blast
    next
      case 2
      have "stem = (''claude-'' @ f) @ ''-'' @ (a @ ''.'' @ b)" using first(1) 2 by simp
      moreover have "CHR ''-'' \<notin> set (a @ ''.'' @ b)" using plain by simp
      ultimately show ?thesis using ends dot [of a] by blast
    next
      case 3
      have "stem = ''claude'' @ ''-'' @ ((f @ sep @ a) @ ''.'' @ b)" using first(1) 3 by simp
      moreover have "CHR ''-'' \<notin> set ((f @ sep @ a) @ ''.'' @ b)" using plain dash 3 by auto
      ultimately show ?thesis using ends dot [of "f @ sep @ a"] by blast
    qed
  next
    case after
    have "stem = (''claude-'' @ v) @ ''-'' @ f" using after(1) by simp
    moreover have "\<not> ends_with stem ''-thinking'' \<and> \<not> ends_with stem ''-latest''"
      using f unfolding after(1) by (elim disjE) (simp_all add: ends_with_def)
    ultimately show ?thesis using dash by blast
  qed
  then show "\<exists>x d. stem = x @ ''-'' @ d \<and> CHR ''-'' \<notin> set d \<and> \<not> (length d = 8 \<and> list_all is_ascii_digit d)"
    "\<not> ends_with stem ''-thinking''" "\<not> ends_with stem ''-latest''" by blast+
qed

text \<open>All the ways clients write a version of a Claude family, in any case, with or without a date and any number
  of \<open>-thinking\<close> and \<open>-latest\<close> marks, are sent upstream as the same model.\<close>

lemma claude_spellings_agree:
  assumes "f \<in> set FAMILIES" "list_all is_ascii_digit a" "list_all is_ascii_digit b" "a \<noteq> []" "b \<noteq> []" "length b \<noteq> 8"
    "stem \<in> spellings f a b" "date = [] \<or> date = ''-'' @ d" "list_all is_ascii_digit d" "length d = 8"
    "set marks \<subseteq> {''-thinking'', ''-latest''}" "to_ascii_lowercase m = stem @ date @ concat marks"
    "invalid_model_reason m = None" "custom_lookup registry m = None"
  shows "map_model registry m = Some (claude_name f (a @ ''.'' @ b))"
proof -
  have bare: "strip_model_suffixes (stem @ date) = stem @ date"
  proof (cases "date = []")
    case True
    then show ?thesis using spelling_dash(2,3) [OF assms(1-7)] by (simp add: strip_model_suffixes_bare)
  next
    case False
    with assms(8,10) have "date \<noteq> []" "last date = last d" "d \<noteq> []" by auto
    then show ?thesis using assms(9) ends_in_digit [of "stem @ date"] by (simp add: strip_model_suffixes_bare list_all_iff)
  qed
  have "strip_date (stem @ date) = stem"
    using assms(8) spelling_dash(1) [OF assms(1-7)] strip_date_date [OF assms(9,10), of stem] strip_date_other by auto
  then have "strip_date (strip_model_suffixes (to_ascii_lowercase m)) = stem"
    using strip_model_suffixes_all [OF assms(11), of "stem @ date"] bare assms(12) by simp
  then have "normalize_claude_model m = Some (claude_name f (a @ ''.'' @ b))"
    using normalize_stripped [OF assms(1-5,7)] by blast
  moreover have "\<not> model_uses_gpt_reasoning_effort base" if "strip_suffix ''-thinking'' (to_ascii_lowercase m) = Some base" for base
  proof -
    have "to_ascii_lowercase m = base @ ''-thinking''"
      using that by (rule strip_suffix_Some)
    moreover have "\<exists>r. to_ascii_lowercase m = ''claude-'' @ r" using assms(7,12) by (auto simp: spellings_def)
    ultimately have "base = [] \<or> hd base = CHR ''c''" by (cases base) auto
    then show ?thesis by (cases base) (auto simp: model_uses_gpt_reasoning_effort_def to_ascii_lowercase_def to_ascii_lower_char_def)
  qed
  ultimately show ?thesis
    using assms(13,14) by (simp add: map_model_def split: option.split)
qed

lemma claude_spellings_agree_witness:
  "map_model None ''Claude-3-5-Sonnet-20241022-thinking'' = Some ''claude-sonnet-3.5''"
proof -
  have "invalid_model_reason ''Claude-3-5-Sonnet-20241022-thinking'' = None" by code_simp
  moreover have "to_ascii_lowercase ''Claude-3-5-Sonnet-20241022-thinking'' =
      ''claude-3-5-sonnet'' @ ''-20241022'' @ concat [''-thinking'']" by code_simp
  moreover have "''claude-3-5-sonnet'' \<in> spellings ''sonnet'' ''3'' ''5''"
    unfolding spellings_def by (intro UnI2 CollectI exI [of _ "''3-5''"]) simp
  moreover have "list_all is_ascii_digit ''3''" "list_all is_ascii_digit ''5''" "list_all is_ascii_digit ''20241022''"
    by code_simp+
  ultimately show ?thesis
    using claude_spellings_agree [of "''sonnet''" "''3''" "''5''" "''claude-3-5-sonnet''" "''-20241022''" "''20241022''"
        "[''-thinking'']" "''Claude-3-5-Sonnet-20241022-thinking''" None]
    by (simp add: FAMILIES_def custom_lookup_def claude_name_def)
qed

text \<open>A name without a version becomes an identifier that ends in a dash.\<close>

lemma missing_version_kept: "map_model None ''claude-sonnet-latest'' = Some ''claude-sonnet-''"
proof -
  have "strip_model_suffixes ''claude-sonnet-latest'' = ''claude-sonnet''"
    using strip_model_suffixes_latest [of "''claude-sonnet''"] strip_model_suffixes_bare [of "''claude-sonnet''"]
    by (simp add: ends_with_def)
  moreover have "strip_date ''claude-sonnet'' = ''claude-sonnet''" by code_simp
  moreover have "to_ascii_lowercase ''claude-sonnet-latest'' = ''claude-sonnet-latest''" by code_simp
  moreover have "strip_prefix ''claude-'' ''claude-sonnet'' = Some ''sonnet''" by code_simp
  moreover have "List.find (\<lambda>family. strip_prefix family ''sonnet'' \<noteq> None) FAMILIES = Some ''sonnet''" by code_simp
  moreover have "canonical_version (split_char CHR ''-'' '''') = Some ''''" by code_simp
  ultimately have "normalize_claude_model ''claude-sonnet-latest'' = Some ''claude-sonnet-''"
    by (simp add: normalize_claude_model_def claude_name_def strip_prefix_def)
  moreover have "invalid_model_reason ''claude-sonnet-latest'' = None" by code_simp
  moreover have "strip_suffix ''-thinking'' ''claude-sonnet-latest'' = None" by code_simp
  ultimately show ?thesis
    using \<open>to_ascii_lowercase ''claude-sonnet-latest'' = ''claude-sonnet-latest''\<close>
    by (simp add: map_model_def custom_lookup_def)
qed

section \<open>Effort fields\<close>

text \<open>The efforts a model takes.\<close>

definition accepted_effort :: "string \<Rightarrow> effort_tier \<Rightarrow> bool" where
  "accepted_effort m t \<longleftrightarrow>
     (t = EffortNone \<longrightarrow> model_uses_gpt_reasoning_effort m) \<and> (t = EffortXHigh \<longrightarrow> model_supports_xhigh_effort m)"

lemma accepted_high [simp]: "\<exists>t. ''high'' = effort_str t \<and> accepted_effort m t"
  by (rule exI [of _ EffortHigh]) (simp add: accepted_effort_def)

lemma normalize_effort_accepted:
  assumes "normalize_effort_for_model m raw = Some e"
  shows "\<exists>t. e = effort_str t \<and> accepted_effort m t"
proof (cases "e = ''high''")
  case False
  with assms show ?thesis
    by (auto simp: normalize_effort_for_model_def accepted_effort_def split: if_splits option.splits)
qed simp

lemma select_effort_accepted: "\<exists>t. select_native_reasoning_effort req m = effort_str t \<and> accepted_effort m t"
proof (cases "\<exists>raw e. normalize_effort_for_model m raw = Some e \<and> select_native_reasoning_effort req m = e")
  case True
  then show ?thesis using normalize_effort_accepted by blast
next
  case False
  then have "select_native_reasoning_effort req m = ''high''"
    by (auto simp: select_native_reasoning_effort_def Let_def split: option.splits)
  then show ?thesis by simp
qed

text \<open>Reasoning fields are sent only to models that take them and only when the client asked, never when it
  turned thinking off; exactly one field is filled, the one of the model's kind, with an effort the model accepts.\<close>

lemma sent_effort_accepted:
  assumes "build_additional_model_request_fields registry req m = Some f"
  shows "model_supports_native_reasoning registry m \<and> native_reasoning_requested req m \<and>
    (\<forall>t. thinking req = Some t \<longrightarrow> thinking_type t \<noteq> ''disabled'') \<and>
    (\<exists>t. accepted_effort m t \<and>
      f = (if model_uses_gpt_reasoning_effort m
           then \<lparr>af_output_config = None, af_reasoning = Some (effort_str t)\<rparr>
           else \<lparr>af_output_config = Some (effort_str t), af_reasoning = None\<rparr>))"
  using assms select_effort_accepted [of req m]
  by (auto simp: build_additional_model_request_fields_def Let_def split: if_splits option.splits)

lemma sent_effort_accepted_witness:
  "let req = \<lparr>req_model = ''gpt-5.6-sol'', max_tokens = 9, messages = [], req_stream = False, system = None, tools = None,
        tool_choice = None, thinking = None, output_config = Some \<lparr>effort = ''none'', output_format = None\<rparr>,
        metadata = None, cache_control = None\<rparr> in
   build_additional_model_request_fields None req ''gpt-5.6-sol'' =
     Some \<lparr>af_output_config = None, af_reasoning = Some ''none''\<rparr> \<and> native_reasoning_requested req ''gpt-5.6-sol''"
proof -
  define req where "req = \<lparr>req_model = ''gpt-5.6-sol'', max_tokens = 9, messages = [], req_stream = False, system = None, tools = None,
        tool_choice = None, thinking = None, output_config = Some \<lparr>effort = ''none'', output_format = None\<rparr>,
        metadata = None, cache_control = None\<rparr>"
  have b: "build_additional_model_request_fields None req ''gpt-5.6-sol'' =
      Some \<lparr>af_output_config = None, af_reasoning = Some ''none''\<rparr>"
    unfolding req_def by code_simp
  with sent_effort_accepted [OF b] show ?thesis by (simp add: req_def Let_def)
qed

end
