(* ===== verification/KiroRequest.thy ===== *)
theory KiroRequest
  imports Json
begin

text \<open>
  The request of the upstream service (\<open>src/kiro/model/requests/conversation.rs\<close> and \<open>tool.rs\<close>): a
  conversation is a history of user and assistant messages and the current message, with tool calls on
  the assistant's side, tool results and the tool definitions on the user's.  The wrappers with one
  field (\<open>Tool\<close>, \<open>InputSchema\<close>, \<open>CurrentMessage\<close>, \<open>HistoryUserMessage\<close>, \<open>HistoryAssistantMessage\<close>) are dropped.
\<close>

section \<open>Tools\<close>

record tool_specification =
  ts_name :: string
  ts_description :: string
  ts_input_schema :: json

record tool_result =
  tr_tool_use_id :: string
  tr_content :: "json_object list"
  tr_status :: "string option"
  tr_is_error :: bool

definition tool_result_success :: "string \<Rightarrow> string \<Rightarrow> tool_result" where
  "tool_result_success use_id text =
     \<lparr>tr_tool_use_id = use_id, tr_content = [[(''text'', JString text)]], tr_status = Some ''success'', tr_is_error = False\<rparr>"

definition tool_result_error :: "string \<Rightarrow> string \<Rightarrow> tool_result" where
  "tool_result_error use_id text =
     \<lparr>tr_tool_use_id = use_id, tr_content = [[(''text'', JString text)]], tr_status = Some ''error'', tr_is_error = True\<rparr>"

record tool_use_entry =
  tu_tool_use_id :: string
  tu_tool_name :: string
  tu_tool_input :: json

definition new_tool_use_entry :: "string \<Rightarrow> string \<Rightarrow> tool_use_entry" where
  "new_tool_use_entry use_id name = \<lparr>tu_tool_use_id = use_id, tu_tool_name = name, tu_tool_input = JObject []\<rparr>"

section \<open>Messages\<close>

record env_state =
  operating_system :: string
  current_working_directory :: string

text \<open>The working directory of the process, if it can be read.\<close>

definition default_env_state :: "string option \<Rightarrow> env_state" where
  "default_env_state cwd =
     \<lparr>operating_system = ''macos'', current_working_directory = (case cwd of Some d \<Rightarrow> d | None \<Rightarrow> ''/'')\<rparr>"

record input_context =
  ctx_env_state :: env_state
  ctx_tool_results :: "tool_result list"
  ctx_tools :: "tool_specification list"

definition default_context :: "string option \<Rightarrow> input_context" where
  "default_context cwd = \<lparr>ctx_env_state = default_env_state cwd, ctx_tool_results = [], ctx_tools = []\<rparr>"

definition is_empty_context :: "input_context \<Rightarrow> bool" where
  "is_empty_context c \<longleftrightarrow> ctx_tools c = [] \<and> ctx_tool_results c = []"

record kiro_image =
  ki_format :: string
  ki_bytes :: string

record user_message =
  um_content :: string
  um_model_id :: string
  um_origin :: "string option"
  um_images :: "kiro_image list"
  um_context :: input_context

definition new_user_message :: "string option \<Rightarrow> string \<Rightarrow> string \<Rightarrow> user_message" where
  "new_user_message cwd text model_id =
     \<lparr>um_content = text, um_model_id = model_id, um_origin = Some ''AI_EDITOR'', um_images = [],
      um_context = default_context cwd\<rparr>"

record assistant_message =
  am_content :: string
  am_tool_uses :: "tool_use_entry list option"

definition new_assistant_message :: "string \<Rightarrow> assistant_message" where
  "new_assistant_message text = \<lparr>am_content = text, am_tool_uses = None\<rparr>"

datatype history_message = HistoryUser user_message | HistoryAssistant assistant_message

text \<open>The current message has the fields of a user message.\<close>

record user_input_message =
  ui_context :: input_context
  ui_content :: string
  ui_model_id :: string
  ui_images :: "kiro_image list"
  ui_origin :: "string option"

definition new_user_input_message :: "string option \<Rightarrow> string \<Rightarrow> string \<Rightarrow> user_input_message" where
  "new_user_input_message cwd text model_id =
     \<lparr>ui_context = default_context cwd, ui_content = text, ui_model_id = model_id, ui_images = [],
      ui_origin = Some ''AI_EDITOR''\<rparr>"

record conversation_state =
  agent_continuation_id :: "string option"
  agent_task_type :: "string option"
  chat_trigger_type :: "string option"
  current_message :: user_input_message
  conversation_id :: string
  history :: "history_message list"

section \<open>What the rules of the upstream speak about\<close>

fun uses_of :: "history_message \<Rightarrow> tool_use_entry list" where
  "uses_of (HistoryUser _) = []"
| "uses_of (HistoryAssistant m) = (case am_tool_uses m of Some us \<Rightarrow> us | None \<Rightarrow> [])"

fun results_of :: "history_message \<Rightarrow> tool_result list" where
  "results_of (HistoryUser m) = ctx_tool_results (um_context m)"
| "results_of (HistoryAssistant _) = []"

abbreviation history_uses :: "history_message list \<Rightarrow> tool_use_entry list" where
  "history_uses h \<equiv> concat (map uses_of h)"

abbreviation history_results :: "history_message list \<Rightarrow> tool_result list" where
  "history_results h \<equiv> concat (map results_of h)"

definition is_user :: "history_message \<Rightarrow> bool" where
  "is_user m = (case m of HistoryUser _ \<Rightarrow> True | HistoryAssistant _ \<Rightarrow> False)"

text \<open>Users and assistants take turns, and the last word is the assistant's.\<close>

fun alternating :: "history_message list \<Rightarrow> bool" where
  "alternating (a # b # h) \<longleftrightarrow> is_user a \<noteq> is_user b \<and> alternating (b # h)"
| "alternating [a] \<longleftrightarrow> \<not> is_user a"
| "alternating [] \<longleftrightarrow> True"

end
