(* ===== verification/ToolSchemas.thy ===== *)
theory ToolSchemas
  imports ModelIds ToolMapping KiroRequest F64
begin

text \<open>
  The tools of a request as the upstream takes them (\<open>src/anthropic/converter.rs\<close>): the normal form of an
  input schema (\<open>normalize_json_schema\<close> and its helpers), the built-in tools of the upstream, and
  \<open>convert_tools\<close>.  The value of a JSON number with a fraction or exponent and the lower case of a string
  outside ASCII are functions of crates and the standard library's tables, and parameters here.
\<close>

section \<open>Schemas\<close>

definition json_object :: "(string \<times> json) list \<Rightarrow> json" where
  "json_object kvs = JObject (obj_of kvs)"

definition json_as_f64 :: "(string \<Rightarrow> f64) \<Rightarrow> json \<Rightarrow> f64 option" where
  "json_as_f64 float_value v =
     (case v of JInt i \<Rightarrow> Some (f64_of_rat (of_int i)) | JFloat s \<Rightarrow> Some (float_value s) | _ \<Rightarrow> None)"

definition is_numeric :: "json \<Rightarrow> bool" where
  "is_numeric v = (case v of JInt _ \<Rightarrow> True | JFloat _ \<Rightarrow> True | _ \<Rightarrow> False)"

text \<open>\<open>v > 2_147_483_647.0 || v < -2_147_483_648.0\<close>.\<close>

definition beyond_i32 :: "f64 \<Rightarrow> bool" where
  "beyond_i32 a = (case a of Fin x \<Rightarrow> of_int i32_max < x \<or> x < of_int i32_min | Infinite _ \<Rightarrow> True | NaN \<Rightarrow> False)"

definition drop_if :: "(json \<Rightarrow> bool) \<Rightarrow> string \<Rightarrow> json_object \<Rightarrow> json_object" where
  "drop_if P k obj = (case map_of obj k of Some v \<Rightarrow> if P v then map_remove k obj else obj | None \<Rightarrow> obj)"

definition beyond_bound :: "(string \<Rightarrow> f64) \<Rightarrow> json \<Rightarrow> bool" where
  "beyond_bound float_value v = (case json_as_f64 float_value v of Some x \<Rightarrow> beyond_i32 x | None \<Rightarrow> False)"

text \<open>The keywords of a property that the upstream does not take.\<close>

definition drop_keywords :: "(string \<Rightarrow> f64) \<Rightarrow> json_object \<Rightarrow> json_object" where
  "drop_keywords float_value obj =
     drop_if (beyond_bound float_value) ''minimum''
      (drop_if (beyond_bound float_value) ''maximum''
        (drop_if is_numeric ''exclusiveMaximum''
          (drop_if is_numeric ''exclusiveMinimum'' (map_remove ''$schema'' obj))))"

lemma set_drop_if: "set (drop_if P k obj) \<subseteq> set obj"
  by (auto simp: drop_if_def map_remove_def split: option.splits if_splits)

lemma set_drop_keywords: "set (drop_keywords float_value obj) \<subseteq> set obj"
  unfolding drop_keywords_def
  by (intro order_trans [OF set_drop_if]) (auto simp: map_remove_def)

lemma size_json_entry: "(k, v) \<in> set m \<Longrightarrow> size v < size (JObject m)"
  by (induction m) auto

lemma size_keyword_entry: "map_of (drop_keywords float_value obj) k = Some v \<Longrightarrow> size v < size (JObject obj)"
  using set_drop_keywords [of float_value obj] size_json_entry [of k v obj] by (auto dest!: map_of_SomeD)

text \<open>An entry is taken out, and a new value put in its place if there is one.\<close>

definition put_back :: "string \<Rightarrow> json option \<Rightarrow> json_object \<Rightarrow> json_object" where
  "put_back k v obj = (case v of Some x \<Rightarrow> obj_insert k x (map_remove k obj) | None \<Rightarrow> map_remove k obj)"

function normalize_property_schema :: "(string \<Rightarrow> f64) \<Rightarrow> json \<Rightarrow> json" where
  "normalize_property_schema float_value schema =
     (case schema of
        JObject obj \<Rightarrow>
          JObject
           (put_back ''items''
             (case map_of (drop_keywords float_value obj) ''items'' of
                Some items \<Rightarrow> Some (normalize_property_schema float_value items)
              | None \<Rightarrow> None)
             (put_back ''properties''
               (case map_of (drop_keywords float_value obj) ''properties'' of
                  Some (JObject props) \<Rightarrow>
                    Some (JObject (map (\<lambda>(k, v). (k, normalize_property_schema float_value v)) props))
                | _ \<Rightarrow> None)
               (drop_keywords float_value obj)))
      | other \<Rightarrow> other)"
  by pat_completeness auto

termination
proof (relation "measure (size \<circ> snd)", goal_cases)
  case (2 float_value schema obj items)
  then show ?case using size_keyword_entry [of float_value obj "''items''"] by fastforce
next
  case (3 float_value schema obj j props e k v)
  then show ?case
    using size_keyword_entry [of float_value obj "''properties''"] size_json_entry [of k v props] by fastforce
qed simp

declare normalize_property_schema.simps [simp del]

definition COMBINATORS :: "string list" where
  "COMBINATORS = [''oneOf'', ''anyOf'', ''allOf'']"

definition is_object_variant :: "json \<Rightarrow> bool" where
  "is_object_variant v =
     (case v of JObject m \<Rightarrow> map_of m ''type'' = Some (JString ''object'') | _ \<Rightarrow> False)"

text \<open>What the first variant that is an object gives, where the schema itself says nothing.\<close>

definition RECOVERED_KEYS :: "string list" where
  "RECOVERED_KEYS = [''properties'', ''required'', ''additionalProperties'', ''description'']"

definition recover_key :: "json_object \<Rightarrow> string \<Rightarrow> json_object \<Rightarrow> json_object" where
  "recover_key m key obj = (case map_of m key of Some val \<Rightarrow> obj_or_insert key val obj | None \<Rightarrow> obj)"

definition recover_variant :: "json list \<Rightarrow> json_object \<Rightarrow> json_object" where
  "recover_variant variants obj =
     (case List.find is_object_variant variants of
        Some (JObject m) \<Rightarrow> fold (recover_key m) RECOVERED_KEYS obj
      | _ \<Rightarrow> obj)"

definition strip_combinator :: "bool \<Rightarrow> string \<Rightarrow> json_object \<Rightarrow> json_object" where
  "strip_combinator has_properties_initially combinator obj =
     (let rest = map_remove combinator obj in
      case map_of obj combinator of
        Some (JArray variants) \<Rightarrow>
          if has_properties_initially \<or> map_of rest ''properties'' \<noteq> None then rest
          else recover_variant variants rest
      | _ \<Rightarrow> rest)"

definition strip_top_level_combinators :: "json_object \<Rightarrow> json_object" where
  "strip_top_level_combinators obj = fold (strip_combinator (map_of obj ''properties'' \<noteq> None)) COMBINATORS obj"

definition force_object_type :: "json_object \<Rightarrow> json_object" where
  "force_object_type obj =
     (if map_of obj ''type'' = Some (JString ''object'') then obj
      else obj_insert ''type'' (JString ''object'') obj)"

definition normal_properties :: "(string \<Rightarrow> f64) \<Rightarrow> json option \<Rightarrow> json_object" where
  "normal_properties float_value v =
     (case v of
        Some (JObject props) \<Rightarrow> map (\<lambda>(k, p). (k, normalize_property_schema float_value p)) props
      | _ \<Rightarrow> [])"

definition normal_required :: "json option \<Rightarrow> json list" where
  "normal_required v =
     (case v of
        Some (JArray xs) \<Rightarrow> List.map_filter (\<lambda>x. map_option JString (as_str x)) xs
      | _ \<Rightarrow> [])"

definition normal_additional :: "json_object \<Rightarrow> json_object" where
  "normal_additional obj =
     (case map_of obj ''additionalProperties'' of
        Some (JBool _) \<Rightarrow> obj
      | Some (JObject _) \<Rightarrow> obj
      | _ \<Rightarrow> obj_insert ''additionalProperties'' (JBool True) obj)"

definition empty_schema :: json where
  "empty_schema =
     json_object [(''type'', JString ''object''), (''properties'', JObject []), (''required'', JArray []),
       (''additionalProperties'', JBool True)]"

definition normalize_json_schema :: "(string \<Rightarrow> f64) \<Rightarrow> json \<Rightarrow> json" where
  "normalize_json_schema float_value schema =
     (case schema of
        JObject obj \<Rightarrow>
          let obj = force_object_type (strip_top_level_combinators (map_remove ''$schema'' obj));
              obj = put_back ''properties'' (Some (JObject (normal_properties float_value (map_of obj ''properties'')))) obj;
              obj = put_back ''required'' (Some (JArray (normal_required (map_of obj ''required'')))) obj
          in JObject (normal_additional obj)
      | _ \<Rightarrow> empty_schema)"

section \<open>The normal form\<close>

fun sorted_json :: "json \<Rightarrow> bool" where
  "sorted_json (JArray xs) = list_all sorted_json xs"
| "sorted_json (JObject m) \<longleftrightarrow> sorted_obj m \<and> (\<forall>e \<in> set m. sorted_json (snd e))"
| "sorted_json _ = True"

text \<open>Schemas of properties without the keywords of later drafts.\<close>

inductive draft7 :: "(string \<Rightarrow> f64) \<Rightarrow> json \<Rightarrow> bool" for float_value where
  other: "as_object j = None \<Longrightarrow> draft7 float_value j"
| object: "draft7 float_value (JObject obj)"
  if "drop_keywords float_value obj = obj"
    "\<And>v. map_of obj ''properties'' = Some v \<Longrightarrow> \<exists>props. v = JObject props \<and> (\<forall>e \<in> set props. draft7 float_value (snd e))"
    "\<And>v. map_of obj ''items'' = Some v \<Longrightarrow> draft7 float_value v"

inductive_simps draft7_object: "draft7 float_value (JObject obj)"

lemma map_of_put_back [simp]: "map_of (put_back k v obj) = (map_of obj)(k := v)"
  by (auto simp: put_back_def split: option.split)

lemma sorted_map_remove [simp]: "sorted_obj m \<Longrightarrow> sorted_obj (map_remove k m)" for m :: "(string \<times> 'v) list"
  by (auto simp: map_remove_def intro: sorted_filter distinct_map_filter)

lemma sorted_put_back [simp]: "sorted_obj obj \<Longrightarrow> sorted_obj (put_back k v obj)"
  by (simp add: put_back_def del: map_of_remove split: option.split)

lemma sorted_drop_if [simp]: "sorted_obj obj \<Longrightarrow> sorted_obj (drop_if P k obj)"
  by (simp add: drop_if_def split: option.split)

lemma sorted_drop_keywords [simp]: "sorted_obj obj \<Longrightarrow> sorted_obj (drop_keywords float_value obj)"
  by (simp add: drop_keywords_def)

lemma put_back_same: "sorted_obj obj \<Longrightarrow> map_of obj k = v \<Longrightarrow> put_back k v obj = obj"
  by (rule sorted_obj_unique) auto

lemma map_of_drop_if: "map_of (drop_if P k obj) k' = Some v \<longleftrightarrow> map_of obj k' = Some v \<and> \<not> (k' = k \<and> P v)"
  by (auto simp: drop_if_def split: option.split)

lemma map_of_remove_Some: "map_of (map_remove k m) k' = Some v \<longleftrightarrow> k' \<noteq> k \<and> map_of m k' = Some v"
  by simp

definition kept_keyword :: "(string \<Rightarrow> f64) \<Rightarrow> string \<Rightarrow> json \<Rightarrow> bool" where
  "kept_keyword float_value k v \<longleftrightarrow>
     k \<noteq> ''$schema'' \<and> (k \<in> {''exclusiveMinimum'', ''exclusiveMaximum''} \<longrightarrow> \<not> is_numeric v) \<and>
     (k \<in> {''minimum'', ''maximum''} \<longrightarrow> \<not> beyond_bound float_value v)"

lemma map_of_drop_keywords:
  "map_of (drop_keywords float_value obj) k = Some v \<longleftrightarrow> map_of obj k = Some v \<and> kept_keyword float_value k v"
  by (auto simp only: drop_keywords_def map_of_drop_if kept_keyword_def map_of_remove_Some insert_iff empty_iff)

lemma drop_keywords_same:
  assumes "sorted_obj obj" "\<And>k v. map_of obj k = Some v \<Longrightarrow> kept_keyword float_value k v"
  shows "drop_keywords float_value obj = obj"
proof (rule sorted_obj_unique)
  have "map_of (drop_keywords float_value obj) k = map_of obj k" for k
    using map_of_drop_keywords [of float_value obj k] assms(2) [of k]
    by (cases "map_of obj k"; cases "map_of (drop_keywords float_value obj) k") auto
  then show "map_of (drop_keywords float_value obj) = map_of obj" by blast
qed (use assms(1) in simp_all)

lemma sorted_json_entry: "sorted_json (JObject m) \<Longrightarrow> (k, v) \<in> set m \<Longrightarrow> sorted_json v"
  by force

lemma sorted_json_lookup: "sorted_json (JObject m) \<Longrightarrow> map_of m k = Some v \<Longrightarrow> sorted_json v"
  by (rule sorted_json_entry) (auto dest: map_of_SomeD)

lemma sorted_json_object:
  assumes "sorted_obj m" "\<And>k v. map_of m k = Some v \<Longrightarrow> sorted_json v"
  shows "sorted_json (JObject m)"
  using assms by auto

lemma fst_values [simp]: "fst \<circ> (\<lambda>(k, v). (k, f v)) = fst"
  by auto

lemma normalize_property_schema_object:
  "normalize_property_schema float_value (JObject obj) =
     JObject
      (put_back ''items'' (map_option (normalize_property_schema float_value) (map_of obj ''items''))
        (put_back ''properties''
          (case map_of obj ''properties'' of
             Some (JObject props) \<Rightarrow> Some (JObject (map (\<lambda>(k, v). (k, normalize_property_schema float_value v)) props))
           | _ \<Rightarrow> None)
          (drop_keywords float_value obj)))"
proof -
  have "map_of (drop_keywords float_value obj) k = map_of obj k" if "k \<in> {''items'', ''properties''}" for k
    using map_of_drop_keywords [of float_value obj k] that
    by (cases "map_of obj k"; cases "map_of (drop_keywords float_value obj) k") (auto simp: kept_keyword_def)
  then show ?thesis
    by (subst normalize_property_schema.simps) (simp add: map_option_case)
qed

lemma normalize_property_schema_other [simp]:
  "as_object j = None \<Longrightarrow> normalize_property_schema float_value j = j"
  by (cases j) (simp_all add: normalize_property_schema.simps as_object_def)

lemma normalized_property:
  "sorted_json s \<Longrightarrow> draft7 float_value (normalize_property_schema float_value s) \<and>
     sorted_json (normalize_property_schema float_value s)"
proof (induction "size s" arbitrary: s rule: less_induct)
  case less
  show ?case
  proof (cases "as_object s")
    case None
    then show ?thesis using less.prems by (simp add: draft7.other)
  next
    case (Some obj)
    then have s: "s = JObject obj" by (cases s) (simp_all add: as_object_def)
    have sub: "draft7 float_value (normalize_property_schema float_value v) \<and> sorted_json (normalize_property_schema float_value v)"
      if "size v < size s" "sorted_json v" for v
      using less.hyps that by blast
    define items where "items = map_option (normalize_property_schema float_value) (map_of obj ''items'')"
    define props where "props = (case map_of obj ''properties'' of
             Some (JObject props) \<Rightarrow> Some (JObject (map (\<lambda>(k, v). (k, normalize_property_schema float_value v)) props))
           | _ \<Rightarrow> None)"
    let ?r = "put_back ''items'' items (put_back ''properties'' props (drop_keywords float_value obj))"
    have items: "draft7 float_value v \<and> sorted_json v" if found: "items = Some v" for v
    proof -
      obtain x where "map_of obj ''items'' = Some x" "v = normalize_property_schema float_value x"
        using found unfolding items_def by auto
      then show ?thesis
        using sub [of x] size_json_entry [of "''items''" x obj] sorted_json_lookup [of obj "''items''" x] less.prems
        by (auto simp: s dest: map_of_SomeD)
    qed
    have props: "\<exists>m. v = JObject m \<and> sorted_obj m \<and> (\<forall>e \<in> set m. draft7 float_value (snd e) \<and> sorted_json (snd e))"
      if found: "props = Some v" for v
    proof -
      obtain m where m: "map_of obj ''properties'' = Some (JObject m)"
        "v = JObject (map (\<lambda>(k, v). (k, normalize_property_schema float_value v)) m)"
        using found unfolding props_def by (auto split: option.splits json.splits)
      then have "sorted_json (JObject m)" "size (JObject m) < size s"
        using sorted_json_lookup less.prems size_json_entry [of "''properties''" "JObject m" obj]
        by (auto simp: s dest: map_of_SomeD)
      then have "draft7 float_value (normalize_property_schema float_value (snd e)) \<and>
          sorted_json (normalize_property_schema float_value (snd e))" if "e \<in> set m" for e
        using sub [of "snd e"] size_json_entry [of "fst e" "snd e" m] sorted_json_entry [of m "fst e" "snd e"] that by auto
      then have "\<forall>e \<in> set (map (\<lambda>(k, v). (k, normalize_property_schema float_value v)) m).
          draft7 float_value (snd e) \<and> sorted_json (snd e)" by (simp add: case_prod_beta)
      moreover have "sorted_obj (map (\<lambda>(k, v). (k, normalize_property_schema float_value v)) m)"
        using \<open>sorted_json (JObject m)\<close> by simp
      ultimately show ?thesis using m(2) by blast
    qed
    have look: "map_of ?r k = (if k = ''items'' then items else if k = ''properties'' then props
        else map_of (drop_keywords float_value obj) k)" for k by simp
    have sorted: "sorted_obj ?r" using less.prems by (simp add: s del: map_of_put_back)
    have kept: "kept_keyword float_value k v" if "map_of ?r k = Some v" for k v
      using that map_of_drop_keywords [of float_value obj k v] unfolding look
      by (auto simp: kept_keyword_def split: if_splits)
    have "draft7 float_value (JObject ?r)"
    proof (rule draft7.object)
      show "drop_keywords float_value ?r = ?r" by (rule drop_keywords_same [OF sorted kept])
      show "\<exists>props. v = JObject props \<and> (\<forall>e\<in>set props. draft7 float_value (snd e))"
        if "map_of ?r ''properties'' = Some v" for v
        using props [of v] that unfolding look by auto
      show "draft7 float_value v" if "map_of ?r ''items'' = Some v" for v
        using items [of v] that unfolding look by auto
    qed
    moreover have "sorted_json (JObject ?r)"
    proof (rule sorted_json_object [OF sorted])
      fix k v assume "map_of ?r k = Some v"
      then consider "items = Some v" | "props = Some v" | "map_of obj k = Some v"
        unfolding look using map_of_drop_keywords [of float_value obj k v] by (auto split: if_splits)
      then show "sorted_json v"
        using items props less.prems sorted_json_lookup [of obj k v] by cases (auto simp: s)
    qed
    ultimately show ?thesis
      by (simp add: s normalize_property_schema_object items_def props_def)
  qed
qed


lemma draft7_normalize_same:
  "draft7 float_value s \<Longrightarrow> sorted_json s \<Longrightarrow> normalize_property_schema float_value s = s"
proof (induction rule: draft7.induct)
  case (object obj)
  have entry: "sorted_json v" if "map_of obj k = Some v" for k v
    using object.prems that by (rule sorted_json_lookup)
  have sorted: "sorted_obj obj" using object.prems by simp
  have "map_option (normalize_property_schema float_value) (map_of obj ''items'') = map_of obj ''items''"
    using object.IH(2) entry by (cases "map_of obj ''items''") auto
  moreover have "(case map_of obj ''properties'' of
      Some (JObject props) \<Rightarrow> Some (JObject (map (\<lambda>(k, v). (k, normalize_property_schema float_value v)) props))
    | _ \<Rightarrow> None) = map_of obj ''properties''"
  proof (cases "map_of obj ''properties''")
    case (Some v)
    then obtain m where m: "v = JObject m" "\<And>e. e \<in> set m \<Longrightarrow> sorted_json (snd e) \<Longrightarrow> normalize_property_schema float_value (snd e) = snd e"
      using object.IH(1) by blast
    then have "map (\<lambda>(k, v). (k, normalize_property_schema float_value v)) m = m"
      using entry [OF Some] by (intro map_idI) (auto simp: case_prod_beta prod_eq_iff)
    then show ?thesis using Some m(1) by simp
  qed simp
  ultimately show ?case
    by (simp add: normalize_property_schema_object object.hyps put_back_same sorted)
qed simp

text \<open>The keywords that must not stand at the top, and the fields that must.\<close>

definition upstream_schema :: "json \<Rightarrow> bool" where
  "upstream_schema j =
     (case j of
        JObject obj \<Rightarrow>
          (\<forall>k \<in> {''$schema'', ''oneOf'', ''anyOf'', ''allOf''}. map_of obj k = None) \<and>
          map_of obj ''type'' = Some (JString ''object'') \<and>
          (\<exists>props. map_of obj ''properties'' = Some (JObject props)) \<and>
          (\<exists>names. map_of obj ''required'' = Some (JArray (map JString names))) \<and>
          (case map_of obj ''additionalProperties'' of
             Some (JBool _) \<Rightarrow> True | Some (JObject _) \<Rightarrow> True | _ \<Rightarrow> False)
      | _ \<Rightarrow> False)"

lemma recover_key_other: "k \<noteq> key \<Longrightarrow> map_of (recover_key m key obj) k = map_of obj k"
  by (simp add: recover_key_def split: option.split)

lemma recover_other:
  assumes "k \<notin> set RECOVERED_KEYS"
  shows "map_of (recover_variant variants obj) k = map_of obj k"
proof (cases "List.find is_object_variant variants")
  case (Some v)
  then show ?thesis
    using assms by (cases v) (simp_all add: recover_variant_def RECOVERED_KEYS_def recover_key_other)
qed (simp add: recover_variant_def)

lemma strip_combinator_lookup:
  assumes "k \<in> {''$schema'', ''oneOf'', ''anyOf'', ''allOf''}"
  shows "map_of (strip_combinator b c obj) k = (if k = c then None else map_of obj k)"
proof -
  have "map_of (recover_variant vs obj') k = map_of obj' k" for vs obj'
    using assms by (intro recover_other) (auto simp: RECOVERED_KEYS_def)
  then show ?thesis by (auto simp: strip_combinator_def Let_def split: option.split json.split)
qed

lemma strip_combinators_lookup:
  assumes "k \<in> {''$schema'', ''oneOf'', ''anyOf'', ''allOf''}"
  shows "map_of (strip_top_level_combinators obj) k = (if k = ''$schema'' then map_of obj k else None)"
  using assms by (auto simp: strip_top_level_combinators_def COMBINATORS_def strip_combinator_lookup)

lemma normal_required_strings: "\<exists>names. normal_required v = map JString names"
proof -
  have "List.map_filter (\<lambda>x. map_option JString (as_str x)) xs = map JString (List.map_filter as_str xs)" for xs
    by (induction xs) (auto simp: List.map_filter_def)
  then show ?thesis
    by (cases v; cases "the v") (auto simp: normal_required_def intro: exI [of _ "[]"])
qed

lemma map_of_normal_additional:
  "map_of (normal_additional obj) k =
     (if k = ''additionalProperties'' \<and> (case map_of obj k of Some (JBool _) \<Rightarrow> False | Some (JObject _) \<Rightarrow> False | _ \<Rightarrow> True)
      then Some (JBool True) else map_of obj k)"
  by (auto simp: normal_additional_def split: option.split json.split)

lemma sorted_json_sub:
  assumes "sorted_json (JObject m)" "sorted_obj m'" "map_of m' \<subseteq>\<^sub>m map_of m"
  shows "sorted_json (JObject m')"
  using assms(2,3) sorted_json_lookup [OF assms(1)] by (intro sorted_json_object) (auto simp: map_le_def dom_def)

lemma sorted_json_insert:
  assumes "sorted_json (JObject m)" "sorted_json v"
  shows "sorted_json (JObject (obj_insert k v m))"
proof (rule sorted_json_object)
  show "sorted_obj (obj_insert k v m)" using assms(1) by (intro sorted_obj_insert) simp
  show "sorted_json w" if "map_of (obj_insert k v m) k' = Some w" for k' w
    using that assms(2) sorted_json_lookup [OF assms(1), of k' w] by (simp split: if_splits)
qed

lemma sorted_json_remove:
  assumes "sorted_json (JObject m)"
  shows "sorted_json (JObject (map_remove k m))"
proof (rule sorted_json_sub [OF assms])
  show "sorted_obj (map_remove k m)" using assms by (intro sorted_map_remove) simp
qed (auto simp: map_le_def)

lemma sorted_json_recover_key:
  "sorted_json (JObject m) \<Longrightarrow> sorted_json (JObject obj) \<Longrightarrow> sorted_json (JObject (recover_key m key obj))"
  by (auto simp: recover_key_def obj_or_insert_def simp del: sorted_json.simps
      intro: sorted_json_insert sorted_json_lookup split: option.split)

lemma sorted_json_recover:
  assumes "\<And>v. v \<in> set variants \<Longrightarrow> sorted_json v" "sorted_json (JObject obj)"
  shows "sorted_json (JObject (recover_variant variants obj))"
proof (cases "List.find is_object_variant variants")
  case (Some v)
  then have "sorted_json v" using assms(1) by (auto simp: find_Some_iff in_set_conv_nth)
  moreover have "sorted_json (JObject m) \<Longrightarrow> sorted_json (JObject (fold (recover_key m) ks obj))" for m ks
    using assms(2) by (induction ks arbitrary: obj) (simp_all del: sorted_json.simps add: sorted_json_recover_key)
  ultimately show ?thesis
    using Some assms(2) by (cases v) (simp_all add: recover_variant_def del: sorted_json.simps)
qed (use assms(2) in \<open>simp add: recover_variant_def del: sorted_json.simps\<close>)

lemma sorted_json_strip:
  assumes "sorted_json (JObject obj)"
  shows "sorted_json (JObject (strip_top_level_combinators obj))"
proof -
  have "sorted_json (JObject (strip_combinator b c obj))" if "sorted_json (JObject obj)" for b c obj
  proof -
    have "sorted_json v" if "map_of obj c = Some (JArray vs)" "v \<in> set vs" for vs v
      using sorted_json_lookup [OF \<open>sorted_json (JObject obj)\<close> that(1)] that(2) by (simp add: list_all_iff)
    then show ?thesis
      using sorted_json_recover sorted_json_remove [OF that]
      by (auto simp: strip_combinator_def Let_def simp del: sorted_json.simps split: option.split json.split)
  qed
  then show ?thesis
    using assms by (simp add: strip_top_level_combinators_def COMBINATORS_def del: sorted_json.simps)
qed

lemma sorted_json_force: "sorted_json (JObject obj) \<Longrightarrow> sorted_json (JObject (force_object_type obj))"
  by (simp add: force_object_type_def sorted_json_insert del: sorted_json.simps(2))

lemma normal_properties_draft7:
  assumes "\<And>j. v = Some j \<Longrightarrow> sorted_json j"
  shows "sorted_json (JObject (normal_properties float_value v)) \<and>
    (\<forall>e \<in> set (normal_properties float_value v). draft7 float_value (snd e))"
proof (cases "\<exists>props. v = Some (JObject props)")
  case True
  then obtain props where v: "v = Some (JObject props)" by blast
  with assms have "sorted_json (JObject props)" by blast
  then show ?thesis
    using normalized_property [of _ float_value] by (auto simp: v normal_properties_def)
next
  case False
  then have "normal_properties float_value v = []"
    by (auto simp: normal_properties_def split: option.splits json.splits)
  then show ?thesis by simp
qed

text \<open>A schema that already has the normal form, with properties in theirs.\<close>

definition normal_schema :: "(string \<Rightarrow> f64) \<Rightarrow> json \<Rightarrow> bool" where
  "normal_schema float_value j \<longleftrightarrow> upstream_schema j \<and> sorted_json j \<and>
     (\<forall>props. json_get j ''properties'' = Some (JObject props) \<longrightarrow> (\<forall>e \<in> set props. draft7 float_value (snd e)))"

lemma normalized_object:
  assumes "sorted_json (JObject obj)"
    "\<forall>k \<in> {''$schema'', ''oneOf'', ''anyOf'', ''allOf''}. map_of obj k = None" "map_of obj ''type'' = Some (JString ''object'')"
  shows "normal_schema float_value (JObject (normal_additional
     (put_back ''required'' (Some (JArray (normal_required (map_of obj ''required''))))
       (put_back ''properties'' (Some (JObject (normal_properties float_value (map_of obj ''properties'')))) obj))))"
    (is "normal_schema float_value (JObject ?r)")
proof -
  let ?p = "normal_properties float_value (map_of obj ''properties'')"
  have p: "sorted_json (JObject ?p)" "\<forall>e \<in> set ?p. draft7 float_value (snd e)"
    using normal_properties_draft7 [of "map_of obj ''properties''" float_value] sorted_json_lookup [OF assms(1)] by blast+
  obtain names where names: "normal_required (map_of obj ''required'') = map JString names"
    using normal_required_strings by blast
  have look: "map_of ?r k =
      (if k = ''additionalProperties'' \<and> (case map_of obj k of Some (JBool _) \<Rightarrow> False | Some (JObject _) \<Rightarrow> False | _ \<Rightarrow> True)
       then Some (JBool True) else if k = ''required'' then Some (JArray (map JString names))
       else if k = ''properties'' then Some (JObject ?p) else map_of obj k)" for k
    by (cases "k = ''additionalProperties''") (simp_all add: map_of_normal_additional names)
  have sorted: "sorted_obj ?r"
    using assms(1) by (simp add: normal_additional_def put_back_def del: map_of_remove split: option.split json.split)
  have "sorted_json (JObject ?r)"
  proof (rule sorted_json_object [OF sorted])
    show "sorted_json v" if "map_of ?r k = Some v" for k v
      using that p(1) sorted_json_lookup [OF assms(1), of k v] unfolding look
      by (auto split: if_splits simp: list_all_iff)
  qed
  moreover have "upstream_schema (JObject ?r)"
    using assms(2,3) unfolding upstream_schema_def
    by (auto simp: look split: option.split json.split)
  ultimately show ?thesis
    using p(2) unfolding normal_schema_def by (auto simp: json_get_def look)
qed

lemma normalize_json_schema_normal:
  assumes "sorted_json s"
  shows "normal_schema float_value (normalize_json_schema float_value s)"
proof (cases "as_object s")
  case None
  have "normal_schema float_value empty_schema"
    by (simp add: normal_schema_def upstream_schema_def empty_schema_def json_object_def obj_of_def json_get_def
        exI [of _ "[]"])
  then show ?thesis using None by (cases s) (simp_all add: normalize_json_schema_def as_object_def)
next
  case (Some obj)
  then have s: "s = JObject obj" by (cases s) (simp_all add: as_object_def)
  let ?o = "force_object_type (strip_top_level_combinators (map_remove ''$schema'' obj))"
  have "sorted_json (JObject ?o)"
    using assms by (intro sorted_json_force sorted_json_strip sorted_json_remove) (simp add: s)
  moreover have "\<forall>k \<in> {''$schema'', ''oneOf'', ''anyOf'', ''allOf''}. map_of ?o k = None"
    by (simp add: force_object_type_def strip_combinators_lookup)
  moreover have "map_of ?o ''type'' = Some (JString ''object'')"
    by (simp add: force_object_type_def)
  ultimately show ?thesis
    using normalized_object [of ?o float_value] by (simp add: s normalize_json_schema_def Let_def)
qed

lemma map_remove_same: "map_of m k = None \<Longrightarrow> map_remove k m = m"
  by (force simp: map_remove_def filter_id_conv map_of_eq_None_iff)

lemma normal_schema_same:
  assumes "normal_schema float_value j"
  shows "normalize_json_schema float_value j = j"
proof -
  obtain obj props names where j: "j = JObject obj" "map_of obj ''properties'' = Some (JObject props)"
      "map_of obj ''required'' = Some (JArray (map JString names))"
    and keys: "map_of obj ''$schema'' = None" "map_of obj ''oneOf'' = None" "map_of obj ''anyOf'' = None"
      "map_of obj ''allOf'' = None" "map_of obj ''type'' = Some (JString ''object'')"
    and extra: "case map_of obj ''additionalProperties'' of Some (JBool _) \<Rightarrow> True | Some (JObject _) \<Rightarrow> True | _ \<Rightarrow> False"
    using assms unfolding normal_schema_def upstream_schema_def by (cases j) auto
  have sorted: "sorted_json (JObject obj)" "\<forall>e \<in> set props. draft7 float_value (snd e)"
    using assms j by (auto simp: normal_schema_def json_get_def)
  have "sorted_json (snd e)" if "e \<in> set props" for e
    using sorted_json_lookup [OF sorted(1) j(2)] that by simp
  then have p: "normal_properties float_value (map_of obj ''properties'') = props"
    using sorted(2) unfolding j(2) normal_properties_def
    by (auto intro!: map_idI simp: draft7_normalize_same)
  have r: "normal_required (map_of obj ''required'') = map JString names"
  proof -
    have "List.map_filter (\<lambda>x. map_option JString (as_str x)) (map JString xs) = map JString xs" for xs
      by (induction xs) (simp_all add: List.map_filter_def as_str_def)
    then show ?thesis by (simp add: normal_required_def j(3))
  qed
  have "normal_additional obj = obj"
    using extra by (auto simp: normal_additional_def split: option.splits json.splits)
  moreover have "force_object_type (strip_top_level_combinators (map_remove ''$schema'' obj)) = obj"
    using keys by (simp add: map_remove_same strip_top_level_combinators_def COMBINATORS_def strip_combinator_def
        force_object_type_def Let_def)
  ultimately show ?thesis
    using sorted(1) p r j by (simp add: normalize_json_schema_def put_back_same)
qed

text \<open>C7: Whatever schema a client sends for a tool, the schema sent upstream has the form the upstream accepts: an
  object without combinators at the top, with properties, required names and additional properties of the
  right kinds and no keyword of later drafts in its properties; and a schema of that form is sent as it is.\<close>

theorem schema_normal_form:
  assumes "sorted_json s"
  shows "normal_schema float_value (normalize_json_schema float_value s) \<and>
    (normal_schema float_value s \<longrightarrow> normalize_json_schema float_value s = s)"
  using normalize_json_schema_normal [OF assms] normal_schema_same by blast

definition nested_schema :: json where
  "nested_schema = JObject [(''anyOf'', JArray [JNull, JObject [(''properties'', JObject [(''n'',
     JObject [(''exclusiveMinimum'', JInt 0)])]), (''type'', JString ''object'')]]), (''type'', JString ''string'')]"

lemma schema_normal_form_witness:
  "sorted_json nested_schema \<and>
   normal_schema (\<lambda>_. NaN) (normalize_json_schema (\<lambda>_. NaN) nested_schema)"
proof -
  have "sorted_json nested_schema" by (simp add: nested_schema_def)
  then show ?thesis using schema_normal_form [of nested_schema "\<lambda>_. NaN"] by blast
qed


section \<open>Built-in tools\<close>

definition WRITE_TOOL_DESCRIPTION_SUFFIX :: string where
  "WRITE_TOOL_DESCRIPTION_SUFFIX = ''- IMPORTANT: If the content to write exceeds 150 lines, you MUST only write the first 50 lines using this tool, then use `Edit` tool to append the remaining content in chunks of no more than 50 lines each. If needed, leave a unique placeholder to help append content. Do NOT attempt to write all content at once.''"

definition EDIT_TOOL_DESCRIPTION_SUFFIX :: string where
  "EDIT_TOOL_DESCRIPTION_SUFFIX = ''- IMPORTANT: If the `new_string` content exceeds 50 lines, you MUST split it into multiple Edit calls, each replacing no more than 50 lines at a time. If used to append content, leave a unique placeholder to help append content. On the final chunk, do NOT include the placeholder.''"

definition BASH_TOOL_DESCRIPTION_SUFFIX :: string where
  "BASH_TOOL_DESCRIPTION_SUFFIX = ''- IMPORTANT: Do not send very large commands, inline scripts, or heredocs. If a command would exceed 100 lines or ~8000 characters, first create/modify a script file with chunked Write/Edit calls, then run a short command that executes it. Do not retry the same oversized command after a failure; split it smaller.''"

definition optional_schema :: "json \<Rightarrow> json" where
  "optional_schema schema =
     json_object [(''anyOf'', JArray [schema, json_object [(''type'', JString ''null'')]])]"

definition kiro_builtin_tool_description :: "string \<Rightarrow> string \<Rightarrow> string" where
  "kiro_builtin_tool_description kiro_name fallback =
     (if kiro_name = ''fs_write'' then ''Write text content to a file.'' @ [newline] @ WRITE_TOOL_DESCRIPTION_SUFFIX
      else if kiro_name = ''str_replace'' then ''Replace an exact string in a file.'' @ [newline] @ EDIT_TOOL_DESCRIPTION_SUFFIX
      else if kiro_name = ''execute_bash'' then ''Execute the specified bash command.'' @ [newline] @ BASH_TOOL_DESCRIPTION_SUFFIX
      else if kiro_name = ''read_file'' then ''Read a single file with optional line range specification.''
      else if kiro_name = ''file_search'' then ''Search for files by fuzzy file path query.''
      else if kiro_name = ''grep_search'' then ''Search file contents using a regex pattern.''
      else if kiro_name = ''list_directory'' then ''List directory contents.''
      else if kiro_name = ''web_search'' then ''Search the web for up-to-date information.''
      else if is_blank fallback then kiro_name else fallback)"

text \<open>A property with its type and description, and the object that has them.\<close>

definition described :: "string \<Rightarrow> string \<Rightarrow> json" where
  "described kind text = json_object [(''type'', JString kind), (''description'', JString text)]"

definition closed_schema :: "(string \<times> json) list \<Rightarrow> string list \<Rightarrow> json" where
  "closed_schema props names =
     json_object [(''type'', JString ''object''), (''properties'', json_object props),
       (''required'', JArray (map JString names)), (''additionalProperties'', JBool False)]"

definition kiro_builtin_tool_schema :: "string \<Rightarrow> json option" where
  "kiro_builtin_tool_schema kiro_name =
     (if kiro_name = ''fs_write'' then Some (closed_schema
        [(''path'', described ''string'' ''Absolute path to file.''),
         (''text'', described ''string'' ''Contents to write into the file.'')] [''path'', ''text''])
      else if kiro_name = ''str_replace'' then Some (closed_schema
        [(''path'', described ''string'' ''Absolute path to file.''),
         (''oldStr'', described ''string'' ''Exact string to replace.''),
         (''newStr'', described ''string'' ''Replacement string.'')] [''path'', ''oldStr'', ''newStr''])
      else if kiro_name = ''execute_bash'' then Some (closed_schema
        [(''command'', described ''string'' ''Bash command to execute.''),
         (''timeout'', optional_schema (described ''number'' ''Optional timeout in milliseconds.''))] [''command''])
      else if kiro_name = ''read_file'' then Some (closed_schema
        [(''path'', described ''string'' ''Path to file to read.''),
         (''start_line'', optional_schema (described ''number'' ''Starting line number.'')),
         (''end_line'', optional_schema (described ''number'' ''Ending line number.'')),
         (''explanation'', described ''string'' ''Why this file is being read.'')] [''path'', ''explanation''])
      else if kiro_name = ''file_search'' then Some (closed_schema
        [(''query'', described ''string'' ''Fuzzy filename query.''),
         (''explanation'', described ''string'' ''Why this search is being performed.''),
         (''excludePattern'', optional_schema (described ''string'' ''Glob pattern for files to exclude.'')),
         (''includeIgnoredFiles'', optional_schema (described ''string'' ''Whether to include ignored files, yes or no.''))]
        [''query'', ''explanation''])
      else if kiro_name = ''grep_search'' then Some (closed_schema
        [(''query'', json_object [(''type'', JString ''string''), (''minLength'', JInt 1),
            (''description'', JString ''Regex pattern to search for.'')]),
         (''caseSensitive'', optional_schema (described ''boolean'' ''Whether the search should be case sensitive.'')),
         (''includePattern'', optional_schema (described ''string'' ''Glob pattern for files to include.'')),
         (''excludePattern'', optional_schema (described ''string'' ''Glob pattern for files to exclude.'')),
         (''explanation'', optional_schema (described ''string'' ''Why this search is being performed.''))] [''query''])
      else if kiro_name = ''list_directory'' then Some (closed_schema
        [(''path'', described ''string'' ''Path to directory.''),
         (''depth'', optional_schema (described ''number'' ''Depth of recursive listing.'')),
         (''explanation'', described ''string'' ''Why this directory is being listed.'')] [''path'', ''explanation''])
      else if kiro_name = ''web_search'' then Some (closed_schema
        [(''query'', described ''string'' ''Search query.'')] [''query''])
      else None)"


section \<open>Tool definitions\<close>

text \<open>\<open>ConversionError\<close>; a reason in prose that is built around a name is that name.\<close>

datatype conversion_error =
    InvalidModel "invalid_model option"
  | EmptyMessages
  | InvalidMessageSequence string
  | UnsupportedToolMapping string

record tool_env =
  sha256_hex :: "string \<Rightarrow> string"
  float_value :: "string \<Rightarrow> f64"
  to_lowercase :: "string \<Rightarrow> string"

text \<open>\<open>char_indices().nth(n)\<close>: the offset at which the character of the given number starts.\<close>

fun nth_char_index :: "nat \<Rightarrow> nat \<Rightarrow> string \<Rightarrow> nat option" where
  "nth_char_index pos n [] = None"
| "nth_char_index pos n (c # cs) =
     (if is_continuation c then nth_char_index (Suc pos) n cs
      else if n = 0 then Some pos else nth_char_index (Suc pos) (n - 1) cs)"

definition MAX_DESCRIPTION_CHARS :: nat where "MAX_DESCRIPTION_CHARS = 10000"

definition limit_description :: "string \<Rightarrow> string" where
  "limit_description s =
     (case nth_char_index 0 MAX_DESCRIPTION_CHARS s of Some idx \<Rightarrow> take idx s | None \<Rightarrow> s)"

definition tool_spec ::
  "tool_env \<Rightarrow> tool_compatibility_mode \<Rightarrow> request_tool \<Rightarrow> string \<Rightarrow> conversion_error + tool_specification" where
  "tool_spec env mode t mapped_name =
     (let is_builtin = is_claude_code_mode mode \<and> claude_code_tool_name_to_kiro (tool_name t) \<noteq> None;
          description =
            (if is_builtin then kiro_builtin_tool_description mapped_name (tool_description t)
             else if is_blank (tool_description t) then tool_name t else tool_description t);
          schema =
            (if is_builtin then kiro_builtin_tool_schema mapped_name
             else Some (normalize_json_schema (float_value env) (JObject (input_schema t))))
      in case schema of
           None \<Rightarrow> Inl (UnsupportedToolMapping (tool_name t))
         | Some schema \<Rightarrow>
             Inr \<lparr>ts_name = mapped_name, ts_description = limit_description description, ts_input_schema = schema\<rparr>)"

fun convert_tools_loop ::
  "tool_env \<Rightarrow> tool_compatibility_mode \<Rightarrow> request_tool list \<Rightarrow> string list \<Rightarrow> name_map \<Rightarrow>
     conversion_error + (tool_specification list \<times> name_map)" where
  "convert_tools_loop env mode [] seen m = Inr ([], m)"
| "convert_tools_loop env mode (t # ts) seen m =
     (if is_claude_code_mode mode \<and> tool_name t = ''fs_append'' then convert_tools_loop env mode ts seen m
      else
        let (mapped_name, m) = map_client_tool_name_to_kiro (sha256_hex env) (tool_name t) m mode;
            key = to_lowercase env mapped_name
        in if key \<in> set seen then convert_tools_loop env mode ts seen m
           else
             (case tool_spec env mode t mapped_name of
                Inl e \<Rightarrow> Inl e
              | Inr spec \<Rightarrow>
                  (case convert_tools_loop env mode ts (key # seen) m of
                     Inl e \<Rightarrow> Inl e
                   | Inr (out, m) \<Rightarrow> Inr (spec # out, m))))"

definition convert_tools ::
  "tool_env \<Rightarrow> request_tool list option \<Rightarrow> name_map \<Rightarrow> tool_compatibility_mode \<Rightarrow>
     conversion_error + (tool_specification list \<times> name_map)" where
  "convert_tools env decls m mode =
     (case decls of None \<Rightarrow> Inr ([], m) | Some ts \<Rightarrow> convert_tools_loop env mode ts [] m)"

definition char_count :: "string \<Rightarrow> nat" where
  "char_count s = length (filter (\<lambda>c. \<not> is_continuation c) s)"

lemma nth_char_index_Some:
  "nth_char_index pos n s = Some i \<Longrightarrow> pos + n \<le> i \<and> i < pos + length s \<and> char_count (take (i - pos) s) = n"
proof (induction pos n s rule: nth_char_index.induct)
  case (2 pos n c cs)
  then show ?case
    by (cases "is_continuation c"; cases n) (auto simp: char_count_def take_Cons' Suc_diff_Suc split: if_splits)
qed simp

lemma nth_char_index_None: "nth_char_index pos n s = None \<Longrightarrow> char_count s \<le> n"
proof (induction pos n s rule: nth_char_index.induct)
  case (2 pos n c cs)
  then show ?case by (cases "is_continuation c"; cases n) (auto simp: char_count_def split: if_splits)
qed (simp add: char_count_def)

lemma char_count_limit: "char_count (limit_description s) \<le> MAX_DESCRIPTION_CHARS"
  using nth_char_index_Some [of 0 MAX_DESCRIPTION_CHARS s] nth_char_index_None [of 0 MAX_DESCRIPTION_CHARS s]
  by (auto simp: limit_description_def split: option.split)

lemma limit_description_Nil: "limit_description s = [] \<longleftrightarrow> s = []"
  using nth_char_index_Some [of 0 MAX_DESCRIPTION_CHARS s]
  by (auto simp: limit_description_def MAX_DESCRIPTION_CHARS_def split: option.splits)

text \<open>The name a tool has upstream, which does not depend on the names recorded so far.\<close>

definition upstream_name :: "tool_env \<Rightarrow> tool_compatibility_mode \<Rightarrow> string \<Rightarrow> string" where
  "upstream_name env mode name = fst (map_client_tool_name_to_kiro (sha256_hex env) name [] mode)"

lemma map_client_tool_name_fst:
  "fst (map_client_tool_name_to_kiro (sha256_hex env) name m mode) = upstream_name env mode name"
  by (simp add: upstream_name_def map_client_tool_name_to_kiro_def map_tool_name_def Let_def split: option.split)

definition tool_ok :: "tool_specification \<Rightarrow> bool" where
  "tool_ok s \<longleftrightarrow> length (ts_name s) \<le> tool_name_max_len \<and> char_count (ts_description s) \<le> MAX_DESCRIPTION_CHARS \<and>
     (ts_description s \<noteq> [] \<or> ts_name s = []) \<and> upstream_schema (ts_input_schema s)"

lemma builtin_schema_ok:
  assumes "claude_code_tool_name_to_kiro name = Some k"
  shows "\<exists>s. kiro_builtin_tool_schema k = Some s \<and> upstream_schema s" "length k \<le> tool_name_max_len"
    "kiro_builtin_tool_description k d \<noteq> []"
proof -
  have closed: "upstream_schema (closed_schema props names)" for props names
    by (auto simp: closed_schema_def json_object_def obj_of_def upstream_schema_def)
  show "\<exists>s. kiro_builtin_tool_schema k = Some s \<and> upstream_schema s" "length k \<le> tool_name_max_len"
    "kiro_builtin_tool_description k d \<noteq> []"
    using assms
    by (auto simp: claude_code_tool_name_to_kiro_def kiro_builtin_tool_schema_def closed tool_name_max_len_def
        kiro_builtin_tool_description_def split: if_splits)
qed

text \<open>The upstream does not distinguish the case of names.\<close>

definition spec_key :: "tool_env \<Rightarrow> tool_specification \<Rightarrow> string" where
  "spec_key env s = to_lowercase env (ts_name s)"

definition hidden_tool :: "tool_compatibility_mode \<Rightarrow> request_tool \<Rightarrow> bool" where
  "hidden_tool mode t \<longleftrightarrow> is_claude_code_mode mode \<and> tool_name t = ''fs_append''"

lemma tool_spec_ok:
  assumes "\<And>s. 8 \<le> length (sha256_hex env s)" "sorted_json (JObject (input_schema t))"
  shows "\<exists>s. tool_spec env mode t (upstream_name env mode (tool_name t)) = Inr s \<and>
    ts_name s = upstream_name env mode (tool_name t) \<and> tool_ok s"
proof (cases "if is_claude_code_mode mode then claude_code_tool_name_to_kiro (tool_name t) else None")
  case None
  then have name: "upstream_name env mode (tool_name t) = fst (map_tool_name (sha256_hex env) (tool_name t) [])"
    by (simp add: upstream_name_def map_client_tool_name_to_kiro_def)
  have "length (fst (map_tool_name (sha256_hex env) (tool_name t) [])) \<le> tool_name_max_len \<and>
      (tool_name t = [] \<longrightarrow> fst (map_tool_name (sha256_hex env) (tool_name t) []) = [])"
    using length_shorten_tool_name [of "sha256_hex env" "tool_name t"] assms(1) by (simp add: map_tool_name_def Let_def)
  moreover have "upstream_schema (normalize_json_schema (float_value env) (JObject (input_schema t)))"
    using normalize_json_schema_normal [OF assms(2)] by (simp add: normal_schema_def)
  moreover have "tool_description t \<noteq> []" if "\<not> is_blank (tool_description t)"
    using that by (auto simp: is_blank_def trim_def trim_start_def trim_end_def)
  ultimately show ?thesis
    using None by (auto simp: tool_spec_def name tool_ok_def char_count_limit limit_description_Nil Let_def split: if_splits)
next
  case (Some k)
  then have k: "is_claude_code_mode mode" "claude_code_tool_name_to_kiro (tool_name t) = Some k"
    by (simp_all split: if_splits)
  then have "upstream_name env mode (tool_name t) = k"
    by (simp add: upstream_name_def map_client_tool_name_to_kiro_def)
  then show ?thesis
    using k builtin_schema_ok [OF k(2)]
    by (auto simp: tool_spec_def tool_ok_def char_count_limit limit_description_Nil Let_def)
qed

lemma convert_tools_loop_ok:
  assumes "\<And>s. 8 \<le> length (sha256_hex env s)" "\<forall>t \<in> set ts. sorted_json (JObject (input_schema t))"
  shows "\<exists>out m'. convert_tools_loop env mode ts seen m = Inr (out, m') \<and> list_all tool_ok out \<and>
    distinct (map (spec_key env) out) \<and> set seen \<inter> set (map (spec_key env) out) = {} \<and>
    (\<forall>t \<in> set ts. \<not> hidden_tool mode t \<longrightarrow>
       to_lowercase env (upstream_name env mode (tool_name t)) \<in> set seen \<union> set (map (spec_key env) out))"
  using assms(2)
proof (induction ts arbitrary: seen m)
  case (Cons t ts)
  let ?key = "to_lowercase env (upstream_name env mode (tool_name t))"
  obtain m1 where m1: "map_client_tool_name_to_kiro (sha256_hex env) (tool_name t) m mode = (upstream_name env mode (tool_name t), m1)"
    using map_client_tool_name_fst [of env "tool_name t" m mode] by (metis prod.collapse)
  obtain s where s: "tool_spec env mode t (upstream_name env mode (tool_name t)) = Inr s"
      "ts_name s = upstream_name env mode (tool_name t)" "tool_ok s"
    using tool_spec_ok [OF assms(1)] Cons.prems by (metis list.set_intros(1))
  consider "hidden_tool mode t" | "\<not> hidden_tool mode t" "?key \<in> set seen" | "\<not> hidden_tool mode t" "?key \<notin> set seen" by blast
  then show ?case
  proof cases
    case 1
    then show ?thesis using Cons.IH [of seen m] Cons.prems by (auto simp: hidden_tool_def)
  next
    case 2
    then show ?thesis using Cons.IH [of seen m1] Cons.prems m1 by (auto simp: hidden_tool_def)
  next
    case 3
    obtain out m' where out: "convert_tools_loop env mode ts (?key # seen) m1 = Inr (out, m')" "list_all tool_ok out"
        "distinct (map (spec_key env) out)"
        "set (?key # seen) \<inter> set (map (spec_key env) out) = {}"
        "\<forall>t \<in> set ts. \<not> hidden_tool mode t \<longrightarrow>
           to_lowercase env (upstream_name env mode (tool_name t)) \<in> set (?key # seen) \<union> set (map (spec_key env) out)"
      using Cons.IH [of "?key # seen" m1] Cons.prems by (meson list.set_intros(2))
    have eq: "convert_tools_loop env mode (t # ts) seen m = Inr (s # out, m')"
      using 3 m1 s(1) out(1) by (auto simp: hidden_tool_def)
    have "spec_key env s = ?key" using s(2) by (simp add: spec_key_def)
    then show ?thesis unfolding eq using out(2-5) s(3) 3 by (auto simp del: convert_tools_loop.simps)
  qed
qed simp

text \<open>C8: Every list of tools converts: the definitions sent upstream have names of different letters, not longer than
  the upstream takes, descriptions that are there and not too long and schemas in normal form, and every tool of
  the client that is not hidden has one.\<close>

theorem converted_tools_accepted:
  assumes "\<And>s. 8 \<le> length (sha256_hex env s)" "\<forall>t \<in> set ts. sorted_json (JObject (input_schema t))"
  shows "\<exists>out m'. convert_tools env (Some ts) m mode = Inr (out, m') \<and> list_all tool_ok out \<and>
    distinct (map (spec_key env) out) \<and>
    (\<forall>t \<in> set ts. \<not> hidden_tool mode t \<longrightarrow>
       to_lowercase env (upstream_name env mode (tool_name t)) \<in> set (map (spec_key env) out))"
  using convert_tools_loop_ok [OF assms, of mode "[]" m] by (simp add: convert_tools_def)

definition sample_tool :: "string \<Rightarrow> request_tool" where
  "sample_tool name =
     \<lparr>tool_type = None, tool_name = name, tool_description = ''Own'', input_schema = [], max_uses = None,
      tool_cache_control = None\<rparr>"

definition sample_tool_env :: tool_env where
  "sample_tool_env =
     \<lparr>sha256_hex = \<lambda>s. ''0123456789abcdef'', float_value = \<lambda>s. NaN, to_lowercase = to_ascii_lowercase\<rparr>"

lemma converted_tools_accepted_witness:
  "\<exists>out m'. convert_tools sample_tool_env (Some [sample_tool ''Bash'', sample_tool ''query'']) [] ClaudeCode = Inr (out, m') \<and>
     list_all tool_ok out \<and> ''query'' \<in> set (map (spec_key sample_tool_env) out)"
proof -
  have env: "8 \<le> length (sha256_hex sample_tool_env s)" for s by (simp add: sample_tool_env_def)
  have ts: "\<forall>t \<in> set [sample_tool ''Bash'', sample_tool ''query'']. sorted_json (JObject (input_schema t))"
    by (simp add: sample_tool_def)
  have "to_lowercase sample_tool_env (upstream_name sample_tool_env ClaudeCode (tool_name (sample_tool ''query''))) = ''query''"
    by code_simp
  moreover have "\<not> hidden_tool ClaudeCode (sample_tool ''query'')" by (simp add: hidden_tool_def sample_tool_def)
  ultimately show ?thesis
    using converted_tools_accepted [OF env ts, of "[]" ClaudeCode] by (metis list.set_intros)
qed

text \<open>A tool of the client that has the name of a built-in tool is sent with the client's schema; when the
  client also has the tool that is mapped to this name, calls of the first are given back as calls of the second.\<close>

lemma own_tool_restored_as_builtin:
  "\<exists>s. convert_tools sample_tool_env (Some [sample_tool ''execute_bash'', sample_tool ''Bash'']) [] ClaudeCode =
         Inr ([s], [(''execute_bash'', ''Bash'')]) \<and>
       ts_name s = ''execute_bash'' \<and> ts_description s = ''Own'' \<and>
       fst (restore_tool_use_for_client ''execute_bash'' input [(''execute_bash'', ''Bash'')]) = ''Bash''"
proof -
  define s where "s = \<lparr>ts_name = ''execute_bash'', ts_description = ''Own'', ts_input_schema =
      normalize_json_schema (float_value sample_tool_env) (JObject [])\<rparr>"
  have "tool_spec sample_tool_env ClaudeCode (sample_tool ''execute_bash'') ''execute_bash'' = Inr s"
    unfolding s_def by code_simp
  then have "convert_tools sample_tool_env (Some [sample_tool ''execute_bash'', sample_tool ''Bash'']) [] ClaudeCode =
      Inr ([s], [(''execute_bash'', ''Bash'')])"
    by (simp add: convert_tools_def sample_tool_def map_client_tool_name_to_kiro_def is_claude_code_mode_def
        claude_code_tool_name_to_kiro_def map_tool_name_def tool_name_max_len_def map_insert_def)
  then show ?thesis by (simp add: s_def restore_tool_use_for_client_def)
qed

end
