(* ===== verification/ImageScaling.thy ===== *)
theory ImageScaling
  imports PromptBlocks UpstreamErrors
begin

text \<open>
  Downscaling of inbound images (\<open>src/image_resize.rs\<close>): small images pass, a large one is scaled to the
  limit of its long side and encoded as JPEG, with falling quality and then falling size until it fits
  the budget.  Decoding, resampling and encoding are the \<open>image\<close> and \<open>base64\<close> crates' and are the fields of
  \<open>image_codec\<close>; a decoded image is its dimensions and pixels.  The termination of both loops is proved,
  the outer one through the rounding of single precision.
\<close>

section \<open>Configuration\<close>

definition DEFAULT_MAX_LONG_SIDE :: u32 where "DEFAULT_MAX_LONG_SIDE = 1568"
definition DEFAULT_MAX_BYTES :: nat where "DEFAULT_MAX_BYTES = 400000"
definition DEFAULT_JPEG_QUALITY :: u8 where "DEFAULT_JPEG_QUALITY = 85"

record resize_config =
  resize_enabled :: bool
  max_long_side :: u32
  max_bytes :: nat
  jpeg_quality :: u8

definition parse_below :: "nat \<Rightarrow> string \<Rightarrow> nat option" where
  "parse_below bound s = (case parse_u64 s of Some n \<Rightarrow> if n < bound then Some n else None | None \<Rightarrow> None)"

definition setting :: "(string \<Rightarrow> string option) \<Rightarrow> string \<Rightarrow> nat \<Rightarrow> nat \<Rightarrow> nat" where
  "setting var name bound default_value =
     (case var name of
        Some s \<Rightarrow> (case parse_below bound s of Some n \<Rightarrow> n | None \<Rightarrow> default_value)
      | None \<Rightarrow> default_value)"

definition resize_config_from_env :: "(string \<Rightarrow> string option) \<Rightarrow> resize_config" where
  "resize_config_from_env var =
     \<lparr>resize_enabled =
        to_ascii_lowercase (case var ''KIRO_RS_IMAGE_RESIZE'' of Some s \<Rightarrow> s | None \<Rightarrow> ''1'')
          \<notin> {''0'', ''false'', ''no'', ''off''},
      max_long_side =
        of_nat (setting var ''KIRO_RS_IMAGE_MAX_LONG_SIDE'' (2 ^ 32) (unat DEFAULT_MAX_LONG_SIDE)),
      max_bytes = setting var ''KIRO_RS_IMAGE_MAX_BYTES'' (2 ^ 64) DEFAULT_MAX_BYTES,
      jpeg_quality = of_nat (setting var ''KIRO_RS_IMAGE_JPEG_QUALITY'' (2 ^ 8) (unat DEFAULT_JPEG_QUALITY))\<rparr>"

section \<open>Single precision\<close>

text \<open>The nearest number of single precision to a positive number that is neither too large nor subnormal.\<close>

definition f32_of_rat :: "rat \<Rightarrow> rat" where
  "f32_of_rat x =
     (if x \<le> 0 then 0
      else let q = exponent x - 23 in of_int (round_half_even (x / two_pow q)) * two_pow q)"

definition f32_of_u32 :: "u32 \<Rightarrow> rat" where
  "f32_of_u32 n = f32_of_rat (of_nat (unat n))"

definition f32_as_u32 :: "rat \<Rightarrow> u32" where
  "f32_as_u32 x = word_of_int (max 0 (min (2 ^ 32 - 1) \<lfloor>x\<rfloor>))"

text \<open>\<open>((side as f32) * scale).round().max(1.0) as u32\<close>.\<close>

definition scaled_side :: "rat \<Rightarrow> u32 \<Rightarrow> u32" where
  "scaled_side scale side = f32_as_u32 (max 1 (of_int \<lfloor>f32_of_rat (f32_of_u32 side * scale) + 1 / 2\<rfloor>))"

section \<open>Shrinking\<close>

record raster =
  r_width :: u32
  r_height :: u32
  r_pixels :: string

record image_codec =
  prompt_codec :: prompt_env
  detect_format :: "string \<Rightarrow> image_format option"
  decode_raster :: "image_format option \<Rightarrow> string \<Rightarrow> raster option"
  resize_exact :: "u32 \<Rightarrow> u32 \<Rightarrow> raster \<Rightarrow> raster"
  encode_jpeg :: "u8 \<Rightarrow> raster \<Rightarrow> string option"
  base64_encode :: "string \<Rightarrow> string"

record processed_image =
  pi_format :: string
  pi_data_base64 :: string
  was_resized :: bool
  original_bytes :: nat
  final_bytes :: nat

datatype resize_error = Base64Error | DecodeError | EncodeError

definition MIN_JPEG_QUALITY :: u8 where "MIN_JPEG_QUALITY = 35"
definition MIN_LONG_SIDE :: u32 where "MIN_LONG_SIDE = 256"

definition fits_budget :: "nat \<Rightarrow> string \<Rightarrow> bool" where
  "fits_budget limit out \<longleftrightarrow> min (4 * length out) (2 ^ 64 - 1) div 3 \<le> limit"

definition lower_quality :: "u8 \<Rightarrow> u8" where
  "lower_quality q = max (sat_sub q 10) MIN_JPEG_QUALITY"

lemma lower_quality_less: "\<not> q \<le> MIN_JPEG_QUALITY \<Longrightarrow> lower_quality q < q"
  by (auto simp: lower_quality_def MIN_JPEG_QUALITY_def sat_sub_def max_def word_less_nat_alt word_le_nat_alt
      unat_sub_if' split: if_splits)

function encode_within :: "image_codec \<Rightarrow> nat \<Rightarrow> raster \<Rightarrow> u8 \<Rightarrow> string option" where
  "encode_within codec limit img quality =
     (case encode_jpeg codec quality img of
        None \<Rightarrow> None
      | Some out \<Rightarrow>
          if fits_budget limit out \<or> quality \<le> MIN_JPEG_QUALITY then Some out
          else encode_within codec limit img (lower_quality quality))"
  by pat_completeness auto

termination
  by (relation "measure (\<lambda>(_, _, _, q). unat q)") (use lower_quality_less in \<open>auto simp: word_less_nat_alt\<close>)

declare encode_within.simps [simp del]

definition long_side :: "raster \<Rightarrow> u32" where
  "long_side img = max (r_width img) (r_height img)"

definition scale_to :: "image_codec \<Rightarrow> u32 \<Rightarrow> raster \<Rightarrow> raster" where
  "scale_to codec cur_long img =
     (if cur_long < long_side img
      then
        let scale = f32_of_rat (f32_of_u32 cur_long / f32_of_u32 (long_side img))
        in resize_exact codec (scaled_side scale (r_width img)) (scaled_side scale (r_height img)) img
      else img)"

definition next_long :: "u32 \<Rightarrow> u32" where
  "next_long cur_long = max (f32_as_u32 (f32_of_rat (f32_of_u32 cur_long * f32_of_rat (4 / 5)))) MIN_LONG_SIDE"

lemma two_pow_diff: "two_pow (int a - int b) = 2 ^ a / 2 ^ b"
proof (cases "b \<le> a")
  case True
  then have "nat (int a - int b) = a - b" by simp
  with True show ?thesis by (simp add: two_pow_def power_diff)
next
  case False
  then have "nat (- (int a - int b)) = b - a" by simp
  with False show ?thesis by (simp add: two_pow_def power_diff)
qed

lemma exponent_le:
  assumes "0 < x"
  shows "two_pow (exponent x) \<le> x"
proof -
  obtain n d where q: "quotient_of x = (n, d)" by (cases "quotient_of x")
  have x: "x = of_int n / of_int d" "0 < d" using quotient_of_div [OF q] quotient_of_denom_pos [OF q] by auto
  then have n: "0 < n" using assms by (simp add: zero_less_divide_iff)
  define kn where "kn = floorlog 2 (nat n)" define kd where "kd = floorlog 2 (nat d)"
  have kn: "2 ^ (kn - 1) \<le> nat n" "0 < kn"
    using floorlog_bounds [of "nat n" 2] n by (auto simp: kn_def floorlog_def)
  have kd: "nat d < 2 ^ kd" using floorlog_bounds [of "nat d" 2] x(2) by (auto simp: kd_def)
  have "two_pow (int kn - int kd - 1) \<le> x"
  proof -
    have "two_pow (int kn - int kd - 1) = 2 ^ (kn - 1) / 2 ^ kd"
      using two_pow_diff [of "kn - 1" kd] kn(2) by (simp add: of_nat_diff algebra_simps)
    also have "\<dots> \<le> of_int n / of_int d"
    proof (rule frac_le)
      show "(2 :: rat) ^ (kn - 1) \<le> of_int n"
        using kn(1) n by (metis of_int_le_iff of_int_numeral of_int_power of_nat_le_iff of_nat_numeral of_nat_power int_nat_eq less_imp_le)
      show "of_int d \<le> (2 :: rat) ^ kd"
        using kd x(2) by (metis of_int_le_iff of_int_numeral of_int_power of_nat_le_iff of_nat_numeral of_nat_power int_nat_eq less_imp_le)
    qed (use n x(2) in auto)
    finally show ?thesis using x(1) by simp
  qed
  then show ?thesis
    using q by (simp add: exponent_def Let_def kn_def kd_def)
qed

lemma round_half_even_le: "of_int (round_half_even x) \<le> x + 1 / 2"
proof -
  have "x - of_int \<lfloor>x\<rfloor> < 1" "of_int \<lfloor>x\<rfloor> \<le> x + 1 / 2" by linarith+
  then show ?thesis by (auto simp: round_half_even_def Let_def)
qed

lemma round_half_even_ge: "x - 1 / 2 \<le> of_int (round_half_even x)"
proof -
  have "x - 1 / 2 \<le> of_int \<lfloor>x\<rfloor> \<or> \<not> x - of_int \<lfloor>x\<rfloor> < 1 / 2" "x < of_int \<lfloor>x\<rfloor> + 1" by linarith+
  then show ?thesis by (auto simp: round_half_even_def Let_def)
qed

lemma half_ulp: "0 < x \<Longrightarrow> two_pow (exponent x - 23) / 2 \<le> x / 2 ^ 24"
proof -
  assume x: "0 < x"
  have "two_pow (e - 23) = two_pow e / 2 ^ 23" for e
  proof (cases "0 \<le> e")
    case True
    then show ?thesis using two_pow_diff [of "nat e" 23] by (simp add: two_pow_def)
  next
    case False
    then show ?thesis using two_pow_diff [of 0 "nat (- e) + 23"] by (simp add: two_pow_def power_add nat_diff_distrib)
  qed
  then show ?thesis using exponent_le [OF x] by (simp add: field_simps)
qed

text \<open>Rounding to single precision adds or takes at most one part in \<open>2 ^ 24\<close>.\<close>

lemma f32_of_rat_near:
  assumes "0 \<le> x"
  shows "x * (1 - 1 / 2 ^ 24) \<le> f32_of_rat x" "f32_of_rat x \<le> x * (1 + 1 / 2 ^ 24)"
proof -
  let ?p = "two_pow (exponent x - 23)"
  have both: "x * (1 - 1 / 2 ^ 24) \<le> f32_of_rat x \<and> f32_of_rat x \<le> x * (1 + 1 / 2 ^ 24)"
  proof (cases "0 < x")
    case True
    have "of_int (round_half_even (x / ?p)) * ?p \<le> (x / ?p + 1 / 2) * ?p"
      by (intro mult_right_mono round_half_even_le) (simp add: less_imp_le)
    also have "\<dots> = x + ?p / 2" using two_pow_pos [of "exponent x - 23"] by (simp add: field_simps less_imp_neq [symmetric])
    finally have le: "f32_of_rat x \<le> x + ?p / 2" using True by (simp add: f32_of_rat_def Let_def)
    have "x - ?p / 2 = (x / ?p - 1 / 2) * ?p"
      using two_pow_pos [of "exponent x - 23"] by (simp add: field_simps less_imp_neq [symmetric])
    also have "\<dots> \<le> of_int (round_half_even (x / ?p)) * ?p"
      by (intro mult_right_mono round_half_even_ge) (simp add: less_imp_le)
    finally have "x - ?p / 2 \<le> f32_of_rat x" using True by (simp add: f32_of_rat_def Let_def)
    with le half_ulp [OF True] show ?thesis by (simp add: distrib_left right_diff_distrib)
  qed (use assms in \<open>simp add: f32_of_rat_def\<close>)
  show "x * (1 - 1 / 2 ^ 24) \<le> f32_of_rat x" "f32_of_rat x \<le> x * (1 + 1 / 2 ^ 24)" using both by simp_all
qed

lemmas f32_of_rat_le = f32_of_rat_near(2) [OF less_imp_le]

lemma f32_eight_tenths: "f32_of_rat (4 / 5) = 13421773 / 2 ^ 24"
  by code_simp

lemma f32_of_rat_le': "x \<le> y \<Longrightarrow> 0 \<le> y \<Longrightarrow> f32_of_rat x \<le> y * (1 + 1 / 2 ^ 24)"
proof (cases "0 < x")
  case True
  assume "x \<le> y"
  then have "x * (1 + 1 / 2 ^ 24) \<le> y * (1 + 1 / 2 ^ 24)" by (intro mult_right_mono) auto
  then show ?thesis using f32_of_rat_le [OF True] by linarith
qed (simp add: f32_of_rat_def)

lemma next_long_less:
  assumes "\<not> c \<le> MIN_LONG_SIDE"
  shows "next_long c < c"
proof -
  define n where "n = unat c"
  have n: "256 < n" using assms by (simp add: MIN_LONG_SIDE_def n_def word_le_nat_alt)
  define p where "p = f32_of_u32 c * f32_of_rat (4 / 5)"
  have "f32_of_u32 c \<le> of_nat n * (1 + 1 / 2 ^ 24)"
    by (simp only: f32_of_u32_def n_def [symmetric]) (intro f32_of_rat_le', simp_all)
  then have "p \<le> of_nat n * (1 + 1 / 2 ^ 24) * (13421773 / 2 ^ 24)"
    unfolding p_def f32_eight_tenths by (intro mult_right_mono) auto
  from f32_of_rat_le' [OF this]
  have "f32_of_rat p \<le> of_nat n * (1 + 1 / 2 ^ 24) * (13421773 / 2 ^ 24) * (1 + 1 / 2 ^ 24)" by simp
  also have "\<dots> \<le> of_nat n * (9 / 10)" by (simp add: field_simps)
  also have "\<dots> < of_nat n" using n by simp
  finally have "\<lfloor>f32_of_rat p\<rfloor> < int n" by linarith
  moreover have "uint (word_of_int z :: u32) = z" if "0 \<le> z" "z < 2 ^ 32" for z
    using that by (simp add: unsigned_of_int take_bit_int_eq_self)
  ultimately have "uint (f32_as_u32 (f32_of_rat p)) < int n"
    using n by (simp add: f32_as_u32_def)
  then have "unat (f32_as_u32 (f32_of_rat p)) < n"
    by (simp only: uint_nat of_nat_less_iff)
  then show ?thesis
    using n assms unfolding next_long_def p_def [symmetric] by (auto simp: word_less_nat_alt word_le_nat_alt n_def max_def)
qed

text \<open>A side of the scaled image is the side times the exact ratio, rounded, and at least one: the roundings of
  single precision cannot be seen below \<open>2 ^ 20\<close>.\<close>

definition scaled_near :: "u32 \<Rightarrow> u32 \<Rightarrow> u32 \<Rightarrow> u32 \<Rightarrow> bool" where
  "scaled_near cur_long long side scaled \<longleftrightarrow>
     \<bar>of_nat (unat scaled) - max 1 (of_nat (unat side) * of_nat (unat cur_long) / of_nat (unat long))\<bar> < (1 :: rat)"

lemma f32_product_near:
  assumes "0 \<le> w" "0 \<le> c" "0 < l"
  defines "r \<equiv> f32_of_rat (f32_of_rat w * f32_of_rat (f32_of_rat c / f32_of_rat l))"
  shows "w * c / l * (1 - 6 / 2 ^ 24) \<le> r" "r \<le> w * c / l * (1 + 6 / 2 ^ 24)"
proof -
  define e :: rat where "e = 1 / 2 ^ 24"
  note near = f32_of_rat_near [folded e_def]
  have e: "0 < 1 - e" "0 < 1 + e" by (simp_all add: e_def)
  have l: "l * (1 - e) \<le> f32_of_rat l" "f32_of_rat l \<le> l * (1 + e)" "0 < l * (1 - e)" "0 < l * (1 + e)"
    using near [of l] assms(3) e by simp_all
  then have L: "0 < f32_of_rat l" by linarith
  have c: "0 \<le> f32_of_rat c" "0 \<le> f32_of_rat w" using near(1) [of c] near(1) [of w] assms e by (meson mult_nonneg_nonneg order_trans less_imp_le)+
  define s where "s = f32_of_rat c / f32_of_rat l"
  have s: "c * (1 - e) / (l * (1 + e)) \<le> s" "s \<le> c * (1 + e) / (l * (1 - e))" "0 \<le> s"
    unfolding s_def using near [of c] l L c assms e by (auto intro!: frac_le divide_nonneg_pos)
  have t: "c * (1 - e) / (l * (1 + e)) * (1 - e) \<le> f32_of_rat s" "f32_of_rat s \<le> c * (1 + e) / (l * (1 - e)) * (1 + e)"
    using near [OF s(3)] s e mult_right_mono [OF s(1), of "1 - e"] mult_right_mono [OF s(2), of "1 + e"] by auto
  have n: "0 \<le> c * (1 - e) / (l * (1 + e)) * (1 - e)" using assms e by simp
  have p: "w * (1 - e) * (c * (1 - e) / (l * (1 + e)) * (1 - e)) \<le> f32_of_rat w * f32_of_rat s"
    "f32_of_rat w * f32_of_rat s \<le> w * (1 + e) * (c * (1 + e) / (l * (1 - e)) * (1 + e))"
    using near [OF assms(1)] t n c assms e order_trans [OF n t(1)] by (intro mult_mono; force)+
  have q: "0 \<le> f32_of_rat w * f32_of_rat s" using c order_trans [OF n t(1)] by simp
  have "w * (1 - e) * (c * (1 - e) / (l * (1 + e)) * (1 - e)) * (1 - e) \<le> r"
    "r \<le> w * (1 + e) * (c * (1 + e) / (l * (1 - e)) * (1 + e)) * (1 + e)"
    using near [OF q] mult_right_mono [OF p(1), of "1 - e"] mult_right_mono [OF p(2), of "1 + e"] e
    by (simp_all add: r_def s_def)
  moreover have "w * (1 - e) * (c * (1 - e) / (l * (1 + e)) * (1 - e)) * (1 - e) = w * c / l * ((1 - e) ^ 4 / (1 + e))"
    "w * (1 + e) * (c * (1 + e) / (l * (1 - e)) * (1 + e)) * (1 + e) = w * c / l * ((1 + e) ^ 4 / (1 - e))"
    by (simp_all add: power4_eq_xxxx)
  moreover have "1 - 6 / 2 ^ 24 \<le> (1 - e) ^ 4 / (1 + e)" "(1 + e) ^ 4 / (1 - e) \<le> 1 + 6 / 2 ^ 24"
    by (simp_all add: e_def power_divide field_simps)
  moreover have "0 \<le> w * c / l" using assms by simp
  ultimately show "w * c / l * (1 - 6 / 2 ^ 24) \<le> r" "r \<le> w * c / l * (1 + 6 / 2 ^ 24)"
    by (metis mult_left_mono order_trans)+
qed

lemma unat_f32_as_u32:
  assumes "0 \<le> z" "z < 2 ^ 32"
  shows "int (unat (f32_as_u32 (of_int z))) = z"
  using assms by (simp add: f32_as_u32_def unsigned_of_int take_bit_int_eq_self uint_nat [symmetric])

lemma scaled_side_near:
  assumes "cur_long < long" "side \<le> long" "unat cur_long \<le> 2 ^ 20"
  shows "scaled_near cur_long long side
    (scaled_side (f32_of_rat (f32_of_u32 cur_long / f32_of_u32 long)) side)"
proof -
  define w c l :: rat where "w = of_nat (unat side)" and "c = of_nat (unat cur_long)" and "l = of_nat (unat long)"
  have "of_nat m \<le> (2 ^ 20 :: rat)" if "m \<le> 2 ^ 20" for m :: nat
    using of_nat_mono [OF that, where 'a = rat] by simp
  then have o: "0 \<le> w" "0 \<le> c" "0 < l" "w \<le> l" "c \<le> 2 ^ 20"
    unfolding w_def c_def l_def using assms unfolding word_less_nat_alt word_le_nat_alt
    by (simp_all only: of_nat_0_le_iff of_nat_0_less_iff of_nat_le_iff)
  define r where "r = f32_of_rat (f32_of_rat w * f32_of_rat (f32_of_rat c / f32_of_rat l))"
  define x where "x = w * c / l"
  have x: "0 \<le> x" "x \<le> c" using o mult_right_mono [of w l c] by (simp_all add: x_def divide_le_eq mult.commute)
  have "\<bar>r - x\<bar> \<le> x * 6 / 2 ^ 24"
    using f32_product_near [OF o(1-3)] by (simp add: r_def x_def abs_le_iff algebra_simps)
  also have "\<dots> \<le> 3 / 8" using x o(5) by simp
  finally have near: "\<bar>r - x\<bar> \<le> 3 / 8" .
  define z where "z = \<lfloor>r + 1 / 2\<rfloor>"
  have z: "\<bar>of_int z - x\<bar> < 1" using near unfolding z_def by linarith
  then have "of_int z < (2 ^ 21 :: rat)" using x o(5) by simp
  then have "z < 2 ^ 21" using of_int_less_iff [of z "2 ^ 21", where 'a = rat] by simp
  then have m: "int (unat (f32_as_u32 (of_int (max 1 z)))) = max 1 z" by (intro unat_f32_as_u32) auto
  have "scaled_side (f32_of_rat (f32_of_u32 cur_long / f32_of_u32 long)) side = f32_as_u32 (of_int (max 1 z))"
    by (simp add: scaled_side_def f32_of_u32_def w_def c_def l_def r_def z_def of_int_max)
  moreover have "of_nat (unat (f32_as_u32 (of_int (max 1 z)))) = (of_int (max 1 z) :: rat)"
    using m by (metis of_int_of_nat_eq)
  moreover have "\<bar>of_int (max 1 z) - max 1 x\<bar> < 1" using z by (auto simp: max_def)
  ultimately show ?thesis by (simp add: scaled_near_def x_def w_def c_def l_def)
qed

lemma scaled_near_long: "scaled_near c l l n \<Longrightarrow> 0 < l \<Longrightarrow> 0 < c \<Longrightarrow> n = c"
proof -
  assume l: "0 < l" and c: "0 < c" and n: "scaled_near c l l n"
  have "(of_nat (unat l) :: rat) \<noteq> 0" "(1 :: rat) \<le> of_nat (unat c)"
    using l c by (simp_all only: word_less_nat_alt of_nat_eq_0_iff)
  note side = nonzero_mult_div_cancel_left [OF this(1)] max_absorb2 [OF this(2)]
  have "\<bar>of_nat (unat n) - of_nat (unat c)\<bar> < (1 :: rat)"
    using n by (simp only: scaled_near_def side)
  then have "unat n = unat c" by linarith
  then show "n = c" by (rule word_eq_iff_unsigned [THEN iffD2])
qed

text \<open>One size: the encoding at the first quality that fits, or at the lowest.\<close>

definition encode_at :: "image_codec \<Rightarrow> resize_config \<Rightarrow> raster \<Rightarrow> u32 \<Rightarrow> string option" where
  "encode_at codec cfg img cur_long =
     encode_within codec (max_bytes cfg) (scale_to codec cur_long img) (jpeg_quality cfg)"

function shrink_loop :: "image_codec \<Rightarrow> resize_config \<Rightarrow> raster \<Rightarrow> u32 \<Rightarrow> string option" where
  "shrink_loop codec cfg img cur_long =
     (case encode_at codec cfg img cur_long of
        None \<Rightarrow> None
      | Some out \<Rightarrow>
          if fits_budget (max_bytes cfg) out \<or> cur_long \<le> MIN_LONG_SIDE then Some out
          else shrink_loop codec cfg img (next_long cur_long))"
  by pat_completeness auto

termination
  by (relation "measure (\<lambda>(_, _, _, c). unat c)") (use next_long_less in \<open>auto simp: word_less_nat_alt\<close>)

declare shrink_loop.simps [simp del]

definition shrink_static_image ::
  "image_codec \<Rightarrow> resize_config \<Rightarrow> string \<Rightarrow> string \<Rightarrow> resize_error + processed_image" where
  "shrink_static_image codec cfg format data_base64 =
     (case base64_decode (prompt_codec codec) data_base64 of
        None \<Rightarrow> Inl Base64Error
      | Some raw \<Rightarrow>
          (case decode_raster codec (guess_format format) raw of
             None \<Rightarrow> Inl DecodeError
           | Some img \<Rightarrow>
               (case shrink_loop codec cfg img (max (min (long_side img) (max_long_side cfg)) 1) of
                  None \<Rightarrow> Inl EncodeError
                | Some out \<Rightarrow>
                    let data = base64_encode codec out in
                    Inr \<lparr>pi_format = ''jpeg'', pi_data_base64 = data, was_resized = True,
                         original_bytes = length data_base64, final_bytes = length data\<rparr>)))"

text \<open>The first 24 characters of the data; a base64 text is ASCII.\<close>

definition detect_format_from_bytes :: "image_codec \<Rightarrow> string \<Rightarrow> string option" where
  "detect_format_from_bytes codec data_base64 =
     (case base64_decode (prompt_codec codec) (take 24 data_base64) of
        None \<Rightarrow> None
      | Some bytes \<Rightarrow>
          map_option
            (\<lambda>f. case f of Png \<Rightarrow> ''png'' | Jpeg \<Rightarrow> ''jpeg'' | Gif \<Rightarrow> ''gif'' | WebP \<Rightarrow> ''webp'')
            (detect_format codec bytes))"

definition passthrough :: "image_codec \<Rightarrow> string \<Rightarrow> string \<Rightarrow> processed_image" where
  "passthrough codec format data_base64 =
     \<lparr>pi_format = (case detect_format_from_bytes codec data_base64 of Some actual \<Rightarrow> actual | None \<Rightarrow> format),
      pi_data_base64 = data_base64, was_resized = False,
      original_bytes = length data_base64, final_bytes = length data_base64\<rparr>"

definition maybe_shrink_image ::
  "image_codec \<Rightarrow> resize_config \<Rightarrow> string \<Rightarrow> string \<Rightarrow> processed_image" where
  "maybe_shrink_image codec cfg format data_base64 =
     (let format_lc = to_ascii_lowercase format in
      if \<not> resize_enabled cfg then passthrough codec format_lc data_base64
      else if length data_base64 \<le> max_bytes cfg \<and>
              (case peek_dimensions (prompt_codec codec) format_lc data_base64 of
                 Some (w, h) \<Rightarrow> max w h \<le> max_long_side cfg
               | None \<Rightarrow> False)
      then passthrough codec format_lc data_base64
      else if format_lc = ''gif'' then passthrough codec format_lc data_base64
      else case shrink_static_image codec cfg format_lc data_base64 of
        Inr processed \<Rightarrow> processed
      | Inl _ \<Rightarrow> passthrough codec format_lc data_base64)"

section \<open>What comes out\<close>

text \<open>What is encoded is the first try, or the first try does not fit.\<close>

lemma encode_within_out:
  "encode_within codec limit img q = Some out \<Longrightarrow>
     \<exists>q' \<le> q. encode_jpeg codec q' img = Some out \<and> (fits_budget limit out \<or> q' \<le> MIN_JPEG_QUALITY) \<and>
       (q' = q \<or> (\<exists>first. encode_jpeg codec q img = Some first \<and> \<not> fits_budget limit first))"
proof (induction codec limit img q rule: encode_within.induct)
  case (1 codec limit img q)
  from "1.prems" obtain o' where o': "encode_jpeg codec q img = Some o'"
    by (subst (asm) encode_within.simps) (auto split: option.splits)
  show ?case
  proof (cases "fits_budget limit o' \<or> q \<le> MIN_JPEG_QUALITY")
    case True
    then have "out = o'" using "1.prems" o' by (subst (asm) encode_within.simps) simp
    then show ?thesis using o' True by blast
  next
    case False
    then have "encode_within codec limit img (lower_quality q) = Some out"
      using "1.prems" o' by (subst (asm) encode_within.simps) simp
    from "1.IH" [OF o' False this] obtain q' where "q' \<le> lower_quality q" "encode_jpeg codec q' img = Some out"
        "fits_budget limit out \<or> q' \<le> MIN_JPEG_QUALITY" by blast
    moreover have "lower_quality q < q" using False by (intro lower_quality_less) simp
    ultimately show ?thesis using o' False by (meson less_le_trans order_trans less_imp_le)
  qed
qed

lemma shrink_loop_out:
  "shrink_loop codec cfg img c = Some out \<Longrightarrow> 0 < c \<Longrightarrow>
     \<exists>c' \<le> c. 0 < c' \<and> encode_at codec cfg img c' = Some out \<and> (fits_budget (max_bytes cfg) out \<or> c' \<le> MIN_LONG_SIDE) \<and>
       (c' = c \<or> (\<exists>first. encode_at codec cfg img c = Some first \<and> \<not> fits_budget (max_bytes cfg) first))"
proof (induction codec cfg img c rule: shrink_loop.induct)
  case (1 codec cfg img c)
  from "1.prems"(1) obtain o' where o': "encode_at codec cfg img c = Some o'"
    by (subst (asm) shrink_loop.simps) (auto split: option.splits)
  show ?case
  proof (cases "fits_budget (max_bytes cfg) o' \<or> c \<le> MIN_LONG_SIDE")
    case True
    then have "out = o'" using "1.prems"(1) o' by (subst (asm) shrink_loop.simps) simp
    then show ?thesis using o' True "1.prems"(2) by blast
  next
    case False
    then have "shrink_loop codec cfg img (next_long c) = Some out"
      using "1.prems"(1) o' by (subst (asm) shrink_loop.simps) simp
    have "0 < next_long c" by (simp add: next_long_def MIN_LONG_SIDE_def less_max_iff_disj)
    from "1.IH" [OF o' False \<open>shrink_loop codec cfg img (next_long c) = Some out\<close> this]
    obtain c' where "c' \<le> next_long c" "0 < c'" "encode_at codec cfg img c' = Some out"
        "fits_budget (max_bytes cfg) out \<or> c' \<le> MIN_LONG_SIDE" by blast
    moreover have "next_long c < c" using False by (intro next_long_less) simp
    ultimately show ?thesis using o' False by (meson less_le_trans order_trans less_imp_le)
  qed
qed

lemma encode_within_None: "encode_within codec limit img q = None \<Longrightarrow> \<exists>q. encode_jpeg codec q img = None"
  by (induction codec limit img q rule: encode_within.induct)
    (subst (asm) encode_within.simps, auto split: option.splits if_splits)

lemma shrink_loop_None: "shrink_loop codec cfg img c = None \<Longrightarrow> \<exists>q r. encode_jpeg codec q r = None"
proof (induction codec cfg img c rule: shrink_loop.induct)
  case (1 codec cfg img c)
  show ?case
  proof (cases "encode_at codec cfg img c")
    case None
    then show ?thesis unfolding encode_at_def using encode_within_None by blast
  next
    case (Some out)
    then show ?thesis using 1 by (subst (asm) (2) shrink_loop.simps) (auto split: if_splits)
  qed
qed

text \<open>The image itself, when its long side is within the limit; otherwise the image resampled to sides in
  the ratio of its own, the longer of which is the limit.\<close>

definition rendition :: "image_codec \<Rightarrow> raster \<Rightarrow> u32 \<Rightarrow> raster \<Rightarrow> bool" where
  "rendition codec img cur_long r \<longleftrightarrow>
     (if long_side img \<le> cur_long then r = img
      else \<exists>w h. r = resize_exact codec w h img \<and>
        (unat cur_long \<le> 2 ^ 20 \<longrightarrow>
          max w h = cur_long \<and>
          scaled_near cur_long (long_side img) (r_width img) w \<and> scaled_near cur_long (long_side img) (r_height img) h))"

lemma scaled_near_le:
  assumes "scaled_near c l side n" "side \<le> l" "0 < c"
  shows "n \<le> c"
proof -
  define N S C L :: rat where "N = of_nat (unat n)" and "S = of_nat (unat side)" and "C = of_nat (unat c)" and "L = of_nat (unat l)"
  have "unat side \<le> unat l" using assms(2) by (simp only: word_le_nat_alt)
  moreover have "1 \<le> unat c" using assms(3) by (simp add: word_less_nat_alt)
  ultimately have o: "0 \<le> S" "S \<le> L" "1 \<le> C"
    unfolding S_def L_def C_def by (simp_all only: of_nat_le_iff of_nat_0_le_iff)
  then have "S * C / L \<le> C" using mult_right_mono [of S L C] by (cases "L = 0") (simp_all add: divide_le_eq mult.commute)
  moreover have "\<bar>N - max 1 (S * C / L)\<bar> < 1" using assms(1) by (simp only: scaled_near_def N_def S_def C_def L_def)
  ultimately have "N < C + 1" using o by linarith
  then have "unat n \<le> unat c" unfolding N_def C_def by linarith
  then show ?thesis by (simp add: word_le_nat_alt)
qed

lemma scale_to_rendition:
  assumes "0 < cur_long"
  shows "rendition codec img cur_long (scale_to codec cur_long img)"
proof (cases "cur_long < long_side img")
  case True
  let ?s = "f32_of_rat (f32_of_u32 cur_long / f32_of_u32 (long_side img))"
  have sides: "r_width img \<le> long_side img" "r_height img \<le> long_side img" by (simp_all add: long_side_def)
  have near: "scaled_near cur_long (long_side img) (r_width img) (scaled_side ?s (r_width img)) \<and>
      scaled_near cur_long (long_side img) (r_height img) (scaled_side ?s (r_height img)) \<and>
      max (scaled_side ?s (r_width img)) (scaled_side ?s (r_height img)) = cur_long" if "unat cur_long \<le> 2 ^ 20"
  proof -
    note n = scaled_side_near [OF True sides(1) that] scaled_side_near [OF True sides(2) that]
    have "0 < long_side img" using True by (rule le_less_trans [OF word_zero_le])
    have "r_width img = long_side img \<or> r_height img = long_side img" by (auto simp: long_side_def max_def)
    then have "scaled_side ?s (r_width img) = cur_long \<or> scaled_side ?s (r_height img) = cur_long"
      using n scaled_near_long [OF _ \<open>0 < long_side img\<close> assms] by metis
    then show ?thesis using n n [THEN scaled_near_le [OF _ _ assms]] sides by (auto simp: max_def)
  qed
  then show ?thesis using True by (auto simp: rendition_def scale_to_def Let_def)
next
  case False
  then have "scale_to codec cur_long img = img" by (simp only: scale_to_def if_False)
  then show ?thesis using False by (simp only: rendition_def not_less if_True)
qed

text \<open>What is left as it is: everything when scaling is off, GIFs, and images within both limits.\<close>

definition left_alone :: "image_codec \<Rightarrow> resize_config \<Rightarrow> string \<Rightarrow> string \<Rightarrow> bool" where
  "left_alone codec cfg format data \<longleftrightarrow>
     \<not> resize_enabled cfg \<or> format = ''gif'' \<or>
     length data \<le> max_bytes cfg \<and>
     (\<exists>w h. peek_dimensions (prompt_codec codec) format data = Some (w, h) \<and> w \<le> max_long_side cfg \<and> h \<le> max_long_side cfg)"

lemma maybe_shrink_image_cases:
  "maybe_shrink_image codec cfg format data =
     (if left_alone codec cfg (to_ascii_lowercase format) data then passthrough codec (to_ascii_lowercase format) data
      else case shrink_static_image codec cfg (to_ascii_lowercase format) data of
        Inr p \<Rightarrow> p | Inl _ \<Rightarrow> passthrough codec (to_ascii_lowercase format) data)"
  by (auto simp: maybe_shrink_image_def left_alone_def Let_def split: option.splits)

lemma fits_budget_base64:
  assumes "fits_budget limit out" "limit < 2 ^ 62"
  shows "4 * ((length out + 2) div 3) \<le> limit + 3"
proof -
  have "4 * length out div 3 \<le> limit"
  proof (cases "4 * length out \<le> 2 ^ 64 - 1")
    case True
    then show ?thesis using assms(1) by (simp add: fits_budget_def min_absorb1)
  next
    case False
    then have "(2 ^ 64 - 1) div 3 \<le> limit" using assms(1) by (simp add: fits_budget_def min_absorb2)
    then show ?thesis using assms(2) by simp
  qed
  moreover have "4 * ((n + 2) div 3) \<le> 4 * n div 3 + 3" for n :: nat by presburger
  ultimately show ?thesis using order_trans add_le_mono1 by blast
qed

lemma shrink_static_image_Inr:
  "shrink_static_image codec cfg f data = Inr p \<Longrightarrow>
     was_resized p \<and> pi_format p = ''jpeg'' \<and> original_bytes p = length data \<and> final_bytes p = length (pi_data_base64 p) \<and>
     (\<exists>raw img out. base64_decode (prompt_codec codec) data = Some raw \<and>
       decode_raster codec (guess_format f) raw = Some img \<and>
       shrink_loop codec cfg img (max (min (long_side img) (max_long_side cfg)) 1) = Some out \<and>
       pi_data_base64 p = base64_encode codec out)"
  by (auto simp: shrink_static_image_def Let_def split: option.splits)

lemma shrink_static_image_Inl:
  "shrink_static_image codec cfg f data = Inl e \<Longrightarrow>
     base64_decode (prompt_codec codec) data = None \<or>
     (\<exists>raw. base64_decode (prompt_codec codec) data = Some raw \<and> decode_raster codec (guess_format f) raw = None) \<or>
     (\<exists>q r. encode_jpeg codec q r = None)"
  by (auto simp: shrink_static_image_def Let_def dest: shrink_loop_None split: option.splits)

text \<open>C9: An image is never dropped.  It is re-encoded unless scaling is off, it is a GIF, it is within both limits, or
  its data cannot be decoded or encoded, and then it is passed on unchanged under its detected format.  What is
  re-encoded is the image decoded from the data, as it is or resampled in its own proportions to a long side
  within the limit, as a JPEG of at most the configured quality, whose base64 text exceeds the byte limit by at
  most three characters unless the lowest size was reached; quality or size are lowered only when the first try,
  the limit size at full quality, does not fit.\<close>

theorem shrunk_image_within:
  assumes "maybe_shrink_image codec cfg format data = p" "max_bytes cfg < 2 ^ 62"
    "\<And>s. length (base64_encode codec s) = 4 * ((length s + 2) div 3)"
  defines "f \<equiv> to_ascii_lowercase format"
  shows "if was_resized p
    then \<not> left_alone codec cfg f data \<and>
      (\<exists>raw img c r q out. base64_decode (prompt_codec codec) data = Some raw \<and>
        decode_raster codec (guess_format f) raw = Some img \<and>
        rendition codec img c r \<and> c \<le> max (min (long_side img) (max_long_side cfg)) 1 \<and>
        encode_jpeg codec q r = Some out \<and> q \<le> jpeg_quality cfg \<and>
        pi_format p = ''jpeg'' \<and> pi_data_base64 p = base64_encode codec out \<and>
        original_bytes p = length data \<and> final_bytes p = length (pi_data_base64 p) \<and>
        (length (pi_data_base64 p) \<le> max_bytes cfg + 3 \<or> c \<le> MIN_LONG_SIDE) \<and>
        (c = max (min (long_side img) (max_long_side cfg)) 1 \<and> q = jpeg_quality cfg \<or>
         (\<exists>r' first. rendition codec img (max (min (long_side img) (max_long_side cfg)) 1) r' \<and>
           encode_jpeg codec (jpeg_quality cfg) r' = Some first \<and> \<not> fits_budget (max_bytes cfg) first)))
    else pi_data_base64 p = data \<and> original_bytes p = length data \<and> final_bytes p = length data \<and>
      pi_format p = (case detect_format_from_bytes codec data of Some actual \<Rightarrow> actual | None \<Rightarrow> f) \<and>
      (left_alone codec cfg f data \<or> base64_decode (prompt_codec codec) data = None \<or>
       (\<exists>raw. base64_decode (prompt_codec codec) data = Some raw \<and> decode_raster codec (guess_format f) raw = None) \<or>
       (\<exists>q r. encode_jpeg codec q r = None))"
    (is "if _ then _ \<and> (\<exists>raw img c r q out. ?image raw img c r q out) else _")
proof (cases "was_resized p")
  case False
  then have "p = passthrough codec f data"
    "left_alone codec cfg f data \<or> (\<exists>e. shrink_static_image codec cfg f data = Inl e)"
    using assms(1) by (auto simp: maybe_shrink_image_cases f_def dest: shrink_static_image_Inr split: if_splits sum.splits)
  then show ?thesis using False by (auto simp: passthrough_def dest!: shrink_static_image_Inl)
next
  case True
  then have not_left: "\<not> left_alone codec cfg f data" and "shrink_static_image codec cfg f data = Inr p"
    using assms(1) by (auto simp: maybe_shrink_image_cases f_def passthrough_def split: if_splits sum.splits)
  then obtain raw img out where
    img: "base64_decode (prompt_codec codec) data = Some raw" "decode_raster codec (guess_format f) raw = Some img"
    and out: "shrink_loop codec cfg img (max (min (long_side img) (max_long_side cfg)) 1) = Some out"
    and p: "pi_format p = ''jpeg''" "pi_data_base64 p = base64_encode codec out"
      "original_bytes p = length data" "final_bytes p = length (pi_data_base64 p)"
    using shrink_static_image_Inr by blast
  define c0 where "c0 = max (min (long_side img) (max_long_side cfg)) 1"
  have c0: "0 < c0" by (simp add: c0_def less_max_iff_disj)
  from shrink_loop_out [OF out [folded c0_def] c0] obtain c where c: "c \<le> c0" "encode_at codec cfg img c = Some out" "fits_budget (max_bytes cfg) out \<or> c \<le> MIN_LONG_SIDE"
      "c = c0 \<or> (\<exists>first. encode_at codec cfg img c0 = Some first \<and> \<not> fits_budget (max_bytes cfg) first)" "0 < c" by blast
  have size: "length (pi_data_base64 p) \<le> max_bytes cfg + 3 \<or> c \<le> MIN_LONG_SIDE"
    using c(3) fits_budget_base64 [OF _ assms(2), of out] assms(3) [of out] p(2) by auto
  obtain q where q: "q \<le> jpeg_quality cfg" "encode_jpeg codec q (scale_to codec c img) = Some out"
    "q = jpeg_quality cfg \<or> (\<exists>first. encode_jpeg codec (jpeg_quality cfg) (scale_to codec c img) = Some first \<and>
        \<not> fits_budget (max_bytes cfg) first)"
    using encode_within_out c(2) unfolding encode_at_def by blast
  have "c = c0 \<and> q = jpeg_quality cfg \<or>
      (\<exists>first. encode_jpeg codec (jpeg_quality cfg) (scale_to codec c0 img) = Some first \<and> \<not> fits_budget (max_bytes cfg) first)"
    using c(4) q(3) unfolding encode_at_def by (blast dest: encode_within_out)
  then have "c = c0 \<and> q = jpeg_quality cfg \<or>
      (\<exists>r' first. rendition codec img c0 r' \<and> encode_jpeg codec (jpeg_quality cfg) r' = Some first \<and>
        \<not> fits_budget (max_bytes cfg) first)"
    using scale_to_rendition [OF c0] by blast
  then have "base64_decode (prompt_codec codec) data = Some raw \<and> decode_raster codec (guess_format f) raw = Some img \<and>
      rendition codec img c (scale_to codec c img) \<and> c \<le> c0 \<and>
      encode_jpeg codec q (scale_to codec c img) = Some out \<and> q \<le> jpeg_quality cfg \<and>
      pi_format p = ''jpeg'' \<and> pi_data_base64 p = base64_encode codec out \<and>
      original_bytes p = length data \<and> final_bytes p = length (pi_data_base64 p) \<and>
      (length (pi_data_base64 p) \<le> max_bytes cfg + 3 \<or> c \<le> MIN_LONG_SIDE) \<and>
      (c = c0 \<and> q = jpeg_quality cfg \<or>
       (\<exists>r' first. rendition codec img c0 r' \<and> encode_jpeg codec (jpeg_quality cfg) r' = Some first \<and>
         \<not> fits_budget (max_bytes cfg) first))"
    by (intro conjI img scale_to_rendition c(1,5) q(1,2) p size)
  then have ex: "\<exists>raw img c r q out. ?image raw img c r q out" unfolding c0_def by (intro exI)
  show ?thesis by (subst if_P [OF True]) (rule conjI [OF not_left ex])
qed

text \<open>An encoder that keeps nothing but the number of bytes.\<close>

definition sample_codec :: image_codec where
  "sample_codec =
     \<lparr>prompt_codec = \<lparr>to_json_string = \<lambda>_. '''', base64_decode = Some, header_dimensions = \<lambda>_ _. Some (2000, 1)\<rparr>,
      detect_format = \<lambda>_. None, decode_raster = \<lambda>_ _. Some \<lparr>r_width = 2000, r_height = 1, r_pixels = ''''\<rparr>,
      resize_exact = \<lambda>w h img. img\<lparr>r_width := w, r_height := h\<rparr>, encode_jpeg = \<lambda>_ _. Some ''x'',
      base64_encode = \<lambda>s. replicate (4 * ((length s + 2) div 3)) CHR ''A''\<rparr>"

lemma shrunk_image_within_witness:
  "let p = maybe_shrink_image sample_codec (resize_config_from_env (\<lambda>_. None)) ''png'' ''data'' in
   was_resized p \<and> pi_data_base64 p = ''AAAA'' \<and> pi_format p = ''jpeg''"
proof -
  define p where "p = maybe_shrink_image sample_codec (resize_config_from_env (\<lambda>_. None)) ''png'' ''data''"
  have limit: "max_bytes (resize_config_from_env (\<lambda>_. None)) < 2 ^ 62"
    by (simp add: resize_config_from_env_def setting_def DEFAULT_MAX_BYTES_def)
  have law: "length (base64_encode sample_codec s) = 4 * ((length s + 2) div 3)" for s
    by (simp add: sample_codec_def)
  have quick: "encode_within sample_codec limit img q = Some ''x''" if "4 div 3 \<le> limit" for limit img q
    using that by (subst encode_within.simps) (simp add: sample_codec_def fits_budget_def)
  have "shrink_loop sample_codec (resize_config_from_env (\<lambda>_. None)) img c = Some ''x''" for img c
    by (subst shrink_loop.simps)
      (simp add: encode_at_def quick fits_budget_def resize_config_from_env_def setting_def DEFAULT_MAX_BYTES_def)
  moreover have "base64_encode sample_codec ''x'' = ''AAAA''"
    by (simp add: sample_codec_def) (simp add: eval_nat_numeral)
  moreover have "base64_decode (prompt_codec sample_codec) s = Some s"
      "decode_raster sample_codec f s = Some \<lparr>r_width = 2000, r_height = 1, r_pixels = ''''\<rparr>" for f s
    by (simp_all add: sample_codec_def)
  moreover have "header_dimensions (prompt_codec sample_codec) f s = Some (2000, 1)" for f s
    by (simp add: sample_codec_def)
  ultimately have "was_resized p \<and> pi_data_base64 p = ''AAAA''"
    unfolding p_def maybe_shrink_image_def shrink_static_image_def peek_dimensions_def Let_def
    by (auto simp: resize_config_from_env_def setting_def DEFAULT_MAX_BYTES_def DEFAULT_MAX_LONG_SIDE_def
        to_ascii_lowercase_def to_ascii_lower_char_def guess_format_def)
  moreover from this have "pi_format p = ''jpeg''"
    using shrunk_image_within [OF p_def [symmetric] limit law] by auto
  ultimately show ?thesis by (simp add: p_def Let_def)
qed

end
