(* ===== verification/MessageContent.thy ===== *)
theory MessageContent
  imports ToolSchemas ImageScaling PromptCache "HOL-Library.Monad_Syntax"
begin

text \<open>
  The content of one message (\<open>src/anthropic/converter.rs\<close>, \<open>process_message_content\<close> and its helpers, with
  \<open>ContentBlock\<close> of \<open>types.rs\<close>): text, images and tool results are taken out of the blocks, an image that was
  sent before is replaced by a remark, and what the upstream cannot take leaves a placeholder.  The table
  of the images sent so far and the images of the message are threaded.
\<close>

section \<open>Content blocks\<close>

record image_source =
  is_source_type :: string
  is_media_type :: string
  is_data :: string

record content_block =
  cb_type :: string
  cb_text :: "string option"
  cb_thinking :: "string option"
  cb_tool_use_id :: "string option"
  cb_content :: "json option"
  cb_name :: "string option"
  cb_input :: "json option"
  cb_id :: "string option"
  cb_is_error :: "bool option"
  cb_source :: "image_source option"
  cb_cache_control :: "cache_control option"

text \<open>A struct is read from an object, or from its fields in order in an array; a field that is an \<open>Option\<close>
  may be absent from an object and may be null.\<close>

definition fields_of_array :: "string list \<Rightarrow> json list \<Rightarrow> string \<Rightarrow> json option" where
  "fields_of_array names xs = map_of (zip names xs)"

definition optional_of :: "(json \<Rightarrow> 'a option) \<Rightarrow> json option \<Rightarrow> 'a option option" where
  "optional_of f v =
     (case v of None \<Rightarrow> Some None | Some JNull \<Rightarrow> Some None | Some x \<Rightarrow> map_option Some (f x))"

definition as_bool :: "json \<Rightarrow> bool option" where
  "as_bool j = (case j of JBool b \<Rightarrow> Some b | _ \<Rightarrow> None)"

definition string_or_default :: "json option \<Rightarrow> string option" where
  "string_or_default v = (case v of None \<Rightarrow> Some [] | Some x \<Rightarrow> Json.as_str x)"

definition IMAGE_SOURCE_FIELDS :: "string list" where
  "IMAGE_SOURCE_FIELDS = [''type'', ''media_type'', ''data'']"

definition image_source_of_fields :: "(string \<Rightarrow> json option) \<Rightarrow> image_source option" where
  "image_source_of_fields field =
     do {
       t \<leftarrow> string_or_default (field ''type'');
       m \<leftarrow> string_or_default (field ''media_type'');
       d \<leftarrow> string_or_default (field ''data'');
       Some \<lparr>is_source_type = t, is_media_type = m, is_data = d\<rparr>
     }"

definition image_source_of_value :: "json \<Rightarrow> image_source option" where
  "image_source_of_value v =
     (case v of
        JObject m \<Rightarrow> image_source_of_fields (map_of m)
      | JArray xs \<Rightarrow>
          if length xs \<le> length IMAGE_SOURCE_FIELDS
          then image_source_of_fields (fields_of_array IMAGE_SOURCE_FIELDS xs) else None
      | _ \<Rightarrow> None)"

definition CONTENT_BLOCK_FIELDS :: "string list" where
  "CONTENT_BLOCK_FIELDS =
     [''type'', ''text'', ''thinking'', ''tool_use_id'', ''content'', ''name'', ''input'', ''id'', ''is_error'',
      ''source'', ''cache_control'']"

definition content_block_of_fields :: "(string \<Rightarrow> json option) \<Rightarrow> content_block option" where
  "content_block_of_fields field =
     do {
       t \<leftarrow> Option.bind (field ''type'') Json.as_str;
       text \<leftarrow> optional_of Json.as_str (field ''text'');
       thought \<leftarrow> optional_of Json.as_str (field ''thinking'');
       use_id \<leftarrow> optional_of Json.as_str (field ''tool_use_id'');
       body \<leftarrow> optional_of Some (field ''content'');
       name \<leftarrow> optional_of Json.as_str (field ''name'');
       input \<leftarrow> optional_of Some (field ''input'');
       i \<leftarrow> optional_of Json.as_str (field ''id'');
       err \<leftarrow> optional_of as_bool (field ''is_error'');
       src \<leftarrow> optional_of image_source_of_value (field ''source'');
       cc \<leftarrow> optional_of cache_control_of_value (field ''cache_control'');
       Some \<lparr>cb_type = t, cb_text = text, cb_thinking = thought, cb_tool_use_id = use_id, cb_content = body,
             cb_name = name, cb_input = input, cb_id = i, cb_is_error = err, cb_source = src, cb_cache_control = cc\<rparr>
     }"

definition content_block_of_value :: "json \<Rightarrow> content_block option" where
  "content_block_of_value v =
     (case v of
        JObject m \<Rightarrow> content_block_of_fields (map_of m)
      | JArray xs \<Rightarrow>
          if length xs = length CONTENT_BLOCK_FIELDS
          then content_block_of_fields (fields_of_array CONTENT_BLOCK_FIELDS xs) else None
      | _ \<Rightarrow> None)"

section \<open>Images\<close>

fun join :: "string \<Rightarrow> string list \<Rightarrow> string" where
  "join sep [] = []"
| "join sep [x] = x"
| "join sep (x # y # xs) = x @ sep @ join sep (y # xs)"

text \<open>The crates, the tables and the process environment that the conversion uses.\<close>

record content_env =
  te :: tool_env
  codec :: image_codec
  process_var :: "string \<Rightarrow> string option"

type_synonym image_dedup = "(string \<times> string) list"

text \<open>The images sent so far, and those of the message at hand.\<close>

type_synonym image_state = "image_dedup \<times> kiro_image list"

datatype image_outcome = Attached nat | Omitted string | Unsupported string

definition get_image_format :: "string \<Rightarrow> string option" where
  "get_image_format media_type =
     (let m = to_ascii_lowercase (trim media_type) in
      if m = ''image/jpeg'' \<or> m = ''image/jpg'' then Some ''jpeg''
      else if m = ''image/png'' then Some ''png''
      else if m = ''image/gif'' then Some ''gif''
      else if m = ''image/webp'' then Some ''webp''
      else None)"

definition extract_kiro_image ::
  "content_env \<Rightarrow> image_source \<Rightarrow> string \<Rightarrow> image_state \<Rightarrow> image_outcome \<times> image_state" where
  "extract_kiro_image env source origin st =
     (let (dedup, images) = st in
      if is_data source = []
      then
        let kind = (if is_source_type source = [] then ''unknown'' else is_source_type source) in
        (Unsupported (''[image omitted: '' @ kind @
           '' image source is not supported by this gateway, only base64 images are]''), st)
      else
        (case get_image_format (is_media_type source) of
           None \<Rightarrow> (Unsupported (''[image omitted: unsupported image format '' @ is_media_type source @ '']''), st)
         | Some format \<Rightarrow>
             let digest = sha256_hex (te env) (is_data source) in
             (case map_of dedup digest of
                Some first_seen \<Rightarrow>
                  (Omitted (''[image omitted: same image as in '' @ first_seen @ '' in this conversation]''), st)
              | None \<Rightarrow>
                  let processed =
                        maybe_shrink_image (codec env) (resize_config_from_env (process_var env)) format (is_data source);
                      images = images @ [\<lparr>ki_format = pi_format processed, ki_bytes = pi_data_base64 processed\<rparr>]
                  in (Attached (length images), (map_insert digest origin dedup, images)))))"

definition NO_SOURCE :: string where
  "NO_SOURCE = ''[image omitted: the image block has no source]''"

definition image_of_source ::
  "content_env \<Rightarrow> image_source option \<Rightarrow> string \<Rightarrow> image_state \<Rightarrow> image_outcome \<times> image_state" where
  "image_of_source env source origin st =
     (case source of
        Some s \<Rightarrow> extract_kiro_image env s origin st
      | None \<Rightarrow> (Unsupported NO_SOURCE, st))"

section \<open>Placeholders and tool results\<close>

definition quoted :: "string \<Rightarrow> string" where
  "quoted s = [CHR 0x22] @ s @ [CHR 0x22]"

definition unsupported_block_placeholder :: "json \<Rightarrow> string" where
  "unsupported_block_placeholder item =
     (let block_type = (case nonempty (get_str item ''type'') of Some t \<Rightarrow> t | None \<Rightarrow> ''unknown'') in
      if block_type = ''document''
      then
        (case nonempty (get_str item ''title'') of
           Some title \<Rightarrow> ''[document '' @ quoted title @ '' omitted: documents are not supported by this gateway]''
         | None \<Rightarrow> ''[document omitted: documents are not supported by this gateway]'')
      else ''['' @ block_type @ '' content omitted: not supported by this gateway]'')"

text \<open>One block of a tool result: what it adds to the text, if anything.\<close>

definition result_part ::
  "content_env \<Rightarrow> string \<Rightarrow> json \<Rightarrow> image_state \<Rightarrow> string option \<times> image_state" where
  "result_part env origin item st =
     (case get_str item ''type'' of
        None \<Rightarrow> (get_str item ''text'', st)
      | Some t \<Rightarrow>
          if t = ''image''
          then
            (let source = Option.bind (content_block_of_value item) cb_source;
                 (outcome, st) = image_of_source env source origin st
             in (case outcome of
                   Attached n \<Rightarrow> (Some (''[image #'' @ decimal n @ '' attached to this message]''), st)
                 | Omitted text \<Rightarrow> (Some text, st)
                 | Unsupported text \<Rightarrow> (Some text, st)))
          else if t = ''text'' then (get_str item ''text'', st)
          else (Some (unsupported_block_placeholder item), st))"

fun result_parts :: "content_env \<Rightarrow> string \<Rightarrow> json list \<Rightarrow> image_state \<Rightarrow> string list \<times> image_state" where
  "result_parts env origin [] st = ([], st)"
| "result_parts env origin (item # items) st =
     (let (part, st) = result_part env origin item st;
          (parts, st) = result_parts env origin items st
      in (case part of Some p \<Rightarrow> p # parts | None \<Rightarrow> parts, st))"

definition extract_tool_result_content ::
  "content_env \<Rightarrow> json option \<Rightarrow> string \<Rightarrow> image_state \<Rightarrow> string \<times> image_state" where
  "extract_tool_result_content env body use_id st =
     (case body of
        Some (JString s) \<Rightarrow> (s, st)
      | Some (JArray items) \<Rightarrow>
          let (parts, st) = result_parts env (''tool result '' @ use_id) items st in (join [newline] parts, st)
      | Some v \<Rightarrow> (to_json_string (prompt_codec (codec env)) v, st)
      | None \<Rightarrow> ([], st))"

section \<open>Messages\<close>

text \<open>What a block adds: pieces of text, tool results.\<close>

type_synonym parts = "string list \<times> tool_result list"

definition make_tool_result :: "string \<Rightarrow> bool \<Rightarrow> string \<Rightarrow> tool_result" where
  "make_tool_result use_id is_err text =
     (if is_err then tool_result_error use_id text else tool_result_success use_id text)
       \<lparr>tr_status := Some (if is_err then ''error'' else ''success'')\<rparr>"

definition process_block :: "content_env \<Rightarrow> json \<Rightarrow> image_state \<Rightarrow> parts \<times> image_state" where
  "process_block env item st =
     (case content_block_of_value item of
        None \<Rightarrow> (([unsupported_block_placeholder item], []), st)
      | Some block \<Rightarrow>
          if cb_type block = ''text''
          then ((case cb_text block of Some t \<Rightarrow> [t] | None \<Rightarrow> [], []), st)
          else if cb_type block = ''image''
          then
            (let (outcome, st) = image_of_source env (cb_source block) ''an earlier user message'' st
             in ((case outcome of Attached _ \<Rightarrow> [] | Omitted text \<Rightarrow> [text] | Unsupported text \<Rightarrow> [text], []), st))
          else if cb_type block = ''tool_result''
          then
            (case cb_tool_use_id block of
               None \<Rightarrow> (([], []), st)
             | Some use_id \<Rightarrow>
                 let (text, st) = extract_tool_result_content env (cb_content block) use_id st;
                     is_err = (case cb_is_error block of Some b \<Rightarrow> b | None \<Rightarrow> False)
                 in (([], [make_tool_result use_id is_err text]), st))
          else if cb_type block \<in> {''tool_use'', ''thinking'', ''redacted_thinking''} then (([], []), st)
          else (([unsupported_block_placeholder item], []), st))"

definition DOCUMENT_ERROR :: string where
  "DOCUMENT_ERROR = ''Document blocks must pass through the document adapter before conversion''"

fun process_blocks ::
  "content_env \<Rightarrow> json list \<Rightarrow> image_state \<Rightarrow> conversion_error + (parts \<times> image_state)" where
  "process_blocks env [] st = Inr (([], []), st)"
| "process_blocks env (item # items) st =
     (if get_str item ''type'' = Some ''document'' then Inl (InvalidMessageSequence DOCUMENT_ERROR)
      else
        let ((texts, results), st) = process_block env item st in
        (case process_blocks env items st of
           Inl e \<Rightarrow> Inl e
         | Inr ((texts', results'), st) \<Rightarrow> Inr ((texts @ texts', results @ results'), st)))"

definition process_message_content ::
  "content_env \<Rightarrow> json \<Rightarrow> image_state \<Rightarrow> conversion_error + ((string \<times> tool_result list) \<times> image_state)" where
  "process_message_content env value st =
     (case value of
        JString s \<Rightarrow> Inr ((s, []), st)
      | JArray items \<Rightarrow>
          (case process_blocks env items st of
             Inl e \<Rightarrow> Inl e
           | Inr ((texts, results), st) \<Rightarrow> Inr ((join [newline] texts, results), st))
      | _ \<Rightarrow> Inr (([], []), st))"

end
