(* ===== verification/ToolPairing.thy ===== *)
theory ToolPairing
  imports ToolSchemas KiroRequest MessageContent "HOL-Library.Multiset" "HOL-Library.Sublist"
begin

text \<open>
  Tool calls and their results in a converted conversation (\<open>src/anthropic/converter.rs\<close>): the filter on the
  results of the current message, the results added for calls that never got one, the text that keeps a
  result sent twice, and the check of a conversation that is to be compacted.  A \<open>HashSet\<close> is a set.
\<close>

section \<open>Results of the current message\<close>

abbreviation use_ids :: "history_message list \<Rightarrow> string list" where
  "use_ids h \<equiv> map tu_tool_use_id (history_uses h)"

abbreviation result_ids :: "tool_result list \<Rightarrow> string list" where
  "result_ids rs \<equiv> map tr_tool_use_id rs"

text \<open>A result is kept when its call still waits for one.\<close>

fun keep_paired :: "string set \<Rightarrow> tool_result list \<Rightarrow> tool_result list \<times> string set" where
  "keep_paired unpaired [] = ([], unpaired)"
| "keep_paired unpaired (r # rs) =
     (if tr_tool_use_id r \<in> unpaired
      then let (kept, rest) = keep_paired (unpaired - {tr_tool_use_id r}) rs in (r # kept, rest)
      else keep_paired unpaired rs)"

definition validate_tool_pairing ::
  "history_message list \<Rightarrow> tool_result list \<Rightarrow> tool_result list \<times> string set" where
  "validate_tool_pairing h rs =
     keep_paired (set (use_ids h) - set (result_ids (history_results h))) rs"

section \<open>Calls without a result\<close>

definition INTERRUPTED_TOOL_RESULT :: string where
  "INTERRUPTED_TOOL_RESULT =
     ''No result was received for this tool call; it was interrupted before it returned.''"

fun add_interrupted ::
  "string set \<Rightarrow> tool_use_entry list \<Rightarrow> string set \<times> tool_result list \<Rightarrow> string set \<times> tool_result list" where
  "add_interrupted orphans [] st = st"
| "add_interrupted orphans (u # us) (handled, waiting) =
     add_interrupted orphans us
       (if tu_tool_use_id u \<in> orphans \<and> tu_tool_use_id u \<notin> handled
        then (insert (tu_tool_use_id u) handled,
              waiting @ [tool_result_error (tu_tool_use_id u) INTERRUPTED_TOOL_RESULT])
        else (handled, waiting))"

definition append_results :: "tool_result list \<Rightarrow> user_message \<Rightarrow> user_message" where
  "append_results rs m =
     m\<lparr>um_context := (um_context m)\<lparr>ctx_tool_results := ctx_tool_results (um_context m) @ rs\<rparr>\<rparr>"

fun pair_loop ::
  "string set \<Rightarrow> history_message list \<Rightarrow> string set \<times> tool_result list \<Rightarrow> history_message list \<times> tool_result list" where
  "pair_loop orphans [] (handled, waiting) = ([], waiting)"
| "pair_loop orphans (HistoryAssistant m # h) st =
     (let (h, rest) = pair_loop orphans h (add_interrupted orphans (uses_of (HistoryAssistant m)) st)
      in (HistoryAssistant m # h, rest))"
| "pair_loop orphans (HistoryUser m # h) (handled, waiting) =
     (let (h, rest) = pair_loop orphans h (handled, [])
      in (HistoryUser (if waiting = [] then m else append_results waiting m) # h, rest))"

definition pair_orphaned_tool_uses ::
  "history_message list \<Rightarrow> string set \<Rightarrow> history_message list \<times> tool_result list" where
  "pair_orphaned_tool_uses h orphans =
     (if orphans = {} then (h, []) else pair_loop orphans h ({}, []))"

section \<open>Results sent again\<close>

definition tool_result_text :: "tool_result \<Rightarrow> string" where
  "tool_result_text r =
     join [newline] (List.map_filter (\<lambda>c. Option.bind (map_of c ''text'') Json.as_str) (tr_content r))"

text \<open>The text of the first result of every call in the history.\<close>

definition earlier_results :: "history_message list \<Rightarrow> (string \<times> string) list" where
  "earlier_results h = map (\<lambda>r. (tr_tool_use_id r, tool_result_text r)) (history_results h)"

definition resent_tool_result_notes :: "history_message list \<Rightarrow> tool_result list \<Rightarrow> string list" where
  "resent_tool_result_notes h rs =
     List.map_filter
       (\<lambda>r. case map_of (earlier_results h) (tr_tool_use_id r) of
              None \<Rightarrow> None
            | Some previous \<Rightarrow>
                if previous = tool_result_text r then None
                else Some (''[tool result for '' @ tr_tool_use_id r @ '' sent again with different content]'' @
                       [newline] @ tool_result_text r)) rs"

section \<open>Compaction\<close>

definition sorted_ids :: "string set \<Rightarrow> string list" where
  "sorted_ids ids = sorted_list_of_set ids"

text \<open>The calls of one assistant message: none may repeat an id.\<close>

fun open_uses :: "tool_use_entry list \<Rightarrow> string set \<times> string set \<Rightarrow> conversion_error + (string set \<times> string set)" where
  "open_uses [] st = Inr st"
| "open_uses (u # us) (seen, waiting) =
     (if tu_tool_use_id u \<in> seen
      then Inl (InvalidMessageSequence (''duplicate tool_use id in compaction history: '' @ tu_tool_use_id u))
      else open_uses us (insert (tu_tool_use_id u) seen, insert (tu_tool_use_id u) waiting))"

text \<open>The results of one message: each must answer a call that is still open.\<close>

fun close_results :: "string \<Rightarrow> tool_result list \<Rightarrow> string set \<Rightarrow> conversion_error + string set" where
  "close_results complaint [] waiting = Inr waiting"
| "close_results complaint (r # rs) waiting =
     (if tr_tool_use_id r \<in> waiting then close_results complaint rs (waiting - {tr_tool_use_id r})
      else Inl (InvalidMessageSequence (complaint @ tr_tool_use_id r)))"

fun walk_history ::
  "history_message list \<Rightarrow> string set \<times> string set \<Rightarrow> conversion_error + (string set \<times> string set)" where
  "walk_history [] st = Inr st"
| "walk_history (m # h) (seen, waiting) =
     (if is_user m
      then
        (case close_results ''tool_result has no pending tool_use in compaction history: '' (results_of m) waiting of
           Inl e \<Rightarrow> Inl e
         | Inr waiting \<Rightarrow> walk_history h (seen, waiting))
      else
        (case open_uses (uses_of m) (seen, waiting) of
           Inl e \<Rightarrow> Inl e
         | Inr st \<Rightarrow> walk_history h st))"

definition validate_compaction_tool_sequence ::
  "history_message list \<Rightarrow> tool_result list \<Rightarrow> conversion_error + unit" where
  "validate_compaction_tool_sequence h current =
     (case walk_history h ({}, {}) of
        Inl e \<Rightarrow> Inl e
      | Inr (seen, waiting) \<Rightarrow>
          (case close_results ''current tool_result has no pending tool_use in compaction history: '' current waiting of
             Inl e \<Rightarrow> Inl e
           | Inr waiting \<Rightarrow>
               if waiting = {} then Inr ()
               else Inl (InvalidMessageSequence
                      (''compaction history contains tool_use without tool_result: '' @ join '', '' (sorted_ids waiting)))))"


section \<open>Every call gets one result\<close>

lemma keep_paired_exact:
  assumes "finite unpaired" "keep_paired unpaired rs = (kept, rest)"
  shows "mset (result_ids kept) + mset_set rest = mset_set unpaired \<and> rest = unpaired - set (result_ids rs) \<and>
    subseq kept rs"
  using assms
proof (induction unpaired rs arbitrary: kept rest rule: keep_paired.induct)
  case (2 unpaired r rs)
  show ?case
  proof (cases "tr_tool_use_id r \<in> unpaired")
    case True
    obtain k where k: "keep_paired (unpaired - {tr_tool_use_id r}) rs = (k, rest)" "kept = r # k"
      using 2(4) True by (auto split: prod.splits)
    have "mset_set unpaired = add_mset (tr_tool_use_id r) (mset_set (unpaired - {tr_tool_use_id r}))"
      using 2(3) True by (rule mset_set.remove)
    then show ?thesis using 2(1) [OF True _ k(1)] 2(3) k(2) by auto
  next
    case False
    then show ?thesis using 2(2) [OF False 2(3)] 2(4) by auto
  qed
qed simp

lemma mset_set_Int_insert:
  assumes "finite A" "x \<in> orphans" "x \<notin> handled"
  shows "mset_set (orphans \<inter> insert x A - handled) =
    add_mset x (mset_set (orphans \<inter> A - insert x handled))"
proof -
  have "orphans \<inter> insert x A - handled = insert x (orphans \<inter> A - insert x handled)" using assms by auto
  then show ?thesis using assms(1) by simp
qed

lemma add_interrupted_exact:
  assumes "add_interrupted orphans us (handled, waiting) = (handled', waiting')"
  shows "handled' = handled \<union> (orphans \<inter> set (map tu_tool_use_id us)) \<and>
    (\<exists>new. waiting' = waiting @ new \<and>
       mset (result_ids new) = mset_set (orphans \<inter> set (map tu_tool_use_id us) - handled))"
  using assms
proof (induction orphans us "(handled, waiting)" arbitrary: handled waiting rule: add_interrupted.induct)
  case (2 orphans u us handled waiting)
  let ?i = "tu_tool_use_id u" and ?r = "tool_result_error (tu_tool_use_id u) INTERRUPTED_TOOL_RESULT"
  show ?case
  proof (cases "?i \<in> orphans \<and> ?i \<notin> handled")
    case True
    then have "add_interrupted orphans us (insert ?i handled, waiting @ [?r]) = (handled', waiting')"
      using 2(2) by simp
    with 2(1) [of "insert ?i handled" "waiting @ [?r]"] True obtain new where
      "handled' = insert ?i handled \<union> (orphans \<inter> set (map tu_tool_use_id us))"
      "waiting' = waiting @ ?r # new"
      "mset (result_ids new) = mset_set (orphans \<inter> set (map tu_tool_use_id us) - insert ?i handled)"
      by auto
    then show ?thesis
      using True mset_set_Int_insert [of "set (map tu_tool_use_id us)" ?i orphans handled]
      by (intro conjI exI [of _ "?r # new"]) (auto simp: tool_result_error_def)
  next
    case False
    then have "orphans \<inter> insert ?i A - handled = orphans \<inter> A - handled" "insert ?i handled = handled \<or> ?i \<notin> orphans" for A
      by auto
    then show ?thesis using 2(1) [of handled waiting] 2(2) False by auto
  qed
qed simp

lemma mset_set_split_disjoint:
  assumes "finite B" "mset xs + mset_set B = mset_set A"
  shows "set xs \<inter> B = {}"
proof (rule ccontr)
  assume "set xs \<inter> B \<noteq> {}"
  then obtain x where x: "x \<in> set xs" "x \<in> B" by blast
  then have "Multiset.count (mset xs) x \<noteq> 0" "Multiset.count (mset_set B) x = 1"
    using assms(1) by (simp_all add: count_eq_zero_iff)
  moreover have "Multiset.count (mset xs) x + Multiset.count (mset_set B) x = Multiset.count (mset_set A) x"
    using assms(2) by (metis count_union)
  moreover have "Multiset.count (mset_set A) x \<le> 1" by (cases "finite A"; cases "x \<in> A") simp_all
  ultimately show False by linarith
qed

lemma add_parts:
  fixes a b c e k m :: "'a multiset"
  assumes "a + e = b + m" "k + m = c"
  shows "a + (k + e) = b + c"
  using assms by (metis add.assoc add.commute)

lemma results_append_results [simp]:
  "ctx_tool_results (um_context (append_results rs m)) = ctx_tool_results (um_context m) @ rs"
  by (simp add: append_results_def)

text \<open>A result is added only to the first user message after its call: \<open>before\<close> are the calls since the last
  user message, and \<open>extra\<close> the results added to the current message.\<close>

fun answered_next ::
  "string set \<Rightarrow> history_message list \<Rightarrow> history_message list \<Rightarrow> tool_result list \<Rightarrow> bool" where
  "answered_next before (m # h) (m' # h') extra \<longleftrightarrow>
     is_user m' = is_user m \<and> uses_of m' = uses_of m \<and>
     (\<exists>new. results_of m' = results_of m @ new \<and> set (result_ids new) \<subseteq> (if is_user m then before else {})) \<and>
     answered_next (if is_user m then {} else before \<union> set (map tu_tool_use_id (uses_of m))) h h' extra"
| "answered_next before [] [] extra \<longleftrightarrow> set (result_ids extra) \<subseteq> before"
| "answered_next before _ _ extra = False"

lemma is_user_simps [simp]: "is_user (HistoryUser m)" "\<not> is_user (HistoryAssistant a)"
  by (simp_all add: is_user_def)

lemma add_interrupted_ids:
  assumes "add_interrupted orphans us (handled, waiting) = (handled', waiting')"
  shows "set (result_ids waiting') \<subseteq> set (result_ids waiting) \<union> set (map tu_tool_use_id us)"
proof -
  obtain new where new: "waiting' = waiting @ new"
    "mset (result_ids new) = mset_set (orphans \<inter> set (map tu_tool_use_id us) - handled)"
    using add_interrupted_exact [OF assms] by blast
  have "set (result_ids new) = orphans \<inter> set (map tu_tool_use_id us) - handled"
    using arg_cong [OF new(2), of set_mset] by simp
  with new(1) show ?thesis by auto
qed

lemma pair_loop_next:
  assumes "pair_loop orphans h (handled, waiting) = (h', rest)" "set (result_ids waiting) \<subseteq> before"
  shows "answered_next before h h' rest"
  using assms
proof (induction orphans h "(handled, waiting)" arbitrary: handled waiting before h' rest rule: pair_loop.induct)
  case (2 orphans m h handled waiting)
  let ?us = "uses_of (HistoryAssistant m)"
  obtain hd1 w1 where a: "add_interrupted orphans ?us (handled, waiting) = (hd1, w1)" by fastforce
  obtain h1 where h1: "pair_loop orphans h (hd1, w1) = (h1, rest)" "h' = HistoryAssistant m # h1"
    using 2(2) a by (auto split: prod.splits)
  have "set (result_ids w1) \<subseteq> before \<union> set (map tu_tool_use_id ?us)"
    using add_interrupted_ids [OF a] 2(3) by blast
  then show ?case using 2(1) [OF a h1(1)] h1(2) by simp
next
  case (3 orphans m h handled waiting)
  obtain h1 where h1: "pair_loop orphans h (handled, []) = (h1, rest)"
    "h' = HistoryUser (if waiting = [] then m else append_results waiting m) # h1"
    using 3(2) by (auto split: prod.splits)
  have "answered_next {} h h1 rest" using 3(1) [OF h1(1)] by simp
  then show ?case using 3(3) h1(2) by auto
qed simp

lemma mset_set_step:
  assumes "finite A" "finite B"
  shows "mset_set (orphans \<inter> (A \<union> B) - handled) =
    mset_set (orphans \<inter> A - handled) + mset_set (orphans \<inter> B - (handled \<union> (orphans \<inter> A)))"
proof -
  have "orphans \<inter> (A \<union> B) - handled = (orphans \<inter> A - handled) \<union> (orphans \<inter> B - (handled \<union> (orphans \<inter> A)))" by auto
  then show ?thesis using assms by (simp add: mset_set_Union [symmetric] Int_Diff disjoint_iff)
qed

lemma pair_loop_exact:
  assumes "pair_loop orphans h (handled, waiting) = (h', rest)"
  shows "mset (result_ids (history_results h' @ rest)) =
    mset (result_ids (history_results h @ waiting)) + mset_set (orphans \<inter> set (use_ids h) - handled)"
  using assms
proof (induction orphans h "(handled, waiting)" arbitrary: handled waiting h' rest rule: pair_loop.induct)
  case (2 orphans m h handled waiting)
  let ?us = "uses_of (HistoryAssistant m)" and ?A = "set (map tu_tool_use_id (uses_of (HistoryAssistant m)))"
  obtain hd1 w1 where a: "add_interrupted orphans ?us (handled, waiting) = (hd1, w1)" by fastforce
  obtain new where new: "hd1 = handled \<union> (orphans \<inter> ?A)" "w1 = waiting @ new"
    "mset (result_ids new) = mset_set (orphans \<inter> ?A - handled)"
    using add_interrupted_exact [OF a] by blast
  obtain h1 where h1: "pair_loop orphans h (hd1, w1) = (h1, rest)" "h' = HistoryAssistant m # h1"
    using 2(2) a by (auto split: prod.splits)
  have "mset_set (orphans \<inter> set (use_ids (HistoryAssistant m # h)) - handled) =
      mset (result_ids new) + mset_set (orphans \<inter> set (use_ids h) - hd1)"
    using mset_set_step [of ?A "set (use_ids h)" orphans handled] new(1,3)
    by (simp del: uses_of.simps set_map)
  then show ?case using 2(1) [OF a h1(1)] h1(2) new(2) by simp
next
  case (3 orphans m h handled waiting)
  obtain h1 where h1: "pair_loop orphans h (handled, []) = (h1, rest)"
    "h' = HistoryUser (if waiting = [] then m else append_results waiting m) # h1"
    using 3(2) by (auto split: prod.splits)
  have "results_of (hd h') = results_of (HistoryUser m) @ waiting" using h1(2) by simp
  then show ?case using 3(1) [OF h1(1)] h1(2) by simp
qed simp

lemma answered_next_refl: "answered_next before h h []"
  by (induction h arbitrary: before) auto

definition open_calls :: "history_message list \<Rightarrow> string set" where
  "open_calls h = set (use_ids h) - set (result_ids (history_results h))"

lemma pairing_exact:
  assumes "validate_tool_pairing h rs = (kept, orphans)" "pair_orphaned_tool_uses h orphans = (h', extra)"
  shows "mset (result_ids (history_results h' @ kept @ extra)) =
      mset (result_ids (history_results h)) + mset_set (open_calls h) \<and>
    subseq kept rs \<and> set (result_ids kept) = open_calls h \<inter> set (result_ids rs) \<and>
    answered_next {} h h' extra"
proof -
  have "finite (open_calls h)" "keep_paired (open_calls h) rs = (kept, orphans)"
    using assms(1) by (simp_all add: validate_tool_pairing_def open_calls_def)
  then have kept: "mset (result_ids kept) + mset_set orphans = mset_set (open_calls h)"
    "orphans = open_calls h - set (result_ids rs)" "subseq kept rs"
    using keep_paired_exact by blast+
  have fin: "finite (open_calls h)" by (simp add: open_calls_def)
  have "set (result_ids kept) \<union> orphans = open_calls h"
    using arg_cong [OF kept(1), of set_mset] fin kept(2) by simp
  moreover have "set (result_ids kept) \<inter> orphans = {}"
    using mset_set_split_disjoint [OF _ kept(1)] fin kept(2) by simp
  ultimately have ids: "set (result_ids kept) = open_calls h \<inter> set (result_ids rs)" using kept(2) by blast
  have "mset (result_ids (history_results h' @ extra)) = mset (result_ids (history_results h)) + mset_set orphans \<and>
    answered_next {} h h' extra"
  proof (cases "orphans = {}")
    case True
    then show ?thesis using assms(2) answered_next_refl by (simp add: pair_orphaned_tool_uses_def)
  next
    case False
    then have loop: "pair_loop orphans h ({}, []) = (h', extra)"
      using assms(2) by (simp add: pair_orphaned_tool_uses_def)
    have "orphans \<inter> set (use_ids h) - {} = orphans" using kept(2) by (auto simp: open_calls_def)
    then show ?thesis using pair_loop_exact [OF loop] pair_loop_next [OF loop, of "{}"] by simp
  qed
  then show ?thesis
    using add_parts [OF _ kept(1), of "mset (result_ids (history_results h'))" "mset (result_ids extra)"] kept(3) ids
    by simp
qed

text \<open>C3: What is sent has exactly one result for every call of the history that had none, and no other result is
  added: first those of the current message, in their order, and for each call the client gave no result the
  remark that it was interrupted, in the first user message after the call.  Messages, calls and the results
  that were there stay as they are.\<close>

theorem tool_calls_answered:
  assumes "validate_tool_pairing h rs = (kept, orphans)" "pair_orphaned_tool_uses h orphans = (h', extra)"
  shows "mset (result_ids (history_results h' @ kept @ extra)) =
      mset (result_ids (history_results h)) + mset_set (open_calls h) \<and>
    subseq kept rs \<and> set (result_ids kept) = open_calls h \<inter> set (result_ids rs) \<and>
    answered_next {} h h' extra"
  using assms by (rule pairing_exact)

definition sample_call :: "string \<Rightarrow> tool_use_entry" where
  "sample_call i = new_tool_use_entry i ''query''"

definition sample_history :: "history_message list" where
  "sample_history =
     [HistoryUser (new_user_message None ''Compare.'' ''m''),
      HistoryAssistant \<lparr>am_content = '' '', am_tool_uses = Some [sample_call ''a'', sample_call ''b'']\<rparr>,
      HistoryUser (append_results [tool_result_success ''a'' ''1''] (new_user_message None [] ''m'')),
      HistoryAssistant \<lparr>am_content = '' '', am_tool_uses = Some [sample_call ''c'', sample_call ''d'']\<rparr>]"

lemma tool_calls_answered_witness:
  "\<exists>kept orphans h' extra.
     validate_tool_pairing sample_history [tool_result_success ''c'' ''2'', tool_result_success ''a'' ''3''] = (kept, orphans) \<and>
     pair_orphaned_tool_uses sample_history orphans = (h', extra) \<and>
     result_ids kept = [''c''] \<and> mset (result_ids (history_results h' @ kept @ extra)) = {#''a'', ''b'', ''c'', ''d''#}"
proof -
  obtain kept orphans h' extra where
    v: "validate_tool_pairing sample_history [tool_result_success ''c'' ''2'', tool_result_success ''a'' ''3''] = (kept, orphans)"
    and p: "pair_orphaned_tool_uses sample_history orphans = (h', extra)" by (meson surj_pair)
  have uses: "open_calls sample_history = {''b'', ''c'', ''d''}"
    by (auto simp: open_calls_def sample_history_def sample_call_def new_tool_use_entry_def new_user_message_def
        default_context_def tool_result_success_def)
  have old: "result_ids (history_results sample_history) = [''a'']"
    by (simp add: sample_history_def new_user_message_def default_context_def tool_result_success_def)
  have "validate_tool_pairing sample_history rs = keep_paired {''b'', ''c'', ''d''} rs" for rs
    using uses by (simp only: validate_tool_pairing_def open_calls_def)
  then have "keep_paired {''b'', ''c'', ''d''} [tool_result_success ''c'' ''2'', tool_result_success ''a'' ''3''] = (kept, orphans)"
    using v by simp
  then have "result_ids kept = [''c'']" by (auto simp add: tool_result_success_def)
  moreover have "mset (result_ids (history_results h' @ kept @ extra)) = mset [''a''] + mset_set {''b'', ''c'', ''d''}"
    using tool_calls_answered [OF v p] unfolding old uses by (rule conjunct1)
  moreover have "mset [''a''] + mset_set {''b'', ''c'', ''d''} = {#''a'', ''b'', ''c'', ''d''#}" by simp
  ultimately show ?thesis using v p by metis
qed

section \<open>Compaction takes complete conversations only\<close>

lemma open_uses_iff:
  "open_uses us (seen, waiting) = Inr (seen', waiting') \<longleftrightarrow>
     distinct (map tu_tool_use_id us) \<and> set (map tu_tool_use_id us) \<inter> seen = {} \<and>
     seen' = seen \<union> set (map tu_tool_use_id us) \<and> waiting' = waiting \<union> set (map tu_tool_use_id us)"
  by (induction us "(seen, waiting)" arbitrary: seen waiting rule: open_uses.induct) auto

lemma close_results_iff:
  "close_results complaint rs waiting = Inr waiting' \<longleftrightarrow>
     distinct (result_ids rs) \<and> set (result_ids rs) \<subseteq> waiting \<and> waiting' = waiting - set (result_ids rs)"
  by (induction complaint rs waiting rule: close_results.induct) auto

text \<open>Every result comes after its call.\<close>

fun results_follow :: "string set \<Rightarrow> history_message list \<Rightarrow> bool" where
  "results_follow called [] = True"
| "results_follow called (m # h) \<longleftrightarrow>
     set (result_ids (results_of m)) \<subseteq> called \<and> results_follow (called \<union> set (map tu_tool_use_id (uses_of m))) h"

lemma use_ids_Cons: "use_ids (m # h) = map tu_tool_use_id (uses_of m) @ use_ids h"
  by simp

lemma result_ids_Cons:
  "result_ids (history_results (m # h)) = result_ids (results_of m) @ result_ids (history_results h)"
  by simp

lemma results_follow_minus:
  "set (use_ids h) \<inter> R = {} \<Longrightarrow>
   results_follow (W - R) h \<longleftrightarrow> results_follow W h \<and> set (result_ids (history_results h)) \<inter> R = {}"
proof (induction h arbitrary: W)
  case (Cons m h)
  let ?A = "set (map tu_tool_use_id (uses_of m))"
  have d: "?A \<inter> R = {}" "set (use_ids h) \<inter> R = {}"
    using Cons.prems unfolding use_ids_Cons set_append by blast+
  then have "W - R \<union> ?A = (W \<union> ?A) - R" by blast
  then have "results_follow (W - R \<union> ?A) h \<longleftrightarrow>
      results_follow (W \<union> ?A) h \<and> set (result_ids (history_results h)) \<inter> R = {}"
    using Cons.IH [OF d(2), of "W \<union> ?A"] by argo
  then show ?case
    unfolding results_follow.simps result_ids_Cons set_append by blast
qed simp

lemma walk_history_iff:
  assumes "waiting \<subseteq> seen"
  shows "walk_history h (seen, waiting) = Inr (seen', waiting') \<longleftrightarrow>
    distinct (use_ids h) \<and> set (use_ids h) \<inter> seen = {} \<and> distinct (result_ids (history_results h)) \<and>
    results_follow waiting h \<and> seen' = seen \<union> set (use_ids h) \<and>
    waiting' = waiting \<union> set (use_ids h) - set (result_ids (history_results h))"
  using assms
proof (induction h arbitrary: seen waiting)
  case (Cons m h)
  show ?case
  proof (cases m)
    case (HistoryUser u)
    let ?R = "set (result_ids (results_of m))" and ?U = "set (use_ids h)"
    have none: "uses_of m = []" using HistoryUser by simp
    show ?thesis
    proof (cases "distinct (result_ids (results_of m)) \<and> ?R \<subseteq> waiting")
      case True
      then have step: "walk_history (m # h) (seen, waiting) = walk_history h (seen, waiting - ?R)"
        using HistoryUser close_results_iff [of _ "results_of m" waiting "waiting - ?R"] by simp
      have seen: "?R \<subseteq> seen" "waiting - ?R \<subseteq> seen" using True Cons.prems by blast+
      show ?thesis
      proof (cases "?U \<inter> seen = {}")
        case fresh: True
        then have "results_follow (waiting - ?R) h \<longleftrightarrow>
            results_follow waiting h \<and> set (result_ids (history_results h)) \<inter> ?R = {}"
          using results_follow_minus [of h ?R waiting] seen(1) by blast
        moreover have "waiting - ?R \<union> ?U - Z = waiting \<union> ?U - (?R \<union> Z)" for Z
          using fresh seen(1) by blast
        ultimately show ?thesis
          using True fresh seen(2) Cons.IH [of "waiting - ?R" seen]
          unfolding step results_follow.simps use_ids_Cons result_ids_Cons set_append distinct_append none
          by (simp add: Int_commute del: set_map set_concat) blast
      next
        case False
        then show ?thesis
          using seen(2) Cons.IH [of "waiting - ?R" seen] unfolding step use_ids_Cons none by simp
      qed
    next
      case False
      then obtain e where "close_results ''tool_result has no pending tool_use in compaction history: '' (results_of m) waiting = Inl e"
        using close_results_iff [of _ "results_of m" waiting] by (meson old.sum.exhaust)
      then show ?thesis using False HistoryUser
        unfolding results_follow.simps use_ids_Cons result_ids_Cons set_append distinct_append by auto
    qed
  next
    case (HistoryAssistant a)
    let ?A = "set (map tu_tool_use_id (uses_of m))"
    have none: "results_of m = []" using HistoryAssistant by simp
    show ?thesis
    proof (cases "distinct (map tu_tool_use_id (uses_of m)) \<and> ?A \<inter> seen = {}")
      case True
      then have "open_uses (uses_of m) (seen, waiting) = Inr (seen \<union> ?A, waiting \<union> ?A)"
        using open_uses_iff by blast
      then have step: "walk_history (m # h) (seen, waiting) = walk_history h (seen \<union> ?A, waiting \<union> ?A)"
        using HistoryAssistant by (simp del: set_map uses_of.simps)
      have "waiting \<union> ?A \<subseteq> seen \<union> ?A" using Cons.prems by blast
      then show ?thesis
        using True none Cons.IH [of "waiting \<union> ?A" "seen \<union> ?A"]
        unfolding step results_follow.simps use_ids_Cons result_ids_Cons set_append distinct_append
        by (auto simp del: set_map)
    next
      case False
      have "\<nexists>st. open_uses (uses_of m) (seen, waiting) = Inr st"
        unfolding split_paired_Ex open_uses_iff using False by simp
      then obtain e where "open_uses (uses_of m) (seen, waiting) = Inl e"
        by (cases "open_uses (uses_of m) (seen, waiting)") blast+
      then show ?thesis using False HistoryAssistant
        unfolding results_follow.simps use_ids_Cons result_ids_Cons set_append distinct_append
        by (auto simp del: set_map)
    qed
  qed
qed auto


lemma results_follow_known:
  "results_follow W h \<Longrightarrow> set (result_ids (history_results h)) \<subseteq> W \<union> set (use_ids h)"
proof (induction h arbitrary: W)
  case (Cons m h)
  then have "set (result_ids (history_results h)) \<subseteq> W \<union> set (map tu_tool_use_id (uses_of m)) \<union> set (use_ids h)"
    by simp
  with Cons.prems show ?case
    unfolding results_follow.simps use_ids_Cons result_ids_Cons set_append by blast
qed simp

lemma compaction_iff:
  "validate_compaction_tool_sequence h current = Inr () \<longleftrightarrow>
    distinct (use_ids h) \<and> distinct (result_ids (history_results h @ current)) \<and>
    set (use_ids h) = set (result_ids (history_results h @ current)) \<and> results_follow {} h"
proof -
  let ?U = "set (use_ids h)" and ?R = "set (result_ids (history_results h))" and ?C = "set (result_ids current)"
  have "validate_compaction_tool_sequence h current = Inr () \<longleftrightarrow>
      (\<exists>seen waiting. walk_history h ({}, {}) = Inr (seen, waiting) \<and>
         (\<exists>w. close_results ''current tool_result has no pending tool_use in compaction history: '' current waiting = Inr w \<and> w = {}))"
    by (auto simp: validate_compaction_tool_sequence_def split: sum.splits if_splits)
  also have "\<dots> \<longleftrightarrow> distinct (use_ids h) \<and> distinct (result_ids (history_results h)) \<and> results_follow {} h \<and>
      distinct (result_ids current) \<and> ?C \<subseteq> ?U - ?R \<and> ?U - ?R - ?C = {}"
    unfolding walk_history_iff [OF subset_refl] close_results_iff by (auto simp del: set_map set_concat)
  also have "\<dots> \<longleftrightarrow> distinct (use_ids h) \<and> distinct (result_ids (history_results h @ current)) \<and>
      ?U = ?R \<union> ?C \<and> results_follow {} h"
    using results_follow_known [of "{}" h] unfolding map_append distinct_append by blast
  finally show ?thesis by simp
qed

text \<open>C6: A conversation is compacted exactly when it is complete: no two calls and no two results have the same id,
  the calls of the history are those that have a result there or in the current message, and every result of
  the history comes after its call.\<close>

theorem compaction_accepts_iff:
  "validate_compaction_tool_sequence h current = Inr () \<longleftrightarrow>
    distinct (use_ids h) \<and> distinct (result_ids (history_results h @ current)) \<and>
    set (use_ids h) = set (result_ids (history_results h @ current)) \<and> results_follow {} h"
  by (rule compaction_iff)

end
