(* ===== verification/HistoryBuild.thy ===== *)
theory HistoryBuild
  imports ToolPairing ModelIds
begin

text \<open>
  The history of the upstream conversation (\<open>src/anthropic/converter.rs\<close>, \<open>generate_thinking_prefix\<close> to
  \<open>merge_assistant_messages\<close>): the system prompt becomes the first exchange, consecutive messages of one
  role become one message, thinking of finished turns is dropped for models that do not keep it.  The
  table of images and the map of tool names are threaded.
\<close>

section \<open>Prompts put in front\<close>

record conversion_env =
  ce :: content_env
  registry :: "custom_model_registry option"
  working_directory :: "string option"

datatype conversion_purpose = Generate | Compact | CompactFallback

definition SYSTEM_CHUNKED_POLICY :: string where
  "SYSTEM_CHUNKED_POLICY = ''When the Write or Edit tool has content size limits, always follow them. Never suggest bypassing these limits via alternative tools. Never ask the user whether to switch approaches. Complete all chunked operations without stopping to ask for confirmation.''"

definition CLIENT_SYSTEM_PROMPT_OPEN :: string where
  "CLIENT_SYSTEM_PROMPT_OPEN = ''<client_system_prompt>''"

definition CLIENT_SYSTEM_PROMPT_CLOSE :: string where
  "CLIENT_SYSTEM_PROMPT_CLOSE = ''</client_system_prompt>''"

definition CLIENT_SYSTEM_PROMPT_ACK :: string where
  "CLIENT_SYSTEM_PROMPT_ACK = ''Understood. I will follow the client system prompt above.''"

definition THINKING_CONFIG_ACK :: string where
  "THINKING_CONFIG_ACK = ''Understood. I will use the thinking configuration above.''"

definition COMPACTION_HISTORY_TOOL_NAME :: string where
  "COMPACTION_HISTORY_TOOL_NAME = ''kiro_compaction_history_tool''"

definition decimal_int :: "int \<Rightarrow> string" where
  "decimal_int i = (if i < 0 then ''-'' @ decimal (nat (- i)) else decimal (nat i))"

definition generate_thinking_prefix ::
  "custom_model_registry option \<Rightarrow> messages_request \<Rightarrow> string \<Rightarrow> string option" where
  "generate_thinking_prefix reg req model_id =
     (case thinking req of
        None \<Rightarrow> None
      | Some t \<Rightarrow>
          if thinking_type t = ''adaptive'' \<or>
             (thinking_type t = ''enabled'' \<and> model_supports_native_reasoning reg model_id)
          then Some (''<thinking_mode>adaptive</thinking_mode><thinking_effort>'' @
                 select_native_reasoning_effort req model_id @ ''</thinking_effort>'')
          else if thinking_type t = ''enabled''
          then Some (''<thinking_mode>enabled</thinking_mode><max_thinking_length>'' @
                 decimal_int (budget_tokens t) @ ''</max_thinking_length>'')
          else None)"

definition has_thinking_tags :: "string \<Rightarrow> bool" where
  "has_thinking_tags s \<longleftrightarrow> contains s ''<thinking_mode>'' \<or> contains s ''<max_thinking_length>''"

definition has_chunked_tools :: "messages_request \<Rightarrow> bool" where
  "has_chunked_tools req \<longleftrightarrow>
     (case tools req of
        Some ts \<Rightarrow> list_ex (\<lambda>t. tool_name t \<in> {''Write'', ''Edit'', ''Bash''}) ts
      | None \<Rightarrow> False)"

definition system_texts :: "messages_request \<Rightarrow> string list" where
  "system_texts req = (case system req of Some ss \<Rightarrow> map sys_text ss | None \<Rightarrow> [])"

text \<open>The exchange in front of the conversation.\<close>

definition preamble ::
  "conversion_env \<Rightarrow> messages_request \<Rightarrow> string \<Rightarrow> tool_compatibility_mode \<Rightarrow> history_message list" where
  "preamble env req model_id mode =
     (let thinking_prefix = generate_thinking_prefix (registry env) req model_id;
          system_content = join [newline] (system_texts req)
      in if \<not> is_blank system_content
         then
           let parts =
                 (case thinking_prefix of
                    Some p \<Rightarrow> if has_thinking_tags system_content then [] else [p]
                  | None \<Rightarrow> []) @
                 [CLIENT_SYSTEM_PROMPT_OPEN @ [newline] @ system_content @ [newline] @ CLIENT_SYSTEM_PROMPT_CLOSE] @
                 (if is_claude_code_mode mode \<and> has_chunked_tools req then [SYSTEM_CHUNKED_POLICY] else [])
           in [HistoryUser (new_user_message (working_directory env) (join [newline] parts) model_id),
               HistoryAssistant (new_assistant_message CLIENT_SYSTEM_PROMPT_ACK)]
         else
           (case thinking_prefix of
              Some p \<Rightarrow> [HistoryUser (new_user_message (working_directory env) p model_id),
                         HistoryAssistant (new_assistant_message THINKING_CONFIG_ACK)]
            | None \<Rightarrow> []))"

section \<open>Messages with other roles\<close>

definition trailing_users :: "request_message list \<Rightarrow> request_message list" where
  "trailing_users ms = rev (takeWhile (\<lambda>m. role m = ''user'') (rev ms))"

definition text_block :: "string \<Rightarrow> json" where
  "text_block s = JObject [(''text'', JString s), (''type'', JString ''text'')]"

definition content_blocks :: "json \<Rightarrow> json list" where
  "content_blocks v = (case v of JString s \<Rightarrow> [text_block s] | JArray items \<Rightarrow> items | _ \<Rightarrow> [])"

definition merge_trailing_user_messages :: "request_message list \<Rightarrow> request_message list option" where
  "merge_trailing_user_messages ms =
     (let tail = trailing_users ms in
      if length tail < 2 then None
      else Some (take (length ms - length tail) ms @
             [\<lparr>role = ''user'', content = JArray (concat (map (content_blocks \<circ> content) tail))\<rparr>]))"

definition system_message_text :: "json \<Rightarrow> string" where
  "system_message_text v =
     (case v of
        JString s \<Rightarrow> s
      | JArray items \<Rightarrow> join [newline] (filter (\<lambda>t. t \<noteq> []) (List.map_filter (\<lambda>b. get_str b ''text'') items))
      | _ \<Rightarrow> [])"

definition known_role :: "request_message \<Rightarrow> bool" where
  "known_role m \<longleftrightarrow> role m = ''user'' \<or> role m = ''assistant'' \<or> role m = ''system''"

definition system_reminder :: "string \<Rightarrow> request_message" where
  "system_reminder text =
     \<lparr>role = ''user'',
      content = JArray [text_block (''<system-reminder>'' @ [newline] @ text @ [newline] @ ''</system-reminder>'')]\<rparr>"

definition normalize_message :: "request_message \<Rightarrow> request_message option" where
  "normalize_message m =
     (if \<not> known_role m then None
      else if role m \<noteq> ''system'' then Some m
      else
        let text = system_message_text (content m) in
        if is_blank text then None else Some (system_reminder text))"

text \<open>No branch fails, so the \<open>Result\<close> of the code is dropped.\<close>

definition normalize_system_messages :: "request_message list \<Rightarrow> request_message list option" where
  "normalize_system_messages ms =
     (if list_all (\<lambda>m. known_role m \<and> role m \<noteq> ''system'') ms then None
      else Some (List.map_filter normalize_message ms))"

section \<open>Thinking of finished turns\<close>

definition parse_u32 :: "string \<Rightarrow> nat option" where
  "parse_u32 s = (case parse_u64 s of Some n \<Rightarrow> if n < 2 ^ 32 then Some n else None | None \<Rightarrow> None)"

definition split_once :: "char \<Rightarrow> string \<Rightarrow> (string \<times> string) option" where
  "split_once c s =
     (if c \<in> set s
      then let base = takeWhile (\<lambda>x. x \<noteq> c) s in Some (base, drop (length base + 1) s)
      else None)"

text \<open>The numbers a version begins with, split at dots and hyphens.\<close>

definition version_numbers :: "string \<Rightarrow> nat list" where
  "version_numbers s =
     map the (takeWhile (\<lambda>n. n \<noteq> None)
       (map parse_u32 (concat (map (split_char CHR ''-'') (split_char CHR ''.'' s)))))"

definition model_keeps_prior_thinking :: "string \<Rightarrow> bool" where
  "model_keeps_prior_thinking model_id =
     (case strip_prefix ''claude-'' (to_ascii_lowercase (trim model_id)) of
        None \<Rightarrow> False
      | Some rest \<Rightarrow>
          let (family, version) = (case split_once CHR ''-'' rest of Some p \<Rightarrow> p | None \<Rightarrow> (rest, []));
              numbers = version_numbers version;
              minor = (case numbers of _ # n # _ \<Rightarrow> n | _ \<Rightarrow> 0)
          in (case parse_u32 family of
                Some generation \<Rightarrow> 5 \<le> generation
              | None \<Rightarrow>
                  (case numbers of
                     [] \<Rightarrow> False
                   | m # _ \<Rightarrow>
                       if family = ''opus'' then 4 < m \<or> (m = 4 \<and> 5 \<le> minor)
                       else if family = ''sonnet'' then 4 < m \<or> (m = 4 \<and> 6 \<le> minor)
                       else 5 \<le> m)))"

definition starts_turn :: "request_message \<Rightarrow> bool" where
  "starts_turn m \<longleftrightarrow>
     role m = ''user'' \<and>
     (case content m of
        JString s \<Rightarrow> \<not> is_blank s
      | JArray items \<Rightarrow>
          list_ex
            (\<lambda>b. case get_str b ''type'' of
                   None \<Rightarrow> True
                 | Some t \<Rightarrow>
                     if t = ''tool_result'' then False
                     else if t = ''text''
                     then (case get_str b ''text'' of Some s \<Rightarrow> \<not> is_blank s | None \<Rightarrow> False)
                     else True)
            items
      | _ \<Rightarrow> False)"

text \<open>The messages before the last one that starts a turn; none when no message does.\<close>

definition before_last_turn :: "request_message list \<Rightarrow> request_message list" where
  "before_last_turn ms = rev (tl (dropWhile (\<lambda>m. \<not> starts_turn m) (rev ms)))"

definition finished_assistant_turns :: "request_message list \<Rightarrow> nat" where
  "finished_assistant_turns ms = length (filter (\<lambda>m. role m = ''assistant'') (before_last_turn ms))"


section \<open>Assistant messages\<close>

record assistant_parts =
  ap_segments :: "string list"
  ap_text_run :: string
  ap_dropped_thinking :: nat
  ap_dropped_redacted :: nat
  ap_tool_uses :: "tool_use_entry list"
  ap_names :: name_map

text \<open>The run of text blocks so far becomes a segment of its own.\<close>

definition end_text_run :: "assistant_parts \<Rightarrow> assistant_parts" where
  "end_text_run p =
     (if ap_text_run p = [] then p
      else p\<lparr>ap_segments := ap_segments p @ [ap_text_run p], ap_text_run := []\<rparr>)"

definition convert_tool_use ::
  "(string \<Rightarrow> string) \<Rightarrow> tool_compatibility_mode \<Rightarrow> conversion_purpose \<Rightarrow> string \<Rightarrow> string \<Rightarrow> json \<Rightarrow>
     assistant_parts \<Rightarrow> assistant_parts" where
  "convert_tool_use hex mode purpose i name input p =
     (let (mapped_name, input, names) =
            (if purpose = CompactFallback then (COMPACTION_HISTORY_TOOL_NAME, input, ap_names p)
             else
               let (k, names) = map_client_tool_name_to_kiro hex name (ap_names p) mode
               in (k, map_tool_input_to_kiro name input mode, names))
      in p\<lparr>ap_tool_uses := ap_tool_uses p @ [(new_tool_use_entry i mapped_name)\<lparr>tu_tool_input := input\<rparr>],
           ap_names := names\<rparr>)"

definition assistant_block ::
  "(string \<Rightarrow> string) \<Rightarrow> tool_compatibility_mode \<Rightarrow> conversion_purpose \<Rightarrow> bool \<Rightarrow> json \<Rightarrow>
     assistant_parts \<Rightarrow> assistant_parts" where
  "assistant_block hex mode purpose keep_thinking item p =
     (case content_block_of_value item of
        None \<Rightarrow> p
      | Some block \<Rightarrow>
          if cb_type block = ''thinking''
          then
            (case nonempty (cb_thinking block) of
               None \<Rightarrow> p
             | Some t \<Rightarrow>
                 let p = end_text_run p in
                 if keep_thinking
                 then p\<lparr>ap_segments := ap_segments p @ [''<thinking>'' @ t @ ''</thinking>'']\<rparr>
                 else p\<lparr>ap_dropped_thinking := ap_dropped_thinking p + 1\<rparr>)
          else if cb_type block = ''redacted_thinking''
          then (end_text_run p)\<lparr>ap_dropped_redacted := ap_dropped_redacted p + 1\<rparr>
          else if cb_type block = ''text''
          then (case cb_text block of Some t \<Rightarrow> p\<lparr>ap_text_run := ap_text_run p @ t\<rparr> | None \<Rightarrow> p)
          else if cb_type block = ''tool_use''
          then
            (case (cb_id block, cb_name block) of
               (Some i, Some name) \<Rightarrow>
                 convert_tool_use hex mode purpose i name
                   (case cb_input block of Some v \<Rightarrow> v | None \<Rightarrow> JObject []) p
             | _ \<Rightarrow> p)
          else p)"

definition assistant_parts_of ::
  "(string \<Rightarrow> string) \<Rightarrow> tool_compatibility_mode \<Rightarrow> conversion_purpose \<Rightarrow> bool \<Rightarrow> json \<Rightarrow> name_map \<Rightarrow>
     assistant_parts" where
  "assistant_parts_of hex mode purpose keep_thinking v names =
     (let p = \<lparr>ap_segments = [], ap_text_run = [], ap_dropped_thinking = 0, ap_dropped_redacted = 0,
               ap_tool_uses = [], ap_names = names\<rparr>
      in end_text_run
           (case v of
              JString s \<Rightarrow> p\<lparr>ap_text_run := s\<rparr>
            | JArray items \<Rightarrow> fold (assistant_block hex mode purpose keep_thinking) items p
            | _ \<Rightarrow> p))"

definition blank_line :: string where
  "blank_line = [newline, newline]"

text \<open>No branch fails, so the \<open>Result\<close> of the code is dropped here and in \<open>merge_assistant_messages\<close>.\<close>

definition convert_assistant_message ::
  "(string \<Rightarrow> string) \<Rightarrow> tool_compatibility_mode \<Rightarrow> conversion_purpose \<Rightarrow> bool \<Rightarrow> request_message \<Rightarrow> name_map \<Rightarrow>
     assistant_message \<times> name_map" where
  "convert_assistant_message hex mode purpose keep_thinking msg names =
     (let p = assistant_parts_of hex mode purpose keep_thinking (content msg) names;
          final_content =
            (if ap_segments p = [] \<and>
                (ap_tool_uses p \<noteq> [] \<or> 0 < ap_dropped_thinking p \<or> 0 < ap_dropped_redacted p)
             then '' '' else join blank_line (ap_segments p))
      in (\<lparr>am_content = final_content,
           am_tool_uses = (if ap_tool_uses p = [] then None else Some (ap_tool_uses p))\<rparr>, ap_names p))"

fun convert_assistant_messages ::
  "(string \<Rightarrow> string) \<Rightarrow> tool_compatibility_mode \<Rightarrow> conversion_purpose \<Rightarrow> bool \<Rightarrow> request_message list \<Rightarrow> name_map \<Rightarrow>
     assistant_message list \<times> name_map" where
  "convert_assistant_messages hex mode purpose keep_thinking [] names = ([], names)"
| "convert_assistant_messages hex mode purpose keep_thinking (m # ms) names =
     (let (a, names) = convert_assistant_message hex mode purpose keep_thinking m names;
          (as, names) = convert_assistant_messages hex mode purpose keep_thinking ms names
      in (a # as, names))"

abbreviation message_uses :: "assistant_message \<Rightarrow> tool_use_entry list" where
  "message_uses a \<equiv> uses_of (HistoryAssistant a)"

definition merge_assistant_messages ::
  "(string \<Rightarrow> string) \<Rightarrow> tool_compatibility_mode \<Rightarrow> conversion_purpose \<Rightarrow> bool \<Rightarrow> request_message list \<Rightarrow> name_map \<Rightarrow>
     assistant_message \<times> name_map" where
  "merge_assistant_messages hex mode purpose keep_thinking ms names =
     (case ms of
        [m] \<Rightarrow> convert_assistant_message hex mode purpose keep_thinking m names
      | _ \<Rightarrow>
          let (as, names) = convert_assistant_messages hex mode purpose keep_thinking ms names;
              content_parts = filter (\<lambda>t. \<not> is_blank t) (map am_content as);
              all_tool_uses = concat (map message_uses as);
              text = (if content_parts = [] \<and> all_tool_uses \<noteq> [] then '' '' else join blank_line content_parts)
          in (\<lparr>am_content = text, am_tool_uses = (if all_tool_uses = [] then None else Some all_tool_uses)\<rparr>, names))"

section \<open>User messages\<close>

fun user_contents ::
  "content_env \<Rightarrow> request_message list \<Rightarrow> image_state \<Rightarrow> conversion_error + (parts \<times> image_state)" where
  "user_contents env [] st = Inr (([], []), st)"
| "user_contents env (m # ms) st =
     (case process_message_content env (content m) st of
        Inl e \<Rightarrow> Inl e
      | Inr ((text, results), st) \<Rightarrow>
          (case user_contents env ms st of
             Inl e \<Rightarrow> Inl e
           | Inr ((texts, results'), st) \<Rightarrow>
               Inr ((if text = [] then texts else text # texts, results @ results'), st)))"

definition merge_user_messages ::
  "conversion_env \<Rightarrow> request_message list \<Rightarrow> string \<Rightarrow> image_dedup \<Rightarrow> conversion_error + (user_message \<times> image_dedup)" where
  "merge_user_messages env ms model_id dedup =
     (case user_contents (ce env) ms (dedup, []) of
        Inl e \<Rightarrow> Inl e
      | Inr ((texts, results), (dedup, images)) \<Rightarrow>
          let u = (new_user_message (working_directory env) (join [newline] texts) model_id)\<lparr>um_images := images\<rparr>
          in Inr (append_results results u, dedup))"

section \<open>The loop over the messages\<close>

record history_state =
  hs_history :: "history_message list"
  hs_names :: name_map
  hs_dedup :: image_dedup
  hs_ordinal :: nat
  hs_keeps_thinking :: bool
  hs_users :: "request_message list"
  hs_assistants :: "request_message list"

definition flush_assistants ::
  "conversion_env \<Rightarrow> tool_compatibility_mode \<Rightarrow> conversion_purpose \<Rightarrow> history_state \<Rightarrow> history_state" where
  "flush_assistants env mode purpose s =
     (if hs_assistants s = [] then s
      else
        let (a, names) =
              merge_assistant_messages (sha256_hex (te (ce env))) mode purpose (hs_keeps_thinking s)
                (hs_assistants s) (hs_names s)
        in s\<lparr>hs_history := hs_history s @ [HistoryAssistant a], hs_names := names, hs_assistants := []\<rparr>)"

definition flush_users :: "conversion_env \<Rightarrow> string \<Rightarrow> history_state \<Rightarrow> conversion_error + history_state" where
  "flush_users env model_id s =
     (if hs_users s = [] then Inr s
      else
        (case merge_user_messages env (hs_users s) model_id (hs_dedup s) of
           Inl e \<Rightarrow> Inl e
         | Inr (u, dedup) \<Rightarrow>
             Inr (s\<lparr>hs_history := hs_history s @ [HistoryUser u], hs_dedup := dedup, hs_users := []\<rparr>)))"

definition push_assistant :: "nat \<Rightarrow> request_message \<Rightarrow> history_state \<Rightarrow> history_state" where
  "push_assistant finished_turns m s =
     s\<lparr>hs_keeps_thinking :=
         (if hs_assistants s = [] then finished_turns \<le> hs_ordinal s else hs_keeps_thinking s),
       hs_ordinal := hs_ordinal s + 1,
       hs_assistants := hs_assistants s @ [m]\<rparr>"

fun history_loop ::
  "conversion_env \<Rightarrow> string \<Rightarrow> tool_compatibility_mode \<Rightarrow> conversion_purpose \<Rightarrow> nat \<Rightarrow> request_message list \<Rightarrow>
     history_state \<Rightarrow> conversion_error + history_state" where
  "history_loop env model_id mode purpose finished_turns [] s = Inr s"
| "history_loop env model_id mode purpose finished_turns (m # ms) s =
     (if role m = ''user''
      then
        (let s = flush_assistants env mode purpose s in
         history_loop env model_id mode purpose finished_turns ms (s\<lparr>hs_users := hs_users s @ [m]\<rparr>))
      else if role m = ''assistant''
      then
        (case flush_users env model_id s of
           Inl e \<Rightarrow> Inl e
         | Inr s \<Rightarrow> history_loop env model_id mode purpose finished_turns ms (push_assistant finished_turns m s))
      else history_loop env model_id mode purpose finished_turns ms s)"

definition UNANSWERED_HISTORY :: "conversion_purpose \<Rightarrow> string" where
  "UNANSWERED_HISTORY purpose =
     (if purpose = Generate then ''history ends with a user message that has no assistant reply''
      else ''compaction would move an unanswered user message into history'')"

definition build_history ::
  "conversion_env \<Rightarrow> messages_request \<Rightarrow> request_message list \<Rightarrow> string \<Rightarrow> name_map \<Rightarrow> tool_compatibility_mode \<Rightarrow>
     conversion_purpose \<Rightarrow> image_dedup \<Rightarrow> conversion_error + (history_message list \<times> name_map \<times> image_dedup)" where
  "build_history env req msgs model_id names mode purpose dedup =
     (let finished_turns =
            (if model_keeps_prior_thinking model_id then 0 else finished_assistant_turns (messages req));
          start = \<lparr>hs_history = preamble env req model_id mode, hs_names = names, hs_dedup = dedup, hs_ordinal = 0,
                   hs_keeps_thinking = True, hs_users = [], hs_assistants = []\<rparr>
      in (case history_loop env model_id mode purpose finished_turns (butlast msgs) start of
            Inl e \<Rightarrow> Inl e
          | Inr s \<Rightarrow>
              let s = flush_assistants env mode purpose s in
              if hs_users s \<noteq> [] then Inl (InvalidMessageSequence (UNANSWERED_HISTORY purpose))
              else Inr (hs_history s, hs_names s, hs_dedup s)))"


section \<open>Calls and results keep their order\<close>

datatype tool_event = Call string string | Answer string

definition events_of :: "history_message \<Rightarrow> tool_event list" where
  "events_of m =
     map (\<lambda>u. Call (tu_tool_use_id u) (tu_tool_name u)) (uses_of m) @ map (Answer \<circ> tr_tool_use_id) (results_of m)"

text \<open>What a message of the client says: a call needs an id and a name, a result the id of a call.\<close>

definition call_of_block :: "json \<Rightarrow> (string \<times> string) option" where
  "call_of_block item =
     Option.bind (content_block_of_value item)
       (\<lambda>b. if cb_type b = ''tool_use''
            then (case (cb_id b, cb_name b) of (Some i, Some n) \<Rightarrow> Some (i, n) | _ \<Rightarrow> None) else None)"

definition answer_of_block :: "json \<Rightarrow> string option" where
  "answer_of_block item =
     Option.bind (content_block_of_value item)
       (\<lambda>b. if cb_type b = ''tool_result'' then cb_tool_use_id b else None)"

definition sent_name :: "tool_env \<Rightarrow> tool_compatibility_mode \<Rightarrow> conversion_purpose \<Rightarrow> string \<Rightarrow> string" where
  "sent_name env mode purpose name =
     (if purpose = CompactFallback then COMPACTION_HISTORY_TOOL_NAME else upstream_name env mode name)"

definition block_list :: "json \<Rightarrow> json list" where
  "block_list v = (case v of JArray items \<Rightarrow> items | _ \<Rightarrow> [])"

definition message_events ::
  "tool_env \<Rightarrow> tool_compatibility_mode \<Rightarrow> conversion_purpose \<Rightarrow> request_message \<Rightarrow> tool_event list" where
  "message_events env mode purpose m =
     (if role m = ''user'' then map Answer (List.map_filter answer_of_block (block_list (content m)))
      else if role m = ''assistant''
      then map (\<lambda>(i, n). Call i (sent_name env mode purpose n))
             (List.map_filter call_of_block (block_list (content m)))
      else [])"

abbreviation call_events :: "tool_use_entry list \<Rightarrow> tool_event list" where
  "call_events us \<equiv> map (\<lambda>u. Call (tu_tool_use_id u) (tu_tool_name u)) us"

lemma map_filter_Cons: "List.map_filter f (x # xs) = (case f x of Some y \<Rightarrow> y # List.map_filter f xs | None \<Rightarrow> List.map_filter f xs)"
  by (simp add: List.map_filter_def split: option.split)

lemma end_text_run_uses [simp]: "ap_tool_uses (end_text_run p) = ap_tool_uses p"
  by (simp add: end_text_run_def)

lemma convert_tool_use_event:
  "call_events (ap_tool_uses (convert_tool_use (sha256_hex env) mode purpose i name input p)) =
     call_events (ap_tool_uses p) @ [Call i (sent_name env mode purpose name)]"
  using map_client_tool_name_fst [of env name "ap_names p" mode]
  by (auto simp: convert_tool_use_def sent_name_def new_tool_use_entry_def split: prod.split)

lemma assistant_block_event:
  "call_events (ap_tool_uses (assistant_block (sha256_hex env) mode purpose keep item p)) =
     call_events (ap_tool_uses p) @
     (case call_of_block item of Some (i, n) \<Rightarrow> [Call i (sent_name env mode purpose n)] | None \<Rightarrow> [])"
  by (simp add: assistant_block_def call_of_block_def convert_tool_use_event Let_def split: option.split)

lemma fold_assistant_block_events:
  "call_events (ap_tool_uses (fold (assistant_block (sha256_hex env) mode purpose keep) items p)) =
     call_events (ap_tool_uses p) @
     map (\<lambda>(i, n). Call i (sent_name env mode purpose n)) (List.map_filter call_of_block items)"
proof (induction items arbitrary: p)
  case (Cons item items)
  then show ?case
    by (cases "call_of_block item") (auto simp: assistant_block_event map_filter_Cons)
qed (simp add: List.map_filter_def)

lemma assistant_parts_of_events:
  "role m = ''assistant'' \<Longrightarrow>
   call_events (ap_tool_uses (assistant_parts_of (sha256_hex env) mode purpose keep (content m) names)) =
     message_events env mode purpose m"
  using fold_assistant_block_events [of env mode purpose keep]
  by (simp add: assistant_parts_of_def message_events_def block_list_def Let_def List.map_filter_def split: json.split)

lemma convert_assistant_message_events:
  assumes "convert_assistant_message (sha256_hex env) mode purpose keep m names = (a, names')" "role m = ''assistant''"
  shows "call_events (message_uses a) = message_events env mode purpose m"
proof -
  have "message_uses a = ap_tool_uses (assistant_parts_of (sha256_hex env) mode purpose keep (content m) names)"
    using assms(1) by (auto simp: convert_assistant_message_def Let_def)
  then show ?thesis using assistant_parts_of_events [OF assms(2)] by metis
qed

lemma convert_assistant_messages_events:
  assumes "convert_assistant_messages (sha256_hex env) mode purpose keep ms names = (as, names')"
    "\<forall>m \<in> set ms. role m = ''assistant''"
  shows "call_events (concat (map message_uses as)) = concat (map (message_events env mode purpose) ms)"
  using assms
proof (induction ms arbitrary: names as)
  case (Cons m ms)
  obtain a n1 bs where a: "convert_assistant_message (sha256_hex env) mode purpose keep m names = (a, n1)"
    "convert_assistant_messages (sha256_hex env) mode purpose keep ms n1 = (bs, names')" "as = a # bs"
    using Cons.prems(1) by (auto split: prod.splits)
  then show ?case
    using Cons.IH [OF a(2)] convert_assistant_message_events [OF a(1)] Cons.prems(2) by (simp del: uses_of.simps)
qed simp

lemma merge_assistant_messages_events:
  assumes "merge_assistant_messages (sha256_hex env) mode purpose keep ms names = (a, names')"
    "\<forall>m \<in> set ms. role m = ''assistant''" "ms \<noteq> []"
  shows "events_of (HistoryAssistant a) = concat (map (message_events env mode purpose) ms)"
proof -
  have "call_events (message_uses a) = concat (map (message_events env mode purpose) ms)"
  proof (cases "\<exists>m. ms = [m]")
    case True
    then show ?thesis
      using assms(1,2) convert_assistant_message_events by (auto simp: merge_assistant_messages_def simp del: uses_of.simps)
  next
    case False
    then obtain m m' ms' where "ms = m # m' # ms'" using assms(3) by (metis list.exhaust)
    then obtain as where as: "convert_assistant_messages (sha256_hex env) mode purpose keep ms names = (as, names')"
      "message_uses a = concat (map message_uses as)"
      using assms(1) by (auto simp: merge_assistant_messages_def Let_def split: prod.splits)
    show ?thesis unfolding as(2) by (rule convert_assistant_messages_events [OF as(1) assms(2)])
  qed
  then show ?thesis by (simp add: events_of_def)
qed


lemma process_block_answer:
  assumes "process_block env item st = ((texts, results), st')"
  shows "result_ids results = (case answer_of_block item of Some i \<Rightarrow> [i] | None \<Rightarrow> [])"
  using assms
  by (auto simp: process_block_def answer_of_block_def make_tool_result_def tool_result_success_def
      tool_result_error_def Let_def split: option.splits if_splits prod.splits)

lemma process_blocks_answers:
  assumes "process_blocks env items st = Inr ((texts, results), st')"
  shows "result_ids results = List.map_filter answer_of_block items"
  using assms
proof (induction env items st arbitrary: texts results rule: process_blocks.induct)
  case (2 env item items st)
  obtain t1 r1 s1 where b: "process_block env item st = ((t1, r1), s1)" by (metis surj_pair)
  with "2.prems" obtain t2 r2 where r: "process_blocks env items s1 = Inr ((t2, r2), st')" "results = r1 @ r2"
    by (auto split: if_splits sum.splits)
  have "result_ids r2 = List.map_filter answer_of_block items"
    using "2.IH" [OF _ b [symmetric] refl refl r(1)] "2.prems" by (simp split: if_splits)
  then show ?case
    using process_block_answer [OF b] r(2) by (simp add: map_filter_Cons split: option.split)
qed (simp add: List.map_filter_def)

lemma process_message_content_answers:
  assumes "process_message_content env (content m) st = Inr ((text, results), st')" "role m = ''user''"
  shows "map Answer (result_ids results) = message_events te' mode purpose m"
proof (cases "content m")
  case (JArray items)
  then obtain texts where "process_blocks env items st = Inr ((texts, results), st')"
    using assms(1) by (auto simp: process_message_content_def split: sum.splits)
  then show ?thesis
    using process_blocks_answers assms(2) JArray by (auto simp: message_events_def block_list_def simp del: map_map)
qed (insert assms, auto simp: process_message_content_def message_events_def block_list_def List.map_filter_def)

lemma user_contents_answers:
  assumes "user_contents env ms st = Inr ((texts, results), st')" "\<forall>m \<in> set ms. role m = ''user''"
  shows "map Answer (result_ids results) = concat (map (message_events te' mode purpose) ms)"
  using assms
proof (induction env ms st arbitrary: texts results rule: user_contents.induct)
  case (2 env m ms st)
  obtain t1 r1 s1 where c: "process_message_content env (content m) st = Inr ((t1, r1), s1)"
    using "2.prems"(1) by (auto split: sum.splits)
  with "2.prems"(1) obtain t2 r2 where r: "user_contents env ms s1 = Inr ((t2, r2), st')" "results = r1 @ r2"
    by (auto split: sum.splits)
  have "map Answer (result_ids r2) = concat (map (message_events te' mode purpose) ms)"
    using "2.IH" [OF c refl refl r(1)] "2.prems"(2) by simp
  then show ?case
    using process_message_content_answers [OF c, of te' mode purpose] "2.prems"(2) r(2) by simp
qed simp

lemma merge_user_messages_events:
  assumes "merge_user_messages env ms model_id dedup = Inr (u, dedup')" "\<forall>m \<in> set ms. role m = ''user''"
  shows "events_of (HistoryUser u) = concat (map (message_events te' mode purpose) ms)"
proof -
  obtain texts results images where "user_contents (ce env) ms (dedup, []) = Inr ((texts, results), (dedup', images))"
    "results_of (HistoryUser u) = results"
    using assms(1) by (auto simp: merge_user_messages_def new_user_message_def default_context_def Let_def split: sum.splits)
  then show ?thesis using user_contents_answers [OF _ assms(2)] by (simp add: events_of_def)
qed

text \<open>The state of the loop: at most one buffer is in use, and the history so far ends with the other role.\<close>

definition turn_taking :: "history_message list \<Rightarrow> bool" where
  "turn_taking h \<longleftrightarrow> successively (\<lambda>a b. is_user a \<noteq> is_user b) h"

definition loop_inv :: "history_message list \<Rightarrow> history_state \<Rightarrow> bool" where
  "loop_inv front s \<longleftrightarrow>
     (\<exists>body. hs_history s = front @ body \<and> turn_taking body \<and>
        (hs_users s = [] \<or> hs_assistants s = []) \<and>
        (\<forall>m \<in> set (hs_users s). role m = ''user'') \<and> (\<forall>m \<in> set (hs_assistants s). role m = ''assistant'') \<and>
        (body \<noteq> [] \<longrightarrow> hs_users s \<noteq> [] \<or> hs_assistants s \<noteq> []) \<and>
        (hs_users s \<noteq> [] \<and> body \<noteq> [] \<longrightarrow> \<not> is_user (last body)) \<and>
        (hs_assistants s \<noteq> [] \<and> body \<noteq> [] \<longrightarrow> is_user (last body)))"

definition all_events ::
  "tool_env \<Rightarrow> tool_compatibility_mode \<Rightarrow> conversion_purpose \<Rightarrow> history_state \<Rightarrow> tool_event list" where
  "all_events env mode purpose s =
     concat (map events_of (hs_history s)) @
     concat (map (message_events env mode purpose) (hs_users s @ hs_assistants s))"

lemma turn_taking_snoc: "turn_taking (h @ [m]) \<longleftrightarrow> turn_taking h \<and> (h \<noteq> [] \<longrightarrow> is_user (last h) \<noteq> is_user m)"
  by (auto simp: turn_taking_def successively_append_iff)

lemma flush_assistants_inv:
  assumes "loop_inv front s" "m = flush_assistants env mode purpose s" "r = ''user''" "role x = r"
  shows "loop_inv front (m\<lparr>hs_users := hs_users m @ [x]\<rparr>) \<and> hs_assistants m = [] \<and>
    all_events (te (ce env)) mode purpose m = all_events (te (ce env)) mode purpose s"
proof (cases "hs_assistants s = []")
  case True
  then have "m = s" using assms(2) by (simp add: flush_assistants_def)
  with assms True show ?thesis by (auto simp: loop_inv_def)
next
  case False
  obtain a names where a: "merge_assistant_messages (sha256_hex (te (ce env))) mode purpose (hs_keeps_thinking s)
      (hs_assistants s) (hs_names s) = (a, names)" by fastforce
  have m: "m = s\<lparr>hs_history := hs_history s @ [HistoryAssistant a], hs_names := names, hs_assistants := []\<rparr>"
    using assms(2) False a by (simp add: flush_assistants_def)
  obtain body where body: "hs_history s = front @ body" "turn_taking body" "hs_users s = []"
    "\<forall>m \<in> set (hs_assistants s). role m = ''assistant''" "body \<noteq> [] \<longrightarrow> is_user (last body)"
    using assms(1) False by (auto simp: loop_inv_def)
  have "events_of (HistoryAssistant a) = concat (map (message_events (te (ce env)) mode purpose) (hs_assistants s))"
    using merge_assistant_messages_events [OF a body(4) False] .
  moreover have "turn_taking (body @ [HistoryAssistant a])" using body(2,5) by (auto simp: turn_taking_snoc)
  ultimately show ?thesis
    using m body(1,3) assms(3,4)
    by (auto simp: loop_inv_def all_events_def intro!: exI [of _ "body @ [HistoryAssistant a]"])
qed

lemma flush_users_inv:
  assumes "loop_inv front s" "flush_users env model_id s = Inr m" "role x = ''assistant''"
  shows "loop_inv front (push_assistant n x m) \<and> hs_users m = [] \<and>
    all_events (te (ce env)) mode purpose m = all_events (te (ce env)) mode purpose s"
proof (cases "hs_users s = []")
  case True
  then have "m = s" using assms(2) by (simp add: flush_users_def)
  with assms True show ?thesis by (auto simp: loop_inv_def push_assistant_def)
next
  case False
  obtain u dedup where u: "merge_user_messages env (hs_users s) model_id (hs_dedup s) = Inr (u, dedup)"
    using assms(2) False by (auto simp: flush_users_def split: sum.splits)
  have m: "m = s\<lparr>hs_history := hs_history s @ [HistoryUser u], hs_dedup := dedup, hs_users := []\<rparr>"
    using assms(2) False u by (simp add: flush_users_def)
  obtain body where body: "hs_history s = front @ body" "turn_taking body" "hs_assistants s = []"
    "\<forall>m \<in> set (hs_users s). role m = ''user''" "body \<noteq> [] \<longrightarrow> \<not> is_user (last body)"
    using assms(1) False by (auto simp: loop_inv_def)
  have "events_of (HistoryUser u) = concat (map (message_events (te (ce env)) mode purpose) (hs_users s))"
    using merge_user_messages_events [OF u body(4)] .
  moreover have "turn_taking (body @ [HistoryUser u])" using body(2,5) by (auto simp: turn_taking_snoc)
  ultimately show ?thesis
    using m body(1,3) assms(3)
    by (auto simp: loop_inv_def all_events_def push_assistant_def intro!: exI [of _ "body @ [HistoryUser u]"])
qed

lemma history_loop_inv:
  assumes "history_loop env model_id mode purpose n ms s = Inr s'" "loop_inv front s"
  shows "loop_inv front s' \<and>
    all_events (te (ce env)) mode purpose s' =
      all_events (te (ce env)) mode purpose s @ concat (map (message_events (te (ce env)) mode purpose) ms)"
  using assms
proof (induction ms arbitrary: s)
  case (Cons m ms)
  let ?ev = "all_events (te (ce env)) mode purpose"
  consider "role m = ''user''" | "role m = ''assistant''" | "role m \<noteq> ''user''" "role m \<noteq> ''assistant''" by blast
  then show ?case
  proof cases
    case 1
    define f where "f = flush_assistants env mode purpose s"
    have f: "loop_inv front (f\<lparr>hs_users := hs_users f @ [m]\<rparr>)" "hs_assistants f = []" "?ev f = ?ev s"
      using flush_assistants_inv [OF Cons.prems(2) f_def refl 1] by blast+
    have "history_loop env model_id mode purpose n ms (f\<lparr>hs_users := hs_users f @ [m]\<rparr>) = Inr s'"
      using Cons.prems(1) 1 by (simp add: f_def Let_def)
    from Cons.IH [OF this f(1)] f(2) f(3) [symmetric] show ?thesis by (simp add: all_events_def)
  next
    case 2
    then obtain f where f: "flush_users env model_id s = Inr f"
      "history_loop env model_id mode purpose n ms (push_assistant n m f) = Inr s'"
      using Cons.prems(1) by (auto split: sum.splits)
    have i: "loop_inv front (push_assistant n m f)" "hs_users f = []" "?ev f = ?ev s"
      using flush_users_inv [OF Cons.prems(2) f(1) 2] by blast+
    from Cons.IH [OF f(2) i(1)] i(2) i(3) [symmetric] show ?thesis by (simp add: all_events_def push_assistant_def)
  next
    case 3
    then have "history_loop env model_id mode purpose n ms s = Inr s'" using Cons.prems(1) by simp
    from Cons.IH [OF this Cons.prems(2)] 3 show ?thesis by (simp add: message_events_def)
  qed
qed simp

lemma history_shape:
  assumes "build_history env req msgs model_id names mode purpose dedup = Inr (h, names', dedup')"
  shows "\<exists>body. h = preamble env req model_id mode @ body \<and> turn_taking body \<and>
    (body \<noteq> [] \<longrightarrow> \<not> is_user (last body)) \<and>
    concat (map events_of body) = concat (map (message_events (te (ce env)) mode purpose) (butlast msgs))"
proof -
  let ?front = "preamble env req model_id mode" and ?ev = "all_events (te (ce env)) mode purpose"
  define start where "start = \<lparr>hs_history = ?front, hs_names = names, hs_dedup = dedup, hs_ordinal = 0,
      hs_keeps_thinking = True, hs_users = [], hs_assistants = []\<rparr>"
  obtain n s where loop: "history_loop env model_id mode purpose n (butlast msgs) start = Inr s"
    and fin: "hs_users (flush_assistants env mode purpose s) = []" "h = hs_history (flush_assistants env mode purpose s)"
    using assms by (auto simp: build_history_def Let_def start_def split: sum.splits if_splits)
  define f where "f = flush_assistants env mode purpose s"
  have "loop_inv ?front start" by (simp add: loop_inv_def start_def turn_taking_def)
  note inv = history_loop_inv [OF loop this]
  define x where "x = \<lparr>role = ''user'', content = JNull\<rparr>"
  have "role x = ''user''" by (simp add: x_def)
  then have f: "loop_inv ?front (f\<lparr>hs_users := hs_users f @ [x]\<rparr>)" "hs_assistants f = []" "?ev f = ?ev s"
    using flush_assistants_inv [OF _ f_def refl, of ?front x] inv by blast+
  then obtain body where body: "hs_history f = ?front @ body" "turn_taking body" "body \<noteq> [] \<longrightarrow> \<not> is_user (last body)"
    by (auto simp: loop_inv_def)
  have "?ev f = ?ev start @ concat (map (message_events (te (ce env)) mode purpose) (butlast msgs))"
    using f(3) inv by simp
  then have "concat (map events_of body) = concat (map (message_events (te (ce env)) mode purpose) (butlast msgs))"
    using body(1) f(2) fin(1) by (simp add: all_events_def start_def f_def)
  with body show ?thesis using fin(2) f_def by blast
qed

text \<open>C5: The history holds the calls and results of the conversation in their order, each call with the name it is
  sent under, behind the exchange with the system prompt; in it users and assistants take turns and an
  assistant has the last word.\<close>

theorem history_keeps_tool_order:
  assumes "build_history env req msgs model_id names mode purpose dedup = Inr (h, names', dedup')"
  shows "\<exists>body. h = preamble env req model_id mode @ body \<and> turn_taking body \<and>
    (body \<noteq> [] \<longrightarrow> \<not> is_user (last body)) \<and>
    concat (map events_of body) = concat (map (message_events (te (ce env)) mode purpose) (butlast msgs))"
  using assms by (rule history_shape)


section \<open>When the history can be built\<close>

definition no_documents :: "request_message \<Rightarrow> bool" where
  "no_documents m \<longleftrightarrow> list_all (\<lambda>b. get_str b ''type'' \<noteq> Some ''document'') (block_list (content m))"

definition ends_answered :: "request_message list \<Rightarrow> bool" where
  "ends_answered ms \<longleftrightarrow> ms = [] \<or> role (last ms) = ''assistant''"

lemma process_blocks_result:
  "(\<exists>r. process_blocks env items st = Inr r) \<longleftrightarrow> list_all (\<lambda>b. get_str b ''type'' \<noteq> Some ''document'') items"
proof (induction items arbitrary: st)
  case (Cons item items)
  obtain t rs s1 where "process_block env item st = ((t, rs), s1)" by (metis surj_pair)
  then have "(\<exists>r. process_blocks env (item # items) st = Inr r) \<longleftrightarrow>
      get_str item ''type'' \<noteq> Some ''document'' \<and> (\<exists>r. process_blocks env items s1 = Inr r)"
    by (auto split: sum.splits prod.splits)
  then show ?case using Cons.IH [of s1] by simp
qed simp

lemma process_blocks_error:
  "process_blocks env items st = Inl e \<Longrightarrow> e = InvalidMessageSequence DOCUMENT_ERROR"
  by (induction items arbitrary: st) (auto split: prod.splits sum.splits if_splits)

lemma process_message_content_result:
  "(\<exists>r. process_message_content env (content m) st = Inr r) \<longleftrightarrow> no_documents m"
  "process_message_content env (content m) st = Inl e \<Longrightarrow> e = InvalidMessageSequence DOCUMENT_ERROR"
proof -
  show "(\<exists>r. process_message_content env (content m) st = Inr r) \<longleftrightarrow> no_documents m"
    using process_blocks_result [of env _ st]
    by (auto simp: process_message_content_def no_documents_def block_list_def split: json.split sum.split)
      (metis Inl_Inr_False)+
  show "process_message_content env (content m) st = Inl e \<Longrightarrow> e = InvalidMessageSequence DOCUMENT_ERROR"
    using process_blocks_error by (auto simp: process_message_content_def split: json.splits sum.splits)
qed

lemma user_contents_result:
  "(\<exists>r. user_contents env ms st = Inr r) \<longleftrightarrow> (\<forall>m \<in> set ms. no_documents m)"
proof (induction ms arbitrary: st)
  case (Cons m ms)
  show ?case
  proof (cases "process_message_content env (content m) st")
    case (Inl e)
    then show ?thesis using process_message_content_result(1) [of env m st] by auto
  next
    case (Inr r)
    obtain t rs s1 where r: "r = ((t, rs), s1)" by (metis surj_pair)
    have "no_documents m" using process_message_content_result(1) [of env m st] Inr by blast
    moreover have "(\<exists>r. user_contents env (m # ms) st = Inr r) \<longleftrightarrow> (\<exists>r. user_contents env ms s1 = Inr r)"
      using Inr r by (auto split: sum.splits prod.splits)
    ultimately show ?thesis using Cons.IH [of s1] by simp
  qed
qed simp

lemma user_contents_error:
  "user_contents env ms st = Inl e \<Longrightarrow> e = InvalidMessageSequence DOCUMENT_ERROR"
  using process_message_content_result(2)
  by (induction ms arbitrary: st) (auto split: sum.splits prod.splits)

lemma flush_users_result:
  "(\<exists>r. flush_users env model_id s = Inr r) \<longleftrightarrow> (\<forall>m \<in> set (hs_users s). no_documents m)"
  "flush_users env model_id s = Inl e \<Longrightarrow> e = InvalidMessageSequence DOCUMENT_ERROR"
  "flush_users env model_id s = Inr s' \<Longrightarrow> hs_users s' = []"
proof -
  have m: "(\<exists>r. merge_user_messages env ms model_id d = Inr r) \<longleftrightarrow> (\<exists>r. user_contents (ce env) ms (d, []) = Inr r)" for ms d
    by (auto simp: merge_user_messages_def Let_def split: sum.split prod.split)
  show "(\<exists>r. flush_users env model_id s = Inr r) \<longleftrightarrow> (\<forall>m \<in> set (hs_users s). no_documents m)"
    using m [of "hs_users s" "hs_dedup s"] user_contents_result [of "ce env" "hs_users s" "(hs_dedup s, [])"]
    by (cases "merge_user_messages env (hs_users s) model_id (hs_dedup s)") (auto simp: flush_users_def split: prod.split)
  show "flush_users env model_id s = Inl e \<Longrightarrow> e = InvalidMessageSequence DOCUMENT_ERROR"
    using user_contents_error
    by (auto simp: flush_users_def merge_user_messages_def Let_def split: if_splits sum.splits)
  show "flush_users env model_id s = Inr s' \<Longrightarrow> hs_users s' = []"
    by (auto simp: flush_users_def split: if_splits sum.splits)
qed

lemma flush_assistants_users [simp]: "hs_users (flush_assistants env mode purpose s) = hs_users s"
  by (simp add: flush_assistants_def Let_def split: prod.split)

lemma history_loop_succeeds:
  assumes "\<forall>m \<in> set (hs_users s). no_documents m" "\<forall>m \<in> set ms. role m = ''user'' \<longrightarrow> no_documents m"
  shows "\<exists>s'. history_loop env model_id mode purpose n ms s = Inr s'"
  using assms
proof (induction ms arbitrary: s)
  case (Cons m ms)
  obtain f where f: "flush_users env model_id s = Inr f" "hs_users f = []"
    using flush_users_result(1,3) Cons.prems(1) by metis
  have "\<exists>s'. history_loop env model_id mode purpose n ms (push_assistant n m f) = Inr s'"
    using Cons.prems f(2) by (intro Cons.IH) (simp_all add: push_assistant_def)
  moreover have "\<exists>s'. history_loop env model_id mode purpose n ms
      ((flush_assistants env mode purpose s)\<lparr>hs_users := hs_users s @ [m]\<rparr>) = Inr s'" if "role m = ''user''"
    using Cons.prems that by (intro Cons.IH) auto
  moreover have "\<exists>s'. history_loop env model_id mode purpose n ms s = Inr s'"
    using Cons.prems by (intro Cons.IH) auto
  ultimately show ?case using f(1) by (auto simp: Let_def)
qed simp

lemma history_loop_error:
  "history_loop env model_id mode purpose n ms s = Inl e \<Longrightarrow> e = InvalidMessageSequence DOCUMENT_ERROR"
  using flush_users_result(2) by (induction ms arbitrary: s) (auto simp: Let_def split: if_splits sum.splits)

lemma history_loop_users:
  assumes "history_loop env model_id mode purpose n ms s = Inr s'"
    "\<forall>m \<in> set ms. role m = ''user'' \<or> role m = ''assistant''"
  shows "(hs_users s' = [] \<longleftrightarrow> (if ms = [] then hs_users s = [] else role (last ms) = ''assistant'')) \<and>
      (\<forall>m \<in> set (hs_users s) \<union> {m \<in> set ms. role m = ''user''}. m \<in> set (hs_users s') \<or> no_documents m)"
  using assms
proof (induction ms arbitrary: s)
  case (Cons m ms)
  show ?case
  proof (cases "role m = ''user''")
    case True
    define u where "u = (flush_assistants env mode purpose s)\<lparr>hs_users := hs_users s @ [m]\<rparr>"
    have "history_loop env model_id mode purpose n ms u = Inr s'" using Cons.prems(1) True by (simp add: u_def Let_def)
    note ih = Cons.IH [OF this]
    have "hs_users u = hs_users s @ [m]" by (simp add: u_def)
    then show ?thesis using ih Cons.prems(2) True by auto
  next
    case False
    then obtain f where f: "flush_users env model_id s = Inr f"
      "history_loop env model_id mode purpose n ms (push_assistant n m f) = Inr s'" "role m = ''assistant''"
      using Cons.prems by (auto split: sum.splits)
    have "hs_users (push_assistant n m f) = []" using flush_users_result(3) [OF f(1)] by (simp add: push_assistant_def)
    moreover have "\<forall>m \<in> set (hs_users s). no_documents m" using flush_users_result(1) [of env model_id s] f(1) by blast
    ultimately show ?thesis using Cons.IH [OF f(2)] Cons.prems(2) f(3) by auto
  qed
qed simp

text \<open>The history can be built exactly when the last message before the current one is the assistant's and no
  user message holds a document.\<close>

lemma build_history_succeeds:
  assumes "\<forall>m \<in> set (butlast msgs). role m = ''user'' \<or> role m = ''assistant''"
  shows "(\<exists>r. build_history env req msgs model_id names mode purpose dedup = Inr r) \<longleftrightarrow>
    ends_answered (butlast msgs) \<and> (\<forall>m \<in> set (butlast msgs). role m = ''user'' \<longrightarrow> no_documents m)"
proof -
  define n where "n = (if model_keeps_prior_thinking model_id then 0 else finished_assistant_turns (messages req))"
  define start where "start = \<lparr>hs_history = preamble env req model_id mode, hs_names = names, hs_dedup = dedup,
      hs_ordinal = 0, hs_keeps_thinking = True, hs_users = [], hs_assistants = []\<rparr>"
  let ?loop = "history_loop env model_id mode purpose n (butlast msgs) start"
  have built: "(\<exists>r. build_history env req msgs model_id names mode purpose dedup = Inr r) \<longleftrightarrow>
      (\<exists>s. ?loop = Inr s \<and> hs_users s = [])"
    by (auto simp: build_history_def n_def start_def Let_def split: sum.splits)
  have empty: "hs_users start = []" by (simp add: start_def)
  show ?thesis
  proof
    assume "\<exists>r. build_history env req msgs model_id names mode purpose dedup = Inr r"
    then obtain s where "?loop = Inr s" "hs_users s = []" using built by blast
    then show "ends_answered (butlast msgs) \<and> (\<forall>m \<in> set (butlast msgs). role m = ''user'' \<longrightarrow> no_documents m)"
      using history_loop_users [OF _ assms, of env model_id mode purpose n start s]
      by (auto simp: ends_answered_def split: if_splits)
  next
    assume a: "ends_answered (butlast msgs) \<and> (\<forall>m \<in> set (butlast msgs). role m = ''user'' \<longrightarrow> no_documents m)"
    then obtain s where s: "?loop = Inr s"
      using history_loop_succeeds [of start "butlast msgs" env model_id mode purpose n] empty by auto
    then have "hs_users s = []"
      using history_loop_users [OF s assms] a empty by (auto simp: ends_answered_def split: if_splits)
    then show "\<exists>r. build_history env req msgs model_id names mode purpose dedup = Inr r" using built s by blast
  qed
qed

lemma build_history_error:
  "build_history env req msgs model_id names mode purpose dedup = Inl e \<Longrightarrow>
   e \<in> {InvalidMessageSequence DOCUMENT_ERROR, InvalidMessageSequence (UNANSWERED_HISTORY purpose)}"
  using history_loop_error by (auto simp: build_history_def Let_def split: sum.splits if_splits)

section \<open>An example\<close>

definition sample_env :: conversion_env where
  "sample_env =
     \<lparr>ce = \<lparr>te = sample_tool_env, codec = sample_codec, process_var = \<lambda>_. None\<rparr>, registry = None,
      working_directory = None\<rparr>"

definition call_block :: "string \<Rightarrow> string \<Rightarrow> json" where
  "call_block i n = JObject [(''id'', JString i), (''name'', JString n), (''type'', JString ''tool_use'')]"

definition answer_block :: "string \<Rightarrow> json" where
  "answer_block i = JObject [(''content'', JString ''1''), (''tool_use_id'', JString i), (''type'', JString ''tool_result'')]"

definition sample_messages :: "request_message list" where
  "sample_messages =
     [\<lparr>role = ''user'', content = JString ''Run it.''\<rparr>,
      \<lparr>role = ''assistant'', content = JArray [text_block ''Running.'', call_block ''a'' ''Bash'']\<rparr>,
      \<lparr>role = ''assistant'', content = JArray [call_block ''b'' ''query'']\<rparr>,
      \<lparr>role = ''user'', content = JArray [answer_block ''b'', answer_block ''a'']\<rparr>,
      \<lparr>role = ''assistant'', content = JString ''Done.''\<rparr>,
      \<lparr>role = ''user'', content = JString ''Thanks.''\<rparr>]"

definition sample_request :: messages_request where
  "sample_request =
     \<lparr>req_model = ''claude-sonnet-4.5'', max_tokens = 100, messages = sample_messages, req_stream = True,
      system = Some [\<lparr>sys_text = ''Be brief.'', sys_cache_control = None\<rparr>], tools = None, tool_choice = None,
      thinking = None, output_config = None, metadata = None, cache_control = None\<rparr>"

lemma sample_built:
  "\<exists>h names' dedup'. build_history sample_env sample_request sample_messages ''claude-sonnet-4.5'' [] ClaudeCode Generate [] =
     Inr (h, names', dedup')"
proof -
  have roles: "\<forall>m \<in> set (butlast sample_messages). role m = ''user'' \<or> role m = ''assistant''"
    by (simp add: sample_messages_def)
  have "\<forall>m \<in> set (butlast sample_messages). role m = ''user'' \<longrightarrow> no_documents m"
    by (simp add: sample_messages_def no_documents_def block_list_def answer_block_def get_str_def json_get_def as_str_def)
  moreover have "ends_answered (butlast sample_messages)" by (simp add: sample_messages_def ends_answered_def)
  ultimately have "\<exists>r. build_history sample_env sample_request sample_messages ''claude-sonnet-4.5'' [] ClaudeCode Generate [] = Inr r"
    unfolding build_history_succeeds [OF roles] by blast
  then show ?thesis unfolding split_paired_Ex .
qed

lemma history_keeps_tool_order_witness:
  "\<exists>body names' dedup'.
     build_history sample_env sample_request sample_messages ''claude-sonnet-4.5'' [] ClaudeCode Generate [] =
       Inr (preamble sample_env sample_request ''claude-sonnet-4.5'' ClaudeCode @ body, names', dedup') \<and>
     turn_taking body \<and>
     concat (map events_of body) = [Call ''a'' ''execute_bash'', Call ''b'' ''query'', Answer ''b'', Answer ''a'']"
proof -
  obtain h names' dedup' where
    b: "build_history sample_env sample_request sample_messages ''claude-sonnet-4.5'' [] ClaudeCode Generate [] = Inr (h, names', dedup')"
    using sample_built by blast
  have "concat (map (message_events (te (ce sample_env)) ClaudeCode Generate) (butlast sample_messages)) =
      [Call ''a'' ''execute_bash'', Call ''b'' ''query'', Answer ''b'', Answer ''a'']"
    by code_simp
  then show ?thesis using history_keeps_tool_order [OF b] b by metis
qed

end
