(* ===== verification/RequestConversion.thy ===== *)
theory RequestConversion
  imports HistoryBuild
begin

text \<open>
  The conversion of a Messages request to an upstream conversation (\<open>src/anthropic/converter.rs\<close>,
  \<open>convert_request_with_purpose\<close> with \<open>extract_session_id\<close>, \<open>derive_conversation_id\<close> and the placeholder tools).
  Parsing of JSON and the \<open>uuid\<close> crate are parameters.  A slice of a string off a character boundary panics;
  the conversion then has no value.
\<close>

section \<open>Identifiers of a conversation\<close>

text \<open>The id derived from the contents and its parameters (JSON, SHA-256, UUIDs) are those of PromptCache.\<close>

record request_env =
  cv :: conversion_env
  ids :: cache_env
  uuid_parses :: "string \<Rightarrow> bool"

definition is_valid_uuid :: "request_env \<Rightarrow> string \<Rightarrow> bool" where
  "is_valid_uuid env s \<longleftrightarrow> length s = 36 \<and> uuid_parses env s"

text \<open>The outer option is \<open>None\<close> when the slice of 36 bytes ends inside a character.\<close>

definition session_in_text :: "request_env \<Rightarrow> string \<Rightarrow> string option option" where
  "session_in_text env user =
     (case str_find ''session_'' user of
        None \<Rightarrow> Some None
      | Some pos \<Rightarrow>
          let session_part = drop (pos + 8) user in
          if length session_part < 36 then Some None
          else if \<not> is_char_boundary session_part 36 then None
          else
            let uuid_str = take 36 session_part in
            Some (if is_valid_uuid env uuid_str then Some uuid_str else None))"

definition session_in_json :: "request_env \<Rightarrow> string \<Rightarrow> string option" where
  "session_in_json env user =
     (case Option.bind (parse_json (ids env) user) (\<lambda>j. get_str j ''session_id'') of
        Some s \<Rightarrow> if is_valid_uuid env s then Some s else None
      | None \<Rightarrow> None)"

definition extract_session_id :: "request_env \<Rightarrow> string \<Rightarrow> string option option" where
  "extract_session_id env user =
     (case session_in_json env user of Some s \<Rightarrow> Some (Some s) | None \<Rightarrow> session_in_text env user)"

definition derive_agent_continuation_id :: "request_env \<Rightarrow> string \<Rightarrow> string" where
  "derive_agent_continuation_id env conversation = uuid_v5_oid (ids env) (''agent-continuation:'' @ conversation)"

definition conversation_id_of :: "request_env \<Rightarrow> messages_request \<Rightarrow> string option" where
  "conversation_id_of env req =
     (case Option.bind (metadata req) user_id of
        None \<Rightarrow> Some (derive_conversation_id (ids env) req)
      | Some user \<Rightarrow>
          (case extract_session_id env user of
             None \<Rightarrow> None
           | Some (Some s) \<Rightarrow> Some s
           | Some None \<Rightarrow> Some (derive_conversation_id (ids env) req)))"

section \<open>Tools of the history\<close>

definition collect_history_tool_names :: "history_message list \<Rightarrow> string list" where
  "collect_history_tool_names h =
     fold (\<lambda>u names. if tu_tool_name u \<in> set names then names else names @ [tu_tool_name u]) (history_uses h) []"

definition create_placeholder_tool :: "string \<Rightarrow> tool_specification" where
  "create_placeholder_tool name =
     \<lparr>ts_name = name,
      ts_description = ''Unavailable: this tool appeared earlier in the conversation but is not available now. Do not call it.'',
      ts_input_schema =
        JObject [(''$schema'', JString ''http://json-schema.org/draft-07/schema#''),
          (''additionalProperties'', JBool True), (''properties'', JObject []), (''required'', JArray []),
          (''type'', JString ''object'')]\<rparr>"

definition create_compaction_history_tool :: tool_specification where
  "create_compaction_history_tool =
     (create_placeholder_tool COMPACTION_HISTORY_TOOL_NAME)
       \<lparr>ts_description := ''Inert placeholder for structured tool calls in compacted history. Do not call it.''\<rparr>"

definition add_history_tools ::
  "tool_env \<Rightarrow> conversion_purpose \<Rightarrow> history_message list \<Rightarrow> tool_specification list \<times> string set \<Rightarrow>
     tool_specification list \<times> string set" where
  "add_history_tools env purpose h st =
     (let (specs, known) = st;
          names = collect_history_tool_names h;
          existing = set (map (spec_key env) specs)
      in if purpose = CompactFallback
         then (if names = [] then (specs, known)
               else (specs @ [create_compaction_history_tool], insert COMPACTION_HISTORY_TOOL_NAME known))
         else (specs @ map create_placeholder_tool (filter (\<lambda>n. to_lowercase env n \<notin> existing) names), known))"

section \<open>The messages that are converted\<close>

definition drop_prefill :: "request_message list \<Rightarrow> conversion_error + request_message list" where
  "drop_prefill ms =
     (if role (last ms) = ''assistant''
      then
        let kept = rev (dropWhile (\<lambda>m. role m \<noteq> ''user'') (rev ms)) in
        if kept = [] then Inl EmptyMessages else Inr kept
      else Inr ms)"

definition prepare_messages ::
  "conversion_purpose \<Rightarrow> request_message list \<Rightarrow> conversion_error + request_message list" where
  "prepare_messages purpose ms =
     (if ms = [] then Inl EmptyMessages
      else
        let source = (case normalize_system_messages ms of Some n \<Rightarrow> n | None \<Rightarrow> ms) in
        if source = [] then Inl EmptyMessages
        else
          (case drop_prefill source of
             Inl e \<Rightarrow> Inl e
           | Inr kept \<Rightarrow>
               Inr (if purpose = Generate
                    then (case merge_trailing_user_messages kept of Some m \<Rightarrow> m | None \<Rightarrow> kept)
                    else kept)))"

section \<open>The conversion\<close>

record conversion_result =
  conversation :: conversation_state
  tool_names_back :: name_map
  known_tool_names :: "string set"
  additional_model_request_fields :: "additional_fields option"

text \<open>Results of the current message: what is sent, with the history and the text it changes.\<close>

definition settle_results ::
  "conversion_purpose \<Rightarrow> history_message list \<Rightarrow> string \<Rightarrow> tool_result list \<Rightarrow>
     conversion_error + (history_message list \<times> string \<times> tool_result list)" where
  "settle_results purpose h text results =
     (if purpose \<noteq> Generate
      then
        (case validate_compaction_tool_sequence h results of
           Inl e \<Rightarrow> Inl e
         | Inr _ \<Rightarrow> Inr (h, text, results))
      else
        let resent = resent_tool_result_notes h results;
            text = (if resent = [] then text else join [newline] (resent @ (if text = [] then [] else [text])));
            (kept, orphans) = validate_tool_pairing h results;
            (h, extra) = pair_orphaned_tool_uses h orphans
        in Inr (h, text, kept @ extra))"

definition determine_chat_trigger_type :: "messages_request \<Rightarrow> string" where
  "determine_chat_trigger_type req = ''MANUAL''"

definition declared_names :: "messages_request \<Rightarrow> string set" where
  "declared_names req = (case tools req of Some ts \<Rightarrow> set (map tool_name ts) | None \<Rightarrow> {})"

definition make_current_message ::
  "conversion_env \<Rightarrow> string \<Rightarrow> string \<Rightarrow> kiro_image list \<Rightarrow> tool_specification list \<Rightarrow> tool_result list \<Rightarrow>
     user_input_message" where
  "make_current_message env text model_id images specs results =
     (new_user_input_message (working_directory env) text model_id)
       \<lparr>ui_context := (default_context (working_directory env))\<lparr>ctx_tool_results := results, ctx_tools := specs\<rparr>,
        ui_images := images\<rparr>"

definition make_conversation ::
  "request_env \<Rightarrow> messages_request \<Rightarrow> string \<Rightarrow> user_input_message \<Rightarrow> history_message list \<Rightarrow> conversation_state" where
  "make_conversation env req cid current h =
     \<lparr>agent_continuation_id = Some (derive_agent_continuation_id env cid),
      agent_task_type = Some ''vibe'',
      chat_trigger_type = Some (determine_chat_trigger_type req),
      current_message = current,
      conversation_id = cid,
      history = h\<rparr>"

text \<open>Everything after the conversation has its id.\<close>

definition convert_messages ::
  "request_env \<Rightarrow> messages_request \<Rightarrow> tool_compatibility_mode \<Rightarrow> conversion_purpose \<Rightarrow> string \<Rightarrow>
     request_message list \<Rightarrow> string \<Rightarrow> conversion_error + conversion_result" where
  "convert_messages env req mode purpose model_id msgs cid =
     (let env' = cv env; fallback = (purpose = CompactFallback) in
      case (if fallback then Inr ([], []) else convert_tools (te (ce env')) (tools req) [] mode) of
        Inl e \<Rightarrow> Inl e
      | Inr (specs, names) \<Rightarrow>
          let known = (if fallback then {} else declared_names req) \<union> set (map fst names) in
          (case build_history env' req msgs model_id names mode purpose [] of
             Inl e \<Rightarrow> Inl e
           | Inr (h, names, dedup) \<Rightarrow>
               (case process_message_content (ce env') (content (last msgs)) (dedup, []) of
                  Inl e \<Rightarrow> Inl e
                | Inr ((text, results), (dedup, images)) \<Rightarrow>
                    (case settle_results purpose h text results of
                       Inl e \<Rightarrow> Inl e
                     | Inr (h, text, results) \<Rightarrow>
                         let (specs, known) = add_history_tools (te (ce env')) purpose h (specs, known);
                             current = make_current_message env' text model_id images specs results
                         in Inr \<lparr>conversation = make_conversation env req cid current h,
                                 tool_names_back = names,
                                 known_tool_names = known,
                                 additional_model_request_fields =
                                   build_additional_model_request_fields (registry env') req model_id\<rparr>))))"

definition convert_request_with_purpose ::
  "request_env \<Rightarrow> messages_request \<Rightarrow> tool_compatibility_mode \<Rightarrow> conversion_purpose \<Rightarrow>
     (conversion_error + conversion_result) option" where
  "convert_request_with_purpose env req mode purpose =
     (case map_model (registry (cv env)) (req_model req) of
        None \<Rightarrow> Some (Inl (InvalidModel (invalid_model_reason (req_model req))))
      | Some model_id \<Rightarrow>
          (case prepare_messages purpose (messages req) of
             Inl e \<Rightarrow> Some (Inl e)
           | Inr msgs \<Rightarrow>
               (case conversation_id_of env req of
                  None \<Rightarrow> None
                | Some cid \<Rightarrow>
                    Some (convert_messages env req mode purpose model_id msgs cid))))"

definition convert_request_with_mode ::
  "request_env \<Rightarrow> messages_request \<Rightarrow> tool_compatibility_mode \<Rightarrow> (conversion_error + conversion_result) option" where
  "convert_request_with_mode env req mode = convert_request_with_purpose env req mode Generate"


section \<open>What is sent\<close>

lemma answered_next_same:
  "answered_next before h h' extra \<Longrightarrow> map is_user h' = map is_user h \<and> map uses_of h' = map uses_of h"
  by (induction before h h' extra rule: answered_next.induct) auto

lemma answered_next_keeps:
  "answered_next before h h' extra \<Longrightarrow>
   \<exists>new. mset (result_ids (history_results h')) = mset (result_ids (history_results h)) + new"
proof (induction before h h' extra rule: answered_next.induct)
  case (1 before m h m' h' extra)
  then obtain new rest where "results_of m' = results_of m @ new"
    "mset (result_ids (history_results h')) = mset (result_ids (history_results h)) + rest" by auto
  then have "mset (result_ids (history_results (m' # h'))) =
      mset (result_ids (history_results (m # h))) + (mset (result_ids new) + rest)"
    by (simp add: ac_simps)
  then show ?case by blast
qed auto

text \<open>The results of the current message answer the calls that the history leaves open, each once.\<close>

definition calls_paired :: "history_message list \<Rightarrow> tool_result list \<Rightarrow> bool" where
  "calls_paired h rs \<longleftrightarrow> distinct (result_ids rs) \<and> set (result_ids rs) = open_calls h"

lemma mset_set_rest:
  assumes "D + mset ys = mset_set A" "finite A"
  shows "distinct ys \<and> A - set_mset D = set ys"
proof -
  have c: "Multiset.count D y + Multiset.count (mset ys) y = (if y \<in> A then 1 else 0)" for y
    using arg_cong [OF assms(1), of "\<lambda>m. Multiset.count m y"] assms(2) by simp
  have in_ys: "y \<in> set ys \<longleftrightarrow> 0 < Multiset.count (mset ys) y" and in_D: "y \<in> set_mset D \<longleftrightarrow> 0 < Multiset.count D y" for y
    by (simp_all add: count_greater_zero_iff)
  have "Multiset.count (mset ys) y = (if y \<in> set ys then 1 else 0)" for y
    unfolding in_ys using c [of y] by (simp only: split: if_splits) linarith+
  then have "distinct ys" by (simp add: distinct_count_atmost_1)
  moreover have "y \<in> A - set_mset D \<longleftrightarrow> y \<in> set ys" for y
    unfolding in_ys Diff_iff in_D using c [of y] by (simp only: split: if_splits) arith+
  ultimately show ?thesis by blast
qed

lemma settle_results_paired:
  assumes "settle_results purpose h text results = Inr (h', text', rs)"
  shows "map is_user h' = map is_user h \<and> map uses_of h' = map uses_of h \<and> calls_paired h' rs"
proof (cases "purpose = Generate")
  case False
  then have s: "validate_compaction_tool_sequence h results = Inr ()" "h' = h" "rs = results"
    using assms by (auto simp: settle_results_def split: sum.splits)
  let ?R = "result_ids (history_results h)"
  have "distinct (?R @ result_ids results)" "set (use_ids h) = set ?R \<union> set (result_ids results)"
    using s(1) unfolding compaction_iff map_append set_append by blast+
  then show ?thesis using s(2,3) unfolding calls_paired_def open_calls_def distinct_append by blast
next
  case True
  obtain kept orphans extra where v: "validate_tool_pairing h results = (kept, orphans)"
    and p: "pair_orphaned_tool_uses h orphans = (h', extra)" "rs = kept @ extra"
    using assms True by (auto simp: settle_results_def Let_def split: prod.splits)
  let ?R = "result_ids (history_results h)" and ?R' = "result_ids (history_results h')"
  note exact = pairing_exact [OF v p(1)]
  have finite: "finite (open_calls h)" by (simp add: open_calls_def)
  have same: "map is_user h' = map is_user h" "map uses_of h' = map uses_of h"
    using exact answered_next_same by blast+
  obtain new where new: "mset ?R' = mset ?R + new" using exact answered_next_keeps by blast
  have "mset ?R' + mset (result_ids rs) = mset ?R + mset_set (open_calls h)"
    using exact p(2) by (simp add: ac_simps)
  then have "new + mset (result_ids rs) = mset_set (open_calls h)" unfolding new by (simp add: ac_simps)
  then have rs: "distinct (result_ids rs)" "open_calls h - set_mset new = set (result_ids rs)"
    using mset_set_rest [of new "result_ids rs" "open_calls h"] finite by blast+
  have "set ?R' = set ?R \<union> set_mset new" using arg_cong [OF new, of set_mset] by simp
  moreover have "history_uses h' = history_uses h" using same(2) by simp
  ultimately have "open_calls h' = set (use_ids h) - (set ?R \<union> set_mset new)" by (simp only: open_calls_def)
  then have "open_calls h' = open_calls h - set_mset new" unfolding open_calls_def by blast
  then show ?thesis using same rs by (simp add: calls_paired_def)
qed

lemma turn_taking_map: "map is_user h' = map is_user h \<Longrightarrow> turn_taking h' = turn_taking h"
  unfolding turn_taking_def using successively_map [of "(\<noteq>)" is_user h] successively_map [of "(\<noteq>)" is_user h'] by simp

lemma collect_history_tool_names_set:
  "set (collect_history_tool_names h) = tu_tool_name ` set (history_uses h)"
proof -
  have "set (fold (\<lambda>u names. if tu_tool_name u \<in> set names then names else names @ [tu_tool_name u]) us acc) =
      set acc \<union> tu_tool_name ` set us" for us acc
    by (induction us arbitrary: acc) auto
  from this [of "history_uses h" "[]"] show ?thesis by (simp add: collect_history_tool_names_def)
qed

lemma add_history_tools_covers:
  assumes "add_history_tools env purpose h (specs, known) = (specs', known')"
    "purpose = CompactFallback \<Longrightarrow> \<forall>u \<in> set (history_uses h). tu_tool_name u = COMPACTION_HISTORY_TOOL_NAME"
  shows "\<forall>u \<in> set (history_uses h). to_lowercase env (tu_tool_name u) \<in> set (map (spec_key env) specs')"
proof
  fix u assume u: "u \<in> set (history_uses h)"
  then have n: "tu_tool_name u \<in> set (collect_history_tool_names h)" by (simp add: collect_history_tool_names_set)
  show "to_lowercase env (tu_tool_name u) \<in> set (map (spec_key env) specs')"
  proof (cases "purpose = CompactFallback")
    case True
    then have "specs' = specs @ [create_compaction_history_tool]"
      using assms(1) n by (auto simp: add_history_tools_def split: if_splits)
    moreover have "tu_tool_name u = COMPACTION_HISTORY_TOOL_NAME" using assms(2) True u by blast
    ultimately show ?thesis
      by (simp add: spec_key_def create_compaction_history_tool_def create_placeholder_tool_def)
  next
    case False
    let ?missing = "filter (\<lambda>n. to_lowercase env n \<notin> set (map (spec_key env) specs)) (collect_history_tool_names h)"
    have "specs' = specs @ map create_placeholder_tool ?missing"
      using assms(1) False by (simp add: add_history_tools_def)
    moreover have "to_lowercase env (tu_tool_name u) \<in> set (map (spec_key env) specs) \<or> tu_tool_name u \<in> set ?missing"
      using n by simp
    ultimately show ?thesis by (auto simp: spec_key_def create_placeholder_tool_def)
  qed
qed

lemma fallback_names:
  assumes "build_history env req msgs model_id names mode CompactFallback dedup = Inr (h, names', dedup')"
    "u \<in> set (history_uses h)"
  shows "tu_tool_name u = COMPACTION_HISTORY_TOOL_NAME"
proof -
  obtain body where body: "h = preamble env req model_id mode @ body"
    "concat (map events_of body) = concat (map (message_events (te (ce env)) mode CompactFallback) (butlast msgs))"
    using history_shape [OF assms(1)] by blast
  have "history_uses (preamble env req model_id mode) = []"
    by (cases "generate_thinking_prefix (registry env) req model_id")
      (simp_all add: preamble_def new_assistant_message_def Let_def)
  then have "u \<in> set (history_uses body)" using assms(2) body(1) by auto
  then have "Call (tu_tool_use_id u) (tu_tool_name u) \<in> set (concat (map events_of body))"
    by (auto simp: events_of_def)
  then have "Call (tu_tool_use_id u) (tu_tool_name u) \<in>
      set (concat (map (message_events (te (ce env)) mode CompactFallback) (butlast msgs)))"
    unfolding body(2) .
  then show ?thesis by (auto simp: message_events_def sent_name_def split: if_splits)
qed

text \<open>C2: Whatever the request and the purpose, what is sent is well formed: after the exchange with the system prompt
  users and assistants take turns and an assistant has the last word; the results of the current message
  answer exactly the calls that the history leaves open, each once; every tool the history calls is defined,
  up to case; and the current message is for the model the request named.\<close>

theorem converted_request_well_formed:
  assumes "convert_request_with_purpose env req mode purpose = Some (Inr r)"
  shows "let h = history (conversation r); current = current_message (conversation r) in
    (\<exists>model_id front body. map_model (registry (cv env)) (req_model req) = Some model_id \<and>
       ui_model_id current = model_id \<and> h = front @ body \<and>
       map is_user front = map is_user (preamble (cv env) req model_id mode) \<and>
       turn_taking body \<and> (body \<noteq> [] \<longrightarrow> \<not> is_user (last body))) \<and>
    calls_paired h (ctx_tool_results (ui_context current)) \<and>
    (\<forall>u \<in> set (history_uses h).
       to_lowercase (te (ce (cv env))) (tu_tool_name u) \<in>
         set (map (spec_key (te (ce (cv env)))) (ctx_tools (ui_context current))))"
proof -
  obtain model_id msgs cid where m: "map_model (registry (cv env)) (req_model req) = Some model_id"
    and c: "convert_messages env req mode purpose model_id msgs cid = Inr r"
    using assms by (auto simp: convert_request_with_purpose_def split: option.splits sum.splits)
  obtain specs names known h0 names' dedup t0 results images h t1 rs specs' known' where
    b: "build_history (cv env) req msgs model_id names mode purpose [] = Inr (h0, names', dedup)"
    and s: "settle_results purpose h0 t0 results = Inr (h, t1, rs)"
    and t: "add_history_tools (te (ce (cv env))) purpose h (specs, known) = (specs', known')"
    and r: "conversation r = make_conversation env req cid (make_current_message (cv env) t1 model_id images specs' rs) h"
    using c by (auto simp: convert_messages_def Let_def split: sum.splits prod.splits)
  have paired: "map is_user h = map is_user h0" "map uses_of h = map uses_of h0" "calls_paired h rs"
    using settle_results_paired [OF s] by blast+
  obtain body0 where body0: "h0 = preamble (cv env) req model_id mode @ body0" "turn_taking body0"
    "body0 \<noteq> [] \<longrightarrow> \<not> is_user (last body0)"
    using history_shape [OF b] by blast
  define front where "front = take (length (preamble (cv env) req model_id mode)) h"
  define body where "body = drop (length (preamble (cv env) req model_id mode)) h"
  have front: "h = front @ body" "map is_user front = map is_user (preamble (cv env) req model_id mode)"
    "map is_user body = map is_user body0"
    using paired(1) body0(1) by (simp_all add: front_def body_def take_map [symmetric] drop_map [symmetric])
  have "\<not> is_user (last body)" if "body \<noteq> []"
  proof -
    have "body0 \<noteq> []" using front(3) that by (metis map_is_Nil_conv)
    then have "is_user (last body) = is_user (last body0)"
      using front(3) that by (metis last_map)
    then show ?thesis using body0(3) \<open>body0 \<noteq> []\<close> by blast
  qed
  moreover have "turn_taking body" using turn_taking_map [OF front(3)] body0(2) by blast
  ultimately have turns: "turn_taking body" "body \<noteq> [] \<longrightarrow> \<not> is_user (last body)" by blast+
  have "history_uses h = history_uses h0" using paired(2) by simp
  then have "\<forall>u \<in> set (history_uses h). tu_tool_name u = COMPACTION_HISTORY_TOOL_NAME" if "purpose = CompactFallback"
    using fallback_names b that by metis
  note covers = add_history_tools_covers [OF t this]
  have sent: "history (conversation r) = h" "ui_model_id (current_message (conversation r)) = model_id"
    "ctx_tool_results (ui_context (current_message (conversation r))) = rs"
    "ctx_tools (ui_context (current_message (conversation r))) = specs'"
    by (simp_all add: r make_conversation_def make_current_message_def new_user_input_message_def)
  show ?thesis unfolding Let_def sent using m paired(3) front(1,2) turns covers by blast
qed


section \<open>When a request can be converted\<close>

definition says_something :: "request_message \<Rightarrow> bool" where
  "says_something m \<longleftrightarrow>
     role m = ''user'' \<or> (role m = ''system'' \<and> \<not> is_blank (system_message_text (content m)))"

lemma normalized_messages:
  "(case normalize_system_messages ms of Some n \<Rightarrow> n | None \<Rightarrow> ms) = List.map_filter normalize_message ms"
proof (cases "list_all (\<lambda>m. known_role m \<and> role m \<noteq> ''system'') ms")
  case True
  then have "List.map_filter normalize_message ms = ms"
    by (induction ms) (simp_all add: map_filter_Cons normalize_message_def List.map_filter_def)
  with True show ?thesis by (simp add: normalize_system_messages_def)
qed (simp add: normalize_system_messages_def)

lemma set_map_filter: "set (List.map_filter f xs) = {y. \<exists>x \<in> set xs. f x = Some y}"
  by (induction xs) (auto simp: map_filter_Cons List.map_filter_def split: option.splits)

lemma normalize_message_role: "normalize_message m = Some n \<Longrightarrow> role n = ''user'' \<or> role n = ''assistant''"
  by (auto simp: normalize_message_def known_role_def system_reminder_def Let_def split: if_splits)

lemma normalize_message_user:
  "(\<exists>n. normalize_message m = Some n \<and> role n = ''user'') \<longleftrightarrow> says_something m"
  by (auto simp: normalize_message_def known_role_def says_something_def system_reminder_def Let_def)

lemma normalize_message_documents:
  "(\<forall>n. normalize_message m = Some n \<and> role n = ''user'' \<longrightarrow> no_documents n) \<longleftrightarrow> (role m = ''user'' \<longrightarrow> no_documents m)"
  by (auto simp: normalize_message_def known_role_def system_reminder_def text_block_def no_documents_def
      block_list_def get_str_def json_get_def as_str_def Let_def)

lemma trailing_users_split:
  fixes ms
  defines "front \<equiv> take (length ms - length (trailing_users ms)) ms"
  shows "ms = front @ trailing_users ms" "\<forall>m \<in> set (trailing_users ms). role m = ''user''"
    "front \<noteq> [] \<Longrightarrow> role (last front) \<noteq> ''user''"
proof -
  let ?p = "\<lambda>m. role m = ''user''"
  have r: "ms = rev (dropWhile ?p (rev ms)) @ trailing_users ms"
    unfolding trailing_users_def by (metis rev_append rev_rev_ident takeWhile_dropWhile_id)
  then have "front = rev (dropWhile ?p (rev ms))"
    unfolding front_def by (metis append_eq_conv_conj diff_add_inverse2 length_append)
  then show "ms = front @ trailing_users ms" "front \<noteq> [] \<Longrightarrow> role (last front) \<noteq> ''user''"
    using r hd_dropWhile [of ?p "rev ms"] by (auto simp: last_rev)
  show "\<forall>m \<in> set (trailing_users ms). role m = ''user''"
    by (auto simp: trailing_users_def dest: set_takeWhileD)
qed

lemma content_blocks_documents:
  "list_all (\<lambda>b. get_str b ''type'' \<noteq> Some ''document'') (content_blocks (content m)) \<longleftrightarrow> no_documents m"
  by (auto simp: content_blocks_def no_documents_def block_list_def text_block_def get_str_def json_get_def as_str_def
      split: json.split)

text \<open>The messages that are left: the last is the user's, the one before it the assistant's.\<close>

lemma merge_trailing_spec:
  assumes "ms \<noteq> []" "role (last ms) = ''user''" "\<forall>m \<in> set ms. role m = ''user'' \<or> role m = ''assistant''"
    "msgs = (case merge_trailing_user_messages ms of Some m \<Rightarrow> m | None \<Rightarrow> ms)"
  shows "msgs \<noteq> []" "\<forall>m \<in> set (butlast msgs). role m = ''user'' \<or> role m = ''assistant''"
    "ends_answered (butlast msgs)"
    "(\<forall>m \<in> set (butlast msgs). role m = ''user'' \<longrightarrow> no_documents m) \<and> no_documents (last msgs) \<longleftrightarrow>
       (\<forall>m \<in> set ms. role m = ''user'' \<longrightarrow> no_documents m)"
proof -
  let ?tail = "trailing_users ms" and ?front = "take (length ms - length (trailing_users ms)) ms"
  note split = trailing_users_split [of ms]
  have tail: "?tail \<noteq> []"
    using split(1,3) assms(1,2) by (metis append_Nil2)
  have answered: "ends_answered ?front"
  proof (cases "?front = []")
    case False
    then have "last ?front \<in> set ms" by (meson in_set_takeD last_in_set)
    then show ?thesis using split(3) [OF False] assms(3) unfolding ends_answered_def by blast
  qed (simp add: ends_answered_def)
  have roles: "\<forall>m \<in> set ?front. role m = ''user'' \<or> role m = ''assistant''"
    using assms(3) by (auto dest: in_set_takeD)
  obtain l where l: "msgs = ?front @ [l]" "no_documents l \<longleftrightarrow> (\<forall>m \<in> set ?tail. no_documents m)"
  proof (cases "length ?tail < 2")
    case True
    then obtain m where "?tail = [m]" using tail by (cases ?tail) (auto simp: less_Suc_eq numeral_2_eq_2)
    then show ?thesis using that [of m] split(1) assms(4) True by (simp add: merge_trailing_user_messages_def)
  next
    case False
    let ?l = "\<lparr>role = ''user'', content = JArray (concat (map (content_blocks \<circ> content) ?tail))\<rparr>"
    have "no_documents ?l \<longleftrightarrow> (\<forall>m \<in> set ?tail. list_all (\<lambda>b. get_str b ''type'' \<noteq> Some ''document'') (content_blocks (content m)))"
      by (auto simp: no_documents_def block_list_def list_all_iff)
    then show ?thesis
      using that [of ?l] assms(4) False content_blocks_documents by (simp add: merge_trailing_user_messages_def Let_def)
  qed
  show "msgs \<noteq> []" "\<forall>m \<in> set (butlast msgs). role m = ''user'' \<or> role m = ''assistant''" "ends_answered (butlast msgs)"
    using l(1) roles answered by simp_all
  have "set ms = set ?front \<union> set ?tail" using split(1) by (metis set_append)
  then show "(\<forall>m \<in> set (butlast msgs). role m = ''user'' \<longrightarrow> no_documents m) \<and> no_documents (last msgs) \<longleftrightarrow>
      (\<forall>m \<in> set ms. role m = ''user'' \<longrightarrow> no_documents m)"
    using l split(2) by (simp add: ball_Un)
qed

lemma drop_prefill_exists:
  assumes "ms \<noteq> []" "\<forall>m \<in> set ms. role m = ''user'' \<or> role m = ''assistant''"
  shows "(\<exists>kept. drop_prefill ms = Inr kept) \<longleftrightarrow> (\<exists>m \<in> set ms. role m = ''user'')"
proof (cases "role (last ms) = ''assistant''")
  case True
  then show ?thesis by (auto simp: drop_prefill_def Let_def)
next
  case False
  moreover have "last ms \<in> set ms" using assms(1) by simp
  ultimately show ?thesis using assms(2) by (auto simp: drop_prefill_def)
qed

lemma drop_prefill_kept:
  assumes "drop_prefill ms = Inr kept" "ms \<noteq> []" "\<forall>m \<in> set ms. role m = ''user'' \<or> role m = ''assistant''"
  shows "kept \<noteq> []" "role (last kept) = ''user''" "set kept \<subseteq> set ms" "\<forall>m \<in> set ms. role m = ''user'' \<longrightarrow> m \<in> set kept"
proof -
  let ?p = "\<lambda>m. role m \<noteq> ''user''" and ?d = "dropWhile (\<lambda>m. role m \<noteq> ''user'') (rev ms)"
  have "kept \<noteq> [] \<and> role (last kept) = ''user'' \<and> set kept \<subseteq> set ms \<and> (\<forall>m \<in> set ms. role m = ''user'' \<longrightarrow> m \<in> set kept)"
  proof (cases "role (last ms) = ''assistant''")
    case True
    then have kept: "kept = rev ?d" "?d \<noteq> []" using assms(1) by (auto simp: drop_prefill_def Let_def split: if_splits)
    have "m \<in> set ?d" if "m \<in> set ms" "role m = ''user''" for m
    proof -
      have "m \<in> set (takeWhile ?p (rev ms)) \<union> set ?d"
        using that(1) by (metis set_append set_rev takeWhile_dropWhile_id)
      then show ?thesis using that(2) by (auto dest: set_takeWhileD)
    qed
    moreover have "set ?d \<subseteq> set ms" by (metis set_dropWhileD set_rev subsetI)
    moreover have "role (hd ?d) = ''user''" using hd_dropWhile [OF kept(2)] by blast
    ultimately show ?thesis using kept by (simp add: last_rev)
  next
    case False
    moreover have "last ms \<in> set ms" using assms(2) by simp
    ultimately show ?thesis using assms by (auto simp: drop_prefill_def)
  qed
  then show "kept \<noteq> []" "role (last kept) = ''user''" "set kept \<subseteq> set ms" "\<forall>m \<in> set ms. role m = ''user'' \<longrightarrow> m \<in> set kept"
    by blast+
qed

lemma prepare_messages_exists:
  "(\<exists>msgs. prepare_messages Generate ms = Inr msgs) \<longleftrightarrow> (\<exists>m \<in> set ms. says_something m)"
proof -
  let ?s = "List.map_filter normalize_message ms"
  have roles: "\<forall>m \<in> set ?s. role m = ''user'' \<or> role m = ''assistant''"
    using normalize_message_role by (auto simp: set_map_filter)
  have "(\<exists>m \<in> set ?s. role m = ''user'') \<longleftrightarrow> (\<exists>m \<in> set ms. says_something m)"
    unfolding normalize_message_user [symmetric] set_map_filter by blast
  moreover have "(\<exists>msgs. prepare_messages Generate ms = Inr msgs) \<longleftrightarrow> ms \<noteq> [] \<and> ?s \<noteq> [] \<and> (\<exists>kept. drop_prefill ?s = Inr kept)"
    by (auto simp: prepare_messages_def normalized_messages Let_def split: sum.split)
  moreover have "?s = [] \<Longrightarrow> \<not> (\<exists>m \<in> set ?s. role m = ''user'')" by simp
  ultimately show ?thesis using drop_prefill_exists [OF _ roles] by (metis empty_iff list.set(1))
qed

lemma prepare_messages_spec:
  assumes "prepare_messages Generate ms = Inr msgs"
  shows "msgs \<noteq> []" "\<forall>m \<in> set (butlast msgs). role m = ''user'' \<or> role m = ''assistant''"
    "ends_answered (butlast msgs)"
    "(\<forall>m \<in> set (butlast msgs). role m = ''user'' \<longrightarrow> no_documents m) \<and> no_documents (last msgs) \<longleftrightarrow>
       (\<forall>m \<in> set ms. role m = ''user'' \<longrightarrow> no_documents m)"
proof -
  let ?s = "List.map_filter normalize_message ms"
  have roles: "\<forall>m \<in> set ?s. role m = ''user'' \<or> role m = ''assistant''"
    using normalize_message_role by (auto simp: set_map_filter)
  obtain kept where k: "?s \<noteq> []" "drop_prefill ?s = Inr kept"
    "msgs = (case merge_trailing_user_messages kept of Some m \<Rightarrow> m | None \<Rightarrow> kept)"
    using assms by (auto simp: prepare_messages_def normalized_messages Let_def split: if_splits sum.splits)
  note kept = drop_prefill_kept [OF k(2,1) roles]
  have "\<forall>m \<in> set kept. role m = ''user'' \<or> role m = ''assistant''" using roles kept(3) by blast
  note merged = merge_trailing_spec [OF kept(1,2) this k(3)]
  show "msgs \<noteq> []" "\<forall>m \<in> set (butlast msgs). role m = ''user'' \<or> role m = ''assistant''" "ends_answered (butlast msgs)"
    using merged by blast+
  have "(\<forall>m \<in> set kept. role m = ''user'' \<longrightarrow> no_documents m) \<longleftrightarrow> (\<forall>m \<in> set ?s. role m = ''user'' \<longrightarrow> no_documents m)"
    using kept(3,4) by blast
  also have "\<dots> \<longleftrightarrow> (\<forall>m \<in> set ms. \<forall>n. normalize_message m = Some n \<and> role n = ''user'' \<longrightarrow> no_documents n)"
    by (auto simp: set_map_filter)
  also have "\<dots> \<longleftrightarrow> (\<forall>m \<in> set ms. role m = ''user'' \<longrightarrow> no_documents m)"
    unfolding normalize_message_documents ..
  finally show "(\<forall>m \<in> set (butlast msgs). role m = ''user'' \<longrightarrow> no_documents m) \<and> no_documents (last msgs) \<longleftrightarrow>
       (\<forall>m \<in> set ms. role m = ''user'' \<longrightarrow> no_documents m)"
    using merged(4) by blast
qed

text \<open>Objects are maps: the schemas of the tools have sorted keys.\<close>

definition schemas_sorted :: "messages_request \<Rightarrow> bool" where
  "schemas_sorted req \<longleftrightarrow>
     (case tools req of Some ts \<Rightarrow> \<forall>t \<in> set ts. sorted_json (JObject (input_schema t)) | None \<Rightarrow> True)"

lemma convert_messages_exists:
  assumes "\<And>s. 8 \<le> length (sha256_hex (te (ce (cv env))) s)"
    "schemas_sorted req"
    "\<forall>m \<in> set (butlast msgs). role m = ''user'' \<or> role m = ''assistant''"
  shows "(\<exists>r. convert_messages env req mode Generate model_id msgs cid = Inr r) \<longleftrightarrow>
    ends_answered (butlast msgs) \<and> (\<forall>m \<in> set (butlast msgs). role m = ''user'' \<longrightarrow> no_documents m) \<and>
    no_documents (last msgs)"
proof -
  let ?te = "te (ce (cv env))"
  obtain specs names where t: "convert_tools ?te (tools req) [] mode = Inr (specs, names)"
  proof (cases "tools req")
    case None
    then show ?thesis using that by (simp add: convert_tools_def)
  next
    case (Some ts)
    then show ?thesis
      using that convert_tools_loop_ok [OF assms(1), of ts mode "[]" "[]"] assms(2) by (auto simp: convert_tools_def schemas_sorted_def)
  qed
  note built = build_history_succeeds [OF assms(3), of "cv env" req model_id names mode Generate "[]"]
  have last: "(\<exists>r. process_message_content (ce (cv env)) (content (last msgs)) st = Inr r) \<longleftrightarrow> no_documents (last msgs)" for st
    by (rule process_message_content_result(1))
  have settle: "\<exists>r. settle_results Generate h t0 rs = Inr r" for h t0 rs
    by (simp add: settle_results_def Let_def split: prod.split)
  show ?thesis
  proof (cases "build_history (cv env) req msgs model_id names mode Generate []")
    case (Inl e)
    then show ?thesis using built t by (auto simp: convert_messages_def)
  next
    case (Inr b)
    obtain h names' dedup where b: "b = (h, names', dedup)" by (metis surj_pair)
    show ?thesis
    proof (cases "process_message_content (ce (cv env)) (content (last msgs)) (dedup, [])")
      case Inl': (Inl e)
      then have "\<not> no_documents (last msgs)" using last [of "(dedup, [])"] by auto
      then show ?thesis using Inr Inl' b t by (simp add: convert_messages_def)
    next
      case p: (Inr p)
      obtain t0 rs d i where p': "p = ((t0, rs), (d, i))" by (metis surj_pair)
      obtain h1 t1 rs1 where s: "settle_results Generate h t0 rs = Inr (h1, t1, rs1)"
        using settle [of h t0 rs] by (metis surj_pair)
      have "no_documents (last msgs)" using last [of "(dedup, [])"] p by blast
      moreover have "\<exists>r. convert_messages env req mode Generate model_id msgs cid = Inr r"
        using Inr p t by (simp add: convert_messages_def b p' s Let_def split: prod.split)
      ultimately show ?thesis using built Inr by blast
    qed
  qed
qed

lemma conversion_iff:
  assumes "\<And>s. 8 \<le> length (sha256_hex (te (ce (cv env))) s)"
    "schemas_sorted req"
  shows "(\<exists>r. convert_request_with_mode env req mode = Some (Inr r)) \<longleftrightarrow>
    invalid_model_reason (req_model req) = None \<and> (\<exists>m \<in> set (messages req). says_something m) \<and>
    (\<forall>m \<in> set (messages req). role m = ''user'' \<longrightarrow> no_documents m) \<and> conversation_id_of env req \<noteq> None"
proof -
  have model: "(\<exists>m. map_model (registry (cv env)) (req_model req) = Some m) \<longleftrightarrow> invalid_model_reason (req_model req) = None"
    by (auto simp: map_model_def split: option.splits)
  have converts: "(\<exists>r. convert_messages env req mode Generate model_id msgs cid = Inr r) \<longleftrightarrow>
      (\<forall>m \<in> set (messages req). role m = ''user'' \<longrightarrow> no_documents m)"
    if "prepare_messages Generate (messages req) = Inr msgs" for model_id msgs cid
    using convert_messages_exists [OF assms prepare_messages_spec(2) [OF that]] prepare_messages_spec(3,4) [OF that]
    by blast
  have "(\<exists>r. convert_request_with_mode env req mode = Some (Inr r)) \<longleftrightarrow>
      (\<exists>model_id msgs cid. map_model (registry (cv env)) (req_model req) = Some model_id \<and>
         prepare_messages Generate (messages req) = Inr msgs \<and> conversation_id_of env req = Some cid \<and>
         (\<exists>r. convert_messages env req mode Generate model_id msgs cid = Inr r))"
    by (auto simp: convert_request_with_mode_def convert_request_with_purpose_def split: option.splits sum.splits)
  also have "\<dots> \<longleftrightarrow> (\<exists>model_id msgs cid. map_model (registry (cv env)) (req_model req) = Some model_id \<and>
         prepare_messages Generate (messages req) = Inr msgs \<and> conversation_id_of env req = Some cid \<and>
         (\<forall>m \<in> set (messages req). role m = ''user'' \<longrightarrow> no_documents m))"
    using converts by blast
  also have "\<dots> \<longleftrightarrow> invalid_model_reason (req_model req) = None \<and> (\<exists>m \<in> set (messages req). says_something m) \<and>
    (\<forall>m \<in> set (messages req). role m = ''user'' \<longrightarrow> no_documents m) \<and> conversation_id_of env req \<noteq> None"
    using model prepare_messages_exists [of "messages req"] by blast
  finally show ?thesis .
qed

text \<open>C4: A request is converted exactly when its model has a valid name, some message speaks for the user, no user
  message holds a document and the session id can be cut out of the user id.  In particular the error for a
  history that ends with a user message never occurs, and no list of tools makes the conversion fail.  Messages
  of other roles than user, assistant and system are no error either: \<open>normalize_system_messages\<close> drops them with
  a warning, although the comment at its call says that they raise one.\<close>

theorem conversion_succeeds_iff:
  assumes "\<And>s. 8 \<le> length (sha256_hex (te (ce (cv env))) s)"
    "schemas_sorted req"
  shows "(\<exists>r. convert_request_with_mode env req mode = Some (Inr r)) \<longleftrightarrow>
    invalid_model_reason (req_model req) = None \<and> (\<exists>m \<in> set (messages req). says_something m) \<and>
    (\<forall>m \<in> set (messages req). role m = ''user'' \<longrightarrow> no_documents m) \<and> conversation_id_of env req \<noteq> None"
  using assms by (rule conversion_iff)

definition sample_request_env :: request_env where
  "sample_request_env =
     \<lparr>cv = sample_env,
      ids = \<lparr>prompt = prompt_codec sample_codec, sha256 = \<lambda>bs. bs, parse_json = \<lambda>_. None, uuid_v5_oid = take 36,
             clock = int, select_nth = take\<rparr>,
      uuid_parses = \<lambda>_. True\<rparr>"

lemma sample_convertible:
  "invalid_model_reason (req_model sample_request) = None \<and> (\<exists>m \<in> set (messages sample_request). says_something m) \<and>
   (\<forall>m \<in> set (messages sample_request). role m = ''user'' \<longrightarrow> no_documents m) \<and>
   conversation_id_of sample_request_env sample_request \<noteq> None"
proof (intro conjI)
  show "invalid_model_reason (req_model sample_request) = None" by code_simp
  show "\<exists>m \<in> set (messages sample_request). says_something m"
    by (simp add: sample_request_def sample_messages_def says_something_def)
  show "\<forall>m \<in> set (messages sample_request). role m = ''user'' \<longrightarrow> no_documents m"
    by (simp add: sample_request_def sample_messages_def no_documents_def block_list_def answer_block_def get_str_def
        json_get_def as_str_def)
  show "conversation_id_of sample_request_env sample_request \<noteq> None"
    by (simp add: conversation_id_of_def sample_request_def)
qed

lemma sample_laws:
  "8 \<le> length (sha256_hex (te (ce (cv sample_request_env))) s)" "schemas_sorted sample_request"
  by (simp_all add: sample_request_env_def sample_env_def sample_tool_env_def schemas_sorted_def sample_request_def)

lemma sample_converts: "\<exists>r. convert_request_with_mode sample_request_env sample_request ClaudeCode = Some (Inr r)"
  unfolding conversion_iff [OF sample_laws] by (rule sample_convertible)

lemma conversion_succeeds_iff_witness:
  "(\<exists>r. convert_request_with_mode sample_request_env sample_request ClaudeCode = Some (Inr r)) \<and>
   invalid_model_reason (req_model sample_request) = None"
  using conversion_succeeds_iff [OF sample_laws, of ClaudeCode] sample_convertible by blast

lemma converted_request_well_formed_witness:
  "\<exists>r. convert_request_with_purpose sample_request_env sample_request ClaudeCode Generate = Some (Inr r) \<and>
     calls_paired (history (conversation r)) (ctx_tool_results (ui_context (current_message (conversation r))))"
proof -
  obtain r where r: "convert_request_with_purpose sample_request_env sample_request ClaudeCode Generate = Some (Inr r)"
    using sample_converts unfolding convert_request_with_mode_def by blast
  then show ?thesis using converted_request_well_formed [OF r] unfolding Let_def by blast
qed

section \<open>Stable ids\<close>

text \<open>A request without a session id gets one from its system prompt and its first user message.\<close>

definition same_text :: "json \<Rightarrow> json \<Rightarrow> bool" where
  "same_text v w \<longleftrightarrow>
     v = w \<or> (\<exists>s b. v = JString s \<and> w = JArray [b] \<and> get_str b ''text'' = Some s)"

lemma find_skip: "\<forall>x \<in> set xs. \<not> P x \<Longrightarrow> P y \<Longrightarrow> List.find P (xs @ y # ys) = Some y"
  by (induction xs) auto

text \<open>The later requests of a conversation get the id of its first one, whatever is added to it, and also when the
  client writes the first message now as a string and now as a text block with other fields.\<close>

lemma derived_id_stable:
  assumes "system req' = system req" "metadata req = None" "metadata req' = None"
    "messages req = before @ m # after" "messages req' = before @ m' # after'"
    "\<forall>x \<in> set before. role x \<noteq> ''user''" "role m = ''user''" "role m' = ''user''" "same_text (content m) (content m')"
  shows "conversation_id_of env req' = conversation_id_of env req"
proof -
  have "(case content m' of JString s \<Rightarrow> s @ z | JArray blocks \<Rightarrow> concat (map (\<lambda>b. derived_part b @ z) blocks) | _ \<Rightarrow> []) =
      (case content m of JString s \<Rightarrow> s @ z | JArray blocks \<Rightarrow> concat (map (\<lambda>b. derived_part b @ z) blocks) | _ \<Rightarrow> [])" for z
    using assms(9) by (auto simp: same_text_def derived_part_def)
  moreover have "List.find (\<lambda>m. role m = ''user'') (messages req) = Some m"
    "List.find (\<lambda>m. role m = ''user'') (messages req') = Some m'"
    using assms(4-8) find_skip [of before "\<lambda>m. role m = ''user''"] by simp_all
  ultimately show ?thesis
    using assms(1-3) by (simp add: conversation_id_of_def derive_conversation_id_def Let_def)
qed

lemma derived_id_stable_witness:
  "conversation_id_of sample_request_env (sample_request\<lparr>messages :=
       \<lparr>role = ''user'', content = JArray [text_block ''Run it.'']\<rparr> # tl sample_messages @ sample_messages\<rparr>) =
   conversation_id_of sample_request_env sample_request"
  by (rule derived_id_stable [where before = "[]" and m = "hd sample_messages" and after = "tl sample_messages" and
      m' = "\<lparr>role = ''user'', content = JArray [text_block ''Run it.'']\<rparr>"])
    (simp_all add: sample_request_def sample_messages_def same_text_def text_block_def get_str_def
      json_get_def as_str_def)

text \<open>A user id whose 36th byte after \<open>session_\<close> is inside a character has no conversation.\<close>

lemma session_cut_inside_character:
  "extract_session_id sample_request_env (''session_'' @ replicate 35 CHR ''a'' @ [CHR 0xC3, CHR 0xA9]) = None"
  by code_simp

text \<open>Two tools of the history that differ in case are both defined.\<close>

lemma placeholders_repeat_case:
  "map ts_name (fst (add_history_tools sample_tool_env Generate
     [HistoryAssistant \<lparr>am_content = '' '', am_tool_uses = Some [new_tool_use_entry ''1'' ''Look'', new_tool_use_entry ''2'' ''look'']\<rparr>]
     ([], {}))) = [''Look'', ''look'']"
  by code_simp

end
