(* ===== verification/Endpoints.thy ===== *)
theory Endpoints
  imports Credentials Json UpstreamErrors
begin

text \<open>
  The two upstream endpoints (\<open>src/kiro/endpoint\<close>): where a request goes, its headers, what is changed in
  its body, and how the text of a refusal is classified; and the machine id of a credential
  (\<open>src/kiro/machine_id.rs\<close>). The trait \<open>KiroEndpoint\<close> is a record of functions. \<open>parse\<close> and \<open>print\<close>
  are the parser and printer of \<open>serde_json\<close>, \<open>sha\<close> is SHA-256 in hexadecimal, a UUID is an argument.
\<close>

section \<open>Machine ids\<close>

definition is_ascii_hexdigit :: "char \<Rightarrow> bool" where
  "is_ascii_hexdigit c \<longleftrightarrow>
     (let n = (of_char c :: nat) in 48 \<le> n \<and> n \<le> 57 \<or> 65 \<le> n \<and> n \<le> 70 \<or> 97 \<le> n \<and> n \<le> 102)"

definition normalize_machine_id :: "string \<Rightarrow> string option" where
  "normalize_machine_id machine_id =
     (let trimmed = trim machine_id in
      if length trimmed = 64 \<and> list_all is_ascii_hexdigit trimmed then Some trimmed
      else
        let without_dashes = filter (\<lambda>c. c \<noteq> CHR ''-'') trimmed in
        if length without_dashes = 32 \<and> list_all is_ascii_hexdigit without_dashes
        then Some (without_dashes @ without_dashes)
        else None)"

text \<open>The ids made up for credentials that have nothing to derive one from, by credential id.\<close>

type_synonym fallback_ids = "(u64 option \<times> string) list"

definition fallback_machine_id ::
  "(string \<Rightarrow> string) \<Rightarrow> string \<Rightarrow> kiro_credentials \<Rightarrow> fallback_ids \<Rightarrow> string \<times> fallback_ids" where
  "fallback_machine_id sha seed c made =
     (case map_of made (kc_id c) of
        Some existing \<Rightarrow> (existing, made)
      | None \<Rightarrow>
         (let derived = sha (''KiroFallback/'' @ seed) in (derived, map_insert (kc_id c) derived made)))"

definition configured_machine_id :: "string option \<Rightarrow> string option" where
  "configured_machine_id machine_id = Option.bind machine_id normalize_machine_id"

definition generate_from_credentials ::
  "(string \<Rightarrow> string) \<Rightarrow> string \<Rightarrow> string option \<Rightarrow> kiro_credentials \<Rightarrow> fallback_ids \<Rightarrow>
   string \<times> fallback_ids"
where
  "generate_from_credentials sha seed config_machine_id c made =
     (case configured_machine_id (kc_machine_id c) of
        Some normalized \<Rightarrow> (normalized, made)
      | None \<Rightarrow>
         (case configured_machine_id config_machine_id of
            Some normalized \<Rightarrow> (normalized, made)
          | None \<Rightarrow>
              if is_api_key_credential c
              then (case kc_kiro_api_key c of
                      Some api_key \<Rightarrow>
                        if api_key \<noteq> [] then (sha (''KiroAPIKey/'' @ api_key), made)
                        else fallback_machine_id sha seed c made
                    | None \<Rightarrow> fallback_machine_id sha seed c made)
              else (case kc_refresh_token c of
                      Some refresh_token \<Rightarrow>
                        if refresh_token \<noteq> [] then (sha (''KotlinNativeAPI/'' @ refresh_token), made)
                        else fallback_machine_id sha seed c made
                    | None \<Rightarrow> fallback_machine_id sha seed c made)))"

section \<open>What a request is decorated with\<close>

datatype api_domain = Amazonaws | KiroDev

fun domain_host :: "api_domain \<Rightarrow> string \<Rightarrow> string" where
  "domain_host Amazonaws region = ''q.'' @ region @ ''.amazonaws.com''"
| "domain_host KiroDev region = ''runtime.'' @ region @ ''.kiro.dev''"

text \<open>The settings the endpoints read; \<open>gc_latest_version\<close> is the release found by the background
  refresher of \<open>kiro_version.rs\<close>, if any.\<close>

record gateway_config =
  gc_regions :: region_config
  gc_machine_id :: "string option"
  gc_system_version :: string
  gc_node_version :: string
  gc_kiro_version :: string
  gc_latest_version :: "string option"

definition effective_version :: "gateway_config \<Rightarrow> string" where
  "effective_version g = (case gc_latest_version g of Some v \<Rightarrow> v | None \<Rightarrow> gc_kiro_version g)"

record request_context =
  rx_credentials :: kiro_credentials
  rx_token :: string
  rx_machine_id :: string
  rx_config :: gateway_config
  rx_api_domain :: api_domain

definition runtime_host :: "request_context \<Rightarrow> string" where
  "runtime_host x = domain_host (rx_api_domain x) (effective_api_region (gc_regions (rx_config x)) (rx_credentials x))"

type_synonym headers = "(string \<times> string) list"

text \<open>The headers both endpoints end with: a fresh id, the token and the kind of the token.\<close>

definition optional_header :: "string \<Rightarrow> string option \<Rightarrow> headers" where
  "optional_header name v = (case v of Some s \<Rightarrow> [(name, s)] | None \<Rightarrow> [])"

definition common_headers :: "string \<Rightarrow> string \<Rightarrow> request_context \<Rightarrow> string \<Rightarrow> headers" where
  "common_headers x_amz_user_agent user_agent x uuid =
     [(''x-amz-user-agent'', x_amz_user_agent), (''user-agent'', user_agent), (''host'', runtime_host x),
      (''amz-sdk-invocation-id'', uuid), (''amz-sdk-request'', ''attempt=1; max=3''),
      (''Authorization'', ''Bearer '' @ rx_token x)]"

definition token_type_headers :: "request_context \<Rightarrow> headers" where
  "token_type_headers x = optional_header ''tokentype'' (token_type_header (rx_credentials x))"

definition mcp_headers :: "string \<Rightarrow> string \<Rightarrow> request_context \<Rightarrow> string \<Rightarrow> headers" where
  "mcp_headers x_amz_user_agent user_agent x uuid =
     common_headers x_amz_user_agent user_agent x uuid
     @ optional_header ''x-amzn-kiro-profile-arn'' (streaming_profile_arn (rx_credentials x))
     @ token_type_headers x"

section \<open>The IDE endpoint\<close>

definition ide_x_amz_user_agent :: "request_context \<Rightarrow> string" where
  "ide_x_amz_user_agent x =
     ''aws-sdk-js/1.0.34 KiroIDE-'' @ effective_version (rx_config x) @ ''-'' @ rx_machine_id x"

definition ide_user_agent :: "request_context \<Rightarrow> string" where
  "ide_user_agent x =
     ''aws-sdk-js/1.0.34 ua/2.1 os/'' @ gc_system_version (rx_config x)
     @ '' lang/js md/nodejs#'' @ gc_node_version (rx_config x)
     @ '' api/codewhispererstreaming#1.0.34 m/E KiroIDE-'' @ effective_version (rx_config x) @ ''-''
     @ rx_machine_id x"

definition ide_api_headers :: "request_context \<Rightarrow> string \<Rightarrow> headers" where
  "ide_api_headers x uuid =
     [(''x-amzn-codewhisperer-optout'', ''true''), (''x-amzn-kiro-agent-mode'', ''vibe'')]
     @ common_headers (ide_x_amz_user_agent x) (ide_user_agent x) x uuid @ token_type_headers x"

text \<open>Assigning to a member of a JSON value: \<open>null\<close> becomes an object, any other value that is not an
  object makes the program panic (\<open>None\<close>).\<close>

fun json_assign :: "json \<Rightarrow> string \<Rightarrow> json \<Rightarrow> json option" where
  "json_assign (JObject m) k v = Some (JObject (obj_insert k v m))"
| "json_assign JNull k v = Some (JObject [(k, v)])"
| "json_assign j k v = None"

definition inject_profile_arn ::
  "(string \<Rightarrow> json option) \<Rightarrow> (json \<Rightarrow> string) \<Rightarrow> string \<Rightarrow> string option \<Rightarrow> string option" where
  "inject_profile_arn parse print body profile_arn =
     (case profile_arn of
        None \<Rightarrow> Some body
      | Some arn \<Rightarrow>
         (case parse body of
            None \<Rightarrow> Some body
          | Some j \<Rightarrow> map_option print (json_assign j ''profileArn'' (JString arn))))"

section \<open>The CLI endpoint\<close>

definition cli_user_agent :: "request_context \<Rightarrow> string" where
  "cli_user_agent x =
     ''aws-sdk-rust/1.3.15 ua/2.1 api/codewhispererstreaming/0.1.14474 os/'' @ gc_system_version (rx_config x)
     @ '' lang/rust/1.92.0 md/appVersion-'' @ gc_kiro_version (rx_config x) @ '' app/AmazonQ-For-CLI''"

definition cli_x_amz_user_agent :: "request_context \<Rightarrow> string" where
  "cli_x_amz_user_agent x =
     ''aws-sdk-rust/1.3.15 ua/2.1 api/codewhispererstreaming/0.1.14474 os/'' @ gc_system_version (rx_config x)
     @ '' lang/rust/1.92.0 m/F app/AmazonQ-For-CLI''"

definition cli_api_headers :: "request_context \<Rightarrow> string \<Rightarrow> headers" where
  "cli_api_headers x uuid =
     [(''x-amz-target'', ''AmazonCodeWhispererStreamingService.GenerateAssistantResponse''),
      (''x-amzn-codewhisperer-optout'', ''false'')]
     @ common_headers (cli_x_amz_user_agent x) (cli_user_agent x) x uuid @ token_type_headers x"

text \<open>\<open>str::replace\<close>: occurrences from left to right, without overlap.\<close>

function replace_all :: "string \<Rightarrow> string \<Rightarrow> string \<Rightarrow> string" where
  "replace_all p r [] = []"
| "replace_all p r (c # cs) =
     (if p \<noteq> [] \<and> starts_with (c # cs) p then r @ replace_all p r (drop (length p) (c # cs))
      else c # replace_all p r cs)"
  by pat_completeness auto
termination by (relation "measure (\<lambda>(p, r, s). length s)") (auto simp: neq_Nil_conv)

definition obj_update :: "string \<Rightarrow> (json \<Rightarrow> json) \<Rightarrow> json_object \<Rightarrow> json_object" where
  "obj_update k f m = map (\<lambda>(k', v). if k' = k then (k', f v) else (k', v)) m"

text \<open>\<open>get_mut(k)\<close> followed by \<open>as_object_mut\<close>, and by \<open>as_array_mut\<close>.\<close>

definition on_object :: "(json_object \<Rightarrow> json_object) \<Rightarrow> json \<Rightarrow> json" where
  "on_object f j = (case j of JObject m \<Rightarrow> JObject (f m) | _ \<Rightarrow> j)"

definition on_array :: "(json \<Rightarrow> json) \<Rightarrow> json \<Rightarrow> json" where
  "on_array f j = (case j of JArray xs \<Rightarrow> JArray (map f xs) | _ \<Rightarrow> j)"

definition cli_history_message :: "json \<Rightarrow> json" where
  "cli_history_message = on_object (obj_update ''userInputMessage'' (on_object (map_remove ''modelId'')))"

definition cli_state :: "json_object \<Rightarrow> json_object" where
  "cli_state state =
     obj_update ''history'' (on_array cli_history_message) (map_remove ''agentContinuationId'' state)"

definition cli_value :: "json \<Rightarrow> json" where
  "cli_value = on_object (obj_update ''conversationState'' (on_object cli_state))"

definition set_origin_kiro_cli :: "(string \<Rightarrow> json option) \<Rightarrow> (json \<Rightarrow> string) \<Rightarrow> string \<Rightarrow> string" where
  "set_origin_kiro_cli parse print body =
     (let body = replace_all ''\"origin\":\"AI_EDITOR\"'' ''\"origin\":\"KIRO_CLI\"'' body in
      case parse body of None \<Rightarrow> body | Some j \<Rightarrow> print (cli_value j))"

section \<open>Classification of a refusal\<close>

definition reason_of :: "json \<Rightarrow> string option" where
  "reason_of j = Option.bind (json_get j ''reason'') as_str"

text \<open>The member \<open>reason\<close> at the top and below \<open>error\<close>.\<close>

definition reasons :: "json \<Rightarrow> string list" where
  "reasons j = List.map_filter id [reason_of j, Option.bind (json_get j ''error'') reason_of]"

definition QUOTA_EXHAUSTED_REASONS :: "string list" where
  "QUOTA_EXHAUSTED_REASONS = [''MONTHLY_REQUEST_COUNT'', ''OVERAGE_REQUEST_LIMIT_EXCEEDED'']"

definition is_monthly_request_limit :: "(string \<Rightarrow> json option) \<Rightarrow> string \<Rightarrow> bool" where
  "is_monthly_request_limit parse body \<longleftrightarrow>
     list_ex (contains body) QUOTA_EXHAUSTED_REASONS \<and>
     (case parse body of
        Some j \<Rightarrow> list_ex (\<lambda>r. r \<in> set QUOTA_EXHAUSTED_REASONS) (reasons j)
      | None \<Rightarrow> True)"

definition is_bearer_token_invalid :: "string \<Rightarrow> bool" where
  "is_bearer_token_invalid body = contains body ''The bearer token included in the request is invalid''"

definition ACCOUNT_RATE_REASONS :: "string list" where
  "ACCOUNT_RATE_REASONS =
     [''USER_REQUEST_RATE_EXCEEDED'', ''CREDIT_CONSUMPTION_RATE_EXCEEDED'', ''SERVICE_REQUEST_RATE_EXCEEDED'']"

definition trim_end_matches :: "char \<Rightarrow> string \<Rightarrow> string" where
  "trim_end_matches c s = rev (dropWhile (\<lambda>d. d = c) (rev s))"

definition is_account_rate_limited :: "(string \<Rightarrow> json option) \<Rightarrow> string \<Rightarrow> bool" where
  "is_account_rate_limited parse body \<longleftrightarrow>
     (let parsed = parse body; reason = Option.bind parsed reason_of in
      if (case reason of Some r \<Rightarrow> r \<in> set ACCOUNT_RATE_REASONS | None \<Rightarrow> False) then True
      else
        let message = trim (case Option.bind parsed (\<lambda>j. Option.bind (json_get j ''message'') as_str) of
                         Some m \<Rightarrow> m | None \<Rightarrow> body);
            message_lower = to_ascii_lowercase message in
        (contains message_lower ''suspicious activity'' \<and> contains message_lower ''temporary limits'') \<or>
        contains message_lower ''5-minute credit limit exceeded'' \<or>
        trim_end_matches CHR ''.'' message_lower = ''too many requests, please wait before trying again'')"

definition SUSPENDED_REASON :: string where
  "SUSPENDED_REASON = ''TEMPORARILY_SUSPENDED''"

definition suspended_by_reason :: "(string \<Rightarrow> json option) \<Rightarrow> string \<Rightarrow> bool" where
  "suspended_by_reason parse body \<longleftrightarrow>
     contains body SUSPENDED_REASON \<and>
     (case parse body of Some j \<Rightarrow> SUSPENDED_REASON \<in> set (reasons j) | None \<Rightarrow> True)"

definition is_account_suspended :: "(string \<Rightarrow> json option) \<Rightarrow> string \<Rightarrow> bool" where
  "is_account_suspended parse body \<longleftrightarrow>
     suspended_by_reason parse body \<or>
     (let lower = to_ascii_lowercase body in
        contains lower ''suspended'' \<and>
        (contains lower ''locked your account'' \<or> contains lower ''locked it''))"

definition is_gateway_timeout :: "string \<Rightarrow> bool" where
  "is_gateway_timeout body \<longleftrightarrow>
     (let lower = to_ascii_lowercase body in
        contains body ''524'' \<and>
        (contains lower ''status code'' \<or> contains lower ''gateway timeout'' \<or>
         contains lower ''server-side issue''))"

definition CLIENT_VALIDATION_REASONS :: "string list" where
  "CLIENT_VALIDATION_REASONS = [''TOOL_USE_RESULT_MISMATCH'', ''TOOL_SCHEMA_INVALID'']"

definition CLIENT_VALIDATION_MESSAGE_MARKERS :: "string list" where
  "CLIENT_VALIDATION_MESSAGE_MARKERS = [''Expected toolResult blocks'']"

definition is_client_validation_error :: "(string \<Rightarrow> json option) \<Rightarrow> string \<Rightarrow> bool" where
  "is_client_validation_error parse body \<longleftrightarrow>
     (list_ex (contains body) CLIENT_VALIDATION_REASONS \<and>
      (case parse body of
         Some j \<Rightarrow> list_ex (\<lambda>r. r \<in> set CLIENT_VALIDATION_REASONS) (reasons j)
       | None \<Rightarrow> True)) \<or>
     list_ex (contains body) CLIENT_VALIDATION_MESSAGE_MARKERS"

section \<open>The endpoints\<close>

text \<open>The methods an endpoint may differ in; the classification is the same for both.\<close>

record kiro_endpoint =
  ep_name :: string
  ep_content_type :: string
  ep_api_url :: "request_context \<Rightarrow> string"
  ep_mcp_url :: "request_context \<Rightarrow> string"
  ep_decorate_api :: "request_context \<Rightarrow> string \<Rightarrow> headers"
  ep_decorate_mcp :: "request_context \<Rightarrow> string \<Rightarrow> headers"
  ep_transform_api_body :: "string \<Rightarrow> request_context \<Rightarrow> string option"
  ep_transform_mcp_body :: "string \<Rightarrow> request_context \<Rightarrow> string"

definition ide_endpoint :: "(string \<Rightarrow> json option) \<Rightarrow> (json \<Rightarrow> string) \<Rightarrow> kiro_endpoint" where
  "ide_endpoint parse print =
     \<lparr>ep_name = ''ide'', ep_content_type = ''application/json'',
      ep_api_url = (\<lambda>x. ''https://'' @ runtime_host x @ ''/generateAssistantResponse''),
      ep_mcp_url = (\<lambda>x. ''https://'' @ runtime_host x @ ''/mcp''),
      ep_decorate_api = ide_api_headers,
      ep_decorate_mcp = (\<lambda>x. mcp_headers (ide_x_amz_user_agent x) (ide_user_agent x) x),
      ep_transform_api_body = (\<lambda>body x.
        inject_profile_arn parse print body (streaming_profile_arn (rx_credentials x))),
      ep_transform_mcp_body = (\<lambda>body x. body)\<rparr>"

definition cli_endpoint :: "(string \<Rightarrow> json option) \<Rightarrow> (json \<Rightarrow> string) \<Rightarrow> kiro_endpoint" where
  "cli_endpoint parse print =
     \<lparr>ep_name = ''cli'', ep_content_type = ''application/x-amz-json-1.0'',
      ep_api_url = (\<lambda>x. ''https://'' @ runtime_host x @ ''/''),
      ep_mcp_url = (\<lambda>x. ''https://'' @ runtime_host x @ ''/mcp''),
      ep_decorate_api = cli_api_headers,
      ep_decorate_mcp = (\<lambda>x. mcp_headers (cli_x_amz_user_agent x) (cli_user_agent x) x),
      ep_transform_api_body = (\<lambda>body x.
        inject_profile_arn parse print (set_origin_kiro_cli parse print body)
          (streaming_profile_arn (rx_credentials x))),
      ep_transform_mcp_body = (\<lambda>body x. body)\<rparr>"

section \<open>Machine ids are stable\<close>

definition well_formed_machine_id :: "string \<Rightarrow> bool" where
  "well_formed_machine_id i \<longleftrightarrow> length i = 64 \<and> list_all is_ascii_hexdigit i"

lemma normalize_machine_id_ok: "normalize_machine_id i = Some j \<Longrightarrow> well_formed_machine_id j"
  by (auto simp: normalize_machine_id_def Let_def well_formed_machine_id_def split: if_splits)

lemma fallback_stable:
  assumes "fallback_machine_id sha seed c made = (i, made')" "map_of made' \<subseteq>\<^sub>m map_of later"
  shows "fallback_machine_id sha seed' c later = (i, later)"
proof -
  from assms(1) have "map_of made' (kc_id c) = Some i"
    by (auto simp: fallback_machine_id_def Let_def split: option.splits)
  with assms(2) have "map_of later (kc_id c) = Some i" by (auto simp: map_le_def dom_def)
  then show ?thesis by (simp add: fallback_machine_id_def)
qed

lemma fallback_ok:
  assumes "fallback_machine_id sha seed c made = (i, made')" "\<And>s. well_formed_machine_id (sha s)"
    "\<And>k x. map_of made k = Some x \<Longrightarrow> well_formed_machine_id x"
  shows "well_formed_machine_id i"
  using assms by (auto simp: fallback_machine_id_def Let_def split: option.splits)

text \<open>Every machine id is 64 hexadecimal digits, and a credential keeps the id it was given, whatever ids
  are made up for other credentials in between.\<close>

lemma machine_id_stable:
  assumes "generate_from_credentials sha seed config_id c made = (i, made')"
    and "map_of made' \<subseteq>\<^sub>m map_of later" and "\<And>s. well_formed_machine_id (sha s)"
    and "\<And>k x. map_of made k = Some x \<Longrightarrow> well_formed_machine_id x"
  shows "well_formed_machine_id i \<and> generate_from_credentials sha seed' config_id c later = (i, later)"
proof -
  have n: "configured_machine_id x = Some y \<Longrightarrow> well_formed_machine_id y" for x y
    by (cases x) (simp_all add: configured_machine_id_def normalize_machine_id_ok)
  show ?thesis
    using assms(1) n fallback_stable [OF _ assms(2)] fallback_ok [OF _ assms(3,4)] assms(3)
    by (auto simp: generate_from_credentials_def split: option.splits if_splits)
qed

section \<open>What the CLI endpoint sends\<close>

lemma map_of_obj_update [simp]: "map_of (obj_update k f m) = (map_of m)(k := map_option f (map_of m k))"
  by (induction m) (auto simp: obj_update_def fun_eq_iff)

lemma inject_profile_arn_object:
  assumes "\<And>j. parse (print j) = Some j" "parse body = Some (JObject m)"
  shows "\<exists>sent m'. inject_profile_arn parse print body arn = Some sent \<and> parse sent = Some (JObject m') \<and>
    map_of m' = (case arn of Some a \<Rightarrow> (map_of m)(''profileArn'' \<mapsto> JString a) | None \<Rightarrow> map_of m)"
  using assms by (simp add: inject_profile_arn_def split: option.split)

text \<open>A conversation loses its continuation id and the model ids of its history, gets the profile ARN, and
  is otherwise sent as it is.\<close>

lemma cli_request_body:
  assumes codec: "\<And>j. parse (print j) = Some j"
    and body: "parse (replace_all ''\"origin\":\"AI_EDITOR\"'' ''\"origin\":\"KIRO_CLI\"'' body) = Some (JObject m)"
    and state: "map_of m ''conversationState'' = Some (JObject state)"
  shows "\<exists>sent m' state'. ep_transform_api_body (cli_endpoint parse print) body x = Some sent \<and>
    parse sent = Some (JObject m') \<and> map_of m' ''conversationState'' = Some (JObject state') \<and>
    map_of state' ''agentContinuationId'' = None \<and>
    (\<forall>k. k \<noteq> ''agentContinuationId'' \<and> k \<noteq> ''history'' \<longrightarrow> map_of state' k = map_of state k) \<and>
    map_of state' ''history'' = map_option (on_array cli_history_message) (map_of state ''history'') \<and>
    map_of m' ''profileArn'' = (case streaming_profile_arn (rx_credentials x) of
      Some arn \<Rightarrow> Some (JString arn) | None \<Rightarrow> map_of m ''profileArn'')"
proof -
  let ?m = "obj_update ''conversationState'' (on_object cli_state) m"
  have "set_origin_kiro_cli parse print body = print (JObject ?m)"
    using body by (simp add: set_origin_kiro_cli_def cli_value_def on_object_def)
  then have "parse (set_origin_kiro_cli parse print body) = Some (JObject ?m)" using codec by simp
  from inject_profile_arn_object [OF codec this, of "streaming_profile_arn (rx_credentials x)"]
  obtain sent m' where "inject_profile_arn parse print (set_origin_kiro_cli parse print body)
        (streaming_profile_arn (rx_credentials x)) = Some sent" "parse sent = Some (JObject m')"
      "map_of m' = (case streaming_profile_arn (rx_credentials x) of
        Some a \<Rightarrow> (map_of ?m)(''profileArn'' \<mapsto> JString a) | None \<Rightarrow> map_of ?m)" by blast
  then show ?thesis
    using state
    by (intro exI [of _ sent] exI [of _ m'] exI [of _ "cli_state state"])
      (simp add: cli_endpoint_def on_object_def cli_state_def split: option.split)
qed

end
