(* ===== verification/UpstreamCalls.thy ===== *)
theory UpstreamCalls
  imports Endpoints AcquireContext RustStr
begin

text \<open>
  Calling the upstream (\<open>src/kiro/provider.rs\<close>): the cache of HTTP clients, the profile ARN of a
  credential, and the retry loops of model calls and MCP calls with everything an answer does to the
  credential pool. What an attempt meets outside is an \<open>attempt_world\<close>: the worlds of the token
  refreshes, the answers of the services, the clocks, and what other requests do to the pool while this
  one waits. Log lines are left out; the text of an error is kept where it is sent to the trace.
\<close>

section \<open>The cache of clients\<close>

definition MAX_RETRIES_PER_CREDENTIAL :: nat where "MAX_RETRIES_PER_CREDENTIAL = 3"
definition MAX_TOTAL_RETRIES :: nat where "MAX_TOTAL_RETRIES = 4"
definition CLIENT_CACHE_CAP :: nat where "CLIENT_CACHE_CAP = 64"

record 'c client_cache =
  cc_map :: "(proxy_config option \<times> 'c) list"
  cc_order :: "proxy_config option list"
  cc_protected :: "proxy_config option"
  cc_cap :: nat

definition new_client_cache :: "proxy_config option \<Rightarrow> 'c \<Rightarrow> nat \<Rightarrow> 'c client_cache" where
  "new_client_cache protected initial cap =
     \<lparr>cc_map = [(protected, initial)], cc_order = [], cc_protected = protected, cc_cap = cap\<rparr>"

definition get_client :: "proxy_config option \<Rightarrow> 'c client_cache \<Rightarrow> 'c option" where
  "get_client key cache = map_of (cc_map cache) key"

definition cache_global_proxy :: "proxy_config option \<Rightarrow> 'c client_cache \<Rightarrow> 'c client_cache" where
  "cache_global_proxy proxy cache =
     (if cc_protected cache \<noteq> proxy
      then cache\<lparr>cc_map := map_remove (cc_protected cache) (cc_map cache),
                 cc_order := filter (\<lambda>key. key \<noteq> proxy) (cc_order cache), cc_protected := proxy\<rparr>
      else cache)"

text \<open>The loop that makes room: the oldest keys go until there are fewer than \<open>cap\<close>, or none.\<close>

fun evict_clients ::
  "nat \<Rightarrow> proxy_config option list \<Rightarrow> (proxy_config option \<times> 'c) list \<Rightarrow>
   proxy_config option list \<times> (proxy_config option \<times> 'c) list"
where
  "evict_clients cap [] m = ([], m)"
| "evict_clients cap (key # order) m =
     (if cap \<le> length (key # order) then evict_clients cap order (map_remove key m) else (key # order, m))"

definition insert_client :: "proxy_config option \<Rightarrow> 'c \<Rightarrow> 'c client_cache \<Rightarrow> 'c client_cache" where
  "insert_client key client cache =
     (if key = cc_protected cache \<or> map_of (cc_map cache) key \<noteq> None
      then cache\<lparr>cc_map := map_insert key client (cc_map cache)\<rparr>
      else
        case evict_clients (cc_cap cache) (cc_order cache) (cc_map cache) of
          (order, m) \<Rightarrow> cache\<lparr>cc_order := order @ [key], cc_map := map_insert key client m\<rparr>)"

definition client_for ::
  "(proxy_config option \<Rightarrow> string + 'c) \<Rightarrow> proxy_config option \<Rightarrow> kiro_credentials \<Rightarrow> 'c client_cache \<Rightarrow>
   (string + 'c) \<times> 'c client_cache"
where
  "client_for build global_proxy c cache =
     (let cache = cache_global_proxy global_proxy cache;
          effective = effective_proxy global_proxy c in
      case get_client effective cache of
        Some client \<Rightarrow> (Inr client, cache)
      | None \<Rightarrow>
         (case build effective of
            Inl err \<Rightarrow> (Inl err, cache)
          | Inr client \<Rightarrow> (Inr client, insert_client effective client cache)))"

section \<open>Errors, traces and the state of a call\<close>

datatype call_kind = Streaming | NonStreaming | Mcp

text \<open>\<open>RequestFailed kind suspended status body\<close> is the message about a refused request;
  \<open>TransportFailed\<close> an error of the HTTP client; \<open>Panicked\<close> a panic, which unwinds the call.\<close>

datatype call_error =
    RateLimit upstream_rate_limit_error
  | NoCredentials
  | ContextOverflow
  | ModelUnavailable string
  | UpstreamTimeout
  | RequestFailed call_kind bool nat string
  | RetriesExhausted call_kind nat
  | TransportFailed string
  | OtherFailure string
  | Panicked

datatype trace_outcome =
    TraceSuccess | QuotaExhausted | AccountThrottled | AccountSuspended | AuthFailed | Transient
  | LocalRateLimited | NetworkError | BadRequest | UnknownOutcome

record trace_attempt =
  ta_attempt :: nat
  ta_credential :: u64
  ta_endpoint :: string
  ta_status :: "nat option"
  ta_outcome :: trace_outcome
  ta_error_snippet :: "string option"
  ta_duration_ms :: nat

datatype trace_event = OnAttempt trace_attempt | OnRoute "string option" route_decision

definition ERROR_SNIPPET_MAX :: nat where "ERROR_SNIPPET_MAX = 2048"

definition truncate_snippet :: "string \<Rightarrow> string option" where
  "truncate_snippet body =
     (let trimmed = trim body in
      if trimmed = [] then None
      else if length trimmed \<le> ERROR_SNIPPET_MAX then Some trimmed
      else Some (take (boundary_down trimmed ERROR_SNIPPET_MAX) trimmed
                 @ [CHR 0xE2, CHR 0x80, CHR 0xA6] @ ''(truncated)''))"

record 'c call_state =
  vs_manager :: manager
  vs_clients :: "'c client_cache"
  vs_profiled :: "u64 list"
  vs_machine_ids :: fallback_ids
  vs_forced :: "u64 list"
  vs_last_error :: "call_error option"
  vs_trace :: "trace_event list"

definition with_manager :: "(manager \<Rightarrow> manager) \<Rightarrow> 'c call_state \<Rightarrow> 'c call_state" where
  "with_manager f s = s\<lparr>vs_manager := f (vs_manager s)\<rparr>"

datatype 'r step = Return "call_error + 'r" | NextAttempt

section \<open>What is outside\<close>

text \<open>An answer: its status, the header \<open>Retry-After\<close> when it is a string, and its body, or the error
  of reading it and whether that was a timeout.\<close>

record answer =
  an_status :: nat
  an_retry_after :: "string option"
  an_body :: "bool \<times> string + string"

record http_request =
  hr_url :: string
  hr_headers :: headers
  hr_body :: string

datatype send_result = Unbuildable string | SendFailed bool string | Answered answer

record call_env =
  ve_fuel :: nat
  ve_endpoints :: "(string \<times> kiro_endpoint) list"
  ve_default_endpoint :: string
  ve_config :: gateway_config
  ve_sha :: "string \<Rightarrow> string"
  ve_parse :: "string \<Rightarrow> json option"
  ve_is_http_date :: "string \<Rightarrow> bool"

record 'c attempt_world =
  aw_acquire :: "nat \<Rightarrow> world"
  aw_list_profiles :: "proxy_config option \<Rightarrow> http_request \<Rightarrow> string + http_response"
  aw_parse_profiles :: "string \<Rightarrow> string option list option"
  aw_while_listing :: "manager \<Rightarrow> manager"
  aw_seed :: string
  aw_uuid :: "nat \<Rightarrow> string"
  aw_api_domain :: api_domain
  aw_build :: "proxy_config option \<Rightarrow> string + 'c"
  aw_send :: "'c \<Rightarrow> http_request \<Rightarrow> send_result"
  aw_while_sending :: "manager \<Rightarrow> manager"
  aw_env :: env
  aw_later :: instant
  aw_refresh :: world
  aw_random :: nat
  aw_while_sleeping :: "nat \<Rightarrow> manager \<Rightarrow> manager"
  aw_elapsed_ms :: nat

text \<open>What stays the same during a call.\<close>

record call =
  cl_kind :: call_kind
  cl_body :: string
  cl_model :: "string option"
  cl_session :: "string option"
  cl_group :: "string option"
  cl_traced :: bool
  cl_max_retries :: nat

definition emit_attempt ::
  "'c attempt_world \<Rightarrow> bool \<Rightarrow> nat \<Rightarrow> u64 \<Rightarrow> string \<Rightarrow> nat option \<Rightarrow> trace_outcome \<Rightarrow> string option \<Rightarrow>
   'c call_state \<Rightarrow> 'c call_state"
where
  "emit_attempt w traced k i endpoint status out error_body s =
     (if traced
      then s\<lparr>vs_trace := vs_trace s @ [OnAttempt
             \<lparr>ta_attempt = k, ta_credential = i, ta_endpoint = endpoint, ta_status = status,
              ta_outcome = out, ta_error_snippet = Option.bind error_body truncate_snippet,
              ta_duration_ms = aw_elapsed_ms w\<rparr>]\<rparr>
      else s)"

definition rate_limit_text :: "upstream_rate_limit_error \<Rightarrow> string" where
  "rate_limit_text e = (if re_local e then ''local per-account RPM limit reached'' else ''upstream rate limited'')"

section \<open>Profiles\<close>

definition USAGE_API_KIRO_VERSION :: string where "USAGE_API_KIRO_VERSION = ''0.9.2''"

definition rest_api_region_candidates :: "string \<Rightarrow> string list" where
  "rest_api_region_candidates sso_region =
     (if sso_region = ''eu-central-1'' \<or> starts_with sso_region ''eu-'' then [''eu-central-1'', ''us-east-1'']
      else [''us-east-1'', ''eu-central-1''])"

definition is_builder_id_unsupported :: "nat \<Rightarrow> string \<Rightarrow> bool" where
  "is_builder_id_unsupported status body \<longleftrightarrow>
     status = 403 \<and> contains body ''AWS Builder ID is not supported''"

definition first_arn :: "string option list \<Rightarrow> string option" where
  "first_arn profiles = List.find (\<lambda>arn. trim arn \<noteq> []) (List.map_filter id profiles)"

definition profile_request ::
  "gateway_config \<Rightarrow> kiro_credentials \<Rightarrow> string \<Rightarrow> string \<Rightarrow> string \<Rightarrow> string \<Rightarrow> http_request" where
  "profile_request g c token machine_id uuid region =
     (let host = ''q.'' @ region @ ''.amazonaws.com'' in
      \<lparr>hr_url = ''https://'' @ host @ ''/'',
       hr_headers =
         [(''content-type'', ''application/x-amz-json-1.0''),
          (''x-amz-target'', ''AmazonCodeWhispererService.ListAvailableProfiles''),
          (''x-amz-user-agent'',
            ''aws-sdk-js/1.0.0 KiroIDE-'' @ USAGE_API_KIRO_VERSION @ ''-'' @ machine_id),
          (''user-agent'',
            ''aws-sdk-js/1.0.0 ua/2.1 os/'' @ gc_system_version g @ '' lang/js md/nodejs#'' @ gc_node_version g
            @ '' api/codewhispererruntime#1.0.0 m/N,E KiroIDE-'' @ USAGE_API_KIRO_VERSION @ ''-'' @ machine_id),
          (''host'', host), (''amz-sdk-invocation-id'', uuid), (''amz-sdk-request'', ''attempt=1; max=1''),
          (''Authorization'', ''Bearer '' @ token), (''Connection'', ''close'')]
         @ optional_header ''tokentype'' (token_type_header c),
       hr_body = ''{\"maxResults\":10}''\<rparr>)"

text \<open>Errors other than a rate limit are only logged by the caller.\<close>

datatype profile_error = ProfileRateLimited upstream_rate_limit_error | ProfileFailed

fun list_profiles_loop ::
  "(string \<Rightarrow> bool) \<Rightarrow> (nat \<Rightarrow> string \<Rightarrow> string + http_response) \<Rightarrow> (string \<Rightarrow> string option list option) \<Rightarrow>
   nat \<Rightarrow> string list \<Rightarrow> bool \<Rightarrow> profile_error + string option"
where
  "list_profiles_loop is_http_date send parse_profiles k [] empty_seen =
     (if empty_seen then Inr None else Inl ProfileFailed)"
| "list_profiles_loop is_http_date send parse_profiles k (region # rest) empty_seen =
     (case send k region of
        Inl err \<Rightarrow> Inl ProfileFailed
      | Inr r \<Rightarrow>
          if is_success r
          then (case parse_profiles (rs_body r) of
                  None \<Rightarrow> Inl ProfileFailed
                | Some profiles \<Rightarrow>
                   (case first_arn profiles of
                      None \<Rightarrow> list_profiles_loop is_http_date send parse_profiles (Suc k) rest True
                    | Some arn \<Rightarrow> Inr (Some arn)))
          else if rs_status r = 429
          then Inl (ProfileRateLimited (rate_limit_error is_http_date (rs_retry_after r)))
          else if is_builder_id_unsupported (rs_status r) (rs_body r) then Inr None
          else list_profiles_loop is_http_date send parse_profiles (Suc k) rest empty_seen)"

text \<open>The first ARN of the list that \<open>list_available_profiles\<close> answers.\<close>

definition list_available_profiles ::
  "call_env \<Rightarrow> 'c attempt_world \<Rightarrow> kiro_credentials \<Rightarrow> string \<Rightarrow> proxy_config option \<Rightarrow> fallback_ids \<Rightarrow>
   (profile_error + string option) \<times> fallback_ids"
where
  "list_available_profiles v w c token proxy made =
     (let g = ve_config v;
          (machine_id, made) = generate_from_credentials (ve_sha v) (aw_seed w) (gc_machine_id g) c made in
      (list_profiles_loop (ve_is_http_date v)
         (\<lambda>k region. aw_list_profiles w proxy (profile_request g c token machine_id (aw_uuid w k) region))
         (aw_parse_profiles w) 0
         (rest_api_region_candidates (effective_auth_region (gc_regions g) c)) False, made))"

definition resolve_profile_arn_for ::
  "call_env \<Rightarrow> 'c attempt_world \<Rightarrow> u64 \<Rightarrow> string \<Rightarrow> fallback_ids \<Rightarrow> manager \<Rightarrow>
   (profile_error + string option) \<times> fallback_ids \<times> manager"
where
  "resolve_profile_arn_for v w i token made m =
     (case find_entry i m of
        None \<Rightarrow> (Inl ProfileFailed, made, m)
      | Some e \<Rightarrow>
         (let c = ce_credentials e in
          if is_api_key_credential c then (Inr None, made, m)
          else if (case kc_profile_arn c of Some arn \<Rightarrow> \<not> is_placeholder_profile_arn arn | None \<Rightarrow> False)
          then (Inr (kc_profile_arn c), made, m)
          else
           (case list_available_profiles v w c token (effective_proxy (m_proxy m) c) made of
              (Inl err, made) \<Rightarrow> (Inl err, made, aw_while_listing w m)
            | (Inr None, made) \<Rightarrow> (Inr None, made, aw_while_listing w m)
            | (Inr (Some arn), made) \<Rightarrow>
               (let m = update_entry i (\<lambda>e. e\<lparr>ce_credentials := (ce_credentials e)\<lparr>kc_profile_arn := Some arn\<rparr>\<rparr>)
                          (aw_while_listing w m) in
                (Inr (Some arn), made, snd (persist_credentials (aw_env w) m))))))"

text \<open>\<open>ensure_profile_arn\<close>: the context with the profile ARN, or the rate limit that ends the call.\<close>

definition needs_profile :: "kiro_credentials \<Rightarrow> bool" where
  "needs_profile c \<longleftrightarrow>
     \<not> is_api_key_credential c \<and>
     (case kc_profile_arn c of None \<Rightarrow> True | Some arn \<Rightarrow> is_placeholder_profile_arn arn)"

definition ensure_profile_arn ::
  "call_env \<Rightarrow> 'c attempt_world \<Rightarrow> call_context \<Rightarrow> 'c call_state \<Rightarrow>
   (upstream_rate_limit_error + call_context) \<times> 'c call_state"
where
  "ensure_profile_arn v w ctx s =
     (if \<not> needs_profile (cx_credentials ctx) \<or> cx_id ctx \<in> set (vs_profiled s) then (Inr ctx, s)
      else
        case resolve_profile_arn_for v w (cx_id ctx) (cx_token ctx) (vs_machine_ids s) (vs_manager s) of
          (result, made, m) \<Rightarrow>
           (let s = s\<lparr>vs_machine_ids := made, vs_manager := m\<rparr>;
                tried = s\<lparr>vs_profiled := List.insert (cx_id ctx) (vs_profiled s)\<rparr> in
            case result of
              Inr (Some arn) \<Rightarrow>
                (Inr (ctx\<lparr>cx_credentials := (cx_credentials ctx)\<lparr>kc_profile_arn := Some arn\<rparr>\<rparr>), tried)
            | Inr None \<Rightarrow> (Inr ctx, tried)
            | Inl (ProfileRateLimited e) \<Rightarrow> (Inl e, s)
            | Inl ProfileFailed \<Rightarrow> (Inr ctx, s)))"

section \<open>Waiting and rate limits\<close>

text \<open>An exponential delay with a little jitter, in milliseconds. With at most six doublings nothing
  saturates; \<open>rnd\<close> is the random number.\<close>

definition backoff_ms :: "nat \<Rightarrow> nat \<Rightarrow> nat \<Rightarrow> nat" where
  "backoff_ms base most k = min (base * 2 ^ min k 6) most"

definition with_jitter :: "nat \<Rightarrow> nat \<Rightarrow> nat" where
  "with_jitter backoff rnd = backoff + rnd mod (max (backoff div 4) 1 + 1)"

definition retry_delay :: "nat \<Rightarrow> nat \<Rightarrow> nat" where
  "retry_delay k rnd = with_jitter (backoff_ms 200 2000 k) rnd"

definition retry_delay_throttle :: "nat \<Rightarrow> nat \<Rightarrow> nat" where
  "retry_delay_throttle k rnd = with_jitter (backoff_ms 1000 8000 k) rnd"

datatype model_api_429_action = Failover | RetryCurrent | ReturnError

definition model_api_429_action :: "bool \<Rightarrow> bool \<Rightarrow> bool \<Rightarrow> model_api_429_action" where
  "model_api_429_action account_rate_limited failover_enabled ordinary_retry_enabled =
     (if account_rate_limited then if failover_enabled then Failover else ReturnError
      else if ordinary_retry_enabled then RetryCurrent else ReturnError)"

text \<open>The local delay is written in for an account limit without one from the upstream.\<close>

definition account_rate_limit_with_fallback ::
  "(string \<Rightarrow> bool) \<Rightarrow> upstream_rate_limit_error option \<Rightarrow> u64 \<Rightarrow> upstream_rate_limit_error" where
  "account_rate_limit_with_fallback is_http_date rate_limit cooldown_secs =
     (case rate_limit of
        Some e \<Rightarrow>
          if re_retry_after e \<noteq> None then e
          else rate_limit_error is_http_date (Some (decimal (unat cooldown_secs)))
      | None \<Rightarrow> rate_limit_error is_http_date (Some (decimal (unat cooldown_secs))))"

definition throttle_until :: "instant \<Rightarrow> entry \<Rightarrow> entry" where
  "throttle_until deadline e =
     e\<lparr>ce_throttled_until := Some (case ce_throttled_until e of
          Some prev \<Rightarrow> if deadline < prev then prev else deadline | None \<Rightarrow> deadline),
       ce_total_failure_count := ce_total_failure_count e + 1\<rparr>"

definition report_account_throttled_for_request ::
  "instant \<Rightarrow> instant \<Rightarrow> u64 \<Rightarrow> duration \<Rightarrow> string option \<Rightarrow> string option \<Rightarrow> manager \<Rightarrow> nat \<times> manager"
where
  "report_account_throttled_for_request now throttled_now i cooldown model grp m =
     (let m = update_entry i (throttle_until (now + cooldown)) m in
      (length (filter (\<lambda>e. \<not> ce_disabled e \<and> \<not> throttled throttled_now e \<and>
           group_matches (kc_groups (ce_credentials e)) grp \<and>
           cached_model_support m (ce_id e) model \<noteq> Unsupported) (m_entries m)), m))"

text \<open>Whether the token was refreshed; a rate limit goes to the client.\<close>

definition handle_force_refresh_result :: "ensure_error + unit \<Rightarrow> upstream_rate_limit_error + bool" where
  "handle_force_refresh_result r =
     (case r of
        Inr _ \<Rightarrow> Inr True
      | Inl (RefreshFailed (RefreshRateLimited e)) \<Rightarrow> Inl e
      | Inl _ \<Rightarrow> Inr False)"

section \<open>Steps of an attempt\<close>

text \<open>Every end of an attempt: give up with an error, or note the error and go on to the next one.\<close>

definition fail :: "call_error \<Rightarrow> 'c call_state \<Rightarrow> 'r step \<times> 'c call_state" where
  "fail err s = (Return (Inl err), s)"

definition next_attempt :: "call_error \<Rightarrow> 'c call_state \<Rightarrow> 'r step \<times> 'c call_state" where
  "next_attempt err s = (NextAttempt, s\<lparr>vs_last_error := Some err\<rparr>)"

text \<open>The next attempt after a pause, unless this was the last one.\<close>

definition pause_then_next ::
  "'c attempt_world \<Rightarrow> call \<Rightarrow> nat \<Rightarrow> nat \<Rightarrow> call_error \<Rightarrow> 'c call_state \<Rightarrow> 'r step \<times> 'c call_state" where
  "pause_then_next w cl k delay err s =
     next_attempt err
       (if k + 1 < cl_max_retries cl then with_manager (aw_while_sleeping w delay) s else s)"

text \<open>After a report that says whether any credential is left.\<close>

definition fail_over ::
  "(manager \<Rightarrow> bool \<times> manager) \<Rightarrow> call_error \<Rightarrow> 'c call_state \<Rightarrow> 'r step \<times> 'c call_state" where
  "fail_over report err s =
     (case report (vs_manager s) of
        (has_available, m) \<Rightarrow>
          if has_available then next_attempt err (s\<lparr>vs_manager := m\<rparr>)
          else fail NoCredentials (s\<lparr>vs_manager := m\<rparr>))"

text \<open>The only errors of \<open>acquire_context\<close> are a rate limit and an empty pool, so the branch for others
  is never taken.\<close>

definition acquire_failed ::
  "'c attempt_world \<Rightarrow> call \<Rightarrow> nat \<Rightarrow> acquire_error \<Rightarrow> 'c call_state \<Rightarrow> 'r step \<times> 'c call_state" where
  "acquire_failed w cl k err s =
     (case err of
        RateLimited e \<Rightarrow>
          fail (RateLimit e)
            (emit_attempt w (cl_traced cl) k 0 [] None
               (if re_local e then LocalRateLimited else Transient) (Some (rate_limit_text e)) s)
      | NoAvailableCredentials \<Rightarrow> fail NoCredentials s)"

definition endpoint_for :: "call_env \<Rightarrow> kiro_credentials \<Rightarrow> string + kiro_endpoint" where
  "endpoint_for v c =
     (let name = (case kc_endpoint c of Some n \<Rightarrow> n | None \<Rightarrow> ve_default_endpoint v) in
      case map_of (ve_endpoints v) name of
        Some ep \<Rightarrow> Inr ep
      | None \<Rightarrow>
          Inl ([CHR 0xE6, CHR 0x9C, CHR 0xAA, CHR 0xE7, CHR 0x9F, CHR 0xA5, CHR 0xE7, CHR 0xAB, CHR 0xAF,
                CHR 0xE7, CHR 0x82, CHR 0xB9] @ '': '' @ name))"

definition has_own_proxy :: "kiro_credentials \<Rightarrow> bool" where
  "has_own_proxy c \<longleftrightarrow> (case kc_proxy_url c of Some u \<Rightarrow> trim u \<noteq> [] | None \<Rightarrow> False)"

definition request_error :: "call \<Rightarrow> bool \<Rightarrow> answer \<Rightarrow> string \<Rightarrow> call_error" where
  "request_error cl suspended a body = RequestFailed (cl_kind cl) suspended (an_status a) body"

definition answered_success :: "answer \<Rightarrow> bool" where
  "answered_success a \<longleftrightarrow> 200 \<le> an_status a \<and> an_status a < 300"

definition server_error :: "answer \<Rightarrow> bool" where
  "server_error a \<longleftrightarrow> 500 \<le> an_status a \<and> an_status a < 600"

definition client_error :: "answer \<Rightarrow> bool" where
  "client_error a \<longleftrightarrow> 400 \<le> an_status a \<and> an_status a < 500"

definition rate_limit_of :: "call_env \<Rightarrow> answer \<Rightarrow> upstream_rate_limit_error option" where
  "rate_limit_of v a =
     (if an_status a = 429 then Some (rate_limit_error (ve_is_http_date v) (an_retry_after a)) else None)"

definition suspended_answer :: "call_env \<Rightarrow> string \<Rightarrow> manager \<Rightarrow> bool" where
  "suspended_answer v body m \<longleftrightarrow>
     m_suspended_detection_enabled m \<and>
     (is_account_suspended (ve_parse v) body \<or> matches_suspended_ban_keywords m body)"

text \<open>401 and 403: a token refused by the upstream is refreshed, once for each credential in a call;
  otherwise the credential has failed.\<close>

definition auth_failed ::
  "call_env \<Rightarrow> 'c attempt_world \<Rightarrow> call \<Rightarrow> call_context \<Rightarrow> answer \<Rightarrow> string \<Rightarrow> 'c call_state \<Rightarrow>
   'r step \<times> 'c call_state"
where
  "auth_failed v w cl ctx a body s =
     (let i = cx_id ctx;
          blame = fail_over (report_failure_for_request (aw_env w) i (cl_model cl) (cl_group cl))
                    (request_error cl False a body) in
      if is_bearer_token_invalid body \<and> i \<notin> set (vs_forced s)
      then
        case force_refresh_token_for (gc_regions (ve_config v)) (aw_refresh w) i (vs_manager s) of
          (r, m) \<Rightarrow>
           (let s = s\<lparr>vs_forced := i # vs_forced s, vs_manager := m\<rparr> in
            case handle_force_refresh_result r of
              Inl e \<Rightarrow> fail (RateLimit e) s
            | Inr True \<Rightarrow> (NextAttempt, s)
            | Inr False \<Rightarrow> blame s)
      else blame s)"

text \<open>An account limit: the credential cools down and another one is tried, if there is one.\<close>

definition cool_down ::
  "call_env \<Rightarrow> 'c attempt_world \<Rightarrow> call \<Rightarrow> call_context \<Rightarrow> answer \<Rightarrow> 'c call_state \<Rightarrow>
   call_error \<times> bool \<times> 'c call_state"
where
  "cool_down v w cl ctx a s =
     (let cooldown_secs = max (m_account_throttle_cooldown_secs (vs_manager s)) 1;
          (remaining, m) = report_account_throttled_for_request (env_now (aw_env w)) (aw_later w) (cx_id ctx)
             (from_secs cooldown_secs) (cl_model cl) (cl_group cl) (vs_manager s) in
      (RateLimit (account_rate_limit_with_fallback (ve_is_http_date v) (rate_limit_of v a) cooldown_secs),
       remaining \<noteq> 0, s\<lparr>vs_manager := m\<rparr>))"

definition account_throttled ::
  "call_env \<Rightarrow> 'c attempt_world \<Rightarrow> call \<Rightarrow> nat \<Rightarrow> call_context \<Rightarrow> kiro_endpoint \<Rightarrow> answer \<Rightarrow> string \<Rightarrow>
   'c call_state \<Rightarrow> 'r step \<times> 'c call_state"
where
  "account_throttled v w cl k ctx ep a body s =
     (case cool_down v w cl ctx a s of
        (err, others, s) \<Rightarrow>
         (let s = emit_attempt w (cl_traced cl) k (cx_id ctx) (ep_name ep) (Some 429) AccountThrottled
                    (Some body) s in
          if others then next_attempt err s else fail err s))"

text \<open>408, 429 and 5xx: the credential is kept, and the upstream's own delay goes to the client.\<close>

definition transient_answer ::
  "call_env \<Rightarrow> 'c attempt_world \<Rightarrow> call \<Rightarrow> nat \<Rightarrow> answer \<Rightarrow> string \<Rightarrow> 'c call_state \<Rightarrow> 'r step \<times> 'c call_state"
where
  "transient_answer v w cl k a body s =
     (let delay = (if an_status a = 429 then retry_delay_throttle k (aw_random w)
                   else retry_delay k (aw_random w)) in
      case rate_limit_of v a of
        Some e \<Rightarrow>
          if \<not> should_retry_locally e then fail (RateLimit e) s
          else pause_then_next w cl k delay (RateLimit e) s
      | None \<Rightarrow> pause_then_next w cl k delay (request_error cl False a body) s)"

section \<open>Model calls\<close>

definition note_answer ::
  "'c attempt_world \<Rightarrow> call \<Rightarrow> nat \<Rightarrow> call_context \<Rightarrow> kiro_endpoint \<Rightarrow> answer \<Rightarrow> trace_outcome \<Rightarrow> string \<Rightarrow>
   'c call_state \<Rightarrow> 'c call_state"
where
  "note_answer w cl k ctx ep a out text =
     emit_attempt w (cl_traced cl) k (cx_id ctx) (ep_name ep) (Some (an_status a)) out (Some text)"

text \<open>An answer that is neither about the quota nor about the account: 429 and everything after it.\<close>

definition api_retry_or_give_up ::
  "call_env \<Rightarrow> 'c attempt_world \<Rightarrow> call \<Rightarrow> nat \<Rightarrow> call_context \<Rightarrow> kiro_endpoint \<Rightarrow> answer \<Rightarrow> string \<Rightarrow>
   'c call_state \<Rightarrow> 'r step \<times> 'c call_state"
where
  "api_retry_or_give_up v w cl k ctx ep a body s =
     (let limited = is_account_rate_limited (ve_parse v) body;
          action = model_api_429_action limited (m_account_throttle_failover (vs_manager s))
                     (m_model_api_429_retry_enabled (vs_manager s));
          note = note_answer w cl k ctx ep a in
      if an_status a = 429 \<and> action = Failover then account_throttled v w cl k ctx ep a body s
      else if an_status a = 429 \<and> action = ReturnError
      then fail (RateLimit (case rate_limit_of v a of Some e \<Rightarrow> e | None \<Rightarrow> rate_limit_error (ve_is_http_date v) None))
             (note (if limited then AccountThrottled else Transient) body s)
      else if is_client_validation_error (ve_parse v) body
      then fail (request_error cl False a body) (note BadRequest body s)
      else if an_status a = 524 \<or> is_gateway_timeout body
      then fail (request_error cl False a body) (note Transient body s)
      else if an_status a \<in> {408, 429} \<or> server_error a
      then transient_answer v w cl k a body (note Transient body s)
      else if client_error a then fail (request_error cl False a body) (note BadRequest body s)
      else pause_then_next w cl k (retry_delay k (aw_random w)) (request_error cl False a body)
             (note UnknownOutcome body s))"

definition api_refused ::
  "call_env \<Rightarrow> 'c attempt_world \<Rightarrow> call \<Rightarrow> nat \<Rightarrow> call_context \<Rightarrow> kiro_endpoint \<Rightarrow> answer \<Rightarrow>
   'c call_state \<Rightarrow> 'r step \<times> 'c call_state"
where
  "api_refused v w cl k ctx ep a s =
     (let note = note_answer w cl k ctx ep a; i = cx_id ctx in
      case an_body a of
        Inl (timeout, text) \<Rightarrow>
          fail (if timeout then UpstreamTimeout else TransportFailed text) (note NetworkError text s)
      | Inr body \<Rightarrow>
          if server_error a \<and>
             Option.bind (ve_parse v body) reason_of = Some ''MODEL_TEMPORARILY_UNAVAILABLE''
          then fail (ModelUnavailable
                      (case re_retry_after (rate_limit_error (ve_is_http_date v) (an_retry_after a)) of
                         Some d \<Rightarrow> d | None \<Rightarrow> ''5''))
                 (note Transient body s)
          else if an_status a = 402 \<and> is_monthly_request_limit (ve_parse v) body
          then fail_over (report_quota_exhausted_for_request (aw_env w) i (cl_model cl) (cl_group cl))
                 (request_error cl False a body) (note QuotaExhausted body s)
          else if an_status a = 400
          then fail (if contains body ''CONTENT_LENGTH_EXCEEDS_THRESHOLD'' then ContextOverflow
                     else request_error cl False a body)
                 (note BadRequest body s)
          else if suspended_answer v body (vs_manager s)
          then fail_over (report_suspended_for_request (aw_env w) i (cl_model cl) (cl_group cl))
                 (request_error cl True a body) (note AccountSuspended body s)
          else if an_status a \<in> {401, 403}
          then auth_failed v w cl ctx a body (note AuthFailed body s)
          else api_retry_or_give_up v w cl k ctx ep a body s)"

text \<open>The result of a call; the guard stays with it until the reply has been read.\<close>

record call_result =
  kr_answer :: answer
  kr_credential :: u64
  kr_guard :: bool

definition bind_on_success :: "env \<Rightarrow> string option \<Rightarrow> u64 \<Rightarrow> manager \<Rightarrow> manager" where
  "bind_on_success env session i m =
     (case session of Some sid \<Rightarrow> manager_bind_session env sid i m | None \<Rightarrow> m)"

definition api_succeeded ::
  "'c attempt_world \<Rightarrow> call \<Rightarrow> nat \<Rightarrow> call_context \<Rightarrow> kiro_endpoint \<Rightarrow> answer \<Rightarrow> 'c call_state \<Rightarrow>
   call_result step \<times> 'c call_state"
where
  "api_succeeded w cl k ctx ep a s =
     (let s = emit_attempt w (cl_traced cl) k (cx_id ctx) (ep_name ep) (Some (an_status a)) TraceSuccess
                None s;
          s = with_manager (report_success_for_request (aw_env w) (cx_id ctx) (cl_model cl)) s;
          s = with_manager (bind_on_success (aw_env w) (cl_session cl) (cx_id ctx)) s in
      (Return (Inr \<lparr>kr_answer = a, kr_credential = cx_id ctx, kr_guard = cx_guard ctx\<rparr>), s))"

text \<open>A request that did not get an answer; behind a proxy of its own the credential is to blame.\<close>

definition send_failed ::
  "'c attempt_world \<Rightarrow> call \<Rightarrow> nat \<Rightarrow> call_context \<Rightarrow> string \<Rightarrow> 'c call_state \<Rightarrow> 'r step \<times> 'c call_state" where
  "send_failed w cl k ctx text s =
     pause_then_next w cl k (retry_delay k (aw_random w)) (TransportFailed text)
       (if has_own_proxy (cx_credentials ctx)
        then with_manager (\<lambda>m. snd (report_failure_for_request (aw_env w) (cx_id ctx) (cl_model cl) (cl_group cl) m)) s
        else s)"

definition BUILD_FAILED :: string where
  "BUILD_FAILED =
     [CHR 0xE6, CHR 0x9E, CHR 0x84, CHR 0xE5, CHR 0xBB, CHR 0xBA, CHR 0xE8, CHR 0xAF, CHR 0xB7,
      CHR 0xE6, CHR 0xB1, CHR 0x82, CHR 0xE5, CHR 0xA4, CHR 0xB1, CHR 0xE8, CHR 0xB4, CHR 0xA5] @ '': ''"

definition api_exchange ::
  "call_env \<Rightarrow> 'c attempt_world \<Rightarrow> call \<Rightarrow> nat \<Rightarrow> call_context \<Rightarrow> kiro_endpoint \<Rightarrow> request_context \<Rightarrow>
   'c call_state \<Rightarrow> call_result step \<times> 'c call_state"
where
  "api_exchange v w cl k ctx ep x s =
     (case ep_transform_api_body ep (cl_body cl) x of
        None \<Rightarrow> fail Panicked s
      | Some body \<Rightarrow>
         (case client_for (aw_build w) (m_proxy (vs_manager s)) (cx_credentials ctx) (vs_clients s) of
            (Inl text, clients) \<Rightarrow> fail (OtherFailure text) (s\<lparr>vs_clients := clients\<rparr>)
          | (Inr client, clients) \<Rightarrow>
             (let s = s\<lparr>vs_clients := clients\<rparr>;
                  request = \<lparr>hr_url = ep_api_url ep x,
                    hr_headers = (''content-type'', ep_content_type ep) # ep_decorate_api ep x (aw_uuid w 2),
                    hr_body = body\<rparr> in
              case aw_send w client request of
                Unbuildable text \<Rightarrow> fail (OtherFailure (BUILD_FAILED @ text)) s
              | SendFailed timeout text \<Rightarrow>
                 (let s = emit_attempt w (cl_traced cl) k (cx_id ctx) (ep_name ep) None NetworkError
                            (Some text) (with_manager (aw_while_sending w) s) in
                  if timeout then fail UpstreamTimeout s else send_failed w cl k ctx text s)
              | Answered a \<Rightarrow>
                 (let s = with_manager (aw_while_sending w) s in
                  if answered_success a then api_succeeded w cl k ctx ep a s
                  else api_refused v w cl k ctx ep a s))))"

text \<open>What both kinds of calls do between the choice of the credential and the exchange.\<close>

definition make_context ::
  "call_env \<Rightarrow> 'c attempt_world \<Rightarrow> call_context \<Rightarrow> 'c call_state \<Rightarrow> request_context \<times> 'c call_state" where
  "make_context v w ctx s =
     (case generate_from_credentials (ve_sha v) (aw_seed w) (gc_machine_id (ve_config v)) (cx_credentials ctx)
             (vs_machine_ids s) of
        (machine_id, made) \<Rightarrow>
          (\<lparr>rx_credentials = cx_credentials ctx, rx_token = cx_token ctx, rx_machine_id = machine_id,
            rx_config = ve_config v, rx_api_domain = aw_api_domain w\<rparr>, s\<lparr>vs_machine_ids := made\<rparr>))"

definition with_endpoint ::
  "call_env \<Rightarrow> 'c attempt_world \<Rightarrow> call \<Rightarrow> nat \<Rightarrow> call_context \<Rightarrow>
   (call_context \<Rightarrow> kiro_endpoint \<Rightarrow> request_context \<Rightarrow> 'c call_state \<Rightarrow> 'r step \<times> 'c call_state) \<Rightarrow>
   'c call_state \<Rightarrow> 'r step \<times> 'c call_state"
where
  "with_endpoint v w cl k ctx exchange s =
     (case ensure_profile_arn v w ctx s of
        (Inl e, s) \<Rightarrow>
          fail (RateLimit e) (emit_attempt w (cl_traced cl) k (cx_id ctx) [] None Transient
            (Some (rate_limit_text e)) s)
      | (Inr ctx, s) \<Rightarrow>
         (case make_context v w ctx s of
            (x, s) \<Rightarrow>
             (case endpoint_for v (cx_credentials ctx) of
                Inl text \<Rightarrow>
                  next_attempt (OtherFailure text)
                    (with_manager (\<lambda>m. snd (report_failure_for_request (aw_env w) (cx_id ctx) (cl_model cl)
                        (cl_group cl) m))
                      (emit_attempt w (cl_traced cl) k (cx_id ctx) [] None UnknownOutcome (Some text) s))
              | Inr ep \<Rightarrow> exchange ctx ep x s)))"

text \<open>The context is dropped at the end of an attempt, and its guard with it, unless the result has it.\<close>

definition end_of_attempt :: "call_context \<Rightarrow> 'r step \<times> 'c call_state \<Rightarrow> 'r step option \<times> 'c call_state" where
  "end_of_attempt ctx rs =
     (case rs of
        (Return (Inr r), s) \<Rightarrow> (Some (Return (Inr r)), s)
      | (r, s) \<Rightarrow> (Some r, with_manager (drop_guard (cx_guard ctx) (cx_id ctx)) s))"

text \<open>Only the first choice of a call counts for the sticky sessions.\<close>

definition note_route :: "call \<Rightarrow> nat \<Rightarrow> route_decision \<Rightarrow> 'c call_state \<Rightarrow> 'c call_state" where
  "note_route cl k route s =
     (if k \<noteq> 0 then s
      else
        let s = with_manager (record_route route) s in
        if cl_traced cl then s\<lparr>vs_trace := vs_trace s @ [OnRoute (cl_session cl) route]\<rparr> else s)"

definition api_attempt ::
  "call_env \<Rightarrow> 'c attempt_world \<Rightarrow> call \<Rightarrow> nat \<Rightarrow> 'c call_state \<Rightarrow> call_result step option \<times> 'c call_state"
where
  "api_attempt v w cl k s =
     (case acquire_context_impl (ve_fuel v) (gc_regions (ve_config v)) (aw_acquire w) (cl_model cl) (cl_group cl)
             (cl_session cl) True (vs_manager s) of
        (None, m) \<Rightarrow> (None, s\<lparr>vs_manager := m\<rparr>)
      | (Some (Inl err), m) \<Rightarrow>
         (case acquire_failed w cl k err (s\<lparr>vs_manager := m\<rparr>) of (r, s) \<Rightarrow> (Some r, s))
      | (Some (Inr (ctx, _, route)), m) \<Rightarrow>
          end_of_attempt ctx
            (with_endpoint v w cl k ctx (\<lambda>ctx ep x. api_exchange v w cl k ctx ep x)
              (note_route cl k route (s\<lparr>vs_manager := m\<rparr>))))"

text \<open>The loop over the attempts; \<open>n\<close> of them are left.\<close>

fun attempts_loop ::
  "(nat \<Rightarrow> 'c call_state \<Rightarrow> 'r step option \<times> 'c call_state) \<Rightarrow> call \<Rightarrow> nat \<Rightarrow> nat \<Rightarrow> 'c call_state \<Rightarrow>
   (call_error + 'r) option \<times> 'c call_state"
where
  "attempts_loop run cl 0 k s =
     (Some (Inl (case vs_last_error s of Some e \<Rightarrow> e | None \<Rightarrow> RetriesExhausted (cl_kind cl) (cl_max_retries cl))), s)"
| "attempts_loop run cl (Suc n) k s =
     (case run k s of
        (None, s) \<Rightarrow> (None, s)
      | (Some (Return r), s) \<Rightarrow> (Some r, s)
      | (Some NextAttempt, s) \<Rightarrow> attempts_loop run cl n (Suc k) s)"

definition max_retries_of :: "string option \<Rightarrow> manager \<Rightarrow> nat" where
  "max_retries_of grp m =
     min (max (total_count_in_group grp m) 1 * MAX_RETRIES_PER_CREDENTIAL) MAX_TOTAL_RETRIES"

definition extract_routing_hints :: "(string \<Rightarrow> json option) \<Rightarrow> string \<Rightarrow> string option \<times> string option" where
  "extract_routing_hints parse body =
     (case Option.bind (parse body) (\<lambda>j. json_get j ''conversationState'') of
        None \<Rightarrow> (None, None)
      | Some state \<Rightarrow>
          (Option.bind (json_get state ''currentMessage'') (\<lambda>j.
             Option.bind (json_get j ''userInputMessage'') (\<lambda>j. Option.bind (json_get j ''modelId'') as_str)),
           Option.bind (json_get state ''conversationId'') (\<lambda>j.
             Option.bind (as_str j) (\<lambda>t. if trim t = [] then None else Some (trim t)))))"

definition fresh_call :: "'c call_state \<Rightarrow> 'c call_state" where
  "fresh_call s = s\<lparr>vs_forced := [], vs_last_error := None, vs_trace := []\<rparr>"

definition call_api_with_retry ::
  "call_env \<Rightarrow> (nat \<Rightarrow> 'c attempt_world) \<Rightarrow> string \<Rightarrow> bool \<Rightarrow> bool \<Rightarrow> string option \<Rightarrow> 'c call_state \<Rightarrow>
   (call_error + call_result) option \<times> 'c call_state"
where
  "call_api_with_retry v ws body is_stream traced grp s =
     (let max_retries = max_retries_of grp (vs_manager s);
          (model, session) = extract_routing_hints (ve_parse v) body;
          cl = \<lparr>cl_kind = (if is_stream then Streaming else NonStreaming), cl_body = body, cl_model = model,
                cl_session = session, cl_group = grp, cl_traced = traced, cl_max_retries = max_retries\<rparr> in
      attempts_loop (\<lambda>k. api_attempt v (ws k) cl k) cl max_retries 0 (fresh_call s))"

section \<open>MCP calls\<close>

record mcp_result =
  mr_answer :: answer
  mr_guard :: bool
  mr_credential :: u64
  mr_endpoint :: string
  mr_attempt :: nat

definition mcp_refused ::
  "call_env \<Rightarrow> 'c attempt_world \<Rightarrow> call \<Rightarrow> nat \<Rightarrow> call_context \<Rightarrow> kiro_endpoint \<Rightarrow> answer \<Rightarrow>
   'c call_state \<Rightarrow> 'r step \<times> 'c call_state"
where
  "mcp_refused v w cl k ctx ep a s =
     (let note = note_answer w cl k ctx ep a; i = cx_id ctx;
          body = (case an_body a of Inl _ \<Rightarrow> [] | Inr body \<Rightarrow> body) in
      if an_status a = 402 \<and> is_monthly_request_limit (ve_parse v) body
      then fail_over (report_quota_exhausted_for_request (aw_env w) i None (cl_group cl))
             (request_error cl False a body) (note QuotaExhausted body s)
      else if an_status a = 400 then fail (request_error cl False a body) (note BadRequest body s)
      else if suspended_answer v body (vs_manager s)
      then fail_over (report_suspended_for_request (aw_env w) i None (cl_group cl))
             (request_error cl True a body) (note AccountSuspended body s)
      else if an_status a \<in> {401, 403}
      then auth_failed v w cl ctx a body (note AuthFailed body s)
      else if an_status a = 429 \<and> m_account_throttle_failover (vs_manager s) \<and>
              is_account_rate_limited (ve_parse v) body
      then account_throttled v w cl k ctx ep a body s
      else if an_status a \<in> {408, 429} \<or> server_error a
      then transient_answer v w cl k a body (note Transient body s)
      else if client_error a then fail (request_error cl False a body) (note BadRequest body s)
      else pause_then_next w cl k (retry_delay k (aw_random w)) (request_error cl False a body)
             (note UnknownOutcome body s))"

definition mcp_exchange ::
  "call_env \<Rightarrow> 'c attempt_world \<Rightarrow> call \<Rightarrow> nat \<Rightarrow> call_context \<Rightarrow> kiro_endpoint \<Rightarrow> request_context \<Rightarrow>
   'c call_state \<Rightarrow> mcp_result step \<times> 'c call_state"
where
  "mcp_exchange v w cl k ctx ep x s =
     (case client_for (aw_build w) (m_proxy (vs_manager s)) (cx_credentials ctx) (vs_clients s) of
        (Inl text, clients) \<Rightarrow>
          fail (OtherFailure text)
            (emit_attempt w (cl_traced cl) k (cx_id ctx) (ep_name ep) None NetworkError (Some text)
              (s\<lparr>vs_clients := clients\<rparr>))
      | (Inr client, clients) \<Rightarrow>
         (let s = s\<lparr>vs_clients := clients\<rparr>;
              request = \<lparr>hr_url = ep_mcp_url ep x,
                hr_headers = (''content-type'', ep_content_type ep) # ep_decorate_mcp ep x (aw_uuid w 2),
                hr_body = ep_transform_mcp_body ep (cl_body cl) x\<rparr>;
              unsent = (\<lambda>text s. send_failed w cl k ctx text
                (emit_attempt w (cl_traced cl) k (cx_id ctx) (ep_name ep) None NetworkError (Some text) s)) in
          case aw_send w client request of
            Unbuildable text \<Rightarrow> unsent text s
          | SendFailed timeout text \<Rightarrow> unsent text (with_manager (aw_while_sending w) s)
          | Answered a \<Rightarrow>
             (let s = with_manager (aw_while_sending w) s in
              if answered_success a
              then (Return (Inr \<lparr>mr_answer = a, mr_guard = cx_guard ctx, mr_credential = cx_id ctx,
                      mr_endpoint = ep_name ep, mr_attempt = k\<rparr>), s)
              else mcp_refused v w cl k ctx ep a s)))"

definition mcp_attempt ::
  "call_env \<Rightarrow> 'c attempt_world \<Rightarrow> call \<Rightarrow> nat \<Rightarrow> 'c call_state \<Rightarrow> mcp_result step option \<times> 'c call_state"
where
  "mcp_attempt v w cl k s =
     (case acquire_context_impl (ve_fuel v) (gc_regions (ve_config v)) (aw_acquire w) None (cl_group cl)
             None True (vs_manager s) of
        (None, m) \<Rightarrow> (None, s\<lparr>vs_manager := m\<rparr>)
      | (Some (Inl err), m) \<Rightarrow>
         (case acquire_failed w cl k err (s\<lparr>vs_manager := m\<rparr>) of (r, s) \<Rightarrow> (Some r, s))
      | (Some (Inr (ctx, _, _)), m) \<Rightarrow>
          end_of_attempt ctx
            (with_endpoint v w cl k ctx (\<lambda>ctx ep x. mcp_exchange v w cl k ctx ep x)
              (s\<lparr>vs_manager := m\<rparr>)))"

definition call_mcp_with_retry ::
  "call_env \<Rightarrow> (nat \<Rightarrow> 'c attempt_world) \<Rightarrow> string \<Rightarrow> bool \<Rightarrow> string option \<Rightarrow> 'c call_state \<Rightarrow>
   (call_error + mcp_result) option \<times> 'c call_state"
where
  "call_mcp_with_retry v ws body traced grp s =
     (let max_retries = max_retries_of grp (vs_manager s);
          cl = \<lparr>cl_kind = Mcp, cl_body = body, cl_model = None, cl_session = None, cl_group = grp,
                cl_traced = traced, cl_max_retries = max_retries\<rparr> in
      attempts_loop (\<lambda>k. mcp_attempt v (ws k) cl k) cl max_retries 0 (fresh_call s))"

text \<open>\<open>call_mcp\<close>: \<open>env\<close> has the clocks of the report.\<close>

definition call_mcp ::
  "call_env \<Rightarrow> (nat \<Rightarrow> 'c attempt_world) \<Rightarrow> env \<Rightarrow> string \<Rightarrow> string option \<Rightarrow> 'c call_state \<Rightarrow>
   (call_error + call_result) option \<times> 'c call_state"
where
  "call_mcp v ws env body grp s =
     (case call_mcp_with_retry v ws body False grp s of
        (Some (Inr r), s) \<Rightarrow>
          (Some (Inr \<lparr>kr_answer = mr_answer r, kr_credential = mr_credential r, kr_guard = mr_guard r\<rparr>),
           with_manager (report_success_for_request env (mr_credential r) None) s)
      | (Some (Inl e), s) \<Rightarrow> (Some (Inl e), s)
      | (None, s) \<Rightarrow> (None, s))"

text \<open>\<open>call_mcp_with_trace\<close>: the body is read and validated before the attempt is recorded. \<open>validate\<close>
  and \<open>is_benign_error\<close> are the caller's; an error is its text. \<open>w\<close> is the world after the answer, of
  which only the clocks are used. The guard is dropped at the end.\<close>

definition mcp_validation_outcome :: "string + 't \<Rightarrow> (string \<Rightarrow> bool) \<Rightarrow> trace_outcome" where
  "mcp_validation_outcome validation is_benign_error =
     (case validation of
        Inr _ \<Rightarrow> TraceSuccess
      | Inl e \<Rightarrow> if is_benign_error e then TraceSuccess else UnknownOutcome)"

definition finish_mcp_trace ::
  "'c attempt_world \<Rightarrow> (string \<Rightarrow> string + 't) \<Rightarrow> (string \<Rightarrow> bool) \<Rightarrow> mcp_result \<Rightarrow> 'c call_state \<Rightarrow>
   (call_error + 't) \<times> 'c call_state"
where
  "finish_mcp_trace w validate is_benign_error r s =
     (let note = emit_attempt w True (mr_attempt r) (mr_credential r) (mr_endpoint r)
                   (Some (an_status (mr_answer r))) in
      case an_body (mr_answer r) of
        Inl (_, text) \<Rightarrow> (Inl (TransportFailed text), note NetworkError (Some text) s)
      | Inr body \<Rightarrow>
         (let validation = validate body;
              out = mcp_validation_outcome validation is_benign_error;
              text = (case validation of
                        Inl e \<Rightarrow> if out \<noteq> TraceSuccess then Some (e @ '': '' @ body) else None
                      | Inr _ \<Rightarrow> None);
              s = note out text s in
          (case validation of Inl e \<Rightarrow> Inl (OtherFailure e) | Inr t \<Rightarrow> Inr t,
           if out = TraceSuccess
           then with_manager (report_success_for_request (aw_env w) (mr_credential r) None) s else s)))"

definition call_mcp_with_trace ::
  "call_env \<Rightarrow> (nat \<Rightarrow> 'c attempt_world) \<Rightarrow> 'c attempt_world \<Rightarrow> (string \<Rightarrow> string + 't) \<Rightarrow> (string \<Rightarrow> bool) \<Rightarrow>
   string \<Rightarrow> string option \<Rightarrow> 'c call_state \<Rightarrow> (call_error + 't) option \<times> 'c call_state"
where
  "call_mcp_with_trace v ws w validate is_benign_error body grp s =
     (case call_mcp_with_retry v ws body True grp s of
        (Some (Inr r), s) \<Rightarrow>
         (case finish_mcp_trace w validate is_benign_error r s of
            (t, s) \<Rightarrow> (Some t, with_manager (drop_guard (mr_guard r) (mr_credential r)) s))
      | (Some (Inl e), s) \<Rightarrow> (Some (Inl e), s)
      | (None, s) \<Rightarrow> (None, s))"

end
