(* ===== verification/UpstreamSafety.thy ===== *)
theory UpstreamSafety
  imports UpstreamCalls AcquireTermination
begin

text \<open>
  What calling the upstream does to the credential pool. The operations of the pool that a call uses are
  the locales \<open>pool_upkeep\<close> and \<open>pool_relation\<close>: a relation between managers that each of them
  respects is respected by every exchange, whatever the answer. They are interpreted with the counters of
  requests in flight here and with the standing of the credentials in \<open>UpstreamBans\<close>.
\<close>

section \<open>Relations that the operations of the pool respect\<close>

text \<open>What others do while the request waits respects the relation.\<close>

definition harmless :: "(manager \<Rightarrow> manager \<Rightarrow> bool) \<Rightarrow> (manager \<Rightarrow> manager) \<Rightarrow> bool" where
  "harmless keeps f \<longleftrightarrow> (\<forall>m. keeps m (f m))"

definition undisturbed :: "(manager \<Rightarrow> manager \<Rightarrow> bool) \<Rightarrow> 'c attempt_world \<Rightarrow> bool" where
  "undisturbed keeps w \<longleftrightarrow> harmless keeps (aw_while_listing w) \<and> harmless keeps (aw_while_sending w) \<and>
     (\<forall>d. harmless keeps (aw_while_sleeping w d)) \<and> harmless keeps (w_wait (aw_refresh w)) \<and>
     harmless keeps (w_exchange (aw_refresh w))"

lemma emit_manager [simp]: "vs_manager (emit_attempt w traced k i endpoint st out text s) = vs_manager s"
  by (simp add: emit_attempt_def)

lemma note_answer_manager [simp]: "vs_manager (note_answer w cl k ctx ep a out text s) = vs_manager s"
  by (simp add: note_answer_def)

lemma with_manager_select [simp]: "vs_manager (with_manager f s) = f (vs_manager s)"
  by (simp add: with_manager_def)

locale pool_upkeep =
  fixes keeps :: "manager \<Rightarrow> manager \<Rightarrow> bool"
  assumes refl: "keeps m m"
    and trans: "keeps m m1 \<Longrightarrow> keeps m1 m2 \<Longrightarrow> keeps m m2"
    and credentials: "(\<And>e. \<exists>c n. f e = e\<lparr>ce_credentials := c, ce_refresh_failure_count := n\<rparr>) \<Longrightarrow>
      keeps m (update_entry i f m)"
    and persist: "keeps m (snd (persist_credentials env m))"
    and model_cache: "keeps m (invalidate_model_cache i m)"
    and affinity: "keeps m (m\<lparr>m_session_affinity := a\<rparr>)"
begin

lemma harmlessD: "harmless keeps f \<Longrightarrow> keeps m (f m)"
  by (simp add: harmless_def)

lemma refreshed:
  assumes "harmless keeps (w_wait w)" "harmless keeps (w_exchange w)"
  shows "keeps m (snd (force_refresh_token_for g w i m))"
proof -
  let ?m1 = "w_wait w m" let ?m2 = "w_exchange w ?m1"
  have 1: "keeps m ?m1" "keeps m ?m2" using assms trans harmlessD by blast+
  have 2: "keeps m (snd (persist_credentials env (invalidate_model_cache i (update_entry i
      (\<lambda>e. e\<lparr>ce_credentials := c, ce_refresh_failure_count := 0\<rparr>) ?m2))))" for env c
    by (rule trans [OF trans [OF trans [OF 1(2) credentials] model_cache] persist]) blast
  show ?thesis
    using 1 2 by (auto simp: force_refresh_token_for_def Let_def split: option.split sum.split)
qed

text \<open>\<open>kept s rs\<close>: the state of the result \<open>rs\<close> is related to \<open>s\<close>.\<close>

definition kept :: "'c call_state \<Rightarrow> 'x \<times> 'c call_state \<Rightarrow> bool" where
  "kept s rs \<longleftrightarrow> keeps (vs_manager s) (vs_manager (snd rs))"

lemma kept_simps [simp]:
  "kept s (fail err s') \<longleftrightarrow> keeps (vs_manager s) (vs_manager s')"
  "kept s (next_attempt err s') \<longleftrightarrow> keeps (vs_manager s) (vs_manager s')"
  "kept s (x, s') \<longleftrightarrow> keeps (vs_manager s) (vs_manager s')"
  by (simp_all add: kept_def fail_def next_attempt_def)

lemma kept_ensure_profile:
  assumes "undisturbed keeps w"
  shows "kept s (ensure_profile_arn v w ctx s)"
proof -
  have l: "keeps m (aw_while_listing w m)" for m using assms by (simp add: undisturbed_def harmless_def)
  have u: "keeps m (snd (persist_credentials env (update_entry i
      (\<lambda>e. e\<lparr>ce_credentials := (ce_credentials e)\<lparr>kc_profile_arn := Some arn\<rparr>\<rparr>) (aw_while_listing w m))))" for m env i arn
  proof (rule trans [OF trans [OF l credentials] persist])
    fix e :: entry
    show "\<exists>c n. e\<lparr>ce_credentials := (ce_credentials e)\<lparr>kc_profile_arn := Some arn\<rparr>\<rparr>
        = e\<lparr>ce_credentials := c, ce_refresh_failure_count := n\<rparr>"
      by (intro exI [of _ "(ce_credentials e)\<lparr>kc_profile_arn := Some arn\<rparr>"] exI [of _ "ce_refresh_failure_count e"])
        simp
  qed
  have "keeps m (snd (snd (resolve_profile_arn_for v w i token made m)))" for i token made m
    using l u refl by (auto simp: resolve_profile_arn_for_def Let_def split: option.split prod.split sum.split)
  then have "resolve_profile_arn_for v w i token made m = (r, made', m') \<Longrightarrow> keeps m m'" for i token made m r made' m'
    by (metis snd_conv)
  then show ?thesis
    using refl
    by (auto simp: ensure_profile_arn_def Let_def split: prod.split sum.split option.split profile_error.split)
qed

lemma kept_note_route: "keeps (vs_manager s) (vs_manager (note_route cl k route s))"
  by (simp add: note_route_def record_route_def Let_def refl affinity)

end

text \<open>The reports about an answer come on top.\<close>

locale pool_relation = pool_upkeep +
  assumes success: "keeps m (report_success_for_request env i model m)"
    and failure: "keeps m (snd (report_failure_for_request env i model grp m))"
    and shut_down: "keeps m (snd (report_shut_down env r i model grp m))"
    and throttle: "keeps m (update_entry i (throttle_until deadline) m)"
begin

lemma kept_pause:
  assumes "undisturbed keeps w" "keeps (vs_manager s) (vs_manager s')"
  shows "kept s (pause_then_next w cl k delay err s')"
  using assms trans by (auto simp: pause_then_next_def undisturbed_def harmless_def)

lemma kept_fail_over:
  assumes "keeps (vs_manager s) (vs_manager s')" "\<And>m. keeps m (snd (report m))"
  shows "kept s (fail_over report err s')"
  using trans [OF assms(1) assms(2) [of "vs_manager s'"]]
  by (cases "report (vs_manager s')") (auto simp: fail_over_def)

lemma kept_auth_failed:
  assumes "undisturbed keeps w" "keeps (vs_manager s) (vs_manager s')"
  shows "kept s (auth_failed v w cl ctx a body s')"
proof -
  obtain r m where f: "force_refresh_token_for (gc_regions (ve_config v)) (aw_refresh w) (cx_id ctx) (vs_manager s') = (r, m)"
    by fastforce
  from assms(1) have "keeps (vs_manager s') m"
    using refreshed [of "aw_refresh w" "vs_manager s'" "gc_regions (ve_config v)" "cx_id ctx"] f
    by (simp add: undisturbed_def)
  then have m: "keeps (vs_manager s) m" using assms(2) trans by blast
  have blame: "kept s (fail_over (report_failure_for_request (aw_env w) (cx_id ctx) (cl_model cl) (cl_group cl)) err s2)"
    if "keeps (vs_manager s) (vs_manager s2)" for err s2
    using that failure by (rule kept_fail_over)
  show ?thesis
    using m blame assms(2) by (auto simp: auth_failed_def Let_def f split: sum.split bool.split)
qed

lemma kept_account_throttled:
  assumes "keeps (vs_manager s) (vs_manager s')"
  shows "kept s (account_throttled v w cl k ctx ep a body s')"
  using trans [OF assms throttle]
  by (auto simp: account_throttled_def cool_down_def report_account_throttled_for_request_def Let_def)

lemma kept_transient:
  assumes "undisturbed keeps w" "keeps (vs_manager s) (vs_manager s')"
  shows "kept s (transient_answer v w cl k a body s')"
  using assms by (auto simp: transient_answer_def Let_def intro: kept_pause split: option.split)

lemma kept_send_failed:
  assumes "undisturbed keeps w" "keeps (vs_manager s) (vs_manager s')"
  shows "kept s (send_failed w cl k ctx text s')"
  unfolding send_failed_def using assms failure trans by (auto intro!: kept_pause)

lemmas kept_intros = kept_pause kept_fail_over kept_auth_failed kept_account_throttled kept_transient
  kept_send_failed

lemma kept_api_refused:
  assumes "undisturbed keeps w" "keeps (vs_manager s) (vs_manager s')"
  shows "kept s (api_refused v w cl k ctx ep a s')"
proof -
  have r: "kept s (api_retry_or_give_up v w cl k ctx ep a body s')" for body
    using assms by (auto simp: api_retry_or_give_up_def Let_def intro!: kept_intros)
  show ?thesis
    using assms r shut_down
    by (auto simp: api_refused_def Let_def report_quota_exhausted_for_request_def
        report_suspended_for_request_def intro!: kept_intros split: sum.split)
qed

lemma kept_mcp_refused:
  assumes "undisturbed keeps w" "keeps (vs_manager s) (vs_manager s')"
  shows "kept s (mcp_refused v w cl k ctx ep a s')"
  using assms shut_down
  by (auto simp: mcp_refused_def Let_def report_quota_exhausted_for_request_def
      report_suspended_for_request_def intro!: kept_intros)

lemma kept_api_succeeded:
  assumes "keeps (vs_manager s) (vs_manager s')"
  shows "kept s (api_succeeded w cl k ctx ep a s')"
proof -
  have "keeps m (bind_on_success env session i m)" for env session i m
    by (simp add: bind_on_success_def manager_bind_session_def refl affinity split: option.split)
  from trans [OF trans [OF assms success] this] show ?thesis by (simp add: api_succeeded_def Let_def)
qed

lemma kept_sent:
  assumes "undisturbed keeps w"
  shows "keeps (vs_manager s) (aw_while_sending w (vs_manager s))"
  using assms by (simp add: undisturbed_def harmless_def)

lemma kept_api_exchange:
  assumes "undisturbed keeps w"
  shows "kept s (api_exchange v w cl k ctx ep x s)"
  using assms kept_sent [OF assms, of s] refl
  by (auto simp: api_exchange_def Let_def intro!: kept_intros kept_api_refused kept_api_succeeded
      split: option.split prod.split sum.split send_result.split)

lemma kept_mcp_exchange:
  assumes "undisturbed keeps w"
  shows "kept s (mcp_exchange v w cl k ctx ep x s)"
  using assms kept_sent [OF assms, of s] refl
  by (auto simp: mcp_exchange_def Let_def intro!: kept_intros kept_mcp_refused
      split: option.split prod.split sum.split send_result.split)

lemma kept_with_endpoint:
  assumes "undisturbed keeps w" and "\<And>ctx ep x s. kept s (exchange ctx ep x s)"
  shows "kept s (with_endpoint v w cl k ctx exchange s)"
proof -
  obtain r s1 where e: "ensure_profile_arn v w ctx s = (r, s1)" by fastforce
  with kept_ensure_profile [OF assms(1), of s v ctx] have 1: "keeps (vs_manager s) (vs_manager s1)" by simp
  show ?thesis
  proof (cases r)
    case (Inl err)
    with e 1 show ?thesis by (simp add: with_endpoint_def)
  next
    case (Inr ctx')
    obtain x s2 where m: "make_context v w ctx' s1 = (x, s2)" by fastforce
    then have 2: "vs_manager s2 = vs_manager s1" by (auto simp: make_context_def split: prod.splits)
    have "kept s (exchange ctx' ep x s2)" for ep
      using trans [OF 1, of "vs_manager (snd (exchange ctx' ep x s2))"] assms(2) [of s2 ctx' ep x] 2
      by (simp add: kept_def)
    moreover have "kept s (next_attempt err (with_manager (\<lambda>m. snd (report_failure_for_request env i model grp m)) s3))"
      if "vs_manager s3 = vs_manager s1" for err env i model grp s3
      using trans [OF 1 failure] that by simp
    ultimately show ?thesis
      using e Inr m 2 by (simp add: with_endpoint_def split: sum.split)
  qed
qed

lemmas kept_attempt =
  kept_with_endpoint [OF _ kept_api_exchange] kept_with_endpoint [OF _ kept_mcp_exchange]

end

section \<open>Requests in flight\<close>

definition same_flights :: "manager \<Rightarrow> manager \<Rightarrow> bool" where
  "same_flights m m' \<longleftrightarrow> flights m' = flights m"

lemma flights_success: "flights (report_success_for_request env i model m) = flights m"
  by (simp add: report_success_for_request_def Let_def flights_update count_success_def mark_used_def
      clear_self_heal_streak_def split: option.split)

lemma flights_failure: "flights (snd (report_failure_for_request env i model grp m)) = flights m"
  by (simp add: report_failure_for_request_def Let_def flights_update count_failure_def mark_used_def disable_def
      split: option.split)

lemma flights_shut_down: "flights (snd (report_shut_down env r i model grp m)) = flights m"
  by (simp add: report_shut_down_def Let_def split_beta flights_update shut_down_def mark_used_def disable_def
      clear_self_heal_streak_def split: option.split)

lemma flights_unrelated:
  "flights (invalidate_model_cache i m) = flights m" "flights (m\<lparr>m_session_affinity := a\<rparr>) = flights m"
  by (simp_all add: flights_def invalidate_model_cache_def)

interpretation flights_kept: pool_relation same_flights
proof
  fix f :: "entry \<Rightarrow> entry" and i m
  assume f: "\<And>e. \<exists>c n. f e = e\<lparr>ce_credentials := c, ce_refresh_failure_count := n\<rparr>"
  have "ce_id (f e) = ce_id e \<and> ce_in_flight (f e) = ce_in_flight e" for e
    using f [of e] by auto
  then show "same_flights m (update_entry i f m)" by (simp add: same_flights_def flights_update)
next
  fix m i deadline
  show "same_flights m (update_entry i (throttle_until deadline) m)"
    by (simp add: same_flights_def flights_update throttle_until_def)
qed (simp_all add: same_flights_def flights_success flights_failure flights_shut_down flights_unrelated)

text \<open>A result carries the id and the guard of the context it was obtained with.\<close>

definition result_of :: "('r \<Rightarrow> u64 \<times> bool) \<Rightarrow> call_context \<Rightarrow> 'r step \<Rightarrow> bool" where
  "result_of f ctx r \<longleftrightarrow> (\<forall>x. r = Return (Inr x) \<longrightarrow> f x = (cx_id ctx, cx_guard ctx))"

definition api_guard :: "call_result \<Rightarrow> u64 \<times> bool" where
  "api_guard r = (kr_credential r, kr_guard r)"

definition mcp_guard :: "mcp_result \<Rightarrow> u64 \<times> bool" where
  "mcp_guard r = (mr_credential r, mr_guard r)"

lemma ends_simps [simp]:
  "fst (fail err s) = Return (Inl err)" "fst (next_attempt err s) = NextAttempt"
  "fst (pause_then_next w cl k delay err s) = NextAttempt" "fst (send_failed w cl k ctx text s) = NextAttempt"
  by (simp_all add: fail_def next_attempt_def pause_then_next_def send_failed_def)

lemma no_result [simp]:
  "fst (fail_over report err s) \<noteq> Return (Inr r)"
  "fst (auth_failed v w cl ctx a body s) \<noteq> Return (Inr r)"
  "fst (account_throttled v w cl k ctx ep a body s) \<noteq> Return (Inr r)"
  "fst (transient_answer v w cl k a body s) \<noteq> Return (Inr r)"
proof -
  show f: "fst (fail_over report err s) \<noteq> Return (Inr r)" for report :: "manager \<Rightarrow> bool \<times> manager" and err s
    by (cases "report (vs_manager s)") (simp add: fail_over_def)
  show "fst (auth_failed v w cl ctx a body s) \<noteq> Return (Inr r)"
    using f by (auto simp: auth_failed_def Let_def split: prod.split sum.split bool.split)
qed (auto simp: account_throttled_def transient_answer_def Let_def split: prod.split option.split)

lemma refused_no_result [simp]:
  "fst (api_refused v w cl k ctx ep a s) \<noteq> Return (Inr r)"
  "fst (mcp_refused v w cl k ctx ep a s) \<noteq> Return (Inr r)"
  by (auto simp: api_refused_def api_retry_or_give_up_def mcp_refused_def Let_def split: sum.split)

lemma result_of_exchange:
  "result_of api_guard ctx (fst (api_exchange v w cl k ctx ep x s))"
  "result_of mcp_guard ctx (fst (mcp_exchange v w cl k ctx ep x s))"
  by (auto simp: result_of_def api_exchange_def mcp_exchange_def Let_def api_succeeded_def api_guard_def mcp_guard_def
      split: option.splits prod.splits sum.splits send_result.splits if_splits)

lemma ensure_profile_context:
  "ensure_profile_arn v w ctx s = (Inr ctx', s') \<Longrightarrow>
   cx_id ctx' = cx_id ctx \<and> cx_guard ctx' = cx_guard ctx \<and> cx_token ctx' = cx_token ctx"
  by (auto simp: ensure_profile_arn_def Let_def split: if_splits prod.splits sum.splits option.splits
      profile_error.splits)

lemma result_of_with_endpoint:
  assumes "\<And>ctx ep x s. result_of f ctx (fst (exchange ctx ep x s))"
  shows "result_of f ctx (fst (with_endpoint v w cl k ctx exchange s))"
proof -
  obtain r s1 where e: "ensure_profile_arn v w ctx s = (r, s1)" by fastforce
  show ?thesis
  proof (cases r)
    case (Inr ctx')
    obtain x s2 where m: "make_context v w ctx' s1 = (x, s2)" by fastforce
    have "result_of f ctx r = result_of f ctx' r" for r
      using ensure_profile_context [of v w ctx s ctx' s1] e Inr by (simp add: result_of_def)
    with assms e Inr m show ?thesis
      by (auto simp: with_endpoint_def split: sum.split) (simp add: result_of_def)
  qed (use e in \<open>simp add: with_endpoint_def result_of_def\<close>)
qed

text \<open>What an attempt and a call leave in flight.\<close>

definition balanced_result :: "('r \<Rightarrow> u64 \<times> bool) \<Rightarrow> manager \<Rightarrow> (call_error + 'r) option \<times> 'c call_state \<Rightarrow> bool" where
  "balanced_result f m rs \<longleftrightarrow>
     (case rs of
        (Some (Inr r), s) \<Rightarrow> snd (f r) \<and> one_more True (fst (f r)) m (vs_manager s)
      | (_, s) \<Rightarrow> one_more False 0 m (vs_manager s))"

definition balanced_step :: "('r \<Rightarrow> u64 \<times> bool) \<Rightarrow> manager \<Rightarrow> 'r step option \<times> 'c call_state \<Rightarrow> bool" where
  "balanced_step f m rs \<longleftrightarrow>
     (case rs of
        (Some (Return r), s) \<Rightarrow> balanced_result f m (Some r, s)
      | (_, s) \<Rightarrow> one_more False 0 m (vs_manager s))"

lemma balanced_attempt:
  assumes acq: "one_more True (cx_id ctx) m (vs_manager s)" and g: "cx_guard ctx"
    and kept: "flights_kept.kept s rs" and res: "result_of f ctx (fst rs)"
  shows "balanced_step f m (end_of_attempt ctx rs)"
proof -
  obtain r s' where rs: "rs = (r, s')" by fastforce
  with kept have "flights (vs_manager s') = flights (vs_manager s)" by (simp add: same_flights_def)
  with acq have 1: "one_more True (cx_id ctx) m (vs_manager s')" by (rule one_more_then)
  then have 0: "one_more False 0 m (drop_guard True (cx_id ctx) (vs_manager s'))"
    using one_more_release by (auto simp: one_more_def dest!: one_more_release)
  show ?thesis
    using res rs g 0 1
    by (auto simp: end_of_attempt_def balanced_step_def balanced_result_def result_of_def split: step.split sum.split)
qed

lemma balanced_loop:
  assumes run: "\<And>k s. distinct_ids (vs_manager s) \<Longrightarrow> balanced_step f (vs_manager s) (run k s)"
    and "distinct_ids m" "one_more False 0 m (vs_manager s)"
  shows "balanced_result f m (attempts_loop run cl n k s)"
  using assms(2,3)
proof (induction n arbitrary: k s)
  case 0
  then show ?case by (simp add: balanced_result_def)
next
  case (Suc n)
  have d: "distinct_ids (vs_manager s)" using Suc.prems by (simp add: distinct_ids_flights one_more_def)
  obtain r s' where r: "run k s = (r, s')" by fastforce
  have trans: "one_more b i (vs_manager s) m' \<Longrightarrow> one_more b i m m'" for b i m'
    using Suc.prems(2) by (simp add: one_more_def)
  note b = run [OF d, of k, unfolded r balanced_step_def]
  show ?case
  proof (cases r)
    case None
    with b r trans show ?thesis by (simp add: balanced_result_def)
  next
    case (Some st)
    show ?thesis
    proof (cases st)
      case (Return x)
      with Some b r trans show ?thesis by (cases x) (simp_all add: balanced_result_def)
    next
      case NextAttempt
      with Some b trans have "one_more False 0 m (vs_manager s')" by simp
      from Suc.IH [OF Suc.prems(1) this, of "Suc k"] Some NextAttempt r show ?thesis by simp
    qed
  qed
qed

text \<open>Requests that start and end meanwhile are left out of the account.\<close>

definition leaves_flights :: "'c attempt_world \<Rightarrow> bool" where
  "leaves_flights w \<longleftrightarrow> (\<forall>j. keeps_flights (aw_acquire w j)) \<and> undisturbed same_flights w"

lemma acquire_failed_manager [simp]:
  "vs_manager (snd (acquire_failed w cl k err s)) = vs_manager s"
  "fst (acquire_failed w cl k err s) \<noteq> Return (Inr r)" "fst (acquire_failed w cl k err s) \<noteq> NextAttempt"
  by (simp_all add: acquire_failed_def fail_def split: acquire_error.split)

lemma balanced_acquire_failed:
  assumes "one_more False 0 m (vs_manager s)"
  shows "balanced_step f m (case acquire_failed w cl k err s of (r, s) \<Rightarrow> (Some r, s))"
  using assms by (simp add: acquire_failed_def fail_def balanced_step_def balanced_result_def split: acquire_error.split)

lemma same_flights_route: "flights (vs_manager (note_route cl k route s)) = flights (vs_manager s)"
  using flights_kept.kept_note_route [of s cl k route] by (simp add: same_flights_def)

lemma balanced_api_attempt:
  assumes "leaves_flights w" "distinct_ids (vs_manager s)"
  shows "balanced_step api_guard (vs_manager s) (api_attempt v w cl k s)"
proof -
  have w: "\<forall>j. keeps_flights (aw_acquire w j)" "undisturbed same_flights w"
    using assms(1) by (simp_all add: leaves_flights_def)
  obtain r m where a: "acquire_context_impl (ve_fuel v) (gc_regions (ve_config v)) (aw_acquire w) (cl_model cl)
      (cl_group cl) (cl_session cl) True (vs_manager s) = (r, m)" by fastforce
  note f = acquire_context_flights [OF assms(2) w(1), of True "ve_fuel v" "gc_regions (ve_config v)" "cl_model cl"
      "cl_group cl" "cl_session cl", unfolded a]
  show ?thesis
  proof (cases r)
    case None
    with a f show ?thesis by (simp add: api_attempt_def balanced_step_def)
  next
    case (Some ro)
    show ?thesis
    proof (cases ro)
      case (Inl err)
      with a f Some balanced_acquire_failed [of "vs_manager s" "s\<lparr>vs_manager := m\<rparr>"] show ?thesis
        by (simp add: api_attempt_def)
    next
      case (Inr acq)
      obtain ctx bal route where acq: "acq = (ctx, bal, route)" by (cases acq)
      let ?s = "note_route cl k route (s\<lparr>vs_manager := m\<rparr>)"
      from f Some Inr acq have g: "cx_guard ctx" and o: "one_more True (cx_id ctx) (vs_manager s) m" by simp_all
      from o have o': "one_more True (cx_id ctx) (vs_manager s) (vs_manager ?s)"
        by (rule one_more_then) (simp add: same_flights_route)
      from a Some Inr acq show ?thesis
        by (simp add: api_attempt_def)
          (intro balanced_attempt [OF o' g] flights_kept.kept_attempt [OF w(2)] result_of_with_endpoint result_of_exchange w(2))
    qed
  qed
qed

lemma balanced_mcp_attempt:
  assumes "leaves_flights w" "distinct_ids (vs_manager s)"
  shows "balanced_step mcp_guard (vs_manager s) (mcp_attempt v w cl k s)"
proof -
  have w: "\<forall>j. keeps_flights (aw_acquire w j)" "undisturbed same_flights w"
    using assms(1) by (simp_all add: leaves_flights_def)
  obtain r m where a: "acquire_context_impl (ve_fuel v) (gc_regions (ve_config v)) (aw_acquire w) None
      (cl_group cl) None True (vs_manager s) = (r, m)" by fastforce
  note f = acquire_context_flights [OF assms(2) w(1), of True "ve_fuel v" "gc_regions (ve_config v)" None
      "cl_group cl" None, unfolded a]
  show ?thesis
  proof (cases r)
    case None
    with a f show ?thesis by (simp add: mcp_attempt_def balanced_step_def)
  next
    case (Some ro)
    show ?thesis
    proof (cases ro)
      case (Inl err)
      with a f Some balanced_acquire_failed [of "vs_manager s" "s\<lparr>vs_manager := m\<rparr>"] show ?thesis
        by (simp add: mcp_attempt_def)
    next
      case (Inr acq)
      obtain ctx bal route where acq: "acq = (ctx, bal, route)" by (cases acq)
      from f Some Inr acq have g: "cx_guard ctx"
        and o: "one_more True (cx_id ctx) (vs_manager s) (vs_manager (s\<lparr>vs_manager := m\<rparr>))" by simp_all
      from a Some Inr acq show ?thesis
        by (simp add: mcp_attempt_def)
          (intro balanced_attempt [OF o g] flights_kept.kept_attempt [OF w(2)] result_of_with_endpoint result_of_exchange w(2))
    qed
  qed
qed

lemma fresh_call_manager [simp]: "vs_manager (fresh_call s) = vs_manager s"
  by (simp add: fresh_call_def)

lemma balanced_call:
  assumes "\<forall>k. leaves_flights (ws k)" "distinct_ids (vs_manager s)"
  shows "balanced_result api_guard (vs_manager s) (call_api_with_retry v ws body is_stream traced grp s)"
    and "balanced_result mcp_guard (vs_manager s) (call_mcp_with_retry v ws body traced grp s)"
  using assms
  by (auto simp: call_api_with_retry_def call_mcp_with_retry_def Let_def split: prod.split
      intro!: balanced_loop balanced_api_attempt balanced_mcp_attempt one_more_refl)

end
