(* ===== verification/UpstreamBans.thy ===== *)
theory UpstreamBans
  imports UpstreamSafety
begin

text \<open>
  A credential that the upstream declares banned or exhausted is out of service at once, and a call never
  turns to it again; and the attempts of a call are counted. The second interpretation of
  \<open>pool_relation\<close> carries the first fact through the operations of the pool.
\<close>

section \<open>Out of service\<close>

definition standing :: "u64 \<Rightarrow> manager \<Rightarrow> (bool \<times> disabled_reason option) option" where
  "standing i m = map_option (\<lambda>e. (ce_disabled e, ce_disabled_reason e)) (find_entry i m)"

definition out_of_service :: "u64 \<Rightarrow> manager \<Rightarrow> bool" where
  "out_of_service i m \<longleftrightarrow>
     standing i m = Some (True, Some Suspended) \<or> standing i m = Some (True, Some QuotaExceeded)"

definition in_service :: "u64 \<Rightarrow> manager \<Rightarrow> bool" where
  "in_service i m \<longleftrightarrow> (\<exists>e. find_entry i m = Some e \<and> \<not> ce_disabled e)"

definition same_standing :: "manager \<Rightarrow> manager \<Rightarrow> bool" where
  "same_standing m m' \<longleftrightarrow> (\<forall>i. standing i m' = standing i m)"

definition keeps_out :: "manager \<Rightarrow> manager \<Rightarrow> bool" where
  "keeps_out m m' \<longleftrightarrow> (\<forall>i. out_of_service i m \<longrightarrow> out_of_service i m')"

lemma in_service_standing: "in_service i m \<longleftrightarrow> (\<exists>r. standing i m = Some (False, r))"
  by (auto simp: in_service_def standing_def)

lemma in_not_out: "in_service i m \<Longrightarrow> \<not> out_of_service i m"
  by (auto simp: in_service_standing out_of_service_def)

lemma same_standing_out: "same_standing m m' \<Longrightarrow> keeps_out m m'"
  by (simp add: same_standing_def keeps_out_def out_of_service_def)

lemma same_standing_in: "same_standing m m' \<Longrightarrow> in_service i m' = in_service i m"
  by (simp add: same_standing_def in_service_standing)

lemma same_standing_refl [simp]: "same_standing m m"
  by (simp add: same_standing_def)

lemma same_standing_trans: "same_standing m m1 \<Longrightarrow> same_standing m1 m2 \<Longrightarrow> same_standing m m2"
  by (simp add: same_standing_def)

lemma keeps_out_trans: "keeps_out m m1 \<Longrightarrow> keeps_out m1 m2 \<Longrightarrow> keeps_out m m2"
  by (simp add: keeps_out_def)

lemma standing_entries: "m_entries m' = m_entries m \<Longrightarrow> same_standing m m'"
  by (simp add: same_standing_def standing_def find_entry_def)

lemma standing_update:
  assumes "\<And>e. ce_id (f e) = ce_id e"
  shows "standing j (update_entry i f m) =
    (if j = i then map_option (\<lambda>e. (ce_disabled (f e), ce_disabled_reason (f e))) (find_entry i m)
     else standing j m)"
  using assms
  by (auto simp: standing_def find_entry_update find_update_other option.map_comp comp_def)

lemma same_standing_update:
  "(\<And>e. ce_id (f e) = ce_id e \<and> ce_disabled (f e) = ce_disabled e \<and> ce_disabled_reason (f e) = ce_disabled_reason e)
   \<Longrightarrow> same_standing m (update_entry i f m)"
  by (auto simp: same_standing_def standing_update) (simp add: standing_def)

lemma standing_select [simp]:
  "standing i (save_stats_debounced env m) = standing i m"
  "standing i (snd (persist_credentials env m)) = standing i m"
  "standing i (snd (switch_current p m)) = standing i m"
  by (simp_all add: standing_def)

lemma standing_pool_state:
  assumes "same_pool_state m m'"
  shows "same_standing m m'"
proof -
  have f: "map_option core (List.find (\<lambda>e. ce_id e = i) es) = List.find (\<lambda>e. ce_id e = i) (map core es)" for i es
    by (induction es) auto
  have "standing i n = map_option (\<lambda>e. (ce_disabled e, ce_disabled_reason e))
      (List.find (\<lambda>e. ce_id e = i) (map core (m_entries n)))" for i n
    by (simp add: standing_def find_entry_def f [symmetric] option.map_comp comp_def)
  then show ?thesis using assms by (simp add: same_standing_def same_pool_state_def)
qed

text \<open>The reports. A credential that is out of service is disabled, and no report touches it.\<close>

lemma out_disabled: "out_of_service i m \<Longrightarrow> find_entry i m = Some e \<Longrightarrow> ce_disabled e"
  by (auto simp: out_of_service_def standing_def)

lemma success_standing: "same_standing m (report_success_for_request env i model m)"
proof -
  have 1: "same_standing m (update_entry i (count_success env) m)"
    "same_standing m (update_entry i (\<lambda>e. clear_self_heal_streak (count_success env e)) m)"
    by (rule same_standing_update; simp add: count_success_def mark_used_def clear_self_heal_streak_def)+
  then show ?thesis
    by (simp add: report_success_for_request_def Let_def same_standing_def split: option.split)
qed

lemma standing_other:
  "j \<noteq> i \<Longrightarrow> standing j (snd (report_failure_for_request env i model grp m)) = standing j m"
  "j \<noteq> i \<Longrightarrow> standing j (snd (report_shut_down env r i model grp m)) = standing j m"
  by (simp_all add: report_failure_for_request_def report_shut_down_def Let_def standing_update split_beta
      count_failure_def mark_used_def disable_def shut_down_def clear_self_heal_streak_def split: option.split)

lemma failure_keeps_out: "keeps_out m (snd (report_failure_for_request env i model grp m))"
  unfolding keeps_out_def
proof (intro allI impI)
  fix j assume out: "out_of_service j m"
  show "out_of_service j (snd (report_failure_for_request env i model grp m))"
  proof (cases "j = i")
    case True
    with out show ?thesis
      by (cases "find_entry i m") (auto simp: report_failure_for_request_def dest: out_disabled)
  next
    case False
    with out show ?thesis by (simp add: out_of_service_def standing_other)
  qed
qed

lemma shut_down_keeps_out: "keeps_out m (snd (report_shut_down env r i model grp m))"
  unfolding keeps_out_def
proof (intro allI impI)
  fix j assume out: "out_of_service j m"
  show "out_of_service j (snd (report_shut_down env r i model grp m))"
  proof (cases "j = i")
    case True
    with out show ?thesis
      by (cases "find_entry i m") (auto simp: report_shut_down_def dest: out_disabled)
  next
    case False
    with out show ?thesis by (simp add: out_of_service_def standing_other)
  qed
qed

lemma shut_down_out:
  assumes "in_service i m" "r = Suspended \<or> r = QuotaExceeded"
  shows "out_of_service i (snd (report_shut_down env r i model grp m))"
  using assms
  by (auto simp: in_service_def report_shut_down_def Let_def split_beta out_of_service_def standing_update
      shut_down_def mark_used_def disable_def clear_self_heal_streak_def)

text \<open>The upkeep of the pool leaves the standing of every credential as it is.\<close>

interpretation standing_kept: pool_upkeep same_standing
proof
  fix f :: "entry \<Rightarrow> entry" and i m
  assume f: "\<And>e. \<exists>c n. f e = e\<lparr>ce_credentials := c, ce_refresh_failure_count := n\<rparr>"
  have "ce_id (f e) = ce_id e \<and> ce_disabled (f e) = ce_disabled e \<and> ce_disabled_reason (f e) = ce_disabled_reason e" for e
    using f [of e] by auto
  then show "same_standing m (update_entry i f m)" by (rule same_standing_update)
next
  fix m i
  show "same_standing m (invalidate_model_cache i m)"
    by (rule standing_entries) (simp add: invalidate_model_cache_def)
next
  fix m a
  show "same_standing m (m\<lparr>m_session_affinity := a\<rparr>)" by (rule standing_entries) simp
qed (auto simp: same_standing_def)

interpretation out_kept: pool_relation keeps_out
proof
  fix f :: "entry \<Rightarrow> entry" and i m
  assume "\<And>e. \<exists>c n. f e = e\<lparr>ce_credentials := c, ce_refresh_failure_count := n\<rparr>"
  then show "keeps_out m (update_entry i f m)" by (rule same_standing_out [OF standing_kept.credentials])
next
  fix m i deadline
  show "keeps_out m (update_entry i (throttle_until deadline) m)"
    by (intro same_standing_out same_standing_update) (simp add: throttle_until_def)
qed (auto intro: same_standing_out standing_kept.persist standing_kept.model_cache standing_kept.affinity
    standing_kept.refl success_standing failure_keeps_out shut_down_keeps_out keeps_out_trans)

section \<open>Acquiring a credential\<close>

text \<open>Worlds in which the others do not disable, enable or remove a credential, nor start a request.\<close>

definition steady_world :: "world \<Rightarrow> bool" where
  "steady_world w \<longleftrightarrow> keeps_flights w \<and> harmless same_standing (w_wait w) \<and> harmless same_standing (w_exchange w)"

lemma ensure_standing:
  assumes "steady_world w" "try_ensure_token g w i c m = (r, m')"
  shows "same_standing m m'"
proof -
  have w: "same_standing m (w_wait w m)" "same_standing m (w_exchange w m)" for m
    using assms(1) by (simp_all add: steady_world_def harmless_def)
  have u: "same_standing m (update_entry i (\<lambda>e. e\<lparr>ce_credentials := c\<rparr>) m)"
    "same_standing m (update_entry i (\<lambda>e. e\<lparr>ce_refresh_failure_count := 0\<rparr>) m)" for i c m
    by (rule same_standing_update; simp)+
  have l: "same_standing m m'" if "refresh_locked g w i m = (r, m')" for m r m'
  proof -
    have p: "same_standing m (snd (persist_credentials env (update_entry i (\<lambda>e. e\<lparr>ce_credentials := c\<rparr>) (w_exchange w m))))" for env c
      using same_standing_trans [OF w(2) u(1), of m i c] by (simp add: same_standing_def)
    show ?thesis
      using that w(2) p by (auto simp: refresh_locked_def Let_def split: option.splits if_splits sum.splits)
  qed
  have l2: "same_standing m m'" if "refresh_locked g w i (w_wait w m) = (r, m')" for m r m'
    using same_standing_trans [OF w(1) l [OF that]] .
  show ?thesis
    using assms(2) l2 u(2) same_standing_trans
    by (auto simp: try_ensure_token_def split: if_splits option.splits prod.splits sum.splits; blast)
qed

lemma heal_keeps_out: "keeps_out m (snd (try_self_heal env model grp m))"
  unfolding keeps_out_def
proof (intro allI impI)
  fix i assume out: "out_of_service i m"
  let ?f = "\<lambda>e. if healable env m model grp e then heal env model e else e"
  have f: "List.find (\<lambda>e. ce_id e = i) (map ?f es) = map_option ?f (List.find (\<lambda>e. ce_id e = i) es)" for es
    by (induction es) (auto simp: heal_def)
  have "standing i (m\<lparr>m_entries := map ?f (m_entries m)\<rparr>) = standing i m"
  proof (cases "find_entry i m")
    case (Some e)
    with out have "\<not> healable env m model grp e"
      by (auto simp: out_of_service_def standing_def healable_def)
    with Some f show ?thesis by (simp add: standing_def find_entry_def)
  qed (use f in \<open>simp add: standing_def find_entry_def\<close>)
  with out show "out_of_service i (snd (try_self_heal env model grp m))"
    by (simp add: try_self_heal_def Let_def out_of_service_def)
qed

lemma select_in_service:
  assumes "select_next_credential_impl env model grp True claim m = (Some (i, c, g), m')" "distinct_ids m"
  shows "in_service i m' \<and> same_standing m m'"
proof -
  have s: "same_standing m m'" using same_pool_state_select [OF assms(1)] by (rule standing_pool_state)
  from select_next_spec [of env model grp True claim m] assms(1) obtain e
    where "e \<in> set (m_entries m)" "ce_id e = i" "\<not> ce_disabled e"
    by (auto simp: entry_available_for_request_def)
  with find_entry_distinct [OF assms(2), of e] have "in_service i m" by (auto simp: in_service_def)
  with s show ?thesis by (simp add: same_standing_in)
qed

lemma choose_in_service:
  assumes "choose_credential env model grp session True m = ((Some (i, c, guard), route), m')" "distinct_ids m"
  shows "in_service i m' \<and> keeps_out m m'"
proof -
  obtain pick r m1 where st: "sticky_candidate env session model grp m = ((pick, r), m1)"
    by (metis prod.exhaust)
  have s1: "same_standing m m1" using same_pool_state_sticky [OF st] by (rule standing_pool_state)
  have d1: "distinct_ids m1"
    using flights_sticky [of env session model grp m] st assms(2) by (simp add: distinct_ids_flights)
  show ?thesis
  proof (cases pick)
    case (Some p)
    then obtain j d where p: "p = (j, d)" by fastforce
    from st Some p have "in_service j m"
      by (auto simp: sticky_candidate_def Let_def entry_available_for_request_def in_service_def find_entry_def
          dest: find_Some_in split: option.splits if_splits prod.splits)
    moreover from assms st Some p have "i = j" "m' = m1 \<or> m' = update_entry j claim_in_flight m1"
      by (auto simp: choose_credential_def acquire_in_flight_guard_def split: if_splits option.splits)
    moreover have "same_standing m1 (update_entry j claim_in_flight m1)"
      by (rule same_standing_update) (simp add: claim_in_flight_def)
    ultimately have "in_service i m" "same_standing m m'" using s1 same_standing_trans by auto
    then show ?thesis using same_standing_in same_standing_out by blast
  next
    case None
    with st assms(1) have sh: "select_or_heal env model grp True m1 = (Some (i, c, guard), m')"
      by (auto simp: choose_credential_def split: prod.splits)
    obtain s m2 where sel: "select_next_credential_impl env model grp True True m1 = (s, m2)" by fastforce
    show ?thesis
    proof (cases s)
      case (Some x)
      with sel sh have "select_next_credential_impl env model grp True True m1 = (Some (i, c, guard), m')"
        by (simp add: select_or_heal_def)
      from select_in_service [OF this d1] s1 show ?thesis
        by (blast intro: same_standing_out same_standing_trans)
    next
      case None
      with sel have "m2 = m1" by (auto dest: select_none)
      with None sel sh obtain m3 where h: "try_self_heal env model grp m1 = (True, m3)"
        and s3: "select_next_credential_impl env model grp True True m3 = (Some (i, c, guard), m')"
        by (auto simp: select_or_heal_def split: prod.splits bool.splits)
      have "distinct_ids m3"
        using d1 flights_self_heal [of env model grp m1] h by (simp add: distinct_ids_flights)
      from select_in_service [OF s3 this] heal_keeps_out [of m1 env model grp] h s1 show ?thesis
        by (auto dest!: same_standing_out intro: keeps_out_trans)
    qed
  qed
qed

lemma choose_none_keeps_out:
  assumes "choose_credential env model grp session True m = ((None, route), m')"
  shows "keeps_out m m'"
proof -
  obtain pick r m1 where st: "sticky_candidate env session model grp m = ((pick, r), m1)"
    by (metis prod.exhaust)
  have s1: "same_standing m m1" using same_pool_state_sticky [OF st] by (rule standing_pool_state)
  from assms st have "pick = None" and sh: "select_or_heal env model grp True m1 = (None, m')"
    by (auto simp: choose_credential_def split: option.splits prod.splits if_splits)
  obtain s m2 where sel: "select_next_credential_impl env model grp True True m1 = (s, m2)" by fastforce
  obtain b m3 where th: "try_self_heal env model grp m1 = (b, m3)" by fastforce
  from sh sel have s: "s = None" by (auto simp: select_or_heal_def split: option.splits prod.splits)
  with sel have "m2 = m1" by (auto dest: select_none)
  with sh sel s th have "m' = m3 \<or> select_next_credential_impl env model grp True True m3 = (None, m')"
    by (cases b) (auto simp: select_or_heal_def)
  then have "m' = m3" by (auto dest: select_none)
  with heal_keeps_out [of m1 env model grp] th s1 show ?thesis
    by (auto dest!: same_standing_out intro: keeps_out_trans)
qed

lemma handle_other:
  assumes "j \<noteq> i"
  shows "standing j (snd (handle_token_refresh_error env i err m)) = standing j m"
proof -
  have f: "standing j (snd (report_refresh_failure env i m)) = standing j m" for m
    using assms by (simp add: report_refresh_failure_def Let_def standing_update split_beta mark_used_def disable_def
        clear_self_heal_streak_def split: option.split)
  have t: "standing j (snd (report_refresh_token_invalid env i m)) = standing j m" for m
    using assms by (simp add: report_refresh_token_invalid_def Let_def standing_update split_beta mark_used_def
        disable_def clear_self_heal_streak_def split: option.split)
  have c: "standing j (invalidate_model_cache i m) = standing j m" for m
    by (simp add: standing_def find_entry_def invalidate_model_cache_def)
  have r: "standing j (snd (try_reload_credential_from_file i m)) = standing j m"
    using assms by (simp add: try_reload_credential_from_file_def Let_def c standing_update reloaded_def
        split: option.split)
  have r': "standing j m' = standing j m" if "try_reload_credential_from_file i m = (b, m')" for b m'
    using r that by simp
  show ?thesis
    using f t r r' by (auto simp: handle_token_refresh_error_def split_beta split: ensure_error.split
        refresh_error.split bool.split prod.split)
qed

lemma drop_guard_standing: "same_standing m (drop_guard guard i m)"
  unfolding drop_guard_def
  by (auto intro: same_standing_update simp: release_in_flight_def)

lemma record_request_standing: "record_request env i m = (ok, m') \<Longrightarrow> same_standing m m'"
  by (auto simp: record_request_def Let_def intro!: same_standing_update split: option.splits if_splits)

text \<open>A round of the request loop: nothing that is out of service comes back, and what it returns is in
  service.\<close>

lemma attempt_standing:
  assumes "attempt g w model grp session True m = (out, m')" "steady_world w" "distinct_ids m"
  shows "keeps_out m m' \<and> (\<forall>ctx bal route. out = Done (Inr (ctx, bal, route)) \<longrightarrow> in_service (cx_id ctx) m')"
proof -
  obtain sel route m1 where ch: "choose_credential (w_select w) model grp session True m = ((sel, route), m1)"
    by (metis prod.exhaust)
  show ?thesis
  proof (cases sel)
    case None
    with assms(1) ch choose_none_keeps_out [of "w_select w" model grp session m route m1] show ?thesis
      by (auto simp: attempt_def)
  next
    case (Some s)
    then obtain i c guard where s: "sel = Some (i, c, guard)" by (cases s) auto
    with ch choose_in_service [OF _ assms(3)] have i: "in_service i m1" "keeps_out m m1" by blast+
    define m2 where "m2 = m1\<lparr>m_current_id := i\<rparr>"
    have s2: "same_standing m1 m2" unfolding m2_def by (rule standing_entries) simp
    obtain res m3 where te: "try_ensure_token g w i c m2 = (res, m3)" by fastforce
    from ensure_standing [OF assms(2) te] s2 have s3: "same_standing m1 m3" by (rule same_standing_trans [rotated])
    have out3: "out_of_service j m \<Longrightarrow> out_of_service j m3 \<and> j \<noteq> i" for j
      using i s3 in_not_out by (auto simp: keeps_out_def dest!: same_standing_out)
    show ?thesis
    proof (cases res)
      case (Inr ctx)
      then have cx: "cx_id ctx = i" using te try_ensure_context by blast
      obtain ok m4 where rr: "record_request (w_done w) i m3 = (ok, m4)" by fastforce
      have s4: "same_standing m1 m4" using same_standing_trans [OF s3 record_request_standing [OF rr]] .
      have o: "(out, m') = (if ok then (Done (Inr (ctx\<lparr>cx_guard := guard\<rparr>,
          fst (resolve_load_balancing_for_group m grp) = ''balanced'', route)), m4)
        else (Retry False, drop_guard guard i m4))"
        using assms(1) unfolding attempt_def Let_def ch s prod.case option.case if_True m2_def [symmetric] te
        by (cases ok) (simp_all add: Inr rr)
      have "keeps_out m m4" "keeps_out m (drop_guard guard i m4)"
        using i(2) s4 drop_guard_standing [of m4 guard i] by (meson keeps_out_trans same_standing_out)+
      moreover have "in_service i m4" using i(1) s4 by (simp add: same_standing_in)
      ultimately show ?thesis using o cx by (cases ok) auto
    next
      case (Inl err)
      obtain h m4 where hd: "handle_token_refresh_error (w_done w) i err m3 = (h, m4)" by fastforce
      have o: "(\<forall>x. out \<noteq> Done (Inr x)) \<and> (m' = drop_guard guard i m3 \<or> m' = drop_guard guard i m4)"
        using assms(1) hd unfolding attempt_def Let_def ch s prod.case option.case if_True m2_def [symmetric] te
        by (cases err; cases h) (auto simp: Inl split: option.splits if_splits)
      have "out_of_service j m4" if "out_of_service j m" for j
        using out3 [OF that] handle_other [of j i "w_done w" err m3] hd by (simp add: out_of_service_def)
      with out3 have "keeps_out m m3" "keeps_out m m4" by (auto simp: keeps_out_def)
      then have "keeps_out m (drop_guard guard i m3)" "keeps_out m (drop_guard guard i m4)"
        using drop_guard_standing same_standing_out keeps_out_trans by blast+
      with o show ?thesis by auto
    qed
  qed
qed

lemma acquire_standing:
  assumes "acquire_context_impl fuel g worlds model grp session True m = (r, m')"
    and "\<forall>k. steady_world (worlds k)" "distinct_ids m"
  shows "keeps_out m m' \<and> (\<forall>ctx bal route. r = Some (Inr (ctx, bal, route)) \<longrightarrow> in_service (cx_id ctx) m')"
proof -
  have "keeps_out m m' \<and> (\<forall>ctx bal route. r = Some (Inr (ctx, bal, route)) \<longrightarrow> in_service (cx_id ctx) m')"
    if "acquire_loop fuel g worlds model grp session True mx n m = (r, m')" "\<forall>k. steady_world (worlds k)"
      "distinct_ids m" for mx n worlds m
    using that
  proof (induction fuel arbitrary: worlds n m)
    case (Suc fuel)
    show ?case
    proof (cases "mx \<le> n")
      case False
      obtain out m1 where a: "attempt g (worlds 0) model grp session True m = (out, m1)" by fastforce
      note st = attempt_standing [OF a Suc.prems(2) [rule_format] Suc.prems(3)]
      show ?thesis
      proof (cases out)
        case (Done x)
        with a False Suc.prems st show ?thesis by auto
      next
        case (Retry b)
        have "keeps_flights (worlds 0)" using Suc.prems(2) by (simp add: steady_world_def)
        from attempt_guards [OF a this Suc.prems(3)] Retry have "distinct_ids m1"
          using Suc.prems(3) by (auto simp: distinct_ids_flights one_more_def)
        with Suc.IH [of "\<lambda>k. worlds (Suc k)" "if b then Suc n else n" m1] a False Retry Suc.prems st
        show ?thesis by (auto intro: keeps_out_trans)
      qed
    qed (use Suc.prems in \<open>auto simp: keeps_out_def\<close>)
  qed (simp add: keeps_out_def)
  from this [OF assms(1) [unfolded acquire_context_impl_def] assms(2,3)] show ?thesis .
qed

section \<open>What an attempt records\<close>

definition declared_out :: "trace_attempt \<Rightarrow> bool" where
  "declared_out a \<longleftrightarrow> ta_outcome a = QuotaExhausted \<or> ta_outcome a = AccountSuspended"

text \<open>At most one event is recorded from \<open>s\<close> to \<open>s'\<close>, for attempt \<open>k\<close> and credential \<open>i\<close>, and the
  credential is out of service if the event says so.\<close>

definition records :: "bool \<Rightarrow> nat \<Rightarrow> u64 \<Rightarrow> 'c call_state \<Rightarrow> 'c call_state \<Rightarrow> bool" where
  "records b k i s s' \<longleftrightarrow>
     vs_trace s' = vs_trace s \<or>
     (\<exists>a. vs_trace s' = vs_trace s @ [OnAttempt a] \<and> ta_attempt a = k \<and> ta_credential a = i \<and>
        (b \<and> declared_out a \<longrightarrow> out_of_service i (vs_manager s')))"

lemma records_refl: "vs_trace s' = vs_trace s \<Longrightarrow> records b k i s s'"
  by (simp add: records_def)

lemma records_then: "vs_trace s1 = vs_trace s \<Longrightarrow> records b k i s1 s2 \<Longrightarrow> records b k i s s2"
  by (simp add: records_def)

lemma trace_select [simp]:
  "vs_trace (with_manager f s) = vs_trace s"
  "vs_trace (snd (fail err s)) = vs_trace s" "vs_trace (snd (next_attempt err s)) = vs_trace s"
  "vs_trace (snd (pause_then_next w cl k delay err s)) = vs_trace s"
  "vs_trace (snd (send_failed w cl k ctx text s)) = vs_trace s"
  by (simp_all add: with_manager_def fail_def next_attempt_def pause_then_next_def send_failed_def)

lemma trace_fail_over [simp]: "vs_trace (snd (fail_over report err s)) = vs_trace s"
  by (cases "report (vs_manager s)") (simp add: fail_over_def)

lemma trace_auth_failed [simp]: "vs_trace (snd (auth_failed v w cl ctx a body s)) = vs_trace s"
  by (auto simp: auth_failed_def Let_def split: prod.split sum.split bool.split)

lemma trace_transient [simp]: "vs_trace (snd (transient_answer v w cl k a body s)) = vs_trace s"
  by (auto simp: transient_answer_def Let_def split: option.split)

lemma manager_fail_over: "vs_manager (snd (fail_over report err s)) = snd (report (vs_manager s))"
  by (cases "report (vs_manager s)") (simp add: fail_over_def fail_def next_attempt_def)

text \<open>An event that does not declare the credential out is recorded whatever comes after.\<close>

lemma records_emit:
  assumes "vs_trace s' = vs_trace (emit_attempt w traced k i endpoint st out msg s)"
    "out \<noteq> QuotaExhausted" "out \<noteq> AccountSuspended"
  shows "records b k i s s'"
  using assms by (auto simp: emit_attempt_def records_def declared_out_def split: if_splits)

lemma records_note:
  assumes "vs_trace s' = vs_trace (note_answer w cl k ctx ep a out text s)"
    "out \<noteq> QuotaExhausted" "out \<noteq> AccountSuspended"
  shows "records b k (cx_id ctx) s s'"
  using assms unfolding note_answer_def by (rule records_emit)

lemma records_out:
  assumes "vs_trace s' = vs_trace (note_answer w cl k ctx ep a out text s)" "b \<longrightarrow> out_of_service (cx_id ctx) (vs_manager s')"
  shows "records b k (cx_id ctx) s s'"
  using assms by (auto simp: note_answer_def emit_attempt_def records_def split: if_splits)

lemma records_account_throttled: "records b k (cx_id ctx) s (snd (account_throttled v w cl k ctx ep a body s))"
proof -
  obtain err others s1 where c: "cool_down v w cl ctx a s = (err, others, s1)" by (metis prod.exhaust)
  then have "vs_trace s1 = vs_trace s" by (auto simp: cool_down_def Let_def split: prod.splits)
  then show ?thesis
    by (rule records_then)
      (auto simp: account_throttled_def c Let_def
        intro: records_emit [where out = AccountThrottled and w = w and traced = "cl_traced cl" and
          endpoint = "ep_name ep" and st = "Some 429" and msg = "Some body"])
qed

lemma records_api_refused:
  assumes "b \<longrightarrow> in_service (cx_id ctx) (vs_manager s)"
  shows "records b k (cx_id ctx) s (snd (api_refused v w cl k ctx ep a s))"
proof -
  have o: "b \<Longrightarrow> out_of_service (cx_id ctx) (snd (report_shut_down env r (cx_id ctx) model grp (vs_manager s)))"
    if "r = Suspended \<or> r = QuotaExceeded" for env r model grp
    using shut_down_out [OF _ that] assms by blast
  have r: "records b k (cx_id ctx) s (snd (api_retry_or_give_up v w cl k ctx ep a body s))" for body
    by (auto simp: api_retry_or_give_up_def Let_def records_account_throttled intro!: records_note)
  show ?thesis
    by (auto simp: api_refused_def Let_def r manager_fail_over report_quota_exhausted_for_request_def
        report_suspended_for_request_def split: sum.split intro!: o
        intro: records_note [OF refl] records_note records_out)
qed

lemma records_mcp_refused:
  assumes "b \<longrightarrow> in_service (cx_id ctx) (vs_manager s)"
  shows "records b k (cx_id ctx) s (snd (mcp_refused v w cl k ctx ep a s))"
proof -
  have o: "b \<Longrightarrow> out_of_service (cx_id ctx) (snd (report_shut_down env r (cx_id ctx) model grp (vs_manager s)))"
    if "r = Suspended \<or> r = QuotaExceeded" for env r model grp
    using shut_down_out [OF _ that] assms by blast
  show ?thesis
    by (auto simp: mcp_refused_def Let_def records_account_throttled manager_fail_over
        report_quota_exhausted_for_request_def report_suspended_for_request_def intro!: o
        intro: records_note [OF refl] records_note records_out)
qed

lemma records_api_exchange:
  assumes "b \<longrightarrow> in_service (cx_id ctx) (aw_while_sending w (vs_manager s))"
  shows "records b k (cx_id ctx) s (snd (api_exchange v w cl k ctx ep x s))"
proof -
  have r: "records b k (cx_id ctx) s (snd (api_refused v w cl k ctx ep a (with_manager (aw_while_sending w) (s\<lparr>vs_clients := c\<rparr>))))" for a c
    using assms by (intro records_then [OF _ records_api_refused]) simp_all
  have g: "records b k (cx_id ctx) s (snd (api_succeeded w cl k ctx ep a (with_manager (aw_while_sending w) (s\<lparr>vs_clients := c\<rparr>))))" for a c
    by (rule records_then [OF _ records_emit [OF _ trace_outcome.distinct(1,5)]])
      (auto simp: api_succeeded_def Let_def)
  have e: "records b k (cx_id ctx) s s'"
    if "vs_trace s' = vs_trace (emit_attempt w tr k (cx_id ctx) n st NetworkError msg (with_manager f (s\<lparr>vs_clients := c\<rparr>)))" for s' tr n st msg f c
    using that by (intro records_then [OF _ records_emit [OF that]]) simp_all
  show ?thesis
    using r g
    by (auto simp: api_exchange_def Let_def intro: e [OF refl] e records_refl
        split: option.split prod.split sum.split send_result.split)
qed

lemma records_mcp_exchange:
  assumes "b \<longrightarrow> in_service (cx_id ctx) (aw_while_sending w (vs_manager s))"
  shows "records b k (cx_id ctx) s (snd (mcp_exchange v w cl k ctx ep x s))"
proof -
  have r: "records b k (cx_id ctx) s (snd (mcp_refused v w cl k ctx ep a (with_manager (aw_while_sending w) (s\<lparr>vs_clients := c\<rparr>))))" for a c
    using assms by (intro records_then [OF _ records_mcp_refused]) simp_all
  have e: "records b k (cx_id ctx) s s'"
    if "vs_trace s' = vs_trace (emit_attempt w tr k (cx_id ctx) n st NetworkError msg (with_manager f (s\<lparr>vs_clients := c\<rparr>)))" for s' tr n st msg f c
    using that by (intro records_then [OF _ records_emit [OF that]]) simp_all
  have e': "records b k (cx_id ctx) s s'"
    if "vs_trace s' = vs_trace (emit_attempt w tr k (cx_id ctx) n st NetworkError msg (s\<lparr>vs_clients := c\<rparr>))" for s' tr n st msg c
    using that by (intro records_then [OF _ records_emit [OF that]]) simp_all
  show ?thesis
    using r
    by (auto simp: mcp_exchange_def Let_def intro: e [OF refl] e' [OF refl] e e' records_refl
        split: option.split prod.split sum.split send_result.split)
qed

end
