(* ===== verification/UpstreamEvidence.thy ===== *)
theory UpstreamEvidence
  imports UpstreamBans
begin

text \<open>
  What the trace of a call says about the answers: an attempt is recorded as a ban or an exhausted quota
  exactly when the upstream answered so. Whether an answer is one is said here in the texts the upstream
  writes, and the third interpretation of \<open>pool_relation\<close> keeps the settings that take part in it.
\<close>

section \<open>Refusals\<close>

text \<open>The body has the text, and when it is JSON it has it as its \<open>reason\<close>, at the top or below \<open>error\<close>.\<close>

definition gives_reason :: "(string \<Rightarrow> json option) \<Rightarrow> string \<Rightarrow> string set \<Rightarrow> bool" where
  "gives_reason parse body texts \<longleftrightarrow>
     (\<exists>r \<in> texts. contains body r) \<and>
     (\<forall>j. parse body = Some j \<longrightarrow>
        (\<exists>r \<in> texts. json_get j ''reason'' = Some (JString r) \<or>
           (\<exists>e. json_get j ''error'' = Some e \<and> json_get e ''reason'' = Some (JString r))))"

definition quota_refusal :: "(string \<Rightarrow> json option) \<Rightarrow> answer \<Rightarrow> bool" where
  "quota_refusal parse a \<longleftrightarrow>
     an_status a = 402 \<and>
     (\<exists>body. an_body a = Inr body \<and>
        gives_reason parse body {''MONTHLY_REQUEST_COUNT'', ''OVERAGE_REQUEST_LIMIT_EXCEEDED''})"

definition ban_refusal :: "(string \<Rightarrow> json option) \<Rightarrow> bool \<times> string list \<Rightarrow> answer \<Rightarrow> bool" where
  "ban_refusal parse settings a \<longleftrightarrow>
     fst settings \<and> \<not> (200 \<le> an_status a \<and> an_status a < 300) \<and> an_status a \<noteq> 400 \<and> \<not> quota_refusal parse a \<and>
     (\<exists>body. an_body a = Inr body \<and>
        \<not> (500 \<le> an_status a \<and> an_status a < 600 \<and>
           (\<exists>j. parse body = Some j \<and> json_get j ''reason'' = Some (JString ''MODEL_TEMPORARILY_UNAVAILABLE''))) \<and>
        (gives_reason parse body {''TEMPORARILY_SUSPENDED''} \<or>
         contains (to_ascii_lowercase body) ''suspended'' \<and>
           (contains (to_ascii_lowercase body) ''locked your account'' \<or> contains (to_ascii_lowercase body) ''locked it'') \<or>
         (\<exists>word \<in> set (snd settings). word \<noteq> [] \<and>
            contains (to_ascii_lowercase body) (to_ascii_lowercase word))))"

lemma reason_of_Some: "reason_of j = Some r \<longleftrightarrow> json_get j ''reason'' = Some (JString r)"
proof -
  have "Json.as_str x = Some r \<longleftrightarrow> x = JString r" for x by (cases x) (simp_all add: Json.as_str_def)
  then show ?thesis by (simp add: reason_of_def bind_eq_Some_conv)
qed

lemma reasons_in: "r \<in> set (reasons j) \<longleftrightarrow>
  json_get j ''reason'' = Some (JString r) \<or>
  (\<exists>e. json_get j ''error'' = Some e \<and> json_get e ''reason'' = Some (JString r))"
proof -
  have "r \<in> set (reasons j) \<longleftrightarrow> reason_of j = Some r \<or> Option.bind (json_get j ''error'') reason_of = Some r"
    by (auto simp: reasons_def map_filter_def)
  then show ?thesis by (simp add: bind_eq_Some_conv reason_of_Some)
qed

lemma gives_reason_alt:
  "gives_reason parse body (set texts) \<longleftrightarrow> list_ex (contains body) texts \<and>
     (case parse body of Some j \<Rightarrow> list_ex (\<lambda>r. r \<in> set texts) (reasons j) | None \<Rightarrow> True)"
proof -
  have "list_ex (\<lambda>r. r \<in> set texts) rs \<longleftrightarrow> (\<exists>r \<in> set texts. r \<in> set rs)" for rs by (auto simp: list_ex_iff)
  then show ?thesis by (cases "parse body") (simp_all add: gives_reason_def list_ex_iff reasons_in)
qed

lemma monthly_limit_alt: "is_monthly_request_limit parse body =
  gives_reason parse body {''MONTHLY_REQUEST_COUNT'', ''OVERAGE_REQUEST_LIMIT_EXCEEDED''}"
proof -
  have "{''MONTHLY_REQUEST_COUNT'', ''OVERAGE_REQUEST_LIMIT_EXCEEDED''} = set QUOTA_EXHAUSTED_REASONS"
    by (simp add: QUOTA_EXHAUSTED_REASONS_def)
  then show ?thesis by (simp only: is_monthly_request_limit_def gives_reason_alt)
qed

lemma suspended_by_reason_alt: "suspended_by_reason parse body = gives_reason parse body {''TEMPORARILY_SUSPENDED''}"
  by (cases "parse body") (simp_all add: suspended_by_reason_def gives_reason_def SUSPENDED_REASON_def reasons_in)

definition settings_of :: "manager \<Rightarrow> bool \<times> string list" where
  "settings_of m = (m_suspended_detection_enabled m, m_suspended_ban_keywords m)"

lemma quota_refusal_alt:
  "quota_refusal parse a \<longleftrightarrow> an_status a = 402 \<and> (\<exists>body. an_body a = Inr body \<and> is_monthly_request_limit parse body)"
  by (simp add: quota_refusal_def monthly_limit_alt)

lemma ban_refusal_alt:
  "ban_refusal (ve_parse v) (settings_of m) a \<longleftrightarrow>
     \<not> answered_success a \<and> an_status a \<noteq> 400 \<and> \<not> quota_refusal (ve_parse v) a \<and>
     (\<exists>body. an_body a = Inr body \<and>
        \<not> (server_error a \<and> Option.bind (ve_parse v body) reason_of = Some ''MODEL_TEMPORARILY_UNAVAILABLE'') \<and>
        suspended_answer v body m)"
  by (auto simp: ban_refusal_def settings_of_def answered_success_def server_error_def bind_eq_Some_conv reason_of_Some
      suspended_answer_def is_account_suspended_def suspended_by_reason_alt matches_suspended_ban_keywords_def Let_def)

section \<open>Settings\<close>

definition same_settings :: "manager \<Rightarrow> manager \<Rightarrow> bool" where
  "same_settings m m' \<longleftrightarrow> settings_of m' = settings_of m"

lemma settings_update [simp]: "settings_of (update_entry i f m) = settings_of m"
  by (simp add: settings_of_def update_entry_def)

lemma settings_simps [simp]:
  "settings_of (m\<lparr>m_entries := es\<rparr>) = settings_of m" "settings_of (m\<lparr>m_current_id := i\<rparr>) = settings_of m"
  "settings_of (m\<lparr>m_session_affinity := a\<rparr>) = settings_of m"
  "settings_of (snd (persist_credentials env m)) = settings_of m"
  "settings_of (save_stats_debounced env m) = settings_of m"
  "settings_of (snd (switch_current p m)) = settings_of m"
  "settings_of (invalidate_model_cache i m) = settings_of m"
  by (simp_all add: settings_of_def persist_credentials_def save_stats_debounced_def save_stats_def switch_current_def
      invalidate_model_cache_def Let_def split: option.split)

lemma settings_reports [simp]:
  "settings_of (report_success_for_request env i model m) = settings_of m"
  "settings_of (snd (report_failure_for_request env i model grp m)) = settings_of m"
  "settings_of (snd (report_shut_down env r i model grp m)) = settings_of m"
  "settings_of (snd (report_refresh_failure env i m)) = settings_of m"
  "settings_of (snd (report_refresh_token_invalid env i m)) = settings_of m"
  by (simp_all add: report_success_for_request_def report_failure_for_request_def report_shut_down_def
      report_refresh_failure_def report_refresh_token_invalid_def Let_def split_beta split: option.split)

interpretation settings_kept: pool_relation same_settings
  by unfold_locales (simp_all add: same_settings_def)

text \<open>Acquiring a credential changes no settings.\<close>

definition keeps_settings :: "world \<Rightarrow> bool" where
  "keeps_settings w \<longleftrightarrow> (\<forall>m. settings_of (w_wait w m) = settings_of m \<and> settings_of (w_exchange w m) = settings_of m)"

lemma settings_select: "settings_of (snd (select_next_credential_impl env model grp upd claim m)) = settings_of m"
  by (simp add: select_next_credential_impl_def select_balanced_def select_priority_def Let_def split: option.split prod.split)

lemma settings_choose: "settings_of (snd (choose_credential env model grp session upd m)) = settings_of m"
proof -
  have s: "settings_of (snd (sticky_candidate env session model grp m)) = settings_of m"
    by (simp add: sticky_candidate_def Let_def split_beta split: option.split)
  have h: "settings_of (snd (try_self_heal env model grp m)) = settings_of m" for m
    by (simp add: try_self_heal_def Let_def)
  have "settings_of (snd (select_or_heal env model grp upd m)) = settings_of m" for m
    using settings_select [of env model grp upd upd] h
    by (simp add: select_or_heal_def split_beta split: option.split bool.split)
  moreover have "settings_of (snd (acquire_in_flight_guard i m)) = settings_of m" for i m
    by (simp add: acquire_in_flight_guard_def split: option.split)
  ultimately show ?thesis
    using s by (simp add: choose_credential_def split_beta split: option.split)
qed

lemma settings_ensure:
  assumes "keeps_settings w"
  shows "settings_of (snd (try_ensure_token g w i c m)) = settings_of m"
proof -
  have w: "settings_of (w_wait w m) = settings_of m" "settings_of (w_exchange w m) = settings_of m" for m
    using assms by (simp_all add: keeps_settings_def)
  have "settings_of (snd (refresh_locked g w i m)) = settings_of m" for m
    by (simp add: refresh_locked_def Let_def w split: option.split sum.split)
  then have "refresh_locked g w i m = (r, m') \<Longrightarrow> settings_of m' = settings_of m" for m r m' by (metis snd_conv)
  then show ?thesis
    by (auto simp: try_ensure_token_def w split: option.split sum.split prod.split)
qed

lemma settings_handle: "settings_of (snd (handle_token_refresh_error env i err m)) = settings_of m"
proof -
  have "settings_of (snd (try_reload_credential_from_file i m)) = settings_of m"
    by (simp add: try_reload_credential_from_file_def Let_def split: option.split)
  then show ?thesis
    by (simp add: handle_token_refresh_error_def split_beta split: ensure_error.split refresh_error.split bool.split)
qed

lemma settings_attempt:
  assumes "attempt g w model grp session upd m = (out, m')" "keeps_settings w"
  shows "settings_of m' = settings_of m"
proof -
  obtain sel route m1 where ch: "choose_credential (w_select w) model grp session upd m = ((sel, route), m1)"
    by (metis prod.exhaust)
  have 1: "settings_of m1 = settings_of m"
    using settings_choose [of "w_select w" model grp session upd m] by (simp add: ch)
  show ?thesis
  proof (cases sel)
    case None
    with assms(1) ch 1 show ?thesis by (auto simp: attempt_def)
  next
    case (Some s)
    then obtain i c guard where s: "sel = Some (i, c, guard)" by (cases s) auto
    define m2 where "m2 = (if upd then m1\<lparr>m_current_id := i\<rparr> else m1)"
    obtain res m3 where te: "try_ensure_token g w i c m2 = (res, m3)" by fastforce
    have 3: "settings_of m3 = settings_of m"
      using settings_ensure [OF assms(2), of g i c m2] te 1 by (simp add: m2_def split: if_splits)
    have d: "settings_of (drop_guard guard i m) = settings_of m" for m by (simp add: drop_guard_def)
    show ?thesis
    proof (cases res)
      case (Inl err)
      obtain h m4 where hd: "handle_token_refresh_error (w_done w) i err m3 = (h, m4)" by fastforce
      have "m' = drop_guard guard i m3 \<or> m' = drop_guard guard i m4"
        using assms(1) hd unfolding attempt_def Let_def ch s prod.case option.case m2_def [symmetric] te
        by (cases err; cases h) (auto simp: Inl split: option.splits if_splits)
      moreover have "settings_of m4 = settings_of m"
        using settings_handle [of "w_done w" i err m3] hd 3 by simp
      ultimately show ?thesis using 3 d by auto
    next
      case (Inr ctx)
      obtain ok m4 where r: "(if upd then record_request (w_done w) i m3 else (True, m3)) = (ok, m4)" by fastforce
      have "m' = m4 \<or> m' = drop_guard guard i m4"
        using assms(1) r unfolding attempt_def Let_def ch s prod.case option.case m2_def [symmetric] te
        by (cases ok) (simp_all add: Inr)
      moreover have "settings_of m4 = settings_of m"
        using r 3 by (auto simp: record_request_def Let_def split: if_splits option.splits)
      ultimately show ?thesis using d by auto
    qed
  qed
qed

lemma settings_acquire:
  assumes "\<forall>k. keeps_settings (worlds k)"
  shows "settings_of (snd (acquire_context_impl fuel g worlds model grp session upd m)) = settings_of m"
proof -
  have "settings_of (snd (acquire_loop fuel g worlds model grp session upd mx n m)) = settings_of m"
    if "\<forall>k. keeps_settings (worlds k)" for mx n m worlds
    using that
  proof (induction fuel arbitrary: worlds n m)
    case (Suc fuel)
    obtain out m1 where a: "attempt g (worlds 0) model grp session upd m = (out, m1)" by fastforce
    have "settings_of m1 = settings_of m" using settings_attempt [OF a] Suc.prems by blast
    with Suc.IH [of "\<lambda>k. worlds (Suc k)" _ m1] Suc.prems show ?case
      by (cases out) (simp_all add: a)
  qed simp
  then show ?thesis using assms by (simp add: acquire_context_impl_def)
qed

section \<open>What is recorded\<close>

text \<open>The status and the outcome of an event fit an answer of the upstream in this attempt.\<close>

definition explained ::
  "(string \<Rightarrow> json option) \<Rightarrow> bool \<times> string list \<Rightarrow> 'c attempt_world \<Rightarrow> trace_attempt \<Rightarrow> bool" where
  "explained parse settings w a \<longleftrightarrow>
     (case ta_status a of
        Some status \<Rightarrow>
          (\<exists>client request ans. aw_send w client request = Answered ans \<and> an_status ans = status \<and>
            (ta_outcome a = QuotaExhausted \<longleftrightarrow> quota_refusal parse ans) \<and>
            (ta_outcome a = AccountSuspended \<longleftrightarrow> ban_refusal parse settings ans))
      | None \<Rightarrow> ta_outcome a \<notin> {QuotaExhausted, AccountSuspended})"

text \<open>A step records one event, which is explained, or it ends the call without one.\<close>

definition noted ::
  "(trace_attempt \<Rightarrow> bool) \<Rightarrow> bool \<Rightarrow> nat \<Rightarrow> trace_event list \<Rightarrow> 'r step \<times> 'c call_state \<Rightarrow> bool" where
  "noted P traced k evs rs \<longleftrightarrow>
     (\<exists>a. vs_trace (snd rs) = evs @ [OnAttempt a] \<and> ta_attempt a = k \<and> P a) \<or>
     vs_trace (snd rs) = evs \<and> (traced \<longrightarrow> fst rs \<noteq> NextAttempt)"

lemma noted_emit:
  assumes "vs_trace (snd rs) = vs_trace (emit_attempt w traced k i endpoint status out msg s)"
    and "\<And>a. ta_status a = status \<Longrightarrow> ta_outcome a = out \<Longrightarrow> P a"
  shows "noted P traced k (vs_trace s) rs"
  using assms by (auto simp: noted_def emit_attempt_def split: if_splits)

lemma noted_none: "vs_trace (snd rs) = evs \<Longrightarrow> fst rs \<noteq> NextAttempt \<Longrightarrow> noted P traced k evs rs"
  by (simp add: noted_def)

lemma noted_answer:
  assumes "aw_send w client request = Answered a"
    and "vs_trace (snd rs) = vs_trace (note_answer w cl k ctx ep a out text s)"
    and "out = QuotaExhausted \<longleftrightarrow> quota_refusal parse a" "out = AccountSuspended \<longleftrightarrow> ban_refusal parse settings a"
  shows "noted (explained parse settings w) (cl_traced cl) k (vs_trace s) rs"
  using assms by (intro noted_emit [OF assms(2) [unfolded note_answer_def]]) (auto simp: explained_def)

lemma noted_account_throttled:
  assumes "aw_send w client request = Answered a" "an_status a = 429"
    and "\<not> quota_refusal parse a" "\<not> ban_refusal parse settings a"
  shows "noted (explained parse settings w) (cl_traced cl) k (vs_trace s) (account_throttled v w cl k ctx ep a body s)"
proof -
  obtain err others s1 where c: "cool_down v w cl ctx a s = (err, others, s1)" by (metis prod.exhaust)
  then have t: "vs_trace s1 = vs_trace s" by (auto simp: cool_down_def Let_def split: prod.splits)
  have "noted (explained parse settings w) (cl_traced cl) k (vs_trace s1) (account_throttled v w cl k ctx ep a body s)"
    by (rule noted_emit [where w = w and i = "cx_id ctx" and endpoint = "ep_name ep" and status = "Some 429" and
          out = AccountThrottled and msg = "Some body"])
      (use assms in \<open>auto simp: account_throttled_def c Let_def explained_def\<close>)
  then show ?thesis by (simp only: t)
qed

lemma noted_give_up:
  assumes "aw_send w client request = Answered a" "\<not> quota_refusal parse a" "\<not> ban_refusal parse settings a"
  shows "noted (explained parse settings w) (cl_traced cl) k (vs_trace s) (api_retry_or_give_up v w cl k ctx ep a body s)"
proof -
  note n = noted_answer [OF assms(1), where settings = settings and parse = parse]
  show ?thesis
    unfolding api_retry_or_give_up_def Let_def
    by (auto intro!: noted_account_throttled [OF assms(1) _ assms(2,3)] n simp: assms(2,3))
qed

lemma noted_api_refused:
  assumes "aw_send w client request = Answered a" "\<not> answered_success a"
  shows "noted (explained (ve_parse v) (settings_of (vs_manager s)) w) (cl_traced cl) k (vs_trace s)
    (api_refused v w cl k ctx ep a s)"
proof -
  note n = noted_answer [OF assms(1), where settings = "settings_of (vs_manager s)" and parse = "ve_parse v"]
  show ?thesis
    using assms(2) unfolding api_refused_def Let_def
    by (auto intro!: n noted_give_up [OF assms(1)] simp: quota_refusal_alt ban_refusal_alt server_error_def split: sum.split)
qed

lemma noted_api_exchange:
  assumes "undisturbed same_settings w"
  shows "noted (explained (ve_parse v) (settings_of (vs_manager s)) w) (cl_traced cl) k (vs_trace s)
    (api_exchange v w cl k ctx ep x s)"
proof -
  let ?P = "explained (ve_parse v) (settings_of (vs_manager s)) w"
  have "settings_of (aw_while_sending w m) = settings_of m" for m
    using assms by (simp add: undisturbed_def harmless_def same_settings_def)
  then have st: "settings_of (vs_manager (with_manager (aw_while_sending w) (s\<lparr>vs_clients := c\<rparr>))) = settings_of (vs_manager s)" for c
    by simp
  have r: "noted ?P (cl_traced cl) k (vs_trace s) (api_refused v w cl k ctx ep a (with_manager (aw_while_sending w) (s\<lparr>vs_clients := c\<rparr>)))"
    if "aw_send w client request = Answered a" "\<not> answered_success a" for a c client request
    using noted_api_refused [OF that, of v "with_manager (aw_while_sending w) (s\<lparr>vs_clients := c\<rparr>)" cl k ctx ep] st by simp
  have g: "noted ?P (cl_traced cl) k (vs_trace s) (api_succeeded w cl k ctx ep a (with_manager (aw_while_sending w) (s\<lparr>vs_clients := c\<rparr>)))"
    if "aw_send w client request = Answered a" "answered_success a" for a c client request
  proof (rule noted_emit)
    show "vs_trace (snd (api_succeeded w cl k ctx ep a (with_manager (aw_while_sending w) (s\<lparr>vs_clients := c\<rparr>)))) =
      vs_trace (emit_attempt w (cl_traced cl) k (cx_id ctx) (ep_name ep) (Some (an_status a)) TraceSuccess None s)"
      by (simp add: api_succeeded_def Let_def emit_attempt_def)
    have "\<not> quota_refusal (ve_parse v) a" "\<not> ban_refusal (ve_parse v) (settings_of (vs_manager s)) a"
      using that(2) by (auto simp: quota_refusal_def ban_refusal_def answered_success_def)
    with that(1) show "?P b" if "ta_status b = Some (an_status a)" "ta_outcome b = TraceSuccess" for b
      using that by (auto simp: explained_def)
  qed
  have e: "noted ?P (cl_traced cl) k (vs_trace s) rs"
    if "vs_trace (snd rs) = vs_trace (emit_attempt w (cl_traced cl) k (cx_id ctx) n None NetworkError msg s1)"
      "vs_trace s1 = vs_trace s" for n msg s1 and rs :: "call_result step \<times> 'a call_state"
    using noted_emit [OF that(1), of ?P] by (simp add: that(2) explained_def)
  have e: "noted ?P (cl_traced cl) k (vs_trace s)
      (fail err (emit_attempt w (cl_traced cl) k (cx_id ctx) n None NetworkError msg s1) :: call_result step \<times> 'a call_state)"
    "noted ?P (cl_traced cl) k (vs_trace s)
      (send_failed w cl k ctx why (emit_attempt w (cl_traced cl) k (cx_id ctx) n None NetworkError msg s1) :: call_result step \<times> 'a call_state)"
    if "vs_trace s1 = vs_trace s" for n msg s1 err why
    by (rule e [OF _ that]; simp)+
  show ?thesis
    unfolding api_exchange_def Let_def
    by (auto intro: r g noted_none intro!: e split: option.split prod.split sum.split send_result.split)
qed

definition leaves_settings :: "'c attempt_world \<Rightarrow> bool" where
  "leaves_settings w \<longleftrightarrow> (\<forall>j. keeps_settings (aw_acquire w j)) \<and> undisturbed same_settings w"

lemma trace_ensure_profile: "ensure_profile_arn v w ctx s = (r, s') \<Longrightarrow> vs_trace s' = vs_trace s"
  by (auto simp: ensure_profile_arn_def Let_def split: if_splits prod.splits sum.splits option.splits
      profile_error.splits)

lemma noted_with_endpoint:
  assumes "undisturbed same_settings w"
  shows "noted (explained (ve_parse v) (settings_of (vs_manager s)) w) (cl_traced cl) k (vs_trace s)
    (with_endpoint v w cl k ctx (\<lambda>ctx ep x. api_exchange v w cl k ctx ep x) s)"
proof -
  obtain r s1 where e: "ensure_profile_arn v w ctx s = (r, s1)" by fastforce
  note t1 = trace_ensure_profile [OF e]
  have 1: "settings_of (vs_manager s1) = settings_of (vs_manager s)"
    using settings_kept.kept_ensure_profile [OF assms, of s v ctx] e by (simp add: same_settings_def)
  have emit: "noted (explained (ve_parse v) S w) (cl_traced cl) k (vs_trace s) rs"
    if "vs_trace (snd rs) = vs_trace (emit_attempt w (cl_traced cl) k i n None out msg s0)" "vs_trace s0 = vs_trace s"
      "out = Transient \<or> out = UnknownOutcome" for i n out msg s0 S and rs :: "'r step \<times> 'c call_state"
    using noted_emit [OF that(1), of "explained (ve_parse v) S w"] that(2,3) by (auto simp: explained_def)
  show ?thesis
  proof (cases r)
    case (Inl err)
    with e t1 show ?thesis by (auto simp: with_endpoint_def intro!: emit)
  next
    case (Inr ctx')
    obtain x s2 where m: "make_context v w ctx' s1 = (x, s2)" by fastforce
    then have 2: "vs_manager s2 = vs_manager s1" "vs_trace s2 = vs_trace s"
      using t1 by (auto simp: make_context_def split: prod.splits)
    show ?thesis
    proof (cases "endpoint_for v (cx_credentials ctx')")
      case (Inl why)
      with e \<open>r = Inr ctx'\<close> m 2 show ?thesis by (auto simp: with_endpoint_def intro!: emit)
    next
      case (Inr ep)
      with noted_api_exchange [OF assms, of v s2 cl k ctx' ep x] e m 2 1 \<open>r = Inr ctx'\<close> show ?thesis
        by (simp add: with_endpoint_def)
    qed
  qed
qed

end
