(* ===== verification/UpstreamTrace.thy ===== *)
theory UpstreamTrace
  imports UpstreamEvidence
begin

text \<open>
  A whole call: it leaks no request in flight; its attempts are numbered and there are at most four of
  them; and after a credential was declared banned or exhausted no later attempt uses it.
\<close>

section \<open>One attempt\<close>

definition steady_attempt :: "'c attempt_world \<Rightarrow> bool" where
  "steady_attempt w \<longleftrightarrow> (\<forall>j. steady_world (aw_acquire w j)) \<and> undisturbed same_flights w \<and>
     undisturbed same_standing w"

lemma undisturbed_out: "undisturbed same_standing w \<Longrightarrow> undisturbed keeps_out w"
  by (simp add: undisturbed_def harmless_def same_standing_out)

fun attempt_event :: "trace_event \<Rightarrow> trace_attempt option" where
  "attempt_event (OnAttempt a) = Some a"
| "attempt_event (OnRoute session route) = None"

definition attempts_of :: "trace_event list \<Rightarrow> trace_attempt list" where
  "attempts_of evs = List.map_filter attempt_event evs"

lemma attempts_of_append [simp]: "attempts_of (xs @ ys) = attempts_of xs @ attempts_of ys"
  by (simp add: attempts_of_def map_filter_def)

lemma attempts_of_simps [simp]:
  "attempts_of [] = []" "attempts_of [OnAttempt a] = [a]" "attempts_of [OnRoute session route] = []"
  by (simp_all add: attempts_of_def map_filter_def)

lemma records_with_endpoint:
  assumes exchange: "\<And>ctx ep x s. (b \<Longrightarrow> in_service (cx_id ctx) (vs_manager s)) \<Longrightarrow>
      records b k (cx_id ctx) s (snd (exchange ctx ep x s))"
    and b: "b \<Longrightarrow> undisturbed same_standing w \<and> in_service (cx_id ctx) (vs_manager s)"
  shows "records b k (cx_id ctx) s (snd (with_endpoint v w cl k ctx exchange s))"
proof -
  obtain r s1 where e: "ensure_profile_arn v w ctx s = (r, s1)" by fastforce
  note t1 = trace_ensure_profile [OF e]
  have emit: "records b k i s s'" if "vs_trace s0 = vs_trace s"
      "vs_trace s' = vs_trace (emit_attempt w tr k i n st out msg s0)" "out = Transient \<or> out = UnknownOutcome"
    for i s0 s' tr n st out msg
    using that by (intro records_then [OF that(1)] records_emit [OF that(2)]) auto
  show ?thesis
  proof (cases r)
    case (Inl err)
    have "records b k (cx_id ctx) s (emit_attempt w (cl_traced cl) k (cx_id ctx) [] None Transient
        (Some (rate_limit_text err)) s1)"
      by (rule emit [OF t1 refl]) simp
    with e Inl show ?thesis by (simp add: with_endpoint_def fail_def)
  next
    case (Inr ctx')
    obtain x s2 where m: "make_context v w ctx' s1 = (x, s2)" by fastforce
    then have m2: "vs_manager s2 = vs_manager s1" and t2: "vs_trace s2 = vs_trace s"
      using t1 by (auto simp: make_context_def split: prod.splits)
    have id: "cx_id ctx' = cx_id ctx" using ensure_profile_context e Inr by blast
    have ins: "in_service (cx_id ctx') (vs_manager s2)" if b
      using b [OF that] standing_kept.kept_ensure_profile [of w s v ctx] e m2 id
      by (simp add: same_standing_in)
    have "records b k (cx_id ctx) s (snd (exchange ctx' ep x s2))" for ep
      using records_then [OF t2 exchange [of ctx' s2 ep x]] ins id by simp
    moreover have "records b k (cx_id ctx) s (snd (next_attempt err (with_manager f (emit_attempt w (cl_traced cl) k
        (cx_id ctx) [] None UnknownOutcome (Some msg) s2))))" for err f msg
    proof -
      have t: "vs_trace (snd (next_attempt err (with_manager f s3))) = vs_trace s3" for s3 by simp
      show ?thesis by (rule emit [OF t2 t]) simp
    qed
    ultimately show ?thesis
      using e Inr m id by (auto simp: with_endpoint_def split: sum.split)
  qed
qed

lemma records_exchanges:
  assumes "b \<Longrightarrow> undisturbed same_standing w" "b \<Longrightarrow> in_service (cx_id ctx) (vs_manager s)"
  shows "records b k (cx_id ctx) s (snd (api_exchange v w cl k ctx ep x s))"
    and "records b k (cx_id ctx) s (snd (mcp_exchange v w cl k ctx ep x s))"
proof -
  have "b \<longrightarrow> in_service (cx_id ctx) (aw_while_sending w (vs_manager s))"
    using assms same_standing_in [of "vs_manager s" "aw_while_sending w (vs_manager s)"]
    by (auto simp: undisturbed_def harmless_def)
  then show "records b k (cx_id ctx) s (snd (api_exchange v w cl k ctx ep x s))"
    and "records b k (cx_id ctx) s (snd (mcp_exchange v w cl k ctx ep x s))"
    by (intro records_api_exchange records_mcp_exchange; simp)+
qed

text \<open>An attempt records at most one event of its own, for a credential that was in service (0 when there
  is none).\<close>

definition adds_attempt :: "bool \<Rightarrow> nat \<Rightarrow> 'c call_state \<Rightarrow> 'c call_state \<Rightarrow> bool" where
  "adds_attempt b k s s' \<longleftrightarrow>
     (b \<longrightarrow> keeps_out (vs_manager s) (vs_manager s')) \<and>
     (attempts_of (vs_trace s') = attempts_of (vs_trace s) \<or>
      (\<exists>a. attempts_of (vs_trace s') = attempts_of (vs_trace s) @ [a] \<and> ta_attempt a = k \<and>
         (b \<longrightarrow> (ta_credential a = 0 \<or> \<not> out_of_service (ta_credential a) (vs_manager s)) \<and>
            (declared_out a \<longrightarrow> out_of_service (ta_credential a) (vs_manager s')))))"

lemma attempts_note_route: "attempts_of (vs_trace (note_route cl k route s)) = attempts_of (vs_trace s)"
  by (simp add: note_route_def Let_def)

lemma end_of_attempt_state:
  "vs_trace (snd (end_of_attempt ctx rs)) = vs_trace (snd rs)"
  "same_standing (vs_manager (snd rs)) (vs_manager (snd (end_of_attempt ctx rs)))"
  by (cases rs; auto simp: end_of_attempt_def drop_guard_standing split: step.split sum.split)+

lemma adds_attempt_exchange:
  assumes r: "records b k (cx_id ctx) s1 (snd rs)"
    and t: "attempts_of (vs_trace s1) = attempts_of (vs_trace s)"
    and k1: "b \<Longrightarrow> keeps_out (vs_manager s) (vs_manager s1)" and i: "b \<Longrightarrow> in_service (cx_id ctx) (vs_manager s1)"
    and k2: "b \<Longrightarrow> out_kept.kept s1 rs"
  shows "adds_attempt b k s (snd (end_of_attempt ctx rs))"
proof -
  have "\<not> out_of_service (cx_id ctx) (vs_manager s)" if b
    using k1 [OF that] i [OF that] in_not_out by (auto simp: keeps_out_def)
  moreover have e: "keeps_out (vs_manager (snd rs)) (vs_manager (snd (end_of_attempt ctx rs)))"
    by (rule same_standing_out [OF end_of_attempt_state(2)])
  moreover have "keeps_out (vs_manager s) (vs_manager (snd (end_of_attempt ctx rs)))" if b
    using k1 [OF that] k2 [OF that] e unfolding out_kept.kept_def by (blast intro: keeps_out_trans)
  ultimately show ?thesis
    using r t by (auto simp: adds_attempt_def records_def end_of_attempt_state keeps_out_def)
qed

lemma adds_attempt_failed:
  assumes "b \<Longrightarrow> keeps_out (vs_manager s) m"
  shows "adds_attempt b k s (snd (case acquire_failed w cl k err (s\<lparr>vs_manager := m\<rparr>) of (r, s) \<Rightarrow> (Some r, s)))"
  using assms
  by (auto simp: adds_attempt_def acquire_failed_def fail_def emit_attempt_def declared_out_def
      split: acquire_error.split)

lemma acquire_results:
  obtains "r = None" | err where "r = Some (Inl err)" | ctx bal route where "r = Some (Inr (ctx, bal, route))"
  by (metis not_None_eq prod.exhaust sum.exhaust)

lemma adds_attempt_acquired:
  fixes w :: "'c attempt_world"
  assumes w: "b \<Longrightarrow> undisturbed same_standing w"
    and m: "b \<Longrightarrow> keeps_out (vs_manager s) m \<and> in_service (cx_id ctx) m"
    and s1: "same_standing m (vs_manager s1)" "attempts_of (vs_trace s1) = attempts_of (vs_trace s)"
    and exchange: "\<And>ctx ep x s. (b \<Longrightarrow> in_service (cx_id ctx) (vs_manager s)) \<Longrightarrow>
      records b k (cx_id ctx) s (snd (exchange ctx ep x s))"
      "\<And>ctx ep x s. b \<Longrightarrow> out_kept.kept s (exchange ctx ep x s)"
  shows "adds_attempt b k s (snd (end_of_attempt ctx (with_endpoint v w cl k ctx exchange s1)))"
proof (rule adds_attempt_exchange [where ?s1.0 = s1])
  show i: "in_service (cx_id ctx) (vs_manager s1)" if b
    using m [OF that] s1(1) by (simp add: same_standing_in)
  show "records b k (cx_id ctx) s1 (snd (with_endpoint v w cl k ctx exchange s1))"
    using w i by (intro records_with_endpoint exchange(1)) auto
  show "attempts_of (vs_trace s1) = attempts_of (vs_trace s)" by (rule s1(2))
  show "keeps_out (vs_manager s) (vs_manager s1)" if b
    using m [OF that] s1(1) by (blast intro: keeps_out_trans same_standing_out)
  show "out_kept.kept s1 (with_endpoint v w cl k ctx exchange s1)" if b
    by (intro out_kept.kept_with_endpoint undisturbed_out w exchange(2) that)
qed

lemma adds_attempt_api:
  assumes "b \<Longrightarrow> steady_attempt w" "b \<Longrightarrow> distinct_ids (vs_manager s)"
  shows "adds_attempt b k s (snd (api_attempt v w cl k s))"
proof -
  obtain r m where a: "acquire_context_impl (ve_fuel v) (gc_regions (ve_config v)) (aw_acquire w) (cl_model cl)
      (cl_group cl) (cl_session cl) True (vs_manager s) = (r, m)" by fastforce
  have st: "keeps_out (vs_manager s) m \<and> (\<forall>ctx bal route. r = Some (Inr (ctx, bal, route)) \<longrightarrow> in_service (cx_id ctx) m)" if b
    using acquire_standing [OF a] assms(1) [OF that] assms(2) [OF that] by (simp add: steady_attempt_def)
  have u: "b \<Longrightarrow> undisturbed same_standing w" using assms(1) by (simp add: steady_attempt_def)
  show ?thesis
  proof (cases r rule: acquire_results)
    case (3 ctx bal route)
    let ?s = "note_route cl k route (s\<lparr>vs_manager := m\<rparr>)"
    have n: "same_standing m (vs_manager ?s)"
      using standing_kept.kept_note_route [of "s\<lparr>vs_manager := m\<rparr>" cl k route] by simp
    have "adds_attempt b k s (snd (end_of_attempt ctx
        (with_endpoint v w cl k ctx (\<lambda>ctx ep x. api_exchange v w cl k ctx ep x) ?s)))"
      using st 3 by (intro adds_attempt_acquired [OF u _ n] records_exchanges u out_kept.kept_api_exchange
          undisturbed_out) (auto simp: attempts_note_route)
    with a 3 show ?thesis by (simp add: api_attempt_def)
  qed (use a st in \<open>auto simp: api_attempt_def adds_attempt_def adds_attempt_failed [unfolded adds_attempt_def]\<close>)
qed

lemma adds_attempt_mcp:
  assumes "b \<Longrightarrow> steady_attempt w" "b \<Longrightarrow> distinct_ids (vs_manager s)"
  shows "adds_attempt b k s (snd (mcp_attempt v w cl k s))"
proof -
  obtain r m where a: "acquire_context_impl (ve_fuel v) (gc_regions (ve_config v)) (aw_acquire w) None
      (cl_group cl) None True (vs_manager s) = (r, m)" by fastforce
  have st: "keeps_out (vs_manager s) m \<and> (\<forall>ctx bal route. r = Some (Inr (ctx, bal, route)) \<longrightarrow> in_service (cx_id ctx) m)" if b
    using acquire_standing [OF a] assms(1) [OF that] assms(2) [OF that] by (simp add: steady_attempt_def)
  have u: "b \<Longrightarrow> undisturbed same_standing w" using assms(1) by (simp add: steady_attempt_def)
  show ?thesis
  proof (cases r rule: acquire_results)
    case (3 ctx bal route)
    have "adds_attempt b k s (snd (end_of_attempt ctx
        (with_endpoint v w cl k ctx (\<lambda>ctx ep x. mcp_exchange v w cl k ctx ep x) (s\<lparr>vs_manager := m\<rparr>))))"
      using st 3 by (intro adds_attempt_acquired [OF u, where m = m] records_exchanges u out_kept.kept_mcp_exchange
          undisturbed_out) auto
    with a 3 show ?thesis by (simp add: mcp_attempt_def)
  qed (use a st in \<open>auto simp: mcp_attempt_def adds_attempt_def adds_attempt_failed [unfolded adds_attempt_def]\<close>)
qed

section \<open>Requests in flight\<close>

text \<open>C15: No call leaks a request in flight. A model call that returns a reply counts exactly one more,
  for the credential that answered, until the reply has been read; a call that fails, after however
  many attempts, refreshes and reports, leaves every count as it was.\<close>

theorem api_call_guards:
  assumes "\<forall>k. leaves_flights (ws k)" and "distinct_ids (vs_manager s)"
  shows "case call_api_with_retry v ws body is_stream traced grp s of
      (Some (Inr r), s') \<Rightarrow> kr_guard r \<and>
        (\<forall>j. get_in_flight j (vs_manager s') =
           get_in_flight j (vs_manager s) + (if j = kr_credential r then 1 else 0))
    | (_, s') \<Rightarrow> (\<forall>j. get_in_flight j (vs_manager s') = get_in_flight j (vs_manager s))"
  using balanced_call(1) [OF assms, of v body is_stream traced grp]
  by (auto simp: balanced_result_def api_guard_def one_more_def split: prod.splits option.splits sum.splits)

text \<open>An MCP call whose reply is read by the gateway itself leaves every count of requests in flight
  as it was, whether it succeeds, its reply is invalid, or it fails.\<close>

lemma mcp_call_guards:
  assumes "\<forall>k. leaves_flights (ws k)" and "distinct_ids (vs_manager s)"
  shows "get_in_flight j (vs_manager (snd (call_mcp_with_trace v ws w validate is_benign_error body grp s)))
    = get_in_flight j (vs_manager s)"
proof -
  obtain r s1 where c: "call_mcp_with_retry v ws body True grp s = (r, s1)" by fastforce
  note b = balanced_call(2) [OF assms, of v body True grp, unfolded c]
  have "one_more False 0 (vs_manager s) (vs_manager (snd (call_mcp_with_trace v ws w validate is_benign_error body grp s)))"
  proof (cases r)
    case None
    with b c show ?thesis by (simp add: call_mcp_with_trace_def balanced_result_def)
  next
    case (Some ro)
    show ?thesis
    proof (cases ro)
      case (Inl e)
      with b c Some show ?thesis by (simp add: call_mcp_with_trace_def balanced_result_def)
    next
      case (Inr x)
      obtain t s2 where fin: "finish_mcp_trace w validate is_benign_error x s1 = (t, s2)" by fastforce
      then have "flights (vs_manager s2) = flights (vs_manager s1)"
        by (auto simp: finish_mcp_trace_def Let_def flights_success split: sum.splits if_splits)
      with b Some Inr have "one_more True (mr_credential x) (vs_manager s) (vs_manager s2)" "mr_guard x"
        by (auto simp: balanced_result_def mcp_guard_def intro: one_more_then)
      then have "one_more False (mr_credential x) (vs_manager s) (drop_guard (mr_guard x) (mr_credential x) (vs_manager s2))"
        by (auto intro: one_more_release)
      with c Some Inr fin show ?thesis by (simp add: call_mcp_with_trace_def one_more_def)
    qed
  qed
  then show ?thesis by (simp add: one_more_def)
qed

section \<open>A whole call\<close>

text \<open>The later attempt does not use a credential that the earlier one declared out.\<close>

definition spared :: "trace_attempt \<Rightarrow> trace_attempt \<Rightarrow> bool" where
  "spared earlier later \<longleftrightarrow>
     (declared_out earlier \<and> ta_credential later \<noteq> 0 \<longrightarrow> ta_credential later \<noteq> ta_credential earlier)"

definition before :: "trace_attempt \<Rightarrow> trace_attempt \<Rightarrow> bool" where
  "before earlier later \<longleftrightarrow> ta_attempt earlier < ta_attempt later"

definition trace_ok :: "bool \<Rightarrow> nat \<Rightarrow> 'c call_state \<Rightarrow> bool" where
  "trace_ok b k s \<longleftrightarrow>
     sorted_wrt before (attempts_of (vs_trace s)) \<and> length (attempts_of (vs_trace s)) \<le> k \<and>
     (\<forall>a \<in> set (attempts_of (vs_trace s)). ta_attempt a < k) \<and>
     (b \<longrightarrow> sorted_wrt spared (attempts_of (vs_trace s)) \<and>
        (\<forall>a \<in> set (attempts_of (vs_trace s)). declared_out a \<longrightarrow> out_of_service (ta_credential a) (vs_manager s)))"

lemma trace_ok_step:
  assumes ok: "trace_ok b k s" and add: "adds_attempt b k s s'"
  shows "trace_ok b (Suc k) s'"
proof -
  have out: "declared_out x \<Longrightarrow> out_of_service (ta_credential x) (vs_manager s')"
    if "b" "x \<in> set (attempts_of (vs_trace s))" for x
    using ok add that by (auto simp: trace_ok_def adds_attempt_def keeps_out_def)
  show ?thesis
  proof (cases "attempts_of (vs_trace s') = attempts_of (vs_trace s)")
    case True
    with ok out show ?thesis by (auto simp: trace_ok_def less_Suc_eq)
  next
    case False
    with add obtain a where a: "attempts_of (vs_trace s') = attempts_of (vs_trace s) @ [a]" "ta_attempt a = k"
      "b \<Longrightarrow> (ta_credential a = 0 \<or> \<not> out_of_service (ta_credential a) (vs_manager s)) \<and>
         (declared_out a \<longrightarrow> out_of_service (ta_credential a) (vs_manager s'))"
      by (auto simp: adds_attempt_def)
    have "spared x a" if "b" "x \<in> set (attempts_of (vs_trace s))" for x
      using ok a(3) that by (auto simp: spared_def trace_ok_def)
    with ok out a show ?thesis
      by (auto simp: trace_ok_def sorted_wrt_append before_def less_Suc_eq)
  qed
qed

lemma trace_ok_mono: "trace_ok b k s \<Longrightarrow> k \<le> k' \<Longrightarrow> trace_ok b k' s"
  by (auto simp: trace_ok_def)

lemma trace_ok_loop:
  assumes run: "\<And>k s. (b \<Longrightarrow> distinct_ids (vs_manager s)) \<Longrightarrow> adds_attempt b k s (snd (run k s))"
    and ids: "\<And>k s s'. b \<Longrightarrow> distinct_ids (vs_manager s) \<Longrightarrow> run k s = (Some NextAttempt, s') \<Longrightarrow>
      distinct_ids (vs_manager s')"
    and "trace_ok b k s" "b \<Longrightarrow> distinct_ids (vs_manager s)"
  shows "trace_ok b (k + n) (snd (attempts_loop run cl n k s))"
  using assms(3,4)
proof (induction n arbitrary: k s)
  case (Suc n)
  obtain r s' where r: "run k s = (r, s')" by fastforce
  with trace_ok_step [OF Suc.prems(1) run [OF Suc.prems(2)]] have ok: "trace_ok b (Suc k) s'" by simp
  show ?case
  proof (cases "r = Some NextAttempt")
    case True
    with Suc.IH [OF ok] ids [OF _ Suc.prems(2)] r show ?thesis by simp
  next
    case False
    then have "snd (attempts_loop run cl (Suc n) k s) = s'"
      using r by (auto split: option.split step.split)
    with trace_ok_mono [OF ok] show ?thesis by simp
  qed
qed simp

lemma steady_leaves_flights: "steady_attempt w \<Longrightarrow> leaves_flights w"
  by (simp add: steady_attempt_def leaves_flights_def steady_world_def)

lemma balanced_next_ids:
  "balanced_step f m (Some NextAttempt, s') \<Longrightarrow> distinct_ids m \<Longrightarrow> distinct_ids (vs_manager s')"
  by (simp add: balanced_step_def distinct_ids_flights one_more_def)

lemma trace_ok_call:
  assumes "b \<Longrightarrow> \<forall>k. steady_attempt (ws k)" "b \<Longrightarrow> distinct_ids (vs_manager s)"
  shows "trace_ok b (max_retries_of grp (vs_manager s)) (snd (call_api_with_retry v ws body is_stream traced grp s))"
    and "trace_ok b (max_retries_of grp (vs_manager s)) (snd (call_mcp_with_retry v ws body traced grp s))"
proof -
  let ?n = "max_retries_of grp (vs_manager s)"
  have f: "trace_ok b 0 (fresh_call s)" by (simp add: trace_ok_def fresh_call_def)
  have api: "distinct_ids (vs_manager s2)"
    if b "distinct_ids (vs_manager s1)" "api_attempt v (ws k) cl k s1 = (Some NextAttempt, s2)" for k cl s1 s2
  proof -
    have "balanced_step api_guard (vs_manager s1) (Some NextAttempt, s2)"
      using balanced_api_attempt [of "ws k" s1 v cl k] steady_leaves_flights [of "ws k"] that assms(1) by simp
    then show ?thesis by (rule balanced_next_ids) (rule that(2))
  qed
  have mcp: "distinct_ids (vs_manager s2)"
    if b "distinct_ids (vs_manager s1)" "mcp_attempt v (ws k) cl k s1 = (Some NextAttempt, s2)" for k cl s1 s2
  proof -
    have "balanced_step mcp_guard (vs_manager s1) (Some NextAttempt, s2)"
      using balanced_mcp_attempt [of "ws k" s1 v cl k] steady_leaves_flights [of "ws k"] that assms(1) by simp
    then show ?thesis by (rule balanced_next_ids) (rule that(2))
  qed
  have "trace_ok b (0 + ?n) (snd (attempts_loop (\<lambda>k. api_attempt v (ws k) cl k) cl ?n 0 (fresh_call s)))" for cl
  proof (rule trace_ok_loop)
    show "adds_attempt b k s' (snd (api_attempt v (ws k) cl k s'))" if "b \<Longrightarrow> distinct_ids (vs_manager s')" for k s'
      by (intro adds_attempt_api that) (rule assms(1) [THEN spec])
    show "distinct_ids (vs_manager s2)"
      if b "distinct_ids (vs_manager s1)" "api_attempt v (ws k) cl k s1 = (Some NextAttempt, s2)" for k s1 s2
      using that by (rule api)
  qed (use f assms(2) in simp_all)
  then show "trace_ok b ?n (snd (call_api_with_retry v ws body is_stream traced grp s))"
    by (simp add: call_api_with_retry_def Let_def split: prod.split)
  have "trace_ok b (0 + ?n) (snd (attempts_loop (\<lambda>k. mcp_attempt v (ws k) cl k) cl ?n 0 (fresh_call s)))" for cl
  proof (rule trace_ok_loop)
    show "adds_attempt b k s' (snd (mcp_attempt v (ws k) cl k s'))" if "b \<Longrightarrow> distinct_ids (vs_manager s')" for k s'
      by (intro adds_attempt_mcp that) (rule assms(1) [THEN spec])
    show "distinct_ids (vs_manager s2)"
      if b "distinct_ids (vs_manager s1)" "mcp_attempt v (ws k) cl k s1 = (Some NextAttempt, s2)" for k s1 s2
      using that by (rule mcp)
  qed (use f assms(2) in simp_all)
  then show "trace_ok b ?n (snd (call_mcp_with_retry v ws body traced grp s))"
    by (simp add: call_mcp_with_retry_def Let_def)
qed

text \<open>An attempt sees only its own world.\<close>

lemma attempts_loop_cong:
  assumes "\<And>j s. k \<le> j \<Longrightarrow> j < k + n \<Longrightarrow> run' j s = run j s"
  shows "attempts_loop run' cl n k s = attempts_loop run cl n k s"
  using assms
proof (induction n arbitrary: k s)
  case (Suc n)
  have "run' k s = run k s" by (rule Suc.prems) simp_all
  moreover have "attempts_loop run' cl n (Suc k) s' = attempts_loop run cl n (Suc k) s'" for s'
    by (rule Suc.IH) (simp add: Suc.prems)
  ultimately show ?case by (simp split: prod.split option.split step.split)
qed simp

text \<open>C18: A call makes at most four attempts, and at most three times as many as there are credentials in the
  group (three, when there is none); this bounds the attempts of the call, not those with one credential.
  What it returns and does depends on the first so many worlds only, and its trace has at most one event for
  each of these attempts, in ascending order.\<close>

theorem call_attempts_bounded:
  assumes "\<forall>k < min (3 * max (total_count_in_group grp (vs_manager s)) 1) 4. ws' k = ws k"
  shows "call_api_with_retry v ws' body is_stream traced grp s = call_api_with_retry v ws body is_stream traced grp s \<and>
    (let made = map ta_attempt (attempts_of (vs_trace (snd (call_api_with_retry v ws body is_stream traced grp s)))) in
       sorted_wrt (<) made \<and> length made \<le> 4 \<and>
       (\<forall>k \<in> set made. k < 3 * max (total_count_in_group grp (vs_manager s)) 1))"
proof -
  have n: "max_retries_of grp (vs_manager s) = min (3 * max (total_count_in_group grp (vs_manager s)) 1) 4"
    by (simp add: max_retries_of_def MAX_RETRIES_PER_CREDENTIAL_def MAX_TOTAL_RETRIES_def mult.commute)
  have "attempts_loop (\<lambda>k. api_attempt v (ws' k) cl k) cl (max_retries_of grp (vs_manager s)) 0 s1
      = attempts_loop (\<lambda>k. api_attempt v (ws k) cl k) cl (max_retries_of grp (vs_manager s)) 0 s1" for cl s1
    by (rule attempts_loop_cong) (use assms n in simp)
  then have "call_api_with_retry v ws' body is_stream traced grp s = call_api_with_retry v ws body is_stream traced grp s"
    by (simp add: call_api_with_retry_def Let_def)
  moreover have "trace_ok False (max_retries_of grp (vs_manager s)) (snd (call_api_with_retry v ws body is_stream traced grp s))"
    by (rule trace_ok_call) simp_all
  moreover have "sorted_wrt (<) (map ta_attempt as) = sorted_wrt before as" for as
    by (simp add: sorted_wrt_map before_def [abs_def])
  ultimately show ?thesis using n by (auto simp: trace_ok_def Let_def)
qed

text \<open>The events of a call fit the answers, and none is missing while the call goes on.\<close>

definition told :: "(nat \<Rightarrow> trace_attempt \<Rightarrow> bool) \<Rightarrow> bool \<Rightarrow> 'c call_state \<Rightarrow> nat \<Rightarrow> bool" where
  "told P traced s n \<longleftrightarrow>
     (\<forall>a \<in> set (attempts_of (vs_trace s)). P (ta_attempt a) a) \<and>
     (traced \<longrightarrow> map ta_attempt (attempts_of (vs_trace s)) = [0..<n])"

lemma noted_attempt:
  assumes "leaves_settings w" "api_attempt v w cl k s = (r, s')"
  shows "settings_of (vs_manager s') = settings_of (vs_manager s) \<and>
    ((\<exists>a. attempts_of (vs_trace s') = attempts_of (vs_trace s) @ [a] \<and> ta_attempt a = k \<and>
        explained (ve_parse v) (settings_of (vs_manager s)) w a) \<or>
     attempts_of (vs_trace s') = attempts_of (vs_trace s) \<and> (cl_traced cl \<longrightarrow> r \<noteq> Some NextAttempt))"
proof -
  obtain q m where a: "acquire_context_impl (ve_fuel v) (gc_regions (ve_config v)) (aw_acquire w) (cl_model cl)
      (cl_group cl) (cl_session cl) True (vs_manager s) = (q, m)" by fastforce
  have u: "undisturbed same_settings w" using assms(1) by (simp add: leaves_settings_def)
  have m: "settings_of m = settings_of (vs_manager s)"
    using settings_acquire [of "aw_acquire w" "ve_fuel v" "gc_regions (ve_config v)" "cl_model cl" "cl_group cl"
        "cl_session cl" True "vs_manager s"] assms(1) a by (simp add: leaves_settings_def)
  show ?thesis
  proof (cases q rule: acquire_results)
    case (3 ctx bal route)
    define s1 where "s1 = note_route cl k route (s\<lparr>vs_manager := m\<rparr>)"
    have n: "settings_of (vs_manager s1) = settings_of (vs_manager s)" "attempts_of (vs_trace s1) = attempts_of (vs_trace s)"
      using settings_kept.kept_note_route [of "s\<lparr>vs_manager := m\<rparr>" cl k route] m
      by (simp_all add: s1_def same_settings_def attempts_note_route)
    obtain st s2 where w: "with_endpoint v w cl k ctx (\<lambda>ctx ep x. api_exchange v w cl k ctx ep x) s1 = (st, s2)" by fastforce
    have "settings_kept.kept s1 (with_endpoint v w cl k ctx (\<lambda>ctx ep x. api_exchange v w cl k ctx ep x) s1)"
      by (intro settings_kept.kept_with_endpoint settings_kept.kept_api_exchange u)
    then have 2: "settings_of (vs_manager s2) = settings_of (vs_manager s)"
      using w n(1) by (simp add: same_settings_def)
    from assms(2) a 3 w have e: "end_of_attempt ctx (st, s2) = (r, s')" by (simp add: api_attempt_def s1_def)
    then have t: "vs_trace s' = vs_trace s2" "settings_of (vs_manager s') = settings_of (vs_manager s2)" "r = Some st"
      by (auto simp: end_of_attempt_def drop_guard_def split: step.splits sum.splits)
    from noted_with_endpoint [OF u, of v s1 cl k ctx] w n t 2 show ?thesis
      by (auto simp: noted_def)
  next
    case 1
    with a m assms(2) show ?thesis by (auto simp: api_attempt_def)
  next
    case (2 err)
    with a m assms(2) show ?thesis
      by (cases err) (auto simp: api_attempt_def acquire_failed_def fail_def emit_attempt_def explained_def
          split: if_splits)
  qed
qed

lemma told_loop:
  assumes run: "\<And>k s r s'. run k s = (r, s') \<Longrightarrow> settings_of (vs_manager s) = S \<Longrightarrow>
      settings_of (vs_manager s') = S \<and>
      ((\<exists>a. attempts_of (vs_trace s') = attempts_of (vs_trace s) @ [a] \<and> ta_attempt a = k \<and> P k a) \<or>
       attempts_of (vs_trace s') = attempts_of (vs_trace s) \<and> (traced \<longrightarrow> r \<noteq> Some NextAttempt))"
    and "told P traced s k" "settings_of (vs_manager s) = S"
  shows "\<exists>n. told P traced (snd (attempts_loop run cl j k s)) n"
  using assms(2,3)
proof (induction j arbitrary: k s)
  case (Suc j)
  obtain r s1 where r: "run k s = (r, s1)" by fastforce
  note st = run [OF r Suc.prems(2)]
  show ?case
  proof (cases "\<exists>a. attempts_of (vs_trace s1) = attempts_of (vs_trace s) @ [a] \<and> ta_attempt a = k \<and> P k a")
    case True
    then have "told P traced s1 (Suc k)" using Suc.prems(1) by (auto simp: told_def)
    moreover have "settings_of (vs_manager s1) = S" using st by blast
    ultimately show ?thesis using Suc.IH [of s1 "Suc k"] r by (auto split: option.split step.split)
  next
    case False
    with st have s1: "attempts_of (vs_trace s1) = attempts_of (vs_trace s)" "traced \<longrightarrow> r \<noteq> Some NextAttempt"
      "settings_of (vs_manager s1) = S" by blast+
    show ?thesis
    proof (cases "r = Some NextAttempt")
      case True
      with s1 Suc.prems(1) have "told P traced s1 (Suc k)" by (simp add: told_def)
      with Suc.IH [of s1 "Suc k"] r True s1 show ?thesis by simp
    next
      case False
      with s1 Suc.prems(1) r show ?thesis
        by (intro exI [of _ k]) (auto simp: told_def split: option.split step.split)
    qed
  qed
qed auto

lemma told_call:
  assumes "\<forall>k. leaves_settings (ws k)"
  shows "\<exists>n. told (\<lambda>k. explained (ve_parse v) (settings_of (vs_manager s)) (ws k)) traced
    (snd (call_api_with_retry v ws body is_stream traced grp s)) n"
proof -
  have "\<exists>n. told (\<lambda>k. explained (ve_parse v) (settings_of (vs_manager s)) (ws k)) (cl_traced cl)
      (snd (attempts_loop (\<lambda>k. api_attempt v (ws k) cl k) cl j 0 (fresh_call s))) n" for cl j
  proof (rule told_loop [where S = "settings_of (vs_manager s)"])
    fix k s1 r s'
    assume "api_attempt v (ws k) cl k s1 = (r, s')" and S: "settings_of (vs_manager s1) = settings_of (vs_manager s)"
    from noted_attempt [OF _ this(1)] assms show "settings_of (vs_manager s') = settings_of (vs_manager s) \<and>
      ((\<exists>a. attempts_of (vs_trace s') = attempts_of (vs_trace s1) @ [a] \<and> ta_attempt a = k \<and>
          explained (ve_parse v) (settings_of (vs_manager s)) (ws k) a) \<or>
       attempts_of (vs_trace s') = attempts_of (vs_trace s1) \<and> (cl_traced cl \<longrightarrow> r \<noteq> Some NextAttempt))"
      unfolding S by blast
  qed (simp_all add: told_def fresh_call_def)
  from this [of "\<lparr>cl_kind = (if is_stream then Streaming else NonStreaming), cl_body = body,
      cl_model = fst (extract_routing_hints (ve_parse v) body), cl_session = snd (extract_routing_hints (ve_parse v) body),
      cl_group = grp, cl_traced = traced, cl_max_retries = max_retries_of grp (vs_manager s)\<rparr>"
      "max_retries_of grp (vs_manager s)"]
  show ?thesis by (simp add: call_api_with_retry_def Let_def split_beta)
qed

text \<open>C16: A credential that an answer shows to be banned or exhausted is not used again by the call. When
  the other requests leave the state of the credentials alone, every later attempt in the trace is for
  another credential (or for none, written 0), and the credential is out of service at the end. And as long
  as nobody changes the settings of ban detection, an attempt is recorded as an exhausted quota exactly when
  the upstream answered it with a 402 that gives one of the two quota reasons, and as a ban exactly when it
  answered with another refusal that is not a 400 and gives the reason, the words or a configured keyword of
  a ban while detection is on; a traced call records each attempt that another one follows.\<close>

theorem lost_credentials_spared:
  assumes "\<forall>k. steady_attempt (ws k)" and "distinct_ids (vs_manager s)"
    and "call_api_with_retry v ws body is_stream traced grp s = (r, s')"
  shows "sorted_wrt (\<lambda>earlier later. ta_outcome earlier \<in> {QuotaExhausted, AccountSuspended} \<longrightarrow>
        ta_credential later \<in> {0} \<union> - {ta_credential earlier}) (attempts_of (vs_trace s')) \<and>
    (\<forall>a \<in> set (attempts_of (vs_trace s')). ta_outcome a \<in> {QuotaExhausted, AccountSuspended} \<longrightarrow>
        out_of_service (ta_credential a) (vs_manager s')) \<and>
    ((\<forall>k. leaves_settings (ws k)) \<longrightarrow>
      (\<forall>a \<in> set (attempts_of (vs_trace s')).
        explained (ve_parse v) (settings_of (vs_manager s)) (ws (ta_attempt a)) a) \<and>
      (traced \<longrightarrow> (\<exists>n. map ta_attempt (attempts_of (vs_trace s')) = [0..<n])))"
proof -
  have "trace_ok True (max_retries_of grp (vs_manager s)) s'"
    using trace_ok_call(1) [of True ws s grp v body is_stream traced] assms by simp
  then have "sorted_wrt spared (attempts_of (vs_trace s'))"
    "\<forall>a \<in> set (attempts_of (vs_trace s')). declared_out a \<longrightarrow> out_of_service (ta_credential a) (vs_manager s')"
    by (auto simp: trace_ok_def)
  moreover have "spared = (\<lambda>earlier later. ta_outcome earlier \<in> {QuotaExhausted, AccountSuspended} \<longrightarrow>
        ta_credential later \<in> {0} \<union> - {ta_credential earlier})"
    by (auto simp: spared_def declared_out_def fun_eq_iff)
  moreover have "\<exists>n. told (\<lambda>k. explained (ve_parse v) (settings_of (vs_manager s)) (ws k)) traced s' n"
    if "\<forall>k. leaves_settings (ws k)"
    using told_call [OF that, of v s traced body is_stream grp] assms(3) by simp
  ultimately show ?thesis by (auto simp: declared_out_def told_def)
qed

section \<open>A successful call\<close>

lemma loop_returns:
  assumes "\<forall>j s s'. run j s = (Some NextAttempt, s') \<and> I s \<longrightarrow> I s'"
  shows "attempts_loop run cl n k s = (Some (Inr r), s') \<Longrightarrow>
   \<exists>j s0. k \<le> j \<and> j < k + n \<and> run j s0 = (Some (Return (Inr r)), s') \<and> (I s \<longrightarrow> I s0)"
proof (induction n arbitrary: k s)
  case (Suc n)
  obtain o1 s1 where o: "run k s = (o1, s1)" by fastforce
  show ?case
  proof (cases "o1 = Some NextAttempt")
    case True
    with o Suc.prems have "attempts_loop run cl n (Suc k) s1 = (Some (Inr r), s')" by simp
    from Suc.IH [OF this] obtain j s0 where "Suc k \<le> j" "j < Suc k + n"
      "run j s0 = (Some (Return (Inr r)), s')" "I s1 \<longrightarrow> I s0" by blast
    then show ?thesis using assms o True by (intro exI [of _ j] exI [of _ s0]) auto
  next
    case False
    with o Suc.prems have "o1 = Some (Return (Inr r))" "s1 = s'"
      by (auto split: option.splits step.splits)
    with o show ?thesis by auto
  qed
qed simp

lemma attempt_next_ids:
  assumes "api_attempt v (ws k) cl k s = (Some NextAttempt, s')" "distinct_ids (vs_manager s) \<and> (\<forall>k. leaves_flights (ws k))"
  shows "distinct_ids (vs_manager s') \<and> (\<forall>k. leaves_flights (ws k))"
  using balanced_api_attempt [of "ws k" s v cl k] assms by (auto intro: balanced_next_ids)

lemma api_exchange_success:
  assumes "api_exchange v w cl k ctx ep x s = (Return (Inr r), s')"
  shows "\<exists>client body. fst (client_for (aw_build w) (m_proxy (vs_manager s)) (cx_credentials ctx) (vs_clients s)) = Inr client \<and>
      aw_send w client
        \<lparr>hr_url = ep_api_url ep x,
         hr_headers = (''content-type'', ep_content_type ep) # ep_decorate_api ep x (aw_uuid w 2), hr_body = body\<rparr>
        = Answered (kr_answer r) \<and>
      ep_transform_api_body ep (cl_body cl) x = Some body \<and> answered_success (kr_answer r) \<and>
      kr_credential r = cx_id ctx \<and> kr_guard r = cx_guard ctx \<and>
      vs_manager s' = bind_on_success (aw_env w) (cl_session cl) (cx_id ctx)
        (report_success_for_request (aw_env w) (cx_id ctx) (cl_model cl) (aw_while_sending w (vs_manager s))) \<and>
      (cl_traced cl \<longrightarrow> (\<exists>evs a. vs_trace s' = evs @ [OnAttempt a] \<and> ta_attempt a = k \<and>
         ta_credential a = cx_id ctx \<and> ta_outcome a = TraceSuccess))"
proof -
  obtain body where b: "ep_transform_api_body ep (cl_body cl) x = Some body"
    using assms by (cases "ep_transform_api_body ep (cl_body cl) x") (simp_all add: api_exchange_def fail_def)
  obtain c clients where c: "client_for (aw_build w) (m_proxy (vs_manager s)) (cx_credentials ctx) (vs_clients s)
      = (c, clients)" by fastforce
  then obtain client where cl: "c = Inr client"
    using assms b by (cases c) (simp_all add: api_exchange_def fail_def)
  let ?rq = "\<lparr>hr_url = ep_api_url ep x,
    hr_headers = (''content-type'', ep_content_type ep) # ep_decorate_api ep x (aw_uuid w 2), hr_body = body\<rparr>"
  let ?s = "with_manager (aw_while_sending w) (s\<lparr>vs_clients := clients\<rparr>)"
  show ?thesis
  proof (cases "aw_send w client ?rq")
    case (Answered a)
    have ok: "answered_success a"
    proof (rule ccontr)
      assume "\<not> answered_success a"
      with assms b c cl Answered have "fst (api_refused v w cl k ctx ep a ?s) = Return (Inr r)"
        by (simp add: api_exchange_def Let_def)
      then show False by simp
    qed
    with assms b c cl Answered have "api_succeeded w cl k ctx ep a ?s = (Return (Inr r), s')"
      by (simp add: api_exchange_def Let_def)
    then have "kr_answer r = a" "kr_credential r = cx_id ctx" "kr_guard r = cx_guard ctx"
      "vs_manager s' = bind_on_success (aw_env w) (cl_session cl) (cx_id ctx)
        (report_success_for_request (aw_env w) (cx_id ctx) (cl_model cl) (vs_manager ?s))"
      "cl_traced cl \<longrightarrow> (\<exists>evs a. vs_trace s' = evs @ [OnAttempt a] \<and> ta_attempt a = k \<and>
         ta_credential a = cx_id ctx \<and> ta_outcome a = TraceSuccess)"
      by (auto simp: api_succeeded_def Let_def emit_attempt_def)
    with Answered b c cl ok show ?thesis by auto
  next
    case (SendFailed timeout msg)
    let ?s2 = "emit_attempt w (cl_traced cl) k (cx_id ctx) (ep_name ep) None NetworkError (Some msg) ?s"
    from assms b c cl SendFailed have "fst (if timeout then fail UpstreamTimeout ?s2
        else send_failed w cl k ctx msg ?s2) = Return (Inr r)"
      by (simp add: api_exchange_def Let_def)
    then show ?thesis by (simp split: if_splits)
  qed (use assms b c cl in \<open>simp add: api_exchange_def Let_def fail_def\<close>)
qed

text \<open>The credentials a request is made with are those of the context, with the profile ARN that was looked up
  for them when they had none.\<close>

definition sent_credentials :: "call_env \<Rightarrow> 'c attempt_world \<Rightarrow> call_context \<Rightarrow> kiro_credentials \<Rightarrow> bool" where
  "sent_credentials v w ctx c \<longleftrightarrow>
     c = cx_credentials ctx \<or>
     needs_profile (cx_credentials ctx) \<and>
     (\<exists>arn made m. fst (resolve_profile_arn_for v w (cx_id ctx) (cx_token ctx) made m) = Inr (Some arn) \<and>
        c = (cx_credentials ctx)\<lparr>kc_profile_arn := Some arn\<rparr>)"

lemma ensure_profile_sent:
  "ensure_profile_arn v w ctx s = (Inr ctx', s') \<Longrightarrow> sent_credentials v w ctx (cx_credentials ctx')"
  by (auto simp: ensure_profile_arn_def sent_credentials_def Let_def split: if_splits prod.splits sum.splits option.splits
      profile_error.splits) (metis fst_conv)

lemma with_endpoint_success:
  assumes "with_endpoint v w cl k ctx exchange s = (Return (Inr r), s')"
  obtains ctx' ep x s0 made where "exchange ctx' ep x s0 = (Return (Inr r), s')" "cx_id ctx' = cx_id ctx"
    "cx_guard ctx' = cx_guard ctx" "sent_credentials v w ctx (cx_credentials ctx')"
    "x = \<lparr>rx_credentials = cx_credentials ctx', rx_token = cx_token ctx,
       rx_machine_id = fst (generate_from_credentials (ve_sha v) (aw_seed w) (gc_machine_id (ve_config v))
         (cx_credentials ctx') made), rx_config = ve_config v, rx_api_domain = aw_api_domain w\<rparr>"
    "endpoint_for v (cx_credentials ctx') = Inr ep"
proof -
  obtain p s1 where e: "ensure_profile_arn v w ctx s = (p, s1)" by fastforce
  with assms obtain ctx' where p: "p = Inr ctx'" by (cases p) (simp_all add: with_endpoint_def fail_def)
  from e p have c: "cx_id ctx' = cx_id ctx" "cx_guard ctx' = cx_guard ctx" "cx_token ctx' = cx_token ctx"
      "sent_credentials v w ctx (cx_credentials ctx')"
    using ensure_profile_context ensure_profile_sent by blast+
  obtain x s2 where m: "make_context v w ctx' s1 = (x, s2)" by fastforce
  then have x: "x = \<lparr>rx_credentials = cx_credentials ctx', rx_token = cx_token ctx,
      rx_machine_id = fst (generate_from_credentials (ve_sha v) (aw_seed w) (gc_machine_id (ve_config v))
        (cx_credentials ctx') (vs_machine_ids s1)), rx_config = ve_config v, rx_api_domain = aw_api_domain w\<rparr>"
    by (auto simp: make_context_def c(3) split: prod.splits)
  from assms e p m obtain ep where ep: "endpoint_for v (cx_credentials ctx') = Inr ep"
    by (cases "endpoint_for v (cx_credentials ctx')") (simp_all add: with_endpoint_def next_attempt_def)
  with assms e p m have "exchange ctx' ep x s2 = (Return (Inr r), s')" by (simp add: with_endpoint_def)
  then show thesis by (rule that [OF _ c(1,2,4) x ep])
qed


section \<open>A concrete call\<close>

definition sample_call_env :: call_env where
  "sample_call_env =
     \<lparr>ve_fuel = 1, ve_endpoints = [(''ide'', ide_endpoint (\<lambda>_. None) (\<lambda>_. []))], ve_default_endpoint = ''ide'',
      ve_config = \<lparr>gc_regions = sample_regions, gc_machine_id = None, gc_system_version = ''linux'',
        gc_node_version = ''22'', gc_kiro_version = ''0.9'', gc_latest_version = None\<rparr>,
      ve_sha = (\<lambda>s. s), ve_parse = (\<lambda>_. None), ve_is_http_date = (\<lambda>_. False)\<rparr>"

definition sample_attempt :: "nat \<Rightarrow> string \<Rightarrow> nat attempt_world" where
  "sample_attempt status body =
     \<lparr>aw_acquire = (\<lambda>_. sample_world), aw_list_profiles = (\<lambda>_ _. Inl []), aw_parse_profiles = (\<lambda>_. None),
      aw_while_listing = id, aw_seed = [], aw_uuid = (\<lambda>_. []), aw_api_domain = Amazonaws,
      aw_build = (\<lambda>_. Inr 7), aw_send = (\<lambda>_ _. Answered
        \<lparr>an_status = status, an_retry_after = None, an_body = Inr body\<rparr>),
      aw_while_sending = id, aw_env = sample_env, aw_later = 0, aw_refresh = sample_world, aw_random = 0,
      aw_while_sleeping = (\<lambda>_. id), aw_elapsed_ms = 5\<rparr>"

definition sample_state :: "nat call_state" where
  "sample_state =
     \<lparr>vs_manager = key_manager, vs_clients = new_client_cache None 7 CLIENT_CACHE_CAP, vs_profiled = [],
      vs_machine_ids = [], vs_forced = [], vs_last_error = None, vs_trace = []\<rparr>"

lemma sample_send: "aw_send (sample_attempt status body) client request =
    Answered \<lparr>an_status = status, an_retry_after = None, an_body = Inr body\<rparr>"
  by (simp add: sample_attempt_def)

lemma sample_steady: "steady_attempt (sample_attempt status body)"
  by (simp add: steady_attempt_def sample_attempt_def steady_world_def keeps_flights_def sample_world_def
      harmless_def undisturbed_def same_flights_def)

lemma sample_ids: "distinct_ids (vs_manager sample_state)" "get_in_flight 1 (vs_manager sample_state) = 0"
  by (simp_all add: sample_state_def distinct_ids_def get_in_flight_def find_entry_def key_manager_defs)

lemma sample_retries: "max_retries_of None key_manager = 3"
  by (simp add: max_retries_of_def total_count_in_group_def group_matches_def MAX_RETRIES_PER_CREDENTIAL_def
      MAX_TOTAL_RETRIES_def key_manager_defs)

lemma sample_success:
  "\<exists>r s'. call_api_with_retry sample_call_env (\<lambda>_. sample_attempt 200 []) [] True True None sample_state
     = (Some (Inr r), s') \<and> kr_credential r = 1"
proof -
  obtain ctx bal route m' where a: "acquire_context_impl 1 sample_regions (\<lambda>_. sample_world) None None None
      True key_manager = (Some (Inr (ctx, bal, route)), m')" "cx_id ctx = 1"
      "cx_credentials ctx = default_credentials\<lparr>kc_id := Some 1, kc_kiro_api_key := Some ''key''\<rparr>"
    using key_manager_acquires by blast
  define cl where "cl = \<lparr>cl_kind = Streaming, cl_body = [], cl_model = None, cl_session = None, cl_group = None,
    cl_traced = True, cl_max_retries = 3\<rparr>"
  have k: "is_api_key_credential (cx_credentials ctx)" "kc_endpoint (cx_credentials ctx) = None"
    using a(3) by (simp_all add: is_api_key_credential_def default_credentials_def)
  have e: "endpoint_for sample_call_env (cx_credentials ctx) = Inr (ide_endpoint (\<lambda>_. None) (\<lambda>_. []))"
    using k by (simp add: endpoint_for_def sample_call_env_def)
  have sa: "streaming_profile_arn (cx_credentials ctx) = None" using k by (simp add: streaming_profile_arn_def)
  have ex: "\<exists>s'. api_exchange sample_call_env (sample_attempt 200 []) cl 0 ctx (ide_endpoint (\<lambda>_. None) (\<lambda>_. [])) x s
      = (Return (Inr \<lparr>kr_answer = \<lparr>an_status = 200, an_retry_after = None, an_body = Inr []\<rparr>,
          kr_credential = 1, kr_guard = cx_guard ctx\<rparr>), s')" if "rx_credentials x = cx_credentials ctx" for x s
  proof -
    have "\<exists>client clients. client_for (aw_build (sample_attempt 200 [])) (m_proxy (vs_manager s))
        (cx_credentials ctx) (vs_clients s) = (Inr client, clients)"
      by (cases "get_client (effective_proxy (m_proxy (vs_manager s)) (cx_credentials ctx))
        (cache_global_proxy (m_proxy (vs_manager s)) (vs_clients s))")
        (simp_all add: client_for_def Let_def sample_attempt_def)
    then obtain client clients where "client_for (aw_build (sample_attempt 200 [])) (m_proxy (vs_manager s))
        (cx_credentials ctx) (vs_clients s) = (Inr client, clients)" by blast
    moreover have "ep_transform_api_body (ide_endpoint (\<lambda>_. None) (\<lambda>_. [])) (cl_body cl) x = Some (cl_body cl)"
      using that sa by (simp add: ide_endpoint_def inject_profile_arn_def)
    ultimately show ?thesis
      using a(2) by (simp add: api_exchange_def api_succeeded_def answered_success_def sample_send Let_def)
  qed
  have w: "\<exists>s'. with_endpoint sample_call_env (sample_attempt 200 []) cl 0 ctx
      (\<lambda>ctx ep x. api_exchange sample_call_env (sample_attempt 200 []) cl 0 ctx ep x) s
      = (Return (Inr \<lparr>kr_answer = \<lparr>an_status = 200, an_retry_after = None, an_body = Inr []\<rparr>,
          kr_credential = 1, kr_guard = cx_guard ctx\<rparr>), s')" for s
    using ex e k by (auto simp: with_endpoint_def ensure_profile_arn_def needs_profile_def make_context_def
        split: prod.split)
  have "\<exists>s'. api_attempt sample_call_env (sample_attempt 200 []) cl 0 (fresh_call sample_state)
      = (Some (Return (Inr \<lparr>kr_answer = \<lparr>an_status = 200, an_retry_after = None, an_body = Inr []\<rparr>,
          kr_credential = 1, kr_guard = cx_guard ctx\<rparr>)), s')"
    using w [of "note_route cl 0 route ((fresh_call sample_state)\<lparr>vs_manager := m'\<rparr>)"] a(1)
    by (auto simp: api_attempt_def end_of_attempt_def sample_call_env_def sample_attempt_def cl_def sample_state_def)
  then obtain s' where s': "api_attempt sample_call_env (sample_attempt 200 []) cl 0 (fresh_call sample_state)
      = (Some (Return (Inr \<lparr>kr_answer = \<lparr>an_status = 200, an_retry_after = None, an_body = Inr []\<rparr>,
          kr_credential = 1, kr_guard = cx_guard ctx\<rparr>)), s')" ..
  have "extract_routing_hints (ve_parse sample_call_env) [] = (None, None)"
    by (simp add: extract_routing_hints_def sample_call_env_def)
  moreover have "max_retries_of None (vs_manager sample_state) = 3" by (simp add: sample_state_def sample_retries)
  ultimately have "call_api_with_retry sample_call_env (\<lambda>_. sample_attempt 200 []) [] True True None sample_state
      = attempts_loop (\<lambda>k. api_attempt sample_call_env (sample_attempt 200 []) cl k) cl (Suc 2) 0
          (fresh_call sample_state)"
    by (simp add: call_api_with_retry_def cl_def Let_def del: attempts_loop.simps)
  also have "\<dots> = (Some (Inr \<lparr>kr_answer = \<lparr>an_status = 200, an_retry_after = None, an_body = Inr []\<rparr>,
      kr_credential = 1, kr_guard = cx_guard ctx\<rparr>), s')"
    by (simp only: attempts_loop.simps s' prod.case option.case step.case)
  finally show ?thesis by auto
qed

theorem api_call_guards_witness:
  "\<exists>r s'. call_api_with_retry sample_call_env (\<lambda>_. sample_attempt 200 []) [] True True None sample_state
     = (Some (Inr r), s') \<and> get_in_flight 1 (vs_manager s') = 1"
proof -
  obtain r s' where c: "call_api_with_retry sample_call_env (\<lambda>_. sample_attempt 200 []) [] True True None sample_state
     = (Some (Inr r), s')" "kr_credential r = 1" using sample_success by blast
  have "\<forall>k. leaves_flights ((\<lambda>_. sample_attempt 200 []) k)"
    using steady_leaves_flights [OF sample_steady] by simp
  from api_call_guards [OF this sample_ids(1), of sample_call_env "[]" True True None] c sample_ids(2)
  show ?thesis by simp
qed

lemma mcp_call_guards_witness:
  "get_in_flight 1 (vs_manager (snd (call_mcp_with_trace sample_call_env (\<lambda>_. sample_attempt 503 [])
     (sample_attempt 503 []) (\<lambda>b. Inr b) (\<lambda>_. False) [] None sample_state))) = 0"
proof -
  have "\<forall>k. leaves_flights ((\<lambda>_. sample_attempt 503 []) k)"
    using steady_leaves_flights [OF sample_steady] by simp
  from mcp_call_guards [OF this sample_ids(1), where j = 1] show ?thesis unfolding sample_ids(2) .
qed

theorem call_attempts_bounded_witness:
  "length (attempts_of (vs_trace (snd (call_api_with_retry sample_call_env
     (\<lambda>k. sample_attempt (if k < 3 then 503 else 200) []) [] True True None sample_state)))) \<le> 4"
proof -
  have "total_count_in_group None (vs_manager sample_state) = 1"
    by (simp add: sample_state_def total_count_in_group_def group_matches_def key_manager_defs)
  then have "\<forall>k < min (3 * max (total_count_in_group None (vs_manager sample_state)) 1) 4.
      (\<lambda>k. sample_attempt (if k < 3 then 503 else 200) []) k = (\<lambda>_. sample_attempt 503 []) k" by simp
  from call_attempts_bounded [OF this, of sample_call_env "[]" True True] show ?thesis by (simp add: Let_def)
qed

theorem lost_credentials_spared_witness:
  "\<exists>r s'. call_api_with_retry sample_call_env
       (\<lambda>_. sample_attempt 402 ''MONTHLY_REQUEST_COUNT'') [] True True None sample_state = (r, s') \<and>
     (\<forall>a \<in> set (attempts_of (vs_trace s')). ta_status a = Some 402 \<longrightarrow>
        ta_outcome a = QuotaExhausted \<and> out_of_service (ta_credential a) (vs_manager s'))"
proof -
  obtain r s' where c: "call_api_with_retry sample_call_env
      (\<lambda>_. sample_attempt 402 ''MONTHLY_REQUEST_COUNT'') [] True True None sample_state = (r, s')" by fastforce
  have steady: "\<forall>k. steady_attempt ((\<lambda>_. sample_attempt 402 ''MONTHLY_REQUEST_COUNT'') k)" by (simp add: sample_steady)
  have l: "\<forall>k. leaves_settings ((\<lambda>_. sample_attempt 402 ''MONTHLY_REQUEST_COUNT'') k)"
    by (simp add: leaves_settings_def sample_attempt_def sample_world_def keeps_settings_def undisturbed_def harmless_def
        same_settings_def)
  have q: "quota_refusal (ve_parse sample_call_env)
      \<lparr>an_status = 402, an_retry_after = None, an_body = Inr ''MONTHLY_REQUEST_COUNT''\<rparr>"
    by (simp add: quota_refusal_def gives_reason_def sample_call_env_def contains_def)
  note th = lost_credentials_spared [OF steady sample_ids(1) c]
  have "ta_outcome a = QuotaExhausted" if "a \<in> set (attempts_of (vs_trace s'))" "ta_status a = Some 402" for a
    using th l that q by (auto simp: explained_def sample_send)
  with th c show ?thesis by blast
qed


text \<open>The comment of the loop says that each credential is tried at most three times. With two credentials, the
  first of which the priority prefers, a call that the upstream answers with an error of its own tries the
  first one four times and the second one never.\<close>

definition preferred_manager :: manager where
  "preferred_manager = (initial_manager sample_config
     [fresh_entry sample_env 1 (default_credentials\<lparr>kc_id := Some 1, kc_kiro_api_key := Some ''key''\<rparr>),
      fresh_entry sample_env 2 (default_credentials\<lparr>kc_id := Some 2, kc_kiro_api_key := Some ''other''\<rparr>)]
     3 None True True None None)\<lparr>m_load_balancing_mode := ''priority'', m_account_rpm_limit := 0\<rparr>"

lemma one_credential_tried_four_times:
  "total_count_in_group None preferred_manager = 2 \<and>
   map ta_credential (attempts_of (vs_trace (snd (call_api_with_retry sample_call_env (\<lambda>_. sample_attempt 503 [])
     [] True True None (sample_state\<lparr>vs_manager := preferred_manager\<rparr>))))) = [1, 1, 1, 1]"
  by code_simp

end
