(* ===== verification/UpstreamAnswers.thy ===== *)
theory UpstreamAnswers
  imports UpstreamTrace
begin

text \<open>
  Every call comes to an answer. The choice of a credential is a loop with fuel, whose bound
  (\<open>acquire_context_terminates\<close>) asks for request windows in order; the attempts of one call extend the
  windows by what they record, so the windows are followed over the attempts along the clock. The
  relation between pools with the same windows is a further interpretation of \<open>pool_relation\<close>.
\<close>

section \<open>Reports leave the request windows alone\<close>

definition same_windows :: "manager \<Rightarrow> manager \<Rightarrow> bool" where
  "same_windows m m' \<longleftrightarrow> windows m' = windows m"

lemma windows_success: "windows (report_success_for_request env i model m) = windows m"
  by (simp add: report_success_for_request_def Let_def count_success_def mark_used_def
      clear_self_heal_streak_def split: option.split)

lemma windows_failure: "windows (snd (report_failure_for_request env i model grp m)) = windows m"
  by (simp add: report_failure_for_request_def Let_def count_failure_def mark_used_def disable_def
      split: option.split)

lemma windows_shut_down: "windows (snd (report_shut_down env r i model grp m)) = windows m"
  by (simp add: report_shut_down_def Let_def split_beta shut_down_def mark_used_def disable_def
      clear_self_heal_streak_def split: option.split)

lemma windows_unrelated:
  "windows (invalidate_model_cache i m) = windows m" "windows (m\<lparr>m_session_affinity := a\<rparr>) = windows m"
  by (simp_all add: windows_def invalidate_model_cache_def)

interpretation windows_kept: pool_relation same_windows
proof
  fix f :: "entry \<Rightarrow> entry" and i m
  assume f: "\<And>e. \<exists>c n. f e = e\<lparr>ce_credentials := c, ce_refresh_failure_count := n\<rparr>"
  have "ce_id (f e) = ce_id e \<and> ce_rpm_window (f e) = ce_rpm_window e" for e
    using f [of e] by auto
  then show "same_windows m (update_entry i f m)" by (simp add: same_windows_def)
next
  fix m i deadline
  show "same_windows m (update_entry i (throttle_until deadline) m)"
    by (simp add: same_windows_def throttle_until_def)
qed (simp_all add: same_windows_def windows_success windows_failure windows_shut_down windows_unrelated)

lemma windows_drop_guard [simp]: "windows (drop_guard guard i m) = windows m"
  by (simp add: drop_guard_def release_in_flight_def)

section \<open>What a choice records\<close>

text \<open>Windows in order, up to a time, with at most \<open>n\<close> requests each.\<close>

definition windows_upto :: "instant \<Rightarrow> nat \<Rightarrow> manager \<Rightarrow> bool" where
  "windows_upto now n m \<longleftrightarrow>
     (\<forall>e \<in> set (m_entries m). sorted (ce_rpm_window e) \<and> (\<forall>t \<in> set (ce_rpm_window e). t \<le> now) \<and>
        length (ce_rpm_window e) \<le> n)"

definition pool_ids :: "manager \<Rightarrow> u64 list" where
  "pool_ids m = map ce_id (m_entries m)"

lemma pool_ids_windows: "pool_ids m = map fst (snd (windows m))"
  by (simp add: pool_ids_def windows_def)

lemma windows_upto_windows:
  "windows_upto now n m \<longleftrightarrow> (\<forall>(i, ts) \<in> set (snd (windows m)). sorted ts \<and> (\<forall>t \<in> set ts. t \<le> now) \<and> length ts \<le> n)"
  by (auto simp: windows_upto_def windows_def)

lemma same_windows_cong:
  assumes "windows m' = windows m"
  shows "windows_upto now n m' = windows_upto now n m" "pool_ids m' = pool_ids m"
  using assms by (simp_all add: windows_upto_windows pool_ids_windows)

lemma windows_upto_mono:
  "windows_upto now n m \<Longrightarrow> now \<le> now' \<Longrightarrow> n \<le> n' \<Longrightarrow> windows_upto now' n' m"
  unfolding windows_upto_def by (meson order_trans)

lemma windows_upto_update:
  assumes "windows_upto now n m"
    and "\<And>e. f e = e\<lparr>ce_rpm_window := ts\<rparr>" "sorted ts" "\<forall>t \<in> set ts. t \<le> now" "length ts \<le> n"
  shows "windows_upto now n (update_entry i f m)" "pool_ids (update_entry i f m) = pool_ids m"
  using assms
  by (auto simp: windows_upto_def pool_ids_def map_update_first dest!: set_update_first)

lemma record_windows:
  assumes "record_request env i m = (ok, m')" "windows_upto now n m" "now \<le> env_now env"
  shows "windows_upto (env_now env) (Suc n) m' \<and> pool_ids m' = pool_ids m"
proof -
  have w: "windows_upto (env_now env) (Suc n) m" using windows_upto_mono [OF assms(2,3)] by simp
  show ?thesis
  proof (cases "find_entry i m")
    case None
    with assms(1) w show ?thesis by (simp add: record_request_def)
  next
    case (Some e)
    let ?ts = "drop_stale (env_now env) (ce_rpm_window e)"
    have "e \<in> set (m_entries m)" using find_entry_Some [OF Some] by simp
    with assms(2) have e: "sorted (ce_rpm_window e)" "\<forall>t \<in> set (ce_rpm_window e). t \<le> now"
      "length (ce_rpm_window e) \<le> n" by (simp_all add: windows_upto_def)
    have ts: "sorted ?ts" "\<forall>t \<in> set ?ts. t \<le> env_now env" "length ?ts \<le> n"
      using e assms(3) order_trans [OF length_dropWhile_le e(3)]
      by (auto simp: drop_stale_def sorted_dropWhile dest!: set_dropWhileD)
    then have ts': "sorted (?ts @ [env_now env])" by (simp add: sorted_append)
    note u = windows_upto_update [OF w, of "ce_rpm_window_update (\<lambda>_. ts)" ts for ts]
    show ?thesis
      using assms(1) Some u [of "[]"] u [of ?ts] u [of "?ts @ [env_now env]"] ts ts'
      by (auto simp: record_request_def Let_def split: if_splits)
  qed
qed

lemma attempt_records:
  assumes "attempt g w model grp session True m = (Done (Inr acq), m')" "quiet w"
  shows "\<exists>i m3. windows m3 = windows m \<and> record_request (w_done w) i m3 = (True, m')"
proof -
  obtain sel route m1 where ch: "choose_credential (w_select w) model grp session True m = ((sel, route), m1)"
    by (metis prod.exhaust)
  from assms(1) ch obtain i c guard where s: "sel = Some (i, c, guard)"
    by (cases sel) (auto simp: attempt_def)
  define m2 where "m2 = m1\<lparr>m_current_id := i\<rparr>"
  have w1: "windows m1 = windows m" using choose_progress [OF ch [unfolded s]] by simp
  obtain res m3 where te: "try_ensure_token g w i c m2 = (res, m3)" by fastforce
  have "windows m2 = windows m1" by (simp add: m2_def windows_def)
  with windows_ensure [OF assms(2), of g i c m2] te w1 have w3: "windows m3 = windows m" by simp
  show ?thesis
  proof (cases res)
    case (Inr ctx)
    obtain ok m4 where rr: "record_request (w_done w) i m3 = (ok, m4)" by fastforce
    from assms(1) have "ok \<and> m4 = m'"
      unfolding attempt_def Let_def ch s prod.case option.case if_True m2_def [symmetric] te
      by (cases ok) (simp_all add: Inr rr)
    with rr w3 show ?thesis by auto
  next
    case (Inl err)
    from assms(1) show ?thesis
      unfolding attempt_def Let_def ch s prod.case option.case if_True m2_def [symmetric] te
      by (cases err) (auto simp: Inl split: option.splits if_splits prod.splits sum.splits)
  qed
qed

lemma loop_records:
  assumes "acquire_loop fuel g worlds model grp session True mx n m = (Some (Inr acq), m')"
    and "\<forall>k. quiet (worlds k)" "distinct_ids m" "windows_ok m"
  shows "\<exists>k i m3. windows m3 = windows m \<and> record_request (w_done (worlds k)) i m3 = (True, m')"
  using assms
proof (induction fuel arbitrary: worlds n m)
  case (Suc fuel)
  obtain out m1 where a: "attempt g (worlds 0) model grp session True m = (out, m1)" by fastforce
  from Suc.prems(1) have n: "\<not> mx \<le> n" by (auto split: if_splits)
  show ?case
  proof (cases out)
    case (Done x)
    with a n Suc.prems attempt_records [of g "worlds 0" model grp session m acq m'] show ?thesis by auto
  next
    case (Retry b)
    note a = a [unfolded Retry]
    have q: "quiet (worlds 0)" using Suc.prems(2) by simp
    have d: "distinct_ids m1" and w: "windows m1 = windows m"
      using attempt_ids [OF a q Suc.prems(3)] attempt_progress [OF a q Suc.prems(3,4)] by simp_all
    from Suc.prems(1) a n have "acquire_loop fuel g (\<lambda>k. worlds (Suc k)) model grp session True mx
        (if b then Suc n else n) m1 = (Some (Inr acq), m')" by simp
    from Suc.IH [OF this _ d] Suc.prems(2,4) windows_ok_cong [OF w] w show ?thesis by auto
  qed
qed simp

section \<open>One attempt\<close>

text \<open>In the world of an attempt nobody interferes with the choice, whose requests are recorded between
  two times; while others wait for answers they neither record requests nor change the credentials' ids.\<close>

definition answers_world :: "instant \<Rightarrow> instant \<Rightarrow> 'c attempt_world \<Rightarrow> bool" where
  "answers_world t0 t1 w \<longleftrightarrow>
     (\<forall>j. quiet (aw_acquire w j) \<and> t0 \<le> env_now (w_done (aw_acquire w j)) \<and>
          env_now (w_done (aw_acquire w j)) \<le> t1) \<and>
     undisturbed same_windows w"

text \<open>Enough rounds for any choice among \<open>n\<close> credentials.\<close>

definition enough_rounds :: "nat \<Rightarrow> nat" where
  "enough_rounds n = (max (3 * n) 1 + 1) * (n + 1)\<^sup>2"

lemma distinct_pool_ids: "distinct_ids m \<longleftrightarrow> distinct (pool_ids m)"
  by (simp add: distinct_ids_def pool_ids_def)

lemma choice_answers:
  assumes "\<forall>j. quiet (worlds j) \<and> t0 \<le> env_now (w_done (worlds j)) \<and> env_now (w_done (worlds j)) \<le> t1"
    and "distinct_ids m" "windows_upto t0 n m" "n < 2 ^ 32" "enough_rounds (length (pool_ids m)) \<le> fuel"
    and "acquire_context_impl fuel g worlds model grp session True m = (r, m')"
  shows "r \<noteq> None \<and> (\<forall>acq. r = Some (Inr acq) \<longrightarrow> windows_upto t1 (Suc n) m' \<and> pool_ids m' = pool_ids m)"
proof -
  have q: "\<forall>j. quiet (worlds j)" using assms(1) by simp
  have ok: "windows_ok m"
    using assms(3,4) by (auto simp: windows_upto_windows windows_ok_def)
  have "total_count_in_group grp m \<le> length (m_entries m)"
    by (simp add: total_count_in_group_def)
  then have "max_attempts_of grp m \<le> max (3 * length (m_entries m)) 1"
    by (simp add: max_attempts_of_def MAX_FAILURES_PER_CREDENTIAL_def)
  then have "(max_attempts_of grp m + 1) * (length (m_entries m) + 1)\<^sup>2 \<le> enough_rounds (length (pool_ids m))"
    unfolding enough_rounds_def pool_ids_def length_map by (intro mult_le_mono1 add_le_mono1)
  with assms(5) have "(max_attempts_of grp m + 1) * (length (m_entries m) + 1)\<^sup>2 \<le> fuel" by linarith
  from acquire_answers [OF q assms(2) ok this, of g model session True] assms(6) have "r \<noteq> None" by simp
  moreover have "windows_upto t1 (Suc n) m' \<and> pool_ids m' = pool_ids m" if "r = Some (Inr acq)" for acq
  proof -
    from assms(6) that have "acquire_loop fuel g worlds model grp session True (max_attempts_of grp m) 0 m
        = (Some (Inr acq), m')" by (simp add: acquire_context_impl_def)
    from loop_records [OF this q assms(2) ok] obtain j i m3
      where "windows m3 = windows m" and rr: "record_request (w_done (worlds j)) i m3 = (True, m')" by blast
    note c = same_windows_cong [OF this(1)]
    have t: "t0 \<le> env_now (w_done (worlds j))" "env_now (w_done (worlds j)) \<le> t1" using assms(1) by auto
    from record_windows [OF rr _ t(1), of n] c assms(3) show ?thesis
      using windows_upto_mono [OF _ t(2)] by auto
  qed
  ultimately show ?thesis by blast
qed

text \<open>An attempt ends in a result, or leaves a pool from which the next attempt can start.\<close>

definition ready :: "instant \<Rightarrow> nat \<Rightarrow> u64 list \<Rightarrow> manager \<Rightarrow> bool" where
  "ready now n ids m \<longleftrightarrow> windows_upto now n m \<and> pool_ids m = ids"

lemma ready_cong: "windows m' = windows m \<Longrightarrow> ready now n ids m' = ready now n ids m"
  using same_windows_cong [of m' m] by (simp add: ready_def)

definition goes_on :: "instant \<Rightarrow> nat \<Rightarrow> u64 list \<Rightarrow> 'r step option \<times> 'c call_state \<Rightarrow> bool" where
  "goes_on now n ids rs \<longleftrightarrow> fst rs \<noteq> None \<and> (fst rs = Some NextAttempt \<longrightarrow> ready now n ids (vs_manager (snd rs)))"

lemma goes_on_failed: "goes_on now n ids (case acquire_failed w cl k err s of (r, s) \<Rightarrow> (Some r, s))"
  by (simp add: goes_on_def split_beta)

lemma goes_on_end:
  assumes "ready now n ids (vs_manager s)" "windows_kept.kept s rs"
  shows "goes_on now n ids (end_of_attempt ctx rs)"
proof -
  obtain r s' where rs: "rs = (r, s')" by fastforce
  with assms have "ready now n ids (vs_manager s')"
    using ready_cong [of "vs_manager s'" "vs_manager s"] by (simp add: same_windows_def)
  then have "ready now n ids (drop_guard guard i (vs_manager s'))" for guard i
    using ready_cong [of "drop_guard guard i (vs_manager s')" "vs_manager s'"] by simp
  with rs show ?thesis
    by (simp add: goes_on_def end_of_attempt_def split: step.split sum.split)
qed

lemma attempt_goes_on:
  assumes w: "answers_world t0 t1 w" and m: "ready t0 n ids (vs_manager s)"
    and lim: "distinct ids" "n < 2 ^ 32" "enough_rounds (length ids) \<le> ve_fuel v"
  shows "goes_on t1 (Suc n) ids (api_attempt v w cl k s)"
    and "goes_on t1 (Suc n) ids (mcp_attempt v w cl k s)"
proof -
  have u: "undisturbed same_windows w" using w by (simp add: answers_world_def)
  have d: "distinct_ids (vs_manager s)" "windows_upto t0 n (vs_manager s)"
      "enough_rounds (length (pool_ids (vs_manager s))) \<le> ve_fuel v" "pool_ids (vs_manager s) = ids"
    using m lim by (simp_all add: ready_def distinct_pool_ids)
  have c: "r \<noteq> None \<and> (\<forall>acq. r = Some (Inr acq) \<longrightarrow> ready t1 (Suc n) ids m1)"
    if "acquire_context_impl (ve_fuel v) g (aw_acquire w) model grp session True (vs_manager s) = (r, m1)"
    for g model grp session r m1
    using choice_answers [OF _ d(1,2) lim(2) d(3) that, of t1] w d(4) by (simp add: answers_world_def ready_def)
  show "goes_on t1 (Suc n) ids (api_attempt v w cl k s)"
  proof -
    obtain r m1 where a: "acquire_context_impl (ve_fuel v) (gc_regions (ve_config v)) (aw_acquire w) (cl_model cl)
      (cl_group cl) (cl_session cl) True (vs_manager s) = (r, m1)" by fastforce
    show ?thesis
    proof (cases r rule: acquire_results)
      case (3 ctx bal route)
      have "windows (vs_manager (note_route cl k route (s\<lparr>vs_manager := m1\<rparr>))) = windows m1"
        using windows_kept.kept_note_route [of "s\<lparr>vs_manager := m1\<rparr>" cl k route] by (simp add: same_windows_def)
      from ready_cong [OF this] c [OF a] 3
      have "ready t1 (Suc n) ids (vs_manager (note_route cl k route (s\<lparr>vs_manager := m1\<rparr>)))" by simp
      from goes_on_end [OF this windows_kept.kept_with_endpoint [OF u windows_kept.kept_api_exchange [OF u]]] a 3
      show ?thesis by (simp add: api_attempt_def)
    qed (use a c [OF a] goes_on_failed in \<open>auto simp: api_attempt_def\<close>)
  qed
  show "goes_on t1 (Suc n) ids (mcp_attempt v w cl k s)"
  proof -
    obtain r m1 where a: "acquire_context_impl (ve_fuel v) (gc_regions (ve_config v)) (aw_acquire w) None
      (cl_group cl) None True (vs_manager s) = (r, m1)" by fastforce
    show ?thesis
    proof (cases r rule: acquire_results)
      case (3 ctx bal route)
      with c [OF a] have "ready t1 (Suc n) ids (vs_manager (s\<lparr>vs_manager := m1\<rparr>))" by simp
      from goes_on_end [OF this windows_kept.kept_with_endpoint [OF u windows_kept.kept_mcp_exchange [OF u]]] a 3
      show ?thesis by (simp add: mcp_attempt_def)
    qed (use a c [OF a] goes_on_failed in \<open>auto simp: mcp_attempt_def\<close>)
  qed
qed

section \<open>A whole call\<close>

lemma loop_answers:
  assumes run: "\<And>k n s. n < 2 ^ 32 \<Longrightarrow> ready (clock k) n ids (vs_manager s) \<Longrightarrow> goes_on (clock (Suc k)) (Suc n) ids (run k s)"
    and "ready (clock k) n ids (vs_manager s)" "n + left < 2 ^ 32"
  shows "fst (attempts_loop run cl left k s) \<noteq> None"
  using assms(2,3)
proof (induction left arbitrary: k n s)
  case (Suc left)
  obtain r s' where r: "run k s = (r, s')" by fastforce
  from run [OF _ Suc.prems(1)] Suc.prems(2) r have g: "goes_on (clock (Suc k)) (Suc n) ids (r, s')" by simp
  show ?case
  proof (cases "r = Some NextAttempt")
    case True
    with Suc.IH [of "Suc k" "Suc n" s'] g Suc.prems(2) r show ?thesis by (simp add: goes_on_def)
  next
    case False
    with g obtain x where "r = Some (Return x)" unfolding goes_on_def by (metis fst_conv not_None_eq step.exhaust)
    with r show ?thesis by simp
  qed
qed simp

text \<open>C19: Every call comes to an answer. With \<open>n\<close> credentials and \<open>3 n + 1\<close> times \<open>(n + 1)\<^sup>2\<close> rounds for each choice of a
  credential (four for an empty pool), and as long as other requests stay out of the way, the clock does not run
  backwards and the request windows are in order, model calls and MCP calls end with a result or an error,
  whatever the upstream and the identity providers answer.\<close>

theorem calls_answer:
  assumes "\<forall>k. answers_world (clock k) (clock (Suc k)) (ws k)" and "distinct_ids (vs_manager s)"
    and "\<forall>e \<in> set (m_entries (vs_manager s)). sorted (ce_rpm_window e) \<and>
      (\<forall>t \<in> set (ce_rpm_window e). t \<le> clock 0) \<and> length (ce_rpm_window e) < 2 ^ 32 - 4"
    and "(max (3 * length (m_entries (vs_manager s))) 1 + 1) * (length (m_entries (vs_manager s)) + 1)\<^sup>2 \<le> ve_fuel v"
  shows "(\<exists>r s'. call_api_with_retry v ws body is_stream traced grp s = (Some r, s')) \<and>
    (\<exists>r s'. call_mcp_with_retry v ws body traced grp s = (Some r, s'))"
proof -
  let ?ids = "pool_ids (vs_manager s)"
  have r: "ready (clock 0) (2 ^ 32 - 5) ?ids (vs_manager (fresh_call s))"
    using assms(3) by (auto simp: ready_def windows_upto_def)
  have d: "distinct ?ids" "enough_rounds (length ?ids) \<le> ve_fuel v"
    using assms(2,4) by (simp_all add: distinct_ids_def pool_ids_def enough_rounds_def)
  have m: "2 ^ 32 - 5 + max_retries_of grp (vs_manager s) < 2 ^ 32"
    by (simp add: max_retries_of_def MAX_TOTAL_RETRIES_def)
  note go = attempt_goes_on [OF assms(1) [rule_format] _ d(1) _ d(2)]
  have "fst (attempts_loop (\<lambda>k. api_attempt v (ws k) cl k) cl (max_retries_of grp (vs_manager s)) 0 (fresh_call s)) \<noteq> None"
    "fst (attempts_loop (\<lambda>k. mcp_attempt v (ws k) cl k) cl (max_retries_of grp (vs_manager s)) 0 (fresh_call s)) \<noteq> None" for cl
    by (rule loop_answers [where clock = clock and ids = ?ids and n = "2 ^ 32 - 5", OF _ r m]; rule go; assumption)+
  then have "fst (call_api_with_retry v ws body is_stream traced grp s) \<noteq> None"
    "fst (call_mcp_with_retry v ws body traced grp s) \<noteq> None"
    by (simp_all add: call_api_with_retry_def call_mcp_with_retry_def Let_def split: prod.split)
  then show ?thesis
    by (cases "call_api_with_retry v ws body is_stream traced grp s"; cases "call_mcp_with_retry v ws body traced grp s") auto
qed

text \<open>One credential, and an upstream that always answers 500.\<close>

theorem calls_answer_witness:
  "(\<exists>r s'. call_api_with_retry (sample_call_env\<lparr>ve_fuel := 16\<rparr>) (\<lambda>_. sample_attempt 500 []) [] True True None sample_state
      = (Some r, s')) \<and>
   (\<exists>r s'. call_mcp_with_retry (sample_call_env\<lparr>ve_fuel := 16\<rparr>) (\<lambda>_. sample_attempt 500 []) [] True None sample_state
      = (Some r, s'))"
proof (rule calls_answer [where clock = "\<lambda>_. env_now sample_env"])
  show "\<forall>k. answers_world (env_now sample_env) (env_now sample_env) ((\<lambda>_. sample_attempt 500 []) k)"
    by (simp add: answers_world_def sample_attempt_def sample_world_def quiet_def undisturbed_def harmless_def
        same_windows_def)
  show "distinct_ids (vs_manager sample_state)" by (rule sample_ids)
  have "length (m_entries key_manager) = 1" "\<forall>e \<in> set (m_entries key_manager). ce_rpm_window e = []"
    by (simp_all add: key_manager_defs)
  then show "\<forall>e \<in> set (m_entries (vs_manager sample_state)). sorted (ce_rpm_window e) \<and>
      (\<forall>t \<in> set (ce_rpm_window e). t \<le> env_now sample_env) \<and> length (ce_rpm_window e) < 2 ^ 32 - 4"
    "(max (3 * length (m_entries (vs_manager sample_state))) 1 + 1) * (length (m_entries (vs_manager sample_state)) + 1)\<^sup>2
      \<le> ve_fuel (sample_call_env\<lparr>ve_fuel := 16\<rparr>)"
    by (simp_all add: sample_state_def power2_eq_square)
qed

end
