(* ===== verification/UpstreamClients.thy ===== *)
theory UpstreamClients
  imports UpstreamCalls
begin

text \<open>
  The cache of HTTP clients: it stays within its capacity, whatever proxies come and go, and a request is
  only ever sent with a client that was built for the proxy the request has to use.
\<close>

section \<open>The invariant\<close>

text \<open>\<open>made key client\<close>: the client was built for that proxy.\<close>

definition cache_ok :: "(proxy_config option \<Rightarrow> 'c \<Rightarrow> bool) \<Rightarrow> 'c client_cache \<Rightarrow> bool" where
  "cache_ok made cache \<longleftrightarrow>
     distinct_keys (cc_map cache) \<and> distinct (cc_order cache) \<and> cc_protected cache \<notin> set (cc_order cache) \<and>
     set (cc_order cache) \<subseteq> dom (map_of (cc_map cache)) \<and>
     dom (map_of (cc_map cache)) \<subseteq> insert (cc_protected cache) (set (cc_order cache)) \<and>
     length (cc_order cache) \<le> cc_cap cache \<and> 0 < cc_cap cache \<and>
     (\<forall>key client. map_of (cc_map cache) key = Some client \<longrightarrow> made key client)"

lemma cache_ok_size:
  assumes "cache_ok made cache"
  shows "length (cc_map cache) \<le> cc_cap cache + 1"
proof -
  have "length (cc_map cache) = card (dom (map_of (cc_map cache)))"
    using assms distinct_card [of "map fst (cc_map cache)"] by (simp add: cache_ok_def dom_map_of_conv_image_fst)
  also have "\<dots> \<le> card (insert (cc_protected cache) (set (cc_order cache)))"
    using assms by (intro card_mono) (auto simp: cache_ok_def)
  also have "\<dots> \<le> length (cc_order cache) + 1"
    using card_length [of "cc_order cache"] by (simp add: card_insert_if)
  also have "\<dots> \<le> cc_cap cache + 1" using assms by (simp add: cache_ok_def)
  finally show ?thesis .
qed

lemma cache_ok_global: "cache_ok made cache \<Longrightarrow> cache_ok made (cache_global_proxy proxy cache)"
  by (auto simp: cache_ok_def cache_global_proxy_def simp del: map_of_eq_Some_iff split: if_splits intro: le_trans [OF length_filter_le])

lemma evict_clients_spec:
  assumes "evict_clients cap order m = (order', m')" "0 < cap" "distinct_keys m"
  shows "\<exists>gone. order = gone @ order' \<and> length order' < cap \<and> distinct_keys m' \<and>
    map_of m' = (\<lambda>k. if k \<in> set gone then None else map_of m k)"
  using assms
proof (induction cap order m rule: evict_clients.induct)
  case (2 cap key order m)
  show ?case
  proof (cases "cap \<le> length (key # order)")
    case True
    with 2 obtain gone where "order = gone @ order'" "length order' < cap" "distinct_keys m'"
      "map_of m' = (\<lambda>k. if k \<in> set gone then None else map_of (map_remove key m) k)" by auto
    then show ?thesis by (intro exI [of _ "key # gone"]) (auto simp: fun_eq_iff)
  next
    case False
    with 2 show ?thesis by (intro exI [of _ "[]"]) auto
  qed
qed auto

lemma cache_ok_insert:
  assumes "cache_ok made cache" "made key client"
  shows "cache_ok made (insert_client key client cache)"
proof (cases "key = cc_protected cache \<or> map_of (cc_map cache) key \<noteq> None")
  case True
  with assms show ?thesis
    by (auto simp: cache_ok_def insert_client_def simp del: map_of_eq_Some_iff split: if_splits)
next
  case False
  obtain order' m' where e: "evict_clients (cc_cap cache) (cc_order cache) (cc_map cache) = (order', m')" by fastforce
  then obtain gone where g: "cc_order cache = gone @ order'" "length order' < cc_cap cache" "distinct_keys m'"
    "map_of m' = (\<lambda>k. if k \<in> set gone then None else map_of (cc_map cache) k)"
    using evict_clients_spec [OF e] assms(1) by (auto simp: cache_ok_def)
  have "key \<notin> set (cc_order cache)" using assms(1) False by (auto simp: cache_ok_def)
  moreover have d: "x = cc_protected cache \<or> x \<in> set gone \<or> x \<in> set order'" if "map_of (cc_map cache) x = Some y" for x y
    using assms(1) g(1) domI [of "map_of (cc_map cache)", OF that] unfolding cache_ok_def by auto
  ultimately show ?thesis
    using g assms False e
    by (auto simp: cache_ok_def insert_client_def simp del: map_of_eq_Some_iff dest: d split: if_splits)
qed

lemma client_for_ok:
  assumes "cache_ok made cache" "\<And>key client. build key = Inr client \<Longrightarrow> made key client"
    and "client_for build proxy c cache = (r, cache')"
  shows "cache_ok made cache' \<and> cc_cap cache' = cc_cap cache \<and>
    (\<forall>client. r = Inr client \<longrightarrow> made (effective_proxy proxy c) client)"
proof -
  have g: "cache_ok made (cache_global_proxy proxy cache)" by (rule cache_ok_global [OF assms(1)])
  have cap: "cc_cap (cache_global_proxy proxy cache) = cc_cap cache" by (simp add: cache_global_proxy_def)
  have "cc_cap (insert_client k cl x) = cc_cap x" for k and cl :: 'a and x
    by (simp add: insert_client_def split: prod.split)
  with assms g cap cache_ok_insert [OF g] show ?thesis
    by (auto simp: client_for_def Let_def get_client_def cache_ok_def [of made "cache_global_proxy proxy cache"]
        split: option.splits sum.splits)
qed

section \<open>Any sequence of requests\<close>

text \<open>The clients of a sequence of requests, each with the builder and the global proxy of its moment.\<close>

fun serve_clients ::
  "((proxy_config option \<Rightarrow> string + 'c) \<times> proxy_config option \<times> kiro_credentials) list \<Rightarrow> 'c client_cache \<Rightarrow>
   (string + 'c) list \<times> 'c client_cache"
where
  "serve_clients [] cache = ([], cache)"
| "serve_clients ((build, proxy, c) # requests) cache =
     (case client_for build proxy c cache of
        (r, cache) \<Rightarrow> (case serve_clients requests cache of (rs, cache) \<Rightarrow> (r # rs, cache)))"

lemma serve_clients_ok:
  assumes "cache_ok made cache"
    and "\<forall>(build, _) \<in> set requests. \<forall>key client. build key = Inr client \<longrightarrow> made key client"
    and "serve_clients requests cache = (rs, cache')"
  shows "cache_ok made cache' \<and> cc_cap cache' = cc_cap cache \<and>
    list_all2 (\<lambda>(build, proxy, c) r. \<forall>client. r = Inr client \<longrightarrow> made (effective_proxy proxy c) client) requests rs"
  using assms
proof (induction requests arbitrary: cache rs cache')
  case (Cons rq requests)
  obtain build proxy c where rq: "rq = (build, proxy, c)" by (cases rq)
  obtain r cache1 where r: "client_for build proxy c cache = (r, cache1)" by fastforce
  obtain rs1 cache2 where rs: "serve_clients requests cache1 = (rs1, cache2)" by fastforce
  have "\<And>key client. build key = Inr client \<Longrightarrow> made key client"
    using Cons.prems(2) rq by simp
  from client_for_ok [OF Cons.prems(1) this r] have 1: "cache_ok made cache1" "cc_cap cache1 = cc_cap cache"
    "\<forall>client. r = Inr client \<longrightarrow> made (effective_proxy proxy c) client" by blast+
  have "\<forall>(build, _) \<in> set requests. \<forall>key client. build key = Inr client \<longrightarrow> made key client"
    using Cons.prems(2) by simp
  from Cons.IH [OF 1(1) this rs] 1 Cons.prems(3) rq r rs show ?case by auto
qed simp

text \<open>C20: Whatever requests are served and however the global proxy and the credentials' proxies change,
  the cache never holds more than its capacity and one client, and each request gets, if any, a client
  that some request built for exactly the proxy in force for it (or the first client, if that is its
  proxy).\<close>

theorem clients_bounded_and_right:
  assumes "0 < cap" and "serve_clients requests (new_client_cache proxy0 client0 cap) = (rs, cache')"
  shows "length (cc_map cache') \<le> cap + 1 \<and>
    list_all2 (\<lambda>(_, proxy, c) r. \<forall>client. r = Inr client \<longrightarrow>
        (effective_proxy proxy c, client) = (proxy0, client0) \<or>
        (\<exists>(build, _) \<in> set requests. build (effective_proxy proxy c) = Inr client)) requests rs"
proof -
  let ?made = "\<lambda>key client. (key, client) = (proxy0, client0) \<or> (\<exists>(build, _) \<in> set requests. build key = Inr client)"
  have "cache_ok ?made (new_client_cache proxy0 client0 cap)"
    using assms(1) by (simp add: cache_ok_def new_client_cache_def)
  from serve_clients_ok [OF this _ assms(2)]
  have ok: "cache_ok ?made cache'" "cc_cap cache' = cap"
    and l: "list_all2 (\<lambda>(build, proxy, c) r. \<forall>client. r = Inr client \<longrightarrow> ?made (effective_proxy proxy c) client) requests rs"
    by (force simp: new_client_cache_def)+
  from cache_ok_size [OF ok(1)] ok(2) have "length (cc_map cache') \<le> cap + 1" by simp
  moreover from l have "list_all2 (\<lambda>(_, proxy, c) r. \<forall>client. r = Inr client \<longrightarrow> ?made (effective_proxy proxy c) client) requests rs"
    by (rule list_all2_mono) auto
  ultimately show ?thesis by blast
qed

text \<open>Two proxies in a cache for one: the client of the second is built, the global one is kept.\<close>

theorem clients_bounded_and_right_witness:
  "length (cc_map (snd (serve_clients
     [(\<lambda>_. Inr (8 :: nat), None, default_credentials\<lparr>kc_proxy_url := Some ''http://a''\<rparr>),
      (\<lambda>_. Inr 9, None, default_credentials)] (new_client_cache None 7 1)))) \<le> 2"
proof -
  let ?rq = "[(\<lambda>_. Inr (8 :: nat), None, default_credentials\<lparr>kc_proxy_url := Some ''http://a''\<rparr>),
      (\<lambda>_. Inr 9, None, default_credentials)]"
  obtain rs cache' where s: "serve_clients ?rq (new_client_cache None 7 1) = (rs, cache')" by fastforce
  have "length (cc_map cache') \<le> 1 + 1" by (rule clients_bounded_and_right [OF zero_less_one s, THEN conjunct1])
  then show ?thesis unfolding s by simp
qed

end
