(* ===== verification/Spec2Isabelle.thy ===== *)
theory Spec2Isabelle
  imports EventDecoder SessionAffinity Credentials AcquireTermination MessageStream PromptReuse RequestConversion
    UpstreamAnswers UpstreamClients
begin

text \<open>
  A verification of the core of kiro-rs, a gateway that serves the Anthropic Messages API from the
  Kiro upstream (\<open>src/\<close> is the Rust crate).  A request is converted, a credential of the pool is
  chosen and its token refreshed, the upstream answers with an AWS event stream, and the stream is
  decoded and translated, event by event, to the server-sent events the client expects.

  \<^bold>\<open>The parts and their theories.\<close>

  Standard library: \<open>RustStd\<close> (durations, saturating words, \<open>min_by_key\<close>, hash maps as association
  lists, white space and \<open>trim\<close>), \<open>RustStr\<close> (searching and slicing of strings, which are lists of
  UTF-8 bytes), \<open>Utf8\<close> (validation and lossy decoding), \<open>F64\<close> (IEEE doubles as rationals with exact
  rounding), \<open>Json\<close> (\<open>serde_json::Value\<close> with its sorted objects).

  Event stream decoder (\<open>src/kiro/parser\<close>): \<open>EventHeader\<close> (\<open>header.rs\<close>, \<open>error.rs\<close>), \<open>EventFrame\<close>
  (\<open>frame.rs\<close>) and \<open>EventDecoder\<close> (\<open>decoder.rs\<close>), with the encoder of the wire format as the reference.
  Any chunking of a well-formed stream gives back its frames; a damaged frame is skipped exactly; the
  counters and the stopped state keep their meaning.  The checksum is a parameter.

  Credentials (\<open>src/kiro/model/credentials.rs\<close>, \<open>src/kiro/session_affinity.rs\<close>,
  \<open>src/kiro/token_manager.rs\<close>): \<open>Credentials\<close> (the data model), \<open>SessionAffinity\<close> (the table of sticky
  sessions), \<open>CredentialPool\<close> (the manager's state, request windows, loading), \<open>SmoothWrr\<close> and
  \<open>Scheduler\<close> (selection), \<open>FailureReports\<close> (what a failed call does to a credential, self-healing),
  \<open>UpstreamErrors\<close> and \<open>TokenRefresh\<close> (\<open>src/kiro/error.rs\<close>, refresh by provider), \<open>AcquireContext\<close> and
  \<open>AcquireTermination\<close> (\<open>acquire_context_impl\<close>, its guards and its end).  Calls to identity providers
  and what other requests do while one waits are parameters (\<open>world\<close>).

  Upstream calls (\<open>src/kiro/provider.rs\<close>, \<open>src/kiro/endpoint\<close>): \<open>Endpoints\<close> (hosts, headers and bodies of the two
  endpoints, what the text of a refusal means, \<open>src/kiro/machine_id.rs\<close>) and \<open>UpstreamCalls\<close> (the cache of HTTP
  clients, profile ARNs, the retry loops \<open>call_api_with_retry\<close> and \<open>call_mcp_with_retry\<close>, the trace of
  \<open>src/admin/trace_db.rs\<close>); about them \<open>UpstreamSafety\<close> (the locales and the requests in flight), \<open>UpstreamBans\<close>
  (credentials out of service), \<open>UpstreamEvidence\<close> (the answer behind every reason the trace gives), \<open>UpstreamTrace\<close>
  (whole calls), \<open>UpstreamAnswers\<close> (they end) and \<open>UpstreamClients\<close> (the cache).  What an attempt
  meets outside is an \<open>attempt_world\<close>: answers, clocks, and what other requests do to the pool at every wait.

  Replies (\<open>src/anthropic/stream.rs\<close>): \<open>ThinkingTags\<close> (thinking in the text), \<open>RepeatGuard\<close> (the guard
  against repeated tokens), \<open>XmlLeakFilter\<close> (\<open>src/kiro/model/events/assistant.rs\<close>: leaked tool blocks and
  the Markdown code tracker), \<open>InvokeBlock\<close> and \<open>InvokeSniffer\<close> (tool calls written as text), \<open>ToolMapping\<close>
  (\<open>src/anthropic/converter.rs\<close>: names and arguments of tools), \<open>ToolJson\<close> (fragments of tool
  arguments), \<open>CacheUsage\<close> (usage accounting of \<open>cache_metering.rs\<close>, \<open>metadata.rs\<close>, \<open>token.rs\<close>),
  \<open>SseState\<close> (events and the block state manager), \<open>KiroEvents\<close> (the upstream's events), \<open>StreamContext\<close>
  and \<open>StreamEvents\<close> (the translation with all its handlers), \<open>MessageStream\<close>
  (\<open>create_sse_stream\<close> of \<open>src/anthropic/handlers.rs\<close>, \<open>base.rs\<close>).

  Requests (\<open>src/anthropic/converter.rs\<close>, \<open>src/kiro/model/requests\<close>, \<open>src/image_resize.rs\<close>): \<open>ModelIds\<close> (names of
  models, context windows, \<open>src/model/custom_models.rs\<close>, reasoning effort), \<open>KiroRequest\<close> (the upstream's request),
  \<open>ToolSchemas\<close> (normal form of schemas, tool definitions), \<open>ImageScaling\<close> (the search for a size and a quality
  of an image), \<open>MessageContent\<close> (blocks of a message), \<open>ToolPairing\<close> (results for every call, the check before
  a compaction), \<open>HistoryBuild\<close> (system prompt, grouping of turns, thinking of finished turns) and
  \<open>RequestConversion\<close> (ids, placeholder tools, \<open>convert_request_with_purpose\<close>).

  Prompt cache (\<open>src/anthropic/cache_metering.rs\<close>): \<open>CacheMeter\<close> (the bounded table with its sweeps,
  snapshots, counters and settings), \<open>RequestTypes\<close> (\<open>src/anthropic/types.rs\<close>: the decoded request),
  \<open>PromptBlocks\<close> (blocks, breakpoints and lookback; image sizes of \<open>src/image_resize.rs\<close>), \<open>PromptCache\<close>
  (prefix hashes and the usage of a request, alone or with a shared store) and \<open>PromptReuse\<close> (what a
  later turn of a conversation reads).  SHA-256, the JSON printer and parser, base64 and image headers
  are parameters (\<open>prompt_env\<close>).

  \<^bold>\<open>How the models are built.\<close>  A struct is a record, an enum a datatype, \<open>Result\<close> a sum, a \<open>String\<close> the
  list of its bytes; methods take the state and return it updated, with the events they emit.  A
  loop whose turns decide between returning and going on is a function on values of \<open>turn\<close>, total by
  a measure.  A hash map is an association list and the order it is walked in a parameter, of which
  the theorems assume only that it rearranges.  Block indices and the token counters of one reply
  (\<open>i32\<close>) are unbounded integers; times, rates and sizes that can wrap are words.

  \<^bold>\<open>What is shown of replies.\<close>  \<open>EventProtocol\<close> states the protocol of the client as an automaton over
  events and shows that each operation of the state manager is a step of it.  \<open>StreamProtocol\<close> lifts
  this along \<open>and_then\<close> to every handler of \<open>StreamContext\<close>, by an invariant between its fields and the
  blocks.  \<open>MessageStream\<close> puts decoder, event parsing and translation together: whatever bytes
  arrive and however the connection ends, the client gets one well-formed stream, without condition
  when thinking is off, and otherwise with two exceptions that are shown to be necessary
  (\<open>redacted_breaks_protocol\<close>, \<open>cut_off_breaks_protocol\<close>).  Beside it stand the properties of the text
  filters: no text is lost or reordered by the sniffer, and a recovered call takes the place of tool blocks and
  stray markers only; the leak filter and the repeat guard do not depend on the chunking (for chunks as the theorems say), a recovered call fits its schema.

  \<^bold>\<open>What is shown of the prompt cache.\<close>  The table keeps its size limit, its entries and tombstones stay
  apart and its counters add up over every sequence of operations; it refines an unbounded table of
  entries with expiry times, and evicts exactly the least recently used.  The client of the selection
  of victims is the locale \<open>selection\<close>, interpreted by sorting.  Breakpoints are the wanted ones exactly
  when the request is legal; the bytes hashed for a prefix give back the key, the session, the settings and every
  piece of the prompt up to its end; and a later turn whose breakpoint is within reach reads what an earlier one wrote.

  \<^bold>\<open>What is shown of requests.\<close>  Every converted request is well formed (\<open>converted_request_well_formed\<close>): roles
  alternate after the exchange with the system prompt, the results of the current message answer exactly
  the calls the history leaves open, and every called tool is defined.  \<open>conversion_succeeds_iff\<close> says when a
  conversion succeeds; the branches it excludes cannot be reached.  Below them stand the steps: the history
  keeps calls and results in order, pairing adds one result per open call in the next user message, the
  compaction check accepts the complete conversations, schemas reach a normal form that is left alone, and
  names of one Claude model agree in all spellings.  An image is passed on as it came or as an encoding of its own
  picture within the limits.

  \<^bold>\<open>What is shown of upstream calls.\<close>  The locale \<open>pool_upkeep\<close> and its extension \<open>pool_relation\<close> name what a
  relation between pools must allow (refreshes, reports, and what others do) to hold over an attempt; they are
  interpreted for the counts in flight (\<open>flights_kept\<close>), the credentials out of service (\<open>standing_kept\<close>,
  \<open>out_kept\<close>) and the request windows (\<open>windows_kept\<close>).  So no call leaks a count, a credential found banned or exhausted is not used again and is found so exactly
  when the answer says it (as the settings of the pool, kept by \<open>settings_kept\<close>, read it), a reply is sent with the credentials and by
  the client of the credential it names, the attempts of a call are bounded in all, though not for each credential
  (\<open>one_credential_tried_four_times\<close>), and every call ends.  The clients in the cache are bounded and each request
  gets one built for its own proxy.

  \<^bold>\<open>Fuel.\<close>  \<open>decode_iter\<close> has fuel, two more than the bytes in the buffer: each item consumes a byte, an error or
  the end takes one step more, and \<open>decode_iter_terminates\<close> shows that it suffices.  The request loop of
  \<open>acquire_context_impl\<close> may reload tokens without counting an attempt; \<open>acquire_context_terminates\<close> bounds its
  rounds.  A call gives each of its choices \<open>ve_fuel\<close> rounds; \<open>calls_answer\<close> shows how many are enough for all of
  them.

  \<^bold>\<open>Not modelled.\<close>  HTTP, TLS and timers; serde, UUIDs, SHA-256, the image codec, base64, Unicode
  case tables and the JSON parser (parameters); the
  Redis client behind the shared store of the prompt cache, the web search
  loop, the other protocol adapters, structured output and output recovery, the management API with
  its statistics, and the web interface.  The manifest lists them with the reasons.
\<close>

end
